(* ===== verification/GL_Prelude.thy ===== *)
theory GL_Prelude
  imports Complex_Main "HOL-Library.AList" "HOL-Library.Char_ord"
    "HOL-Library.List_Lexorder" "HOL-Library.Product_Lexorder"
begin

text \<open>
  Shared vocabulary of the development: Python dictionaries as association lists, exceptions
  as the left summand of a sum type, loops that may raise, and the generic lemmas on them
  that the component theories use.

  A Python \<open>dict\<close> keeps the order in which keys were first inserted, and an assignment to a
  present key keeps its place.  \<open>AList.update\<close> does exactly that on an association list,
  so a dictionary is an association list with distinct keys; lookups are \<open>map_of\<close>.
\<close>

named_theorems dict_simps \<open>lookups, keys and values of dictionaries after an update\<close>
named_theorems res_simps \<open>computations that may raise\<close>

section \<open>Dictionaries\<close>

type_synonym ('k, 'v) pydict = "('k \<times> 'v) list"

abbreviation dget :: "('k, 'v) pydict \<Rightarrow> 'k \<Rightarrow> 'v option" where
  "dget \<equiv> map_of"

abbreviation dset :: "'k \<Rightarrow> 'v \<Rightarrow> ('k, 'v) pydict \<Rightarrow> ('k, 'v) pydict" where
  "dset \<equiv> AList.update"

abbreviation ddel :: "'k \<Rightarrow> ('k, 'v) pydict \<Rightarrow> ('k, 'v) pydict" where
  "ddel \<equiv> AList.delete"

abbreviation dkeys :: "('k, 'v) pydict \<Rightarrow> 'k list" where
  "dkeys d \<equiv> map fst d"

abbreviation dvalues :: "('k, 'v) pydict \<Rightarrow> 'v list" where
  "dvalues d \<equiv> map snd d"

definition dict_ok :: "('k, 'v) pydict \<Rightarrow> bool" where
  "dict_ok d \<longleftrightarrow> distinct (dkeys d)"

text \<open>\<open>d.get(k, default)\<close> and \<open>k in d\<close>.\<close>

definition dget_default :: "('k, 'v) pydict \<Rightarrow> 'k \<Rightarrow> 'v \<Rightarrow> 'v" where
  "dget_default d k v = (case dget d k of None \<Rightarrow> v | Some w \<Rightarrow> w)"

definition dmem :: "'k \<Rightarrow> ('k, 'v) pydict \<Rightarrow> bool" where
  "dmem k d \<longleftrightarrow> dget d k \<noteq> None"

text \<open>\<open>d.setdefault(k, []).append(v)\<close>.\<close>

definition dappend :: "'k \<Rightarrow> 'v \<Rightarrow> ('k, 'v list) pydict \<Rightarrow> ('k, 'v list) pydict" where
  "dappend k v d = dset k (dget_default d k [] @ [v]) d"

text \<open>Equality of Python dictionaries ignores the order of the keys.\<close>

definition dict_eq :: "('k, 'v) pydict \<Rightarrow> ('k, 'v) pydict \<Rightarrow> bool" where
  "dict_eq d e \<longleftrightarrow> (\<forall>k \<in> set (dkeys d @ dkeys e). dget d k = dget e k)"

lemma dget_dset [simp, dict_simps]: "dget (dset k v d) = (dget d)(k \<mapsto> v)"
  by (rule update_conv')

lemma dget_ddel [simp, dict_simps]: "dget (ddel k d) = (dget d)(k := None)"
  by (rule delete_conv')

lemma dict_ok_Nil [simp]: "dict_ok []"
  by (simp add: dict_ok_def)

lemma dict_ok_dset [simp, intro]: "dict_ok d \<Longrightarrow> dict_ok (dset k v d)"
  by (simp add: dict_ok_def distinct_update)

lemma dict_ok_ddel [simp, intro]: "dict_ok d \<Longrightarrow> dict_ok (ddel k d)"
  by (simp add: dict_ok_def distinct_delete)

lemma dict_ok_dappend [simp, intro]: "dict_ok d \<Longrightarrow> dict_ok (dappend k v d)"
  by (simp add: dappend_def)

lemma dget_dappend [simp, dict_simps]:
  "dget (dappend k v d) = (dget d)(k \<mapsto> dget_default d k [] @ [v])"
  by (simp add: dappend_def)

lemma dget_default_simps [simp]:
  "dget d k = Some w \<Longrightarrow> dget_default d k v = w"
  "dget d k = None \<Longrightarrow> dget_default d k v = v"
  by (simp_all add: dget_default_def)

lemma set_dkeys: "set (dkeys d) = dom (dget d)"
  by (simp add: dom_map_of_conv_image_fst)

lemma dmem_iff: "dmem k d \<longleftrightarrow> k \<in> set (dkeys d)"
  by (metis dmem_def map_of_eq_None_iff set_map)

lemma dget_in_set: "dict_ok d \<Longrightarrow> (k, v) \<in> set d \<longleftrightarrow> dget d k = Some v"
  by (simp add: dict_ok_def)

lemma set_dvalues: "dict_ok d \<Longrightarrow> set (dvalues d) = ran (dget d)"
  by (force simp: ran_def dget_in_set [symmetric] image_iff)

lemma dkeys_dset: "dkeys (dset k v d) = (if k \<in> set (dkeys d) then dkeys d else dkeys d @ [k])"
  by (induction d) auto

lemma dict_eq_iff: "dict_eq d e \<longleftrightarrow> dget d = dget e"
proof
  assume eq: "dict_eq d e"
  show "dget d = dget e"
  proof
    fix k
    show "dget d k = dget e k"
    proof (cases "k \<in> set (dkeys d @ dkeys e)")
      case True
      with eq show ?thesis by (simp add: dict_eq_def)
    next
      case False
      then have "dget d k = None" and "dget e k = None"
        by (auto simp: map_of_eq_None_iff)
      then show ?thesis by simp
    qed
  qed
qed (simp add: dict_eq_def)

lemma dget_map_values: "dget (map (\<lambda>(k, v). (k, f k v)) d) k = map_option (f k) (dget d k)"
  by (induction d) auto

lemma dget_tabulate: "dget (map (\<lambda>k. (k, f k)) ks) k = (if k \<in> set ks then Some (f k) else None)"
  by (induction ks) auto

lemma dget_index_None: "dget (map (\<lambda>x. (f x, x)) xs) k = None \<longleftrightarrow> k \<notin> f ` set xs"
  by (induction xs) auto

lemma dget_index_Some:
  "distinct (map f xs) \<Longrightarrow> x \<in> set xs \<Longrightarrow> dget (map (\<lambda>x. (f x, x)) xs) (f x) = Some x"
  by (induction xs) (auto simp: image_iff)

lemma dget_default_memD: "x \<in> set (dget_default d k []) \<Longrightarrow> k \<in> dom (dget d)"
  by (cases "dget d k") auto

section \<open>Computations that may raise\<close>

text \<open>
  The exceptions of \<open>groundloop/errors.py\<close> and the built-in ones the modelled code raises.
  Messages are not modelled.
\<close>

datatype gl_error =
    ValidationError
  | DuplicateIdentifierError
  | DanglingReferenceError
  | EventConflictError
  | InvalidEventError
  | ArtifactConflictError
  | DifferentialMismatchError
  | AssertionError
  | KeyError
  | ValueError
  | IndexError

type_synonym 'a res = "gl_error + 'a"

definition bind_res :: "'a res \<Rightarrow> ('a \<Rightarrow> 'b res) \<Rightarrow> 'b res" where
  "bind_res m f = (case m of Inl e \<Rightarrow> Inl e | Inr x \<Rightarrow> f x)"

text \<open>\<open>d[k]\<close> of a dictionary, raising \<open>e\<close> when the key is absent.\<close>

definition lookup :: "gl_error \<Rightarrow> ('k, 'v) pydict \<Rightarrow> 'k \<Rightarrow> 'v res" where
  "lookup e d k = (case dget d k of None \<Rightarrow> Inl e | Some v \<Rightarrow> Inr v)"

text \<open>A loop over a list whose body may raise, and a comprehension whose body may raise.\<close>

fun fold_res :: "('a \<Rightarrow> 's \<Rightarrow> 's res) \<Rightarrow> 'a list \<Rightarrow> 's \<Rightarrow> 's res" where
  "fold_res f [] s = Inr s"
| "fold_res f (x # xs) s = bind_res (f x s) (fold_res f xs)"

fun traverse :: "('a \<Rightarrow> 'b res) \<Rightarrow> 'a list \<Rightarrow> 'b list res" where
  "traverse f [] = Inr []"
| "traverse f (x # xs) =
     bind_res (f x) (\<lambda>y. bind_res (traverse f xs) (\<lambda>ys. Inr (y # ys)))"

lemma bind_res_simps [simp, res_simps]:
  "bind_res (Inr x) f = f x"
  "bind_res (Inl e) f = Inl e"
  by (simp_all add: bind_res_def)

text \<open>Inlined as a \<open>case\<close>, the continuation is evaluated only when there is a value.\<close>

lemma bind_res_unfold [code_unfold]: "bind_res m f = (case m of Inl e \<Rightarrow> Inl e | Inr x \<Rightarrow> f x)"
  by (rule bind_res_def)

lemma bind_res_Inr_iff [res_simps]:
  "bind_res m f = Inr y \<longleftrightarrow> (\<exists>x. m = Inr x \<and> f x = Inr y)"
  by (cases m) auto

lemma bind_res_Inl_iff [res_simps]:
  "bind_res m f = Inl e \<longleftrightarrow> m = Inl e \<or> (\<exists>x. m = Inr x \<and> f x = Inl e)"
  by (cases m) auto

lemma bind_res_InrE:
  assumes "bind_res m f = Inr y"
  obtains x where "m = Inr x" and "f x = Inr y"
  using assms by (auto simp: bind_res_Inr_iff)

lemma lookup_Some [simp]: "dget d k = Some v \<Longrightarrow> lookup e d k = Inr v"
  by (simp add: lookup_def)

lemma lookup_None [simp]: "dget d k = None \<Longrightarrow> lookup e d k = Inl e"
  by (simp add: lookup_def)

lemma lookup_Inr_iff [res_simps]: "lookup e d k = Inr v \<longleftrightarrow> dget d k = Some v"
  by (simp add: lookup_def split: option.split)

lemma lookup_Inl_iff [res_simps]: "lookup e d k = Inl e' \<longleftrightarrow> dget d k = None \<and> e' = e"
  by (auto simp: lookup_def split: option.split)

lemma fold_res_append:
  "fold_res f (xs @ ys) s = bind_res (fold_res f xs s) (fold_res f ys)"
proof (induction xs arbitrary: s)
  case (Cons x xs)
  then show ?case by (cases "f x s") simp_all
qed simp

lemma traverse_Inr_map: "(\<And>x. x \<in> set xs \<Longrightarrow> f x = Inr (g x)) \<Longrightarrow> traverse f xs = Inr (map g xs)"
  by (induction xs) simp_all

lemma traverse_Inr_conv:
  "traverse f xs = Inr ys \<longleftrightarrow> list_all2 (\<lambda>x y. f x = Inr y) xs ys"
proof (induction xs arbitrary: ys)
  case (Cons x xs)
  then show ?case
    by (cases "f x") (auto simp: bind_res_Inr_iff list_all2_Cons1)
qed auto

text \<open>An invariant that every step keeps holds after the loop, if the loop does not raise.\<close>

lemma fold_res_invariant:
  assumes "fold_res f xs s = Inr t" and "P s"
    and "\<And>x s s'. x \<in> set xs \<Longrightarrow> P s \<Longrightarrow> f x s = Inr s' \<Longrightarrow> P s'"
  shows "P t"
  using assms
proof (induction xs arbitrary: s)
  case (Cons x xs)
  from Cons.prems(1) obtain u where u: "f x s = Inr u" "fold_res f xs u = Inr t"
    by (auto elim: bind_res_InrE)
  have "P u" using Cons.prems(2,3) u(1) by (metis list.set_intros(1))
  then show ?case using Cons.IH [OF u(2)] Cons.prems(3) by (metis list.set_intros(2))
qed simp

text \<open>
  A loop whose every step succeeds: the invariant is indexed by the elements already
  processed, so that it can speak of the state reached after a prefix.
\<close>

lemma fold_res_total_prefix:
  assumes "P [] s"
    and step: "\<And>ys x zs s. xs = ys @ x # zs \<Longrightarrow> P ys s \<Longrightarrow> \<exists>s'. f x s = Inr s' \<and> P (ys @ [x]) s'"
  shows "\<exists>t. fold_res f xs s = Inr t \<and> P xs t"
proof -
  have "\<exists>t. fold_res f zs s = Inr t \<and> P (ys @ zs) t" if "xs = ys @ zs" "P ys s" for ys zs s
    using that
  proof (induction zs arbitrary: ys s)
    case (Cons x zs)
    from step [OF Cons.prems] obtain s' where s': "f x s = Inr s'" "P (ys @ [x]) s'" by blast
    with Cons.IH [of "ys @ [x]" s'] Cons.prems(1) show ?case by simp
  qed simp
  from this [of "[]" xs s] assms(1) show ?thesis by simp
qed

section \<open>Sorted lists and maxima\<close>

text \<open>\<open>max(xs, default=None)\<close>.\<close>

definition max_opt :: "'a::linorder list \<Rightarrow> 'a option" where
  "max_opt xs = (case xs of [] \<Rightarrow> None | y # ys \<Rightarrow> Some (fold max ys y))"

lemma max_opt_set: "max_opt xs = (if set xs = {} then None else Some (Max (set xs)))"
proof (cases xs)
  case (Cons y ys)
  have "fold max ys y = Max (set (y # ys))" by (simp only: Max.set_eq_fold)
  with Cons show ?thesis by (simp add: max_opt_def)
qed (simp add: max_opt_def)

lemma sort_distinct_set: "distinct xs \<Longrightarrow> sort xs = sorted_list_of_set (set xs)"
  by (metis distinct_sort set_sort sorted_sort sorted_list_of_set.idem_if_sorted_distinct)

end
