(* ===== verification/GL_Domain.thy ===== *)
theory GL_Domain
  imports GL_Prelude
begin

text \<open>
  The immutable records of \<open>groundloop/domain.py\<close>, the validating constructors of the ones that
  have a \<open>__post_init__\<close>, and the frozen decision rule of \<open>groundloop/policy.py\<close>.

  An identifier is a \<open>string\<close>, a list of code points below 256, ordered as Python orders
  strings.  A text, which may hold any character, is the list of its code points.  A finite Python
  float is the rational number it denotes; the code only ever compares scores.  The digest
  \<open>hashlib.sha256(text.encode()).hexdigest()\<close> is the parameter \<open>sha\<close> of the definitions that use
  it: the theorems hold for every function in its place.
\<close>

section \<open>Text normalization\<close>

type_synonym py_text = "int list"

text \<open>The code points that \<open>str.isspace\<close>, \<open>str.strip\<close> and the regular expression \<open>\s\<close> share.\<close>

definition py_whitespace :: "int list" where
  "py_whitespace =
     [9, 10, 11, 12, 13, 28, 29, 30, 31, 32, 133, 160, 5760,
      8192, 8193, 8194, 8195, 8196, 8197, 8198, 8199, 8200, 8201, 8202,
      8232, 8233, 8239, 8287, 12288]"

definition py_isspace :: "int \<Rightarrow> bool" where
  "py_isspace c \<longleftrightarrow> c \<in> set py_whitespace"

definition py_strip :: "py_text \<Rightarrow> py_text" where
  "py_strip t = rev (dropWhile py_isspace (rev (dropWhile py_isspace t)))"

text \<open>\<open>_WHITESPACE_RUN.sub(" ", t)\<close>: every maximal run of white space becomes one space.\<close>

function sub_whitespace_runs :: "py_text \<Rightarrow> py_text" where
  "sub_whitespace_runs [] = []"
| "sub_whitespace_runs (c # cs) =
     (if py_isspace c then 32 # sub_whitespace_runs (dropWhile py_isspace cs)
      else c # sub_whitespace_runs cs)"
  by pat_completeness auto
termination
  by (relation "measure length") (auto simp: le_imp_less_Suc length_dropWhile_le)

definition normalized_text :: "py_text \<Rightarrow> py_text" where
  "normalized_text t = sub_whitespace_runs (py_strip t)"

definition normalized_text_hash :: "(py_text \<Rightarrow> string) \<Rightarrow> py_text \<Rightarrow> string" where
  "normalized_text_hash sha t = sha (normalized_text t)"

section \<open>Enumerations\<close>

datatype verification_label = SUPPORT | REFUTE | NEUTRAL

datatype subject_kind = CLAIM | REQUIREMENT

datatype claim_status = SUPPORTED | UNSUPPORTED | REFUTED | CONFLICTED

datatype answer_status =
    VALID | PARTIALLY_SUPPORTED | ANSWER_UNSUPPORTED | ANSWER_CONFLICTED | CONTRADICTED

datatype evaluation_state = EV_COMPLETE | EV_PENDING | EV_DEGRADED | EV_FAILED

datatype update_operation = OP_INSERT | OP_DELETE | OP_REPLACE | OP_POLICY_CHANGE | OP_OBSERVE

text \<open>The wire values of the string enumerations.\<close>

fun claim_status_value :: "claim_status \<Rightarrow> string" where
  "claim_status_value SUPPORTED = ''supported''"
| "claim_status_value UNSUPPORTED = ''unsupported''"
| "claim_status_value REFUTED = ''refuted''"
| "claim_status_value CONFLICTED = ''conflicted''"

fun answer_status_value :: "answer_status \<Rightarrow> string" where
  "answer_status_value VALID = ''valid''"
| "answer_status_value PARTIALLY_SUPPORTED = ''partially_supported''"
| "answer_status_value ANSWER_UNSUPPORTED = ''unsupported''"
| "answer_status_value ANSWER_CONFLICTED = ''conflicted''"
| "answer_status_value CONTRADICTED = ''contradicted''"

fun update_operation_value :: "update_operation \<Rightarrow> string" where
  "update_operation_value OP_INSERT = ''insert''"
| "update_operation_value OP_DELETE = ''delete''"
| "update_operation_value OP_REPLACE = ''replace''"
| "update_operation_value OP_POLICY_CHANGE = ''policy_change''"
| "update_operation_value OP_OBSERVE = ''observe''"

lemma claim_status_value_inject [simp]: "claim_status_value a = claim_status_value b \<longleftrightarrow> a = b"
  by (cases a; cases b) simp_all

lemma answer_status_value_inject [simp]: "answer_status_value a = answer_status_value b \<longleftrightarrow> a = b"
  by (cases a; cases b) simp_all

text \<open>Claim statuses are ordered by their wire value, as \<open>sorted(..., key=item.value)\<close> orders them.\<close>

instantiation claim_status :: linorder
begin

definition less_eq_claim_status :: "claim_status \<Rightarrow> claim_status \<Rightarrow> bool" where
  "less_eq_claim_status a b \<longleftrightarrow> claim_status_value a \<le> claim_status_value b"

definition less_claim_status :: "claim_status \<Rightarrow> claim_status \<Rightarrow> bool" where
  "less_claim_status a b \<longleftrightarrow> claim_status_value a < claim_status_value b"

instance
  by standard (auto simp: less_eq_claim_status_def less_claim_status_def less_le)

end

section \<open>Records\<close>

record model_stamp =
  ms_model_id :: string
  ms_model_version :: string
  ms_prompt_version :: string

record document_version =
  dv_document_version_id :: string
  dv_document_id :: string
  dv_content_hash :: string

record chunk_version =
  cv_chunk_version_id :: string
  cv_document_version_id :: string
  cv_chunk_index :: int
  cv_text :: py_text
  cv_text_hash :: string

record question =
  qu_question_id :: string
  qu_text :: py_text

record answer_version =
  av_answer_version_id :: string
  av_question_id :: string
  av_text :: py_text
  av_producer :: model_stamp

record claim =
  cl_claim_id :: string
  cl_answer_version_id :: string
  cl_text :: py_text
  cl_extractor :: model_stamp
  cl_required :: bool

type_synonym observation_key = "subject_kind \<times> string \<times> string \<times> string"

record semantic_observation =
  ob_observation_id :: string
  ob_subject_kind :: subject_kind
  ob_subject_id :: string
  ob_chunk_version_id :: string
  ob_task_type :: string
  ob_support_score :: rat
  ob_refute_score :: rat
  ob_neutral_score :: rat
  ob_producer :: model_stamp
  ob_input_hash :: string

record decision_policy =
  dp_policy_version :: string
  dp_support_threshold :: rat
  dp_refute_threshold :: rat
  dp_tie_rule_version :: string

record claim_state =
  cs_claim_id :: string
  cs_support_count :: nat
  cs_refute_count :: nat
  cs_best_support_score :: "rat option"
  cs_best_refute_score :: "rat option"
  cs_supporting_observation_ids :: "string list"
  cs_refuting_observation_ids :: "string list"
  cs_status :: claim_status

record answer_state =
  as_answer_version_id :: string
  as_required_claim_count :: int
  as_supported_count :: int
  as_unsupported_count :: int
  as_refuted_count :: int
  as_conflicted_count :: int
  as_status :: answer_status

record status_delta =
  sd_event_id :: string
  sd_object_type :: string
  sd_object_id :: string
  sd_old_status :: string
  sd_new_status :: string
  sd_reason :: string

definition observation_key :: "semantic_observation \<Rightarrow> observation_key" where
  "observation_key ob =
     (ob_subject_kind ob, ob_subject_id ob, ob_chunk_version_id ob, ob_task_type ob)"

section \<open>Validating constructors\<close>

text \<open>\<open>ChunkVersion(...)\<close>; \<open>supplied\<close> is the \<open>text_hash\<close> argument, empty by default.\<close>

definition make_chunk_version ::
    "(py_text \<Rightarrow> string) \<Rightarrow> string \<Rightarrow> string \<Rightarrow> int \<Rightarrow> py_text \<Rightarrow> string \<Rightarrow> chunk_version res" where
  "make_chunk_version sha cid dvid idx txt supplied =
     (if idx < 0 then Inl ValidationError
      else let expected = normalized_text_hash sha txt in
        if supplied = '''' then
          Inr \<lparr>cv_chunk_version_id = cid, cv_document_version_id = dvid, cv_chunk_index = idx,
               cv_text = txt, cv_text_hash = expected\<rparr>
        else if supplied \<noteq> expected then Inl ValidationError
        else Inr \<lparr>cv_chunk_version_id = cid, cv_document_version_id = dvid, cv_chunk_index = idx,
                  cv_text = txt, cv_text_hash = supplied\<rparr>)"

text \<open>A raw Python float, and the check \<open>math.isfinite(x) and 0.0 <= x <= 1.0\<close>.\<close>

datatype pyfloat = Finite rat | PosInf | NegInf | NaN

fun check_unit_float :: "pyfloat \<Rightarrow> rat res" where
  "check_unit_float (Finite q) = (if 0 \<le> q \<and> q \<le> 1 then Inr q else Inl ValidationError)"
| "check_unit_float _ = Inl ValidationError"

definition make_observation ::
    "string \<Rightarrow> subject_kind \<Rightarrow> string \<Rightarrow> string \<Rightarrow> string \<Rightarrow> pyfloat \<Rightarrow> pyfloat \<Rightarrow> pyfloat
      \<Rightarrow> model_stamp \<Rightarrow> string \<Rightarrow> semantic_observation res" where
  "make_observation oid kind subj chunk task s r n producer ihash =
     bind_res (check_unit_float s) (\<lambda>s'.
     bind_res (check_unit_float r) (\<lambda>r'.
     bind_res (check_unit_float n) (\<lambda>n'.
       Inr \<lparr>ob_observation_id = oid, ob_subject_kind = kind, ob_subject_id = subj,
            ob_chunk_version_id = chunk, ob_task_type = task, ob_support_score = s',
            ob_refute_score = r', ob_neutral_score = n', ob_producer = producer,
            ob_input_hash = ihash\<rparr>)))"

definition make_policy :: "string \<Rightarrow> pyfloat \<Rightarrow> pyfloat \<Rightarrow> string \<Rightarrow> decision_policy res" where
  "make_policy version ts tr tie =
     bind_res (check_unit_float ts) (\<lambda>ts'.
     bind_res (check_unit_float tr) (\<lambda>tr'.
       if tie \<noteq> ''v1'' then Inl ValidationError
       else Inr \<lparr>dp_policy_version = version, dp_support_threshold = ts',
                 dp_refute_threshold = tr', dp_tie_rule_version = tie\<rparr>))"

definition observation_valid :: "semantic_observation \<Rightarrow> bool" where
  "observation_valid ob \<longleftrightarrow>
     ob_support_score ob \<in> {0..1} \<and> ob_refute_score ob \<in> {0..1} \<and> ob_neutral_score ob \<in> {0..1}"

definition policy_valid :: "decision_policy \<Rightarrow> bool" where
  "policy_valid p \<longleftrightarrow>
     dp_support_threshold p \<in> {0..1} \<and> dp_refute_threshold p \<in> {0..1} \<and>
     dp_tie_rule_version p = ''v1''"

lemma check_unit_float_Inr: "check_unit_float x = Inr q \<longleftrightarrow> x = Finite q \<and> 0 \<le> q \<and> q \<le> 1"
  by (cases x) auto

lemma make_observation_valid:
  "make_observation oid kind subj chunk task s r n producer ihash = Inr ob \<Longrightarrow> observation_valid ob"
  by (auto simp: make_observation_def observation_valid_def res_simps check_unit_float_Inr)

lemma make_policy_valid: "make_policy version ts tr tie = Inr p \<Longrightarrow> policy_valid p"
  by (auto simp: make_policy_def policy_valid_def res_simps check_unit_float_Inr split: if_splits)

section \<open>The decision rule\<close>

text \<open>\<open>policy.decide\<close>, tie rule v1.\<close>

definition decide :: "semantic_observation \<Rightarrow> decision_policy \<Rightarrow> verification_label" where
  "decide ob p =
     (let s = ob_support_score ob; r = ob_refute_score ob; n = ob_neutral_score ob in
      if dp_refute_threshold p \<le> r \<and> s \<le> r \<and> n \<le> r then REFUTE
      else if dp_support_threshold p \<le> s \<and> r < s \<and> n < s then SUPPORT
      else NEUTRAL)"

lemma decide_REFUTE_iff:
  "decide ob p = REFUTE \<longleftrightarrow>
     dp_refute_threshold p \<le> ob_refute_score ob \<and>
     ob_support_score ob \<le> ob_refute_score ob \<and> ob_neutral_score ob \<le> ob_refute_score ob"
  by (auto simp: decide_def Let_def)

lemma decide_SUPPORT_iff:
  "decide ob p = SUPPORT \<longleftrightarrow>
     dp_support_threshold p \<le> ob_support_score ob \<and>
     ob_refute_score ob < ob_support_score ob \<and> ob_neutral_score ob < ob_support_score ob"
  by (auto simp: decide_def Let_def)

text \<open>
  A label changes between two policies only if one of the scores lies between the old and the
  new threshold of its side: the fact that licenses range-indexed policy deltas.
\<close>

definition in_threshold_gap :: "rat \<Rightarrow> rat \<Rightarrow> rat \<Rightarrow> bool" where
  "in_threshold_gap old new x \<longleftrightarrow> min old new \<le> x \<and> x < max old new"

lemma decide_stable_outside_gaps:
  assumes "\<not> in_threshold_gap (dp_support_threshold p) (dp_support_threshold q) (ob_support_score ob)"
    and "\<not> in_threshold_gap (dp_refute_threshold p) (dp_refute_threshold q) (ob_refute_score ob)"
  shows "decide ob p = decide ob q"
  using assms
  by (auto simp: decide_def Let_def in_threshold_gap_def min_def max_def split: if_splits)

end
