(* ===== verification/GL_Repository.thy ===== *)
theory GL_Repository
  imports GL_Domain
begin

text \<open>
  The in-memory historical repository of \<open>groundloop/repository.py\<close>: its state, its
  registration, deactivation and currency operations, its queries, and the well-formedness
  invariant that every operation keeps.  A method that mutates \<open>self\<close> takes the state and
  returns the new one, or the exception it raises; a raising method leaves no partial update
  because every check precedes the first assignment, as in the source.
\<close>

section \<open>State\<close>

text \<open>A half-open validity interval; \<open>None\<close> is an open end.\<close>

type_synonym interval = "nat \<times> nat option"

definition interval_active :: "interval \<Rightarrow> bool" where
  "interval_active iv \<longleftrightarrow> snd iv = None"

record repo =
  current_epoch :: nat
  document_versions :: "(string, document_version) pydict"
  document_version_validity :: "(string, interval) pydict"
  versions_by_document :: "(string, string list) pydict"
  chunk_versions :: "(string, chunk_version) pydict"
  chunk_validity :: "(string, interval) pydict"
  chunks_by_document_version :: "(string, string list) pydict"
  questions :: "(string, question) pydict"
  answers :: "(string, answer_version) pydict"
  claims :: "(string, claim) pydict"
  claims_by_answer :: "(string, string list) pydict"
  observations :: "(string, semantic_observation) pydict"
  reserved_observation_ids :: "string set"
  current_by_key :: "(observation_key, string) pydict"
  superseded :: "string set"
  observations_by_chunk :: "(string, string list) pydict"
  policies :: "(string, decision_policy) pydict"
  policy_validity :: "(string, interval) pydict"
  current_policy_version :: "string option"
  processed_events :: "(string, string \<times> status_delta list) pydict"
  status_deltas :: "status_delta list"

definition empty_repo :: repo where
  "empty_repo =
     \<lparr>current_epoch = 0, document_versions = [], document_version_validity = [],
      versions_by_document = [], chunk_versions = [], chunk_validity = [],
      chunks_by_document_version = [], questions = [], answers = [], claims = [],
      claims_by_answer = [], observations = [], reserved_observation_ids = {},
      current_by_key = [], superseded = {}, observations_by_chunk = [], policies = [],
      policy_validity = [], current_policy_version = None, processed_events = [],
      status_deltas = []\<rparr>"

section \<open>Queries\<close>

definition current_policy :: "repo \<Rightarrow> decision_policy res" where
  "current_policy r =
     (case current_policy_version r of
        None \<Rightarrow> Inl ValidationError
      | Some v \<Rightarrow> lookup KeyError (policies r) v)"

definition has_document_version :: "repo \<Rightarrow> string \<Rightarrow> bool" where
  "has_document_version r v \<longleftrightarrow> dmem v (document_versions r)"

definition has_chunk_version :: "repo \<Rightarrow> string \<Rightarrow> bool" where
  "has_chunk_version r c \<longleftrightarrow> dmem c (chunk_versions r)"

definition has_observation_id :: "repo \<Rightarrow> string \<Rightarrow> bool" where
  "has_observation_id r i \<longleftrightarrow> dmem i (observations r) \<or> i \<in> reserved_observation_ids r"

fun first_active_version :: "(string, interval) pydict \<Rightarrow> string list \<Rightarrow> string option res" where
  "first_active_version validity [] = Inr None"
| "first_active_version validity (v # vs) =
     bind_res (lookup KeyError validity v) (\<lambda>iv.
       if interval_active iv then Inr (Some v) else first_active_version validity vs)"

definition active_document_version :: "repo \<Rightarrow> string \<Rightarrow> string option res" where
  "active_document_version r d =
     first_active_version (document_version_validity r) (dget_default (versions_by_document r) d [])"

definition document_version_of :: "repo \<Rightarrow> string \<Rightarrow> document_version res" where
  "document_version_of r v = lookup DanglingReferenceError (document_versions r) v"

definition document_versions_of :: "repo \<Rightarrow> string \<Rightarrow> string list" where
  "document_versions_of r d = dget_default (versions_by_document r) d []"

definition chunk_version_of :: "repo \<Rightarrow> string \<Rightarrow> chunk_version res" where
  "chunk_version_of r c = lookup DanglingReferenceError (chunk_versions r) c"

definition is_chunk_active :: "repo \<Rightarrow> string \<Rightarrow> bool" where
  "is_chunk_active r c =
     (case dget (chunk_validity r) c of None \<Rightarrow> False | Some iv \<Rightarrow> interval_active iv)"

definition chunk_ids_of_document_version :: "repo \<Rightarrow> string \<Rightarrow> string list" where
  "chunk_ids_of_document_version r v = dget_default (chunks_by_document_version r) v []"

definition claim_of :: "repo \<Rightarrow> string \<Rightarrow> claim res" where
  "claim_of r c = lookup DanglingReferenceError (claims r) c"

definition all_claim_ids :: "repo \<Rightarrow> string list" where
  "all_claim_ids r = dkeys (claims r)"

definition answer_of :: "repo \<Rightarrow> string \<Rightarrow> answer_version res" where
  "answer_of r a = lookup DanglingReferenceError (answers r) a"

definition all_answer_ids :: "repo \<Rightarrow> string list" where
  "all_answer_ids r = dkeys (answers r)"

definition claim_ids_of_answer :: "repo \<Rightarrow> string \<Rightarrow> string list" where
  "claim_ids_of_answer r a = dget_default (claims_by_answer r) a []"

definition observation_of :: "repo \<Rightarrow> string \<Rightarrow> semantic_observation res" where
  "observation_of r i = lookup DanglingReferenceError (observations r) i"

definition is_observation_superseded :: "repo \<Rightarrow> string \<Rightarrow> bool res" where
  "is_observation_superseded r i =
     (if \<not> dmem i (observations r) then Inl DanglingReferenceError
      else Inr (i \<in> superseded r))"

definition observations_for_chunk :: "repo \<Rightarrow> string \<Rightarrow> string list" where
  "observations_for_chunk r c = dget_default (observations_by_chunk r) c []"

definition current_observations :: "repo \<Rightarrow> semantic_observation list res" where
  "current_observations r = traverse (lookup KeyError (observations r)) (dvalues (current_by_key r))"

definition current_observation_id :: "repo \<Rightarrow> observation_key \<Rightarrow> string option" where
  "current_observation_id r k = dget (current_by_key r) k"

fun select_current :: "repo \<Rightarrow> string list \<Rightarrow> string list res" where
  "select_current r [] = Inr []"
| "select_current r (i # is) =
     bind_res (lookup KeyError (observations r) i) (\<lambda>ob.
     bind_res (select_current r is) (\<lambda>rest.
       Inr (if dget (current_by_key r) (observation_key ob) = Some i then i # rest else rest)))"

definition current_observation_ids_for_chunk :: "repo \<Rightarrow> string \<Rightarrow> string list res" where
  "current_observation_ids_for_chunk r c =
     select_current r (dget_default (observations_by_chunk r) c [])"

definition recorded_event :: "repo \<Rightarrow> string \<Rightarrow> (string \<times> status_delta list) option" where
  "recorded_event r e = dget (processed_events r) e"

section \<open>Operations\<close>

definition advance_epoch :: "repo \<Rightarrow> repo \<times> nat" where
  "advance_epoch r = (let n = current_epoch r + 1 in (r\<lparr>current_epoch := n\<rparr>, n))"

definition register_question :: "repo \<Rightarrow> question \<Rightarrow> repo res" where
  "register_question r q =
     (if dmem (qu_question_id q) (questions r) then Inl DuplicateIdentifierError
      else Inr (r\<lparr>questions := dset (qu_question_id q) q (questions r)\<rparr>))"

text \<open>The validation loop of \<open>register_answer\<close>, with the set of identifiers already seen.\<close>

fun check_incoming_claims :: "repo \<Rightarrow> string \<Rightarrow> string set \<Rightarrow> claim list \<Rightarrow> unit res" where
  "check_incoming_claims r aid seen [] = Inr ()"
| "check_incoming_claims r aid seen (c # cs) =
     (if dmem (cl_claim_id c) (claims r) \<or> cl_claim_id c \<in> seen then Inl DuplicateIdentifierError
      else if cl_answer_version_id c \<noteq> aid then Inl DanglingReferenceError
      else check_incoming_claims r aid (insert (cl_claim_id c) seen) cs)"

definition store_claim :: "string \<Rightarrow> claim \<Rightarrow> repo \<Rightarrow> repo" where
  "store_claim aid c r =
     r\<lparr>claims := dset (cl_claim_id c) c (claims r),
       claims_by_answer := dappend aid (cl_claim_id c) (claims_by_answer r)\<rparr>"

definition register_answer :: "repo \<Rightarrow> answer_version \<Rightarrow> claim list \<Rightarrow> repo res" where
  "register_answer r a cs =
     (let aid = av_answer_version_id a in
      if dmem aid (answers r) then Inl DuplicateIdentifierError
      else if \<not> dmem (av_question_id a) (questions r) then Inl DanglingReferenceError
      else if \<not> list_ex cl_required cs then Inl ValidationError
      else bind_res (check_incoming_claims r aid {} cs) (\<lambda>_.
        Inr (fold (store_claim aid) cs
               (r\<lparr>answers := dset aid a (answers r),
                  claims_by_answer := dset aid [] (claims_by_answer r)\<rparr>))))"

fun check_incoming_chunks :: "repo \<Rightarrow> string \<Rightarrow> string set \<Rightarrow> chunk_version list \<Rightarrow> unit res" where
  "check_incoming_chunks r dvid seen [] = Inr ()"
| "check_incoming_chunks r dvid seen (c # cs) =
     (if dmem (cv_chunk_version_id c) (chunk_versions r) \<or> cv_chunk_version_id c \<in> seen
        then Inl DuplicateIdentifierError
      else if cv_document_version_id c \<noteq> dvid then Inl DanglingReferenceError
      else check_incoming_chunks r dvid (insert (cv_chunk_version_id c) seen) cs)"

definition store_chunk :: "nat \<Rightarrow> string \<Rightarrow> chunk_version \<Rightarrow> repo \<Rightarrow> repo" where
  "store_chunk epoch dvid c r =
     r\<lparr>chunk_versions := dset (cv_chunk_version_id c) c (chunk_versions r),
       chunk_validity := dset (cv_chunk_version_id c) (epoch, None) (chunk_validity r),
       chunks_by_document_version :=
         dappend dvid (cv_chunk_version_id c) (chunks_by_document_version r)\<rparr>"

definition register_document_version ::
    "repo \<Rightarrow> document_version \<Rightarrow> chunk_version list \<Rightarrow> nat \<Rightarrow> repo res" where
  "register_document_version r v cs epoch =
     (let dvid = dv_document_version_id v in
      if dmem dvid (document_versions r) then Inl DuplicateIdentifierError
      else bind_res (active_document_version r (dv_document_id v)) (\<lambda>active.
        if active \<noteq> None then Inl ValidationError
        else bind_res (check_incoming_chunks r dvid {} cs) (\<lambda>_.
          Inr (fold (store_chunk epoch dvid) cs
                 (r\<lparr>document_versions := dset dvid v (document_versions r),
                    document_version_validity :=
                      dset dvid (epoch, None) (document_version_validity r),
                    versions_by_document :=
                      dappend (dv_document_id v) dvid (versions_by_document r),
                    chunks_by_document_version :=
                      dset dvid [] (chunks_by_document_version r)\<rparr>)))))"

definition close_chunk :: "nat \<Rightarrow> string \<Rightarrow> repo \<Rightarrow> repo res" where
  "close_chunk epoch c r =
     bind_res (lookup KeyError (chunk_validity r) c) (\<lambda>iv.
       Inr (if interval_active iv
            then r\<lparr>chunk_validity := dset c (fst iv, Some epoch) (chunk_validity r)\<rparr>
            else r))"

definition deactivate_document_version :: "repo \<Rightarrow> string \<Rightarrow> nat \<Rightarrow> repo res" where
  "deactivate_document_version r dvid epoch =
     (case dget (document_version_validity r) dvid of
        None \<Rightarrow> Inl DanglingReferenceError
      | Some iv \<Rightarrow>
          if \<not> interval_active iv then Inl ValidationError
          else bind_res (lookup KeyError (chunks_by_document_version r) dvid)
                 (\<lambda>cs. fold_res (close_chunk epoch) cs
                    (r\<lparr>document_version_validity :=
                         dset dvid (fst iv, Some epoch) (document_version_validity r)\<rparr>)))"

definition register_observation :: "repo \<Rightarrow> semantic_observation \<Rightarrow> repo res" where
  "register_observation r ob =
     (let i = ob_observation_id ob; k = observation_key ob in
      if dmem i (observations r) \<or> i \<in> reserved_observation_ids r
        then Inl DuplicateIdentifierError
      else if \<not> dmem (ob_chunk_version_id ob) (chunk_versions r) then Inl DanglingReferenceError
      else if ob_subject_kind ob = CLAIM \<and> \<not> dmem (ob_subject_id ob) (claims r)
        then Inl DanglingReferenceError
      else if ob_subject_kind ob \<noteq> CLAIM then Inl DanglingReferenceError
      else Inr (r\<lparr>superseded := (case dget (current_by_key r) k of
                                    None \<Rightarrow> superseded r
                                  | Some previous \<Rightarrow> insert previous (superseded r)),
                  observations := dset i ob (observations r),
                  current_by_key := dset k i (current_by_key r),
                  observations_by_chunk :=
                    dappend (ob_chunk_version_id ob) i (observations_by_chunk r)\<rparr>))"

text \<open>
  \<open>reserve_external_observation_id\<close>; \<open>observation_id.strip()\<close> is empty exactly when every
  character of the identifier is white space.
\<close>

definition blank :: "string \<Rightarrow> bool" where
  "blank s \<longleftrightarrow> list_all (\<lambda>c. py_isspace (of_char c)) s"

definition reserve_external_observation_id :: "repo \<Rightarrow> string \<Rightarrow> repo res" where
  "reserve_external_observation_id r i =
     (if blank i then Inl ValidationError
      else if has_observation_id r i then Inl DuplicateIdentifierError
      else Inr (r\<lparr>reserved_observation_ids := insert i (reserved_observation_ids r)\<rparr>))"

definition activate_policy :: "repo \<Rightarrow> decision_policy \<Rightarrow> nat \<Rightarrow> repo res" where
  "activate_policy r p epoch =
     (let v = dp_policy_version p in
      if dmem v (policies r) then Inl DuplicateIdentifierError
      else bind_res
        (case current_policy_version r of
           None \<Rightarrow> Inr (policy_validity r)
         | Some cur \<Rightarrow> bind_res (lookup KeyError (policy_validity r) cur)
             (\<lambda>old. Inr (dset cur (fst old, Some epoch) (policy_validity r))))
        (\<lambda>validity. Inr (r\<lparr>policies := dset v p (policies r),
                            policy_validity := dset v (epoch, None) validity,
                            current_policy_version := Some v\<rparr>)))"

definition record_event :: "repo \<Rightarrow> string \<Rightarrow> string \<Rightarrow> status_delta list \<Rightarrow> repo" where
  "record_event r e digest deltas =
     r\<lparr>processed_events := dset e (digest, deltas) (processed_events r),
       status_deltas := status_deltas r @ deltas\<rparr>"

section \<open>Well-formedness\<close>

text \<open>Every dictionary has distinct keys.\<close>

definition dicts_inv :: "repo \<Rightarrow> bool" where
  "dicts_inv r \<longleftrightarrow>
     dict_ok (document_versions r) \<and> dict_ok (document_version_validity r) \<and>
     dict_ok (versions_by_document r) \<and> dict_ok (chunk_versions r) \<and>
     dict_ok (chunk_validity r) \<and> dict_ok (chunks_by_document_version r) \<and>
     dict_ok (questions r) \<and> dict_ok (answers r) \<and> dict_ok (claims r) \<and>
     dict_ok (claims_by_answer r) \<and> dict_ok (observations r) \<and> dict_ok (current_by_key r) \<and>
     dict_ok (observations_by_chunk r) \<and> dict_ok (policies r) \<and> dict_ok (policy_validity r) \<and>
     dict_ok (processed_events r)"

text \<open>
  The document indexes agree with the stored versions and chunks, a document has at most one
  active version (v0.2 invariant 2), and a chunk is valid exactly when its version is.
\<close>

definition documents_inv :: "repo \<Rightarrow> bool" where
  "documents_inv r \<longleftrightarrow>
     dom (dget (document_version_validity r)) = dom (dget (document_versions r)) \<and>
     dom (dget (chunk_validity r)) = dom (dget (chunk_versions r)) \<and>
     dom (dget (chunks_by_document_version r)) = dom (dget (document_versions r)) \<and>
     (\<forall>v dv. dget (document_versions r) v = Some dv \<longrightarrow>
        dv_document_version_id dv = v \<and> v \<in> set (document_versions_of r (dv_document_id dv))) \<and>
     (\<forall>d v. v \<in> set (document_versions_of r d) \<longrightarrow>
        (\<exists>dv. dget (document_versions r) v = Some dv \<and> dv_document_id dv = d)) \<and>
     (\<forall>d v w iv iw. v \<in> set (document_versions_of r d) \<longrightarrow> w \<in> set (document_versions_of r d) \<longrightarrow>
        dget (document_version_validity r) v = Some iv \<longrightarrow> interval_active iv \<longrightarrow>
        dget (document_version_validity r) w = Some iw \<longrightarrow> interval_active iw \<longrightarrow> v = w)"

definition chunks_inv :: "repo \<Rightarrow> bool" where
  "chunks_inv r \<longleftrightarrow>
     (\<forall>c cv. dget (chunk_versions r) c = Some cv \<longrightarrow>
        cv_chunk_version_id cv = c \<and>
        c \<in> set (chunk_ids_of_document_version r (cv_document_version_id cv)) \<and>
        dget (chunk_validity r) c =
          dget (document_version_validity r) (cv_document_version_id cv)) \<and>
     (\<forall>v c. c \<in> set (chunk_ids_of_document_version r v) \<longrightarrow>
        (\<exists>cv. dget (chunk_versions r) c = Some cv \<and> cv_document_version_id cv = v)) \<and>
     (\<forall>v. distinct (chunk_ids_of_document_version r v))"

text \<open>
  Every claim belongs to the answer whose list holds it, and every answer has a required claim
  (v0.2 invariant 9).
\<close>

definition claims_inv :: "repo \<Rightarrow> bool" where
  "claims_inv r \<longleftrightarrow>
     dom (dget (claims_by_answer r)) = dom (dget (answers r)) \<and>
     (\<forall>a av. dget (answers r) a = Some av \<longrightarrow>
        av_answer_version_id av = a \<and> av_question_id av \<in> dom (dget (questions r)) \<and>
        (\<exists>c cl. c \<in> set (claim_ids_of_answer r a) \<and> dget (claims r) c = Some cl \<and> cl_required cl)) \<and>
     (\<forall>c cl. dget (claims r) c = Some cl \<longrightarrow>
        cl_claim_id cl = c \<and> c \<in> set (claim_ids_of_answer r (cl_answer_version_id cl))) \<and>
     (\<forall>a c. c \<in> set (claim_ids_of_answer r a) \<longrightarrow>
        (\<exists>cl. dget (claims r) c = Some cl \<and> cl_answer_version_id cl = a)) \<and>
     (\<forall>a. distinct (claim_ids_of_answer r a))"

text \<open>
  Observation currency (D-8): every key that was ever observed has exactly one current
  observation, and the superseded observations are the others.
\<close>

definition observations_inv :: "repo \<Rightarrow> bool" where
  "observations_inv r \<longleftrightarrow>
     (\<forall>i ob. dget (observations r) i = Some ob \<longrightarrow>
        ob_observation_id ob = i \<and> ob_subject_kind ob = CLAIM \<and>
        ob_subject_id ob \<in> dom (dget (claims r)) \<and>
        ob_chunk_version_id ob \<in> dom (dget (chunk_versions r)) \<and>
        i \<in> set (observations_for_chunk r (ob_chunk_version_id ob)) \<and>
        observation_key ob \<in> dom (dget (current_by_key r))) \<and>
     (\<forall>c i. i \<in> set (observations_for_chunk r c) \<longrightarrow>
        (\<exists>ob. dget (observations r) i = Some ob \<and> ob_chunk_version_id ob = c)) \<and>
     (\<forall>c. distinct (observations_for_chunk r c)) \<and>
     (\<forall>k i. dget (current_by_key r) k = Some i \<longrightarrow>
        (\<exists>ob. dget (observations r) i = Some ob \<and> observation_key ob = k)) \<and>
     superseded r = {i. \<exists>ob. dget (observations r) i = Some ob \<and>
                            dget (current_by_key r) (observation_key ob) \<noteq> Some i} \<and>
     reserved_observation_ids r \<inter> dom (dget (observations r)) = {}"

text \<open>The current policy is the only one whose validity interval is open.\<close>

definition policies_inv :: "repo \<Rightarrow> bool" where
  "policies_inv r \<longleftrightarrow>
     dom (dget (policy_validity r)) = dom (dget (policies r)) \<and>
     (\<forall>v p. dget (policies r) v = Some p \<longrightarrow> dp_policy_version p = v) \<and>
     (\<forall>v iv. dget (policy_validity r) v = Some iv \<longrightarrow>
        (interval_active iv \<longleftrightarrow> current_policy_version r = Some v)) \<and>
     (\<forall>v. current_policy_version r = Some v \<longrightarrow> v \<in> dom (dget (policies r)))"

definition repo_inv :: "repo \<Rightarrow> bool" where
  "repo_inv r \<longleftrightarrow>
     dicts_inv r \<and> documents_inv r \<and> chunks_inv r \<and> claims_inv r \<and> observations_inv r \<and>
     policies_inv r"

lemmas query_defs =
  document_versions_of_def chunk_ids_of_document_version_def claim_ids_of_answer_def
  observations_for_chunk_def

text \<open>Frame rules: an invariant does not depend on the fields it does not mention.\<close>

lemma documents_inv_frame [simp]:
  "documents_inv (r\<lparr>current_epoch := x1\<rparr>) = documents_inv r"
  "documents_inv (r\<lparr>questions := x2\<rparr>) = documents_inv r"
  "documents_inv (r\<lparr>answers := x3\<rparr>) = documents_inv r"
  "documents_inv (r\<lparr>claims := x4\<rparr>) = documents_inv r"
  "documents_inv (r\<lparr>claims_by_answer := x5\<rparr>) = documents_inv r"
  "documents_inv (r\<lparr>observations := x6\<rparr>) = documents_inv r"
  "documents_inv (r\<lparr>reserved_observation_ids := x7\<rparr>) = documents_inv r"
  "documents_inv (r\<lparr>current_by_key := x8\<rparr>) = documents_inv r"
  "documents_inv (r\<lparr>superseded := x9\<rparr>) = documents_inv r"
  "documents_inv (r\<lparr>observations_by_chunk := x10\<rparr>) = documents_inv r"
  "documents_inv (r\<lparr>policies := x11\<rparr>) = documents_inv r"
  "documents_inv (r\<lparr>policy_validity := x12\<rparr>) = documents_inv r"
  "documents_inv (r\<lparr>current_policy_version := x13\<rparr>) = documents_inv r"
  "documents_inv (r\<lparr>processed_events := x14\<rparr>) = documents_inv r"
  "documents_inv (r\<lparr>status_deltas := x15\<rparr>) = documents_inv r"
  by (simp_all add: documents_inv_def query_defs)

lemma chunks_inv_frame [simp]:
  "chunks_inv (r\<lparr>current_epoch := x16\<rparr>) = chunks_inv r"
  "chunks_inv (r\<lparr>document_versions := x17\<rparr>) = chunks_inv r"
  "chunks_inv (r\<lparr>versions_by_document := x18\<rparr>) = chunks_inv r"
  "chunks_inv (r\<lparr>questions := x19\<rparr>) = chunks_inv r"
  "chunks_inv (r\<lparr>answers := x20\<rparr>) = chunks_inv r"
  "chunks_inv (r\<lparr>claims := x21\<rparr>) = chunks_inv r"
  "chunks_inv (r\<lparr>claims_by_answer := x22\<rparr>) = chunks_inv r"
  "chunks_inv (r\<lparr>observations := x23\<rparr>) = chunks_inv r"
  "chunks_inv (r\<lparr>reserved_observation_ids := x24\<rparr>) = chunks_inv r"
  "chunks_inv (r\<lparr>current_by_key := x25\<rparr>) = chunks_inv r"
  "chunks_inv (r\<lparr>superseded := x26\<rparr>) = chunks_inv r"
  "chunks_inv (r\<lparr>observations_by_chunk := x27\<rparr>) = chunks_inv r"
  "chunks_inv (r\<lparr>policies := x28\<rparr>) = chunks_inv r"
  "chunks_inv (r\<lparr>policy_validity := x29\<rparr>) = chunks_inv r"
  "chunks_inv (r\<lparr>current_policy_version := x30\<rparr>) = chunks_inv r"
  "chunks_inv (r\<lparr>processed_events := x31\<rparr>) = chunks_inv r"
  "chunks_inv (r\<lparr>status_deltas := x32\<rparr>) = chunks_inv r"
  by (simp_all add: chunks_inv_def query_defs)

lemma claims_inv_frame [simp]:
  "claims_inv (r\<lparr>current_epoch := x33\<rparr>) = claims_inv r"
  "claims_inv (r\<lparr>document_versions := x34\<rparr>) = claims_inv r"
  "claims_inv (r\<lparr>document_version_validity := x35\<rparr>) = claims_inv r"
  "claims_inv (r\<lparr>versions_by_document := x36\<rparr>) = claims_inv r"
  "claims_inv (r\<lparr>chunk_versions := x37\<rparr>) = claims_inv r"
  "claims_inv (r\<lparr>chunk_validity := x38\<rparr>) = claims_inv r"
  "claims_inv (r\<lparr>chunks_by_document_version := x39\<rparr>) = claims_inv r"
  "claims_inv (r\<lparr>observations := x40\<rparr>) = claims_inv r"
  "claims_inv (r\<lparr>reserved_observation_ids := x41\<rparr>) = claims_inv r"
  "claims_inv (r\<lparr>current_by_key := x42\<rparr>) = claims_inv r"
  "claims_inv (r\<lparr>superseded := x43\<rparr>) = claims_inv r"
  "claims_inv (r\<lparr>observations_by_chunk := x44\<rparr>) = claims_inv r"
  "claims_inv (r\<lparr>policies := x45\<rparr>) = claims_inv r"
  "claims_inv (r\<lparr>policy_validity := x46\<rparr>) = claims_inv r"
  "claims_inv (r\<lparr>current_policy_version := x47\<rparr>) = claims_inv r"
  "claims_inv (r\<lparr>processed_events := x48\<rparr>) = claims_inv r"
  "claims_inv (r\<lparr>status_deltas := x49\<rparr>) = claims_inv r"
  by (simp_all add: claims_inv_def query_defs)

lemma observations_inv_frame [simp]:
  "observations_inv (r\<lparr>current_epoch := x50\<rparr>) = observations_inv r"
  "observations_inv (r\<lparr>document_versions := x51\<rparr>) = observations_inv r"
  "observations_inv (r\<lparr>document_version_validity := x52\<rparr>) = observations_inv r"
  "observations_inv (r\<lparr>versions_by_document := x53\<rparr>) = observations_inv r"
  "observations_inv (r\<lparr>chunk_validity := x54\<rparr>) = observations_inv r"
  "observations_inv (r\<lparr>chunks_by_document_version := x55\<rparr>) = observations_inv r"
  "observations_inv (r\<lparr>questions := x56\<rparr>) = observations_inv r"
  "observations_inv (r\<lparr>answers := x57\<rparr>) = observations_inv r"
  "observations_inv (r\<lparr>claims_by_answer := x58\<rparr>) = observations_inv r"
  "observations_inv (r\<lparr>policies := x59\<rparr>) = observations_inv r"
  "observations_inv (r\<lparr>policy_validity := x60\<rparr>) = observations_inv r"
  "observations_inv (r\<lparr>current_policy_version := x61\<rparr>) = observations_inv r"
  "observations_inv (r\<lparr>processed_events := x62\<rparr>) = observations_inv r"
  "observations_inv (r\<lparr>status_deltas := x63\<rparr>) = observations_inv r"
  by (simp_all add: observations_inv_def query_defs)

lemma policies_inv_frame [simp]:
  "policies_inv (r\<lparr>current_epoch := x64\<rparr>) = policies_inv r"
  "policies_inv (r\<lparr>document_versions := x65\<rparr>) = policies_inv r"
  "policies_inv (r\<lparr>document_version_validity := x66\<rparr>) = policies_inv r"
  "policies_inv (r\<lparr>versions_by_document := x67\<rparr>) = policies_inv r"
  "policies_inv (r\<lparr>chunk_versions := x68\<rparr>) = policies_inv r"
  "policies_inv (r\<lparr>chunk_validity := x69\<rparr>) = policies_inv r"
  "policies_inv (r\<lparr>chunks_by_document_version := x70\<rparr>) = policies_inv r"
  "policies_inv (r\<lparr>questions := x71\<rparr>) = policies_inv r"
  "policies_inv (r\<lparr>answers := x72\<rparr>) = policies_inv r"
  "policies_inv (r\<lparr>claims := x73\<rparr>) = policies_inv r"
  "policies_inv (r\<lparr>claims_by_answer := x74\<rparr>) = policies_inv r"
  "policies_inv (r\<lparr>observations := x75\<rparr>) = policies_inv r"
  "policies_inv (r\<lparr>reserved_observation_ids := x76\<rparr>) = policies_inv r"
  "policies_inv (r\<lparr>current_by_key := x77\<rparr>) = policies_inv r"
  "policies_inv (r\<lparr>superseded := x78\<rparr>) = policies_inv r"
  "policies_inv (r\<lparr>observations_by_chunk := x79\<rparr>) = policies_inv r"
  "policies_inv (r\<lparr>processed_events := x80\<rparr>) = policies_inv r"
  "policies_inv (r\<lparr>status_deltas := x81\<rparr>) = policies_inv r"
  by (simp_all add: policies_inv_def query_defs)

lemma observations_inv_mono:
  assumes "observations_inv r" and "dom (dget (claims r)) \<subseteq> dom (dget (claims r'))"
    and "dom (dget (chunk_versions r)) \<subseteq> dom (dget (chunk_versions r'))"
    and "observations r' = observations r" and "current_by_key r' = current_by_key r"
    and "superseded r' = superseded r"
    and "reserved_observation_ids r' = reserved_observation_ids r"
    and "observations_by_chunk r' = observations_by_chunk r"
  shows "observations_inv r'"
  using assms(1,2,3) unfolding observations_inv_def query_defs assms(4-)
  by (elim conjE, intro conjI) (assumption | blast)+

lemma dicts_inv_frame [simp]:
  "dicts_inv (r\<lparr>current_epoch := e\<rparr>) = dicts_inv r"
  "dicts_inv (r\<lparr>superseded := s\<rparr>) = dicts_inv r"
  "dicts_inv (r\<lparr>reserved_observation_ids := s\<rparr>) = dicts_inv r"
  "dicts_inv (r\<lparr>status_deltas := ds\<rparr>) = dicts_inv r"
  "dicts_inv (r\<lparr>current_policy_version := v\<rparr>) = dicts_inv r"
  by (simp_all add: dicts_inv_def)

lemma repo_inv_empty: "repo_inv empty_repo"
  by (simp add: repo_inv_def dicts_inv_def documents_inv_def chunks_inv_def claims_inv_def
      observations_inv_def policies_inv_def query_defs empty_repo_def dget_default_def)

lemma repo_inv_advance_epoch: "repo_inv r \<Longrightarrow> repo_inv (fst (advance_epoch r))"
  by (simp add: repo_inv_def advance_epoch_def Let_def)

lemma repo_inv_record_event: "repo_inv r \<Longrightarrow> repo_inv (record_event r e digest deltas)"
  by (simp add: repo_inv_def record_event_def) (simp add: dicts_inv_def)

lemma register_question_Inr:
  "register_question r q = Inr r' \<longleftrightarrow>
     dget (questions r) (qu_question_id q) = None \<and>
     r' = r\<lparr>questions := dset (qu_question_id q) q (questions r)\<rparr>"
  by (auto simp: register_question_def dmem_def)

lemma repo_inv_register_question:
  assumes "repo_inv r" and "register_question r q = Inr r'"
  shows "repo_inv r'"
proof -
  from assms(2) have r': "r' = r\<lparr>questions := dset (qu_question_id q) q (questions r)\<rparr>"
    by (simp add: register_question_Inr)
  from assms(1) have "claims_inv r" by (simp add: repo_inv_def)
  then have "claims_inv r'" by (auto simp: r' claims_inv_def query_defs)
  with assms(1) show ?thesis by (simp add: repo_inv_def r') (simp add: dicts_inv_def)
qed

lemma repo_inv_reserve:
  assumes "repo_inv r" and "reserve_external_observation_id r i = Inr r'"
  shows "repo_inv r'"
proof -
  from assms(2) have r': "r' = r\<lparr>reserved_observation_ids := insert i (reserved_observation_ids r)\<rparr>"
    and "i \<notin> dom (dget (observations r))"
    by (auto simp: reserve_external_observation_id_def has_observation_id_def dmem_def
        split: if_splits)
  moreover from assms(1) have "observations_inv r" by (simp add: repo_inv_def)
  ultimately have "observations_inv r'" by (simp add: observations_inv_def query_defs)
  with assms(1) show ?thesis by (simp add: repo_inv_def r')
qed

lemma policies_invD:
  assumes "policies_inv r"
  shows "dom (dget (policy_validity r)) = dom (dget (policies r))"
    and "dget (policies r) v = Some p \<Longrightarrow> dp_policy_version p = v"
    and "dget (policy_validity r) v = Some iv \<Longrightarrow>
        interval_active iv \<longleftrightarrow> current_policy_version r = Some v"
    and "current_policy_version r = Some v \<Longrightarrow> v \<in> dom (dget (policies r))"
  using assms unfolding policies_inv_def by (elim conjE; metis)+

lemma activate_policy_Inr:
  assumes "policies_inv r" and "activate_policy r p epoch = Inr r'"
  obtains validity where
    "r' = r\<lparr>policies := dset (dp_policy_version p) p (policies r),
            policy_validity := dset (dp_policy_version p) (epoch, None) validity,
            current_policy_version := Some (dp_policy_version p)\<rparr>"
    and "dget (policies r) (dp_policy_version p) = None"
    and "dom (dget validity) = dom (dget (policy_validity r))"
    and "dict_ok (policy_validity r) \<Longrightarrow> dict_ok validity"
    and "\<And>v iv. dget validity v = Some iv \<Longrightarrow> \<not> interval_active iv"
proof (cases "current_policy_version r")
  case None
  with assms that [of "policy_validity r"] show thesis
    by (auto simp: activate_policy_def Let_def dmem_def policies_inv_def split: if_splits)
next
  case (Some cur)
  with assms obtain old where old: "dget (policy_validity r) cur = Some old"
    and r': "r' = r\<lparr>policies := dset (dp_policy_version p) p (policies r),
            policy_validity := dset (dp_policy_version p) (epoch, None)
               (dset cur (fst old, Some epoch) (policy_validity r)),
            current_policy_version := Some (dp_policy_version p)\<rparr>"
    and new: "dget (policies r) (dp_policy_version p) = None"
    by (auto simp: activate_policy_def Let_def dmem_def res_simps split: if_splits)
  have act: "interval_active iv \<longleftrightarrow> v = cur" if "dget (policy_validity r) v = Some iv" for v iv
    using policies_invD(3) [OF assms(1) that] Some by auto
  have "\<not> interval_active iv"
    if "dget (dset cur (fst old, Some epoch) (policy_validity r)) v = Some iv" for v iv
    using that act [of v iv] by (cases "v = cur") (auto simp: interval_active_def)
  note closed = this
  show thesis
  proof (rule that [OF r' new])
    show "dom (dget (dset cur (fst old, Some epoch) (policy_validity r))) =
        dom (dget (policy_validity r))"
      using old by auto
  qed (use closed in auto)
qed

lemma repo_inv_activate_policy:
  assumes "repo_inv r" and "activate_policy r p epoch = Inr r'"
  shows "repo_inv r'"
proof -
  from assms(1) have inv: "policies_inv r" by (simp add: repo_inv_def)
  from this assms(2) obtain validity where
    r': "r' = r\<lparr>policies := dset (dp_policy_version p) p (policies r),
            policy_validity := dset (dp_policy_version p) (epoch, None) validity,
            current_policy_version := Some (dp_policy_version p)\<rparr>"
    and new: "dget (policies r) (dp_policy_version p) = None"
    and v: "dom (dget validity) = dom (dget (policy_validity r))"
      "dict_ok (policy_validity r) \<Longrightarrow> dict_ok validity"
      "\<And>v iv. dget validity v = Some iv \<Longrightarrow> \<not> interval_active iv"
    by (rule activate_policy_Inr) blast
  from inv new v(1,3) have "policies_inv r'"
    by (auto simp: r' policies_inv_def interval_active_def)
  with assms(1) v(2) show ?thesis by (simp add: repo_inv_def r') (simp add: dicts_inv_def)
qed

section \<open>Registering an answer\<close>

lemma check_incoming_claims_Inr:
  "check_incoming_claims r aid seen cs = Inr () \<longleftrightarrow>
     distinct (map cl_claim_id cs) \<and>
     (\<forall>c \<in> set cs. dget (claims r) (cl_claim_id c) = None \<and> cl_claim_id c \<notin> seen \<and>
        cl_answer_version_id c = aid)"
proof (induction cs arbitrary: seen)
  case (Cons c cs)
  have "(\<forall>d \<in> set cs. cl_claim_id d \<notin> insert (cl_claim_id c) seen) \<longleftrightarrow>
      cl_claim_id c \<notin> set (map cl_claim_id cs) \<and> (\<forall>d \<in> set cs. cl_claim_id d \<notin> seen)"
    by (auto simp: image_iff)
  with Cons show ?case by (auto simp: dmem_def)
qed simp

text \<open>
  The invariant while the claims of the answer \<open>aid\<close> are being stored: as \<open>claims_inv\<close>, less
  the existence of a required claim.
\<close>

definition claim_lists_inv :: "repo \<Rightarrow> bool" where
  "claim_lists_inv r \<longleftrightarrow>
     (\<forall>c cl. dget (claims r) c = Some cl \<longrightarrow>
        cl_claim_id cl = c \<and> c \<in> set (claim_ids_of_answer r (cl_answer_version_id cl))) \<and>
     (\<forall>a c. c \<in> set (claim_ids_of_answer r a) \<longrightarrow>
        (\<exists>cl. dget (claims r) c = Some cl \<and> cl_answer_version_id cl = a)) \<and>
     (\<forall>a. distinct (claim_ids_of_answer r a))"

lemma claim_lists_invI:
  assumes "\<And>c cl. dget (claims r) c = Some cl \<Longrightarrow> cl_claim_id cl = c"
    and "\<And>c cl. dget (claims r) c = Some cl \<Longrightarrow>
        c \<in> set (claim_ids_of_answer r (cl_answer_version_id cl))"
    and "\<And>a c. c \<in> set (claim_ids_of_answer r a) \<Longrightarrow>
        \<exists>cl. dget (claims r) c = Some cl \<and> cl_answer_version_id cl = a"
    and "\<And>a. distinct (claim_ids_of_answer r a)"
  shows "claim_lists_inv r"
  using assms by (simp add: claim_lists_inv_def)

lemma claim_lists_invD:
  assumes "claim_lists_inv r"
  shows "dget (claims r) c = Some cl \<Longrightarrow> cl_claim_id cl = c"
    and "dget (claims r) c = Some cl \<Longrightarrow> c \<in> set (claim_ids_of_answer r (cl_answer_version_id cl))"
    and "c \<in> set (claim_ids_of_answer r a) \<Longrightarrow>
        \<exists>cl. dget (claims r) c = Some cl \<and> cl_answer_version_id cl = a"
    and "distinct (claim_ids_of_answer r a)"
  using assms unfolding claim_lists_inv_def by blast+

lemma claims_inv_split:
  "claims_inv r \<longleftrightarrow>
     claim_lists_inv r \<and> dom (dget (claims_by_answer r)) = dom (dget (answers r)) \<and>
     (\<forall>a av. dget (answers r) a = Some av \<longrightarrow>
        av_answer_version_id av = a \<and> av_question_id av \<in> dom (dget (questions r)) \<and>
        (\<exists>c cl. c \<in> set (claim_ids_of_answer r a) \<and> dget (claims r) c = Some cl \<and> cl_required cl))"
  unfolding claims_inv_def claim_lists_inv_def by (rule iffI; elim conjE; intro conjI; assumption)

lemma claim_ids_of_answer_store_claim [simp]:
  "claim_ids_of_answer (store_claim aid c r) a =
     (if a = aid then claim_ids_of_answer r a @ [cl_claim_id c] else claim_ids_of_answer r a)"
  by (simp add: claim_ids_of_answer_def store_claim_def dget_default_def)

lemma store_claim_simps [simp]:
  "dget (claims (store_claim aid c r)) = (dget (claims r))(cl_claim_id c \<mapsto> c)"
  "dom (dget (claims_by_answer (store_claim aid c r))) = insert aid (dom (dget (claims_by_answer r)))"
  "answers (store_claim aid c r) = answers r"
  "questions (store_claim aid c r) = questions r"
  by (auto simp: store_claim_def)

lemma store_claim_inv:
  assumes "claim_lists_inv r" and "dget (claims r) (cl_claim_id c) = None"
    and "cl_answer_version_id c = aid"
  shows "claim_lists_inv (store_claim aid c r)"
proof -
  have fresh: "cl_claim_id c \<notin> set (claim_ids_of_answer r a)" for a
    using claim_lists_invD(3) [OF assms(1)] assms(2) by fastforce
  show ?thesis
  proof (rule claim_lists_invI)
    fix d cl assume "dget (claims (store_claim aid c r)) d = Some cl"
    then show "d \<in> set (claim_ids_of_answer (store_claim aid c r) (cl_answer_version_id cl))"
      using claim_lists_invD(2) [OF assms(1), of d cl] assms(3)
      by (cases "d = cl_claim_id c") auto
  next
    fix a d assume "d \<in> set (claim_ids_of_answer (store_claim aid c r) a)"
    then show "\<exists>cl. dget (claims (store_claim aid c r)) d = Some cl \<and> cl_answer_version_id cl = a"
      using claim_lists_invD(3) [OF assms(1), of d a] fresh assms(3)
      by (cases "d = cl_claim_id c") (auto split: if_splits)
  qed (use claim_lists_invD [OF assms(1)] fresh assms(3) in \<open>auto split: if_splits\<close>)
qed

lemma store_claims_inv:
  assumes "claim_lists_inv r" and "distinct (map cl_claim_id cs)"
    and "\<forall>c \<in> set cs. dget (claims r) (cl_claim_id c) = None \<and> cl_answer_version_id c = aid"
  shows "claim_lists_inv (fold (store_claim aid) cs r)"
  using assms
proof (induction cs arbitrary: r)
  case (Cons c cs)
  have "claim_lists_inv (store_claim aid c r)"
    using Cons.prems by (intro store_claim_inv) auto
  moreover have "\<forall>d \<in> set cs. dget (claims (store_claim aid c r)) (cl_claim_id d) = None \<and>
      cl_answer_version_id d = aid"
    using Cons.prems by (auto simp: image_iff)
  ultimately show ?case using Cons.IH Cons.prems(2) by simp
qed simp

lemma store_claims_simps [simp]:
  "answers (fold (store_claim aid) cs r) = answers r"
  "questions (fold (store_claim aid) cs r) = questions r"
  "documents_inv (fold (store_claim aid) cs r) = documents_inv r"
  "chunks_inv (fold (store_claim aid) cs r) = chunks_inv r"
  "policies_inv (fold (store_claim aid) cs r) = policies_inv r"
  "observations (fold (store_claim aid) cs r) = observations r"
  "chunk_versions (fold (store_claim aid) cs r) = chunk_versions r"
  "chunk_validity (fold (store_claim aid) cs r) = chunk_validity r"
  "current_by_key (fold (store_claim aid) cs r) = current_by_key r"
  "superseded (fold (store_claim aid) cs r) = superseded r"
  "reserved_observation_ids (fold (store_claim aid) cs r) = reserved_observation_ids r"
  "observations_by_chunk (fold (store_claim aid) cs r) = observations_by_chunk r"
  "policies (fold (store_claim aid) cs r) = policies r"
  "current_policy_version (fold (store_claim aid) cs r) = current_policy_version r"
  by (induction cs arbitrary: r) (simp_all add: store_claim_def)

lemma store_claims_claims:
  assumes "distinct (map cl_claim_id cs)"
  shows "dget (claims (fold (store_claim aid) cs r)) k =
     (case map_of (map (\<lambda>c. (cl_claim_id c, c)) cs) k of
        Some c \<Rightarrow> Some c | None \<Rightarrow> dget (claims r) k)"
  using assms
proof (induction cs arbitrary: r)
  case (Cons c cs)
  then have "map_of (map (\<lambda>c. (cl_claim_id c, c)) cs) (cl_claim_id c) = None"
    by (force simp: map_of_eq_None_iff)
  with Cons show ?case by (auto split: option.split)
qed simp

lemma store_claims_answer_lists:
  "claim_ids_of_answer (fold (store_claim aid) cs r) a =
     claim_ids_of_answer r a @ (if a = aid then map cl_claim_id cs else [])"
  by (induction cs arbitrary: r) auto

lemma store_claims_dom:
  "dom (dget (claims_by_answer (fold (store_claim aid) cs r))) =
     dom (dget (claims_by_answer r)) \<union> (if cs = [] then {} else {aid})"
  by (induction cs arbitrary: r) auto

lemma dicts_inv_store_claim: "dicts_inv r \<Longrightarrow> dicts_inv (store_claim aid c r)"
  by (simp add: dicts_inv_def store_claim_def)

lemma dicts_inv_store_claims: "dicts_inv r \<Longrightarrow> dicts_inv (fold (store_claim aid) cs r)"
  by (induction cs arbitrary: r) (simp_all add: dicts_inv_store_claim)

lemma register_answer_Inr:
  "register_answer r a cs = Inr r' \<longleftrightarrow>
     dget (answers r) (av_answer_version_id a) = None \<and>
     dget (questions r) (av_question_id a) \<noteq> None \<and>
     (\<exists>c \<in> set cs. cl_required c) \<and>
     distinct (map cl_claim_id cs) \<and>
     (\<forall>c \<in> set cs. dget (claims r) (cl_claim_id c) = None \<and>
        cl_answer_version_id c = av_answer_version_id a) \<and>
     r' = fold (store_claim (av_answer_version_id a)) cs
            (r\<lparr>answers := dset (av_answer_version_id a) a (answers r),
               claims_by_answer := dset (av_answer_version_id a) [] (claims_by_answer r)\<rparr>)"
  by (auto simp: register_answer_def Let_def dmem_def res_simps check_incoming_claims_Inr
      list_ex_iff split: if_splits)

lemma repo_inv_register_answer:
  assumes inv: "repo_inv r" and ok: "register_answer r a cs = Inr r'"
  shows "repo_inv r'"
proof -
  define aid where "aid = av_answer_version_id a"
  define r0 where "r0 = r\<lparr>answers := dset aid a (answers r),
                         claims_by_answer := dset aid [] (claims_by_answer r)\<rparr>"
  from ok have r': "r' = fold (store_claim aid) cs r0"
    and new: "dget (answers r) aid = None" "dget (questions r) (av_question_id a) \<noteq> None"
      "\<exists>c \<in> set cs. cl_required c" "distinct (map cl_claim_id cs)"
      "\<forall>c \<in> set cs. dget (claims r) (cl_claim_id c) = None \<and> cl_answer_version_id c = aid"
    by (auto simp: register_answer_Inr aid_def r0_def)
  from inv have cinv: "claims_inv r" by (simp add: repo_inv_def)
  then have "dom (dget (claims_by_answer r)) = dom (dget (answers r))"
    by (simp add: claims_inv_split)
  with new(1) have "dget (claims_by_answer r) aid = None" by (metis domIff)
  then have empty: "claim_ids_of_answer r aid = []"
    by (simp add: claim_ids_of_answer_def)
  have lists0: "claim_ids_of_answer r0 b = claim_ids_of_answer r b" for b
    using empty by (auto simp: r0_def claim_ids_of_answer_def dget_default_def)
  have cls0: "claims r0 = claims r" by (simp add: r0_def)
  from cinv have "claim_lists_inv r0"
    unfolding claims_inv_split claim_lists_inv_def lists0 cls0 by simp
  then have lists: "claim_lists_inv r'"
    unfolding r' using new(4,5) by (intro store_claims_inv) (auto simp: r0_def)
  have cl: "dget (claims r') k = (case map_of (map (\<lambda>c. (cl_claim_id c, c)) cs) k of
        Some c \<Rightarrow> Some c | None \<Rightarrow> dget (claims r) k)" for k
    unfolding r' by (subst store_claims_claims [OF new(4)]) (simp only: cls0)
  have old: "dget (claims r') k = Some cl" if "dget (claims r) k = Some cl" for k cl
  proof -
    have "map_of (map (\<lambda>c. (cl_claim_id c, c)) cs) k = None"
      using that new(5) by (auto simp: dget_index_None)
    with that show ?thesis by (simp add: cl)
  qed
  have ids: "claim_ids_of_answer r' b =
      claim_ids_of_answer r b @ (if b = aid then map cl_claim_id cs else [])" for b
    by (simp add: r' store_claims_answer_lists lists0)
  have "claims_inv r'"
  proof -
    have dom: "dom (dget (claims_by_answer r')) = dom (dget (answers r'))"
      using cinv by (auto simp: r' store_claims_dom r0_def claims_inv_def)
    have req: "av_answer_version_id av = b \<and> av_question_id av \<in> dom (dget (questions r')) \<and>
        (\<exists>c cl. c \<in> set (claim_ids_of_answer r' b) \<and> dget (claims r') c = Some cl \<and> cl_required cl)"
      if av: "dget (answers r') b = Some av" for b av
    proof (cases "b = aid")
      case True
      from new(3) obtain c where c: "c \<in> set cs" "cl_required c" by blast
      have "dget (claims r') (cl_claim_id c) = Some c"
        using c new(4) by (simp add: cl dget_index_Some)
      moreover have "cl_claim_id c \<in> set (claim_ids_of_answer r' b)"
        using c(1) True by (simp add: ids)
      moreover have "av_answer_version_id av = b \<and> av_question_id av \<in> dom (dget (questions r'))"
        using av True new(2) by (auto simp: r' r0_def aid_def)
      ultimately show ?thesis using c(2) by blast
    next
      case False
      with av have "dget (answers r) b = Some av" by (simp add: r' r0_def)
      with cinv obtain c cl where "av_answer_version_id av = b"
        "av_question_id av \<in> dom (dget (questions r))"
        "c \<in> set (claim_ids_of_answer r b)" "dget (claims r) c = Some cl" "cl_required cl"
        unfolding claims_inv_def by blast
      with old show ?thesis by (auto simp: ids) (auto simp: r' r0_def)
    qed
    show ?thesis
      unfolding claims_inv_split using lists dom req by blast
  qed
  moreover have "observations_inv r'"
  proof -
    from inv have "observations_inv r" by (simp add: repo_inv_def)
    moreover have "dom (dget (claims r)) \<subseteq> dom (dget (claims r'))" using old by blast
    ultimately show ?thesis
      by (rule observations_inv_mono) (simp_all add: r' r0_def)
  qed
  moreover have "dicts_inv r'"
    using inv unfolding r' r0_def repo_inv_def
    by (intro dicts_inv_store_claims) (simp add: dicts_inv_def)
  moreover have "documents_inv r'" "chunks_inv r'" "policies_inv r'"
    using inv by (simp_all add: repo_inv_def r' r0_def)
  ultimately show ?thesis by (simp add: repo_inv_def)
qed

section \<open>Registering a document version\<close>

lemma documents_invI:
  assumes "dom (dget (document_version_validity r)) = dom (dget (document_versions r))"
    and "dom (dget (chunk_validity r)) = dom (dget (chunk_versions r))"
    and "dom (dget (chunks_by_document_version r)) = dom (dget (document_versions r))"
    and "\<And>v dv. dget (document_versions r) v = Some dv \<Longrightarrow>
        dv_document_version_id dv = v \<and> v \<in> set (document_versions_of r (dv_document_id dv))"
    and "\<And>d v. v \<in> set (document_versions_of r d) \<Longrightarrow>
        \<exists>dv. dget (document_versions r) v = Some dv \<and> dv_document_id dv = d"
    and "\<And>d v w iv iw. v \<in> set (document_versions_of r d) \<Longrightarrow> w \<in> set (document_versions_of r d) \<Longrightarrow>
        dget (document_version_validity r) v = Some iv \<Longrightarrow> interval_active iv \<Longrightarrow>
        dget (document_version_validity r) w = Some iw \<Longrightarrow> interval_active iw \<Longrightarrow> v = w"
  shows "documents_inv r"
  unfolding documents_inv_def using assms by (intro conjI allI impI) blast+

lemma documents_invD:
  assumes "documents_inv r"
  shows "dom (dget (document_version_validity r)) = dom (dget (document_versions r))"
    and "dom (dget (chunk_validity r)) = dom (dget (chunk_versions r))"
    and "dom (dget (chunks_by_document_version r)) = dom (dget (document_versions r))"
    and "dget (document_versions r) v = Some dv \<Longrightarrow> dv_document_version_id dv = v"
    and "dget (document_versions r) v = Some dv \<Longrightarrow> v \<in> set (document_versions_of r (dv_document_id dv))"
    and "v \<in> set (document_versions_of r d) \<Longrightarrow>
        \<exists>dv. dget (document_versions r) v = Some dv \<and> dv_document_id dv = d"
    and "v \<in> set (document_versions_of r d) \<Longrightarrow> w \<in> set (document_versions_of r d) \<Longrightarrow>
        dget (document_version_validity r) v = Some iv \<Longrightarrow> interval_active iv \<Longrightarrow>
        dget (document_version_validity r) w = Some iw \<Longrightarrow> interval_active iw \<Longrightarrow> v = w"
  using assms unfolding documents_inv_def by (elim conjE; metis)+

lemma chunks_invI:
  assumes "\<And>c cv. dget (chunk_versions r) c = Some cv \<Longrightarrow> cv_chunk_version_id cv = c"
    and "\<And>c cv. dget (chunk_versions r) c = Some cv \<Longrightarrow>
        c \<in> set (chunk_ids_of_document_version r (cv_document_version_id cv))"
    and "\<And>c cv. dget (chunk_versions r) c = Some cv \<Longrightarrow>
        dget (chunk_validity r) c = dget (document_version_validity r) (cv_document_version_id cv)"
    and "\<And>v c. c \<in> set (chunk_ids_of_document_version r v) \<Longrightarrow>
        \<exists>cv. dget (chunk_versions r) c = Some cv \<and> cv_document_version_id cv = v"
    and "\<And>v. distinct (chunk_ids_of_document_version r v)"
  shows "chunks_inv r"
  using assms by (simp add: chunks_inv_def)

lemma chunks_invD:
  assumes "chunks_inv r"
  shows "dget (chunk_versions r) c = Some cv \<Longrightarrow> cv_chunk_version_id cv = c"
    and "dget (chunk_versions r) c = Some cv \<Longrightarrow>
        c \<in> set (chunk_ids_of_document_version r (cv_document_version_id cv))"
    and "dget (chunk_versions r) c = Some cv \<Longrightarrow>
        dget (chunk_validity r) c = dget (document_version_validity r) (cv_document_version_id cv)"
    and "c \<in> set (chunk_ids_of_document_version r v) \<Longrightarrow>
        \<exists>cv. dget (chunk_versions r) c = Some cv \<and> cv_document_version_id cv = v"
    and "distinct (chunk_ids_of_document_version r v)"
  using assms unfolding chunks_inv_def by (elim conjE; metis)+

lemma first_active_version_None:
  "first_active_version d vs = Inr None \<longleftrightarrow>
     (\<forall>v \<in> set vs. \<exists>iv. dget d v = Some iv \<and> \<not> interval_active iv)"
  by (induction vs) (auto simp: res_simps split: if_splits)

lemma first_active_version_Some:
  "first_active_version d vs = Inr (Some v) \<Longrightarrow>
     v \<in> set vs \<and> (\<exists>iv. dget d v = Some iv \<and> interval_active iv)"
  by (induction vs) (auto simp: res_simps split: if_splits)

lemma first_active_version_total:
  "set vs \<subseteq> dom (dget d) \<Longrightarrow> \<exists>x. first_active_version d vs = Inr x"
  by (induction vs) auto

lemma active_document_version_total:
  "documents_inv r \<Longrightarrow> \<exists>x. active_document_version r d = Inr x"
  unfolding active_document_version_def document_versions_of_def [symmetric]
  by (rule first_active_version_total) (auto simp: documents_invD(1) dest: documents_invD(6))

lemma check_incoming_chunks_Inr:
  "check_incoming_chunks r dvid seen cs = Inr () \<longleftrightarrow>
     distinct (map cv_chunk_version_id cs) \<and>
     (\<forall>c \<in> set cs. dget (chunk_versions r) (cv_chunk_version_id c) = None \<and>
        cv_chunk_version_id c \<notin> seen \<and> cv_document_version_id c = dvid)"
proof (induction cs arbitrary: seen)
  case (Cons c cs)
  have "(\<forall>d \<in> set cs. cv_chunk_version_id d \<notin> insert (cv_chunk_version_id c) seen) \<longleftrightarrow>
      cv_chunk_version_id c \<notin> set (map cv_chunk_version_id cs) \<and>
      (\<forall>d \<in> set cs. cv_chunk_version_id d \<notin> seen)"
    by (auto simp: image_iff)
  with Cons show ?case by (auto simp: dmem_def)
qed simp

definition open_document_version :: "nat \<Rightarrow> document_version \<Rightarrow> repo \<Rightarrow> repo" where
  "open_document_version epoch v r =
     r\<lparr>document_versions := dset (dv_document_version_id v) v (document_versions r),
       document_version_validity :=
         dset (dv_document_version_id v) (epoch, None) (document_version_validity r),
       versions_by_document :=
         dappend (dv_document_id v) (dv_document_version_id v) (versions_by_document r),
       chunks_by_document_version :=
         dset (dv_document_version_id v) [] (chunks_by_document_version r)\<rparr>"

lemma register_document_version_Inr:
  "register_document_version r v cs epoch = Inr r' \<longleftrightarrow>
     dget (document_versions r) (dv_document_version_id v) = None \<and>
     active_document_version r (dv_document_id v) = Inr None \<and>
     distinct (map cv_chunk_version_id cs) \<and>
     (\<forall>c \<in> set cs. dget (chunk_versions r) (cv_chunk_version_id c) = None \<and>
        cv_document_version_id c = dv_document_version_id v) \<and>
     r' = fold (store_chunk epoch (dv_document_version_id v)) cs (open_document_version epoch v r)"
  by (auto simp: register_document_version_def open_document_version_def Let_def dmem_def res_simps
      check_incoming_chunks_Inr split: if_splits)

lemma chunk_ids_store_chunk [simp]:
  "chunk_ids_of_document_version (store_chunk e dvid c r) v =
     (if v = dvid then chunk_ids_of_document_version r v @ [cv_chunk_version_id c]
      else chunk_ids_of_document_version r v)"
  by (simp add: chunk_ids_of_document_version_def store_chunk_def dget_default_def)

lemma store_chunk_simps [simp]:
  "dget (chunk_versions (store_chunk e dvid c r)) =
     (dget (chunk_versions r))(cv_chunk_version_id c \<mapsto> c)"
  "dget (chunk_validity (store_chunk e dvid c r)) =
     (dget (chunk_validity r))(cv_chunk_version_id c \<mapsto> (e, None))"
  "dom (dget (chunks_by_document_version (store_chunk e dvid c r))) =
     insert dvid (dom (dget (chunks_by_document_version r)))"
  "document_versions (store_chunk e dvid c r) = document_versions r"
  "document_version_validity (store_chunk e dvid c r) = document_version_validity r"
  "document_versions_of (store_chunk e dvid c r) = document_versions_of r"
  by (auto simp: store_chunk_def document_versions_of_def fun_eq_iff)

lemma store_chunk_documents_inv:
  assumes "documents_inv r" and "dvid \<in> dom (dget (document_versions r))"
  shows "documents_inv (store_chunk e dvid c r)"
  by (rule documents_invI) (use assms documents_invD [OF assms(1)] in auto)

lemma store_chunk_chunks_inv:
  assumes inv: "chunks_inv r" and fresh: "dget (chunk_versions r) (cv_chunk_version_id c) = None"
    and "cv_document_version_id c = dvid"
    and "dget (document_version_validity r) dvid = Some (e, None)"
  shows "chunks_inv (store_chunk e dvid c r)"
proof -
  have new: "cv_chunk_version_id c \<notin> set (chunk_ids_of_document_version r v)" for v
    using chunks_invD(4) [OF inv, of "cv_chunk_version_id c" v] fresh by auto
  show ?thesis
  proof (rule chunks_invI)
    fix d cv assume d: "dget (chunk_versions (store_chunk e dvid c r)) d = Some cv"
    show "d \<in> set (chunk_ids_of_document_version (store_chunk e dvid c r) (cv_document_version_id cv))"
      using d chunks_invD(2) [OF inv, of d cv] assms(3)
      by (cases "d = cv_chunk_version_id c") auto
    show "dget (chunk_validity (store_chunk e dvid c r)) d =
        dget (document_version_validity (store_chunk e dvid c r)) (cv_document_version_id cv)"
      using d chunks_invD(3) [OF inv, of d cv] assms(3,4)
      by (cases "d = cv_chunk_version_id c") auto
  next
    fix v d assume "d \<in> set (chunk_ids_of_document_version (store_chunk e dvid c r) v)"
    then show "\<exists>cv. dget (chunk_versions (store_chunk e dvid c r)) d = Some cv \<and>
        cv_document_version_id cv = v"
      using chunks_invD(4) [OF inv, of d v] new assms(3)
      by (cases "d = cv_chunk_version_id c") (auto split: if_splits)
  qed (use chunks_invD [OF inv] new in \<open>auto split: if_splits\<close>)
qed

lemma open_document_version_simps [simp]:
  "dget (document_versions (open_document_version e v r)) =
     (dget (document_versions r))(dv_document_version_id v \<mapsto> v)"
  "dget (document_version_validity (open_document_version e v r)) =
     (dget (document_version_validity r))(dv_document_version_id v \<mapsto> (e, None))"
  "document_versions_of (open_document_version e v r) d =
     document_versions_of r d @ (if d = dv_document_id v then [dv_document_version_id v] else [])"
  "dget (chunks_by_document_version (open_document_version e v r)) =
     (dget (chunks_by_document_version r))(dv_document_version_id v \<mapsto> [])"
  "chunk_versions (open_document_version e v r) = chunk_versions r"
  "chunk_validity (open_document_version e v r) = chunk_validity r"
  by (simp_all add: open_document_version_def document_versions_of_def dget_default_def)

lemma open_document_version_documents_inv:
  assumes inv: "documents_inv r" and new: "dget (document_versions r) (dv_document_version_id v) = None"
    and inactive: "active_document_version r (dv_document_id v) = Inr None"
  shows "documents_inv (open_document_version e v r)"
proof -
  let ?v = "dv_document_version_id v" and ?r = "open_document_version e v r"
  have fresh: "?v \<notin> set (document_versions_of r d)" for d
    using documents_invD(6) [OF inv, of ?v d] new by auto
  have closed: "\<not> interval_active iv"
    if "w \<in> set (document_versions_of r (dv_document_id v))"
      "dget (document_version_validity r) w = Some iv" for w iv
    using that inactive
    by (auto simp: active_document_version_def document_versions_of_def first_active_version_None)
  show ?thesis
  proof (rule documents_invI)
    fix d w assume "w \<in> set (document_versions_of ?r d)"
    then show "\<exists>dv. dget (document_versions ?r) w = Some dv \<and> dv_document_id dv = d"
      using documents_invD(6) [OF inv, of w d] fresh
      by (cases "w = ?v") (auto split: if_splits)
  next
    fix d w x iw ix
    assume w: "w \<in> set (document_versions_of ?r d)"
      "dget (document_version_validity ?r) w = Some iw" "interval_active iw"
      and x: "x \<in> set (document_versions_of ?r d)"
      "dget (document_version_validity ?r) x = Some ix" "interval_active ix"
    show "w = x"
      using w x fresh closed documents_invD(7) [OF inv, of w d x iw ix]
      by (cases "w = ?v"; cases "x = ?v") (auto split: if_splits)
  qed (use documents_invD(1-5) [OF inv] fresh in \<open>auto split: if_splits\<close>)
qed

lemma open_document_version_chunk_ids:
  assumes "documents_inv r" and "dget (document_versions r) (dv_document_version_id v) = None"
  shows "chunk_ids_of_document_version (open_document_version e v r) w =
     chunk_ids_of_document_version r w"
proof -
  have "dget (chunks_by_document_version r) (dv_document_version_id v) = None"
    using documents_invD(3) [OF assms(1)] assms(2) by (metis domIff)
  then show ?thesis
    by (simp add: chunk_ids_of_document_version_def dget_default_def)
qed

lemma open_document_version_chunks_inv:
  assumes doc: "documents_inv r" and inv: "chunks_inv r"
    and new: "dget (document_versions r) (dv_document_version_id v) = None"
  shows "chunks_inv (open_document_version e v r)"
proof -
  note ids = open_document_version_chunk_ids [OF doc new]
  have other: "cv_document_version_id cv \<noteq> dv_document_version_id v"
    if "dget (chunk_versions r) c = Some cv" for c cv
  proof -
    have "c \<in> set (chunk_ids_of_document_version r (cv_document_version_id cv))"
      using that by (rule chunks_invD(2) [OF inv])
    then have "cv_document_version_id cv \<in> dom (dget (chunks_by_document_version r))"
      unfolding chunk_ids_of_document_version_def by (rule dget_default_memD)
    then show ?thesis using documents_invD(3) [OF doc] new by auto
  qed
  show ?thesis
    by (rule chunks_invI) (use chunks_invD [OF inv] other in \<open>auto simp: ids\<close>)
qed

lemma store_chunks_inv:
  assumes "documents_inv r" and "chunks_inv r" and "distinct (map cv_chunk_version_id cs)"
    and "\<forall>c \<in> set cs. dget (chunk_versions r) (cv_chunk_version_id c) = None \<and>
        cv_document_version_id c = dvid"
    and "dget (document_version_validity r) dvid = Some (e, None)"
  shows "documents_inv (fold (store_chunk e dvid) cs r) \<and> chunks_inv (fold (store_chunk e dvid) cs r)"
  using assms
proof (induction cs arbitrary: r)
  case (Cons c cs)
  have "dvid \<in> dom (dget (document_versions r))"
    using documents_invD(1) [OF Cons.prems(1)] Cons.prems(5) by auto
  with Cons.prems have "documents_inv (store_chunk e dvid c r)" "chunks_inv (store_chunk e dvid c r)"
    by (auto intro!: store_chunk_documents_inv store_chunk_chunks_inv)
  moreover have "\<forall>d \<in> set cs. dget (chunk_versions (store_chunk e dvid c r)) (cv_chunk_version_id d) = None \<and>
      cv_document_version_id d = dvid"
    using Cons.prems(3,4) by (auto simp: image_iff)
  ultimately show ?case using Cons.IH [of "store_chunk e dvid c r"] Cons.prems(3,5) by simp
qed simp

lemma store_chunks_simps [simp]:
  "claims_inv (fold (store_chunk e dvid) cs r) = claims_inv r"
  "policies_inv (fold (store_chunk e dvid) cs r) = policies_inv r"
  "claims (fold (store_chunk e dvid) cs r) = claims r"
  "claims_by_answer (fold (store_chunk e dvid) cs r) = claims_by_answer r"
  "answers (fold (store_chunk e dvid) cs r) = answers r"
  "observations (fold (store_chunk e dvid) cs r) = observations r"
  "current_by_key (fold (store_chunk e dvid) cs r) = current_by_key r"
  "superseded (fold (store_chunk e dvid) cs r) = superseded r"
  "reserved_observation_ids (fold (store_chunk e dvid) cs r) = reserved_observation_ids r"
  "observations_by_chunk (fold (store_chunk e dvid) cs r) = observations_by_chunk r"
  "policies (fold (store_chunk e dvid) cs r) = policies r"
  "current_policy_version (fold (store_chunk e dvid) cs r) = current_policy_version r"
  "current_epoch (fold (store_chunk e dvid) cs r) = current_epoch r"
  "processed_events (fold (store_chunk e dvid) cs r) = processed_events r"
  "document_versions (fold (store_chunk e dvid) cs r) = document_versions r"
  "document_version_validity (fold (store_chunk e dvid) cs r) = document_version_validity r"
  by (induction cs arbitrary: r) (simp_all add: store_chunk_def)

lemma store_chunks_old:
  assumes "k \<notin> cv_chunk_version_id ` set cs"
  shows "dget (chunk_versions (fold (store_chunk e dvid) cs r)) k = dget (chunk_versions r) k"
    and "dget (chunk_validity (fold (store_chunk e dvid) cs r)) k = dget (chunk_validity r) k"
  using assms by (induction cs arbitrary: r) auto

lemma store_chunks_new:
  "k \<in> cv_chunk_version_id ` set cs \<Longrightarrow>
     k \<in> dom (dget (chunk_versions (fold (store_chunk e dvid) cs r))) \<and>
     dget (chunk_validity (fold (store_chunk e dvid) cs r)) k = Some (e, None)"
  by (induction cs rule: rev_induct) auto

lemma dicts_inv_store_chunks: "dicts_inv r \<Longrightarrow> dicts_inv (fold (store_chunk e dvid) cs r)"
proof (induction cs arbitrary: r)
  case (Cons c cs)
  moreover have "dicts_inv (store_chunk e dvid c r)"
    using Cons.prems by (simp add: dicts_inv_def store_chunk_def)
  ultimately show ?case by simp
qed simp

lemma open_document_version_frame [simp]:
  "claims_inv (open_document_version e v r) = claims_inv r"
  "policies_inv (open_document_version e v r) = policies_inv r"
  "observations_inv (open_document_version e v r) = observations_inv r"
  "claims (open_document_version e v r) = claims r"
  "claims_by_answer (open_document_version e v r) = claims_by_answer r"
  "answers (open_document_version e v r) = answers r"
  "observations (open_document_version e v r) = observations r"
  "current_by_key (open_document_version e v r) = current_by_key r"
  "superseded (open_document_version e v r) = superseded r"
  "reserved_observation_ids (open_document_version e v r) = reserved_observation_ids r"
  "observations_by_chunk (open_document_version e v r) = observations_by_chunk r"
  "policies (open_document_version e v r) = policies r"
  "current_policy_version (open_document_version e v r) = current_policy_version r"
  "current_epoch (open_document_version e v r) = current_epoch r"
  "processed_events (open_document_version e v r) = processed_events r"
  by (simp_all add: open_document_version_def)

lemma repo_inv_register_document_version:
  assumes inv: "repo_inv r" and ok: "register_document_version r v cs e = Inr r'"
  shows "repo_inv r'"
proof -
  let ?r0 = "open_document_version e v r"
  from ok have new: "dget (document_versions r) (dv_document_version_id v) = None"
    and act: "active_document_version r (dv_document_id v) = Inr None"
    and cs: "distinct (map cv_chunk_version_id cs)"
      "\<forall>c \<in> set cs. dget (chunk_versions r) (cv_chunk_version_id c) = None \<and>
        cv_document_version_id c = dv_document_version_id v"
    and r': "r' = fold (store_chunk e (dv_document_version_id v)) cs ?r0"
    by (simp_all add: register_document_version_Inr)
  from inv have doc: "documents_inv r" and chk: "chunks_inv r" and obs: "observations_inv r"
    by (simp_all add: repo_inv_def)
  have "documents_inv ?r0" using doc new act by (rule open_document_version_documents_inv)
  moreover have "chunks_inv ?r0" using doc chk new by (rule open_document_version_chunks_inv)
  ultimately have "documents_inv r' \<and> chunks_inv r'"
    unfolding r' by (rule store_chunks_inv) (use cs in simp_all)
  moreover have "observations_inv r'"
    using obs
  proof (rule observations_inv_mono)
    show "dom (dget (chunk_versions r)) \<subseteq> dom (dget (chunk_versions r'))"
    proof
      fix k assume "k \<in> dom (dget (chunk_versions r))"
      with cs(2) have "k \<notin> cv_chunk_version_id ` set cs" by auto
      with \<open>k \<in> dom _\<close> show "k \<in> dom (dget (chunk_versions r'))"
        by (auto simp: r' store_chunks_old)
    qed
  qed (simp_all add: r')
  moreover have "dicts_inv r'"
    unfolding r' using inv
    by (intro dicts_inv_store_chunks) (simp add: repo_inv_def dicts_inv_def open_document_version_def)
  ultimately show ?thesis using inv by (simp add: repo_inv_def r')
qed

lemma is_chunk_active_register_document_version:
  assumes "documents_inv r" and "register_document_version r v cs e = Inr r'"
  shows "is_chunk_active r' c \<longleftrightarrow> is_chunk_active r c \<or> c \<in> cv_chunk_version_id ` set cs"
proof -
  from assms(2) have r': "r' = fold (store_chunk e (dv_document_version_id v)) cs (open_document_version e v r)"
    by (simp add: register_document_version_Inr)
  show ?thesis
    by (cases "c \<in> cv_chunk_version_id ` set cs")
      (simp_all add: is_chunk_active_def r' store_chunks_new store_chunks_old interval_active_def)
qed

lemma chunk_versions_register_document_version:
  assumes "register_document_version r v cs e = Inr r'" and "c \<in> dom (dget (chunk_versions r))"
  shows "dget (chunk_versions r') c = dget (chunk_versions r) c"
proof -
  from assms have r': "r' = fold (store_chunk e (dv_document_version_id v)) cs (open_document_version e v r)"
    and "c \<notin> cv_chunk_version_id ` set cs"
    by (auto simp: register_document_version_Inr)
  then show ?thesis by (simp add: store_chunks_old)
qed

section \<open>Deactivating a document version\<close>

lemma fold_close_chunk:
  assumes "distinct cs" and "\<forall>c \<in> set cs. dget (chunk_validity r) c = Some (b, None)"
  shows "fold_res (close_chunk e) cs r =
     Inr (r\<lparr>chunk_validity := fold (\<lambda>c. dset c (b, Some e)) cs (chunk_validity r)\<rparr>)"
  using assms
proof (induction cs arbitrary: r)
  case (Cons c cs)
  let ?r = "r\<lparr>chunk_validity := dset c (b, Some e) (chunk_validity r)\<rparr>"
  have "close_chunk e c r = Inr ?r"
    using Cons.prems(2) by (simp add: close_chunk_def interval_active_def)
  moreover have "\<forall>d \<in> set cs. dget (chunk_validity ?r) d = Some (b, None)"
    using Cons.prems by auto
  ultimately show ?case using Cons.IH [of ?r] Cons.prems(1) by simp
qed simp

lemma dget_fold_dset: "dget (fold (\<lambda>c. dset c x) cs d) k = (if k \<in> set cs then Some x else dget d k)"
  by (induction cs arbitrary: d) auto

lemma dict_ok_fold_dset: "dict_ok d \<Longrightarrow> dict_ok (fold (\<lambda>c. dset c x) cs d)"
  by (induction cs arbitrary: d) auto

lemma deactivate_document_version_Inr:
  assumes doc: "documents_inv r" and chk: "chunks_inv r"
  shows "deactivate_document_version r v e = Inr r' \<longleftrightarrow>
     (\<exists>b. dget (document_version_validity r) v = Some (b, None) \<and>
       r' = r\<lparr>document_version_validity := dset v (b, Some e) (document_version_validity r),
              chunk_validity := fold (\<lambda>c. dset c (b, Some e))
                (chunk_ids_of_document_version r v) (chunk_validity r)\<rparr>)"
proof (cases "dget (document_version_validity r) v")
  case None
  then show ?thesis by (simp add: deactivate_document_version_def)
next
  case (Some iv)
  obtain b x where iv: "iv = (b, x)" by (cases iv)
  from Some documents_invD(1,3) [OF doc] obtain cs where
    cs: "dget (chunks_by_document_version r) v = Some cs" by blast
  then have ids: "chunk_ids_of_document_version r v = cs"
    by (simp add: chunk_ids_of_document_version_def)
  have "\<forall>c \<in> set cs. dget (chunk_validity r) c = Some iv"
    using chunks_invD(3,4) [OF chk] Some ids by metis
  moreover have "distinct cs" using chunks_invD(5) [OF chk, of v] ids by simp
  ultimately have "x = None \<Longrightarrow>
      fold_res (close_chunk e) cs (r\<lparr>document_version_validity :=
         dset v (b, Some e) (document_version_validity r)\<rparr>) =
      Inr (r\<lparr>document_version_validity := dset v (b, Some e) (document_version_validity r),
              chunk_validity := fold (\<lambda>c. dset c (b, Some e)) cs (chunk_validity r)\<rparr>)"
    by (subst fold_close_chunk [where b = b]) (simp_all add: iv)
  then show ?thesis
    using Some cs iv ids by (auto simp: deactivate_document_version_def interval_active_def)
qed

lemma is_chunk_active_deactivate:
  assumes "documents_inv r" and "chunks_inv r" and "deactivate_document_version r v e = Inr r'"
  shows "is_chunk_active r' c \<longleftrightarrow>
     is_chunk_active r c \<and> c \<notin> set (chunk_ids_of_document_version r v)"
  using assms(3) unfolding deactivate_document_version_Inr [OF assms(1,2)]
  by (cases "c \<in> set (chunk_ids_of_document_version r v)")
    (auto simp: is_chunk_active_def dget_fold_dset interval_active_def)

lemma repo_inv_deactivate:
  assumes inv: "repo_inv r" and ok: "deactivate_document_version r v e = Inr r'"
  shows "repo_inv r'"
proof -
  from inv have doc: "documents_inv r" and chk: "chunks_inv r" by (simp_all add: repo_inv_def)
  from ok [unfolded deactivate_document_version_Inr [OF doc chk]] obtain b where
    b: "dget (document_version_validity r) v = Some (b, None)"
    and r': "r' = r\<lparr>document_version_validity := dset v (b, Some e) (document_version_validity r),
              chunk_validity := fold (\<lambda>c. dset c (b, Some e))
                (chunk_ids_of_document_version r v) (chunk_validity r)\<rparr>"
    by blast
  have q: "document_versions_of r' = document_versions_of r"
    "chunk_ids_of_document_version r' = chunk_ids_of_document_version r"
    by (simp_all add: r' document_versions_of_def chunk_ids_of_document_version_def fun_eq_iff)
  have own: "c \<in> set (chunk_ids_of_document_version r v) \<longleftrightarrow> cv_document_version_id cv = v"
    if "dget (chunk_versions r) c = Some cv" for c cv
    using that chunks_invD(2,4) [OF chk] by fastforce
  have dom: "dom (dget (chunk_validity r')) = dom (dget (chunk_validity r))"
    using chunks_invD(4) [OF chk] documents_invD(2) [OF doc]
    by (fastforce simp: r' dget_fold_dset dom_def split: if_splits)
  have vdom: "dom (dget (document_version_validity r')) = dom (dget (document_version_validity r))"
    using b by (auto simp: r')
  have "documents_inv r'"
  proof (rule documents_invI)
    fix d w x iw ix
    assume "w \<in> set (document_versions_of r' d)" "x \<in> set (document_versions_of r' d)"
      "dget (document_version_validity r') w = Some iw" "interval_active iw"
      "dget (document_version_validity r') x = Some ix" "interval_active ix"
    then show "w = x"
      using documents_invD(7) [OF doc, of w d x iw ix]
      by (auto simp: r' document_versions_of_def interval_active_def split: if_splits)
  qed (use documents_invD(1-6) [OF doc] in \<open>simp_all only: dom vdom q\<close>, simp_all add: r')
  moreover have "chunks_inv r'"
  proof (rule chunks_invI)
    fix c cv assume "dget (chunk_versions r') c = Some cv"
    then have c: "dget (chunk_versions r) c = Some cv" by (simp add: r')
    then show "dget (chunk_validity r') c =
        dget (document_version_validity r') (cv_document_version_id cv)"
      using own [OF c] chunks_invD(3) [OF chk c] by (simp add: r' dget_fold_dset)
  qed (use chunks_invD [OF chk] in \<open>simp_all only: q\<close>, simp_all add: r')
  moreover have "dicts_inv r'"
    using inv by (simp add: r' repo_inv_def dicts_inv_def dict_ok_fold_dset)
  ultimately show ?thesis using inv by (simp add: repo_inv_def r')
qed

section \<open>Registering an observation\<close>

lemma observations_invI:
  assumes "\<And>i ob. dget (observations r) i = Some ob \<Longrightarrow>
        ob_observation_id ob = i \<and> ob_subject_kind ob = CLAIM"
    and "\<And>i ob. dget (observations r) i = Some ob \<Longrightarrow> ob_subject_id ob \<in> dom (dget (claims r))"
    and "\<And>i ob. dget (observations r) i = Some ob \<Longrightarrow>
        ob_chunk_version_id ob \<in> dom (dget (chunk_versions r))"
    and "\<And>i ob. dget (observations r) i = Some ob \<Longrightarrow>
        i \<in> set (observations_for_chunk r (ob_chunk_version_id ob))"
    and "\<And>i ob. dget (observations r) i = Some ob \<Longrightarrow>
        observation_key ob \<in> dom (dget (current_by_key r))"
    and "\<And>c i. i \<in> set (observations_for_chunk r c) \<Longrightarrow>
        \<exists>ob. dget (observations r) i = Some ob \<and> ob_chunk_version_id ob = c"
    and "\<And>c. distinct (observations_for_chunk r c)"
    and "\<And>k i. dget (current_by_key r) k = Some i \<Longrightarrow>
        \<exists>ob. dget (observations r) i = Some ob \<and> observation_key ob = k"
    and "superseded r = {i. \<exists>ob. dget (observations r) i = Some ob \<and>
                            dget (current_by_key r) (observation_key ob) \<noteq> Some i}"
    and "reserved_observation_ids r \<inter> dom (dget (observations r)) = {}"
  shows "observations_inv r"
  unfolding observations_inv_def using assms by (intro conjI allI impI) (assumption | blast)+

lemma observations_invD:
  assumes "observations_inv r"
  shows "dget (observations r) i = Some ob \<Longrightarrow> ob_observation_id ob = i"
    and "dget (observations r) i = Some ob \<Longrightarrow> ob_subject_kind ob = CLAIM"
    and "dget (observations r) i = Some ob \<Longrightarrow> ob_subject_id ob \<in> dom (dget (claims r))"
    and "dget (observations r) i = Some ob \<Longrightarrow>
        ob_chunk_version_id ob \<in> dom (dget (chunk_versions r))"
    and "dget (observations r) i = Some ob \<Longrightarrow>
        i \<in> set (observations_for_chunk r (ob_chunk_version_id ob))"
    and "dget (observations r) i = Some ob \<Longrightarrow>
        observation_key ob \<in> dom (dget (current_by_key r))"
    and "i \<in> set (observations_for_chunk r c) \<Longrightarrow>
        \<exists>ob. dget (observations r) i = Some ob \<and> ob_chunk_version_id ob = c"
    and "distinct (observations_for_chunk r c)"
    and "dget (current_by_key r) k = Some i \<Longrightarrow>
        \<exists>ob. dget (observations r) i = Some ob \<and> observation_key ob = k"
    and "superseded r = {i. \<exists>ob. dget (observations r) i = Some ob \<and>
                            dget (current_by_key r) (observation_key ob) \<noteq> Some i}"
    and "reserved_observation_ids r \<inter> dom (dget (observations r)) = {}"
  using assms unfolding observations_inv_def by (elim conjE; metis)+

lemma register_observation_Inr:
  "register_observation r ob = Inr r' \<longleftrightarrow>
     dget (observations r) (ob_observation_id ob) = None \<and>
     ob_observation_id ob \<notin> reserved_observation_ids r \<and>
     ob_chunk_version_id ob \<in> dom (dget (chunk_versions r)) \<and>
     ob_subject_kind ob = CLAIM \<and> ob_subject_id ob \<in> dom (dget (claims r)) \<and>
     r' = r\<lparr>superseded := (case dget (current_by_key r) (observation_key ob) of
                            None \<Rightarrow> superseded r
                          | Some previous \<Rightarrow> insert previous (superseded r)),
            observations := dset (ob_observation_id ob) ob (observations r),
            current_by_key := dset (observation_key ob) (ob_observation_id ob) (current_by_key r),
            observations_by_chunk :=
              dappend (ob_chunk_version_id ob) (ob_observation_id ob) (observations_by_chunk r)\<rparr>"
  by (auto simp: register_observation_def Let_def dmem_def)

lemma repo_inv_register_observation:
  assumes inv: "repo_inv r" and ok: "register_observation r ob = Inr r'"
  shows "repo_inv r'"
proof -
  let ?i = "ob_observation_id ob" and ?k = "observation_key ob"
  from ok have new: "dget (observations r) ?i = None" "?i \<notin> reserved_observation_ids r"
    and refs: "ob_chunk_version_id ob \<in> dom (dget (chunk_versions r))" "ob_subject_kind ob = CLAIM"
      "ob_subject_id ob \<in> dom (dget (claims r))"
    and r': "r' = r\<lparr>superseded := (case dget (current_by_key r) ?k of None \<Rightarrow> superseded r
                          | Some previous \<Rightarrow> insert previous (superseded r)),
            observations := dset ?i ob (observations r),
            current_by_key := dset ?k ?i (current_by_key r),
            observations_by_chunk := dappend (ob_chunk_version_id ob) ?i (observations_by_chunk r)\<rparr>"
    by (simp_all add: register_observation_Inr)
  from inv have obs: "observations_inv r" by (simp add: repo_inv_def)
  have chunk: "observations_for_chunk r' c =
      observations_for_chunk r c @ (if c = ob_chunk_version_id ob then [?i] else [])" for c
    by (simp add: r' observations_for_chunk_def dget_default_def)
  have fresh: "?i \<notin> set (observations_for_chunk r c)" for c
    using observations_invD(7) [OF obs, of ?i c] new by auto
  have notcur: "dget (current_by_key r) k \<noteq> Some ?i" for k
    using observations_invD(9) [OF obs, of k ?i] new by auto
  have "observations_inv r'"
  proof (rule observations_invI)
    fix i o' assume o': "dget (observations r') i = Some o'"
    show "ob_observation_id o' = i \<and> ob_subject_kind o' = CLAIM"
      "ob_subject_id o' \<in> dom (dget (claims r'))"
      "ob_chunk_version_id o' \<in> dom (dget (chunk_versions r'))"
      using o' refs observations_invD(1-4) [OF obs, of i o'] by (auto simp: r' split: if_splits)
    show "i \<in> set (observations_for_chunk r' (ob_chunk_version_id o'))"
      using o' observations_invD(5) [OF obs, of i o'] unfolding chunk
      by (auto simp: r' split: if_splits)
    show "observation_key o' \<in> dom (dget (current_by_key r'))"
      using o' observations_invD(6) [OF obs, of i o'] by (auto simp: r' split: if_splits)
  next
    fix c i assume "i \<in> set (observations_for_chunk r' c)"
    then show "\<exists>ob. dget (observations r') i = Some ob \<and> ob_chunk_version_id ob = c"
      using observations_invD(7) [OF obs, of i c] fresh unfolding chunk
      by (auto simp: r' split: if_splits)
  next
    fix k i assume "dget (current_by_key r') k = Some i"
    then show "\<exists>ob. dget (observations r') i = Some ob \<and> observation_key ob = k"
      using observations_invD(9) [OF obs, of k i] new by (auto simp: r' split: if_splits)
  next
    show "superseded r' = {i. \<exists>ob. dget (observations r') i = Some ob \<and>
        dget (current_by_key r') (observation_key ob) \<noteq> Some i}" (is "_ = ?S")
    proof -
      have eq: "?S = (case dget (current_by_key r) ?k of None \<Rightarrow> superseded r
          | Some previous \<Rightarrow> insert previous (superseded r))"
      proof (cases "dget (current_by_key r) ?k")
        case None
        then have "observation_key o' \<noteq> ?k" if "dget (observations r) i = Some o'" for i o'
          using observations_invD(6) [OF obs that] by auto
        with None new show ?thesis
          unfolding observations_invD(10) [OF obs] by (auto simp: r')
      next
        case (Some p)
        from observations_invD(9) [OF obs Some] obtain q where
          q: "dget (observations r) p = Some q" "observation_key q = ?k" by blast
        with new have "p \<noteq> ?i" by auto
        with Some q new show ?thesis
          unfolding observations_invD(10) [OF obs] by (auto simp: r')
      qed
      then show ?thesis by (simp add: r')
    qed
    show "reserved_observation_ids r' \<inter> dom (dget (observations r')) = {}"
      using observations_invD(11) [OF obs] new by (auto simp: r')
  next
    show "distinct (observations_for_chunk r' c)" for c
      using observations_invD(8) [OF obs, of c] fresh by (simp add: chunk)
  qed
  moreover have "dicts_inv r'" using inv by (simp add: r' repo_inv_def dicts_inv_def)
  ultimately show ?thesis using inv by (simp add: repo_inv_def r')
qed

end
