(* ===== verification/GL_Reference.thy ===== *)
theory GL_Reference
  imports GL_Repository
begin

text \<open>
  Two things: the abstract direct-witness view, which says what the grounding state of a claim
  and of an answer is, and the full-recomputation oracle of \<open>groundloop/reference.py\<close>, which
  computes it by scanning the repository.  The incremental engines are proved against the same
  view.
\<close>

section \<open>The direct-witness view\<close>

text \<open>
  One non-neutral decision about a claim, as \<open>incremental._Contribution\<close> stores it.
\<close>

record contribution =
  co_observation_id :: string
  co_claim_id :: string
  co_text_hash :: string
  co_label :: verification_label
  co_score :: rat

text \<open>A view maps the identifier of each contributing observation to its contribution.\<close>

type_synonym view = "string \<rightharpoonup> contribution"

definition witnesses :: "view \<Rightarrow> string \<Rightarrow> verification_label \<Rightarrow> string set" where
  "witnesses V cid l = {i. \<exists>c. V i = Some c \<and> co_claim_id c = cid \<and> co_label c = l}"

definition witness_hash :: "view \<Rightarrow> string \<Rightarrow> string" where
  "witness_hash V i = co_text_hash (the (V i))"

definition witness_score :: "view \<Rightarrow> string \<Rightarrow> rat" where
  "witness_score V i = co_score (the (V i))"

definition best_score :: "view \<Rightarrow> string \<Rightarrow> verification_label \<Rightarrow> rat option" where
  "best_score V cid l =
     (if witnesses V cid l = {} then None else Some (Max (witness_score V ` witnesses V cid l)))"

definition status_of_flags :: "bool \<Rightarrow> bool \<Rightarrow> claim_status" where
  "status_of_flags supported refuted =
     (if supported \<and> refuted then CONFLICTED else if supported then SUPPORTED
      else if refuted then REFUTED else UNSUPPORTED)"

text \<open>The grounding state of a claim, as a function of the view.\<close>

definition view_claim_state :: "view \<Rightarrow> string \<Rightarrow> claim_state" where
  "view_claim_state V cid =
     \<lparr>cs_claim_id = cid,
      cs_support_count = card (witness_hash V ` witnesses V cid SUPPORT),
      cs_refute_count = card (witness_hash V ` witnesses V cid REFUTE),
      cs_best_support_score = best_score V cid SUPPORT,
      cs_best_refute_score = best_score V cid REFUTE,
      cs_supporting_observation_ids = sorted_list_of_set (witnesses V cid SUPPORT),
      cs_refuting_observation_ids = sorted_list_of_set (witnesses V cid REFUTE),
      cs_status =
        status_of_flags (witnesses V cid SUPPORT \<noteq> {}) (witnesses V cid REFUTE \<noteq> {})\<rparr>"

text \<open>The state of an answer, as a function of the statuses of its required claims.\<close>

definition answer_status_of :: "claim_status list \<Rightarrow> answer_status" where
  "answer_status_of sts =
     (if REFUTED \<in> set sts then CONTRADICTED
      else if CONFLICTED \<in> set sts then ANSWER_CONFLICTED
      else if sts \<noteq> [] \<and> set sts \<subseteq> {SUPPORTED} then VALID
      else if SUPPORTED \<in> set sts then PARTIALLY_SUPPORTED
      else ANSWER_UNSUPPORTED)"

definition view_answer_state :: "string \<Rightarrow> claim_status list \<Rightarrow> answer_state" where
  "view_answer_state aid sts =
     \<lparr>as_answer_version_id = aid,
      as_required_claim_count = int (length sts),
      as_supported_count = int (count_list sts SUPPORTED),
      as_unsupported_count = int (count_list sts UNSUPPORTED),
      as_refuted_count = int (count_list sts REFUTED),
      as_conflicted_count = int (count_list sts CONFLICTED),
      as_status = answer_status_of sts\<rparr>"

text \<open>
  The view of a repository under a policy: the current observations of active chunks whose
  decision is not neutral.
\<close>

definition is_current :: "repo \<Rightarrow> semantic_observation \<Rightarrow> bool" where
  "is_current r ob \<longleftrightarrow> dget (current_by_key r) (observation_key ob) = Some (ob_observation_id ob)"

definition active_observation :: "repo \<Rightarrow> string \<Rightarrow> semantic_observation option" where
  "active_observation r i =
     (case dget (observations r) i of
        None \<Rightarrow> None
      | Some ob \<Rightarrow>
          if is_current r ob \<and> is_chunk_active r (ob_chunk_version_id ob) then Some ob else None)"

definition chunk_text_hash :: "repo \<Rightarrow> string \<Rightarrow> string" where
  "chunk_text_hash r c = (case dget (chunk_versions r) c of None \<Rightarrow> '''' | Some cv \<Rightarrow> cv_text_hash cv)"

definition decided_score :: "semantic_observation \<Rightarrow> verification_label \<Rightarrow> rat" where
  "decided_score ob l = (if l = SUPPORT then ob_support_score ob else ob_refute_score ob)"

definition contribution_of :: "repo \<Rightarrow> decision_policy \<Rightarrow> semantic_observation \<Rightarrow> contribution" where
  "contribution_of r p ob =
     \<lparr>co_observation_id = ob_observation_id ob, co_claim_id = ob_subject_id ob,
      co_text_hash = chunk_text_hash r (ob_chunk_version_id ob), co_label = decide ob p,
      co_score = decided_score ob (decide ob p)\<rparr>"

definition repo_view :: "repo \<Rightarrow> decision_policy \<Rightarrow> view" where
  "repo_view r p i =
     (case active_observation r i of
        None \<Rightarrow> None
      | Some ob \<Rightarrow> if decide ob p = NEUTRAL then None else Some (contribution_of r p ob))"

definition required_claim_ids :: "repo \<Rightarrow> string \<Rightarrow> string list" where
  "required_claim_ids r aid =
     filter (\<lambda>c. case dget (claims r) c of None \<Rightarrow> False | Some cl \<Rightarrow> cl_required cl)
       (claim_ids_of_answer r aid)"

definition spec_claim_state :: "repo \<Rightarrow> decision_policy \<Rightarrow> string \<Rightarrow> claim_state" where
  "spec_claim_state r p cid = view_claim_state (repo_view r p) cid"

definition spec_answer_state :: "repo \<Rightarrow> decision_policy \<Rightarrow> string \<Rightarrow> answer_state" where
  "spec_answer_state r p aid =
     view_answer_state aid (map (\<lambda>c. cs_status (spec_claim_state r p c)) (required_claim_ids r aid))"

section \<open>The full-recomputation oracle\<close>

record scan =
  support_hashes :: "string set"
  refute_hashes :: "string set"
  supporting_ids :: "string list"
  refuting_ids :: "string list"

text \<open>The body of the loop of \<open>compute_claim_state\<close>.\<close>

definition scan_observation ::
    "repo \<Rightarrow> decision_policy \<Rightarrow> string \<Rightarrow> semantic_observation \<Rightarrow> scan \<Rightarrow> scan res" where
  "scan_observation r p cid ob st =
     (if ob_subject_kind ob \<noteq> CLAIM then Inr st
      else if ob_subject_id ob \<noteq> cid then Inr st
      else if \<not> is_chunk_active r (ob_chunk_version_id ob) then Inr st
      else case decide ob p of
        NEUTRAL \<Rightarrow> Inr st
      | SUPPORT \<Rightarrow> bind_res (chunk_version_of r (ob_chunk_version_id ob)) (\<lambda>cv.
          Inr (st\<lparr>support_hashes := insert (cv_text_hash cv) (support_hashes st),
                 supporting_ids := supporting_ids st @ [ob_observation_id ob]\<rparr>))
      | REFUTE \<Rightarrow> bind_res (chunk_version_of r (ob_chunk_version_id ob)) (\<lambda>cv.
          Inr (st\<lparr>refute_hashes := insert (cv_text_hash cv) (refute_hashes st),
                 refuting_ids := refuting_ids st @ [ob_observation_id ob]\<rparr>)))"

definition compute_claim_state :: "repo \<Rightarrow> string \<Rightarrow> claim_state res" where
  "compute_claim_state r cid =
     bind_res (claim_of r cid) (\<lambda>_.
     bind_res (current_policy r) (\<lambda>p.
     bind_res (current_observations r) (\<lambda>obs.
     bind_res (fold_res (scan_observation r p cid) obs
       \<lparr>support_hashes = {}, refute_hashes = {}, supporting_ids = [], refuting_ids = []\<rparr>) (\<lambda>st.
     bind_res (traverse (observation_of r) (supporting_ids st)) (\<lambda>sobs.
     bind_res (traverse (observation_of r) (refuting_ids st)) (\<lambda>robs.
       let supported = 0 < card (support_hashes st);
           refuted = 0 < card (refute_hashes st);
           status = (if supported \<and> refuted then CONFLICTED
                     else if supported then SUPPORTED
                     else if refuted then REFUTED
                     else UNSUPPORTED) in
       Inr \<lparr>cs_claim_id = cid,
            cs_support_count = card (support_hashes st),
            cs_refute_count = card (refute_hashes st),
            cs_best_support_score = max_opt (map ob_support_score sobs),
            cs_best_refute_score = max_opt (map ob_refute_score robs),
            cs_supporting_observation_ids = sort (supporting_ids st),
            cs_refuting_observation_ids = sort (refuting_ids st),
            cs_status = status\<rparr>))))))"

text \<open>
  The comprehension \<open>[claim_states[c] for c in ... if repo.claim(c).required]\<close>: the filter
  runs first for each claim.
\<close>

fun required_states ::
    "repo \<Rightarrow> (string, claim_state) pydict \<Rightarrow> string list \<Rightarrow> claim_state list res" where
  "required_states r cstates [] = Inr []"
| "required_states r cstates (c # cs) =
     bind_res (claim_of r c) (\<lambda>cl.
       if cl_required cl then
         bind_res (lookup KeyError cstates c) (\<lambda>s.
         bind_res (required_states r cstates cs) (\<lambda>ss. Inr (s # ss)))
       else required_states r cstates cs)"

definition count_status :: "claim_status \<Rightarrow> claim_state list \<Rightarrow> int" where
  "count_status st ss = int (length (filter (\<lambda>s. cs_status s = st) ss))"

definition compute_answer_state ::
    "repo \<Rightarrow> string \<Rightarrow> (string, claim_state) pydict \<Rightarrow> answer_state res" where
  "compute_answer_state r aid cstates =
     bind_res (answer_of r aid) (\<lambda>_.
     bind_res (required_states r cstates (claim_ids_of_answer r aid)) (\<lambda>required.
       let supported = count_status SUPPORTED required;
           unsupported = count_status UNSUPPORTED required;
           refuted = count_status REFUTED required;
           conflicted = count_status CONFLICTED required;
           status = (if 0 < refuted then CONTRADICTED
                     else if 0 < conflicted then ANSWER_CONFLICTED
                     else if required \<noteq> [] \<and> supported = int (length required) then VALID
                     else if 0 < supported then PARTIALLY_SUPPORTED
                     else ANSWER_UNSUPPORTED) in
       Inr \<lparr>as_answer_version_id = aid,
            as_required_claim_count = int (length required),
            as_supported_count = supported,
            as_unsupported_count = unsupported,
            as_refuted_count = refuted,
            as_conflicted_count = conflicted,
            as_status = status\<rparr>))"

definition compute_all_states ::
    "repo \<Rightarrow> ((string, claim_state) pydict \<times> (string, answer_state) pydict) res" where
  "compute_all_states r =
     bind_res (traverse (compute_claim_state r) (all_claim_ids r)) (\<lambda>css.
     let cstates = zip (all_claim_ids r) css in
     bind_res (traverse (\<lambda>a. compute_answer_state r a cstates) (all_answer_ids r)) (\<lambda>ass.
       Inr (cstates, zip (all_answer_ids r) ass)))"

section \<open>The oracle computes the view\<close>

lemma current_observations_Inr:
  assumes inv: "observations_inv r" and ok: "dict_ok (current_by_key r)"
  obtains obs where "current_observations r = Inr obs"
    and "set obs = {ob. dget (observations r) (ob_observation_id ob) = Some ob \<and> is_current r ob}"
    and "distinct (map ob_observation_id obs)"
proof -
  define g where "g i = the (dget (observations r) i)" for i
  let ?ids = "dvalues (current_by_key r)"
  have cur: "\<exists>ob. dget (observations r) i = Some ob \<and> g i = ob \<and> observation_key ob = k \<and>
      ob_observation_id ob = i" if "(k, i) \<in> set (current_by_key r)" for k i
  proof -
    from that ok have "dget (current_by_key r) k = Some i" by (simp add: dget_in_set)
    from observations_invD(9) [OF inv this] observations_invD(1) [OF inv]
    show ?thesis by (auto simp: g_def)
  qed
  have run: "current_observations r = Inr (map g ?ids)"
    unfolding current_observations_def
    by (rule traverse_Inr_map) (use cur in \<open>fastforce simp: res_simps\<close>)
  have names: "map ob_observation_id (map g ?ids) = ?ids"
    by (simp add: map_idI) (use cur in fastforce)
  have "inj_on snd (set (current_by_key r))"
  proof (rule inj_onI)
    fix x y assume "x \<in> set (current_by_key r)" "y \<in> set (current_by_key r)" "snd x = snd y"
    moreover obtain k i where "x = (k, i)" by (cases x)
    moreover obtain k' i' where "y = (k', i')" by (cases y)
    ultimately show "x = y" using cur [of k i] cur [of k' i'] by auto
  qed
  then have dist: "distinct ?ids"
    using ok by (simp add: dict_ok_def distinct_map)
  have set: "set (map g ?ids) =
      {ob. dget (observations r) (ob_observation_id ob) = Some ob \<and> is_current r ob}" (is "?A = ?B")
  proof (rule set_eqI, rule iffI)
    fix ob assume "ob \<in> ?A"
    then obtain k i where ki: "(k, i) \<in> set (current_by_key r)" "ob = g i" by auto
    then have "dget (current_by_key r) k = Some i" using ok by (simp add: dget_in_set)
    with cur [OF ki(1)] ki(2) show "ob \<in> ?B" by (auto simp: is_current_def)
  next
    fix ob assume ob: "ob \<in> ?B"
    then have "(observation_key ob, ob_observation_id ob) \<in> set (current_by_key r)"
      by (auto simp: is_current_def dest: map_of_SomeD)
    moreover have "g (ob_observation_id ob) = ob" using ob by (simp add: g_def)
    ultimately show "ob \<in> ?A" by force
  qed
  show thesis by (rule that [OF run set]) (simp only: names dist)
qed

definition contributes ::
    "repo \<Rightarrow> decision_policy \<Rightarrow> string \<Rightarrow> verification_label \<Rightarrow> semantic_observation \<Rightarrow> bool" where
  "contributes r p cid l ob \<longleftrightarrow>
     ob_subject_kind ob = CLAIM \<and> ob_subject_id ob = cid \<and>
     is_chunk_active r (ob_chunk_version_id ob) \<and> decide ob p = l"

lemma scan_observation_Inr:
  assumes "ob_chunk_version_id ob \<in> dom (dget (chunk_versions r))"
  shows "scan_observation r p cid ob st = Inr
    (if contributes r p cid SUPPORT ob then
       st\<lparr>support_hashes := insert (chunk_text_hash r (ob_chunk_version_id ob)) (support_hashes st),
          supporting_ids := supporting_ids st @ [ob_observation_id ob]\<rparr>
     else if contributes r p cid REFUTE ob then
       st\<lparr>refute_hashes := insert (chunk_text_hash r (ob_chunk_version_id ob)) (refute_hashes st),
          refuting_ids := refuting_ids st @ [ob_observation_id ob]\<rparr>
     else st)"
proof -
  from assms obtain cv where cv: "dget (chunk_versions r) (ob_chunk_version_id ob) = Some cv" by blast
  then show ?thesis
    by (cases "decide ob p")
      (simp_all add: scan_observation_def contributes_def chunk_version_of_def chunk_text_hash_def)
qed

lemma scan_observations_Inr:
  assumes "\<forall>ob \<in> set obs. ob_chunk_version_id ob \<in> dom (dget (chunk_versions r))"
  shows "fold_res (scan_observation r p cid) obs
      \<lparr>support_hashes = sh, refute_hashes = rh, supporting_ids = si, refuting_ids = ri\<rparr> = Inr
    \<lparr>support_hashes = sh \<union>
        (\<lambda>ob. chunk_text_hash r (ob_chunk_version_id ob)) ` set (filter (contributes r p cid SUPPORT) obs),
     refute_hashes = rh \<union>
        (\<lambda>ob. chunk_text_hash r (ob_chunk_version_id ob)) ` set (filter (contributes r p cid REFUTE) obs),
     supporting_ids = si @ map ob_observation_id (filter (contributes r p cid SUPPORT) obs),
     refuting_ids = ri @ map ob_observation_id (filter (contributes r p cid REFUTE) obs)\<rparr>"
  using assms
proof (induction obs arbitrary: sh rh si ri)
  case (Cons ob obs)
  have excl: "\<not> (contributes r p cid SUPPORT ob \<and> contributes r p cid REFUTE ob)"
    by (simp add: contributes_def)
  have chunk: "ob_chunk_version_id ob \<in> dom (dget (chunk_versions r))" using Cons.prems by simp
  have IH: "fold_res (scan_observation r p cid) obs
      \<lparr>support_hashes = sh, refute_hashes = rh, supporting_ids = si, refuting_ids = ri\<rparr> = Inr
    \<lparr>support_hashes = sh \<union>
        (\<lambda>ob. chunk_text_hash r (ob_chunk_version_id ob)) ` set (filter (contributes r p cid SUPPORT) obs),
     refute_hashes = rh \<union>
        (\<lambda>ob. chunk_text_hash r (ob_chunk_version_id ob)) ` set (filter (contributes r p cid REFUTE) obs),
     supporting_ids = si @ map ob_observation_id (filter (contributes r p cid SUPPORT) obs),
     refuting_ids = ri @ map ob_observation_id (filter (contributes r p cid REFUTE) obs)\<rparr>"
    for sh rh si ri
    by (rule Cons.IH) (use Cons.prems in simp)
  consider "contributes r p cid SUPPORT ob" "\<not> contributes r p cid REFUTE ob"
    | "contributes r p cid REFUTE ob" "\<not> contributes r p cid SUPPORT ob"
    | "\<not> contributes r p cid SUPPORT ob" "\<not> contributes r p cid REFUTE ob"
    using excl by blast
  then show ?case
    by cases (simp_all add: scan_observation_Inr [OF chunk] IH del: set_filter)
qed simp

lemma active_observation_Some:
  "active_observation r i = Some ob \<longleftrightarrow>
     dget (observations r) i = Some ob \<and> is_current r ob \<and>
     is_chunk_active r (ob_chunk_version_id ob)"
  by (auto simp: active_observation_def split: option.splits if_splits)

lemma repo_view_Some:
  "repo_view r p i = Some c \<longleftrightarrow>
     (\<exists>ob. active_observation r i = Some ob \<and> decide ob p \<noteq> NEUTRAL \<and> c = contribution_of r p ob)"
  by (auto simp: repo_view_def split: option.splits)

lemma finite_dom_repo_view: "finite (dom (repo_view r p))"
proof (rule finite_subset)
  show "dom (repo_view r p) \<subseteq> dom (dget (observations r))"
    by (auto simp: repo_view_Some active_observation_Some)
qed (rule finite_dom_map_of)

lemma finite_witnesses: "finite (dom V) \<Longrightarrow> finite (witnesses V cid l)"
  by (rule finite_subset [of _ "dom V"]) (auto simp: witnesses_def)

lemma witnesses_repo_view:
  assumes inv: "observations_inv r" and "l \<noteq> NEUTRAL"
    and obs: "set obs = {ob. dget (observations r) (ob_observation_id ob) = Some ob \<and> is_current r ob}"
  shows "witnesses (repo_view r p) cid l =
     ob_observation_id ` {ob \<in> set obs. contributes r p cid l ob}" (is "?A = ?B")
proof (rule set_eqI, rule iffI)
  fix i assume "i \<in> ?A"
  then obtain c where c: "repo_view r p i = Some c" "co_claim_id c = cid" "co_label c = l"
    unfolding witnesses_def by blast
  from c(1) obtain ob where "active_observation r i = Some ob" "c = contribution_of r p ob"
    unfolding repo_view_Some by blast
  with c(2,3) have ob: "dget (observations r) i = Some ob" "is_current r ob"
    "is_chunk_active r (ob_chunk_version_id ob)" "ob_subject_id ob = cid" "decide ob p = l"
    by (simp_all add: active_observation_Some contribution_of_def)
  with observations_invD(1,2) [OF inv ob(1)] have "ob \<in> set obs" "contributes r p cid l ob"
    "i = ob_observation_id ob"
    by (simp_all add: obs contributes_def)
  then show "i \<in> ?B" by blast
next
  fix i assume "i \<in> ?B"
  with assms(2) show "i \<in> ?A"
    by (auto simp: obs witnesses_def repo_view_Some active_observation_Some contribution_of_def
        contributes_def)
qed

lemma max_opt_image:
  assumes "set xs = S"
  shows "max_opt (map f xs) = (if S = {} then None else Some (Max (f ` S)))"
  using assms by (auto simp: max_opt_set)

lemma compute_claim_state_spec:
  assumes inv: "repo_inv r" and pol: "current_policy r = Inr p"
    and cid: "cid \<in> dom (dget (claims r))"
  shows "compute_claim_state r cid = Inr (spec_claim_state r p cid)"
proof -
  from inv have oinv: "observations_inv r" and "dict_ok (current_by_key r)"
    by (simp_all add: repo_inv_def dicts_inv_def)
  then obtain obs where obs: "current_observations r = Inr obs"
    "set obs = {ob. dget (observations r) (ob_observation_id ob) = Some ob \<and> is_current r ob}"
    "distinct (map ob_observation_id obs)"
    by (rule current_observations_Inr)
  let ?V = "repo_view r p" and ?C = "\<lambda>l. filter (contributes r p cid l) obs"
  have chunks: "\<forall>ob \<in> set obs. ob_chunk_version_id ob \<in> dom (dget (chunk_versions r))"
    using observations_invD(4) [OF oinv] by (auto simp: obs(2))
  have wit: "witnesses ?V cid l = ob_observation_id ` set (?C l)" if "l \<noteq> NEUTRAL" for l
    using witnesses_repo_view [OF oinv that obs(2), of p cid] by simp
  have get: "observation_of r (ob_observation_id ob) = Inr ob" if "ob \<in> set obs" for ob
    using that by (simp add: observation_of_def obs(2))
  have obs_of: "traverse (observation_of r) (map ob_observation_id (?C l)) = Inr (?C l)" for l
  proof -
    have "traverse (observation_of r) (map ob_observation_id (?C l)) =
        Inr (map (\<lambda>i. the (dget (observations r) i)) (map ob_observation_id (?C l)))"
      by (rule traverse_Inr_map) (auto simp: observation_of_def obs(2))
    also have "map (\<lambda>i. the (dget (observations r) i)) (map ob_observation_id (?C l)) = ?C l"
      unfolding map_map by (rule map_idI) (simp add: obs(2))
    finally show ?thesis .
  qed
  have view: "?V (ob_observation_id ob) = Some (contribution_of r p ob)"
    if "ob \<in> set (?C l)" "l \<noteq> NEUTRAL" for ob l
    using that by (auto simp: repo_view_Some active_observation_Some obs(2) contributes_def)
  have hashes: "witness_hash ?V ` witnesses ?V cid l =
      (\<lambda>ob. chunk_text_hash r (ob_chunk_version_id ob)) ` set (?C l)" if "l \<noteq> NEUTRAL" for l
    using view [OF _ that] unfolding wit [OF that] image_image
    by (intro image_cong) (auto simp: witness_hash_def contribution_of_def)
  have scores: "witness_score ?V ` witnesses ?V cid l = (\<lambda>ob. decided_score ob l) ` set (?C l)"
    if "l \<noteq> NEUTRAL" for l
    using view [OF _ that] unfolding wit [OF that] image_image
    by (intro image_cong) (auto simp: witness_score_def contribution_of_def contributes_def)
  have best: "best_score ?V cid l = max_opt (map (\<lambda>ob. decided_score ob l) (?C l))"
    if "l \<noteq> NEUTRAL" for l
    unfolding best_score_def scores [OF that] max_opt_image [OF refl] by (simp add: wit [OF that])
  have ids: "sorted_list_of_set (witnesses ?V cid l) = sort (map ob_observation_id (?C l))"
    if "l \<noteq> NEUTRAL" for l
  proof -
    have "distinct (map ob_observation_id (?C l))"
      using obs(3) by (rule distinct_map_filter)
    then show ?thesis by (simp only: sort_distinct_set wit [OF that] set_map)
  qed
  have none: "witnesses ?V cid l = {} \<longleftrightarrow> ?C l = []" if "l \<noteq> NEUTRAL" for l
    unfolding wit [OF that] by (simp only: image_is_empty set_empty)
  have pos: "0 < card (f ` set xs) \<longleftrightarrow> xs \<noteq> []" for f :: "semantic_observation \<Rightarrow> string" and xs
    by (simp add: card_gt_0_iff)
  from cid obtain cl where "claim_of r cid = Inr cl" by (auto simp: claim_of_def)
  then show ?thesis
    by (simp add: compute_claim_state_def pol obs(1) scan_observations_Inr [OF chunks]
        spec_claim_state_def view_claim_state_def hashes best ids none obs_of pos
        status_of_flags_def decided_score_def Let_def del: set_filter)
qed

lemma required_states_Inr:
  assumes "set cs \<subseteq> dom (dget (claims r))"
    and "\<And>c. c \<in> set cs \<Longrightarrow> dget cstates c = Some (f c)"
  shows "required_states r cstates cs =
     Inr (map f (filter (\<lambda>c. case dget (claims r) c of None \<Rightarrow> False | Some cl \<Rightarrow> cl_required cl) cs))"
  using assms
proof (induction cs)
  case (Cons c cs)
  then obtain cl where "dget (claims r) c = Some cl" by auto
  with Cons show ?case by (simp add: claim_of_def)
qed simp

lemma count_status_map:
  "count_status st ss = int (count_list (map cs_status ss) st)"
  by (induction ss) (auto simp: count_status_def)

lemma count_list_pos: "0 < count_list xs x \<longleftrightarrow> x \<in> set xs"
  by (metis count_list_0_iff gr0I less_irrefl)

lemma count_list_all: "count_list xs x = length xs \<longleftrightarrow> set xs \<subseteq> {x}"
proof (induction xs)
  case (Cons y ys)
  have "count_list ys x \<le> length ys" by (rule count_le_length)
  with Cons show ?case by auto
qed simp

lemma answer_status_of_counts:
  "answer_status_of sts =
     (if 0 < count_list sts REFUTED then CONTRADICTED
      else if 0 < count_list sts CONFLICTED then ANSWER_CONFLICTED
      else if sts \<noteq> [] \<and> count_list sts SUPPORTED = length sts then VALID
      else if 0 < count_list sts SUPPORTED then PARTIALLY_SUPPORTED
      else ANSWER_UNSUPPORTED)"
  by (simp add: answer_status_of_def count_list_pos count_list_all)

lemma claim_ids_of_answer_dom: "claims_inv r \<Longrightarrow> set (claim_ids_of_answer r a) \<subseteq> dom (dget (claims r))"
  using claim_lists_invD(3) by (fastforce simp: claims_inv_split)

lemma compute_answer_state_spec:
  assumes "claims_inv r" and "a \<in> dom (dget (answers r))"
    and "\<And>c. c \<in> dom (dget (claims r)) \<Longrightarrow> dget cstates c = Some (f c)"
  shows "compute_answer_state r a cstates =
     Inr (view_answer_state a (map (\<lambda>c. cs_status (f c)) (required_claim_ids r a)))"
proof -
  from assms(2) obtain av where "answer_of r a = Inr av" by (auto simp: answer_of_def)
  moreover have "required_states r cstates (claim_ids_of_answer r a) =
      Inr (map f (required_claim_ids r a))"
    unfolding required_claim_ids_def
    by (rule required_states_Inr, rule claim_ids_of_answer_dom [OF assms(1)], rule assms(3))
      (use claim_ids_of_answer_dom [OF assms(1)] in blast)
  ultimately show ?thesis
    by (simp add: compute_answer_state_def view_answer_state_def answer_status_of_counts
        count_status_map comp_def Let_def)
qed

lemma zip_tabulate: "zip xs (map f xs) = map (\<lambda>x. (x, f x)) xs"
  by (induction xs) auto

theorem compute_all_states_spec:
  assumes inv: "repo_inv r" and pol: "current_policy r = Inr p"
  shows "compute_all_states r =
     Inr (map (\<lambda>c. (c, spec_claim_state r p c)) (all_claim_ids r),
          map (\<lambda>a. (a, spec_answer_state r p a)) (all_answer_ids r))"
proof -
  let ?cs = "map (\<lambda>c. (c, spec_claim_state r p c)) (all_claim_ids r)"
  have claims: "traverse (compute_claim_state r) (all_claim_ids r) =
      Inr (map (spec_claim_state r p) (all_claim_ids r))"
    by (rule traverse_Inr_map)
      (use compute_claim_state_spec [OF inv pol] in \<open>simp add: all_claim_ids_def dom_map_of_conv_image_fst\<close>)
  have table: "dget ?cs c = Some (spec_claim_state r p c)" if "c \<in> dom (dget (claims r))" for c
    unfolding dget_tabulate using that by (simp add: all_claim_ids_def dom_map_of_conv_image_fst)
  have "claims_inv r" using inv by (simp add: repo_inv_def)
  then have answer: "compute_answer_state r a ?cs = Inr (spec_answer_state r p a)"
    if "a \<in> set (all_answer_ids r)" for a
    unfolding spec_answer_state_def
    by (rule compute_answer_state_spec [OF _ _ table])
      (use that in \<open>simp_all add: all_answer_ids_def dom_map_of_conv_image_fst\<close>)
  have "traverse (\<lambda>a. compute_answer_state r a ?cs) (all_answer_ids r) =
      Inr (map (spec_answer_state r p) (all_answer_ids r))"
    by (rule traverse_Inr_map) (rule answer)
  then show ?thesis
    by (simp only: compute_all_states_def claims bind_res_simps Let_def zip_tabulate)
qed

lemma compute_all_states_no_policy:
  assumes "current_policy_version r = None" and "claims r \<noteq> []"
  shows "compute_all_states r = Inl ValidationError"
proof -
  from assms(2) obtain c cl cs where "claims r = (c, cl) # cs" by (metis neq_Nil_conv surj_pair)
  with assms(1) show ?thesis
    by (simp add: compute_all_states_def all_claim_ids_def compute_claim_state_def claim_of_def
        current_policy_def)
qed

end
