(* ===== verification/GL_Events.thy ===== *)
theory GL_Events
  imports GL_Reference
begin

text \<open>
  Event payloads and their application (\<open>groundloop/events.py\<close>).  SHA-256 of a text and of the
  canonical rendering of an event are the parameters \<open>sha\<close> and \<open>dig\<close>.  \<open>apply_event\<close> works on a
  deep copy and installs it only at the end, so the model returns either an exception (and the
  caller keeps its state) or the deltas with the new state.
\<close>

section \<open>Payloads\<close>

record chunk_input =
  ci_chunk_version_id :: string
  ci_chunk_index :: int
  ci_text :: py_text

datatype event =
    InsertDocumentEvent (event_id: string) (ev_document_id: string)
      (ev_document_version_id: string) (ev_content_hash: string) (ev_chunks: "chunk_input list")
  | DeleteDocumentVersionEvent (event_id: string) (ev_document_version_id: string)
  | ReplaceDocumentVersionEvent (event_id: string) (ev_document_id: string)
      (ev_old_document_version_id: string) (ev_new_document_version_id: string)
      (ev_content_hash: string) (ev_chunks: "chunk_input list")
  | PolicyChangeEvent (event_id: string) (ev_policy: decision_policy)
  | ObserveEvent (event_id: string) (ev_observation: semantic_observation)

fun event_operation :: "event \<Rightarrow> update_operation" where
  "event_operation (InsertDocumentEvent _ _ _ _ _) = OP_INSERT"
| "event_operation (DeleteDocumentVersionEvent _ _) = OP_DELETE"
| "event_operation (ReplaceDocumentVersionEvent _ _ _ _ _ _) = OP_REPLACE"
| "event_operation (PolicyChangeEvent _ _) = OP_POLICY_CHANGE"
| "event_operation (ObserveEvent _ _) = OP_OBSERVE"

fun event_target :: "event \<Rightarrow> string" where
  "event_target (InsertDocumentEvent _ _ v _ _) = ''document_version='' @ v"
| "event_target (DeleteDocumentVersionEvent _ v) = ''document_version='' @ v"
| "event_target (ReplaceDocumentVersionEvent _ _ old new _ _) =
     ''old_document_version='' @ old @ '' new_document_version='' @ new"
| "event_target (PolicyChangeEvent _ p) = ''policy='' @ dp_policy_version p"
| "event_target (ObserveEvent _ ob) = ''observation='' @ ob_observation_id ob"

section \<open>Application\<close>

definition build_chunks ::
    "(py_text \<Rightarrow> string) \<Rightarrow> string \<Rightarrow> chunk_input list \<Rightarrow> chunk_version list res" where
  "build_chunks sha dvid cs =
     traverse (\<lambda>c. make_chunk_version sha (ci_chunk_version_id c) dvid (ci_chunk_index c)
                     (ci_text c) '''') cs"

fun check_new_chunks :: "repo \<Rightarrow> chunk_input list \<Rightarrow> unit res" where
  "check_new_chunks r [] = Inr ()"
| "check_new_chunks r (c # cs) =
     (if has_chunk_version r (ci_chunk_version_id c) then Inl DuplicateIdentifierError
      else check_new_chunks r cs)"

definition validate_replace ::
    "repo \<Rightarrow> string \<Rightarrow> string \<Rightarrow> string \<Rightarrow> chunk_input list \<Rightarrow> unit res" where
  "validate_replace r d old new cs =
     bind_res (document_version_of r old) (\<lambda>dv.
     if dv_document_id dv \<noteq> d then Inl InvalidEventError
     else bind_res (active_document_version r d) (\<lambda>active.
       if active \<noteq> Some old then Inl InvalidEventError
       else if has_document_version r new then Inl DuplicateIdentifierError
       else check_new_chunks r cs))"

definition insert_version ::
    "(py_text \<Rightarrow> string) \<Rightarrow> repo \<Rightarrow> string \<Rightarrow> string \<Rightarrow> string \<Rightarrow> chunk_input list \<Rightarrow> nat \<Rightarrow> repo res" where
  "insert_version sha r d v h cs epoch =
     bind_res (build_chunks sha v cs) (\<lambda>chunks.
       register_document_version r
         \<lparr>dv_document_version_id = v, dv_document_id = d, dv_content_hash = h\<rparr> chunks epoch)"

fun mutate :: "(py_text \<Rightarrow> string) \<Rightarrow> repo \<Rightarrow> event \<Rightarrow> nat \<Rightarrow> repo res" where
  "mutate sha r (InsertDocumentEvent _ d v h cs) epoch = insert_version sha r d v h cs epoch"
| "mutate sha r (DeleteDocumentVersionEvent _ v) epoch = deactivate_document_version r v epoch"
| "mutate sha r (ReplaceDocumentVersionEvent _ d old new h cs) epoch =
     bind_res (validate_replace r d old new cs) (\<lambda>_.
     bind_res (deactivate_document_version r old epoch) (\<lambda>r'.
       insert_version sha r' d new h cs epoch))"
| "mutate sha r (PolicyChangeEvent _ p) epoch = activate_policy r p epoch"
| "mutate sha r (ObserveEvent _ ob) epoch = register_observation r ob"

text \<open>
  The two delta loops of \<open>apply_event\<close> differ only in the kind of object and in the status
  field: one entry for each identifier, in sorted order, present before with another status.
\<close>

definition status_changes ::
    "string \<Rightarrow> string \<Rightarrow> string \<Rightarrow> ('s \<Rightarrow> string) \<Rightarrow> (string, 's) pydict \<Rightarrow> (string, 's) pydict
      \<Rightarrow> status_delta list" where
  "status_changes eid kind reason status_value before after =
     concat (map (\<lambda>i. case (dget before i, dget after i) of
          (Some old, Some new) \<Rightarrow>
            if status_value old \<noteq> status_value new then
              [\<lparr>sd_event_id = eid, sd_object_type = kind, sd_object_id = i,
                sd_old_status = status_value old, sd_new_status = status_value new,
                sd_reason = reason\<rparr>]
            else []
        | _ \<Rightarrow> []) (sort (dkeys after)))"

definition event_reason :: "event \<Rightarrow> string" where
  "event_reason ev =
     ''event='' @ event_id ev @ '' op='' @ update_operation_value (event_operation ev) @ '' '' @
     event_target ev"

definition apply_event ::
    "(py_text \<Rightarrow> string) \<Rightarrow> (event \<Rightarrow> string) \<Rightarrow> repo \<Rightarrow> event \<Rightarrow> (status_delta list \<times> repo) res" where
  "apply_event sha dig r ev =
     (case recorded_event r (event_id ev) of
        Some (recorded_digest, recorded_deltas) \<Rightarrow>
          if recorded_digest = dig ev then Inr (recorded_deltas, r) else Inl EventConflictError
      | None \<Rightarrow>
          bind_res (compute_all_states r) (\<lambda>(before_claims, before_answers).
          let (staged, epoch) = advance_epoch r in
          bind_res (mutate sha staged ev epoch) (\<lambda>staged'.
          bind_res (compute_all_states staged') (\<lambda>(after_claims, after_answers).
          let reason = event_reason ev;
              deltas =
                status_changes (event_id ev) ''claim'' reason
                  (\<lambda>s. claim_status_value (cs_status s)) before_claims after_claims @
                status_changes (event_id ev) ''answer'' reason
                  (\<lambda>s. answer_status_value (as_status s)) before_answers after_answers in
          Inr (deltas, record_event staged' (event_id ev) (dig ev) deltas)))))"

section \<open>Idempotence and conflicts\<close>

lemma apply_event_replay:
  assumes "recorded_event r (event_id ev) = Some (dig ev, ds)"
  shows "apply_event sha dig r ev = Inr (ds, r)"
  using assms by (simp add: apply_event_def)

lemma apply_event_conflict:
  assumes "recorded_event r (event_id ev) = Some (d, ds)" and "d \<noteq> dig ev"
  shows "apply_event sha dig r ev = Inl EventConflictError"
  using assms by (simp add: apply_event_def)

text \<open>A new event that is accepted went through every stage.\<close>

lemma apply_event_fresh:
  assumes "apply_event sha dig r ev = Inr (ds, r')" and "recorded_event r (event_id ev) = None"
  obtains bc ba ac aa r1 where "compute_all_states r = Inr (bc, ba)"
    and "mutate sha (r\<lparr>current_epoch := Suc (current_epoch r)\<rparr>) ev (Suc (current_epoch r)) = Inr r1"
    and "compute_all_states r1 = Inr (ac, aa)"
    and "ds = status_changes (event_id ev) ''claim'' (event_reason ev)
                (\<lambda>s. claim_status_value (cs_status s)) bc ac @
              status_changes (event_id ev) ''answer'' (event_reason ev)
                (\<lambda>s. answer_status_value (as_status s)) ba aa"
    and "r' = record_event r1 (event_id ev) (dig ev) ds"
proof -
  from assms obtain s where s: "compute_all_states r = Inr s"
    by (cases "compute_all_states r") (auto simp: apply_event_def)
  obtain bc ba where s': "s = (bc, ba)" by (cases s)
  let ?r = "r\<lparr>current_epoch := Suc (current_epoch r)\<rparr>"
  from assms s s' obtain r1 where r1: "mutate sha ?r ev (Suc (current_epoch r)) = Inr r1"
    by (cases "mutate sha ?r ev (Suc (current_epoch r))") (auto simp: apply_event_def advance_epoch_def)
  from assms s s' r1 obtain t where t: "compute_all_states r1 = Inr t"
    by (cases "compute_all_states r1") (auto simp: apply_event_def advance_epoch_def)
  obtain ac aa where t': "t = (ac, aa)" by (cases t)
  show thesis
    by (rule that [OF s [unfolded s'] r1 t [unfolded t']])
      (use assms s s' r1 t t' in \<open>auto simp: apply_event_def advance_epoch_def Let_def\<close>)
qed

lemma recorded_event_record_event [simp]:
  "recorded_event (record_event r e d ds) e' =
     (if e' = e then Some (d, ds) else recorded_event r e')"
  by (simp add: recorded_event_def record_event_def)

lemma apply_event_recorded:
  assumes "apply_event sha dig r ev = Inr (ds, r')"
  shows "recorded_event r' (event_id ev) = Some (dig ev, ds)"
proof (cases "recorded_event r (event_id ev)")
  case None
  then show ?thesis using assms by (auto elim: apply_event_fresh)
next
  case (Some x)
  then show ?thesis using assms by (cases x) (auto simp: apply_event_def split: if_splits)
qed

section \<open>The repository invariant\<close>

lemma repo_inv_epoch_update [simp]: "repo_inv (r\<lparr>current_epoch := n\<rparr>) = repo_inv r"
  by (simp add: repo_inv_def)

lemma insert_version_inv:
  assumes "repo_inv r" and "insert_version sha r d v h cs e = Inr r'"
  shows "repo_inv r'"
  using assms by (auto simp: insert_version_def elim!: bind_res_InrE dest: repo_inv_register_document_version)

lemma mutate_inv:
  assumes "repo_inv r" and "mutate sha r ev e = Inr r'"
  shows "repo_inv r'"
  using assms
  by (cases ev)
    (auto elim!: bind_res_InrE dest: insert_version_inv repo_inv_deactivate repo_inv_activate_policy
      repo_inv_register_observation)

lemma apply_event_inv:
  assumes "repo_inv r" and "apply_event sha dig r ev = Inr (ds, r')"
  shows "repo_inv r'"
proof (cases "recorded_event r (event_id ev)")
  case None
  with assms(2) obtain bc ba ac aa r1 where
    r1: "mutate sha (r\<lparr>current_epoch := Suc (current_epoch r)\<rparr>) ev (Suc (current_epoch r)) = Inr r1"
    and r': "r' = record_event r1 (event_id ev) (dig ev) ds"
    by (rule apply_event_fresh)
  from r1 have "repo_inv r1" using assms(1) by (metis mutate_inv repo_inv_epoch_update)
  then show ?thesis unfolding r' by (rule repo_inv_record_event)
next
  case (Some x)
  then show ?thesis using assms by (cases x) (auto simp: apply_event_def split: if_splits)
qed

section \<open>The deltas\<close>

text \<open>
  \<open>status_changes\<close> between two tabulated functions: one entry for every identifier present
  before and after whose wire status differs, in identifier order.
\<close>

lemma status_changes_tabulated:
  assumes "set xs \<subseteq> set ys"
  shows "status_changes eid kind reason val (map (\<lambda>i. (i, f i)) xs) (map (\<lambda>i. (i, g i)) ys) =
     map (\<lambda>i. \<lparr>sd_event_id = eid, sd_object_type = kind, sd_object_id = i,
                sd_old_status = val (f i), sd_new_status = val (g i), sd_reason = reason\<rparr>)
       (filter (\<lambda>i. i \<in> set xs \<and> val (f i) \<noteq> val (g i)) (sort ys))"
proof -
  have keys: "dkeys (map (\<lambda>i. (i, g i)) ys) = ys" by (simp add: comp_def)
  have "concat (map (\<lambda>i. case (dget (map (\<lambda>i. (i, f i)) xs) i, dget (map (\<lambda>i. (i, g i)) ys) i) of
          (Some old, Some new) \<Rightarrow>
            if val old \<noteq> val new then
              [\<lparr>sd_event_id = eid, sd_object_type = kind, sd_object_id = i,
                sd_old_status = val old, sd_new_status = val new, sd_reason = reason\<rparr>]
            else []
        | _ \<Rightarrow> []) zs) =
      map (\<lambda>i. \<lparr>sd_event_id = eid, sd_object_type = kind, sd_object_id = i,
                sd_old_status = val (f i), sd_new_status = val (g i), sd_reason = reason\<rparr>)
       (filter (\<lambda>i. i \<in> set xs \<and> val (f i) \<noteq> val (g i)) zs)" if "set zs \<subseteq> set ys" for zs
    using that by (induction zs) (auto simp: dget_tabulate)
  from this [of "sort ys"] show ?thesis unfolding status_changes_def keys by simp
qed

lemma register_document_version_claims:
  "register_document_version r v cs e = Inr r' \<Longrightarrow>
     claims r' = claims r \<and> answers r' = answers r \<and> claims_by_answer r' = claims_by_answer r \<and>
     observations r' = observations r \<and> current_by_key r' = current_by_key r \<and>
     policies r' = policies r \<and> current_policy_version r' = current_policy_version r"
  unfolding register_document_version_Inr by (auto simp: open_document_version_def)

lemma fold_close_chunk_frame:
  "fold_res (close_chunk e) cs r = Inr r' \<Longrightarrow>
     claims r' = claims r \<and> answers r' = answers r \<and> claims_by_answer r' = claims_by_answer r \<and>
     observations r' = observations r \<and> current_by_key r' = current_by_key r \<and>
     policies r' = policies r \<and> current_policy_version r' = current_policy_version r \<and>
     chunk_versions r' = chunk_versions r"
  by (rule fold_res_invariant) (auto simp: close_chunk_def elim!: bind_res_InrE)

lemma deactivate_document_version_claims:
  assumes "deactivate_document_version r v e = Inr r'"
  shows "claims r' = claims r \<and> answers r' = answers r \<and> claims_by_answer r' = claims_by_answer r \<and>
     observations r' = observations r \<and> current_by_key r' = current_by_key r \<and>
     policies r' = policies r \<and> current_policy_version r' = current_policy_version r \<and>
     chunk_versions r' = chunk_versions r"
  using assms
  by (auto simp: deactivate_document_version_def split: option.splits if_splits
      elim!: bind_res_InrE dest!: fold_close_chunk_frame)

lemma mutate_registry:
  assumes "mutate sha r ev e = Inr r'"
  shows "claims r' = claims r \<and> answers r' = answers r \<and> claims_by_answer r' = claims_by_answer r"
  using assms
  by (cases ev)
    (auto simp: insert_version_def register_observation_Inr activate_policy_def Let_def
      split: if_splits option.splits elim!: bind_res_InrE
      dest!: register_document_version_claims deactivate_document_version_claims)

text \<open>The view depends on four fields of the repository only.\<close>

lemma active_observation_cong:
  assumes "observations r' = observations r" and "current_by_key r' = current_by_key r"
    and "chunk_validity r' = chunk_validity r"
  shows "active_observation r' = active_observation r"
  by (rule ext) (simp add: active_observation_def is_current_def is_chunk_active_def assms
      cong: option.case_cong)

lemma repo_view_cong:
  assumes "observations r' = observations r" and "current_by_key r' = current_by_key r"
    and "chunk_validity r' = chunk_validity r" and "chunk_versions r' = chunk_versions r"
  shows "repo_view r' p = repo_view r p"
  by (rule ext)
    (simp add: repo_view_def active_observation_cong [OF assms(1-3)] contribution_of_def
      chunk_text_hash_def assms(4) cong: option.case_cong if_cong)

lemma spec_states_record_event [simp]:
  "repo_view (record_event r e d ds) p = repo_view r p"
  "required_claim_ids (record_event r e d ds) a = required_claim_ids r a"
  "spec_claim_state (record_event r e d ds) p c = spec_claim_state r p c"
  "spec_answer_state (record_event r e d ds) p a = spec_answer_state r p a"
  "current_policy (record_event r e d ds) = current_policy r"
  "all_claim_ids (record_event r e d ds) = all_claim_ids r"
  "all_answer_ids (record_event r e d ds) = all_answer_ids r"
proof -
  show view: "repo_view (record_event r e d ds) p = repo_view r p"
    by (rule repo_view_cong) (simp_all add: record_event_def)
  show req: "required_claim_ids (record_event r e d ds) a = required_claim_ids r a" for a
    by (simp add: required_claim_ids_def claim_ids_of_answer_def record_event_def)
  show "spec_claim_state (record_event r e d ds) p c = spec_claim_state r p c" for c
    by (simp add: spec_claim_state_def view)
  then show "spec_answer_state (record_event r e d ds) p a = spec_answer_state r p a"
    by (simp add: spec_answer_state_def req)
qed (simp_all add: current_policy_def all_claim_ids_def all_answer_ids_def record_event_def
    cong: option.case_cong)

lemma spec_states_epoch [simp]:
  "repo_view (r\<lparr>current_epoch := n\<rparr>) p = repo_view r p"
  "current_policy (r\<lparr>current_epoch := n\<rparr>) = current_policy r"
  by (rule repo_view_cong) (simp_all add: current_policy_def cong: option.case_cong)

text \<open>What the deltas of a new event are, in terms of the direct-witness specification.\<close>

definition status_delta_of ::
    "event \<Rightarrow> string \<Rightarrow> string \<Rightarrow> string \<Rightarrow> string \<Rightarrow> status_delta" where
  "status_delta_of ev kind i old new =
     \<lparr>sd_event_id = event_id ev, sd_object_type = kind, sd_object_id = i, sd_old_status = old,
      sd_new_status = new, sd_reason = event_reason ev\<rparr>"

definition spec_deltas ::
    "repo \<Rightarrow> decision_policy \<Rightarrow> repo \<Rightarrow> decision_policy \<Rightarrow> event \<Rightarrow> status_delta list" where
  "spec_deltas r p r' q ev =
     map (\<lambda>c. status_delta_of ev ''claim'' c (claim_status_value (cs_status (spec_claim_state r p c)))
                (claim_status_value (cs_status (spec_claim_state r' q c))))
       (filter (\<lambda>c. cs_status (spec_claim_state r p c) \<noteq> cs_status (spec_claim_state r' q c))
         (sort (all_claim_ids r))) @
     map (\<lambda>a. status_delta_of ev ''answer'' a (answer_status_value (as_status (spec_answer_state r p a)))
                (answer_status_value (as_status (spec_answer_state r' q a))))
       (filter (\<lambda>a. as_status (spec_answer_state r p a) \<noteq> as_status (spec_answer_state r' q a))
         (sort (all_answer_ids r)))"

lemma filter_in_sort: "filter (\<lambda>i. i \<in> set xs \<and> P i) (sort xs) = filter P (sort xs)"
  by (rule filter_cong) auto

lemma apply_event_deltas:
  assumes inv: "repo_inv r" and ok: "apply_event sha dig r ev = Inr (ds, r')"
    and new: "recorded_event r (event_id ev) = None"
    and p: "current_policy r = Inr p" and q: "current_policy r' = Inr q"
  shows "ds = spec_deltas r p r' q ev"
proof -
  from ok new obtain bc ba ac aa r1 where b: "compute_all_states r = Inr (bc, ba)"
    and r1: "mutate sha (r\<lparr>current_epoch := Suc (current_epoch r)\<rparr>) ev (Suc (current_epoch r)) = Inr r1"
    and a: "compute_all_states r1 = Inr (ac, aa)"
    and ds: "ds = status_changes (event_id ev) ''claim'' (event_reason ev)
                (\<lambda>s. claim_status_value (cs_status s)) bc ac @
              status_changes (event_id ev) ''answer'' (event_reason ev)
                (\<lambda>s. answer_status_value (as_status s)) ba aa"
    and r': "r' = record_event r1 (event_id ev) (dig ev) ds"
    by (rule apply_event_fresh)
  have inv1: "repo_inv r1" using inv r1 by (metis mutate_inv repo_inv_epoch_update)
  have ids: "all_claim_ids r1 = all_claim_ids r" "all_answer_ids r1 = all_answer_ids r"
    using mutate_registry [OF r1] by (simp_all add: all_claim_ids_def all_answer_ids_def)
  from q have q1: "current_policy r1 = Inr q" by (simp add: r')
  from b compute_all_states_spec [OF inv p]
  have bs: "bc = map (\<lambda>c. (c, spec_claim_state r p c)) (all_claim_ids r)"
    "ba = map (\<lambda>a. (a, spec_answer_state r p a)) (all_answer_ids r)" by simp_all
  from a compute_all_states_spec [OF inv1 q1]
  have as: "ac = map (\<lambda>c. (c, spec_claim_state r1 q c)) (all_claim_ids r)"
    "aa = map (\<lambda>a. (a, spec_answer_state r1 q a)) (all_answer_ids r)" by (simp_all add: ids)
  show ?thesis
    unfolding ds bs as status_changes_tabulated [OF order_refl] spec_deltas_def status_delta_of_def
      filter_in_sort
    by (simp add: r')
qed

section \<open>Reachable repositories\<close>

text \<open>
  The repositories that arise from the empty one by registering questions and answers,
  reserving external identifiers, and applying events.
\<close>

inductive reachable_repo :: "(py_text \<Rightarrow> string) \<Rightarrow> (event \<Rightarrow> string) \<Rightarrow> repo \<Rightarrow> bool"
  for sha :: "py_text \<Rightarrow> string" and dig :: "event \<Rightarrow> string" where
  rr_empty: "reachable_repo sha dig empty_repo"
| rr_question: "reachable_repo sha dig r \<Longrightarrow> register_question r q = Inr r' \<Longrightarrow> reachable_repo sha dig r'"
| rr_answer: "reachable_repo sha dig r \<Longrightarrow> register_answer r a cs = Inr r' \<Longrightarrow> reachable_repo sha dig r'"
| rr_reserve: "reachable_repo sha dig r \<Longrightarrow> reserve_external_observation_id r i = Inr r' \<Longrightarrow>
     reachable_repo sha dig r'"
| rr_event: "reachable_repo sha dig r \<Longrightarrow> apply_event sha dig r ev = Inr (ds, r') \<Longrightarrow>
     reachable_repo sha dig r'"

lemma reachable_repo_inv: "reachable_repo sha dig r \<Longrightarrow> repo_inv r"
  by (induction rule: reachable_repo.induct)
    (auto intro: repo_inv_empty dest: repo_inv_register_question repo_inv_register_answer
      repo_inv_reserve apply_event_inv)

end
