(* ===== verification/GL_Demo.thy ===== *)
theory GL_Demo
  imports GL_Events
begin

text \<open>
  Scripts of repository operations, and the small concrete history at which the properties are
  instantiated: one answer with a required and an optional claim, a policy, two documents with
  the same text, and three observations.
\<close>

datatype repo_op =
    RegisterQuestion question
  | RegisterAnswer answer_version "claim list"
  | Reserve string
  | ApplyEvent event

fun run_op :: "(py_text \<Rightarrow> string) \<Rightarrow> (event \<Rightarrow> string) \<Rightarrow> repo_op \<Rightarrow> repo \<Rightarrow> repo res" where
  "run_op sha dig (RegisterQuestion q) r = register_question r q"
| "run_op sha dig (RegisterAnswer a cs) r = register_answer r a cs"
| "run_op sha dig (Reserve i) r = reserve_external_observation_id r i"
| "run_op sha dig (ApplyEvent ev) r = bind_res (apply_event sha dig r ev) (\<lambda>(ds, r'). Inr r')"

lemma run_ops_reachable:
  assumes "fold_res (run_op sha dig) ops r = Inr r'" and "reachable_repo sha dig r"
  shows "reachable_repo sha dig r'"
  using assms
proof (rule fold_res_invariant)
  fix op s s' assume "reachable_repo sha dig s" and "run_op sha dig op s = Inr s'"
  then show "reachable_repo sha dig s'"
    by (cases op) (auto intro: reachable_repo.intros elim!: bind_res_InrE)
qed

definition demo_sha :: "py_text \<Rightarrow> string" where
  "demo_sha t = map (\<lambda>n. if n = 65 then CHR ''A'' else CHR ''B'') t"

definition demo_dig :: "event \<Rightarrow> string" where
  "demo_dig ev = update_operation_value (event_operation ev) @ '':'' @ event_target ev"

definition demo_stamp :: model_stamp where
  "demo_stamp = \<lparr>ms_model_id = ''m'', ms_model_version = ''1'', ms_prompt_version = ''p''\<rparr>"

definition demo_claim :: "string \<Rightarrow> bool \<Rightarrow> claim" where
  "demo_claim c req =
     \<lparr>cl_claim_id = c, cl_answer_version_id = ''a1'', cl_text = [65], cl_extractor = demo_stamp,
      cl_required = req\<rparr>"

definition demo_policy :: "string \<Rightarrow> rat \<Rightarrow> decision_policy" where
  "demo_policy v t =
     \<lparr>dp_policy_version = v, dp_support_threshold = t, dp_refute_threshold = 1 / 2,
      dp_tie_rule_version = ''v1''\<rparr>"

definition demo_observation :: "string \<Rightarrow> string \<Rightarrow> string \<Rightarrow> rat \<Rightarrow> rat \<Rightarrow> semantic_observation" where
  "demo_observation i subj chunk s t =
     \<lparr>ob_observation_id = i, ob_subject_kind = CLAIM, ob_subject_id = subj,
      ob_chunk_version_id = chunk, ob_task_type = ''nli'', ob_support_score = s,
      ob_refute_score = t, ob_neutral_score = 0, ob_producer = demo_stamp, ob_input_hash = ''h''\<rparr>"

definition demo_chunk :: "string \<Rightarrow> py_text \<Rightarrow> chunk_input" where
  "demo_chunk c t = \<lparr>ci_chunk_version_id = c, ci_chunk_index = 0, ci_text = t\<rparr>"

definition demo_ops :: "repo_op list" where
  "demo_ops =
     [RegisterQuestion \<lparr>qu_question_id = ''q1'', qu_text = [66]\<rparr>,
      ApplyEvent (PolicyChangeEvent ''e1'' (demo_policy ''p1'' (1 / 2))),
      RegisterAnswer
        \<lparr>av_answer_version_id = ''a1'', av_question_id = ''q1'', av_text = [65], av_producer = demo_stamp\<rparr>
        [demo_claim ''c1'' True, demo_claim ''c2'' False],
      ApplyEvent (InsertDocumentEvent ''e2'' ''d1'' ''v1'' ''h1'' [demo_chunk ''k1'' [65, 32, 65]]),
      ApplyEvent (InsertDocumentEvent ''e3'' ''d2'' ''v2'' ''h2'' [demo_chunk ''k2'' [65, 32, 32, 65]]),
      ApplyEvent (ObserveEvent ''e4'' (demo_observation ''o1'' ''c1'' ''k1'' (9 / 10) (1 / 10))),
      ApplyEvent (ObserveEvent ''e5'' (demo_observation ''o2'' ''c1'' ''k2'' (7 / 10) (1 / 10))),
      ApplyEvent (ObserveEvent ''e6'' (demo_observation ''o3'' ''c2'' ''k2'' (1 / 10) (8 / 10)))]"

definition demo_run :: "repo res" where
  "demo_run = fold_res (run_op demo_sha demo_dig) demo_ops empty_repo"

definition demo_repo :: repo where
  "demo_repo = projr demo_run"

text \<open>The second observation of the history, once more, and the events the witnesses apply.\<close>

definition demo_delete :: event where
  "demo_delete = DeleteDocumentVersionEvent ''e7'' ''v2''"

definition demo_policy_change :: event where
  "demo_policy_change = PolicyChangeEvent ''e8'' (demo_policy ''p2'' (95 / 100))"

lemma demo_run: "demo_run = Inr demo_repo"
proof -
  have "isl demo_run = False" by code_simp
  then show ?thesis by (simp add: demo_repo_def)
qed

lemma demo_reachable: "reachable_repo demo_sha demo_dig demo_repo"
  by (rule run_ops_reachable [OF demo_run [unfolded demo_run_def] rr_empty])

lemma demo_inv: "repo_inv demo_repo"
  by (rule reachable_repo_inv [OF demo_reachable])

lemma demo_current_policy: "current_policy demo_repo = Inr (demo_policy ''p1'' (1 / 2))"
  by code_simp

end
