(* ===== verification/GL_Heapq.thy ===== *)
theory GL_Heapq
  imports GL_Prelude "HOL-Library.Multiset"
begin

text \<open>
  The part of Python's \<open>heapq\<close> that the score multiset uses, on the list that holds the heap:
  \<open>heappush\<close> and \<open>heappop\<close> with the sift loops of the standard library (an assignment that
  carries the moved item is written as a swap).  A locale states the contract of a minimum
  queue; the interpretation at the end shows that these functions meet it.
\<close>

section \<open>The interface\<close>

locale min_queue =
  fixes inv :: "'q \<Rightarrow> bool"
    and elements :: "'q \<Rightarrow> 'a::linorder multiset"
    and new :: 'q
    and push :: "'q \<Rightarrow> 'a \<Rightarrow> 'q"
    and front :: "'q \<Rightarrow> 'a option"
    and pop :: "'q \<Rightarrow> 'q"
  assumes new: "inv new \<and> elements new = {#}"
    and push: "inv q \<Longrightarrow> inv (push q x) \<and> elements (push q x) = add_mset x (elements q)"
    and front_None: "inv q \<Longrightarrow> front q = None \<longleftrightarrow> elements q = {#}"
    and front_Some: "inv q \<Longrightarrow> front q = Some x \<Longrightarrow> x \<in># elements q \<and> (\<forall>y \<in># elements q. x \<le> y)"
    and pop: "inv q \<Longrightarrow> front q = Some x \<Longrightarrow> inv (pop q) \<and> elements (pop q) = elements q - {#x#}"
begin

text \<open>The front of a queue is the minimum of its elements.\<close>

lemma front_Min: "inv q \<Longrightarrow> elements q \<noteq> {#} \<Longrightarrow> front q = Some (Min (set_mset (elements q)))"
  using front_None [of q] front_Some [of q]
  by (metis Min_eqI finite_set_mset not_None_eq)

lemma pop_size: "inv q \<Longrightarrow> front q = Some x \<Longrightarrow> size (elements (pop q)) < size (elements q)"
  using pop front_Some by (metis size_Diff1_less)

end

section \<open>Sifting\<close>

definition parent :: "nat \<Rightarrow> nat" where
  "parent i = (i - 1) div 2"

definition swap :: "nat \<Rightarrow> nat \<Rightarrow> 'a list \<Rightarrow> 'a list" where
  "swap i j h = h[i := h ! j, j := h ! i]"

lemma parent_less: "0 < i \<Longrightarrow> parent i < i"
  by (auto simp: parent_def)

lemma length_swap [simp]: "length (swap i j h) = length h"
  by (simp add: swap_def)

lemma mset_swap [simp]: "i < length h \<Longrightarrow> j < length h \<Longrightarrow> mset (swap i j h) = mset h"
  unfolding swap_def by (rule mset_swap)

lemma nth_swap: "i < length h \<Longrightarrow> j < length h \<Longrightarrow> k < length h \<Longrightarrow>
    swap i j h ! k = (if k = j then h ! i else if k = i then h ! j else h ! k)"
  by (auto simp: swap_def nth_list_update)

text \<open>\<open>_siftdown(heap, 0, pos)\<close>: move the item at \<open>pos\<close> towards the root.\<close>

function siftdown :: "'a::linorder list \<Rightarrow> nat \<Rightarrow> 'a list" where
  "siftdown h pos =
     (if pos = 0 then h
      else if h ! pos < h ! parent pos then siftdown (swap pos (parent pos) h) (parent pos)
      else h)"
  by pat_completeness auto
termination
  by (relation "measure snd") (auto simp: parent_less)

text \<open>\<open>_siftup(heap, pos)\<close>: bring up the smaller child until a leaf, then sift down.\<close>

definition smaller_child :: "'a::linorder list \<Rightarrow> nat \<Rightarrow> nat" where
  "smaller_child h pos =
     (let left = 2 * pos + 1; right = left + 1 in
      if right < length h \<and> \<not> h ! left < h ! right then right else left)"

function siftup :: "'a::linorder list \<Rightarrow> nat \<Rightarrow> 'a list" where
  "siftup h pos =
     (if 2 * pos + 1 < length h
      then siftup (swap pos (smaller_child h pos) h) (smaller_child h pos)
      else siftdown h pos)"
  by pat_completeness auto
termination
  by (relation "measure (\<lambda>(h, pos). length h - pos)") (auto simp: smaller_child_def Let_def)

declare siftdown.simps [simp del] siftup.simps [simp del]

definition heappush :: "'a::linorder list \<Rightarrow> 'a \<Rightarrow> 'a list" where
  "heappush h x = siftdown (h @ [x]) (length h)"

text \<open>\<open>heappop\<close> without its returned item, which is \<open>h ! 0\<close>.\<close>

definition heappop :: "'a::linorder list \<Rightarrow> 'a list" where
  "heappop h =
     (let rest = butlast h in
      if rest = [] then rest else siftup (rest[0 := last h]) 0)"

definition heap_front :: "'a list \<Rightarrow> 'a option" where
  "heap_front h = (case h of [] \<Rightarrow> None | x # _ \<Rightarrow> Some x)"

section \<open>Correctness\<close>

definition is_heap :: "'a::linorder list \<Rightarrow> bool" where
  "is_heap h \<longleftrightarrow> (\<forall>i < length h. 0 < i \<longrightarrow> h ! parent i \<le> h ! i)"

text \<open>
  The order holds on all edges but those of \<open>pos\<close>, whose parent is not above its children.
\<close>

definition heap_but :: "'a::linorder list \<Rightarrow> nat \<Rightarrow> bool" where
  "heap_but h pos \<longleftrightarrow>
     (\<forall>i < length h. 0 < i \<longrightarrow> i \<noteq> pos \<longrightarrow> parent i \<noteq> pos \<longrightarrow> h ! parent i \<le> h ! i) \<and>
     (\<forall>i < length h. 0 < i \<longrightarrow> parent i = pos \<longrightarrow> 0 < pos \<longrightarrow> h ! parent pos \<le> h ! i)"

lemma heap_butD:
  assumes "heap_but h pos" and "i < length h" and "0 < i"
  shows "i \<noteq> pos \<Longrightarrow> parent i \<noteq> pos \<Longrightarrow> h ! parent i \<le> h ! i"
    and "parent i = pos \<Longrightarrow> 0 < pos \<Longrightarrow> h ! parent pos \<le> h ! i"
  using assms by (auto simp: heap_but_def)

lemma siftdown_mset: "pos < length h \<Longrightarrow> mset (siftdown h pos) = mset h"
proof (induction h pos rule: siftdown.induct)
  case (1 h pos)
  then show ?case
    using less_trans [OF parent_less "1.prems"] by (subst siftdown.simps) auto
qed

lemma siftdown_heap:
  assumes "pos < length h" and "heap_but h pos"
    and "\<forall>i < length h. 0 < i \<longrightarrow> parent i = pos \<longrightarrow> h ! pos \<le> h ! i"
  shows "is_heap (siftdown h pos)"
  using assms
proof (induction h pos rule: siftdown.induct)
  case (1 h pos)
  note but = heap_butD [OF "1.prems"(2)] and down = "1.prems"(3)
  show ?case
  proof (cases "pos = 0 \<or> \<not> h ! pos < h ! parent pos")
    case True
    have "h ! parent i \<le> h ! i" if "i < length h" "0 < i" for i
      using but(1) [OF that] down that True by (metis neq0_conv not_le)
    then show ?thesis using True by (subst siftdown.simps) (auto simp: is_heap_def)
  next
    case False
    let ?p = "parent pos" and ?h = "swap pos (parent pos) h"
    from False have p: "?p < pos" "?p < length h" using parent_less [of pos] "1.prems"(1) by auto
    have nth: "k < length h \<Longrightarrow> ?h ! k = (if k = ?p then h ! pos else if k = pos then h ! ?p else h ! k)" for k
      using p "1.prems"(1) by (simp add: nth_swap)
    have lt: "h ! pos < h ! ?p" using False by simp
    have edge: "h ! parent i \<le> h ! i" if "i < length h" "0 < i" "i \<noteq> pos" for i
      using but(1) [OF that(1,2,3)] down that by metis
    have up: "?h ! ?p \<le> ?h ! i" if i: "i < length h" "0 < i" "parent i = ?p" for i
    proof (cases "i = pos")
      case False
      then have "h ! ?p \<le> h ! i" using edge [OF i(1,2)] i(3) by simp
      then show ?thesis using nth i p False lt parent_less [of i] by auto
    qed (use nth p lt i in auto)
    have but': "heap_but ?h ?p"
      unfolding heap_but_def
    proof (intro conjI allI impI)
      fix i assume i: "i < length ?h" "0 < i" "i \<noteq> ?p" "parent i \<noteq> ?p"
      then have "i \<noteq> pos" by auto
      show "?h ! parent i \<le> ?h ! i"
      proof (cases "parent i = pos")
        case True
        then show ?thesis using but(2) [of i] i nth p \<open>i \<noteq> pos\<close> "1.prems"(1) by auto
      next
        case False
        then show ?thesis using edge [of i] i nth \<open>i \<noteq> pos\<close> parent_less [of i] by auto
      qed
    next
      fix i assume i: "i < length ?h" "0 < i" "parent i = ?p" "0 < ?p"
      have pp: "h ! parent ?p \<le> h ! ?p" using edge [of ?p] i p by auto
      have "parent ?p < ?p" using i parent_less by blast
      then have "?h ! parent ?p = h ! parent ?p" using nth [of "parent ?p"] p by auto
      moreover have "h ! parent ?p \<le> ?h ! i"
      proof (cases "i = pos")
        case True
        then show ?thesis using nth [of i] p i pp by auto
      next
        case False
        then have "h ! ?p \<le> h ! i" using edge [of i] i by auto
        then show ?thesis using nth [of i] False p i parent_less [of i] order_trans [OF pp] by auto
      qed
      ultimately show "?h ! parent ?p \<le> ?h ! i" by simp
    qed
    have "is_heap (siftdown ?h ?p)"
      using "1.IH" False p but' up by simp
    then show ?thesis using False by (subst siftdown.simps) simp
  qed
qed

lemma smaller_child:
  assumes "2 * pos + 1 < length h"
  shows "smaller_child h pos < length h" and "parent (smaller_child h pos) = pos"
    and "pos < smaller_child h pos"
    and "i < length h \<Longrightarrow> 0 < i \<Longrightarrow> parent i = pos \<Longrightarrow> h ! smaller_child h pos \<le> h ! i"
proof -
  show "smaller_child h pos < length h" "parent (smaller_child h pos) = pos" "pos < smaller_child h pos"
    using assms by (auto simp: smaller_child_def parent_def Let_def)
  assume "i < length h" "0 < i" "parent i = pos"
  then have "i = 2 * pos + 1 \<or> i = 2 * pos + 2" unfolding parent_def by presburger
  then show "h ! smaller_child h pos \<le> h ! i"
    using \<open>i < length h\<close> by (auto simp: smaller_child_def Let_def not_less)
qed

lemma siftup_mset: "pos < length h \<Longrightarrow> mset (siftup h pos) = mset h"
proof (induction h pos rule: siftup.induct)
  case (1 h pos)
  then show ?case
    using smaller_child(1) [of pos h]
    by (cases "2 * pos + 1 < length h") (subst siftup.simps, simp add: siftdown_mset)+
qed

lemma siftup_heap: "pos < length h \<Longrightarrow> heap_but h pos \<Longrightarrow> is_heap (siftup h pos)"
proof (induction h pos rule: siftup.induct)
  case (1 h pos)
  show ?case
  proof (cases "2 * pos + 1 < length h")
    case False
    then have "\<forall>i < length h. 0 < i \<longrightarrow> parent i \<noteq> pos" unfolding parent_def by presburger
    then show ?thesis
      using False siftdown_heap [OF "1.prems"] by (subst siftup.simps) simp
  next
    case True
    define c where "c = smaller_child h pos"
    note c = smaller_child [OF True, folded c_def] and but = heap_butD [OF "1.prems"(2)]
    let ?h = "swap pos c h"
    have nth: "k < length h \<Longrightarrow> ?h ! k = (if k = c then h ! pos else if k = pos then h ! c else h ! k)" for k
      using c "1.prems"(1) by (simp add: nth_swap)
    have "heap_but ?h c"
      unfolding heap_but_def
    proof (intro conjI allI impI)
      fix i assume i: "i < length ?h" "0 < i" "i \<noteq> c" "parent i \<noteq> c"
      show "?h ! parent i \<le> ?h ! i"
      proof (cases "i = pos")
        case True
        then have "h ! parent pos \<le> h ! c" using but(2) [of c] c i by auto
        then show ?thesis using True nth [of i] nth [of "parent i"] i c parent_less [of i] by auto
      next
        case False
        show ?thesis
        proof (cases "parent i = pos")
          case True
          then show ?thesis using c(4) [of i] nth [of i] nth [of pos] i False c "1.prems"(1) by auto
        next
          case False
          then show ?thesis
            using but(1) [of i] nth [of i] nth [of "parent i"] i \<open>i \<noteq> pos\<close> parent_less [of i] by auto
        qed
      qed
    next
      fix i assume i: "i < length ?h" "0 < i" "parent i = c" "0 < c"
      then have "i \<noteq> c" "i \<noteq> pos" using parent_less [of i] c(3) by auto
      moreover have "h ! c \<le> h ! i" using but(1) [of i] i calculation c by auto
      ultimately show "?h ! parent c \<le> ?h ! i"
        using nth [of i] nth [of pos] i c "1.prems"(1) by auto
    qed
    then have "is_heap (siftup ?h c)" using "1.IH" [OF True] c by (simp add: c_def)
    then show ?thesis using True by (subst siftup.simps) (simp add: c_def)
  qed
qed

lemma heappush_mset: "mset (heappush h x) = add_mset x (mset h)"
  by (simp add: heappush_def siftdown_mset)

lemma heappush_heap:
  assumes "is_heap h" shows "is_heap (heappush h x)"
proof -
  have "h ! parent i \<le> h ! i" if "i < length h" "0 < i" for i
    using assms that by (auto simp: is_heap_def)
  moreover have "parent i < length h" if "i < length h" for i
    using that parent_less [of i] by (cases "i = 0") (auto simp: parent_def)
  moreover have "parent i \<noteq> length h" if "i < Suc (length h)" "0 < i" for i
    using parent_less [of i] that by linarith
  ultimately show ?thesis
    unfolding heappush_def by (intro siftdown_heap) (auto simp: heap_but_def nth_append)
qed

lemma heap_root_least:
  assumes "is_heap h" and "i < length h" shows "h ! 0 \<le> h ! i"
  using assms(2)
proof (induction i rule: less_induct)
  case (less i)
  show ?case
  proof (cases "i = 0")
    case False
    then have "h ! 0 \<le> h ! parent i" using less parent_less [of i] by simp
    also have "\<dots> \<le> h ! i" using assms(1) less.prems False by (simp add: is_heap_def)
    finally show ?thesis .
  qed simp
qed

lemma heap_root_all: "is_heap (x # h) \<Longrightarrow> y \<in> set h \<Longrightarrow> x \<le> y"
  by (metis heap_root_least in_set_conv_nth length_Cons list.set_intros(2) nth_Cons_0)

lemma heappop_props:
  assumes "is_heap (x # h)"
  shows "is_heap (heappop (x # h))" and "mset (heappop (x # h)) = mset h"
proof -
  show "is_heap (heappop (x # h))"
  proof (cases "h = []")
    case False
    let ?r = "(butlast (x # h))[0 := last (x # h)]"
    have "heap_but ?r 0"
      unfolding heap_but_def
    proof (intro conjI allI impI)
      fix i assume i: "i < length ?r" "0 < i" "parent i \<noteq> 0"
      then have i': "i < length h" by (simp split: if_splits)
      have "(x # h) ! parent i \<le> (x # h) ! i"
        using assms i' i(2) unfolding is_heap_def by (metis length_Cons less_SucI)
      moreover have "?r ! k = (x # h) ! k" if "0 < k" "k < length h" for k
        using that by (simp add: nth_butlast del: butlast.simps)
      ultimately show "?r ! parent i \<le> ?r ! i" using i i' parent_less [of i] by simp
    qed simp
    then have "is_heap (siftup ?r 0)" using False by (intro siftup_heap) simp_all
    then show ?thesis using False by (simp add: heappop_def Let_def)
  qed (simp add: heappop_def is_heap_def)
  show "mset (heappop (x # h)) = mset h"
  proof (cases h rule: rev_cases)
    case (snoc ys y)
    then show ?thesis by (simp add: heappop_def Let_def siftup_mset)
  qed (simp add: heappop_def)
qed

interpretation hq: min_queue is_heap mset "[]" heappush heap_front heappop
proof
  fix q :: "'a list" and x
  show "is_heap [] \<and> mset [] = {#}" by (simp add: is_heap_def)
  show "is_heap q \<Longrightarrow> is_heap (heappush q x) \<and> mset (heappush q x) = add_mset x (mset q)"
    by (simp add: heappush_heap heappush_mset)
  show "is_heap q \<Longrightarrow> (heap_front q = None) = (mset q = {#})"
    by (simp add: heap_front_def split: list.split)
  show "is_heap q \<Longrightarrow> heap_front q = Some x \<Longrightarrow> x \<in># mset q \<and> (\<forall>y \<in># mset q. x \<le> y)"
    by (cases q) (auto simp: heap_front_def dest: heap_root_all)
  show "is_heap q \<Longrightarrow> heap_front q = Some x \<Longrightarrow> is_heap (heappop q) \<and> mset (heappop q) = mset q - {#x#}"
    by (cases q) (auto simp: heap_front_def heappop_props)
qed

end
