(* ===== verification/GL_Avl.thy ===== *)
theory GL_Avl
  imports GL_Prelude "HOL-Library.Tree"
begin

text \<open>
  The ordered-set interface of the score indexes, and AVL trees without cached metadata.  The
  program has three AVL trees (\<open>incremental._AVLSet\<close>, \<open>optimized.avl\<close>, \<open>m5.matching\<close>), which
  cache heights and sizes in their nodes and share one balancing scheme.  That scheme is proved
  here once, on plain trees with computed heights; each implementation is shown to simulate it.
\<close>

section \<open>The interface\<close>

locale ordered_set =
  fixes inv :: "'t \<Rightarrow> bool"
    and elems :: "'t \<Rightarrow> 'a::linorder set"
    and new :: 't
    and add :: "'t \<Rightarrow> 'a \<Rightarrow> 't res"
    and remove :: "'t \<Rightarrow> 'a \<Rightarrow> 't res"
    and count :: "'t \<Rightarrow> nat"
  assumes new: "inv new \<and> elems new = {}"
    and finite: "inv t \<Longrightarrow> finite (elems t)"
    and count: "inv t \<Longrightarrow> count t = card (elems t)"
    and add: "inv t \<Longrightarrow> k \<notin> elems t \<Longrightarrow>
      \<exists>t'. add t k = Inr t' \<and> inv t' \<and> elems t' = insert k (elems t)"
    and add_present: "inv t \<Longrightarrow> k \<in> elems t \<Longrightarrow> \<exists>e. add t k = Inl e"
    and remove: "inv t \<Longrightarrow> k \<in> elems t \<Longrightarrow>
      \<exists>t'. remove t k = Inr t' \<and> inv t' \<and> elems t' = elems t - {k}"
    and remove_absent: "inv t \<Longrightarrow> k \<notin> elems t \<Longrightarrow> \<exists>e. remove t k = Inl e"
begin

text \<open>The tree \<open>t\<close> stores the set \<open>X\<close>.\<close>

definition stores :: "'t \<Rightarrow> 'a set \<Rightarrow> bool" where
  "stores t X \<longleftrightarrow> inv t \<and> elems t = X"

lemma stores_new: "stores new {}"
  using new by (simp add: stores_def)

lemma stores_add: "stores t X \<Longrightarrow> k \<notin> X \<Longrightarrow> \<exists>t'. add t k = Inr t' \<and> stores t' (insert k X)"
  using add [of t k] by (auto simp: stores_def)

lemma stores_remove: "stores t X \<Longrightarrow> k \<in> X \<Longrightarrow> \<exists>t'. remove t k = Inr t' \<and> stores t' (X - {k})"
  using remove [of t k] by (auto simp: stores_def)

lemma stores_count: "stores t X \<Longrightarrow> count t = card X"
  using count by (auto simp: stores_def)

text \<open>An operation that succeeds met its precondition.\<close>

lemma stores_add_Inr: "stores t X \<Longrightarrow> add t k = Inr t' \<Longrightarrow> k \<notin> X \<and> stores t' (insert k X)"
  using stores_add add_present by (metis stores_def Inr_inject Inl_Inr_False)

lemma stores_remove_Inr: "stores t X \<Longrightarrow> remove t k = Inr t' \<Longrightarrow> k \<in> X \<and> stores t' (X - {k})"
  using stores_remove remove_absent by (metis stores_def Inr_inject Inl_Inr_False)

text \<open>Removing what was just added restores the stored set.\<close>

lemma add_remove_roundtrip:
  assumes "stores t X" and "k \<notin> X"
  shows "\<exists>t'. bind_res (add t k) (\<lambda>u. remove u k) = Inr t' \<and> stores t' X"
proof -
  from stores_add [OF assms] obtain u where u: "add t k = Inr u" "stores u (insert k X)" by blast
  from stores_remove [OF u(2), of k] obtain t' where
    "remove u k = Inr t'" "stores t' (insert k X - {k})" by blast
  with u(1) assms(2) show ?thesis by (auto simp: insert_Diff_if)
qed

lemma fold_add:
  assumes "stores t X" and "distinct ks" and "set ks \<inter> X = {}"
  shows "\<exists>t'. fold_res (\<lambda>k u. add u k) ks t = Inr t' \<and> stores t' (X \<union> set ks)"
  using assms
proof (induction ks arbitrary: t X)
  case (Cons k ks)
  from stores_add [OF Cons.prems(1), of k] Cons.prems(3) obtain u where
    u: "add t k = Inr u" "stores u (insert k X)" by auto
  from Cons.IH [OF u(2)] Cons.prems(2,3) u(1) show ?case by auto
qed auto

end

section \<open>Plain AVL trees\<close>

fun avl :: "'a tree \<Rightarrow> bool" where
  "avl Leaf = True"
| "avl (Node l k r) =
     (avl l \<and> avl r \<and> height l \<le> height r + 1 \<and> height r \<le> height l + 1)"

fun rot_right :: "'a tree \<Rightarrow> 'a tree" where
  "rot_right (Node (Node a x b) y c) = Node a x (Node b y c)"
| "rot_right t = t"

fun rot_left :: "'a tree \<Rightarrow> 'a tree" where
  "rot_left (Node a x (Node b y c)) = Node (Node a x b) y c"
| "rot_left t = t"

definition left_of :: "'a tree \<Rightarrow> 'a tree" where
  "left_of t = (case t of Leaf \<Rightarrow> Leaf | Node l _ _ \<Rightarrow> l)"

definition right_of :: "'a tree \<Rightarrow> 'a tree" where
  "right_of t = (case t of Leaf \<Rightarrow> Leaf | Node _ _ r \<Rightarrow> r)"

lemma child_simps [simp]:
  "left_of Leaf = Leaf" "left_of (Node l k r) = l"
  "right_of Leaf = Leaf" "right_of (Node l k r) = r"
  by (simp_all add: left_of_def right_of_def)

definition bal :: "'a tree \<Rightarrow> 'a \<Rightarrow> 'a tree \<Rightarrow> 'a tree" where
  "bal l k r =
     (if height r + 1 < height l then
        rot_right (Node (if height (left_of l) < height (right_of l) then rot_left l else l) k r)
      else if height l + 1 < height r then
        rot_left (Node l k (if height (right_of r) < height (left_of r) then rot_right r else r))
      else Node l k r)"

text \<open>The number of rotations that \<open>bal\<close> makes.\<close>

definition rotations :: "'a tree \<Rightarrow> 'a tree \<Rightarrow> nat" where
  "rotations l r =
     (if height r + 1 < height l then (if height (left_of l) < height (right_of l) then 2 else 1)
      else if height l + 1 < height r then (if height (right_of r) < height (left_of r) then 2 else 1)
      else 0)"

lemma rotations_le: "rotations l r \<le> 2"
  by (simp add: rotations_def)

lemma inorder_rot_right [simp]: "inorder (rot_right t) = inorder t"
  by (induction t rule: rot_right.induct) simp_all

lemma inorder_rot_left [simp]: "inorder (rot_left t) = inorder t"
  by (induction t rule: rot_left.induct) simp_all

lemma inorder_bal [simp]: "inorder (bal l k r) = inorder l @ k # inorder r"
  by (simp add: bal_def)

lemma set_bal [simp]: "set_tree (bal l k r) = insert k (set_tree l \<union> set_tree r)"
  by (simp only: set_inorder [symmetric] inorder_bal) simp

lemma bst_bal [simp]: "bst (bal l k r) = bst (Node l k r)"
  by (simp only: bst_iff_sorted_wrt_less inorder_bal inorder.simps append.simps append_assoc)

lemma bal_left_high:
  assumes "avl l" and "avl r" and "height l = height r + 2"
  shows "avl (bal l k r) \<and> height (bal l k r) \<in> {height l, height l + 1}"
proof -
  from assms(3) obtain ll x lr where l: "l = Node ll x lr" by (cases l) auto
  show ?thesis
  proof (cases "height ll < height lr")
    case True
    then obtain b y c where "lr = Node b y c" by (cases lr) auto
    with True assms l show ?thesis by (auto simp: bal_def max_def)
  qed (use assms l in \<open>auto simp: bal_def max_def\<close>)
qed

lemma bal_right_high:
  assumes "avl l" and "avl r" and "height r = height l + 2"
  shows "avl (bal l k r) \<and> height (bal l k r) \<in> {height r, height r + 1}"
proof -
  from assms(3) obtain rl x rr where r: "r = Node rl x rr" by (cases r) auto
  show ?thesis
  proof (cases "height rr < height rl")
    case True
    then obtain b y c where "rl = Node b y c" by (cases rl) auto
    with True assms r show ?thesis by (auto simp: bal_def max_def)
  qed (use assms r in \<open>auto simp: bal_def max_def\<close>)
qed

lemma bal_balanced:
  assumes "height l \<le> height r + 1" and "height r \<le> height l + 1"
  shows "bal l k r = Node l k r" and "rotations l r = 0"
  using assms by (simp_all add: bal_def rotations_def)

text \<open>
  Insertion and deletion.  \<open>least\<close> is the leftmost key, the successor that deletion of an inner
  node moves up.
\<close>

fun least :: "'a tree \<Rightarrow> 'a" where
  "least (Node Leaf k r) = k"
| "least (Node l k r) = least l"

fun ins :: "'a::linorder \<Rightarrow> 'a tree \<Rightarrow> 'a tree" where
  "ins x Leaf = Node Leaf x Leaf"
| "ins x (Node l k r) =
     (if x = k then Node l k r
      else if x < k then bal (ins x l) k r else bal l k (ins x r))"

fun del :: "'a::linorder \<Rightarrow> 'a tree \<Rightarrow> 'a tree" where
  "del x Leaf = Leaf"
| "del x (Node l k r) =
     (if x < k then bal (del x l) k r
      else if k < x then bal l k (del x r)
      else if l = Leaf then r
      else if r = Leaf then l
      else bal l (least r) (del (least r) r))"

lemma least_in_set: "t \<noteq> Leaf \<Longrightarrow> least t \<in> set_tree t"
  by (induction t rule: least.induct) auto

lemma least_le: "t \<noteq> Leaf \<Longrightarrow> bst t \<Longrightarrow> x \<in> set_tree t \<Longrightarrow> least t \<le> x"
proof (induction t rule: least.induct)
  case (2 a b c k r)
  let ?l = "Node a b c"
  have "\<forall>y \<in> set_tree ?l. y < k" using "2.prems"(2) by (simp only: bst_wrt.simps) blast
  moreover have "least ?l \<in> set_tree ?l" by (rule least_in_set) simp
  ultimately have least: "least ?l < k" by blast
  from "2.prems"(3) consider "x \<in> set_tree ?l" | "x = k" | "x \<in> set_tree r" by auto
  then show ?case
  proof cases
    case 1
    with 2 show ?thesis by simp
  next
    case 2
    with least show ?thesis by simp
  next
    case 3
    then have "k < x" using "2.prems"(2) by simp
    with least have "least ?l < x" by (rule less_trans)
    then show ?thesis by simp
  qed
qed auto

lemma set_ins [simp]: "set_tree (ins x t) = insert x (set_tree t)"
  by (induction t) auto

lemma bst_ins: "bst t \<Longrightarrow> bst (ins x t)"
  by (induction t) auto

lemma avl_ins: "avl t \<Longrightarrow> avl (ins x t) \<and> height (ins x t) \<in> {height t, height t + 1}"
proof (induction t)
  case (Node l k r)
  show ?case
  proof (cases "x = k")
    case False
    show ?thesis
    proof (cases "x < k")
      case True
      with Node have IH: "avl (ins x l)" "height (ins x l) \<in> {height l, height l + 1}" by auto
      show ?thesis
      proof (cases "height (ins x l) = height r + 2")
        case True
        with bal_left_high [OF IH(1) _ True, of k] IH(2) Node.prems \<open>x < k\<close> False show ?thesis
          by (auto simp: max_def)
      next
        case False
        then have "bal (ins x l) k r = Node (ins x l) k r"
          using IH(2) Node.prems by (intro bal_balanced) auto
        with False IH Node.prems \<open>x < k\<close> \<open>x \<noteq> k\<close> show ?thesis by (auto simp: max_def)
      qed
    next
      case False
      with Node \<open>x \<noteq> k\<close> have IH: "avl (ins x r)" "height (ins x r) \<in> {height r, height r + 1}" by auto
      show ?thesis
      proof (cases "height (ins x r) = height l + 2")
        case True
        with bal_right_high [OF _ IH(1) True, of k] IH(2) Node.prems False \<open>x \<noteq> k\<close> show ?thesis
          by (auto simp: max_def)
      next
        case balanced: False
        then have "bal l k (ins x r) = Node l k (ins x r)"
          using IH(2) Node.prems by (intro bal_balanced) auto
        with False IH Node.prems balanced \<open>x \<noteq> k\<close> show ?thesis by (auto simp: max_def)
      qed
    qed
  qed (use Node in auto)
qed simp

lemma avl_bal_left_shrunk:
  assumes "avl l" and "avl r" and "height l \<in> {h - 1, h}" and "h \<le> height r + 1"
    and "height r \<le> h + 1"
  shows "avl (bal l k r) \<and> height (bal l k r) \<in> {max h (height r), Suc (max h (height r))}"
proof (cases "height r = height l + 2")
  case True
  with bal_right_high [OF assms(1,2) True, of k] assms(3-5) show ?thesis by (auto simp: max_def)
next
  case False
  then have "bal l k r = Node l k r" using assms by (intro bal_balanced) auto
  with False assms show ?thesis by (auto simp: max_def)
qed

lemma avl_bal_right_shrunk:
  assumes "avl l" and "avl r" and "height r \<in> {h - 1, h}" and "h \<le> height l + 1"
    and "height l \<le> h + 1"
  shows "avl (bal l k r) \<and> height (bal l k r) \<in> {max (height l) h, Suc (max (height l) h)}"
proof (cases "height l = height r + 2")
  case True
  with bal_left_high [OF assms(1,2) True, of k] assms(3-5) show ?thesis by (auto simp: max_def)
next
  case False
  then have "bal l k r = Node l k r" using assms by (intro bal_balanced) auto
  with False assms show ?thesis by (auto simp: max_def)
qed

lemma avl_del: "avl t \<Longrightarrow> avl (del x t) \<and> height (del x t) \<in> {height t - 1, height t}"
proof (induction x t rule: del.induct)
  case (2 x l k r)
  consider "x < k" | "k < x" | "x = k" "l = Leaf \<or> r = Leaf" | "x = k" "l \<noteq> Leaf" "r \<noteq> Leaf"
    by fastforce
  then show ?case
  proof cases
    case 1
    with 2 have "avl (del x l)" "height (del x l) \<in> {height l - 1, height l}" by auto
    with avl_bal_left_shrunk [OF this(1) _ this(2), of r k] "2.prems" 1 show ?thesis by auto
  next
    case 2
    with "2.IH"(2) "2.prems" have "avl (del x r)" "height (del x r) \<in> {height r - 1, height r}" by auto
    with avl_bal_right_shrunk [OF _ this, of l k] "2.prems" 2 show ?thesis by auto
  next
    case 3
    with "2.prems" show ?thesis by auto
  next
    case 4
    with "2.IH"(3) "2.prems"
    have "avl (del (least r) r)" "height (del (least r) r) \<in> {height r - 1, height r}" by auto
    with avl_bal_right_shrunk [OF _ this, of l "least r"] "2.prems" 4 show ?thesis by auto
  qed
qed simp

lemma set_del: "bst t \<Longrightarrow> set_tree (del x t) = set_tree t - {x}"
proof (induction x t rule: del.induct)
  case (2 x l k r)
  consider "x < k" | "k < x" | "x = k" "l = Leaf \<or> r = Leaf" | "x = k" "l \<noteq> Leaf" "r \<noteq> Leaf"
    by fastforce
  then show ?case
  proof cases
    case 1
    then have "x \<notin> set_tree r" using "2.prems" by force
    with 1 2 show ?thesis by auto
  next
    case 2
    then have "x \<notin> set_tree l" using "2.prems" by force
    with 2 "2.IH"(2) "2.prems" show ?thesis by auto
  next
    case 3
    then have "x \<notin> set_tree l" "x \<notin> set_tree r" using "2.prems" by force+
    with 3 show ?thesis by auto
  next
    case 4
    with "2.IH"(3) "2.prems" have IH: "set_tree (del (least r) r) = set_tree r - {least r}" by simp
    have "x \<notin> set_tree l" "x \<notin> set_tree r" using 4 "2.prems" by force+
    with 4 IH least_in_set [OF 4(3)] show ?thesis by auto
  qed
qed simp

lemma bst_del: "bst t \<Longrightarrow> bst (del x t)"
proof (induction x t rule: del.induct)
  case (2 x l k r)
  consider "x < k" | "k < x" | "x = k" "l = Leaf \<or> r = Leaf" | "x = k" "l \<noteq> Leaf" "r \<noteq> Leaf"
    by fastforce
  then show ?case
  proof cases
    case 4
    have "\<forall>y \<in> set_tree l. y < least r"
      using "2.prems" least_in_set [OF 4(3)] by fastforce
    moreover have "\<forall>y \<in> set_tree r - {least r}. least r < y"
      using "2.prems" least_le [OF 4(3)] by (metis Diff_iff bst_wrt.simps(2) insertI1 order_less_le)
    ultimately show ?thesis using 4 2 by (simp add: set_del)
  qed (use 2 in \<open>auto simp: set_del\<close>)
qed simp

section \<open>Height and size\<close>

text \<open>
  Three levels of an AVL tree hold at least four times as many keys: the fact behind the
  logarithmic work bounds.
\<close>

fun min_size1 :: "nat \<Rightarrow> nat" where
  "min_size1 0 = 1"
| "min_size1 (Suc 0) = 2"
| "min_size1 (Suc (Suc n)) = min_size1 (Suc n) + min_size1 n"

lemma min_size1_step: "min_size1 n \<le> min_size1 (Suc n) \<and> min_size1 (Suc n) \<le> 2 * min_size1 n"
  by (induction n rule: min_size1.induct) auto

lemma min_size1_mono: "m \<le> n \<Longrightarrow> min_size1 m \<le> min_size1 n"
  by (rule lift_Suc_mono_le) (use min_size1_step in auto)

lemma avl_size1: "avl t \<Longrightarrow> min_size1 (height t) \<le> size1 t"
proof (induction t)
  case (Node l k r)
  have le: "min_size1 (height l) \<le> size1 l" "min_size1 (height r) \<le> size1 r" using Node by auto
  show ?case
  proof (cases "height l" "height r" rule: linorder_cases)
    case less
    then have "height r = Suc (height l)" using Node.prems by simp
    then show ?thesis using le by (simp add: size1_size)
  next
    case equal
    then show ?thesis using le by (cases "height r") (simp_all add: size1_size min_size1_step
          le_trans [OF conjunct1 [OF min_size1_step]], use min_size1_step [of "height r - 1"] in auto)
  next
    case greater
    then have "height l = Suc (height r)" using Node.prems by simp
    then show ?thesis using le by (simp add: size1_size)
  qed
qed simp

lemma min_size1_three: "4 * min_size1 n \<le> min_size1 (n + 3)"
proof -
  have "3 * min_size1 n \<le> 2 * min_size1 (Suc n)"
    using min_size1_step [of "n - 1"] by (cases n) auto
  then show ?thesis by (simp add: eval_nat_numeral)
qed

lemma min_size1_bound: "4 ^ q * min_size1 n \<le> min_size1 (n + 3 * q)"
proof (induction q)
  case (Suc q)
  have "4 ^ Suc q * min_size1 n \<le> 4 * min_size1 (n + 3 * q)" using Suc by simp
  also have "\<dots> \<le> min_size1 (n + 3 * q + 3)" by (rule min_size1_three)
  finally show ?case by (simp add: algebra_simps)
qed simp

end
