(* ===== verification/GL_ScoreIndex.thy ===== *)
theory GL_ScoreIndex
  imports GL_Avl GL_Domain
begin

text \<open>
  The score index of the M2 engine: \<open>_AVLSet\<close> (an AVL set whose nodes cache their height and whose
  updates report their work) and \<open>_ScoreRangeIndex\<close> of \<open>groundloop/incremental.py\<close>.  A node is
  immutable here; a method that mutates it returns the new one.
\<close>

section \<open>Nodes\<close>

datatype 'a avl_node = NoNode | AvlNode 'a "'a avl_node" "'a avl_node" nat

fun avl_height :: "'a avl_node \<Rightarrow> nat" where
  "avl_height NoNode = 0"
| "avl_height (AvlNode _ _ _ h) = h"

text \<open>A node with the given key and children after \<open>_refresh\<close>.\<close>

definition avl_refresh :: "'a \<Rightarrow> 'a avl_node \<Rightarrow> 'a avl_node \<Rightarrow> 'a avl_node" where
  "avl_refresh k l r = AvlNode k l r (1 + max (avl_height l) (avl_height r))"

fun avl_rotate_left :: "'a avl_node \<Rightarrow> 'a avl_node res" where
  "avl_rotate_left (AvlNode k l (AvlNode pk pl pr _) _) =
     Inr (avl_refresh pk (avl_refresh k l pl) pr)"
| "avl_rotate_left _ = Inl AssertionError"

fun avl_rotate_right :: "'a avl_node \<Rightarrow> 'a avl_node res" where
  "avl_rotate_right (AvlNode k (AvlNode pk pl pr _) r _) =
     Inr (avl_refresh pk pl (avl_refresh k pr r))"
| "avl_rotate_right _ = Inl AssertionError"

text \<open>\<open>_rebalance\<close> of the node with the given key and children; the second result counts rotations.\<close>

definition avl_rebalance ::
    "'a \<Rightarrow> 'a avl_node \<Rightarrow> 'a avl_node \<Rightarrow> ('a avl_node \<times> nat) res" where
  "avl_rebalance k l r =
     (let balance = int (avl_height l) - int (avl_height r) in
      if 1 < balance then
        (case l of
           NoNode \<Rightarrow> Inl AssertionError
         | AvlNode _ ll lr _ \<Rightarrow>
             bind_res (if avl_height ll < avl_height lr
                       then bind_res (avl_rotate_left l) (\<lambda>l'. Inr (l', 1)) else Inr (l, 0))
               (\<lambda>(l', rotations).
                 bind_res (avl_rotate_right (avl_refresh k l' r)) (\<lambda>n. Inr (n, rotations + 1))))
      else if balance < -1 then
        (case r of
           NoNode \<Rightarrow> Inl AssertionError
         | AvlNode _ rl rr _ \<Rightarrow>
             bind_res (if avl_height rr < avl_height rl
                       then bind_res (avl_rotate_right r) (\<lambda>r'. Inr (r', 1)) else Inr (r, 0))
               (\<lambda>(r', rotations).
                 bind_res (avl_rotate_left (avl_refresh k l r')) (\<lambda>n. Inr (n, rotations + 1))))
      else Inr (avl_refresh k l r, 0))"

fun avl_insert :: "'a::linorder avl_node \<Rightarrow> 'a \<Rightarrow> ('a avl_node \<times> nat) res" where
  "avl_insert NoNode x = Inr (AvlNode x NoNode NoNode 1, 1)"
| "avl_insert (AvlNode k l r h) x =
     (if x = k then Inl AssertionError
      else if x < k then
        bind_res (avl_insert l x) (\<lambda>(l', work).
        bind_res (avl_rebalance k l' r) (\<lambda>(n, rotations). Inr (n, work + rotations + 1)))
      else
        bind_res (avl_insert r x) (\<lambda>(r', work).
        bind_res (avl_rebalance k l r') (\<lambda>(n, rotations). Inr (n, work + rotations + 1))))"

text \<open>The loop that walks to the successor: its key and the number of steps.\<close>

fun avl_successor :: "'a \<Rightarrow> 'a avl_node \<Rightarrow> nat \<Rightarrow> 'a \<times> nat" where
  "avl_successor k NoNode steps = (k, steps)"
| "avl_successor k (AvlNode k' l r h) steps = avl_successor k' l (steps + 1)"

fun avl_delete :: "'a::linorder avl_node \<Rightarrow> 'a \<Rightarrow> ('a avl_node \<times> nat) res" where
  "avl_delete NoNode x = Inl AssertionError"
| "avl_delete (AvlNode k l r h) x =
     (if x < k then
        bind_res (avl_delete l x) (\<lambda>(l', child_work).
        bind_res (avl_rebalance k l' r) (\<lambda>(n, rotations). Inr (n, 1 + child_work + rotations)))
      else if k < x then
        bind_res (avl_delete r x) (\<lambda>(r', child_work).
        bind_res (avl_rebalance k l r') (\<lambda>(n, rotations). Inr (n, 1 + child_work + rotations)))
      else if l = NoNode then Inr (r, 1)
      else case r of
        NoNode \<Rightarrow> Inr (l, 1)
      | AvlNode rk rl _ _ \<Rightarrow>
          (case avl_successor rk rl 0 of
             (s, steps) \<Rightarrow>
               bind_res (avl_delete r s) (\<lambda>(r', child_work).
               bind_res (avl_rebalance s l r') (\<lambda>(n, rotations).
                 Inr (n, 1 + steps + child_work + rotations)))))"

fun avl_contains :: "'a::linorder avl_node \<Rightarrow> 'a \<Rightarrow> bool" where
  "avl_contains NoNode x = False"
| "avl_contains (AvlNode k l r h) x =
     (if x = k then True else if x < k then avl_contains l x else avl_contains r x)"

section \<open>The set\<close>

record 'a avl_set =
  avl_root :: "'a avl_node"
  avl_size :: int

definition avl_new :: "'a avl_set" where
  "avl_new = \<lparr>avl_root = NoNode, avl_size = 0\<rparr>"

definition avl_add :: "'a::linorder avl_set \<Rightarrow> 'a \<Rightarrow> ('a avl_set \<times> nat) res" where
  "avl_add t x =
     bind_res (avl_insert (avl_root t) x) (\<lambda>(n, work).
       Inr (\<lparr>avl_root = n, avl_size = avl_size t + 1\<rparr>, work))"

definition avl_remove :: "'a::linorder avl_set \<Rightarrow> 'a \<Rightarrow> ('a avl_set \<times> nat) res" where
  "avl_remove t x =
     bind_res (avl_delete (avl_root t) x) (\<lambda>(n, work).
       Inr (\<lparr>avl_root = n, avl_size = avl_size t - 1\<rparr>, work))"

type_synonym score_key = "rat \<times> string"

text \<open>The nested function \<open>visit\<close> of \<open>ids_in_score_range\<close>, with the set it fills.\<close>

fun visit_range :: "score_key \<Rightarrow> score_key \<Rightarrow> score_key avl_node \<Rightarrow> string set \<Rightarrow> string set" where
  "visit_range lower upper NoNode result = result"
| "visit_range lower upper (AvlNode k l r h) result =
     (let result1 = (if lower \<le> k then visit_range lower upper l result else result);
          result2 = (if lower \<le> k \<and> k < upper then insert (snd k) result1 else result1) in
      if k < upper then visit_range lower upper r result2 else result2)"

definition ids_in_score_range :: "score_key avl_set \<Rightarrow> rat \<Rightarrow> rat \<Rightarrow> string set" where
  "ids_in_score_range t lower upper = visit_range (lower, '''') (upper, '''') (avl_root t) {}"

section \<open>The range index\<close>

record score_range_index =
  support_entries :: "score_key avl_set"
  refute_entries :: "score_key avl_set"

definition index_new :: score_range_index where
  "index_new = \<lparr>support_entries = avl_new, refute_entries = avl_new\<rparr>"

definition support_entry :: "semantic_observation \<Rightarrow> score_key" where
  "support_entry ob = (ob_support_score ob, ob_observation_id ob)"

definition refute_entry :: "semantic_observation \<Rightarrow> score_key" where
  "refute_entry ob = (ob_refute_score ob, ob_observation_id ob)"

definition index_add ::
    "score_range_index \<Rightarrow> semantic_observation \<Rightarrow> (score_range_index \<times> nat) res" where
  "index_add ix ob =
     bind_res (avl_add (support_entries ix) (support_entry ob)) (\<lambda>(s, w1).
     bind_res (avl_add (refute_entries ix) (refute_entry ob)) (\<lambda>(t, w2).
       Inr (\<lparr>support_entries = s, refute_entries = t\<rparr>, w1 + w2)))"

definition index_remove ::
    "score_range_index \<Rightarrow> semantic_observation \<Rightarrow> (score_range_index \<times> nat) res" where
  "index_remove ix ob =
     bind_res (avl_remove (support_entries ix) (support_entry ob)) (\<lambda>(s, w1).
     bind_res (avl_remove (refute_entries ix) (refute_entry ob)) (\<lambda>(t, w2).
       Inr (\<lparr>support_entries = s, refute_entries = t\<rparr>, w1 + w2)))"

definition index_contains :: "score_range_index \<Rightarrow> semantic_observation \<Rightarrow> bool" where
  "index_contains ix ob \<longleftrightarrow>
     avl_contains (avl_root (support_entries ix)) (support_entry ob) \<and>
     avl_contains (avl_root (refute_entries ix)) (refute_entry ob)"

definition range_ids :: "score_key avl_set \<Rightarrow> rat \<Rightarrow> rat \<Rightarrow> string set" where
  "range_ids entries old new =
     (if old = new then {} else ids_in_score_range entries (min old new) (max old new))"

definition policy_candidates ::
    "score_range_index \<Rightarrow> decision_policy \<Rightarrow> decision_policy \<Rightarrow> string set res" where
  "policy_candidates ix old new =
     (if dp_tie_rule_version old \<noteq> dp_tie_rule_version new then Inl AssertionError
      else Inr (range_ids (support_entries ix) (dp_support_threshold old) (dp_support_threshold new) \<union>
                range_ids (refute_entries ix) (dp_refute_threshold old) (dp_refute_threshold new)))"

section \<open>Simulation of the plain AVL trees\<close>

fun shape :: "'a avl_node \<Rightarrow> 'a tree" where
  "shape NoNode = Leaf"
| "shape (AvlNode k l r h) = Node (shape l) k (shape r)"

fun avl_meta :: "'a avl_node \<Rightarrow> bool" where
  "avl_meta NoNode = True"
| "avl_meta (AvlNode k l r h) \<longleftrightarrow>
     avl_meta l \<and> avl_meta r \<and> h = 1 + max (height (shape l)) (height (shape r))"

lemma shape_Leaf [simp]: "shape t = Leaf \<longleftrightarrow> t = NoNode"
  by (cases t) auto

lemma avl_height_meta: "avl_meta t \<Longrightarrow> avl_height t = height (shape t)"
  by (cases t) auto

lemma avl_refresh [simp]:
  "shape (avl_refresh k l r) = Node (shape l) k (shape r)"
  "avl_meta l \<Longrightarrow> avl_meta r \<Longrightarrow> avl_meta (avl_refresh k l r)"
  by (simp_all add: avl_refresh_def avl_height_meta)

lemma avl_rotate_left_sim:
  assumes "avl_meta l" and "avl_meta r" and "r \<noteq> NoNode"
  shows "\<exists>n. avl_rotate_left (AvlNode k l r h) = Inr n \<and> avl_meta n \<and>
     shape n = rot_left (Node (shape l) k (shape r))"
  using assms by (cases r) auto

lemma avl_rotate_right_sim:
  assumes "avl_meta l" and "avl_meta r" and "l \<noteq> NoNode"
  shows "\<exists>n. avl_rotate_right (AvlNode k l r h) = Inr n \<and> avl_meta n \<and>
     shape n = rot_right (Node (shape l) k (shape r))"
  using assms by (cases l) auto

lemma rot_left_not_Leaf [simp]: "rot_left t = Leaf \<longleftrightarrow> t = Leaf"
  by (induction t rule: rot_left.induct) simp_all

lemma rot_right_not_Leaf [simp]: "rot_right t = Leaf \<longleftrightarrow> t = Leaf"
  by (induction t rule: rot_right.induct) simp_all

text \<open>The assertions of \<open>_rebalance\<close> and of the rotations never fail.\<close>

lemma avl_rebalance_sim:
  assumes l: "avl_meta l" and r: "avl_meta r"
  shows "\<exists>n. avl_rebalance k l r = Inr (n, rotations (shape l) (shape r)) \<and> avl_meta n \<and>
     shape n = bal (shape l) k (shape r)"
proof -
  let ?hl = "height (shape l)" and ?hr = "height (shape r)"
  have hl: "avl_height l = ?hl" "avl_height r = ?hr" using l r by (simp_all add: avl_height_meta)
  consider (left) "?hr + 1 < ?hl" | (right) "?hl + 1 < ?hr" | (even) "\<not> ?hr + 1 < ?hl" "\<not> ?hl + 1 < ?hr"
    by blast
  then show ?thesis
  proof cases
    case left
    then obtain lk ll lr lh where lx: "l = AvlNode lk ll lr lh" by (cases l) auto
    then have m: "avl_meta ll" "avl_meta lr" using l by auto
    show ?thesis
    proof (cases "height (shape ll) < height (shape lr)")
      case True
      then have "lr \<noteq> NoNode" by auto
      with m obtain l' where l': "avl_rotate_left l = Inr l'" "avl_meta l'" "shape l' = rot_left (shape l)"
        using avl_rotate_left_sim [of ll lr lk lh] lx by auto
      then have "l' \<noteq> NoNode" using lx by (metis rot_left_not_Leaf shape_Leaf avl_node.distinct(1))
      with l' r obtain n where "avl_rotate_right (avl_refresh k l' r) = Inr n" "avl_meta n"
        "shape n = rot_right (Node (shape l') k (shape r))"
        using avl_rotate_right_sim [of l' r k] unfolding avl_refresh_def by blast
      with True left hl lx l' m show ?thesis
        by (simp add: avl_rebalance_def bal_def rotations_def avl_height_meta Let_def)
    next
      case False
      from lx l r obtain n where "avl_rotate_right (avl_refresh k l r) = Inr n" "avl_meta n"
        "shape n = rot_right (Node (shape l) k (shape r))"
        using avl_rotate_right_sim [of l r k] unfolding avl_refresh_def by blast
      with False left hl lx m show ?thesis
        by (simp add: avl_rebalance_def bal_def rotations_def avl_height_meta Let_def)
    qed
  next
    case right
    then obtain rk rl rr rh where rx: "r = AvlNode rk rl rr rh" by (cases r) auto
    then have m: "avl_meta rl" "avl_meta rr" using r by auto
    show ?thesis
    proof (cases "height (shape rr) < height (shape rl)")
      case True
      then have "rl \<noteq> NoNode" by auto
      with m obtain r' where r': "avl_rotate_right r = Inr r'" "avl_meta r'" "shape r' = rot_right (shape r)"
        using avl_rotate_right_sim [of rl rr rk rh] rx by auto
      then have "r' \<noteq> NoNode" using rx by (metis rot_right_not_Leaf shape_Leaf avl_node.distinct(1))
      with r' l obtain n where "avl_rotate_left (avl_refresh k l r') = Inr n" "avl_meta n"
        "shape n = rot_left (Node (shape l) k (shape r'))"
        using avl_rotate_left_sim [of l r' k] unfolding avl_refresh_def by blast
      with True right hl rx r' m show ?thesis
        by (simp add: avl_rebalance_def bal_def rotations_def avl_height_meta Let_def)
    next
      case False
      from rx l r obtain n where "avl_rotate_left (avl_refresh k l r) = Inr n" "avl_meta n"
        "shape n = rot_left (Node (shape l) k (shape r))"
        using avl_rotate_left_sim [of l r k] unfolding avl_refresh_def by blast
      with False right hl rx m show ?thesis
        by (simp add: avl_rebalance_def bal_def rotations_def avl_height_meta Let_def)
    qed
  next
    case even
    with l r hl show ?thesis
      by (simp add: avl_rebalance_def bal_def rotations_def Let_def)
  qed
qed

text \<open>The work an update reports, on the plain tree.\<close>

fun ins_work :: "'a::linorder \<Rightarrow> 'a tree \<Rightarrow> nat" where
  "ins_work x Leaf = 1"
| "ins_work x (Node l k r) =
     (if x < k then ins_work x l + rotations (ins x l) r + 1
      else ins_work x r + rotations l (ins x r) + 1)"

fun spine :: "'a tree \<Rightarrow> nat" where
  "spine Leaf = 0"
| "spine (Node l k r) = Suc (spine l)"

fun del_work :: "'a::linorder \<Rightarrow> 'a tree \<Rightarrow> nat" where
  "del_work x Leaf = 0"
| "del_work x (Node l k r) =
     (if x < k then 1 + del_work x l + rotations (del x l) r
      else if k < x then 1 + del_work x r + rotations l (del x r)
      else if l = Leaf \<or> r = Leaf then 1
      else 1 + (spine r - 1) + del_work (least r) r + rotations l (del (least r) r))"

lemma avl_insert_sim:
  assumes "avl_meta t" and "x \<notin> set_tree (shape t)"
  shows "\<exists>n. avl_insert t x = Inr (n, ins_work x (shape t)) \<and> avl_meta n \<and> shape n = ins x (shape t)"
  using assms
proof (induction t)
  case (AvlNode k l r h)
  show ?case
  proof (cases "x < k")
    case True
    with AvlNode obtain l' where l': "avl_insert l x = Inr (l', ins_work x (shape l))" "avl_meta l'"
      "shape l' = ins x (shape l)" by auto
    with avl_rebalance_sim [of l' r k] AvlNode.prems True show ?thesis by auto
  next
    case False
    with AvlNode obtain r' where r': "avl_insert r x = Inr (r', ins_work x (shape r))" "avl_meta r'"
      "shape r' = ins x (shape r)" by auto
    with avl_rebalance_sim [of l r' k] AvlNode.prems False show ?thesis by auto
  qed
qed simp

lemma avl_insert_present:
  assumes "bst (shape t)" and "x \<in> set_tree (shape t)"
  shows "avl_insert t x = Inl AssertionError"
  using assms
proof (induction t)
  case (AvlNode k l r h)
  consider "x = k" | "x < k" "x \<in> set_tree (shape l)" | "\<not> x < k" "x \<noteq> k" "x \<in> set_tree (shape r)"
    using AvlNode.prems by fastforce
  then show ?case using AvlNode by cases auto
qed simp

lemma avl_successor: "avl_successor k l steps =
    (case shape l of Leaf \<Rightarrow> (k, steps) | _ \<Rightarrow> (least (shape l), steps + spine (shape l)))"
proof (induction l arbitrary: k steps)
  case (AvlNode k' l r h)
  then show ?case by (cases l) auto
qed simp

lemma avl_successor_node:
  "avl_successor k l 0 = (least (shape (AvlNode k l r h)), spine (shape (AvlNode k l r h)) - 1)"
  by (cases l) (auto simp: avl_successor)

lemma avl_delete_sim:
  assumes "avl_meta t" and "bst (shape t)" and "x \<in> set_tree (shape t)"
  shows "\<exists>n. avl_delete t x = Inr (n, del_work x (shape t)) \<and> avl_meta n \<and> shape n = del x (shape t)"
  using assms
proof (induction t x rule: avl_delete.induct)
  case (2 k l r h x)
  have meta: "avl_meta l" "avl_meta r" and bst: "bst (shape l)" "bst (shape r)" using "2.prems" by auto
  consider "x < k" "x \<in> set_tree (shape l)" | "k < x" "x \<in> set_tree (shape r)"
    | "x = k" "l = NoNode \<or> r = NoNode" | "x = k" "l \<noteq> NoNode" "r \<noteq> NoNode"
    using "2.prems" by fastforce
  then show ?case
  proof cases
    case 1
    with "2.IH"(1) meta bst obtain l' where l': "avl_delete l x = Inr (l', del_work x (shape l))"
      "avl_meta l'" "shape l' = del x (shape l)" by auto
    with avl_rebalance_sim [of l' r k] meta 1 show ?thesis by auto
  next
    case 2
    then have "\<not> x < k" by simp
    with 2 "2.IH"(2) meta bst obtain r' where r': "avl_delete r x = Inr (r', del_work x (shape r))"
      "avl_meta r'" "shape r' = del x (shape r)" by auto
    with avl_rebalance_sim [of l r' k] meta 2 show ?thesis by auto
  next
    case 3
    with meta show ?thesis by (cases r) auto
  next
    case 4
    then obtain rk rl rr rh where r: "r = AvlNode rk rl rr rh" by (cases r) auto
    let ?s = "least (shape r)"
    have succ: "avl_successor rk rl 0 = (?s, spine (shape r) - 1)"
      unfolding r by (rule avl_successor_node)
    have "?s \<in> set_tree (shape r)" using 4 by (intro least_in_set) simp
    with "2.IH"(3) [OF _ _ 4(2) r] 4 meta bst obtain r' where
      r': "avl_delete r ?s = Inr (r', del_work ?s (shape r))" "avl_meta r'" "shape r' = del ?s (shape r)"
      using succ by (metis order_less_irrefl)
    with avl_rebalance_sim [of l r' ?s] meta obtain n where
      "avl_rebalance ?s l r' = Inr (n, rotations (shape l) (shape r'))" "avl_meta n"
      "shape n = bal (shape l) ?s (shape r')" by blast
    with 4 r succ r' show ?thesis by simp
  qed
qed simp

lemma avl_delete_absent:
  assumes "x \<notin> set_tree (shape t)"
  shows "avl_delete t x = Inl AssertionError"
  using assms
proof (induction t)
  case (AvlNode k l r h)
  consider "x < k" | "k < x" using AvlNode.prems by fastforce
  then show ?case using AvlNode by cases auto
qed simp

lemma avl_contains: "bst (shape t) \<Longrightarrow> avl_contains t x \<longleftrightarrow> x \<in> set_tree (shape t)"
  by (induction t) auto

section \<open>The set implements the interface\<close>

definition avl_elems :: "'a avl_set \<Rightarrow> 'a set" where
  "avl_elems t = set_tree (shape (avl_root t))"

definition avl_inv :: "'a::linorder avl_set \<Rightarrow> bool" where
  "avl_inv t \<longleftrightarrow>
     avl_meta (avl_root t) \<and> avl (shape (avl_root t)) \<and> bst (shape (avl_root t)) \<and>
     avl_size t = int (card (avl_elems t))"

lemma avl_add_ok:
  assumes "avl_inv t" and "x \<notin> avl_elems t"
  shows "\<exists>t'. avl_add t x = Inr (t', ins_work x (shape (avl_root t))) \<and> avl_inv t' \<and>
     avl_elems t' = insert x (avl_elems t)"
proof -
  from assms avl_insert_sim [of "avl_root t" x] obtain n where
    n: "avl_insert (avl_root t) x = Inr (n, ins_work x (shape (avl_root t)))" "avl_meta n"
      "shape n = ins x (shape (avl_root t))"
    by (auto simp: avl_inv_def avl_elems_def)
  with assms show ?thesis
    by (auto simp: avl_add_def avl_inv_def avl_elems_def bst_ins avl_ins)
qed

lemma avl_remove_ok:
  assumes "avl_inv t" and "x \<in> avl_elems t"
  shows "\<exists>t'. avl_remove t x = Inr (t', del_work x (shape (avl_root t))) \<and> avl_inv t' \<and>
     avl_elems t' = avl_elems t - {x}"
proof -
  from assms avl_delete_sim [of "avl_root t" x] obtain n where
    n: "avl_delete (avl_root t) x = Inr (n, del_work x (shape (avl_root t)))" "avl_meta n"
      "shape n = del x (shape (avl_root t))"
    by (auto simp: avl_inv_def avl_elems_def)
  have "0 < card (avl_elems t)" using assms(2) by (auto simp: avl_elems_def card_gt_0_iff)
  with n assms show ?thesis
    by (auto simp: avl_remove_def avl_inv_def avl_elems_def bst_del avl_del set_del card_Diff_singleton)
qed

definition drop_work :: "('a \<times> nat) res \<Rightarrow> 'a res" where
  "drop_work m = bind_res m (\<lambda>(t, work). Inr t)"

interpretation m2_set: ordered_set avl_inv avl_elems avl_new
    "\<lambda>t x. drop_work (avl_add t x)" "\<lambda>t x. drop_work (avl_remove t x)" "\<lambda>t. nat (avl_size t)"
proof
  fix t :: "'a avl_set" and x
  show "avl_inv avl_new \<and> avl_elems avl_new = {}" by (simp add: avl_inv_def avl_new_def avl_elems_def)
  show "avl_inv t \<Longrightarrow> finite (avl_elems t)" by (simp add: avl_elems_def)
  show "avl_inv t \<Longrightarrow> nat (avl_size t) = card (avl_elems t)" by (simp add: avl_inv_def)
  show "avl_inv t \<Longrightarrow> x \<notin> avl_elems t \<Longrightarrow>
      \<exists>t'. drop_work (avl_add t x) = Inr t' \<and> avl_inv t' \<and> avl_elems t' = insert x (avl_elems t)"
    using avl_add_ok [of t x] by (auto simp: drop_work_def)
  show "avl_inv t \<Longrightarrow> x \<in> avl_elems t \<Longrightarrow> \<exists>e. drop_work (avl_add t x) = Inl e"
    using avl_insert_present [of "avl_root t" x]
    by (auto simp: drop_work_def avl_add_def avl_inv_def avl_elems_def)
  show "avl_inv t \<Longrightarrow> x \<in> avl_elems t \<Longrightarrow>
      \<exists>t'. drop_work (avl_remove t x) = Inr t' \<and> avl_inv t' \<and> avl_elems t' = avl_elems t - {x}"
    using avl_remove_ok [of t x] by (auto simp: drop_work_def)
  show "avl_inv t \<Longrightarrow> x \<notin> avl_elems t \<Longrightarrow> \<exists>e. drop_work (avl_remove t x) = Inl e"
    using avl_delete_absent [of x "avl_root t"]
    by (auto simp: drop_work_def avl_remove_def avl_inv_def avl_elems_def)
qed

section \<open>Logarithmic work\<close>

text \<open>Python's \<open>int.bit_length\<close> of a natural number.\<close>

fun bit_length :: "nat \<Rightarrow> nat" where
  "bit_length n = (if n = 0 then 0 else 1 + bit_length (n div 2))"

declare bit_length.simps [simp del]

lemma bit_length_power: "2 ^ k \<le> n \<Longrightarrow> k < bit_length n"
proof (induction k arbitrary: n)
  case (Suc k)
  then have "2 ^ k \<le> n div 2" by simp
  with Suc.IH have "k < bit_length (n div 2)" .
  moreover have "n \<noteq> 0" using Suc.prems by (cases n) auto
  ultimately show ?case by (subst bit_length.simps) simp
qed (subst bit_length.simps, simp)

lemma bit_length_mono: "m \<le> n \<Longrightarrow> bit_length m \<le> bit_length n"
proof (induction m arbitrary: n rule: bit_length.induct)
  case (1 m)
  then show ?case
    by (subst (1 2) bit_length.simps) (simp add: div_le_mono)
qed

lemma avl_height_bit_length:
  assumes "avl t" shows "15 * (height t div 3) < 8 * bit_length (size t + 1)"
proof -
  let ?q = "height t div 3" and ?m = "height t mod 3"
  have "4 ^ ?q \<le> 4 ^ ?q * min_size1 ?m"
    using min_size1_mono [of 0 ?m] by simp
  also have "\<dots> \<le> min_size1 (?m + 3 * ?q)" by (rule min_size1_bound)
  also have "?m + 3 * ?q = height t" by simp
  also have "min_size1 (height t) \<le> size t + 1" using avl_size1 [OF assms] by (simp add: size1_size)
  finally have "2 ^ (2 * ?q) \<le> size t + 1" by (simp add: power_mult)
  then have "2 * ?q < bit_length (size t + 1)" by (rule bit_length_power)
  then show ?thesis by simp
qed

lemma spine_le: "spine t \<le> height t"
  by (induction t) auto

lemma least_Node: "least (Node l k r) = (if l = Leaf then k else least l)"
  by (cases l) auto

lemma del_least_work: "avl t \<Longrightarrow> bst t \<Longrightarrow> t \<noteq> Leaf \<Longrightarrow> 2 * del_work (least t) t \<le> 3 * height t"
proof (induction t)
  case (Node l k r)
  show ?case
  proof (cases "l = Leaf")
    case False
    let ?m = "least l"
    have lt: "?m < k" using least_in_set [OF False] Node.prems(2) by simp
    have IH: "2 * del_work ?m l \<le> 3 * height l" using Node.IH(1) Node.prems False by simp
    have h: "height (del ?m l) \<in> {height l - 1, height l}" using avl_del [of l ?m] Node.prems by simp
    have bal: "height l \<le> height r + 1" "height r \<le> height l + 1" using Node.prems by simp_all
    have W: "del_work (least (Node l k r)) (Node l k r) = 1 + del_work ?m l + rotations (del ?m l) r"
      using lt False by (simp add: least_Node)
    show ?thesis
    proof (cases "height (del ?m l) + 1 < height r")
      case True
      then have "height r = height l + 1" using h bal by auto
      then show ?thesis using IH rotations_le [of "del ?m l" r] unfolding W by simp
    next
      case False
      then have "rotations (del ?m l) r = 0" using h bal by (auto simp: rotations_def)
      then show ?thesis using IH unfolding W by simp
    qed
  qed (simp add: least_Node)
qed simp

lemma del_work_bound: "avl t \<Longrightarrow> bst t \<Longrightarrow> 2 * del_work x t \<le> 5 * height t"
proof (induction x t rule: del_work.induct)
  case (2 x l k r)
  have bal: "height l \<le> height r + 1" "height r \<le> height l + 1" and sub: "avl l" "avl r" "bst l" "bst r"
    using "2.prems" by auto
  have left: "2 * rotations (del y l) r + 5 * height l + 2 \<le> 5 * height (Node l k r)" for y
  proof (cases "height (del y l) + 1 < height r")
    case True
    then have "height r = height l + 1" using avl_del [OF sub(1), of y] bal by auto
    then show ?thesis using rotations_le [of "del y l" r] by simp
  next
    case False
    then have "rotations (del y l) r = 0" using avl_del [OF sub(1), of y] bal by (auto simp: rotations_def)
    then show ?thesis by simp
  qed
  have right: "2 * rotations l (del y r) + 5 * height r + 2 \<le> 5 * height (Node l k r)" for y
  proof (cases "height (del y r) + 1 < height l")
    case True
    then have "height l = height r + 1" using avl_del [OF sub(2), of y] bal by auto
    then show ?thesis using rotations_le [of l "del y r"] by simp
  next
    case False
    then have "rotations l (del y r) = 0" using avl_del [OF sub(2), of y] bal by (auto simp: rotations_def)
    then show ?thesis by simp
  qed
  consider "x < k" | "k < x" | "x = k" "l = Leaf \<or> r = Leaf" | "x = k" "l \<noteq> Leaf" "r \<noteq> Leaf"
    by fastforce
  then show ?case
  proof cases
    case 1
    then show ?thesis using "2.IH"(1) sub left [of x] by simp
  next
    case 2
    then have "\<not> x < k" by simp
    then show ?thesis using 2 "2.IH"(2) sub right [of x] by simp
  next
    case 3
    then show ?thesis by simp
  next
    case 4
    then show ?thesis
      using del_least_work [OF sub(2,4) 4(3)] spine_le [of r] right [of "least r"] by simp
  qed
qed simp

lemma bal_left_high_uneven:
  assumes "avl l" and "height l = height r + 2" and "height (left_of l) \<noteq> height (right_of l)"
  shows "height (bal l k r) = height l"
proof -
  from assms(2) obtain ll x lr where l: "l = Node ll x lr" by (cases l) auto
  show ?thesis
  proof (cases "height ll < height lr")
    case True
    then obtain b y c where "lr = Node b y c" by (cases lr) auto
    with True assms l show ?thesis by (auto simp: bal_def max_def split: if_splits)
  qed (use assms l in \<open>auto simp: bal_def max_def\<close>)
qed

lemma bal_right_high_uneven:
  assumes "avl r" and "height r = height l + 2" and "height (left_of r) \<noteq> height (right_of r)"
  shows "height (bal l k r) = height r"
proof -
  from assms(2) obtain rl x rr where r: "r = Node rl x rr" by (cases r) auto
  show ?thesis
  proof (cases "height rr < height rl")
    case True
    then obtain b y c where "rl = Node b y c" by (cases rl) auto
    with True assms r show ?thesis by (auto simp: bal_def max_def split: if_splits)
  qed (use assms r in \<open>auto simp: bal_def max_def\<close>)
qed

text \<open>A subtree that grew is uneven, so a rebalancing insertion does not grow.\<close>

lemma ins_work_bound:
  assumes "avl t"
  shows "(height (ins x t) = height t + 1 \<longrightarrow>
      ins_work x t \<le> height t + 1 \<and> (t \<noteq> Leaf \<longrightarrow> height (left_of (ins x t)) \<noteq> height (right_of (ins x t)))) \<and>
     (x \<notin> set_tree t \<longrightarrow> ins_work x t \<le> height t + 3)"
  using assms
proof (induction t)
  case (Node l k r)
  have bal: "height l \<le> height r + 1" "height r \<le> height l + 1" and sub: "avl l" "avl r"
    using Node.prems by auto
  consider "x = k" | "x < k" | "k < x" by fastforce
  then show ?case
  proof cases
    case 1
    then show ?thesis by simp
  next
    case 2
    note IH = Node.IH(1) [OF sub(1)] and L = avl_ins [OF sub(1), of x]
    show ?thesis
    proof (cases "height (ins x l) = height l + 1")
      case grew: True
      show ?thesis
      proof (cases "height (ins x l) = height r + 2")
        case True
        then have "l \<noteq> Leaf" using grew by auto
        with IH grew have "height (bal (ins x l) k r) = height (ins x l)"
          using L True by (intro bal_left_high_uneven) auto
        then show ?thesis using 2 True grew IH rotations_le [of "ins x l" r] bal by auto
      next
        case False
        then have "bal (ins x l) k r = Node (ins x l) k r" "rotations (ins x l) r = 0"
          using grew bal by (auto intro!: bal_balanced)
        then show ?thesis using 2 grew IH bal by auto
      qed
    next
      case False
      then have "height (ins x l) = height l" using L by auto
      then have "bal (ins x l) k r = Node (ins x l) k r" "rotations (ins x l) r = 0"
        using bal by (auto intro!: bal_balanced)
      then show ?thesis using 2 \<open>height (ins x l) = height l\<close> IH by auto
    qed
  next
    case 3
    note IH = Node.IH(2) [OF sub(2)] and R = avl_ins [OF sub(2), of x]
    show ?thesis
    proof (cases "height (ins x r) = height r + 1")
      case grew: True
      show ?thesis
      proof (cases "height (ins x r) = height l + 2")
        case True
        then have "r \<noteq> Leaf" using grew by auto
        with IH grew have "height (bal l k (ins x r)) = height (ins x r)"
          using R True by (intro bal_right_high_uneven) auto
        then show ?thesis using 3 True grew IH rotations_le [of l "ins x r"] bal by auto
      next
        case False
        then have "bal l k (ins x r) = Node l k (ins x r)" "rotations l (ins x r) = 0"
          using grew bal by (auto intro!: bal_balanced)
        then show ?thesis using 3 grew IH bal by auto
      qed
    next
      case False
      then have "height (ins x r) = height r" using R by auto
      then have "bal l k (ins x r) = Node l k (ins x r)" "rotations l (ins x r) = 0"
        using bal by (auto intro!: bal_balanced)
      then show ?thesis using 3 \<open>height (ins x r) = height r\<close> IH by auto
    qed
  qed
qed simp

text \<open>The bound on one point update that \<open>_MutableStats.freeze\<close> reports.\<close>

definition update_work_bound :: "nat \<Rightarrow> nat" where
  "update_work_bound n = 4 * bit_length (n + 1) + 4"

lemma update_work_bound_mono: "m \<le> n \<Longrightarrow> update_work_bound m \<le> update_work_bound n"
  by (simp add: update_work_bound_def bit_length_mono)

lemma height_div_3: "(h::nat) \<le> 3 * (h div 3) + 2"
  by presburger

lemma size_card: "bst t \<Longrightarrow> size t = card (set_tree t)"
proof -
  assume "bst t"
  then have "distinct (inorder t)"
    by (simp add: bst_iff_sorted_wrt_less strict_sorted_iff)
  then show ?thesis by (metis distinct_card length_inorder set_inorder)
qed

lemma avl_add_work:
  assumes "avl_inv t" and "avl_add t x = Inr (t', w)"
  shows "w \<le> update_work_bound (card (avl_elems t))"
proof -
  let ?s = "shape (avl_root t)"
  have "x \<notin> avl_elems t"
  proof
    assume "x \<in> avl_elems t"
    then have "avl_insert (avl_root t) x = Inl AssertionError"
      using assms(1) by (intro avl_insert_present) (simp_all add: avl_inv_def avl_elems_def)
    then show False using assms(2) by (simp add: avl_add_def)
  qed
  with avl_add_ok [OF assms(1) this] assms(2) have "w = ins_work x ?s" "x \<notin> set_tree ?s"
    by (auto simp: avl_elems_def)
  then have "w \<le> height ?s + 3" using ins_work_bound [of ?s x] assms(1) by (auto simp: avl_inv_def)
  moreover have "15 * (height ?s div 3) < 8 * bit_length (card (avl_elems t) + 1)"
    using avl_height_bit_length [of ?s] assms(1) by (simp add: avl_inv_def avl_elems_def size_card)
  ultimately show ?thesis using height_div_3 [of "height ?s"] by (simp add: update_work_bound_def)
qed

lemma avl_remove_work:
  assumes "avl_inv t" and "avl_remove t x = Inr (t', w)"
  shows "w \<le> update_work_bound (card (avl_elems t))"
proof -
  let ?s = "shape (avl_root t)"
  have "x \<in> avl_elems t"
  proof (rule ccontr)
    assume "x \<notin> avl_elems t"
    then have "avl_delete (avl_root t) x = Inl AssertionError"
      by (intro avl_delete_absent) (simp add: avl_elems_def)
    then show False using assms(2) by (simp add: avl_remove_def)
  qed
  with avl_remove_ok [OF assms(1) this] assms(2) have "w = del_work x ?s" by auto
  then have "2 * w \<le> 5 * height ?s" using del_work_bound [of ?s x] assms(1) by (auto simp: avl_inv_def)
  moreover have "15 * (height ?s div 3) < 8 * bit_length (card (avl_elems t) + 1)"
    using avl_height_bit_length [of ?s] assms(1) by (simp add: avl_inv_def avl_elems_def size_card)
  ultimately show ?thesis using height_div_3 [of "height ?s"] by (simp add: update_work_bound_def)
qed

section \<open>Range search\<close>

lemma visit_range:
  "bst (shape t) \<Longrightarrow>
     visit_range lower upper t result =
       result \<union> snd ` {k \<in> set_tree (shape t). lower \<le> k \<and> k < upper}"
proof (induction t arbitrary: result)
  case (AvlNode k l r h)
  then have l: "\<And>res. visit_range lower upper l res =
        res \<union> snd ` {k \<in> set_tree (shape l). lower \<le> k \<and> k < upper}"
    and r: "\<And>res. visit_range lower upper r res =
        res \<union> snd ` {k \<in> set_tree (shape r). lower \<le> k \<and> k < upper}"
    by simp_all
  have "{y \<in> set_tree (shape l). lower \<le> y \<and> y < upper} = {}" if "\<not> lower \<le> k"
    using AvlNode.prems that by force
  moreover have "{y \<in> set_tree (shape r). lower \<le> y \<and> y < upper} = {}" if "\<not> k < upper"
    using AvlNode.prems that by force
  moreover have "{y \<in> set_tree (shape (AvlNode k l r h)). lower \<le> y \<and> y < upper} =
      {y \<in> set_tree (shape l). lower \<le> y \<and> y < upper} \<union>
      {y \<in> set_tree (shape r). lower \<le> y \<and> y < upper} \<union>
      (if lower \<le> k \<and> k < upper then {k} else {})" by auto
  ultimately show ?case by (auto simp: Let_def l r simp del: shape.simps)
qed simp

lemma Nil_least: "([] :: string) \<le> x"
  by (cases x) simp_all

lemma ids_in_score_range:
  assumes "avl_inv t"
  shows "ids_in_score_range t lower upper =
     {i. \<exists>s. (s, i) \<in> avl_elems t \<and> lower \<le> s \<and> s < upper}"
proof -
  have "((lower, '''') \<le> (s, i) \<and> (s, i) < (upper, '''')) \<longleftrightarrow> lower \<le> s \<and> s < upper"
    for s and i :: string
    using Nil_least [of i] by (auto simp: less_prod_def less_eq_prod_def)
  then show ?thesis
    using assms by (force simp: ids_in_score_range_def visit_range avl_inv_def avl_elems_def)
qed

section \<open>The index of a set of active observations\<close>

definition index_of ::
    "(semantic_observation \<Rightarrow> rat) \<Rightarrow> (string \<rightharpoonup> semantic_observation) \<Rightarrow> score_key set" where
  "index_of f A = {(s, i). \<exists>ob. A i = Some ob \<and> s = f ob}"

definition index_stores :: "score_range_index \<Rightarrow> (string \<rightharpoonup> semantic_observation) \<Rightarrow> bool" where
  "index_stores ix A \<longleftrightarrow>
     m2_set.stores (support_entries ix) (index_of ob_support_score A) \<and>
     m2_set.stores (refute_entries ix) (index_of ob_refute_score A)"

lemma index_of_insert: "A i = None \<Longrightarrow> index_of f (A(i \<mapsto> ob)) = insert (f ob, i) (index_of f A)"
  by (auto simp: index_of_def split: if_splits)

lemma index_of_remove: "A i = Some ob \<Longrightarrow> index_of f (A(i := None)) = index_of f A - {(f ob, i)}"
  by (auto simp: index_of_def split: if_splits)

lemma index_of_mem: "(s, i) \<in> index_of f A \<longleftrightarrow> (\<exists>ob. A i = Some ob \<and> s = f ob)"
  by (auto simp: index_of_def)

lemma card_index_of: "card (index_of f A) = card (dom A)"
proof -
  have "index_of f A = (\<lambda>i. (f (the (A i)), i)) ` dom A"
    by (force simp: index_of_def image_iff dom_def)
  then show ?thesis by (simp add: card_image inj_on_def)
qed

lemma index_new_stores: "index_stores index_new (\<lambda>_. None)"
  by (simp add: index_stores_def index_new_def index_of_def m2_set.stores_new)

lemma index_add_ok:
  assumes "index_stores ix A" and "A (ob_observation_id ob) = None"
  shows "\<exists>ix' w. index_add ix ob = Inr (ix', w) \<and> index_stores ix' (A(ob_observation_id ob \<mapsto> ob)) \<and>
     w \<le> 2 * update_work_bound (card (dom A))"
proof -
  have inv: "avl_inv (support_entries ix)" "avl_elems (support_entries ix) = index_of ob_support_score A"
    "avl_inv (refute_entries ix)" "avl_elems (refute_entries ix) = index_of ob_refute_score A"
    using assms(1) by (auto simp: index_stores_def m2_set.stores_def)
  have fresh: "support_entry ob \<notin> avl_elems (support_entries ix)"
    "refute_entry ob \<notin> avl_elems (refute_entries ix)"
    using assms(2) inv by (auto simp: support_entry_def refute_entry_def index_of_mem)
  from avl_add_ok [OF inv(1) fresh(1)] obtain s w1 where
    s: "avl_add (support_entries ix) (support_entry ob) = Inr (s, w1)" "avl_inv s"
      "avl_elems s = insert (support_entry ob) (avl_elems (support_entries ix))" by blast
  from avl_add_ok [OF inv(3) fresh(2)] obtain t w2 where
    t: "avl_add (refute_entries ix) (refute_entry ob) = Inr (t, w2)" "avl_inv t"
      "avl_elems t = insert (refute_entry ob) (avl_elems (refute_entries ix))" by blast
  have "w1 + w2 \<le> 2 * update_work_bound (card (dom A))"
    using avl_add_work [OF inv(1) s(1)] avl_add_work [OF inv(3) t(1)] inv by (simp add: card_index_of)
  with s t inv assms(2) show ?thesis
    by (simp add: index_add_def index_stores_def m2_set.stores_def index_of_insert
        support_entry_def refute_entry_def)
qed

lemma index_remove_ok:
  assumes "index_stores ix A" and "A (ob_observation_id ob) = Some ob"
  shows "\<exists>ix' w. index_remove ix ob = Inr (ix', w) \<and> index_stores ix' (A(ob_observation_id ob := None)) \<and>
     w \<le> 2 * update_work_bound (card (dom A))"
proof -
  have inv: "avl_inv (support_entries ix)" "avl_elems (support_entries ix) = index_of ob_support_score A"
    "avl_inv (refute_entries ix)" "avl_elems (refute_entries ix) = index_of ob_refute_score A"
    using assms(1) by (auto simp: index_stores_def m2_set.stores_def)
  have present: "support_entry ob \<in> avl_elems (support_entries ix)"
    "refute_entry ob \<in> avl_elems (refute_entries ix)"
    using assms(2) inv by (auto simp: support_entry_def refute_entry_def index_of_mem)
  from avl_remove_ok [OF inv(1) present(1)] obtain s w1 where
    s: "avl_remove (support_entries ix) (support_entry ob) = Inr (s, w1)" "avl_inv s"
      "avl_elems s = avl_elems (support_entries ix) - {support_entry ob}" by blast
  from avl_remove_ok [OF inv(3) present(2)] obtain t w2 where
    t: "avl_remove (refute_entries ix) (refute_entry ob) = Inr (t, w2)" "avl_inv t"
      "avl_elems t = avl_elems (refute_entries ix) - {refute_entry ob}" by blast
  have "w1 + w2 \<le> 2 * update_work_bound (card (dom A))"
    using avl_remove_work [OF inv(1) s(1)] avl_remove_work [OF inv(3) t(1)] inv
    by (simp add: card_index_of)
  with s t inv assms(2) show ?thesis
    by (simp add: index_of_remove index_remove_def index_stores_def m2_set.stores_def support_entry_def refute_entry_def)
qed

lemma index_contains_iff:
  assumes "index_stores ix A"
  shows "index_contains ix ob \<longleftrightarrow>
     (\<exists>ob'. A (ob_observation_id ob) = Some ob' \<and> ob_support_score ob' = ob_support_score ob \<and>
        ob_refute_score ob' = ob_refute_score ob)"
  using assms
  by (auto simp: index_contains_def index_stores_def m2_set.stores_def avl_inv_def avl_contains
      support_entry_def refute_entry_def index_of_mem simp flip: avl_elems_def)

lemma index_size:
  assumes "index_stores ix A"
  shows "avl_size (support_entries ix) = int (card (dom A))" and "finite (dom A)"
proof -
  from assms have inv: "avl_inv (support_entries ix)"
    "avl_elems (support_entries ix) = index_of ob_support_score A"
    by (simp_all add: index_stores_def m2_set.stores_def)
  then show "avl_size (support_entries ix) = int (card (dom A))"
    by (simp add: avl_inv_def card_index_of)
  have "finite (index_of ob_support_score A)" using inv m2_set.finite by metis
  then have "finite (snd ` index_of ob_support_score A)" by simp
  moreover have "snd ` index_of ob_support_score A = dom A" by (force simp: index_of_def)
  ultimately show "finite (dom A)" by simp
qed

lemma range_ids_index:
  assumes "avl_inv t" and "avl_elems t = index_of f A"
  shows "range_ids t old new = {i. \<exists>ob. A i = Some ob \<and> in_threshold_gap old new (f ob)}"
  using assms
  by (auto simp: range_ids_def ids_in_score_range index_of_mem in_threshold_gap_def)

text \<open>The candidates are exactly the active observations with a score in a threshold gap.\<close>

lemma policy_candidates_index:
  assumes "index_stores ix A" and "dp_tie_rule_version p = dp_tie_rule_version q"
  shows "policy_candidates ix p q = Inr {i. \<exists>ob. A i = Some ob \<and>
     (in_threshold_gap (dp_support_threshold p) (dp_support_threshold q) (ob_support_score ob) \<or>
      in_threshold_gap (dp_refute_threshold p) (dp_refute_threshold q) (ob_refute_score ob))}"
proof -
  have inv: "avl_inv (support_entries ix)" "avl_elems (support_entries ix) = index_of ob_support_score A"
    "avl_inv (refute_entries ix)" "avl_elems (refute_entries ix) = index_of ob_refute_score A"
    using assms(1) by (auto simp: index_stores_def m2_set.stores_def)
  show ?thesis
    using assms(2) range_ids_index [OF inv(1,2)] range_ids_index [OF inv(3,4)]
    by (auto simp: policy_candidates_def)
qed

end
