(* ===== verification/GL_Engine.thy ===== *)
theory GL_Engine
  imports GL_Heapq GL_ScoreIndex GL_Events
begin

text \<open>
  The signed-delta maintenance engine of \<open>groundloop/incremental.py\<close>: its state and its
  operations.  A method that mutates \<open>self\<close> returns the new state or the exception it raises; the
  objects that a method mutates besides (\<open>dirty_claims\<close>, \<open>stats\<close>) travel with the engine in a
  context.  \<open>GL_EngineProofs\<close> proves the engine against the direct-witness view.
\<close>

section \<open>Counted maxima\<close>

text \<open>\<open>_ScoreMultiset\<close>: a count per score and a heap of negated scores with lazy deletion.\<close>

record score_multiset =
  sm_counts :: "(rat, int) pydict"
  sm_max_heap :: "rat list"

definition sm_new :: score_multiset where
  "sm_new = \<lparr>sm_counts = [], sm_max_heap = []\<rparr>"

definition sm_add :: "rat \<Rightarrow> score_multiset \<Rightarrow> score_multiset" where
  "sm_add v m =
     m\<lparr>sm_counts := dset v (dget_default (sm_counts m) v 0 + 1) (sm_counts m),
       sm_max_heap := heappush (sm_max_heap m) (- v)\<rparr>"

definition sm_remove :: "rat \<Rightarrow> score_multiset \<Rightarrow> score_multiset res" where
  "sm_remove v m =
     (let n = dget_default (sm_counts m) v 0 in
      if n \<le> 0 then Inl AssertionError
      else if n = 1 then Inr (m\<lparr>sm_counts := ddel v (sm_counts m)\<rparr>)
      else Inr (m\<lparr>sm_counts := dset v (n - 1) (sm_counts m)\<rparr>))"

text \<open>The loop of \<open>maximum\<close>: pop scores that are no longer counted.\<close>

lemma heappop_length [simp]: "length (heappop h) = length h - 1"
proof (cases h)
  case (Cons x t)
  show ?thesis
  proof (cases "t = []")
    case False
    let ?r = "(butlast h)[0 := last h]"
    have "0 < length ?r" using False Cons by simp
    then have "mset (siftup ?r 0) = mset ?r" by (rule siftup_mset)
    then have "length (siftup ?r 0) = length ?r" by (rule mset_eq_length)
    then show ?thesis using False Cons by (simp add: heappop_def Let_def)
  qed (simp add: heappop_def Cons)
qed (simp add: heappop_def)

function prune :: "(rat, int) pydict \<Rightarrow> rat list \<Rightarrow> rat list" where
  "prune counts h =
     (case h of
        [] \<Rightarrow> []
      | x # _ \<Rightarrow> if \<not> dmem (- x) counts then prune counts (heappop h) else h)"
  by pat_completeness auto
termination
  by (relation "measure (length \<circ> snd)") auto

declare prune.simps [simp del]

definition sm_maximum :: "score_multiset \<Rightarrow> rat option \<times> score_multiset" where
  "sm_maximum m =
     (let h = prune (sm_counts m) (sm_max_heap m) in
      (case h of [] \<Rightarrow> None | x # _ \<Rightarrow> Some (- x), m\<lparr>sm_max_heap := h\<rparr>))"

section \<open>Accumulators\<close>

record claim_accumulator =
  support_hash_counts :: "(string, int) pydict"
  refute_hash_counts :: "(string, int) pydict"
  support_observation_ids :: "string set"
  refute_observation_ids :: "string set"
  support_scores :: score_multiset
  refute_scores :: score_multiset

definition new_accumulator :: claim_accumulator where
  "new_accumulator =
     \<lparr>support_hash_counts = [], refute_hash_counts = [], support_observation_ids = {},
      refute_observation_ids = {}, support_scores = sm_new, refute_scores = sm_new\<rparr>"

text \<open>
  The three containers that \<open>_add_contribution\<close> and \<open>_remove_contribution\<close> select by label: reading
  them, and storing them back.
\<close>

record acc_side =
  side_counts :: "(string, int) pydict"
  side_ids :: "string set"
  side_scores :: score_multiset

definition get_side :: "verification_label \<Rightarrow> claim_accumulator \<Rightarrow> acc_side" where
  "get_side l a =
     (if l = SUPPORT
      then \<lparr>side_counts = support_hash_counts a, side_ids = support_observation_ids a,
            side_scores = support_scores a\<rparr>
      else \<lparr>side_counts = refute_hash_counts a, side_ids = refute_observation_ids a,
            side_scores = refute_scores a\<rparr>)"

definition put_side :: "verification_label \<Rightarrow> acc_side \<Rightarrow> claim_accumulator \<Rightarrow> claim_accumulator" where
  "put_side l s a =
     (if l = SUPPORT
      then a\<lparr>support_hash_counts := side_counts s, support_observation_ids := side_ids s,
             support_scores := side_scores s\<rparr>
      else a\<lparr>refute_hash_counts := side_counts s, refute_observation_ids := side_ids s,
             refute_scores := side_scores s\<rparr>)"

text \<open>Both return whether a distinct hash appeared or disappeared.\<close>

definition side_add :: "contribution \<Rightarrow> acc_side \<Rightarrow> acc_side \<times> bool" where
  "side_add c s =
     (let old = dget_default (side_counts s) (co_text_hash c) 0 in
      (\<lparr>side_counts = dset (co_text_hash c) (old + 1) (side_counts s),
        side_ids = insert (co_observation_id c) (side_ids s),
        side_scores = sm_add (co_score c) (side_scores s)\<rparr>, old = 0))"

definition side_remove :: "contribution \<Rightarrow> acc_side \<Rightarrow> (acc_side \<times> bool) res" where
  "side_remove c s =
     (let old = dget_default (side_counts s) (co_text_hash c) 0 in
      if old \<le> 0 then Inl AssertionError
      else if co_observation_id c \<notin> side_ids s then Inl KeyError
      else bind_res (sm_remove (co_score c) (side_scores s)) (\<lambda>scores.
        Inr (\<lparr>side_counts = (if old = 1 then ddel (co_text_hash c) (side_counts s)
                             else dset (co_text_hash c) (old - 1) (side_counts s)),
              side_ids = side_ids s - {co_observation_id c},
              side_scores = scores\<rparr>, old = 1)))"

section \<open>Engine state\<close>

record claim_certificate =
  cc_claim_id :: string
  cc_support_observation_id :: "string option"
  cc_refute_observation_id :: "string option"

record maintenance_stats =
  st_active_observations_added :: int
  st_active_observations_removed :: int
  st_decision_flips :: int
  st_policy_index_candidates :: int
  st_distinct_hash_crossings :: int
  st_claim_keys_touched :: int
  st_claim_status_changes :: int
  st_answer_keys_touched :: int
  st_answer_status_changes :: int
  st_score_index_point_updates :: int
  st_score_index_entries_before :: int
  st_score_index_shift_work :: int
  st_score_index_shift_upper_bound :: int

definition no_stats :: maintenance_stats where
  "no_stats =
     \<lparr>st_active_observations_added = 0, st_active_observations_removed = 0, st_decision_flips = 0,
      st_policy_index_candidates = 0, st_distinct_hash_crossings = 0, st_claim_keys_touched = 0,
      st_claim_status_changes = 0, st_answer_keys_touched = 0, st_answer_status_changes = 0,
      st_score_index_point_updates = 0, st_score_index_entries_before = 0,
      st_score_index_shift_work = 0, st_score_index_shift_upper_bound = 0\<rparr>"

record mutable_stats =
  mt_active_observations_added :: int
  mt_active_observations_removed :: int
  mt_decision_flips :: int
  mt_policy_index_candidates :: int
  mt_distinct_hash_crossings :: int
  mt_claim_status_changes :: int
  mt_answer_status_changes :: int
  mt_score_index_point_updates :: int
  mt_score_index_entries_before :: int
  mt_score_index_shift_work :: int

definition new_stats :: mutable_stats where
  "new_stats =
     \<lparr>mt_active_observations_added = 0, mt_active_observations_removed = 0, mt_decision_flips = 0,
      mt_policy_index_candidates = 0, mt_distinct_hash_crossings = 0, mt_claim_status_changes = 0,
      mt_answer_status_changes = 0, mt_score_index_point_updates = 0,
      mt_score_index_entries_before = 0, mt_score_index_shift_work = 0\<rparr>"

definition freeze :: "mutable_stats \<Rightarrow> string set \<Rightarrow> string set \<Rightarrow> maintenance_stats" where
  "freeze m touched_claims touched_answers =
     \<lparr>st_active_observations_added = mt_active_observations_added m,
      st_active_observations_removed = mt_active_observations_removed m,
      st_decision_flips = mt_decision_flips m,
      st_policy_index_candidates = mt_policy_index_candidates m,
      st_distinct_hash_crossings = mt_distinct_hash_crossings m,
      st_claim_keys_touched = int (card touched_claims),
      st_claim_status_changes = mt_claim_status_changes m,
      st_answer_keys_touched = int (card touched_answers),
      st_answer_status_changes = mt_answer_status_changes m,
      st_score_index_point_updates = mt_score_index_point_updates m,
      st_score_index_entries_before = mt_score_index_entries_before m,
      st_score_index_shift_work = mt_score_index_shift_work m,
      st_score_index_shift_upper_bound =
        mt_score_index_point_updates m *
        (4 * int (bit_length (nat \<bar>mt_score_index_entries_before m +
                                    mt_active_observations_added m + 1\<bar>)) + 4)\<rparr>"

type_synonym status_counter = "(claim_status, int) pydict"

record engine =
  en_claim_accumulators :: "(string, claim_accumulator) pydict"
  en_claim_states :: "(string, claim_state) pydict"
  en_answer_status_counts :: "(string, status_counter) pydict"
  en_answer_states :: "(string, answer_state) pydict"
  en_claim_to_answer :: "(string, string) pydict"
  en_claim_required :: "(string, bool) pydict"
  en_answer_to_claims :: "(string, string list) pydict"
  en_answer_required_counts :: "(string, int) pydict"
  en_active_labels :: "(string, verification_label) pydict"
  en_contributions :: "(string, contribution) pydict"
  en_score_index :: score_range_index
  en_certificates :: "(string, claim_certificate) pydict"
  en_state_revision :: int
  en_last_stats :: maintenance_stats

definition new_engine :: engine where
  "new_engine =
     \<lparr>en_claim_accumulators = [], en_claim_states = [], en_answer_status_counts = [],
      en_answer_states = [], en_claim_to_answer = [], en_claim_required = [],
      en_answer_to_claims = [], en_answer_required_counts = [], en_active_labels = [],
      en_contributions = [], en_score_index = index_new, en_certificates = [],
      en_state_revision = 0, en_last_stats = no_stats\<rparr>"

text \<open>The engine with the objects that an update threads through its helpers.\<close>

record update_ctx =
  cx_engine :: engine
  cx_dirty_claims :: "string set"
  cx_stats :: mutable_stats

section \<open>Derived states\<close>

definition claim_status_of :: "int \<Rightarrow> int \<Rightarrow> claim_status" where
  "claim_status_of support_count refute_count =
     (if 0 < support_count \<and> 0 < refute_count then CONFLICTED
      else if 0 < support_count then SUPPORTED
      else if 0 < refute_count then REFUTED
      else UNSUPPORTED)"

text \<open>\<open>counts[status]\<close> of a \<open>Counter\<close> is 0 for an absent key.\<close>

abbreviation counter_get :: "status_counter \<Rightarrow> claim_status \<Rightarrow> int" where
  "counter_get counts st \<equiv> dget_default counts st 0"

definition counter_add :: "claim_status \<Rightarrow> int \<Rightarrow> status_counter \<Rightarrow> status_counter" where
  "counter_add st d counts = dset st (counter_get counts st + d) counts"

definition answer_status_from_counts :: "status_counter \<Rightarrow> int \<Rightarrow> answer_status" where
  "answer_status_from_counts counts required =
     (if 0 < counter_get counts REFUTED then CONTRADICTED
      else if 0 < counter_get counts CONFLICTED then ANSWER_CONFLICTED
      else if 0 < required \<and> counter_get counts SUPPORTED = required then VALID
      else if 0 < counter_get counts SUPPORTED then PARTIALLY_SUPPORTED
      else ANSWER_UNSUPPORTED)"

text \<open>\<open>_state_from_accumulator_value\<close>; reading a maximum prunes the heap of the accumulator.\<close>

definition state_from_accumulator_value ::
    "string \<Rightarrow> claim_accumulator \<Rightarrow> claim_state \<times> claim_accumulator" where
  "state_from_accumulator_value cid a =
     (let support_count = length (support_hash_counts a);
          refute_count = length (refute_hash_counts a);
          (best_support, ss) = sm_maximum (support_scores a);
          (best_refute, rs) = sm_maximum (refute_scores a) in
      (\<lparr>cs_claim_id = cid, cs_support_count = support_count, cs_refute_count = refute_count,
        cs_best_support_score = best_support, cs_best_refute_score = best_refute,
        cs_supporting_observation_ids = sorted_list_of_set (support_observation_ids a),
        cs_refuting_observation_ids = sorted_list_of_set (refute_observation_ids a),
        cs_status = claim_status_of (int support_count) (int refute_count)\<rparr>,
       a\<lparr>support_scores := ss, refute_scores := rs\<rparr>))"

definition state_from_accumulator :: "string \<Rightarrow> engine \<Rightarrow> (claim_state \<times> engine) res" where
  "state_from_accumulator cid e =
     bind_res (lookup KeyError (en_claim_accumulators e) cid) (\<lambda>a.
       let (st, a') = state_from_accumulator_value cid a in
       Inr (st, e\<lparr>en_claim_accumulators := dset cid a' (en_claim_accumulators e)\<rparr>))"

definition state_from_answer_count_value :: "engine \<Rightarrow> string \<Rightarrow> status_counter \<Rightarrow> answer_state res" where
  "state_from_answer_count_value e aid counts =
     bind_res (lookup KeyError (en_answer_required_counts e) aid) (\<lambda>required.
       Inr \<lparr>as_answer_version_id = aid, as_required_claim_count = required,
            as_supported_count = counter_get counts SUPPORTED,
            as_unsupported_count = counter_get counts UNSUPPORTED,
            as_refuted_count = counter_get counts REFUTED,
            as_conflicted_count = counter_get counts CONFLICTED,
            as_status = answer_status_from_counts counts required\<rparr>)"

definition state_from_answer_counts :: "engine \<Rightarrow> string \<Rightarrow> answer_state res" where
  "state_from_answer_counts e aid =
     bind_res (lookup KeyError (en_answer_status_counts e) aid) (state_from_answer_count_value e aid)"

definition first_id :: "string list \<Rightarrow> string option" where
  "first_id ids = (case ids of [] \<Rightarrow> None | i # _ \<Rightarrow> Some i)"

definition certificate_from_state :: "claim_state \<Rightarrow> claim_certificate" where
  "certificate_from_state st =
     \<lparr>cc_claim_id = cs_claim_id st,
      cc_support_observation_id = first_id (cs_supporting_observation_ids st),
      cc_refute_observation_id = first_id (cs_refuting_observation_ids st)\<rparr>"

definition repair_certificate :: "string \<Rightarrow> engine \<Rightarrow> engine res" where
  "repair_certificate cid e =
     bind_res (lookup KeyError (en_claim_states e) cid) (\<lambda>st.
       Inr (e\<lparr>en_certificates := dset cid (certificate_from_state st) (en_certificates e)\<rparr>))"

text \<open>
  The statement sequence \<open>self._claim_states[c] = self._state_from_accumulator(c);
  self._repair_certificate(c)\<close>, which the source repeats three times.
\<close>

definition refresh_claim :: "string \<Rightarrow> engine \<Rightarrow> engine res" where
  "refresh_claim cid e =
     bind_res (state_from_accumulator cid e) (\<lambda>(st, e').
       repair_certificate cid (e'\<lparr>en_claim_states := dset cid st (en_claim_states e')\<rparr>))"

section \<open>Contributions\<close>

definition add_contribution :: "contribution \<Rightarrow> update_ctx \<Rightarrow> update_ctx res" where
  "add_contribution c cx =
     (let e = cx_engine cx; cid = co_claim_id c in
      bind_res (lookup KeyError (en_claim_accumulators e) cid) (\<lambda>a.
        let (s, crossed) = side_add c (get_side (co_label c) a) in
        Inr (cx\<lparr>cx_engine := e\<lparr>en_claim_accumulators :=
                  dset cid (put_side (co_label c) s a) (en_claim_accumulators e)\<rparr>,
                cx_dirty_claims := insert cid (cx_dirty_claims cx),
                cx_stats := (cx_stats cx)\<lparr>mt_distinct_hash_crossings :=
                  mt_distinct_hash_crossings (cx_stats cx) + of_bool crossed\<rparr>\<rparr>)))"

definition remove_contribution :: "contribution \<Rightarrow> update_ctx \<Rightarrow> update_ctx res" where
  "remove_contribution c cx =
     (let e = cx_engine cx; cid = co_claim_id c in
      bind_res (lookup KeyError (en_claim_accumulators e) cid) (\<lambda>a.
      bind_res (side_remove c (get_side (co_label c) a)) (\<lambda>(s, crossed).
        Inr (cx\<lparr>cx_engine := e\<lparr>en_claim_accumulators :=
                  dset cid (put_side (co_label c) s a) (en_claim_accumulators e)\<rparr>,
                cx_dirty_claims := insert cid (cx_dirty_claims cx),
                cx_stats := (cx_stats cx)\<lparr>mt_distinct_hash_crossings :=
                  mt_distinct_hash_crossings (cx_stats cx) + of_bool crossed\<rparr>\<rparr>))))"

definition make_contribution :: "semantic_observation \<Rightarrow> string \<Rightarrow> verification_label \<Rightarrow> contribution" where
  "make_contribution ob text_hash label =
     \<lparr>co_observation_id = ob_observation_id ob, co_claim_id = ob_subject_id ob,
      co_text_hash = text_hash, co_label = label,
      co_score = (if label = SUPPORT then ob_support_score ob else ob_refute_score ob)\<rparr>"

text \<open>
  The tail shared by \<open>_activate_observation\<close> and \<open>_apply_policy_change\<close>: store and count the
  contribution of a claim observation with a non-neutral label.
\<close>

definition contribute ::
    "semantic_observation \<Rightarrow> repo \<Rightarrow> verification_label \<Rightarrow> update_ctx \<Rightarrow> update_ctx res" where
  "contribute ob r label cx =
     (if ob_subject_kind ob \<noteq> CLAIM then Inr cx
      else if label = NEUTRAL then Inr cx
      else bind_res (chunk_version_of r (ob_chunk_version_id ob)) (\<lambda>cv.
        let c = make_contribution ob (cv_text_hash cv) label; e = cx_engine cx in
        add_contribution c
          (cx\<lparr>cx_engine := e\<lparr>en_contributions :=
                dset (ob_observation_id ob) c (en_contributions e)\<rparr>\<rparr>)))"

definition activate_observation ::
    "semantic_observation \<Rightarrow> repo \<Rightarrow> decision_policy \<Rightarrow> update_ctx \<Rightarrow> update_ctx res" where
  "activate_observation ob r p cx =
     (let e = cx_engine cx; i = ob_observation_id ob; st = cx_stats cx in
      if dmem i (en_active_labels e) then Inl AssertionError
      else let label = decide ob p in
        bind_res (index_add (en_score_index e) ob) (\<lambda>(ix, work).
          contribute ob r label
            (cx\<lparr>cx_engine := e\<lparr>en_active_labels := dset i label (en_active_labels e),
                               en_score_index := ix\<rparr>,
                cx_stats := st\<lparr>mt_score_index_shift_work := mt_score_index_shift_work st + int work,
                               mt_score_index_point_updates := mt_score_index_point_updates st + 2,
                               mt_active_observations_added :=
                                 mt_active_observations_added st + 1\<rparr>\<rparr>)))"

text \<open>\<open>self._contributions.pop(i, None)\<close>, and the removal of what it returns.\<close>

definition withdraw_contribution :: "string \<Rightarrow> update_ctx \<Rightarrow> update_ctx res" where
  "withdraw_contribution i cx =
     (let e = cx_engine cx in
      case dget (en_contributions e) i of
        None \<Rightarrow> Inr cx
      | Some c \<Rightarrow>
          remove_contribution c
            (cx\<lparr>cx_engine := e\<lparr>en_contributions := ddel i (en_contributions e)\<rparr>\<rparr>))"

definition deactivate_observation :: "semantic_observation \<Rightarrow> update_ctx \<Rightarrow> update_ctx res" where
  "deactivate_observation ob cx =
     (let e = cx_engine cx; i = ob_observation_id ob; st = cx_stats cx in
      if \<not> dmem i (en_active_labels e) then Inr cx
      else bind_res (index_remove (en_score_index e) ob) (\<lambda>(ix, work).
        withdraw_contribution i
          (cx\<lparr>cx_engine := e\<lparr>en_active_labels := ddel i (en_active_labels e), en_score_index := ix\<rparr>,
              cx_stats := st\<lparr>mt_score_index_shift_work := mt_score_index_shift_work st + int work,
                             mt_score_index_point_updates := mt_score_index_point_updates st + 2,
                             mt_active_observations_removed :=
                               mt_active_observations_removed st + 1\<rparr>\<rparr>)))"

definition withdraw_chunk :: "repo \<Rightarrow> string \<Rightarrow> update_ctx \<Rightarrow> update_ctx res" where
  "withdraw_chunk before chunk cx =
     bind_res (current_observation_ids_for_chunk before chunk) (\<lambda>ids.
       fold_res (\<lambda>i cx. bind_res (observation_of before i) (\<lambda>ob. deactivate_observation ob cx)) ids cx)"

definition withdraw_document_version :: "string \<Rightarrow> repo \<Rightarrow> update_ctx \<Rightarrow> update_ctx res" where
  "withdraw_document_version v before cx =
     fold_res (withdraw_chunk before) (chunk_ids_of_document_version before v) cx"

text \<open>The loop body of \<open>_apply_policy_change\<close>.\<close>

definition relabel_candidate ::
    "repo \<Rightarrow> decision_policy \<Rightarrow> string \<Rightarrow> update_ctx \<Rightarrow> update_ctx res" where
  "relabel_candidate before q i cx =
     bind_res (observation_of before i) (\<lambda>ob.
     bind_res (lookup KeyError (en_active_labels (cx_engine cx)) i) (\<lambda>old_label.
       let new_label = decide ob q in
       if old_label = new_label then Inr cx
       else bind_res
         (withdraw_contribution i
            (cx\<lparr>cx_stats := (cx_stats cx)\<lparr>mt_decision_flips := mt_decision_flips (cx_stats cx) + 1\<rparr>\<rparr>))
         (\<lambda>cx. let e = cx_engine cx in
           contribute ob before new_label
             (cx\<lparr>cx_engine := e\<lparr>en_active_labels := dset i new_label (en_active_labels e)\<rparr>\<rparr>))))"

definition apply_policy_change :: "repo \<Rightarrow> repo \<Rightarrow> update_ctx \<Rightarrow> update_ctx res" where
  "apply_policy_change before after cx =
     bind_res (current_policy before) (\<lambda>p.
     bind_res (current_policy after) (\<lambda>q.
     bind_res (policy_candidates (en_score_index (cx_engine cx)) p q) (\<lambda>candidates.
       fold_res (relabel_candidate before q) (sorted_list_of_set candidates)
         (cx\<lparr>cx_stats := (cx_stats cx)\<lparr>mt_policy_index_candidates := int (card candidates)\<rparr>\<rparr>))))"

section \<open>Registry\<close>

text \<open>\<open>_rebuild_answer_aggregates\<close>: the counter of one answer, and the loop over the answers.\<close>

definition count_claim :: "engine \<Rightarrow> string \<Rightarrow> status_counter \<Rightarrow> status_counter res" where
  "count_claim e cid counts =
     bind_res (lookup KeyError (en_claim_required e) cid) (\<lambda>required.
       if required then
         bind_res (lookup KeyError (en_claim_states e) cid) (\<lambda>st.
           Inr (counter_add (cs_status st) 1 counts))
       else Inr counts)"

definition rebuild_answer :: "string \<Rightarrow> engine \<Rightarrow> engine res" where
  "rebuild_answer aid e =
     bind_res (lookup KeyError (en_answer_to_claims e) aid) (\<lambda>cids.
     bind_res (fold_res (count_claim e) cids []) (\<lambda>counts.
       let e' = e\<lparr>en_answer_status_counts := dset aid counts (en_answer_status_counts e)\<rparr> in
       bind_res (state_from_answer_counts e' aid) (\<lambda>st.
         Inr (e'\<lparr>en_answer_states := dset aid st (en_answer_states e')\<rparr>))))"

definition rebuild_answer_aggregates :: "repo \<Rightarrow> engine \<Rightarrow> engine res" where
  "rebuild_answer_aggregates r e =
     fold_res rebuild_answer (all_answer_ids r)
       (e\<lparr>en_answer_status_counts := [], en_answer_states := []\<rparr>)"

definition sync_claim :: "repo \<Rightarrow> string \<Rightarrow> bool \<times> engine \<Rightarrow> (bool \<times> engine) res" where
  "sync_claim r cid ce =
     (let (changed, e) = ce in
      if dmem cid (en_claim_accumulators e) then Inr (changed, e)
      else bind_res (claim_of r cid) (\<lambda>cl.
        bind_res
          (refresh_claim cid
             (e\<lparr>en_claim_accumulators := dset cid new_accumulator (en_claim_accumulators e),
                en_claim_to_answer := dset cid (cl_answer_version_id cl) (en_claim_to_answer e),
                en_claim_required := dset cid (cl_required cl) (en_claim_required e)\<rparr>))
          (\<lambda>e'. Inr (True, e'))))"

definition sync_answer :: "repo \<Rightarrow> string \<Rightarrow> bool \<times> engine \<Rightarrow> (bool \<times> engine) res" where
  "sync_answer r aid ce =
     (let (changed, e) = ce; cids = claim_ids_of_answer r aid; known = dget (en_answer_to_claims e) aid in
      if known \<noteq> None \<and> known \<noteq> Some cids then Inl AssertionError
      else bind_res (traverse (lookup KeyError (en_claim_required e)) cids) (\<lambda>flags.
        Inr (changed \<or> known = None,
             e\<lparr>en_answer_to_claims := dset aid cids (en_answer_to_claims e),
               en_answer_required_counts :=
                 dset aid (int (length (filter id flags))) (en_answer_required_counts e)\<rparr>)))"

definition sync_registry :: "repo \<Rightarrow> engine \<Rightarrow> (bool \<times> engine) res" where
  "sync_registry r e =
     bind_res (fold_res (sync_claim r) (all_claim_ids r) (False, e)) (\<lambda>ce.
     bind_res (fold_res (sync_answer r) (all_answer_ids r) ce) (\<lambda>(changed, e').
       if changed then
         bind_res (rebuild_answer_aggregates r e') (\<lambda>e''.
           Inr (True, e''\<lparr>en_state_revision := en_state_revision e'' + 1\<rparr>))
       else Inr (False, e')))"

definition activate_current :: "repo \<Rightarrow> semantic_observation \<Rightarrow> engine \<Rightarrow> engine res" where
  "activate_current r ob e =
     (if is_chunk_active r (ob_chunk_version_id ob) then
        bind_res (current_policy r) (\<lambda>p.
        bind_res (activate_observation ob r p
          \<lparr>cx_engine = e, cx_dirty_claims = {}, cx_stats = new_stats\<rparr>) (\<lambda>cx. Inr (cx_engine cx)))
      else Inr e)"

definition from_repository :: "repo \<Rightarrow> engine res" where
  "from_repository r =
     bind_res (sync_registry r new_engine) (\<lambda>(_, e).
     bind_res (current_observations r) (\<lambda>obs.
     bind_res (fold_res (activate_current r) obs e) (\<lambda>e.
     bind_res (fold_res refresh_claim (dkeys (en_claim_accumulators e)) e) (\<lambda>e.
     bind_res (rebuild_answer_aggregates r e) (\<lambda>e.
       Inr (e\<lparr>en_last_stats := no_stats\<rparr>))))))"

section \<open>Committed events\<close>

fun maintain_base :: "event \<Rightarrow> repo \<Rightarrow> repo \<Rightarrow> update_ctx \<Rightarrow> update_ctx res" where
  "maintain_base (DeleteDocumentVersionEvent _ v) before after cx =
     withdraw_document_version v before cx"
| "maintain_base (ReplaceDocumentVersionEvent _ _ old _ _ _) before after cx =
     withdraw_document_version old before cx"
| "maintain_base (ObserveEvent _ ob) before after cx =
     bind_res
       (case current_observation_id before (observation_key ob) of
          None \<Rightarrow> Inr cx
        | Some previous \<Rightarrow>
            bind_res (observation_of before previous) (\<lambda>pob. deactivate_observation pob cx))
       (\<lambda>cx. if is_chunk_active after (ob_chunk_version_id ob) then
               bind_res (current_policy after) (\<lambda>q. activate_observation ob after q cx)
             else Inr cx)"
| "maintain_base (PolicyChangeEvent _ _) before after cx = apply_policy_change before after cx"
| "maintain_base (InsertDocumentEvent _ _ _ _ _) before after cx = Inr cx"

text \<open>The engine, the statistics and the answers to refresh, in the loop over the dirty claims.\<close>

record flush_ctx =
  fx_engine :: engine
  fx_stats :: mutable_stats
  fx_dirty_answers :: "string set"

definition flush_claim :: "(string, claim_status) pydict \<Rightarrow> string \<Rightarrow> flush_ctx \<Rightarrow> flush_ctx res" where
  "flush_claim old_statuses cid fx =
     (let e = fx_engine fx; st = fx_stats fx in
      bind_res (lookup KeyError (en_claim_states e) cid) (\<lambda>old_state.
      bind_res (refresh_claim cid e) (\<lambda>e.
      bind_res (lookup KeyError (en_claim_states e) cid) (\<lambda>new_state.
        if cs_status old_state = cs_status new_state then Inr (fx\<lparr>fx_engine := e\<rparr>)
        else
          let st = st\<lparr>mt_claim_status_changes := mt_claim_status_changes st + 1\<rparr> in
          bind_res (lookup KeyError (en_claim_required e) cid) (\<lambda>required.
            if \<not> required then Inr (fx\<lparr>fx_engine := e, fx_stats := st\<rparr>)
            else
              bind_res (lookup KeyError (en_claim_to_answer e) cid) (\<lambda>aid.
              bind_res (lookup KeyError (en_answer_status_counts e) aid) (\<lambda>counts.
              bind_res (lookup KeyError old_statuses cid) (\<lambda>old_status.
                Inr \<lparr>fx_engine = e\<lparr>en_answer_status_counts :=
                       dset aid (counter_add (cs_status new_state) 1 (counter_add old_status (-1) counts))
                         (en_answer_status_counts e)\<rparr>,
                     fx_stats = st,
                     fx_dirty_answers = insert aid (fx_dirty_answers fx)\<rparr>))))))))"

definition flush_answer :: "string \<Rightarrow> engine \<times> mutable_stats \<Rightarrow> (engine \<times> mutable_stats) res" where
  "flush_answer aid es =
     (let (e, st) = es in
      bind_res (lookup KeyError (en_answer_states e) aid) (\<lambda>old.
      bind_res (state_from_answer_counts e aid) (\<lambda>new.
        Inr (e\<lparr>en_answer_states := dset aid new (en_answer_states e)\<rparr>,
             if as_status old = as_status new then st
             else st\<lparr>mt_answer_status_changes := mt_answer_status_changes st + 1\<rparr>))))"

definition claim_status_table :: "engine \<Rightarrow> string list \<Rightarrow> (string, claim_status) pydict res" where
  "claim_status_table e cids =
     traverse (\<lambda>cid. bind_res (lookup KeyError (en_claim_states e) cid) (\<lambda>st. Inr (cid, cs_status st))) cids"

text \<open>Everything after the dispatch on the event.\<close>

definition finish_update :: "update_ctx \<Rightarrow> engine res" where
  "finish_update cx =
     (let dirty = sorted_list_of_set (cx_dirty_claims cx) in
      bind_res (claim_status_table (cx_engine cx) dirty) (\<lambda>old_statuses.
      bind_res (fold_res (flush_claim old_statuses) dirty
          \<lparr>fx_engine = cx_engine cx, fx_stats = cx_stats cx, fx_dirty_answers = {}\<rparr>) (\<lambda>fx.
      bind_res (fold_res flush_answer (sorted_list_of_set (fx_dirty_answers fx))
          (fx_engine fx, fx_stats fx)) (\<lambda>(e, st).
        Inr (e\<lparr>en_last_stats := freeze st (cx_dirty_claims cx) (fx_dirty_answers fx),
               en_state_revision := en_state_revision e + 1\<rparr>)))))"

definition apply_committed_event :: "event \<Rightarrow> repo \<Rightarrow> repo \<Rightarrow> engine \<Rightarrow> engine res" where
  "apply_committed_event ev before after e =
     bind_res (sync_registry before e) (\<lambda>(_, e).
     bind_res (maintain_base ev before after
       \<lparr>cx_engine = e, cx_dirty_claims = {},
        cx_stats = new_stats\<lparr>mt_score_index_entries_before :=
          avl_size (support_entries (en_score_index e))\<rparr>\<rparr>)
       finish_update)"

section \<open>Certificate validation\<close>

definition certificate_ok :: "claim_state \<Rightarrow> claim_certificate \<Rightarrow> bool" where
  "certificate_ok st c \<longleftrightarrow>
     (if 0 < cs_support_count st
      then cc_support_observation_id c \<in> Some ` set (cs_supporting_observation_ids st)
      else cc_support_observation_id c = None) \<and>
     (if 0 < cs_refute_count st
      then cc_refute_observation_id c \<in> Some ` set (cs_refuting_observation_ids st)
      else cc_refute_observation_id c = None)"

definition check_certificate :: "engine \<Rightarrow> string \<times> claim_state \<Rightarrow> unit \<Rightarrow> unit res" where
  "check_certificate e entry _ =
     bind_res (lookup KeyError (en_certificates e) (fst entry)) (\<lambda>c.
       if certificate_ok (snd entry) c then Inr () else Inl AssertionError)"

definition validate_certificates :: "engine \<Rightarrow> unit res" where
  "validate_certificates e = fold_res (check_certificate e) (en_claim_states e) ()"

end
