(* ===== verification/GL_EngineBase.thy ===== *)
theory GL_EngineBase
  imports GL_Engine
begin

text \<open>
  The engine's base structures represent the direct-witness view: score multisets represent
  multisets, accumulators represent the witnesses of a claim, and activating or deactivating an
  observation changes the represented view at one point.
\<close>

section \<open>Score multisets\<close>

definition sm_rel :: "score_multiset \<Rightarrow> rat multiset \<Rightarrow> bool" where
  "sm_rel m M \<longleftrightarrow>
     dict_ok (sm_counts m) \<and>
     (\<forall>v. dget (sm_counts m) v = (if v \<in># M then Some (int (count M v)) else None)) \<and>
     is_heap (sm_max_heap m) \<and> uminus ` set_mset M \<subseteq> set (sm_max_heap m)"

lemma sm_relD:
  assumes "sm_rel m M"
  shows "dict_ok (sm_counts m)"
    and "dget (sm_counts m) v = (if v \<in># M then Some (int (count M v)) else None)"
    and "dget_default (sm_counts m) v 0 = int (count M v)"
    and "is_heap (sm_max_heap m)" and "v \<in># M \<Longrightarrow> - v \<in> set (sm_max_heap m)"
  using assms by (auto simp: sm_rel_def dget_default_def not_in_iff)

lemma sm_new_rel: "sm_rel sm_new {#}"
  by (simp add: sm_rel_def sm_new_def is_heap_def)

lemma sm_add_rel:
  assumes "sm_rel m M" shows "sm_rel (sm_add v m) (add_mset v M)"
proof -
  note m = sm_relD [OF assms]
  have "set (heappush (sm_max_heap m) (- v)) = insert (- v) (set (sm_max_heap m))"
    using heappush_mset [of "sm_max_heap m" "- v"] by (metis set_mset_add_mset_insert set_mset_mset)
  moreover have "is_heap (heappush (sm_max_heap m) (- v))" using m(4) by (rule heappush_heap)
  ultimately show ?thesis
    using m(1,2) m(3) [of v] m(5) by (auto simp: sm_rel_def sm_add_def)
qed

lemma sm_remove_rel:
  assumes "sm_rel m M" and "v \<in># M"
  shows "\<exists>m'. sm_remove v m = Inr m' \<and> sm_rel m' (M - {#v#})"
proof -
  note m = sm_relD [OF assms(1)]
  have n: "dget_default (sm_counts m) v 0 = int (count M v)" "0 < count M v"
    using m(3) assms(2) by auto
  show ?thesis
  proof (cases "count M v = 1")
    case True
    then have "x \<in># M - {#v#} \<longleftrightarrow> x \<in># M \<and> x \<noteq> v" for x
      unfolding count_greater_zero_iff [symmetric] using True by auto
    then show ?thesis
      using True n m(1,2,4,5) by (auto simp: sm_remove_def Let_def sm_rel_def)
  next
    case False
    then have two: "1 < count M v" using n(2) by linarith
    then have "x \<in># M - {#v#} \<longleftrightarrow> x \<in># M" for x
      unfolding count_greater_zero_iff [symmetric] using n(2) by auto
    then show ?thesis
      using two n m(1,2,4,5) by (auto simp: sm_remove_def Let_def sm_rel_def)
  qed
qed

lemma prune_rel:
  assumes "is_heap h" and "uminus ` set_mset M \<subseteq> set h"
    and counts: "\<And>v. dmem v counts \<longleftrightarrow> v \<in># M"
  shows "is_heap (prune counts h) \<and> uminus ` set_mset M \<subseteq> set (prune counts h) \<and>
     (case prune counts h of [] \<Rightarrow> True | x # _ \<Rightarrow> - x \<in># M)"
  using assms
proof (induction counts h rule: prune.induct)
  case (1 counts h)
  note counts = "1.prems"(3)
  show ?case
  proof (cases h)
    case (Cons x t)
    show ?thesis
    proof (cases "- x \<in># M")
      case True
      then show ?thesis using 1 Cons counts by (subst (1 2 3) prune.simps) simp
    next
      case False
      then have drop: "prune counts h = prune counts (heappop h)"
        using Cons counts by (subst prune.simps) simp
      have "is_heap (heappop h)" "set (heappop h) = set t"
        using heappop_props [of x t] 1 Cons by (simp_all, metis set_mset_mset)
      moreover have "uminus ` set_mset M \<subseteq> set t" using 1 Cons False by force
      ultimately show ?thesis using "1.IH" [OF Cons] False Cons counts unfolding drop by simp
    qed
  qed (use 1 in \<open>simp add: prune.simps\<close>)
qed

lemma sm_maximum_rel:
  assumes "sm_rel m M"
  shows "\<exists>m'. sm_maximum m = (if M = {#} then None else Some (Max (set_mset M)), m') \<and> sm_rel m' M"
proof -
  note m = sm_relD [OF assms]
  let ?h = "prune (sm_counts m) (sm_max_heap m)"
  have mem: "dmem v (sm_counts m) \<longleftrightarrow> v \<in># M" for v using m(2) [of v] by (simp add: dmem_def)
  from prune_rel [OF m(4) _ mem] m(5)
  have h: "is_heap ?h" "uminus ` set_mset M \<subseteq> set ?h" "case ?h of [] \<Rightarrow> True | x # _ \<Rightarrow> - x \<in># M"
    by auto
  have rel: "sm_rel (m\<lparr>sm_max_heap := ?h\<rparr>) M" using h m(1,2) by (simp add: sm_rel_def)
  have "(case ?h of [] \<Rightarrow> None | x # _ \<Rightarrow> Some (- x)) = (if M = {#} then None else Some (Max (set_mset M)))"
  proof (cases ?h)
    case Nil
    then show ?thesis using h(2) by simp
  next
    case (Cons x t)
    then have x: "- x \<in># M" "is_heap (x # t)" using h by simp_all
    have "x \<le> - v" if "v \<in># M" for v
      using that h(2) Cons heap_root_all [OF x(2), of "- v"] by auto
    then have "v \<le> - x" if "v \<in># M" for v using that by force
    then have "Max (set_mset M) = - x" using x(1) by (intro Max_eqI) auto
    then show ?thesis using Cons x(1) by auto
  qed
  then show ?thesis using rel by (simp add: sm_maximum_def Let_def)
qed

section \<open>One side of an accumulator\<close>

text \<open>The side holds the witnesses \<open>W\<close>, whose hashes and scores are given by \<open>h\<close> and \<open>f\<close>.\<close>

definition side_rel :: "acc_side \<Rightarrow> string set \<Rightarrow> (string \<Rightarrow> string) \<Rightarrow> (string \<Rightarrow> rat) \<Rightarrow> bool" where
  "side_rel s W h f \<longleftrightarrow>
     finite W \<and> dict_ok (side_counts s) \<and>
     (\<forall>x. dget (side_counts s) x =
        (if x \<in> h ` W then Some (int (card {i \<in> W. h i = x})) else None)) \<and>
     side_ids s = W \<and> sm_rel (side_scores s) (image_mset f (mset_set W))"

lemma side_relD:
  assumes "side_rel s W h f"
  shows "finite W" and "dict_ok (side_counts s)"
    and "dget (side_counts s) x = (if x \<in> h ` W then Some (int (card {i \<in> W. h i = x})) else None)"
    and "dget_default (side_counts s) x 0 = int (card {i \<in> W. h i = x})"
    and "side_ids s = W" and "sm_rel (side_scores s) (image_mset f (mset_set W))"
proof -
  show "dget_default (side_counts s) x 0 = int (card {i \<in> W. h i = x})"
  proof (cases "x \<in> h ` W")
    case False
    then have "{i \<in> W. h i = x} = {}" by auto
    then have "card {i \<in> W. h i = x} = 0" by (simp only: card.empty)
    then show ?thesis using assms False by (simp add: side_rel_def dget_default_def)
  qed (use assms in \<open>simp add: side_rel_def dget_default_def\<close>)
qed (use assms in \<open>auto simp: side_rel_def\<close>)

lemma side_rel_cong:
  assumes "side_rel s W h f" and "\<And>i. i \<in> W \<Longrightarrow> h i = h' i" and "\<And>i. i \<in> W \<Longrightarrow> f i = f' i"
  shows "side_rel s W h' f'"
proof -
  have "h ` W = h' ` W" using assms(2) by auto
  moreover have "{i \<in> W. h i = x} = {i \<in> W. h' i = x}" for x using assms(2) by auto
  moreover have "image_mset f (mset_set W) = image_mset f' (mset_set W)"
    using assms(1,3) by (intro image_mset_cong) (simp add: side_rel_def)
  ultimately show ?thesis using assms(1) by (simp only: side_rel_def) simp
qed

lemma side_empty: "side_rel \<lparr>side_counts = [], side_ids = {}, side_scores = sm_new\<rparr> {} h f"
  by (simp add: side_rel_def sm_new_rel)

lemma side_add_rel:
  assumes rel: "side_rel s W h f" and i: "co_observation_id c = i" "i \<notin> W"
    and c: "h i = co_text_hash c" "f i = co_score c"
  shows "side_rel (fst (side_add c s)) (insert i W) h f"
proof -
  note s = side_relD [OF rel]
  have "{j \<in> insert i W. h j = x} = (if x = h i then insert i {j \<in> W. h j = x} else {j \<in> W. h j = x})" for x
    by auto
  then have card: "card {j \<in> insert i W. h j = x} =
      (if x = h i then Suc (card {j \<in> W. h j = x}) else card {j \<in> W. h j = x})" for x
    using i s(1) by simp
  have scores: "image_mset f (mset_set (insert i W)) = add_mset (co_score c) (image_mset f (mset_set W))"
    using i s(1) c by simp
  have "dget (dset (co_text_hash c) (int (card {j \<in> W. h j = co_text_hash c}) + 1) (side_counts s)) x =
      (if x \<in> h ` insert i W then Some (int (card {j \<in> insert i W. h j = x})) else None)" for x
    unfolding dget_dset card using s(3) [of x] c by auto
  then show ?thesis
    using s i c unfolding side_rel_def scores by (simp add: side_add_def Let_def sm_add_rel)
qed

lemma side_add_crossed:
  assumes "side_rel s W h f"
  shows "snd (side_add c s) \<longleftrightarrow> co_text_hash c \<notin> h ` W"
  using side_relD(1,4) [OF assms] by (auto simp: side_add_def Let_def image_iff)

lemma side_remove_rel:
  assumes rel: "side_rel s W h f" and i: "co_observation_id c = i" "i \<in> W"
    and c: "h i = co_text_hash c" "f i = co_score c"
  shows "\<exists>s' crossed. side_remove c s = Inr (s', crossed) \<and> side_rel s' (W - {i}) h f"
proof -
  note s = side_relD [OF rel]
  let ?n = "card {j \<in> W. h j = h i}"
  have fin: "finite {j \<in> W. h j = x}" for x using s(1) by simp
  have pos: "0 < ?n" using i fin by (auto simp: card_gt_0_iff)
  have "co_score c \<in># image_mset f (mset_set W)" using i c s(1) by force
  from sm_remove_rel [OF s(6) this] obtain sc where
    sc: "sm_remove (co_score c) (side_scores s) = Inr sc"
      "sm_rel sc (image_mset f (mset_set W) - {#co_score c#})" by blast
  have scores: "image_mset f (mset_set (W - {i})) = image_mset f (mset_set W) - {#co_score c#}"
    using i s(1) c by (simp add: mset_set_Diff image_mset_Diff)
  have sub: "{j \<in> W - {i}. h j = x} = (if x = h i then {j \<in> W. h j = x} - {i} else {j \<in> W. h j = x})" for x
    by auto
  have card: "card {j \<in> W - {i}. h j = x} =
      (if x = h i then card {j \<in> W. h j = x} - 1 else card {j \<in> W. h j = x})" for x
    using i fin unfolding sub by simp
  have img: "x \<in> h ` (W - {i}) \<longleftrightarrow> 0 < card {j \<in> W - {i}. h j = x}" for x
    using s(1) by (auto simp: card_gt_0_iff)
  have img': "x \<in> h ` W \<longleftrightarrow> 0 < card {j \<in> W. h j = x}" for x
    using s(1) by (auto simp: card_gt_0_iff)
  let ?d = "if int ?n = 1 then ddel (h i) (side_counts s) else dset (h i) (int ?n - 1) (side_counts s)"
  have "dget ?d x = (if x \<in> h ` (W - {i}) then Some (int (card {j \<in> W - {i}. h j = x})) else None)" for x
    using s(3) [of x] pos unfolding img img' card by (auto simp: of_nat_diff)
  moreover have "dict_ok ?d" using s(2) by simp
  ultimately have "side_rel \<lparr>side_counts = ?d, side_ids = W - {i}, side_scores = sc\<rparr> (W - {i}) h f"
    using s(1) sc(2) unfolding side_rel_def scores by simp
  moreover have "side_remove c s =
      Inr (\<lparr>side_counts = ?d, side_ids = W - {i}, side_scores = sc\<rparr>, int ?n = 1)"
    using s(4) [of "h i"] s(5) i c sc(1) pos by (simp add: side_remove_def Let_def)
  ultimately show ?thesis by blast
qed

section \<open>Accumulators\<close>

definition view_wf :: "view \<Rightarrow> bool" where
  "view_wf V \<longleftrightarrow> finite (dom V) \<and> (\<forall>i c. V i = Some c \<longrightarrow> co_observation_id c = i \<and> co_label c \<noteq> NEUTRAL)"

definition acc_rel :: "claim_accumulator \<Rightarrow> view \<Rightarrow> string \<Rightarrow> bool" where
  "acc_rel a V cid \<longleftrightarrow>
     (\<forall>l \<in> {SUPPORT, REFUTE}.
        side_rel (get_side l a) (witnesses V cid l) (witness_hash V) (witness_score V))"

lemma get_put_side [simp]:
  "get_side l (put_side l s a) = s"
  "l \<in> {SUPPORT, REFUTE} \<Longrightarrow> l' \<in> {SUPPORT, REFUTE} \<Longrightarrow> l \<noteq> l' \<Longrightarrow>
     get_side l (put_side l' s a) = get_side l a"
  by (auto simp: get_side_def put_side_def)

lemma witnesses_mem: "i \<in> witnesses V cid l \<longleftrightarrow>
    (\<exists>c. V i = Some c \<and> co_claim_id c = cid \<and> co_label c = l)"
  by (simp add: witnesses_def)

lemma witnesses_add:
  assumes "V i = None"
  shows "witnesses (V(i \<mapsto> c)) cid l =
     (if co_claim_id c = cid \<and> co_label c = l then insert i (witnesses V cid l) else witnesses V cid l)"
  using assms by (auto simp: witnesses_mem split: if_splits)

lemma witnesses_remove:
  assumes "V i = Some c"
  shows "witnesses (V(i := None)) cid l =
     (if co_claim_id c = cid \<and> co_label c = l then witnesses V cid l - {i} else witnesses V cid l)"
  using assms by (auto simp: witnesses_mem split: if_splits)

lemma witness_values_update [simp]:
  "j \<noteq> i \<Longrightarrow> witness_hash (V(i := x)) j = witness_hash V j"
  "j \<noteq> i \<Longrightarrow> witness_score (V(i := x)) j = witness_score V j"
  "witness_hash (V(i \<mapsto> c)) i = co_text_hash c"
  "witness_score (V(i \<mapsto> c)) i = co_score c"
  by (simp_all add: witness_hash_def witness_score_def)

lemma new_accumulator_rel:
  assumes "\<And>l. witnesses V cid l = {}"
  shows "acc_rel new_accumulator V cid"
  by (simp add: acc_rel_def assms new_accumulator_def get_side_def side_empty)

lemma acc_rel_update_other:
  assumes "acc_rel a V cid" and "\<And>l. witnesses (V(i := x)) cid l = witnesses V cid l"
    and "\<And>l. i \<notin> witnesses V cid l"
  shows "acc_rel a (V(i := x)) cid"
proof -
  have "side_rel (get_side l a) (witnesses V cid l) (witness_hash (V(i := x))) (witness_score (V(i := x)))"
    if "l \<in> {SUPPORT, REFUTE}" for l
  proof (rule side_rel_cong [of _ _ "witness_hash V" "witness_score V"])
    show "side_rel (get_side l a) (witnesses V cid l) (witness_hash V) (witness_score V)"
      using assms(1) that by (auto simp: acc_rel_def)
  qed (use assms(3) [of l] in \<open>metis witness_values_update(1,2)\<close>)+
  then show ?thesis unfolding acc_rel_def assms(2) by blast
qed

lemma acc_rel_add:
  assumes rel: "acc_rel a V cid" and fresh: "V i = None"
    and c: "co_observation_id c = i" "co_claim_id c = cid" "co_label c \<in> {SUPPORT, REFUTE}"
  shows "acc_rel (put_side (co_label c) (fst (side_add c (get_side (co_label c) a))) a) (V(i \<mapsto> c)) cid"
  unfolding acc_rel_def
proof
  fix l assume l: "l \<in> {SUPPORT, REFUTE}"
  have notin: "i \<notin> witnesses V cid k" for k using fresh by (simp add: witnesses_mem)
  have old: "side_rel (get_side l a) (witnesses V cid l) (witness_hash (V(i \<mapsto> c))) (witness_score (V(i \<mapsto> c)))"
  proof (rule side_rel_cong [of _ _ "witness_hash V" "witness_score V"])
    show "side_rel (get_side l a) (witnesses V cid l) (witness_hash V) (witness_score V)"
      using rel l by (auto simp: acc_rel_def)
  qed (use notin [of l] in \<open>metis witness_values_update(1,2)\<close>)+
  show "side_rel (get_side l (put_side (co_label c) (fst (side_add c (get_side (co_label c) a))) a))
      (witnesses (V(i \<mapsto> c)) cid l) (witness_hash (V(i \<mapsto> c))) (witness_score (V(i \<mapsto> c)))"
  proof (cases "co_label c = l")
    case True
    then show ?thesis
      using side_add_rel [OF old c(1) notin] c fresh by (simp add: witnesses_add)
  next
    case False
    then show ?thesis using old c l fresh by (auto simp: witnesses_add)
  qed
qed

lemma acc_rel_remove:
  assumes rel: "acc_rel a V cid" and V: "V i = Some c"
    and c: "co_observation_id c = i" "co_claim_id c = cid" "co_label c \<in> {SUPPORT, REFUTE}"
  shows "\<exists>s crossed. side_remove c (get_side (co_label c) a) = Inr (s, crossed) \<and>
     acc_rel (put_side (co_label c) s a) (V(i := None)) cid"
proof -
  have mem: "i \<in> witnesses V cid (co_label c)" using V c by (simp add: witnesses_mem)
  have vals: "witness_hash V i = co_text_hash c" "witness_score V i = co_score c"
    using V by (simp_all add: witness_hash_def witness_score_def)
  have "side_rel (get_side (co_label c) a) (witnesses V cid (co_label c)) (witness_hash V) (witness_score V)"
    using rel c by (auto simp: acc_rel_def)
  from side_remove_rel [OF this c(1) mem vals] obtain s crossed where
    s: "side_remove c (get_side (co_label c) a) = Inr (s, crossed)"
      "side_rel s (witnesses V cid (co_label c) - {i}) (witness_hash V) (witness_score V)" by blast
  have "acc_rel (put_side (co_label c) s a) (V(i := None)) cid"
    unfolding acc_rel_def
  proof
    fix l assume l: "l \<in> {SUPPORT, REFUTE}"
    have "side_rel (get_side l (put_side (co_label c) s a)) (witnesses (V(i := None)) cid l)
        (witness_hash V) (witness_score V)"
    proof (cases "co_label c = l")
      case True
      then show ?thesis using s(2) c V by (simp add: witnesses_remove)
    next
      case False
      then show ?thesis using rel l c V by (auto simp: witnesses_remove acc_rel_def)
    qed
    then show "side_rel (get_side l (put_side (co_label c) s a)) (witnesses (V(i := None)) cid l)
        (witness_hash (V(i := None))) (witness_score (V(i := None)))"
    proof (rule side_rel_cong)
      fix j assume "j \<in> witnesses (V(i := None)) cid l"
      then have "j \<noteq> i" by (auto simp: witnesses_mem)
      then show "witness_hash V j = witness_hash (V(i := None)) j"
        "witness_score V j = witness_score (V(i := None)) j" by simp_all
    qed
  qed
  with s(1) show ?thesis by blast
qed

text \<open>The claim state read off an accumulator is the state of the view.\<close>

lemma side_counts_length:
  assumes "side_rel s W h f" shows "length (side_counts s) = card (h ` W)"
proof -
  note s = side_relD [OF assms]
  have "dom (dget (side_counts s)) = h ` W"
    by (rule set_eqI) (simp add: domIff s(3))
  then have "set (dkeys (side_counts s)) = h ` W" unfolding set_dkeys .
  then show ?thesis using s(2) by (metis dict_ok_def distinct_card length_map)
qed

lemma claim_status_of_card:
  assumes "finite S" and "finite T"
  shows "claim_status_of (int (card (f ` S))) (int (card (g ` T))) = status_of_flags (S \<noteq> {}) (T \<noteq> {})"
  using assms by (simp add: claim_status_of_def status_of_flags_def card_gt_0_iff)

lemma state_from_accumulator_value_view:
  assumes "acc_rel a V cid"
  shows "\<exists>a'. state_from_accumulator_value cid a = (view_claim_state V cid, a') \<and> acc_rel a' V cid"
proof -
  from assms have S: "side_rel (get_side SUPPORT a) (witnesses V cid SUPPORT) (witness_hash V) (witness_score V)"
    and R: "side_rel (get_side REFUTE a) (witnesses V cid REFUTE) (witness_hash V) (witness_score V)"
    by (simp_all add: acc_rel_def)
  have max: "\<exists>m'. sm_maximum m = (best_score V cid l, m') \<and>
      sm_rel m' (image_mset (witness_score V) (mset_set (witnesses V cid l)))"
    if "sm_rel m (image_mset (witness_score V) (mset_set (witnesses V cid l)))"
      "finite (witnesses V cid l)" for m l
  proof -
    have "image_mset (witness_score V) (mset_set (witnesses V cid l)) = {#} \<longleftrightarrow> witnesses V cid l = {}"
      using that(2) by (simp add: mset_set_empty_iff)
    then show ?thesis
      using sm_maximum_rel [OF that(1)] that(2) by (cases "witnesses V cid l = {}") (auto simp: best_score_def)
  qed
  from max [of "support_scores a" SUPPORT] side_relD(1,6) [OF S] obtain ss where
    ss: "sm_maximum (support_scores a) = (best_score V cid SUPPORT, ss)"
      "sm_rel ss (image_mset (witness_score V) (mset_set (witnesses V cid SUPPORT)))"
    by (auto simp: get_side_def)
  from max [of "refute_scores a" REFUTE] side_relD(1,6) [OF R] obtain rs where
    rs: "sm_maximum (refute_scores a) = (best_score V cid REFUTE, rs)"
      "sm_rel rs (image_mset (witness_score V) (mset_set (witnesses V cid REFUTE)))"
    by (auto simp: get_side_def)
  have len: "length (support_hash_counts a) = card (witness_hash V ` witnesses V cid SUPPORT)"
    "length (refute_hash_counts a) = card (witness_hash V ` witnesses V cid REFUTE)"
    using side_counts_length [OF S] side_counts_length [OF R] by (simp_all add: get_side_def)
  have ids: "support_observation_ids a = witnesses V cid SUPPORT"
    "refute_observation_ids a = witnesses V cid REFUTE"
    using side_relD(5) [OF S] side_relD(5) [OF R] by (simp_all add: get_side_def)
  let ?a = "a\<lparr>support_scores := ss, refute_scores := rs\<rparr>"
  have "state_from_accumulator_value cid a = (view_claim_state V cid, ?a)"
    using side_relD(1) [OF S] side_relD(1) [OF R]
    by (simp add: state_from_accumulator_value_def ss rs len ids view_claim_state_def
        claim_status_of_card)
  moreover have "acc_rel ?a V cid"
    using S R ss(2) rs(2) by (simp add: acc_rel_def side_rel_def get_side_def)
  ultimately show ?thesis by blast
qed

end
