(* ===== verification/GL_EngineSteps.thy ===== *)
theory GL_EngineSteps
  imports GL_EngineBase
begin

text \<open>
  What an update does to the represented view before the derived states are refreshed: the
  invariant of the update context, and its preservation by activation, deactivation, document
  withdrawal and threshold changes.
\<close>

section \<open>Invariants of an update\<close>

text \<open>The view of active observations \<open>A\<close> with labels \<open>L\<close> and chunk hashes \<open>H\<close>.\<close>

definition view_of ::
    "(string \<rightharpoonup> semantic_observation) \<Rightarrow> (string \<rightharpoonup> verification_label) \<Rightarrow> (string \<Rightarrow> string) \<Rightarrow> view" where
  "view_of A L H i =
     (case (A i, L i) of
        (Some ob, Some l) \<Rightarrow>
          if l = NEUTRAL then None else Some (make_contribution ob (H (ob_chunk_version_id ob)) l)
      | _ \<Rightarrow> None)"

lemma view_of_update:
  "view_of (A(i \<mapsto> ob)) (L(i \<mapsto> l)) H =
     (view_of A L H)(i := if l = NEUTRAL then None
                          else Some (make_contribution ob (H (ob_chunk_version_id ob)) l))"
  "view_of (A(i := None)) (L(i := None)) H = (view_of A L H)(i := None)"
  by (rule ext, simp add: view_of_def)+

lemma view_of_relabel:
  assumes "A i = Some ob"
  shows "view_of A (L(i \<mapsto> l)) H =
     (view_of A L H)(i := if l = NEUTRAL then None
                          else Some (make_contribution ob (H (ob_chunk_version_id ob)) l))"
  using assms by (intro ext) (simp add: view_of_def)

lemma view_of_None: "A i = None \<Longrightarrow> view_of A L H i = None"
  by (simp add: view_of_def)

lemma view_of_Some:
  assumes "view_of A L H i = Some c"
  shows "\<exists>ob l. A i = Some ob \<and> L i = Some l \<and> l \<noteq> NEUTRAL \<and>
     c = make_contribution ob (H (ob_chunk_version_id ob)) l"
  using assms by (auto simp: view_of_def split: option.splits if_splits)

text \<open>Contributions and accumulators represent the view.\<close>

definition core_rel :: "engine \<Rightarrow> view \<Rightarrow> bool" where
  "core_rel e V \<longleftrightarrow>
     dict_ok (en_contributions e) \<and> dget (en_contributions e) = V \<and>
     dict_ok (en_claim_accumulators e) \<and>
     (\<forall>cid a. dget (en_claim_accumulators e) cid = Some a \<longrightarrow> acc_rel a V cid) \<and>
     (\<forall>i c. V i = Some c \<longrightarrow> co_observation_id c = i \<and> co_label c \<in> {SUPPORT, REFUTE} \<and>
        co_claim_id c \<in> dom (dget (en_claim_accumulators e)))"

lemma core_relD:
  assumes "core_rel e V"
  shows "dict_ok (en_contributions e)" and "dget (en_contributions e) = V"
    and "dict_ok (en_claim_accumulators e)"
    and "dget (en_claim_accumulators e) cid = Some a \<Longrightarrow> acc_rel a V cid"
    and "V i = Some c \<Longrightarrow> co_observation_id c = i"
    and "V i = Some c \<Longrightarrow> co_label c \<in> {SUPPORT, REFUTE}"
    and "V i = Some c \<Longrightarrow> co_claim_id c \<in> dom (dget (en_claim_accumulators e))"
  using assms unfolding core_rel_def by (elim conjE; metis)+

text \<open>Labels and score index represent the active observations.\<close>

definition active_rel ::
    "engine \<Rightarrow> (string \<rightharpoonup> semantic_observation) \<Rightarrow> (string \<rightharpoonup> verification_label) \<Rightarrow> bool" where
  "active_rel e A L \<longleftrightarrow>
     dict_ok (en_active_labels e) \<and> dget (en_active_labels e) = L \<and> dom L = dom A \<and>
     index_stores (en_score_index e) A \<and>
     (\<forall>i ob. A i = Some ob \<longrightarrow> ob_observation_id ob = i \<and> ob_subject_kind ob = CLAIM \<and>
        ob_subject_id ob \<in> dom (dget (en_claim_accumulators e)))"

text \<open>An update changes these four fields only, and registers no claim.\<close>

definition base_frame :: "engine \<Rightarrow> engine \<Rightarrow> bool" where
  "base_frame e0 e \<longleftrightarrow>
     dkeys (en_claim_accumulators e) = dkeys (en_claim_accumulators e0) \<and>
     en_claim_states e = en_claim_states e0 \<and> en_certificates e = en_certificates e0 \<and>
     en_answer_status_counts e = en_answer_status_counts e0 \<and>
     en_answer_states e = en_answer_states e0 \<and> en_claim_to_answer e = en_claim_to_answer e0 \<and>
     en_claim_required e = en_claim_required e0 \<and>
     en_answer_to_claims e = en_answer_to_claims e0 \<and>
     en_answer_required_counts e = en_answer_required_counts e0 \<and>
     en_state_revision e = en_state_revision e0 \<and> en_last_stats e = en_last_stats e0"

lemma base_frame_refl: "base_frame e e"
  by (simp add: base_frame_def)

lemma base_frame_dom:
  "base_frame e0 e \<Longrightarrow> dom (dget (en_claim_accumulators e)) = dom (dget (en_claim_accumulators e0))"
  unfolding set_dkeys [symmetric] by (simp only: base_frame_def)

text \<open>Every change of the view is at a claim that is marked dirty.\<close>

definition dirty_rel :: "view \<Rightarrow> view \<Rightarrow> string set \<Rightarrow> bool" where
  "dirty_rel V0 V D \<longleftrightarrow>
     (\<forall>i c. V0 i = Some c \<or> V i = Some c \<longrightarrow> V i \<noteq> V0 i \<longrightarrow> co_claim_id c \<in> D)"

lemma dirty_rel_refl: "dirty_rel V V D"
  by (simp add: dirty_rel_def)

lemma dirty_rel_add:
  "dirty_rel V0 V D \<Longrightarrow> V i = None \<Longrightarrow> dirty_rel V0 (V(i \<mapsto> c)) (insert (co_claim_id c) D)"
  by (auto simp: dirty_rel_def)

lemma dirty_rel_remove:
  assumes "dirty_rel V0 V D" and "V i = Some c"
  shows "dirty_rel V0 (V(i := None)) (insert (co_claim_id c) D)"
  unfolding dirty_rel_def
proof (intro allI impI)
  fix j d assume d: "V0 j = Some d \<or> (V(i := None)) j = Some d" "(V(i := None)) j \<noteq> V0 j"
  show "co_claim_id d \<in> insert (co_claim_id c) D"
  proof (cases "j = i \<and> V i = V0 i")
    case True
    then show ?thesis using d(1) assms(2) by auto
  next
    case False
    then have "V0 j = Some d \<or> V j = Some d" "V j \<noteq> V0 j" using d by (auto split: if_splits)
    then show ?thesis using assms(1) unfolding dirty_rel_def by blast
  qed
qed

lemma dirty_rel_claim_state:
  assumes "dirty_rel V0 V D" and "cid \<notin> D"
  shows "view_claim_state V cid = view_claim_state V0 cid"
proof -
  have eq: "(\<exists>c. V i = Some c \<and> co_claim_id c = cid) \<Longrightarrow> V i = V0 i"
    "(\<exists>c. V0 i = Some c \<and> co_claim_id c = cid) \<Longrightarrow> V i = V0 i" for i
    using assms unfolding dirty_rel_def by metis+
  have w: "witnesses V cid l = witnesses V0 cid l" for l
    unfolding witnesses_def by (rule Collect_cong) (use eq in metis)
  have "V i = V0 i" if "i \<in> witnesses V0 cid l" for i l
    using that eq(2) by (auto simp: witnesses_mem)
  then have "witness_hash V ` witnesses V0 cid l = witness_hash V0 ` witnesses V0 cid l"
    "witness_score V ` witnesses V0 cid l = witness_score V0 ` witnesses V0 cid l" for l
    by (auto simp: witness_hash_def witness_score_def intro!: image_cong)
  then show ?thesis unfolding view_claim_state_def best_score_def w by simp
qed

text \<open>
  The reported shift work stays below the reported bound.  The slack \<open>s\<close> is 0 during an update;
  \<open>from_repository\<close>, which throws its statistics away, runs with another one.
\<close>

definition shift_bound :: "nat \<Rightarrow> mutable_stats \<Rightarrow> int" where
  "shift_bound s m =
     mt_score_index_point_updates m *
     int (update_work_bound (nat (mt_score_index_entries_before m + mt_active_observations_added m) + s))"

definition work_rel :: "nat \<Rightarrow> mutable_stats \<Rightarrow> nat \<Rightarrow> bool" where
  "work_rel s m n \<longleftrightarrow>
     0 \<le> mt_score_index_point_updates m \<and> 0 \<le> mt_score_index_entries_before m \<and>
     0 \<le> mt_active_observations_added m \<and>
     int n \<le> mt_score_index_entries_before m + mt_active_observations_added m + int s \<and>
     mt_score_index_shift_work m \<le> shift_bound s m"

lemma work_rel_step:
  assumes rel: "work_rel s m n" and w: "w \<le> 2 * update_work_bound n"
    and m': "mt_score_index_shift_work m' = mt_score_index_shift_work m + int w"
      "mt_score_index_point_updates m' = mt_score_index_point_updates m + 2"
      "mt_score_index_entries_before m' = mt_score_index_entries_before m"
      "mt_active_observations_added m' = mt_active_observations_added m + int k"
    and n': "n' \<le> n + k"
  shows "work_rel s m' n'"
proof -
  let ?N = "nat (mt_score_index_entries_before m + mt_active_observations_added m) + s"
  let ?N' = "nat (mt_score_index_entries_before m' + mt_active_observations_added m') + s"
  have N: "n \<le> ?N" "?N \<le> ?N'" using rel m' by (auto simp: work_rel_def)
  have "update_work_bound n \<le> update_work_bound ?N'" "update_work_bound ?N \<le> update_work_bound ?N'"
    using N by (auto intro: update_work_bound_mono)
  moreover have "shift_bound s m \<le> mt_score_index_point_updates m * int (update_work_bound ?N')"
    using rel calculation(2) unfolding shift_bound_def work_rel_def by (intro mult_left_mono) auto
  ultimately have "mt_score_index_shift_work m' \<le> shift_bound s m'"
    using rel w unfolding shift_bound_def [of s m'] m'(1,2) work_rel_def by (simp add: distrib_right)
  then show ?thesis using rel m' n' by (auto simp: work_rel_def)
qed

lemma shift_bound_cong:
  assumes "mt_score_index_point_updates m' = mt_score_index_point_updates m"
    and "mt_score_index_entries_before m' = mt_score_index_entries_before m"
    and "mt_active_observations_added m' = mt_active_observations_added m"
    and "mt_score_index_shift_work m' = mt_score_index_shift_work m"
  shows "work_rel s m' n = work_rel s m n"
  using assms by (simp add: work_rel_def shift_bound_def)

definition ctx_inv ::
    "nat \<Rightarrow> engine \<Rightarrow> view \<Rightarrow> (string \<rightharpoonup> semantic_observation) \<Rightarrow> (string \<rightharpoonup> verification_label) \<Rightarrow>
      (string \<Rightarrow> string) \<Rightarrow> update_ctx \<Rightarrow> bool" where
  "ctx_inv s e0 V0 A L H cx \<longleftrightarrow>
     core_rel (cx_engine cx) (view_of A L H) \<and> active_rel (cx_engine cx) A L \<and>
     base_frame e0 (cx_engine cx) \<and> dirty_rel V0 (view_of A L H) (cx_dirty_claims cx) \<and>
     cx_dirty_claims cx \<subseteq> dom (dget (en_claim_accumulators e0)) \<and>
     work_rel s (cx_stats cx) (card (dom A))"

section \<open>Contributions\<close>

text \<open>
  \<open>contribution_step V V' cx cx'\<close>: the step changed the represented view from \<open>V\<close> to \<open>V'\<close> and
  nothing else but the dirty claims and the count of crossings.
\<close>

definition contribution_step :: "view \<Rightarrow> view \<Rightarrow> update_ctx \<Rightarrow> update_ctx \<Rightarrow> bool" where
  "contribution_step V V' cx cx' \<longleftrightarrow>
     core_rel (cx_engine cx') V' \<and>
     cx_engine cx' = (cx_engine cx)
       \<lparr>en_claim_accumulators := en_claim_accumulators (cx_engine cx'),
        en_contributions := en_contributions (cx_engine cx')\<rparr> \<and>
     dkeys (en_claim_accumulators (cx_engine cx')) = dkeys (en_claim_accumulators (cx_engine cx)) \<and>
     cx_stats cx' = (cx_stats cx)
       \<lparr>mt_distinct_hash_crossings := mt_distinct_hash_crossings (cx_stats cx')\<rparr> \<and>
     (\<exists>D \<subseteq> dom (dget (en_claim_accumulators (cx_engine cx))).
        cx_dirty_claims cx' = cx_dirty_claims cx \<union> D) \<and>
     (\<forall>V0. dirty_rel V0 V (cx_dirty_claims cx) \<longrightarrow> dirty_rel V0 V' (cx_dirty_claims cx'))"

lemma contribution_step_refl: "core_rel (cx_engine cx) V \<Longrightarrow> contribution_step V V cx cx"
  by (simp add: contribution_step_def exI [of _ "{}"])

lemma dkeys_dset_same: "dget d k = Some v \<Longrightarrow> dkeys (dset k w d) = dkeys d"
  by (simp add: dkeys_dset) (metis domI set_dkeys set_map)

lemma add_contribution_ok:
  assumes core: "core_rel e V" and fresh: "V i = None"
    and c: "co_observation_id c = i" "co_label c \<in> {SUPPORT, REFUTE}"
      "co_claim_id c \<in> dom (dget (en_claim_accumulators e))"
    and cx: "cx_engine cx = e"
  shows "\<exists>cx'. add_contribution c
       (cx\<lparr>cx_engine := e\<lparr>en_contributions := dset i c (en_contributions e)\<rparr>\<rparr>) = Inr cx' \<and>
     contribution_step V (V(i \<mapsto> c)) cx cx'"
proof -
  note e = core_relD [OF core]
  let ?cid = "co_claim_id c"
  from c(3) obtain a where a: "dget (en_claim_accumulators e) ?cid = Some a" by blast
  obtain s crossed where s: "side_add c (get_side (co_label c) a) = (s, crossed)" by fastforce
  let ?acs = "dset ?cid (put_side (co_label c) s a) (en_claim_accumulators e)"
  let ?e = "e\<lparr>en_claim_accumulators := ?acs, en_contributions := dset i c (en_contributions e)\<rparr>"
  have keys: "dkeys ?acs = dkeys (en_claim_accumulators e)" using a by (rule dkeys_dset_same)
  then have dom: "dom (dget ?acs) = dom (dget (en_claim_accumulators e))" by (metis set_dkeys)
  have acc: "acc_rel b (V(i \<mapsto> c)) cid" if "dget ?acs cid = Some b" for b cid
  proof (cases "cid = ?cid")
    case True
    have "acc_rel (put_side (co_label c) (fst (side_add c (get_side (co_label c) a))) a) (V(i \<mapsto> c)) ?cid"
      by (rule acc_rel_add [OF e(4) [OF a] fresh c(1) refl c(2)])
    then show ?thesis using True that s by simp
  next
    case False
    then show ?thesis
      using that e(4) [of cid b] fresh
      by (intro acc_rel_update_other) (auto simp: witnesses_add witnesses_mem)
  qed
  have core': "core_rel ?e (V(i \<mapsto> c))"
    unfolding core_rel_def using e(1-3,5-7) c acc dom by auto
  let ?cx = "\<lparr>cx_engine = ?e, cx_dirty_claims = insert ?cid (cx_dirty_claims cx),
     cx_stats = (cx_stats cx)\<lparr>mt_distinct_hash_crossings :=
       mt_distinct_hash_crossings (cx_stats cx) + of_bool crossed\<rparr>\<rparr>"
  have "add_contribution c
      (cx\<lparr>cx_engine := e\<lparr>en_contributions := dset i c (en_contributions e)\<rparr>\<rparr>) = Inr ?cx"
    using a s by (simp add: add_contribution_def Let_def)
  moreover have "contribution_step V (V(i \<mapsto> c)) cx ?cx"
    unfolding contribution_step_def
  proof (intro conjI)
    show "\<exists>D\<subseteq>dom (dget (en_claim_accumulators (cx_engine cx))).
        cx_dirty_claims ?cx = cx_dirty_claims cx \<union> D"
      using c(3) cx by (intro exI [of _ "{?cid}"]) simp
  qed (use core' keys cx dirty_rel_add fresh in auto)
  ultimately show ?thesis by blast
qed

lemma withdraw_contribution_ok:
  assumes core: "core_rel (cx_engine cx) V"
  shows "\<exists>cx'. withdraw_contribution i cx = Inr cx' \<and> contribution_step V (V(i := None)) cx cx'"
proof (cases "V i")
  case None
  then have "V(i := None) = V" by auto
  then show ?thesis
    using None core core_relD(2) [OF core] contribution_step_refl [OF core]
    by (simp add: withdraw_contribution_def Let_def)
next
  case (Some c)
  let ?e = "cx_engine cx"
  note e = core_relD [OF core]
  let ?cid = "co_claim_id c"
  from e(7) [OF Some] obtain a where a: "dget (en_claim_accumulators ?e) ?cid = Some a" by blast
  from acc_rel_remove [OF e(4) [OF a] Some e(5) [OF Some] refl e(6) [OF Some]] obtain s crossed where
    s: "side_remove c (get_side (co_label c) a) = Inr (s, crossed)"
      "acc_rel (put_side (co_label c) s a) (V(i := None)) ?cid" by blast
  let ?acs = "dset ?cid (put_side (co_label c) s a) (en_claim_accumulators ?e)"
  let ?e' = "?e\<lparr>en_claim_accumulators := ?acs, en_contributions := ddel i (en_contributions ?e)\<rparr>"
  have keys: "dkeys ?acs = dkeys (en_claim_accumulators ?e)" using a by (rule dkeys_dset_same)
  then have dom: "dom (dget ?acs) = dom (dget (en_claim_accumulators ?e))" by (metis set_dkeys)
  have acc: "acc_rel b (V(i := None)) cid" if "dget ?acs cid = Some b" for b cid
  proof (cases "cid = ?cid")
    case True
    then show ?thesis using that s(2) by simp
  next
    case False
    then show ?thesis
      using that e(4) [of cid b] Some
      by (intro acc_rel_update_other) (auto simp: witnesses_remove witnesses_mem)
  qed
  have core': "core_rel ?e' (V(i := None))"
    unfolding core_rel_def using e(1-3,5-7) acc dom by (auto split: if_splits)
  let ?cx = "\<lparr>cx_engine = ?e', cx_dirty_claims = insert ?cid (cx_dirty_claims cx),
     cx_stats = (cx_stats cx)\<lparr>mt_distinct_hash_crossings :=
       mt_distinct_hash_crossings (cx_stats cx) + of_bool crossed\<rparr>\<rparr>"
  have "withdraw_contribution i cx = Inr ?cx"
    using a s Some e(2) by (simp add: withdraw_contribution_def remove_contribution_def Let_def)
  moreover have "contribution_step V (V(i := None)) cx ?cx"
    unfolding contribution_step_def
  proof (intro conjI)
    show "\<exists>D\<subseteq>dom (dget (en_claim_accumulators ?e)).
        cx_dirty_claims ?cx = cx_dirty_claims cx \<union> D"
      using a by (intro exI [of _ "{?cid}"]) auto
  qed (use core' keys dirty_rel_remove Some in auto)
  ultimately show ?thesis by blast
qed

lemma contribute_ok:
  assumes core: "core_rel (cx_engine cx) V" and fresh: "V (ob_observation_id ob) = None"
    and ob: "ob_subject_kind ob = CLAIM"
      "ob_subject_id ob \<in> dom (dget (en_claim_accumulators (cx_engine cx)))"
    and chunk: "dget (chunk_versions r) (ob_chunk_version_id ob) = Some cv" "cv_text_hash cv = h"
  shows "\<exists>cx'. contribute ob r l cx = Inr cx' \<and>
     contribution_step V
       (V(ob_observation_id ob := if l = NEUTRAL then None else Some (make_contribution ob h l))) cx cx'"
proof (cases "l = NEUTRAL")
  case True
  have "V(ob_observation_id ob := None) = V" using fresh by auto
  then show ?thesis using True ob contribution_step_refl [OF core] by (simp add: contribute_def)
next
  case False
  let ?c = "make_contribution ob h l"
  have "co_label ?c \<in> {SUPPORT, REFUTE}" using False by (cases l) (auto simp: make_contribution_def)
  moreover have "co_observation_id ?c = ob_observation_id ob" "co_claim_id ?c = ob_subject_id ob"
    by (simp_all add: make_contribution_def)
  ultimately show ?thesis
    using add_contribution_ok [OF core fresh, of ?c cx] False ob chunk
    by (simp add: contribute_def chunk_version_of_def Let_def)
qed

section \<open>Active observations\<close>

lemma contribution_step_frame:
  assumes "contribution_step V V' cx cx'"
  shows "en_active_labels (cx_engine cx') = en_active_labels (cx_engine cx)"
    and "en_score_index (cx_engine cx') = en_score_index (cx_engine cx)"
    and "dom (dget (en_claim_accumulators (cx_engine cx'))) = dom (dget (en_claim_accumulators (cx_engine cx)))"
    and "base_frame e0 (cx_engine cx) \<Longrightarrow> base_frame e0 (cx_engine cx')"
    and "work_rel s (cx_stats cx') n = work_rel s (cx_stats cx) n"
proof -
  from assms have e: "cx_engine cx' = (cx_engine cx)
       \<lparr>en_claim_accumulators := en_claim_accumulators (cx_engine cx'),
        en_contributions := en_contributions (cx_engine cx')\<rparr>"
    and keys: "dkeys (en_claim_accumulators (cx_engine cx')) = dkeys (en_claim_accumulators (cx_engine cx))"
    and st: "cx_stats cx' = (cx_stats cx)
       \<lparr>mt_distinct_hash_crossings := mt_distinct_hash_crossings (cx_stats cx')\<rparr>"
    by (simp_all only: contribution_step_def)
  show "en_active_labels (cx_engine cx') = en_active_labels (cx_engine cx)"
    "en_score_index (cx_engine cx') = en_score_index (cx_engine cx)"
    by (subst e, simp)+
  show "dom (dget (en_claim_accumulators (cx_engine cx'))) = dom (dget (en_claim_accumulators (cx_engine cx)))"
    using keys unfolding set_dkeys [symmetric] by simp
  show "base_frame e0 (cx_engine cx')" if "base_frame e0 (cx_engine cx)"
    using that keys unfolding base_frame_def by (subst (2 3 4 5 6 7 8 9 10 11) e) simp
  show "work_rel s (cx_stats cx') n = work_rel s (cx_stats cx) n"
    by (rule shift_bound_cong) (subst st, simp)+
qed

lemma contribution_step_ctx:
  assumes step: "contribution_step (view_of A0 L0 H) V' cx cx'" and V': "V' = view_of A L H"
    and act: "active_rel (cx_engine cx) A L" and frame: "base_frame e0 (cx_engine cx)"
    and dirty: "dirty_rel V0 (view_of A0 L0 H) (cx_dirty_claims cx)"
      "cx_dirty_claims cx \<subseteq> dom (dget (en_claim_accumulators e0))"
    and work: "work_rel s (cx_stats cx) (card (dom A))"
  shows "ctx_inv s e0 V0 A L H cx'"
proof -
  note f = contribution_step_frame [OF step]
  have "core_rel (cx_engine cx') (view_of A L H)" using step V' by (simp add: contribution_step_def)
  moreover have "active_rel (cx_engine cx') A L" using act by (simp add: active_rel_def f)
  moreover have "base_frame e0 (cx_engine cx')" using frame by (rule f(4))
  moreover have "dirty_rel V0 (view_of A L H) (cx_dirty_claims cx')"
    using step dirty(1) V' by (simp add: contribution_step_def)
  moreover have "cx_dirty_claims cx' \<subseteq> dom (dget (en_claim_accumulators e0))"
    using step dirty(2) base_frame_dom [OF frame] by (auto simp: contribution_step_def)
  ultimately show ?thesis using work by (simp add: ctx_inv_def f(5))
qed

lemma activate_observation_ok:
  assumes inv: "ctx_inv s e0 V0 A L H cx" and fresh: "A (ob_observation_id ob) = None"
    and ob: "ob_subject_kind ob = CLAIM" "ob_subject_id ob \<in> dom (dget (en_claim_accumulators e0))"
    and chunk: "dget (chunk_versions r) (ob_chunk_version_id ob) = Some cv"
      "cv_text_hash cv = H (ob_chunk_version_id ob)"
  shows "\<exists>cx'. activate_observation ob r p cx = Inr cx' \<and>
     ctx_inv s e0 V0 (A(ob_observation_id ob \<mapsto> ob)) (L(ob_observation_id ob \<mapsto> decide ob p)) H cx'"
proof -
  let ?e = "cx_engine cx" and ?i = "ob_observation_id ob" and ?l = "decide ob p" and ?st = "cx_stats cx"
  from inv have core: "core_rel ?e (view_of A L H)" and act: "active_rel ?e A L"
    and frame: "base_frame e0 ?e" and dirty: "dirty_rel V0 (view_of A L H) (cx_dirty_claims cx)"
      "cx_dirty_claims cx \<subseteq> dom (dget (en_claim_accumulators e0))"
    and work: "work_rel s ?st (card (dom A))"
    by (simp_all add: ctx_inv_def)
  have nolabel: "\<not> dmem ?i (en_active_labels ?e)"
    using act fresh by (metis active_rel_def dmem_def domIff)
  from act have "index_stores (en_score_index ?e) A" by (simp add: active_rel_def)
  note fin = index_size(2) [OF this]
  from index_add_ok [OF \<open>index_stores (en_score_index ?e) A\<close> fresh] obtain ix w where
    ix: "index_add (en_score_index ?e) ob = Inr (ix, w)" "index_stores ix (A(?i \<mapsto> ob))"
      "w \<le> 2 * update_work_bound (card (dom A))" by blast
  let ?cx = "cx\<lparr>cx_engine := ?e\<lparr>en_active_labels := dset ?i ?l (en_active_labels ?e),
                                en_score_index := ix\<rparr>,
                cx_stats := ?st\<lparr>mt_score_index_shift_work := mt_score_index_shift_work ?st + int w,
                               mt_score_index_point_updates := mt_score_index_point_updates ?st + 2,
                               mt_active_observations_added := mt_active_observations_added ?st + 1\<rparr>\<rparr>"
  have core1: "core_rel (cx_engine ?cx) (view_of A L H)"
    using core by (simp add: core_rel_def)
  have subj: "ob_subject_id ob \<in> dom (dget (en_claim_accumulators (cx_engine ?cx)))"
    using ob(2) base_frame_dom [OF frame] by simp
  from contribute_ok [OF core1 view_of_None [of A ?i L H, OF fresh] ob(1) subj chunk, of ?l]
  obtain cx' where cx': "contribute ob r ?l ?cx = Inr cx'"
    and step: "contribution_step (view_of A L H) ((view_of A L H)(?i := if ?l = NEUTRAL then None
        else Some (make_contribution ob (H (ob_chunk_version_id ob)) ?l))) ?cx cx'"
    by blast
  have "activate_observation ob r p cx = Inr cx'"
    using nolabel ix(1) cx' by (simp add: activate_observation_def Let_def)
  moreover have "ctx_inv s e0 V0 (A(?i \<mapsto> ob)) (L(?i \<mapsto> ?l)) H cx'"
  proof (rule contribution_step_ctx [OF step view_of_update(1) [symmetric]])
    show "active_rel (cx_engine ?cx) (A(?i \<mapsto> ob)) (L(?i \<mapsto> ?l))"
      using act ix(2) ob base_frame_dom [OF frame] by (auto simp: active_rel_def)
    show "base_frame e0 (cx_engine ?cx)" using frame by (simp add: base_frame_def)
    have "card (dom (A(?i \<mapsto> ob))) = card (dom A) + 1" using fresh fin by (simp add: domIff)
    then show "work_rel s (cx_stats ?cx) (card (dom (A(?i \<mapsto> ob))))"
      by (intro work_rel_step [OF work ix(3), of _ 1]) simp_all
  qed (use dirty in simp_all)
  ultimately show ?thesis by blast
qed

lemma deactivate_observation_ok:
  assumes inv: "ctx_inv s e0 V0 A L H cx"
    and ob: "A (ob_observation_id ob) = Some ob \<or> A (ob_observation_id ob) = None"
  shows "\<exists>cx'. deactivate_observation ob cx = Inr cx' \<and>
     ctx_inv s e0 V0 (A(ob_observation_id ob := None)) (L(ob_observation_id ob := None)) H cx'"
proof -
  let ?e = "cx_engine cx" and ?i = "ob_observation_id ob" and ?st = "cx_stats cx"
  from inv have core: "core_rel ?e (view_of A L H)" and act: "active_rel ?e A L"
    and frame: "base_frame e0 ?e" and dirty: "dirty_rel V0 (view_of A L H) (cx_dirty_claims cx)"
      "cx_dirty_claims cx \<subseteq> dom (dget (en_claim_accumulators e0))"
    and work: "work_rel s ?st (card (dom A))"
    by (simp_all add: ctx_inv_def)
  from act have labels: "dget (en_active_labels ?e) = L" "dom L = dom A" by (simp_all add: active_rel_def)
  show ?thesis
  proof (cases "A ?i")
    case None
    then have "L ?i = None" using labels by (metis domIff)
    then have "A(?i := None) = A" "L(?i := None) = L" using None by auto
    then show ?thesis
      using inv \<open>L ?i = None\<close> labels by (simp add: deactivate_observation_def Let_def dmem_def)
  next
    case (Some x)
    then have A: "A ?i = Some ob" using ob by simp
    then have label: "dmem ?i (en_active_labels ?e)" using labels by (metis dmem_def domIff option.distinct(1))
    from act have stores: "index_stores (en_score_index ?e) A" by (simp add: active_rel_def)
    note fin = index_size(2) [OF stores]
    from index_remove_ok [OF stores A] obtain ix w where
      ix: "index_remove (en_score_index ?e) ob = Inr (ix, w)" "index_stores ix (A(?i := None))"
        "w \<le> 2 * update_work_bound (card (dom A))" by blast
    let ?cx = "cx\<lparr>cx_engine := ?e\<lparr>en_active_labels := ddel ?i (en_active_labels ?e), en_score_index := ix\<rparr>,
              cx_stats := ?st\<lparr>mt_score_index_shift_work := mt_score_index_shift_work ?st + int w,
                             mt_score_index_point_updates := mt_score_index_point_updates ?st + 2,
                             mt_active_observations_removed :=
                               mt_active_observations_removed ?st + 1\<rparr>\<rparr>"
    have core1: "core_rel (cx_engine ?cx) (view_of A L H)"
      using core by (simp add: core_rel_def)
    from withdraw_contribution_ok [OF core1, of ?i] obtain cx' where
      cx': "withdraw_contribution ?i ?cx = Inr cx'"
      and step: "contribution_step (view_of A L H) ((view_of A L H)(?i := None)) ?cx cx'" by blast
    have "deactivate_observation ob cx = Inr cx'"
      using label ix(1) cx' by (simp add: deactivate_observation_def Let_def)
    moreover have "ctx_inv s e0 V0 (A(?i := None)) (L(?i := None)) H cx'"
    proof (rule contribution_step_ctx [OF step view_of_update(2) [symmetric]])
      show "active_rel (cx_engine ?cx) (A(?i := None)) (L(?i := None))"
        using act ix(2) by (auto simp: active_rel_def split: if_splits)
      show "base_frame e0 (cx_engine ?cx)" using frame by (simp add: base_frame_def)
      have "card (dom (A(?i := None))) \<le> card (dom A)" using fin by (intro card_mono) auto
      then show "work_rel s (cx_stats ?cx) (card (dom (A(?i := None))))"
        by (intro work_rel_step [OF work ix(3), of _ 0]) simp_all
    qed (use dirty in simp_all)
    ultimately show ?thesis by blast
  qed
qed

lemma relabel_candidate_ok:
  assumes inv: "ctx_inv s e0 V0 A L H cx" and A: "A i = Some ob"
    and ob: "dget (observations r) i = Some ob"
    and chunk: "dget (chunk_versions r) (ob_chunk_version_id ob) = Some cv"
      "cv_text_hash cv = H (ob_chunk_version_id ob)"
  shows "\<exists>cx'. relabel_candidate r q i cx = Inr cx' \<and> ctx_inv s e0 V0 A (L(i \<mapsto> decide ob q)) H cx'"
proof -
  let ?e = "cx_engine cx" and ?l = "decide ob q"
  from inv have core: "core_rel ?e (view_of A L H)" and act: "active_rel ?e A L"
    and frame: "base_frame e0 ?e" and dirty: "dirty_rel V0 (view_of A L H) (cx_dirty_claims cx)"
      "cx_dirty_claims cx \<subseteq> dom (dget (en_claim_accumulators e0))"
    and work: "work_rel s (cx_stats cx) (card (dom A))"
    by (simp_all add: ctx_inv_def)
  from act have labels: "dget (en_active_labels ?e) = L" "dom L = dom A"
    and id: "ob_observation_id ob = i" "ob_subject_kind ob = CLAIM"
      "ob_subject_id ob \<in> dom (dget (en_claim_accumulators ?e))"
    using A by (auto simp: active_rel_def)
  then obtain l where l: "L i = Some l" using A by (metis domD domI)
  show ?thesis
  proof (cases "l = ?l")
    case True
    then have "L(i \<mapsto> ?l) = L" using l by auto
    then show ?thesis
      using inv True l labels ob by (simp add: relabel_candidate_def observation_of_def)
  next
    case False
    let ?cx0 = "cx\<lparr>cx_stats := (cx_stats cx)\<lparr>mt_decision_flips := mt_decision_flips (cx_stats cx) + 1\<rparr>\<rparr>"
    have "core_rel (cx_engine ?cx0) (view_of A L H)" using core by simp
    from withdraw_contribution_ok [OF this, of i] obtain cx1 where
      cx1: "withdraw_contribution i ?cx0 = Inr cx1"
      and step1: "contribution_step (view_of A L H) ((view_of A L H)(i := None)) ?cx0 cx1" by blast
    note f = contribution_step_frame [OF step1]
    let ?L = "L(i \<mapsto> NEUTRAL)"
    have V1: "(view_of A L H)(i := None) = view_of A ?L H"
      by (simp add: view_of_relabel [of A i ob, OF A])
    have work0: "work_rel s (cx_stats ?cx0) (card (dom A))"
      using work shift_bound_cong [of "cx_stats ?cx0" "cx_stats cx"] by simp
    let ?cx2 = "cx1\<lparr>cx_engine := (cx_engine cx1)\<lparr>en_active_labels := dset i ?l (en_active_labels (cx_engine cx1))\<rparr>\<rparr>"
    have core2: "core_rel (cx_engine ?cx2) (view_of A ?L H)"
      using step1 V1 by (simp add: contribution_step_def core_rel_def)
    have none: "view_of A ?L H (ob_observation_id ob) = None" by (simp add: V1 [symmetric] id)
    have subj: "ob_subject_id ob \<in> dom (dget (en_claim_accumulators (cx_engine ?cx2)))"
      using id(3) f(3) by simp
    from contribute_ok [OF core2 none id(2) subj chunk, of ?l] obtain cx' where
      cx': "contribute ob r ?l ?cx2 = Inr cx'"
      and step2: "contribution_step (view_of A ?L H) ((view_of A ?L H)(i := if ?l = NEUTRAL then None
          else Some (make_contribution ob (H (ob_chunk_version_id ob)) ?l))) ?cx2 cx'"
      unfolding id(1) by blast
    have "relabel_candidate r q i cx = Inr cx'"
      using False l labels ob cx1 cx' by (simp add: relabel_candidate_def observation_of_def Let_def)
    moreover have "ctx_inv s e0 V0 A (L(i \<mapsto> ?l)) H cx'"
    proof (rule contribution_step_ctx [OF step2])
      show "(view_of A ?L H)(i := if ?l = NEUTRAL then None
          else Some (make_contribution ob (H (ob_chunk_version_id ob)) ?l)) = view_of A (L(i \<mapsto> ?l)) H"
        using view_of_relabel [of A i ob ?L ?l H, OF A] by simp
      show "active_rel (cx_engine ?cx2) A (L(i \<mapsto> ?l))"
        using act A f(1-3) by (auto simp: active_rel_def)
      show "base_frame e0 (cx_engine ?cx2)" using f(4) frame by (simp add: base_frame_def)
      show "dirty_rel V0 (view_of A ?L H) (cx_dirty_claims ?cx2)"
        using step1 dirty(1) V1 by (simp add: contribution_step_def)
      show "cx_dirty_claims ?cx2 \<subseteq> dom (dget (en_claim_accumulators e0))"
        using step1 dirty(2) base_frame_dom [OF frame] by (auto simp: contribution_step_def)
      show "work_rel s (cx_stats ?cx2) (card (dom A))" using work0 f(5) by simp
    qed
    ultimately show ?thesis by blast
  qed
qed

end
