(* ===== verification/GL_EngineEvents.thy ===== *)
theory GL_EngineEvents
  imports GL_EngineSteps
begin

text \<open>
  Which observations an event activates and deactivates, and the proof that the engine's base
  update follows: after \<open>maintain_base\<close> the engine represents the view of the repository after
  the event.
\<close>

lemma option_ext: "(\<And>x. a = Some x \<longleftrightarrow> b = Some x) \<Longrightarrow> a = b"
  by (metis not_None_eq)

section \<open>Active observations after an event\<close>

definition labels_of ::
    "decision_policy \<Rightarrow> (string \<rightharpoonup> semantic_observation) \<Rightarrow> string \<rightharpoonup> verification_label" where
  "labels_of p A i = map_option (\<lambda>ob. decide ob p) (A i)"

lemma labels_of_update [simp]:
  "labels_of p (A(i := None)) = (labels_of p A)(i := None)"
  "labels_of p (A(i \<mapsto> ob)) = (labels_of p A)(i \<mapsto> decide ob p)"
  by (auto simp: labels_of_def)

lemma repo_view_view_of:
  assumes "observations_inv r"
  shows "repo_view r p = view_of (active_observation r) (labels_of p (active_observation r)) (chunk_text_hash r)"
proof
  fix i
  show "repo_view r p i =
      view_of (active_observation r) (labels_of p (active_observation r)) (chunk_text_hash r) i"
    by (cases "active_observation r i")
      (simp_all add: repo_view_def view_of_def labels_of_def contribution_of_def make_contribution_def
        decided_score_def)
qed

text \<open>The active observations whose chunk is not in \<open>C\<close>.\<close>

definition active_outside :: "repo \<Rightarrow> string set \<Rightarrow> string \<rightharpoonup> semantic_observation" where
  "active_outside r C i =
     (case active_observation r i of
        None \<Rightarrow> None | Some ob \<Rightarrow> if ob_chunk_version_id ob \<in> C then None else Some ob)"

lemma active_outside_empty [simp]: "active_outside r {} = active_observation r"
  by (rule ext) (simp add: active_outside_def split: option.split)

lemma active_outside_Some:
  "active_outside r C i = Some ob \<longleftrightarrow> active_observation r i = Some ob \<and> ob_chunk_version_id ob \<notin> C"
  by (auto simp: active_outside_def split: option.splits)

text \<open>Registering a version activates chunks that no stored observation mentions.\<close>

lemma active_observation_insert:
  assumes inv: "repo_inv r" and ok: "register_document_version r v cs e = Inr r'"
  shows "active_observation r' = active_observation r"
    and "c \<in> dom (dget (chunk_versions r)) \<Longrightarrow> chunk_text_hash r' c = chunk_text_hash r c"
proof -
  have "documents_inv r" and obs: "observations_inv r" using inv by (simp_all add: repo_inv_def)
  note act = is_chunk_active_register_document_version [OF this(1) ok]
  note same = register_document_version_claims [OF ok]
  from ok have new: "\<forall>k \<in> set cs. dget (chunk_versions r) (cv_chunk_version_id k) = None"
    by (simp add: register_document_version_Inr)
  show "active_observation r' = active_observation r"
  proof (rule ext, rule option.expand)
    fix i
    have "active_observation r' i = Some ob \<longleftrightarrow> active_observation r i = Some ob" for ob
    proof (cases "dget (observations r) i = Some ob")
      case True
      then have "ob_chunk_version_id ob \<in> dom (dget (chunk_versions r))"
        by (rule observations_invD(4) [OF obs])
      then have "ob_chunk_version_id ob \<notin> cv_chunk_version_id ` set cs" using new by auto
      then show ?thesis using same True by (simp add: active_observation_Some is_current_def act)
    qed (use same in \<open>simp add: active_observation_Some\<close>)
    then show "(active_observation r' i = None) = (active_observation r i = None)"
      "active_observation r' i \<noteq> None \<Longrightarrow> active_observation r i \<noteq> None \<Longrightarrow>
        the (active_observation r' i) = the (active_observation r i)"
      by (metis not_None_eq, metis not_None_eq option.sel)
  qed
  show "c \<in> dom (dget (chunk_versions r)) \<Longrightarrow> chunk_text_hash r' c = chunk_text_hash r c"
    using chunk_versions_register_document_version [OF ok] by (simp add: chunk_text_hash_def)
qed

lemma active_observation_deactivate:
  assumes inv: "repo_inv r" and ok: "deactivate_document_version r v e = Inr r'"
  shows "active_observation r' = active_outside r (set (chunk_ids_of_document_version r v))"
    and "chunk_text_hash r' = chunk_text_hash r"
proof -
  have "documents_inv r" "chunks_inv r" using inv by (simp_all add: repo_inv_def)
  note act = is_chunk_active_deactivate [OF this ok]
  note same = deactivate_document_version_claims [OF ok]
  show "chunk_text_hash r' = chunk_text_hash r" using same by (intro ext) (simp add: chunk_text_hash_def)
  show "active_observation r' = active_outside r (set (chunk_ids_of_document_version r v))"
  proof
    fix i
    have "active_observation r' i = Some ob \<longleftrightarrow>
        active_outside r (set (chunk_ids_of_document_version r v)) i = Some ob" for ob
      using same by (auto simp: active_observation_Some active_outside_Some is_current_def act)
    then show "active_observation r' i = active_outside r (set (chunk_ids_of_document_version r v)) i"
      by (metis not_None_eq)
  qed
qed

lemma activate_policy_fields:
  assumes "activate_policy r p e = Inr r'"
  obtains validity where "r' = r\<lparr>policies := dset (dp_policy_version p) p (policies r),
      policy_validity := validity, current_policy_version := Some (dp_policy_version p)\<rparr>"
proof -
  have "\<not> dmem (dp_policy_version p) (policies r)"
    using assms by (auto simp: activate_policy_def Let_def)
  then show thesis
    using assms that by (simp add: activate_policy_def Let_def bind_res_Inr_iff) blast
qed

lemma active_observation_policy:
  assumes "activate_policy r p e = Inr r'"
  shows "active_observation r' = active_observation r" and "chunk_text_hash r' = chunk_text_hash r"
proof -
  obtain validity where "r' = r\<lparr>policies := dset (dp_policy_version p) p (policies r),
      policy_validity := validity, current_policy_version := Some (dp_policy_version p)\<rparr>"
    using assms by (rule activate_policy_fields)
  then have "observations r' = observations r" "current_by_key r' = current_by_key r"
    "chunk_validity r' = chunk_validity r" "chunk_versions r' = chunk_versions r"
    by simp_all
  note same = this
  show "active_observation r' = active_observation r"
    by (rule active_observation_cong) (rule same)+
  show "chunk_text_hash r' = chunk_text_hash r"
    by (intro ext) (simp add: chunk_text_hash_def same)
qed

text \<open>The previous observation of a key, if any, is no longer active.\<close>

definition without_previous :: "repo \<Rightarrow> observation_key \<Rightarrow> string \<rightharpoonup> semantic_observation" where
  "without_previous r k =
     (case current_observation_id r k of
        None \<Rightarrow> active_observation r | Some j \<Rightarrow> (active_observation r)(j := None))"

lemma active_observation_observe:
  assumes inv: "repo_inv r" and ok: "register_observation r ob = Inr r'"
  shows "active_observation r' =
       (if is_chunk_active r (ob_chunk_version_id ob)
        then (without_previous r (observation_key ob))(ob_observation_id ob \<mapsto> ob)
        else without_previous r (observation_key ob))"
    and "chunk_text_hash r' = chunk_text_hash r" and "chunk_versions r' = chunk_versions r"
    and "is_chunk_active r' c = is_chunk_active r c"
proof -
  let ?i = "ob_observation_id ob" and ?k = "observation_key ob"
  have obs: "observations_inv r" using inv by (simp add: repo_inv_def)
  from ok have fresh: "dget (observations r) ?i = None"
    and r': "observations r' = dset ?i ob (observations r)"
      "current_by_key r' = dset ?k ?i (current_by_key r)"
      "chunk_validity r' = chunk_validity r" "chunk_versions r' = chunk_versions r"
    unfolding register_observation_Inr by simp_all
  show "chunk_versions r' = chunk_versions r" "is_chunk_active r' c = is_chunk_active r c" for c
    using r' by (simp_all add: is_chunk_active_def)
  then show "chunk_text_hash r' = chunk_text_hash r" by (simp add: chunk_text_hash_def fun_eq_iff)
  have act: "is_chunk_active r' c = is_chunk_active r c" for c using r' by (simp add: is_chunk_active_def)
  have freshA: "active_observation r ?i = None" using fresh by (simp add: active_observation_def)
  have cur: "dget (current_by_key r) k = Some j \<Longrightarrow> \<exists>x. dget (observations r) j = Some x \<and> observation_key x = k"
    for k j by (rule observations_invD(9) [OF obs])
  show "active_observation r' =
       (if is_chunk_active r (ob_chunk_version_id ob)
        then (without_previous r ?k)(?i \<mapsto> ob) else without_previous r ?k)"
  proof
    fix j
    have prev: "without_previous r ?k j = Some x \<longleftrightarrow>
        active_observation r j = Some x \<and> observation_key x \<noteq> ?k" for x
    proof (cases "current_observation_id r ?k")
      case None
      then have "active_observation r j = Some x \<Longrightarrow> observation_key x \<noteq> ?k"
        by (auto simp: active_observation_Some is_current_def current_observation_id_def)
      then show ?thesis using None by (auto simp: without_previous_def)
    next
      case (Some m)
      then have m: "dget (current_by_key r) ?k = Some m" by (simp add: current_observation_id_def)
      from cur [OF this] obtain y where y: "dget (observations r) m = Some y" "observation_key y = ?k"
        by blast
      have "active_observation r j = Some x \<Longrightarrow> observation_key x = ?k \<longleftrightarrow> j = m"
        using m y observations_invD(1) [OF obs, of j x]
        by (auto simp: active_observation_Some is_current_def)
      then show ?thesis using Some by (auto simp: without_previous_def)
    qed
    have "active_observation r' j = Some x \<longleftrightarrow>
        (if j = ?i then x = ob \<and> is_chunk_active r (ob_chunk_version_id ob)
         else active_observation r j = Some x \<and> observation_key x \<noteq> ?k)" for x
    proof (cases "j = ?i")
      case True
      then show ?thesis using r' by (auto simp: active_observation_Some is_current_def act)
    next
      case False
      then show ?thesis
        using r' observations_invD(1) [OF obs, of j x]
        by (auto simp: active_observation_Some is_current_def act)
    qed
    moreover have "without_previous r ?k ?i = None"
      using prev freshA by (auto simp: without_previous_def split: option.splits)
    ultimately have iff: "active_observation r' j = Some x \<longleftrightarrow>
        (if is_chunk_active r (ob_chunk_version_id ob)
         then (without_previous r ?k)(?i \<mapsto> ob) else without_previous r ?k) j = Some x" for x
      using prev by (cases "j = ?i") auto
    show "active_observation r' j =
        (if is_chunk_active r (ob_chunk_version_id ob)
         then (without_previous r ?k)(?i \<mapsto> ob) else without_previous r ?k) j"
      by (rule option_ext) (rule iff)
  qed
qed

section \<open>Document withdrawal\<close>

lemma select_current_Inr:
  assumes "set is \<subseteq> dom (dget (observations r))"
  shows "select_current r is =
     Inr (filter (\<lambda>i. \<exists>ob. dget (observations r) i = Some ob \<and>
        dget (current_by_key r) (observation_key ob) = Some i) is)"
  using assms by (induction "is") auto

lemma current_observation_ids_for_chunk_Inr:
  assumes obs: "observations_inv r"
  obtains ids where "current_observation_ids_for_chunk r c = Inr ids"
    and "set ids = {i. \<exists>ob. dget (observations r) i = Some ob \<and> is_current r ob \<and>
                            ob_chunk_version_id ob = c}"
    and "distinct ids"
proof -
  let ?is = "observations_for_chunk r c"
  let ?ids = "filter (\<lambda>i. \<exists>ob. dget (observations r) i = Some ob \<and>
        dget (current_by_key r) (observation_key ob) = Some i) ?is"
  have "set ?is \<subseteq> dom (dget (observations r))" using observations_invD(7) [OF obs] by blast
  from select_current_Inr [OF this] have "current_observation_ids_for_chunk r c = Inr ?ids"
    by (simp add: current_observation_ids_for_chunk_def observations_for_chunk_def)
  moreover have "set ?ids = {i. \<exists>ob. dget (observations r) i = Some ob \<and> is_current r ob \<and>
                            ob_chunk_version_id ob = c}"
  proof (rule set_eqI)
    fix i
    show "i \<in> set ?ids \<longleftrightarrow> i \<in> {i. \<exists>ob. dget (observations r) i = Some ob \<and> is_current r ob \<and>
                            ob_chunk_version_id ob = c}"
      using observations_invD(1,5) [OF obs, of i] observations_invD(7) [OF obs, of i c]
      by (auto simp: is_current_def)
  qed
  moreover have "distinct ?ids" using observations_invD(8) [OF obs] by simp
  ultimately show thesis by (rule that)
qed

lemma withdraw_chunk_ok:
  assumes obs: "observations_inv r"
    and inv: "ctx_inv s e0 V0 (active_outside r C) (labels_of p (active_outside r C)) H cx"
  shows "\<exists>cx'. withdraw_chunk r c cx = Inr cx' \<and>
     ctx_inv s e0 V0 (active_outside r (insert c C)) (labels_of p (active_outside r (insert c C))) H cx'"
proof -
  obtain ids where ids: "current_observation_ids_for_chunk r c = Inr ids"
    "set ids = {i. \<exists>ob. dget (observations r) i = Some ob \<and> is_current r ob \<and>
                        ob_chunk_version_id ob = c}" "distinct ids"
    by (rule current_observation_ids_for_chunk_Inr [OF obs])
  let ?A = "\<lambda>ys. active_outside r C |` (- set ys)"
  let ?f = "\<lambda>i cx. bind_res (observation_of r i) (\<lambda>ob. deactivate_observation ob cx)"
  have "\<exists>cx'. fold_res ?f ids cx = Inr cx' \<and> ctx_inv s e0 V0 (?A ids) (labels_of p (?A ids)) H cx'"
  proof (rule fold_res_total_prefix)
    show "ctx_inv s e0 V0 (?A []) (labels_of p (?A [])) H cx"
      using inv by (simp add: restrict_map_def)
  next
    fix ys i zs cx1
    assume split: "ids = ys @ i # zs" and inv1: "ctx_inv s e0 V0 (?A ys) (labels_of p (?A ys)) H cx1"
    from split have "i \<in> set ids" by simp
    then obtain ob where ob: "dget (observations r) i = Some ob" using ids(2) by blast
    have id: "ob_observation_id ob = i" by (rule observations_invD(1) [OF obs ob])
    have "?A ys i = Some ob \<or> ?A ys i = None"
      using ob by (cases "?A ys i") (auto simp: restrict_map_def active_outside_Some active_observation_Some
          split: if_splits)
    then obtain cx2 where
      cx2: "deactivate_observation ob cx1 = Inr cx2"
        "ctx_inv s e0 V0 ((?A ys)(i := None)) ((labels_of p (?A ys))(i := None)) H cx2"
      using deactivate_observation_ok [OF inv1, of ob] unfolding id by blast
    have "(?A ys)(i := None) = ?A (ys @ [i])" by (auto simp: restrict_map_def)
    with cx2 ob show "\<exists>s'. ?f i cx1 = Inr s' \<and>
        ctx_inv s e0 V0 (?A (ys @ [i])) (labels_of p (?A (ys @ [i]))) H s'"
      by (simp add: observation_of_def flip: labels_of_update(1))
  qed
  moreover have "?A ids = active_outside r (insert c C)"
  proof
    fix i
    have "?A ids i = Some ob \<longleftrightarrow> active_outside r (insert c C) i = Some ob" for ob
      using ids(2) by (auto simp: restrict_map_def active_outside_Some active_observation_Some)
    then show "?A ids i = active_outside r (insert c C) i" by (metis not_None_eq)
  qed
  ultimately show ?thesis using ids(1) by (simp add: withdraw_chunk_def)
qed

lemma withdraw_document_version_ok:
  assumes obs: "observations_inv r"
    and inv: "ctx_inv s e0 V0 (active_observation r) (labels_of p (active_observation r)) H cx"
  shows "\<exists>cx'. withdraw_document_version v r cx = Inr cx' \<and>
     ctx_inv s e0 V0 (active_outside r (set (chunk_ids_of_document_version r v)))
       (labels_of p (active_outside r (set (chunk_ids_of_document_version r v)))) H cx'"
  unfolding withdraw_document_version_def
proof (rule fold_res_total_prefix)
  show "ctx_inv s e0 V0 (active_outside r (set [])) (labels_of p (active_outside r (set []))) H cx"
    using inv by simp
next
  fix ys c zs cx1
  assume "ctx_inv s e0 V0 (active_outside r (set ys)) (labels_of p (active_outside r (set ys))) H cx1"
  from withdraw_chunk_ok [OF obs this, of c]
  show "\<exists>s'. withdraw_chunk r c cx1 = Inr s' \<and>
      ctx_inv s e0 V0 (active_outside r (set (ys @ [c]))) (labels_of p (active_outside r (set (ys @ [c])))) H s'"
    by simp
qed

section \<open>Threshold changes\<close>

lemma apply_policy_change_ok:
  assumes obs: "observations_inv r" and p: "current_policy r = Inr p" and q: "current_policy r' = Inr q"
    and tie: "dp_tie_rule_version p = dp_tie_rule_version q"
    and inv: "ctx_inv s e0 V0 (active_observation r) (labels_of p (active_observation r)) (chunk_text_hash r) cx"
  shows "\<exists>cx'. apply_policy_change r r' cx = Inr cx' \<and>
     ctx_inv s e0 V0 (active_observation r) (labels_of q (active_observation r)) (chunk_text_hash r) cx'"
proof -
  let ?A = "active_observation r"
  let ?gap = "\<lambda>ob. in_threshold_gap (dp_support_threshold p) (dp_support_threshold q) (ob_support_score ob) \<or>
      in_threshold_gap (dp_refute_threshold p) (dp_refute_threshold q) (ob_refute_score ob)"
  let ?C = "{i. \<exists>ob. ?A i = Some ob \<and> ?gap ob}"
  have stores: "index_stores (en_score_index (cx_engine cx)) ?A"
    using inv by (simp add: ctx_inv_def active_rel_def)
  have cand: "policy_candidates (en_score_index (cx_engine cx)) p q = Inr ?C"
    by (rule policy_candidates_index [OF stores tie])
  have "?C \<subseteq> dom ?A" by auto
  then have fin: "finite ?C" using index_size(2) [OF stores] by (rule finite_subset)
  let ?L = "\<lambda>ys i. if i \<in> set ys then labels_of q ?A i else labels_of p ?A i"
  let ?cx = "cx\<lparr>cx_stats := (cx_stats cx)\<lparr>mt_policy_index_candidates := int (card ?C)\<rparr>\<rparr>"
  have "\<exists>cx'. fold_res (relabel_candidate r q) (sorted_list_of_set ?C) ?cx = Inr cx' \<and>
      ctx_inv s e0 V0 ?A (?L (sorted_list_of_set ?C)) (chunk_text_hash r) cx'"
  proof (rule fold_res_total_prefix)
    have "work_rel s (cx_stats ?cx) n = work_rel s (cx_stats cx) n" for n
      by (rule shift_bound_cong) simp_all
    then show "ctx_inv s e0 V0 ?A (?L []) (chunk_text_hash r) ?cx"
      using inv by (simp add: ctx_inv_def)
  next
    fix ys i zs cx1
    assume split: "sorted_list_of_set ?C = ys @ i # zs"
      and inv1: "ctx_inv s e0 V0 ?A (?L ys) (chunk_text_hash r) cx1"
    from split have "i \<in> set (sorted_list_of_set ?C)" by simp
    then have "i \<in> ?C" using fin by simp
    then obtain ob where A: "?A i = Some ob" by blast
    then have ob: "dget (observations r) i = Some ob" by (simp add: active_observation_Some)
    then obtain cv where cv: "dget (chunk_versions r) (ob_chunk_version_id ob) = Some cv"
      using observations_invD(4) [OF obs] by blast
    then have h: "cv_text_hash cv = chunk_text_hash r (ob_chunk_version_id ob)"
      by (simp add: chunk_text_hash_def)
    have "(?L ys)(i \<mapsto> decide ob q) = ?L (ys @ [i])" using A by (auto simp: labels_of_def)
    with relabel_candidate_ok [OF inv1 A ob cv h, of q]
    show "\<exists>s'. relabel_candidate r q i cx1 = Inr s' \<and> ctx_inv s e0 V0 ?A (?L (ys @ [i])) (chunk_text_hash r) s'"
      by simp
  qed
  moreover have "?L (sorted_list_of_set ?C) = labels_of q ?A"
  proof
    fix i
    show "?L (sorted_list_of_set ?C) i = labels_of q ?A i"
    proof (cases "i \<in> ?C")
      case False
      then have "labels_of p ?A i = labels_of q ?A i"
        using decide_stable_outside_gaps by (cases "?A i") (auto simp: labels_of_def)
      then show ?thesis by simp
    qed (use fin in simp)
  qed
  ultimately show ?thesis using p q cand by (simp add: apply_policy_change_def)
qed

section \<open>Base maintenance\<close>

text \<open>The policy after an event, and the policies a repository without claims may be read under.\<close>

fun next_policy :: "event \<Rightarrow> decision_policy \<Rightarrow> decision_policy" where
  "next_policy (PolicyChangeEvent _ q) p = q"
| "next_policy _ p = p"

fun is_policy_event :: "event \<Rightarrow> bool" where
  "is_policy_event (PolicyChangeEvent _ _) = True"
| "is_policy_event _ = False"

definition policy_for :: "repo \<Rightarrow> decision_policy \<Rightarrow> bool" where
  "policy_for r p \<longleftrightarrow> current_policy r = Inr p \<or> claims r = []"

lemma ctx_inv_hash:
  assumes "ctx_inv s e0 V0 A L H cx"
    and "\<And>i ob. A i = Some ob \<Longrightarrow> H' (ob_chunk_version_id ob) = H (ob_chunk_version_id ob)"
  shows "ctx_inv s e0 V0 A L H' cx"
proof -
  have "view_of A L H' = view_of A L H"
    by (rule ext) (use assms(2) in \<open>auto simp: view_of_def split: option.split\<close>)
  then show ?thesis using assms(1) by (simp only: ctx_inv_def)
qed

lemma active_chunk:
  assumes "observations_inv r" and "active_observation r i = Some ob"
  shows "ob_chunk_version_id ob \<in> dom (dget (chunk_versions r))"
  using assms by (auto simp: active_observation_Some dest: observations_invD(4))

text \<open>The fields that base maintenance reads do not depend on the epoch.\<close>

lemma epoch_frame [simp]:
  "active_observation (r\<lparr>current_epoch := n\<rparr>) = active_observation r"
  "chunk_text_hash (r\<lparr>current_epoch := n\<rparr>) = chunk_text_hash r"
  "active_outside (r\<lparr>current_epoch := n\<rparr>) = active_outside r"
  "without_previous (r\<lparr>current_epoch := n\<rparr>) = without_previous r"
  "chunk_ids_of_document_version (r\<lparr>current_epoch := n\<rparr>) = chunk_ids_of_document_version r"
  "is_chunk_active (r\<lparr>current_epoch := n\<rparr>) = is_chunk_active r"
proof -
  show act: "active_observation (r\<lparr>current_epoch := n\<rparr>) = active_observation r"
    by (rule active_observation_cong) simp_all
  show "active_outside (r\<lparr>current_epoch := n\<rparr>) = active_outside r"
    by (rule ext, rule ext) (simp add: active_outside_def act)
  show "without_previous (r\<lparr>current_epoch := n\<rparr>) = without_previous r"
    by (rule ext) (simp add: without_previous_def current_observation_id_def act cong: option.case_cong)
qed (simp_all add: chunk_text_hash_def chunk_ids_of_document_version_def is_chunk_active_def fun_eq_iff)

lemma maintain_base_ok:
  assumes inv: "repo_inv r" and ok: "mutate sha (r\<lparr>current_epoch := n\<rparr>) ev m = Inr r1"
    and after: "chunk_validity r' = chunk_validity r1" "chunk_versions r' = chunk_versions r1"
      "current_policy r' = current_policy r1"
    and pol: "policy_for r p" "is_policy_event ev \<Longrightarrow> current_policy r = Inr p"
    and tie: "dp_tie_rule_version (next_policy ev p) = dp_tie_rule_version p"
    and dom: "dom (dget (en_claim_accumulators e0)) = dom (dget (claims r))"
    and ctx: "ctx_inv s e0 V0 (active_observation r) (labels_of p (active_observation r)) (chunk_text_hash r) cx"
  shows "\<exists>cx'. maintain_base ev r r' cx = Inr cx' \<and>
     ctx_inv s e0 V0 (active_observation r1) (labels_of (next_policy ev p) (active_observation r1))
       (chunk_text_hash r1) cx'"
proof -
  let ?r = "r\<lparr>current_epoch := n\<rparr>"
  have inv': "repo_inv ?r" using inv by simp
  have obs: "observations_inv r" using inv by (simp add: repo_inv_def)
  show ?thesis
  proof (cases ev)
    case (InsertDocumentEvent eid d v h cs)
    with ok obtain chunks where reg: "register_document_version ?r
        \<lparr>dv_document_version_id = v, dv_document_id = d, dv_content_hash = h\<rparr> chunks m = Inr r1"
      by (auto simp: insert_version_def elim: bind_res_InrE)
    note act = active_observation_insert [OF inv' reg]
    have "ctx_inv s e0 V0 (active_observation r) (labels_of p (active_observation r)) (chunk_text_hash r1) cx"
      by (rule ctx_inv_hash [OF ctx]) (use act(2) active_chunk [OF obs] in simp)
    then show ?thesis using InsertDocumentEvent act(1) by simp
  next
    case (DeleteDocumentVersionEvent eid v)
    with ok have del: "deactivate_document_version ?r v m = Inr r1" by simp
    note act = active_observation_deactivate [OF inv' del]
    from withdraw_document_version_ok [OF obs ctx, of v] show ?thesis
      using DeleteDocumentVersionEvent act by simp
  next
    case (ReplaceDocumentVersionEvent eid d old new h cs)
    with ok obtain r2 chunks where del: "deactivate_document_version ?r old m = Inr r2"
      and reg: "register_document_version r2
        \<lparr>dv_document_version_id = new, dv_document_id = d, dv_content_hash = h\<rparr> chunks m = Inr r1"
      by (auto simp: insert_version_def elim!: bind_res_InrE)
    have inv2: "repo_inv r2" by (rule repo_inv_deactivate [OF inv' del])
    then have obs2: "observations_inv r2" by (simp add: repo_inv_def)
    note act = active_observation_deactivate [OF inv' del]
    note act2 = active_observation_insert [OF inv2 reg]
    let ?A = "active_outside r (set (chunk_ids_of_document_version r old))"
    from withdraw_document_version_ok [OF obs ctx, of old] obtain cx' where
      cx': "withdraw_document_version old r cx = Inr cx'"
      and ctx': "ctx_inv s e0 V0 ?A (labels_of p ?A) (chunk_text_hash r) cx'" by blast
    have A: "?A = active_observation r2" using act(1) by simp
    have "ctx_inv s e0 V0 ?A (labels_of p ?A) (chunk_text_hash r1) cx'"
      by (rule ctx_inv_hash [OF ctx']) (use act2(2) act(2) active_chunk [OF obs2] A in simp)
    then show ?thesis using ReplaceDocumentVersionEvent cx' A act2(1) by simp
  next
    case (PolicyChangeEvent eid q)
    with ok have act: "activate_policy ?r q m = Inr r1" by simp
    note same = active_observation_policy [OF act]
    have q: "current_policy r1 = Inr q"
      using act by (elim activate_policy_fields) (simp add: current_policy_def)
    have p: "current_policy r = Inr p" using pol(2) PolicyChangeEvent by simp
    have "dp_tie_rule_version p = dp_tie_rule_version q" using tie PolicyChangeEvent by simp
    from apply_policy_change_ok [OF obs p _ this ctx, of r'] show ?thesis
      using PolicyChangeEvent q same after(3) by simp
  next
    case (ObserveEvent eid ob)
    with ok have reg: "register_observation ?r ob = Inr r1" by simp
    note act = active_observation_observe [OF inv' reg, unfolded epoch_frame]
    let ?k = "observation_key ob" and ?i = "ob_observation_id ob"
    from reg have fresh: "dget (observations r) ?i = None"
      and ob: "ob_subject_kind ob = CLAIM" "ob_subject_id ob \<in> dom (dget (claims r))"
      and chunk: "ob_chunk_version_id ob \<in> dom (dget (chunk_versions r))"
      unfolding register_observation_Inr by simp_all
    have p: "current_policy r = Inr p" using pol(1) ob(2) by (auto simp: policy_for_def)
    have p1: "current_policy r' = Inr p"
      using after(3) p reg unfolding register_observation_Inr
      by (simp add: current_policy_def cong: option.case_cong)
    let ?A = "without_previous r ?k"
    have prev: "\<exists>cx1. (case current_observation_id r ?k of None \<Rightarrow> Inr cx
        | Some j \<Rightarrow> bind_res (observation_of r j) (\<lambda>pob. deactivate_observation pob cx)) = Inr cx1 \<and>
        ctx_inv s e0 V0 ?A (labels_of p ?A) (chunk_text_hash r) cx1"
    proof (cases "current_observation_id r ?k")
      case None
      then show ?thesis using ctx by (simp add: without_previous_def)
    next
      case (Some j)
      then obtain pob where pob: "dget (observations r) j = Some pob"
        using observations_invD(9) [OF obs, of ?k j] by (auto simp: current_observation_id_def)
      have id: "ob_observation_id pob = j" by (rule observations_invD(1) [OF obs pob])
      have "active_observation r j = Some pob \<or> active_observation r j = None"
        using pob by (cases "active_observation r j") (auto simp: active_observation_Some)
      from deactivate_observation_ok [OF ctx, of pob, unfolded id, OF this] show ?thesis
        using Some pob by (simp add: without_previous_def observation_of_def)
    qed
    then obtain cx1 where cx1: "(case current_observation_id r ?k of None \<Rightarrow> Inr cx
        | Some j \<Rightarrow> bind_res (observation_of r j) (\<lambda>pob. deactivate_observation pob cx)) = Inr cx1"
      and ctx1: "ctx_inv s e0 V0 ?A (labels_of p ?A) (chunk_text_hash r) cx1" by blast
    have active': "is_chunk_active r' c = is_chunk_active r c" for c
      using after(1) act(4) by (simp add: is_chunk_active_def)
    show ?thesis
    proof (cases "is_chunk_active r (ob_chunk_version_id ob)")
      case False
      then show ?thesis using ObserveEvent cx1 ctx1 act active' by simp
    next
      case True
      from chunk obtain cv where cv: "dget (chunk_versions r) (ob_chunk_version_id ob) = Some cv" by blast
      then have cv': "dget (chunk_versions r') (ob_chunk_version_id ob) = Some cv"
        using after(2) act(3) by simp
      have h: "cv_text_hash cv = chunk_text_hash r (ob_chunk_version_id ob)"
        using cv by (simp add: chunk_text_hash_def)
      have free: "?A ?i = None"
        using fresh by (auto simp: without_previous_def active_observation_def split: option.split)
      from activate_observation_ok [OF ctx1 free ob(1) _ cv' h, of p] ob(2) dom obtain cx2 where
        cx2: "activate_observation ob r' p cx1 = Inr cx2"
          "ctx_inv s e0 V0 (?A(?i \<mapsto> ob)) ((labels_of p ?A)(?i \<mapsto> decide ob p)) (chunk_text_hash r) cx2"
        by auto
      have A1: "active_observation r1 = ?A(?i \<mapsto> ob)" using act(1) True by simp
      have "maintain_base ev r r' cx = Inr cx2"
        using ObserveEvent cx1 True active' p1 cx2(1) by simp
      then show ?thesis using cx2(2) act(2) ObserveEvent by (simp add: A1)
    qed
  qed
qed

end
