(* ===== verification/GL_EngineFlush.thy ===== *)
theory GL_EngineFlush
  imports GL_EngineEvents
begin

text \<open>
  The second half of an update: refreshing the states of the dirty claims, moving the counters
  of their answers, and refreshing the answers.  The relation \<open>states_rel\<close> says that the derived
  states of the engine are those of a view.
\<close>

section \<open>Registry and derived states\<close>

text \<open>The engine knows the claims \<open>K\<close> and the answers \<open>J\<close> of the repository.\<close>

definition registry_rel :: "repo \<Rightarrow> string set \<Rightarrow> string set \<Rightarrow> engine \<Rightarrow> bool" where
  "registry_rel r K J e \<longleftrightarrow>
     K \<subseteq> dom (dget (claims r)) \<and> J \<subseteq> dom (dget (answers r)) \<and>
     (\<forall>a \<in> J. set (claim_ids_of_answer r a) \<subseteq> K) \<and>
     dom (dget (en_claim_accumulators e)) = K \<and>
     (\<forall>c. dget (en_claim_to_answer e) c =
        (if c \<in> K then map_option cl_answer_version_id (dget (claims r) c) else None)) \<and>
     (\<forall>c. dget (en_claim_required e) c =
        (if c \<in> K then map_option cl_required (dget (claims r) c) else None)) \<and>
     (\<forall>a. dget (en_answer_to_claims e) a =
        (if a \<in> J then Some (claim_ids_of_answer r a) else None)) \<and>
     (\<forall>a. dget (en_answer_required_counts e) a =
        (if a \<in> J then Some (int (length (required_claim_ids r a))) else None))"

lemma registry_relD:
  assumes "registry_rel r K J e"
  shows "K \<subseteq> dom (dget (claims r))" and "J \<subseteq> dom (dget (answers r))"
    and "a \<in> J \<Longrightarrow> set (claim_ids_of_answer r a) \<subseteq> K"
    and "dom (dget (en_claim_accumulators e)) = K"
    and "dget (en_claim_to_answer e) c =
        (if c \<in> K then map_option cl_answer_version_id (dget (claims r) c) else None)"
    and "dget (en_claim_required e) c =
        (if c \<in> K then map_option cl_required (dget (claims r) c) else None)"
    and "dget (en_answer_to_claims e) a = (if a \<in> J then Some (claim_ids_of_answer r a) else None)"
    and "dget (en_answer_required_counts e) a =
        (if a \<in> J then Some (int (length (required_claim_ids r a))) else None)"
  using assms unfolding registry_rel_def by (elim conjE; metis)+

definition counter_rel :: "status_counter \<Rightarrow> claim_status list \<Rightarrow> bool" where
  "counter_rel ct sts \<longleftrightarrow> dict_ok ct \<and> (\<forall>st. counter_get ct st = int (count_list sts st))"

lemma dict_ok_counter_add [simp]: "dict_ok ct \<Longrightarrow> dict_ok (counter_add st d ct)"
  by (simp add: counter_add_def)

definition claims_rel :: "string set \<Rightarrow> (string \<Rightarrow> claim_state) \<Rightarrow> engine \<Rightarrow> bool" where
  "claims_rel K S e \<longleftrightarrow>
     dict_ok (en_claim_states e) \<and>
     (\<forall>c. dget (en_claim_states e) c = (if c \<in> K then Some (S c) else None)) \<and>
     (\<forall>c. dget (en_certificates e) c = (if c \<in> K then Some (certificate_from_state (S c)) else None))"

definition counters_rel :: "repo \<Rightarrow> string set \<Rightarrow> (string \<Rightarrow> claim_state) \<Rightarrow> engine \<Rightarrow> bool" where
  "counters_rel r J S e \<longleftrightarrow>
     dom (dget (en_answer_status_counts e)) = J \<and>
     (\<forall>a ct. dget (en_answer_status_counts e) a = Some ct \<longrightarrow>
        counter_rel ct (map (\<lambda>c. cs_status (S c)) (required_claim_ids r a)))"

definition answer_state_for :: "repo \<Rightarrow> (string \<Rightarrow> claim_state) \<Rightarrow> string \<Rightarrow> answer_state" where
  "answer_state_for r S a = view_answer_state a (map (\<lambda>c. cs_status (S c)) (required_claim_ids r a))"

definition answers_rel :: "repo \<Rightarrow> string set \<Rightarrow> (string \<Rightarrow> claim_state) \<Rightarrow> engine \<Rightarrow> bool" where
  "answers_rel r J S e \<longleftrightarrow>
     (\<forall>a. dget (en_answer_states e) a = (if a \<in> J then Some (answer_state_for r S a) else None))"

text \<open>Only the registered required claims matter to an answer.\<close>

lemma required_claim_ids_claims:
  "c \<in> set (required_claim_ids r a) \<longleftrightarrow>
     c \<in> set (claim_ids_of_answer r a) \<and> (\<exists>cl. dget (claims r) c = Some cl \<and> cl_required cl)"
  by (auto simp: required_claim_ids_def split: option.splits)

lemma required_claim_answer:
  assumes "claims_inv r" and "dget (claims r) c = Some cl"
  shows "c \<in> set (required_claim_ids r a) \<longleftrightarrow> a = cl_answer_version_id cl \<and> cl_required cl"
proof -
  have "claim_lists_inv r" using assms(1) by (simp add: claims_inv_split)
  from claim_lists_invD(2) [OF this assms(2)] claim_lists_invD(3) [OF this, of c a] assms(2)
  show ?thesis by (auto simp: required_claim_ids_claims)
qed

lemma required_claim_ids_distinct: "claims_inv r \<Longrightarrow> distinct (required_claim_ids r a)"
  using claim_lists_invD(4) by (simp add: required_claim_ids_def claims_inv_split)

text \<open>The answers of the known required claims are known.\<close>

definition answers_known :: "repo \<Rightarrow> string set \<Rightarrow> string set \<Rightarrow> bool" where
  "answers_known r K J \<longleftrightarrow>
     (\<forall>c cl. c \<in> K \<longrightarrow> dget (claims r) c = Some cl \<longrightarrow> cl_required cl \<longrightarrow> cl_answer_version_id cl \<in> J)"

section \<open>Counters\<close>

lemma counter_get_add [simp]:
  "counter_get (counter_add st d ct) st' = counter_get ct st' + (if st' = st then d else 0)"
  by (auto simp: counter_add_def dget_default_def)

lemma count_list_map_update:
  assumes "distinct cs" and "c \<in> set cs"
  shows "int (count_list (map (f(c := y)) cs) st) =
     int (count_list (map f cs) st) - (if st = f c then 1 else 0) + (if st = y then 1 else 0)"
  using assms
proof (induction cs)
  case (Cons d cs)
  show ?case
  proof (cases "c = d")
    case True
    then have "map (f(d := y)) cs = map f cs" using Cons.prems by auto
    then show ?thesis using True by (simp del: fun_upd_apply map_eq_conv add: fun_upd_same)
  next
    case False
    then show ?thesis using Cons by auto
  qed
qed simp

lemma counter_rel_move:
  assumes "counter_rel ct (map f cs)" and "distinct cs" and "c \<in> set cs"
  shows "counter_rel (counter_add y 1 (counter_add (f c) (-1) ct)) (map (f(c := y)) cs)"
  using assms by (auto simp: counter_rel_def count_list_map_update)

lemma state_from_answer_counts_ok:
  assumes reg: "dget (en_answer_required_counts e) a = Some (int (length sts))"
    and ct: "dget (en_answer_status_counts e) a = Some ct" "counter_rel ct sts"
  shows "state_from_answer_counts e a = Inr (view_answer_state a sts)"
  using assms
  by (simp add: state_from_answer_counts_def state_from_answer_count_value_def view_answer_state_def
      answer_status_from_counts_def answer_status_of_counts counter_rel_def)

section \<open>Refreshing a claim\<close>

lemma refresh_claim_ok:
  assumes core: "core_rel e V" and cid: "cid \<in> dom (dget (en_claim_accumulators e))"
  shows "\<exists>acs. refresh_claim cid e = Inr (e\<lparr>en_claim_accumulators := acs,
       en_claim_states := dset cid (view_claim_state V cid) (en_claim_states e),
       en_certificates := dset cid (certificate_from_state (view_claim_state V cid)) (en_certificates e)\<rparr>) \<and>
     dkeys acs = dkeys (en_claim_accumulators e) \<and>
     (\<forall>e'. en_claim_accumulators e' = acs \<longrightarrow> en_contributions e' = en_contributions e \<longrightarrow> core_rel e' V)"
proof -
  note e = core_relD [OF core]
  from cid obtain a where a: "dget (en_claim_accumulators e) cid = Some a" by blast
  from state_from_accumulator_value_view [OF e(4) [OF a]] obtain a' where
    a': "state_from_accumulator_value cid a = (view_claim_state V cid, a')" "acc_rel a' V cid" by blast
  let ?acs = "dset cid a' (en_claim_accumulators e)"
  have keys: "dkeys ?acs = dkeys (en_claim_accumulators e)" using a by (rule dkeys_dset_same)
  then have dom: "dom (dget ?acs) = dom (dget (en_claim_accumulators e))" by (metis set_dkeys)
  have "core_rel e' V"
    if "en_claim_accumulators e' = ?acs" "en_contributions e' = en_contributions e" for e'
    unfolding core_rel_def that dom using e a'(2) by (auto split: if_splits)
  moreover have "refresh_claim cid e = Inr (e\<lparr>en_claim_accumulators := ?acs,
       en_claim_states := dset cid (view_claim_state V cid) (en_claim_states e),
       en_certificates := dset cid (certificate_from_state (view_claim_state V cid)) (en_certificates e)\<rparr>)"
    using a a'(1) by (simp add: refresh_claim_def state_from_accumulator_def repair_certificate_def)
  ultimately show ?thesis using keys by blast
qed

section \<open>The loop over the dirty claims\<close>

text \<open>\<open>upd S V C\<close>: the states after the claims in \<open>C\<close> were refreshed from the view \<open>V\<close>.\<close>

definition upd :: "(string \<Rightarrow> claim_state) \<Rightarrow> view \<Rightarrow> string set \<Rightarrow> string \<Rightarrow> claim_state" where
  "upd S V C c = (if c \<in> C then view_claim_state V c else S c)"

text \<open>The fields that the refresh loops leave alone.\<close>

definition flush_frame :: "engine \<Rightarrow> engine \<Rightarrow> bool" where
  "flush_frame e0 e \<longleftrightarrow>
     en_claim_to_answer e = en_claim_to_answer e0 \<and> en_claim_required e = en_claim_required e0 \<and>
     en_answer_to_claims e = en_answer_to_claims e0 \<and>
     en_answer_required_counts e = en_answer_required_counts e0 \<and>
     en_active_labels e = en_active_labels e0 \<and> en_score_index e = en_score_index e0 \<and>
     en_state_revision e = en_state_revision e0 \<and>
     dkeys (en_claim_accumulators e) = dkeys (en_claim_accumulators e0)"

lemma flush_frame_dom:
  "flush_frame e0 e \<Longrightarrow> dom (dget (en_claim_accumulators e)) = dom (dget (en_claim_accumulators e0))"
  unfolding set_dkeys [symmetric] by (simp only: flush_frame_def)

lemma flush_frame_fields:
  assumes "flush_frame e0 e"
  shows "en_claim_to_answer e = en_claim_to_answer e0" "en_claim_required e = en_claim_required e0"
    "en_answer_to_claims e = en_answer_to_claims e0"
    "en_answer_required_counts e = en_answer_required_counts e0"
    "en_active_labels e = en_active_labels e0" "en_score_index e = en_score_index e0"
    "en_state_revision e = en_state_revision e0"
  using assms by (simp_all only: flush_frame_def)

lemma flush_frame_registry:
  assumes "flush_frame e0 e" shows "registry_rel r K J e = registry_rel r K J e0"
  by (simp only: registry_rel_def flush_frame_fields [OF assms] flush_frame_dom [OF assms])

lemma flush_frame_active:
  assumes "flush_frame e0 e" shows "active_rel e A L = active_rel e0 A L"
  by (simp only: active_rel_def flush_frame_fields [OF assms] flush_frame_dom [OF assms])

text \<open>The statistics that the work bound speaks of.\<close>

definition stats_frame :: "mutable_stats \<Rightarrow> mutable_stats \<Rightarrow> bool" where
  "stats_frame m m' \<longleftrightarrow>
     mt_score_index_point_updates m' = mt_score_index_point_updates m \<and>
     mt_score_index_entries_before m' = mt_score_index_entries_before m \<and>
     mt_active_observations_added m' = mt_active_observations_added m \<and>
     mt_score_index_shift_work m' = mt_score_index_shift_work m"

definition flush_inv ::
    "repo \<Rightarrow> string set \<Rightarrow> string set \<Rightarrow> view \<Rightarrow> (string \<Rightarrow> claim_state) \<Rightarrow> engine \<Rightarrow> mutable_stats \<Rightarrow>
      string set \<Rightarrow> flush_ctx \<Rightarrow> bool" where
  "flush_inv r K J V S e0 m0 C fx \<longleftrightarrow>
     stats_frame m0 (fx_stats fx) \<and>
     core_rel (fx_engine fx) V \<and> flush_frame e0 (fx_engine fx) \<and>
     claims_rel K (upd S V C) (fx_engine fx) \<and> counters_rel r J (upd S V C) (fx_engine fx) \<and>
     en_answer_states (fx_engine fx) = en_answer_states e0 \<and>
     fx_dirty_answers fx \<subseteq> J \<and>
     (\<forall>a \<in> J - fx_dirty_answers fx. answer_state_for r (upd S V C) a = answer_state_for r S a)"

lemma answer_state_for_cong:
  "(\<And>c. c \<in> set (required_claim_ids r a) \<Longrightarrow> cs_status (S c) = cs_status (T c)) \<Longrightarrow>
     answer_state_for r S a = answer_state_for r T a"
  by (simp add: answer_state_for_def cong: map_cong)

lemma upd_insert: "upd S V (insert c C) = (upd S V C)(c := view_claim_state V c)"
  by (auto simp: upd_def)

lemma flush_claim_ok:
  assumes claims: "claims_inv r" and reg: "registry_rel r K J e0" and cid: "cid \<in> K"
    and old: "dget old_statuses cid = Some (cs_status (S cid))" and new: "cid \<notin> C"
    and closed: "answers_known r K J"
    and inv: "flush_inv r K J V S e0 m0 C fx"
  shows "\<exists>fx'. flush_claim old_statuses cid fx = Inr fx' \<and> flush_inv r K J V S e0 m0 (insert cid C) fx'"
proof -
  let ?e = "fx_engine fx" and ?s = "view_claim_state V cid"
  from inv have core: "core_rel ?e V" and frame: "flush_frame e0 ?e"
    and cl: "claims_rel K (upd S V C) ?e" and ct: "counters_rel r J (upd S V C) ?e"
    and ans: "en_answer_states ?e = en_answer_states e0" and dirty: "fx_dirty_answers fx \<subseteq> J"
    and clean: "\<forall>a \<in> J - fx_dirty_answers fx. answer_state_for r (upd S V C) a = answer_state_for r S a"
    and stats: "stats_frame m0 (fx_stats fx)"
    by (simp_all add: flush_inv_def)
  have regE: "registry_rel r K J ?e" using reg flush_frame_registry [OF frame] by simp
  note R = registry_relD [OF regE]
  have dom: "cid \<in> dom (dget (en_claim_accumulators ?e))" using R(4) cid by simp
  from refresh_claim_ok [OF core dom] obtain acs where
    ref: "refresh_claim cid ?e = Inr (?e\<lparr>en_claim_accumulators := acs,
       en_claim_states := dset cid ?s (en_claim_states ?e),
       en_certificates := dset cid (certificate_from_state ?s) (en_certificates ?e)\<rparr>)"
    and keys: "dkeys acs = dkeys (en_claim_accumulators ?e)"
    and core': "\<And>e'. en_claim_accumulators e' = acs \<Longrightarrow> en_contributions e' = en_contributions ?e \<Longrightarrow> core_rel e' V"
    by blast
  let ?e1 = "?e\<lparr>en_claim_accumulators := acs,
       en_claim_states := dset cid ?s (en_claim_states ?e),
       en_certificates := dset cid (certificate_from_state ?s) (en_certificates ?e)\<rparr>"
  from R(1) cid obtain cl where clm: "dget (claims r) cid = Some cl" by blast
  have old_state: "dget (en_claim_states ?e) cid = Some (S cid)"
    using cl cid new by (simp add: claims_rel_def upd_def)
  have frame1: "flush_frame e0 ?e1" using frame keys by (simp add: flush_frame_def)
  have claims1: "claims_rel K (upd S V (insert cid C)) ?e1"
    using cl cid unfolding claims_rel_def upd_insert by auto
  have req: "dget (en_claim_required ?e) cid = Some (cl_required cl)" using R(6) cid clm by simp
  show ?thesis
  proof (cases "cs_status (S cid) = cs_status ?s \<or> \<not> cl_required cl")
    case True
    have same: "cs_status (upd S V (insert cid C) c) = cs_status (upd S V C c)"
      if "c \<in> set (required_claim_ids r a)" for a c
    proof (cases "c = cid")
      case eq: True
      then have "cl_required cl" using that required_claim_answer [OF claims clm] by simp
      then show ?thesis using True eq new by (simp add: upd_def)
    qed (simp add: upd_insert)
    then have maps: "map (\<lambda>c. cs_status (upd S V (insert cid C) c)) (required_claim_ids r a) =
        map (\<lambda>c. cs_status (upd S V C c)) (required_claim_ids r a)" for a
      by (intro map_cong) auto
    then have counters1: "counters_rel r J (upd S V (insert cid C)) ?e1"
      using ct unfolding counters_rel_def maps by simp
    have "answer_state_for r (upd S V (insert cid C)) a = answer_state_for r (upd S V C) a" for a
      by (rule answer_state_for_cong) (rule same)
    then have clean1: "\<forall>a \<in> J - fx_dirty_answers fx.
        answer_state_for r (upd S V (insert cid C)) a = answer_state_for r S a"
      using clean by simp
    obtain st where "flush_claim old_statuses cid fx = Inr (fx\<lparr>fx_engine := ?e1, fx_stats := st\<rparr>)"
      and "stats_frame m0 st"
    proof (cases "cs_status (S cid) = cs_status ?s")
      case True
      have "flush_claim old_statuses cid fx = Inr (fx\<lparr>fx_engine := ?e1, fx_stats := fx_stats fx\<rparr>)"
        using True old_state ref by (simp add: flush_claim_def Let_def)
      then show thesis using stats by (rule that)
    next
      case False
      let ?st = "(fx_stats fx)\<lparr>mt_claim_status_changes := mt_claim_status_changes (fx_stats fx) + 1\<rparr>"
      from True False have "\<not> cl_required cl" by simp
      with False have "flush_claim old_statuses cid fx = Inr (fx\<lparr>fx_engine := ?e1, fx_stats := ?st\<rparr>)"
        using old_state ref req by (simp add: flush_claim_def Let_def)
      moreover have "stats_frame m0 ?st" using stats by (simp add: stats_frame_def)
      ultimately show thesis by (rule that)
    qed
    moreover have "core_rel ?e1 V" by (rule core') simp_all
    ultimately show ?thesis
      using frame1 claims1 counters1 ans dirty clean1 by (auto simp: flush_inv_def)
  next
    case False
    then have ne: "cs_status (S cid) \<noteq> cs_status ?s" and rq: "cl_required cl" by simp_all
    let ?a = "cl_answer_version_id cl"
    have aJ: "?a \<in> J" using closed cid clm rq by (simp add: answers_known_def)
    have to: "dget (en_claim_to_answer ?e) cid = Some ?a" using R(5) cid clm by simp
    from ct aJ obtain counts where counts: "dget (en_answer_status_counts ?e) ?a = Some counts"
      by (auto simp: counters_rel_def)
    then have crel: "counter_rel counts (map (\<lambda>c. cs_status (upd S V C c)) (required_claim_ids r ?a))"
      using ct by (simp add: counters_rel_def)
    let ?counts = "counter_add (cs_status ?s) 1 (counter_add (cs_status (S cid)) (-1) counts)"
    let ?e2 = "?e1\<lparr>en_answer_status_counts := dset ?a ?counts (en_answer_status_counts ?e)\<rparr>"
    let ?fx = "\<lparr>fx_engine = ?e2,
        fx_stats = (fx_stats fx)\<lparr>mt_claim_status_changes := mt_claim_status_changes (fx_stats fx) + 1\<rparr>,
        fx_dirty_answers = insert ?a (fx_dirty_answers fx)\<rparr>"
    have "flush_claim old_statuses cid fx = Inr ?fx"
      using ne rq old_state ref req to counts old by (simp add: flush_claim_def Let_def)
    moreover have "flush_inv r K J V S e0 m0 (insert cid C) ?fx"
    proof -
      let ?f = "\<lambda>c. cs_status (upd S V C c)"
      have mem: "cid \<in> set (required_claim_ids r ?a)" using required_claim_answer [OF claims clm] rq by simp
      have f': "(\<lambda>c. cs_status (upd S V (insert cid C) c)) = ?f(cid := cs_status ?s)"
        by (auto simp: upd_insert)
      have fcid: "?f cid = cs_status (S cid)" using new by (simp add: upd_def)
      have moved: "counter_rel ?counts (map (\<lambda>c. cs_status (upd S V (insert cid C) c)) (required_claim_ids r ?a))"
        unfolding f' using counter_rel_move [OF crel required_claim_ids_distinct [OF claims] mem, of "cs_status ?s"] fcid
        by simp
      have other: "cs_status (upd S V (insert cid C) c) = cs_status (upd S V C c)"
        if "a \<noteq> ?a" "c \<in> set (required_claim_ids r a)" for a c
        using that required_claim_answer [OF claims clm, of a] by (auto simp: upd_insert)
      have counters2: "counters_rel r J (upd S V (insert cid C)) ?e2"
        unfolding counters_rel_def
      proof (intro conjI allI impI)
        show "dom (dget (en_answer_status_counts ?e2)) = J" using ct aJ by (auto simp: counters_rel_def)
      next
        fix a ct' assume a: "dget (en_answer_status_counts ?e2) a = Some ct'"
        show "counter_rel ct' (map (\<lambda>c. cs_status (upd S V (insert cid C) c)) (required_claim_ids r a))"
        proof (cases "a = ?a")
          case True
          then show ?thesis using a moved by simp
        next
          case False
          then have "counter_rel ct' (map (\<lambda>c. cs_status (upd S V C c)) (required_claim_ids r a))"
            using a ct by (simp add: counters_rel_def)
          moreover have "map (\<lambda>c. cs_status (upd S V (insert cid C) c)) (required_claim_ids r a) =
              map (\<lambda>c. cs_status (upd S V C c)) (required_claim_ids r a)"
            using other [OF False] by (intro map_cong) auto
          ultimately show ?thesis by (simp only:)
        qed
      qed
      have clean2: "answer_state_for r (upd S V (insert cid C)) a = answer_state_for r S a"
        if "a \<in> J - insert ?a (fx_dirty_answers fx)" for a
        using that clean answer_state_for_cong [of r a "upd S V (insert cid C)" "upd S V C"] other [of a]
        by auto
      have "core_rel ?e2 V" by (rule core') simp_all
      moreover have "flush_frame e0 ?e2" using frame1 by (simp add: flush_frame_def)
      moreover have "claims_rel K (upd S V (insert cid C)) ?e2" using claims1 by (simp add: claims_rel_def)
      ultimately show ?thesis
        using counters2 ans aJ dirty clean2 stats by (simp add: flush_inv_def stats_frame_def)
    qed
    ultimately show ?thesis by blast
  qed
qed

section \<open>The loop over the dirty answers\<close>

definition flush_answers_inv ::
    "repo \<Rightarrow> string set \<Rightarrow> string set \<Rightarrow> view \<Rightarrow> (string \<Rightarrow> claim_state) \<Rightarrow> (string \<Rightarrow> claim_state) \<Rightarrow>
      engine \<Rightarrow> mutable_stats \<Rightarrow> string set \<Rightarrow> engine \<times> mutable_stats \<Rightarrow> bool" where
  "flush_answers_inv r K J V S T e0 m0 B es \<longleftrightarrow>
     stats_frame m0 (snd es) \<and> core_rel (fst es) V \<and> flush_frame e0 (fst es) \<and>
     claims_rel K T (fst es) \<and> counters_rel r J T (fst es) \<and>
     (\<forall>a. dget (en_answer_states (fst es)) a =
        (if a \<in> J then Some (answer_state_for r (if a \<in> B then T else S) a) else None))"

lemma flush_answer_ok:
  assumes reg: "registry_rel r K J e0" and a: "a \<in> J"
    and inv: "flush_answers_inv r K J V S T e0 m0 B es"
  shows "\<exists>es'. flush_answer a es = Inr es' \<and> flush_answers_inv r K J V S T e0 m0 (insert a B) es'"
proof -
  obtain e m where es: "es = (e, m)" by (cases es)
  from inv have frame: "flush_frame e0 e" and ct: "counters_rel r J T e"
    and ans: "\<And>b. dget (en_answer_states e) b =
        (if b \<in> J then Some (answer_state_for r (if b \<in> B then T else S) b) else None)"
    by (simp_all add: flush_answers_inv_def es)
  have "registry_rel r K J e" using reg flush_frame_registry [OF frame] by simp
  then have req: "dget (en_answer_required_counts e) a =
      Some (int (length (map (\<lambda>c. cs_status (T c)) (required_claim_ids r a))))"
    using registry_relD(8) a by simp
  from ct a obtain counts where counts: "dget (en_answer_status_counts e) a = Some counts"
    by (auto simp: counters_rel_def)
  with ct have crel: "counter_rel counts (map (\<lambda>c. cs_status (T c)) (required_claim_ids r a))"
    by (simp add: counters_rel_def)
  have new: "state_from_answer_counts e a = Inr (answer_state_for r T a)"
    unfolding answer_state_for_def by (rule state_from_answer_counts_ok [OF req counts crel])
  let ?e = "e\<lparr>en_answer_states := dset a (answer_state_for r T a) (en_answer_states e)\<rparr>"
  obtain m' where m': "flush_answer a es = Inr (?e, m')" "stats_frame m m'"
    using ans [of a] a new
    by (auto simp: flush_answer_def es Let_def stats_frame_def split: if_splits)
  have "core_rel ?e V" "flush_frame e0 ?e" "claims_rel K T ?e" "counters_rel r J T ?e"
    using inv by (simp_all add: flush_answers_inv_def es core_rel_def flush_frame_def claims_rel_def
        counters_rel_def)
  moreover have "stats_frame m0 m'"
    using inv m'(2) by (simp add: flush_answers_inv_def es stats_frame_def)
  ultimately have "flush_answers_inv r K J V S T e0 m0 (insert a B) (?e, m')"
    using ans a by (simp add: flush_answers_inv_def)
  with m'(1) show ?thesis by blast
qed

section \<open>Finishing an update\<close>

lemma claim_status_table_ok:
  assumes "claims_rel K S e" and "set cs \<subseteq> K"
  shows "claim_status_table e cs = Inr (map (\<lambda>c. (c, cs_status (S c))) cs)"
  unfolding claim_status_table_def
  by (rule traverse_Inr_map) (use assms in \<open>auto simp: claims_rel_def\<close>)

text \<open>The derived states of the engine are those of the view.\<close>

definition states_rel :: "repo \<Rightarrow> string set \<Rightarrow> string set \<Rightarrow> view \<Rightarrow> engine \<Rightarrow> bool" where
  "states_rel r K J V e \<longleftrightarrow>
     claims_rel K (view_claim_state V) e \<and> counters_rel r J (view_claim_state V) e \<and>
     answers_rel r J (view_claim_state V) e"

lemma base_frame_registry:
  assumes "base_frame e0 e" shows "registry_rel r K J e = registry_rel r K J e0"
  by (simp only: registry_rel_def base_frame_dom [OF assms] assms [unfolded base_frame_def])

lemma base_frame_states:
  assumes "base_frame e0 e" shows "states_rel r K J V e = states_rel r K J V e0"
  by (simp only: states_rel_def claims_rel_def counters_rel_def answers_rel_def
      assms [unfolded base_frame_def])

lemma work_rel_bound:
  assumes "work_rel 0 m n" and "stats_frame m m'"
  shows "st_score_index_shift_work (freeze m' C B) \<le> st_score_index_shift_upper_bound (freeze m' C B)"
proof -
  have "nat (mt_score_index_entries_before m + mt_active_observations_added m) + 1 =
      nat \<bar>mt_score_index_entries_before m + mt_active_observations_added m + 1\<bar>"
    using assms(1) unfolding work_rel_def by arith
  then show ?thesis
    using assms by (simp add: work_rel_def stats_frame_def freeze_def shift_bound_def update_work_bound_def)
qed

lemma finish_update_ok:
  assumes claims: "claims_inv r" and reg: "registry_rel r K J e0"
    and closed: "answers_known r K J"
    and st: "states_rel r K J V0 e0" and ctx: "ctx_inv 0 e0 V0 A L H cx"
  shows "\<exists>e'. finish_update cx = Inr e' \<and> core_rel e' (view_of A L H) \<and> active_rel e' A L \<and>
     registry_rel r K J e' \<and> states_rel r K J (view_of A L H) e' \<and>
     en_state_revision e' = en_state_revision e0 + 1 \<and>
     st_score_index_shift_work (en_last_stats e') \<le> st_score_index_shift_upper_bound (en_last_stats e')"
proof -
  let ?V = "view_of A L H" and ?S = "view_claim_state V0" and ?e = "cx_engine cx" and ?D = "cx_dirty_claims cx"
  from ctx have core: "core_rel ?e ?V" and act: "active_rel ?e A L" and frame: "base_frame e0 ?e"
    and dirty: "dirty_rel V0 ?V ?D" and DK: "?D \<subseteq> K"
    and work: "work_rel 0 (cx_stats cx) (card (dom A))"
    using registry_relD(4) [OF reg] by (auto simp: ctx_inv_def)
  have regE: "registry_rel r K J ?e" and stE: "states_rel r K J V0 ?e"
    using reg st base_frame_registry [OF frame] base_frame_states [OF frame] by simp_all
  have fin: "finite ?D"
    using DK registry_relD(1) [OF reg] finite_dom_map_of by (metis finite_subset)
  let ?ds = "sorted_list_of_set ?D"
  have ds: "set ?ds = ?D" "distinct ?ds" using fin by simp_all
  have table: "claim_status_table ?e ?ds = Inr (map (\<lambda>c. (c, cs_status (?S c))) ?ds)"
    by (rule claim_status_table_ok) (use stE DK ds in \<open>auto simp: states_rel_def\<close>)
  let ?old = "map (\<lambda>c. (c, cs_status (?S c))) ?ds"
  let ?fx = "\<lparr>fx_engine = ?e, fx_stats = cx_stats cx, fx_dirty_answers = {}\<rparr>"
  have upd0: "upd ?S ?V {} = ?S" by (rule ext) (simp add: upd_def)
  have "\<exists>fx. fold_res (flush_claim ?old) ?ds ?fx = Inr fx \<and>
      flush_inv r K J ?V ?S ?e (cx_stats cx) (set ?ds) fx"
  proof (rule fold_res_total_prefix [where P = "\<lambda>ys. flush_inv r K J ?V ?S ?e (cx_stats cx) (set ys)"])
    show "flush_inv r K J ?V ?S ?e (cx_stats cx) (set []) ?fx"
      using core stE by (simp add: flush_inv_def stats_frame_def flush_frame_def upd0 states_rel_def)
  next
    fix ys c zs fx
    assume split: "?ds = ys @ c # zs" and inv: "flush_inv r K J ?V ?S ?e (cx_stats cx) (set ys) fx"
    from split have "c \<in> set ?ds" by simp
    then have cK: "c \<in> K" and old: "dget ?old c = Some (cs_status (?S c))"
      using DK ds by (auto simp: dget_tabulate)
    have "c \<notin> set ys" using ds(2) unfolding split by simp
    from flush_claim_ok [OF claims regE cK old this closed inv]
    show "\<exists>s'. flush_claim ?old c fx = Inr s' \<and>
        flush_inv r K J ?V ?S ?e (cx_stats cx) (set (ys @ [c])) s'" by simp
  qed
  then obtain fx where fx: "fold_res (flush_claim ?old) ?ds ?fx = Inr fx"
    "flush_inv r K J ?V ?S ?e (cx_stats cx) ?D fx" using ds by auto
  have T: "upd ?S ?V ?D = view_claim_state ?V"
    by (rule ext) (use dirty_rel_claim_state [OF dirty] in \<open>simp add: upd_def\<close>)
  let ?T = "view_claim_state ?V" and ?B = "fx_dirty_answers fx"
  from fx(2) have fxi: "stats_frame (cx_stats cx) (fx_stats fx)" "core_rel (fx_engine fx) ?V"
    "flush_frame ?e (fx_engine fx)" "claims_rel K ?T (fx_engine fx)" "counters_rel r J ?T (fx_engine fx)"
    "en_answer_states (fx_engine fx) = en_answer_states ?e" "?B \<subseteq> J"
    "\<forall>a \<in> J - ?B. answer_state_for r ?T a = answer_state_for r ?S a"
    by (simp_all add: flush_inv_def T)
  have finB: "finite ?B"
    using fxi(7) registry_relD(2) [OF reg] finite_dom_map_of by (metis finite_subset)
  let ?bs = "sorted_list_of_set ?B"
  have "\<exists>es. fold_res flush_answer ?bs (fx_engine fx, fx_stats fx) = Inr es \<and>
      flush_answers_inv r K J ?V ?S ?T ?e (cx_stats cx) (set ?bs) es"
  proof (rule fold_res_total_prefix
      [where P = "\<lambda>ys. flush_answers_inv r K J ?V ?S ?T ?e (cx_stats cx) (set ys)"])
    show "flush_answers_inv r K J ?V ?S ?T ?e (cx_stats cx) (set []) (fx_engine fx, fx_stats fx)"
      using fxi stE by (simp add: flush_answers_inv_def states_rel_def answers_rel_def)
  next
    fix ys a zs es
    assume split: "?bs = ys @ a # zs"
      and inv: "flush_answers_inv r K J ?V ?S ?T ?e (cx_stats cx) (set ys) es"
    from split have "a \<in> set ?bs" by simp
    then have "a \<in> J" using finB fxi(7) by auto
    from flush_answer_ok [OF regE this inv]
    show "\<exists>s'. flush_answer a es = Inr s' \<and>
        flush_answers_inv r K J ?V ?S ?T ?e (cx_stats cx) (set (ys @ [a])) s'" by simp
  qed
  then obtain e1 m1 where es: "fold_res flush_answer ?bs (fx_engine fx, fx_stats fx) = Inr (e1, m1)"
    "flush_answers_inv r K J ?V ?S ?T ?e (cx_stats cx) ?B (e1, m1)" using finB by auto
  from es(2) have e1: "stats_frame (cx_stats cx) m1" "core_rel e1 ?V" "flush_frame ?e e1"
    "claims_rel K ?T e1" "counters_rel r J ?T e1"
    and ans1: "\<And>a. dget (en_answer_states e1) a =
        (if a \<in> J then Some (answer_state_for r (if a \<in> ?B then ?T else ?S) a) else None)"
    by (simp_all add: flush_answers_inv_def)
  have ans: "answers_rel r J ?T e1"
    unfolding answers_rel_def using ans1 fxi(8) by auto
  let ?e' = "e1\<lparr>en_last_stats := freeze m1 ?D ?B, en_state_revision := en_state_revision e1 + 1\<rparr>"
  have "finish_update cx = Inr ?e'"
    using table fx(1) es(1) by (simp add: finish_update_def Let_def)
  moreover have "core_rel ?e' ?V" using e1(2) by (simp add: core_rel_def)
  moreover have "active_rel e1 A L"
    using act flush_frame_active [OF e1(3), of A L] by blast
  then have "active_rel ?e' A L" by (simp add: active_rel_def)
  moreover have "registry_rel r K J e1"
    using regE flush_frame_registry [OF e1(3), of r K J] by blast
  then have "registry_rel r K J ?e'" by (simp add: registry_rel_def)
  moreover have "states_rel r K J ?V ?e'"
    using e1(4,5) ans by (simp add: states_rel_def claims_rel_def counters_rel_def answers_rel_def)
  moreover have "en_state_revision ?e' = en_state_revision e0 + 1"
    using e1(3) frame by (simp add: flush_frame_def base_frame_def)
  moreover have "st_score_index_shift_work (en_last_stats ?e') \<le> st_score_index_shift_upper_bound (en_last_stats ?e')"
    using work_rel_bound [OF work e1(1)] by simp
  ultimately show ?thesis by blast
qed

end
