(* ===== verification/GL_EngineProofs.thy ===== *)
theory GL_EngineProofs
  imports GL_EngineFlush
begin

text \<open>
  The engine relation, and that every public operation of the engine keeps it: registry
  synchronisation, construction from a repository, and the maintenance of a committed event.
\<close>

section \<open>The engine relation\<close>

definition engine_at ::
    "repo \<Rightarrow> string set \<Rightarrow> string set \<Rightarrow> (string \<rightharpoonup> semantic_observation) \<Rightarrow> (string \<rightharpoonup> verification_label) \<Rightarrow>
      view \<Rightarrow> engine \<Rightarrow> bool" where
  "engine_at r K J A L V e \<longleftrightarrow>
     active_rel e A L \<and> core_rel e V \<and> registry_rel r K J e \<and> states_rel r K J V e"

definition engine_for :: "repo \<Rightarrow> decision_policy \<Rightarrow> string set \<Rightarrow> string set \<Rightarrow> engine \<Rightarrow> bool" where
  "engine_for r p K J e \<longleftrightarrow>
     engine_at r K J (active_observation r) (labels_of p (active_observation r)) (repo_view r p) e"

text \<open>
  \<open>engine_rel r e\<close>: the engine represents the repository, though claims and answers registered
  since its last synchronisation may be missing; \<open>engine_synced\<close>: none is missing.
\<close>

definition engine_rel :: "repo \<Rightarrow> engine \<Rightarrow> bool" where
  "engine_rel r e \<longleftrightarrow> (\<exists>p K J. policy_for r p \<and> engine_for r p K J e)"

definition engine_synced :: "repo \<Rightarrow> engine \<Rightarrow> bool" where
  "engine_synced r e \<longleftrightarrow>
     (\<exists>p. policy_for r p \<and> engine_for r p (dom (dget (claims r))) (dom (dget (answers r))) e)"

lemma engine_synced_rel: "engine_synced r e \<Longrightarrow> engine_rel r e"
  unfolding engine_synced_def engine_rel_def by blast

section \<open>Rebuilding the answer aggregates\<close>

lemma count_claims_ok:
  assumes "claims_rel K S e" and "set cs \<subseteq> K" and "registry_rel r K J e"
    and "counter_rel ct sts"
  shows "\<exists>ct'. fold_res (count_claim e) cs ct = Inr ct' \<and>
     counter_rel ct' (sts @ map (\<lambda>c. cs_status (S c))
       (filter (\<lambda>c. case dget (claims r) c of None \<Rightarrow> False | Some cl \<Rightarrow> cl_required cl) cs))"
  using assms(2,4)
proof (induction cs arbitrary: ct sts)
  case (Cons c cs)
  note R = registry_relD [OF assms(3)]
  from Cons.prems R(1) obtain cl where cl: "dget (claims r) c = Some cl" by auto
  have req: "dget (en_claim_required e) c = Some (cl_required cl)" using R(6) cl Cons.prems by simp
  have state: "dget (en_claim_states e) c = Some (S c)" using assms(1) Cons.prems by (simp add: claims_rel_def)
  show ?case
  proof (cases "cl_required cl")
    case True
    have "counter_rel (counter_add (cs_status (S c)) 1 ct) (sts @ [cs_status (S c)])"
      using Cons.prems(2) by (auto simp: counter_rel_def)
    from Cons.IH [OF _ this] Cons.prems(1) show ?thesis
      using True cl req state by (simp add: count_claim_def)
  next
    case False
    from Cons.IH [OF _ Cons.prems(2)] Cons.prems(1) show ?thesis
      using False cl req by (simp add: count_claim_def)
  qed
qed simp

definition rebuild_inv :: "repo \<Rightarrow> (string \<Rightarrow> claim_state) \<Rightarrow> engine \<Rightarrow> string set \<Rightarrow> engine \<Rightarrow> bool" where
  "rebuild_inv r S e0 B e \<longleftrightarrow>
     (\<exists>cs as. e = e0\<lparr>en_answer_status_counts := cs, en_answer_states := as\<rparr>) \<and>
     counters_rel r B S e \<and> answers_rel r B S e"

lemma rebuild_answer_ok:
  assumes reg: "registry_rel r K J e0" and cl: "claims_rel K S e0" and a: "a \<in> J"
    and inv: "rebuild_inv r S e0 B e"
  shows "\<exists>e'. rebuild_answer a e = Inr e' \<and> rebuild_inv r S e0 (insert a B) e'"
proof -
  from inv obtain cs as where e: "e = e0\<lparr>en_answer_status_counts := cs, en_answer_states := as\<rparr>"
    and ct: "counters_rel r B S e" and ans: "answers_rel r B S e"
    by (auto simp: rebuild_inv_def)
  have regE: "registry_rel r K J e" using reg by (simp add: e registry_rel_def)
  note R = registry_relD [OF regE]
  have clE: "claims_rel K S e" using cl by (simp add: e claims_rel_def)
  have "counter_rel [] []" by (simp add: counter_rel_def dget_default_def)
  from count_claims_ok [OF clE R(3) [OF a] regE this] obtain counts where
    counts: "fold_res (count_claim e) (claim_ids_of_answer r a) [] = Inr counts"
      "counter_rel counts (map (\<lambda>c. cs_status (S c)) (required_claim_ids r a))"
    by (auto simp: required_claim_ids_def)
  let ?e1 = "e\<lparr>en_answer_status_counts := dset a counts (en_answer_status_counts e)\<rparr>"
  have st: "state_from_answer_counts ?e1 a = Inr (answer_state_for r S a)"
    unfolding answer_state_for_def
    by (rule state_from_answer_counts_ok [OF _ _ counts(2)]) (use R(8) a in simp_all)
  let ?e2 = "?e1\<lparr>en_answer_states := dset a (answer_state_for r S a) (en_answer_states e)\<rparr>"
  have "rebuild_answer a e = Inr ?e2"
    using R(7) a counts(1) st by (simp add: rebuild_answer_def Let_def)
  moreover have "counters_rel r (insert a B) S ?e2" "answers_rel r (insert a B) S ?e2"
    using ct ans counts(2) by (auto simp: counters_rel_def answers_rel_def)
  moreover have "\<exists>cs as. ?e2 = e0\<lparr>en_answer_status_counts := cs, en_answer_states := as\<rparr>"
    unfolding e by (intro exI) simp
  ultimately show ?thesis by (simp only: rebuild_inv_def) blast
qed

lemma rebuild_ok:
  assumes reg: "registry_rel r K J e" and J: "J = dom (dget (answers r))" and cl: "claims_rel K S e"
  shows "\<exists>cs as. rebuild_answer_aggregates r e =
       Inr (e\<lparr>en_answer_status_counts := cs, en_answer_states := as\<rparr>) \<and>
     (\<forall>e'. en_answer_status_counts e' = cs \<longrightarrow> en_answer_states e' = as \<longrightarrow>
        counters_rel r J S e' \<and> answers_rel r J S e')"
proof -
  let ?e0 = "e\<lparr>en_answer_status_counts := [], en_answer_states := []\<rparr>"
  have ids: "set (all_answer_ids r) = J" unfolding J all_answer_ids_def by (rule set_dkeys)
  have "\<exists>e'. fold_res rebuild_answer (all_answer_ids r) ?e0 = Inr e' \<and>
      rebuild_inv r S e (set (all_answer_ids r)) e'"
  proof (rule fold_res_total_prefix [where P = "\<lambda>ys. rebuild_inv r S e (set ys)"])
    have "\<exists>cs as. ?e0 = e\<lparr>en_answer_status_counts := cs, en_answer_states := as\<rparr>" by (intro exI) simp
    then show "rebuild_inv r S e (set []) ?e0"
      by (simp add: rebuild_inv_def counters_rel_def answers_rel_def)
  next
    fix ys a zs e1
    assume "all_answer_ids r = ys @ a # zs" and inv: "rebuild_inv r S e (set ys) e1"
    then have "a \<in> J" using ids by auto
    from rebuild_answer_ok [OF reg cl this inv]
    show "\<exists>s'. rebuild_answer a e1 = Inr s' \<and> rebuild_inv r S e (set (ys @ [a])) s'" by simp
  qed
  then obtain e' where e': "fold_res rebuild_answer (all_answer_ids r) ?e0 = Inr e'"
    "rebuild_inv r S e J e'" using ids by auto
  then obtain cs as where e'': "e' = e\<lparr>en_answer_status_counts := cs, en_answer_states := as\<rparr>"
    and rel: "counters_rel r J S e'" "answers_rel r J S e'"
    by (auto simp: rebuild_inv_def)
  have "counters_rel r J S x \<and> answers_rel r J S x"
    if "en_answer_status_counts x = cs" "en_answer_states x = as" for x
    using rel that by (simp add: e'' counters_rel_def answers_rel_def)
  then show ?thesis using e'(1) e'' by (auto simp: rebuild_answer_aggregates_def)
qed

section \<open>Synchronising the registry\<close>

definition sync_inv ::
    "repo \<Rightarrow> string set \<Rightarrow> string set \<Rightarrow> (string \<rightharpoonup> semantic_observation) \<Rightarrow> (string \<rightharpoonup> verification_label) \<Rightarrow>
      view \<Rightarrow> engine \<Rightarrow> engine \<Rightarrow> bool" where
  "sync_inv r K J A L V e0 e \<longleftrightarrow>
     active_rel e A L \<and> core_rel e V \<and> registry_rel r K J e \<and> claims_rel K (view_claim_state V) e \<and>
     en_answer_status_counts e = en_answer_status_counts e0 \<and>
     en_answer_states e = en_answer_states e0 \<and> en_state_revision e = en_state_revision e0"

lemma new_claim_witnesses:
  assumes "core_rel e V" and "c \<notin> dom (dget (en_claim_accumulators e))"
  shows "witnesses V c l = {}"
  unfolding witnesses_def using core_relD(7) [OF assms(1)] assms(2) by fast

lemma sync_claim_ok:
  assumes c: "c \<in> dom (dget (claims r))" and inv: "sync_inv r K J A L V e0 e"
  shows "\<exists>e'. sync_claim r c (b, e) = Inr (b \<or> c \<notin> K, e') \<and> sync_inv r (insert c K) J A L V e0 e'"
proof (cases "c \<in> K")
  case True
  then have "insert c K = K" by auto
  moreover have "dmem c (en_claim_accumulators e)"
    using inv True by (auto simp: sync_inv_def registry_rel_def dmem_def)
  ultimately show ?thesis using True inv by (simp add: sync_claim_def)
next
  case False
  from inv have act: "active_rel e A L" and core: "core_rel e V" and reg: "registry_rel r K J e"
    and cl: "claims_rel K (view_claim_state V) e"
    by (simp_all add: sync_inv_def)
  note R = registry_relD [OF reg]
  have fresh: "c \<notin> dom (dget (en_claim_accumulators e))" using False R(4) by simp
  then have nomem: "\<not> dmem c (en_claim_accumulators e)" by (simp add: dmem_def domIff)
  from c obtain x where x: "dget (claims r) c = Some x" by blast
  let ?e1 = "e\<lparr>en_claim_accumulators := dset c new_accumulator (en_claim_accumulators e),
                en_claim_to_answer := dset c (cl_answer_version_id x) (en_claim_to_answer e),
                en_claim_required := dset c (cl_required x) (en_claim_required e)\<rparr>"
  have "acc_rel new_accumulator V c"
    by (rule new_accumulator_rel) (rule new_claim_witnesses [OF core fresh])
  then have core1: "core_rel ?e1 V"
    using core_relD [OF core] unfolding core_rel_def by (auto split: if_splits)
  have "c \<in> dom (dget (en_claim_accumulators ?e1))" by simp
  from refresh_claim_ok [OF core1 this] obtain acs where
    ref: "refresh_claim c ?e1 = Inr (?e1\<lparr>en_claim_accumulators := acs,
       en_claim_states := dset c (view_claim_state V c) (en_claim_states ?e1),
       en_certificates := dset c (certificate_from_state (view_claim_state V c)) (en_certificates ?e1)\<rparr>)"
    and keys: "dkeys acs = dkeys (en_claim_accumulators ?e1)"
    and core': "\<And>e'. en_claim_accumulators e' = acs \<Longrightarrow> en_contributions e' = en_contributions ?e1 \<Longrightarrow> core_rel e' V"
    by blast
  let ?e2 = "?e1\<lparr>en_claim_accumulators := acs,
       en_claim_states := dset c (view_claim_state V c) (en_claim_states ?e1),
       en_certificates := dset c (certificate_from_state (view_claim_state V c)) (en_certificates ?e1)\<rparr>"
  have dom: "dom (dget acs) = insert c K"
    using keys R(4) unfolding set_dkeys [symmetric] by (simp add: dkeys_dset) (auto simp: set_dkeys)
  have "core_rel ?e2 V" by (rule core') simp_all
  moreover have "active_rel ?e2 A L"
    using act dom R(4) by (auto simp: active_rel_def)
  moreover have "registry_rel r (insert c K) J ?e2"
    unfolding registry_rel_def
  proof (intro conjI allI)
    show "insert c K \<subseteq> dom (dget (claims r))" using R(1) c by auto
    show "\<forall>a\<in>J. set (claim_ids_of_answer r a) \<subseteq> insert c K" using R(3) by blast
  qed (use R dom x in auto)
  moreover have "claims_rel (insert c K) (view_claim_state V) ?e2"
    using cl by (auto simp: claims_rel_def)
  moreover have "sync_claim r c (b, e) = Inr (True, ?e2)"
    using nomem x ref by (simp add: sync_claim_def claim_of_def)
  ultimately show ?thesis using False inv by (simp add: sync_inv_def)
qed

lemma sync_answer_ok:
  assumes a: "a \<in> dom (dget (answers r))" and K: "set (claim_ids_of_answer r a) \<subseteq> K"
    and inv: "sync_inv r K J A L V e0 e"
  shows "\<exists>e'. sync_answer r a (b, e) = Inr (b \<or> a \<notin> J, e') \<and> sync_inv r K (insert a J) A L V e0 e'"
proof -
  from inv have act: "active_rel e A L" and core: "core_rel e V" and reg: "registry_rel r K J e"
    and cl: "claims_rel K (view_claim_state V) e"
    by (simp_all add: sync_inv_def)
  note R = registry_relD [OF reg]
  let ?cs = "claim_ids_of_answer r a"
  let ?req = "\<lambda>c. case dget (claims r) c of None \<Rightarrow> False | Some x \<Rightarrow> cl_required x"
  have flags: "traverse (lookup KeyError (en_claim_required e)) ?cs = Inr (map ?req ?cs)"
  proof (rule traverse_Inr_map)
    fix c assume "c \<in> set ?cs"
    then obtain x where "dget (claims r) c = Some x" "c \<in> K" using K R(1) by blast
    then show "lookup KeyError (en_claim_required e) c = Inr (?req c)" using R(6) by simp
  qed
  have len: "length (filter id (map ?req ?cs)) = length (required_claim_ids r a)"
    by (simp add: required_claim_ids_def filter_map comp_def)
  let ?e = "e\<lparr>en_answer_to_claims := dset a ?cs (en_answer_to_claims e),
     en_answer_required_counts := dset a (int (length (required_claim_ids r a))) (en_answer_required_counts e)\<rparr>"
  have "sync_answer r a (b, e) = Inr (b \<or> a \<notin> J, ?e)"
    using R(7) [of a] flags len by (auto simp: sync_answer_def Let_def)
  moreover have "registry_rel r K (insert a J) ?e"
    unfolding registry_rel_def
  proof (intro conjI allI)
    show "insert a J \<subseteq> dom (dget (answers r))" using R(2) a by auto
    show "\<forall>b \<in> insert a J. set (claim_ids_of_answer r b) \<subseteq> K" using R(3) K by blast
  qed (use R in auto)
  ultimately show ?thesis
    using inv act core cl by (simp add: sync_inv_def active_rel_def core_rel_def claims_rel_def)
qed

lemma claim_answers_registered:
  assumes "claims_inv r"
  shows "dget (claims r) c = Some cl \<Longrightarrow> cl_answer_version_id cl \<in> dom (dget (answers r))"
    and "set (claim_ids_of_answer r a) \<subseteq> dom (dget (claims r))"
proof -
  have lists: "claim_lists_inv r" and dom: "dom (dget (claims_by_answer r)) = dom (dget (answers r))"
    using assms by (simp_all add: claims_inv_split)
  show "set (claim_ids_of_answer r a) \<subseteq> dom (dget (claims r))" by (rule claim_ids_of_answer_dom [OF assms])
  assume "dget (claims r) c = Some cl"
  then have "c \<in> set (claim_ids_of_answer r (cl_answer_version_id cl))" by (rule claim_lists_invD(2) [OF lists])
  then show "cl_answer_version_id cl \<in> dom (dget (answers r))"
    unfolding dom [symmetric] claim_ids_of_answer_def by (rule dget_default_memD)
qed

lemma sync_registry_ok:
  assumes claims: "claims_inv r" and eng: "engine_at r K J A L V e"
  shows "\<exists>b e'. sync_registry r e = Inr (b, e') \<and>
     engine_at r (dom (dget (claims r))) (dom (dget (answers r))) A L V e' \<and>
     (b \<longleftrightarrow> K \<noteq> dom (dget (claims r)) \<or> J \<noteq> dom (dget (answers r))) \<and>
     en_state_revision e' = en_state_revision e + of_bool b"
proof -
  let ?K = "dom (dget (claims r))" and ?J = "dom (dget (answers r))"
  from eng have inv0: "sync_inv r K J A L V e e" and st: "states_rel r K J V e"
    and sub: "K \<subseteq> ?K" "J \<subseteq> ?J"
    by (auto simp: engine_at_def sync_inv_def states_rel_def registry_rel_def)
  have ids: "set (all_claim_ids r) = ?K" "set (all_answer_ids r) = ?J"
    unfolding all_claim_ids_def all_answer_ids_def by (rule set_dkeys)+
  let ?P = "\<lambda>ys ce. fst ce = (\<not> set ys \<subseteq> K) \<and> sync_inv r (K \<union> set ys) J A L V e (snd ce)"
  have "\<exists>ce. fold_res (sync_claim r) (all_claim_ids r) (False, e) = Inr ce \<and> ?P (all_claim_ids r) ce"
  proof (rule fold_res_total_prefix [where P = ?P])
    show "?P [] (False, e)" using inv0 by simp
  next
    fix ys c zs ce
    assume split: "all_claim_ids r = ys @ c # zs" and inv: "?P ys ce"
    obtain b e1 where ce: "ce = (b, e1)" by (cases ce)
    have "c \<in> ?K" using split ids by auto
    from sync_claim_ok [OF this, of "K \<union> set ys" J A L V e e1 b] inv ce obtain e' where
      "sync_claim r c (b, e1) = Inr (b \<or> c \<notin> K \<union> set ys, e')"
      "sync_inv r (insert c (K \<union> set ys)) J A L V e e'" by auto
    then show "\<exists>s'. sync_claim r c ce = Inr s' \<and> ?P (ys @ [c]) s'"
      using inv ce by auto
  qed
  then obtain b1 e1 where claims1: "fold_res (sync_claim r) (all_claim_ids r) (False, e) = Inr (b1, e1)"
    and b1: "b1 \<longleftrightarrow> \<not> ?K \<subseteq> K" and inv1: "sync_inv r ?K J A L V e e1"
    using ids sub by (auto simp: Un_absorb1)
  let ?Q = "\<lambda>ys ce. fst ce = (b1 \<or> \<not> set ys \<subseteq> J) \<and> sync_inv r ?K (J \<union> set ys) A L V e (snd ce)"
  have "\<exists>ce. fold_res (sync_answer r) (all_answer_ids r) (b1, e1) = Inr ce \<and> ?Q (all_answer_ids r) ce"
  proof (rule fold_res_total_prefix [where P = ?Q])
    show "?Q [] (b1, e1)" using inv1 by simp
  next
    fix ys a zs ce
    assume split: "all_answer_ids r = ys @ a # zs" and inv: "?Q ys ce"
    obtain b e2 where ce: "ce = (b, e2)" by (cases ce)
    have "a \<in> ?J" using split ids by auto
    from sync_answer_ok [OF this claim_answers_registered(2) [OF claims], of "J \<union> set ys" A L V e e2 b] inv ce
    obtain e' where "sync_answer r a (b, e2) = Inr (b \<or> a \<notin> J \<union> set ys, e')"
      "sync_inv r ?K (insert a (J \<union> set ys)) A L V e e'" by auto
    then show "\<exists>s'. sync_answer r a ce = Inr s' \<and> ?Q (ys @ [a]) s'"
      using inv ce by auto
  qed
  then obtain b2 e2 where answers2: "fold_res (sync_answer r) (all_answer_ids r) (b1, e1) = Inr (b2, e2)"
    and b2: "b2 \<longleftrightarrow> b1 \<or> \<not> ?J \<subseteq> J" and inv2: "sync_inv r ?K ?J A L V e e2"
    using ids sub by (auto simp: Un_absorb1)
  from inv2 have reg2: "registry_rel r ?K ?J e2" and cl2: "claims_rel ?K (view_claim_state V) e2"
    and act2: "active_rel e2 A L" and core2: "core_rel e2 V"
    and same2: "en_answer_status_counts e2 = en_answer_status_counts e"
      "en_answer_states e2 = en_answer_states e" "en_state_revision e2 = en_state_revision e"
    by (simp_all add: sync_inv_def)
  have b2': "b2 \<longleftrightarrow> K \<noteq> ?K \<or> J \<noteq> ?J" using b1 b2 sub by auto
  show ?thesis
  proof (cases b2)
    case True
    from rebuild_ok [OF reg2 refl cl2] obtain cs as where
      rb: "rebuild_answer_aggregates r e2 = Inr (e2\<lparr>en_answer_status_counts := cs, en_answer_states := as\<rparr>)"
      and rel: "\<And>e'. en_answer_status_counts e' = cs \<Longrightarrow> en_answer_states e' = as \<Longrightarrow>
        counters_rel r ?J (view_claim_state V) e' \<and> answers_rel r ?J (view_claim_state V) e'"
      by blast
    let ?e = "e2\<lparr>en_answer_status_counts := cs, en_answer_states := as,
                  en_state_revision := en_state_revision e2 + 1\<rparr>"
    have "sync_registry r e = Inr (True, ?e)"
      using claims1 answers2 True rb by (simp add: sync_registry_def)
    moreover have "engine_at r ?K ?J A L V ?e"
      using act2 core2 reg2 cl2 rel [of ?e]
      by (simp add: engine_at_def active_rel_def core_rel_def registry_rel_def states_rel_def claims_rel_def)
    ultimately show ?thesis using True b2' same2 by auto
  next
    case False
    then have KJ: "K = ?K" "J = ?J" using b2' by auto
    have "counters_rel r ?J (view_claim_state V) e2" "answers_rel r ?J (view_claim_state V) e2"
      using st KJ same2 by (simp_all add: states_rel_def counters_rel_def answers_rel_def)
    then have "engine_at r ?K ?J A L V e2"
      using act2 core2 reg2 cl2 by (simp add: engine_at_def states_rel_def)
    moreover have "sync_registry r e = Inr (False, e2)"
      using claims1 answers2 False by (simp add: sync_registry_def)
    ultimately show ?thesis using False b2' same2 by auto
  qed
qed

section \<open>Committed events\<close>

lemma engine_for_repo_view:
  assumes "observations_inv r"
  shows "engine_for r p K J e \<longleftrightarrow>
     engine_at r K J (active_observation r) (labels_of p (active_observation r))
       (view_of (active_observation r) (labels_of p (active_observation r)) (chunk_text_hash r)) e"
  unfolding engine_for_def repo_view_view_of [OF assms] ..

lemma registry_rel_cong:
  assumes "claims r' = claims r" and "answers r' = answers r" and "claims_by_answer r' = claims_by_answer r"
  shows "registry_rel r' K J e = registry_rel r K J e"
    and "states_rel r' K J V e = states_rel r K J V e"
  by (simp_all add: registry_rel_def states_rel_def counters_rel_def answers_rel_def answer_state_for_def
      required_claim_ids_def claim_ids_of_answer_def assms)

lemma mutate_policy:
  assumes "mutate sha r ev m = Inr r1"
  shows "is_policy_event ev \<Longrightarrow> current_policy r1 = Inr (next_policy ev p)"
    and "\<not> is_policy_event ev \<Longrightarrow> current_policy r1 = current_policy r"
proof -
  show "current_policy r1 = Inr (next_policy ev p)" if "is_policy_event ev"
    using that assms by (cases ev) (auto simp: current_policy_def elim!: activate_policy_fields)
  show "current_policy r1 = current_policy r" if "\<not> is_policy_event ev"
  proof -
    have "policies r1 = policies r \<and> current_policy_version r1 = current_policy_version r"
      using that assms
      by (cases ev)
        (auto simp: insert_version_def register_observation_Inr elim!: bind_res_InrE
          dest!: register_document_version_claims deactivate_document_version_claims)
    then show ?thesis by (simp add: current_policy_def cong: option.case_cong)
  qed
qed

lemma policy_for_next:
  assumes "mutate sha (r\<lparr>current_epoch := n\<rparr>) ev m = Inr r1" and "policy_for r p"
  shows "policy_for r1 (next_policy ev p)"
proof (cases "is_policy_event ev")
  case True
  then show ?thesis using mutate_policy(1) [OF assms(1)] by (simp add: policy_for_def)
next
  case False
  then have "next_policy ev p = p" by (cases ev) auto
  then show ?thesis
    using mutate_policy(2) [OF assms(1) False] mutate_registry [OF assms(1)] assms(2)
    by (simp add: policy_for_def)
qed

text \<open>Synchronised maintenance: the engine follows an accepted event.\<close>

lemma apply_committed_event_ok:
  assumes inv: "repo_inv r" and pol: "policy_for r p"
    and eng: "engine_for r p K J e"
    and ok: "apply_event sha dig r ev = Inr (ds, r')" and new: "recorded_event r (event_id ev) = None"
    and first: "is_policy_event ev \<Longrightarrow> current_policy r = Inr p"
    and tie: "dp_tie_rule_version (next_policy ev p) = dp_tie_rule_version p"
  shows "\<exists>e'. apply_committed_event ev r r' e = Inr e' \<and>
     policy_for r' (next_policy ev p) \<and>
     engine_for r' (next_policy ev p) (dom (dget (claims r'))) (dom (dget (answers r'))) e' \<and>
     st_score_index_shift_work (en_last_stats e') \<le> st_score_index_shift_upper_bound (en_last_stats e')"
proof -
  let ?n = "Suc (current_epoch r)" and ?q = "next_policy ev p"
  let ?K = "dom (dget (claims r))" and ?J = "dom (dget (answers r))"
  from ok new obtain r1 where
    mut: "mutate sha (r\<lparr>current_epoch := ?n\<rparr>) ev ?n = Inr r1"
    and r': "r' = record_event r1 (event_id ev) (dig ev) ds"
    by (rule apply_event_fresh)
  have obs: "observations_inv r" and claims: "claims_inv r" using inv by (simp_all add: repo_inv_def)
  have inv1: "repo_inv r1" using inv mut by (metis mutate_inv repo_inv_epoch_update)
  have inv': "repo_inv r'" unfolding r' by (rule repo_inv_record_event [OF inv1])
  let ?A = "active_observation r" and ?L = "labels_of p (active_observation r)" and ?H = "chunk_text_hash r"
  let ?V0 = "view_of ?A ?L ?H"
  from sync_registry_ok [OF claims eng [unfolded engine_for_repo_view [OF obs]]] obtain b e1 where
    sync: "sync_registry r e = Inr (b, e1)" and e1: "engine_at r ?K ?J ?A ?L ?V0 e1" by blast
  let ?cx = "\<lparr>cx_engine = e1, cx_dirty_claims = {},
      cx_stats = new_stats\<lparr>mt_score_index_entries_before := avl_size (support_entries (en_score_index e1))\<rparr>\<rparr>"
  have size: "avl_size (support_entries (en_score_index e1)) = int (card (dom ?A))"
    using e1 by (intro index_size(1)) (simp add: engine_at_def active_rel_def)
  have ctx: "ctx_inv 0 e1 ?V0 ?A ?L ?H ?cx"
    using e1 unfolding ctx_inv_def
    by (simp add: engine_at_def base_frame_refl dirty_rel_refl work_rel_def shift_bound_def new_stats_def size)
  have domK: "dom (dget (en_claim_accumulators e1)) = ?K"
    using e1 by (simp add: engine_at_def registry_rel_def)
  have after: "chunk_validity r' = chunk_validity r1" "chunk_versions r' = chunk_versions r1"
    "current_policy r' = current_policy r1"
    by (simp_all add: r') (simp_all add: record_event_def)
  from maintain_base_ok [OF inv mut after pol first tie domK ctx] obtain cx' where
    base: "maintain_base ev r r' ?cx = Inr cx'"
    and ctx': "ctx_inv 0 e1 ?V0 (active_observation r1) (labels_of ?q (active_observation r1)) (chunk_text_hash r1) cx'"
    by blast
  have closed: "answers_known r ?K ?J"
    using claim_answers_registered(1) [OF claims] by (simp add: answers_known_def)
  have regs: "registry_rel r ?K ?J e1" "states_rel r ?K ?J ?V0 e1" using e1 by (simp_all add: engine_at_def)
  from finish_update_ok [OF claims regs(1) closed regs(2) ctx'] obtain e' where
    fin: "finish_update cx' = Inr e'"
    and core': "core_rel e' (view_of (active_observation r1) (labels_of ?q (active_observation r1)) (chunk_text_hash r1))"
    and act': "active_rel e' (active_observation r1) (labels_of ?q (active_observation r1))"
    and reg': "registry_rel r ?K ?J e'"
    and st': "states_rel r ?K ?J
        (view_of (active_observation r1) (labels_of ?q (active_observation r1)) (chunk_text_hash r1)) e'"
    and work': "st_score_index_shift_work (en_last_stats e') \<le> st_score_index_shift_upper_bound (en_last_stats e')"
    by blast
  have same: "claims r' = claims r" "answers r' = answers r" "claims_by_answer r' = claims_by_answer r"
    using mutate_registry [OF mut] by (simp_all add: r' record_event_def)
  have act1: "active_observation r' = active_observation r1"
    unfolding r' by (rule active_observation_cong) (simp_all add: record_event_def)
  have hash1: "chunk_text_hash r' = chunk_text_hash r1"
    by (rule ext) (simp add: r' chunk_text_hash_def record_event_def)
  have obs': "observations_inv r'" using inv' by (simp add: repo_inv_def)
  have "engine_for r' ?q (dom (dget (claims r'))) (dom (dget (answers r'))) e'"
    unfolding engine_for_repo_view [OF obs'] engine_at_def registry_rel_cong [OF same] act1 hash1
    using core' act' reg' st' by (simp add: same)
  moreover have "policy_for r' ?q"
    using policy_for_next [OF mut pol] by (simp add: policy_for_def r' same) (simp add: record_event_def)
  moreover have "apply_committed_event ev r r' e = Inr e'"
    using sync base fin by (simp add: apply_committed_event_def)
  ultimately show ?thesis using work' by blast
qed

section \<open>Construction from a repository\<close>

lemma base_frame_trans: "base_frame a b \<Longrightarrow> base_frame b c \<Longrightarrow> base_frame a c"
  by (simp add: base_frame_def)

lemma new_engine_at: "engine_at r {} {} (\<lambda>_. None) (\<lambda>_. None) (\<lambda>_. None) new_engine"
  by (simp add: engine_at_def new_engine_def active_rel_def core_rel_def registry_rel_def states_rel_def
      claims_rel_def counters_rel_def answers_rel_def index_new_stores)

text \<open>The active observations among the first ones of a list.\<close>

definition active_among :: "repo \<Rightarrow> semantic_observation list \<Rightarrow> string \<rightharpoonup> semantic_observation" where
  "active_among r obs i =
     (case active_observation r i of
        None \<Rightarrow> None | Some ob \<Rightarrow> if ob \<in> set obs then Some ob else None)"

lemma active_among_Some:
  "active_among r obs i = Some ob \<longleftrightarrow> active_observation r i = Some ob \<and> ob \<in> set obs"
  by (auto simp: active_among_def split: option.splits)

lemma activate_current_ok:
  assumes obs: "observations_inv r" and pol: "policy_for r p"
    and ob: "dget (observations r) (ob_observation_id ob) = Some ob" "is_current r ob" "ob \<notin> set ys"
    and frame: "base_frame e0 e" and dom: "dom (dget (en_claim_accumulators e0)) = dom (dget (claims r))"
    and act: "active_rel e (active_among r ys) (labels_of p (active_among r ys))"
    and core: "core_rel e (view_of (active_among r ys) (labels_of p (active_among r ys)) (chunk_text_hash r))"
  shows "\<exists>e'. activate_current r ob e = Inr e' \<and> base_frame e0 e' \<and>
     active_rel e' (active_among r (ys @ [ob])) (labels_of p (active_among r (ys @ [ob]))) \<and>
     core_rel e' (view_of (active_among r (ys @ [ob])) (labels_of p (active_among r (ys @ [ob]))) (chunk_text_hash r))"
proof -
  let ?i = "ob_observation_id ob" and ?A = "active_among r ys"
  show ?thesis
  proof (cases "is_chunk_active r (ob_chunk_version_id ob)")
    case False
    have "active_among r (ys @ [ob]) = ?A"
    proof (rule ext, rule option_ext)
      fix j x
      show "active_among r (ys @ [ob]) j = Some x \<longleftrightarrow> ?A j = Some x"
        using False by (auto simp: active_among_Some active_observation_Some)
    qed
    then show ?thesis using False act core frame by (simp add: activate_current_def)
  next
    case True
    have A': "active_among r (ys @ [ob]) = ?A(?i \<mapsto> ob)"
    proof (rule ext, rule option_ext)
      fix j x
      show "active_among r (ys @ [ob]) j = Some x \<longleftrightarrow> (?A(?i \<mapsto> ob)) j = Some x"
        using True ob observations_invD(1) [OF obs, of j x]
        by (auto simp: active_among_Some active_observation_Some)
    qed
    have fresh: "?A ?i = None"
      using ob by (auto simp: active_among_def active_observation_def)
    have claim: "ob_subject_kind ob = CLAIM" "ob_subject_id ob \<in> dom (dget (claims r))"
      and "ob_chunk_version_id ob \<in> dom (dget (chunk_versions r))"
      using observations_invD(2-4) [OF obs ob(1)] by simp_all
    then obtain cv where cv: "dget (chunk_versions r) (ob_chunk_version_id ob) = Some cv" by blast
    have h: "cv_text_hash cv = chunk_text_hash r (ob_chunk_version_id ob)"
      using cv by (simp add: chunk_text_hash_def)
    have p: "current_policy r = Inr p" using pol claim(2) by (auto simp: policy_for_def)
    let ?cx = "\<lparr>cx_engine = e, cx_dirty_claims = {}, cx_stats = new_stats\<rparr>"
    let ?V = "view_of ?A (labels_of p ?A) (chunk_text_hash r)"
    have "ctx_inv (card (dom ?A)) e ?V ?A (labels_of p ?A) (chunk_text_hash r) ?cx"
      using act core unfolding ctx_inv_def
      by (simp add: base_frame_refl dirty_rel_refl work_rel_def shift_bound_def new_stats_def)
    from activate_observation_ok [OF this fresh claim(1) _ cv h, of p] claim(2) dom base_frame_dom [OF frame]
    obtain cx' where act': "activate_observation ob r p ?cx = Inr cx'"
      and ctx': "ctx_inv (card (dom ?A)) e ?V (?A(?i \<mapsto> ob)) ((labels_of p ?A)(?i \<mapsto> decide ob p))
        (chunk_text_hash r) cx'"
      by auto
    have "activate_current r ob e = Inr (cx_engine cx')"
      using True p act' by (simp add: activate_current_def)
    moreover have "base_frame e0 (cx_engine cx')"
      using ctx' frame base_frame_trans by (auto simp: ctx_inv_def)
    ultimately show ?thesis using ctx' by (simp add: A' ctx_inv_def)
  qed
qed

lemma from_repository_ok:
  assumes inv: "repo_inv r" and pol: "policy_for r p"
  shows "\<exists>e. from_repository r = Inr e \<and>
     engine_for r p (dom (dget (claims r))) (dom (dget (answers r))) e"
proof -
  let ?K = "dom (dget (claims r))" and ?J = "dom (dget (answers r))" and ?H = "chunk_text_hash r"
  have obs: "observations_inv r" and claims: "claims_inv r" and dicts: "dicts_inv r"
    using inv by (simp_all add: repo_inv_def)
  then have keys: "dict_ok (current_by_key r)" by (simp add: dicts_inv_def)
  from sync_registry_ok [OF claims new_engine_at] obtain b e0 where
    sync: "sync_registry r new_engine = Inr (b, e0)"
    and e0: "engine_at r ?K ?J (\<lambda>_. None) (\<lambda>_. None) (\<lambda>_. None) e0" by blast
  obtain os where os: "current_observations r = Inr os"
    "set os = {ob. dget (observations r) (ob_observation_id ob) = Some ob \<and> is_current r ob}"
    "distinct (map ob_observation_id os)"
    by (rule current_observations_Inr [OF obs keys])
  let ?P = "\<lambda>ys e. base_frame e0 e \<and>
     active_rel e (active_among r ys) (labels_of p (active_among r ys)) \<and>
     core_rel e (view_of (active_among r ys) (labels_of p (active_among r ys)) ?H)"
  have "\<exists>e. fold_res (activate_current r) os e0 = Inr e \<and> ?P os e"
  proof (rule fold_res_total_prefix)
    have A0: "active_among r [] = (\<lambda>_. None)" by (rule ext) (simp add: active_among_def split: option.split)
    have "labels_of p (\<lambda>_. None) = (\<lambda>_. None)" "view_of (\<lambda>_. None) (\<lambda>_. None) ?H = (\<lambda>_. None)"
      by (auto simp: labels_of_def view_of_def)
    then show "?P [] e0" using e0 by (simp add: A0 engine_at_def base_frame_refl)
  next
    fix ys ob zs e
    assume split: "os = ys @ ob # zs" and P: "?P ys e"
    have "ob \<in> set os" "ob \<notin> set ys" using split os(3) by auto
    then have ob: "dget (observations r) (ob_observation_id ob) = Some ob" "is_current r ob" "ob \<notin> set ys"
      using os(2) by auto
    have "dom (dget (en_claim_accumulators e0)) = ?K" using e0 by (simp add: engine_at_def registry_rel_def)
    from activate_current_ok [OF obs pol ob _ this] P
    show "\<exists>s'. activate_current r ob e = Inr s' \<and> ?P (ys @ [ob]) s'" by auto
  qed
  then obtain e1 where e1: "fold_res (activate_current r) os e0 = Inr e1" "?P os e1" by blast
  have A1: "active_among r os = active_observation r"
  proof (rule ext, rule option_ext)
    fix i x
    show "active_among r os i = Some x \<longleftrightarrow> active_observation r i = Some x"
      using os(2) observations_invD(1) [OF obs, of i x]
      by (auto simp: active_among_Some active_observation_Some)
  qed
  let ?A = "active_observation r" and ?L = "labels_of p (active_observation r)"
  let ?V = "view_of ?A ?L ?H"
  from e1(2) have frame1: "base_frame e0 e1" and act1: "active_rel e1 ?A ?L" and core1: "core_rel e1 ?V"
    by (simp_all add: A1)
  have reg1: "registry_rel r ?K ?J e1" and st1: "states_rel r ?K ?J (\<lambda>_. None) e1"
    using e0 base_frame_registry [OF frame1] base_frame_states [OF frame1] by (simp_all add: engine_at_def)
  let ?S = "view_claim_state (\<lambda>_. None)"
  let ?Q = "\<lambda>ys e. core_rel e ?V \<and> flush_frame e1 e \<and> claims_rel ?K (upd ?S ?V (set ys)) e"
  let ?cs = "dkeys (en_claim_accumulators e1)"
  have cs: "set ?cs = ?K" unfolding set_dkeys using reg1 by (simp add: registry_rel_def)
  have "\<exists>e. fold_res refresh_claim ?cs e1 = Inr e \<and> ?Q ?cs e"
  proof (rule fold_res_total_prefix)
    have "upd ?S ?V {} = ?S" by (rule ext) (simp add: upd_def)
    then show "?Q [] e1" using core1 st1 by (simp add: flush_frame_def states_rel_def)
  next
    fix ys c zs e
    assume split: "?cs = ys @ c # zs" and Q: "?Q ys e"
    then have core: "core_rel e ?V" and frame: "flush_frame e1 e" and cl: "claims_rel ?K (upd ?S ?V (set ys)) e"
      by simp_all
    have "c \<in> ?K" using split cs by auto
    then have "c \<in> dom (dget (en_claim_accumulators e))"
      using flush_frame_dom [OF frame] reg1 by (simp add: registry_rel_def)
    from refresh_claim_ok [OF core this] obtain acs where
      ref: "refresh_claim c e = Inr (e\<lparr>en_claim_accumulators := acs,
         en_claim_states := dset c (view_claim_state ?V c) (en_claim_states e),
         en_certificates := dset c (certificate_from_state (view_claim_state ?V c)) (en_certificates e)\<rparr>)"
      and keys: "dkeys acs = dkeys (en_claim_accumulators e)"
      and core': "\<And>e'. en_claim_accumulators e' = acs \<Longrightarrow> en_contributions e' = en_contributions e \<Longrightarrow> core_rel e' ?V"
      by blast
    let ?e = "e\<lparr>en_claim_accumulators := acs,
         en_claim_states := dset c (view_claim_state ?V c) (en_claim_states e),
         en_certificates := dset c (certificate_from_state (view_claim_state ?V c)) (en_certificates e)\<rparr>"
    have "core_rel ?e ?V" by (rule core') simp_all
    moreover have "flush_frame e1 ?e" using frame keys by (simp add: flush_frame_def)
    moreover have "claims_rel ?K (upd ?S ?V (set (ys @ [c]))) ?e"
      using cl \<open>c \<in> ?K\<close> unfolding claims_rel_def by (simp add: upd_insert)
    ultimately show "\<exists>s'. refresh_claim c e = Inr s' \<and> ?Q (ys @ [c]) s'" using ref by blast
  qed
  then obtain e2 where e2: "fold_res refresh_claim ?cs e1 = Inr e2" "core_rel e2 ?V" "flush_frame e1 e2"
    "claims_rel ?K (upd ?S ?V ?K) e2" using cs by auto
  have cl2: "claims_rel ?K (view_claim_state ?V) e2"
    using e2(4) unfolding claims_rel_def by (simp add: upd_def)
  have reg2: "registry_rel r ?K ?J e2" using reg1 flush_frame_registry [OF e2(3)] by blast
  have act2: "active_rel e2 ?A ?L" using act1 flush_frame_active [OF e2(3)] by blast
  from rebuild_ok [OF reg2 refl cl2] obtain ccs css where
    rb: "rebuild_answer_aggregates r e2 = Inr (e2\<lparr>en_answer_status_counts := ccs, en_answer_states := css\<rparr>)"
    and rel: "\<And>e'. en_answer_status_counts e' = ccs \<Longrightarrow> en_answer_states e' = css \<Longrightarrow>
        counters_rel r ?J (view_claim_state ?V) e' \<and> answers_rel r ?J (view_claim_state ?V) e'"
    by blast
  let ?e = "e2\<lparr>en_answer_status_counts := ccs, en_answer_states := css, en_last_stats := no_stats\<rparr>"
  have "from_repository r = Inr ?e"
    using sync os(1) e1(1) e2(1) rb by (simp add: from_repository_def)
  moreover have "engine_at r ?K ?J ?A ?L ?V ?e"
    using act2 e2(2) reg2 cl2 rel [of ?e]
    by (simp add: engine_at_def active_rel_def core_rel_def registry_rel_def states_rel_def claims_rel_def)
  ultimately show ?thesis using engine_for_repo_view [OF obs] by blast
qed

section \<open>Agreement with the oracle\<close>

lemma compute_all_states_policy_for:
  assumes inv: "repo_inv r" and pol: "policy_for r p"
  shows "compute_all_states r =
     Inr (map (\<lambda>c. (c, spec_claim_state r p c)) (all_claim_ids r),
          map (\<lambda>a. (a, spec_answer_state r p a)) (all_answer_ids r))"
proof (cases "claims r = []")
  case True
  have "answers r = []"
  proof (rule ccontr)
    assume "answers r \<noteq> []"
    then obtain a av rest where "answers r = (a, av) # rest" by (metis neq_Nil_conv surj_pair)
    then have "dget (answers r) a = Some av" by simp
    moreover have "claims_inv r" using inv by (simp add: repo_inv_def)
    ultimately have "\<exists>c cl. dget (claims r) c = Some cl"
      unfolding claims_inv_def by (elim conjE) blast
    then show False using True by simp
  qed
  then show ?thesis using True by (simp add: compute_all_states_def all_claim_ids_def all_answer_ids_def)
next
  case False
  then show ?thesis using pol compute_all_states_spec [OF inv] by (auto simp: policy_for_def)
qed

lemma certificate_of_view_ok:
  assumes "finite (witnesses V c SUPPORT)" and "finite (witnesses V c REFUTE)"
  shows "certificate_ok (view_claim_state V c) (certificate_from_state (view_claim_state V c))"
proof -
  have first: "if 0 < card (f ` W) then first_id (sorted_list_of_set W) \<in> Some ` set (sorted_list_of_set W)
      else first_id (sorted_list_of_set W) = None"
    if "finite W" for W :: "string set" and f :: "string \<Rightarrow> string"
  proof (cases "sorted_list_of_set W")
    case Nil
    then have "W = {}" using that by simp
    then show ?thesis by (simp add: first_id_def)
  next
    case (Cons x xs)
    then have "W \<noteq> {}" by auto
    then have "0 < card (f ` W)" using that by (simp add: card_gt_0_iff)
    then show ?thesis using Cons by (simp add: first_id_def)
  qed
  show ?thesis
    using first [OF assms(1), of "witness_hash V"] first [OF assms(2), of "witness_hash V"]
    by (simp add: certificate_ok_def certificate_from_state_def view_claim_state_def)
qed

lemma engine_agrees:
  assumes inv: "repo_inv r" and pol: "policy_for r p"
    and eng: "engine_for r p (dom (dget (claims r))) (dom (dget (answers r))) e"
  shows "\<exists>cs as. compute_all_states r = Inr (cs, as) \<and> dict_eq (en_claim_states e) cs \<and>
     dict_eq (en_answer_states e) as \<and> validate_certificates e = Inr ()"
proof -
  let ?V = "repo_view r p" and ?K = "dom (dget (claims r))" and ?J = "dom (dget (answers r))"
  let ?cs = "map (\<lambda>c. (c, spec_claim_state r p c)) (all_claim_ids r)"
  let ?as = "map (\<lambda>a. (a, spec_answer_state r p a)) (all_answer_ids r)"
  have ids: "set (all_claim_ids r) = ?K" "set (all_answer_ids r) = ?J"
    unfolding all_claim_ids_def all_answer_ids_def by (rule set_dkeys)+
  from eng have core: "core_rel e ?V" and cl: "claims_rel ?K (view_claim_state ?V) e"
    and ans: "answers_rel r ?J (view_claim_state ?V) e" and reg: "registry_rel r ?K ?J e"
    by (simp_all add: engine_for_def engine_at_def states_rel_def)
  have "dget (en_claim_states e) c = dget ?cs c" for c
    using cl ids unfolding dget_tabulate by (simp add: claims_rel_def spec_claim_state_def)
  then have "dict_eq (en_claim_states e) ?cs" by (simp add: dict_eq_def)
  moreover have "dget (en_answer_states e) a = dget ?as a" for a
    using ans ids unfolding dget_tabulate
    by (simp add: answers_rel_def answer_state_for_def spec_answer_state_def spec_claim_state_def)
  then have "dict_eq (en_answer_states e) ?as" by (simp add: dict_eq_def)
  moreover have "validate_certificates e = Inr ()"
  proof -
    have "check_certificate e x u = Inr ()" if x: "x \<in> set (en_claim_states e)" for x u
    proof -
      obtain c st where xc: "x = (c, st)" by (cases x)
      have "dget (en_claim_states e) c = Some st"
        using cl x xc by (metis claims_rel_def dget_in_set)
      then have st: "st = view_claim_state ?V c" "c \<in> ?K"
        using cl by (auto simp: claims_rel_def split: if_splits)
      then obtain a where "dget (en_claim_accumulators e) c = Some a"
        using registry_relD(4) [OF reg] by blast
      then have "acc_rel a ?V c" by (rule core_relD(4) [OF core])
      then have "finite (witnesses ?V c SUPPORT)" "finite (witnesses ?V c REFUTE)"
        by (simp_all add: acc_rel_def side_rel_def)
      from certificate_of_view_ok [OF this] show ?thesis
        using cl st xc by (simp add: check_certificate_def claims_rel_def)
    qed
    then have "fold_res (check_certificate e) xs () = Inr ()" if "set xs \<subseteq> set (en_claim_states e)" for xs
      using that by (induction xs) auto
    then show ?thesis by (simp add: validate_certificates_def)
  qed
  ultimately show ?thesis using compute_all_states_policy_for [OF inv pol] by blast
qed

end
