(* ===== verification/GL_Differential.thy ===== *)
theory GL_Differential
  imports GL_EngineProofs
begin

text \<open>
  The differential runner of \<open>groundloop/differential.py\<close>, which owns a repository and an engine,
  advances both on a staged copy and publishes the pair only if the engine's states equal a full
  recomputation.  The failure injector of the source, a callback that may raise, is the parameter
  \<open>inject\<close>.
\<close>

section \<open>The runner\<close>

record runner =
  rn_repository :: repo
  rn_engine :: engine

definition compare_states :: "repo \<Rightarrow> engine \<Rightarrow> unit res" where
  "compare_states r e =
     bind_res (compute_all_states r) (\<lambda>(reference_claims, reference_answers).
       if \<not> dict_eq (en_claim_states e) reference_claims then Inl DifferentialMismatchError
       else if \<not> dict_eq (en_answer_states e) reference_answers then Inl DifferentialMismatchError
       else validate_certificates e)"

definition assert_equivalent :: "runner \<Rightarrow> unit res" where
  "assert_equivalent rn = compare_states (rn_repository rn) (rn_engine rn)"

definition runner_from_repository :: "repo \<Rightarrow> runner res" where
  "runner_from_repository r =
     bind_res (from_repository r) (\<lambda>e.
     bind_res (assert_equivalent \<lparr>rn_repository = r, rn_engine = e\<rparr>) (\<lambda>_.
       Inr \<lparr>rn_repository = r, rn_engine = e\<rparr>))"

text \<open>
  The part of \<open>apply\<close> that works on the staged copies: the deltas, and the pair to publish
  unless the event was an exact replay.
\<close>

definition runner_stage ::
    "(py_text \<Rightarrow> string) \<Rightarrow> (event \<Rightarrow> string) \<Rightarrow> (string \<Rightarrow> unit res) \<Rightarrow> repo \<Rightarrow> engine \<Rightarrow> event
      \<Rightarrow> (status_delta list \<times> (repo \<times> engine) option) res" where
  "runner_stage sha dig inject r e ev =
     bind_res (apply_event sha dig r ev) (\<lambda>(result, staged).
     bind_res (inject ''reference_applied'') (\<lambda>_.
       if current_epoch staged = current_epoch r then Inr (result, None)
       else
         bind_res (apply_committed_event ev r staged e) (\<lambda>e'.
         bind_res (inject ''incremental_applied'') (\<lambda>_.
         bind_res (compare_states staged e') (\<lambda>_.
           Inr (result, Some (staged, e')))))))"

text \<open>The result of \<open>apply\<close> and the state it leaves, also when it raises.\<close>

definition runner_apply ::
    "(py_text \<Rightarrow> string) \<Rightarrow> (event \<Rightarrow> string) \<Rightarrow> (string \<Rightarrow> unit res) \<Rightarrow> runner \<Rightarrow> event
      \<Rightarrow> status_delta list res \<times> runner" where
  "runner_apply sha dig inject rn ev =
     (case sync_registry (rn_repository rn) (rn_engine rn) of
        Inl x \<Rightarrow> (Inl x, rn)
      | Inr (changed, e) \<Rightarrow>
          let rn = rn\<lparr>rn_engine := e\<rparr> in
          (case (if changed then assert_equivalent rn else Inr ()) of
             Inl x \<Rightarrow> (Inl x, rn)
           | Inr _ \<Rightarrow>
               (case runner_stage sha dig inject (rn_repository rn) e ev of
                  Inl x \<Rightarrow> (Inl x, rn)
                | Inr (result, None) \<Rightarrow> (Inr result, rn)
                | Inr (result, Some (r', e')) \<Rightarrow>
                    (Inr result, \<lparr>rn_repository = r', rn_engine = e'\<rparr>))))"

definition no_injector :: "string \<Rightarrow> unit res" where
  "no_injector _ = Inr ()"

section \<open>The epoch\<close>

lemma register_document_version_epoch:
  "register_document_version r v cs e = Inr r' \<Longrightarrow> current_epoch r' = current_epoch r"
  unfolding register_document_version_Inr by (auto simp: open_document_version_def)

lemma deactivate_document_version_epoch:
  assumes "deactivate_document_version r v e = Inr r'"
  shows "current_epoch r' = current_epoch r"
proof -
  have loop: "fold_res (close_chunk e) cs s = Inr t \<Longrightarrow> current_epoch t = current_epoch s" for cs s t
    by (rule fold_res_invariant) (auto simp: close_chunk_def elim!: bind_res_InrE)
  show ?thesis
    using assms
    by (auto simp: deactivate_document_version_def split: option.splits if_splits
        elim!: bind_res_InrE dest!: loop)
qed

lemma mutate_epoch:
  assumes "mutate sha r ev m = Inr r'"
  shows "current_epoch r' = current_epoch r"
  using assms
  by (cases ev)
    (auto simp: insert_version_def register_observation_Inr elim!: bind_res_InrE activate_policy_fields
      dest!: register_document_version_epoch deactivate_document_version_epoch)

text \<open>An accepted new event advances the epoch by one; a replay leaves it.\<close>

lemma apply_event_epoch:
  assumes "apply_event sha dig r ev = Inr (ds, r')"
  shows "current_epoch r' =
     (if recorded_event r (event_id ev) = None then Suc (current_epoch r) else current_epoch r)"
proof (cases "recorded_event r (event_id ev)")
  case None
  with assms obtain r1 where
    "mutate sha (r\<lparr>current_epoch := Suc (current_epoch r)\<rparr>) ev (Suc (current_epoch r)) = Inr r1"
    and "r' = record_event r1 (event_id ev) (dig ev) ds"
    by (rule apply_event_fresh)
  then show ?thesis using None by (simp add: mutate_epoch record_event_def)
next
  case (Some x)
  then show ?thesis using assms by (cases x) (auto simp: apply_event_def split: if_splits)
qed

lemma apply_event_replay_state:
  assumes "apply_event sha dig r ev = Inr (ds, r')" and "recorded_event r (event_id ev) \<noteq> None"
  shows "r' = r"
  using assms by (auto simp: apply_event_def split: if_splits)

section \<open>The runner never finds a mismatch\<close>

text \<open>
  A runner owns a well-formed repository with a current policy of the frozen tie rule, and an
  engine that represents it up to claims and answers registered since its last synchronisation.
\<close>

definition runner_ok :: "runner \<Rightarrow> bool" where
  "runner_ok rn \<longleftrightarrow>
     repo_inv (rn_repository rn) \<and>
     (\<exists>p K J. current_policy (rn_repository rn) = Inr p \<and> dp_tie_rule_version p = ''v1'' \<and>
        engine_for (rn_repository rn) p K J (rn_engine rn))"

definition event_tie_ok :: "event \<Rightarrow> bool" where
  "event_tie_ok ev \<longleftrightarrow> (\<forall>eid q. ev = PolicyChangeEvent eid q \<longrightarrow> dp_tie_rule_version q = ''v1'')"

lemma next_policy_tie:
  "event_tie_ok ev \<Longrightarrow> dp_tie_rule_version p = ''v1'' \<Longrightarrow> dp_tie_rule_version (next_policy ev p) = ''v1''"
  by (cases ev) (auto simp: event_tie_ok_def)

lemma compare_states_ok:
  assumes "repo_inv r" and "policy_for r p"
    and "engine_for r p (dom (dget (claims r))) (dom (dget (answers r))) e"
  shows "compare_states r e = Inr ()"
  using engine_agrees [OF assms] by (auto simp: compare_states_def)

lemma runner_from_repository_ok:
  assumes "repo_inv r" and "current_policy r = Inr p" and "dp_tie_rule_version p = ''v1''"
  shows "\<exists>rn. runner_from_repository r = Inr rn \<and> rn_repository rn = r \<and> runner_ok rn"
proof -
  have pol: "policy_for r p" using assms(2) by (simp add: policy_for_def)
  from from_repository_ok [OF assms(1) pol] obtain e where e: "from_repository r = Inr e"
    "engine_for r p (dom (dget (claims r))) (dom (dget (answers r))) e" by blast
  from compare_states_ok [OF assms(1) pol e(2)] e assms show ?thesis
    by (auto simp: runner_from_repository_def assert_equivalent_def runner_ok_def)
qed

text \<open>The staged part returns exactly what the reference returns, unless the injector raises.\<close>

lemma runner_stage_ok:
  assumes inv: "repo_inv r" and p: "current_policy r = Inr p" "dp_tie_rule_version p = ''v1''"
    and eng: "engine_for r p K J e" and ev: "event_tie_ok ev"
    and ok: "apply_event sha dig r ev = Inr (ds, r')"
    and inject: "inject ''reference_applied'' = Inr ()" "inject ''incremental_applied'' = Inr ()"
  shows "(recorded_event r (event_id ev) \<noteq> None \<and> runner_stage sha dig inject r e ev = Inr (ds, None)) \<or>
     (\<exists>e'. runner_stage sha dig inject r e ev = Inr (ds, Some (r', e')) \<and>
        runner_ok \<lparr>rn_repository = r', rn_engine = e'\<rparr>)"
proof (cases "recorded_event r (event_id ev)")
  case (Some x)
  then show ?thesis
    using ok inject apply_event_replay_state [OF ok] by (simp add: runner_stage_def)
next
  case None
  have pol: "policy_for r p" using p by (simp add: policy_for_def)
  have inv': "repo_inv r'" by (rule apply_event_inv [OF inv ok])
  from apply_committed_event_ok [OF inv pol eng ok None p(1)] next_policy_tie [OF ev p(2)] p(2)
  obtain e' where e': "apply_committed_event ev r r' e = Inr e'"
    and pol': "policy_for r' (next_policy ev p)"
    and eng': "engine_for r' (next_policy ev p) (dom (dget (claims r'))) (dom (dget (answers r'))) e'"
    by auto
  have "current_policy r' = Inr (next_policy ev p)"
  proof -
    from ok None obtain r1 where
      mut: "mutate sha (r\<lparr>current_epoch := Suc (current_epoch r)\<rparr>) ev (Suc (current_epoch r)) = Inr r1"
      and r': "r' = record_event r1 (event_id ev) (dig ev) ds"
      by (rule apply_event_fresh)
    show ?thesis
    proof (cases "is_policy_event ev")
      case True
      then show ?thesis using mutate_policy(1) [OF mut] by (simp add: r')
    next
      case False
      then have "next_policy ev p = p" by (cases ev) auto
      then show ?thesis using mutate_policy(2) [OF mut False] p(1) by (simp add: r')
    qed
  qed
  then have "runner_ok \<lparr>rn_repository = r', rn_engine = e'\<rparr>"
    using inv' eng' next_policy_tie [OF ev p(2)] by (auto simp: runner_ok_def)
  moreover have "runner_stage sha dig inject r e ev = Inr (ds, Some (r', e'))"
    using ok inject e' compare_states_ok [OF inv' pol' eng'] apply_event_epoch [OF ok] None
    by (simp add: runner_stage_def)
  ultimately show ?thesis by blast
qed

lemma runner_sync_ok:
  assumes "runner_ok rn"
  obtains b e p where "sync_registry (rn_repository rn) (rn_engine rn) = Inr (b, e)"
    and "current_policy (rn_repository rn) = Inr p" and "dp_tie_rule_version p = ''v1''"
    and "engine_for (rn_repository rn) p (dom (dget (claims (rn_repository rn))))
           (dom (dget (answers (rn_repository rn)))) e"
    and "compare_states (rn_repository rn) e = Inr ()" and "runner_ok (rn\<lparr>rn_engine := e\<rparr>)"
proof -
  let ?r = "rn_repository rn"
  from assms obtain p K J where inv: "repo_inv ?r" and p: "current_policy ?r = Inr p"
    "dp_tie_rule_version p = ''v1''" and eng: "engine_for ?r p K J (rn_engine rn)"
    by (auto simp: runner_ok_def)
  have "claims_inv ?r" using inv by (simp add: repo_inv_def)
  from sync_registry_ok [OF this eng [unfolded engine_for_def]] obtain b e where
    e: "sync_registry ?r (rn_engine rn) = Inr (b, e)"
      "engine_for ?r p (dom (dget (claims ?r))) (dom (dget (answers ?r))) e"
    by (auto simp: engine_for_def)
  have "policy_for ?r p" using p by (simp add: policy_for_def)
  from compare_states_ok [OF inv this e(2)] inv p e show thesis
    by (intro that) (auto simp: runner_ok_def)
qed

text \<open>What the runner returns is what the reference returns, and it stays well formed.\<close>

lemma runner_apply_reference:
  assumes ok: "runner_ok rn" and ev: "event_tie_ok ev"
  shows "\<exists>rn'. runner_apply sha dig no_injector rn ev =
       (bind_res (apply_event sha dig (rn_repository rn) ev) (\<lambda>(ds, r'). Inr ds), rn') \<and>
     runner_ok rn' \<and>
     rn_repository rn' =
       (case apply_event sha dig (rn_repository rn) ev of
          Inl _ \<Rightarrow> rn_repository rn | Inr (ds, r') \<Rightarrow> r')"
proof -
  let ?r = "rn_repository rn"
  obtain b e p where sync: "sync_registry ?r (rn_engine rn) = Inr (b, e)"
    and p: "current_policy ?r = Inr p" "dp_tie_rule_version p = ''v1''"
    and eng: "engine_for ?r p (dom (dget (claims ?r))) (dom (dget (answers ?r))) e"
    and cmp: "compare_states ?r e = Inr ()" and ok1: "runner_ok (rn\<lparr>rn_engine := e\<rparr>)"
    by (rule runner_sync_ok [OF ok])
  have inv: "repo_inv ?r" using ok by (simp add: runner_ok_def)
  show ?thesis
  proof (cases "apply_event sha dig ?r ev")
    case (Inl x)
    then have "runner_stage sha dig no_injector ?r e ev = Inl x" by (simp add: runner_stage_def)
    then show ?thesis
      using sync cmp ok1 Inl by (simp add: runner_apply_def assert_equivalent_def Let_def)
  next
    case (Inr y)
    obtain ds r' where y: "y = (ds, r')" by (cases y)
    note app = Inr [unfolded y]
    from runner_stage_ok [OF inv p eng ev app, of no_injector]
    consider "recorded_event ?r (event_id ev) \<noteq> None" "runner_stage sha dig no_injector ?r e ev = Inr (ds, None)"
      | e' where "runner_stage sha dig no_injector ?r e ev = Inr (ds, Some (r', e'))"
          "runner_ok \<lparr>rn_repository = r', rn_engine = e'\<rparr>"
      by (auto simp: no_injector_def)
    then show ?thesis
    proof cases
      case 1
      then have "r' = ?r" using apply_event_replay_state [OF app] by simp
      then show ?thesis
        using sync cmp ok1 1(2) app by (simp add: runner_apply_def assert_equivalent_def Let_def)
    next
      case 2
      then show ?thesis
        using sync cmp app by (simp add: runner_apply_def assert_equivalent_def Let_def)
    qed
  qed
qed

text \<open>A failure, injected or not, leaves the repository as it was and the runner well formed.\<close>

lemma runner_apply_failure:
  assumes ok: "runner_ok rn" and fail: "runner_apply sha dig inject rn ev = (Inl x, rn')"
  shows "rn_repository rn' = rn_repository rn \<and> runner_ok rn'"
proof -
  obtain b e p where sync: "sync_registry (rn_repository rn) (rn_engine rn) = Inr (b, e)"
    and cmp: "compare_states (rn_repository rn) e = Inr ()" and ok1: "runner_ok (rn\<lparr>rn_engine := e\<rparr>)"
    by (rule runner_sync_ok [OF ok])
  from fail sync cmp have "rn' = rn\<lparr>rn_engine := e\<rparr>"
    by (auto simp: runner_apply_def assert_equivalent_def Let_def split: sum.splits option.splits if_splits)
  then show ?thesis using ok1 by simp
qed

section \<open>Registrations between events\<close>

lemma engine_for_register_answer:
  assumes inv: "repo_inv r" and ok: "register_answer r a cs = Inr r'" and eng: "engine_for r p K J e"
  shows "engine_for r' p K J e"
proof -
  have claims: "claims_inv r" using inv by (simp add: repo_inv_def)
  let ?aid = "av_answer_version_id a"
  let ?r0 = "r\<lparr>answers := dset ?aid a (answers r), claims_by_answer := dset ?aid [] (claims_by_answer r)\<rparr>"
  from ok have new: "dget (answers r) ?aid = None" and dis: "distinct (map cl_claim_id cs)"
    and fresh: "\<forall>c \<in> set cs. dget (claims r) (cl_claim_id c) = None"
    and r': "r' = fold (store_claim ?aid) cs ?r0"
    unfolding register_answer_Inr by auto
  have fields: "observations r' = observations r" "current_by_key r' = current_by_key r"
    "chunk_validity r' = chunk_validity r" "chunk_versions r' = chunk_versions r"
    unfolding r' by (induction cs rule: rev_induct) (simp_all add: store_claim_def)
  have old: "dget (claims r') c = dget (claims r) c" if "c \<in> dom (dget (claims r))" for c
  proof -
    have "map_of (map (\<lambda>c. (cl_claim_id c, c)) cs) c = None"
      using fresh that by (auto simp: dget_index_None)
    then show ?thesis unfolding r' store_claims_claims [OF dis] by simp
  qed
  have lists: "claim_ids_of_answer r' b = claim_ids_of_answer r b" if "b \<in> dom (dget (answers r))" for b
  proof -
    have "b \<noteq> ?aid" using new that by auto
    then show ?thesis unfolding r' store_claims_answer_lists by (simp add: claim_ids_of_answer_def dget_default_def)
  qed
  have sub: "dom (dget (claims r)) \<subseteq> dom (dget (claims r'))" using old by (metis domIff subsetI)
  have req: "required_claim_ids r' b = required_claim_ids r b" if "b \<in> dom (dget (answers r))" for b
    unfolding required_claim_ids_def lists [OF that]
  proof (rule filter_cong [OF refl])
    fix c assume "c \<in> set (claim_ids_of_answer r b)"
    then have "c \<in> dom (dget (claims r))" using claim_ids_of_answer_dom [OF claims, of b] by blast
    then show "(case dget (claims r') c of None \<Rightarrow> False | Some cl \<Rightarrow> cl_required cl) =
        (case dget (claims r) c of None \<Rightarrow> False | Some cl \<Rightarrow> cl_required cl)"
      by (simp add: old)
  qed
  have answers': "answers r' = dset ?aid a (answers r)" unfolding r' by simp
  have view: "repo_view r' p = repo_view r p" by (rule repo_view_cong) (rule fields)+
  have act: "active_observation r' = active_observation r" by (rule active_observation_cong) (rule fields)+
  from eng have reg: "registry_rel r K J e" by (simp add: engine_for_def engine_at_def)
  note R = registry_relD [OF reg]
  have "registry_rel r' K J e"
    unfolding registry_rel_def
  proof (intro conjI allI ballI)
    show "K \<subseteq> dom (dget (claims r'))" using R(1) sub by blast
    show "J \<subseteq> dom (dget (answers r'))" using R(2) answers' by auto
    show "dom (dget (en_claim_accumulators e)) = K" by (rule R(4))
  next
    fix b assume "b \<in> J"
    then have "b \<in> dom (dget (answers r))" using R(2) by blast
    then show "set (claim_ids_of_answer r' b) \<subseteq> K" using R(3) [OF \<open>b \<in> J\<close>] lists by simp
  next
    fix c
    have "dget (claims r') c = dget (claims r) c" if "c \<in> K" using old R(1) that by blast
    then show "dget (en_claim_to_answer e) c =
        (if c \<in> K then map_option cl_answer_version_id (dget (claims r') c) else None)"
      "dget (en_claim_required e) c = (if c \<in> K then map_option cl_required (dget (claims r') c) else None)"
      using R(5,6) by simp_all
  next
    fix b
    have "b \<in> J \<Longrightarrow> b \<in> dom (dget (answers r))" using R(2) by blast
    then show "dget (en_answer_to_claims e) b = (if b \<in> J then Some (claim_ids_of_answer r' b) else None)"
      "dget (en_answer_required_counts e) b =
        (if b \<in> J then Some (int (length (required_claim_ids r' b))) else None)"
      using R(7,8) lists req by simp_all
  qed
  moreover have "states_rel r' K J (repo_view r p) e"
  proof -
    have "required_claim_ids r' b = required_claim_ids r b" if "b \<in> J" for b
      using req R(2) that by blast
    then show ?thesis
      using eng unfolding engine_for_def engine_at_def states_rel_def counters_rel_def answers_rel_def
        answer_state_for_def by (auto simp: domI)
  qed
  ultimately show ?thesis using eng by (simp add: engine_for_def engine_at_def view act)
qed

lemma engine_for_register_question:
  assumes "register_question r q = Inr r'" and "engine_for r p K J e"
  shows "engine_for r' p K J e"
proof -
  have r': "r' = r\<lparr>questions := dset (qu_question_id q) q (questions r)\<rparr>"
    using assms(1) by (simp add: register_question_Inr)
  have "repo_view r' p = repo_view r p" by (rule repo_view_cong) (simp_all add: r')
  moreover have "active_observation r' = active_observation r"
    by (rule active_observation_cong) (simp_all add: r')
  moreover have "registry_rel r' K J e = registry_rel r K J e"
    "states_rel r' K J V e = states_rel r K J V e" for V
    by (rule registry_rel_cong; simp add: r')+
  ultimately show ?thesis using assms(2) by (simp add: engine_for_def engine_at_def)
qed

lemma engine_for_reserve:
  assumes "reserve_external_observation_id r i = Inr r'" and "engine_for r p K J e"
  shows "engine_for r' p K J e"
proof -
  have r': "r' = r\<lparr>reserved_observation_ids := insert i (reserved_observation_ids r)\<rparr>"
    using assms(1) by (simp add: reserve_external_observation_id_def split: if_splits)
  have "repo_view r' p = repo_view r p" by (rule repo_view_cong) (simp_all add: r')
  moreover have "active_observation r' = active_observation r"
    by (rule active_observation_cong) (simp_all add: r')
  moreover have "registry_rel r' K J e = registry_rel r K J e"
    "states_rel r' K J V e = states_rel r K J V e" for V
    by (rule registry_rel_cong; simp add: r')+
  ultimately show ?thesis using assms(2) by (simp add: engine_for_def engine_at_def)
qed

text \<open>
  The runners that arise from a reachable repository with a policy by registering questions and
  answers, reserving identifiers, and applying events, whether they are accepted or not and
  whatever the failure injector does.
\<close>

inductive reachable_runner ::
    "(py_text \<Rightarrow> string) \<Rightarrow> (event \<Rightarrow> string) \<Rightarrow> runner \<Rightarrow> bool"
  for sha :: "py_text \<Rightarrow> string" and dig :: "event \<Rightarrow> string" where
  run_init: "reachable_repo sha dig r \<Longrightarrow> current_policy r = Inr p \<Longrightarrow>
     dp_tie_rule_version p = ''v1'' \<Longrightarrow> runner_from_repository r = Inr rn \<Longrightarrow> reachable_runner sha dig rn"
| run_question: "reachable_runner sha dig rn \<Longrightarrow> register_question (rn_repository rn) q = Inr r' \<Longrightarrow>
     reachable_runner sha dig (rn\<lparr>rn_repository := r'\<rparr>)"
| run_answer: "reachable_runner sha dig rn \<Longrightarrow> register_answer (rn_repository rn) a cs = Inr r' \<Longrightarrow>
     reachable_runner sha dig (rn\<lparr>rn_repository := r'\<rparr>)"
| run_reserve: "reachable_runner sha dig rn \<Longrightarrow>
     reserve_external_observation_id (rn_repository rn) i = Inr r' \<Longrightarrow>
     reachable_runner sha dig (rn\<lparr>rn_repository := r'\<rparr>)"
| run_apply: "reachable_runner sha dig rn \<Longrightarrow> event_tie_ok ev \<Longrightarrow>
     runner_apply sha dig no_injector rn ev = (result, rn') \<Longrightarrow> reachable_runner sha dig rn'"
| run_failure: "reachable_runner sha dig rn \<Longrightarrow>
     runner_apply sha dig inject rn ev = (Inl x, rn') \<Longrightarrow> reachable_runner sha dig rn'"

lemma runner_ok_registration:
  assumes ok: "runner_ok rn" and inv: "repo_inv r'"
    and pol: "current_policy r' = current_policy (rn_repository rn)"
    and eng: "\<And>p K J. engine_for (rn_repository rn) p K J (rn_engine rn) \<Longrightarrow> engine_for r' p K J (rn_engine rn)"
  shows "runner_ok (rn\<lparr>rn_repository := r'\<rparr>)"
proof -
  from ok obtain p K J where "current_policy (rn_repository rn) = Inr p"
    "dp_tie_rule_version p = ''v1''" "engine_for (rn_repository rn) p K J (rn_engine rn)"
    by (auto simp: runner_ok_def)
  with inv pol eng [of p K J] show ?thesis by (auto simp: runner_ok_def)
qed

lemma register_answer_policy:
  assumes "register_answer r a cs = Inr r'" shows "current_policy r' = current_policy r"
proof -
  let ?r0 = "r\<lparr>answers := dset (av_answer_version_id a) a (answers r),
                claims_by_answer := dset (av_answer_version_id a) [] (claims_by_answer r)\<rparr>"
  have r': "r' = fold (store_claim (av_answer_version_id a)) cs ?r0"
    using assms unfolding register_answer_Inr by auto
  have "policies r' = policies r \<and> current_policy_version r' = current_policy_version r"
    unfolding r' by (induction cs rule: rev_induct) (simp_all add: store_claim_def)
  then show ?thesis by (simp add: current_policy_def cong: option.case_cong)
qed

lemma reachable_runner_ok: "reachable_runner sha dig rn \<Longrightarrow> runner_ok rn"
proof (induction rule: reachable_runner.induct)
  case (run_init r p rn)
  from runner_from_repository_ok [OF reachable_repo_inv [OF run_init(1)] run_init(2,3)] run_init(4)
  show ?case by auto
next
  case (run_question rn q r')
  then have inv: "repo_inv r'" using repo_inv_register_question by (auto simp: runner_ok_def)
  show ?case
    by (rule runner_ok_registration [OF run_question.IH inv])
      (use run_question(2) engine_for_register_question in
        \<open>auto simp: register_question_Inr current_policy_def cong: option.case_cong\<close>)
next
  case (run_answer rn a cs r')
  then have inv0: "repo_inv (rn_repository rn)" by (simp add: runner_ok_def)
  show ?case
    by (rule runner_ok_registration [OF run_answer.IH repo_inv_register_answer [OF inv0 run_answer(2)]
          register_answer_policy [OF run_answer(2)]])
      (rule engine_for_register_answer [OF inv0 run_answer(2)])
next
  case (run_reserve rn i r')
  then have inv: "repo_inv r'" using repo_inv_reserve by (auto simp: runner_ok_def)
  show ?case
    by (rule runner_ok_registration [OF run_reserve.IH inv])
      (use run_reserve(2) engine_for_reserve in
        \<open>auto simp: reserve_external_observation_id_def current_policy_def split: if_splits cong: option.case_cong\<close>)
next
  case (run_apply rn ev result rn')
  from runner_apply_reference [OF run_apply.IH run_apply(2), of sha dig] run_apply(3) show ?case by auto
next
  case (run_failure rn inject ev x rn')
  from runner_apply_failure [OF run_failure.IH run_failure(2)] show ?case by simp
qed

end
