(* ===== verification/GL_Patch.thy ===== *)
theory GL_Patch
  imports GL_Engine
begin

text \<open>
  The transactional path of \<open>groundloop/incremental.py\<close>: a patch is prepared from a committed event
  on copies of the affected entries only, and applied later, at once or not at all.  \<open>prepare\<close> reads
  the engine and fills dictionaries of its own, which travel as a \<open>patch_ctx\<close>.  \<open>apply_state_patch\<close>
  mutates the engine step by step and keeps a list of closures that undo the steps; it returns its
  result or exception together with the engine it leaves.
\<close>

section \<open>Reading the engine\<close>

text \<open>The properties return copies, the methods one entry.\<close>

definition engine_claim_states :: "engine \<Rightarrow> (string, claim_state) pydict" where
  "engine_claim_states e = en_claim_states e"

definition engine_answer_states :: "engine \<Rightarrow> (string, answer_state) pydict" where
  "engine_answer_states e = en_answer_states e"

definition engine_certificates :: "engine \<Rightarrow> (string, claim_certificate) pydict" where
  "engine_certificates e = en_certificates e"

definition engine_claim_state :: "engine \<Rightarrow> string \<Rightarrow> claim_state res" where
  "engine_claim_state e cid = lookup KeyError (en_claim_states e) cid"

definition engine_answer_state :: "engine \<Rightarrow> string \<Rightarrow> answer_state res" where
  "engine_answer_state e aid = lookup KeyError (en_answer_states e) aid"

definition engine_certificate :: "engine \<Rightarrow> string \<Rightarrow> claim_certificate res" where
  "engine_certificate e cid = lookup KeyError (en_certificates e) cid"

section \<open>Snapshots of accumulators\<close>

record score_snapshot =
  ss_counts :: "(rat \<times> int) list"
  ss_max_heap :: "rat list"

text \<open>\<open>dict(pairs)\<close>: a later pair with the same key wins.\<close>

definition dict_of :: "('k \<times> 'v) list \<Rightarrow> ('k, 'v) pydict" where
  "dict_of ps = fold (\<lambda>(k, v) d. dset k v d) ps []"

definition capture_scores :: "score_multiset \<Rightarrow> score_snapshot" where
  "capture_scores m = \<lparr>ss_counts = sort (sm_counts m), ss_max_heap = sm_max_heap m\<rparr>"

definition materialize_scores :: "score_snapshot \<Rightarrow> score_multiset" where
  "materialize_scores s = \<lparr>sm_counts = dict_of (ss_counts s), sm_max_heap = ss_max_heap s\<rparr>"

record accumulator_snapshot =
  sa_support_hash_counts :: "(string \<times> int) list"
  sa_refute_hash_counts :: "(string \<times> int) list"
  sa_support_observation_ids :: "string set"
  sa_refute_observation_ids :: "string set"
  sa_support_scores :: score_snapshot
  sa_refute_scores :: score_snapshot

definition capture_accumulator :: "claim_accumulator \<Rightarrow> accumulator_snapshot" where
  "capture_accumulator a =
     \<lparr>sa_support_hash_counts = sort (support_hash_counts a),
      sa_refute_hash_counts = sort (refute_hash_counts a),
      sa_support_observation_ids = support_observation_ids a,
      sa_refute_observation_ids = refute_observation_ids a,
      sa_support_scores = capture_scores (support_scores a),
      sa_refute_scores = capture_scores (refute_scores a)\<rparr>"

definition materialize_accumulator :: "accumulator_snapshot \<Rightarrow> claim_accumulator" where
  "materialize_accumulator s =
     \<lparr>support_hash_counts = dict_of (sa_support_hash_counts s),
      refute_hash_counts = dict_of (sa_refute_hash_counts s),
      support_observation_ids = sa_support_observation_ids s,
      refute_observation_ids = sa_refute_observation_ids s,
      support_scores = materialize_scores (sa_support_scores s),
      refute_scores = materialize_scores (sa_refute_scores s)\<rparr>"

section \<open>Patches\<close>

record 'v point_change =
  pc_key :: string
  pc_before :: "'v option"
  pc_after :: "'v option"

record score_index_change =
  sc_observation :: semantic_observation
  sc_add :: bool

type_synonym counter_items = "(claim_status \<times> int) list"

record state_patch =
  pt_event_id :: string
  pt_expected_state_revision :: int
  pt_active_label_changes :: "verification_label point_change list"
  pt_contribution_changes :: "contribution point_change list"
  pt_accumulator_changes :: "accumulator_snapshot point_change list"
  pt_claim_state_changes :: "claim_state point_change list"
  pt_certificate_changes :: "claim_certificate point_change list"
  pt_answer_count_changes :: "counter_items point_change list"
  pt_answer_state_changes :: "answer_state point_change list"
  pt_score_index_changes :: "score_index_change list"
  pt_stats :: maintenance_stats

definition touched_claim_ids :: "state_patch \<Rightarrow> string list" where
  "touched_claim_ids pt = map pc_key (pt_claim_state_changes pt)"

definition touched_answer_ids :: "state_patch \<Rightarrow> string list" where
  "touched_answer_ids pt = map pc_key (pt_answer_state_changes pt)"

section \<open>Preparation\<close>

text \<open>
  The local dictionaries of \<open>prepare_committed_event_patch\<close>.  A label or contribution that is set to
  \<open>None\<close> hides the entry of the engine.
\<close>

record patch_ctx =
  px_label_values :: "(string, verification_label option) pydict"
  px_contribution_values :: "(string, contribution option) pydict"
  px_accumulator_before :: "(string, accumulator_snapshot) pydict"
  px_accumulators :: "(string, claim_accumulator) pydict"
  px_score_changes :: "score_index_change list"
  px_dirty_claims :: "string set"
  px_stats :: mutable_stats

definition overlay_get :: "('k, 'v option) pydict \<Rightarrow> ('k, 'v) pydict \<Rightarrow> 'k \<Rightarrow> 'v option" where
  "overlay_get values current k = (case dget values k of Some v \<Rightarrow> v | None \<Rightarrow> dget current k)"

definition patch_label :: "engine \<Rightarrow> patch_ctx \<Rightarrow> string \<Rightarrow> verification_label option" where
  "patch_label e px i = overlay_get (px_label_values px) (en_active_labels e) i"

definition patch_contribution :: "engine \<Rightarrow> patch_ctx \<Rightarrow> string \<Rightarrow> contribution option" where
  "patch_contribution e px i = overlay_get (px_contribution_values px) (en_contributions e) i"

definition patch_accumulator :: "engine \<Rightarrow> string \<Rightarrow> patch_ctx \<Rightarrow> (claim_accumulator \<times> patch_ctx) res" where
  "patch_accumulator e cid px =
     (case dget (px_accumulators px) cid of
        Some a \<Rightarrow> Inr (a, px)
      | None \<Rightarrow>
          bind_res (lookup KeyError (en_claim_accumulators e) cid) (\<lambda>original.
            let snapshot = capture_accumulator original; a = materialize_accumulator snapshot in
            Inr (a, px\<lparr>px_accumulator_before := dset cid snapshot (px_accumulator_before px),
                       px_accumulators := dset cid a (px_accumulators px)\<rparr>)))"

definition patch_add_contribution :: "engine \<Rightarrow> contribution \<Rightarrow> patch_ctx \<Rightarrow> patch_ctx res" where
  "patch_add_contribution e c px =
     bind_res (patch_accumulator e (co_claim_id c) px) (\<lambda>(a, px).
       let (s, crossed) = side_add c (get_side (co_label c) a) in
       Inr (px\<lparr>px_accumulators := dset (co_claim_id c) (put_side (co_label c) s a) (px_accumulators px),
               px_dirty_claims := insert (co_claim_id c) (px_dirty_claims px),
               px_stats := (px_stats px)\<lparr>mt_distinct_hash_crossings :=
                 mt_distinct_hash_crossings (px_stats px) + of_bool crossed\<rparr>\<rparr>))"

definition patch_remove_contribution :: "engine \<Rightarrow> contribution \<Rightarrow> patch_ctx \<Rightarrow> patch_ctx res" where
  "patch_remove_contribution e c px =
     bind_res (patch_accumulator e (co_claim_id c) px) (\<lambda>(a, px).
     bind_res (side_remove c (get_side (co_label c) a)) (\<lambda>(s, crossed).
       Inr (px\<lparr>px_accumulators := dset (co_claim_id c) (put_side (co_label c) s a) (px_accumulators px),
               px_dirty_claims := insert (co_claim_id c) (px_dirty_claims px),
               px_stats := (px_stats px)\<lparr>mt_distinct_hash_crossings :=
                 mt_distinct_hash_crossings (px_stats px) + of_bool crossed\<rparr>\<rparr>)))"

text \<open>The removal of the contribution an observation has, shared by deactivation and relabelling.\<close>

definition patch_withdraw :: "engine \<Rightarrow> string \<Rightarrow> patch_ctx \<Rightarrow> patch_ctx res" where
  "patch_withdraw e i px =
     (case patch_contribution e px i of
        None \<Rightarrow> Inr px
      | Some c \<Rightarrow>
          patch_remove_contribution e c
            (px\<lparr>px_contribution_values := dset i None (px_contribution_values px)\<rparr>))"

definition patch_contribute ::
    "engine \<Rightarrow> semantic_observation \<Rightarrow> repo \<Rightarrow> verification_label \<Rightarrow> patch_ctx \<Rightarrow> patch_ctx res" where
  "patch_contribute e ob r label px =
     (if ob_subject_kind ob \<noteq> CLAIM \<or> label = NEUTRAL then Inr px
      else bind_res (chunk_version_of r (ob_chunk_version_id ob)) (\<lambda>cv.
        let c = make_contribution ob (cv_text_hash cv) label in
        patch_add_contribution e c
          (px\<lparr>px_contribution_values :=
                dset (ob_observation_id ob) (Some c) (px_contribution_values px)\<rparr>)))"

definition patch_deactivate :: "engine \<Rightarrow> semantic_observation \<Rightarrow> patch_ctx \<Rightarrow> patch_ctx res" where
  "patch_deactivate e ob px =
     (let i = ob_observation_id ob; st = px_stats px in
      if patch_label e px i = None then Inr px
      else patch_withdraw e i
        (px\<lparr>px_label_values := dset i None (px_label_values px),
            px_score_changes := px_score_changes px @ [\<lparr>sc_observation = ob, sc_add = False\<rparr>],
            px_stats := st\<lparr>mt_active_observations_removed := mt_active_observations_removed st + 1\<rparr>\<rparr>))"

definition patch_activate ::
    "engine \<Rightarrow> semantic_observation \<Rightarrow> repo \<Rightarrow> decision_policy \<Rightarrow> patch_ctx \<Rightarrow> patch_ctx res" where
  "patch_activate e ob r p px =
     (let i = ob_observation_id ob; st = px_stats px in
      if patch_label e px i \<noteq> None then Inl AssertionError
      else let label = decide ob p in
        patch_contribute e ob r label
          (px\<lparr>px_label_values := dset i (Some label) (px_label_values px),
              px_score_changes := px_score_changes px @ [\<lparr>sc_observation = ob, sc_add = True\<rparr>],
              px_stats := st\<lparr>mt_active_observations_added := mt_active_observations_added st + 1\<rparr>\<rparr>))"

definition patch_withdraw_chunk :: "engine \<Rightarrow> repo \<Rightarrow> string \<Rightarrow> patch_ctx \<Rightarrow> patch_ctx res" where
  "patch_withdraw_chunk e before chunk px =
     bind_res (current_observation_ids_for_chunk before chunk) (\<lambda>ids.
       fold_res (\<lambda>i px. bind_res (observation_of before i) (\<lambda>ob. patch_deactivate e ob px)) ids px)"

definition patch_withdraw_document :: "engine \<Rightarrow> repo \<Rightarrow> string \<Rightarrow> patch_ctx \<Rightarrow> patch_ctx res" where
  "patch_withdraw_document e before v px =
     fold_res (patch_withdraw_chunk e before) (chunk_ids_of_document_version before v) px"

text \<open>The loop body of a policy change.\<close>

definition patch_relabel :: "engine \<Rightarrow> repo \<Rightarrow> decision_policy \<Rightarrow> string \<Rightarrow> patch_ctx \<Rightarrow> patch_ctx res" where
  "patch_relabel e before q i px =
     bind_res (observation_of before i) (\<lambda>ob.
       case patch_label e px i of
         None \<Rightarrow> Inl AssertionError
       | Some old_label \<Rightarrow>
           let new_label = decide ob q in
           if old_label = new_label then Inr px
           else bind_res
             (patch_withdraw e i
                (px\<lparr>px_stats := (px_stats px)\<lparr>mt_decision_flips := mt_decision_flips (px_stats px) + 1\<rparr>\<rparr>))
             (\<lambda>px. patch_contribute e ob before new_label
                (px\<lparr>px_label_values := dset i (Some new_label) (px_label_values px)\<rparr>)))"

definition patch_policy_change :: "engine \<Rightarrow> repo \<Rightarrow> repo \<Rightarrow> patch_ctx \<Rightarrow> patch_ctx res" where
  "patch_policy_change e before after px =
     bind_res (current_policy before) (\<lambda>p.
     bind_res (current_policy after) (\<lambda>q.
     bind_res (policy_candidates (en_score_index e) p q) (\<lambda>candidates.
       fold_res (patch_relabel e before q) (sorted_list_of_set candidates)
         (px\<lparr>px_stats := (px_stats px)\<lparr>mt_policy_index_candidates := int (card candidates)\<rparr>\<rparr>))))"

text \<open>The dispatch on the event.\<close>

fun patch_maintain :: "engine \<Rightarrow> event \<Rightarrow> repo \<Rightarrow> repo \<Rightarrow> patch_ctx \<Rightarrow> patch_ctx res" where
  "patch_maintain e (DeleteDocumentVersionEvent _ v) before after px =
     patch_withdraw_document e before v px"
| "patch_maintain e (ReplaceDocumentVersionEvent _ _ old _ _ _) before after px =
     patch_withdraw_document e before old px"
| "patch_maintain e (ObserveEvent _ ob) before after px =
     bind_res
       (case current_observation_id before (observation_key ob) of
          None \<Rightarrow> Inr px
        | Some previous \<Rightarrow>
            bind_res (observation_of before previous) (\<lambda>pob. patch_deactivate e pob px))
       (\<lambda>px. if is_chunk_active after (ob_chunk_version_id ob) then
               bind_res (current_policy after) (\<lambda>q. patch_activate e ob after q px)
             else Inr px)"
| "patch_maintain e (PolicyChangeEvent _ _) before after px = patch_policy_change e before after px"
| "patch_maintain e (InsertDocumentEvent _ _ _ _ _) before after px = Inr px"

section \<open>Derived changes\<close>

text \<open>
  The loop over the dirty claims.  \<open>answer_counts.setdefault(a, Counter(stored))\<close> evaluates its
  default even when the key is present.
\<close>

record patch_flush =
  pf_accumulators :: "(string, claim_accumulator) pydict"
  pf_claim_state_changes :: "claim_state point_change list"
  pf_certificate_changes :: "claim_certificate point_change list"
  pf_answer_counts :: "(string, status_counter) pydict"
  pf_dirty_answers :: "string set"
  pf_stats :: mutable_stats

definition replacement :: "string \<Rightarrow> 'v \<Rightarrow> 'v \<Rightarrow> 'v point_change" where
  "replacement k old new = \<lparr>pc_key = k, pc_before = Some old, pc_after = Some new\<rparr>"

definition patch_flush_claim :: "engine \<Rightarrow> string \<Rightarrow> patch_flush \<Rightarrow> patch_flush res" where
  "patch_flush_claim e cid pf =
     bind_res (lookup KeyError (en_claim_states e) cid) (\<lambda>old_state.
     bind_res (lookup KeyError (pf_accumulators pf) cid) (\<lambda>a.
     let (new_state, a) = state_from_accumulator_value cid a in
     bind_res (lookup KeyError (en_certificates e) cid) (\<lambda>old_certificate.
     let pf = pf\<lparr>pf_accumulators := dset cid a (pf_accumulators pf),
                 pf_claim_state_changes :=
                   pf_claim_state_changes pf @ [replacement cid old_state new_state],
                 pf_certificate_changes :=
                   pf_certificate_changes pf @
                     [replacement cid old_certificate (certificate_from_state new_state)]\<rparr> in
     if cs_status old_state = cs_status new_state then Inr pf
     else
       let pf = pf\<lparr>pf_stats := (pf_stats pf)\<lparr>mt_claim_status_changes :=
                     mt_claim_status_changes (pf_stats pf) + 1\<rparr>\<rparr> in
       bind_res (lookup KeyError (en_claim_required e) cid) (\<lambda>required.
         if \<not> required then Inr pf
         else
           bind_res (lookup KeyError (en_claim_to_answer e) cid) (\<lambda>aid.
           bind_res (lookup KeyError (en_answer_status_counts e) aid) (\<lambda>stored.
             let counts = dget_default (pf_answer_counts pf) aid stored in
             Inr (pf\<lparr>pf_answer_counts :=
                       dset aid (counter_add (cs_status new_state) 1
                         (counter_add (cs_status old_state) (-1) counts)) (pf_answer_counts pf),
                     pf_dirty_answers := insert aid (pf_dirty_answers pf)\<rparr>)))))))"

text \<open>\<open>_counter_snapshot\<close>: the items, sorted by the text of the status.\<close>

definition counter_snapshot :: "status_counter \<Rightarrow> counter_items" where
  "counter_snapshot counts = sort_key (\<lambda>item. claim_status_value (fst item)) counts"

type_synonym answer_changes =
  "counter_items point_change list \<times> answer_state point_change list \<times> mutable_stats"

definition patch_flush_answer ::
    "engine \<Rightarrow> (string, status_counter) pydict \<Rightarrow> string \<Rightarrow> answer_changes \<Rightarrow> answer_changes res" where
  "patch_flush_answer e answer_counts aid acs =
     (let (count_changes, state_changes, st) = acs in
      bind_res (lookup KeyError (en_answer_status_counts e) aid) (\<lambda>stored.
      bind_res (lookup KeyError answer_counts aid) (\<lambda>counts.
      bind_res (lookup KeyError (en_answer_states e) aid) (\<lambda>old.
      bind_res (state_from_answer_count_value e aid counts) (\<lambda>new.
        Inr (count_changes @ [replacement aid (counter_snapshot stored) (counter_snapshot counts)],
             state_changes @ [replacement aid old new],
             if as_status old = as_status new then st
             else st\<lparr>mt_answer_status_changes := mt_answer_status_changes st + 1\<rparr>))))))"

text \<open>\<open>_point_changes\<close>, and the changes of the accumulators.\<close>

definition point_changes ::
    "(string, 'v) pydict \<Rightarrow> (string, 'v option) pydict \<Rightarrow> 'v point_change list" where
  "point_changes current values =
     map (\<lambda>k. \<lparr>pc_key = k, pc_before = dget current k, pc_after = overlay_get values [] k\<rparr>)
       (sort (dkeys values))"

definition accumulator_changes ::
    "(string, accumulator_snapshot) pydict \<Rightarrow> (string, claim_accumulator) pydict
      \<Rightarrow> accumulator_snapshot point_change list res" where
  "accumulator_changes before accumulators =
     traverse (\<lambda>k. bind_res (lookup KeyError before k) (\<lambda>s.
       bind_res (lookup KeyError accumulators k) (\<lambda>a. Inr (replacement k s (capture_accumulator a)))))
       (sort (dkeys accumulators))"

definition finish_patch :: "event \<Rightarrow> engine \<Rightarrow> patch_ctx \<Rightarrow> state_patch res" where
  "finish_patch ev e px =
     bind_res (fold_res (patch_flush_claim e) (sorted_list_of_set (px_dirty_claims px))
       \<lparr>pf_accumulators = px_accumulators px, pf_claim_state_changes = [], pf_certificate_changes = [],
        pf_answer_counts = [], pf_dirty_answers = {}, pf_stats = px_stats px\<rparr>) (\<lambda>pf.
     bind_res (fold_res (patch_flush_answer e (pf_answer_counts pf))
       (sorted_list_of_set (pf_dirty_answers pf)) ([], [], pf_stats pf)) (\<lambda>(count_changes, state_changes, st).
     bind_res (accumulator_changes (px_accumulator_before px) (pf_accumulators pf)) (\<lambda>accumulators.
     let st = st\<lparr>mt_score_index_point_updates := 2 * int (length (px_score_changes px))\<rparr> in
       Inr \<lparr>pt_event_id = event_id ev,
            pt_expected_state_revision = en_state_revision e,
            pt_active_label_changes = point_changes (en_active_labels e) (px_label_values px),
            pt_contribution_changes = point_changes (en_contributions e) (px_contribution_values px),
            pt_accumulator_changes = accumulators,
            pt_claim_state_changes = pf_claim_state_changes pf,
            pt_certificate_changes = pf_certificate_changes pf,
            pt_answer_count_changes = count_changes,
            pt_answer_state_changes = state_changes,
            pt_score_index_changes = px_score_changes px,
            pt_stats = freeze st (px_dirty_claims px) (pf_dirty_answers pf)\<rparr>)))"

definition new_patch_ctx :: "engine \<Rightarrow> patch_ctx" where
  "new_patch_ctx e =
     \<lparr>px_label_values = [], px_contribution_values = [], px_accumulator_before = [],
      px_accumulators = [], px_score_changes = [], px_dirty_claims = {},
      px_stats = new_stats\<lparr>mt_score_index_entries_before :=
        avl_size (support_entries (en_score_index e))\<rparr>\<rparr>"

definition prepare_committed_event_patch :: "event \<Rightarrow> repo \<Rightarrow> repo \<Rightarrow> engine \<Rightarrow> state_patch res" where
  "prepare_committed_event_patch ev before after e =
     bind_res (patch_maintain e ev before after (new_patch_ctx e)) (finish_patch ev e)"

definition prepare_noop_event_patch :: "string \<Rightarrow> engine \<Rightarrow> state_patch res" where
  "prepare_noop_event_patch eid e =
     (if blank eid then Inl ValidationError
      else Inr \<lparr>pt_event_id = eid, pt_expected_state_revision = en_state_revision e,
                pt_active_label_changes = [], pt_contribution_changes = [],
                pt_accumulator_changes = [], pt_claim_state_changes = [],
                pt_certificate_changes = [], pt_answer_count_changes = [],
                pt_answer_state_changes = [], pt_score_index_changes = [],
                pt_stats = no_stats\<rparr>)"

section \<open>Preconditions\<close>

definition validate_change :: "(string, 'v) pydict \<Rightarrow> 'v point_change \<Rightarrow> unit \<Rightarrow> unit res" where
  "validate_change current c _ =
     (if dget current (pc_key c) \<noteq> pc_before c then Inl AssertionError else Inr ())"

definition validate_map :: "(string, 'v) pydict \<Rightarrow> 'v point_change list \<Rightarrow> unit res" where
  "validate_map current changes = fold_res (validate_change current) changes ()"

text \<open>The same for entries that are compared by their snapshot.\<close>

definition validate_captured ::
    "('a \<Rightarrow> 's) \<Rightarrow> (string, 'a) pydict \<Rightarrow> 's point_change \<Rightarrow> unit \<Rightarrow> unit res" where
  "validate_captured capture current c _ =
     bind_res (lookup KeyError current (pc_key c)) (\<lambda>a.
       if Some (capture a) \<noteq> pc_before c then Inl AssertionError else Inr ())"

definition validate_score_change :: "score_range_index \<Rightarrow> score_index_change \<Rightarrow> unit \<Rightarrow> unit res" where
  "validate_score_change ix c _ =
     (if index_contains ix (sc_observation c) = sc_add c then Inl AssertionError else Inr ())"

definition validate_patch_preconditions :: "state_patch \<Rightarrow> engine \<Rightarrow> unit res" where
  "validate_patch_preconditions pt e =
     (if pt_expected_state_revision pt \<noteq> en_state_revision e then Inl AssertionError
      else
        bind_res (validate_map (en_active_labels e) (pt_active_label_changes pt)) (\<lambda>_.
        bind_res (validate_map (en_contributions e) (pt_contribution_changes pt)) (\<lambda>_.
        bind_res (validate_map (en_claim_states e) (pt_claim_state_changes pt)) (\<lambda>_.
        bind_res (validate_map (en_certificates e) (pt_certificate_changes pt)) (\<lambda>_.
        bind_res (validate_map (en_answer_states e) (pt_answer_state_changes pt)) (\<lambda>_.
        bind_res (fold_res (validate_captured capture_accumulator (en_claim_accumulators e))
          (pt_accumulator_changes pt) ()) (\<lambda>_.
        bind_res (fold_res (validate_captured counter_snapshot (en_answer_status_counts e))
          (pt_answer_count_changes pt) ()) (\<lambda>_.
          fold_res (validate_score_change (en_score_index e)) (pt_score_index_changes pt) ()))))))))"

text \<open>Reading claim states as they will be after a patch; \<open>dict.fromkeys\<close> drops repeated identifiers.\<close>

definition preview_claim_states_after_patch ::
    "state_patch \<Rightarrow> string list \<Rightarrow> engine \<Rightarrow> (string, claim_state) pydict res" where
  "preview_claim_states_after_patch pt cids e =
     bind_res (validate_patch_preconditions pt e) (\<lambda>_.
     let changed = dict_of (map (\<lambda>c. (pc_key c, pc_after c)) (pt_claim_state_changes pt)) in
     traverse (\<lambda>cid.
       case overlay_get changed [] cid of
         Some st \<Rightarrow> Inr (cid, st)
       | None \<Rightarrow> bind_res (lookup KeyError (en_claim_states e) cid) (\<lambda>st. Inr (cid, st)))
       (rev (remdups (rev cids))))"

section \<open>Application\<close>

text \<open>
  The state of the \<open>try\<close> block: the engine, the closures that undo its mutations (the latest first),
  and the work of the score index.  A closure may raise and leaves an engine in any case.
\<close>

type_synonym undo = "engine \<Rightarrow> unit res \<times> engine"

record patch_run =
  pr_engine :: engine
  pr_undo :: "undo list"
  pr_shift_work :: nat

type_synonym run_step = "patch_run \<Rightarrow> unit res \<times> patch_run"

text \<open>Statement sequence and loop; an exception leaves the state reached so far.\<close>

definition then_run :: "run_step \<Rightarrow> run_step \<Rightarrow> run_step" where
  "then_run f g s = (case f s of (Inl x, s') \<Rightarrow> (Inl x, s') | (Inr _, s') \<Rightarrow> g s')"

primrec run_each :: "('a \<Rightarrow> run_step) \<Rightarrow> 'a list \<Rightarrow> run_step" where
  "run_each f [] s = (Inr (), s)"
| "run_each f (x # xs) s = then_run (f x) (run_each f xs) s"

text \<open>A mutation with its undo, followed by the checkpoint with the given name.\<close>

definition mutate_run :: "(string \<Rightarrow> unit res) \<Rightarrow> string \<Rightarrow> engine \<Rightarrow> undo \<Rightarrow> run_step" where
  "mutate_run inject name e undo s =
     (inject name, s\<lparr>pr_engine := e, pr_undo := undo # pr_undo s\<rparr>)"

text \<open>
  \<open>_apply_point_change\<close> on one dictionary of the engine, given by its reader and its update; the
  undo \<open>target.pop(key, None)\<close> does not raise.
\<close>

definition apply_point :: "'v point_change \<Rightarrow> (string, 'v) pydict \<Rightarrow> (string, 'v) pydict res" where
  "apply_point c target =
     (case pc_after c of
        None \<Rightarrow> if dmem (pc_key c) target then Inr (ddel (pc_key c) target) else Inl KeyError
      | Some v \<Rightarrow> Inr (dset (pc_key c) v target))"

definition undo_point :: "'v point_change \<Rightarrow> (string, 'v) pydict \<Rightarrow> (string, 'v) pydict" where
  "undo_point c target =
     (case pc_before c of
        None \<Rightarrow> ddel (pc_key c) target
      | Some v \<Rightarrow> dset (pc_key c) v target)"

type_synonym 'd engine_update = "('d \<Rightarrow> 'd) \<Rightarrow> engine \<Rightarrow> engine"

definition point_step ::
    "(engine \<Rightarrow> (string, 'v) pydict) \<Rightarrow> (string, 'v) pydict engine_update \<Rightarrow> (string \<Rightarrow> unit res)
      \<Rightarrow> string \<Rightarrow> 'v point_change \<Rightarrow> run_step" where
  "point_step read write inject prefix c s =
     (case apply_point c (read (pr_engine s)) of
        Inl x \<Rightarrow> (Inl x, s)
      | Inr d \<Rightarrow>
          mutate_run inject (prefix @ pc_key c) (write (\<lambda>_. d) (pr_engine s))
            (\<lambda>e. (Inr (), write (undo_point c) e)) s)"

text \<open>
  Accumulators and counters are stored as snapshots in the patch and rebuilt (\<open>materialize\<close>,
  \<open>Counter(dict(...))\<close>) when they are written.
\<close>

definition rebuilt_step ::
    "('s \<Rightarrow> 'v) \<Rightarrow> (string, 'v) pydict engine_update \<Rightarrow> (string \<Rightarrow> unit res)
      \<Rightarrow> string \<Rightarrow> 's point_change \<Rightarrow> run_step" where
  "rebuilt_step build write inject prefix c s =
     (case (pc_before c, pc_after c) of
        (Some old, Some new) \<Rightarrow>
          mutate_run inject (prefix @ pc_key c) (write (dset (pc_key c) (build new)) (pr_engine s))
            (\<lambda>e. (Inr (), write (dset (pc_key c) (build old)) e)) s
      | _ \<Rightarrow> (Inl AssertionError, s))"

text \<open>
  \<open>_ScoreRangeIndex.add\<close> and \<open>remove\<close> with the index they leave: when the second tree raises, the
  first is already changed.
\<close>

definition index_both ::
    "(score_key avl_set \<Rightarrow> score_key \<Rightarrow> (score_key avl_set \<times> nat) res)
      \<Rightarrow> semantic_observation \<Rightarrow> score_range_index \<Rightarrow> nat res \<times> score_range_index" where
  "index_both f ob ix =
     (case f (support_entries ix) (support_entry ob) of
        Inl x \<Rightarrow> (Inl x, ix)
      | Inr (t, w1) \<Rightarrow>
          let ix = ix\<lparr>support_entries := t\<rparr> in
          (case f (refute_entries ix) (refute_entry ob) of
             Inl x \<Rightarrow> (Inl x, ix)
           | Inr (t, w2) \<Rightarrow> (Inr (w1 + w2), ix\<lparr>refute_entries := t\<rparr>)))"

definition change_index :: "bool \<Rightarrow> semantic_observation \<Rightarrow> engine \<Rightarrow> nat res \<times> engine" where
  "change_index add ob e =
     (let (w, ix) = index_both (if add then avl_add else avl_remove) ob (en_score_index e) in
      (w, e\<lparr>en_score_index := ix\<rparr>))"

definition undo_index :: "score_index_change \<Rightarrow> undo" where
  "undo_index c e =
     (let (w, e) = change_index (\<not> sc_add c) (sc_observation c) e in
      (bind_res w (\<lambda>_. Inr ()), e))"

definition score_step :: "(string \<Rightarrow> unit res) \<Rightarrow> score_index_change \<Rightarrow> run_step" where
  "score_step inject c s =
     (case change_index (sc_add c) (sc_observation c) (pr_engine s) of
        (Inl x, e) \<Rightarrow> (Inl x, s\<lparr>pr_engine := e\<rparr>)
      | (Inr w, e) \<Rightarrow>
          mutate_run inject (''score_index:'' @ ob_observation_id (sc_observation c)) e (undo_index c)
            (s\<lparr>pr_shift_work := pr_shift_work s + w\<rparr>))"

definition publish_step :: "(string \<Rightarrow> unit res) \<Rightarrow> state_patch \<Rightarrow> run_step" where
  "publish_step inject pt s =
     (let e = pr_engine s; previous = en_last_stats e;
          stats = (pt_stats pt)\<lparr>st_score_index_shift_work := int (pr_shift_work s)\<rparr>;
          s = s\<lparr>pr_engine := e\<lparr>en_last_stats := stats\<rparr>,
                pr_undo := (\<lambda>e. (Inr (), e\<lparr>en_last_stats := previous\<rparr>)) # pr_undo s\<rparr> in
      mutate_run inject ''published''
        ((pr_engine s)\<lparr>en_state_revision := en_state_revision (pr_engine s) + 1\<rparr>)
        (\<lambda>e. (Inr (), e\<lparr>en_state_revision := en_state_revision e - 1\<rparr>)) s)"

definition counter_of_items :: "counter_items \<Rightarrow> status_counter" where
  "counter_of_items items = dict_of items"

definition run_patch :: "(string \<Rightarrow> unit res) \<Rightarrow> state_patch \<Rightarrow> run_step" where
  "run_patch inject pt =
     then_run (run_each (point_step en_active_labels en_active_labels_update inject ''active_label:'')
       (pt_active_label_changes pt))
     (then_run (run_each (point_step en_contributions en_contributions_update inject ''contribution:'')
       (pt_contribution_changes pt))
     (then_run (run_each (rebuilt_step materialize_accumulator en_claim_accumulators_update inject ''accumulator:'')
       (pt_accumulator_changes pt))
     (then_run (run_each (point_step en_claim_states en_claim_states_update inject ''claim_state:'')
       (pt_claim_state_changes pt))
     (then_run (run_each (point_step en_certificates en_certificates_update inject ''certificate:'')
       (pt_certificate_changes pt))
     (then_run (run_each (rebuilt_step counter_of_items en_answer_status_counts_update inject ''answer_counts:'')
       (pt_answer_count_changes pt))
     (then_run (run_each (point_step en_answer_states en_answer_states_update inject ''answer_state:'')
       (pt_answer_state_changes pt))
     (then_run (run_each (score_step inject) (pt_score_index_changes pt))
       (publish_step inject pt))))))))"

text \<open>\<open>for rollback in reversed(undo)\<close>; an exception there replaces the one being handled.\<close>

primrec roll_back :: "undo list \<Rightarrow> undo" where
  "roll_back [] e = (Inr (), e)"
| "roll_back (u # us) e = (case u e of (Inl x, e') \<Rightarrow> (Inl x, e') | (Inr _, e') \<Rightarrow> roll_back us e')"

definition apply_state_patch :: "(string \<Rightarrow> unit res) \<Rightarrow> state_patch \<Rightarrow> undo" where
  "apply_state_patch inject pt e =
     (case validate_patch_preconditions pt e of
        Inl x \<Rightarrow> (Inl x, e)
      | Inr _ \<Rightarrow>
          (case run_patch inject pt \<lparr>pr_engine = e, pr_undo = [], pr_shift_work = 0\<rparr> of
             (Inr _, s) \<Rightarrow> (Inr (), pr_engine s)
           | (Inl x, s) \<Rightarrow>
               (case roll_back (pr_undo s) (pr_engine s) of
                  (Inl y, e') \<Rightarrow> (Inl y, e')
                | (Inr _, e') \<Rightarrow> (Inl x, e'))))"

end
