(* ===== verification/GL_PatchBase.thy ===== *)
theory GL_PatchBase
  imports GL_Patch GL_EngineProofs
begin

text \<open>
  Equality of the engine's containers up to the order of their keys: what a snapshot keeps, and that
  the operations on accumulators respect it.
\<close>

section \<open>Dictionaries up to order\<close>

definition same_dict :: "('k, 'v) pydict \<Rightarrow> ('k, 'v) pydict \<Rightarrow> bool" where
  "same_dict d d' \<longleftrightarrow> dict_ok d \<and> dict_ok d' \<and> dget d = dget d'"

lemma same_dict_sym: "same_dict d d' \<Longrightarrow> same_dict d' d"
  by (simp add: same_dict_def)

lemma same_dict_dset: "same_dict d d' \<Longrightarrow> same_dict (dset k v d) (dset k v d')"
  by (simp add: same_dict_def)

lemma same_dict_ddel: "same_dict d d' \<Longrightarrow> same_dict (ddel k d) (ddel k d')"
  by (simp add: same_dict_def)

lemma same_dict_default: "same_dict d d' \<Longrightarrow> dget_default d k v = dget_default d' k v"
  by (simp add: same_dict_def dget_default_def)

lemma same_dict_set: "same_dict d d' \<Longrightarrow> set d = set d'"
  by (auto simp: same_dict_def dget_in_set)

lemma same_dict_mset: "same_dict d d' \<Longrightarrow> mset d = mset d'"
  using same_dict_set [of d d'] by (simp add: same_dict_def dict_ok_def distinct_map set_eq_iff_mset_eq_distinct)

lemma same_dict_length: "same_dict d d' \<Longrightarrow> length d = length d'"
  using same_dict_mset by (metis size_mset)

lemma same_dict_mem: "same_dict d d' \<Longrightarrow> dmem k d = dmem k d'"
  by (simp add: same_dict_def dmem_def)

lemma dict_ok_mset: "mset d = mset d' \<Longrightarrow> dict_ok d \<Longrightarrow> dict_ok d'"
  unfolding dict_ok_def using mset_eq_imp_distinct_iff [of "dkeys d" "dkeys d'"] by (metis mset_map)

lemma same_dict_permuted:
  assumes "dict_ok d" and "mset d' = mset d" shows "same_dict d' d"
proof -
  have ok: "dict_ok d'" using dict_ok_mset [of d d'] assms by simp
  have "set d' = set d" using assms(2) by (metis set_mset_mset)
  then have "dget d' k = Some v \<longleftrightarrow> dget d k = Some v" for k v
    using dget_in_set [OF ok] dget_in_set [OF assms(1)] by metis
  then have "dget d' k = dget d k" for k by (metis option.exhaust)
  then show ?thesis using ok assms(1) by (auto simp: same_dict_def)
qed

lemma same_dict_sort: "dict_ok d \<Longrightarrow> same_dict (sort_key f d) d"
  by (rule same_dict_permuted) simp_all

lemma sort_same_dict: "same_dict d d' \<Longrightarrow> sort d = sort d'"
  using same_dict_mset [of d d'] by (intro properties_for_sort) simp_all

lemma fold_dset_append:
  "dict_ok (d @ ps) \<Longrightarrow> fold (\<lambda>(k, v) d. dset k v d) ps d = d @ ps"
proof (induction ps arbitrary: d)
  case (Cons p ps)
  obtain k v where p: "p = (k, v)" by (cases p)
  have "dset k v e = e @ [(k, v)]" if "k \<notin> set (dkeys e)" for e :: "('a \<times> 'b) list"
    using that by (induction e) auto
  then have "dset k v d = d @ [(k, v)]" using Cons.prems by (simp add: dict_ok_def p)
  then show ?case using Cons by (simp add: p)
qed simp

lemma dict_of_ok: "dict_ok ps \<Longrightarrow> dict_of ps = ps"
  using fold_dset_append [of "[]" ps] by (simp add: dict_of_def)

text \<open>A dictionary that is captured sorted and rebuilt.\<close>

lemma rebuilt_dict: "dict_ok d \<Longrightarrow> same_dict (dict_of (sort_key f d)) d"
  using same_dict_sort [of d f] dict_of_ok [of "sort_key f d"] by (simp add: same_dict_def)

section \<open>Score multisets\<close>

definition same_scores :: "score_multiset \<Rightarrow> score_multiset \<Rightarrow> bool" where
  "same_scores m m' \<longleftrightarrow> same_dict (sm_counts m) (sm_counts m') \<and> sm_max_heap m = sm_max_heap m'"

lemma same_scores_sym: "same_scores m m' \<Longrightarrow> same_scores m' m"
  by (auto simp: same_scores_def same_dict_sym)

lemma rebuilt_scores: "dict_ok (sm_counts m) \<Longrightarrow> same_scores (materialize_scores (capture_scores m)) m"
  by (simp add: same_scores_def materialize_scores_def capture_scores_def rebuilt_dict)

lemma capture_same_scores: "same_scores m m' \<Longrightarrow> capture_scores m = capture_scores m'"
  by (simp add: same_scores_def capture_scores_def sort_same_dict)

lemma sm_add_same: "same_scores m m' \<Longrightarrow> same_scores (sm_add v m) (sm_add v m')"
proof -
  assume same: "same_scores m m'"
  then have d: "same_dict (sm_counts m) (sm_counts m')" by (simp add: same_scores_def)
  show ?thesis
    using same same_dict_dset [OF d] by (simp add: same_scores_def sm_add_def same_dict_default [OF d])
qed

lemma sm_remove_same:
  assumes same: "same_scores m m'" and "sm_remove v m = Inr n"
  shows "\<exists>n'. sm_remove v m' = Inr n' \<and> same_scores n n'"
proof -
  from same have d: "same_dict (sm_counts m) (sm_counts m')" by (simp add: same_scores_def)
  show ?thesis
    using assms unfolding sm_remove_def Let_def same_dict_default [OF d]
    by (auto simp: same_scores_def same_dict_dset same_dict_ddel split: if_splits)
qed

lemma prune_same: "same_dict c c' \<Longrightarrow> prune c h = prune c' h"
proof (induction c h rule: prune.induct)
  case (1 c h)
  show ?case
    by (subst (1 2) prune.simps) (use 1 in \<open>auto simp: same_dict_mem split: list.split\<close>)
qed

lemma sm_maximum_same:
  assumes "same_scores m m'"
  shows "fst (sm_maximum m) = fst (sm_maximum m')" and "same_scores (snd (sm_maximum m)) (snd (sm_maximum m'))"
  using assms prune_same [of "sm_counts m" "sm_counts m'" "sm_max_heap m"]
  by (simp_all add: sm_maximum_def same_scores_def Let_def)

section \<open>Accumulators\<close>

definition same_acc :: "claim_accumulator \<Rightarrow> claim_accumulator \<Rightarrow> bool" where
  "same_acc a b \<longleftrightarrow>
     same_dict (support_hash_counts a) (support_hash_counts b) \<and>
     same_dict (refute_hash_counts a) (refute_hash_counts b) \<and>
     support_observation_ids a = support_observation_ids b \<and>
     refute_observation_ids a = refute_observation_ids b \<and>
     same_scores (support_scores a) (support_scores b) \<and>
     same_scores (refute_scores a) (refute_scores b)"

abbreviation acc_ok :: "claim_accumulator \<Rightarrow> bool" where
  "acc_ok a \<equiv> same_acc a a"

lemma same_acc_okD: "same_acc a b \<Longrightarrow> acc_ok a" "same_acc a b \<Longrightarrow> acc_ok b"
  by (simp_all add: same_acc_def same_scores_def same_dict_def)

lemma same_acc_sym: "same_acc a b \<Longrightarrow> same_acc b a"
  by (simp add: same_acc_def same_scores_def same_dict_def)

lemma same_acc_trans: "same_acc a b \<Longrightarrow> same_acc b c \<Longrightarrow> same_acc a c"
  by (simp add: same_acc_def same_scores_def same_dict_def)

lemma capture_same: "same_acc a b \<Longrightarrow> capture_accumulator a = capture_accumulator b"
  by (simp add: same_acc_def capture_accumulator_def sort_same_dict capture_same_scores)

lemma rebuilt_accumulator: "acc_ok a \<Longrightarrow> same_acc (materialize_accumulator (capture_accumulator a)) a"
  by (simp add: same_acc_def same_scores_def same_dict_def materialize_accumulator_def
      capture_accumulator_def materialize_scores_def capture_scores_def
      rebuilt_dict [unfolded same_dict_def])

lemma acc_rel_ok: "acc_rel a V cid \<Longrightarrow> acc_ok a"
  by (simp add: acc_rel_def side_rel_def sm_rel_def same_acc_def same_scores_def same_dict_def get_side_def)

text \<open>The containers of one label.\<close>

definition same_side :: "acc_side \<Rightarrow> acc_side \<Rightarrow> bool" where
  "same_side s t \<longleftrightarrow>
     same_dict (side_counts s) (side_counts t) \<and> side_ids s = side_ids t \<and>
     same_scores (side_scores s) (side_scores t)"

lemma get_side_same: "same_acc a b \<Longrightarrow> same_side (get_side l a) (get_side l b)"
  by (simp add: same_acc_def same_side_def get_side_def)

lemma put_side_same: "same_acc a b \<Longrightarrow> same_side s t \<Longrightarrow> same_acc (put_side l s a) (put_side l t b)"
  by (simp add: same_acc_def same_side_def put_side_def)

lemma side_add_same:
  assumes "same_side s t"
  shows "snd (side_add c s) = snd (side_add c t)" and "same_side (fst (side_add c s)) (fst (side_add c t))"
proof -
  from assms have d: "same_dict (side_counts s) (side_counts t)" by (simp add: same_side_def)
  show "snd (side_add c s) = snd (side_add c t)"
    by (simp add: side_add_def Let_def same_dict_default [OF d])
  show "same_side (fst (side_add c s)) (fst (side_add c t))"
    using assms same_dict_dset [OF d]
    by (simp add: side_add_def Let_def same_side_def same_dict_default [OF d] sm_add_same)
qed

lemma side_remove_same:
  assumes same: "same_side s t" and ok: "side_remove c s = Inr (s', b)"
  shows "\<exists>t'. side_remove c t = Inr (t', b) \<and> same_side s' t'"
proof -
  from same have d: "same_dict (side_counts s) (side_counts t)" and ids: "side_ids s = side_ids t"
    and sc: "same_scores (side_scores s) (side_scores t)" by (simp_all add: same_side_def)
  from ok obtain n where
    pos: "\<not> dget_default (side_counts t) (co_text_hash c) 0 \<le> 0" "co_observation_id c \<in> side_ids t"
    and n: "sm_remove (co_score c) (side_scores s) = Inr n"
    and s': "s' = \<lparr>side_counts = (if dget_default (side_counts t) (co_text_hash c) 0 = 1
          then ddel (co_text_hash c) (side_counts s)
          else dset (co_text_hash c) (dget_default (side_counts t) (co_text_hash c) 0 - 1) (side_counts s)),
        side_ids = side_ids s - {co_observation_id c}, side_scores = n\<rparr>"
    and b: "b = (dget_default (side_counts t) (co_text_hash c) 0 = 1)"
    unfolding side_remove_def Let_def same_dict_default [OF d] ids
    by (auto simp: bind_res_Inr_iff split: if_splits)
  from sm_remove_same [OF sc n] obtain n' where n': "sm_remove (co_score c) (side_scores t) = Inr n'"
    "same_scores n n'" by blast
  show ?thesis
    using pos n' d ids
    by (auto simp: side_remove_def Let_def s' b same_side_def same_dict_dset same_dict_ddel)
qed

lemma state_from_accumulator_value_same:
  assumes "same_acc a b"
  shows "fst (state_from_accumulator_value cid a) = fst (state_from_accumulator_value cid b)"
    and "same_acc (snd (state_from_accumulator_value cid a)) (snd (state_from_accumulator_value cid b))"
proof -
  from assms have d: "length (support_hash_counts a) = length (support_hash_counts b)"
    "length (refute_hash_counts a) = length (refute_hash_counts b)"
    by (simp_all add: same_acc_def same_dict_length)
  from assms have s: "same_scores (support_scores a) (support_scores b)"
    "same_scores (refute_scores a) (refute_scores b)" by (simp_all add: same_acc_def)
  note m = sm_maximum_same [OF s(1)] sm_maximum_same [OF s(2)]
  show "fst (state_from_accumulator_value cid a) = fst (state_from_accumulator_value cid b)"
    using assms d m by (simp add: state_from_accumulator_value_def Let_def case_prod_beta same_acc_def)
  show "same_acc (snd (state_from_accumulator_value cid a)) (snd (state_from_accumulator_value cid b))"
    using assms m by (simp add: state_from_accumulator_value_def Let_def case_prod_beta same_acc_def)
qed

text \<open>The snapshot of a counter sorts by the text of the status.\<close>

lemma claim_status_value_inj: "claim_status_value s = claim_status_value t \<longleftrightarrow> s = t"
  by (cases s; cases t) simp_all

lemma counter_snapshot_same: "same_dict c c' \<Longrightarrow> counter_snapshot c = counter_snapshot c'"
proof -
  assume same: "same_dict c c'"
  let ?f = "\<lambda>item :: claim_status \<times> int. claim_status_value (fst item)"
  have "inj_on ?f (set c)"
    using same by (auto simp: inj_on_def claim_status_value_inj same_dict_def dget_in_set)
  then show ?thesis
    unfolding counter_snapshot_def using same_dict_mset [OF same]
    by (intro sort_key_inj_key_eq) simp_all
qed

lemma rebuilt_counter: "dict_ok c \<Longrightarrow> same_dict (counter_of_items (counter_snapshot c)) c"
  by (simp add: counter_of_items_def counter_snapshot_def rebuilt_dict)

end
