(* ===== verification/GL_PatchSim.thy ===== *)
theory GL_PatchSim
  imports GL_PatchBase
begin

text \<open>
  Preparing a patch simulates the in-place update: the dictionaries that the preparation fills,
  read over the untouched engine, are the containers of the engine that the in-place path mutates,
  and the index changes it collects lead to the index of that engine.
\<close>

section \<open>Loops in lockstep\<close>

lemma fold_res_simulation:
  assumes "fold_res f xs s = Inr s'" and "R [] s t"
    and step: "\<And>ys x zs s s' t. xs = ys @ x # zs \<Longrightarrow> R ys s t \<Longrightarrow> f x s = Inr s' \<Longrightarrow>
      \<exists>t'. g x t = Inr t' \<and> R (ys @ [x]) s' t'"
  shows "\<exists>t'. fold_res g xs t = Inr t' \<and> R xs s' t'"
proof -
  have "\<exists>t'. fold_res g zs t = Inr t' \<and> R (ys @ zs) s' t'"
    if "xs = ys @ zs" "R ys s t" "fold_res f zs s = Inr s'" for ys zs s t
    using that
  proof (induction zs arbitrary: ys s t)
    case (Cons x zs)
    from Cons.prems(3) obtain u where u: "f x s = Inr u" "fold_res f zs u = Inr s'"
      by (auto elim: bind_res_InrE)
    from step [OF Cons.prems(1,2) u(1)] obtain v where v: "g x t = Inr v" "R (ys @ [x]) u v" by blast
    have "xs = (ys @ [x]) @ zs" using Cons.prems(1) by simp
    from Cons.IH [OF this v(2) u(2)] v(1) show ?case by simp
  qed simp
  from this [of "[]" xs s t] assms(1,2) show ?thesis by simp
qed

section \<open>The relation\<close>

definition index_change :: "score_index_change \<Rightarrow> score_range_index \<times> nat \<Rightarrow> (score_range_index \<times> nat) res" where
  "index_change c ixw =
     bind_res ((if sc_add c then index_add else index_remove) (fst ixw) (sc_observation c)) (\<lambda>(ix, w).
       Inr (ix, snd ixw + w))"

text \<open>Every accumulator is either untouched or copied, and the copies are of the dirty claims.\<close>

definition patch_accs ::
    "(string, claim_accumulator) pydict \<Rightarrow> (string, accumulator_snapshot) pydict
      \<Rightarrow> (string, claim_accumulator) pydict \<Rightarrow> string set \<Rightarrow> (string, claim_accumulator) pydict \<Rightarrow> bool" where
  "patch_accs acc0 before copies dirty acc \<longleftrightarrow>
     (\<forall>c. case dget copies c of
        None \<Rightarrow> dget acc c = dget acc0 c
      | Some a \<Rightarrow> \<exists>b. dget acc c = Some b \<and> same_acc a b) \<and>
     (\<forall>c. dget before c =
        (if c \<in> dom (dget copies) then map_option capture_accumulator (dget acc0 c) else None)) \<and>
     dom (dget copies) = dirty \<and> dirty \<subseteq> dom (dget acc0) \<and> dict_ok copies"

definition patch_sim :: "engine \<Rightarrow> patch_ctx \<Rightarrow> update_ctx \<Rightarrow> bool" where
  "patch_sim e px cx \<longleftrightarrow>
     overlay_get (px_label_values px) (en_active_labels e) = dget (en_active_labels (cx_engine cx)) \<and>
     overlay_get (px_contribution_values px) (en_contributions e) = dget (en_contributions (cx_engine cx)) \<and>
     patch_accs (en_claim_accumulators e) (px_accumulator_before px) (px_accumulators px)
       (cx_dirty_claims cx) (en_claim_accumulators (cx_engine cx)) \<and> px_dirty_claims px = cx_dirty_claims cx \<and>
     (\<exists>w. fold_res index_change (px_score_changes px) (en_score_index e, 0) =
           Inr (en_score_index (cx_engine cx), w) \<and> mt_score_index_shift_work (cx_stats cx) = int w) \<and>
     px_stats px = (cx_stats cx)\<lparr>mt_score_index_shift_work := 0, mt_score_index_point_updates := 0\<rparr> \<and>
     mt_score_index_point_updates (cx_stats cx) = 2 * int (length (px_score_changes px)) \<and>
     base_frame e (cx_engine cx)"

lemma patch_simD:
  assumes "patch_sim e px cx"
  shows "patch_label e px i = dget (en_active_labels (cx_engine cx)) i"
    and "patch_contribution e px i = dget (en_contributions (cx_engine cx)) i"
    and "patch_accs (en_claim_accumulators e) (px_accumulator_before px) (px_accumulators px)
       (cx_dirty_claims cx) (en_claim_accumulators (cx_engine cx))" and "px_dirty_claims px = cx_dirty_claims cx"
    and "px_stats px = (cx_stats cx)\<lparr>mt_score_index_shift_work := 0, mt_score_index_point_updates := 0\<rparr>"
    and "mt_score_index_point_updates (cx_stats cx) = 2 * int (length (px_score_changes px))"
    and "base_frame e (cx_engine cx)"
  using assms by (simp_all add: patch_sim_def patch_label_def patch_contribution_def)

text \<open>What a prepared patch needs beyond that; \<open>A\<close> are the active observations of the engine.\<close>

definition patch_inv ::
    "engine \<Rightarrow> (string \<rightharpoonup> semantic_observation) \<Rightarrow> string set \<Rightarrow> patch_ctx \<Rightarrow> bool" where
  "patch_inv e A T px \<longleftrightarrow>
     dom (dget (px_label_values px)) \<subseteq> T \<and> dom (dget (px_contribution_values px)) \<subseteq> T \<and>
     distinct (map (\<lambda>c. ob_observation_id (sc_observation c)) (px_score_changes px)) \<and>
     (\<forall>c \<in> set (px_score_changes px).
        ob_observation_id (sc_observation c) \<in> T \<and>
        A (ob_observation_id (sc_observation c)) = (if sc_add c then None else Some (sc_observation c))) \<and>
     (\<forall>i. dget (px_label_values px) i = Some None \<longrightarrow> i \<in> dom (dget (en_active_labels e))) \<and>
     (\<forall>i. dget (px_contribution_values px) i = Some None \<longrightarrow> i \<in> dom (dget (en_contributions e))) \<and>
     dict_ok (px_label_values px) \<and> dict_ok (px_contribution_values px)"

lemma patch_invD:
  assumes "patch_inv e A T px"
  shows "dom (dget (px_label_values px)) \<subseteq> T" and "dom (dget (px_contribution_values px)) \<subseteq> T"
    and "distinct (map (\<lambda>c. ob_observation_id (sc_observation c)) (px_score_changes px))"
    and "c \<in> set (px_score_changes px) \<Longrightarrow> ob_observation_id (sc_observation c) \<in> T"
    and "c \<in> set (px_score_changes px) \<Longrightarrow>
      A (ob_observation_id (sc_observation c)) = (if sc_add c then None else Some (sc_observation c))"
    and "dget (px_label_values px) i = Some None \<Longrightarrow> i \<in> dom (dget (en_active_labels e))"
    and "dget (px_contribution_values px) i = Some None \<Longrightarrow> i \<in> dom (dget (en_contributions e))"
    and "dict_ok (px_label_values px)" and "dict_ok (px_contribution_values px)"
  using assms unfolding patch_inv_def by blast+

lemma patch_inv_new_id:
  assumes "patch_inv e A T px" and "i \<notin> T"
  shows "i \<notin> (\<lambda>c. ob_observation_id (sc_observation c)) ` set (px_score_changes px)"
proof
  assume "i \<in> (\<lambda>c. ob_observation_id (sc_observation c)) ` set (px_score_changes px)"
  then obtain c where "c \<in> set (px_score_changes px)" "i = ob_observation_id (sc_observation c)" by (rule imageE)
  with patch_invD(4) [OF assms(1)] assms(2) show False by simp
qed

lemma patch_inv_mono: "patch_inv e A T px \<Longrightarrow> T \<subseteq> T' \<Longrightarrow> patch_inv e A T' px"
  unfolding patch_inv_def by blast

lemma overlay_get_dset: "overlay_get (dset k v values) current = (overlay_get values current)(k := v)"
  by (rule ext) (simp add: overlay_get_def)

lemma overlay_get_fresh: "k \<notin> dom (dget values) \<Longrightarrow> overlay_get values current k = dget current k"
  by (simp add: overlay_get_def domIff)

lemma overlay_get_Nil [simp]: "overlay_get [] d = dget d"
  by (rule ext) (simp add: overlay_get_def)

section \<open>Elementary steps\<close>

lemma overlay_step:
  assumes "overlay_get values current = dget d"
  shows "overlay_get (dset i v values) current = dget (case v of None \<Rightarrow> ddel i d | Some x \<Rightarrow> dset i x d)"
  using assms by (auto simp: overlay_get_dset split: option.split)

lemma sim_label:
  assumes "patch_sim e px cx"
  shows "patch_sim e (px\<lparr>px_label_values := dset i v (px_label_values px)\<rparr>)
    (cx\<lparr>cx_engine := (cx_engine cx)\<lparr>en_active_labels :=
       (case v of None \<Rightarrow> ddel i (en_active_labels (cx_engine cx))
        | Some l \<Rightarrow> dset i l (en_active_labels (cx_engine cx)))\<rparr>\<rparr>)"
  using assms overlay_step [of "px_label_values px" "en_active_labels e" "en_active_labels (cx_engine cx)" i v]
  by (simp add: patch_sim_def base_frame_def)

lemma sim_contribution:
  assumes "patch_sim e px cx"
  shows "patch_sim e (px\<lparr>px_contribution_values := dset i v (px_contribution_values px)\<rparr>)
    (cx\<lparr>cx_engine := (cx_engine cx)\<lparr>en_contributions :=
       (case v of None \<Rightarrow> ddel i (en_contributions (cx_engine cx))
        | Some l \<Rightarrow> dset i l (en_contributions (cx_engine cx)))\<rparr>\<rparr>)"
  using assms overlay_step [of "px_contribution_values px" "en_contributions e"
      "en_contributions (cx_engine cx)" i v]
  by (simp add: patch_sim_def base_frame_def)

text \<open>An index change with its statistics; \<open>st\<close> is how the counters of observations move.\<close>

lemma sim_index:
  assumes sim: "patch_sim e px cx"
    and ix: "(if add then index_add else index_remove) (en_score_index (cx_engine cx)) ob = Inr (ix, w)"
    and st: "px_stats px' = (cx_stats cx')\<lparr>mt_score_index_shift_work := 0, mt_score_index_point_updates := 0\<rparr>"
      "mt_score_index_shift_work (cx_stats cx') = mt_score_index_shift_work (cx_stats cx) + int w"
      "mt_score_index_point_updates (cx_stats cx') = mt_score_index_point_updates (cx_stats cx) + 2"
    and px': "px' = px\<lparr>px_score_changes := px_score_changes px @ [\<lparr>sc_observation = ob, sc_add = add\<rparr>],
      px_stats := px_stats px'\<rparr>"
    and cx': "cx' = cx\<lparr>cx_engine := (cx_engine cx)\<lparr>en_score_index := ix\<rparr>, cx_stats := cx_stats cx'\<rparr>"
  shows "patch_sim e px' cx'"
proof -
  from sim obtain u where u: "fold_res index_change (px_score_changes px) (en_score_index e, 0) =
      Inr (en_score_index (cx_engine cx), u)" "mt_score_index_shift_work (cx_stats cx) = int u"
    by (auto simp: patch_sim_def)
  have ch: "px_score_changes px' = px_score_changes px @ [\<lparr>sc_observation = ob, sc_add = add\<rparr>]"
    by (subst px') simp
  have en: "cx_engine cx' = (cx_engine cx)\<lparr>en_score_index := ix\<rparr>" by (subst cx') simp
  have same: "px_label_values px' = px_label_values px" "px_contribution_values px' = px_contribution_values px"
    "px_accumulators px' = px_accumulators px" "px_accumulator_before px' = px_accumulator_before px"
    "px_dirty_claims px' = px_dirty_claims px" by (subst px', simp)+
  have dirty: "cx_dirty_claims cx' = cx_dirty_claims cx" by (subst cx') simp
  have "fold_res index_change (px_score_changes px') (en_score_index e, 0) = Inr (ix, u + w)"
    using ix by (simp add: ch fold_res_append u(1) index_change_def)
  then show ?thesis
    using sim st u(2) unfolding patch_sim_def en
    by (simp add: same dirty ch base_frame_def)
qed

lemma sim_stats:
  assumes "patch_sim e px cx"
    and "s = t\<lparr>mt_score_index_shift_work := 0, mt_score_index_point_updates := 0\<rparr>"
    and "mt_score_index_shift_work t = mt_score_index_shift_work (cx_stats cx)"
    and "mt_score_index_point_updates t = mt_score_index_point_updates (cx_stats cx)"
  shows "patch_sim e (px\<lparr>px_stats := s\<rparr>) (cx\<lparr>cx_stats := t\<rparr>)"
  using assms by (simp add: patch_sim_def)

section \<open>Contributions\<close>

definition accs_ok :: "engine \<Rightarrow> bool" where
  "accs_ok e \<longleftrightarrow> (\<forall>c a. dget (en_claim_accumulators e) c = Some a \<longrightarrow> acc_ok a)"

lemma patch_accsD:
  assumes "patch_accs acc0 before copies dirty acc"
  shows "dget copies c = Some a \<Longrightarrow> \<exists>b. dget acc c = Some b \<and> same_acc a b"
    and "dget copies c = None \<Longrightarrow> dget acc c = dget acc0 c"
    and "dget before c = (if c \<in> dom (dget copies) then map_option capture_accumulator (dget acc0 c) else None)"
    and "dom (dget copies) = dirty" and "dirty \<subseteq> dom (dget acc0)" and "dict_ok copies"
proof -
  from assms have A: "case dget copies c of None \<Rightarrow> dget acc c = dget acc0 c
      | Some a \<Rightarrow> \<exists>b. dget acc c = Some b \<and> same_acc a b"
    unfolding patch_accs_def by blast
  show "dget copies c = Some a \<Longrightarrow> \<exists>b. dget acc c = Some b \<and> same_acc a b" using A by simp
  show "dget copies c = None \<Longrightarrow> dget acc c = dget acc0 c" using A by simp
qed (use assms in \<open>unfold patch_accs_def, blast\<close>)+

lemma patch_accsI:
  assumes "\<And>c a. dget copies c = Some a \<Longrightarrow> \<exists>b. dget acc c = Some b \<and> same_acc a b"
    and "\<And>c. dget copies c = None \<Longrightarrow> dget acc c = dget acc0 c"
    and "\<And>c. dget before c = (if c \<in> dom (dget copies) then map_option capture_accumulator (dget acc0 c) else None)"
    and "dom (dget copies) = dirty" and "dirty \<subseteq> dom (dget acc0)" and "dict_ok copies"
  shows "patch_accs acc0 before copies dirty acc"
  unfolding patch_accs_def using assms by (auto split: option.split)

lemma patch_accs_write:
  assumes accs: "patch_accs acc0 before copies dirty acc" and cid: "cid \<in> dom (dget acc0)"
    and same: "same_acc a b"
  shows "patch_accs acc0 (if cid \<in> dom (dget copies) then before
      else dset cid (capture_accumulator (the (dget acc0 cid))) before)
    (dset cid a copies) (insert cid dirty) (dset cid b acc)"
proof (rule patch_accsI)
  note D = patch_accsD [OF accs]
  fix c
  show "\<exists>y. dget (dset cid b acc) c = Some y \<and> same_acc x y" if "dget (dset cid a copies) c = Some x" for x
    using that same D(1) [of c x] by (cases "c = cid") auto
  show "dget (dset cid b acc) c = dget acc0 c" if "dget (dset cid a copies) c = None"
    using that D(2) [of c] by (cases "c = cid") auto
  show "dget (if cid \<in> dom (dget copies) then before
      else dset cid (capture_accumulator (the (dget acc0 cid))) before) c =
    (if c \<in> dom (dget (dset cid a copies)) then map_option capture_accumulator (dget acc0 c) else None)"
    using cid D(3) [of c] by auto
  show "dom (dget (dset cid a copies)) = insert cid dirty" using D(4) by auto
  show "insert cid dirty \<subseteq> dom (dget acc0)" using D(5) cid by simp
  show "dict_ok (dset cid a copies)" using D(6) by simp
qed

lemma patch_accumulator_copy:
  assumes accs: "patch_accs (en_claim_accumulators e) (px_accumulator_before px) (px_accumulators px) dirty acc"
    and ok: "accs_ok e" and b: "dget acc cid = Some b"
  obtains a before copies where
    "patch_accumulator e cid px = Inr (a, px\<lparr>px_accumulator_before := before, px_accumulators := copies\<rparr>)"
    and "same_acc a b"
    and "\<And>x y. same_acc x y \<Longrightarrow>
      patch_accs (en_claim_accumulators e) before (dset cid x copies) (insert cid dirty) (dset cid y acc)"
proof (cases "dget (px_accumulators px) cid")
  case (Some a)
  note D = patch_accsD [OF accs]
  from D(1) [OF Some] b have same: "same_acc a b" by simp
  have cid: "cid \<in> dom (dget (px_accumulators px))" using Some by blast
  then have dom: "cid \<in> dom (dget (en_claim_accumulators e))" using D(4,5) by blast
  have "patch_accumulator e cid px =
      Inr (a, px\<lparr>px_accumulator_before := px_accumulator_before px, px_accumulators := px_accumulators px\<rparr>)"
    using Some by (cases px) (simp add: patch_accumulator_def)
  moreover have "patch_accs (en_claim_accumulators e) (px_accumulator_before px)
      (dset cid x (px_accumulators px)) (insert cid dirty) (dset cid y acc)" if "same_acc x y" for x y
    using patch_accs_write [OF accs dom that] cid by simp
  ultimately show thesis by (rule that [OF _ same])
next
  case None
  note D = patch_accsD [OF accs]
  from D(2) [OF None] b have orig: "dget (en_claim_accumulators e) cid = Some b" by simp
  let ?s = "capture_accumulator b"
  have "acc_ok b" using ok orig by (simp add: accs_ok_def)
  then have same: "same_acc (materialize_accumulator ?s) b" by (rule rebuilt_accumulator)
  have dom: "cid \<in> dom (dget (en_claim_accumulators e))" using orig by blast
  have "patch_accumulator e cid px = Inr (materialize_accumulator ?s,
      px\<lparr>px_accumulator_before := dset cid ?s (px_accumulator_before px),
         px_accumulators := dset cid (materialize_accumulator ?s) (px_accumulators px)\<rparr>)"
    using None orig by (simp add: patch_accumulator_def Let_def)
  then show thesis
  proof (rule that [OF _ same])
    fix x y assume xy: "same_acc x y"
    have mem: "cid \<notin> dom (dget (px_accumulators px))" using None by blast
    from patch_accs_write [OF accs dom xy] mem orig have
      w: "patch_accs (en_claim_accumulators e) (dset cid ?s (px_accumulator_before px))
        (dset cid x (px_accumulators px)) (insert cid dirty) (dset cid y acc)" by simp
    show "patch_accs (en_claim_accumulators e) (dset cid ?s (px_accumulator_before px))
        (dset cid x (dset cid (materialize_accumulator ?s) (px_accumulators px))) (insert cid dirty) (dset cid y acc)"
    proof (rule patch_accsI)
      note W = patch_accsD [OF w]
      have eq: "dget (dset cid x (dset cid z (px_accumulators px))) = dget (dset cid x (px_accumulators px))" for z
        by simp
      fix c
      show "\<exists>v. dget (dset cid y acc) c = Some v \<and> same_acc u v"
        if "dget (dset cid x (dset cid (materialize_accumulator ?s) (px_accumulators px))) c = Some u" for u
        using that W(1) unfolding eq by blast
      show "dget (dset cid y acc) c = dget (en_claim_accumulators e) c"
        if "dget (dset cid x (dset cid (materialize_accumulator ?s) (px_accumulators px))) c = None"
        using that W(2) unfolding eq by blast
      show "dget (dset cid ?s (px_accumulator_before px)) c =
        (if c \<in> dom (dget (dset cid x (dset cid (materialize_accumulator ?s) (px_accumulators px))))
         then map_option capture_accumulator (dget (en_claim_accumulators e) c) else None)"
        unfolding eq by (rule W(3))
      show "dom (dget (dset cid x (dset cid (materialize_accumulator ?s) (px_accumulators px)))) = insert cid dirty"
        unfolding eq by (rule W(4))
    qed (use patch_accsD(5,6) [OF w] D(6) in auto)
  qed
qed

lemma dkeys_dset_known: "dget d k = Some v \<Longrightarrow> dkeys (dset k w d) = dkeys d"
  by (rule dkeys_dset_same)

text \<open>What a contribution step leaves alone.\<close>

definition same_values :: "patch_ctx \<Rightarrow> patch_ctx \<Rightarrow> bool" where
  "same_values px px' \<longleftrightarrow>
     px_label_values px' = px_label_values px \<and>
     px_contribution_values px' = px_contribution_values px \<and>
     px_score_changes px' = px_score_changes px"

lemma patch_inv_same: "same_values px px' \<Longrightarrow> patch_inv e A T px \<Longrightarrow> patch_inv e A T px'"
  by (simp add: same_values_def patch_inv_def)

lemma sim_add_contribution:
  assumes sim: "patch_sim e px cx" and ok: "accs_ok e" and add: "add_contribution c cx = Inr cx'"
  shows "\<exists>px'. patch_add_contribution e c px = Inr px' \<and> patch_sim e px' cx' \<and> same_values px px'"
proof -
  let ?cid = "co_claim_id c" and ?l = "co_label c" and ?e = "cx_engine cx"
  from add obtain b where b: "dget (en_claim_accumulators ?e) ?cid = Some b"
    and cx': "cx' = cx\<lparr>cx_engine := ?e\<lparr>en_claim_accumulators :=
        dset ?cid (put_side ?l (fst (side_add c (get_side ?l b))) b) (en_claim_accumulators ?e)\<rparr>,
      cx_dirty_claims := insert ?cid (cx_dirty_claims cx),
      cx_stats := (cx_stats cx)\<lparr>mt_distinct_hash_crossings :=
        mt_distinct_hash_crossings (cx_stats cx) + of_bool (snd (side_add c (get_side ?l b)))\<rparr>\<rparr>"
    by (auto simp: add_contribution_def bind_res_Inr_iff lookup_Inr_iff Let_def case_prod_beta)
  obtain a before copies where
    copy: "patch_accumulator e ?cid px = Inr (a, px\<lparr>px_accumulator_before := before, px_accumulators := copies\<rparr>)"
    and same: "same_acc a b"
    and wr: "\<And>x y. same_acc x y \<Longrightarrow> patch_accs (en_claim_accumulators e) before (dset ?cid x copies)
      (insert ?cid (cx_dirty_claims cx)) (dset ?cid y (en_claim_accumulators ?e))"
    by (rule patch_accumulator_copy [OF patch_simD(3) [OF sim] ok b], rule that)
  note side = side_add_same [OF get_side_same [OF same, of ?l], of c]
  from put_side_same [OF same side(2)] have
    same': "same_acc (put_side ?l (fst (side_add c (get_side ?l a))) a)
      (put_side ?l (fst (side_add c (get_side ?l b))) b)" .
  let ?px = "px\<lparr>px_accumulator_before := before,
      px_accumulators := dset ?cid (put_side ?l (fst (side_add c (get_side ?l a))) a) copies,
      px_dirty_claims := insert ?cid (px_dirty_claims px),
      px_stats := (px_stats px)\<lparr>mt_distinct_hash_crossings :=
        mt_distinct_hash_crossings (px_stats px) + of_bool (snd (side_add c (get_side ?l a)))\<rparr>\<rparr>"
  have "patch_add_contribution e c px = Inr ?px"
    by (simp add: patch_add_contribution_def copy Let_def case_prod_beta)
  moreover have "patch_sim e ?px cx'"
    using sim wr [OF same'] dkeys_dset_known [OF b]
    by (simp add: patch_sim_def cx' side(1) base_frame_def)
  moreover have "same_values px ?px" by (simp add: same_values_def)
  ultimately show ?thesis by blast
qed

lemma sim_remove_contribution:
  assumes sim: "patch_sim e px cx" and ok: "accs_ok e" and removed: "remove_contribution c cx = Inr cx'"
  shows "\<exists>px'. patch_remove_contribution e c px = Inr px' \<and> patch_sim e px' cx' \<and> same_values px px'"
proof -
  let ?cid = "co_claim_id c" and ?l = "co_label c" and ?e = "cx_engine cx"
  from removed obtain b t crossed where b: "dget (en_claim_accumulators ?e) ?cid = Some b"
    and t: "side_remove c (get_side ?l b) = Inr (t, crossed)"
    and cx': "cx' = cx\<lparr>cx_engine := ?e\<lparr>en_claim_accumulators :=
        dset ?cid (put_side ?l t b) (en_claim_accumulators ?e)\<rparr>,
      cx_dirty_claims := insert ?cid (cx_dirty_claims cx),
      cx_stats := (cx_stats cx)\<lparr>mt_distinct_hash_crossings :=
        mt_distinct_hash_crossings (cx_stats cx) + of_bool crossed\<rparr>\<rparr>"
    by (auto simp: remove_contribution_def bind_res_Inr_iff lookup_Inr_iff Let_def case_prod_beta)
  obtain a before copies where
    copy: "patch_accumulator e ?cid px = Inr (a, px\<lparr>px_accumulator_before := before, px_accumulators := copies\<rparr>)"
    and same: "same_acc a b"
    and wr: "\<And>x y. same_acc x y \<Longrightarrow> patch_accs (en_claim_accumulators e) before (dset ?cid x copies)
      (insert ?cid (cx_dirty_claims cx)) (dset ?cid y (en_claim_accumulators ?e))"
    by (rule patch_accumulator_copy [OF patch_simD(3) [OF sim] ok b], rule that)
  from side_remove_same [OF get_side_same [OF same_acc_sym [OF same]] t] obtain s where
    s: "side_remove c (get_side ?l a) = Inr (s, crossed)" "same_side t s" by blast
  have same': "same_acc (put_side ?l s a) (put_side ?l t b)"
    by (rule same_acc_sym [OF put_side_same [OF same_acc_sym [OF same] s(2)]])
  let ?px = "px\<lparr>px_accumulator_before := before,
      px_accumulators := dset ?cid (put_side ?l s a) copies,
      px_dirty_claims := insert ?cid (px_dirty_claims px),
      px_stats := (px_stats px)\<lparr>mt_distinct_hash_crossings :=
        mt_distinct_hash_crossings (px_stats px) + of_bool crossed\<rparr>\<rparr>"
  have "patch_remove_contribution e c px = Inr ?px"
    by (simp add: patch_remove_contribution_def copy s(1))
  moreover have "patch_sim e ?px cx'"
    using sim wr [OF same'] dkeys_dset_known [OF b]
    by (simp add: patch_sim_def cx' base_frame_def)
  moreover have "same_values px ?px" by (simp add: same_values_def)
  ultimately show ?thesis by blast
qed

lemma same_valuesD:
  assumes "same_values px px'"
  shows "px_label_values px' = px_label_values px" "px_contribution_values px' = px_contribution_values px"
    "px_score_changes px' = px_score_changes px"
  using assms by (simp_all add: same_values_def)

lemma sim_withdraw:
  assumes sim: "patch_sim e px cx" and ok: "accs_ok e" and inv: "patch_inv e A T px" and T: "i \<in> T"
    and fresh: "i \<notin> dom (dget (px_contribution_values px))"
    and run: "withdraw_contribution i cx = Inr cx'"
  shows "\<exists>px'. patch_withdraw e i px = Inr px' \<and> patch_sim e px' cx' \<and> patch_inv e A T px' \<and>
    px_label_values px' = px_label_values px"
proof (cases "dget (en_contributions (cx_engine cx)) i")
  case None
  then have "cx' = cx" using run by (simp add: withdraw_contribution_def)
  moreover have "patch_withdraw e i px = Inr px"
    using None patch_simD(2) [OF sim] by (simp add: patch_withdraw_def)
  ultimately show ?thesis using sim inv by blast
next
  case (Some c)
  let ?px = "px\<lparr>px_contribution_values := dset i None (px_contribution_values px)\<rparr>"
  let ?cx = "cx\<lparr>cx_engine := (cx_engine cx)\<lparr>en_contributions := ddel i (en_contributions (cx_engine cx))\<rparr>\<rparr>"
  from run Some have rem: "remove_contribution c ?cx = Inr cx'"
    by (simp add: withdraw_contribution_def Let_def)
  have "patch_sim e ?px ?cx" using sim_contribution [OF sim, of i None] by simp
  from sim_remove_contribution [OF this ok rem] obtain px' where
    px': "patch_remove_contribution e c ?px = Inr px'" "patch_sim e px' cx'" "same_values ?px px'" by blast
  have pc: "patch_contribution e px i = Some c" using Some patch_simD(2) [OF sim] by simp
  then have "patch_withdraw e i px = Inr px'" using px'(1) by (simp add: patch_withdraw_def)
  moreover have "i \<in> dom (dget (en_contributions e))"
    using pc fresh by (auto simp: patch_contribution_def overlay_get_fresh)
  then have "patch_inv e A T ?px" using inv T by (simp add: patch_inv_def)
  then have "patch_inv e A T px'" by (rule patch_inv_same [OF px'(3)])
  ultimately show ?thesis using px'(2) same_valuesD(1) [OF px'(3)] by auto
qed

lemma sim_contribute:
  assumes sim: "patch_sim e px cx" and ok: "accs_ok e" and inv: "patch_inv e A T px"
    and T: "ob_observation_id ob \<in> T" and run: "contribute ob r label cx = Inr cx'"
  shows "\<exists>px'. patch_contribute e ob r label px = Inr px' \<and> patch_sim e px' cx' \<and> patch_inv e A T px' \<and>
    px_label_values px' = px_label_values px"
proof (cases "ob_subject_kind ob \<noteq> CLAIM \<or> label = NEUTRAL")
  case True
  then have "cx' = cx" using run by (auto simp: contribute_def split: if_splits)
  then show ?thesis using True sim inv by (auto simp: patch_contribute_def)
next
  case False
  let ?i = "ob_observation_id ob"
  from run False obtain cv where cv: "chunk_version_of r (ob_chunk_version_id ob) = Inr cv"
    by (auto simp: contribute_def bind_res_Inr_iff split: if_splits)
  let ?c = "make_contribution ob (cv_text_hash cv) label"
  let ?px = "px\<lparr>px_contribution_values := dset ?i (Some ?c) (px_contribution_values px)\<rparr>"
  let ?cx = "cx\<lparr>cx_engine := (cx_engine cx)\<lparr>en_contributions := dset ?i ?c (en_contributions (cx_engine cx))\<rparr>\<rparr>"
  from run False cv have add: "add_contribution ?c ?cx = Inr cx'" by (simp add: contribute_def Let_def)
  have "patch_sim e ?px ?cx" using sim_contribution [OF sim, of ?i "Some ?c"] by simp
  from sim_add_contribution [OF this ok add] obtain px' where
    px': "patch_add_contribution e ?c ?px = Inr px'" "patch_sim e px' cx'" "same_values ?px px'" by blast
  have "patch_contribute e ob r label px = Inr px'"
    using False cv px'(1) by (simp add: patch_contribute_def Let_def)
  moreover have "patch_inv e A T ?px" using inv T by (simp add: patch_inv_def)
  then have "patch_inv e A T px'" by (rule patch_inv_same [OF px'(3)])
  ultimately show ?thesis using px'(2) same_valuesD(1) [OF px'(3)] by auto
qed

section \<open>Observations\<close>

lemma sim_deactivate:
  assumes sim: "patch_sim e px cx" and ok: "accs_ok e" and inv: "patch_inv e A T px"
    and T: "ob_observation_id ob \<notin> T"
    and A: "ob_observation_id ob \<in> dom (dget (en_active_labels e)) \<Longrightarrow> A (ob_observation_id ob) = Some ob"
    and run: "deactivate_observation ob cx = Inr cx'"
  shows "\<exists>px'. patch_deactivate e ob px = Inr px' \<and> patch_sim e px' cx' \<and>
    patch_inv e A (insert (ob_observation_id ob) T) px' \<and>
    (px' = px \<or> px_label_values px' = dset (ob_observation_id ob) None (px_label_values px))"
proof (cases "dget (en_active_labels (cx_engine cx)) (ob_observation_id ob)")
  case None
  then have "cx' = cx" using run by (simp add: deactivate_observation_def Let_def dmem_def)
  moreover have "patch_deactivate e ob px = Inr px"
    using None patch_simD(1) [OF sim] by (simp add: patch_deactivate_def Let_def)
  ultimately show ?thesis using sim patch_inv_mono [OF inv subset_insertI] by auto
next
  case (Some l)
  let ?i = "ob_observation_id ob" and ?e = "cx_engine cx" and ?st = "cx_stats cx" and ?ps = "px_stats px"
  have lab: "patch_label e px ?i = Some l" using Some patch_simD(1) [OF sim] by simp
  have notin: "?i \<notin> dom (dget (px_label_values px))" "?i \<notin> dom (dget (px_contribution_values px))"
    using T patch_invD(1,2) [OF inv] by blast+
  then have old: "?i \<in> dom (dget (en_active_labels e))"
    using lab by (auto simp: patch_label_def overlay_get_fresh)
  from run Some obtain ix w where ix: "index_remove (en_score_index ?e) ob = Inr (ix, w)"
    by (auto simp: deactivate_observation_def Let_def dmem_def bind_res_Inr_iff)
  let ?cx = "cx\<lparr>cx_engine := ?e\<lparr>en_active_labels := ddel ?i (en_active_labels ?e), en_score_index := ix\<rparr>,
      cx_stats := ?st\<lparr>mt_score_index_shift_work := mt_score_index_shift_work ?st + int w,
        mt_score_index_point_updates := mt_score_index_point_updates ?st + 2,
        mt_active_observations_removed := mt_active_observations_removed ?st + 1\<rparr>\<rparr>"
  let ?px = "px\<lparr>px_label_values := dset ?i None (px_label_values px),
      px_score_changes := px_score_changes px @ [\<lparr>sc_observation = ob, sc_add = False\<rparr>],
      px_stats := ?ps\<lparr>mt_active_observations_removed := mt_active_observations_removed ?ps + 1\<rparr>\<rparr>"
  from run Some ix have wd: "withdraw_contribution ?i ?cx = Inr cx'"
    by (simp add: deactivate_observation_def Let_def dmem_def)
  have "patch_sim e ?px ?cx"
    by (rule sim_index [OF sim_label [OF sim, of ?i None], where add = False and ix = ix and w = w and ob = ob])
      (use ix patch_simD(5) [OF sim] in simp_all)
  moreover have "patch_inv e A (insert ?i T) ?px"
  proof -
    have "?i \<notin> (\<lambda>c. ob_observation_id (sc_observation c)) ` set (px_score_changes px)"
      by (rule patch_inv_new_id [OF inv T])
    then show ?thesis using inv A [OF old] old by (auto simp: patch_inv_def)
  qed
  moreover have "?i \<notin> dom (dget (px_contribution_values ?px))" using notin(2) by simp
  ultimately obtain px' where "patch_withdraw e ?i ?px = Inr px'" "patch_sim e px' cx'"
    "patch_inv e A (insert ?i T) px'" "px_label_values px' = px_label_values ?px"
    using sim_withdraw [OF _ ok _ insertI1 _ wd] by blast
  then show ?thesis using lab by (auto simp: patch_deactivate_def Let_def)
qed

lemma sim_activate:
  assumes sim: "patch_sim e px cx" and ok: "accs_ok e" and inv: "patch_inv e A T px"
    and T: "ob_observation_id ob \<notin> T" and A: "A (ob_observation_id ob) = None"
    and run: "activate_observation ob r p cx = Inr cx'"
  shows "\<exists>px'. patch_activate e ob r p px = Inr px' \<and> patch_sim e px' cx' \<and>
    patch_inv e A (insert (ob_observation_id ob) T) px'"
proof -
  let ?i = "ob_observation_id ob" and ?e = "cx_engine cx" and ?st = "cx_stats cx" and ?ps = "px_stats px"
  let ?l = "decide ob p"
  from run obtain ix w where none: "dget (en_active_labels ?e) ?i = None"
    and ix: "index_add (en_score_index ?e) ob = Inr (ix, w)"
    by (auto simp: activate_observation_def Let_def dmem_def bind_res_Inr_iff split: if_splits)
  have lab: "patch_label e px ?i = None" using none patch_simD(1) [OF sim] by simp
  let ?cx = "cx\<lparr>cx_engine := ?e\<lparr>en_active_labels := dset ?i ?l (en_active_labels ?e), en_score_index := ix\<rparr>,
      cx_stats := ?st\<lparr>mt_score_index_shift_work := mt_score_index_shift_work ?st + int w,
        mt_score_index_point_updates := mt_score_index_point_updates ?st + 2,
        mt_active_observations_added := mt_active_observations_added ?st + 1\<rparr>\<rparr>"
  let ?px = "px\<lparr>px_label_values := dset ?i (Some ?l) (px_label_values px),
      px_score_changes := px_score_changes px @ [\<lparr>sc_observation = ob, sc_add = True\<rparr>],
      px_stats := ?ps\<lparr>mt_active_observations_added := mt_active_observations_added ?ps + 1\<rparr>\<rparr>"
  from run none ix have con: "contribute ob r ?l ?cx = Inr cx'"
    by (simp add: activate_observation_def Let_def dmem_def)
  have "patch_sim e ?px ?cx"
    by (rule sim_index [OF sim_label [OF sim, of ?i "Some ?l"], where add = True and ix = ix and w = w and ob = ob])
      (use ix patch_simD(5) [OF sim] in simp_all)
  moreover have "patch_inv e A (insert ?i T) ?px"
  proof -
    have "?i \<notin> (\<lambda>c. ob_observation_id (sc_observation c)) ` set (px_score_changes px)"
      by (rule patch_inv_new_id [OF inv T])
    then show ?thesis using inv A by (auto simp: patch_inv_def)
  qed
  ultimately obtain px' where "patch_contribute e ob r ?l ?px = Inr px'" "patch_sim e px' cx'"
    "patch_inv e A (insert ?i T) px'"
    using sim_contribute [OF _ ok _ insertI1 con] by blast
  then show ?thesis using lab by (auto simp: patch_activate_def Let_def)
qed

lemma sim_relabel:
  assumes sim: "patch_sim e px cx" and ok: "accs_ok e" and inv: "patch_inv e A T px"
    and T: "i \<notin> T" and ids: "\<And>i ob. observation_of before i = Inr ob \<Longrightarrow> ob_observation_id ob = i"
    and run: "relabel_candidate before q i cx = Inr cx'"
  shows "\<exists>px'. patch_relabel e before q i px = Inr px' \<and> patch_sim e px' cx' \<and> patch_inv e A (insert i T) px'"
proof -
  from run obtain ob old where ob: "observation_of before i = Inr ob"
    and old: "dget (en_active_labels (cx_engine cx)) i = Some old"
    by (auto simp: relabel_candidate_def bind_res_Inr_iff lookup_Inr_iff)
  have id: "ob_observation_id ob = i" using ids ob by blast
  have lab: "patch_label e px i = Some old" using old patch_simD(1) [OF sim] by simp
  have inv': "patch_inv e A (insert i T) px" using patch_inv_mono [OF inv subset_insertI] .
  show ?thesis
  proof (cases "old = decide ob q")
    case True
    then have "cx' = cx" using run ob old by (simp add: relabel_candidate_def)
    moreover have "patch_relabel e before q i px = Inr px" using ob lab True by (simp add: patch_relabel_def)
    ultimately show ?thesis using sim inv' by blast
  next
    case False
    let ?l = "decide ob q"
    let ?cx = "cx\<lparr>cx_stats := (cx_stats cx)\<lparr>mt_decision_flips := mt_decision_flips (cx_stats cx) + 1\<rparr>\<rparr>"
    let ?px = "px\<lparr>px_stats := (px_stats px)\<lparr>mt_decision_flips := mt_decision_flips (px_stats px) + 1\<rparr>\<rparr>"
    let ?lab = "\<lambda>cx. cx\<lparr>cx_engine := (cx_engine cx)\<lparr>en_active_labels := dset i ?l (en_active_labels (cx_engine cx))\<rparr>\<rparr>"
    from run ob old False obtain cx1 where wd: "withdraw_contribution i ?cx = Inr cx1"
      and con: "contribute ob before ?l (?lab cx1) = Inr cx'"
      by (auto simp: relabel_candidate_def bind_res_Inr_iff Let_def)
    have sim0: "patch_sim e ?px ?cx"
      by (rule sim_stats [OF sim]) (use patch_simD(5) [OF sim] in simp_all)
    have inv0: "patch_inv e A (insert i T) ?px" using inv' by (simp add: patch_inv_def)
    have "i \<notin> dom (dget (px_contribution_values ?px))" using T patch_invD(2) [OF inv] by auto
    from sim_withdraw [OF sim0 ok inv0 insertI1 this wd] obtain px1 where
      px1: "patch_withdraw e i ?px = Inr px1" "patch_sim e px1 cx1" "patch_inv e A (insert i T) px1" by blast
    let ?px1 = "px1\<lparr>px_label_values := dset i (Some ?l) (px_label_values px1)\<rparr>"
    have "patch_sim e ?px1 (?lab cx1)" using sim_label [OF px1(2), of i "Some ?l"] by simp
    moreover have "patch_inv e A (insert i T) ?px1" using px1(3) by (simp add: patch_inv_def)
    moreover have "ob_observation_id ob \<in> insert i T" using id by simp
    ultimately obtain px' where "patch_contribute e ob before ?l ?px1 = Inr px'" "patch_sim e px' cx'"
      "patch_inv e A (insert i T) px'"
      using sim_contribute [OF _ ok _ _ con] by blast
    then show ?thesis using ob lab False px1(1) by (auto simp: patch_relabel_def Let_def)
  qed
qed

section \<open>Events\<close>

text \<open>While documents are withdrawn every label that was written hides an active one.\<close>

definition withdrawing :: "engine \<Rightarrow> (string \<rightharpoonup> semantic_observation) \<Rightarrow> patch_ctx \<Rightarrow> update_ctx \<Rightarrow> bool" where
  "withdrawing e A px cx \<longleftrightarrow>
     patch_sim e px cx \<and> patch_inv e A (dom (dget (px_label_values px))) px \<and>
     (\<forall>i v. dget (px_label_values px) i = Some v \<longrightarrow> v = None)"

lemma withdrawing_deactivate:
  assumes W: "withdrawing e A px cx" and ok: "accs_ok e"
    and A: "ob_observation_id ob \<in> dom (dget (en_active_labels e)) \<Longrightarrow> A (ob_observation_id ob) = Some ob"
    and run: "deactivate_observation ob cx = Inr cx'"
  shows "\<exists>px'. patch_deactivate e ob px = Inr px' \<and> withdrawing e A px' cx'"
proof (cases "ob_observation_id ob \<in> dom (dget (px_label_values px))")
  case True
  let ?i = "ob_observation_id ob"
  from W have sim: "patch_sim e px cx" by (simp add: withdrawing_def)
  have "dget (px_label_values px) ?i = Some None" using True W by (auto simp: withdrawing_def)
  then have lab: "patch_label e px ?i = None" by (simp add: patch_label_def overlay_get_def)
  then have "dget (en_active_labels (cx_engine cx)) ?i = None" using patch_simD(1) [OF sim] by simp
  then have "cx' = cx" using run by (simp add: deactivate_observation_def Let_def dmem_def)
  moreover have "patch_deactivate e ob px = Inr px" using lab by (simp add: patch_deactivate_def Let_def)
  ultimately show ?thesis using W by blast
next
  case False
  let ?i = "ob_observation_id ob"
  from W have sim: "patch_sim e px cx" and inv: "patch_inv e A (dom (dget (px_label_values px))) px"
    and none: "\<And>i v. dget (px_label_values px) i = Some v \<Longrightarrow> v = None" by (auto simp: withdrawing_def)
  from sim_deactivate [OF sim ok inv False A run] obtain px' where px': "patch_deactivate e ob px = Inr px'"
    "patch_sim e px' cx'" "patch_inv e A (insert ?i (dom (dget (px_label_values px)))) px'"
    "px' = px \<or> px_label_values px' = dset ?i None (px_label_values px)" by blast
  from px'(4) have "withdrawing e A px' cx'"
  proof
    assume "px' = px"
    then show ?thesis using px'(2) inv none by (auto simp: withdrawing_def)
  next
    assume lv: "px_label_values px' = dset ?i None (px_label_values px)"
    have "patch_inv e A (dom (dget (px_label_values px'))) px'" using px'(3) by (simp add: lv)
    then show ?thesis using px'(2) none by (auto simp: withdrawing_def lv split: if_splits)
  qed
  with px'(1) show ?thesis by blast
qed

lemma withdrawing_document:
  assumes W: "withdrawing e A px cx" and ok: "accs_ok e"
    and ids: "\<And>i ob. observation_of before i = Inr ob \<Longrightarrow>
      ob_observation_id ob = i \<and> (i \<in> dom (dget (en_active_labels e)) \<longrightarrow> A i = Some ob)"
    and run: "withdraw_document_version v before cx = Inr cx'"
  shows "\<exists>px'. patch_withdraw_document e before v px = Inr px' \<and> withdrawing e A px' cx'"
  unfolding patch_withdraw_document_def
proof (rule fold_res_simulation [OF run [unfolded withdraw_document_version_def],
      where R = "\<lambda>_ cx px. withdrawing e A px cx"])
  fix chunk cx cx' px assume W: "withdrawing e A px cx" and run: "withdraw_chunk before chunk cx = Inr cx'"
  from run obtain oids where oids: "current_observation_ids_for_chunk before chunk = Inr oids"
    and loop: "fold_res (\<lambda>i cx. bind_res (observation_of before i) (\<lambda>ob. deactivate_observation ob cx)) oids cx = Inr cx'"
    by (auto simp: withdraw_chunk_def bind_res_Inr_iff)
  have "\<exists>px'. fold_res (\<lambda>i px. bind_res (observation_of before i) (\<lambda>ob. patch_deactivate e ob px)) oids px = Inr px' \<and>
      withdrawing e A px' cx'"
  proof (rule fold_res_simulation [OF loop, where R = "\<lambda>_ cx px. withdrawing e A px cx"])
    fix i cx cx' px assume W: "withdrawing e A px cx"
      and "bind_res (observation_of before i) (\<lambda>ob. deactivate_observation ob cx) = Inr cx'"
    then obtain ob where ob: "observation_of before i = Inr ob" "deactivate_observation ob cx = Inr cx'"
      by (auto simp: bind_res_Inr_iff)
    have "ob_observation_id ob \<in> dom (dget (en_active_labels e)) \<Longrightarrow> A (ob_observation_id ob) = Some ob"
      using ids [OF ob(1)] by auto
    from withdrawing_deactivate [OF W ok this ob(2)] ob(1)
    show "\<exists>px'. bind_res (observation_of before i) (\<lambda>ob. patch_deactivate e ob px) = Inr px' \<and>
        withdrawing e A px' cx'" by simp
  qed (rule W)
  with oids show "\<exists>px'. patch_withdraw_chunk e before chunk px = Inr px' \<and> withdrawing e A px' cx'"
    by (simp add: patch_withdraw_chunk_def)
qed (rule W)

definition new_update_ctx :: "engine \<Rightarrow> update_ctx" where
  "new_update_ctx e =
     \<lparr>cx_engine = e, cx_dirty_claims = {},
      cx_stats = new_stats\<lparr>mt_score_index_entries_before := avl_size (support_entries (en_score_index e))\<rparr>\<rparr>"

lemma withdrawing_start: "withdrawing e A (new_patch_ctx e) (new_update_ctx e)"
  by (simp add: withdrawing_def patch_sim_def patch_inv_def new_patch_ctx_def new_update_ctx_def
      patch_accs_def base_frame_refl new_stats_def)

lemma patch_maintain_sim:
  assumes ok: "accs_ok e"
    and ids: "\<And>i ob. observation_of before i = Inr ob \<Longrightarrow>
      ob_observation_id ob = i \<and> (i \<in> dom (dget (en_active_labels e)) \<longrightarrow> A i = Some ob)"
    and dom: "dom (dget (en_active_labels e)) = dom A"
    and new: "\<And>eid ob. ev = ObserveEvent eid ob \<Longrightarrow> A (ob_observation_id ob) = None"
    and run: "maintain_base ev before after (new_update_ctx e) = Inr cx"
  shows "\<exists>px T. patch_maintain e ev before after (new_patch_ctx e) = Inr px \<and> patch_sim e px cx \<and>
    patch_inv e A T px"
proof -
  note start = withdrawing_start [of e A]
  have finish: ?thesis if "\<exists>px. patch_maintain e ev before after (new_patch_ctx e) = Inr px \<and> withdrawing e A px cx"
    using that by (auto simp: withdrawing_def)
  show ?thesis
  proof (cases ev)
    case (DeleteDocumentVersionEvent eid v)
    with run have "withdraw_document_version v before (new_update_ctx e) = Inr cx" by simp
    from withdrawing_document [OF start ok ids this] show ?thesis
      by (intro finish) (simp add: DeleteDocumentVersionEvent)
  next
    case (ReplaceDocumentVersionEvent eid d old v t chunks)
    with run have "withdraw_document_version old before (new_update_ctx e) = Inr cx" by simp
    from withdrawing_document [OF start ok ids this] show ?thesis
      by (intro finish) (simp add: ReplaceDocumentVersionEvent)
  next
    case (InsertDocumentEvent eid d v t chunks)
    with run have "cx = new_update_ctx e" by simp
    then show ?thesis using start by (intro finish) (simp add: InsertDocumentEvent)
  next
    case (ObserveEvent eid ob)
    let ?prev = "current_observation_id before (observation_key ob)"
    from run ObserveEvent obtain cx1 where
      first: "(case ?prev of None \<Rightarrow> Inr (new_update_ctx e)
        | Some previous \<Rightarrow> bind_res (observation_of before previous)
            (\<lambda>pob. deactivate_observation pob (new_update_ctx e))) = Inr cx1"
      and second: "(if is_chunk_active after (ob_chunk_version_id ob) then
          bind_res (current_policy after) (\<lambda>q. activate_observation ob after q cx1) else Inr cx1) = Inr cx"
      by (auto simp: bind_res_Inr_iff)
    have "\<exists>px1. (case ?prev of None \<Rightarrow> Inr (new_patch_ctx e)
        | Some previous \<Rightarrow> bind_res (observation_of before previous)
            (\<lambda>pob. patch_deactivate e pob (new_patch_ctx e))) = Inr px1 \<and> withdrawing e A px1 cx1"
    proof (cases ?prev)
      case None
      then show ?thesis using first start by simp
    next
      case (Some previous)
      with first obtain pob where pob: "observation_of before previous = Inr pob"
        "deactivate_observation pob (new_update_ctx e) = Inr cx1" by (auto simp: bind_res_Inr_iff)
      have "ob_observation_id pob \<in> dom (dget (en_active_labels e)) \<Longrightarrow> A (ob_observation_id pob) = Some pob"
        using ids [OF pob(1)] by auto
      from withdrawing_deactivate [OF start ok this pob(2)] pob(1) Some show ?thesis by simp
    qed
    then obtain px1 where px1: "(case ?prev of None \<Rightarrow> Inr (new_patch_ctx e)
        | Some previous \<Rightarrow> bind_res (observation_of before previous)
            (\<lambda>pob. patch_deactivate e pob (new_patch_ctx e))) = Inr px1" and W: "withdrawing e A px1 cx1" by blast
    show ?thesis
    proof (cases "is_chunk_active after (ob_chunk_version_id ob)")
      case False
      then show ?thesis using second W px1 by (intro finish) (simp add: ObserveEvent)
    next
      case True
      with second obtain q where q: "current_policy after = Inr q" "activate_observation ob after q cx1 = Inr cx"
        by (auto simp: bind_res_Inr_iff)
      from W have sim: "patch_sim e px1 cx1" and inv: "patch_inv e A (dom (dget (px_label_values px1))) px1"
        and none: "\<And>i v. dget (px_label_values px1) i = Some v \<Longrightarrow> v = None" by (auto simp: withdrawing_def)
      have An: "A (ob_observation_id ob) = None" by (rule new [OF ObserveEvent])
      have "ob_observation_id ob \<notin> dom (dget (px_label_values px1))"
        using none patch_invD(6) [OF inv] dom An by blast
      from sim_activate [OF sim ok inv this An q(2)] q(1) px1 True show ?thesis
        by (auto simp: ObserveEvent)
    qed
  next
    case (PolicyChangeEvent eid p)
    with run obtain p q candidates where pq: "current_policy before = Inr p" "current_policy after = Inr q"
      "policy_candidates (en_score_index e) p q = Inr candidates"
      and loop: "fold_res (relabel_candidate before q) (sorted_list_of_set candidates)
        ((new_update_ctx e)\<lparr>cx_stats := (cx_stats (new_update_ctx e))\<lparr>mt_policy_index_candidates := int (card candidates)\<rparr>\<rparr>)
        = Inr cx"
      by (auto simp: apply_policy_change_def bind_res_Inr_iff new_update_ctx_def)
    let ?px = "(new_patch_ctx e)\<lparr>px_stats := (px_stats (new_patch_ctx e))\<lparr>mt_policy_index_candidates := int (card candidates)\<rparr>\<rparr>"
    have "\<exists>px. fold_res (patch_relabel e before q) (sorted_list_of_set candidates) ?px = Inr px \<and>
        patch_sim e px cx \<and> patch_inv e A (set (sorted_list_of_set candidates)) px"
    proof (rule fold_res_simulation [OF loop, where R = "\<lambda>ys cx px. patch_sim e px cx \<and> patch_inv e A (set ys) px"])
      have "patch_sim e (new_patch_ctx e) (new_update_ctx e)" using start by (simp add: withdrawing_def)
      from sim_stats [OF this, of "px_stats ?px" "(cx_stats (new_update_ctx e))\<lparr>mt_policy_index_candidates := int (card candidates)\<rparr>"]
      show "patch_sim e ?px ((new_update_ctx e)\<lparr>cx_stats := (cx_stats (new_update_ctx e))\<lparr>mt_policy_index_candidates := int (card candidates)\<rparr>\<rparr>) \<and>
          patch_inv e A (set []) ?px"
        by (simp add: new_patch_ctx_def new_update_ctx_def new_stats_def patch_inv_def)
    next
      fix ys i zs cx cx' px
      assume split: "sorted_list_of_set candidates = ys @ i # zs"
        and R: "patch_sim e px cx \<and> patch_inv e A (set ys) px" and step: "relabel_candidate before q i cx = Inr cx'"
      have "distinct (ys @ i # zs)" unfolding split [symmetric] by simp
      then have "i \<notin> set ys" by auto
      from sim_relabel [OF _ ok _ this _ step] R ids
      show "\<exists>px'. patch_relabel e before q i px = Inr px' \<and> patch_sim e px' cx' \<and> patch_inv e A (set (ys @ [i])) px'"
        by auto
    qed
    then show ?thesis using pq by (auto simp: PolicyChangeEvent patch_policy_change_def)
  qed
qed

end
