(* ===== verification/GL_PatchFlush.thy ===== *)
theory GL_PatchFlush
  imports GL_PatchSim
begin

text \<open>
  The second half of the preparation simulates the refresh loops of the in-place update: it records,
  for every dirty claim and answer, the values that those loops write.
\<close>

section \<open>Point changes on maps\<close>

definition apply_change :: "'v point_change \<Rightarrow> (string \<rightharpoonup> 'v) \<Rightarrow> (string \<rightharpoonup> 'v)" where
  "apply_change c m = m(pc_key c := pc_after c)"

lemma fold_apply_other:
  "k \<notin> pc_key ` set cs \<Longrightarrow> fold apply_change cs m k = m k"
  by (induction cs arbitrary: m) (auto simp: apply_change_def)

lemma fold_apply_key:
  "distinct (map pc_key cs) \<Longrightarrow> c \<in> set cs \<Longrightarrow> fold apply_change cs m (pc_key c) = pc_after c"
proof (induction cs arbitrary: m)
  case (Cons c' cs)
  show ?case
  proof (cases "c = c'")
    case True
    have "fold apply_change cs (apply_change c' m) (pc_key c') = apply_change c' m (pc_key c')"
      by (rule fold_apply_other) (use Cons.prems in simp)
    then show ?thesis by (simp add: True) (simp add: apply_change_def)
  next
    case False
    then show ?thesis using Cons.IH [of "apply_change c' m"] Cons.prems by simp
  qed
qed simp

text \<open>The in-place loops write the same values in the same order.\<close>

definition write_changes :: "'v point_change list \<Rightarrow> (string, 'v) pydict \<Rightarrow> (string, 'v) pydict" where
  "write_changes cs d = fold (\<lambda>c. dset (pc_key c) (the (pc_after c))) cs d"

lemma write_changes_append:
  "write_changes (cs @ [replacement k old new]) d = dset k new (write_changes cs d)"
  by (simp add: write_changes_def replacement_def)

lemma dget_write_changes:
  "\<forall>c \<in> set cs. pc_after c \<noteq> None \<Longrightarrow> dget (write_changes cs d) = fold apply_change cs (dget d)"
  unfolding write_changes_def by (induction cs arbitrary: d) (auto simp: apply_change_def)

lemma write_changes_other: "k \<notin> pc_key ` set cs \<Longrightarrow> dget (write_changes cs d) k = dget d k"
  unfolding write_changes_def by (induction cs arbitrary: d) auto

text \<open>Changes of present keys, each with the value the dictionary has.\<close>

definition replacements :: "(string, 'v) pydict \<Rightarrow> string list \<Rightarrow> 'v point_change list \<Rightarrow> bool" where
  "replacements d ks cs \<longleftrightarrow>
     map pc_key cs = ks \<and>
     (\<forall>c \<in> set cs. pc_before c = dget d (pc_key c) \<and> dget d (pc_key c) \<noteq> None \<and> pc_after c \<noteq> None)"

lemma replacements_Nil: "replacements d [] []"
  by (simp add: replacements_def)

lemma replacements_snoc:
  assumes "replacements d ks cs" and "dget d k = Some old"
  shows "replacements d (ks @ [k]) (cs @ [replacement k old new])"
proof -
  have "\<forall>c \<in> set cs. pc_before c = dget d (pc_key c) \<and> dget d (pc_key c) \<noteq> None \<and> pc_after c \<noteq> None"
    and "map pc_key cs = ks" using assms(1) unfolding replacements_def by blast+
  then show ?thesis using assms(2) unfolding replacements_def by (simp add: replacement_def)
qed

lemma replacements_keys: "replacements d ks cs \<Longrightarrow> pc_key ` set cs = set ks"
  by (metis replacements_def set_map)

section \<open>The dirty claims\<close>

text \<open>What the loops never write.\<close>

definition patch_frame :: "engine \<Rightarrow> engine \<Rightarrow> bool" where
  "patch_frame e0 e \<longleftrightarrow>
     en_active_labels e = en_active_labels e0 \<and> en_contributions e = en_contributions e0 \<and>
     en_score_index e = en_score_index e0 \<and> en_claim_to_answer e = en_claim_to_answer e0 \<and>
     en_claim_required e = en_claim_required e0 \<and> en_answer_to_claims e = en_answer_to_claims e0 \<and>
     en_answer_required_counts e = en_answer_required_counts e0 \<and>
     en_state_revision e = en_state_revision e0 \<and> en_last_stats e = en_last_stats e0"

definition same_stats :: "mutable_stats \<Rightarrow> mutable_stats \<Rightarrow> mutable_stats \<Rightarrow> bool" where
  "same_stats m0 s t \<longleftrightarrow>
     s = t\<lparr>mt_score_index_shift_work := 0, mt_score_index_point_updates := 0\<rparr> \<and>
     mt_score_index_shift_work t = mt_score_index_shift_work m0 \<and>
     mt_score_index_point_updates t = mt_score_index_point_updates m0"

definition claim_sim ::
    "engine \<Rightarrow> (string, accumulator_snapshot) pydict \<Rightarrow> string set \<Rightarrow> update_ctx \<Rightarrow> string list
      \<Rightarrow> patch_flush \<Rightarrow> flush_ctx \<Rightarrow> bool" where
  "claim_sim e before dirty cx ys pf fx \<longleftrightarrow>
     patch_accs (en_claim_accumulators e) before (pf_accumulators pf) dirty
       (en_claim_accumulators (fx_engine fx)) \<and>
     en_claim_states (fx_engine fx) = write_changes (pf_claim_state_changes pf) (en_claim_states e) \<and>
     replacements (en_claim_states e) ys (pf_claim_state_changes pf) \<and>
     en_certificates (fx_engine fx) = write_changes (pf_certificate_changes pf) (en_certificates e) \<and>
     replacements (en_certificates e) ys (pf_certificate_changes pf) \<and>
     (\<forall>a. dget (en_answer_status_counts (fx_engine fx)) a =
        (case dget (pf_answer_counts pf) a of
           Some ct \<Rightarrow> Some ct | None \<Rightarrow> dget (en_answer_status_counts e) a)) \<and>
     dom (dget (pf_answer_counts pf)) = pf_dirty_answers pf \<and>
     pf_dirty_answers pf \<subseteq> dom (dget (en_answer_status_counts e)) \<and>
     (\<forall>a ct. dget (pf_answer_counts pf) a = Some ct \<longrightarrow> dict_ok ct) \<and>
     en_answer_states (fx_engine fx) = en_answer_states e \<and>
     fx_dirty_answers fx = pf_dirty_answers pf \<and>
     same_stats (cx_stats cx) (pf_stats pf) (fx_stats fx) \<and>
     patch_frame (cx_engine cx) (fx_engine fx)"

lemma claim_simD:
  assumes "claim_sim e before dirty cx ys pf fx"
  shows "patch_accs (en_claim_accumulators e) before (pf_accumulators pf) dirty
       (en_claim_accumulators (fx_engine fx))"
    and "en_claim_states (fx_engine fx) = write_changes (pf_claim_state_changes pf) (en_claim_states e)"
    and "replacements (en_claim_states e) ys (pf_claim_state_changes pf)"
    and "en_certificates (fx_engine fx) = write_changes (pf_certificate_changes pf) (en_certificates e)"
    and "replacements (en_certificates e) ys (pf_certificate_changes pf)"
    and "dget (en_answer_status_counts (fx_engine fx)) a =
        (case dget (pf_answer_counts pf) a of
           Some ct \<Rightarrow> Some ct | None \<Rightarrow> dget (en_answer_status_counts e) a)"
    and "dom (dget (pf_answer_counts pf)) = pf_dirty_answers pf"
    and "pf_dirty_answers pf \<subseteq> dom (dget (en_answer_status_counts e))"
    and "dget (pf_answer_counts pf) a = Some ct \<Longrightarrow> dict_ok ct"
    and "en_answer_states (fx_engine fx) = en_answer_states e"
    and "fx_dirty_answers fx = pf_dirty_answers pf"
    and "same_stats (cx_stats cx) (pf_stats pf) (fx_stats fx)"
    and "patch_frame (cx_engine cx) (fx_engine fx)"
  using assms unfolding claim_sim_def by (elim conjE; blast)+

lemma refresh_claim_Inr:
  assumes "refresh_claim cid e = Inr e1"
  obtains b where "dget (en_claim_accumulators e) cid = Some b"
    and "e1 = e\<lparr>en_claim_accumulators :=
        dset cid (snd (state_from_accumulator_value cid b)) (en_claim_accumulators e),
      en_claim_states := dset cid (fst (state_from_accumulator_value cid b)) (en_claim_states e),
      en_certificates := dset cid (certificate_from_state (fst (state_from_accumulator_value cid b)))
        (en_certificates e)\<rparr>"
  using assms
  by (auto simp: refresh_claim_def state_from_accumulator_def repair_certificate_def bind_res_Inr_iff
      lookup_Inr_iff Let_def case_prod_beta)

lemma patch_accs_update:
  assumes accs: "patch_accs acc0 before copies dirty acc" and cid: "cid \<in> dirty" and same: "same_acc a b"
  shows "patch_accs acc0 before (dset cid a copies) dirty (dset cid b acc)"
proof -
  note D = patch_accsD [OF accs]
  have "cid \<in> dom (dget acc0)" "cid \<in> dom (dget copies)" using cid D(4,5) by auto
  with patch_accs_write [OF accs this(1) same] cid show ?thesis by (simp add: insert_absorb)
qed

lemma flush_claim_sim:
  assumes sim: "claim_sim e before dirty cx ys pf fx" and frame: "base_frame e (cx_engine cx)"
    and cid: "cid \<in> dirty" "cid \<notin> set ys"
    and certs: "dirty \<subseteq> dom (dget (en_certificates e))"
    and counters: "\<And>a ct. dget (en_answer_status_counts e) a = Some ct \<Longrightarrow> dict_ok ct"
    and table: "dget old_statuses cid = map_option cs_status (dget (en_claim_states e) cid)"
    and run: "flush_claim old_statuses cid fx = Inr fx'"
  shows "\<exists>pf'. patch_flush_claim e cid pf = Inr pf' \<and> claim_sim e before dirty cx (ys @ [cid]) pf' fx'"
proof -
  let ?e = "fx_engine fx"
  note S = claim_simD [OF sim]
  have F: "en_claim_required ?e = en_claim_required e" "en_claim_to_answer ?e = en_claim_to_answer e"
    using S(13) frame by (simp_all add: patch_frame_def base_frame_def)
  have st: "dget (en_claim_states ?e) cid = dget (en_claim_states e) cid"
    using cid(2) replacements_keys [OF S(3)] by (simp add: S(2) write_changes_other)
  from run obtain old e1 where old: "dget (en_claim_states e) cid = Some old"
    and ref: "refresh_claim cid ?e = Inr e1"
    using st by (auto simp: flush_claim_def Let_def bind_res_Inr_iff lookup_Inr_iff)
  from refresh_claim_Inr [OF ref] obtain b where b: "dget (en_claim_accumulators ?e) cid = Some b"
    and e1: "e1 = ?e\<lparr>en_claim_accumulators :=
        dset cid (snd (state_from_accumulator_value cid b)) (en_claim_accumulators ?e),
      en_claim_states := dset cid (fst (state_from_accumulator_value cid b)) (en_claim_states ?e),
      en_certificates := dset cid (certificate_from_state (fst (state_from_accumulator_value cid b)))
        (en_certificates ?e)\<rparr>" .
  note A = patch_accsD [OF S(1)]
  from cid(1) A(4) obtain a where a: "dget (pf_accumulators pf) cid = Some a" by blast
  with A(1) b have same: "same_acc a b" by fastforce
  let ?new = "fst (state_from_accumulator_value cid b)" and ?b = "snd (state_from_accumulator_value cid b)"
  obtain a' where pair: "state_from_accumulator_value cid a = (?new, a')" and same': "same_acc a' ?b"
    using state_from_accumulator_value_same [OF same, of cid] by (metis prod.collapse)
  from certs cid(1) obtain cert where cert: "dget (en_certificates e) cid = Some cert" by blast
  let ?pf = "pf\<lparr>pf_accumulators := dset cid a' (pf_accumulators pf),
      pf_claim_state_changes := pf_claim_state_changes pf @ [replacement cid old ?new],
      pf_certificate_changes := pf_certificate_changes pf @
        [replacement cid cert (certificate_from_state ?new)]\<rparr>"
  have accs: "patch_accs (en_claim_accumulators e) before (dset cid a' (pf_accumulators pf)) dirty
      (dset cid ?b (en_claim_accumulators ?e))" by (rule patch_accs_update [OF S(1) cid(1) same'])
  note base = accs S(2,4,6-13) replacements_snoc [OF S(3) old] replacements_snoc [OF S(5) cert]
  let ?st = "(fx_stats fx)\<lparr>mt_claim_status_changes := mt_claim_status_changes (fx_stats fx) + 1\<rparr>"
  let ?ps = "(pf_stats pf)\<lparr>mt_claim_status_changes := mt_claim_status_changes (pf_stats pf) + 1\<rparr>"
  have stats: "same_stats (cx_stats cx) ?ps ?st" using S(12) by (simp add: same_stats_def)
  have new: "dget (en_claim_states e1) cid = Some ?new" by (simp add: e1)
  have frame1: "patch_frame (cx_engine cx) e1" using S(13) by (simp add: patch_frame_def e1)
  show ?thesis
  proof (cases "cs_status old = cs_status ?new")
    case True
    have "fx' = fx\<lparr>fx_engine := e1\<rparr>" using run st old ref new True by (simp add: flush_claim_def Let_def)
    moreover have "patch_flush_claim e cid pf = Inr ?pf"
      using old a cert pair True by (simp add: patch_flush_claim_def Let_def)
    moreover have "claim_sim e before dirty cx (ys @ [cid]) ?pf (fx\<lparr>fx_engine := e1\<rparr>)"
      using base frame1 unfolding claim_sim_def by (simp add: e1 write_changes_append)
    ultimately show ?thesis by blast
  next
    case False
    from run st old ref new False obtain required where
      req: "dget (en_claim_required e) cid = Some required"
      by (auto simp: flush_claim_def Let_def bind_res_Inr_iff lookup_Inr_iff e1 F)
    have req1: "dget (en_claim_required e1) cid = Some required" using req F by (simp add: e1)
    show ?thesis
    proof (cases required)
      case notreq: False
      let ?pf1 = "?pf\<lparr>pf_stats := ?ps\<rparr>"
      have "fx' = fx\<lparr>fx_engine := e1, fx_stats := ?st\<rparr>"
        using run st old ref new False req1 notreq by (simp add: flush_claim_def Let_def)
      moreover have "patch_flush_claim e cid pf = Inr ?pf1"
        using old a cert pair False req notreq by (simp add: patch_flush_claim_def Let_def)
      moreover have "claim_sim e before dirty cx (ys @ [cid]) ?pf1 (fx\<lparr>fx_engine := e1, fx_stats := ?st\<rparr>)"
        using base frame1 stats unfolding claim_sim_def by (simp add: e1 write_changes_append)
      ultimately show ?thesis by blast
    next
      case True
      from run st old ref new False req1 True obtain aid counts old_status where
        aid: "dget (en_claim_to_answer e1) cid = Some aid"
        and counts: "dget (en_answer_status_counts e1) aid = Some counts"
        and os: "dget old_statuses cid = Some old_status"
        and fx': "fx' = \<lparr>fx_engine = e1\<lparr>en_answer_status_counts :=
              dset aid (counter_add (cs_status ?new) 1 (counter_add old_status (-1) counts))
                (en_answer_status_counts e1)\<rparr>,
            fx_stats = ?st, fx_dirty_answers = insert aid (fx_dirty_answers fx)\<rparr>"
        by (auto simp: flush_claim_def Let_def bind_res_Inr_iff lookup_Inr_iff)
      have aid': "dget (en_claim_to_answer e) cid = Some aid" using aid F by (simp add: e1)
      have os': "old_status = cs_status old" using os table old by simp
      have ce: "en_answer_status_counts e1 = en_answer_status_counts ?e" by (simp add: e1)
      have counts': "counts = dget_default (pf_answer_counts pf) aid (the (dget (en_answer_status_counts e) aid))"
        and known: "aid \<in> dom (dget (en_answer_status_counts e))"
        using counts S(6) [of aid] S(7,8) unfolding ce by (auto split: option.splits)
      then obtain stored where stored: "dget (en_answer_status_counts e) aid = Some stored" by blast
      have okc: "dict_ok counts"
        using counts S(6) [of aid] S(9) [of aid] counters [of aid] unfolding ce by (auto split: option.splits)
      let ?ct = "counter_add (cs_status ?new) 1 (counter_add (cs_status old) (-1) counts)"
      let ?pf1 = "?pf\<lparr>pf_stats := ?ps, pf_answer_counts := dset aid ?ct (pf_answer_counts pf),
          pf_dirty_answers := insert aid (pf_dirty_answers pf)\<rparr>"
      have "patch_flush_claim e cid pf = Inr ?pf1"
        using old a cert pair False req True aid' stored counts' by (simp add: patch_flush_claim_def Let_def)
      moreover have "claim_sim e before dirty cx (ys @ [cid]) ?pf1 fx'"
      proof -
        have c1: "dget (en_answer_status_counts (fx_engine fx')) b =
            (case dget (pf_answer_counts ?pf1) b of
              Some ct \<Rightarrow> Some ct | None \<Rightarrow> dget (en_answer_status_counts e) b)" for b
          using S(6) [of b] by (simp add: fx' ce os')
        have c2: "dom (dget (pf_answer_counts ?pf1)) = pf_dirty_answers ?pf1" using S(7) by simp
        have c3: "pf_dirty_answers ?pf1 \<subseteq> dom (dget (en_answer_status_counts e))" using S(8) known by simp
        have c4: "dict_ok ct" if "dget (pf_answer_counts ?pf1) b = Some ct" for b ct
          using that S(9) [of b ct] okc by (auto simp: counter_add_def split: if_splits)
        show ?thesis
          unfolding claim_sim_def
          using c1 c2 c3 c4 base frame1 stats by (simp add: fx' e1 patch_frame_def write_changes_append)
      qed
      ultimately show ?thesis by blast
    qed
  qed
qed

section \<open>The dirty answers\<close>

definition answer_sim ::
    "engine \<Rightarrow> update_ctx \<Rightarrow> patch_flush \<Rightarrow> flush_ctx \<Rightarrow> string list \<Rightarrow> answer_changes
      \<Rightarrow> engine \<times> mutable_stats \<Rightarrow> bool" where
  "answer_sim e cx pf fx ys acs es \<longleftrightarrow>
     fst es = (fx_engine fx)\<lparr>en_answer_states := write_changes (fst (snd acs)) (en_answer_states e)\<rparr> \<and>
     replacements (en_answer_states e) ys (fst (snd acs)) \<and>
     map pc_key (fst acs) = ys \<and>
     (\<forall>c \<in> set (fst acs). \<exists>stored ct. dget (en_answer_status_counts e) (pc_key c) = Some stored \<and>
        dget (pf_answer_counts pf) (pc_key c) = Some ct \<and>
        c = replacement (pc_key c) (counter_snapshot stored) (counter_snapshot ct)) \<and>
     same_stats (cx_stats cx) (snd (snd acs)) (snd es)"

lemma flush_answer_sim:
  assumes claims: "claim_sim e before dirty cx zs pf fx" and frame: "base_frame e (cx_engine cx)"
    and sim: "answer_sim e cx pf fx ys acs es"
    and aid: "aid \<in> pf_dirty_answers pf" "aid \<notin> set ys"
    and run: "flush_answer aid es = Inr es'"
  shows "\<exists>acs'. patch_flush_answer e (pf_answer_counts pf) aid acs = Inr acs' \<and>
    answer_sim e cx pf fx (ys @ [aid]) acs' es'"
proof -
  obtain e' st where es: "es = (e', st)" by (cases es)
  obtain cc sc ps where acs: "acs = (cc, sc, ps)" by (cases acs)
  note S = claim_simD [OF claims]
  from sim have e': "e' = (fx_engine fx)\<lparr>en_answer_states := write_changes sc (en_answer_states e)\<rparr>"
    and reps: "replacements (en_answer_states e) ys sc" and keys: "map pc_key cc = ys"
    and counts: "\<forall>c \<in> set cc. \<exists>stored ct. dget (en_answer_status_counts e) (pc_key c) = Some stored \<and>
        dget (pf_answer_counts pf) (pc_key c) = Some ct \<and>
        c = replacement (pc_key c) (counter_snapshot stored) (counter_snapshot ct)"
    and stats: "same_stats (cx_stats cx) ps st"
    by (simp_all add: answer_sim_def es acs)
  have req: "en_answer_required_counts e' = en_answer_required_counts e"
    using S(13) frame by (simp add: e' patch_frame_def base_frame_def)
  have "dget (en_answer_states e') aid = dget (en_answer_states e) aid"
    using aid(2) replacements_keys [OF reps] by (simp add: e' write_changes_other)
  with run obtain old new where old: "dget (en_answer_states e) aid = Some old"
    and new: "state_from_answer_counts e' aid = Inr new"
    and es': "es' = (e'\<lparr>en_answer_states := dset aid new (en_answer_states e')\<rparr>,
      if as_status old = as_status new then st
      else st\<lparr>mt_answer_status_changes := mt_answer_status_changes st + 1\<rparr>)"
    by (auto simp: flush_answer_def es bind_res_Inr_iff lookup_Inr_iff)
  from aid(1) S(7,8) obtain ct stored where ct: "dget (pf_answer_counts pf) aid = Some ct"
    and stored: "dget (en_answer_status_counts e) aid = Some stored" by blast
  have "dget (en_answer_status_counts e') aid = Some ct" using S(6) [of aid] ct by (simp add: e')
  with new have new': "state_from_answer_count_value e aid ct = Inr new"
    by (simp add: state_from_answer_counts_def state_from_answer_count_value_def req)
  let ?acs = "(cc @ [replacement aid (counter_snapshot stored) (counter_snapshot ct)],
      sc @ [replacement aid old new],
      if as_status old = as_status new then ps
      else ps\<lparr>mt_answer_status_changes := mt_answer_status_changes ps + 1\<rparr>)"
  have "patch_flush_answer e (pf_answer_counts pf) aid acs = Inr ?acs"
    using stored ct old new' by (simp add: patch_flush_answer_def acs)
  moreover have "answer_sim e cx pf fx (ys @ [aid]) ?acs es'"
    unfolding answer_sim_def
    using keys counts stats stored ct replacements_snoc [OF reps old]
    by (simp add: es' e' write_changes_append same_stats_def) (simp add: replacement_def)
  ultimately show ?thesis by blast
qed

section \<open>What a patch leads to\<close>

text \<open>
  The changes \<open>cs\<close> start at the dictionary \<open>d\<close> and lead to \<open>d1\<close>; \<open>capture\<close> is what is compared.
\<close>

definition point_ok :: "(string, 'v) pydict \<Rightarrow> 'v point_change list \<Rightarrow> (string, 'v) pydict \<Rightarrow> bool" where
  "point_ok d cs d1 \<longleftrightarrow>
     distinct (map pc_key cs) \<and>
     (\<forall>c \<in> set cs. pc_before c = dget d (pc_key c) \<and> (pc_after c = None \<longrightarrow> dget d (pc_key c) \<noteq> None)) \<and>
     dget d1 = fold apply_change cs (dget d)"

definition snap_ok ::
    "('v \<Rightarrow> 's) \<Rightarrow> ('v \<Rightarrow> bool) \<Rightarrow> (string, 'v) pydict \<Rightarrow> 's point_change list \<Rightarrow> (string, 'v) pydict \<Rightarrow> bool" where
  "snap_ok capture ok d cs d1 \<longleftrightarrow>
     distinct (map pc_key cs) \<and>
     (\<forall>c \<in> set cs. \<exists>a a'. dget d (pc_key c) = Some a \<and> ok a \<and> ok a' \<and>
        c = replacement (pc_key c) (capture a) (capture a')) \<and>
     map_option capture \<circ> dget d1 = fold apply_change cs (map_option capture \<circ> dget d)"

definition registry_of ::
    "engine \<Rightarrow> (string, string) pydict \<times> (string, bool) pydict \<times> (string, string list) pydict \<times> (string, int) pydict" where
  "registry_of e =
     (en_claim_to_answer e, en_claim_required e, en_answer_to_claims e, en_answer_required_counts e)"

definition patch_to :: "engine \<Rightarrow> (string \<rightharpoonup> semantic_observation) \<Rightarrow> state_patch \<Rightarrow> engine \<Rightarrow> bool" where
  "patch_to e A pt e1 \<longleftrightarrow>
     pt_expected_state_revision pt = en_state_revision e \<and>
     point_ok (en_active_labels e) (pt_active_label_changes pt) (en_active_labels e1) \<and>
     point_ok (en_contributions e) (pt_contribution_changes pt) (en_contributions e1) \<and>
     snap_ok capture_accumulator acc_ok (en_claim_accumulators e) (pt_accumulator_changes pt)
       (en_claim_accumulators e1) \<and>
     point_ok (en_claim_states e) (pt_claim_state_changes pt) (en_claim_states e1) \<and>
     point_ok (en_certificates e) (pt_certificate_changes pt) (en_certificates e1) \<and>
     snap_ok counter_snapshot dict_ok (en_answer_status_counts e) (pt_answer_count_changes pt)
       (en_answer_status_counts e1) \<and>
     point_ok (en_answer_states e) (pt_answer_state_changes pt) (en_answer_states e1) \<and>
     distinct (map (\<lambda>c. ob_observation_id (sc_observation c)) (pt_score_index_changes pt)) \<and>
     (\<forall>c \<in> set (pt_score_index_changes pt).
        A (ob_observation_id (sc_observation c)) = (if sc_add c then None else Some (sc_observation c))) \<and>
     (\<exists>w. fold_res index_change (pt_score_index_changes pt) (en_score_index e, 0) = Inr (en_score_index e1, w) \<and>
        en_last_stats e1 = (pt_stats pt)\<lparr>st_score_index_shift_work := int w\<rparr>) \<and>
     registry_of e1 = registry_of e \<and> en_state_revision e1 = en_state_revision e + 1"

lemma replacements_point_ok:
  assumes "replacements d ks cs" and "distinct ks"
  shows "point_ok d cs (write_changes cs d)"
  using assms dget_write_changes [of cs d] by (auto simp: replacements_def point_ok_def)

lemma point_changes_ok:
  assumes over: "overlay_get values d = dget d1" and ok: "dict_ok values"
    and gone: "\<And>i. dget values i = Some None \<Longrightarrow> i \<in> dom (dget d)"
  shows "point_ok d (point_changes d values) d1"
proof -
  let ?cs = "point_changes d values"
  have keys: "map pc_key ?cs = sort (dkeys values)" by (simp add: point_changes_def comp_def)
  have dist: "distinct (map pc_key ?cs)" unfolding keys using ok by (simp add: dict_ok_def)
  have set: "c \<in> set ?cs \<longleftrightarrow> pc_key c \<in> dom (dget values) \<and> pc_before c = dget d (pc_key c) \<and>
      pc_after c = overlay_get values [] (pc_key c)" for c
  proof -
    have "set ?cs = (\<lambda>k. \<lparr>pc_key = k, pc_before = dget d k, pc_after = overlay_get values [] k\<rparr>) ` dom (dget values)"
      by (simp add: point_changes_def dom_map_of_conv_image_fst)
    then show ?thesis by (cases c) auto
  qed
  have after: "overlay_get values [] k = overlay_get values d k" if "k \<in> dom (dget values)" for k
    using that by (auto simp: overlay_get_def)
  have "fold apply_change ?cs (dget d) k = dget d1 k" for k
  proof (cases "k \<in> dom (dget values)")
    case True
    let ?c = "\<lparr>pc_key = k, pc_before = dget d k, pc_after = overlay_get values [] k\<rparr>"
    have "?c \<in> set ?cs" using True by (simp add: set)
    from fold_apply_key [OF dist this] show ?thesis using after [OF True] over by (simp add: fun_eq_iff)
  next
    case False
    then have "k \<notin> pc_key ` set ?cs" using set by blast
    from fold_apply_other [OF this] show ?thesis
      using overlay_get_fresh [OF False, of d] over by simp
  qed
  moreover have "dget d (pc_key c) \<noteq> None" if "c \<in> set ?cs" "pc_after c = None" for c
  proof -
    from that set have "pc_key c \<in> dom (dget values)" "overlay_get values [] (pc_key c) = None" by simp_all
    then have "dget values (pc_key c) = Some None" by (auto simp: overlay_get_def)
    from gone [OF this] show ?thesis by blast
  qed
  ultimately show ?thesis unfolding point_ok_def using dist set by (auto simp: fun_eq_iff)
qed

lemma snap_okI:
  assumes "distinct (map pc_key cs)"
    and cs: "\<And>c. c \<in> set cs \<Longrightarrow> \<exists>a a' b. dget d (pc_key c) = Some a \<and> ok a \<and> ok a' \<and>
        c = replacement (pc_key c) (capture a) (capture a') \<and> dget d1 (pc_key c) = Some b \<and> capture b = capture a'"
    and other: "\<And>k. k \<notin> pc_key ` set cs \<Longrightarrow> dget d1 k = dget d k"
  shows "snap_ok capture ok d cs d1"
proof -
  have "map_option capture (dget d1 k) = fold apply_change cs (map_option capture \<circ> dget d) k" for k
  proof (cases "k \<in> pc_key ` set cs")
    case True
    then obtain c where c: "c \<in> set cs" "k = pc_key c" by blast
    from cs [OF c(1)] obtain a a' b where "c = replacement (pc_key c) (capture a) (capture a')"
      and b: "dget d1 (pc_key c) = Some b" "capture b = capture a'" by blast
    then have "pc_after c = Some (capture a')" by (metis replacement_def point_change.select_convs(3))
    then show ?thesis using fold_apply_key [OF assms(1) c(1)] b c(2) by simp
  next
    case False
    then show ?thesis using fold_apply_other [OF False] other [OF False] by simp
  qed
  then show ?thesis
    unfolding snap_ok_def using assms(1) cs by (auto simp: fun_eq_iff) blast
qed

lemma accumulator_changes_ok:
  assumes accs: "patch_accs (en_claim_accumulators e) before copies dirty acc" and ok: "accs_ok e"
  shows "\<exists>cs. accumulator_changes before copies = Inr cs \<and>
    snap_ok capture_accumulator acc_ok (en_claim_accumulators e) cs acc"
proof -
  note D = patch_accsD [OF accs]
  let ?acc0 = "en_claim_accumulators e"
  let ?cs = "map (\<lambda>k. replacement k (the (dget before k)) (capture_accumulator (the (dget copies k))))
      (sort (dkeys copies))"
  have key: "\<exists>a b c. dget copies k = Some a \<and> dget acc k = Some b \<and> same_acc a b \<and>
      dget ?acc0 k = Some c \<and> acc_ok c \<and> dget before k = Some (capture_accumulator c)"
    if "k \<in> dom (dget copies)" for k
  proof -
    from that obtain a where a: "dget copies k = Some a" by blast
    from D(1) [OF a] obtain b where b: "dget acc k = Some b" "same_acc a b" by blast
    have "k \<in> dom (dget ?acc0)" using that D(4,5) by blast
    then obtain c where c: "dget ?acc0 k = Some c" by blast
    then have "acc_ok c" using ok by (simp add: accs_ok_def)
    then show ?thesis using a b c D(3) [of k] that by auto
  qed
  have "accumulator_changes before copies = Inr ?cs"
    unfolding accumulator_changes_def
  proof (rule traverse_Inr_map)
    fix k assume "k \<in> set (sort (dkeys copies))"
    then have "k \<in> dom (dget copies)" by (simp add: dom_map_of_conv_image_fst)
    from key [OF this] show "bind_res (lookup KeyError before k) (\<lambda>s. bind_res (lookup KeyError copies k)
        (\<lambda>a. Inr (replacement k s (capture_accumulator a)))) =
      Inr (replacement k (the (dget before k)) (capture_accumulator (the (dget copies k))))" by auto
  qed
  moreover have "snap_ok capture_accumulator acc_ok ?acc0 ?cs acc"
  proof (rule snap_okI)
    have "map pc_key ?cs = sort (dkeys copies)" by (simp add: comp_def replacement_def)
    then show "distinct (map pc_key ?cs)" using D(6) by (simp add: dict_ok_def)
  next
    fix c assume "c \<in> set ?cs"
    then obtain k where k: "k \<in> dom (dget copies)"
      "c = replacement k (the (dget before k)) (capture_accumulator (the (dget copies k)))"
      by (auto simp: dom_map_of_conv_image_fst)
    from key [OF k(1)] obtain a b x where x: "dget copies k = Some a" "dget acc k = Some b" "same_acc a b"
      "dget ?acc0 k = Some x" "acc_ok x" "dget before k = Some (capture_accumulator x)" by blast
    have "pc_key c = k" by (simp add: k(2) replacement_def)
    then show "\<exists>a a' b. dget ?acc0 (pc_key c) = Some a \<and> acc_ok a \<and> acc_ok a' \<and>
        c = replacement (pc_key c) (capture_accumulator a) (capture_accumulator a') \<and>
        dget acc (pc_key c) = Some b \<and> capture_accumulator b = capture_accumulator a'"
      using x k(2) same_acc_okD(1) [OF x(3)] capture_same [OF x(3)] by auto
  next
    fix k assume "k \<notin> pc_key ` set ?cs"
    then have "k \<notin> dom (dget copies)"
      by (simp add: image_image replacement_def dom_map_of_conv_image_fst)
    then show "dget acc k = dget ?acc0 k" using D(2) [of k] by blast
  qed
  ultimately show ?thesis by blast
qed

lemma frozen_stats:
  assumes "same_stats m0 s t" and "mt_score_index_point_updates m0 = 2 * int n"
  shows "(freeze (s\<lparr>mt_score_index_point_updates := 2 * int n\<rparr>) C B)\<lparr>st_score_index_shift_work :=
    mt_score_index_shift_work m0\<rparr> = freeze t C B"
  using assms by (simp add: same_stats_def freeze_def)

lemma finish_patch_sim:
  assumes sim: "patch_sim e px cx" and inv: "patch_inv e A T px" and ok: "accs_ok e"
    and fin: "finite (px_dirty_claims px)"
    and certs: "px_dirty_claims px \<subseteq> dom (dget (en_certificates e))"
    and counters: "\<And>a ct. dget (en_answer_status_counts e) a = Some ct \<Longrightarrow> dict_ok ct"
    and run: "finish_update cx = Inr e1"
  shows "\<exists>pt. finish_patch ev e px = Inr pt \<and> patch_to e A pt e1"
proof -
  let ?D = "px_dirty_claims px" and ?e = "cx_engine cx"
  let ?ds = "sorted_list_of_set ?D"
  note P = patch_simD [OF sim]
  have frame: "base_frame e ?e" by (rule P(7))
  have ds: "set ?ds = ?D" "distinct ?ds" using fin by simp_all
  from run obtain old fx e' st where
    table: "claim_status_table ?e ?ds = Inr old"
    and loop1: "fold_res (flush_claim old) ?ds
      \<lparr>fx_engine = ?e, fx_stats = cx_stats cx, fx_dirty_answers = {}\<rparr> = Inr fx"
    and loop2: "fold_res flush_answer (sorted_list_of_set (fx_dirty_answers fx)) (fx_engine fx, fx_stats fx)
      = Inr (e', st)"
    and e1: "e1 = e'\<lparr>en_last_stats := freeze st ?D (fx_dirty_answers fx),
      en_state_revision := en_state_revision e' + 1\<rparr>"
    by (auto simp: finish_update_def Let_def bind_res_Inr_iff P(4))
  have states: "en_claim_states ?e = en_claim_states e" using frame by (simp add: base_frame_def)
  have old: "dget old c = map_option cs_status (dget (en_claim_states e) c)" if "c \<in> ?D" for c
  proof -
    have t: "list_all2 (\<lambda>c y. bind_res (lookup KeyError (en_claim_states e) c) (\<lambda>st. Inr (c, cs_status st)) = Inr y)
        ?ds old"
      using table unfolding claim_status_table_def traverse_Inr_conv states .
    have "\<forall>c \<in> set ds. dget ys c = map_option cs_status (dget (en_claim_states e) c)"
      if "list_all2 (\<lambda>c y. bind_res (lookup KeyError (en_claim_states e) c) (\<lambda>st. Inr (c, cs_status st)) = Inr y) ds ys"
      for ds ys
      using that by (induction rule: list_all2_induct) (auto simp: bind_res_Inr_iff lookup_Inr_iff)
    from this [OF t] that ds(1) show ?thesis by blast
  qed
  let ?pf0 = "\<lparr>pf_accumulators = px_accumulators px, pf_claim_state_changes = [], pf_certificate_changes = [],
      pf_answer_counts = [], pf_dirty_answers = {}, pf_stats = px_stats px\<rparr>"
  have "\<exists>pf. fold_res (patch_flush_claim e) ?ds ?pf0 = Inr pf \<and>
      claim_sim e (px_accumulator_before px) ?D cx ?ds pf fx"
  proof (rule fold_res_simulation [OF loop1, where R = "\<lambda>ys fx pf. claim_sim e (px_accumulator_before px) ?D cx ys pf fx"])
    show "claim_sim e (px_accumulator_before px) ?D cx [] ?pf0
        \<lparr>fx_engine = ?e, fx_stats = cx_stats cx, fx_dirty_answers = {}\<rparr>"
      using P(3) frame
      by (simp add: claim_sim_def write_changes_def replacements_Nil same_stats_def P(4,5) patch_frame_def base_frame_def)
  next
    fix ys c zs fx fx' pf
    assume split: "?ds = ys @ c # zs" and R: "claim_sim e (px_accumulator_before px) ?D cx ys pf fx"
      and step: "flush_claim old c fx = Inr fx'"
    have c: "c \<in> ?D" "c \<notin> set ys" using ds unfolding split by auto
    show "\<exists>pf'. patch_flush_claim e c pf = Inr pf' \<and> claim_sim e (px_accumulator_before px) ?D cx (ys @ [c]) pf' fx'"
      by (rule flush_claim_sim [OF R frame c certs counters old [OF c(1)] step])
  qed
  then obtain pf where pf: "fold_res (patch_flush_claim e) ?ds ?pf0 = Inr pf"
    and R: "claim_sim e (px_accumulator_before px) ?D cx ?ds pf fx" by blast
  note S = claim_simD [OF R]
  have finB: "finite (pf_dirty_answers pf)" using S(8) finite_dom_map_of finite_subset by metis
  let ?as = "sorted_list_of_set (pf_dirty_answers pf)"
  have as: "set ?as = pf_dirty_answers pf" "distinct ?as" using finB by simp_all
  have "\<exists>acs. fold_res (patch_flush_answer e (pf_answer_counts pf)) ?as ([], [], pf_stats pf) = Inr acs \<and>
      answer_sim e cx pf fx ?as acs (e', st)"
  proof (rule fold_res_simulation [OF loop2 [unfolded S(11)], where R = "\<lambda>ys es acs. answer_sim e cx pf fx ys acs es"])
    show "answer_sim e cx pf fx [] ([], [], pf_stats pf) (fx_engine fx, fx_stats fx)"
      using S(10,12) by (simp add: answer_sim_def write_changes_def replacements_Nil)
  next
    fix ys a zs es es' acs
    assume split: "?as = ys @ a # zs" and A: "answer_sim e cx pf fx ys acs es"
      and step: "flush_answer a es = Inr es'"
    have "a \<in> pf_dirty_answers pf" "a \<notin> set ys" using as unfolding split by auto
    from flush_answer_sim [OF R frame A this step]
    show "\<exists>acs'. patch_flush_answer e (pf_answer_counts pf) a acs = Inr acs' \<and>
        answer_sim e cx pf fx (ys @ [a]) acs' es'" .
  qed
  then obtain cc sc ps where
    acs: "fold_res (patch_flush_answer e (pf_answer_counts pf)) ?as ([], [], pf_stats pf) = Inr (cc, sc, ps)"
    and AS: "answer_sim e cx pf fx ?as (cc, sc, ps) (e', st)" by auto
  from AS have e': "e' = (fx_engine fx)\<lparr>en_answer_states := write_changes sc (en_answer_states e)\<rparr>"
    and reps: "replacements (en_answer_states e) ?as sc" and cckeys: "map pc_key cc = ?as"
    and cc: "\<And>c. c \<in> set cc \<Longrightarrow> \<exists>stored ct. dget (en_answer_status_counts e) (pc_key c) = Some stored \<and>
        dget (pf_answer_counts pf) (pc_key c) = Some ct \<and>
        c = replacement (pc_key c) (counter_snapshot stored) (counter_snapshot ct)"
    and stats: "same_stats (cx_stats cx) ps st"
    by (simp_all add: answer_sim_def)
  obtain ac where ac: "accumulator_changes (px_accumulator_before px) (pf_accumulators pf) = Inr ac"
    and acok: "snap_ok capture_accumulator acc_ok (en_claim_accumulators e) ac (en_claim_accumulators (fx_engine fx))"
    using accumulator_changes_ok [OF S(1) ok] by blast
  have counts: "snap_ok counter_snapshot dict_ok (en_answer_status_counts e) cc (en_answer_status_counts (fx_engine fx))"
  proof (rule snap_okI)
    show "distinct (map pc_key cc)" unfolding cckeys by (rule as(2))
  next
    fix c assume "c \<in> set cc"
    from cc [OF this] obtain stored ct where x: "dget (en_answer_status_counts e) (pc_key c) = Some stored"
      "dget (pf_answer_counts pf) (pc_key c) = Some ct"
      "c = replacement (pc_key c) (counter_snapshot stored) (counter_snapshot ct)" by blast
    then show "\<exists>a a' b. dget (en_answer_status_counts e) (pc_key c) = Some a \<and> dict_ok a \<and> dict_ok a' \<and>
        c = replacement (pc_key c) (counter_snapshot a) (counter_snapshot a') \<and>
        dget (en_answer_status_counts (fx_engine fx)) (pc_key c) = Some b \<and>
        counter_snapshot b = counter_snapshot a'"
      using S(6) [of "pc_key c"] S(9) [OF x(2)] counters [OF x(1)] by auto
  next
    fix k assume "k \<notin> pc_key ` set cc"
    then have "k \<notin> pf_dirty_answers pf" using cckeys as(1) by (metis set_map)
    then show "dget (en_answer_status_counts (fx_engine fx)) k = dget (en_answer_status_counts e) k"
      using S(6) [of k] S(7) by (auto split: option.splits)
  qed
  let ?st = "ps\<lparr>mt_score_index_point_updates := 2 * int (length (px_score_changes px))\<rparr>"
  let ?pt = "\<lparr>pt_event_id = event_id ev, pt_expected_state_revision = en_state_revision e,
      pt_active_label_changes = point_changes (en_active_labels e) (px_label_values px),
      pt_contribution_changes = point_changes (en_contributions e) (px_contribution_values px),
      pt_accumulator_changes = ac, pt_claim_state_changes = pf_claim_state_changes pf,
      pt_certificate_changes = pf_certificate_changes pf, pt_answer_count_changes = cc,
      pt_answer_state_changes = sc, pt_score_index_changes = px_score_changes px,
      pt_stats = freeze ?st ?D (pf_dirty_answers pf)\<rparr>"
  have "finish_patch ev e px = Inr ?pt" by (simp add: finish_patch_def pf acs ac Let_def)
  moreover have "patch_to e A ?pt e1"
  proof -
    have F: "en_active_labels e1 = en_active_labels ?e" "en_contributions e1 = en_contributions ?e"
      "en_score_index e1 = en_score_index ?e" "registry_of e1 = registry_of e"
      "en_state_revision e1 = en_state_revision e + 1"
      using S(13) frame by (simp_all add: e1 e' registry_of_def patch_frame_def base_frame_def)
    from sim obtain w where w: "fold_res index_change (px_score_changes px) (en_score_index e, 0) =
        Inr (en_score_index ?e, w)" "mt_score_index_shift_work (cx_stats cx) = int w" by (auto simp: patch_sim_def)
    have lab: "overlay_get (px_label_values px) (en_active_labels e) = dget (en_active_labels ?e)"
      and con: "overlay_get (px_contribution_values px) (en_contributions e) = dget (en_contributions ?e)"
      using sim by (simp_all add: patch_sim_def)
    note points = point_changes_ok [OF lab patch_invD(8,6) [OF inv]] point_changes_ok [OF con patch_invD(9,7) [OF inv]]
      replacements_point_ok [OF S(3) ds(2)] replacements_point_ok [OF S(5) ds(2)] replacements_point_ok [OF reps as(2)]
    have last: "en_last_stats e1 = (pt_stats ?pt)\<lparr>st_score_index_shift_work := int w\<rparr>"
      using frozen_stats [OF stats P(6), of ?D "pf_dirty_answers pf"] w(2) S(11) by (simp add: e1)
    show ?thesis
      unfolding patch_to_def F using points acok counts patch_invD(3,5) [OF inv] w(1) last
      by (simp add: e1 e' S(2,4))
  qed
  ultimately show ?thesis by blast
qed

end
