(* ===== verification/GL_PatchApply.thy ===== *)
theory GL_PatchApply
  imports GL_PatchFlush
begin

text \<open>
  Applying a patch is atomic.  The contents of an engine are its state up to the order of dictionary
  keys and the shape of the search trees; every step of the application records a closure that takes
  the contents back, so an exception leaves the contents of the engine as they were.
\<close>

section \<open>Contents\<close>

record engine_contents =
  ct_labels :: "string \<rightharpoonup> verification_label"
  ct_contributions :: "string \<rightharpoonup> contribution"
  ct_accumulators :: "string \<rightharpoonup> accumulator_snapshot"
  ct_claim_states :: "string \<rightharpoonup> claim_state"
  ct_certificates :: "string \<rightharpoonup> claim_certificate"
  ct_answer_counts :: "string \<rightharpoonup> counter_items"
  ct_answer_states :: "string \<rightharpoonup> answer_state"
  ct_support_entries :: "score_key set"
  ct_refute_entries :: "score_key set"
  ct_registry :: "(string, string) pydict \<times> (string, bool) pydict \<times> (string, string list) pydict \<times> (string, int) pydict"
  ct_state_revision :: int
  ct_last_stats :: maintenance_stats

definition contents :: "engine \<Rightarrow> engine_contents" where
  "contents e =
     \<lparr>ct_labels = dget (en_active_labels e),
      ct_contributions = dget (en_contributions e),
      ct_accumulators = map_option capture_accumulator \<circ> dget (en_claim_accumulators e),
      ct_claim_states = dget (en_claim_states e),
      ct_certificates = dget (en_certificates e),
      ct_answer_counts = map_option counter_snapshot \<circ> dget (en_answer_status_counts e),
      ct_answer_states = dget (en_answer_states e),
      ct_support_entries = avl_elems (support_entries (en_score_index e)),
      ct_refute_entries = avl_elems (refute_entries (en_score_index e)),
      ct_registry = registry_of e,
      ct_state_revision = en_state_revision e,
      ct_last_stats = en_last_stats e\<rparr>"

definition index_ok :: "engine \<Rightarrow> bool" where
  "index_ok e \<longleftrightarrow> avl_inv (support_entries (en_score_index e)) \<and> avl_inv (refute_entries (en_score_index e))"

text \<open>The index of an engine with known contents.\<close>

definition entries_of :: "(string \<rightharpoonup> semantic_observation) \<Rightarrow> engine_contents \<Rightarrow> engine_contents" where
  "entries_of A c = c\<lparr>ct_support_entries := index_of ob_support_score A,
     ct_refute_entries := index_of ob_refute_score A\<rparr>"

lemma index_stores_contents:
  "index_stores (en_score_index e) A \<longleftrightarrow> index_ok e \<and> entries_of A (contents e) = contents e"
  by (auto simp: index_stores_def m2_set.stores_def index_ok_def entries_of_def contents_def)

section \<open>Steps that can be taken back\<close>

definition run_inv :: "engine_contents \<Rightarrow> patch_run \<Rightarrow> bool" where
  "run_inv c0 s \<longleftrightarrow>
     index_ok (pr_engine s) \<and>
     (\<forall>e. contents e = contents (pr_engine s) \<and> index_ok e \<longrightarrow>
        (\<exists>e'. roll_back (pr_undo s) e = (Inr (), e') \<and> contents e' = c0 \<and> index_ok e'))"

type_synonym run_view = "engine_contents \<times> score_range_index \<times> nat"

definition run_view :: "patch_run \<Rightarrow> run_view" where
  "run_view s = (contents (pr_engine s), en_score_index (pr_engine s), pr_shift_work s)"

definition quiet_injector :: "(string \<Rightarrow> unit res) \<Rightarrow> bool" where
  "quiet_injector inject \<longleftrightarrow> (\<forall>name. inject name = Inr ())"

text \<open>
  From the view \<open>v\<close>, the step ends in the view \<open>v'\<close> or raises, and it raises only if the injector
  does; in both cases what was done can be taken back to \<open>c0\<close>.
\<close>

definition leads :: "(string \<Rightarrow> unit res) \<Rightarrow> engine_contents \<Rightarrow> run_view \<Rightarrow> run_step \<Rightarrow> run_view \<Rightarrow> bool" where
  "leads inject c0 v f v' \<longleftrightarrow>
     (\<forall>s. run_inv c0 s \<and> run_view s = v \<longrightarrow>
        run_inv c0 (snd (f s)) \<and> (fst (f s) = Inr () \<longrightarrow> run_view (snd (f s)) = v') \<and>
        (quiet_injector inject \<longrightarrow> fst (f s) = Inr ()))"

lemma leadsD:
  assumes "leads inject c0 v f v'" and "run_inv c0 s" and "run_view s = v"
  shows "run_inv c0 (snd (f s))" and "fst (f s) = Inr () \<Longrightarrow> run_view (snd (f s)) = v'"
    and "quiet_injector inject \<Longrightarrow> fst (f s) = Inr ()"
  using assms by (simp_all add: leads_def)

lemma leads_then:
  assumes f: "leads inject c0 v f v1" and g: "leads inject c0 v1 g v2"
  shows "leads inject c0 v (then_run f g) v2"
  unfolding leads_def
proof (intro allI impI)
  fix s assume "run_inv c0 s \<and> run_view s = v"
  note F = leadsD [OF f conjunct1 [OF this] conjunct2 [OF this]]
  show "run_inv c0 (snd (then_run f g s)) \<and>
      (fst (then_run f g s) = Inr () \<longrightarrow> run_view (snd (then_run f g s)) = v2) \<and>
      (quiet_injector inject \<longrightarrow> fst (then_run f g s) = Inr ())"
  proof (cases "fst (f s)")
    case (Inl x)
    then have "then_run f g s = f s" by (cases "f s") (simp add: then_run_def)
    with Inl F show ?thesis by auto
  next
    case (Inr u)
    then have then_g: "then_run f g s = g (snd (f s))" by (cases "f s") (simp add: then_run_def)
    have "run_view (snd (f s)) = v1" using Inr F(2) by simp
    with leadsD [OF g F(1) this] show ?thesis unfolding then_g by blast
  qed
qed

lemma leads_each:
  assumes "\<And>ys x zs. xs = ys @ x # zs \<Longrightarrow> leads inject c0 (V ys) (f x) (V (ys @ [x]))"
  shows "leads inject c0 (V []) (run_each f xs) (V xs)"
proof -
  have "leads inject c0 (V ys) (run_each f zs) (V xs)" if "xs = ys @ zs" for ys zs
    using that
  proof (induction zs arbitrary: ys)
    case Nil
    then show ?case by (simp add: leads_def)
  next
    case (Cons x zs)
    then have "leads inject c0 (V ys) (then_run (f x) (run_each f zs)) (V xs)"
      by (intro leads_then [OF assms]) simp_all
    moreover have "run_each f (x # zs) = then_run (f x) (run_each f zs)" by (rule ext) simp
    ultimately show ?case by simp
  qed
  from this [of "[]" xs] show ?thesis by simp
qed

text \<open>A mutation whose closure takes it back.\<close>

lemma leads_mutate:
  assumes step: "\<And>s. run_view s = v \<Longrightarrow> index_ok (pr_engine s) \<Longrightarrow>
    \<exists>e undo w name. f s = mutate_run inject name e undo (s\<lparr>pr_shift_work := w\<rparr>) \<and>
      (contents e, en_score_index e, w) = v' \<and> index_ok e \<and>
      (\<forall>e2. contents e2 = contents e \<and> index_ok e2 \<longrightarrow>
        (\<exists>e3. undo e2 = (Inr (), e3) \<and> contents e3 = fst v \<and> index_ok e3))"
  shows "leads inject c0 v f v'"
  unfolding leads_def
proof (intro allI impI)
  fix s assume s: "run_inv c0 s \<and> run_view s = v"
  then have ok: "index_ok (pr_engine s)" by (simp add: run_inv_def)
  from s step [OF conjunct2 [OF s] ok] obtain e undo w name where
    f: "f s = mutate_run inject name e undo (s\<lparr>pr_shift_work := w\<rparr>)"
    and v': "(contents e, en_score_index e, w) = v'" and e: "index_ok e"
    and undo: "\<And>e2. contents e2 = contents e \<Longrightarrow> index_ok e2 \<Longrightarrow>
      \<exists>e3. undo e2 = (Inr (), e3) \<and> contents e3 = fst v \<and> index_ok e3" by blast
  have fst_v: "fst v = contents (pr_engine s)" using s by (auto simp: run_view_def)
  have "run_inv c0 (snd (f s))"
    unfolding run_inv_def
  proof (intro conjI allI impI)
    show "index_ok (pr_engine (snd (f s)))" using e by (simp add: f mutate_run_def)
  next
    fix e2 assume "contents e2 = contents (pr_engine (snd (f s))) \<and> index_ok e2"
    then have "contents e2 = contents e" "index_ok e2" by (simp_all add: f mutate_run_def)
    from undo [OF this] obtain e3 where e3: "undo e2 = (Inr (), e3)" "contents e3 = fst v" "index_ok e3" by blast
    with s fst_v obtain e' where "roll_back (pr_undo s) e3 = (Inr (), e')" "contents e' = c0" "index_ok e'"
      unfolding run_inv_def by metis
    then show "\<exists>e'. roll_back (pr_undo (snd (f s))) e2 = (Inr (), e') \<and> contents e' = c0 \<and> index_ok e'"
      using e3(1) by (simp add: f mutate_run_def)
  qed
  moreover have "run_view (snd (f s)) = v'" using v' by (simp add: f mutate_run_def run_view_def)
  ultimately show "run_inv c0 (snd (f s)) \<and> (fst (f s) = Inr () \<longrightarrow> run_view (snd (f s)) = v') \<and>
      (quiet_injector inject \<longrightarrow> fst (f s) = Inr ())"
    by (simp add: f mutate_run_def quiet_injector_def)
qed

section \<open>The dictionaries of the engine\<close>

text \<open>
  A dictionary of the engine, read and written in place, and its part of the contents, which compares
  the values by \<open>capture\<close>.
\<close>

locale engine_field =
  fixes read :: "engine \<Rightarrow> (string, 'v) pydict"
    and store :: "((string, 'v) pydict \<Rightarrow> (string, 'v) pydict) \<Rightarrow> engine \<Rightarrow> engine"
    and get :: "engine_contents \<Rightarrow> string \<rightharpoonup> 's"
    and put :: "((string \<rightharpoonup> 's) \<Rightarrow> (string \<rightharpoonup> 's)) \<Rightarrow> engine_contents \<Rightarrow> engine_contents"
    and capture :: "'v \<Rightarrow> 's"
  assumes contents_write: "contents (store f e) = put (\<lambda>_. map_option capture \<circ> dget (f (read e))) (contents e)"
    and get_contents: "get (contents e) = map_option capture \<circ> dget (read e)"
    and get_put: "get (put g c) = g (get c)"
    and put_put: "put g (put h c) = put (g \<circ> h) c"
    and put_same: "g (get c) = h (get c) \<Longrightarrow> put g c = put h c"
    and put_id: "put (\<lambda>m. m) c = c"
    and index_write: "en_score_index (store f e) = en_score_index e"
begin

lemma index_ok_write: "index_ok (store f e) = index_ok e"
  by (simp add: index_ok_def index_write)

text \<open>Writing one key, and writing its old value back.\<close>

lemma leads_write:
  assumes step: "\<And>s. run_view s = (c, ix, w) \<Longrightarrow> \<exists>f u name.
      F s = mutate_run inject name (store f (pr_engine s)) (\<lambda>e. (Inr (), store u e)) s \<and>
      map_option capture \<circ> dget (f (read (pr_engine s))) = apply_change ch (map_option capture \<circ> dget (read (pr_engine s))) \<and>
      (\<forall>d. map_option capture \<circ> dget (u d) = (map_option capture \<circ> dget d)(pc_key ch := get c (pc_key ch)))"
  shows "leads inject c0 (c, ix, w) F (put (apply_change ch) c, ix, w)"
proof (rule leads_mutate)
  fix s assume v: "run_view s = (c, ix, w)" and ok: "index_ok (pr_engine s)"
  let ?e = "pr_engine s"
  from v have c: "contents ?e = c" "en_score_index ?e = ix" "pr_shift_work s = w" by (simp_all add: run_view_def)
  from step [OF v] obtain f u name where
    F: "F s = mutate_run inject name (store f ?e) (\<lambda>e. (Inr (), store u e)) s"
    and f: "map_option capture \<circ> dget (f (read ?e)) = apply_change ch (map_option capture \<circ> dget (read ?e))"
    and u: "\<And>d. map_option capture \<circ> dget (u d) = (map_option capture \<circ> dget d)(pc_key ch := get c (pc_key ch))"
    by blast
  have new: "contents (store f ?e) = put (apply_change ch) c"
    unfolding contents_write c f by (rule put_same) (simp add: get_contents [symmetric] c)
  have "\<exists>e3. (Inr (), store u e2) = (Inr () :: unit res, e3) \<and> contents e3 = fst (c, ix, w) \<and> index_ok e3"
    if "contents e2 = contents (store f ?e)" "index_ok e2" for e2
  proof -
    have e2: "contents e2 = put (apply_change ch) c" using that(1) new by simp
    have "map_option capture \<circ> dget (read e2) = apply_change ch (get c)"
      unfolding get_contents [symmetric] e2 get_put ..
    then have "map_option capture \<circ> dget (u (read e2)) = get c" unfolding u by (simp add: apply_change_def)
    then have "contents (store u e2) = put (\<lambda>_. get c) (put (apply_change ch) c)"
      unfolding contents_write e2 by simp
    also have "\<dots> = put (\<lambda>m. m) c" unfolding put_put by (rule put_same) simp
    finally show ?thesis using that(2) by (simp add: put_id index_ok_write)
  qed
  moreover have "s\<lparr>pr_shift_work := w\<rparr> = s" using c(3) by (cases s) simp
  ultimately show "\<exists>e undo w' name. F s = mutate_run inject name e undo (s\<lparr>pr_shift_work := w'\<rparr>) \<and>
      (contents e, en_score_index e, w') = (put (apply_change ch) c, ix, w) \<and> index_ok e \<and>
      (\<forall>e2. contents e2 = contents e \<and> index_ok e2 \<longrightarrow>
        (\<exists>e3. undo e2 = (Inr (), e3) \<and> contents e3 = fst (c, ix, w) \<and> index_ok e3))"
    using F new ok c(2)
    by (intro exI [of _ "store f ?e"] exI [of _ "\<lambda>e. (Inr (), store u e)"] exI [of _ w] exI [of _ name])
      (simp add: index_ok_write index_write)
qed

lemma leads_rebuilt:
  assumes ch: "ch = replacement (pc_key ch) (capture a) (capture a')"
    and old: "get c (pc_key ch) = Some (capture a)"
    and build: "capture (build (capture a)) = capture a" "capture (build (capture a')) = capture a'"
  shows "leads inject c0 (c, ix, w) (rebuilt_step build store inject prefix ch) (put (apply_change ch) c, ix, w)"
proof (rule leads_write)
  fix s assume "run_view s = (c, ix, w)"
  have pc: "pc_before ch = Some (capture a)" "pc_after ch = Some (capture a')"
    by (subst ch, simp add: replacement_def)+
  let ?k = "pc_key ch"
  have "rebuilt_step build store inject prefix ch s =
      mutate_run inject (prefix @ ?k) (store (dset ?k (build (capture a'))) (pr_engine s))
        (\<lambda>e. (Inr (), store (dset ?k (build (capture a))) e)) s"
    by (simp add: rebuilt_step_def pc)
  moreover have "map_option capture \<circ> dget (dset ?k (build x) d) = (map_option capture \<circ> dget d)(?k \<mapsto> capture (build x))"
    for x d by auto
  ultimately show "\<exists>f u name. rebuilt_step build store inject prefix ch s =
      mutate_run inject name (store f (pr_engine s)) (\<lambda>e. (Inr (), store u e)) s \<and>
      map_option capture \<circ> dget (f (read (pr_engine s))) = apply_change ch (map_option capture \<circ> dget (read (pr_engine s))) \<and>
      (\<forall>d. map_option capture \<circ> dget (u d) = (map_option capture \<circ> dget d)(?k := get c ?k))"
    using build old pc(2) unfolding apply_change_def by metis
qed

text \<open>The loop over the changes of this dictionary.\<close>

lemma leads_changes:
  assumes dist: "distinct (map pc_key cs)"
    and step: "\<And>ch c'. ch \<in> set cs \<Longrightarrow> get c' (pc_key ch) = get c (pc_key ch) \<Longrightarrow>
      leads inject c0 (c', ix, w) (F ch) (put (apply_change ch) c', ix, w)"
  shows "leads inject c0 (c, ix, w) (run_each F cs) (put (fold apply_change cs) c, ix, w)"
proof -
  let ?V = "\<lambda>ys. (put (fold apply_change ys) c, ix, w)"
  have "leads inject c0 (?V []) (run_each F cs) (?V cs)"
  proof (rule leads_each)
    fix ys ch zs assume split: "cs = ys @ ch # zs"
    then have "pc_key ch \<notin> pc_key ` set ys" using dist by auto
    then have "get (put (fold apply_change ys) c) (pc_key ch) = get c (pc_key ch)"
      unfolding get_put by (rule fold_apply_other)
    from step [OF _ this] split have
      "leads inject c0 (?V ys) (F ch) (put (apply_change ch) (put (fold apply_change ys) c), ix, w)" by simp
    then show "leads inject c0 (?V ys) (F ch) (?V (ys @ [ch]))" by (simp add: put_put comp_def)
  qed
  moreover have "put (fold apply_change []) c = c" using put_id [of c] by (simp add: id_def)
  ultimately show ?thesis by simp
qed

lemma leads_snapshots:
  assumes ok: "snap_ok capture good d cs d1" and start: "get c = map_option capture \<circ> dget d"
    and build: "\<And>a. good a \<Longrightarrow> capture (build (capture a)) = capture a"
  shows "leads inject c0 (c, ix, w) (run_each (rebuilt_step build store inject prefix) cs)
    (put (fold apply_change cs) c, ix, w)"
proof (rule leads_changes)
  show "distinct (map pc_key cs)" using ok by (simp add: snap_ok_def)
  fix ch c' assume ch: "ch \<in> set cs" and same: "get c' (pc_key ch) = get c (pc_key ch)"
  from ok ch obtain a a' where a: "dget d (pc_key ch) = Some a" "good a" "good a'"
    "ch = replacement (pc_key ch) (capture a) (capture a')" unfolding snap_ok_def by blast
  show "leads inject c0 (c', ix, w) (rebuilt_step build store inject prefix ch) (put (apply_change ch) c', ix, w)"
    by (rule leads_rebuilt [OF a(4) _ build [OF a(2)] build [OF a(3)]]) (simp add: same start a(1))
qed

end

text \<open>A dictionary whose values are compared as they are.\<close>

locale plain_field = engine_field read store get put "\<lambda>v :: 'v. v" for read store get put
begin

lemma leads_point:
  assumes before: "pc_before ch = get c (pc_key ch)"
    and after: "pc_after ch = None \<Longrightarrow> get c (pc_key ch) \<noteq> None"
  shows "leads inject c0 (c, ix, w) (point_step read store inject prefix ch) (put (apply_change ch) c, ix, w)"
proof (rule leads_write)
  fix s assume "run_view s = (c, ix, w)"
  then have c: "contents (pr_engine s) = c" by (simp add: run_view_def)
  let ?d = "read (pr_engine s)" and ?k = "pc_key ch"
  have get: "get c = dget ?d" using get_contents [of "pr_engine s"] by (simp add: c option.map_ident comp_def)
  obtain d where d: "apply_point ch ?d = Inr d" "dget d = apply_change ch (dget ?d)"
  proof (cases "pc_after ch")
    case None
    then have "dmem ?k ?d" using after get by (simp add: dmem_def)
    then show thesis using None by (intro that [of "ddel ?k ?d"]) (simp_all add: apply_point_def apply_change_def)
  next
    case (Some v)
    then show thesis by (intro that [of "dset ?k v ?d"]) (simp_all add: apply_point_def apply_change_def)
  qed
  have u: "dget (undo_point ch x) = (dget x)(?k := get c ?k)" for x
    using before by (auto simp: undo_point_def fun_upd_def split: option.split)
  show "\<exists>f u name. point_step read store inject prefix ch s =
      mutate_run inject name (store f (pr_engine s)) (\<lambda>e. (Inr (), store u e)) s \<and>
      map_option (\<lambda>v. v) \<circ> dget (f ?d) = apply_change ch (map_option (\<lambda>v. v) \<circ> dget ?d) \<and>
      (\<forall>d. map_option (\<lambda>v. v) \<circ> dget (u d) = (map_option (\<lambda>v. v) \<circ> dget d)(?k := get c ?k))"
    by (rule exI [of _ "\<lambda>_. d"], rule exI [of _ "undo_point ch"], rule exI [of _ "prefix @ ?k"])
      (simp add: point_step_def option.map_ident comp_def d u fun_eq_iff)
qed

lemma leads_points:
  assumes ok: "point_ok d cs d1" and start: "get c = dget d"
  shows "leads inject c0 (c, ix, w) (run_each (point_step read store inject prefix) cs)
    (put (fold apply_change cs) c, ix, w)"
proof (rule leads_changes)
  show "distinct (map pc_key cs)" using ok by (simp add: point_ok_def)
  fix ch c' assume ch: "ch \<in> set cs" and same: "get c' (pc_key ch) = get c (pc_key ch)"
  show "leads inject c0 (c', ix, w) (point_step read store inject prefix ch) (put (apply_change ch) c', ix, w)"
    by (rule leads_point) (use ok ch same start in \<open>simp_all add: point_ok_def\<close>)
qed

end

interpretation labels_field: plain_field en_active_labels en_active_labels_update ct_labels ct_labels_update
  by unfold_locales (simp_all add: contents_def registry_of_def comp_def option.map_ident cong: engine_contents.fold_congs)

interpretation contributions_field: plain_field en_contributions en_contributions_update ct_contributions ct_contributions_update
  by unfold_locales (simp_all add: contents_def registry_of_def comp_def option.map_ident cong: engine_contents.fold_congs)

interpretation claim_states_field: plain_field en_claim_states en_claim_states_update ct_claim_states ct_claim_states_update
  by unfold_locales (simp_all add: contents_def registry_of_def comp_def option.map_ident cong: engine_contents.fold_congs)

interpretation certificates_field: plain_field en_certificates en_certificates_update ct_certificates ct_certificates_update
  by unfold_locales (simp_all add: contents_def registry_of_def comp_def option.map_ident cong: engine_contents.fold_congs)

interpretation answer_states_field: plain_field en_answer_states en_answer_states_update ct_answer_states ct_answer_states_update
  by unfold_locales (simp_all add: contents_def registry_of_def comp_def option.map_ident cong: engine_contents.fold_congs)

interpretation accumulators_field: engine_field en_claim_accumulators en_claim_accumulators_update
    ct_accumulators ct_accumulators_update capture_accumulator
  by unfold_locales (simp_all add: contents_def registry_of_def comp_def cong: engine_contents.fold_congs)

interpretation counts_field: engine_field en_answer_status_counts en_answer_status_counts_update
    ct_answer_counts ct_answer_counts_update counter_snapshot
  by unfold_locales (simp_all add: contents_def registry_of_def comp_def cong: engine_contents.fold_congs)

section \<open>The score index\<close>

definition flip_active ::
    "score_index_change \<Rightarrow> (string \<rightharpoonup> semantic_observation) \<Rightarrow> string \<rightharpoonup> semantic_observation" where
  "flip_active ch A = A(ob_observation_id (sc_observation ch) :=
     (if sc_add ch then Some (sc_observation ch) else None))"

definition can_flip :: "score_index_change \<Rightarrow> (string \<rightharpoonup> semantic_observation) \<Rightarrow> bool" where
  "can_flip ch A \<longleftrightarrow>
     A (ob_observation_id (sc_observation ch)) = (if sc_add ch then None else Some (sc_observation ch))"

lemma index_change_ok:
  assumes "index_stores ix A" and "can_flip ch A"
  shows "\<exists>ix' w'. index_change ch (ix, w) = Inr (ix', w + w') \<and> index_stores ix' (flip_active ch A)"
proof (cases "sc_add ch")
  case True
  then have "A (ob_observation_id (sc_observation ch)) = None" using assms(2) by (simp add: can_flip_def)
  from index_add_ok [OF assms(1) this] True show ?thesis by (auto simp: index_change_def flip_active_def)
next
  case False
  then have "A (ob_observation_id (sc_observation ch)) = Some (sc_observation ch)"
    using assms(2) by (simp add: can_flip_def)
  from index_remove_ok [OF assms(1) this] False show ?thesis by (auto simp: index_change_def flip_active_def)
qed

lemma change_index_Inr:
  assumes "index_change ch (en_score_index e, w) = Inr (ix', w + w')"
  shows "change_index (sc_add ch) (sc_observation ch) e = (Inr w', e\<lparr>en_score_index := ix'\<rparr>)"
proof -
  have both: "index_both f ob ix = (Inr u, ix')" if
    "bind_res (f (support_entries ix) (support_entry ob)) (\<lambda>(s, w1).
     bind_res (f (refute_entries ix) (refute_entry ob)) (\<lambda>(t, w2).
       Inr (\<lparr>support_entries = s, refute_entries = t\<rparr>, w1 + w2))) = Inr (ix', u)" for f ob ix u
    using that by (auto simp: index_both_def bind_res_Inr_iff Let_def)
  from assms have "(if sc_add ch then index_add else index_remove) (en_score_index e) (sc_observation ch) = Inr (ix', w')"
    by (auto simp: index_change_def bind_res_Inr_iff)
  then have "index_both (if sc_add ch then avl_add else avl_remove) (sc_observation ch) (en_score_index e) = (Inr w', ix')"
    by (cases "sc_add ch") (auto intro: both simp: index_add_def index_remove_def)
  then show ?thesis by (simp add: change_index_def)
qed

lemma contents_index:
  assumes "index_stores ix A"
  shows "contents (e\<lparr>en_score_index := ix\<rparr>) = entries_of A (contents e)" and "index_ok (e\<lparr>en_score_index := ix\<rparr>)"
  using assms
  by (simp_all add: index_stores_def m2_set.stores_def contents_def entries_of_def index_ok_def registry_of_def)

lemma entries_of_twice [simp]: "entries_of A (entries_of B c) = entries_of A c"
  by (simp add: entries_of_def)

lemma leads_score:
  assumes ix: "index_stores ix A" and flip: "can_flip ch A"
    and change: "index_change ch (ix, w) = Inr (ix', w')"
  shows "leads inject c0 (entries_of A c, ix, w) (score_step inject ch) (entries_of (flip_active ch A) c, ix', w')"
proof (rule leads_mutate)
  fix s assume v: "run_view s = (entries_of A c, ix, w)" and ok: "index_ok (pr_engine s)"
  let ?e = "pr_engine s"
  from v have c: "contents ?e = entries_of A c" "en_score_index ?e = ix" "pr_shift_work s = w"
    by (simp_all add: run_view_def)
  from index_change_ok [OF ix flip, of w] change obtain u where
    u: "w' = w + u" and ix': "index_stores ix' (flip_active ch A)" by auto
  have run: "change_index (sc_add ch) (sc_observation ch) ?e = (Inr u, ?e\<lparr>en_score_index := ix'\<rparr>)"
    by (rule change_index_Inr [where w = w]) (use change u c(2) in simp)
  have undone: "\<exists>e3. undo_index ch e2 = (Inr (), e3) \<and> contents e3 = entries_of A c \<and> index_ok e3"
    if e2: "contents e2 = contents (?e\<lparr>en_score_index := ix'\<rparr>)" "index_ok e2" for e2
  proof -
    have c2: "contents e2 = entries_of (flip_active ch A) c" using e2(1) contents_index(1) [OF ix'] c(1) by simp
    then have st: "index_stores (en_score_index e2) (flip_active ch A)"
      unfolding index_stores_contents using e2(2) by simp
    let ?ch = "ch\<lparr>sc_add := \<not> sc_add ch\<rparr>"
    have flip2: "can_flip ?ch (flip_active ch A)" by (simp add: can_flip_def flip_active_def)
    have "flip_active ?ch (flip_active ch A) = A"
      using flip by (auto simp: flip_active_def can_flip_def fun_eq_iff)
    with index_change_ok [OF st flip2, of 0] obtain ix3 w3 where
      i3: "index_change ?ch (en_score_index e2, 0) = Inr (ix3, 0 + w3)" "index_stores ix3 A" by auto
    from change_index_Inr [OF i3(1)] have
      "change_index (\<not> sc_add ch) (sc_observation ch) e2 = (Inr w3, e2\<lparr>en_score_index := ix3\<rparr>)" by simp
    then have "undo_index ch e2 = (Inr (), e2\<lparr>en_score_index := ix3\<rparr>)" by (simp add: undo_index_def)
    then show ?thesis using contents_index [OF i3(2), of e2] c2 by simp
  qed
  have "score_step inject ch s = mutate_run inject (''score_index:'' @ ob_observation_id (sc_observation ch))
      (?e\<lparr>en_score_index := ix'\<rparr>) (undo_index ch) (s\<lparr>pr_shift_work := w'\<rparr>)"
    using run u c(3) by (simp add: score_step_def)
  then show "\<exists>e undo w'' name. score_step inject ch s = mutate_run inject name e undo (s\<lparr>pr_shift_work := w''\<rparr>) \<and>
      (contents e, en_score_index e, w'') = (entries_of (flip_active ch A) c, ix', w') \<and> index_ok e \<and>
      (\<forall>e2. contents e2 = contents e \<and> index_ok e2 \<longrightarrow>
        (\<exists>e3. undo e2 = (Inr (), e3) \<and> contents e3 = fst (entries_of A c, ix, w) \<and> index_ok e3))"
    using contents_index [OF ix', of ?e] c(1) undone
    by (intro exI [of _ "?e\<lparr>en_score_index := ix'\<rparr>"] exI [of _ "undo_index ch"] exI [of _ w']
        exI [of _ "''score_index:'' @ ob_observation_id (sc_observation ch)"]) auto
qed

lemma flip_active_other:
  "i \<notin> (\<lambda>ch. ob_observation_id (sc_observation ch)) ` set ys \<Longrightarrow> fold flip_active ys A i = A i"
  by (induction ys arbitrary: A) (auto simp: flip_active_def)

lemma leads_scores:
  assumes ix: "index_stores ix A"
    and dist: "distinct (map (\<lambda>ch. ob_observation_id (sc_observation ch)) cs)"
    and flips: "\<forall>ch \<in> set cs. can_flip ch A"
    and run: "fold_res index_change cs (ix, w) = Inr (ix', w')"
  shows "leads inject c0 (entries_of A c, ix, w) (run_each (score_step inject) cs)
      (entries_of (fold flip_active cs A) c, ix', w') \<and> index_stores ix' (fold flip_active cs A)"
  using assms
proof (induction cs arbitrary: ix A w)
  case Nil
  then show ?case by (simp add: leads_def)
next
  case (Cons ch cs)
  from Cons.prems(3) have flip: "can_flip ch A" by simp
  from index_change_ok [OF Cons.prems(1) flip, of w] obtain ix1 u where
    ch: "index_change ch (ix, w) = Inr (ix1, w + u)" and ix1: "index_stores ix1 (flip_active ch A)" by blast
  have rest: "fold_res index_change cs (ix1, w + u) = Inr (ix', w')" using Cons.prems(4) ch by simp
  have "can_flip x (flip_active ch A)" if "x \<in> set cs" for x
  proof -
    have "ob_observation_id (sc_observation x) \<noteq> ob_observation_id (sc_observation ch)"
    proof
      assume "ob_observation_id (sc_observation x) = ob_observation_id (sc_observation ch)"
      with that have "ob_observation_id (sc_observation ch) \<in> (\<lambda>ch. ob_observation_id (sc_observation ch)) ` set cs"
        by (metis image_eqI)
      with Cons.prems(2) show False by simp
    qed
    then show ?thesis using Cons.prems(3) that by (simp add: can_flip_def flip_active_def)
  qed
  then have flips: "\<forall>x \<in> set cs. can_flip x (flip_active ch A)" by blast
  have dist: "distinct (map (\<lambda>ch. ob_observation_id (sc_observation ch)) cs)" using Cons.prems(2) by simp
  note IH = Cons.IH [OF ix1 dist flips rest]
  have "leads inject c0 (entries_of A c, ix, w) (then_run (score_step inject ch) (run_each (score_step inject) cs))
      (entries_of (fold flip_active cs (flip_active ch A)) c, ix', w')"
    by (rule leads_then [OF leads_score [OF Cons.prems(1) flip ch] conjunct1 [OF IH]])
  moreover have "run_each (score_step inject) (ch # cs) =
      then_run (score_step inject ch) (run_each (score_step inject) cs)" by (rule ext) simp
  ultimately show ?case using IH by simp
qed

section \<open>Publication\<close>

lemma leads_publish:
  "leads inject c0 (c, ix, w) (publish_step inject pt)
     (c\<lparr>ct_last_stats := (pt_stats pt)\<lparr>st_score_index_shift_work := int w\<rparr>,
        ct_state_revision := ct_state_revision c + 1\<rparr>, ix, w)"
  unfolding leads_def
proof (intro allI impI)
  fix s assume s: "run_inv c0 s \<and> run_view s = (c, ix, w)"
  let ?e = "pr_engine s"
  from s have c: "contents ?e = c" "en_score_index ?e = ix" "pr_shift_work s = w" by (simp_all add: run_view_def)
  let ?stats = "(pt_stats pt)\<lparr>st_score_index_shift_work := int w\<rparr>"
  let ?e' = "?e\<lparr>en_last_stats := ?stats, en_state_revision := en_state_revision ?e + 1\<rparr>"
  let ?undo = "(\<lambda>e. (Inr () :: unit res, e\<lparr>en_state_revision := en_state_revision e - 1\<rparr>)) #
      (\<lambda>e. (Inr (), e\<lparr>en_last_stats := en_last_stats ?e\<rparr>)) # pr_undo s"
  have run: "publish_step inject pt s = (inject ''published'', s\<lparr>pr_engine := ?e', pr_undo := ?undo\<rparr>)"
    by (simp add: publish_step_def mutate_run_def Let_def c(3))
  have new: "contents ?e' = c\<lparr>ct_last_stats := ?stats, ct_state_revision := ct_state_revision c + 1\<rparr>"
    unfolding c(1) [symmetric] by (simp add: contents_def registry_of_def)
  have "run_inv c0 (snd (publish_step inject pt s))"
    unfolding run_inv_def
  proof (intro conjI allI impI)
    show "index_ok (pr_engine (snd (publish_step inject pt s)))"
      using s by (simp add: run run_inv_def index_ok_def)
  next
    fix e2 assume e2: "contents e2 = contents (pr_engine (snd (publish_step inject pt s))) \<and> index_ok e2"
    then have c2: "contents e2 = c\<lparr>ct_last_stats := ?stats, ct_state_revision := ct_state_revision c + 1\<rparr>"
      by (simp add: run new)
    let ?e3 = "e2\<lparr>en_state_revision := en_state_revision e2 - 1, en_last_stats := en_last_stats ?e\<rparr>"
    have "contents ?e3 = (contents e2)\<lparr>ct_state_revision := ct_state_revision (contents e2) - 1,
        ct_last_stats := ct_last_stats (contents ?e)\<rparr>"
      by (simp add: contents_def registry_of_def)
    then have "contents ?e3 = contents ?e" unfolding c2 c(1) by (cases c) simp
    moreover have "index_ok ?e3" using e2 by (simp add: index_ok_def)
    ultimately obtain e' where "roll_back (pr_undo s) ?e3 = (Inr (), e')" "contents e' = c0" "index_ok e'"
      using s unfolding run_inv_def by blast
    then show "\<exists>e'. roll_back (pr_undo (snd (publish_step inject pt s))) e2 = (Inr (), e') \<and>
        contents e' = c0 \<and> index_ok e'" by (simp add: run)
  qed
  moreover have "run_view (snd (publish_step inject pt s)) =
      (c\<lparr>ct_last_stats := ?stats, ct_state_revision := ct_state_revision c + 1\<rparr>, ix, w)"
    using new by (simp add: run run_view_def c)
  ultimately show "run_inv c0 (snd (publish_step inject pt s)) \<and>
      (fst (publish_step inject pt s) = Inr () \<longrightarrow> run_view (snd (publish_step inject pt s)) =
        (c\<lparr>ct_last_stats := ?stats, ct_state_revision := ct_state_revision c + 1\<rparr>, ix, w)) \<and>
      (quiet_injector inject \<longrightarrow> fst (publish_step inject pt s) = Inr ())"
    by (simp add: run quiet_injector_def)
qed

end
