(* ===== verification/GL_PatchAtomic.thy ===== *)
theory GL_PatchAtomic
  imports GL_PatchApply
begin

text \<open>
  The whole application of a prepared patch: its preconditions hold on the engine it was prepared
  from, it ends with the contents of the in-place update, an exception leaves the old contents, and
  a patch that was applied, or that another update made stale, is refused.
\<close>

section \<open>Preconditions\<close>

lemma fold_res_checks: "(\<And>c. c \<in> set cs \<Longrightarrow> f c () = Inr ()) \<Longrightarrow> fold_res f cs () = Inr ()"
  by (induction cs) simp_all

lemma validate_map_ok: "point_ok d cs d1 \<Longrightarrow> validate_map d cs = Inr ()"
  unfolding validate_map_def by (rule fold_res_checks) (simp add: validate_change_def point_ok_def)

lemma validate_captured_ok:
  assumes "snap_ok capture good d cs d1"
  shows "fold_res (validate_captured capture d) cs () = Inr ()"
proof (rule fold_res_checks)
  fix c assume "c \<in> set cs"
  with assms obtain a a' where a: "dget d (pc_key c) = Some a"
    and c: "c = replacement (pc_key c) (capture a) (capture a')" unfolding snap_ok_def by blast
  have "pc_before c = Some (capture a)" by (subst c) (simp add: replacement_def)
  then show "validate_captured capture d c () = Inr ()" using a by (simp add: validate_captured_def)
qed

lemma validate_score_ok:
  assumes "index_stores ix A" and "\<forall>c \<in> set cs. can_flip c A"
  shows "fold_res (validate_score_change ix) cs () = Inr ()"
  using assms(2)
  by (intro fold_res_checks)
    (auto simp: validate_score_change_def index_contains_iff [OF assms(1)] can_flip_def split: if_splits)

lemma patch_toD:
  assumes "patch_to e A pt e1"
  shows "pt_expected_state_revision pt = en_state_revision e"
    and "point_ok (en_active_labels e) (pt_active_label_changes pt) (en_active_labels e1)"
    and "point_ok (en_contributions e) (pt_contribution_changes pt) (en_contributions e1)"
    and "snap_ok capture_accumulator acc_ok (en_claim_accumulators e) (pt_accumulator_changes pt)
       (en_claim_accumulators e1)"
    and "point_ok (en_claim_states e) (pt_claim_state_changes pt) (en_claim_states e1)"
    and "point_ok (en_certificates e) (pt_certificate_changes pt) (en_certificates e1)"
    and "snap_ok counter_snapshot dict_ok (en_answer_status_counts e) (pt_answer_count_changes pt)
       (en_answer_status_counts e1)"
    and "point_ok (en_answer_states e) (pt_answer_state_changes pt) (en_answer_states e1)"
    and "distinct (map (\<lambda>c. ob_observation_id (sc_observation c)) (pt_score_index_changes pt))"
    and "\<forall>c \<in> set (pt_score_index_changes pt). can_flip c A"
    and "\<exists>w. fold_res index_change (pt_score_index_changes pt) (en_score_index e, 0) =
        Inr (en_score_index e1, w) \<and> en_last_stats e1 = (pt_stats pt)\<lparr>st_score_index_shift_work := int w\<rparr>"
    and "registry_of e1 = registry_of e" and "en_state_revision e1 = en_state_revision e + 1"
  using assms unfolding patch_to_def can_flip_def by blast+

lemma preconditions_ok:
  assumes pt: "patch_to e A pt e1" and ix: "index_stores (en_score_index e) A"
  shows "validate_patch_preconditions pt e = Inr ()"
proof -
  note D = patch_toD [OF pt]
  show ?thesis
    unfolding validate_patch_preconditions_def
    by (simp add: D(1) validate_map_ok [OF D(2)] validate_map_ok [OF D(3)] validate_map_ok [OF D(5)]
        validate_map_ok [OF D(6)] validate_map_ok [OF D(8)] validate_captured_ok [OF D(4)]
        validate_captured_ok [OF D(7)] validate_score_ok [OF ix D(10)])
qed

text \<open>A patch of another revision is refused, and the engine is left as it is.\<close>

lemma stale_patch:
  assumes "pt_expected_state_revision pt \<noteq> en_state_revision e"
  shows "apply_state_patch inject pt e = (Inl AssertionError, e)"
  using assms by (simp add: apply_state_patch_def validate_patch_preconditions_def)

section \<open>The phases\<close>

lemma captured_accumulator: "acc_ok a \<Longrightarrow> capture_accumulator (materialize_accumulator (capture_accumulator a)) = capture_accumulator a"
  by (rule capture_same [OF rebuilt_accumulator])

lemma captured_counter: "dict_ok c \<Longrightarrow> counter_snapshot (counter_of_items (counter_snapshot c)) = counter_snapshot c"
  by (rule counter_snapshot_same [OF rebuilt_counter])

text \<open>The contents after the seven loops over dictionaries.\<close>

definition map_phases :: "state_patch \<Rightarrow> engine_contents \<Rightarrow> engine_contents" where
  "map_phases pt c =
     c\<lparr>ct_labels := fold apply_change (pt_active_label_changes pt) (ct_labels c),
       ct_contributions := fold apply_change (pt_contribution_changes pt) (ct_contributions c),
       ct_accumulators := fold apply_change (pt_accumulator_changes pt) (ct_accumulators c),
       ct_claim_states := fold apply_change (pt_claim_state_changes pt) (ct_claim_states c),
       ct_certificates := fold apply_change (pt_certificate_changes pt) (ct_certificates c),
       ct_answer_counts := fold apply_change (pt_answer_count_changes pt) (ct_answer_counts c),
       ct_answer_states := fold apply_change (pt_answer_state_changes pt) (ct_answer_states c)\<rparr>"

lemma contents_selectors:
  "ct_labels (contents e) = dget (en_active_labels e)"
  "ct_contributions (contents e) = dget (en_contributions e)"
  "ct_accumulators (contents e) = map_option capture_accumulator \<circ> dget (en_claim_accumulators e)"
  "ct_claim_states (contents e) = dget (en_claim_states e)"
  "ct_certificates (contents e) = dget (en_certificates e)"
  "ct_answer_counts (contents e) = map_option counter_snapshot \<circ> dget (en_answer_status_counts e)"
  "ct_answer_states (contents e) = dget (en_answer_states e)"
  by (simp_all add: contents_def)

lemma leads_maps:
  assumes pt: "patch_to e A pt e1" and rest: "leads inject c0 (map_phases pt (contents e), ix, w) g v"
  shows "leads inject c0 (contents e, ix, w)
    (then_run (run_each (point_step en_active_labels en_active_labels_update inject ''active_label:'')
       (pt_active_label_changes pt))
     (then_run (run_each (point_step en_contributions en_contributions_update inject ''contribution:'')
       (pt_contribution_changes pt))
     (then_run (run_each (rebuilt_step materialize_accumulator en_claim_accumulators_update inject ''accumulator:'')
       (pt_accumulator_changes pt))
     (then_run (run_each (point_step en_claim_states en_claim_states_update inject ''claim_state:'')
       (pt_claim_state_changes pt))
     (then_run (run_each (point_step en_certificates en_certificates_update inject ''certificate:'')
       (pt_certificate_changes pt))
     (then_run (run_each (rebuilt_step counter_of_items en_answer_status_counts_update inject ''answer_counts:'')
       (pt_answer_count_changes pt))
     (then_run (run_each (point_step en_answer_states en_answer_states_update inject ''answer_state:'')
       (pt_answer_state_changes pt)) g))))))) v"
proof -
  note D = patch_toD [OF pt]
  let ?c1 = "ct_labels_update (fold apply_change (pt_active_label_changes pt)) (contents e)"
  let ?c2 = "ct_contributions_update (fold apply_change (pt_contribution_changes pt)) ?c1"
  let ?c3 = "ct_accumulators_update (fold apply_change (pt_accumulator_changes pt)) ?c2"
  let ?c4 = "ct_claim_states_update (fold apply_change (pt_claim_state_changes pt)) ?c3"
  let ?c5 = "ct_certificates_update (fold apply_change (pt_certificate_changes pt)) ?c4"
  let ?c6 = "ct_answer_counts_update (fold apply_change (pt_answer_count_changes pt)) ?c5"
  let ?c7 = "ct_answer_states_update (fold apply_change (pt_answer_state_changes pt)) ?c6"
  have "?c7 = map_phases pt (contents e)" by (cases "contents e") (simp add: map_phases_def)
  then have "leads inject c0 (?c7, ix, w) g v" using rest by simp
  then show ?thesis
    by (intro leads_then [OF labels_field.leads_points [OF D(2)]]
        leads_then [OF contributions_field.leads_points [OF D(3)]]
        leads_then [OF accumulators_field.leads_snapshots [OF D(4) _ captured_accumulator]]
        leads_then [OF claim_states_field.leads_points [OF D(5)]]
        leads_then [OF certificates_field.leads_points [OF D(6)]]
        leads_then [OF counts_field.leads_snapshots [OF D(7) _ captured_counter]]
        leads_then [OF answer_states_field.leads_points [OF D(8)]])
      (simp_all add: contents_selectors)
qed

text \<open>The view after the publication is that of the engine the in-place update leaves.\<close>

lemma entries_of_maps: "entries_of A (map_phases pt c) = map_phases pt (entries_of A c)"
  by (simp add: entries_of_def map_phases_def)

lemma published_contents:
  assumes pt: "patch_to e A pt e1" and ix: "index_stores (en_score_index e1) B"
    and last: "en_last_stats e1 = (pt_stats pt)\<lparr>st_score_index_shift_work := int w\<rparr>"
  shows "(entries_of B (map_phases pt (contents e)))
      \<lparr>ct_last_stats := (pt_stats pt)\<lparr>st_score_index_shift_work := int w\<rparr>,
       ct_state_revision := ct_state_revision (entries_of B (map_phases pt (contents e))) + 1\<rparr> = contents e1"
proof -
  note D = patch_toD [OF pt]
  have x: "avl_elems (support_entries (en_score_index e1)) = index_of ob_support_score B"
    "avl_elems (refute_entries (en_score_index e1)) = index_of ob_refute_score B"
    using ix by (simp_all add: index_stores_def m2_set.stores_def)
  from D(2-8) have m: "dget (en_active_labels e1) = fold apply_change (pt_active_label_changes pt) (dget (en_active_labels e))"
    "dget (en_contributions e1) = fold apply_change (pt_contribution_changes pt) (dget (en_contributions e))"
    "map_option capture_accumulator \<circ> dget (en_claim_accumulators e1) =
      fold apply_change (pt_accumulator_changes pt) (map_option capture_accumulator \<circ> dget (en_claim_accumulators e))"
    "dget (en_claim_states e1) = fold apply_change (pt_claim_state_changes pt) (dget (en_claim_states e))"
    "dget (en_certificates e1) = fold apply_change (pt_certificate_changes pt) (dget (en_certificates e))"
    "map_option counter_snapshot \<circ> dget (en_answer_status_counts e1) =
      fold apply_change (pt_answer_count_changes pt) (map_option counter_snapshot \<circ> dget (en_answer_status_counts e))"
    "dget (en_answer_states e1) = fold apply_change (pt_answer_state_changes pt) (dget (en_answer_states e))"
    by (simp_all add: point_ok_def snap_ok_def)
  show ?thesis
    unfolding contents_def [of e1] m x D(12,13) last
    by (simp add: entries_of_def map_phases_def contents_def)
qed

lemma leads_patch:
  assumes pt: "patch_to e A pt e1" and ix: "index_stores (en_score_index e) A"
  shows "\<exists>w. leads inject c0 (contents e, en_score_index e, 0) (run_patch inject pt)
    (contents e1, en_score_index e1, w)"
proof -
  note D = patch_toD [OF pt]
  from D(11) obtain w where w: "fold_res index_change (pt_score_index_changes pt) (en_score_index e, 0) =
      Inr (en_score_index e1, w)" "en_last_stats e1 = (pt_stats pt)\<lparr>st_score_index_shift_work := int w\<rparr>" by blast
  let ?B = "fold flip_active (pt_score_index_changes pt) A" and ?c = "map_phases pt (contents e)"
  have scores: "leads inject c0 (entries_of A ?c, en_score_index e, 0)
      (run_each (score_step inject) (pt_score_index_changes pt)) (entries_of ?B ?c, en_score_index e1, w)"
    and B: "index_stores (en_score_index e1) ?B"
    using leads_scores [OF ix D(9,10) w(1)] by blast+
  have same: "entries_of A ?c = ?c" using ix unfolding index_stores_contents entries_of_maps by simp
  have "leads inject c0 (?c, en_score_index e, 0)
      (then_run (run_each (score_step inject) (pt_score_index_changes pt)) (publish_step inject pt))
      (contents e1, en_score_index e1, w)"
    using leads_then [OF scores leads_publish [where pt = pt]] unfolding same published_contents [OF pt B w(2)] .
  from leads_maps [OF pt this] show ?thesis unfolding run_patch_def by blast
qed

section \<open>Atomicity\<close>

theorem apply_patch_atomic:
  assumes pt: "patch_to e A pt e1" and ix: "index_stores (en_score_index e) A"
    and run: "apply_state_patch inject pt e = (res, e2)"
  shows "res = Inr () \<Longrightarrow> contents e2 = contents e1 \<and> en_score_index e2 = en_score_index e1"
    and "res = Inl x \<Longrightarrow> contents e2 = contents e \<and> index_ok e2"
    and "quiet_injector inject \<Longrightarrow> res = Inr ()"
proof -
  let ?s = "\<lparr>pr_engine = e, pr_undo = [], pr_shift_work = 0\<rparr>"
  from leads_patch [OF pt ix] obtain w where
    L: "leads inject (contents e) (contents e, en_score_index e, 0) (run_patch inject pt)
      (contents e1, en_score_index e1, w)" by blast
  have "index_ok e" using ix unfolding index_stores_contents by blast
  then have "run_inv (contents e) ?s" by (simp add: run_inv_def)
  moreover have "run_view ?s = (contents e, en_score_index e, 0)" by (simp add: run_view_def)
  ultimately have R: "run_inv (contents e) (snd (run_patch inject pt ?s))"
    "fst (run_patch inject pt ?s) = Inr () \<Longrightarrow> run_view (snd (run_patch inject pt ?s)) = (contents e1, en_score_index e1, w)"
    "quiet_injector inject \<Longrightarrow> fst (run_patch inject pt ?s) = Inr ()"
    using leadsD [OF L, of ?s] by blast+
  obtain r s where rs: "run_patch inject pt ?s = (r, s)" by (cases "run_patch inject pt ?s")
  note ap = apply_state_patch_def preconditions_ok [OF pt ix]
  have "(res = Inr () \<longrightarrow> contents e2 = contents e1 \<and> en_score_index e2 = en_score_index e1) \<and>
      (\<forall>x. res = Inl x \<longrightarrow> contents e2 = contents e \<and> index_ok e2) \<and> (quiet_injector inject \<longrightarrow> res = Inr ())"
  proof (cases r)
    case (Inr u)
    then show ?thesis using run R(2) by (simp add: ap rs run_view_def) blast
  next
    case (Inl x)
    from R(1) obtain e' where e': "roll_back (pr_undo s) (pr_engine s) = (Inr (), e')" "contents e' = contents e" "index_ok e'"
      unfolding rs run_inv_def by auto
    then have "res = Inl x" "e2 = e'" using run Inl by (simp_all add: ap rs)
    then show ?thesis using e' Inl R(3) by (auto simp: rs)
  qed
  then show "res = Inr () \<Longrightarrow> contents e2 = contents e1 \<and> en_score_index e2 = en_score_index e1"
    and "res = Inl x \<Longrightarrow> contents e2 = contents e \<and> index_ok e2"
    and "quiet_injector inject \<Longrightarrow> res = Inr ()" by blast+
qed

end
