(* ===== verification/GL_PatchPaths.thy ===== *)
theory GL_PatchPaths
  imports GL_PatchAtomic GL_EngineProofs
begin

text \<open>
  The two paths of maintenance meet: on a synchronised engine, every accepted event can be prepared
  as a patch, and the patch leads to the engine that the in-place update returns.
\<close>

section \<open>A synchronised registry\<close>

lemma dset_known: "dget d k = Some v \<Longrightarrow> dset k v d = d"
  by (induction d) (auto split: if_splits)

lemma fold_res_idle: "(\<And>x. x \<in> set xs \<Longrightarrow> f x s = Inr s) \<Longrightarrow> fold_res f xs s = Inr s"
  by (induction xs) simp_all

lemma sync_registry_idle:
  assumes reg: "registry_rel r (dom (dget (claims r))) (dom (dget (answers r))) e"
  shows "sync_registry r e = Inr (False, e)"
proof -
  note R = registry_relD [OF reg]
  have "fold_res (sync_claim r) (all_claim_ids r) (False, e) = Inr (False, e)"
  proof (rule fold_res_idle)
    fix c assume "c \<in> set (all_claim_ids r)"
    then have "c \<in> dom (dget (en_claim_accumulators e))" unfolding R(4) all_claim_ids_def set_dkeys .
    then show "sync_claim r c (False, e) = Inr (False, e)" by (auto simp: sync_claim_def dmem_def)
  qed
  moreover have "fold_res (sync_answer r) (all_answer_ids r) (False, e) = Inr (False, e)"
  proof (rule fold_res_idle)
    fix a assume "a \<in> set (all_answer_ids r)"
    then have a: "a \<in> dom (dget (answers r))" unfolding all_answer_ids_def set_dkeys .
    let ?cs = "claim_ids_of_answer r a"
    let ?req = "\<lambda>c. case dget (claims r) c of None \<Rightarrow> False | Some x \<Rightarrow> cl_required x"
    have flags: "traverse (lookup KeyError (en_claim_required e)) ?cs = Inr (map ?req ?cs)"
    proof (rule traverse_Inr_map)
      fix c assume "c \<in> set ?cs"
      then obtain x where "dget (claims r) c = Some x" using R(3) [OF a] by blast
      then show "lookup KeyError (en_claim_required e) c = Inr (?req c)" using R(6) [of c] by (simp add: domI)
    qed
    have len: "length (filter id (map ?req ?cs)) = length (required_claim_ids r a)"
      by (simp add: required_claim_ids_def filter_map comp_def)
    have known: "dget (en_answer_to_claims e) a = Some ?cs"
      "dget (en_answer_required_counts e) a = Some (int (length (required_claim_ids r a)))"
      using R(7) [of a] R(8) [of a] a by simp_all
    show "sync_answer r a (False, e) = Inr (False, e)"
      using flags len by (simp add: sync_answer_def Let_def known dset_known)
  qed
  ultimately show ?thesis by (simp add: sync_registry_def)
qed

section \<open>The patch of an accepted event\<close>

lemma observed_id_is_new:
  assumes "mutate sha (r\<lparr>current_epoch := n\<rparr>) (ObserveEvent eid ob) m = Inr r1"
  shows "active_observation r (ob_observation_id ob) = None"
  using assms by (auto simp: register_observation_Inr active_observation_def elim!: bind_res_InrE)

lemma patch_of_event:
  assumes inv: "repo_inv r" and pol: "policy_for r p"
    and eng: "engine_for r p (dom (dget (claims r))) (dom (dget (answers r))) e"
    and ok: "apply_event sha dig r ev = Inr (ds, r')" and new: "recorded_event r (event_id ev) = None"
    and first: "is_policy_event ev \<Longrightarrow> current_policy r = Inr p"
    and tie: "dp_tie_rule_version (next_policy ev p) = dp_tie_rule_version p"
  shows "\<exists>pt e1. prepare_committed_event_patch ev r r' e = Inr pt \<and> apply_committed_event ev r r' e = Inr e1 \<and>
    patch_to e (active_observation r) pt e1 \<and>
    policy_for r' (next_policy ev p) \<and>
    engine_for r' (next_policy ev p) (dom (dget (claims r'))) (dom (dget (answers r'))) e1"
proof -
  let ?A = "active_observation r" and ?V = "repo_view r p"
  let ?K = "dom (dget (claims r))" and ?J = "dom (dget (answers r))"
  from eng have act: "active_rel e ?A (labels_of p ?A)" and core: "core_rel e ?V"
    and reg: "registry_rel r ?K ?J e" and cl: "claims_rel ?K (view_claim_state ?V) e"
    and ct: "counters_rel r ?J (view_claim_state ?V) e"
    by (simp_all add: engine_for_def engine_at_def states_rel_def)
  from apply_committed_event_ok [OF inv pol eng ok new first tie] obtain e1 where
    e1: "apply_committed_event ev r r' e = Inr e1" "policy_for r' (next_policy ev p)"
      "engine_for r' (next_policy ev p) (dom (dget (claims r'))) (dom (dget (answers r'))) e1" by blast
  then obtain cx where base: "maintain_base ev r r' (new_update_ctx e) = Inr cx" and fin: "finish_update cx = Inr e1"
    by (auto simp: apply_committed_event_def sync_registry_idle [OF reg] new_update_ctx_def bind_res_Inr_iff)
  have obs: "observations_inv r" using inv by (simp add: repo_inv_def)
  from ok new obtain r1 where mut: "mutate sha (r\<lparr>current_epoch := Suc (current_epoch r)\<rparr>) ev (Suc (current_epoch r)) = Inr r1"
    by (rule apply_event_fresh)
  have accs: "accs_ok e"
    unfolding accs_ok_def using core_relD(4) [OF core] acc_rel_ok by blast
  have dom: "dom (dget (en_active_labels e)) = dom ?A" using act by (simp add: active_rel_def)
  have ids: "ob_observation_id ob = i \<and> (i \<in> dom (dget (en_active_labels e)) \<longrightarrow> ?A i = Some ob)"
    if "observation_of r i = Inr ob" for i ob
  proof -
    from that have ob: "dget (observations r) i = Some ob" by (simp add: observation_of_def lookup_Inr_iff)
    then have "?A i = Some ob" if "i \<in> dom ?A" using that by (auto simp: active_observation_Some)
    then show ?thesis using observations_invD(1) [OF obs ob] by (simp add: dom)
  qed
  have fresh: "?A (ob_observation_id ob) = None" if "ev = ObserveEvent eid ob" for eid ob
    using observed_id_is_new mut unfolding that by blast
  have "\<exists>px T. patch_maintain e ev r r' (new_patch_ctx e) = Inr px \<and> patch_sim e px cx \<and> patch_inv e ?A T px"
    by (rule patch_maintain_sim [OF accs _ dom _ base]) (use ids fresh in blast)+
  then obtain px T where
    px: "patch_maintain e ev r r' (new_patch_ctx e) = Inr px" and sim: "patch_sim e px cx"
    and pinv: "patch_inv e ?A T px" by blast
  note D = patch_accsD [OF patch_simD(3) [OF sim]]
  have dirty: "px_dirty_claims px \<subseteq> ?K"
    using D(5) registry_relD(4) [OF reg] by (simp add: patch_simD(4) [OF sim])
  have K: "finite ?K" by (rule finite_dom_map_of)
  have certs: "px_dirty_claims px \<subseteq> dom (dget (en_certificates e))"
    using dirty cl unfolding claims_rel_def by (auto split: if_splits)
  have counters: "dict_ok c" if "dget (en_answer_status_counts e) a = Some c" for a c
    using ct that by (auto simp: counters_rel_def counter_rel_def)
  have "\<exists>pt. finish_patch ev e px = Inr pt \<and> patch_to e ?A pt e1"
    by (rule finish_patch_sim [OF sim pinv accs finite_subset [OF dirty K] certs _ fin]) (rule counters)
  then obtain pt where pt: "finish_patch ev e px = Inr pt" "patch_to e ?A pt e1" by blast
  then have "prepare_committed_event_patch ev r r' e = Inr pt"
    using px by (simp add: prepare_committed_event_patch_def)
  then show ?thesis using e1 pt(2) by blast
qed

section \<open>Previews\<close>

lemma dict_of_changes:
  assumes dist: "distinct (map pc_key cs)"
  shows "overlay_get (dict_of (map (\<lambda>c. (pc_key c, pc_after c)) cs)) d k = fold apply_change cs (dget d) k"
proof -
  let ?ps = "map (\<lambda>c. (pc_key c, pc_after c)) cs"
  have keys: "dkeys ?ps = map pc_key cs" by (induction cs) simp_all
  with dist have ok: "dict_ok ?ps" by (simp only: dict_ok_def)
  have "overlay_get ?ps d k = fold apply_change cs (dget d) k"
  proof (cases "k \<in> pc_key ` set cs")
    case True
    then obtain c where c: "c \<in> set cs" "k = pc_key c" by blast
    then have "(k, pc_after c) \<in> set ?ps" by auto
    then have "dget ?ps k = Some (pc_after c)" using dget_in_set [OF ok] by blast
    then show ?thesis using fold_apply_key [OF dist c(1)] c(2) by (simp add: overlay_get_def)
  next
    case False
    then have "k \<notin> dom (dget ?ps)" unfolding set_dkeys [symmetric] keys by simp
    then show ?thesis using fold_apply_other [OF False] overlay_get_fresh by simp
  qed
  then show ?thesis using dict_of_ok [OF ok] by simp
qed

text \<open>A preview reads the states that the engine will have.\<close>

lemma preview_ok:
  assumes pt: "patch_to e A pt e1" and ix: "index_stores (en_score_index e) A"
    and known: "set cids \<subseteq> dom (dget (en_claim_states e1))"
  shows "\<exists>d. preview_claim_states_after_patch pt cids e = Inr d \<and> dom (dget d) = set cids \<and>
    (\<forall>c \<in> set cids. dget d c = dget (en_claim_states e1) c)"
proof -
  let ?cs = "pt_claim_state_changes pt"
  let ?ch = "dict_of (map (\<lambda>c. (pc_key c, pc_after c)) ?cs)"
  let ?d = "map (\<lambda>c. (c, the (dget (en_claim_states e1) c))) (rev (remdups (rev cids)))"
  have P: "point_ok (en_claim_states e) ?cs (en_claim_states e1)" by (rule patch_toD(5) [OF pt])
  have over: "overlay_get ?ch (en_claim_states e) c = dget (en_claim_states e1) c" for c
    using P dict_of_changes [of ?cs "en_claim_states e" c] by (simp add: point_ok_def)
  have "traverse (\<lambda>cid. case overlay_get ?ch [] cid of Some st \<Rightarrow> Inr (cid, st)
      | None \<Rightarrow> bind_res (lookup KeyError (en_claim_states e) cid) (\<lambda>st. Inr (cid, st)))
      (rev (remdups (rev cids))) = Inr ?d"
  proof (rule traverse_Inr_map)
    fix c assume "c \<in> set (rev (remdups (rev cids)))"
    then obtain st where st: "dget (en_claim_states e1) c = Some st" using known by auto
    show "(case overlay_get ?ch [] c of Some st \<Rightarrow> Inr (c, st)
      | None \<Rightarrow> bind_res (lookup KeyError (en_claim_states e) c) (\<lambda>st. Inr (c, st))) =
      Inr (c, the (dget (en_claim_states e1) c))"
      using over [of c] st by (cases "dget ?ch c") (auto simp: overlay_get_def)
  qed
  then have "preview_claim_states_after_patch pt cids e = Inr ?d"
    by (simp add: preview_claim_states_after_patch_def preconditions_ok [OF pt ix])
  moreover have "dget ?d c = (if c \<in> set cids then Some (the (dget (en_claim_states e1) c)) else None)" for c
    unfolding dget_tabulate by simp
  ultimately show ?thesis using known by (intro exI [of _ ?d]) (auto split: if_splits)
qed

text \<open>A no-op patch succeeds and changes nothing but the revision and the statistics.\<close>

lemma noop_patch_to:
  assumes "prepare_noop_event_patch eid e = Inr pt"
  shows "patch_to e A pt (e\<lparr>en_last_stats := no_stats\<lparr>st_score_index_shift_work := 0\<rparr>,
    en_state_revision := en_state_revision e + 1\<rparr>)"
  using assms
  by (auto simp: prepare_noop_event_patch_def patch_to_def point_ok_def snap_ok_def registry_of_def
      split: if_splits)

end
