(* ===== verification/GL_Counters.thy ===== *)
theory GL_Counters
  imports GL_Domain
begin

text \<open>
  The argument checks and the work counters of \<open>groundloop/m5/matching.py\<close>.  An argument that the
  source checks with \<open>isinstance\<close> has its type here, so that the checks that remain are the bounds
  and the shape of texts.
\<close>

section \<open>Argument checks\<close>

definition max_requirements :: int where
  "max_requirements = 8"

definition require_integer :: "int \<Rightarrow> int option \<Rightarrow> int option \<Rightarrow> unit res" where
  "require_integer value minimum maximum =
     (if (case minimum of None \<Rightarrow> False | Some lo \<Rightarrow> value < lo) then Inl ValidationError
      else if (case maximum of None \<Rightarrow> False | Some hi \<Rightarrow> hi < value) then Inl ValidationError
      else Inr ())"

definition require_requirement_count :: "int \<Rightarrow> unit res" where
  "require_requirement_count n = require_integer n (Some 1) (Some max_requirements)"

text \<open>\<open>not value.strip()\<close> of an identifier.\<close>

definition blank_text :: "string \<Rightarrow> bool" where
  "blank_text s \<longleftrightarrow> list_all (\<lambda>c. py_isspace (of_char c)) s"

definition require_text :: "string \<Rightarrow> unit res" where
  "require_text s = (if blank_text s then Inl ValidationError else Inr ())"

definition require_sha256 :: "string \<Rightarrow> unit res" where
  "require_sha256 s =
     (if length s \<noteq> 64 \<or> \<not> list_all (\<lambda>c. c \<in> set ''0123456789abcdef'') s
      then Inl ValidationError else Inr ())"

definition require_mask :: "int \<Rightarrow> nat \<Rightarrow> unit res" where
  "require_mask m requirement_count =
     require_integer m (Some 0) (Some (push_bit requirement_count 1 - 1))"

lemma require_integer_Inr [simp]:
  "require_integer v lo hi = Inr () \<longleftrightarrow>
     (\<forall>l. lo = Some l \<longrightarrow> l \<le> v) \<and> (\<forall>h. hi = Some h \<longrightarrow> v \<le> h)"
  by (auto simp: require_integer_def split: option.splits)

lemma require_integer_pass [simp]:
  "l \<le> v \<Longrightarrow> v \<le> h \<Longrightarrow> require_integer v (Some l) (Some h) = Inr ()"
  "l \<le> v \<Longrightarrow> require_integer v (Some l) None = Inr ()"
  by (simp_all add: require_integer_def)

lemma require_integer_cases:
  "require_integer v lo hi = Inr () \<or> require_integer v lo hi = Inl ValidationError"
  by (simp add: require_integer_def)

lemma require_requirement_count_Inr [simp]:
  "require_requirement_count n = Inr () \<longleftrightarrow> 1 \<le> n \<and> n \<le> 8"
  by (simp add: require_requirement_count_def max_requirements_def)

lemma require_requirement_count_pass [simp]: "1 \<le> n \<Longrightarrow> n \<le> 8 \<Longrightarrow> require_requirement_count n = Inr ()"
  by simp

section \<open>Work counters\<close>

record work_counters =
  wc_contribution_additions :: int
  wc_contribution_removals :: int
  wc_requirement_observation_changes_processed :: int
  wc_policy_candidate_observations :: int
  wc_ordered_policy_range_probes :: int
  wc_ordered_index_operations :: int
  wc_canonical_sort_items :: int
  wc_edge_refcount_keys_updated :: int
  wc_distinct_edge_crossings :: int
  wc_hash_mask_transitions :: int
  wc_hash_masks_initialized :: int
  wc_hall_zeta_additions :: int
  wc_hall_subset_entries_examined :: int
  wc_hall_neighbor_entries_changed :: int
  wc_hall_deficiency_entries_examined :: int
  wc_certificate_repairs :: int
  wc_certificate_reconstructions :: int
  wc_policy_rebindings :: int
  wc_representative_hashes_read :: int
  wc_representative_observations_read :: int
  wc_augmenting_searches :: int
  wc_augmenting_requirement_visits :: int
  wc_augmenting_edge_visits :: int
  wc_certificate_digest_input_bytes :: int
  wc_group_local_state_operations :: int
  wc_groups_touched :: int
  wc_claims_touched :: int
  wc_answers_touched :: int
  wc_claim_status_changes :: int
  wc_answer_status_changes :: int
  wc_output_bytes :: int

definition no_work :: work_counters where
  "no_work =
     \<lparr>wc_contribution_additions = 0,
      wc_contribution_removals = 0,
      wc_requirement_observation_changes_processed = 0,
      wc_policy_candidate_observations = 0,
      wc_ordered_policy_range_probes = 0,
      wc_ordered_index_operations = 0,
      wc_canonical_sort_items = 0,
      wc_edge_refcount_keys_updated = 0,
      wc_distinct_edge_crossings = 0,
      wc_hash_mask_transitions = 0,
      wc_hash_masks_initialized = 0,
      wc_hall_zeta_additions = 0,
      wc_hall_subset_entries_examined = 0,
      wc_hall_neighbor_entries_changed = 0,
      wc_hall_deficiency_entries_examined = 0,
      wc_certificate_repairs = 0,
      wc_certificate_reconstructions = 0,
      wc_policy_rebindings = 0,
      wc_representative_hashes_read = 0,
      wc_representative_observations_read = 0,
      wc_augmenting_searches = 0,
      wc_augmenting_requirement_visits = 0,
      wc_augmenting_edge_visits = 0,
      wc_certificate_digest_input_bytes = 0,
      wc_group_local_state_operations = 0,
      wc_groups_touched = 0,
      wc_claims_touched = 0,
      wc_answers_touched = 0,
      wc_claim_status_changes = 0,
      wc_answer_status_changes = 0,
      wc_output_bytes = 0\<rparr>"

text \<open>\<open>_named_values\<close>, in the order of the fields.\<close>

definition named_values :: "work_counters \<Rightarrow> (string \<times> int) list" where
  "named_values w =
     [(''contribution_additions'', wc_contribution_additions w),
      (''contribution_removals'', wc_contribution_removals w),
      (''requirement_observation_changes_processed'', wc_requirement_observation_changes_processed w),
      (''policy_candidate_observations'', wc_policy_candidate_observations w),
      (''ordered_policy_range_probes'', wc_ordered_policy_range_probes w),
      (''ordered_index_operations'', wc_ordered_index_operations w),
      (''canonical_sort_items'', wc_canonical_sort_items w),
      (''edge_refcount_keys_updated'', wc_edge_refcount_keys_updated w),
      (''distinct_edge_crossings'', wc_distinct_edge_crossings w),
      (''hash_mask_transitions'', wc_hash_mask_transitions w),
      (''hash_masks_initialized'', wc_hash_masks_initialized w),
      (''hall_zeta_additions'', wc_hall_zeta_additions w),
      (''hall_subset_entries_examined'', wc_hall_subset_entries_examined w),
      (''hall_neighbor_entries_changed'', wc_hall_neighbor_entries_changed w),
      (''hall_deficiency_entries_examined'', wc_hall_deficiency_entries_examined w),
      (''certificate_repairs'', wc_certificate_repairs w),
      (''certificate_reconstructions'', wc_certificate_reconstructions w),
      (''policy_rebindings'', wc_policy_rebindings w),
      (''representative_hashes_read'', wc_representative_hashes_read w),
      (''representative_observations_read'', wc_representative_observations_read w),
      (''augmenting_searches'', wc_augmenting_searches w),
      (''augmenting_requirement_visits'', wc_augmenting_requirement_visits w),
      (''augmenting_edge_visits'', wc_augmenting_edge_visits w),
      (''certificate_digest_input_bytes'', wc_certificate_digest_input_bytes w),
      (''group_local_state_operations'', wc_group_local_state_operations w),
      (''groups_touched'', wc_groups_touched w),
      (''claims_touched'', wc_claims_touched w),
      (''answers_touched'', wc_answers_touched w),
      (''claim_status_changes'', wc_claim_status_changes w),
      (''answer_status_changes'', wc_answer_status_changes w),
      (''output_bytes'', wc_output_bytes w)]"

definition work_add :: "work_counters \<Rightarrow> work_counters \<Rightarrow> work_counters" where
  "work_add a b =
     \<lparr>wc_contribution_additions = wc_contribution_additions a + wc_contribution_additions b,
      wc_contribution_removals = wc_contribution_removals a + wc_contribution_removals b,
      wc_requirement_observation_changes_processed = wc_requirement_observation_changes_processed a + wc_requirement_observation_changes_processed b,
      wc_policy_candidate_observations = wc_policy_candidate_observations a + wc_policy_candidate_observations b,
      wc_ordered_policy_range_probes = wc_ordered_policy_range_probes a + wc_ordered_policy_range_probes b,
      wc_ordered_index_operations = wc_ordered_index_operations a + wc_ordered_index_operations b,
      wc_canonical_sort_items = wc_canonical_sort_items a + wc_canonical_sort_items b,
      wc_edge_refcount_keys_updated = wc_edge_refcount_keys_updated a + wc_edge_refcount_keys_updated b,
      wc_distinct_edge_crossings = wc_distinct_edge_crossings a + wc_distinct_edge_crossings b,
      wc_hash_mask_transitions = wc_hash_mask_transitions a + wc_hash_mask_transitions b,
      wc_hash_masks_initialized = wc_hash_masks_initialized a + wc_hash_masks_initialized b,
      wc_hall_zeta_additions = wc_hall_zeta_additions a + wc_hall_zeta_additions b,
      wc_hall_subset_entries_examined = wc_hall_subset_entries_examined a + wc_hall_subset_entries_examined b,
      wc_hall_neighbor_entries_changed = wc_hall_neighbor_entries_changed a + wc_hall_neighbor_entries_changed b,
      wc_hall_deficiency_entries_examined = wc_hall_deficiency_entries_examined a + wc_hall_deficiency_entries_examined b,
      wc_certificate_repairs = wc_certificate_repairs a + wc_certificate_repairs b,
      wc_certificate_reconstructions = wc_certificate_reconstructions a + wc_certificate_reconstructions b,
      wc_policy_rebindings = wc_policy_rebindings a + wc_policy_rebindings b,
      wc_representative_hashes_read = wc_representative_hashes_read a + wc_representative_hashes_read b,
      wc_representative_observations_read = wc_representative_observations_read a + wc_representative_observations_read b,
      wc_augmenting_searches = wc_augmenting_searches a + wc_augmenting_searches b,
      wc_augmenting_requirement_visits = wc_augmenting_requirement_visits a + wc_augmenting_requirement_visits b,
      wc_augmenting_edge_visits = wc_augmenting_edge_visits a + wc_augmenting_edge_visits b,
      wc_certificate_digest_input_bytes = wc_certificate_digest_input_bytes a + wc_certificate_digest_input_bytes b,
      wc_group_local_state_operations = wc_group_local_state_operations a + wc_group_local_state_operations b,
      wc_groups_touched = wc_groups_touched a + wc_groups_touched b,
      wc_claims_touched = wc_claims_touched a + wc_claims_touched b,
      wc_answers_touched = wc_answers_touched a + wc_answers_touched b,
      wc_claim_status_changes = wc_claim_status_changes a + wc_claim_status_changes b,
      wc_answer_status_changes = wc_answer_status_changes a + wc_answer_status_changes b,
      wc_output_bytes = wc_output_bytes a + wc_output_bytes b\<rparr>"

definition work_sub :: "work_counters \<Rightarrow> work_counters \<Rightarrow> work_counters" where
  "work_sub a b =
     \<lparr>wc_contribution_additions = wc_contribution_additions a - wc_contribution_additions b,
      wc_contribution_removals = wc_contribution_removals a - wc_contribution_removals b,
      wc_requirement_observation_changes_processed = wc_requirement_observation_changes_processed a - wc_requirement_observation_changes_processed b,
      wc_policy_candidate_observations = wc_policy_candidate_observations a - wc_policy_candidate_observations b,
      wc_ordered_policy_range_probes = wc_ordered_policy_range_probes a - wc_ordered_policy_range_probes b,
      wc_ordered_index_operations = wc_ordered_index_operations a - wc_ordered_index_operations b,
      wc_canonical_sort_items = wc_canonical_sort_items a - wc_canonical_sort_items b,
      wc_edge_refcount_keys_updated = wc_edge_refcount_keys_updated a - wc_edge_refcount_keys_updated b,
      wc_distinct_edge_crossings = wc_distinct_edge_crossings a - wc_distinct_edge_crossings b,
      wc_hash_mask_transitions = wc_hash_mask_transitions a - wc_hash_mask_transitions b,
      wc_hash_masks_initialized = wc_hash_masks_initialized a - wc_hash_masks_initialized b,
      wc_hall_zeta_additions = wc_hall_zeta_additions a - wc_hall_zeta_additions b,
      wc_hall_subset_entries_examined = wc_hall_subset_entries_examined a - wc_hall_subset_entries_examined b,
      wc_hall_neighbor_entries_changed = wc_hall_neighbor_entries_changed a - wc_hall_neighbor_entries_changed b,
      wc_hall_deficiency_entries_examined = wc_hall_deficiency_entries_examined a - wc_hall_deficiency_entries_examined b,
      wc_certificate_repairs = wc_certificate_repairs a - wc_certificate_repairs b,
      wc_certificate_reconstructions = wc_certificate_reconstructions a - wc_certificate_reconstructions b,
      wc_policy_rebindings = wc_policy_rebindings a - wc_policy_rebindings b,
      wc_representative_hashes_read = wc_representative_hashes_read a - wc_representative_hashes_read b,
      wc_representative_observations_read = wc_representative_observations_read a - wc_representative_observations_read b,
      wc_augmenting_searches = wc_augmenting_searches a - wc_augmenting_searches b,
      wc_augmenting_requirement_visits = wc_augmenting_requirement_visits a - wc_augmenting_requirement_visits b,
      wc_augmenting_edge_visits = wc_augmenting_edge_visits a - wc_augmenting_edge_visits b,
      wc_certificate_digest_input_bytes = wc_certificate_digest_input_bytes a - wc_certificate_digest_input_bytes b,
      wc_group_local_state_operations = wc_group_local_state_operations a - wc_group_local_state_operations b,
      wc_groups_touched = wc_groups_touched a - wc_groups_touched b,
      wc_claims_touched = wc_claims_touched a - wc_claims_touched b,
      wc_answers_touched = wc_answers_touched a - wc_answers_touched b,
      wc_claim_status_changes = wc_claim_status_changes a - wc_claim_status_changes b,
      wc_answer_status_changes = wc_answer_status_changes a - wc_answer_status_changes b,
      wc_output_bytes = wc_output_bytes a - wc_output_bytes b\<rparr>"

definition work_neg :: "work_counters \<Rightarrow> work_counters" where
  "work_neg a = work_sub no_work a"

definition assert_nonnegative :: "work_counters \<Rightarrow> unit res" where
  "assert_nonnegative w =
     (if filter (\<lambda>(name, value). value < 0) (named_values w) \<noteq> [] then Inl ValidationError else Inr ())"

definition policy_range_probe_work :: "int \<Rightarrow> int \<Rightarrow> work_counters res" where
  "policy_range_probe_work changed_threshold_dimensions candidate_observations =
     bind_res (require_integer changed_threshold_dimensions (Some 0) (Some 2)) (\<lambda>_.
     bind_res (require_integer candidate_observations (Some 0) None) (\<lambda>_.
       Inr (no_work\<lparr>wc_policy_candidate_observations := candidate_observations,
                    wc_ordered_policy_range_probes := changed_threshold_dimensions,
                    wc_ordered_index_operations := changed_threshold_dimensions\<rparr>)))"

definition requirement_observation_work :: "int \<Rightarrow> int \<Rightarrow> work_counters res" where
  "requirement_observation_work changes_processed ordered_index_operations =
     bind_res (require_integer changes_processed (Some 0) None) (\<lambda>_.
     bind_res (require_integer ordered_index_operations (Some 0) None) (\<lambda>_.
       Inr (no_work\<lparr>wc_requirement_observation_changes_processed := changes_processed,
                    wc_ordered_index_operations := ordered_index_operations\<rparr>)))"

definition touched_state_work ::
    "int \<Rightarrow> int \<Rightarrow> int \<Rightarrow> int \<Rightarrow> int \<Rightarrow> int \<Rightarrow> work_counters res" where
  "touched_state_work groups claims answers claim_changes answer_changes bytes =
     bind_res (fold_res (\<lambda>v _. require_integer v (Some 0) None)
         [groups, claims, answers, claim_changes, answer_changes, bytes] ()) (\<lambda>_.
       Inr (no_work\<lparr>wc_groups_touched := groups, wc_claims_touched := claims,
                    wc_answers_touched := answers, wc_claim_status_changes := claim_changes,
                    wc_answer_status_changes := answer_changes, wc_output_bytes := bytes\<rparr>))"

text \<open>Counters form a group under addition.\<close>

lemma named_values_eq: "map snd (named_values a) = map snd (named_values b) \<Longrightarrow> a = (b :: work_counters)"
  by (simp add: named_values_def)

lemma named_values_ops:
  "map snd (named_values (work_add a b)) = map2 (+) (map snd (named_values a)) (map snd (named_values b))"
  "map snd (named_values (work_sub a b)) = map2 (-) (map snd (named_values a)) (map snd (named_values b))"
  "map snd (named_values no_work) = replicate 31 0"
  by (simp_all add: named_values_def work_add_def work_sub_def no_work_def numeral_eq_Suc)

lemma work_add_no_work [simp]: "work_add a no_work = a" "work_add no_work a = a"
  by (simp_all add: work_add_def no_work_def)

lemma work_add_commute: "work_add a b = work_add b a"
  by (simp add: work_add_def add.commute)

lemma work_add_assoc: "work_add (work_add a b) c = work_add a (work_add b c)"
  by (simp add: work_add_def add.assoc)

lemma work_sub_add [simp]: "work_sub (work_add a b) b = a" "work_add a (work_neg a) = no_work"
  by (simp_all add: work_sub_def work_add_def work_neg_def no_work_def)

definition work_nonneg :: "work_counters \<Rightarrow> bool" where
  "work_nonneg w \<longleftrightarrow> list_all (\<lambda>v. 0 \<le> v) (map snd (named_values w))"

lemma assert_nonnegative_Inr [simp]: "assert_nonnegative w = Inr () \<longleftrightarrow> work_nonneg w"
  by (force simp: assert_nonnegative_def work_nonneg_def filter_empty_conv list_all_iff)

lemma assert_nonnegative_pass [simp]: "work_nonneg w \<Longrightarrow> assert_nonnegative w = Inr ()"
  by simp

lemma work_nonneg_no_work [simp]: "work_nonneg no_work"
  by (simp add: work_nonneg_def named_values_ops list_all_iff)

lemma work_nonneg_add: "work_nonneg a \<Longrightarrow> work_nonneg b \<Longrightarrow> work_nonneg (work_add a b)"
  by (simp add: work_nonneg_def named_values_def work_add_def)

end
