(* ===== verification/GL_Hall.thy ===== *)
theory GL_Hall
  imports GL_Counters
begin

text \<open>
  The Hall kernel of \<open>groundloop/m5/matching.py\<close>.  A group has at most eight requirements; every
  distinct text hash carries the mask of the requirements it witnesses.  The kernel counts, for
  each set of requirements, the hashes adjacent to it, and keeps the Hall deficiencies.  A mask is
  a bit set coded as a natural number.
\<close>

unbundle bit_operations_syntax

section \<open>Bit sets\<close>

text \<open>\<open>int.bit_count\<close>.\<close>

fun bit_count :: "nat \<Rightarrow> nat" where
  "bit_count n = (if n = 0 then 0 else n mod 2 + bit_count (n div 2))"

declare bit_count.simps [simp del]

definition bits :: "nat \<Rightarrow> nat set" where
  "bits m = {i. bit m i}"

lemma bits_0 [simp]: "bits 0 = {}"
  by (simp add: bits_def)

lemma bits_iff [simp]: "i \<in> bits m \<longleftrightarrow> bit m i"
  by (simp add: bits_def)

lemma bit_bound: "(m::nat) < 2 ^ r \<Longrightarrow> bit m i \<Longrightarrow> i < r"
  by (metis bit_take_bit_iff take_bit_nat_eq_self)

lemma bits_subset: "m < 2 ^ r \<Longrightarrow> bits m \<subseteq> {..<r}"
  using bit_bound by auto

lemma finite_bits [simp]: "finite (bits m)"
  using bits_subset [of m m] less_exp [of m] finite_subset by blast

lemma bits_inject [simp]: "bits m = bits n \<longleftrightarrow> m = n"
  by (auto simp: bits_def set_eq_iff intro: bit_eqI)

lemma bits_eq_empty [simp]: "bits m = {} \<longleftrightarrow> m = 0"
  using bits_inject [of m 0] by simp

lemma bits_and: "bits (m AND n) = bits m \<inter> bits n"
  by (auto simp: bit_simps)

lemma bits_xor: "bits (m XOR n) = (bits m - bits n) \<union> (bits n - bits m)"
  by (auto simp: bit_simps)

lemma bits_exp [simp]: "bits (2 ^ b) = {b}"
  by (auto simp: bit_simps)

lemma and_exp_eq_0: "m AND 2 ^ b = 0 \<longleftrightarrow> \<not> bit (m::nat) b"
  by (simp add: bits_and flip: bits_eq_empty)

lemma bits_full: "bits (2 ^ r - 1) = {..<r}"
  unfolding bits_def mask_eq_exp_minus_1 [symmetric] by (auto simp: bit_mask_iff)

lemma bits_image: "bits ` {..<2 ^ r} = Pow {..<r}"
proof
  show "Pow {..<r} \<subseteq> bits ` {..<2 ^ r}"
  proof
    fix S assume "S \<in> Pow {..<r}"
    then have S: "S \<subseteq> {..<r}" by simp
    let ?m = "horner_sum of_bool 2 (map (\<lambda>i. i \<in> S) [0..<r]) :: nat"
    have "bits ?m = S" using S by (auto simp: bits_def bit_horner_sum_bit_iff)
    moreover have "?m < 2 ^ r"
      using horner_sum_of_bool_2_less [of "map (\<lambda>i. i \<in> S) [0..<r]"] by simp
    ultimately show "S \<in> bits ` {..<2 ^ r}" by blast
  qed
qed (use bits_subset in auto)

lemma bits_div_2: "bits m = (if odd m then {0} else {}) \<union> Suc ` bits (m div 2)"
proof (intro set_eqI)
  fix i show "i \<in> bits m \<longleftrightarrow> i \<in> (if odd m then {0} else {}) \<union> Suc ` bits (m div 2)"
    by (cases i) (auto simp: bit_0 bit_Suc)
qed

lemma bit_count: "bit_count m = card (bits m)"
proof (induction m rule: bit_count.induct)
  case (1 m)
  show ?case
  proof (cases "m = 0")
    case False
    have "card (bits m) = (if odd m then 1 else 0) + card (bits (m div 2))"
      by (subst bits_div_2) (auto simp: card_insert_if card_image)
    then show ?thesis using False 1 by (subst bit_count.simps) (auto simp: odd_iff_mod_2_eq_one even_iff_mod_2_eq_zero)
  qed (simp add: bit_count.simps)
qed

section \<open>Hall states\<close>

record hall_mask_state =
  hs_requirement_count :: nat
  hs_mask_histogram :: "int list"
  hs_neighbor_counts :: "int list"
  hs_deficiencies :: "int list"
  hs_maximum_deficiency :: int
  hs_matching_size :: int
  hs_distinct_hash_count :: int

text \<open>\<open>max(0, max(deficiencies[1:]))\<close>.\<close>

definition max_deficiency :: "int list \<Rightarrow> int" where
  "max_deficiency d = fold max (drop 1 d) 0"

text \<open>The constructor with its \<open>__post_init__\<close>.\<close>

definition make_hall_state ::
    "nat \<Rightarrow> int list \<Rightarrow> int list \<Rightarrow> int list \<Rightarrow> int \<Rightarrow> int \<Rightarrow> int \<Rightarrow> hall_mask_state res" where
  "make_hall_state r h n d maximum matching distinct_hashes =
     bind_res (require_requirement_count (int r)) (\<lambda>_.
       let sz = 2 ^ r in
       if length h \<noteq> sz \<or> length n \<noteq> sz \<or> length d \<noteq> sz then Inl ValidationError
       else if h ! 0 \<noteq> 0 then Inl ValidationError
       else if n ! 0 \<noteq> 0 \<or> d ! 0 \<noteq> 0 then Inl ValidationError
       else if list_ex (\<lambda>v. v < 0) h then Inl ValidationError
       else if list_ex (\<lambda>v. v < 0) n then Inl ValidationError
       else if list_ex (\<lambda>s. d ! s \<noteq> int (bit_count s) - n ! s) [1..<sz] then Inl ValidationError
       else if maximum \<noteq> max_deficiency d then Inl ValidationError
       else if matching \<noteq> int r - max_deficiency d then Inl ValidationError
       else if distinct_hashes \<noteq> sum_list h then Inl ValidationError
       else Inr \<lparr>hs_requirement_count = r, hs_mask_histogram = h, hs_neighbor_counts = n,
                 hs_deficiencies = d, hs_maximum_deficiency = maximum, hs_matching_size = matching,
                 hs_distinct_hash_count = distinct_hashes\<rparr>)"

definition hall_complete :: "hall_mask_state \<Rightarrow> bool" where
  "hall_complete st \<longleftrightarrow> hs_maximum_deficiency st = 0"

section \<open>Initialization\<close>

text \<open>The masks of a mapping, checked in input order.\<close>

fun check_hash_masks :: "int \<Rightarrow> string set \<Rightarrow> (string \<times> int) list \<Rightarrow> (string \<times> nat) list res" where
  "check_hash_masks full seen [] = Inr []"
| "check_hash_masks full seen ((h, m) # items) =
     bind_res (require_text h) (\<lambda>_.
     bind_res (require_integer m (Some 1) (Some full)) (\<lambda>_.
       if h \<in> seen then Inl ValidationError
       else bind_res (check_hash_masks full (insert h seen) items) (\<lambda>rest. Inr ((h, nat m) # rest))))"

definition validated_hash_masks :: "int \<Rightarrow> (string \<times> int) list \<Rightarrow> (string \<times> nat) list res" where
  "validated_hash_masks requirement_count items =
     bind_res (require_requirement_count requirement_count) (\<lambda>_.
       check_hash_masks (push_bit (nat requirement_count) 1 - 1) {} items)"

definition histogram_step :: "nat \<Rightarrow> int \<Rightarrow> int list \<Rightarrow> int list res" where
  "histogram_step sz m h =
     bind_res (require_integer m (Some 1) (Some (int sz - 1))) (\<lambda>_.
       Inr (h[nat m := h ! nat m + 1]))"

definition histogram_from_masks :: "nat \<Rightarrow> int list \<Rightarrow> int list res" where
  "histogram_from_masks r masks = fold_res (histogram_step (2 ^ r)) masks (replicate (2 ^ r) 0)"

text \<open>The subset-sum transform: one pass per bit over all masks, in place, counting additions.\<close>

definition zeta_step :: "nat \<Rightarrow> nat \<Rightarrow> int list \<times> int \<Rightarrow> int list \<times> int" where
  "zeta_step b m sn =
     (if m AND 2 ^ b \<noteq> 0 then ((fst sn)[m := fst sn ! m + fst sn ! (m XOR 2 ^ b)], snd sn + 1) else sn)"

definition zeta_pass :: "nat \<Rightarrow> nat \<Rightarrow> int list \<times> int \<Rightarrow> int list \<times> int" where
  "zeta_pass sz b sn = fold (zeta_step b) [0..<sz] sn"

definition zeta :: "nat \<Rightarrow> int list \<Rightarrow> int list \<times> int" where
  "zeta r h = fold (zeta_pass (2 ^ r)) [0..<r] (h, 0)"

definition state_from_histogram_via_zeta :: "nat \<Rightarrow> int list \<Rightarrow> (hall_mask_state \<times> int) res" where
  "state_from_histogram_via_zeta r h =
     (let sz = 2 ^ r;
          (subset_sums, zeta_additions) = zeta r h;
          distinct_hashes = sum_list h;
          full = sz - 1;
          n = map (\<lambda>s. if s = 0 then 0 else distinct_hashes - subset_sums ! (full XOR s)) [0..<sz];
          d = map (\<lambda>s. if s = 0 then 0 else int (bit_count s) - n ! s) [0..<sz];
          maximum = max_deficiency d in
      bind_res (make_hall_state r h n d maximum (int r - maximum) distinct_hashes) (\<lambda>st.
        Inr (st, zeta_additions)))"

text \<open>\<open>initialize_hall_mask_state\<close> for an iterable of masks, and for a mapping.\<close>

definition initialize_hall_mask_state ::
    "int \<Rightarrow> int list \<Rightarrow> (hall_mask_state \<times> work_counters) res" where
  "initialize_hall_mask_state requirement_count masks =
     bind_res (require_requirement_count requirement_count) (\<lambda>_.
     let r = nat requirement_count in
     bind_res (histogram_from_masks r masks) (\<lambda>h.
     bind_res (state_from_histogram_via_zeta r h) (\<lambda>(st, zeta_additions).
       let subset_count = int (2 ^ r) - 1 in
       Inr (st, no_work\<lparr>wc_hash_masks_initialized := int (length masks),
                        wc_hall_zeta_additions := zeta_additions,
                        wc_hall_subset_entries_examined := subset_count,
                        wc_hall_deficiency_entries_examined := subset_count\<rparr>))))"

definition initialize_hall_from_mapping ::
    "int \<Rightarrow> (string \<times> int) list \<Rightarrow> (hall_mask_state \<times> work_counters) res" where
  "initialize_hall_from_mapping requirement_count items =
     bind_res (validated_hash_masks requirement_count items) (\<lambda>validated.
       initialize_hall_mask_state requirement_count (map (int \<circ> snd) validated))"

definition validate_hall_mask_state :: "hall_mask_state \<Rightarrow> string list res" where
  "validate_hall_mask_state st =
     bind_res (state_from_histogram_via_zeta (hs_requirement_count st) (hs_mask_histogram st))
       (\<lambda>(expected, _).
         Inr ((if hs_neighbor_counts st \<noteq> hs_neighbor_counts expected
               then [''neighbor_counts_do_not_match_histogram''] else []) @
              (if hs_deficiencies st \<noteq> hs_deficiencies expected
               then [''deficiencies_do_not_match_histogram''] else []) @
              (if hs_maximum_deficiency st \<noteq> hs_maximum_deficiency expected
               then [''maximum_deficiency_does_not_match_histogram''] else []) @
              (if hs_matching_size st \<noteq> hs_matching_size expected
               then [''matching_size_does_not_match_histogram''] else []) @
              (if hs_distinct_hash_count st \<noteq> hs_distinct_hash_count expected
               then [''distinct_hash_count_does_not_match_histogram''] else [])))"

section \<open>Transitions\<close>

text \<open>The loop body over the subsets: neighbour counts, deficiencies and changed entries.\<close>

definition adjust_subset ::
    "nat \<Rightarrow> nat \<Rightarrow> nat \<Rightarrow> int list \<times> int list \<times> int \<Rightarrow> int list \<times> int list \<times> int" where
  "adjust_subset old_mask new_mask s ndc =
     (let (n, d, changed) = ndc;
          old_adjacent = (old_mask \<noteq> 0 \<and> s AND old_mask \<noteq> 0);
          new_adjacent = (new_mask \<noteq> 0 \<and> s AND new_mask \<noteq> 0) in
      if old_adjacent = new_adjacent then (n, d, changed)
      else
        let n' = n[s := n ! s + (if new_adjacent then 1 else -1)] in
        (n', d[s := int (bit_count s) - n' ! s], changed + 1))"

definition move_hash :: "nat \<Rightarrow> nat \<Rightarrow> int list \<Rightarrow> int list" where
  "move_hash old_mask new_mask h =
     (let h1 = (if old_mask \<noteq> 0 then h[old_mask := h ! old_mask - 1] else h) in
      if new_mask \<noteq> 0 then h1[new_mask := h1 ! new_mask + 1] else h1)"

definition apply_hash_mask_transition ::
    "hall_mask_state \<Rightarrow> int \<Rightarrow> int \<Rightarrow> (hall_mask_state \<times> work_counters) res" where
  "apply_hash_mask_transition st old new =
     (let r = hs_requirement_count st; full = 2 ^ r - 1 in
      bind_res (require_integer old (Some 0) (Some (int full))) (\<lambda>_.
      bind_res (require_integer new (Some 0) (Some (int full))) (\<lambda>_.
        let old_mask = nat old; new_mask = nat new in
        if old_mask = new_mask then Inr (st, no_work)
        else if old_mask \<noteq> 0 \<and> hs_mask_histogram st ! old_mask \<le> 0 then Inl ValidationError
        else
          let h = move_hash old_mask new_mask (hs_mask_histogram st);
              (n, d, changed) = fold (adjust_subset old_mask new_mask) [1..<full + 1]
                (hs_neighbor_counts st, hs_deficiencies st, 0);
              maximum = max_deficiency d in
          bind_res (make_hall_state r h n d maximum (int r - maximum) (sum_list h)) (\<lambda>st'.
            Inr (st', no_work\<lparr>wc_distinct_edge_crossings := int (bit_count (old_mask XOR new_mask)),
                              wc_hash_mask_transitions := 1,
                              wc_hall_subset_entries_examined := int full,
                              wc_hall_neighbor_entries_changed := changed,
                              wc_hall_deficiency_entries_examined := int full\<rparr>)))))"

record hash_mask_transition =
  ht_text_hash :: string
  ht_old_mask :: int
  ht_new_mask :: int

definition make_hash_mask_transition :: "string \<Rightarrow> int \<Rightarrow> int \<Rightarrow> hash_mask_transition res" where
  "make_hash_mask_transition text_hash old new =
     bind_res (require_text text_hash) (\<lambda>_.
     bind_res (require_integer old (Some 0) None) (\<lambda>_.
     bind_res (require_integer new (Some 0) None) (\<lambda>_.
       Inr \<lparr>ht_text_hash = text_hash, ht_old_mask = old, ht_new_mask = new\<rparr>)))"

text \<open>The loop state of a batch: hashes seen, current Hall state, work, and whether a mask moved.\<close>

record batch =
  bt_seen :: "string set"
  bt_current :: hall_mask_state
  bt_work :: work_counters
  bt_changed :: bool

definition batch_step :: "int \<Rightarrow> hash_mask_transition \<Rightarrow> batch \<Rightarrow> batch res" where
  "batch_step full t bt =
     (if ht_text_hash t \<in> bt_seen bt then Inl ValidationError
      else
        bind_res (require_integer (ht_old_mask t) (Some 0) (Some full)) (\<lambda>_.
        bind_res (require_integer (ht_new_mask t) (Some 0) (Some full)) (\<lambda>_.
        bind_res (apply_hash_mask_transition (bt_current bt) (ht_old_mask t) (ht_new_mask t))
          (\<lambda>(st, work).
            Inr \<lparr>bt_seen = insert (ht_text_hash t) (bt_seen bt), bt_current = st,
                 bt_work = work_add (bt_work bt) work,
                 bt_changed = (bt_changed bt \<or> ht_old_mask t \<noteq> ht_new_mask t)\<rparr>))))"

definition apply_hash_mask_transitions ::
    "hall_mask_state \<Rightarrow> hash_mask_transition list \<Rightarrow> (hall_mask_state \<times> work_counters) res" where
  "apply_hash_mask_transitions st transitions =
     bind_res (fold_res (batch_step (push_bit (hs_requirement_count st) 1 - 1)) transitions
         \<lparr>bt_seen = {}, bt_current = st, bt_work = no_work, bt_changed = False\<rparr>) (\<lambda>bt.
       let work = (if bt_changed bt
                   then work_add (bt_work bt) (no_work\<lparr>wc_group_local_state_operations := 1\<rparr>)
                   else bt_work bt) in
       bind_res (assert_nonnegative work) (\<lambda>_. Inr (bt_current bt, work)))"

end
