(* ===== verification/GL_HallProofs.thy ===== *)
theory GL_HallProofs
  imports GL_Hall
begin

text \<open>
  The Hall kernel is exact: the subset-sum transform counts, for every set of requirements, the
  hashes adjacent to it, and every transition keeps the arrays equal to the ones that a fresh
  initialization would compute.
\<close>

section \<open>The subset-sum transform\<close>

lemma xor_exp_less: "(m::nat) < 2 ^ r \<Longrightarrow> b < r \<Longrightarrow> m XOR 2 ^ b < 2 ^ r"
  by (metis power_strict_increasing one_less_numeral_iff semiring_norm(76) take_bit_nat_eq_self
      take_bit_nat_eq_self_iff take_bit_xor)

lemma zeta_prefix:
  assumes "length s = 2 ^ r" and "b < r" and "k \<le> 2 ^ r"
  shows "length (fst (fold (zeta_step b) [0..<k] (s, n))) = 2 ^ r"
    and "m < 2 ^ r \<Longrightarrow> fst (fold (zeta_step b) [0..<k] (s, n)) ! m =
       (if m < k \<and> bit m b then s ! m + s ! (m XOR 2 ^ b) else s ! m)"
    and "snd (fold (zeta_step b) [0..<k] (s, n)) = n + int (card {m \<in> {..<k}. bit m b})"
proof -
  have "length (fst (fold (zeta_step b) [0..<k] (s, n))) = 2 ^ r \<and>
     (\<forall>m < 2 ^ r. fst (fold (zeta_step b) [0..<k] (s, n)) ! m =
       (if m < k \<and> bit m b then s ! m + s ! (m XOR 2 ^ b) else s ! m)) \<and>
     snd (fold (zeta_step b) [0..<k] (s, n)) = n + int (card {m \<in> {..<k}. bit m b})"
    using assms(3)
  proof (induction k)
    case 0
    then show ?case using assms(1) by simp
  next
    case (Suc k)
    let ?c = "fold (zeta_step b) [0..<k] (s, n)"
    have IH: "length (fst ?c) = 2 ^ r"
      "\<And>m. m < 2 ^ r \<Longrightarrow> fst ?c ! m = (if m < k \<and> bit m b then s ! m + s ! (m XOR 2 ^ b) else s ! m)"
      "snd ?c = n + int (card {m \<in> {..<k}. bit m b})"
      using Suc by auto
    have k: "k < 2 ^ r" "k XOR 2 ^ b < 2 ^ r" using Suc.prems xor_exp_less [of k r b] assms(2) by auto
    have step: "fold (zeta_step b) [0..<Suc k] (s, n) = zeta_step b k ?c" by simp
    define c where "c = ?c"
    note IH = IH [folded c_def] and step = step [folded c_def]
    show ?case
    proof (cases "bit k b")
      case True
      then have "\<not> bit (k XOR 2 ^ b) b" by (simp add: bit_simps)
      then have read: "fst c ! k = s ! k" "fst c ! (k XOR 2 ^ b) = s ! (k XOR 2 ^ b)"
        using IH(2) k by simp_all
      have "{m \<in> {..<Suc k}. bit m b} = insert k {m \<in> {..<k}. bit m b}" using True by auto
      then have card: "card {m \<in> {..<Suc k}. bit m b} = Suc (card {m \<in> {..<k}. bit m b})" by simp
      have "zeta_step b k c = ((fst c)[k := s ! k + s ! (k XOR 2 ^ b)], snd c + 1)"
        using True read by (simp add: zeta_step_def and_exp_eq_0)
      then show ?thesis
        unfolding step card using IH k True by (simp add: nth_list_update less_Suc_eq)
    next
      case False
      then have card: "{m \<in> {..<Suc k}. bit m b} = {m \<in> {..<k}. bit m b}"
        using less_Suc_eq by auto
      have "zeta_step b k c = c" using False by (simp add: zeta_step_def and_exp_eq_0)
      moreover have "(m < Suc k \<and> bit m b) = (m < k \<and> bit m b)" for m
        using False less_Suc_eq by auto
      ultimately show ?thesis unfolding step card using IH by simp
    qed
  qed
  then show "length (fst (fold (zeta_step b) [0..<k] (s, n))) = 2 ^ r"
    and "m < 2 ^ r \<Longrightarrow> fst (fold (zeta_step b) [0..<k] (s, n)) ! m =
       (if m < k \<and> bit m b then s ! m + s ! (m XOR 2 ^ b) else s ! m)"
    and "snd (fold (zeta_step b) [0..<k] (s, n)) = n + int (card {m \<in> {..<k}. bit m b})"
    by blast+
qed

lemma card_masks_with_bit:
  assumes "b < r" shows "card {m :: nat. m \<in> {..<2 ^ r} \<and> bit m b} = 2 ^ (r - 1)"
proof -
  have "bits ` {m \<in> {..<2 ^ r}. b \<in> bits m} = {S \<in> bits ` {..<2 ^ r}. b \<in> S}" by auto
  then have img: "bits ` {m \<in> {..<2 ^ r}. bit m b} = {S \<in> Pow {..<r}. b \<in> S}"
    by (simp add: bits_image)
  have "{S \<in> Pow {..<r}. b \<in> S} = insert b ` Pow ({..<r} - {b})"
  proof (intro set_eqI iffI)
    fix S assume "S \<in> {S \<in> Pow {..<r}. b \<in> S}"
    then have "S = insert b (S - {b})" "S - {b} \<in> Pow ({..<r} - {b})" by auto
    then show "S \<in> insert b ` Pow ({..<r} - {b})" by (rule image_eqI)
  qed (use assms in auto)
  moreover have "inj_on (insert b) (Pow ({..<r} - {b}))" by (rule inj_onI) auto
  ultimately have "card {S \<in> Pow {..<r}. b \<in> S} = 2 ^ (r - 1)"
    using assms by (simp add: card_image card_Pow)
  moreover have "card (bits ` {m \<in> {..<2 ^ r}. bit m b}) = card {m :: nat. m \<in> {..<2 ^ r} \<and> bit m b}"
    by (rule card_image, rule inj_onI) simp
  ultimately show ?thesis by (simp only: img)
qed

text \<open>The masks whose counts the first \<open>k\<close> passes have gathered at \<open>m\<close>.\<close>

definition low_masks :: "nat \<Rightarrow> nat \<Rightarrow> nat \<Rightarrow> nat set" where
  "low_masks r k m = {x. x < 2 ^ r \<and> bits x \<subseteq> bits m \<and> (\<forall>i \<ge> k. bit x i = bit m i)}"

lemma low_masks_0: "m < 2 ^ r \<Longrightarrow> low_masks r 0 m = {m}"
  by (auto simp: low_masks_def intro: bit_eqI)

lemma low_masks_Suc:
  assumes "k < r" and "m < 2 ^ r"
  shows "low_masks r (Suc k) m =
     (if bit m k then low_masks r k m \<union> low_masks r k (m XOR 2 ^ k) else low_masks r k m)"
proof (cases "bit m k")
  case True
  have "x \<in> low_masks r (Suc k) m \<longleftrightarrow> x \<in> low_masks r k m \<or> x \<in> low_masks r k (m XOR 2 ^ k)" for x
  proof (cases "bit x k")
    case True': True
    have "x \<notin> low_masks r k (m XOR 2 ^ k)"
      using True' True by (auto simp: low_masks_def bit_simps)
    moreover have "x \<in> low_masks r (Suc k) m \<longleftrightarrow> x \<in> low_masks r k m"
      using True' True by (auto simp: low_masks_def Suc_le_eq) (metis le_neq_implies_less)
    ultimately show ?thesis by simp
  next
    case False
    have "x \<notin> low_masks r k m" using False True by (auto simp: low_masks_def)
    moreover have "x \<in> low_masks r (Suc k) m \<longleftrightarrow> x \<in> low_masks r k (m XOR 2 ^ k)"
      using False True
      by (auto simp: low_masks_def subset_iff bit_simps Suc_le_eq)
    ultimately show ?thesis by simp
  qed
  then show ?thesis using True by auto
next
  case False
  have "x \<in> low_masks r (Suc k) m \<longleftrightarrow> x \<in> low_masks r k m" for x
    using False
    by (auto simp: low_masks_def subset_iff Suc_le_eq) (metis le_neq_implies_less)
  then show ?thesis using False by auto
qed

lemma zeta_passes:
  assumes "length h = 2 ^ r" and "k \<le> r"
  shows "length (fst (fold (zeta_pass (2 ^ r)) [0..<k] (h, 0))) = 2 ^ r \<and>
     (\<forall>m < 2 ^ r. fst (fold (zeta_pass (2 ^ r)) [0..<k] (h, 0)) ! m = (\<Sum>x \<in> low_masks r k m. h ! x)) \<and>
     snd (fold (zeta_pass (2 ^ r)) [0..<k] (h, 0)) = int (k * 2 ^ (r - 1))"
  using assms(2)
proof (induction k)
  case 0
  then show ?case using assms(1) by (simp add: low_masks_0)
next
  case (Suc k)
  then have k: "k < r" by simp
  obtain s n where c: "fold (zeta_pass (2 ^ r)) [0..<k] (h, 0) = (s, n)" by fastforce
  have len: "length s = 2 ^ r" and s: "m < 2 ^ r \<Longrightarrow> s ! m = (\<Sum>x \<in> low_masks r k m. h ! x)"
    and n: "n = int (k * 2 ^ (r - 1))" for m
    using Suc c by auto
  have step: "fold (zeta_pass (2 ^ r)) [0..<Suc k] (h, 0) = fold (zeta_step k) [0..<2 ^ r] (s, n)"
    using c by (simp add: zeta_pass_def)
  note pass = zeta_prefix [OF len k order_refl, where n = n]
  have "fst (fold (zeta_step k) [0..<2 ^ r] (s, n)) ! m = (\<Sum>x \<in> low_masks r (Suc k) m. h ! x)"
    if m: "m < 2 ^ r" for m
  proof (cases "bit m k")
    case True
    have "finite (low_masks r k y)" for y by (simp add: low_masks_def)
    moreover have "low_masks r k m \<inter> low_masks r k (m XOR 2 ^ k) = {}"
      using True by (auto simp: low_masks_def bit_simps)
    ultimately have "(\<Sum>x \<in> low_masks r (Suc k) m. h ! x) =
        (\<Sum>x \<in> low_masks r k m. h ! x) + (\<Sum>x \<in> low_masks r k (m XOR 2 ^ k). h ! x)"
      using True by (simp add: low_masks_Suc [OF k m] sum.union_disjoint)
    then show ?thesis using pass(2) [OF m] s m xor_exp_less [OF m k] True by simp
  next
    case False
    then show ?thesis using pass(2) [OF m] s [OF m] by (simp add: low_masks_Suc [OF k m])
  qed
  moreover have "snd (fold (zeta_step k) [0..<2 ^ r] (s, n)) = int (Suc k * 2 ^ (r - 1))"
    using pass(3) card_masks_with_bit [OF k] n by simp
  ultimately show ?case unfolding step using pass(1) by simp
qed

lemma zeta_ok:
  assumes "length h = 2 ^ r"
  shows "m < 2 ^ r \<Longrightarrow> fst (zeta r h) ! m = (\<Sum>x | x < 2 ^ r \<and> bits x \<subseteq> bits m. h ! x)"
    and "snd (zeta r h) = int (r * 2 ^ (r - 1))"
proof -
  note all = zeta_passes [OF assms order_refl]
  show "fst (zeta r h) ! m = (\<Sum>x | x < 2 ^ r \<and> bits x \<subseteq> bits m. h ! x)" if m: "m < 2 ^ r"
  proof -
    have "low_masks r r m = {x. x < 2 ^ r \<and> bits x \<subseteq> bits m}"
      using bit_bound m by (auto simp: low_masks_def) (meson leD)+
    then show ?thesis using all m by (simp add: zeta_def)
  qed
  show "snd (zeta r h) = int (r * 2 ^ (r - 1))" using all by (simp add: zeta_def)
qed

section \<open>The exact Hall state of a histogram\<close>

text \<open>The number of hashes adjacent to a set of requirements, and the state built from it.\<close>

definition adjacent_count :: "int list \<Rightarrow> nat \<Rightarrow> int" where
  "adjacent_count h s = (\<Sum>x | x < length h \<and> x AND s \<noteq> 0. h ! x)"

definition deficiency_list :: "nat \<Rightarrow> int list \<Rightarrow> int list" where
  "deficiency_list r h = map (\<lambda>s. int (bit_count s) - adjacent_count h s) [0..<2 ^ r]"

definition hall_of :: "nat \<Rightarrow> int list \<Rightarrow> hall_mask_state" where
  "hall_of r h =
     \<lparr>hs_requirement_count = r, hs_mask_histogram = h,
      hs_neighbor_counts = map (adjacent_count h) [0..<2 ^ r],
      hs_deficiencies = deficiency_list r h,
      hs_maximum_deficiency = max_deficiency (deficiency_list r h),
      hs_matching_size = int r - max_deficiency (deficiency_list r h),
      hs_distinct_hash_count = sum_list h\<rparr>"

definition histogram_ok :: "nat \<Rightarrow> int list \<Rightarrow> bool" where
  "histogram_ok r h \<longleftrightarrow> 1 \<le> r \<and> r \<le> 8 \<and> length h = 2 ^ r \<and> h ! 0 = 0 \<and> (\<forall>v \<in> set h. 0 \<le> v)"

lemma adjacent_count_0 [simp]: "adjacent_count h 0 = 0"
  by (simp add: adjacent_count_def)

lemma bit_count_0 [simp]: "bit_count 0 = 0"
  by (simp add: bit_count)

lemma adjacent_count_nonneg: "\<forall>v \<in> set h. 0 \<le> v \<Longrightarrow> 0 \<le> adjacent_count h s"
  unfolding adjacent_count_def by (rule sum_nonneg) simp

lemma make_hall_state_exact:
  assumes "histogram_ok r h"
  shows "make_hall_state r h (map (adjacent_count h) [0..<2 ^ r]) (deficiency_list r h)
     (max_deficiency (deficiency_list r h)) (int r - max_deficiency (deficiency_list r h)) (sum_list h) =
     Inr (hall_of r h)"
proof -
  let ?n = "map (adjacent_count h) [0..<2 ^ r]" and ?d = "deficiency_list r h"
  have r: "require_requirement_count (int r) = Inr ()" and len: "length h = 2 ^ r"
    and zero: "h ! 0 = 0" and nonneg: "\<forall>v \<in> set h. 0 \<le> v"
    using assms by (auto simp: histogram_ok_def)
  have lens: "length ?n = 2 ^ r" "length ?d = 2 ^ r" by (simp_all add: deficiency_list_def)
  have zeros: "?n ! 0 = 0" "?d ! 0 = 0" by (simp_all add: deficiency_list_def)
  have "\<not> list_ex (\<lambda>v. v < 0) h" "\<not> list_ex (\<lambda>v. v < 0) ?n"
    using nonneg adjacent_count_nonneg [OF nonneg] by (auto simp: list_ex_iff not_less)
  moreover have "\<not> list_ex (\<lambda>s. ?d ! s \<noteq> int (bit_count s) - ?n ! s) [1..<2 ^ r]"
    by (simp add: list_ex_iff deficiency_list_def)
  ultimately show ?thesis
    unfolding make_hall_state_def hall_of_def Let_def r bind_res_simps using len lens zero zeros by simp
qed

lemma bits_complement:
  assumes "s < 2 ^ r"
  shows "bits ((2 ^ r - 1) XOR s) = {..<r} - bits s"
  using bits_subset [OF assms] unfolding bits_xor bits_full by blast

lemma and_eq_0_iff_disjoint: "(x::nat) AND s = 0 \<longleftrightarrow> bits x \<inter> bits s = {}"
  by (simp add: bits_and flip: bits_eq_empty)

lemma state_from_histogram_ok:
  assumes "histogram_ok r h"
  shows "state_from_histogram_via_zeta r h = Inr (hall_of r h, int (r * 2 ^ (r - 1)))"
proof -
  have len: "length h = 2 ^ r" using assms by (simp add: histogram_ok_def)
  obtain gathered adds where z: "zeta r h = (gathered, adds)" by fastforce
  have adds: "adds = int (r * 2 ^ (r - 1))" using zeta_ok(2) [OF len] z by simp
  have total: "sum_list h = (\<Sum>x | x < 2 ^ r. h ! x)"
    using len by (simp add: sum_list_sum_nth atLeast0LessThan lessThan_def)
  have entry: "sum_list h - gathered ! ((2 ^ r - 1) XOR s) = adjacent_count h s" if s: "s < 2 ^ r" for s
  proof -
    have "(2 ^ r - 1) XOR s < (2 ^ r :: nat)"
      by (metis s diff_less less_numeral_extra(1) pos2 take_bit_nat_eq_self take_bit_nat_eq_self_iff
          take_bit_xor zero_less_power)
    then have "gathered ! ((2 ^ r - 1) XOR s) = (\<Sum>x | x < 2 ^ r \<and> bits x \<subseteq> {..<r} - bits s. h ! x)"
      using zeta_ok(1) [OF len, of "(2 ^ r - 1) XOR s"] z bits_complement [OF s] by simp
    moreover have "{x. x < 2 ^ r \<and> bits x \<subseteq> {..<r} - bits s} = {x. x < 2 ^ r \<and> x AND s = 0}"
      using bits_subset by (auto simp: and_eq_0_iff_disjoint simp del: bits_iff)
    moreover have "(\<Sum>x | x < 2 ^ r. h ! x) =
        (\<Sum>x | x < 2 ^ r \<and> x AND s = 0. h ! x) + (\<Sum>x | x < 2 ^ r \<and> x AND s \<noteq> 0. h ! x)"
      by (subst sum.union_disjoint [symmetric]) (auto intro: sum.cong)
    ultimately show ?thesis using total len by (simp add: adjacent_count_def)
  qed
  have n: "map (\<lambda>s. if s = 0 then 0 else sum_list h - gathered ! ((2 ^ r - 1) XOR s)) [0..<2 ^ r] =
      map (adjacent_count h) [0..<2 ^ r]"
    using entry by (intro map_cong) auto
  have d: "map (\<lambda>s. if s = 0 then 0 else int (bit_count s) - map (adjacent_count h) [0..<2 ^ r] ! s) [0..<2 ^ r] =
      deficiency_list r h"
    unfolding deficiency_list_def by (intro map_cong) auto
  show ?thesis
    unfolding state_from_histogram_via_zeta_def z Let_def prod.case n d make_hall_state_exact [OF assms]
    by (simp add: adds)
qed

section \<open>Transitions\<close>

lemma adjacent_count_update:
  assumes "x < length h"
  shows "adjacent_count (h[x := h ! x + c]) s = adjacent_count h s + (if x AND s \<noteq> 0 then c else 0)"
proof -
  let ?A = "{y. y < length h \<and> y AND s \<noteq> 0}"
  have "adjacent_count (h[x := h ! x + c]) s = (\<Sum>y \<in> ?A. h ! y + (if y = x then c else 0))"
    unfolding adjacent_count_def by (intro sum.cong) (auto simp: nth_list_update)
  also have "\<dots> = adjacent_count h s + (\<Sum>y \<in> ?A. if y = x then c else 0)"
    by (simp add: sum.distrib adjacent_count_def)
  also have "(\<Sum>y \<in> ?A. if y = x then c else 0) = (if x AND s \<noteq> 0 then c else 0)"
    using assms by (simp add: sum.delta)
  finally show ?thesis .
qed

lemma move_hash_length [simp]: "length (move_hash a b h) = length h"
  by (simp add: move_hash_def Let_def)

lemma move_hash_same: "move_hash a a h = h"
  by (cases "a < length h") (simp_all add: move_hash_def Let_def list_update_beyond)

lemma move_hash_nth:
  assumes "a < length h" and "b < length h" and "x < length h"
  shows "move_hash a b h ! x =
     h ! x - of_bool (x = a \<and> a \<noteq> 0) + of_bool (x = b \<and> b \<noteq> 0)"
  using assms by (auto simp: move_hash_def Let_def nth_list_update)

lemma adjacent_count_move:
  assumes "a < length h" and "b < length h"
  shows "adjacent_count (move_hash a b h) s =
     adjacent_count h s + (of_bool (s AND b \<noteq> 0) - of_bool (s AND a \<noteq> 0))"
proof -
  let ?h1 = "if a \<noteq> 0 then h[a := h ! a + (-1)] else h"
  have h1: "adjacent_count ?h1 s = adjacent_count h s - of_bool (s AND a \<noteq> 0)"
    using adjacent_count_update [OF assms(1), of "-1" s] by (simp add: and.commute)
  define h1 where "h1 = ?h1"
  have mv: "move_hash a b h = (if b \<noteq> 0 then h1[b := h1 ! b + 1] else h1)"
    by (simp add: move_hash_def Let_def h1_def)
  have "b < length h1" using assms(2) by (simp add: h1_def)
  from adjacent_count_update [OF this, of 1 s] h1 [folded h1_def] show ?thesis
    unfolding mv by (simp add: and.commute)
qed

lemma histogram_ok_move:
  assumes "histogram_ok r h" and "a < 2 ^ r" and "b < 2 ^ r" and "a \<noteq> 0 \<Longrightarrow> 0 < h ! a"
  shows "histogram_ok r (move_hash a b h)"
proof -
  have len: "length h = 2 ^ r" and zero: "h ! 0 = 0" and nonneg: "\<And>x. x < 2 ^ r \<Longrightarrow> 0 \<le> h ! x"
    using assms(1) by (auto simp: histogram_ok_def)
  have nth: "move_hash a b h ! x = h ! x - of_bool (x = a \<and> a \<noteq> 0) + of_bool (x = b \<and> b \<noteq> 0)"
    if "x < 2 ^ r" for x
    using move_hash_nth that assms(2,3) len by simp
  have "0 \<le> move_hash a b h ! x" if x: "x < 2 ^ r" for x
    using nth [OF x] nonneg [OF x] assms(4) by auto
  moreover have "move_hash a b h ! 0 = 0" using nth [of 0] zero by auto
  ultimately show ?thesis
    using assms(1) len by (auto simp: histogram_ok_def in_set_conv_nth)
qed

lemma map_upt_update: "k < n \<Longrightarrow> (map f [0..<n])[k := v] = map (f(k := v)) [0..<n]"
  by (rule nth_equalityI) (auto simp: nth_list_update)

text \<open>The loop over the subsets leaves the counts of the moved histogram.\<close>

lemma adjust_prefix:
  fixes f :: "nat \<Rightarrow> int" and a b :: nat
  defines "f' \<equiv> \<lambda>s. f s + (of_bool (s AND b \<noteq> 0) - of_bool (s AND a \<noteq> 0))"
  assumes "k < n"
  shows "fold (adjust_subset a b) [1..<Suc k]
       (map f [0..<n], map (\<lambda>s. int (bit_count s) - f s) [0..<n], 0) =
     (map (\<lambda>s. if s \<le> k then f' s else f s) [0..<n],
      map (\<lambda>s. int (bit_count s) - (if s \<le> k then f' s else f s)) [0..<n],
      int (card {s. 1 \<le> s \<and> s \<le> k \<and> (s AND a \<noteq> 0) \<noteq> (s AND b \<noteq> 0)}))"
  using assms(2)
proof (induction k)
  case 0
  have "f' 0 = f 0" by (simp add: f'_def)
  then show ?case by auto
next
  case (Suc k)
  let ?F = "\<lambda>k s. if s \<le> k then f' s else f s"
  let ?C = "\<lambda>k. {s. 1 \<le> s \<and> s \<le> k \<and> (s AND a \<noteq> 0) \<noteq> (s AND b \<noteq> 0)}"
  have IH: "fold (adjust_subset a b) [1..<Suc k]
       (map f [0..<n], map (\<lambda>s. int (bit_count s) - f s) [0..<n], 0) =
     (map (?F k) [0..<n], map (\<lambda>s. int (bit_count s) - ?F k s) [0..<n], int (card (?C k)))"
    using Suc by simp
  have step: "fold (adjust_subset a b) [1..<Suc (Suc k)] z =
      adjust_subset a b (Suc k) (fold (adjust_subset a b) [1..<Suc k] z)" for z by simp
  have eq: "fold (adjust_subset a b) [1..<Suc (Suc k)]
       (map f [0..<n], map (\<lambda>s. int (bit_count s) - f s) [0..<n], 0) =
     adjust_subset a b (Suc k)
       (map (?F k) [0..<n], map (\<lambda>s. int (bit_count s) - ?F k s) [0..<n], int (card (?C k)))"
    unfolding step IH ..
  have fin: "finite (?C k)" by (rule finite_subset [of _ "{..k}"]) auto
  have nz: "(x \<noteq> 0 \<and> Suc k AND x \<noteq> 0) = (Suc k AND x \<noteq> 0)" for x by (cases "x = 0") simp_all
  show ?case
  proof (cases "(Suc k AND a \<noteq> 0) = (Suc k AND b \<noteq> 0)")
    case True
    then have "f' (Suc k) = f (Suc k)" by (simp add: f'_def)
    then have F: "?F (Suc k) s = ?F k s" for s by (auto simp: le_Suc_eq)
    have C: "?C (Suc k) = ?C k" using True by (auto simp: le_Suc_eq)
    show ?thesis unfolding eq unfolding F C adjust_subset_def Let_def nz using True by simp
  next
    case False
    have F: "?F (Suc k) = (?F k)(Suc k := f' (Suc k))" by (auto simp: fun_eq_iff le_Suc_eq)
    have G: "(\<lambda>s. int (bit_count s) - ?F (Suc k) s) =
        (\<lambda>s. int (bit_count s) - ?F k s)(Suc k := int (bit_count (Suc k)) - f' (Suc k))"
      by (auto simp: fun_eq_iff le_Suc_eq)
    have "?C (Suc k) = insert (Suc k) (?C k)" using False by (auto simp: le_Suc_eq)
    then have C: "int (card (?C (Suc k))) = int (card (?C k)) + 1" using fin by simp
    have val: "f (Suc k) + (if Suc k AND b \<noteq> 0 then 1 else -1) = f' (Suc k)"
      using False by (auto simp: f'_def)
    have rd: "map (?F k) [0..<n] ! Suc k = f (Suc k)" using Suc.prems by simp
    show ?thesis
      unfolding eq unfolding F G C adjust_subset_def Let_def prod.case nz
      using False Suc.prems val rd by (simp add: map_upt_update)
  qed
qed

lemma apply_hash_mask_transition_ok:
  assumes h: "histogram_ok r h" and old: "0 \<le> old" "old < 2 ^ r" and new: "0 \<le> new" "new < 2 ^ r"
    and present: "old \<noteq> 0 \<Longrightarrow> old \<noteq> new \<Longrightarrow> 0 < h ! nat old"
  shows "\<exists>work. apply_hash_mask_transition (hall_of r h) old new =
     Inr (hall_of r (move_hash (nat old) (nat new) h), work) \<and> work_nonneg work"
proof -
  let ?a = "nat old" and ?b = "nat new" and ?full = "2 ^ r - 1 :: nat"
  have len: "length h = 2 ^ r" using h by (simp add: histogram_ok_def)
  have ab: "?a < 2 ^ r" "?b < 2 ^ r" using old new by (simp_all add: nat_less_iff)
  have full: "int ?full = 2 ^ r - 1" "?full < 2 ^ r" by (simp_all add: of_nat_diff)
  have checks: "require_integer old (Some 0) (Some (int ?full)) = Inr ()"
    "require_integer new (Some 0) (Some (int ?full)) = Inr ()"
    using old new full by simp_all
  note unfold = apply_hash_mask_transition_def hall_of_def hall_mask_state.simps Let_def checks
    bind_res_simps
  show ?thesis
  proof (cases "old = new")
    case True
    then have "apply_hash_mask_transition (hall_of r h) old new = Inr (hall_of r h, no_work)"
      unfolding unfold by simp
    then show ?thesis using True by (simp add: move_hash_same)
  next
  case False
  have ok': "histogram_ok r (move_hash ?a ?b h)"
    using histogram_ok_move [OF h ab] present False old by auto
  have checks: "require_integer old (Some 0) (Some (int ?full)) = Inr ()"
    "require_integer new (Some 0) (Some (int ?full)) = Inr ()"
    using old new full by simp_all
  let ?f' = "\<lambda>s. adjacent_count h s + (of_bool (s AND ?b \<noteq> 0) - of_bool (s AND ?a \<noteq> 0))"
  have f': "?f' s = adjacent_count (move_hash ?a ?b h) s" for s
    using adjacent_count_move [of ?a h ?b] ab len by simp
  have all: "map (\<lambda>s. if s \<le> ?full then g s else g' s) [0..<2 ^ r] = map g [0..<2 ^ r]"
    "map (\<lambda>s. int (bit_count s) - (if s \<le> ?full then g s else g' s)) [0..<2 ^ r] =
     map (\<lambda>s. int (bit_count s) - g s) [0..<2 ^ r]" for g g' :: "nat \<Rightarrow> int"
    by (rule map_cong; force)+
  obtain c where loop: "fold (adjust_subset ?a ?b) [1..<?full + 1]
      (map (adjacent_count h) [0..<2 ^ r], deficiency_list r h, 0) =
      (map (adjacent_count (move_hash ?a ?b h)) [0..<2 ^ r], deficiency_list r (move_hash ?a ?b h), int c)"
    using adjust_prefix [OF full(2), of ?a ?b "adjacent_count h"]
    unfolding all f' deficiency_list_def Suc_eq_plus1 by blast
  have neq: "?a \<noteq> ?b" using False old new by auto
  have pres: "\<not> (?a \<noteq> 0 \<and> h ! ?a \<le> 0)" using present False by fastforce
  let ?w = "no_work\<lparr>wc_distinct_edge_crossings := int (bit_count (?a XOR ?b)),
      wc_hash_mask_transitions := 1, wc_hall_subset_entries_examined := int ?full,
      wc_hall_neighbor_entries_changed := int c, wc_hall_deficiency_entries_examined := int ?full\<rparr>"
  have "apply_hash_mask_transition (hall_of r h) old new = Inr (hall_of r (move_hash ?a ?b h), ?w)"
    unfolding unfold if_not_P [OF neq] if_not_P [OF pres] loop prod.case make_hall_state_exact [OF ok'] ..
  moreover have "work_nonneg ?w"
    by (simp add: work_nonneg_def named_values_def no_work_def)
  ultimately show ?thesis by blast
  qed
qed

section \<open>Hash masks\<close>

text \<open>
  The masks of a group: every hash present has a nonzero mask of \<open>r\<close> bits.  An absent hash counts
  as the mask zero, and setting a hash to zero removes it.
\<close>

definition masks_ok :: "nat \<Rightarrow> (string \<rightharpoonup> nat) \<Rightarrow> bool" where
  "masks_ok r M \<longleftrightarrow> 1 \<le> r \<and> r \<le> 8 \<and> finite (dom M) \<and> (\<forall>h m. M h = Some m \<longrightarrow> 0 < m \<and> m < 2 ^ r)"

definition mask_of :: "(string \<rightharpoonup> nat) \<Rightarrow> string \<Rightarrow> nat" where
  "mask_of M h = (case M h of None \<Rightarrow> 0 | Some m \<Rightarrow> m)"

definition set_mask :: "string \<Rightarrow> nat \<Rightarrow> (string \<rightharpoonup> nat) \<Rightarrow> string \<rightharpoonup> nat" where
  "set_mask h m M = M(h := if m = 0 then None else Some m)"

definition masks_histogram :: "nat \<Rightarrow> (string \<rightharpoonup> nat) \<Rightarrow> int list" where
  "masks_histogram r M = map (\<lambda>m. if m = 0 then 0 else int (card {h. M h = Some m})) [0..<2 ^ r]"

definition hall_state_of :: "nat \<Rightarrow> (string \<rightharpoonup> nat) \<Rightarrow> hall_mask_state" where
  "hall_state_of r M = hall_of r (masks_histogram r M)"

lemma mask_of_set_mask: "mask_of (set_mask h m M) k = (if k = h then m else mask_of M k)"
  by (simp add: mask_of_def set_mask_def)

lemma masks_okD:
  assumes "masks_ok r M"
  shows "mask_of M h < 2 ^ r" and "finite {h. M h = Some m}" and "finite (dom M)"
proof -
  show fin: "finite (dom M)" using assms by (simp add: masks_ok_def)
  show "mask_of M h < 2 ^ r" using assms by (auto simp: masks_ok_def mask_of_def split: option.split)
  show "finite {h. M h = Some m}" by (rule finite_subset [OF _ fin]) auto
qed

lemma masks_ok_set_mask: "masks_ok r M \<Longrightarrow> m < 2 ^ r \<Longrightarrow> masks_ok r (set_mask h m M)"
  by (auto simp: masks_ok_def set_mask_def split: if_splits)

lemma histogram_ok_masks: "masks_ok r M \<Longrightarrow> histogram_ok r (masks_histogram r M)"
  by (auto simp: masks_ok_def histogram_ok_def masks_histogram_def)

lemma mask_bucket:
  assumes "masks_ok r M" and "mask_of M h \<noteq> 0"
  shows "0 < masks_histogram r M ! mask_of M h"
proof -
  have "h \<in> {k. M k = Some (mask_of M h)}" using assms(2) by (auto simp: mask_of_def split: option.splits)
  then have "0 < card {k. M k = Some (mask_of M h)}"
    using masks_okD(2) [OF assms(1)] card_gt_0_iff by blast
  then show ?thesis using assms(2) masks_okD(1) [OF assms(1), of h] by (simp add: masks_histogram_def)
qed

lemma masks_histogram_set_mask:
  assumes ok: "masks_ok r M" and m: "m < 2 ^ r"
  shows "masks_histogram r (set_mask h m M) = move_hash (mask_of M h) m (masks_histogram r M)"
proof (rule nth_equalityI)
  fix x assume "x < length (masks_histogram r (set_mask h m M))"
  then have x: "x < 2 ^ r" by (simp add: masks_histogram_def)
  let ?A = "{k. M k = Some x}" and ?B = "{k. set_mask h m M k = Some x}" and ?C = "{k. k \<noteq> h \<and> M k = Some x}"
  have fin: "finite ?C" by (rule finite_subset [OF _ masks_okD(2) [OF ok]]) auto
  have len: "length (masks_histogram r M) = 2 ^ r" by (simp add: masks_histogram_def)
  have mo: "mask_of M h < length (masks_histogram r M)" "m < length (masks_histogram r M)"
    "x < length (masks_histogram r M)" using masks_okD(1) [OF ok] m x len by simp_all
  show "masks_histogram r (set_mask h m M) ! x = move_hash (mask_of M h) m (masks_histogram r M) ! x"
  proof (cases "x = 0")
    case True
    then show ?thesis unfolding move_hash_nth [OF mo] using x by (auto simp: masks_histogram_def)
  next
    case False
    have "?A = (if M h = Some x then insert h ?C else ?C)" by auto
    then have A: "card ?A = card ?C + of_bool (x = mask_of M h)"
      using fin False by (auto simp: mask_of_def split: option.splits)
    have "?B = (if m = x then insert h ?C else ?C)" using False by (auto simp: set_mask_def)
    then have B: "card ?B = card ?C + of_bool (x = m)" using fin by auto
    show ?thesis
      unfolding move_hash_nth [OF mo] using x False A B by (auto simp: masks_histogram_def)
  qed
qed (simp add: masks_histogram_def)

section \<open>Initialization and batches\<close>

lemma histogram_from_masks_ok:
  assumes "\<forall>m \<in> set ms. 1 \<le> m \<and> m < 2 ^ r"
  shows "histogram_from_masks r ms = Inr (map (\<lambda>x. int (count_list ms (int x))) [0..<2 ^ r])"
proof -
  have "fold_res (histogram_step (2 ^ r)) ms (map f [0..<2 ^ r]) =
      Inr (map (\<lambda>x. f x + int (count_list ms (int x))) [0..<2 ^ r])" for f
    using assms
  proof (induction ms arbitrary: f)
    case (Cons m ms)
    then have m: "nat m < 2 ^ r" "1 \<le> m" "m < 2 ^ r" by (auto simp: nat_less_iff)
    have sz: "int (2 ^ r) - 1 = 2 ^ r - 1" by simp
    have req: "require_integer m (Some 1) (Some (2 ^ r - 1)) = Inr ()" using m by simp
    have "histogram_step (2 ^ r) m (map f [0..<2 ^ r]) = Inr ((map f [0..<2 ^ r])[nat m := f (nat m) + 1])"
      using m req by (simp add: histogram_step_def sz)
    also have "(map f [0..<2 ^ r])[nat m := f (nat m) + 1] = map (f(nat m := f (nat m) + 1)) [0..<2 ^ r]"
      using m(1) by (rule map_upt_update)
    finally show ?case using Cons m by (auto simp: nat_eq_iff2)
  qed simp
  from this [of "\<lambda>_. 0"] show ?thesis
    by (simp add: histogram_from_masks_def map_replicate_const)
qed

lemma check_hash_masks_Inr:
  "check_hash_masks full seen items = Inr out \<Longrightarrow>
     out = map (\<lambda>(h, m). (h, nat m)) items \<and> distinct (map fst items) \<and> set (map fst items) \<inter> seen = {} \<and>
     (\<forall>(h, m) \<in> set items. \<not> blank_text h \<and> 1 \<le> m \<and> m \<le> full)"
proof (induction full seen items arbitrary: out rule: check_hash_masks.induct)
  case (2 full seen h m items)
  from "2.prems" obtain rest where *: "require_text h = Inr ()" "1 \<le> m" "m \<le> full" "h \<notin> seen"
    "check_hash_masks full (insert h seen) items = Inr rest" "out = (h, nat m) # rest"
    by (auto simp: bind_res_Inr_iff split: if_splits)
  from "2.IH" [OF *(4,5)] * show ?case
    by (auto simp: require_text_def split: if_splits)
qed simp

lemma validated_hash_masks_Inr:
  assumes "validated_hash_masks n items = Inr out"
  shows "1 \<le> n" and "n \<le> 8" and "out = map (\<lambda>(h, m). (h, nat m)) items"
    and "distinct (map fst out)" and "masks_ok (nat n) (map_of out)"
proof -
  from assms have n: "1 \<le> n" "n \<le> 8" and c: "check_hash_masks (push_bit (nat n) 1 - 1) {} items = Inr out"
    by (auto simp: validated_hash_masks_def bind_res_Inr_iff)
  note * = check_hash_masks_Inr [OF c]
  show "1 \<le> n" "n \<le> 8" by (rule n)+
  show out: "out = map (\<lambda>(h, m). (h, nat m)) items" using * by simp
  show "distinct (map fst out)" using * by (simp add: comp_def case_prod_beta)
  have "0 < m \<and> m < 2 ^ nat n" if "map_of out h = Some m" for h m
  proof -
    from map_of_SomeD [OF that] obtain i where "(h, i) \<in> set items" "m = nat i" by (auto simp: out)
    then have "1 \<le> i" "i \<le> 2 ^ nat n - 1" using * by (auto simp: push_bit_eq_mult)
    then show ?thesis using \<open>m = nat i\<close> by (auto simp: nat_less_iff)
  qed
  then show "masks_ok (nat n) (map_of out)" using n by (simp add: masks_ok_def finite_dom_map_of nat_le_iff)
qed

lemma count_list_masks:
  assumes "distinct (map fst items)" and "x \<noteq> 0" and "\<forall>(h, m) \<in> set items. 0 < m"
  shows "count_list (map snd items) x = card {h. map_of items h = Some x}"
  using assms
proof (induction items)
  case (Cons p items)
  obtain h m where p: "p = (h, m)" by (cases p)
  let ?A = "{k. map_of items k = Some x}"
  have fin: "finite ?A" by (rule finite_subset [OF _ finite_dom_map_of [of items]]) auto
  have new: "map_of items h = None" using Cons.prems(1) p by (auto simp: map_of_eq_None_iff)
  have "h \<notin> ?A" using new by simp
  moreover have "{k. map_of (p # items) k = Some x} = (if m = x then insert h ?A else ?A)"
    using new p by auto
  ultimately have card: "card {k. map_of (p # items) k = Some x} = card ?A + of_bool (m = x)"
    using fin by simp
  have "count_list (map snd items) x = card ?A" using Cons by simp
  then show ?case unfolding card using p by simp
qed simp

lemma histogram_of_mapping:
  assumes dis: "distinct (map fst out)" and pos: "\<forall>(h, m) \<in> set out. 0 < m \<and> m < 2 ^ r"
  shows "histogram_from_masks r (map (int \<circ> snd) out) = Inr (masks_histogram r (map_of out))"
proof -
  let ?ms = "map (int \<circ> snd) out"
  have "\<forall>m \<in> set ?ms. 1 \<le> m \<and> m < 2 ^ r" using pos by auto
  then have hist: "histogram_from_masks r ?ms = Inr (map (\<lambda>x. int (count_list ?ms (int x))) [0..<2 ^ r])"
    by (rule histogram_from_masks_ok)
  have "map (\<lambda>x. int (count_list ?ms (int x))) [0..<2 ^ r] = masks_histogram r (map_of out)"
    unfolding masks_histogram_def
  proof (rule map_cong [OF refl])
    fix x
    have "count_list ?ms (int x) = count_list (map snd out) x"
      by (induction out) auto
    moreover have "count_list (map snd out) 0 = 0"
      using pos by (auto simp: count_list_0_iff)
    ultimately show "int (count_list ?ms (int x)) =
        (if x = 0 then 0 else int (card {h. map_of out h = Some x}))"
      using count_list_masks [OF dis, of x] pos by (cases "x = 0") auto
  qed
  with hist show ?thesis by simp
qed

text \<open>Initialization from a mapping builds the exact state of its masks, in \<open>r 2\<^bsup>r-1\<^esup>\<close> additions.\<close>

lemma initialize_hall_from_mapping_ok:
  assumes v: "validated_hash_masks n items = Inr out"
  shows "\<exists>work. initialize_hall_from_mapping n items = Inr (hall_state_of (nat n) (map_of out), work) \<and>
     wc_hall_zeta_additions work = n * 2 ^ (nat n - 1)"
proof -
  note * = validated_hash_masks_Inr [OF v]
  have "\<forall>(h, m) \<in> set out. 0 < m \<and> m < 2 ^ nat n"
    using *(4,5) by (auto simp: masks_ok_def)
  note hist = histogram_of_mapping [OF *(4) this]
  show ?thesis
    using *(1,2) state_from_histogram_ok [OF histogram_ok_masks [OF *(5)]] hist
    by (simp add: initialize_hall_from_mapping_def v initialize_hall_mask_state_def Let_def hall_state_of_def)
qed

lemma transition_ok:
  assumes ok: "masks_ok r M" and new: "0 \<le> new" "new < 2 ^ r" and old: "old = int (mask_of M h)"
  shows "\<exists>work. apply_hash_mask_transition (hall_state_of r M) old new =
     Inr (hall_state_of r (set_mask h (nat new) M), work) \<and> work_nonneg work"
proof -
  have "old < 2 ^ r" using masks_okD(1) [OF ok, of h] old by simp
  moreover have "nat new < 2 ^ r" using new by (simp add: nat_less_iff)
  ultimately show ?thesis
    using apply_hash_mask_transition_ok [OF histogram_ok_masks [OF ok], of old new] new old
      mask_bucket [OF ok, of h] masks_histogram_set_mask [OF ok, of "nat new" h]
    by (auto simp: hall_state_of_def)
qed

text \<open>A batch of transitions, at most one per hash, each from the current mask of its hash.\<close>

definition batch_target :: "hash_mask_transition list \<Rightarrow> (string \<rightharpoonup> nat) \<Rightarrow> string \<rightharpoonup> nat" where
  "batch_target ts M = fold (\<lambda>t. set_mask (ht_text_hash t) (nat (ht_new_mask t))) ts M"

definition batch_ok :: "nat \<Rightarrow> hash_mask_transition list \<Rightarrow> (string \<rightharpoonup> nat) \<Rightarrow> bool" where
  "batch_ok r ts M \<longleftrightarrow> distinct (map ht_text_hash ts) \<and>
     (\<forall>t \<in> set ts. ht_old_mask t = int (mask_of M (ht_text_hash t)) \<and>
        0 \<le> ht_new_mask t \<and> ht_new_mask t < 2 ^ r)"

lemma batch_steps:
  assumes "masks_ok r M" and "batch_ok r ts M" and "set (map ht_text_hash ts) \<inter> bt_seen bt = {}"
    and "bt_current bt = hall_state_of r M" and "work_nonneg (bt_work bt)"
  shows "\<exists>bt'. fold_res (batch_step (2 ^ r - 1)) ts bt = Inr bt' \<and> masks_ok r (batch_target ts M) \<and>
     bt_current bt' = hall_state_of r (batch_target ts M) \<and> work_nonneg (bt_work bt')"
  using assms
proof (induction ts arbitrary: M bt)
  case (Cons t ts)
  let ?h = "ht_text_hash t" and ?M = "set_mask (ht_text_hash t) (nat (ht_new_mask t)) M"
  have t: "ht_old_mask t = int (mask_of M ?h)" "0 \<le> ht_new_mask t" "ht_new_mask t < 2 ^ r" "?h \<notin> bt_seen bt"
    using Cons.prems by (auto simp: batch_ok_def)
  have old: "0 \<le> ht_old_mask t" "ht_old_mask t \<le> 2 ^ r - 1"
    using t(1) masks_okD(1) [OF Cons.prems(1), of ?h] by simp_all
  from transition_ok [OF Cons.prems(1) t(2,3,1)] obtain work where
    work: "apply_hash_mask_transition (hall_state_of r M) (ht_old_mask t) (ht_new_mask t) =
      Inr (hall_state_of r ?M, work)" "work_nonneg work" by blast
  let ?bt = "\<lparr>bt_seen = insert ?h (bt_seen bt), bt_current = hall_state_of r ?M,
      bt_work = work_add (bt_work bt) work, bt_changed = (bt_changed bt \<or> ht_old_mask t \<noteq> ht_new_mask t)\<rparr>"
  have step: "batch_step (2 ^ r - 1) t bt = Inr ?bt"
    using t old work Cons.prems(4) by (simp add: batch_step_def)
  have ok: "masks_ok r ?M" using Cons.prems(1) t(2,3) by (intro masks_ok_set_mask) (simp_all add: nat_less_iff)
  have "?h \<notin> ht_text_hash ` set ts" using Cons.prems(2) by (simp add: batch_ok_def)
  then have "ht_text_hash u \<noteq> ?h" if "u \<in> set ts" for u using that by (metis image_eqI)
  then have "batch_ok r ts ?M" using Cons.prems(2) by (simp add: batch_ok_def mask_of_set_mask)
  from Cons.IH [OF ok this, of ?bt] Cons.prems(2,3,5) work show ?case
    by (auto simp: step batch_target_def batch_ok_def work_nonneg_add)
qed (simp add: batch_target_def)

lemma apply_hash_mask_transitions_ok:
  assumes "masks_ok r M" and "batch_ok r ts M"
  shows "\<exists>work. apply_hash_mask_transitions (hall_state_of r M) ts =
     Inr (hall_state_of r (batch_target ts M), work) \<and> work_nonneg work \<and> masks_ok r (batch_target ts M)"
proof -
  let ?bt = "\<lparr>bt_seen = {}, bt_current = hall_state_of r M, bt_work = no_work, bt_changed = False\<rparr>"
  from batch_steps [OF assms, of ?bt] obtain bt' where
    bt': "fold_res (batch_step (2 ^ r - 1)) ts ?bt = Inr bt'" "masks_ok r (batch_target ts M)"
      "bt_current bt' = hall_state_of r (batch_target ts M)" "work_nonneg (bt_work bt')" by auto
  have r: "hs_requirement_count (hall_state_of r M) = r" by (simp add: hall_state_of_def hall_of_def)
  have "work_nonneg (no_work\<lparr>wc_group_local_state_operations := 1\<rparr>)"
    by (simp add: work_nonneg_def named_values_def no_work_def)
  then have "work_nonneg (work_add (bt_work bt') (no_work\<lparr>wc_group_local_state_operations := 1\<rparr>))"
    using bt'(4) by (intro work_nonneg_add)
  then show ?thesis
    using bt' unfolding apply_hash_mask_transitions_def r by (simp add: push_bit_eq_mult Let_def)
qed

end
