(* ===== verification/GL_Matching.thy ===== *)
theory GL_Matching
  imports GL_HallProofs
begin

text \<open>
  The augmenting-path kernel of \<open>groundloop/m5/matching.py\<close>: requirements search, in order, for a
  hash of their own, taking over the hash of another requirement when that one finds another.  The
  recursion of \<open>augment\<close> is bounded by the number of hashes, because every nested call has marked
  one more of them; the fuel \<open>1 + number of hashes\<close> is always enough.
\<close>

section \<open>The kernel\<close>

record matching_pair =
  mp_requirement_ordinal :: nat
  mp_text_hash :: string

record affected_matching_result =
  am_requirement_count :: nat
  am_pairs :: "matching_pair list"
  am_work :: work_counters

definition matching_size :: "affected_matching_result \<Rightarrow> nat" where
  "matching_size res = length (am_pairs res)"

definition matching_complete :: "affected_matching_result \<Rightarrow> bool" where
  "matching_complete res \<longleftrightarrow> matching_size res = am_requirement_count res"

text \<open>The variables that the nested function \<open>augment\<close> shares, with its set of seen hashes.\<close>

record search =
  se_hash_owner :: "(string, nat) pydict"
  se_requirement_hash :: "(nat, string) pydict"
  se_requirement_visits :: nat
  se_edge_visits :: nat
  se_seen :: "string set"

definition assign_hash :: "string \<Rightarrow> nat \<Rightarrow> search \<Rightarrow> search" where
  "assign_hash h i s =
     s\<lparr>se_hash_owner := dset h i (se_hash_owner s),
       se_requirement_hash := dset i h (se_requirement_hash s)\<rparr>"

text \<open>The loop over the candidates of a requirement; \<open>search_from\<close> is the recursive call.\<close>

fun try_candidates ::
    "(nat \<Rightarrow> search \<Rightarrow> (bool \<times> search) option) \<Rightarrow> nat \<Rightarrow> string list \<Rightarrow> search
      \<Rightarrow> (bool \<times> search) option" where
  "try_candidates search_from i [] s = Some (False, s)"
| "try_candidates search_from i (h # hs) s =
     (let s1 = s\<lparr>se_edge_visits := se_edge_visits s + 1\<rparr> in
      if h \<in> se_seen s1 then try_candidates search_from i hs s1
      else
        let s2 = s1\<lparr>se_seen := insert h (se_seen s1)\<rparr> in
        (case dget (se_hash_owner s2) h of
           None \<Rightarrow> Some (True, assign_hash h i s2)
         | Some owner \<Rightarrow>
             (case search_from owner s2 of
                None \<Rightarrow> None
              | Some (found, s3) \<Rightarrow>
                  if found then Some (True, assign_hash h i s3)
                  else try_candidates search_from i hs s3)))"

primrec augment :: "nat \<Rightarrow> string list list \<Rightarrow> nat \<Rightarrow> search \<Rightarrow> (bool \<times> search) option" where
  "augment 0 cands i s = None"
| "augment (Suc fuel) cands i s =
     try_candidates (augment fuel cands) i (cands ! i)
       (s\<lparr>se_requirement_visits := se_requirement_visits s + 1\<rparr>)"

definition add_candidate :: "string \<Rightarrow> nat \<Rightarrow> nat \<Rightarrow> string list list \<Rightarrow> string list list" where
  "add_candidate h m i cands = (if m AND 2 ^ i \<noteq> 0 then cands[i := cands ! i @ [h]] else cands)"

definition candidate_lists :: "nat \<Rightarrow> (string \<times> nat) list \<Rightarrow> string list list" where
  "candidate_lists r canonical =
     fold (\<lambda>(h, m). fold (add_candidate h m) [0..<r]) canonical (replicate r [])"

fun search_all :: "nat \<Rightarrow> string list list \<Rightarrow> nat list \<Rightarrow> search \<Rightarrow> search option" where
  "search_all fuel cands [] s = Some s"
| "search_all fuel cands (i # is) s =
     (case augment fuel cands i (s\<lparr>se_seen := {}\<rparr>) of
        None \<Rightarrow> None
      | Some (found, s') \<Rightarrow> search_all fuel cands is s')"

definition new_search :: search where
  "new_search =
     \<lparr>se_hash_owner = [], se_requirement_hash = [], se_requirement_visits = 0, se_edge_visits = 0,
      se_seen = {}\<rparr>"

definition matching_pairs :: "nat \<Rightarrow> search \<Rightarrow> matching_pair list" where
  "matching_pairs r s =
     concat (map (\<lambda>i. case dget (se_requirement_hash s) i of
         None \<Rightarrow> []
       | Some h \<Rightarrow> [\<lparr>mp_requirement_ordinal = i, mp_text_hash = h\<rparr>]) [0..<r])"

definition affected_group_matching_from_canonical ::
    "nat \<Rightarrow> (string \<times> nat) list \<Rightarrow> affected_matching_result option" where
  "affected_group_matching_from_canonical r canonical =
     (case search_all (Suc (length canonical)) (candidate_lists r canonical) [0..<r] new_search of
        None \<Rightarrow> None
      | Some s \<Rightarrow>
          Some \<lparr>am_requirement_count = r, am_pairs = matching_pairs r s,
                am_work = no_work\<lparr>wc_augmenting_searches := int r,
                                  wc_augmenting_requirement_visits := int (se_requirement_visits s),
                                  wc_augmenting_edge_visits := int (se_edge_visits s)\<rparr>\<rparr>)"

fun check_hash_order :: "string option \<Rightarrow> (string \<times> nat) list \<Rightarrow> unit res" where
  "check_hash_order previous [] = Inr ()"
| "check_hash_order previous ((h, m) # items) =
     (if (case previous of None \<Rightarrow> False | Some p \<Rightarrow> h \<le> p) then Inl ValidationError
      else check_hash_order (Some h) items)"

text \<open>Both results are the kernel's; the kernel never runs out of fuel.\<close>

definition affected_group_matching_canonical ::
    "int \<Rightarrow> (string \<times> int) list \<Rightarrow> affected_matching_result option res" where
  "affected_group_matching_canonical requirement_count items =
     bind_res (validated_hash_masks requirement_count items) (\<lambda>validated.
     bind_res (check_hash_order None validated) (\<lambda>_.
       Inr (affected_group_matching_from_canonical (nat requirement_count) validated)))"

definition affected_group_matching ::
    "int \<Rightarrow> (string \<times> int) list \<Rightarrow> affected_matching_result option res" where
  "affected_group_matching requirement_count items =
     bind_res (validated_hash_masks requirement_count items) (\<lambda>validated.
       Inr (map_option (\<lambda>res. res\<lparr>am_work := work_add (am_work res)
              (no_work\<lparr>wc_canonical_sort_items := int (length validated)\<rparr>)\<rparr>)
           (affected_group_matching_from_canonical (nat requirement_count) (sort validated))))"

section \<open>One search\<close>

definition hashes_of :: "string list list \<Rightarrow> string set" where
  "hashes_of cands = \<Union> (set (map set cands))"

text \<open>The two dictionaries are the two directions of one matching along edges.\<close>

definition search_inv :: "string list list \<Rightarrow> search \<Rightarrow> bool" where
  "search_inv cands s \<longleftrightarrow>
     (\<forall>h i. dget (se_hash_owner s) h = Some i \<longleftrightarrow> dget (se_requirement_hash s) i = Some h) \<and>
     (\<forall>i h. dget (se_requirement_hash s) i = Some h \<longrightarrow> i < length cands \<and> h \<in> set (cands ! i))"

text \<open>A set of requirements is closed if every hash it is adjacent to is owned inside it.\<close>

definition closed_under :: "string list list \<Rightarrow> search \<Rightarrow> nat set \<Rightarrow> bool" where
  "closed_under cands s A \<longleftrightarrow>
     (\<forall>i \<in> A. \<forall>h \<in> set (cands ! i). \<exists>j \<in> A. dget (se_hash_owner s) h = Some j)"

text \<open>A failed search: nothing is reassigned, and what it has seen is owned and exhausted.\<close>

definition search_failed :: "string list list \<Rightarrow> string list \<Rightarrow> search \<Rightarrow> search \<Rightarrow> bool" where
  "search_failed cands hs s s' \<longleftrightarrow>
     se_hash_owner s' = se_hash_owner s \<and> se_requirement_hash s' = se_requirement_hash s \<and>
     se_seen s \<subseteq> se_seen s' \<and> set hs \<subseteq> se_seen s' \<and> se_seen s' \<subseteq> se_seen s \<union> hashes_of cands \<and>
     (\<forall>h \<in> se_seen s' - se_seen s. \<exists>j. dget (se_hash_owner s) h = Some j \<and> set (cands ! j) \<subseteq> se_seen s')"

text \<open>
  A successful search from \<open>i\<close>: \<open>i\<close> owns a hash of its list; every other hash is consistent, except
  the one \<open>i\<close> owned before, which the caller is about to take.
\<close>

definition search_found :: "string list list \<Rightarrow> nat \<Rightarrow> string list \<Rightarrow> search \<Rightarrow> search \<Rightarrow> bool" where
  "search_found cands i hs s s' \<longleftrightarrow>
     (\<exists>h \<in> set hs. h \<notin> se_seen s \<and> dget (se_requirement_hash s') i = Some h) \<and>
     dom (dget (se_requirement_hash s')) = insert i (dom (dget (se_requirement_hash s))) \<and>
     (\<forall>h j. dget (se_requirement_hash s) i \<noteq> Some h \<longrightarrow>
        (dget (se_hash_owner s') h = Some j \<longleftrightarrow> dget (se_requirement_hash s') j = Some h)) \<and>
     (\<forall>h j. dget (se_requirement_hash s) i = Some h \<longrightarrow> dget (se_requirement_hash s') j \<noteq> Some h) \<and>
     (\<forall>h \<in> se_seen s. dget (se_hash_owner s') h = dget (se_hash_owner s) h) \<and>
     (\<forall>j. j \<noteq> i \<longrightarrow> (\<forall>h. dget (se_requirement_hash s) j = Some h \<longrightarrow> h \<in> se_seen s) \<longrightarrow>
        dget (se_requirement_hash s') j = dget (se_requirement_hash s) j) \<and>
     (\<forall>j h. dget (se_requirement_hash s') j = Some h \<longrightarrow> j < length cands \<and> h \<in> set (cands ! j)) \<and>
     (\<forall>A. closed_under cands s A \<longrightarrow>
        i \<notin> A \<and> (\<forall>j \<in> A. \<forall>h \<in> set (cands ! j). dget (se_hash_owner s') h = dget (se_hash_owner s) h))"

definition search_outcome ::
    "string list list \<Rightarrow> nat \<Rightarrow> string list \<Rightarrow> search \<Rightarrow> (bool \<times> search) option \<Rightarrow> bool" where
  "search_outcome cands i hs s res \<longleftrightarrow>
     (\<exists>s'. res = Some (False, s') \<and> search_failed cands hs s s') \<or>
     (\<exists>s'. res = Some (True, s') \<and> search_found cands i hs s s')"

definition search_ready :: "string list list \<Rightarrow> nat \<Rightarrow> search \<Rightarrow> bool" where
  "search_ready cands i s \<longleftrightarrow>
     search_inv cands s \<and> i < length cands \<and>
     (\<forall>h. dget (se_requirement_hash s) i = Some h \<longrightarrow> h \<in> se_seen s)"

lemma search_inv_cong:
  "se_hash_owner s' = se_hash_owner s \<Longrightarrow> se_requirement_hash s' = se_requirement_hash s \<Longrightarrow>
     search_inv cands s' = search_inv cands s"
  by (simp add: search_inv_def)

lemma closed_under_cong:
  "se_hash_owner s' = se_hash_owner s \<Longrightarrow> closed_under cands s' A = closed_under cands s A"
  by (simp add: closed_under_def)

lemma search_foundD:
  assumes "search_found cands i hs s s'"
  shows "\<exists>h \<in> set hs. h \<notin> se_seen s \<and> dget (se_requirement_hash s') i = Some h"
    and "dom (dget (se_requirement_hash s')) = insert i (dom (dget (se_requirement_hash s)))"
    and "dget (se_requirement_hash s) i \<noteq> Some h \<Longrightarrow>
      dget (se_hash_owner s') h = Some j \<longleftrightarrow> dget (se_requirement_hash s') j = Some h"
    and "dget (se_requirement_hash s) i = Some h \<Longrightarrow> dget (se_requirement_hash s') j \<noteq> Some h"
    and "h \<in> se_seen s \<Longrightarrow> dget (se_hash_owner s') h = dget (se_hash_owner s) h"
    and "j \<noteq> i \<Longrightarrow> \<forall>h. dget (se_requirement_hash s) j = Some h \<longrightarrow> h \<in> se_seen s \<Longrightarrow>
      dget (se_requirement_hash s') j = dget (se_requirement_hash s) j"
    and "dget (se_requirement_hash s') j = Some h \<Longrightarrow> j < length cands \<and> h \<in> set (cands ! j)"
    and "closed_under cands s A \<Longrightarrow> i \<notin> A"
    and "closed_under cands s A \<Longrightarrow> j \<in> A \<Longrightarrow> h \<in> set (cands ! j) \<Longrightarrow>
      dget (se_hash_owner s') h = dget (se_hash_owner s) h"
  using assms unfolding search_found_def by (simp_all only:) blast+

lemma search_failedD:
  assumes "search_failed cands hs s s'"
  shows "se_hash_owner s' = se_hash_owner s" and "se_requirement_hash s' = se_requirement_hash s"
    and "se_seen s \<subseteq> se_seen s'" and "set hs \<subseteq> se_seen s'"
    and "se_seen s' \<subseteq> se_seen s \<union> hashes_of cands"
    and "h \<in> se_seen s' \<Longrightarrow> h \<notin> se_seen s \<Longrightarrow>
      \<exists>j. dget (se_hash_owner s) h = Some j \<and> set (cands ! j) \<subseteq> se_seen s'"
  using assms unfolding search_failed_def by simp_all

lemma search_found_mono:
  assumes found: "search_found cands i hs' t s'" and sub: "set hs' \<subseteq> set hs"
    and same: "se_hash_owner t = se_hash_owner s" "se_requirement_hash t = se_requirement_hash s"
    and seen: "se_seen s \<subseteq> se_seen t"
  shows "search_found cands i hs s s'"
proof -
  from found have f: "\<exists>h \<in> set hs'. h \<notin> se_seen t \<and> dget (se_requirement_hash s') i = Some h"
    "\<forall>h \<in> se_seen t. dget (se_hash_owner s') h = dget (se_hash_owner t) h"
    "\<forall>j. j \<noteq> i \<longrightarrow> (\<forall>h. dget (se_requirement_hash t) j = Some h \<longrightarrow> h \<in> se_seen t) \<longrightarrow>
        dget (se_requirement_hash s') j = dget (se_requirement_hash t) j"
    by (simp_all add: search_found_def)
  have "\<exists>h \<in> set hs. h \<notin> se_seen s \<and> dget (se_requirement_hash s') i = Some h"
    using f(1) sub seen by blast
  moreover have "\<forall>h \<in> se_seen s. dget (se_hash_owner s') h = dget (se_hash_owner s) h"
    using f(2) seen same by auto
  moreover have "\<forall>j. j \<noteq> i \<longrightarrow> (\<forall>h. dget (se_requirement_hash s) j = Some h \<longrightarrow> h \<in> se_seen s) \<longrightarrow>
        dget (se_requirement_hash s') j = dget (se_requirement_hash s) j"
    using f(3) seen same by auto
  ultimately show ?thesis
    using found unfolding search_found_def same closed_under_cong [OF same(1)]
    by (elim conjE) (intro conjI; assumption)
qed

lemma search_found_free:
  assumes ready: "search_ready cands i s" and h: "h \<in> set hs" "set hs \<subseteq> set (cands ! i)" "h \<notin> se_seen s"
    and free: "dget (se_hash_owner s) h = None"
    and t: "se_hash_owner t = se_hash_owner s" "se_requirement_hash t = se_requirement_hash s"
  shows "search_found cands i hs s (assign_hash h i t)"
proof -
  have cons: "\<And>h i. dget (se_hash_owner s) h = Some i \<longleftrightarrow> dget (se_requirement_hash s) i = Some h"
    and edge: "\<And>j h. dget (se_requirement_hash s) j = Some h \<Longrightarrow> j < length cands \<and> h \<in> set (cands ! j)"
    and i: "i < length cands" and own: "\<And>h. dget (se_requirement_hash s) i = Some h \<Longrightarrow> h \<in> se_seen s"
    using ready by (auto simp: search_ready_def search_inv_def)
  have hi: "h \<in> set (cands ! i)" using h by blast
  have none: "dget (se_requirement_hash s) j \<noteq> Some h" for j using cons free by (metis option.distinct(1))
  have uniq: "dget (se_requirement_hash s) a = Some x \<Longrightarrow> dget (se_requirement_hash s) b = Some x \<Longrightarrow> a = b" for a b x
    using cons by (metis option.inject)
  have closed: "i \<notin> A \<and> (\<forall>j \<in> A. \<forall>h' \<in> set (cands ! j). h' \<noteq> h)" if "closed_under cands s A" for A
    using that hi free unfolding closed_under_def by (metis option.distinct(1))
  show ?thesis
    unfolding search_found_def assign_hash_def
    using h hi none cons edge i own closed uniq by (auto simp: t dest: uniq)
qed

lemma search_found_take:
  assumes ready: "search_ready cands i s" and h: "h \<in> set hs" "set hs \<subseteq> set (cands ! i)" "h \<notin> se_seen s"
    and owner: "dget (se_hash_owner s) h = Some j"
    and t: "se_hash_owner t = se_hash_owner s" "se_requirement_hash t = se_requirement_hash s"
      "se_seen t = insert h (se_seen s)"
    and found: "search_found cands j (cands ! j) t s'"
  shows "search_found cands i hs s (assign_hash h i s')"
proof -
  have cons: "\<And>h i. dget (se_hash_owner s) h = Some i \<longleftrightarrow> dget (se_requirement_hash s) i = Some h"
    and i: "i < length cands" and own: "\<And>h. dget (se_requirement_hash s) i = Some h \<Longrightarrow> h \<in> se_seen s"
    using ready by (auto simp: search_ready_def search_inv_def)
  have hi: "h \<in> set (cands ! i)" using h by blast
  have j: "dget (se_requirement_hash s) j = Some h" using cons owner by blast
  have ij: "i \<noteq> j" using j own h(3) by blast
  note F = search_foundD [OF found, unfolded t closed_under_cong [OF t(1)]]
  have f1: "dom (dget (se_requirement_hash s')) = dom (dget (se_requirement_hash s))"
    using F(2) j by (simp add: insert_absorb domI)
  have f2: "dget (se_hash_owner s') x = Some k \<longleftrightarrow> dget (se_requirement_hash s') k = Some x" if "x \<noteq> h" for x k
    by (rule F(3)) (use j that in simp)
  have f3: "dget (se_requirement_hash s') k \<noteq> Some h" for k using F(4) [OF j] .
  have f4: "dget (se_hash_owner s') x = dget (se_hash_owner s) x" if "x \<in> se_seen s" for x
    by (rule F(5)) (use that in simp)
  have f5: "dget (se_requirement_hash s') k = dget (se_requirement_hash s) k"
    if "k \<noteq> j" "\<forall>x. dget (se_requirement_hash s) k = Some x \<longrightarrow> x \<in> se_seen s" for k
    by (rule F(6)) (use that in auto)
  note f6 = F(7)
  have f7: "j \<notin> A \<and> (\<forall>k \<in> A. \<forall>x \<in> set (cands ! k). dget (se_hash_owner s') x = dget (se_hash_owner s) x)"
    if "closed_under cands s A" for A
    using F(8) [OF that] F(9) [OF that] by blast
  have same_i: "dget (se_requirement_hash s') i = dget (se_requirement_hash s) i"
    using f5 [OF ij] own by blast
  have closed: "i \<notin> A \<and> (\<forall>k \<in> A. \<forall>x \<in> set (cands ! k). x \<noteq> h)" if A: "closed_under cands s A" for A
  proof -
    have "h \<notin> set (cands ! k)" if "k \<in> A" for k
    proof
      assume "h \<in> set (cands ! k)"
      then have "j \<in> A" using A that owner unfolding closed_under_def by (metis option.inject)
      then show False using f7 [OF A] by blast
    qed
    then show ?thesis using hi by blast
  qed
  let ?O = "(dget (se_hash_owner s'))(h \<mapsto> i)" and ?R = "(dget (se_requirement_hash s'))(i \<mapsto> h)"
  have res: "dget (se_hash_owner (assign_hash h i s')) = ?O"
    "dget (se_requirement_hash (assign_hash h i s')) = ?R" by (simp_all add: assign_hash_def)
  show ?thesis
    unfolding search_found_def res
  proof (intro conjI allI impI ballI)
    show "\<exists>x \<in> set hs. x \<notin> se_seen s \<and> ?R i = Some x" using h by auto
    show "dom ?R = insert i (dom (dget (se_requirement_hash s)))" using f1 by simp
    show "?O x = Some k \<longleftrightarrow> ?R k = Some x" if "dget (se_requirement_hash s) i \<noteq> Some x" for x k
      using f2 [of x k] f3 [of k] same_i that by auto
    show "?R k \<noteq> Some x" if x: "dget (se_requirement_hash s) i = Some x" for x k
    proof -
      have xh: "x \<noteq> h" using own [OF x] h(3) by blast
      have "dget (se_hash_owner s') x = Some i" using f4 [OF own [OF x]] cons x by simp
      then show ?thesis using f2 [OF xh, of k] xh by auto
    qed
    show "?O x = dget (se_hash_owner s) x" if "x \<in> se_seen s" for x using f4 [OF that] that h(3) by auto
    show "?R k = dget (se_requirement_hash s) k"
      if "k \<noteq> i" "\<forall>x. dget (se_requirement_hash s) k = Some x \<longrightarrow> x \<in> se_seen s" for k
      using that f5 [of k] j h(3) by auto
    show "k < length cands" if "?R k = Some x" for k x using that f6 [of k x] i by (auto split: if_splits)
    show "x \<in> set (cands ! k)" if "?R k = Some x" for k x using that f6 [of k x] hi by (auto split: if_splits)
    show "i \<notin> A" if "closed_under cands s A" for A using closed [OF that] by blast
    show "?O x = dget (se_hash_owner s) x" if "closed_under cands s A" "k \<in> A" "x \<in> set (cands ! k)" for A k x
      using closed [OF that(1)] f7 [OF that(1)] that(2,3) by auto
  qed
qed

lemma search_failed_then:
  assumes "search_failed cands (cands ! j) t s3" and "search_failed cands hs s3 s'"
    and t: "se_hash_owner t = se_hash_owner s" "se_requirement_hash t = se_requirement_hash s"
      "se_seen t = insert h (se_seen s)"
    and owner: "dget (se_hash_owner s) h = Some j" and h: "h \<in> hashes_of cands"
  shows "search_failed cands (h # hs) s s'"
proof -
  note A = search_failedD [OF assms(1), unfolded t] and B = search_failedD [OF assms(2)]
  have same: "se_hash_owner s3 = se_hash_owner s" "se_requirement_hash s3 = se_requirement_hash s"
    by (rule A)+
  note B = B [unfolded same]
  have sub: "se_seen s3 \<subseteq> se_seen s'" "insert h (se_seen s) \<subseteq> se_seen s3" by (rule A B)+
  have "\<exists>k. dget (se_hash_owner s) x = Some k \<and> set (cands ! k) \<subseteq> se_seen s'"
    if x: "x \<in> se_seen s'" "x \<notin> se_seen s" for x
  proof -
    consider "x \<notin> se_seen s3" | "x \<in> se_seen s3" "x \<notin> insert h (se_seen s)" | "x = h"
      using x by blast
    then show ?thesis
    proof cases
      case 1 then show ?thesis using B(6) [OF x(1)] by blast
    next
      case 2 then show ?thesis using A(6) sub(1) by blast
    next
      case 3 then show ?thesis using A(4) owner sub(1) by blast
    qed
  qed
  moreover have "se_seen s' \<subseteq> se_seen s \<union> hashes_of cands" using A(5) B(5) h by blast
  moreover have "set (h # hs) \<subseteq> se_seen s'" using B(4) sub by auto
  moreover have "se_seen s \<subseteq> se_seen s'" using sub by blast
  ultimately show ?thesis unfolding search_failed_def using B(1,2) by simp
qed

lemma try_candidates_outcome:
  assumes rec: "\<And>j t. search_ready cands j t \<Longrightarrow> card (hashes_of cands - se_seen t) < fuel \<Longrightarrow>
      search_outcome cands j (cands ! j) t (search_from j t)"
    and "search_ready cands i s" and "set hs \<subseteq> set (cands ! i)"
    and "card (hashes_of cands - se_seen s) \<le> fuel"
  shows "search_outcome cands i hs s (try_candidates search_from i hs s)"
  using assms(2-4)
proof (induction hs arbitrary: s)
  case Nil
  then show ?case by (simp add: search_outcome_def search_failed_def)
next
  case (Cons h hs)
  let ?s1 = "s\<lparr>se_edge_visits := se_edge_visits s + 1\<rparr>"
  have i: "i < length cands" using Cons.prems(1) by (simp add: search_ready_def)
  have H: "h \<in> hashes_of cands" "finite (hashes_of cands)"
    using Cons.prems(2) i by (auto simp: hashes_of_def intro!: bexI [of _ "cands ! i"])
  have later: "search_outcome cands i (h # hs) s (try_candidates search_from i hs t)"
    if t: "se_hash_owner t = se_hash_owner s" "se_requirement_hash t = se_requirement_hash s"
      "se_seen s \<subseteq> se_seen t"
      and failed: "\<And>s'. search_failed cands hs t s' \<Longrightarrow> search_failed cands (h # hs) s s'" for t
  proof -
    have "search_ready cands i t"
      using Cons.prems(1) t unfolding search_ready_def search_inv_cong [OF t(1,2)] by auto
    moreover have "card (hashes_of cands - se_seen t) \<le> fuel"
      using Cons.prems(3) t(3) H(2) by (meson Diff_mono card_mono finite_Diff le_trans order_refl)
    ultimately have "search_outcome cands i hs t (try_candidates search_from i hs t)"
      using Cons.prems(2) by (intro Cons.IH) simp_all
    then show ?thesis
      using failed search_found_mono [OF _ _ t, of cands i hs _ "h # hs"]
      unfolding search_outcome_def by auto
  qed
  show ?case
  proof (cases "h \<in> se_seen s")
    case True
    have "search_failed cands (h # hs) s s'" if "search_failed cands hs ?s1 s'" for s'
      using that True by (auto simp: search_failed_def)
    with later [of ?s1] True show ?thesis by simp
  next
    case False
    let ?s2 = "s\<lparr>se_edge_visits := se_edge_visits s + 1, se_seen := insert h (se_seen s)\<rparr>"
    show ?thesis
    proof (cases "dget (se_hash_owner s) h")
      case None
      then show ?thesis
        using search_found_free [OF Cons.prems(1) _ Cons.prems(2) False None, of ?s2] False
        by (auto simp: search_outcome_def)
    next
      case (Some j)
      have "dget (se_requirement_hash s) j = Some h"
        using Cons.prems(1) Some by (simp add: search_ready_def search_inv_def)
      then have ready: "search_ready cands j ?s2"
        using Cons.prems(1) by (auto simp: search_ready_def search_inv_def)
      have "hashes_of cands - insert h (se_seen s) \<subset> hashes_of cands - se_seen s"
        using H(1) False by blast
      then have "card (hashes_of cands - se_seen ?s2) < fuel"
        using Cons.prems(3) H(2) by (metis (no_types, lifting) finite_Diff order_less_le_trans
            psubset_card_mono search.select_convs(5) search.simps(11) search.surjective)
      from rec [OF ready this] consider s3 where "search_from j ?s2 = Some (False, s3)"
          "search_failed cands (cands ! j) ?s2 s3"
        | s3 where "search_from j ?s2 = Some (True, s3)" "search_found cands j (cands ! j) ?s2 s3"
        unfolding search_outcome_def by blast
      then show ?thesis
      proof cases
        case 1
        have "search_outcome cands i (h # hs) s (try_candidates search_from i hs s3)"
        proof (rule later)
          show "se_hash_owner s3 = se_hash_owner s" "se_requirement_hash s3 = se_requirement_hash s"
            "se_seen s \<subseteq> se_seen s3" using 1(2) by (auto simp: search_failed_def)
          show "search_failed cands (h # hs) s s'" if "search_failed cands hs s3 s'" for s'
            using search_failed_then [OF 1(2) that _ _ _ Some H(1)] by simp
        qed
        then show ?thesis using False Some 1(1) by simp
      next
        case 2
        have "search_found cands i (h # hs) s (assign_hash h i s3)"
          by (rule search_found_take [OF Cons.prems(1) _ Cons.prems(2) False Some _ _ _ 2(2)]) simp_all
        then show ?thesis using False Some 2(1) by (simp add: search_outcome_def)
      qed
    qed
  qed
qed

lemma augment_outcome:
  assumes "search_ready cands i s" and "card (hashes_of cands - se_seen s) < fuel"
  shows "search_outcome cands i (cands ! i) s (augment fuel cands i s)"
  using assms
proof (induction fuel arbitrary: i s)
  case (Suc fuel)
  let ?s = "s\<lparr>se_requirement_visits := se_requirement_visits s + 1\<rparr>"
  have "search_ready cands i ?s" using Suc.prems(1) by (simp add: search_ready_def search_inv_def)
  from try_candidates_outcome [OF Suc.IH this order_refl] Suc.prems(2)
  have "search_outcome cands i (cands ! i) ?s (try_candidates (augment fuel cands) i (cands ! i) ?s)"
    by simp
  then show ?case
    using search_found_mono [of cands i "cands ! i" ?s _ "cands ! i" s]
    by (auto simp: search_outcome_def search_failed_def)
qed simp

end
