(* ===== verification/GL_MatchingProofs.thy ===== *)
theory GL_MatchingProofs
  imports GL_Matching
begin

text \<open>
  The augmenting-path kernel always returns, its pairs form a maximum matching, and the size of
  that matching is the one the Hall kernel maintains.  The argument is the deficiency form of
  Hall's theorem: the requirements left without a hash lie in a closed set, whose adjacent hashes
  are all owned inside it.
\<close>

unbundle bit_operations_syntax

section \<open>Matchings of a bipartite graph\<close>

definition adjacent :: "string list list \<Rightarrow> nat set \<Rightarrow> string set" where
  "adjacent cands S = (\<Union>i \<in> S. set (cands ! i))"

definition is_matching :: "string list list \<Rightarrow> (nat \<times> string) set \<Rightarrow> bool" where
  "is_matching cands P \<longleftrightarrow>
     (\<forall>(i, h) \<in> P. i < length cands \<and> h \<in> set (cands ! i)) \<and> inj_on fst P \<and> inj_on snd P"

lemma matching_finite: "is_matching cands P \<Longrightarrow> finite P"
proof -
  assume m: "is_matching cands P"
  then have "fst ` P \<subseteq> {..<length cands}" by (auto simp: is_matching_def)
  then have "finite (fst ` P)" by (rule finite_subset) simp
  then show "finite P" using m finite_imageD by (auto simp: is_matching_def)
qed

text \<open>Every set of requirements bounds every matching.\<close>

lemma matching_deficiency:
  assumes m: "is_matching cands P" and S: "S \<subseteq> {..<length cands}"
  shows "card P + card S \<le> length cands + card (adjacent cands S)"
proof -
  let ?in = "{p \<in> P. fst p \<in> S}" and ?out = "{p \<in> P. fst p \<notin> S}"
  have fin: "finite P" by (rule matching_finite [OF m])
  have inj: "inj_on fst P" "inj_on snd P" using m by (simp_all add: is_matching_def)
  have "finite (adjacent cands S)" using S by (auto simp: adjacent_def intro: finite_subset)
  moreover have "snd ` ?in \<subseteq> adjacent cands S" using m by (force simp: adjacent_def is_matching_def)
  ultimately have "card ?in \<le> card (adjacent cands S)"
    by (intro card_inj_on_le [of snd ?in] inj_on_subset [OF inj(2)]) auto
  moreover have "card ?out \<le> card ({..<length cands} - S)"
  proof (rule card_inj_on_le)
    show "inj_on fst ?out" by (rule inj_on_subset [OF inj(1)]) auto
    show "fst ` ?out \<subseteq> {..<length cands} - S" using m by (auto simp: is_matching_def)
  qed simp
  moreover have "card ({..<length cands} - S) = length cands - card S"
    using S by (simp add: card_Diff_subset finite_subset)
  moreover have "card P = card ?in + card ?out"
    using fin by (subst card_Un_disjoint [symmetric]) (auto intro: arg_cong [where f = card])
  moreover have "card S \<le> length cands" using S by (metis card_lessThan card_mono finite_lessThan)
  ultimately show ?thesis by linarith
qed

section \<open>The outer loop\<close>

definition matched :: "search \<Rightarrow> nat set" where
  "matched s = dom (dget (se_requirement_hash s))"

definition loop_inv :: "string list list \<Rightarrow> nat \<Rightarrow> search \<Rightarrow> bool" where
  "loop_inv cands k s \<longleftrightarrow> search_inv cands s \<and> matched s \<subseteq> {..<k} \<and>
     (\<exists>A \<subseteq> {..<k}. {..<k} - matched s \<subseteq> A \<and> closed_under cands s A)"

lemma loop_failed:
  assumes inv: "loop_inv cands k s"
    and failed: "search_failed cands (cands ! k) (s\<lparr>se_seen := {}\<rparr>) s'"
  shows "loop_inv cands (Suc k) s'"
proof -
  from inv obtain A where s: "search_inv cands s" "matched s \<subseteq> {..<k}"
    and A: "A \<subseteq> {..<k}" "{..<k} - matched s \<subseteq> A" "closed_under cands s A"
    by (auto simp: loop_inv_def)
  note F = search_failedD [OF failed, simplified]
  let ?B = "{j. \<exists>h \<in> se_seen s'. dget (se_hash_owner s) h = Some j}"
  let ?A = "insert k (A \<union> ?B)"
  have B: "?B \<subseteq> matched s" using s(1) by (auto simp: search_inv_def matched_def)
  have own: "\<exists>j. dget (se_hash_owner s) h = Some j \<and> j \<in> ?B" if "h \<in> se_seen s'" for h
    using F(6) [OF that] that by blast
  have closed: "closed_under cands s ?A"
    unfolding closed_under_def
  proof (intro ballI)
    fix i h assume i: "i \<in> ?A" and h: "h \<in> set (cands ! i)"
    consider "i \<in> A" | "i = k" | "i \<in> ?B" using i by blast
    then show "\<exists>j \<in> ?A. dget (se_hash_owner s) h = Some j"
    proof cases
      case 1 then show ?thesis using A(3) h unfolding closed_under_def by blast
    next
      case 2 then show ?thesis using F(4) h own by blast
    next
      case 3
      then obtain h0 where "h0 \<in> se_seen s'" "dget (se_hash_owner s) h0 = Some i" by blast
      then have "set (cands ! i) \<subseteq> se_seen s'" using F(6) by force
      then show ?thesis using h own by blast
    qed
  qed
  have "A \<union> ?B \<subseteq> {..<k}" using A(1) B s(2) by blast
  then have sub: "?A \<subseteq> {..<Suc k}" unfolding lessThan_Suc by blast
  have left: "{..<Suc k} - matched s \<subseteq> ?A" unfolding lessThan_Suc using A(2) by blast
  have same: "matched s' = matched s" using F(2) by (simp add: matched_def)
  show ?thesis
    unfolding loop_inv_def same search_inv_cong [OF F(1,2)] closed_under_cong [OF F(1)]
  proof (intro conjI exI [of _ ?A])
    show "matched s \<subseteq> {..<Suc k}" unfolding lessThan_Suc using s(2) by blast
  qed (fact s(1) sub left closed)+
qed

lemma loop_found:
  assumes inv: "loop_inv cands k s"
    and found: "search_found cands k (cands ! k) (s\<lparr>se_seen := {}\<rparr>) s'"
  shows "loop_inv cands (Suc k) s'"
proof -
  from inv obtain A where s: "search_inv cands s" "matched s \<subseteq> {..<k}"
    and A: "A \<subseteq> {..<k}" "{..<k} - matched s \<subseteq> A" "closed_under cands s A"
    by (auto simp: loop_inv_def)
  note F = search_foundD [OF found, simplified]
  have none: "dget (se_requirement_hash s) k = None" using s(2) by (auto simp: matched_def)
  have matched: "matched s' = insert k (matched s)" using F(2) by (simp add: matched_def)
  have "search_inv cands s'"
    unfolding search_inv_def using F(3,7) none by (metis option.distinct(1))
  moreover have "closed_under cands (s\<lparr>se_seen := {}\<rparr>) A" using A(3) by (simp add: closed_under_def)
  then have "closed_under cands s' A"
    using A(3) F(9) unfolding closed_under_def by metis
  moreover have "matched s' \<subseteq> {..<Suc k}" "{..<Suc k} - matched s' \<subseteq> A" "A \<subseteq> {..<Suc k}"
    unfolding matched lessThan_Suc using s(2) A(1,2) by blast+
  ultimately show ?thesis unfolding loop_inv_def by blast
qed

lemma search_all_ok:
  assumes "loop_inv cands k s" and "k \<le> length cands" and "card (hashes_of cands) < fuel"
  shows "\<exists>s'. search_all fuel cands [k..<length cands] s = Some s' \<and> loop_inv cands (length cands) s'"
  using assms(1,2)
proof (induction "length cands - k" arbitrary: k s)
  case 0
  then show ?case by simp
next
  case (Suc n)
  then have k: "k < length cands" by simp
  let ?s = "s\<lparr>se_seen := {}\<rparr>"
  have "dget (se_requirement_hash s) k = None"
    using Suc.prems(1) by (auto simp: loop_inv_def matched_def)
  then have "search_ready cands k ?s"
    using Suc.prems(1) k by (simp add: search_ready_def loop_inv_def search_inv_def)
  from augment_outcome [OF this, of fuel] assms(3)
  have "search_outcome cands k (cands ! k) ?s (augment fuel cands k ?s)" by simp
  then obtain b s' where s': "augment fuel cands k ?s = Some (b, s')" "loop_inv cands (Suc k) s'"
    using loop_failed [OF Suc.prems(1)] loop_found [OF Suc.prems(1)] by (auto simp: search_outcome_def)
  with Suc.hyps(1) [of "Suc k" s'] Suc.hyps(2) k show ?case by (simp add: upt_conv_Cons)
qed

section \<open>The result is a maximum matching\<close>

definition pair_set :: "matching_pair list \<Rightarrow> (nat \<times> string) set" where
  "pair_set ps = (\<lambda>p. (mp_requirement_ordinal p, mp_text_hash p)) ` set ps"

lemma matching_pairs_eq:
  "matching_pairs r s =
     map (\<lambda>i. \<lparr>mp_requirement_ordinal = i, mp_text_hash = the (dget (se_requirement_hash s) i)\<rparr>)
       (filter (\<lambda>i. i \<in> matched s) [0..<r])"
proof -
  have "concat (map (\<lambda>i. case dget (se_requirement_hash s) i of None \<Rightarrow> []
       | Some h \<Rightarrow> [\<lparr>mp_requirement_ordinal = i, mp_text_hash = h\<rparr>]) xs) =
     map (\<lambda>i. \<lparr>mp_requirement_ordinal = i, mp_text_hash = the (dget (se_requirement_hash s) i)\<rparr>)
       (filter (\<lambda>i. i \<in> matched s) xs)" for xs
    by (induction xs) (auto simp: matched_def split: option.split)
  then show ?thesis by (simp add: matching_pairs_def)
qed

lemma matching_pairs_maximum:
  assumes inv: "loop_inv cands (length cands) s"
  defines "ps \<equiv> matching_pairs (length cands) s"
  shows "is_matching cands (pair_set ps)" and "card (pair_set ps) = length ps"
    and "\<exists>A \<subseteq> {..<length cands}. length ps + card A = length cands + card (adjacent cands A)"
    and "is_matching cands P \<Longrightarrow> card P \<le> length ps"
proof -
  let ?R = "dget (se_requirement_hash s)" and ?O = "dget (se_hash_owner s)" and ?r = "length cands"
  from inv obtain A where cons: "\<And>h i. ?O h = Some i \<longleftrightarrow> ?R i = Some h"
    and edge: "\<And>i h. ?R i = Some h \<Longrightarrow> i < ?r \<and> h \<in> set (cands ! i)"
    and sub: "matched s \<subseteq> {..<?r}"
    and A: "A \<subseteq> {..<?r}" "{..<?r} - matched s \<subseteq> A" "closed_under cands s A"
    by (auto simp: loop_inv_def search_inv_def)
  have set_ps: "pair_set ps = {(i, h). ?R i = Some h}"
    unfolding ps_def pair_set_def matching_pairs_eq using sub by (force simp: matched_def)
  have len: "length ps = card (matched s)"
  proof -
    have "length ps = card (set (filter (\<lambda>i. i \<in> matched s) [0..<?r]))"
      unfolding ps_def matching_pairs_eq by (simp add: distinct_card del: set_filter)
    also have "set (filter (\<lambda>i. i \<in> matched s) [0..<?r]) = matched s" using sub by auto
    finally show ?thesis .
  qed
  show matching: "is_matching cands (pair_set ps)"
    unfolding is_matching_def set_ps
  proof (intro conjI)
    show "inj_on snd {(i, h). ?R i = Some h}"
      by (rule inj_onI) (use cons in \<open>auto, metis option.inject\<close>)
  qed (use edge in \<open>auto simp: inj_on_def\<close>)
  have "card (pair_set ps) = card (fst ` pair_set ps)"
    using matching by (simp add: is_matching_def card_image)
  also have "fst ` pair_set ps = matched s" unfolding set_ps matched_def by force
  finally show size: "card (pair_set ps) = length ps" using len by simp
  have bij: "bij_betw (\<lambda>j. the (?R j)) (A \<inter> matched s) (adjacent cands A)"
    unfolding bij_betw_def
  proof
    show "inj_on (\<lambda>j. the (?R j)) (A \<inter> matched s)"
    proof (rule inj_onI)
      fix i j assume "i \<in> A \<inter> matched s" "j \<in> A \<inter> matched s" "the (?R i) = the (?R j)"
      then have "?R i = ?R j" "?R i \<noteq> None" by (auto simp: matched_def)
      then show "i = j" using cons by (metis option.exhaust option.inject)
    qed
    have "h \<in> adjacent cands A \<longleftrightarrow> (\<exists>j \<in> A. ?R j = Some h)" for h
      using A(3) edge unfolding adjacent_def closed_under_def cons by blast
    then have "adjacent cands A = {h. \<exists>j \<in> A. ?R j = Some h}" by blast
    moreover have "(\<lambda>j. the (f j)) ` (A \<inter> dom f) = {h. \<exists>j \<in> A. f j = Some h}"
      for f :: "nat \<rightharpoonup> string"
      by (auto simp: image_iff dom_def) (metis (mono_tags, lifting) Int_iff mem_Collect_eq option.sel)
    ultimately show "(\<lambda>j. the (?R j)) ` (A \<inter> matched s) = adjacent cands A"
      unfolding matched_def by simp
  qed
  have fin: "finite A" using A(1) finite_subset by blast
  have "card (adjacent cands A) = card (A \<inter> matched s)" using bij by (simp add: bij_betw_same_card)
  moreover have "card A = card (A \<inter> matched s) + card ({..<?r} - matched s)"
  proof -
    have "A - matched s = {..<?r} - matched s" using A(1,2) by blast
    then show ?thesis using fin card_Int_Diff [of A "matched s"] by simp
  qed
  moreover have "card ({..<?r} - matched s) + card (matched s) = ?r"
    using card_Diff_subset [OF finite_subset [OF sub finite_lessThan] sub] card_mono [OF finite_lessThan sub]
    by simp
  ultimately have tight: "length ps + card A = ?r + card (adjacent cands A)" using len by linarith
  then show "\<exists>A \<subseteq> {..<?r}. length ps + card A = ?r + card (adjacent cands A)" using A(1) by blast
  show "card P \<le> length ps" if "is_matching cands P"
    using matching_deficiency [OF that A(1)] tight by linarith
qed

section \<open>Candidates of a list of masks\<close>

lemma fold_add_candidate:
  assumes "length cands = r" and "k \<le> r"
  shows "fold (add_candidate h m) [0..<k] cands =
     map (\<lambda>i. if i < k \<and> bit m i then cands ! i @ [h] else cands ! i) [0..<r]"
  using assms(2)
proof (induction k)
  case 0
  then show ?case using assms(1) map_nth [of cands] by simp
next
  case (Suc k)
  let ?c = "map (\<lambda>i. if i < k \<and> bit m i then cands ! i @ [h] else cands ! i) [0..<r]"
  have step: "fold (add_candidate h m) [0..<Suc k] cands = add_candidate h m k ?c"
    using Suc by simp
  show ?case
    unfolding step unfolding add_candidate_def and_exp_eq_0
    using Suc.prems by (auto simp: nth_list_update less_Suc_eq intro!: nth_equalityI)
qed

lemma candidate_lists_eq:
  "candidate_lists r canonical = map (\<lambda>i. map fst (filter (\<lambda>(h, m). bit m i) canonical)) [0..<r]"
proof -
  have "length cands = r \<Longrightarrow>
      fold (\<lambda>(h, m). fold (add_candidate h m) [0..<r]) canonical cands =
      map (\<lambda>i. cands ! i @ map fst (filter (\<lambda>(h, m). bit m i) canonical)) [0..<r]" for cands
  proof (induction canonical arbitrary: cands)
    case Nil
    then show ?case using map_nth [of cands] by simp
  next
    case (Cons p canonical)
    obtain h m where p: "p = (h, m)" by (cases p)
    have "fold (add_candidate h m) [0..<r] cands =
        map (\<lambda>i. if i < r \<and> bit m i then cands ! i @ [h] else cands ! i) [0..<r]"
      using Cons.prems by (rule fold_add_candidate) simp
    then show ?case using Cons.IH by (simp add: p)
  qed
  from this [of "replicate r []"] show ?thesis by (simp add: candidate_lists_def)
qed

lemma hashes_of_candidates: "hashes_of (candidate_lists r canonical) \<subseteq> fst ` set canonical"
  by (force simp: hashes_of_def candidate_lists_eq)

lemma affected_matching_total:
  "\<exists>res. affected_group_matching_from_canonical r canonical = Some res \<and>
     am_requirement_count res = r \<and>
     is_matching (candidate_lists r canonical) (pair_set (am_pairs res)) \<and>
     card (pair_set (am_pairs res)) = matching_size res \<and>
     (\<forall>P. is_matching (candidate_lists r canonical) P \<longrightarrow> card P \<le> matching_size res) \<and>
     (\<exists>A \<subseteq> {..<r}. matching_size res + card A = r + card (adjacent (candidate_lists r canonical) A))"
proof -
  let ?c = "candidate_lists r canonical"
  have len: "length ?c = r" by (simp add: candidate_lists_eq)
  have "card (hashes_of ?c) \<le> card (fst ` set canonical)"
    by (rule card_mono) (use hashes_of_candidates in auto)
  also have "\<dots> \<le> length canonical" by (metis card_length length_map set_map)
  finally have fuel: "card (hashes_of ?c) < Suc (length canonical)" by simp
  have "loop_inv ?c 0 new_search"
    by (simp add: loop_inv_def search_inv_def new_search_def matched_def closed_under_def)
  from search_all_ok [OF this _ fuel] len obtain s where
    s: "search_all (Suc (length canonical)) ?c [0..<r] new_search = Some s" "loop_inv ?c r s" by auto
  from s(2) len have "loop_inv ?c (length ?c) s" by simp
  note max = matching_pairs_maximum [OF this, unfolded len]
  show ?thesis
    using max s(1) by (simp add: affected_group_matching_from_canonical_def matching_size_def)
qed

section \<open>The two kernels agree\<close>

text \<open>The candidates of a requirement are the hashes whose mask has its bit.\<close>

lemma candidate_lists_masks:
  assumes "distinct (map fst canonical)" and "i < r"
  shows "set (candidate_lists r canonical ! i) = {h. \<exists>m. map_of canonical h = Some m \<and> bit m i}"
proof -
  have "h \<in> fst ` {(h, m) \<in> set canonical. bit m i} \<longleftrightarrow> (\<exists>m. (h, m) \<in> set canonical \<and> bit m i)" for h
    by force
  then show ?thesis using assms by (auto simp: candidate_lists_eq)
qed

lemma adjacent_masks:
  assumes "distinct (map fst canonical)" and "s < 2 ^ r"
  shows "adjacent (candidate_lists r canonical) (bits s) =
     {h. \<exists>m. map_of canonical h = Some m \<and> m AND s \<noteq> 0}"
proof -
  have "bits m \<inter> bits s \<noteq> {} \<longleftrightarrow> (\<exists>i. bit m i \<and> bit s i)" for m by auto
  then have "h \<in> adjacent (candidate_lists r canonical) (bits s) \<longleftrightarrow>
      (\<exists>m. map_of canonical h = Some m \<and> bits m \<inter> bits s \<noteq> {})" for h
    using candidate_lists_masks [OF assms(1)] bit_bound [OF assms(2)] unfolding adjacent_def by auto
  then show ?thesis by (auto simp: and_eq_0_iff_disjoint)
qed

lemma adjacent_count_masks:
  assumes "masks_ok r M"
  shows "adjacent_count (masks_histogram r M) s = int (card {h. \<exists>m. M h = Some m \<and> m AND s \<noteq> 0})"
proof -
  let ?X = "{x. x < 2 ^ r \<and> x AND s \<noteq> 0}"
  have "adjacent_count (masks_histogram r M) s = (\<Sum>x \<in> ?X. int (card {h. M h = Some x}))"
    unfolding adjacent_count_def by (rule sum.cong) (auto simp: masks_histogram_def)
  also have "\<dots> = int (card (\<Union>x \<in> ?X. {h. M h = Some x}))"
    using masks_okD(2) [OF assms] by (subst card_UN_disjoint) auto
  also have "(\<Union>x \<in> ?X. {h. M h = Some x}) = {h. \<exists>m. M h = Some m \<and> m AND s \<noteq> 0}"
    using assms by (auto simp: masks_ok_def)
  finally show ?thesis .
qed

lemma max_deficiency_Max: "max_deficiency d = Max (insert 0 (set (drop 1 d)))"
proof -
  have "max_deficiency d = Max (set (0 # drop 1 d))"
    unfolding max_deficiency_def by (simp only: Max.set_eq_fold)
  then show ?thesis by simp
qed

lemma max_deficiency_eqI:
  assumes "\<And>s. s < 2 ^ r \<Longrightarrow> int (bit_count s) - adjacent_count h s \<le> u" and "0 \<le> u"
    and "s < 2 ^ r" and "int (bit_count s) - adjacent_count h s = u"
  shows "max_deficiency (deficiency_list r h) = u"
  unfolding max_deficiency_Max
proof (rule Max_eqI)
  have entries: "set (drop 1 (deficiency_list r h)) =
      (\<lambda>s. int (bit_count s) - adjacent_count h s) ` {1..<2 ^ r}"
    by (simp add: deficiency_list_def drop_map del: One_nat_def)
  show "v \<le> u" if "v \<in> insert 0 (set (drop 1 (deficiency_list r h)))" for v
    using that assms(1,2) unfolding entries by auto
  show "u \<in> insert 0 (set (drop 1 (deficiency_list r h)))"
    unfolding entries using assms(3,4) by (cases "s = 0") auto
qed simp

lemma hall_size_is_maximum_matching:
  assumes ok: "masks_ok r (map_of canonical)" and dis: "distinct (map fst canonical)"
    and res: "affected_group_matching_from_canonical r canonical = Some res"
  shows "hs_matching_size (hall_state_of r (map_of canonical)) = int (matching_size res)"
proof -
  let ?c = "candidate_lists r canonical" and ?h = "masks_histogram r (map_of canonical)"
  have len: "length ?c = r" by (simp add: candidate_lists_eq)
  from affected_matching_total [of r canonical] res obtain A where
    m: "is_matching ?c (pair_set (am_pairs res))" "card (pair_set (am_pairs res)) = matching_size res"
    and A: "A \<subseteq> {..<r}" "matching_size res + card A = r + card (adjacent ?c A)" by auto
  let ?u = "int r - int (matching_size res)"
  have "int (bit_count s) - adjacent_count ?h s \<le> ?u" if s: "s < 2 ^ r" for s
    using matching_deficiency [OF m(1), of "bits s"] bits_subset [OF s] m(2)
    by (simp add: len bit_count adjacent_count_masks [OF ok] adjacent_masks [OF dis s])
  moreover have "0 \<le> ?u" using matching_deficiency [OF m(1), of "{}"] m(2) by (simp add: adjacent_def len)
  moreover from A(1) bits_image [of r] obtain s where s: "s < 2 ^ r" "bits s = A" by (metis PowI imageE lessThan_iff)
  moreover have "int (bit_count s) - adjacent_count ?h s = ?u"
    using A(2) unfolding s(2) [symmetric]
    by (simp add: bit_count adjacent_count_masks [OF ok] adjacent_masks [OF dis s(1)])
  ultimately have "max_deficiency (deficiency_list r ?h) = ?u" by (intro max_deficiency_eqI) auto
  then show ?thesis by (simp add: hall_state_of_def hall_of_def)
qed

lemma map_of_sort: "distinct (map fst xs) \<Longrightarrow> map_of (sort xs) = map_of (xs :: (string \<times> nat) list)"
proof -
  assume d: "distinct (map fst xs)"
  have "card (set (map fst (sort xs))) = length (map fst (sort xs))"
    using distinct_card [OF d] by simp
  then have "distinct (map fst (sort xs))" by (rule card_distinct)
  then show ?thesis using d by (intro map_of_eqI) (auto simp: map_of_eq_Some_iff)
qed

text \<open>Matchings stated over the masks, and the audit of an exact state.\<close>

definition mask_matching :: "nat \<Rightarrow> (string \<rightharpoonup> nat) \<Rightarrow> (nat \<times> string) set \<Rightarrow> bool" where
  "mask_matching r M P \<longleftrightarrow>
     (\<forall>(i, h) \<in> P. i < r \<and> (\<exists>m. M h = Some m \<and> bit m i)) \<and> inj_on fst P \<and> inj_on snd P"

lemma is_matching_masks:
  assumes "distinct (map fst canonical)"
  shows "is_matching (candidate_lists r canonical) P \<longleftrightarrow> mask_matching r (map_of canonical) P"
proof -
  have "length (candidate_lists r canonical) = r" by (simp add: candidate_lists_eq)
  then show ?thesis
    using candidate_lists_masks [OF assms] by (auto simp: is_matching_def mask_matching_def)
qed

lemma validate_hall_state_of: "masks_ok r M \<Longrightarrow> validate_hall_mask_state (hall_state_of r M) = Inr []"
  using state_from_histogram_ok [OF histogram_ok_masks]
  by (simp add: validate_hall_mask_state_def hall_state_of_def hall_of_def)

lemma check_hash_order_sorted:
  "check_hash_order prev xs = Inr () \<Longrightarrow>
     sorted xs \<and> (\<forall>p. prev = Some p \<longrightarrow> (\<forall>x \<in> set xs. p < fst x))"
proof (induction prev xs rule: check_hash_order.induct)
  case (2 prev h m items)
  then have ord: "sorted items" "\<forall>x \<in> set items. h < fst x" "\<forall>p. prev = Some p \<longrightarrow> p < h"
    by (auto split: if_splits option.splits)
  then have "\<forall>x \<in> set items. (h, m) \<le> x" by (auto simp: less_eq_prod_def)
  with ord show ?case by auto
qed simp

lemma affected_group_matching_ok:
  assumes v: "validated_hash_masks n items = Inr out"
  obtains res where "affected_group_matching_from_canonical (nat n) (sort out) = Some res"
    and "affected_group_matching n items = Inr (Some (res\<lparr>am_work :=
           work_add (am_work res) (no_work\<lparr>wc_canonical_sort_items := int (length out)\<rparr>)\<rparr>))"
    and "distinct (map fst (sort out))" and "map_of (sort out) = map_of out"
proof -
  note * = validated_hash_masks_Inr [OF v]
  from affected_matching_total [of "nat n" "sort out"] obtain res where
    res: "affected_group_matching_from_canonical (nat n) (sort out) = Some res" by blast
  have "card (set (map fst (sort out))) = length (map fst (sort out))"
    using distinct_card [OF *(4)] by simp
  then have "distinct (map fst (sort out))" by (rule card_distinct)
  with res map_of_sort [OF *(4)] show thesis
    by (intro that) (simp_all add: affected_group_matching_def v)
qed

section \<open>Properties\<close>

definition demo_masks :: "(string \<times> int) list" where
  "demo_masks = [(''x'', 3), (''y'', 1), (''z'', 4)]"

lemma demo_masks_valid: "validated_hash_masks 3 demo_masks = Inr [(''x'', 3), (''y'', 1), (''z'', 4)]"
  by code_simp

text \<open>C14: the incremental Hall state equals a rebuild.  After any batch of transitions, at most one
  per hash and each from the current mask of its hash, the kernel raises nothing and holds exactly
  the state that a fresh initialization from the resulting masks builds; the audit finds no issue,
  and the reported work is nonnegative.\<close>

theorem hall_transitions_equal_rebuild:
  assumes "validated_hash_masks n items = Inr out" and "batch_ok (nat n) ts (map_of out)"
    and "validated_hash_masks n items' = Inr out'" and "map_of out' = batch_target ts (map_of out)"
  shows "\<exists>st0 w0 st w w'. initialize_hall_from_mapping n items = Inr (st0, w0) \<and>
     apply_hash_mask_transitions st0 ts = Inr (st, w) \<and>
     initialize_hall_from_mapping n items' = Inr (st, w') \<and>
     validate_hall_mask_state st = Inr [] \<and> work_nonneg w"
proof -
  note ok = validated_hash_masks_Inr(5) [OF assms(1)]
  from initialize_hall_from_mapping_ok [OF assms(1)] obtain w0 where
    "initialize_hall_from_mapping n items = Inr (hall_state_of (nat n) (map_of out), w0)" by blast
  moreover from initialize_hall_from_mapping_ok [OF assms(3)] obtain w' where
    "initialize_hall_from_mapping n items' =
       Inr (hall_state_of (nat n) (batch_target ts (map_of out)), w')" by (auto simp: assms(4))
  ultimately show ?thesis
    using apply_hash_mask_transitions_ok [OF ok assms(2)] validate_hall_state_of by blast
qed

theorem hall_transitions_equal_rebuild_witness:
  "\<exists>st0 w0 st w w'. initialize_hall_from_mapping 3 demo_masks = Inr (st0, w0) \<and>
     apply_hash_mask_transitions st0
       [\<lparr>ht_text_hash = ''y'', ht_old_mask = 1, ht_new_mask = 6\<rparr>] = Inr (st, w) \<and>
     initialize_hall_from_mapping 3 [(''x'', 3), (''y'', 6), (''z'', 4)] = Inr (st, w') \<and>
     validate_hall_mask_state st = Inr [] \<and> work_nonneg w"
proof (rule hall_transitions_equal_rebuild [OF demo_masks_valid])
  show "batch_ok (nat 3) [\<lparr>ht_text_hash = ''y'', ht_old_mask = 1, ht_new_mask = 6\<rparr>]
      (map_of [(''x'', 3), (''y'', 1), (''z'', 4)])"
    by (simp add: batch_ok_def mask_of_def)
  show "validated_hash_masks 3 [(''x'', 3), (''y'', 6), (''z'', 4)] = Inr [(''x'', 3), (''y'', 6), (''z'', 4)]"
    by code_simp
  show "map_of [(''x'', 3), (''y'', 6), (''z'', 4)] =
      batch_target [\<lparr>ht_text_hash = ''y'', ht_old_mask = 1, ht_new_mask = 6\<rparr>]
        (map_of [(''x'', 3), (''y'', 1), (''z'', 4 :: nat)])"
    by (auto simp: batch_target_def set_mask_def)
qed

text \<open>C15: on every valid input the augmenting-path kernel returns, within its fuel, a matching of the
  masks of maximum size, with distinct requirements and distinct hashes.\<close>

theorem augmenting_matching_is_maximum:
  assumes "validated_hash_masks n items = Inr out"
  shows "\<exists>res. affected_group_matching n items = Inr (Some res) \<and>
     mask_matching (nat n) (map_of out) (pair_set (am_pairs res)) \<and>
     card (pair_set (am_pairs res)) = matching_size res \<and>
     (\<forall>P. mask_matching (nat n) (map_of out) P \<longrightarrow> card P \<le> matching_size res)"
proof -
  obtain res where res: "affected_group_matching_from_canonical (nat n) (sort out) = Some res"
    "affected_group_matching n items = Inr (Some (res\<lparr>am_work :=
       work_add (am_work res) (no_work\<lparr>wc_canonical_sort_items := int (length out)\<rparr>)\<rparr>))"
    and canon: "distinct (map fst (sort out))" "map_of (sort out) = map_of out"
    by (rule affected_group_matching_ok [OF assms])
  from affected_matching_total [of "nat n" "sort out"] res(1) show ?thesis
    unfolding is_matching_masks [OF canon(1)] canon(2) using res(2) by (auto simp: matching_size_def)
qed

theorem augmenting_matching_is_maximum_witness:
  "\<exists>res. affected_group_matching 3 demo_masks = Inr (Some res) \<and>
     (\<forall>P. mask_matching (nat 3) (map_of [(''x'', 3), (''y'', 1), (''z'', 4)]) P \<longrightarrow> card P \<le> matching_size res)"
  using augmenting_matching_is_maximum [OF demo_masks_valid] by blast

text \<open>The two kernels agree.  The matching size that the Hall kernel derives from its deficiencies
  is the size of the matching that the augmenting paths construct, and one reports a complete group
  exactly when the other does; on input already in canonical order, both augmenting entry points
  return the same pairs.\<close>

theorem matching_kernels_agree:
  assumes "validated_hash_masks n items = Inr out"
  shows "\<exists>st w res. initialize_hall_from_mapping n items = Inr (st, w) \<and>
     affected_group_matching n items = Inr (Some res) \<and>
     hs_matching_size st = int (matching_size res) \<and>
     (hall_complete st \<longleftrightarrow> matching_complete res) \<and>
     (case affected_group_matching_canonical n items of
        Inl _ \<Rightarrow> check_hash_order None out \<noteq> Inr ()
      | Inr r \<Rightarrow> map_option am_pairs r = Some (am_pairs res))"
proof -
  note * = validated_hash_masks_Inr [OF assms]
  from initialize_hall_from_mapping_ok [OF assms] obtain w where
    w: "initialize_hall_from_mapping n items = Inr (hall_state_of (nat n) (map_of out), w)" by blast
  obtain res where res: "affected_group_matching_from_canonical (nat n) (sort out) = Some res"
    "affected_group_matching n items = Inr (Some (res\<lparr>am_work :=
       work_add (am_work res) (no_work\<lparr>wc_canonical_sort_items := int (length out)\<rparr>)\<rparr>))"
    and canon: "distinct (map fst (sort out))" "map_of (sort out) = map_of out"
    by (rule affected_group_matching_ok [OF assms])
  have size: "hs_matching_size (hall_state_of (nat n) (map_of out)) = int (matching_size res)"
    using hall_size_is_maximum_matching [OF _ canon(1) res(1)] *(5) by (simp add: canon(2))
  moreover have "am_requirement_count res = nat n"
    using affected_matching_total [of "nat n" "sort out"] res(1) by auto
  ultimately have complete: "hall_complete (hall_state_of (nat n) (map_of out)) \<longleftrightarrow> matching_complete res"
    using *(1) by (auto simp: hall_complete_def matching_complete_def hall_state_of_def hall_of_def)
  have "sort out = out" if "check_hash_order None out = Inr ()"
    using check_hash_order_sorted [OF that] by (simp add: sorted_sort_id)
  then have canonical: "case affected_group_matching_canonical n items of
        Inl _ \<Rightarrow> check_hash_order None out \<noteq> Inr ()
      | Inr r \<Rightarrow> map_option am_pairs r = Some (am_pairs res)"
    using res(1)
    by (cases "check_hash_order None out") (auto simp: affected_group_matching_canonical_def assms)
  let ?res = "res\<lparr>am_work := work_add (am_work res) (no_work\<lparr>wc_canonical_sort_items := int (length out)\<rparr>)\<rparr>"
  have same: "am_pairs ?res = am_pairs res" "matching_size ?res = matching_size res"
    "matching_complete ?res = matching_complete res"
    by (simp_all add: matching_size_def matching_complete_def)
  show ?thesis
  proof (intro exI conjI)
    show "initialize_hall_from_mapping n items = Inr (hall_state_of (nat n) (map_of out), w)" by (rule w)
    show "affected_group_matching n items = Inr (Some ?res)" by (rule res(2))
  qed (unfold same, (fact size complete canonical)+)
qed

theorem matching_kernels_agree_witness:
  "\<exists>st w res. initialize_hall_from_mapping 3 demo_masks = Inr (st, w) \<and>
     affected_group_matching 3 demo_masks = Inr (Some res) \<and> hs_matching_size st = int (matching_size res)"
  using matching_kernels_agree [OF demo_masks_valid] by blast

end
