(* ===== verification/GL_EdgeCounts.thy ===== *)
theory GL_EdgeCounts
  imports GL_MatchingProofs
begin

text \<open>
  Edge multiplicities of \<open>groundloop/m5/matching.py\<close>: a requirement and a hash may be linked by
  several observations, so edges carry reference counts.  Signed deltas are coalesced per edge, and
  only the hashes whose mask changes reach the Hall kernel.
\<close>

unbundle bit_operations_syntax

section \<open>Reference counts\<close>

record edge_refcount =
  er_requirement_ordinal :: int
  er_text_hash :: string
  er_count :: int

definition make_edge_refcount :: "int \<Rightarrow> string \<Rightarrow> int \<Rightarrow> edge_refcount res" where
  "make_edge_refcount ordinal text_hash n =
     bind_res (require_integer ordinal (Some 0) None) (\<lambda>_.
     bind_res (require_text text_hash) (\<lambda>_.
     bind_res (require_integer n (Some 1) None) (\<lambda>_.
       Inr \<lparr>er_requirement_ordinal = ordinal, er_text_hash = text_hash, er_count = n\<rparr>)))"

record edge_delta =
  ed_requirement_ordinal :: int
  ed_text_hash :: string
  ed_delta :: int

definition make_edge_delta :: "int \<Rightarrow> string \<Rightarrow> int \<Rightarrow> edge_delta res" where
  "make_edge_delta ordinal text_hash d =
     bind_res (require_integer ordinal (Some 0) None) (\<lambda>_.
     bind_res (require_text text_hash) (\<lambda>_.
       if d = 0 then Inl ValidationError
       else Inr \<lparr>ed_requirement_ordinal = ordinal, ed_text_hash = text_hash, ed_delta = d\<rparr>))"

type_synonym edge_counts = "(int \<times> string, int) pydict"

text \<open>\<open>_canonical_refcount_map\<close> of an iterable of \<open>EdgeRefcount\<close>, and of a mapping.\<close>

definition refcount_step :: "int \<Rightarrow> edge_refcount \<Rightarrow> edge_counts \<Rightarrow> edge_counts res" where
  "refcount_step n item result =
     bind_res (require_integer (er_requirement_ordinal item) (Some 0) (Some (n - 1))) (\<lambda>_.
       let key = (er_requirement_ordinal item, er_text_hash item) in
       if dmem key result then Inl ValidationError else Inr (dset key (er_count item) result))"

definition canonical_refcounts :: "int \<Rightarrow> edge_refcount list \<Rightarrow> edge_counts res" where
  "canonical_refcounts n items =
     bind_res (require_requirement_count n) (\<lambda>_. fold_res (refcount_step n) items [])"

definition canonical_refcount_map :: "int \<Rightarrow> edge_counts \<Rightarrow> edge_counts res" where
  "canonical_refcount_map n counts =
     bind_res (require_requirement_count n) (\<lambda>_.
     bind_res (traverse (\<lambda>((ordinal, h), c). make_edge_refcount ordinal h c) counts) (\<lambda>items.
       fold_res (refcount_step n) items []))"

definition masks_step :: "(int \<times> string) \<times> int \<Rightarrow> (string, nat) pydict \<Rightarrow> (string, nat) pydict" where
  "masks_step entry masks =
     (let ((ordinal, h), c) = entry in
      if 0 < c then dset h (dget_default masks h 0 OR 2 ^ nat ordinal) masks else masks)"

definition masks_from_refcounts :: "edge_counts \<Rightarrow> (string, nat) pydict" where
  "masks_from_refcounts counts = fold masks_step counts []"

section \<open>Coalescing\<close>

record edge_coalescing =
  ec_refcounts :: "edge_refcount list"
  ec_transitions :: "hash_mask_transition list"
  ec_work :: work_counters

definition total_step :: "int \<Rightarrow> edge_delta \<Rightarrow> edge_counts \<Rightarrow> edge_counts res" where
  "total_step n item totals =
     bind_res (require_integer (ed_requirement_ordinal item) (Some 0) (Some (n - 1))) (\<lambda>_.
       let key = (ed_requirement_ordinal item, ed_text_hash item) in
       Inr (dset key (dget_default totals key 0 + ed_delta item) totals))"

record count_update =
  cu_changed :: "string set"
  cu_updated :: int
  cu_counts :: edge_counts

definition count_step :: "(int \<times> string) \<times> int \<Rightarrow> count_update \<Rightarrow> count_update res" where
  "count_step entry cu =
     (let (key, d) = entry in
      if d = 0 then Inr cu
      else
        let updated = dget_default (cu_counts cu) key 0 + d in
        if updated < 0 then Inl ValidationError
        else Inr \<lparr>cu_changed = insert (snd key) (cu_changed cu), cu_updated = cu_updated cu + 1,
                  cu_counts = (if updated = 0 then ddel key (cu_counts cu)
                               else dset key updated (cu_counts cu))\<rparr>)"

definition coalesce_counts :: "int \<Rightarrow> edge_counts \<Rightarrow> edge_delta list \<Rightarrow> edge_coalescing res" where
  "coalesce_counts n current deltas =
     (let additions = sum_list (map (\<lambda>i. max (ed_delta i) 0) deltas);
          removals = sum_list (map (\<lambda>i. max (- ed_delta i) 0) deltas) in
      bind_res (fold_res (total_step n) deltas []) (\<lambda>totals.
      let old_masks = masks_from_refcounts current in
      bind_res (fold_res count_step (sort totals)
          \<lparr>cu_changed = {}, cu_updated = 0, cu_counts = current\<rparr>) (\<lambda>cu.
      let new_masks = masks_from_refcounts (cu_counts cu) in
      bind_res
        (traverse (\<lambda>h. make_hash_mask_transition h (int (dget_default old_masks h 0))
                         (int (dget_default new_masks h 0)))
          (filter (\<lambda>h. dget_default old_masks h 0 \<noteq> dget_default new_masks h 0)
            (sorted_list_of_set (cu_changed cu)))) (\<lambda>transitions.
      bind_res (traverse (\<lambda>((ordinal, h), c). make_edge_refcount ordinal h c) (sort (cu_counts cu)))
        (\<lambda>refcounts.
          Inr \<lparr>ec_refcounts = refcounts, ec_transitions = transitions,
               ec_work = no_work\<lparr>wc_contribution_additions := additions,
                                 wc_contribution_removals := removals,
                                 wc_edge_refcount_keys_updated := cu_updated cu\<rparr>\<rparr>)))))"

definition coalesce_edge_multiplicity_deltas ::
    "int \<Rightarrow> edge_refcount list \<Rightarrow> edge_delta list \<Rightarrow> edge_coalescing res" where
  "coalesce_edge_multiplicity_deltas n refcounts deltas =
     bind_res (canonical_refcounts n refcounts) (\<lambda>current. coalesce_counts n current deltas)"

record edge_delta_application =
  ea_state :: hall_mask_state
  ea_refcounts :: "edge_refcount list"
  ea_transitions :: "hash_mask_transition list"
  ea_work :: work_counters

definition apply_edge_multiplicity_deltas ::
    "hall_mask_state \<Rightarrow> edge_refcount list \<Rightarrow> edge_delta list \<Rightarrow> edge_delta_application res" where
  "apply_edge_multiplicity_deltas st refcounts deltas =
     (let r = hs_requirement_count st in
      bind_res (canonical_refcounts (int r) refcounts) (\<lambda>current.
      bind_res (histogram_from_masks r (map (int \<circ> snd) (masks_from_refcounts current))) (\<lambda>expected.
      if hs_mask_histogram st \<noteq> expected then Inl ValidationError
      else
        bind_res (validate_hall_mask_state st) (\<lambda>issues.
        if issues \<noteq> [] then Inl ValidationError
        else
          bind_res (canonical_refcount_map (int r) current) (\<lambda>current'.
          bind_res (coalesce_counts (int r) current' deltas) (\<lambda>coalesced.
          bind_res (apply_hash_mask_transitions st (ec_transitions coalesced)) (\<lambda>(st', work).
            let total = work_add (ec_work coalesced) work in
            bind_res (assert_nonnegative total) (\<lambda>_.
              Inr \<lparr>ea_state = st', ea_refcounts = ec_refcounts coalesced,
                   ea_transitions = ec_transitions coalesced, ea_work = total\<rparr>))))))))"

section \<open>Counts and masks\<close>

text \<open>
  A valid count image: positive counts of edges between the \<open>r\<close> requirements and nonblank hashes.
\<close>

definition counts_ok :: "nat \<Rightarrow> edge_counts \<Rightarrow> bool" where
  "counts_ok r C \<longleftrightarrow> dict_ok C \<and>
     (\<forall>i h c. dget C (i, h) = Some c \<longrightarrow> 0 \<le> i \<and> i < int r \<and> \<not> blank_text h \<and> 1 \<le> c)"

abbreviation count_of :: "edge_counts \<Rightarrow> int \<times> string \<Rightarrow> int" where
  "count_of C k \<equiv> dget_default C k 0"

definition count_masks :: "edge_counts \<Rightarrow> string \<rightharpoonup> nat" where
  "count_masks C = dget (masks_from_refcounts C)"

lemma mask_of_dget: "mask_of (dget d) h = dget_default d h 0"
  by (simp add: mask_of_def dget_default_def)

lemma masks_steps:
  "bit (dget_default (fold masks_step C M) h 0) i \<longleftrightarrow>
     bit (dget_default M h 0) i \<or> (\<exists>j c. ((j, h), c) \<in> set C \<and> 0 < c \<and> nat j = i)"
proof (induction C arbitrary: M)
  case (Cons p C)
  obtain j k c where p: "p = ((j, k), c)" by (metis prod.collapse)
  have "bit (dget_default (masks_step p M) h 0) i \<longleftrightarrow>
      bit (dget_default M h 0) i \<or> (k = h \<and> 0 < c \<and> nat j = i)"
    by (auto simp: masks_step_def p dget_default_def bit_simps split: option.split)
  then show ?case using Cons.IH p by auto
qed simp

lemma masks_steps_range:
  assumes "\<forall>h m. dget M h = Some m \<longrightarrow> 0 < m \<and> m < 2 ^ r"
    and "\<forall>((j, h), c) \<in> set C. nat j < r"
  shows "\<forall>h m. dget (fold masks_step C M) h = Some m \<longrightarrow> 0 < m \<and> m < 2 ^ r"
  using assms
proof (induction C arbitrary: M)
  case (Cons p C)
  obtain j k c where p: "p = ((j, k), c)" by (metis prod.collapse)
  have j: "nat j < r" using Cons.prems(2) p by auto
  have old: "dget_default M k 0 < 2 ^ r" using Cons.prems(1) by (auto simp: dget_default_def split: option.split)
  have new: "dget_default M k 0 OR 2 ^ nat j < 2 ^ r"
  proof -
    have "take_bit r (dget_default M k 0 OR 2 ^ nat j) = dget_default M k 0 OR 2 ^ nat j"
      using old j by (simp add: take_bit_or take_bit_nat_eq_self)
    then show ?thesis by (metis take_bit_nat_eq_self_iff)
  qed
  have "0 < dget_default M k 0 OR 2 ^ nat j"
  proof -
    have "bit (dget_default M k 0 OR 2 ^ nat j) (nat j)" by (simp add: bit_simps)
    then show ?thesis by (metis bit_0_eq bot_apply bot_bool_def neq0_conv)
  qed
  then have "\<forall>h m. dget (masks_step p M) h = Some m \<longrightarrow> 0 < m \<and> m < 2 ^ r"
    using Cons.prems(1) new by (auto simp: masks_step_def p)
  from Cons.IH [OF this] Cons.prems(2) show ?case by simp
qed simp

lemma counts_okD:
  assumes "counts_ok r C" and "dget C (i, h) = Some c"
  shows "0 \<le> i" and "i < int r" and "\<not> blank_text h" and "1 \<le> c"
  using assms unfolding counts_ok_def by blast+

lemma count_masks_bit:
  assumes "counts_ok r C"
  shows "bit (mask_of (count_masks C) h) i \<longleftrightarrow> 0 < count_of C (int i, h)"
proof -
  have "(\<exists>j c. ((j, h), c) \<in> set C \<and> 0 < c \<and> nat j = i) \<longleftrightarrow> (\<exists>c. dget C (int i, h) = Some c \<and> 0 < c)"
  proof
    assume "\<exists>j c. ((j, h), c) \<in> set C \<and> 0 < c \<and> nat j = i"
    then obtain j c where "((j, h), c) \<in> set C" and c: "0 < c" "nat j = i" by blast
    then have "dget C (j, h) = Some c" using assms by (simp add: counts_ok_def dget_in_set)
    moreover from counts_okD(1) [OF assms this] have "j = int i" using c(2) by simp
    ultimately show "\<exists>c. dget C (int i, h) = Some c \<and> 0 < c" using c by blast
  next
    assume "\<exists>c. dget C (int i, h) = Some c \<and> 0 < c"
    then show "\<exists>j c. ((j, h), c) \<in> set C \<and> 0 < c \<and> nat j = i"
      by (meson map_of_SomeD nat_int)
  qed
  then show ?thesis
    unfolding count_masks_def mask_of_dget masks_from_refcounts_def masks_steps
    by (auto simp: dget_default_def split: option.split)
qed

lemma masks_ok_counts:
  assumes "counts_ok r C" and "1 \<le> r" and "r \<le> 8"
  shows "masks_ok r (count_masks C)"
proof -
  have "\<forall>((j, h), c) \<in> set C. nat j < r"
  proof (intro ballI, clarify)
    fix j h c assume "((j, h), c) \<in> set C"
    then have "dget C (j, h) = Some c" using assms(1) by (simp add: counts_ok_def dget_in_set)
    then have "0 \<le> j \<and> j < int r" using assms(1) unfolding counts_ok_def by blast
    then show "nat j < r" by linarith
  qed
  from masks_steps_range [OF _ this, of "[]"] show ?thesis
    using assms(2,3) by (simp add: masks_ok_def count_masks_def masks_from_refcounts_def finite_dom_map_of)
qed

text \<open>Two mask maps with the same masks are equal.\<close>

lemma masks_eqI:
  assumes "masks_ok r M" and "masks_ok r N" and "\<And>h. mask_of M h = mask_of N h"
  shows "M = N"
proof
  fix h show "M h = N h"
    using assms(3) [of h] assms(1,2)
    by (cases "M h"; cases "N h") (auto simp: mask_of_def masks_ok_def)
qed

section \<open>Coalescing is exact\<close>

definition refcounts_ok :: "nat \<Rightarrow> edge_refcount list \<Rightarrow> bool" where
  "refcounts_ok r items \<longleftrightarrow> 1 \<le> r \<and> r \<le> 8 \<and>
     distinct (map (\<lambda>e. (er_requirement_ordinal e, er_text_hash e)) items) \<and>
     (\<forall>e \<in> set items. 0 \<le> er_requirement_ordinal e \<and> er_requirement_ordinal e < int r \<and>
        \<not> blank_text (er_text_hash e) \<and> 1 \<le> er_count e)"

definition deltas_ok :: "nat \<Rightarrow> edge_delta list \<Rightarrow> bool" where
  "deltas_ok r ds \<longleftrightarrow>
     (\<forall>e \<in> set ds. 0 \<le> ed_requirement_ordinal e \<and> ed_requirement_ordinal e < int r \<and>
        \<not> blank_text (ed_text_hash e))"

definition refcount_dict :: "edge_refcount list \<Rightarrow> edge_counts" where
  "refcount_dict items = map (\<lambda>e. ((er_requirement_ordinal e, er_text_hash e), er_count e)) items"

text \<open>The sum of the deltas of an edge.\<close>

definition delta_sum :: "edge_delta list \<Rightarrow> int \<times> string \<Rightarrow> int" where
  "delta_sum ds k =
     sum_list (map (\<lambda>e. if (ed_requirement_ordinal e, ed_text_hash e) = k then ed_delta e else 0) ds)"

definition edge_record :: "(int \<times> string) \<times> int \<Rightarrow> edge_refcount" where
  "edge_record p =
     \<lparr>er_requirement_ordinal = fst (fst p), er_text_hash = snd (fst p), er_count = snd p\<rparr>"

lemma edge_record_simps [simp]:
  "er_requirement_ordinal (edge_record p) = fst (fst p)" "er_text_hash (edge_record p) = snd (fst p)"
  "er_count (edge_record p) = snd p"
  by (simp_all add: edge_record_def)

lemma refcount_dict_edges [simp]: "refcount_dict (map edge_record C) = C"
  by (simp add: refcount_dict_def comp_def)

lemma dset_new: "k \<notin> fst ` set d \<Longrightarrow> dset k v d = d @ [(k, v)]"
  by (induction d) auto

lemma refcount_steps:
  assumes "refcounts_ok r (ys @ items)"
  shows "fold_res (refcount_step (int r)) items (refcount_dict ys) = Inr (refcount_dict (ys @ items))"
  using assms
proof (induction items arbitrary: ys)
  case (Cons e items)
  let ?k = "(er_requirement_ordinal e, er_text_hash e)"
  have new: "?k \<notin> fst ` set (refcount_dict ys)"
    using Cons.prems by (auto simp: refcounts_ok_def refcount_dict_def)
  have range: "require_integer (er_requirement_ordinal e) (Some 0) (Some (int r - 1)) = Inr ()"
    using Cons.prems by (simp add: refcounts_ok_def)
  have "\<not> dmem ?k (refcount_dict ys)" using new by (simp add: dmem_iff)
  then have "refcount_step (int r) e (refcount_dict ys) = Inr (refcount_dict (ys @ [e]))"
    unfolding refcount_step_def range by (simp add: Let_def dset_new [OF new]) (simp add: refcount_dict_def)
  then show ?case using Cons.IH [of "ys @ [e]"] Cons.prems by simp
qed simp

lemma canonical_refcounts_ok:
  assumes "refcounts_ok r items"
  shows "canonical_refcounts (int r) items = Inr (refcount_dict items)"
    and "counts_ok r (refcount_dict items)"
proof -
  have r: "require_requirement_count (int r) = Inr ()" using assms by (simp add: refcounts_ok_def)
  have "refcount_dict [] = []" by (simp add: refcount_dict_def)
  then show "canonical_refcounts (int r) items = Inr (refcount_dict items)"
    using refcount_steps [of r "[]" items] assms by (simp add: canonical_refcounts_def r)
  have "dict_ok (refcount_dict items)"
    using assms by (simp add: dict_ok_def refcount_dict_def refcounts_ok_def comp_def)
  moreover have "0 \<le> i \<and> i < int r \<and> \<not> blank_text h \<and> 1 \<le> c" if "dget (refcount_dict items) (i, h) = Some c" for i h c
    using map_of_SomeD [OF that] assms by (auto simp: refcount_dict_def refcounts_ok_def)
  ultimately show "counts_ok r (refcount_dict items)" unfolding counts_ok_def by blast
qed

lemma counts_ok_entry:
  assumes "counts_ok r C" and "p \<in> set C"
  shows "0 \<le> fst (fst p) \<and> fst (fst p) < int r \<and> \<not> blank_text (snd (fst p)) \<and> 1 \<le> snd p"
proof -
  obtain i h c where p: "p = ((i, h), c)" by (metis prod.collapse)
  have "dget C (i, h) = Some c" using assms by (simp add: p counts_ok_def dget_in_set)
  note * = counts_okD [OF assms(1) this]
  then show ?thesis by (simp add: p)
qed

lemma make_refcounts_ok:
  assumes "counts_ok r C" and "set D \<subseteq> set C"
  shows "traverse (\<lambda>((ordinal, h), c). make_edge_refcount ordinal h c) D = Inr (map edge_record D)"
proof (rule traverse_Inr_map)
  fix p assume "p \<in> set D"
  then have "p \<in> set C" using assms(2) by blast
  note * = counts_ok_entry [OF assms(1) this]
  obtain i h c where p: "p = ((i, h), c)" by (metis prod.collapse)
  show "(\<lambda>((ordinal, h), c). make_edge_refcount ordinal h c) p = Inr (edge_record p)"
    using * by (simp add: p make_edge_refcount_def require_text_def edge_record_def)
qed

lemma canonical_refcount_map_ok:
  assumes "counts_ok r C" and "1 \<le> r" and "r \<le> 8"
  shows "canonical_refcount_map (int r) C = Inr C"
proof -
  have "distinct (map (\<lambda>e. (er_requirement_ordinal e, er_text_hash e)) (map edge_record C))"
    using assms(1) by (simp add: counts_ok_def dict_ok_def comp_def)
  then have "refcounts_ok r ([] @ map edge_record C)"
    using counts_ok_entry [OF assms(1)] assms(2,3) by (auto simp: refcounts_ok_def)
  from refcount_steps [OF this] make_refcounts_ok [OF assms(1) order_refl] assms(2,3)
  show ?thesis by (simp add: canonical_refcount_map_def) (simp add: refcount_dict_def)
qed

lemma total_steps:
  assumes "deltas_ok r ds" and "dict_ok T"
  shows "\<exists>T'. fold_res (total_step (int r)) ds T = Inr T' \<and> dict_ok T' \<and>
     (\<forall>k. count_of T' k = count_of T k + delta_sum ds k) \<and>
     (\<forall>k \<in> dom (dget T'). k \<in> dom (dget T) \<or>
        (\<exists>e \<in> set ds. k = (ed_requirement_ordinal e, ed_text_hash e)))"
  using assms
proof (induction ds arbitrary: T)
  case Nil
  then show ?case by (simp add: delta_sum_def)
next
  case (Cons e ds)
  let ?k = "(ed_requirement_ordinal e, ed_text_hash e)"
  let ?T = "dset ?k (count_of T ?k + ed_delta e) T"
  have "total_step (int r) e T = Inr ?T"
    using Cons.prems(1) by (simp add: total_step_def deltas_ok_def Let_def)
  moreover have "deltas_ok r ds" using Cons.prems(1) by (simp add: deltas_ok_def)
  from Cons.IH [OF this dict_ok_dset [OF Cons.prems(2)], of ?k "count_of T ?k + ed_delta e"] obtain T' where T': "fold_res (total_step (int r)) ds ?T = Inr T'"
    "dict_ok T'" "\<forall>k. count_of T' k = count_of ?T k + delta_sum ds k"
    "\<forall>k \<in> dom (dget T'). k \<in> dom (dget ?T) \<or> (\<exists>e \<in> set ds. k = (ed_requirement_ordinal e, ed_text_hash e))"
    by blast
  moreover have "count_of ?T k + delta_sum ds k = count_of T k + delta_sum (e # ds) k" for k
    by (auto simp: delta_sum_def dget_default_def)
  moreover have "k \<in> dom (dget T) \<or> (\<exists>e \<in> set (e # ds). k = (ed_requirement_ordinal e, ed_text_hash e))"
    if "k \<in> dom (dget T')" for k
    using T'(4) that by (auto split: if_splits)
  ultimately show ?case by auto
qed

text \<open>The loop over the totals adds each total to its count, or raises on an underflow.\<close>

lemma count_steps:
  assumes "distinct (map fst T)" and "counts_ok r (cu_counts cu)"
    and "\<forall>((i, h), d) \<in> set T. 0 \<le> i \<and> i < int r \<and> \<not> blank_text h"
  shows "if \<forall>(k, d) \<in> set T. 0 \<le> count_of (cu_counts cu) k + d
     then \<exists>cu'. fold_res count_step T cu = Inr cu' \<and> counts_ok r (cu_counts cu') \<and>
        (\<forall>k. count_of (cu_counts cu') k = count_of (cu_counts cu) k + dget_default T k 0) \<and>
        cu_changed cu' = cu_changed cu \<union> {h. \<exists>i d. ((i, h), d) \<in> set T \<and> d \<noteq> 0} \<and>
        cu_updated cu \<le> cu_updated cu'
     else fold_res count_step T cu = Inl ValidationError"
  using assms
proof (induction T arbitrary: cu)
  case Nil
  then show ?case by (simp add: dget_default_def)
next
  case (Cons p T)
  obtain i h d where p: "p = ((i, h), d)" by (metis prod.collapse)
  let ?C = "cu_counts cu" and ?k = "(i, h)"
  let ?u = "count_of ?C ?k + d"
  have ih: "0 \<le> i" "i < int r" "\<not> blank_text h" using Cons.prems(3) p by auto
  have fresh: "dget T ?k = None" using Cons.prems(1) p by (auto simp: map_of_eq_None_iff)
  have T: "dget_default (p # T) k 0 = (if k = ?k then d else dget_default T k 0)" for k
    by (simp add: p dget_default_def)
  show ?case
  proof (cases "d = 0")
    case True
    have step: "count_step p cu = Inr cu" by (simp add: count_step_def p True)
    have nonneg: "0 \<le> count_of ?C ?k"
      using Cons.prems(2) by (auto simp: dget_default_def counts_ok_def split: option.split) fastforce
    have same: "dget_default (p # T) k 0 = dget_default T k 0" for k
      unfolding T using fresh True by (simp add: dget_default_def)
    have all: "(\<forall>(k, e) \<in> set (p # T). 0 \<le> count_of ?C k + e) = (\<forall>(k, e) \<in> set T. 0 \<le> count_of ?C k + e)"
      using nonneg by (simp add: p True)
    have changed: "{x. \<exists>i d. ((i, x), d) \<in> set (p # T) \<and> d \<noteq> 0} = {x. \<exists>i d. ((i, x), d) \<in> set T \<and> d \<noteq> 0}"
      by (auto simp: p True)
    have loop: "fold_res count_step (p # T) cu = fold_res count_step T cu" by (simp add: step)
    show ?thesis
      unfolding same all changed loop by (rule Cons.IH) (use Cons.prems in auto)
  next
    case False
    show ?thesis
    proof (cases "?u < 0")
      case True
      then show ?thesis using False by (auto simp: count_step_def p Let_def)
    next
      case pos: False
      let ?cu = "\<lparr>cu_changed = insert h (cu_changed cu), cu_updated = cu_updated cu + 1,
          cu_counts = (if ?u = 0 then ddel ?k ?C else dset ?k ?u ?C)\<rparr>"
      have step: "count_step p cu = Inr ?cu" using False pos by (simp add: count_step_def p Let_def)
      have count: "count_of (cu_counts ?cu) k = (if k = ?k then ?u else count_of ?C k)" for k
        by (auto simp: dget_default_def)
      have ok: "counts_ok r (cu_counts ?cu)"
        using Cons.prems(2) ih pos by (auto simp: counts_ok_def)
      have other: "k \<noteq> ?k" if "(k, e) \<in> set T" for k e
        using Cons.prems(1) that p by force
      have all: "(\<forall>(k, e) \<in> set T. 0 \<le> count_of (cu_counts ?cu) k + e) =
          (\<forall>(k, e) \<in> set (p # T). 0 \<le> count_of ?C k + e)"
      proof -
        have "(\<forall>(k, e) \<in> set T. 0 \<le> count_of (cu_counts ?cu) k + e) =
            (\<forall>(k, e) \<in> set T. 0 \<le> count_of ?C k + e)"
          unfolding count using other by (intro ball_cong) (auto split: prod.splits)
        then show ?thesis using pos by (simp add: p not_less)
      qed
      have same: "count_of (cu_counts ?cu) k + dget_default T k 0 = count_of ?C k + dget_default (p # T) k 0" for k
        unfolding count T using fresh by (simp add: dget_default_def)
      have changed: "cu_changed ?cu \<union> {x. \<exists>i d. ((i, x), d) \<in> set T \<and> d \<noteq> 0} =
          cu_changed cu \<union> {x. \<exists>i d. ((i, x), d) \<in> set (p # T) \<and> d \<noteq> 0}"
        using False p by auto
      have loop: "fold_res count_step T ?cu = fold_res count_step (p # T) cu" by (simp add: step)
      have le: "cu_updated ?cu \<le> n \<Longrightarrow> cu_updated cu \<le> n" for n by simp
      have "distinct (map fst T)" "\<forall>((i, h), d) \<in> set T. 0 \<le> i \<and> i < int r \<and> \<not> blank_text h"
        using Cons.prems(1,3) by auto
      from Cons.IH [OF this(1) ok this(2)] show ?thesis
        unfolding all same changed loop using le by (auto split: if_splits)
    qed
  qed
qed

lemma batch_target_mask:
  "distinct (map ht_text_hash ts) \<Longrightarrow> mask_of (batch_target ts M) h =
     (case find (\<lambda>t. ht_text_hash t = h) ts of None \<Rightarrow> mask_of M h | Some t \<Rightarrow> nat (ht_new_mask t))"
proof (induction ts arbitrary: M)
  case (Cons t ts)
  let ?M = "set_mask (ht_text_hash t) (nat (ht_new_mask t)) M"
  have *: "mask_of (batch_target (t # ts) M) h = mask_of (batch_target ts ?M) h"
    by (simp add: batch_target_def)
  have "find (\<lambda>u. ht_text_hash u = h) ts = None" if "ht_text_hash t = h"
  proof -
    have "ht_text_hash t \<notin> ht_text_hash ` set ts" using Cons.prems by simp
    then show ?thesis using that unfolding find_None_iff by (metis image_eqI)
  qed
  then show ?case unfolding * using Cons by (simp add: mask_of_set_mask split: option.split)
qed (simp add: batch_target_def)

text \<open>The transitions of a list of hashes between two mask maps.\<close>

definition mask_moves :: "string list \<Rightarrow> (string \<rightharpoonup> nat) \<Rightarrow> (string \<rightharpoonup> nat) \<Rightarrow> hash_mask_transition list" where
  "mask_moves hs M N =
     map (\<lambda>h. \<lparr>ht_text_hash = h, ht_old_mask = int (mask_of M h), ht_new_mask = int (mask_of N h)\<rparr>)
       (filter (\<lambda>h. mask_of M h \<noteq> mask_of N h) hs)"

lemma mask_moves_ok:
  assumes ok: "masks_ok r M" "masks_ok r N" and hs: "distinct hs"
    and same: "\<And>h. h \<notin> set hs \<Longrightarrow> mask_of M h = mask_of N h"
  shows "batch_ok r (mask_moves hs M N) M" and "batch_target (mask_moves hs M N) M = N"
proof -
  let ?ts = "mask_moves hs M N"
  have texts: "map ht_text_hash ?ts = filter (\<lambda>h. mask_of M h \<noteq> mask_of N h) hs"
    by (simp add: mask_moves_def comp_def)
  have dis: "distinct (map ht_text_hash ?ts)" unfolding texts using hs by simp
  have "\<forall>t \<in> set ?ts. ht_old_mask t = int (mask_of M (ht_text_hash t)) \<and>
      0 \<le> ht_new_mask t \<and> ht_new_mask t < 2 ^ r"
    using masks_okD(1) [OF ok(2)] by (auto simp: mask_moves_def)
  then show batch: "batch_ok r ?ts M" using dis by (simp add: batch_ok_def)
  show "batch_target ?ts M = N"
  proof (rule masks_eqI)
    show "masks_ok r (batch_target ?ts M)" using apply_hash_mask_transitions_ok [OF ok(1) batch] by blast
    show "masks_ok r N" by (rule ok(2))
    fix h
    show "mask_of (batch_target ?ts M) h = mask_of N h"
    proof (cases "find (\<lambda>t. ht_text_hash t = h) ?ts")
      case None
      then have "h \<notin> set (map ht_text_hash ?ts)" by (auto simp: find_None_iff)
      then have "mask_of M h = mask_of N h" unfolding texts using same by auto
      then show ?thesis using None by (simp add: batch_target_mask [OF dis])
    next
      case (Some t)
      then have "t \<in> set ?ts" "ht_text_hash t = h" by (auto simp: find_Some_iff)
      then have "ht_new_mask t = int (mask_of N h)" by (auto simp: mask_moves_def)
      then show ?thesis using Some by (simp add: batch_target_mask [OF dis])
    qed
  qed
qed

lemma count_of_nonneg: "counts_ok r C \<Longrightarrow> 0 \<le> count_of C k"
  using counts_okD(4) [of r C "fst k" "snd k"] by (auto simp: dget_default_def split: option.split)

lemma coalesce_counts_ok:
  assumes C: "counts_ok r C" and r: "1 \<le> r" "r \<le> 8" and ds: "deltas_ok r ds"
  shows "if \<forall>k. 0 \<le> count_of C k + delta_sum ds k
     then \<exists>res C'. coalesce_counts (int r) C ds = Inr res \<and> counts_ok r C' \<and>
        (\<forall>k. count_of C' k = count_of C k + delta_sum ds k) \<and>
        ec_refcounts res = map edge_record (sort C') \<and>
        batch_ok r (ec_transitions res) (count_masks C) \<and>
        batch_target (ec_transitions res) (count_masks C) = count_masks C' \<and>
        work_nonneg (ec_work res)
     else coalesce_counts (int r) C ds = Inl ValidationError"
proof -
  from total_steps [OF ds dict_ok_Nil] obtain T where T: "fold_res (total_step (int r)) ds [] = Inr T"
    "dict_ok T" "\<And>k. count_of T k = delta_sum ds k"
    and keys: "\<forall>k \<in> dom (dget T). \<exists>e \<in> set ds. k = (ed_requirement_ordinal e, ed_text_hash e)"
    by (auto simp: dget_default_def)
  let ?cu = "\<lparr>cu_changed = {}, cu_updated = 0, cu_counts = C\<rparr>"
  have "card (set (map fst (sort T))) = length (map fst (sort T))"
    using distinct_card [OF T(2) [unfolded dict_ok_def]] by simp
  then have sorted: "distinct (map fst (sort T))" by (rule card_distinct)
  have entry: "d = delta_sum ds k" if "(k, d) \<in> set T" for k d
    using that T(2,3) by (simp add: dget_in_set) (metis dget_default_simps(1))
  have valid: "0 \<le> i \<and> i < int r \<and> \<not> blank_text h" if "((i, h), d) \<in> set T" for i h d
  proof -
    have "(i, h) \<in> dom (dget T)" using that T(2) by (auto simp: dget_in_set)
    then obtain e where "e \<in> set ds" "(i, h) = (ed_requirement_ordinal e, ed_text_hash e)"
      using keys by blast
    then show ?thesis using ds by (auto simp: deltas_ok_def)
  qed
  have none: "delta_sum ds k = 0" if "k \<notin> fst ` set T" for k
    using T(3) [of k] that by (simp add: dget_default_def map_of_eq_None_iff [THEN iffD2])
  have all: "(\<forall>(k, d) \<in> set (sort T). 0 \<le> count_of C k + d) \<longleftrightarrow> (\<forall>k. 0 \<le> count_of C k + delta_sum ds k)"
  proof
    assume *: "\<forall>(k, d) \<in> set (sort T). 0 \<le> count_of C k + d"
    show "\<forall>k. 0 \<le> count_of C k + delta_sum ds k"
    proof
      fix k show "0 \<le> count_of C k + delta_sum ds k"
      proof (cases "k \<in> fst ` set T")
        case True
        then obtain d where "(k, d) \<in> set T" by force
        then show ?thesis using * entry by auto
      next
        case False
        then show ?thesis using none count_of_nonneg [OF C, of k] by simp
      qed
    qed
  next
    assume *: "\<forall>k. 0 \<le> count_of C k + delta_sum ds k"
    show "\<forall>(k, d) \<in> set (sort T). 0 \<le> count_of C k + d"
    proof (intro ballI, clarify)
      fix i h d assume "((i, h), d) \<in> set (sort T)"
      then have "d = delta_sum ds (i, h)" using entry by simp
      then show "0 \<le> count_of C (i, h) + d" using * by blast
    qed
  qed
  have cntT: "dget_default (sort T) k 0 = delta_sum ds k" for k
  proof (cases "k \<in> fst ` set T")
    case True
    then obtain d where d: "(k, d) \<in> set (sort T)" by force
    then have "dget (sort T) k = Some d" using sorted by (simp add: dict_ok_def)
    then show ?thesis using entry d by simp
  next
    case False
    then have "dget (sort T) k = None" by (simp add: map_of_eq_None_iff)
    then show ?thesis using none [OF False] by simp
  qed
  have sets: "\<forall>((i, h), d) \<in> set (sort T). 0 \<le> i \<and> i < int r \<and> \<not> blank_text h" using valid by auto
  have "counts_ok r (cu_counts ?cu)" using C by simp
  note loop = count_steps [OF sorted this sets, unfolded cntT count_update.select_convs all]
  show ?thesis
  proof (cases "\<forall>k. 0 \<le> count_of C k + delta_sum ds k")
    case False
    then have "fold_res count_step (sort T) ?cu = Inl ValidationError" using loop by (simp split: if_splits)
    then show ?thesis using False by (simp add: coalesce_counts_def T Let_def)
  next
    case True
    with loop obtain cu where cu: "fold_res count_step (sort T) ?cu = Inr cu" "counts_ok r (cu_counts cu)"
      "\<And>k. count_of (cu_counts cu) k = count_of C k + delta_sum ds k"
      "cu_changed cu = {h. \<exists>i d. ((i, h), d) \<in> set T \<and> d \<noteq> 0}" "0 \<le> cu_updated cu"
      by (auto split: if_splits)
    let ?M = "count_masks C" and ?N = "count_masks (cu_counts cu)" and ?hs = "sorted_list_of_set (cu_changed cu)"
    have fin: "finite (cu_changed cu)"
      unfolding cu(4) by (rule finite_subset [of _ "(snd \<circ> fst) ` set T"]) force+
    have same: "mask_of ?M h = mask_of ?N h" if "h \<notin> set ?hs" for h
    proof -
      have "delta_sum ds (int i, h) = 0" for i
        using that fin entry none [of "(int i, h)"] unfolding cu(4) by force
      then have "bit (mask_of ?M h) i = bit (mask_of ?N h) i" for i
        by (simp add: count_masks_bit [OF C] count_masks_bit [OF cu(2)] cu(3))
      then show ?thesis by (rule bit_eqI)
    qed
    note moves = mask_moves_ok [OF masks_ok_counts [OF C r] masks_ok_counts [OF cu(2) r]
        distinct_sorted_list_of_set same]
    have dm: "dget_default (masks_from_refcounts D) h 0 = mask_of (count_masks D) h" for D h
      by (simp add: count_masks_def mask_of_dget)
    have "traverse (\<lambda>h. make_hash_mask_transition h (int (mask_of ?M h)) (int (mask_of ?N h)))
        (filter (\<lambda>h. mask_of ?M h \<noteq> mask_of ?N h) ?hs) = Inr (mask_moves ?hs ?M ?N)"
      unfolding mask_moves_def
    proof (rule traverse_Inr_map)
      fix h assume "h \<in> set (filter (\<lambda>h. mask_of ?M h \<noteq> mask_of ?N h) ?hs)"
      then have "\<not> blank_text h" using fin valid unfolding cu(4) by auto
      then show "make_hash_mask_transition h (int (mask_of ?M h)) (int (mask_of ?N h)) =
          Inr \<lparr>ht_text_hash = h, ht_old_mask = int (mask_of ?M h), ht_new_mask = int (mask_of ?N h)\<rparr>"
        by (simp add: make_hash_mask_transition_def require_text_def)
    qed
    moreover have "traverse (\<lambda>((ordinal, h), c). make_edge_refcount ordinal h c) (sort (cu_counts cu)) =
        Inr (map edge_record (sort (cu_counts cu)))"
      by (rule make_refcounts_ok [OF cu(2)]) simp
    moreover have "0 \<le> sum_list (map (\<lambda>i. max (f i) (0 :: int)) ds)" for f
      by (rule sum_list_nonneg) auto
    then have "work_nonneg (no_work\<lparr>wc_contribution_additions := sum_list (map (\<lambda>i. max (ed_delta i) 0) ds),
        wc_contribution_removals := sum_list (map (\<lambda>i. max (- ed_delta i) 0) ds),
        wc_edge_refcount_keys_updated := cu_updated cu\<rparr>)"
      using cu(5) by (simp add: work_nonneg_def named_values_def no_work_def)
    ultimately show ?thesis
      unfolding coalesce_counts_def Let_def dm using True moves cu(1-3) by (simp add: T) blast
  qed
qed

lemma histogram_of_counts:
  assumes "counts_ok r C" and "1 \<le> r" and "r \<le> 8"
  shows "histogram_from_masks r (map (int \<circ> snd) (masks_from_refcounts C)) =
     Inr (masks_histogram r (count_masks C))"
proof -
  have "dict_ok (fold masks_step xs M)" if "dict_ok M" for xs M
    using that by (induction xs arbitrary: M) (auto simp: masks_step_def split: prod.split)
  from this [of "[]"] have dict: "dict_ok (masks_from_refcounts C)" by (simp add: masks_from_refcounts_def)
  have "\<forall>(h, m) \<in> set (masks_from_refcounts C). 0 < m \<and> m < 2 ^ r"
    using masks_ok_counts [OF assms] dict by (auto simp: masks_ok_def count_masks_def dget_in_set)
  from histogram_of_mapping [OF _ this] dict show ?thesis by (simp add: dict_ok_def count_masks_def)
qed

section \<open>Properties\<close>

text \<open>C17: a batch of signed edge deltas is applied exactly, or rejected as a whole.  From a Hall state
  of the edge counts, the batch raises a validation error exactly when some count would become
  negative; otherwise the new counts are the old ones plus the sums of their deltas, in canonical
  order, the Hall state is the one of the new counts, and the reported work is nonnegative.\<close>

theorem edge_deltas_maintain_hall_state:
  assumes "refcounts_ok r refs" and "deltas_ok r ds"
  shows "case apply_edge_multiplicity_deltas (hall_state_of r (count_masks (refcount_dict refs))) refs ds of
       Inl x \<Rightarrow> x = ValidationError \<and> (\<exists>k. count_of (refcount_dict refs) k + delta_sum ds k < 0)
     | Inr res \<Rightarrow> \<exists>C'. counts_ok r C' \<and>
         (\<forall>k. count_of C' k = count_of (refcount_dict refs) k + delta_sum ds k) \<and>
         ea_refcounts res = map edge_record (sort C') \<and>
         ea_state res = hall_state_of r (count_masks C') \<and>
         validate_hall_mask_state (ea_state res) = Inr [] \<and> work_nonneg (ea_work res)"
proof -
  let ?C = "refcount_dict refs" and ?st = "hall_state_of r (count_masks (refcount_dict refs))"
  have r: "1 \<le> r" "r \<le> 8" using assms(1) by (simp_all add: refcounts_ok_def)
  note refs = canonical_refcounts_ok [OF assms(1)]
  note masks = masks_ok_counts [OF refs(2) r]
  have st: "hs_requirement_count ?st = r" "hs_mask_histogram ?st = masks_histogram r (count_masks ?C)"
    by (simp_all add: hall_state_of_def hall_of_def)
  note start = apply_edge_multiplicity_deltas_def st Let_def refs(1) histogram_of_counts [OF refs(2) r]
    validate_hall_state_of [OF masks] canonical_refcount_map_ok [OF refs(2) r]
  note coalesced = coalesce_counts_ok [OF refs(2) r assms(2)]
  show ?thesis
  proof (cases "\<forall>k. 0 \<le> count_of ?C k + delta_sum ds k")
    case False
    then have "coalesce_counts (int r) ?C ds = Inl ValidationError" using coalesced by presburger
    then have "apply_edge_multiplicity_deltas ?st refs ds = Inl ValidationError" by (simp add: start)
    moreover have "\<exists>k. count_of ?C k + delta_sum ds k < 0" using False not_le by blast
    ultimately show ?thesis by simp
  next
    case True
    from coalesced [unfolded if_P [OF True]] obtain res C' where res: "coalesce_counts (int r) ?C ds = Inr res" "counts_ok r C'"
      "\<forall>k. count_of C' k = count_of ?C k + delta_sum ds k" "ec_refcounts res = map edge_record (sort C')"
      "batch_ok r (ec_transitions res) (count_masks ?C)"
      "batch_target (ec_transitions res) (count_masks ?C) = count_masks C'" "work_nonneg (ec_work res)"
      by blast
    from apply_hash_mask_transitions_ok [OF masks res(5)] res(6) obtain work where
      work: "apply_hash_mask_transitions ?st (ec_transitions res) = Inr (hall_state_of r (count_masks C'), work)"
        "work_nonneg work" by auto
    have "apply_edge_multiplicity_deltas ?st refs ds =
        Inr \<lparr>ea_state = hall_state_of r (count_masks C'), ea_refcounts = ec_refcounts res,
             ea_transitions = ec_transitions res, ea_work = work_add (ec_work res) work\<rparr>"
      using work_nonneg_add [OF res(7) work(2)] by (simp add: start res(1) work(1))
    then show ?thesis
      using res(2-4) validate_hall_state_of [OF masks_ok_counts [OF res(2) r]] work_nonneg_add [OF res(7) work(2)]
      by auto
  qed
qed

definition demo_refs :: "edge_refcount list" where
  "demo_refs =
     [\<lparr>er_requirement_ordinal = 0, er_text_hash = ''x'', er_count = 2\<rparr>,
      \<lparr>er_requirement_ordinal = 1, er_text_hash = ''x'', er_count = 1\<rparr>]"

definition demo_deltas :: "edge_delta list" where
  "demo_deltas =
     [\<lparr>ed_requirement_ordinal = 1, ed_text_hash = ''x'', ed_delta = -1\<rparr>,
      \<lparr>ed_requirement_ordinal = 1, ed_text_hash = ''y'', ed_delta = 1\<rparr>]"

theorem edge_deltas_maintain_hall_state_witness:
  "\<exists>res C'. apply_edge_multiplicity_deltas (hall_state_of 2 (count_masks (refcount_dict demo_refs)))
       demo_refs demo_deltas = Inr res \<and> count_of C' (1, ''y'') = 1 \<and> count_of C' (1, ''x'') = 0 \<and>
     ea_state res = hall_state_of 2 (count_masks C')"
proof -
  have refs: "refcounts_ok 2 demo_refs" and ds: "deltas_ok 2 demo_deltas" by code_simp+
  have nonneg: "0 \<le> count_of (refcount_dict demo_refs) k + delta_sum demo_deltas k" for k
    by (auto simp: demo_refs_def demo_deltas_def refcount_dict_def delta_sum_def dget_default_def)
  have counts: "count_of (refcount_dict demo_refs) (1, ''y'') + delta_sum demo_deltas (1, ''y'') = 1"
    "count_of (refcount_dict demo_refs) (1, ''x'') + delta_sum demo_deltas (1, ''x'') = 0"
    by code_simp+
  from edge_deltas_maintain_hall_state [OF refs ds] nonneg counts show ?thesis
    by (auto simp: not_less [symmetric] split: sum.splits) (metis)+
qed

end
