(* ===== verification/GL_OptAvl.thy ===== *)
theory GL_OptAvl
  imports GL_ScoreIndex
begin

text \<open>
  The ordered set of the optimised lane, \<open>groundloop/optimized/avl.py\<close>: an AVL tree whose nodes
  cache their height and their size.  A node that the source mutates is rebuilt; since every node
  has one owner, and an operation that raises has assigned nothing before, that is the same.  The
  set is proved to implement the interface \<open>ordered_set\<close>, and its \<open>validate\<close> to accept exactly the
  well-formed trees.
\<close>

section \<open>Nodes\<close>

datatype 'a opt_node =
    ONone
  | ONode (onode_key: 'a) (onode_left: "'a opt_node") (onode_right: "'a opt_node")
      (onode_height: int) (onode_size: int)

fun opt_height :: "'a opt_node \<Rightarrow> int" where
  "opt_height ONone = 0"
| "opt_height (ONode k l r h s) = h"

fun opt_size :: "'a opt_node \<Rightarrow> int" where
  "opt_size ONone = 0"
| "opt_size (ONode k l r h s) = s"

text \<open>\<open>_refresh\<close> of the node with this key and these children.\<close>

definition opt_refresh :: "'a \<Rightarrow> 'a opt_node \<Rightarrow> 'a opt_node \<Rightarrow> 'a opt_node" where
  "opt_refresh k l r =
     ONode k l r (1 + max (opt_height l) (opt_height r)) (1 + opt_size l + opt_size r)"

fun opt_rotate_left :: "'a opt_node \<Rightarrow> 'a opt_node res" where
  "opt_rotate_left (ONode k l (ONode pk pl pr _ _) _ _) =
     Inr (opt_refresh pk (opt_refresh k l pl) pr)"
| "opt_rotate_left _ = Inl AssertionError"

fun opt_rotate_right :: "'a opt_node \<Rightarrow> 'a opt_node res" where
  "opt_rotate_right (ONode k (ONode pk pl pr _ _) r _ _) =
     Inr (opt_refresh pk pl (opt_refresh k pr r))"
| "opt_rotate_right _ = Inl AssertionError"

text \<open>\<open>_balance\<close> of the node with this key and these children.\<close>

definition opt_balance :: "'a \<Rightarrow> 'a opt_node \<Rightarrow> 'a opt_node \<Rightarrow> 'a opt_node res" where
  "opt_balance k l r =
     (let factor = opt_height l - opt_height r in
      if 1 < factor then
        (case l of
           ONone \<Rightarrow> Inl AssertionError
         | ONode _ ll lr _ _ \<Rightarrow>
             bind_res (if opt_height ll < opt_height lr then opt_rotate_left l else Inr l) (\<lambda>l'.
               opt_rotate_right (opt_refresh k l' r)))
      else if factor < -1 then
        (case r of
           ONone \<Rightarrow> Inl AssertionError
         | ONode _ rl rr _ _ \<Rightarrow>
             bind_res (if opt_height rr < opt_height rl then opt_rotate_right r else Inr r) (\<lambda>r'.
               opt_rotate_left (opt_refresh k l r')))
      else Inr (opt_refresh k l r))"

fun opt_insert :: "'a::linorder opt_node \<Rightarrow> 'a \<Rightarrow> 'a opt_node res" where
  "opt_insert ONone x = Inr (ONode x ONone ONone 1 1)"
| "opt_insert (ONode k l r h s) x =
     (if x < k then bind_res (opt_insert l x) (\<lambda>l'. opt_balance k l' r)
      else if k < x then bind_res (opt_insert r x) (\<lambda>r'. opt_balance k l r')
      else Inl KeyError)"

text \<open>The key of the node that \<open>_minimum\<close> of a node with this key and left child returns.\<close>

fun opt_minimum :: "'a \<Rightarrow> 'a opt_node \<Rightarrow> 'a" where
  "opt_minimum k ONone = k"
| "opt_minimum k (ONode k' l r h s) = opt_minimum k' l"

fun opt_delete :: "'a::linorder opt_node \<Rightarrow> 'a \<Rightarrow> 'a opt_node res" where
  "opt_delete ONone x = Inl KeyError"
| "opt_delete (ONode k l r h s) x =
     (if x < k then bind_res (opt_delete l x) (\<lambda>l'. opt_balance k l' r)
      else if k < x then bind_res (opt_delete r x) (\<lambda>r'. opt_balance k l r')
      else if l = ONone then Inr r
      else case r of
        ONone \<Rightarrow> Inr l
      | ONode rk rl _ _ _ \<Rightarrow>
          (let successor = opt_minimum rk rl in
           bind_res (opt_delete r successor) (\<lambda>r'. opt_balance successor l r')))"

section \<open>The set\<close>

type_synonym score_ordered_set = "score_key opt_node"

text \<open>The loop of \<open>maximum_score\<close> that walks to the rightmost node.\<close>

fun opt_rightmost :: "'a \<Rightarrow> 'a opt_node \<Rightarrow> 'a" where
  "opt_rightmost k ONone = k"
| "opt_rightmost k (ONode k' l r h s) = opt_rightmost k' r"

definition opt_maximum_score :: "score_ordered_set \<Rightarrow> rat option" where
  "opt_maximum_score t =
     (case t of ONone \<Rightarrow> None | ONode k l r h s \<Rightarrow> Some (fst (opt_rightmost k r)))"

text \<open>The nested function \<open>visit\<close> of \<open>ids_between\<close>, with the list it appends to.\<close>

fun opt_visit :: "rat \<Rightarrow> rat \<Rightarrow> score_ordered_set \<Rightarrow> string list \<Rightarrow> string list" where
  "opt_visit lower upper ONone result = result"
| "opt_visit lower upper (ONode k l r h s) result =
     (let score = fst k;
          result1 = (if lower \<le> score then opt_visit lower upper l result else result);
          result2 = (if lower \<le> score \<and> score < upper then result1 @ [snd k] else result1) in
      if score < upper then opt_visit lower upper r result2 else result2)"

definition opt_ids_between :: "score_ordered_set \<Rightarrow> rat \<Rightarrow> rat \<Rightarrow> string list" where
  "opt_ids_between t lower upper =
     (if upper \<le> lower then [] else opt_visit lower upper t [])"

text \<open>The nested function \<open>check\<close> of \<open>validate\<close>: height and size of a valid subtree.\<close>

fun opt_check :: "'a::linorder opt_node \<Rightarrow> 'a option \<Rightarrow> 'a option \<Rightarrow> (int \<times> int) res" where
  "opt_check ONone lower upper = Inr (0, 0)"
| "opt_check (ONode k l r h s) lower upper =
     (if (case lower of None \<Rightarrow> False | Some b \<Rightarrow> \<not> b < k) then Inl AssertionError
      else if (case upper of None \<Rightarrow> False | Some b \<Rightarrow> \<not> k < b) then Inl AssertionError
      else
        bind_res (opt_check l lower (Some k)) (\<lambda>(left_height, left_size).
        bind_res (opt_check r (Some k) upper) (\<lambda>(right_height, right_size).
          let expected_height = 1 + max left_height right_height;
              expected_size = 1 + left_size + right_size in
          if h \<noteq> expected_height \<or> s \<noteq> expected_size then Inl AssertionError
          else if 1 < \<bar>left_height - right_height\<bar> then Inl AssertionError
          else Inr (expected_height, expected_size))))"

definition opt_validate :: "'a::linorder opt_node \<Rightarrow> unit res" where
  "opt_validate t = bind_res (opt_check t None None) (\<lambda>_. Inr ())"

section \<open>Simulation of the plain AVL trees\<close>

fun opt_shape :: "'a opt_node \<Rightarrow> 'a tree" where
  "opt_shape ONone = Leaf"
| "opt_shape (ONode k l r h s) = Node (opt_shape l) k (opt_shape r)"

fun opt_meta :: "'a opt_node \<Rightarrow> bool" where
  "opt_meta ONone = True"
| "opt_meta (ONode k l r h s) \<longleftrightarrow>
     opt_meta l \<and> opt_meta r \<and>
     h = 1 + max (int (height (opt_shape l))) (int (height (opt_shape r))) \<and>
     s = 1 + int (size (opt_shape l)) + int (size (opt_shape r))"

lemma opt_shape_Leaf [simp]: "opt_shape t = Leaf \<longleftrightarrow> t = ONone"
  by (cases t) auto

lemma opt_meta_values:
  "opt_meta t \<Longrightarrow> opt_height t = int (height (opt_shape t))"
  "opt_meta t \<Longrightarrow> opt_size t = int (size (opt_shape t))"
  by (cases t; simp)+

lemma opt_refresh [simp]:
  "opt_shape (opt_refresh k l r) = Node (opt_shape l) k (opt_shape r)"
  "opt_meta l \<Longrightarrow> opt_meta r \<Longrightarrow> opt_meta (opt_refresh k l r)"
  by (simp_all add: opt_refresh_def opt_meta_values)

lemma opt_rotate_left_sim:
  assumes "opt_meta l" and "opt_meta r" and "r \<noteq> ONone"
  shows "\<exists>n. opt_rotate_left (ONode k l r h s) = Inr n \<and> opt_meta n \<and>
     opt_shape n = rot_left (Node (opt_shape l) k (opt_shape r))"
  using assms by (cases r) auto

lemma opt_rotate_right_sim:
  assumes "opt_meta l" and "opt_meta r" and "l \<noteq> ONone"
  shows "\<exists>n. opt_rotate_right (ONode k l r h s) = Inr n \<and> opt_meta n \<and>
     opt_shape n = rot_right (Node (opt_shape l) k (opt_shape r))"
  using assms by (cases l) auto

text \<open>The second rotation of a double rotation, or the only one.\<close>

lemma opt_rotate_right_refresh:
  assumes "opt_meta l'" and "opt_meta r" and "opt_shape l' = t" and "t \<noteq> Leaf"
  shows "\<exists>n. opt_rotate_right (opt_refresh k l' r) = Inr n \<and> opt_meta n \<and>
     opt_shape n = rot_right (Node t k (opt_shape r))"
  using opt_rotate_right_sim [OF assms(1,2), of k] assms(3,4) unfolding opt_refresh_def by force

lemma opt_rotate_left_refresh:
  assumes "opt_meta l" and "opt_meta r'" and "opt_shape r' = t" and "t \<noteq> Leaf"
  shows "\<exists>n. opt_rotate_left (opt_refresh k l r') = Inr n \<and> opt_meta n \<and>
     opt_shape n = rot_left (Node (opt_shape l) k t)"
  using opt_rotate_left_sim [OF assms(1,2), of k] assms(3,4) unfolding opt_refresh_def by force

text \<open>The assertions of \<open>_balance\<close> and of the rotations never fail.\<close>

lemma opt_balance_left_sim:
  assumes l: "opt_meta l" and r: "opt_meta r"
    and high: "height (opt_shape r) + 1 < height (opt_shape l)"
  shows "\<exists>n. opt_balance k l r = Inr n \<and> opt_meta n \<and> opt_shape n = bal (opt_shape l) k (opt_shape r)"
proof -
  from high obtain lk ll lr lh ls where lx: "l = ONode lk ll lr lh ls" by (cases l) auto
  then have m: "opt_meta ll" "opt_meta lr" using l by auto
  have h: "opt_height l = int (height (opt_shape l))" "opt_height r = int (height (opt_shape r))"
    "opt_height ll = int (height (opt_shape ll))" "opt_height lr = int (height (opt_shape lr))"
    using l r m by (simp_all add: opt_meta_values)
  have factor: "1 < opt_height l - opt_height r" using high h by simp
  show ?thesis
  proof (cases "height (opt_shape ll) < height (opt_shape lr)")
    case True
    then have "lr \<noteq> ONone" by auto
    with m obtain l' where l': "opt_rotate_left l = Inr l'" "opt_meta l'"
      "opt_shape l' = rot_left (opt_shape l)"
      using opt_rotate_left_sim [of ll lr lk lh ls] lx by auto
    have "rot_left (opt_shape l) \<noteq> Leaf" using lx by simp
    from opt_rotate_right_refresh [OF l'(2) r l'(3) this, of k] obtain n where
      n: "opt_rotate_right (opt_refresh k l' r) = Inr n" "opt_meta n"
        "opt_shape n = rot_right (Node (rot_left (opt_shape l)) k (opt_shape r))" by blast
    have "opt_balance k l r = Inr n"
      using True factor h l'(1) n(1) unfolding opt_balance_def lx by simp
    then show ?thesis using n True high lx by (simp add: bal_def)
  next
    case False
    have "opt_shape l \<noteq> Leaf" using lx by simp
    from opt_rotate_right_refresh [OF l r refl this, of k] obtain n where
      n: "opt_rotate_right (opt_refresh k l r) = Inr n" "opt_meta n"
        "opt_shape n = rot_right (Node (opt_shape l) k (opt_shape r))" by blast
    have "opt_balance k l r = Inr n"
      using False factor h n(1) unfolding opt_balance_def lx by simp
    then show ?thesis using n False high lx by (simp add: bal_def)
  qed
qed

lemma opt_balance_right_sim:
  assumes l: "opt_meta l" and r: "opt_meta r"
    and high: "height (opt_shape l) + 1 < height (opt_shape r)"
  shows "\<exists>n. opt_balance k l r = Inr n \<and> opt_meta n \<and> opt_shape n = bal (opt_shape l) k (opt_shape r)"
proof -
  from high obtain rk rl rr rh rs where rx: "r = ONode rk rl rr rh rs" by (cases r) auto
  then have m: "opt_meta rl" "opt_meta rr" using r by auto
  have h: "opt_height l = int (height (opt_shape l))" "opt_height r = int (height (opt_shape r))"
    "opt_height rl = int (height (opt_shape rl))" "opt_height rr = int (height (opt_shape rr))"
    using l r m by (simp_all add: opt_meta_values)
  have factor: "\<not> 1 < opt_height l - opt_height r" "opt_height l - opt_height r < -1"
    using high h by simp_all
  show ?thesis
  proof (cases "height (opt_shape rr) < height (opt_shape rl)")
    case True
    then have "rl \<noteq> ONone" by auto
    with m obtain r' where r': "opt_rotate_right r = Inr r'" "opt_meta r'"
      "opt_shape r' = rot_right (opt_shape r)"
      using opt_rotate_right_sim [of rl rr rk rh rs] rx by auto
    have "rot_right (opt_shape r) \<noteq> Leaf" using rx by simp
    from opt_rotate_left_refresh [OF l r'(2) r'(3) this, of k] obtain n where
      n: "opt_rotate_left (opt_refresh k l r') = Inr n" "opt_meta n"
        "opt_shape n = rot_left (Node (opt_shape l) k (rot_right (opt_shape r)))" by blast
    have "opt_balance k l r = Inr n"
      using True factor h r'(1) n(1) unfolding opt_balance_def rx by simp
    then show ?thesis using n True high rx by (simp add: bal_def)
  next
    case False
    have "opt_shape r \<noteq> Leaf" using rx by simp
    from opt_rotate_left_refresh [OF l r refl this, of k] obtain n where
      n: "opt_rotate_left (opt_refresh k l r) = Inr n" "opt_meta n"
        "opt_shape n = rot_left (Node (opt_shape l) k (opt_shape r))" by blast
    have "opt_balance k l r = Inr n"
      using False factor h n(1) unfolding opt_balance_def rx by simp
    then show ?thesis using n False high rx by (simp add: bal_def)
  qed
qed

lemma opt_balance_sim:
  assumes l: "opt_meta l" and r: "opt_meta r"
  shows "\<exists>n. opt_balance k l r = Inr n \<and> opt_meta n \<and> opt_shape n = bal (opt_shape l) k (opt_shape r)"
proof -
  consider "height (opt_shape r) + 1 < height (opt_shape l)"
    | "height (opt_shape l) + 1 < height (opt_shape r)"
    | (even) "\<not> height (opt_shape r) + 1 < height (opt_shape l)"
        "\<not> height (opt_shape l) + 1 < height (opt_shape r)"
    by blast
  then show ?thesis
  proof cases
    case even
    then have "opt_balance k l r = Inr (opt_refresh k l r)"
      using l r by (simp add: opt_balance_def opt_meta_values)
    with even l r show ?thesis by (simp add: bal_def)
  qed (use opt_balance_left_sim [OF l r] opt_balance_right_sim [OF l r] in blast)+
qed

lemma opt_insert_sim:
  assumes "opt_meta t" and "x \<notin> set_tree (opt_shape t)"
  shows "\<exists>n. opt_insert t x = Inr n \<and> opt_meta n \<and> opt_shape n = ins x (opt_shape t)"
  using assms
proof (induction t)
  case (ONode k l r h s)
  show ?case
  proof (cases "x < k")
    case True
    with ONode obtain l' where l': "opt_insert l x = Inr l'" "opt_meta l'"
      "opt_shape l' = ins x (opt_shape l)" by auto
    with opt_balance_sim [of l' r k] ONode.prems True show ?thesis by auto
  next
    case False
    with ONode obtain r' where r': "opt_insert r x = Inr r'" "opt_meta r'"
      "opt_shape r' = ins x (opt_shape r)" by auto
    with opt_balance_sim [of l r' k] ONode.prems False show ?thesis by auto
  qed
qed simp

lemma opt_insert_present:
  assumes "bst (opt_shape t)" and "x \<in> set_tree (opt_shape t)"
  shows "opt_insert t x = Inl KeyError"
  using assms
proof (induction t)
  case (ONode k l r h s)
  consider "x = k" | "x < k" "x \<in> set_tree (opt_shape l)"
    | "\<not> x < k" "k < x" "x \<in> set_tree (opt_shape r)"
    using ONode.prems by fastforce
  then show ?case using ONode by cases auto
qed simp

lemma opt_minimum_node: "opt_minimum k l = least (opt_shape (ONode k l r h s))"
proof (induction l arbitrary: k r h s)
  case (ONode k' l r' h' s')
  then show ?case by (cases l) auto
qed simp

lemma opt_delete_sim:
  assumes "opt_meta t" and "bst (opt_shape t)" and "x \<in> set_tree (opt_shape t)"
  shows "\<exists>n. opt_delete t x = Inr n \<and> opt_meta n \<and> opt_shape n = del x (opt_shape t)"
  using assms
proof (induction t x rule: opt_delete.induct)
  case (2 k l r h s x)
  have meta: "opt_meta l" "opt_meta r" and bst: "bst (opt_shape l)" "bst (opt_shape r)"
    using "2.prems" by auto
  consider "x < k" "x \<in> set_tree (opt_shape l)" | "k < x" "x \<in> set_tree (opt_shape r)"
    | "x = k" "l = ONone \<or> r = ONone" | "x = k" "l \<noteq> ONone" "r \<noteq> ONone"
    using "2.prems" by fastforce
  then show ?case
  proof cases
    case 1
    with "2.IH"(1) meta bst obtain l' where l': "opt_delete l x = Inr l'"
      "opt_meta l'" "opt_shape l' = del x (opt_shape l)" by auto
    with opt_balance_sim [of l' r k] meta 1 show ?thesis by auto
  next
    case 2
    then have "\<not> x < k" by simp
    with 2 "2.IH"(2) meta bst obtain r' where r': "opt_delete r x = Inr r'"
      "opt_meta r'" "opt_shape r' = del x (opt_shape r)" by auto
    with opt_balance_sim [of l r' k] meta 2 show ?thesis by auto
  next
    case 3
    with meta show ?thesis by (cases r) auto
  next
    case 4
    then obtain rk rl rr rh rs where r: "r = ONode rk rl rr rh rs" by (cases r) auto
    let ?s = "least (opt_shape r)"
    have succ: "opt_minimum rk rl = ?s" unfolding r by (rule opt_minimum_node)
    have "?s \<in> set_tree (opt_shape r)" using 4 by (intro least_in_set) simp
    with "2.IH"(3) [OF _ _ 4(2) r] 4 meta bst succ obtain r' where
      r': "opt_delete r ?s = Inr r'" "opt_meta r'" "opt_shape r' = del ?s (opt_shape r)"
      by (metis order_less_irrefl)
    with opt_balance_sim [of l r' ?s] meta obtain n where
      "opt_balance ?s l r' = Inr n" "opt_meta n" "opt_shape n = bal (opt_shape l) ?s (opt_shape r')"
      by blast
    moreover have "opt_delete (ONode k l r h s) x = bind_res (opt_delete r ?s) (opt_balance ?s l)"
      using 4 succ by (simp add: r Let_def)
    moreover have "del x (opt_shape (ONode k l r h s)) = bal (opt_shape l) ?s (del ?s (opt_shape r))"
      using 4 by simp
    ultimately show ?thesis using r' by simp
  qed
qed simp

lemma opt_delete_absent: "x \<notin> set_tree (opt_shape t) \<Longrightarrow> opt_delete t x = Inl KeyError"
proof (induction t)
  case (ONode k l r h s)
  consider "x < k" | "k < x" using ONode.prems by fastforce
  then show ?case using ONode by cases auto
qed simp

section \<open>The set implements the interface\<close>

definition opt_elems :: "'a opt_node \<Rightarrow> 'a set" where
  "opt_elems t = set_tree (opt_shape t)"

definition opt_inv :: "'a::linorder opt_node \<Rightarrow> bool" where
  "opt_inv t \<longleftrightarrow> opt_meta t \<and> avl (opt_shape t) \<and> bst (opt_shape t)"

lemma bst_size_card: "bst t \<Longrightarrow> size t = card (set_tree t)"
  by (metis bst_iff_sorted_wrt_less distinct_card length_inorder set_inorder strict_sorted_iff)

lemma opt_insert_ok:
  assumes "opt_inv t" and "x \<notin> opt_elems t"
  shows "\<exists>t'. opt_insert t x = Inr t' \<and> opt_inv t' \<and> opt_elems t' = insert x (opt_elems t)"
  using assms opt_insert_sim [of t x] by (auto simp: opt_inv_def opt_elems_def bst_ins avl_ins)

lemma opt_delete_ok:
  assumes "opt_inv t" and "x \<in> opt_elems t"
  shows "\<exists>t'. opt_delete t x = Inr t' \<and> opt_inv t' \<and> opt_elems t' = opt_elems t - {x}"
  using assms opt_delete_sim [of t x] by (auto simp: opt_inv_def opt_elems_def bst_del avl_del set_del)

interpretation opt_set: ordered_set opt_inv opt_elems ONone opt_insert opt_delete "\<lambda>t. nat (opt_size t)"
proof
  fix t :: "'a opt_node" and x
  show "opt_inv ONone \<and> opt_elems ONone = {}" by (simp add: opt_inv_def opt_elems_def)
  show "opt_inv t \<Longrightarrow> finite (opt_elems t)" by (simp add: opt_elems_def)
  show "opt_inv t \<Longrightarrow> nat (opt_size t) = card (opt_elems t)"
    by (simp add: opt_inv_def opt_elems_def opt_meta_values bst_size_card)
  show "opt_inv t \<Longrightarrow> x \<notin> opt_elems t \<Longrightarrow>
      \<exists>t'. opt_insert t x = Inr t' \<and> opt_inv t' \<and> opt_elems t' = insert x (opt_elems t)"
    by (rule opt_insert_ok)
  show "opt_inv t \<Longrightarrow> x \<in> opt_elems t \<Longrightarrow> \<exists>e. opt_insert t x = Inl e"
    using opt_insert_present [of t x] by (simp add: opt_inv_def opt_elems_def)
  show "opt_inv t \<Longrightarrow> x \<in> opt_elems t \<Longrightarrow>
      \<exists>t'. opt_delete t x = Inr t' \<and> opt_inv t' \<and> opt_elems t' = opt_elems t - {x}"
    by (rule opt_delete_ok)
  show "opt_inv t \<Longrightarrow> x \<notin> opt_elems t \<Longrightarrow> \<exists>e. opt_delete t x = Inl e"
    using opt_delete_absent [of x t] by (simp add: opt_elems_def)
qed

section \<open>Queries\<close>

lemma opt_visit_inorder:
  assumes "bst (opt_shape t)"
  shows "opt_visit lower upper t result =
     result @ map snd (filter (\<lambda>k. lower \<le> fst k \<and> fst k < upper) (inorder (opt_shape t)))"
  using assms
proof (induction t arbitrary: result)
  case (ONode k l r h s)
  let ?P = "\<lambda>k. lower \<le> fst k \<and> fst k < upper"
  have bst: "bst (opt_shape l)" "bst (opt_shape r)" using ONode.prems by simp_all
  have left: "filter ?P (inorder (opt_shape l)) = []" if "\<not> lower \<le> fst k"
    using ONode.prems that by (fastforce simp: filter_empty_conv less_prod_def)
  have right: "filter ?P (inorder (opt_shape r)) = []" if "\<not> fst k < upper"
    using ONode.prems that by (fastforce simp: filter_empty_conv less_prod_def)
  show ?case
    using ONode.IH(1) [OF bst(1)] ONode.IH(2) [OF bst(2)] left right
    by (simp add: Let_def not_le)
qed simp

lemma opt_ids_between:
  assumes "bst (opt_shape t)"
  shows "opt_ids_between t lower upper =
     map snd (filter (\<lambda>k. lower \<le> fst k \<and> fst k < upper) (inorder (opt_shape t)))"
proof (cases "upper \<le> lower")
  case True
  then have "filter (\<lambda>k. lower \<le> fst k \<and> fst k < upper) (inorder (opt_shape t)) = []"
    by (auto simp: filter_empty_conv)
  then show ?thesis using True by (simp add: opt_ids_between_def)
qed (use opt_visit_inorder [OF assms] in \<open>simp add: opt_ids_between_def\<close>)

lemma opt_rightmost_max:
  assumes "bst (opt_shape (ONode k l r h s))"
  shows "opt_rightmost k r \<in> opt_elems (ONode k l r h s) \<and>
     (\<forall>x \<in> opt_elems (ONode k l r h s). x \<le> opt_rightmost k r)"
  using assms
proof (induction r arbitrary: k l h s)
  case ONone
  then show ?case by (auto simp: opt_elems_def)
next
  case (ONode k' l' r' h' s')
  have "bst (opt_shape (ONode k' l' r' h' s'))" using ONode.prems by simp
  from ONode.IH(2) [OF this]
  have IH: "opt_rightmost k' r' \<in> opt_elems (ONode k' l' r' h' s')"
    "\<forall>x \<in> opt_elems (ONode k' l' r' h' s'). x \<le> opt_rightmost k' r'" by simp_all
  have "k' \<le> opt_rightmost k' r'" using IH(2) by (simp add: opt_elems_def)
  moreover have "k < k'" "\<forall>x \<in> set_tree (opt_shape l). x < k" using ONode.prems by simp_all
  ultimately have "x \<le> opt_rightmost k' r'" if "x = k \<or> x \<in> set_tree (opt_shape l)" for x
    using that by fastforce
  then show ?case using IH by (auto simp: opt_elems_def)
qed

lemma opt_maximum_score:
  assumes "opt_inv t"
  shows "opt_maximum_score t =
     (if opt_elems t = {} then None else Some (Max (fst ` opt_elems t)))"
proof (cases t)
  case (ONode k l r h s)
  have "bst (opt_shape (ONode k l r h s))" using assms ONode by (simp add: opt_inv_def)
  note max = opt_rightmost_max [OF this, folded ONode]
  have "Max (fst ` opt_elems t) = fst (opt_rightmost k r)"
  proof (rule Max_eqI)
    show "finite (fst ` opt_elems t)" using opt_set.finite [OF assms] by simp
    show "fst (opt_rightmost k r) \<in> fst ` opt_elems t" using max by blast
    show "y \<le> fst (opt_rightmost k r)" if "y \<in> fst ` opt_elems t" for y
      using that max by (auto simp: less_eq_prod_def)
  qed
  moreover have "opt_elems t \<noteq> {}" using max by blast
  ultimately show ?thesis using ONode by (simp add: opt_maximum_score_def)
qed (simp add: opt_maximum_score_def opt_elems_def)

section \<open>Validation\<close>

definition in_bounds :: "'a::linorder option \<Rightarrow> 'a option \<Rightarrow> 'a \<Rightarrow> bool" where
  "in_bounds lower upper k \<longleftrightarrow>
     (case lower of None \<Rightarrow> True | Some b \<Rightarrow> b < k) \<and> (case upper of None \<Rightarrow> True | Some b \<Rightarrow> k < b)"

lemma in_bounds_trans:
  "in_bounds lower (Some k) x \<Longrightarrow> in_bounds lower upper k \<Longrightarrow> in_bounds lower upper x"
  "in_bounds (Some k) upper x \<Longrightarrow> in_bounds lower upper k \<Longrightarrow> in_bounds lower upper x"
  by (auto simp: in_bounds_def split: option.splits)

lemma opt_check_sound:
  assumes "opt_check t lower upper = Inr (h, n)"
  shows "opt_inv t \<and> (\<forall>x \<in> opt_elems t. in_bounds lower upper x) \<and>
     h = int (height (opt_shape t)) \<and> n = int (size (opt_shape t))"
  using assms
proof (induction t arbitrary: lower upper h n)
  case (ONode k l r nh ns)
  from ONode.prems obtain lh ls rh rs where
    k: "in_bounds lower upper k"
    and l: "opt_check l lower (Some k) = Inr (lh, ls)" and r: "opt_check r (Some k) upper = Inr (rh, rs)"
    and meta: "nh = 1 + max lh rh" "ns = 1 + ls + rs" "\<bar>lh - rh\<bar> \<le> 1" "h = nh" "n = ns"
    by (auto simp: res_simps in_bounds_def Let_def split: if_splits option.splits)
  from ONode.IH(1) [OF l] ONode.IH(2) [OF r] k meta show ?case
    unfolding opt_inv_def opt_elems_def
    by (auto simp: in_bounds_def of_nat_max intro: in_bounds_trans split: option.splits)
qed (simp add: opt_inv_def opt_elems_def)

lemma opt_check_complete:
  assumes "opt_inv t" and "\<forall>x \<in> opt_elems t. in_bounds lower upper x"
  shows "opt_check t lower upper = Inr (int (height (opt_shape t)), int (size (opt_shape t)))"
  using assms
proof (induction t arbitrary: lower upper)
  case (ONode k l r h s)
  have k: "in_bounds lower upper k" using ONode.prems by (simp add: opt_elems_def)
  have "opt_inv l" "opt_inv r" using ONode.prems(1) by (simp_all add: opt_inv_def)
  moreover have "\<forall>x \<in> opt_elems l. in_bounds lower (Some k) x" "\<forall>x \<in> opt_elems r. in_bounds (Some k) upper x"
    using ONode.prems unfolding opt_inv_def opt_elems_def in_bounds_def by auto
  ultimately have IH: "opt_check l lower (Some k) = Inr (int (height (opt_shape l)), int (size (opt_shape l)))"
    "opt_check r (Some k) upper = Inr (int (height (opt_shape r)), int (size (opt_shape r)))"
    using ONode.IH by blast+
  have meta: "h = 1 + max (int (height (opt_shape l))) (int (height (opt_shape r)))"
    "s = 1 + int (size (opt_shape l)) + int (size (opt_shape r))"
    "\<bar>int (height (opt_shape l)) - int (height (opt_shape r))\<bar> \<le> 1"
    using ONode.prems(1) by (auto simp: opt_inv_def)
  show ?case
    using k IH meta by (auto simp: in_bounds_def of_nat_max Let_def split: option.splits)
qed simp

lemma opt_validate_iff: "opt_validate t = Inr () \<longleftrightarrow> opt_inv t"
proof
  assume "opt_validate t = Inr ()"
  then show "opt_inv t" using opt_check_sound by (fastforce simp: opt_validate_def res_simps)
next
  assume "opt_inv t"
  then have "opt_check t None None = Inr (int (height (opt_shape t)), int (size (opt_shape t)))"
    by (rule opt_check_complete) (simp add: in_bounds_def)
  then show "opt_validate t = Inr ()" by (simp add: opt_validate_def)
qed

end
