(* ===== verification/GL_ExactFlip.thy ===== *)
theory GL_ExactFlip
  imports GL_OptAvl GL_Domain
begin

text \<open>
  The policy-flip index of \<open>groundloop/optimized/exact_flip.py\<close>.  Every observation belongs to one
  partition whatever the thresholds are, and an observation of a partition changes its label
  exactly when its score lies between the old and the new threshold of that side; the index
  therefore enumerates the label flips of a policy change and nothing else.
\<close>

section \<open>The partition\<close>

datatype potential_partition = PP_SUPPORT | PP_REFUTE | PP_ALWAYS_NEUTRAL

definition potential_partition_of :: "semantic_observation \<Rightarrow> potential_partition" where
  "potential_partition_of ob =
     (let s = ob_support_score ob; r = ob_refute_score ob; n = ob_neutral_score ob in
      if r < s \<and> n < s then PP_SUPPORT
      else if s \<le> r \<and> n \<le> r then PP_REFUTE
      else PP_ALWAYS_NEUTRAL)"

text \<open>The label of an observation under a policy, read off its partition.\<close>

lemma decide_of_partition:
  "decide ob p =
     (case potential_partition_of ob of
        PP_SUPPORT \<Rightarrow> if dp_support_threshold p \<le> ob_support_score ob then SUPPORT else NEUTRAL
      | PP_REFUTE \<Rightarrow> if dp_refute_threshold p \<le> ob_refute_score ob then REFUTE else NEUTRAL
      | PP_ALWAYS_NEUTRAL \<Rightarrow> NEUTRAL)"
  by (auto simp: decide_def potential_partition_of_def Let_def)

lemma decide_partition:
  "decide ob p = SUPPORT \<Longrightarrow> potential_partition_of ob = PP_SUPPORT"
  "decide ob p = REFUTE \<Longrightarrow> potential_partition_of ob = PP_REFUTE"
  by (auto simp: decide_of_partition split: potential_partition.splits if_splits)

text \<open>The score of an observation on the side of its partition.\<close>

definition potential_score :: "potential_partition \<Rightarrow> semantic_observation \<Rightarrow> rat" where
  "potential_score part ob = (if part = PP_SUPPORT then ob_support_score ob else ob_refute_score ob)"

section \<open>The index\<close>

record flip_query =
  fq_observation_ids :: "string list"
  fq_searches :: nat
  fq_support_flips :: nat
  fq_refute_flips :: nat

record exact_flip_index =
  fi_support :: score_ordered_set
  fi_refute :: score_ordered_set
  fi_members :: "(string, potential_partition \<times> rat) pydict"

definition flip_new :: exact_flip_index where
  "flip_new = \<lparr>fi_support = ONone, fi_refute = ONone, fi_members = []\<rparr>"

definition flip_len :: "exact_flip_index \<Rightarrow> nat" where
  "flip_len ix = length (fi_members ix)"

definition flip_add :: "exact_flip_index \<Rightarrow> semantic_observation \<Rightarrow> exact_flip_index res" where
  "flip_add ix ob =
     (let i = ob_observation_id ob in
      if dmem i (fi_members ix) then Inl KeyError
      else case potential_partition_of ob of
        PP_SUPPORT \<Rightarrow>
          bind_res (opt_insert (fi_support ix) (ob_support_score ob, i)) (\<lambda>t.
            Inr (ix\<lparr>fi_support := t,
                    fi_members := dset i (PP_SUPPORT, ob_support_score ob) (fi_members ix)\<rparr>))
      | PP_REFUTE \<Rightarrow>
          bind_res (opt_insert (fi_refute ix) (ob_refute_score ob, i)) (\<lambda>t.
            Inr (ix\<lparr>fi_refute := t,
                    fi_members := dset i (PP_REFUTE, ob_refute_score ob) (fi_members ix)\<rparr>))
      | PP_ALWAYS_NEUTRAL \<Rightarrow> Inr ix)"

definition flip_remove :: "exact_flip_index \<Rightarrow> semantic_observation \<Rightarrow> exact_flip_index res" where
  "flip_remove ix ob =
     (let i = ob_observation_id ob; partition = potential_partition_of ob in
      if partition = PP_ALWAYS_NEUTRAL then Inr ix
      else
        let stored = dget (fi_members ix) i;
            members = ddel i (fi_members ix);
            expected_score = (if partition = PP_SUPPORT then ob_support_score ob else ob_refute_score ob) in
        if stored \<noteq> Some (partition, expected_score) then Inl KeyError
        else if partition = PP_SUPPORT then
          bind_res (opt_delete (fi_support ix) (expected_score, i)) (\<lambda>t.
            Inr (ix\<lparr>fi_support := t, fi_members := members\<rparr>))
        else
          bind_res (opt_delete (fi_refute ix) (expected_score, i)) (\<lambda>t.
            Inr (ix\<lparr>fi_refute := t, fi_members := members\<rparr>)))"

definition exact_flips :: "exact_flip_index \<Rightarrow> decision_policy \<Rightarrow> decision_policy \<Rightarrow> flip_query res" where
  "exact_flips ix old new =
     (if dp_tie_rule_version old \<noteq> ''v1'' \<or> dp_tie_rule_version new \<noteq> ''v1'' then Inl ValueError
      else
        let (searches1, support_ids) =
              (if dp_support_threshold old \<noteq> dp_support_threshold new
               then (1, opt_ids_between (fi_support ix)
                          (min (dp_support_threshold old) (dp_support_threshold new))
                          (max (dp_support_threshold old) (dp_support_threshold new)))
               else (0, []));
            (searches2, refute_ids) =
              (if dp_refute_threshold old \<noteq> dp_refute_threshold new
               then (searches1 + 1, opt_ids_between (fi_refute ix)
                          (min (dp_refute_threshold old) (dp_refute_threshold new))
                          (max (dp_refute_threshold old) (dp_refute_threshold new)))
               else (searches1, [])) in
        Inr \<lparr>fq_observation_ids = support_ids @ refute_ids, fq_searches = searches2,
             fq_support_flips = length support_ids, fq_refute_flips = length refute_ids\<rparr>)"

definition flip_validate :: "exact_flip_index \<Rightarrow> unit res" where
  "flip_validate ix =
     bind_res (opt_validate (fi_support ix)) (\<lambda>_.
     bind_res (opt_validate (fi_refute ix)) (\<lambda>_.
       if int (length (fi_members ix)) \<noteq> opt_size (fi_support ix) + opt_size (fi_refute ix)
       then Inl AssertionError else Inr ()))"

section \<open>The index stores the active observations\<close>

definition potential_keys ::
    "potential_partition \<Rightarrow> (string \<rightharpoonup> semantic_observation) \<Rightarrow> score_key set" where
  "potential_keys part A =
     {k. \<exists>ob. A (snd k) = Some ob \<and> potential_partition_of ob = part \<and> fst k = potential_score part ob}"

lemma potential_keys_mem:
  "(x, i) \<in> potential_keys part A \<longleftrightarrow>
     (\<exists>ob. A i = Some ob \<and> potential_partition_of ob = part \<and> x = potential_score part ob)"
  by (simp add: potential_keys_def)

lemma potential_keys_insert:
  assumes "A i = None"
  shows "potential_keys part (A(i \<mapsto> ob)) =
     (if potential_partition_of ob = part then insert (potential_score part ob, i) (potential_keys part A)
      else potential_keys part A)"
  using assms by (auto simp: potential_keys_def split: if_splits)

lemma potential_keys_remove:
  assumes "A i = Some ob"
  shows "potential_keys part (A(i := None)) =
     (if potential_partition_of ob = part then potential_keys part A - {(potential_score part ob, i)}
      else potential_keys part A)"
  using assms by (auto simp: potential_keys_def split: if_splits)

lemma potential_keys_image:
  "snd ` {k \<in> potential_keys part A. Q (fst k)} =
     {i. \<exists>ob. A i = Some ob \<and> potential_partition_of ob = part \<and> Q (potential_score part ob)}"
proof (rule set_eqI, rule iffI)
  fix i assume "i \<in> {i. \<exists>ob. A i = Some ob \<and> potential_partition_of ob = part \<and> Q (potential_score part ob)}"
  then obtain ob where "(potential_score part ob, i) \<in> {k \<in> potential_keys part A. Q (fst k)}"
    by (auto simp: potential_keys_mem)
  then show "i \<in> snd ` {k \<in> potential_keys part A. Q (fst k)}" by force
qed (auto simp: potential_keys_def)

lemma potential_keys_empty [simp]: "potential_keys part (\<lambda>_. None) = {}"
  by (simp add: potential_keys_def)

text \<open>The entry of \<open>_members\<close> for an observation.\<close>

definition member_entry :: "semantic_observation \<Rightarrow> (potential_partition \<times> rat) option" where
  "member_entry ob =
     (let part = potential_partition_of ob in
      if part = PP_ALWAYS_NEUTRAL then None else Some (part, potential_score part ob))"

definition flip_stores :: "exact_flip_index \<Rightarrow> (string \<rightharpoonup> semantic_observation) \<Rightarrow> bool" where
  "flip_stores ix A \<longleftrightarrow>
     opt_set.stores (fi_support ix) (potential_keys PP_SUPPORT A) \<and>
     opt_set.stores (fi_refute ix) (potential_keys PP_REFUTE A) \<and>
     dict_ok (fi_members ix) \<and>
     (\<forall>i. dget (fi_members ix) i = Option.bind (A i) member_entry)"

lemma flip_storesD:
  assumes "flip_stores ix A"
  shows "opt_set.stores (fi_support ix) (potential_keys PP_SUPPORT A)"
    and "opt_set.stores (fi_refute ix) (potential_keys PP_REFUTE A)"
    and "dict_ok (fi_members ix)" and "dget (fi_members ix) i = Option.bind (A i) member_entry"
  using assms unfolding flip_stores_def by blast+

lemma flip_new_stores: "flip_stores flip_new (\<lambda>_. None)"
  by (simp add: flip_stores_def flip_new_def opt_set.stores_new)

lemma flip_add_ok:
  assumes st: "flip_stores ix A" and fresh: "A (ob_observation_id ob) = None"
  shows "\<exists>ix'. flip_add ix ob = Inr ix' \<and> flip_stores ix' (A(ob_observation_id ob \<mapsto> ob))"
proof -
  let ?i = "ob_observation_id ob" and ?part = "potential_partition_of ob"
  note S = flip_storesD [OF st]
  have nomem: "\<not> dmem ?i (fi_members ix)" using S(4) [of ?i] fresh by (simp add: dmem_def)
  note keys = potential_keys_insert [where A = A and i = "ob_observation_id ob", OF fresh, of _ ob]
  show ?thesis
  proof (cases ?part)
    case PP_SUPPORT
    have "(ob_support_score ob, ?i) \<notin> potential_keys PP_SUPPORT A"
      using fresh by (simp add: potential_keys_mem)
    from opt_set.stores_add [OF S(1) this] obtain t where
      "opt_insert (fi_support ix) (ob_support_score ob, ?i) = Inr t"
      "opt_set.stores t (potential_keys PP_SUPPORT (A(?i \<mapsto> ob)))"
      using PP_SUPPORT by (auto simp: keys potential_score_def)
    with S PP_SUPPORT nomem show ?thesis
      by (auto simp: flip_add_def flip_stores_def keys member_entry_def potential_score_def Let_def)
  next
    case PP_REFUTE
    have "(ob_refute_score ob, ?i) \<notin> potential_keys PP_REFUTE A"
      using fresh by (simp add: potential_keys_mem)
    from opt_set.stores_add [OF S(2) this] obtain t where
      "opt_insert (fi_refute ix) (ob_refute_score ob, ?i) = Inr t"
      "opt_set.stores t (potential_keys PP_REFUTE (A(?i \<mapsto> ob)))"
      using PP_REFUTE by (auto simp: keys potential_score_def)
    with S PP_REFUTE nomem show ?thesis
      by (auto simp: flip_add_def flip_stores_def keys member_entry_def potential_score_def Let_def)
  next
    case PP_ALWAYS_NEUTRAL
    with S nomem fresh show ?thesis
      by (auto simp: flip_add_def flip_stores_def keys member_entry_def Let_def)
  qed
qed

lemma flip_remove_ok:
  assumes st: "flip_stores ix A" and A: "A (ob_observation_id ob) = Some ob"
  shows "\<exists>ix'. flip_remove ix ob = Inr ix' \<and> flip_stores ix' (A(ob_observation_id ob := None))"
proof -
  let ?i = "ob_observation_id ob" and ?part = "potential_partition_of ob"
  note S = flip_storesD [OF st]
  have mem: "dget (fi_members ix) ?i = member_entry ob" using S(4) [of ?i] A by simp
  note keys = potential_keys_remove [where A = A and i = "ob_observation_id ob", OF A]
  show ?thesis
  proof (cases ?part)
    case PP_SUPPORT
    have "(ob_support_score ob, ?i) \<in> potential_keys PP_SUPPORT A"
      using A PP_SUPPORT by (simp add: potential_keys_mem potential_score_def)
    from opt_set.stores_remove [OF S(1) this] obtain t where
      "opt_delete (fi_support ix) (ob_support_score ob, ?i) = Inr t"
      "opt_set.stores t (potential_keys PP_SUPPORT (A(?i := None)))"
      using PP_SUPPORT by (auto simp: keys potential_score_def)
    with S PP_SUPPORT mem show ?thesis
      by (auto simp: flip_remove_def flip_stores_def keys member_entry_def potential_score_def Let_def)
  next
    case PP_REFUTE
    have "(ob_refute_score ob, ?i) \<in> potential_keys PP_REFUTE A"
      using A PP_REFUTE by (simp add: potential_keys_mem potential_score_def)
    from opt_set.stores_remove [OF S(2) this] obtain t where
      "opt_delete (fi_refute ix) (ob_refute_score ob, ?i) = Inr t"
      "opt_set.stores t (potential_keys PP_REFUTE (A(?i := None)))"
      using PP_REFUTE by (auto simp: keys potential_score_def)
    with S PP_REFUTE mem show ?thesis
      by (auto simp: flip_remove_def flip_stores_def keys member_entry_def potential_score_def Let_def)
  next
    case PP_ALWAYS_NEUTRAL
    with S mem show ?thesis
      by (auto simp: flip_remove_def flip_stores_def keys member_entry_def Let_def)
  qed
qed

section \<open>Flips\<close>

lemma inorder_stores:
  assumes "opt_set.stores t X"
  shows "set (inorder (opt_shape t)) = X" and "distinct (inorder (opt_shape t))"
    and "bst (opt_shape t)"
proof -
  show "bst (opt_shape t)" using assms by (simp add: opt_set.stores_def opt_inv_def)
  then show "distinct (inorder (opt_shape t))"
    by (metis bst_iff_sorted_wrt_less strict_sorted_iff)
  show "set (inorder (opt_shape t)) = X"
    using assms by (simp add: opt_set.stores_def opt_elems_def)
qed

text \<open>A search of one side returns its observations with a score in the gap, once each.\<close>

lemma side_flips:
  assumes st: "opt_set.stores t (potential_keys part A)"
  shows "set (opt_ids_between t lower upper) =
       {i. \<exists>ob. A i = Some ob \<and> potential_partition_of ob = part \<and>
               lower \<le> potential_score part ob \<and> potential_score part ob < upper}"
    and "distinct (opt_ids_between t lower upper)"
proof -
  note I = inorder_stores [OF st]
  show "set (opt_ids_between t lower upper) =
       {i. \<exists>ob. A i = Some ob \<and> potential_partition_of ob = part \<and>
               lower \<le> potential_score part ob \<and> potential_score part ob < upper}"
    using potential_keys_image [of part A "\<lambda>x. lower \<le> x \<and> x < upper"]
    by (simp add: opt_ids_between [OF I(3)] I(1) [unfolded set_inorder])
  have "inj_on snd (set (filter (\<lambda>k. lower \<le> fst k \<and> fst k < upper) (inorder (opt_shape t))))"
    using I(1) [unfolded set_inorder] by (auto simp: inj_on_def potential_keys_def)
  with I(2) show "distinct (opt_ids_between t lower upper)"
    unfolding opt_ids_between [OF I(3)] by (simp add: distinct_map)
qed

definition flipped :: "decision_policy \<Rightarrow> decision_policy \<Rightarrow> semantic_observation \<Rightarrow> bool" where
  "flipped p q ob \<longleftrightarrow> decide ob p \<noteq> decide ob q"

lemma flipped_iff:
  "flipped p q ob \<longleftrightarrow>
     (potential_partition_of ob = PP_SUPPORT \<and>
        in_threshold_gap (dp_support_threshold p) (dp_support_threshold q) (ob_support_score ob)) \<or>
     (potential_partition_of ob = PP_REFUTE \<and>
        in_threshold_gap (dp_refute_threshold p) (dp_refute_threshold q) (ob_refute_score ob))"
  unfolding flipped_def decide_of_partition
  by (cases "potential_partition_of ob") (auto simp: in_threshold_gap_def min_def max_def)

lemma exact_flips_Inr:
  assumes st: "flip_stores ix A" and "dp_tie_rule_version p = ''v1''" and "dp_tie_rule_version q = ''v1''"
  shows "\<exists>query sids rids. exact_flips ix p q = Inr query \<and> fq_observation_ids query = sids @ rids \<and>
     fq_support_flips query = length sids \<and> fq_refute_flips query = length rids \<and>
     fq_searches query = of_bool (dp_support_threshold p \<noteq> dp_support_threshold q) +
       of_bool (dp_refute_threshold p \<noteq> dp_refute_threshold q) \<and>
     distinct sids \<and> distinct rids \<and>
     set sids = {i. \<exists>ob. A i = Some ob \<and> flipped p q ob \<and> potential_partition_of ob = PP_SUPPORT} \<and>
     set rids = {i. \<exists>ob. A i = Some ob \<and> flipped p q ob \<and> potential_partition_of ob = PP_REFUTE}"
proof -
  note S = flip_storesD [OF st]
  let ?ts = "dp_support_threshold p" and ?us = "dp_support_threshold q"
  let ?tr = "dp_refute_threshold p" and ?ur = "dp_refute_threshold q"
  let ?sids = "if ?ts \<noteq> ?us then opt_ids_between (fi_support ix) (min ?ts ?us) (max ?ts ?us) else []"
  let ?rids = "if ?tr \<noteq> ?ur then opt_ids_between (fi_refute ix) (min ?tr ?ur) (max ?tr ?ur) else []"
  let ?query = "\<lparr>fq_observation_ids = ?sids @ ?rids, fq_searches = of_bool (?ts \<noteq> ?us) + of_bool (?tr \<noteq> ?ur),
     fq_support_flips = length ?sids, fq_refute_flips = length ?rids\<rparr>"
  have run: "exact_flips ix p q = Inr ?query"
    using assms(2,3) by (simp add: exact_flips_def Let_def)
  have sids: "set ?sids = {i. \<exists>ob. A i = Some ob \<and> flipped p q ob \<and> potential_partition_of ob = PP_SUPPORT}"
    using side_flips(1) [OF S(1)] by (auto simp: flipped_iff in_threshold_gap_def potential_score_def)
  have rids: "set ?rids = {i. \<exists>ob. A i = Some ob \<and> flipped p q ob \<and> potential_partition_of ob = PP_REFUTE}"
    using side_flips(1) [OF S(2)] by (auto simp: flipped_iff in_threshold_gap_def potential_score_def)
  have "distinct ?sids" "distinct ?rids" using side_flips(2) [OF S(1)] side_flips(2) [OF S(2)] by simp_all
  with run sids rids show ?thesis by (intro exI conjI) (assumption | simp)+
qed

text \<open>C18: the flip index is exact and output-sensitive.  For a change between two policies under tie
  rule v1, an index that stores the active observations returns, without repetition, exactly the
  observations whose label differs between the two policies; it makes one search per changed
  threshold, and the two reported flip counts add up to the number of flips.\<close>

theorem exact_flips_enumerate_label_changes:
  assumes "flip_stores ix A"
    and "dp_tie_rule_version p = ''v1''" and "dp_tie_rule_version q = ''v1''"
  shows "\<exists>query. exact_flips ix p q = Inr query \<and>
     distinct (fq_observation_ids query) \<and>
     set (fq_observation_ids query) = {i. \<exists>ob. A i = Some ob \<and> decide ob p \<noteq> decide ob q} \<and>
     fq_support_flips query + fq_refute_flips query = length (fq_observation_ids query) \<and>
     fq_searches query \<le> 2"
proof -
  from exact_flips_Inr [OF assms] obtain query sids rids where
    run: "exact_flips ix p q = Inr query"
    and ids: "fq_observation_ids query = sids @ rids"
    and counts: "fq_support_flips query = length sids" "fq_refute_flips query = length rids"
    and searches: "fq_searches query = of_bool (dp_support_threshold p \<noteq> dp_support_threshold q) +
       of_bool (dp_refute_threshold p \<noteq> dp_refute_threshold q)"
    and dist: "distinct sids" "distinct rids"
    and sids: "set sids = {i. \<exists>ob. A i = Some ob \<and> flipped p q ob \<and> potential_partition_of ob = PP_SUPPORT}"
    and rids: "set rids = {i. \<exists>ob. A i = Some ob \<and> flipped p q ob \<and> potential_partition_of ob = PP_REFUTE}"
    by blast
  have "set sids \<inter> set rids = {}" unfolding sids rids by auto
  moreover have "set sids \<union> set rids = {i. \<exists>ob. A i = Some ob \<and> decide ob p \<noteq> decide ob q}"
    unfolding sids rids flipped_def [symmetric] using flipped_iff by blast
  ultimately show ?thesis using run ids counts searches dist by auto
qed

definition demo_flip_observation :: "string \<Rightarrow> rat \<Rightarrow> rat \<Rightarrow> semantic_observation" where
  "demo_flip_observation i s t =
     \<lparr>ob_observation_id = i, ob_subject_kind = CLAIM, ob_subject_id = ''c'',
      ob_chunk_version_id = ''k'', ob_task_type = ''nli'', ob_support_score = s,
      ob_refute_score = t, ob_neutral_score = 1 / 10,
      ob_producer = \<lparr>ms_model_id = ''m'', ms_model_version = ''1'', ms_prompt_version = ''p''\<rparr>,
      ob_input_hash = ''h''\<rparr>"

definition demo_flip_policy :: "rat \<Rightarrow> decision_policy" where
  "demo_flip_policy t =
     \<lparr>dp_policy_version = ''p'', dp_support_threshold = t, dp_refute_threshold = 1 / 2,
      dp_tie_rule_version = ''v1''\<rparr>"

theorem exact_flips_enumerate_label_changes_witness:
  "\<exists>ix query. flip_add flip_new (demo_flip_observation ''a'' (7 / 10) (1 / 5)) = Inr ix \<and>
     exact_flips ix (demo_flip_policy (1 / 2)) (demo_flip_policy (9 / 10)) = Inr query \<and>
     set (fq_observation_ids query) = {''a''}"
proof -
  let ?ob = "demo_flip_observation ''a'' (7 / 10) (1 / 5)"
  let ?p = "demo_flip_policy (1 / 2)" and ?q = "demo_flip_policy (9 / 10)"
  have id: "ob_observation_id ?ob = ''a''" by (simp add: demo_flip_observation_def)
  from flip_add_ok [OF flip_new_stores refl, of ?ob] obtain ix where
    ix: "flip_add flip_new ?ob = Inr ix" "flip_stores ix [''a'' \<mapsto> ?ob]" unfolding id by blast
  have flip: "decide ?ob ?p \<noteq> decide ?ob ?q" by code_simp
  have tie: "dp_tie_rule_version ?p = ''v1''" "dp_tie_rule_version ?q = ''v1''"
    by (simp_all add: demo_flip_policy_def)
  from exact_flips_enumerate_label_changes [OF ix(2) tie] obtain query where
    "exact_flips ix ?p ?q = Inr query"
    "set (fq_observation_ids query) = {i. \<exists>ob. [''a'' \<mapsto> ?ob] i = Some ob \<and> decide ob ?p \<noteq> decide ob ?q}"
    by blast
  with ix(1) flip show ?thesis by (auto split: if_splits)
qed

lemma flip_validate_ok:
  assumes "flip_stores ix A"
  shows "flip_validate ix = Inr ()" and "flip_len ix = card {i. \<exists>ob. A i = Some ob \<and> potential_partition_of ob \<noteq> PP_ALWAYS_NEUTRAL}"
proof -
  note S = flip_storesD [OF assms]
  have valid: "opt_inv (fi_support ix)" "opt_inv (fi_refute ix)"
    using S(1,2) by (simp_all add: opt_set.stores_def)
  let ?D = "{i. \<exists>ob. A i = Some ob \<and> potential_partition_of ob \<noteq> PP_ALWAYS_NEUTRAL}"
  have dom: "set (dkeys (fi_members ix)) = ?D"
    unfolding set_dkeys by (rule set_eqI) (auto simp: domIff S(4) member_entry_def Let_def bind_eq_None_conv split: if_splits)
  then have "length (fi_members ix) = card ?D"
    using S(3) by (metis dict_ok_def distinct_card length_map)
  then show "flip_len ix = card ?D" by (simp add: flip_len_def)
  have side: "card (potential_keys part A) = card {i. \<exists>ob. A i = Some ob \<and> potential_partition_of ob = part}" for part
  proof -
    have "inj_on snd (potential_keys part A)" by (auto simp: inj_on_def potential_keys_def)
    moreover have "snd ` potential_keys part A = {i. \<exists>ob. A i = Some ob \<and> potential_partition_of ob = part}"
      using potential_keys_image [of part A "\<lambda>_. True"] by simp
    ultimately show ?thesis by (metis card_image)
  qed
  have sizes: "opt_size (fi_support ix) = int (card (potential_keys PP_SUPPORT A))"
    "opt_size (fi_refute ix) = int (card (potential_keys PP_REFUTE A))"
    using S(1,2) by (simp_all add: opt_set.stores_def opt_inv_def opt_elems_def opt_meta_values bst_size_card)
  have fin: "finite {i. \<exists>ob. A i = Some ob \<and> potential_partition_of ob = part}" if "part \<in> {PP_SUPPORT, PP_REFUTE}" for part
  proof (rule finite_subset)
    show "{i. \<exists>ob. A i = Some ob \<and> potential_partition_of ob = part} \<subseteq> ?D" using that by auto
    show "finite ?D" unfolding dom [symmetric] by simp
  qed
  have "?D = {i. \<exists>ob. A i = Some ob \<and> potential_partition_of ob = PP_SUPPORT} \<union>
      {i. \<exists>ob. A i = Some ob \<and> potential_partition_of ob = PP_REFUTE}" (is "_ = ?S \<union> ?R")
    by (auto, metis potential_partition.exhaust)
  moreover have "?S \<inter> ?R = {}" by auto
  ultimately have "card ?D = card ?S + card ?R" using fin by (simp add: card_Un_disjoint)
  then have "int (length (fi_members ix)) = opt_size (fi_support ix) + opt_size (fi_refute ix)"
    using \<open>length (fi_members ix) = card ?D\<close> sizes side by simp
  then show "flip_validate ix = Inr ()"
    using valid [folded opt_validate_iff] by (simp add: flip_validate_def)
qed

end
