(* ===== verification/GL_OptEngine.thy ===== *)
theory GL_OptEngine
  imports GL_ExactFlip GL_Engine
begin

text \<open>
  The independent direct-witness engine of \<open>groundloop/optimized/engine.py\<close>: its state and its
  operations.  As in \<open>GL_Engine\<close>, a method that mutates \<open>self\<close> returns the new state or the exception
  it raises, and \<open>touched_claims\<close> and \<open>stats\<close> travel with the engine.

  The loops over \<open>touched_claims\<close> and \<open>touched_answers\<close>, and \<open>next(iter(ids), None)\<close>, visit a Python
  set in an order that the language leaves open and that depends on the hash seed and on the
  history of the set.  That order is the parameter \<open>order\<close>, which may look at the whole engine; the
  theorems hold for every order that visits each element of a finite set once.
\<close>

type_synonym 'e iteration_order = "'e \<Rightarrow> string set \<Rightarrow> string list"

definition is_iteration_order :: "'e iteration_order \<Rightarrow> bool" where
  "is_iteration_order order \<longleftrightarrow>
     (\<forall>e S. finite S \<longrightarrow> set (order e S) = S \<and> distinct (order e S))"

section \<open>State\<close>

record opt_certificate =
  oc_claim_id :: string
  oc_support_observation_id :: "string option"
  oc_refute_observation_id :: "string option"

record opt_stats =
  os_active_observations_added :: nat
  os_active_observations_removed :: nat
  os_point_index_updates :: nat
  os_policy_index_searches :: nat
  os_policy_index_candidates :: nat
  os_decision_flips :: nat
  os_distinct_hash_crossings :: nat
  os_claim_keys_touched :: nat
  os_claim_status_changes :: nat
  os_answer_keys_touched :: nat
  os_answer_status_changes :: nat

definition opt_no_stats :: opt_stats where
  "opt_no_stats =
     \<lparr>os_active_observations_added = 0, os_active_observations_removed = 0,
      os_point_index_updates = 0, os_policy_index_searches = 0, os_policy_index_candidates = 0,
      os_decision_flips = 0, os_distinct_hash_crossings = 0, os_claim_keys_touched = 0,
      os_claim_status_changes = 0, os_answer_keys_touched = 0, os_answer_status_changes = 0\<rparr>"

record opt_mutable_stats =
  om_active_observations_added :: nat
  om_active_observations_removed :: nat
  om_point_index_updates :: nat
  om_policy_index_searches :: nat
  om_policy_index_candidates :: nat
  om_decision_flips :: nat
  om_distinct_hash_crossings :: nat
  om_claim_status_changes :: nat
  om_answer_status_changes :: nat

definition opt_new_stats :: opt_mutable_stats where
  "opt_new_stats =
     \<lparr>om_active_observations_added = 0, om_active_observations_removed = 0,
      om_point_index_updates = 0, om_policy_index_searches = 0, om_policy_index_candidates = 0,
      om_decision_flips = 0, om_distinct_hash_crossings = 0, om_claim_status_changes = 0,
      om_answer_status_changes = 0\<rparr>"

definition opt_freeze :: "opt_mutable_stats \<Rightarrow> string set \<Rightarrow> string set \<Rightarrow> opt_stats" where
  "opt_freeze m touched_claims touched_answers =
     \<lparr>os_active_observations_added = om_active_observations_added m,
      os_active_observations_removed = om_active_observations_removed m,
      os_point_index_updates = om_point_index_updates m,
      os_policy_index_searches = om_policy_index_searches m,
      os_policy_index_candidates = om_policy_index_candidates m,
      os_decision_flips = om_decision_flips m,
      os_distinct_hash_crossings = om_distinct_hash_crossings m,
      os_claim_keys_touched = card touched_claims,
      os_claim_status_changes = om_claim_status_changes m,
      os_answer_keys_touched = card touched_answers,
      os_answer_status_changes = om_answer_status_changes m\<rparr>"

record opt_aggregate =
  ag_support_hash_refcounts :: "(string, int) pydict"
  ag_refute_hash_refcounts :: "(string, int) pydict"
  ag_support_ids :: "string set"
  ag_refute_ids :: "string set"
  ag_support_potential_scores :: score_ordered_set
  ag_refute_potential_scores :: score_ordered_set

definition new_aggregate :: opt_aggregate where
  "new_aggregate =
     \<lparr>ag_support_hash_refcounts = [], ag_refute_hash_refcounts = [], ag_support_ids = {},
      ag_refute_ids = {}, ag_support_potential_scores = ONone, ag_refute_potential_scores = ONone\<rparr>"

record active_entry =
  ao_observation :: semantic_observation
  ao_text_hash :: string

record opt_engine =
  oe_claims :: "(string, opt_aggregate) pydict"
  oe_claim_statuses :: "(string, claim_status) pydict"
  oe_claim_to_answer :: "(string, string) pydict"
  oe_claim_required :: "(string, bool) pydict"
  oe_answer_to_claims :: "(string, string list) pydict"
  oe_answer_counts :: "(string, status_counter) pydict"
  oe_answer_statuses :: "(string, answer_status) pydict"
  oe_active :: "(string, active_entry) pydict"
  oe_labels :: "(string, verification_label) pydict"
  oe_policy_index :: exact_flip_index
  oe_certificates :: "(string, opt_certificate) pydict"
  oe_last_stats :: opt_stats

definition opt_new_engine :: opt_engine where
  "opt_new_engine =
     \<lparr>oe_claims = [], oe_claim_statuses = [], oe_claim_to_answer = [], oe_claim_required = [],
      oe_answer_to_claims = [], oe_answer_counts = [], oe_answer_statuses = [], oe_active = [],
      oe_labels = [], oe_policy_index = flip_new, oe_certificates = [],
      oe_last_stats = opt_no_stats\<rparr>"

text \<open>The engine with the objects that an update threads through its helpers.\<close>

record opt_ctx =
  ox_engine :: opt_engine
  ox_touched_claims :: "string set"
  ox_stats :: opt_mutable_stats

section \<open>Statuses and certificates\<close>

definition opt_claim_status :: "opt_aggregate \<Rightarrow> claim_status" where
  "opt_claim_status a =
     (let supported = ag_support_hash_refcounts a \<noteq> []; refuted = ag_refute_hash_refcounts a \<noteq> [] in
      if supported \<and> refuted then CONFLICTED
      else if supported then SUPPORTED
      else if refuted then REFUTED
      else UNSUPPORTED)"

definition opt_answer_status :: "status_counter \<Rightarrow> int \<Rightarrow> answer_status" where
  "opt_answer_status counts required =
     (if 0 < counter_get counts REFUTED then CONTRADICTED
      else if 0 < counter_get counts CONFLICTED then ANSWER_CONFLICTED
      else if 0 < required \<and> counter_get counts SUPPORTED = required then VALID
      else if 0 < counter_get counts SUPPORTED then PARTIALLY_SUPPORTED
      else ANSWER_UNSUPPORTED)"

text \<open>One side of a certificate: keep the witness if it is still one, else take the first of the set.\<close>

definition repair_witness :: "string list \<Rightarrow> string set \<Rightarrow> string option \<Rightarrow> string option" where
  "repair_witness iteration ids old =
     (case old of
        Some i \<Rightarrow> if i \<in> ids then Some i else first_id iteration
      | None \<Rightarrow> first_id iteration)"

definition opt_repair_certificate ::
    "opt_engine iteration_order \<Rightarrow> string \<Rightarrow> opt_engine \<Rightarrow> opt_engine res" where
  "opt_repair_certificate order cid e =
     bind_res (lookup KeyError (oe_claims e) cid) (\<lambda>a.
       let old = dget (oe_certificates e) cid;
           support_id = Option.bind old oc_support_observation_id;
           refute_id = Option.bind old oc_refute_observation_id in
       Inr (e\<lparr>oe_certificates := dset cid
         \<lparr>oc_claim_id = cid,
          oc_support_observation_id =
            repair_witness (order e (ag_support_ids a)) (ag_support_ids a) support_id,
          oc_refute_observation_id =
            repair_witness (order e (ag_refute_ids a)) (ag_refute_ids a) refute_id\<rparr>
         (oe_certificates e)\<rparr>))"

section \<open>Labels\<close>

text \<open>The two containers that \<open>_add_label\<close> and \<open>_remove_label\<close> select by label.\<close>

definition ag_get :: "verification_label \<Rightarrow> opt_aggregate \<Rightarrow> (string, int) pydict \<times> string set" where
  "ag_get l a =
     (if l = SUPPORT then (ag_support_hash_refcounts a, ag_support_ids a)
      else (ag_refute_hash_refcounts a, ag_refute_ids a))"

definition ag_put ::
    "verification_label \<Rightarrow> (string, int) pydict \<times> string set \<Rightarrow> opt_aggregate \<Rightarrow> opt_aggregate" where
  "ag_put l s a =
     (if l = SUPPORT then a\<lparr>ag_support_hash_refcounts := fst s, ag_support_ids := snd s\<rparr>
      else a\<lparr>ag_refute_hash_refcounts := fst s, ag_refute_ids := snd s\<rparr>)"

definition opt_add_label :: "string \<Rightarrow> verification_label \<Rightarrow> opt_ctx \<Rightarrow> opt_ctx res" where
  "opt_add_label i label cx =
     (let e = ox_engine cx; st = ox_stats cx in
      if label = NEUTRAL then Inr cx
      else bind_res (lookup KeyError (oe_active e) i) (\<lambda>active.
        let ob = ao_observation active in
        if ob_subject_kind ob \<noteq> CLAIM then Inr cx
        else bind_res (lookup KeyError (oe_claims e) (ob_subject_id ob)) (\<lambda>a.
          let (refcounts, ids) = ag_get label a;
              old = dget_default refcounts (ao_text_hash active) 0;
              side = (dset (ao_text_hash active) (old + 1) refcounts, insert i ids) in
          Inr (cx\<lparr>ox_engine := e\<lparr>oe_claims := dset (ob_subject_id ob) (ag_put label side a) (oe_claims e)\<rparr>,
                  ox_touched_claims := insert (ob_subject_id ob) (ox_touched_claims cx),
                  ox_stats := st\<lparr>om_distinct_hash_crossings :=
                    om_distinct_hash_crossings st + (if old = 0 then 1 else 0)\<rparr>\<rparr>))))"

definition opt_remove_label :: "string \<Rightarrow> verification_label \<Rightarrow> opt_ctx \<Rightarrow> opt_ctx res" where
  "opt_remove_label i label cx =
     (let e = ox_engine cx; st = ox_stats cx in
      if label = NEUTRAL then Inr cx
      else bind_res (lookup KeyError (oe_active e) i) (\<lambda>active.
        let ob = ao_observation active in
        if ob_subject_kind ob \<noteq> CLAIM then Inr cx
        else bind_res (lookup KeyError (oe_claims e) (ob_subject_id ob)) (\<lambda>a.
          let (refcounts, ids) = ag_get label a;
              old = dget_default refcounts (ao_text_hash active) 0 in
          if old \<le> 0 then Inl AssertionError
          else if i \<notin> ids then Inl KeyError
          else
            let refcounts' = (if old = 1 then ddel (ao_text_hash active) refcounts
                              else dset (ao_text_hash active) (old - 1) refcounts);
                side = (refcounts', ids - {i}) in
            Inr (cx\<lparr>ox_engine := e\<lparr>oe_claims := dset (ob_subject_id ob) (ag_put label side a) (oe_claims e)\<rparr>,
                    ox_touched_claims := insert (ob_subject_id ob) (ox_touched_claims cx),
                    ox_stats := st\<lparr>om_distinct_hash_crossings :=
                      om_distinct_hash_crossings st + (if old = 1 then 1 else 0)\<rparr>\<rparr>))))"

section \<open>Activation\<close>

definition point_updates :: "semantic_observation \<Rightarrow> nat" where
  "point_updates ob = (if potential_partition_of ob \<noteq> PP_ALWAYS_NEUTRAL then 1 else 0)"

text \<open>The potential scores of the claim: both ends of an activation.\<close>

definition potential_add :: "semantic_observation \<Rightarrow> opt_aggregate \<Rightarrow> opt_aggregate res" where
  "potential_add ob a =
     (case potential_partition_of ob of
        PP_SUPPORT \<Rightarrow>
          bind_res (opt_insert (ag_support_potential_scores a) (ob_support_score ob, ob_observation_id ob))
            (\<lambda>t. Inr (a\<lparr>ag_support_potential_scores := t\<rparr>))
      | PP_REFUTE \<Rightarrow>
          bind_res (opt_insert (ag_refute_potential_scores a) (ob_refute_score ob, ob_observation_id ob))
            (\<lambda>t. Inr (a\<lparr>ag_refute_potential_scores := t\<rparr>))
      | PP_ALWAYS_NEUTRAL \<Rightarrow> Inr a)"

definition potential_remove :: "semantic_observation \<Rightarrow> string \<Rightarrow> opt_aggregate \<Rightarrow> opt_aggregate res" where
  "potential_remove ob i a =
     (case potential_partition_of ob of
        PP_SUPPORT \<Rightarrow>
          bind_res (opt_delete (ag_support_potential_scores a) (ob_support_score ob, i))
            (\<lambda>t. Inr (a\<lparr>ag_support_potential_scores := t\<rparr>))
      | PP_REFUTE \<Rightarrow>
          bind_res (opt_delete (ag_refute_potential_scores a) (ob_refute_score ob, i))
            (\<lambda>t. Inr (a\<lparr>ag_refute_potential_scores := t\<rparr>))
      | PP_ALWAYS_NEUTRAL \<Rightarrow> Inr a)"

definition opt_activate :: "semantic_observation \<Rightarrow> repo \<Rightarrow> opt_ctx \<Rightarrow> opt_ctx res" where
  "opt_activate ob r cx =
     (let e = ox_engine cx; st = ox_stats cx; i = ob_observation_id ob in
      if dmem i (oe_active e) then Inl AssertionError
      else bind_res (chunk_version_of r (ob_chunk_version_id ob)) (\<lambda>cv.
      bind_res (current_policy r) (\<lambda>p.
      let label = decide ob p in
      bind_res (flip_add (oe_policy_index e) ob) (\<lambda>ix.
        let e = e\<lparr>oe_active := dset i \<lparr>ao_observation = ob, ao_text_hash = cv_text_hash cv\<rparr> (oe_active e),
                  oe_labels := dset i label (oe_labels e),
                  oe_policy_index := ix\<rparr>;
            st = st\<lparr>om_active_observations_added := om_active_observations_added st + 1,
                    om_point_index_updates := om_point_index_updates st + point_updates ob\<rparr> in
        if ob_subject_kind ob \<noteq> CLAIM then Inr (cx\<lparr>ox_engine := e, ox_stats := st\<rparr>)
        else bind_res (lookup KeyError (oe_claims e) (ob_subject_id ob)) (\<lambda>a.
          bind_res (potential_add ob a) (\<lambda>a'.
            opt_add_label i label
              (cx\<lparr>ox_engine := e\<lparr>oe_claims := dset (ob_subject_id ob) a' (oe_claims e)\<rparr>,
                  ox_stats := st\<rparr>)))))))"

definition opt_deactivate :: "string \<Rightarrow> opt_ctx \<Rightarrow> opt_ctx res" where
  "opt_deactivate i cx =
     (let e = ox_engine cx in
      case dget (oe_active e) i of
        None \<Rightarrow> Inr cx
      | Some active \<Rightarrow>
          let ob = ao_observation active in
          bind_res (lookup KeyError (oe_labels e) i) (\<lambda>label.
          bind_res (opt_remove_label i label (cx\<lparr>ox_engine := e\<lparr>oe_labels := ddel i (oe_labels e)\<rparr>\<rparr>))
            (\<lambda>cx. let e = ox_engine cx; st = ox_stats cx in
              bind_res (flip_remove (oe_policy_index e) ob) (\<lambda>ix.
                let e = e\<lparr>oe_active := ddel i (oe_active e), oe_policy_index := ix\<rparr>;
                    st = st\<lparr>om_active_observations_removed := om_active_observations_removed st + 1,
                            om_point_index_updates := om_point_index_updates st + point_updates ob\<rparr> in
                if ob_subject_kind ob \<noteq> CLAIM then Inr (cx\<lparr>ox_engine := e, ox_stats := st\<rparr>)
                else bind_res (lookup KeyError (oe_claims e) (ob_subject_id ob)) (\<lambda>a.
                  bind_res (potential_remove ob i a) (\<lambda>a'.
                    Inr (cx\<lparr>ox_engine := e\<lparr>oe_claims := dset (ob_subject_id ob) a' (oe_claims e)\<rparr>,
                            ox_stats := st\<rparr>)))))))"

definition opt_withdraw_chunk :: "repo \<Rightarrow> string \<Rightarrow> opt_ctx \<Rightarrow> opt_ctx res" where
  "opt_withdraw_chunk before chunk cx =
     bind_res (current_observation_ids_for_chunk before chunk) (\<lambda>ids. fold_res opt_deactivate ids cx)"

definition opt_withdraw_document :: "string \<Rightarrow> repo \<Rightarrow> opt_ctx \<Rightarrow> opt_ctx res" where
  "opt_withdraw_document v before cx =
     fold_res (opt_withdraw_chunk before) (chunk_ids_of_document_version before v) cx"

text \<open>The loop body of \<open>_change_policy\<close>.\<close>

definition opt_relabel :: "decision_policy \<Rightarrow> string \<Rightarrow> opt_ctx \<Rightarrow> opt_ctx res" where
  "opt_relabel q i cx =
     bind_res (lookup KeyError (oe_active (ox_engine cx)) i) (\<lambda>active.
     bind_res (lookup KeyError (oe_labels (ox_engine cx)) i) (\<lambda>old_label.
       let new_label = decide (ao_observation active) q in
       if old_label = new_label then Inl AssertionError
       else
         bind_res (opt_remove_label i old_label cx) (\<lambda>cx.
         let e = ox_engine cx in
         bind_res (opt_add_label i new_label
             (cx\<lparr>ox_engine := e\<lparr>oe_labels := dset i new_label (oe_labels e)\<rparr>\<rparr>)) (\<lambda>cx.
           Inr (cx\<lparr>ox_stats := (ox_stats cx)
             \<lparr>om_decision_flips := om_decision_flips (ox_stats cx) + 1\<rparr>\<rparr>)))))"

definition opt_change_policy :: "repo \<Rightarrow> repo \<Rightarrow> opt_ctx \<Rightarrow> opt_ctx res" where
  "opt_change_policy before after cx =
     bind_res (current_policy before) (\<lambda>p.
     bind_res (current_policy after) (\<lambda>q.
     bind_res (exact_flips (oe_policy_index (ox_engine cx)) p q) (\<lambda>query.
       fold_res (opt_relabel q) (fq_observation_ids query)
         (cx\<lparr>ox_stats := (ox_stats cx)
           \<lparr>om_policy_index_searches := fq_searches query,
            om_policy_index_candidates := length (fq_observation_ids query)\<rparr>\<rparr>))))"

section \<open>Registry\<close>

definition opt_required_count :: "opt_engine \<Rightarrow> string \<Rightarrow> int res" where
  "opt_required_count e aid =
     bind_res (lookup KeyError (oe_answer_to_claims e) aid) (\<lambda>cids.
     bind_res (traverse (lookup KeyError (oe_claim_required e)) cids) (\<lambda>flags.
       Inr (int (length (filter id flags)))))"

definition opt_count_claim :: "opt_engine \<Rightarrow> string \<Rightarrow> status_counter \<Rightarrow> status_counter res" where
  "opt_count_claim e cid counts =
     bind_res (lookup KeyError (oe_claim_required e) cid) (\<lambda>required.
       if required then
         bind_res (lookup KeyError (oe_claim_statuses e) cid) (\<lambda>st. Inr (counter_add st 1 counts))
       else Inr counts)"

text \<open>The loop body of \<open>_rebuild_answer_counts\<close>.\<close>

definition opt_rebuild_answer :: "string \<times> string list \<Rightarrow> opt_engine \<Rightarrow> opt_engine res" where
  "opt_rebuild_answer entry e =
     (let (aid, cids) = entry in
      bind_res (fold_res (opt_count_claim e) cids []) (\<lambda>counts.
      bind_res (opt_required_count e aid) (\<lambda>required.
        Inr (e\<lparr>oe_answer_counts := dset aid counts (oe_answer_counts e),
               oe_answer_statuses := dset aid (opt_answer_status counts required) (oe_answer_statuses e)\<rparr>))))"

definition opt_rebuild_answer_counts :: "opt_engine \<Rightarrow> opt_engine res" where
  "opt_rebuild_answer_counts e =
     fold_res opt_rebuild_answer (oe_answer_to_claims e)
       (e\<lparr>oe_answer_counts := [], oe_answer_statuses := []\<rparr>)"

definition opt_sync_claim ::
    "opt_engine iteration_order \<Rightarrow> repo \<Rightarrow> string \<Rightarrow> bool \<times> opt_engine \<Rightarrow> (bool \<times> opt_engine) res" where
  "opt_sync_claim order r cid ce =
     (let (changed, e) = ce in
      if dmem cid (oe_claims e) then Inr (changed, e)
      else bind_res (claim_of r cid) (\<lambda>cl.
        bind_res
          (opt_repair_certificate order cid
             (e\<lparr>oe_claims := dset cid new_aggregate (oe_claims e),
                oe_claim_statuses := dset cid UNSUPPORTED (oe_claim_statuses e),
                oe_claim_to_answer := dset cid (cl_answer_version_id cl) (oe_claim_to_answer e),
                oe_claim_required := dset cid (cl_required cl) (oe_claim_required e)\<rparr>))
          (\<lambda>e'. Inr (True, e'))))"

definition opt_sync_answer :: "repo \<Rightarrow> string \<Rightarrow> bool \<times> opt_engine \<Rightarrow> (bool \<times> opt_engine) res" where
  "opt_sync_answer r aid ce =
     (let (changed, e) = ce; cids = claim_ids_of_answer r aid in
      case dget (oe_answer_to_claims e) aid of
        Some known \<Rightarrow> if known \<noteq> cids then Inl AssertionError else Inr (changed, e)
      | None \<Rightarrow> Inr (True, e\<lparr>oe_answer_to_claims := dset aid cids (oe_answer_to_claims e)\<rparr>))"

definition opt_sync_registry ::
    "opt_engine iteration_order \<Rightarrow> repo \<Rightarrow> opt_engine \<Rightarrow> opt_engine res" where
  "opt_sync_registry order r e =
     bind_res (fold_res (opt_sync_claim order r) (all_claim_ids r) (False, e)) (\<lambda>ce.
     bind_res (fold_res (opt_sync_answer r) (all_answer_ids r) ce) (\<lambda>(changed, e').
       if changed then opt_rebuild_answer_counts e' else Inr e'))"

definition opt_activate_current :: "repo \<Rightarrow> semantic_observation \<Rightarrow> opt_ctx \<Rightarrow> opt_ctx res" where
  "opt_activate_current r ob cx =
     (if is_chunk_active r (ob_chunk_version_id ob) then opt_activate ob r cx else Inr cx)"

text \<open>The statement pair \<open>self._claim_statuses[c] = ...; self._repair_certificate(c)\<close>.\<close>

definition opt_refresh_claim ::
    "opt_engine iteration_order \<Rightarrow> string \<Rightarrow> opt_engine \<Rightarrow> opt_engine res" where
  "opt_refresh_claim order cid e =
     bind_res (lookup KeyError (oe_claims e) cid) (\<lambda>a.
       opt_repair_certificate order cid
         (e\<lparr>oe_claim_statuses := dset cid (opt_claim_status a) (oe_claim_statuses e)\<rparr>))"

definition opt_from_repository :: "opt_engine iteration_order \<Rightarrow> repo \<Rightarrow> opt_engine res" where
  "opt_from_repository order r =
     bind_res (opt_sync_registry order r opt_new_engine) (\<lambda>e.
     bind_res (current_observations r) (\<lambda>obs.
     bind_res (fold_res (opt_activate_current r) obs
       \<lparr>ox_engine = e, ox_touched_claims = {}, ox_stats = opt_new_stats\<rparr>) (\<lambda>cx.
     bind_res (fold_res (opt_refresh_claim order) (dkeys (oe_claims (ox_engine cx))) (ox_engine cx)) (\<lambda>e.
     bind_res (opt_rebuild_answer_counts e) (\<lambda>e.
       Inr (e\<lparr>oe_last_stats := opt_no_stats\<rparr>))))))"

section \<open>Committed events\<close>

fun opt_maintain :: "event \<Rightarrow> repo \<Rightarrow> repo \<Rightarrow> opt_ctx \<Rightarrow> opt_ctx res" where
  "opt_maintain (DeleteDocumentVersionEvent _ v) before after cx = opt_withdraw_document v before cx"
| "opt_maintain (ReplaceDocumentVersionEvent _ _ old _ _ _) before after cx =
     opt_withdraw_document old before cx"
| "opt_maintain (ObserveEvent _ ob) before after cx =
     bind_res
       (case current_observation_id before (observation_key ob) of
          None \<Rightarrow> Inr cx
        | Some previous \<Rightarrow> opt_deactivate previous cx)
       (\<lambda>cx. if is_chunk_active after (ob_chunk_version_id ob) then opt_activate ob after cx else Inr cx)"
| "opt_maintain (PolicyChangeEvent _ _) before after cx = opt_change_policy before after cx"
| "opt_maintain (InsertDocumentEvent _ _ _ _ _) before after cx = Inr cx"

record opt_flush_ctx =
  of_engine :: opt_engine
  of_stats :: opt_mutable_stats
  of_touched_answers :: "string set"

definition opt_flush_claim ::
    "opt_engine iteration_order \<Rightarrow> string \<Rightarrow> opt_flush_ctx \<Rightarrow> opt_flush_ctx res" where
  "opt_flush_claim order cid fx =
     (let e = of_engine fx; st = of_stats fx in
      bind_res (lookup KeyError (oe_claim_statuses e) cid) (\<lambda>old_status.
      bind_res (opt_refresh_claim order cid e) (\<lambda>e.
      bind_res (lookup KeyError (oe_claim_statuses e) cid) (\<lambda>new_status.
        if old_status = new_status then Inr (fx\<lparr>of_engine := e\<rparr>)
        else
          let st = st\<lparr>om_claim_status_changes := om_claim_status_changes st + 1\<rparr> in
          bind_res (lookup KeyError (oe_claim_required e) cid) (\<lambda>required.
            if \<not> required then Inr (fx\<lparr>of_engine := e, of_stats := st\<rparr>)
            else
              bind_res (lookup KeyError (oe_claim_to_answer e) cid) (\<lambda>aid.
              bind_res (lookup KeyError (oe_answer_counts e) aid) (\<lambda>counts.
                Inr \<lparr>of_engine = e\<lparr>oe_answer_counts :=
                       dset aid (counter_add new_status 1 (counter_add old_status (-1) counts))
                         (oe_answer_counts e)\<rparr>,
                     of_stats = st,
                     of_touched_answers = insert aid (of_touched_answers fx)\<rparr>)))))))"

definition opt_flush_answer ::
    "string \<Rightarrow> opt_engine \<times> opt_mutable_stats \<Rightarrow> (opt_engine \<times> opt_mutable_stats) res" where
  "opt_flush_answer aid es =
     (let (e, st) = es in
      bind_res (lookup KeyError (oe_answer_statuses e) aid) (\<lambda>old.
      bind_res (opt_required_count e aid) (\<lambda>required.
      bind_res (lookup KeyError (oe_answer_counts e) aid) (\<lambda>counts.
        let new = opt_answer_status counts required in
        Inr (e\<lparr>oe_answer_statuses := dset aid new (oe_answer_statuses e)\<rparr>,
             if old = new then st
             else st\<lparr>om_answer_status_changes := om_answer_status_changes st + 1\<rparr>)))))"

text \<open>Everything after the dispatch on the event.\<close>

definition opt_finish :: "opt_engine iteration_order \<Rightarrow> opt_ctx \<Rightarrow> opt_engine res" where
  "opt_finish order cx =
     bind_res (fold_res (opt_flush_claim order) (order (ox_engine cx) (ox_touched_claims cx))
       \<lparr>of_engine = ox_engine cx, of_stats = ox_stats cx, of_touched_answers = {}\<rparr>) (\<lambda>fx.
     bind_res (fold_res opt_flush_answer (order (of_engine fx) (of_touched_answers fx))
       (of_engine fx, of_stats fx)) (\<lambda>(e, st).
       Inr (e\<lparr>oe_last_stats := opt_freeze st (ox_touched_claims cx) (of_touched_answers fx)\<rparr>)))"

definition opt_apply_committed_event ::
    "opt_engine iteration_order \<Rightarrow> event \<Rightarrow> repo \<Rightarrow> repo \<Rightarrow> opt_engine \<Rightarrow> opt_engine res" where
  "opt_apply_committed_event order ev before after e =
     (if recorded_event before (event_id ev) \<noteq> None then Inr (e\<lparr>oe_last_stats := opt_no_stats\<rparr>)
      else
        bind_res (opt_sync_registry order after e) (\<lambda>e.
        bind_res (opt_maintain ev before after
            \<lparr>ox_engine = e, ox_touched_claims = {}, ox_stats = opt_new_stats\<rparr>)
          (opt_finish order)))"

section \<open>Materialised states\<close>

definition opt_materialize_claim :: "opt_engine \<Rightarrow> string \<Rightarrow> claim_state res" where
  "opt_materialize_claim e cid =
     bind_res (lookup KeyError (oe_claims e) cid) (\<lambda>a.
     bind_res (lookup KeyError (oe_claim_statuses e) cid) (\<lambda>st.
       Inr \<lparr>cs_claim_id = cid,
            cs_support_count = length (ag_support_hash_refcounts a),
            cs_refute_count = length (ag_refute_hash_refcounts a),
            cs_best_support_score =
              (if ag_support_ids a \<noteq> {} then opt_maximum_score (ag_support_potential_scores a) else None),
            cs_best_refute_score =
              (if ag_refute_ids a \<noteq> {} then opt_maximum_score (ag_refute_potential_scores a) else None),
            cs_supporting_observation_ids = sorted_list_of_set (ag_support_ids a),
            cs_refuting_observation_ids = sorted_list_of_set (ag_refute_ids a),
            cs_status = st\<rparr>))"

definition opt_materialize_answer :: "opt_engine \<Rightarrow> string \<Rightarrow> answer_state res" where
  "opt_materialize_answer e aid =
     bind_res (lookup KeyError (oe_answer_counts e) aid) (\<lambda>counts.
     bind_res (opt_required_count e aid) (\<lambda>required.
     bind_res (lookup KeyError (oe_answer_statuses e) aid) (\<lambda>st.
       Inr \<lparr>as_answer_version_id = aid, as_required_claim_count = required,
            as_supported_count = counter_get counts SUPPORTED,
            as_unsupported_count = counter_get counts UNSUPPORTED,
            as_refuted_count = counter_get counts REFUTED,
            as_conflicted_count = counter_get counts CONFLICTED,
            as_status = st\<rparr>)))"

definition opt_claim_states :: "opt_engine \<Rightarrow> (string, claim_state) pydict res" where
  "opt_claim_states e =
     traverse (\<lambda>cid. bind_res (opt_materialize_claim e cid) (\<lambda>st. Inr (cid, st))) (dkeys (oe_claims e))"

definition opt_answer_states :: "opt_engine \<Rightarrow> (string, answer_state) pydict res" where
  "opt_answer_states e =
     traverse (\<lambda>aid. bind_res (opt_materialize_answer e aid) (\<lambda>st. Inr (aid, st)))
       (dkeys (oe_answer_to_claims e))"

definition indexed_potential_observations :: "opt_engine \<Rightarrow> nat" where
  "indexed_potential_observations e = flip_len (oe_policy_index e)"

section \<open>Validation\<close>

text \<open>One side of a certificate is a current witness if there is one, and is empty otherwise.\<close>

definition witness_valid :: "string set \<Rightarrow> string option \<Rightarrow> bool" where
  "witness_valid ids w \<longleftrightarrow> (if ids \<noteq> {} then w \<in> Some ` ids else w = None)"

definition opt_check_claim :: "opt_engine \<Rightarrow> string \<times> opt_aggregate \<Rightarrow> unit \<Rightarrow> unit res" where
  "opt_check_claim e entry u =
     (let (cid, a) = entry in
      bind_res (opt_validate (ag_support_potential_scores a)) (\<lambda>_.
      bind_res (opt_validate (ag_refute_potential_scores a)) (\<lambda>_.
      bind_res (lookup KeyError (oe_claim_statuses e) cid) (\<lambda>st.
        if st \<noteq> opt_claim_status a then Inl AssertionError
        else bind_res (lookup KeyError (oe_certificates e) cid) (\<lambda>c.
          if \<not> witness_valid (ag_support_ids a) (oc_support_observation_id c) then Inl AssertionError
          else if \<not> witness_valid (ag_refute_ids a) (oc_refute_observation_id c) then Inl AssertionError
          else Inr ())))))"

definition opt_engine_validate :: "opt_engine \<Rightarrow> unit res" where
  "opt_engine_validate e =
     bind_res (flip_validate (oe_policy_index e)) (\<lambda>_.
       fold_res (opt_check_claim e) (oe_claims e) ())"

end
