(* ===== verification/GL_OptSteps.thy ===== *)
theory GL_OptSteps
  imports GL_OptEngine GL_EngineEvents
begin

text \<open>
  What the optimised engine represents: its aggregates are claim accumulators without the score
  multisets, its ordered sets hold the potential scores of the active observations, and every
  activation, deactivation and relabelling changes the represented view at one point.
\<close>

section \<open>Relations\<close>

text \<open>The aggregate with score multisets added.\<close>

definition as_accumulator :: "score_multiset \<Rightarrow> score_multiset \<Rightarrow> opt_aggregate \<Rightarrow> claim_accumulator" where
  "as_accumulator ss rs a =
     \<lparr>support_hash_counts = ag_support_hash_refcounts a, refute_hash_counts = ag_refute_hash_refcounts a,
      support_observation_ids = ag_support_ids a, refute_observation_ids = ag_refute_ids a,
      support_scores = ss, refute_scores = rs\<rparr>"

definition agg_rel :: "opt_aggregate \<Rightarrow> view \<Rightarrow> string \<Rightarrow> bool" where
  "agg_rel a V cid \<longleftrightarrow> (\<exists>ss rs. acc_rel (as_accumulator ss rs a) V cid)"

text \<open>The active observations of one claim, and the ordered sets that hold their potential scores.\<close>

definition claim_part :: "(string \<rightharpoonup> semantic_observation) \<Rightarrow> string \<Rightarrow> string \<rightharpoonup> semantic_observation" where
  "claim_part A cid i = (case A i of None \<Rightarrow> None | Some ob \<Rightarrow> if ob_subject_id ob = cid then Some ob else None)"

definition pot_rel :: "opt_aggregate \<Rightarrow> (string \<rightharpoonup> semantic_observation) \<Rightarrow> string \<Rightarrow> bool" where
  "pot_rel a A cid \<longleftrightarrow>
     opt_set.stores (ag_support_potential_scores a) (potential_keys PP_SUPPORT (claim_part A cid)) \<and>
     opt_set.stores (ag_refute_potential_scores a) (potential_keys PP_REFUTE (claim_part A cid))"

definition sums_rel :: "opt_engine \<Rightarrow> view \<Rightarrow> bool" where
  "sums_rel e V \<longleftrightarrow>
     dict_ok (oe_claims e) \<and>
     (\<forall>cid a. dget (oe_claims e) cid = Some a \<longrightarrow> agg_rel a V cid) \<and>
     (\<forall>i c. V i = Some c \<longrightarrow> co_observation_id c = i \<and> co_label c \<in> {SUPPORT, REFUTE} \<and>
        co_claim_id c \<in> dom (dget (oe_claims e)))"

lemma sums_relD:
  assumes "sums_rel e V"
  shows "dict_ok (oe_claims e)"
    and "dget (oe_claims e) cid = Some a \<Longrightarrow> agg_rel a V cid"
    and "V i = Some c \<Longrightarrow> co_observation_id c = i"
    and "V i = Some c \<Longrightarrow> co_label c \<in> {SUPPORT, REFUTE}"
    and "V i = Some c \<Longrightarrow> co_claim_id c \<in> dom (dget (oe_claims e))"
  using assms unfolding sums_rel_def by (elim conjE; metis)+

definition pots_rel :: "opt_engine \<Rightarrow> (string \<rightharpoonup> semantic_observation) \<Rightarrow> bool" where
  "pots_rel e A \<longleftrightarrow> (\<forall>cid a. dget (oe_claims e) cid = Some a \<longrightarrow> pot_rel a A cid)"

definition active_entry_of :: "(string \<Rightarrow> string) \<Rightarrow> semantic_observation \<Rightarrow> active_entry" where
  "active_entry_of H ob = \<lparr>ao_observation = ob, ao_text_hash = H (ob_chunk_version_id ob)\<rparr>"

lemma active_entry_of_simps [simp]:
  "ao_observation (active_entry_of H ob) = ob"
  "ao_text_hash (active_entry_of H ob) = H (ob_chunk_version_id ob)"
  by (simp_all add: active_entry_of_def)

definition entries_rel ::
    "opt_engine \<Rightarrow> (string \<rightharpoonup> semantic_observation) \<Rightarrow> (string \<rightharpoonup> verification_label) \<Rightarrow>
      (string \<Rightarrow> string) \<Rightarrow> bool" where
  "entries_rel e A L H \<longleftrightarrow>
     (\<forall>i. dget (oe_active e) i = map_option (active_entry_of H) (A i)) \<and>
     dget (oe_labels e) = L \<and> flip_stores (oe_policy_index e) A"

definition obs_ok :: "string set \<Rightarrow> (string \<rightharpoonup> semantic_observation) \<Rightarrow> bool" where
  "obs_ok K A \<longleftrightarrow> (\<forall>i ob. A i = Some ob \<longrightarrow>
     ob_observation_id ob = i \<and> ob_subject_kind ob = CLAIM \<and> ob_subject_id ob \<in> K)"

lemma obs_okD:
  assumes "obs_ok K A" and "A i = Some ob"
  shows "ob_observation_id ob = i" and "ob_subject_kind ob = CLAIM" and "ob_subject_id ob \<in> K"
  using assms by (auto simp: obs_ok_def)

section \<open>Aggregates\<close>

lemma as_accumulator_sides:
  assumes "l \<in> {SUPPORT, REFUTE}"
  shows "side_counts (get_side l (as_accumulator ss rs a)) = fst (ag_get l a)"
    and "side_ids (get_side l (as_accumulator ss rs a)) = snd (ag_get l a)"
    and "\<exists>ss' rs'. put_side l s (as_accumulator ss rs a) =
       as_accumulator ss' rs' (ag_put l (side_counts s, side_ids s) a)"
  using assms
  by (auto simp: get_side_def put_side_def as_accumulator_def ag_get_def ag_put_def
      intro!: exI [of _ "side_scores s"] exI [of _ ss] exI [of _ rs])

lemma new_aggregate_rel:
  assumes "\<And>l. witnesses V cid l = {}"
  shows "agg_rel new_aggregate V cid"
proof -
  have "as_accumulator sm_new sm_new new_aggregate = new_accumulator"
    by (simp add: as_accumulator_def new_aggregate_def new_accumulator_def)
  then show ?thesis using new_accumulator_rel [OF assms] unfolding agg_rel_def by metis
qed

lemma agg_rel_update_other:
  assumes "agg_rel a V cid" and "\<And>l. witnesses (V(i := x)) cid l = witnesses V cid l"
    and "\<And>l. i \<notin> witnesses V cid l"
  shows "agg_rel a (V(i := x)) cid"
  using assms acc_rel_update_other unfolding agg_rel_def by blast

lemma agg_rel_add:
  assumes rel: "agg_rel a V cid" and fresh: "V i = None"
    and c: "co_observation_id c = i" "co_claim_id c = cid" "co_label c \<in> {SUPPORT, REFUTE}"
    and get: "ag_get (co_label c) a = (refcounts, ids)"
  shows "agg_rel (ag_put (co_label c)
      (dset (co_text_hash c) (dget_default refcounts (co_text_hash c) 0 + 1) refcounts, insert i ids) a)
      (V(i \<mapsto> c)) cid"
proof -
  from rel obtain ss rs where acc: "acc_rel (as_accumulator ss rs a) V cid" by (auto simp: agg_rel_def)
  let ?a = "as_accumulator ss rs a" and ?l = "co_label c"
  note sides = as_accumulator_sides [where ss = ss and rs = rs and a = a, OF c(3)]
  let ?s = "fst (side_add c (get_side ?l ?a))"
  have "side_counts ?s = dset (co_text_hash c) (dget_default refcounts (co_text_hash c) 0 + 1) refcounts"
    "side_ids ?s = insert i ids"
    using sides(1,2) get c(1) by (simp_all add: side_add_def Let_def)
  moreover obtain ss' rs' where "put_side ?l ?s ?a = as_accumulator ss' rs' (ag_put ?l (side_counts ?s, side_ids ?s) a)"
    using sides(3) by blast
  ultimately show ?thesis using acc_rel_add [OF acc fresh c] unfolding agg_rel_def by metis
qed

lemma agg_rel_remove:
  assumes rel: "agg_rel a V cid" and V: "V i = Some c"
    and c: "co_observation_id c = i" "co_claim_id c = cid" "co_label c \<in> {SUPPORT, REFUTE}"
    and get: "ag_get (co_label c) a = (refcounts, ids)"
  shows "0 < dget_default refcounts (co_text_hash c) 0" and "i \<in> ids"
    and "agg_rel (ag_put (co_label c)
      (if dget_default refcounts (co_text_hash c) 0 = 1 then ddel (co_text_hash c) refcounts
       else dset (co_text_hash c) (dget_default refcounts (co_text_hash c) 0 - 1) refcounts, ids - {i}) a)
      (V(i := None)) cid"
proof -
  from rel obtain ss rs where acc: "acc_rel (as_accumulator ss rs a) V cid" by (auto simp: agg_rel_def)
  let ?a = "as_accumulator ss rs a" and ?l = "co_label c" and ?n = "dget_default refcounts (co_text_hash c) 0"
  note sides = as_accumulator_sides [where ss = ss and rs = rs and a = a, OF c(3)]
  from acc_rel_remove [OF acc V c] obtain s crossed where
    s: "side_remove c (get_side ?l ?a) = Inr (s, crossed)" "acc_rel (put_side ?l s ?a) (V(i := None)) cid"
    by blast
  from s(1) have pos: "0 < ?n" and mem: "i \<in> ids"
    and counts: "side_counts s = (if ?n = 1 then ddel (co_text_hash c) refcounts
       else dset (co_text_hash c) (?n - 1) refcounts)" and sids: "side_ids s = ids - {i}"
    using sides(1,2) get c(1) by (auto simp: side_remove_def Let_def res_simps split: if_splits)
  show "0 < ?n" "i \<in> ids" by (fact pos, fact mem)
  obtain ss' rs' where "put_side ?l s ?a = as_accumulator ss' rs' (ag_put ?l (side_counts s, side_ids s) a)"
    using sides(3) by blast
  then show "agg_rel (ag_put ?l (if ?n = 1 then ddel (co_text_hash c) refcounts
       else dset (co_text_hash c) (?n - 1) refcounts, ids - {i}) a) (V(i := None)) cid"
    using s(2) unfolding agg_rel_def counts sids by metis
qed

text \<open>What a relation to the view says of the two sides.\<close>

lemma agg_rel_sides:
  assumes "agg_rel a V cid"
  shows "ag_support_ids a = witnesses V cid SUPPORT" and "ag_refute_ids a = witnesses V cid REFUTE"
    and "length (ag_support_hash_refcounts a) = card (witness_hash V ` witnesses V cid SUPPORT)"
    and "length (ag_refute_hash_refcounts a) = card (witness_hash V ` witnesses V cid REFUTE)"
    and "finite (witnesses V cid SUPPORT)" and "finite (witnesses V cid REFUTE)"
proof -
  from assms obtain ss rs where acc: "acc_rel (as_accumulator ss rs a) V cid" by (auto simp: agg_rel_def)
  let ?a = "as_accumulator ss rs a"
  have rel: "side_rel (get_side l ?a) (witnesses V cid l) (witness_hash V) (witness_score V)"
    if "l \<in> {SUPPORT, REFUTE}" for l using acc that by (auto simp: acc_rel_def)
  note S = rel [of SUPPORT, simplified] and R = rel [of REFUTE, simplified]
  show "ag_support_ids a = witnesses V cid SUPPORT" "ag_refute_ids a = witnesses V cid REFUTE"
    using side_relD(5) [OF S] side_relD(5) [OF R] by (simp_all add: get_side_def as_accumulator_def)
  show "length (ag_support_hash_refcounts a) = card (witness_hash V ` witnesses V cid SUPPORT)"
    "length (ag_refute_hash_refcounts a) = card (witness_hash V ` witnesses V cid REFUTE)"
    using side_counts_length [OF S] side_counts_length [OF R]
    by (simp_all add: get_side_def as_accumulator_def)
  show "finite (witnesses V cid SUPPORT)" "finite (witnesses V cid REFUTE)"
    using side_relD(1) [OF S] side_relD(1) [OF R] .
qed

lemma opt_claim_status_view:
  assumes "agg_rel a V cid"
  shows "opt_claim_status a = cs_status (view_claim_state V cid)"
proof -
  note s = agg_rel_sides [OF assms]
  have "ag_support_hash_refcounts a \<noteq> [] \<longleftrightarrow> witnesses V cid SUPPORT \<noteq> {}"
    using s(3,5) by (metis card_gt_0_iff finite_imageI image_is_empty length_greater_0_conv)
  moreover have "ag_refute_hash_refcounts a \<noteq> [] \<longleftrightarrow> witnesses V cid REFUTE \<noteq> {}"
    using s(4,6) by (metis card_gt_0_iff finite_imageI image_is_empty length_greater_0_conv)
  ultimately show ?thesis
    by (simp add: opt_claim_status_def view_claim_state_def status_of_flags_def)
qed

section \<open>Labels\<close>

text \<open>The two ordered sets of an aggregate, which labels do not touch.\<close>

definition pots :: "opt_aggregate \<Rightarrow> score_ordered_set \<times> score_ordered_set" where
  "pots a = (ag_support_potential_scores a, ag_refute_potential_scores a)"

lemma pots_ag_put [simp]: "pots (ag_put l s a) = pots a"
  by (simp add: pots_def ag_put_def)

lemma pot_rel_pots: "pots a = pots b \<Longrightarrow> pot_rel a A cid = pot_rel b A cid"
  by (simp add: pot_rel_def pots_def)

definition label_step :: "view \<Rightarrow> view \<Rightarrow> opt_ctx \<Rightarrow> opt_ctx \<Rightarrow> bool" where
  "label_step V V' cx cx' \<longleftrightarrow>
     sums_rel (ox_engine cx') V' \<and>
     ox_engine cx' = (ox_engine cx)\<lparr>oe_claims := oe_claims (ox_engine cx')\<rparr> \<and>
     dkeys (oe_claims (ox_engine cx')) = dkeys (oe_claims (ox_engine cx)) \<and>
     (\<forall>cid. map_option pots (dget (oe_claims (ox_engine cx')) cid) =
            map_option pots (dget (oe_claims (ox_engine cx)) cid)) \<and>
     ox_stats cx' = (ox_stats cx)
       \<lparr>om_distinct_hash_crossings := om_distinct_hash_crossings (ox_stats cx')\<rparr> \<and>
     (\<exists>D \<subseteq> dom (dget (oe_claims (ox_engine cx))).
        ox_touched_claims cx' = ox_touched_claims cx \<union> D) \<and>
     (\<forall>V0. dirty_rel V0 V (ox_touched_claims cx) \<longrightarrow> dirty_rel V0 V' (ox_touched_claims cx'))"

lemma label_step_refl: "sums_rel (ox_engine cx) V \<Longrightarrow> label_step V V cx cx"
  by (simp add: label_step_def exI [of _ "{}"])

lemma label_stepD:
  assumes "label_step V V' cx cx'"
  shows "sums_rel (ox_engine cx') V'"
    and "oe_active (ox_engine cx') = oe_active (ox_engine cx)"
    and "oe_labels (ox_engine cx') = oe_labels (ox_engine cx)"
    and "oe_policy_index (ox_engine cx') = oe_policy_index (ox_engine cx)"
    and "dkeys (oe_claims (ox_engine cx')) = dkeys (oe_claims (ox_engine cx))"
    and "dom (dget (oe_claims (ox_engine cx'))) = dom (dget (oe_claims (ox_engine cx)))"
    and "pots_rel (ox_engine cx') A = pots_rel (ox_engine cx) A"
    and "\<exists>D \<subseteq> dom (dget (oe_claims (ox_engine cx))). ox_touched_claims cx' = ox_touched_claims cx \<union> D"
    and "dirty_rel V0 V (ox_touched_claims cx) \<Longrightarrow> dirty_rel V0 V' (ox_touched_claims cx')"
proof -
  from assms have e: "ox_engine cx' = (ox_engine cx)\<lparr>oe_claims := oe_claims (ox_engine cx')\<rparr>"
    and keys: "dkeys (oe_claims (ox_engine cx')) = dkeys (oe_claims (ox_engine cx))"
    and pots: "\<And>cid. map_option pots (dget (oe_claims (ox_engine cx')) cid) =
            map_option pots (dget (oe_claims (ox_engine cx)) cid)"
    by (simp_all only: label_step_def)
  show "sums_rel (ox_engine cx') V'"
    "\<exists>D \<subseteq> dom (dget (oe_claims (ox_engine cx))). ox_touched_claims cx' = ox_touched_claims cx \<union> D"
    "dirty_rel V0 V (ox_touched_claims cx) \<Longrightarrow> dirty_rel V0 V' (ox_touched_claims cx')"
    using assms by (simp_all only: label_step_def)
  show "oe_active (ox_engine cx') = oe_active (ox_engine cx)"
    "oe_labels (ox_engine cx') = oe_labels (ox_engine cx)"
    "oe_policy_index (ox_engine cx') = oe_policy_index (ox_engine cx)"
    by (subst e, simp)+
  show "dkeys (oe_claims (ox_engine cx')) = dkeys (oe_claims (ox_engine cx))" by (rule keys)
  then show "dom (dget (oe_claims (ox_engine cx'))) = dom (dget (oe_claims (ox_engine cx)))"
    unfolding set_dkeys [symmetric] by simp
  have "pot_rel b A cid" if "dget (oe_claims x) cid = Some b" "pots_rel y A"
    "map_option pots (dget (oe_claims x) cid) = map_option pots (dget (oe_claims y) cid)" for x y b cid
  proof -
    from that(1,3) obtain a where a: "dget (oe_claims y) cid = Some a" "pots b = pots a"
      by (cases "dget (oe_claims y) cid") auto
    with that(2) have "pot_rel a A cid" by (simp add: pots_rel_def)
    then show ?thesis using pot_rel_pots [OF a(2)] by simp
  qed
  note one = this
  show "pots_rel (ox_engine cx') A = pots_rel (ox_engine cx) A"
    unfolding pots_rel_def [of "ox_engine cx'"] pots_rel_def [of "ox_engine cx"]
    using one [of "ox_engine cx'" _ _ "ox_engine cx"] one [of "ox_engine cx" _ _ "ox_engine cx'"] pots
    unfolding pots_rel_def by metis
qed

text \<open>The contribution of an active observation that carries a label.\<close>

abbreviation entry_contribution :: "(string \<Rightarrow> string) \<Rightarrow> semantic_observation \<Rightarrow> verification_label \<Rightarrow> contribution" where
  "entry_contribution H ob l \<equiv> make_contribution ob (H (ob_chunk_version_id ob)) l"

lemma make_contribution_simps [simp]:
  "co_observation_id (make_contribution ob h l) = ob_observation_id ob"
  "co_claim_id (make_contribution ob h l) = ob_subject_id ob"
  "co_text_hash (make_contribution ob h l) = h"
  "co_label (make_contribution ob h l) = l"
  by (simp_all add: make_contribution_def)

lemma label_not_neutral: "l \<noteq> NEUTRAL \<Longrightarrow> l \<in> {SUPPORT, REFUTE}"
  by (cases l) auto

lemma sums_rel_replace:
  assumes sums: "sums_rel e V" and a: "dget (oe_claims e) cid = Some a"
    and a': "agg_rel a' V' cid"
    and V': "V' = V(i := x)" and here: "\<And>c. V i = Some c \<or> x = Some c \<Longrightarrow> co_claim_id c = cid"
    and x: "\<And>c. x = Some c \<Longrightarrow> co_observation_id c = i \<and> co_label c \<in> {SUPPORT, REFUTE}"
  shows "sums_rel (e\<lparr>oe_claims := dset cid a' (oe_claims e)\<rparr>) V'"
  unfolding sums_rel_def
proof (intro conjI allI impI)
  note S = sums_relD [OF sums]
  show "dict_ok (oe_claims (e\<lparr>oe_claims := dset cid a' (oe_claims e)\<rparr>))" using S(1) by simp
  fix d b assume b: "dget (oe_claims (e\<lparr>oe_claims := dset cid a' (oe_claims e)\<rparr>)) d = Some b"
  show "agg_rel b V' d"
  proof (cases "d = cid")
    case True
    then show ?thesis using b a' by simp
  next
    case False
    then have "agg_rel b V d" using b S(2) by simp
    moreover have "witnesses (V(i := x)) d l = witnesses V d l" "i \<notin> witnesses V d l" for l
      using False here by (auto simp: witnesses_mem split: if_splits)
    ultimately show ?thesis unfolding V' by (rule agg_rel_update_other)
  qed
next
  note S = sums_relD [OF sums]
  fix j c assume c: "V' j = Some c"
  show "co_observation_id c = j" "co_label c \<in> {SUPPORT, REFUTE}"
    "co_claim_id c \<in> dom (dget (oe_claims (e\<lparr>oe_claims := dset cid a' (oe_claims e)\<rparr>)))"
    using c S(3-5) [of j c] x [of c] here [of c] unfolding V' by (auto split: if_splits)
qed

lemma pots_dset:
  assumes "dget (oe_claims e) cid = Some a" and "pots a' = pots a"
  shows "map_option pots (dget (dset cid a' (oe_claims e)) d) = map_option pots (dget (oe_claims e) d)"
  using assms by simp

lemma opt_add_label_ok:
  assumes sums: "sums_rel (ox_engine cx) V" and fresh: "V i = None"
    and entry: "dget (oe_active (ox_engine cx)) i = Some (active_entry_of H ob)"
    and ob: "ob_observation_id ob = i" "ob_subject_kind ob = CLAIM"
      "ob_subject_id ob \<in> dom (dget (oe_claims (ox_engine cx)))"
  shows "\<exists>cx'. opt_add_label i l cx = Inr cx' \<and>
     label_step V (V(i := if l = NEUTRAL then None else Some (entry_contribution H ob l))) cx cx'"
proof (cases "l = NEUTRAL")
  case True
  have "V(i := None) = V" using fresh by auto
  then show ?thesis using True label_step_refl [OF sums] by (simp add: opt_add_label_def Let_def)
next
  case False
  let ?e = "ox_engine cx" and ?c = "entry_contribution H ob l" and ?cid = "ob_subject_id ob"
  from ob(3) obtain a where a: "dget (oe_claims ?e) ?cid = Some a" by blast
  obtain refcounts ids where get: "ag_get l a = (refcounts, ids)" by fastforce
  let ?h = "H (ob_chunk_version_id ob)"
  let ?a = "ag_put l (dset ?h (dget_default refcounts ?h 0 + 1) refcounts, insert i ids) a"
  have agg: "agg_rel ?a (V(i \<mapsto> ?c)) ?cid"
    using agg_rel_add [OF sums_relD(2) [OF sums a] fresh, of ?c] ob label_not_neutral [OF False] get by simp
  have sums': "sums_rel (?e\<lparr>oe_claims := dset ?cid ?a (oe_claims ?e)\<rparr>) (V(i \<mapsto> ?c))"
    by (rule sums_rel_replace [OF sums a agg refl])
      (use fresh ob label_not_neutral [OF False] in auto)
  let ?cx = "cx\<lparr>ox_engine := ?e\<lparr>oe_claims := dset ?cid ?a (oe_claims ?e)\<rparr>,
      ox_touched_claims := insert ?cid (ox_touched_claims cx),
      ox_stats := (ox_stats cx)\<lparr>om_distinct_hash_crossings := om_distinct_hash_crossings (ox_stats cx) +
        (if dget_default refcounts ?h 0 = 0 then 1 else 0)\<rparr>\<rparr>"
  have "opt_add_label i l cx = Inr ?cx"
    using False entry ob a get by (simp add: opt_add_label_def Let_def)
  moreover have "label_step V (V(i \<mapsto> ?c)) cx ?cx"
    unfolding label_step_def
  proof (intro conjI)
    show "\<exists>D\<subseteq>dom (dget (oe_claims ?e)). ox_touched_claims ?cx = ox_touched_claims cx \<union> D"
      using ob(3) by (intro exI [of _ "{?cid}"]) simp
    show "dkeys (oe_claims (ox_engine ?cx)) = dkeys (oe_claims ?e)"
      using dkeys_dset_same [OF a] by simp
    show "\<forall>V0. dirty_rel V0 V (ox_touched_claims cx) \<longrightarrow> dirty_rel V0 (V(i \<mapsto> ?c)) (ox_touched_claims ?cx)"
      using dirty_rel_add [where V = V and i = i and c = ?c, OF _ fresh] by simp
  qed (use sums' a in simp_all)
  ultimately show ?thesis using False by auto
qed

lemma opt_remove_label_ok:
  assumes sums: "sums_rel (ox_engine cx) V"
    and entry: "dget (oe_active (ox_engine cx)) i = Some (active_entry_of H ob)"
    and ob: "ob_observation_id ob = i" "ob_subject_kind ob = CLAIM"
    and V: "V i = (if l = NEUTRAL then None else Some (entry_contribution H ob l))"
  shows "\<exists>cx'. opt_remove_label i l cx = Inr cx' \<and> label_step V (V(i := None)) cx cx'"
proof (cases "l = NEUTRAL")
  case True
  have "V(i := None) = V" using V True by auto
  then show ?thesis using True label_step_refl [OF sums] by (simp add: opt_remove_label_def Let_def)
next
  case False
  let ?e = "ox_engine cx" and ?c = "entry_contribution H ob l" and ?cid = "ob_subject_id ob"
  have c: "V i = Some ?c" using V False by simp
  then have dom: "?cid \<in> dom (dget (oe_claims ?e))" using sums_relD(5) [OF sums c] by simp
  then obtain a where a: "dget (oe_claims ?e) ?cid = Some a" by blast
  obtain refcounts ids where get: "ag_get l a = (refcounts, ids)" by fastforce
  let ?h = "H (ob_chunk_version_id ob)"
  let ?n = "dget_default refcounts ?h 0"
  let ?a = "ag_put l (if ?n = 1 then ddel ?h refcounts else dset ?h (?n - 1) refcounts, ids - {i}) a"
  note rem = agg_rel_remove [where V = V and i = i and a = a, OF sums_relD(2) [OF sums a] c,
      unfolded make_contribution_simps, OF ob(1) refl label_not_neutral [OF False] get]
  have sums': "sums_rel (?e\<lparr>oe_claims := dset ?cid ?a (oe_claims ?e)\<rparr>) (V(i := None))"
    by (rule sums_rel_replace [OF sums a rem(3) refl]) (use c in auto)
  let ?cx = "cx\<lparr>ox_engine := ?e\<lparr>oe_claims := dset ?cid ?a (oe_claims ?e)\<rparr>,
      ox_touched_claims := insert ?cid (ox_touched_claims cx),
      ox_stats := (ox_stats cx)\<lparr>om_distinct_hash_crossings := om_distinct_hash_crossings (ox_stats cx) +
        (if ?n = 1 then 1 else 0)\<rparr>\<rparr>"
  have "opt_remove_label i l cx = Inr ?cx"
    using False entry ob a get rem(1,2) by (simp add: opt_remove_label_def Let_def)
  moreover have "label_step V (V(i := None)) cx ?cx"
    unfolding label_step_def
  proof (intro conjI)
    show "\<exists>D\<subseteq>dom (dget (oe_claims ?e)). ox_touched_claims ?cx = ox_touched_claims cx \<union> D"
      using dom by (intro exI [of _ "{?cid}"]) simp
    show "dkeys (oe_claims (ox_engine ?cx)) = dkeys (oe_claims ?e)"
      using dkeys_dset_same [OF a] by simp
    show "\<forall>V0. dirty_rel V0 V (ox_touched_claims cx) \<longrightarrow> dirty_rel V0 (V(i := None)) (ox_touched_claims ?cx)"
      using dirty_rel_remove [where V = V and i = i, OF _ c] by simp
  qed (use sums' a in simp_all)
  ultimately show ?thesis by blast
qed

end
