(* ===== verification/GL_OptEvents.thy ===== *)
theory GL_OptEvents
  imports GL_OptSteps
begin

text \<open>
  The optimised engine follows an event: the invariant of an update, its preservation by
  activation, deactivation, document withdrawal and threshold changes, and the proof that
  \<open>opt_maintain\<close> leaves the engine representing the repository after the event.
\<close>

section \<open>The invariant of an update\<close>

definition opt_frame :: "opt_engine \<Rightarrow> opt_engine \<Rightarrow> bool" where
  "opt_frame e0 e \<longleftrightarrow>
     dkeys (oe_claims e) = dkeys (oe_claims e0) \<and>
     oe_claim_statuses e = oe_claim_statuses e0 \<and> oe_claim_to_answer e = oe_claim_to_answer e0 \<and>
     oe_claim_required e = oe_claim_required e0 \<and> oe_answer_to_claims e = oe_answer_to_claims e0 \<and>
     oe_answer_counts e = oe_answer_counts e0 \<and> oe_answer_statuses e = oe_answer_statuses e0 \<and>
     oe_certificates e = oe_certificates e0"

lemma opt_frame_refl: "opt_frame e e"
  by (simp add: opt_frame_def)

lemma opt_frame_dom: "opt_frame e0 e \<Longrightarrow> dom (dget (oe_claims e)) = dom (dget (oe_claims e0))"
  unfolding set_dkeys [symmetric] by (simp only: opt_frame_def)

lemma label_step_frame:
  assumes "label_step V V' cx cx'" and "opt_frame e0 (ox_engine cx)"
  shows "opt_frame e0 (ox_engine cx')"
proof -
  from assms(1) have e: "ox_engine cx' = (ox_engine cx)\<lparr>oe_claims := oe_claims (ox_engine cx')\<rparr>"
    and keys: "dkeys (oe_claims (ox_engine cx')) = dkeys (oe_claims (ox_engine cx))"
    by (simp_all only: label_step_def)
  show ?thesis
    using assms(2) keys unfolding opt_frame_def by (subst (2 3 4 5 6 7 8) e) simp
qed

lemma label_step_touched:
  assumes "label_step V V' cx cx'" and "opt_frame e0 (ox_engine cx)"
    and "ox_touched_claims cx \<subseteq> dom (dget (oe_claims e0))"
  shows "ox_touched_claims cx' \<subseteq> dom (dget (oe_claims e0))"
proof -
  from label_stepD(8) [OF assms(1)] obtain D where
    "D \<subseteq> dom (dget (oe_claims (ox_engine cx)))" "ox_touched_claims cx' = ox_touched_claims cx \<union> D"
    by blast
  then show ?thesis using opt_frame_dom [OF assms(2)] assms(3) by simp
qed

definition base_rel ::
    "opt_engine \<Rightarrow> (string \<rightharpoonup> semantic_observation) \<Rightarrow> (string \<rightharpoonup> verification_label) \<Rightarrow>
      (string \<Rightarrow> string) \<Rightarrow> bool" where
  "base_rel e A L H \<longleftrightarrow>
     sums_rel e (view_of A L H) \<and> pots_rel e A \<and> entries_rel e A L H \<and>
     obs_ok (dom (dget (oe_claims e))) A \<and> dom L = dom A"

lemma base_relD:
  assumes "base_rel e A L H"
  shows "sums_rel e (view_of A L H)" and "pots_rel e A"
    and "dget (oe_active e) i = map_option (active_entry_of H) (A i)"
    and "dget (oe_labels e) = L" and "flip_stores (oe_policy_index e) A"
    and "obs_ok (dom (dget (oe_claims e))) A" and "dom L = dom A"
  using assms by (simp_all add: base_rel_def entries_rel_def)

definition opt_ctx_inv ::
    "opt_engine \<Rightarrow> view \<Rightarrow> (string \<rightharpoonup> semantic_observation) \<Rightarrow> (string \<rightharpoonup> verification_label) \<Rightarrow>
      (string \<Rightarrow> string) \<Rightarrow> opt_ctx \<Rightarrow> bool" where
  "opt_ctx_inv e0 V0 A L H cx \<longleftrightarrow>
     base_rel (ox_engine cx) A L H \<and> opt_frame e0 (ox_engine cx) \<and>
     dirty_rel V0 (view_of A L H) (ox_touched_claims cx) \<and>
     ox_touched_claims cx \<subseteq> dom (dget (oe_claims e0))"

lemma opt_ctx_invD:
  assumes "opt_ctx_inv e0 V0 A L H cx"
  shows "base_rel (ox_engine cx) A L H" and "opt_frame e0 (ox_engine cx)"
    and "dirty_rel V0 (view_of A L H) (ox_touched_claims cx)"
    and "ox_touched_claims cx \<subseteq> dom (dget (oe_claims e0))"
  using assms by (simp_all add: opt_ctx_inv_def)

section \<open>Potential scores\<close>

lemma claim_part_insert:
  "A i = None \<Longrightarrow> claim_part (A(i \<mapsto> ob)) cid =
     (if ob_subject_id ob = cid then (claim_part A cid)(i \<mapsto> ob) else claim_part A cid)"
  "A i = None \<Longrightarrow> claim_part A cid i = None"
  by (auto simp: claim_part_def)

lemma claim_part_remove:
  "A i = Some ob \<Longrightarrow> claim_part (A(i := None)) cid =
     (if ob_subject_id ob = cid then (claim_part A cid)(i := None) else claim_part A cid)"
  "A i = Some ob \<Longrightarrow> ob_subject_id ob = cid \<Longrightarrow> claim_part A cid i = Some ob"
  by (auto simp: claim_part_def)

lemma agg_rel_potential [simp]:
  "agg_rel (a\<lparr>ag_support_potential_scores := t\<rparr>) V cid = agg_rel a V cid"
  "agg_rel (a\<lparr>ag_refute_potential_scores := t\<rparr>) V cid = agg_rel a V cid"
  by (simp_all add: agg_rel_def as_accumulator_def)

lemma potential_add_ok:
  assumes rel: "pot_rel a A (ob_subject_id ob)" and fresh: "A (ob_observation_id ob) = None"
  shows "\<exists>a'. potential_add ob a = Inr a' \<and> (\<forall>V cid. agg_rel a' V cid = agg_rel a V cid) \<and>
     pot_rel a' (A(ob_observation_id ob \<mapsto> ob)) (ob_subject_id ob)"
proof -
  let ?i = "ob_observation_id ob" and ?A = "claim_part A (ob_subject_id ob)"
  have fresh': "?A ?i = None" using claim_part_insert(2) [of A ?i] fresh by simp
  have part: "claim_part (A(?i \<mapsto> ob)) (ob_subject_id ob) = ?A(?i \<mapsto> ob)"
    using claim_part_insert(1) [of A ?i ob "ob_subject_id ob"] fresh by simp
  have keys: "potential_keys q (?A(?i \<mapsto> ob)) =
      (if potential_partition_of ob = q then insert (potential_score q ob, ?i) (potential_keys q ?A)
       else potential_keys q ?A)" for q
    using potential_keys_insert [where A = ?A and i = ?i, OF fresh'] .
  have S: "opt_set.stores (ag_support_potential_scores a) (potential_keys PP_SUPPORT ?A)"
    and R: "opt_set.stores (ag_refute_potential_scores a) (potential_keys PP_REFUTE ?A)"
    using rel by (simp_all add: pot_rel_def)
  have notin: "(x, ?i) \<notin> potential_keys q ?A" for x q
    using fresh' by (simp add: potential_keys_mem)
  show ?thesis
  proof (cases "potential_partition_of ob")
    case PP_SUPPORT
    from opt_set.stores_add [OF S notin, of "ob_support_score ob"] obtain t where
      "opt_insert (ag_support_potential_scores a) (ob_support_score ob, ?i) = Inr t"
      "opt_set.stores t (insert (ob_support_score ob, ?i) (potential_keys PP_SUPPORT ?A))" by blast
    with PP_SUPPORT R show ?thesis
      by (simp add: potential_add_def pot_rel_def part keys potential_score_def)
  next
    case PP_REFUTE
    from opt_set.stores_add [OF R notin, of "ob_refute_score ob"] obtain t where
      "opt_insert (ag_refute_potential_scores a) (ob_refute_score ob, ?i) = Inr t"
      "opt_set.stores t (insert (ob_refute_score ob, ?i) (potential_keys PP_REFUTE ?A))" by blast
    with PP_REFUTE S show ?thesis
      by (simp add: potential_add_def pot_rel_def part keys potential_score_def)
  next
    case PP_ALWAYS_NEUTRAL
    with S R show ?thesis by (simp add: potential_add_def pot_rel_def part keys)
  qed
qed

lemma potential_remove_ok:
  assumes rel: "pot_rel a A (ob_subject_id ob)" and A: "A i = Some ob" and id: "ob_observation_id ob = i"
  shows "\<exists>a'. potential_remove ob i a = Inr a' \<and> (\<forall>V cid. agg_rel a' V cid = agg_rel a V cid) \<and>
     pot_rel a' (A(i := None)) (ob_subject_id ob)"
proof -
  let ?A = "claim_part A (ob_subject_id ob)"
  have A': "?A i = Some ob" using claim_part_remove(2) [of A i ob, OF A] by simp
  have part: "claim_part (A(i := None)) (ob_subject_id ob) = ?A(i := None)"
    using claim_part_remove(1) [of A i ob, OF A] by simp
  have keys: "potential_keys q (?A(i := None)) =
      (if potential_partition_of ob = q then potential_keys q ?A - {(potential_score q ob, i)}
       else potential_keys q ?A)" for q
    using potential_keys_remove [where A = ?A and i = i, OF A'] .
  have S: "opt_set.stores (ag_support_potential_scores a) (potential_keys PP_SUPPORT ?A)"
    and R: "opt_set.stores (ag_refute_potential_scores a) (potential_keys PP_REFUTE ?A)"
    using rel by (simp_all add: pot_rel_def)
  have mem: "(potential_score q ob, i) \<in> potential_keys q ?A" if "potential_partition_of ob = q" for q
    using A' that by (simp add: potential_keys_mem)
  show ?thesis
  proof (cases "potential_partition_of ob")
    case PP_SUPPORT
    from opt_set.stores_remove [OF S mem [OF PP_SUPPORT]] obtain t where
      "opt_delete (ag_support_potential_scores a) (ob_support_score ob, i) = Inr t"
      "opt_set.stores t (potential_keys PP_SUPPORT ?A - {(ob_support_score ob, i)})"
      by (auto simp: potential_score_def)
    with PP_SUPPORT R show ?thesis
      by (simp add: potential_remove_def pot_rel_def part keys potential_score_def)
  next
    case PP_REFUTE
    from opt_set.stores_remove [OF R mem [OF PP_REFUTE]] obtain t where
      "opt_delete (ag_refute_potential_scores a) (ob_refute_score ob, i) = Inr t"
      "opt_set.stores t (potential_keys PP_REFUTE ?A - {(ob_refute_score ob, i)})"
      by (auto simp: potential_score_def)
    with PP_REFUTE S show ?thesis
      by (simp add: potential_remove_def pot_rel_def part keys potential_score_def)
  next
    case PP_ALWAYS_NEUTRAL
    with S R show ?thesis by (simp add: potential_remove_def pot_rel_def part keys)
  qed
qed

text \<open>Replacing the aggregate of the claim whose potential scores changed.\<close>

lemma pots_rel_replace:
  assumes pots: "pots_rel e A" and a': "pot_rel a' A' cid"
    and other: "\<And>d. d \<noteq> cid \<Longrightarrow> claim_part A' d = claim_part A d"
  shows "pots_rel (e\<lparr>oe_claims := dset cid a' (oe_claims e)\<rparr>) A'"
  unfolding pots_rel_def
proof (intro allI impI)
  fix d b assume b: "dget (oe_claims (e\<lparr>oe_claims := dset cid a' (oe_claims e)\<rparr>)) d = Some b"
  show "pot_rel b A' d"
  proof (cases "d = cid")
    case False
    then show ?thesis using b pots other by (simp add: pots_rel_def pot_rel_def)
  qed (use b a' in simp)
qed

lemma sums_rel_same:
  assumes sums: "sums_rel e V" and a: "dget (oe_claims e) cid = Some a"
    and same: "\<And>V d. agg_rel a' V d = agg_rel a V d"
  shows "sums_rel (e\<lparr>oe_claims := dset cid a' (oe_claims e)\<rparr>) V"
  using sums_relD [OF sums] a unfolding sums_rel_def by (auto simp: same)

lemma relations_cong:
  assumes "oe_claims e' = oe_claims e"
  shows "sums_rel e' V = sums_rel e V" and "pots_rel e' A = pots_rel e A"
  by (simp_all add: sums_rel_def pots_rel_def assms)

section \<open>Activation\<close>

lemma opt_activate_ok:
  assumes inv: "opt_ctx_inv e0 V0 A L H cx" and fresh: "A (ob_observation_id ob) = None"
    and ob: "ob_subject_kind ob = CLAIM" "ob_subject_id ob \<in> dom (dget (oe_claims e0))"
    and chunk: "dget (chunk_versions r) (ob_chunk_version_id ob) = Some cv"
      "cv_text_hash cv = H (ob_chunk_version_id ob)"
    and pol: "current_policy r = Inr p"
  shows "\<exists>cx'. opt_activate ob r cx = Inr cx' \<and>
     opt_ctx_inv e0 V0 (A(ob_observation_id ob \<mapsto> ob)) (L(ob_observation_id ob \<mapsto> decide ob p)) H cx'"
proof -
  let ?e = "ox_engine cx" and ?i = "ob_observation_id ob" and ?l = "decide ob p" and ?st = "ox_stats cx"
  let ?A = "A(?i \<mapsto> ob)" and ?L = "L(?i \<mapsto> ?l)" and ?cid = "ob_subject_id ob"
  note I = opt_ctx_invD [OF inv]
  note B = base_relD [OF I(1)]
  have dom: "dom (dget (oe_claims ?e)) = dom (dget (oe_claims e0))" by (rule opt_frame_dom [OF I(2)])
  from ob(2) dom obtain a where a: "dget (oe_claims ?e) ?cid = Some a" by auto
  have inactive: "\<not> dmem ?i (oe_active ?e)" using B(3) [of ?i] fresh by (simp add: dmem_def)
  from flip_add_ok [OF B(5) fresh] obtain ix where
    ix: "flip_add (oe_policy_index ?e) ob = Inr ix" "flip_stores ix ?A" by blast
  have "pot_rel a A ?cid" using B(2) a by (simp add: pots_rel_def)
  from potential_add_ok [OF this fresh] obtain a' where
    a': "potential_add ob a = Inr a'" "\<And>V d. agg_rel a' V d = agg_rel a V d" "pot_rel a' ?A ?cid" by blast
  let ?e1 = "?e\<lparr>oe_active := dset ?i \<lparr>ao_observation = ob, ao_text_hash = cv_text_hash cv\<rparr> (oe_active ?e),
      oe_labels := dset ?i ?l (oe_labels ?e), oe_policy_index := ix,
      oe_claims := dset ?cid a' (oe_claims ?e)\<rparr>"
  let ?cx = "cx\<lparr>ox_engine := ?e1,
      ox_stats := ?st\<lparr>om_active_observations_added := om_active_observations_added ?st + 1,
                      om_point_index_updates := om_point_index_updates ?st + point_updates ob\<rparr>\<rparr>"
  have sums1: "sums_rel (ox_engine ?cx) (view_of A L H)"
    using sums_rel_same [OF B(1) a a'(2)] by (simp add: sums_rel_def)
  have pots1: "pots_rel (ox_engine ?cx) ?A"
    using pots_rel_replace [OF B(2) a'(3)] claim_part_insert(1) [of A ?i ob] fresh by (simp add: pots_rel_def)
  have entry: "dget (oe_active (ox_engine ?cx)) ?i = Some (active_entry_of H ob)"
    using chunk(2) by (simp add: active_entry_of_def)
  have subj: "?cid \<in> dom (dget (oe_claims (ox_engine ?cx)))" by simp
  have none: "view_of A L H ?i = None" using view_of_None [of A ?i] fresh by simp
  from opt_add_label_ok [OF sums1 none entry refl ob(1) subj, of ?l] obtain cx' where
    cx': "opt_add_label ?i ?l ?cx = Inr cx'"
    and step: "label_step (view_of A L H) (view_of ?A ?L H) ?cx cx'"
    unfolding view_of_update(1) by blast
  note S = label_stepD [OF step]
  have "opt_activate ob r cx = Inr cx'"
    using inactive chunk pol ix(1) a a'(1) ob(1) cx' by (simp add: opt_activate_def chunk_version_of_def Let_def)
  moreover
  have frame: "opt_frame e0 (ox_engine ?cx)" using I(2) dkeys_dset_same [OF a] by (simp add: opt_frame_def)
  then have "opt_frame e0 (ox_engine cx')" by (rule label_step_frame [OF step])
  moreover have "base_rel (ox_engine cx') ?A ?L H"
    unfolding base_rel_def entries_rel_def
  proof (intro conjI allI)
    show "sums_rel (ox_engine cx') (view_of ?A ?L H)" by (rule S(1))
    show "pots_rel (ox_engine cx') ?A" unfolding S(7) by (rule pots1)
    show "dget (oe_active (ox_engine cx')) j = map_option (active_entry_of H) (?A j)" for j
      unfolding S(2) using B(3) [of j] chunk(2) by (simp add: active_entry_of_def)
    show "dget (oe_labels (ox_engine cx')) = ?L" unfolding S(3) using B(4) by simp
    show "flip_stores (oe_policy_index (ox_engine cx')) ?A" unfolding S(4) using ix(2) by simp
    show "obs_ok (dom (dget (oe_claims (ox_engine cx')))) ?A"
      unfolding S(6) using B(6) ob a by (auto simp: obs_ok_def)
    show "dom ?L = dom ?A" using B(7) by simp
  qed
  moreover have "dirty_rel V0 (view_of ?A ?L H) (ox_touched_claims cx')"
    by (rule S(9)) (use I(3) in simp)
  moreover have "ox_touched_claims cx' \<subseteq> dom (dget (oe_claims e0))"
    by (rule label_step_touched [OF step frame]) (use I(4) in simp)
  ultimately show ?thesis by (simp add: opt_ctx_inv_def)
qed

section \<open>Deactivation\<close>

text \<open>The contribution of an active observation is what its label says.\<close>

lemma view_of_entry:
  assumes "A i = Some ob" and "L i = Some l"
  shows "view_of A L H i = (if l = NEUTRAL then None else Some (entry_contribution H ob l))"
  using assms by (simp add: view_of_def)

lemma opt_deactivate_ok:
  assumes inv: "opt_ctx_inv e0 V0 A L H cx"
  shows "\<exists>cx'. opt_deactivate i cx = Inr cx' \<and> opt_ctx_inv e0 V0 (A(i := None)) (L(i := None)) H cx'"
proof -
  let ?e = "ox_engine cx"
  note I = opt_ctx_invD [OF inv]
  note B = base_relD [OF I(1)]
  show ?thesis
  proof (cases "A i")
    case None
    then have "L i = None" using B(7) by (metis domIff)
    then have "A(i := None) = A" "L(i := None) = L" using None by auto
    then show ?thesis using inv B(3) [of i] None by (simp add: opt_deactivate_def Let_def)
  next
    case (Some ob)
    let ?A = "A(i := None)" and ?L = "L(i := None)" and ?cid = "ob_subject_id ob"
    note O = obs_okD [OF B(6) Some]
    from Some B(7) obtain l where l: "L i = Some l" by (metis domD domI)
    have entry: "dget (oe_active ?e) i = Some (active_entry_of H ob)" using B(3) [of i] Some by simp
    let ?cx1 = "cx\<lparr>ox_engine := ?e\<lparr>oe_labels := ddel i (oe_labels ?e)\<rparr>\<rparr>"
    have sums1: "sums_rel (ox_engine ?cx1) (view_of A L H)" using B(1) by (simp add: sums_rel_def)
    have frame1: "opt_frame e0 (ox_engine ?cx1)" using I(2) by (simp add: opt_frame_def)
    have entry1: "dget (oe_active (ox_engine ?cx1)) i = Some (active_entry_of H ob)" using entry by simp
    from opt_remove_label_ok [OF sums1 entry1 O(1,2) view_of_entry [where A = A and L = L and i = i, OF Some l]] obtain cx2 where
      cx2: "opt_remove_label i l ?cx1 = Inr cx2"
      and step: "label_step (view_of A L H) (view_of ?A ?L H) ?cx1 cx2"
      unfolding view_of_update(2) by blast
    note S = label_stepD [OF step]
    have dom: "dom (dget (oe_claims (ox_engine cx2))) = dom (dget (oe_claims ?e))" using S(6) by simp
    from O(3) dom obtain a where a: "dget (oe_claims (ox_engine cx2)) ?cid = Some a" by auto
    have pots2: "pots_rel (ox_engine cx2) A" unfolding S(7) using B(2) by (simp add: pots_rel_def)
    then have "pot_rel a A ?cid" using a by (simp add: pots_rel_def)
    from potential_remove_ok [OF this Some O(1)] obtain a' where
      a': "potential_remove ob i a = Inr a'" "\<And>V d. agg_rel a' V d = agg_rel a V d" "pot_rel a' ?A ?cid"
      by blast
    have stores2: "flip_stores (oe_policy_index (ox_engine cx2)) A" unfolding S(4) using B(5) by simp
    have self: "A (ob_observation_id ob) = Some ob" using Some O(1) by simp
    from flip_remove_ok [OF stores2 self] obtain ix where
      ix: "flip_remove (oe_policy_index (ox_engine cx2)) ob = Inr ix" "flip_stores ix ?A"
      unfolding O(1) by blast
    let ?st = "ox_stats cx2"
    let ?e3 = "(ox_engine cx2)\<lparr>oe_active := ddel i (oe_active (ox_engine cx2)), oe_policy_index := ix,
        oe_claims := dset ?cid a' (oe_claims (ox_engine cx2))\<rparr>"
    let ?cx3 = "cx2\<lparr>ox_engine := ?e3,
        ox_stats := ?st\<lparr>om_active_observations_removed := om_active_observations_removed ?st + 1,
                        om_point_index_updates := om_point_index_updates ?st + point_updates ob\<rparr>\<rparr>"
    have "opt_deactivate i cx = Inr ?cx3"
      using entry l B(4) cx2 ix(1) O(2) a a'(1) by (simp add: opt_deactivate_def Let_def)
    moreover have "base_rel ?e3 ?A ?L H"
      unfolding base_rel_def entries_rel_def
    proof (intro conjI allI)
      show "sums_rel ?e3 (view_of ?A ?L H)"
        using sums_rel_same [OF S(1) a a'(2)] by (simp add: sums_rel_def)
      show "pots_rel ?e3 ?A"
        using pots_rel_replace [OF pots2 a'(3)] claim_part_remove(1) [of A i ob, OF Some]
        by (simp add: pots_rel_def)
      show "dget (oe_active ?e3) j = map_option (active_entry_of H) (?A j)" for j
        using S(2) B(3) [of j] by simp
      show "dget (oe_labels ?e3) = ?L" using S(3) B(4) by simp
      show "flip_stores (oe_policy_index ?e3) ?A" using ix(2) by simp
      show "obs_ok (dom (dget (oe_claims ?e3))) ?A"
        using B(6) dom by (auto simp: obs_ok_def split: if_splits)
      show "dom ?L = dom ?A" using B(7) by simp
    qed
    moreover have "opt_frame e0 ?e3"
      using label_step_frame [OF step frame1] dkeys_dset_same [OF a] by (simp add: opt_frame_def)
    moreover have "dirty_rel V0 (view_of ?A ?L H) (ox_touched_claims ?cx3)"
      using S(9) [of V0] I(3) by simp
    moreover have "ox_touched_claims ?cx3 \<subseteq> dom (dget (oe_claims e0))"
      using label_step_touched [OF step frame1] I(4) by simp
    ultimately show ?thesis by (simp add: opt_ctx_inv_def)
  qed
qed

section \<open>Relabelling\<close>

lemma opt_relabel_ok:
  assumes inv: "opt_ctx_inv e0 V0 A L H cx" and A: "A i = Some ob" and L: "L i = Some l"
    and flip: "l \<noteq> decide ob q"
  shows "\<exists>cx'. opt_relabel q i cx = Inr cx' \<and> opt_ctx_inv e0 V0 A (L(i \<mapsto> decide ob q)) H cx' \<and>
     om_decision_flips (ox_stats cx') = om_decision_flips (ox_stats cx) + 1 \<and>
     om_policy_index_candidates (ox_stats cx') = om_policy_index_candidates (ox_stats cx) \<and>
     om_policy_index_searches (ox_stats cx') = om_policy_index_searches (ox_stats cx)"
proof -
  let ?e = "ox_engine cx" and ?l = "decide ob q"
  note I = opt_ctx_invD [OF inv]
  note B = base_relD [OF I(1)]
  note O = obs_okD [OF B(6) A]
  have entry: "dget (oe_active ?e) i = Some (active_entry_of H ob)" using B(3) [of i] A by simp
  from opt_remove_label_ok [OF B(1) entry O(1,2) view_of_entry [where A = A and L = L and i = i, OF A L]] obtain cx1 where
    cx1: "opt_remove_label i l cx = Inr cx1"
    and step1: "label_step (view_of A L H) ((view_of A L H)(i := None)) cx cx1" by blast
  note S = label_stepD [OF step1]
  let ?N = "L(i \<mapsto> NEUTRAL)" and ?L = "L(i \<mapsto> ?l)"
  have V1: "(view_of A L H)(i := None) = view_of A ?N H"
    by (simp add: view_of_relabel [of A i ob, OF A])
  let ?cx2 = "cx1\<lparr>ox_engine := (ox_engine cx1)\<lparr>oe_labels := dset i ?l (oe_labels (ox_engine cx1))\<rparr>\<rparr>"
  have sums2: "sums_rel (ox_engine ?cx2) (view_of A ?N H)" using S(1) V1 by (simp add: sums_rel_def)
  have frame2: "opt_frame e0 (ox_engine ?cx2)"
    using label_step_frame [OF step1 I(2)] by (simp add: opt_frame_def)
  have none: "view_of A ?N H i = None" by (simp add: V1 [symmetric])
  have entry2: "dget (oe_active (ox_engine ?cx2)) i = Some (active_entry_of H ob)" using S(2) entry by simp
  have subj: "ob_subject_id ob \<in> dom (dget (oe_claims (ox_engine ?cx2)))" using O(3) S(6) by simp
  have V2: "(view_of A ?N H)(i := if ?l = NEUTRAL then None else Some (entry_contribution H ob ?l)) =
      view_of A ?L H"
    using view_of_relabel [of A i ob ?N ?l H, OF A] by simp
  from opt_add_label_ok [OF sums2 none entry2 O(1,2) subj, of ?l] obtain cx3 where
    cx3: "opt_add_label i ?l ?cx2 = Inr cx3"
    and step2: "label_step (view_of A ?N H) (view_of A ?L H) ?cx2 cx3"
    unfolding V2 by blast
  note T = label_stepD [OF step2]
  let ?cx4 = "cx3\<lparr>ox_stats := (ox_stats cx3)\<lparr>om_decision_flips := om_decision_flips (ox_stats cx3) + 1\<rparr>\<rparr>"
  have run: "opt_relabel q i cx = Inr ?cx4"
    using entry L B(4) flip cx1 cx3 by (simp add: opt_relabel_def Let_def)
  have "base_rel (ox_engine cx3) A ?L H"
    unfolding base_rel_def entries_rel_def
  proof (intro conjI allI)
    show "sums_rel (ox_engine cx3) (view_of A ?L H)" by (rule T(1))
    show "pots_rel (ox_engine cx3) A"
      using B(2) S(7) [of A] T(7) [of A] by (simp add: pots_rel_def)
    show "dget (oe_active (ox_engine cx3)) j = map_option (active_entry_of H) (A j)" for j
      using B(3) [of j] S(2) T(2) by simp
    show "dget (oe_labels (ox_engine cx3)) = ?L" using B(4) S(3) T(3) by simp
    show "flip_stores (oe_policy_index (ox_engine cx3)) A" using B(5) S(4) T(4) by simp
    show "obs_ok (dom (dget (oe_claims (ox_engine cx3)))) A" using B(6) S(6) T(6) by simp
    show "dom ?L = dom A" using B(7) A by auto
  qed
  moreover have "dirty_rel V0 (view_of A ?N H) (ox_touched_claims cx1)"
    using S(9) [OF I(3)] V1 by simp
  then have "dirty_rel V0 (view_of A ?L H) (ox_touched_claims cx3)" using T(9) [of V0] by simp
  moreover have "ox_touched_claims cx3 \<subseteq> dom (dget (oe_claims e0))"
    using label_step_touched [OF step2 frame2] label_step_touched [OF step1 I(2,4)] by simp
  ultimately have "opt_ctx_inv e0 V0 A ?L H ?cx4"
    using label_step_frame [OF step2 frame2] by (simp add: opt_ctx_inv_def)
  moreover have stats: "ox_stats cx1 = (ox_stats cx)
       \<lparr>om_distinct_hash_crossings := om_distinct_hash_crossings (ox_stats cx1)\<rparr>"
    "ox_stats cx3 = (ox_stats ?cx2)\<lparr>om_distinct_hash_crossings := om_distinct_hash_crossings (ox_stats cx3)\<rparr>"
    using step1 step2 by (simp_all only: label_step_def)
  have "om_decision_flips (ox_stats cx3) = om_decision_flips (ox_stats cx)"
    "om_policy_index_candidates (ox_stats cx3) = om_policy_index_candidates (ox_stats cx)"
    "om_policy_index_searches (ox_stats cx3) = om_policy_index_searches (ox_stats cx)"
    by (subst stats(2), simp, subst stats(1), simp)+
  ultimately show ?thesis using run by simp
qed

end
