(* ===== verification/GL_OptMaintain.thy ===== *)
theory GL_OptMaintain
  imports GL_OptEvents
begin

text \<open>
  The optimised engine follows an event: document withdrawal, threshold changes, and the
  dispatch on the event.  After \<open>opt_maintain\<close> the engine represents the repository after the event.
\<close>

section \<open>Document withdrawal\<close>

lemma opt_withdraw_chunk_ok:
  assumes obs: "observations_inv r"
    and inv: "opt_ctx_inv e0 V0 (active_outside r C) (labels_of p (active_outside r C)) H cx"
  shows "\<exists>cx'. opt_withdraw_chunk r c cx = Inr cx' \<and>
     opt_ctx_inv e0 V0 (active_outside r (insert c C)) (labels_of p (active_outside r (insert c C))) H cx'"
proof -
  obtain ids where ids: "current_observation_ids_for_chunk r c = Inr ids"
    "set ids = {i. \<exists>ob. dget (observations r) i = Some ob \<and> is_current r ob \<and>
                        ob_chunk_version_id ob = c}" "distinct ids"
    by (rule current_observation_ids_for_chunk_Inr [OF obs])
  let ?A = "\<lambda>ys. active_outside r C |` (- set ys)"
  have "\<exists>cx'. fold_res opt_deactivate ids cx = Inr cx' \<and> opt_ctx_inv e0 V0 (?A ids) (labels_of p (?A ids)) H cx'"
  proof (rule fold_res_total_prefix)
    show "opt_ctx_inv e0 V0 (?A []) (labels_of p (?A [])) H cx"
      using inv by (simp add: restrict_map_def)
  next
    fix ys i zs cx1
    assume inv1: "opt_ctx_inv e0 V0 (?A ys) (labels_of p (?A ys)) H cx1"
    have "(?A ys)(i := None) = ?A (ys @ [i])" by (auto simp: restrict_map_def)
    with opt_deactivate_ok [OF inv1, of i]
    show "\<exists>s'. opt_deactivate i cx1 = Inr s' \<and>
        opt_ctx_inv e0 V0 (?A (ys @ [i])) (labels_of p (?A (ys @ [i]))) H s'"
      by (simp flip: labels_of_update(1))
  qed
  moreover have "?A ids = active_outside r (insert c C)"
  proof (rule ext, rule option_ext)
    fix i ob
    show "?A ids i = Some ob \<longleftrightarrow> active_outside r (insert c C) i = Some ob"
      using ids(2) by (auto simp: restrict_map_def active_outside_Some active_observation_Some)
  qed
  ultimately show ?thesis using ids(1) by (simp add: opt_withdraw_chunk_def)
qed

lemma opt_withdraw_document_ok:
  assumes obs: "observations_inv r"
    and inv: "opt_ctx_inv e0 V0 (active_observation r) (labels_of p (active_observation r)) H cx"
  shows "\<exists>cx'. opt_withdraw_document v r cx = Inr cx' \<and>
     opt_ctx_inv e0 V0 (active_outside r (set (chunk_ids_of_document_version r v)))
       (labels_of p (active_outside r (set (chunk_ids_of_document_version r v)))) H cx'"
  unfolding opt_withdraw_document_def
proof (rule fold_res_total_prefix)
  show "opt_ctx_inv e0 V0 (active_outside r (set [])) (labels_of p (active_outside r (set []))) H cx"
    using inv by simp
next
  fix ys c zs cx1
  assume "opt_ctx_inv e0 V0 (active_outside r (set ys)) (labels_of p (active_outside r (set ys))) H cx1"
  from opt_withdraw_chunk_ok [OF obs this, of c]
  show "\<exists>s'. opt_withdraw_chunk r c cx1 = Inr s' \<and>
      opt_ctx_inv e0 V0 (active_outside r (set (ys @ [c]))) (labels_of p (active_outside r (set (ys @ [c])))) H s'"
    by simp
qed

section \<open>Threshold changes\<close>

text \<open>The active observations whose label changes.\<close>

definition flips_between ::
    "decision_policy \<Rightarrow> decision_policy \<Rightarrow> (string \<rightharpoonup> semantic_observation) \<Rightarrow> string set" where
  "flips_between p q A = {i. \<exists>ob. A i = Some ob \<and> flipped p q ob}"

lemma exact_flips_ids:
  assumes st: "flip_stores ix A" and tie: "dp_tie_rule_version p = ''v1''" "dp_tie_rule_version q = ''v1''"
  shows "\<exists>query. exact_flips ix p q = Inr query \<and> distinct (fq_observation_ids query) \<and>
     set (fq_observation_ids query) = flips_between p q A"
proof -
  from exact_flips_Inr [OF st tie] obtain query sids rids where
    run: "exact_flips ix p q = Inr query" and ids: "fq_observation_ids query = sids @ rids"
    and dist: "distinct sids" "distinct rids"
    and sids: "set sids = {i. \<exists>ob. A i = Some ob \<and> flipped p q ob \<and> potential_partition_of ob = PP_SUPPORT}"
    and rids: "set rids = {i. \<exists>ob. A i = Some ob \<and> flipped p q ob \<and> potential_partition_of ob = PP_REFUTE}"
    by blast
  have "set sids \<inter> set rids = {}" unfolding sids rids by auto
  moreover have "set sids \<union> set rids = flips_between p q A"
    unfolding sids rids flips_between_def using flipped_iff by blast
  ultimately show ?thesis using run ids dist by auto
qed

lemma opt_change_policy_ok:
  assumes p: "current_policy r = Inr p" and q: "current_policy r' = Inr q"
    and tie: "dp_tie_rule_version p = ''v1''" "dp_tie_rule_version q = ''v1''"
    and inv: "opt_ctx_inv e0 V0 A (labels_of p A) H cx"
  shows "\<exists>cx'. opt_change_policy r r' cx = Inr cx' \<and> opt_ctx_inv e0 V0 A (labels_of q A) H cx' \<and>
     om_decision_flips (ox_stats cx') = om_decision_flips (ox_stats cx) + card (flips_between p q A) \<and>
     om_policy_index_candidates (ox_stats cx') = card (flips_between p q A)"
proof -
  note B = base_relD [OF opt_ctx_invD(1) [OF inv]]
  from exact_flips_ids [OF B(5) tie] obtain query where
    query: "exact_flips (oe_policy_index (ox_engine cx)) p q = Inr query"
    and dist: "distinct (fq_observation_ids query)"
    and ids: "set (fq_observation_ids query) = flips_between p q A" by blast
  let ?ids = "fq_observation_ids query"
  let ?L = "\<lambda>ys i. if i \<in> set ys then labels_of q A i else labels_of p A i"
  let ?cx = "cx\<lparr>ox_stats := (ox_stats cx)\<lparr>om_policy_index_searches := fq_searches query,
      om_policy_index_candidates := length ?ids\<rparr>\<rparr>"
  let ?P = "\<lambda>ys cx'. opt_ctx_inv e0 V0 A (?L ys) H cx' \<and>
      om_decision_flips (ox_stats cx') = om_decision_flips (ox_stats cx) + length ys \<and>
      om_policy_index_candidates (ox_stats cx') = length ?ids"
  have "\<exists>cx'. fold_res (opt_relabel q) ?ids ?cx = Inr cx' \<and> ?P ?ids cx'"
  proof (rule fold_res_total_prefix [where P = ?P])
    show "?P [] ?cx" using inv by (simp add: opt_ctx_inv_def)
  next
    fix ys i zs cx1
    assume split: "?ids = ys @ i # zs" and P: "?P ys cx1"
    then have "i \<in> flips_between p q A" "i \<notin> set ys" using ids dist by auto
    then obtain ob where A: "A i = Some ob" and flip: "decide ob p \<noteq> decide ob q"
      by (auto simp: flips_between_def flipped_def)
    have L: "?L ys i = Some (decide ob p)" using A \<open>i \<notin> set ys\<close> by (simp add: labels_of_def)
    have L': "(?L ys)(i \<mapsto> decide ob q) = ?L (ys @ [i])" using A by (auto simp: labels_of_def)
    from P have inv1: "opt_ctx_inv e0 V0 A (?L ys) H cx1" by simp
    from opt_relabel_ok [OF inv1 A L flip] P
    show "\<exists>s'. opt_relabel q i cx1 = Inr s' \<and> ?P (ys @ [i]) s'" unfolding L' by auto
  qed
  then obtain cx' where cx': "fold_res (opt_relabel q) ?ids ?cx = Inr cx'" "?P ?ids cx'" by blast
  have "?L ?ids = labels_of q A"
  proof
    fix i
    show "?L ?ids i = labels_of q A i"
      by (cases "A i") (auto simp: ids flips_between_def flipped_def labels_of_def)
  qed
  moreover have "length ?ids = card (flips_between p q A)" using dist ids by (metis distinct_card)
  ultimately show ?thesis using cx' p q query by (simp add: opt_change_policy_def)
qed

section \<open>The dispatch\<close>

lemma opt_ctx_inv_hash:
  assumes "opt_ctx_inv e0 V0 A L H cx"
    and "\<And>i ob. A i = Some ob \<Longrightarrow> H' (ob_chunk_version_id ob) = H (ob_chunk_version_id ob)"
  shows "opt_ctx_inv e0 V0 A L H' cx"
proof -
  have "view_of A L H' = view_of A L H"
    by (rule ext) (use assms(2) in \<open>auto simp: view_of_def split: option.split\<close>)
  moreover have "map_option (active_entry_of H') (A i) = map_option (active_entry_of H) (A i)" for i
    using assms(2) by (cases "A i") (simp_all add: active_entry_of_def)
  ultimately show ?thesis using assms(1) unfolding opt_ctx_inv_def base_rel_def entries_rel_def by simp
qed

lemma opt_observe_ok:
  assumes inv: "repo_inv r" and ok: "register_observation (r\<lparr>current_epoch := n\<rparr>) ob = Inr r1"
    and after: "chunk_validity r' = chunk_validity r1" "chunk_versions r' = chunk_versions r1"
      "current_policy r' = current_policy r1"
    and pol: "policy_for r p"
    and dom: "dom (dget (oe_claims e0)) = dom (dget (claims r))"
    and ctx: "opt_ctx_inv e0 V0 (active_observation r) (labels_of p (active_observation r)) (chunk_text_hash r) cx"
  shows "\<exists>cx'. opt_maintain (ObserveEvent eid ob) r r' cx = Inr cx' \<and>
     opt_ctx_inv e0 V0 (active_observation r1) (labels_of p (active_observation r1)) (chunk_text_hash r1) cx'"
proof -
  let ?r = "r\<lparr>current_epoch := n\<rparr>" and ?k = "observation_key ob" and ?i = "ob_observation_id ob"
  have inv': "repo_inv ?r" using inv by simp
  note act = active_observation_observe [OF inv' ok, unfolded epoch_frame]
  from ok have fresh: "dget (observations r) ?i = None"
    and ob: "ob_subject_kind ob = CLAIM" "ob_subject_id ob \<in> dom (dget (claims r))"
    and chunk: "ob_chunk_version_id ob \<in> dom (dget (chunk_versions r))"
    unfolding register_observation_Inr by simp_all
  have p: "current_policy r = Inr p" using pol ob(2) by (auto simp: policy_for_def)
  have p1: "current_policy r' = Inr p"
    using after(3) p ok unfolding register_observation_Inr
    by (simp add: current_policy_def cong: option.case_cong)
  let ?A = "without_previous r ?k"
  have "\<exists>cx1. (case current_observation_id r ?k of None \<Rightarrow> Inr cx | Some j \<Rightarrow> opt_deactivate j cx) = Inr cx1 \<and>
      opt_ctx_inv e0 V0 ?A (labels_of p ?A) (chunk_text_hash r) cx1"
  proof (cases "current_observation_id r ?k")
    case None
    then show ?thesis using ctx by (simp add: without_previous_def)
  next
    case (Some j)
    from opt_deactivate_ok [OF ctx, of j] show ?thesis
      using Some by (simp add: without_previous_def)
  qed
  then obtain cx1 where
    cx1: "(case current_observation_id r ?k of None \<Rightarrow> Inr cx | Some j \<Rightarrow> opt_deactivate j cx) = Inr cx1"
    and ctx1: "opt_ctx_inv e0 V0 ?A (labels_of p ?A) (chunk_text_hash r) cx1" by blast
  have active': "is_chunk_active r' c = is_chunk_active r c" for c
    using after(1) act(4) by (simp add: is_chunk_active_def)
  show ?thesis
  proof (cases "is_chunk_active r (ob_chunk_version_id ob)")
    case False
    then show ?thesis using cx1 ctx1 act active' by simp
  next
    case True
    from chunk obtain cv where cv: "dget (chunk_versions r) (ob_chunk_version_id ob) = Some cv" by blast
    then have cv': "dget (chunk_versions r') (ob_chunk_version_id ob) = Some cv"
      using after(2) act(3) by simp
    have h: "cv_text_hash cv = chunk_text_hash r (ob_chunk_version_id ob)"
      using cv by (simp add: chunk_text_hash_def)
    have free: "?A ?i = None"
      using fresh by (auto simp: without_previous_def active_observation_def split: option.split)
    from opt_activate_ok [OF ctx1 free ob(1) _ cv' h p1] ob(2) dom obtain cx2 where
      cx2: "opt_activate ob r' cx1 = Inr cx2"
        "opt_ctx_inv e0 V0 (?A(?i \<mapsto> ob)) ((labels_of p ?A)(?i \<mapsto> decide ob p)) (chunk_text_hash r) cx2"
      by auto
    have A1: "active_observation r1 = ?A(?i \<mapsto> ob)" using act(1) True by simp
    have "opt_maintain (ObserveEvent eid ob) r r' cx = Inr cx2"
      using cx1 True active' cx2(1) by simp
    then show ?thesis using cx2(2) act(2) by (simp add: A1)
  qed
qed

lemma opt_maintain_ok:
  assumes inv: "repo_inv r" and ok: "mutate sha (r\<lparr>current_epoch := n\<rparr>) ev m = Inr r1"
    and after: "chunk_validity r' = chunk_validity r1" "chunk_versions r' = chunk_versions r1"
      "current_policy r' = current_policy r1"
    and pol: "policy_for r p" "is_policy_event ev \<Longrightarrow> current_policy r = Inr p"
    and tie: "dp_tie_rule_version p = ''v1''" "dp_tie_rule_version (next_policy ev p) = ''v1''"
    and dom: "dom (dget (oe_claims e0)) = dom (dget (claims r))"
    and ctx: "opt_ctx_inv e0 V0 (active_observation r) (labels_of p (active_observation r)) (chunk_text_hash r) cx"
  shows "\<exists>cx'. opt_maintain ev r r' cx = Inr cx' \<and>
     opt_ctx_inv e0 V0 (active_observation r1) (labels_of (next_policy ev p) (active_observation r1))
       (chunk_text_hash r1) cx' \<and>
     (is_policy_event ev \<longrightarrow>
        om_decision_flips (ox_stats cx') = om_decision_flips (ox_stats cx) +
          card (flips_between p (next_policy ev p) (active_observation r)) \<and>
        om_policy_index_candidates (ox_stats cx') =
          card (flips_between p (next_policy ev p) (active_observation r)))"
proof -
  let ?r = "r\<lparr>current_epoch := n\<rparr>"
  have inv': "repo_inv ?r" using inv by simp
  have obs: "observations_inv r" using inv by (simp add: repo_inv_def)
  show ?thesis
  proof (cases ev)
    case (InsertDocumentEvent eid d v h cs)
    with ok obtain chunks where reg: "register_document_version ?r
        \<lparr>dv_document_version_id = v, dv_document_id = d, dv_content_hash = h\<rparr> chunks m = Inr r1"
      by (auto simp: insert_version_def elim: bind_res_InrE)
    note act = active_observation_insert [OF inv' reg]
    have "opt_ctx_inv e0 V0 (active_observation r) (labels_of p (active_observation r)) (chunk_text_hash r1) cx"
      by (rule opt_ctx_inv_hash [OF ctx]) (use act(2) active_chunk [OF obs] in simp)
    then show ?thesis using InsertDocumentEvent act(1) by simp
  next
    case (DeleteDocumentVersionEvent eid v)
    with ok have del: "deactivate_document_version ?r v m = Inr r1" by simp
    note act = active_observation_deactivate [OF inv' del]
    from opt_withdraw_document_ok [OF obs ctx, of v] show ?thesis
      using DeleteDocumentVersionEvent act by simp
  next
    case (ReplaceDocumentVersionEvent eid d old new h cs)
    with ok obtain r2 chunks where del: "deactivate_document_version ?r old m = Inr r2"
      and reg: "register_document_version r2
        \<lparr>dv_document_version_id = new, dv_document_id = d, dv_content_hash = h\<rparr> chunks m = Inr r1"
      by (auto simp: insert_version_def elim!: bind_res_InrE)
    have inv2: "repo_inv r2" by (rule repo_inv_deactivate [OF inv' del])
    then have obs2: "observations_inv r2" by (simp add: repo_inv_def)
    note act = active_observation_deactivate [OF inv' del]
    note act2 = active_observation_insert [OF inv2 reg]
    let ?A = "active_outside r (set (chunk_ids_of_document_version r old))"
    from opt_withdraw_document_ok [OF obs ctx, of old] obtain cx' where
      cx': "opt_withdraw_document old r cx = Inr cx'"
      and ctx': "opt_ctx_inv e0 V0 ?A (labels_of p ?A) (chunk_text_hash r) cx'" by blast
    have A: "?A = active_observation r2" using act(1) by simp
    have "opt_ctx_inv e0 V0 ?A (labels_of p ?A) (chunk_text_hash r1) cx'"
      by (rule opt_ctx_inv_hash [OF ctx']) (use act2(2) act(2) active_chunk [OF obs2] A in simp)
    then show ?thesis using ReplaceDocumentVersionEvent cx' A act2(1) by simp
  next
    case (PolicyChangeEvent eid q)
    with ok have act: "activate_policy ?r q m = Inr r1" by simp
    note same = active_observation_policy [OF act]
    have q: "current_policy r' = Inr q"
      using act after(3) by (elim activate_policy_fields) (simp add: current_policy_def)
    have p: "current_policy r = Inr p" using pol(2) PolicyChangeEvent by simp
    from opt_change_policy_ok [OF p q tie(1) _ ctx] tie(2) show ?thesis
      using PolicyChangeEvent same by simp
  next
    case (ObserveEvent eid ob)
    with ok have reg: "register_observation ?r ob = Inr r1" by simp
    from opt_observe_ok [OF inv reg after pol(1) dom ctx, of eid] show ?thesis
      using ObserveEvent by simp
  qed
qed

end
