(* ===== verification/GL_OptFlush.thy ===== *)
theory GL_OptFlush
  imports GL_OptMaintain GL_EngineFlush
begin

text \<open>
  The derived states of the optimised engine: statuses and certificates of the claims, counters
  and statuses of the answers.  Rebuilding the counters, synchronising the registry and finishing
  an update keep them those of the represented view.
\<close>

section \<open>Registry and derived states\<close>

definition opt_registry_rel :: "repo \<Rightarrow> string set \<Rightarrow> string set \<Rightarrow> opt_engine \<Rightarrow> bool" where
  "opt_registry_rel r K J e \<longleftrightarrow>
     K \<subseteq> dom (dget (claims r)) \<and> J \<subseteq> dom (dget (answers r)) \<and>
     (\<forall>a \<in> J. set (claim_ids_of_answer r a) \<subseteq> K) \<and>
     dom (dget (oe_claims e)) = K \<and>
     (\<forall>c. dget (oe_claim_to_answer e) c =
        (if c \<in> K then map_option cl_answer_version_id (dget (claims r) c) else None)) \<and>
     (\<forall>c. dget (oe_claim_required e) c =
        (if c \<in> K then map_option cl_required (dget (claims r) c) else None)) \<and>
     dict_ok (oe_answer_to_claims e) \<and>
     (\<forall>a. dget (oe_answer_to_claims e) a = (if a \<in> J then Some (claim_ids_of_answer r a) else None))"

lemma opt_registry_relD:
  assumes "opt_registry_rel r K J e"
  shows "K \<subseteq> dom (dget (claims r))" and "J \<subseteq> dom (dget (answers r))"
    and "a \<in> J \<Longrightarrow> set (claim_ids_of_answer r a) \<subseteq> K"
    and "dom (dget (oe_claims e)) = K"
    and "dget (oe_claim_to_answer e) c =
        (if c \<in> K then map_option cl_answer_version_id (dget (claims r) c) else None)"
    and "dget (oe_claim_required e) c =
        (if c \<in> K then map_option cl_required (dget (claims r) c) else None)"
    and "dict_ok (oe_answer_to_claims e)"
    and "dget (oe_answer_to_claims e) a = (if a \<in> J then Some (claim_ids_of_answer r a) else None)"
  using assms unfolding opt_registry_rel_def by (elim conjE; metis)+

text \<open>A certificate is valid for a claim state.\<close>

definition cert_for :: "claim_state \<Rightarrow> opt_certificate \<Rightarrow> bool" where
  "cert_for st ct \<longleftrightarrow>
     oc_claim_id ct = cs_claim_id st \<and>
     witness_valid (set (cs_supporting_observation_ids st)) (oc_support_observation_id ct) \<and>
     witness_valid (set (cs_refuting_observation_ids st)) (oc_refute_observation_id ct)"

definition opt_claims_rel :: "string set \<Rightarrow> (string \<Rightarrow> claim_state) \<Rightarrow> opt_engine \<Rightarrow> bool" where
  "opt_claims_rel K S e \<longleftrightarrow>
     (\<forall>c. dget (oe_claim_statuses e) c = (if c \<in> K then Some (cs_status (S c)) else None)) \<and>
     (\<forall>c \<in> K. \<exists>ct. dget (oe_certificates e) c = Some ct \<and> cert_for (S c) ct)"

definition opt_counters_rel :: "repo \<Rightarrow> string set \<Rightarrow> (string \<Rightarrow> claim_state) \<Rightarrow> opt_engine \<Rightarrow> bool" where
  "opt_counters_rel r J S e \<longleftrightarrow>
     dom (dget (oe_answer_counts e)) = J \<and>
     (\<forall>a ct. dget (oe_answer_counts e) a = Some ct \<longrightarrow>
        counter_rel ct (map (\<lambda>c. cs_status (S c)) (required_claim_ids r a)))"

definition opt_answers_rel :: "repo \<Rightarrow> string set \<Rightarrow> (string \<Rightarrow> claim_state) \<Rightarrow> opt_engine \<Rightarrow> bool" where
  "opt_answers_rel r J S e \<longleftrightarrow>
     (\<forall>a. dget (oe_answer_statuses e) a =
        (if a \<in> J then Some (as_status (answer_state_for r S a)) else None))"

definition opt_states_rel :: "repo \<Rightarrow> string set \<Rightarrow> string set \<Rightarrow> view \<Rightarrow> opt_engine \<Rightarrow> bool" where
  "opt_states_rel r K J V e \<longleftrightarrow>
     opt_claims_rel K (view_claim_state V) e \<and> opt_counters_rel r J (view_claim_state V) e \<and>
     opt_answers_rel r J (view_claim_state V) e"

lemma opt_answer_status_of:
  assumes "counter_rel ct (map (\<lambda>c. cs_status (S c)) (required_claim_ids r a))"
  shows "opt_answer_status ct (int (length (required_claim_ids r a))) = as_status (answer_state_for r S a)"
  using assms
  by (simp add: opt_answer_status_def answer_state_for_def view_answer_state_def answer_status_of_counts
      counter_rel_def)

section \<open>Refreshing a claim\<close>

lemma repair_witness_valid:
  assumes "is_iteration_order order" and "finite ids"
  shows "witness_valid ids (repair_witness (order e ids) ids old)"
proof -
  have set: "set (order e ids) = ids" using assms by (simp add: is_iteration_order_def)
  have "witness_valid ids (first_id (order e ids))"
  proof (cases "order e ids")
    case Nil
    then show ?thesis using set by (simp add: witness_valid_def first_id_def)
  next
    case (Cons x xs)
    then have "x \<in> ids" using set by auto
    then show ?thesis using Cons by (auto simp: witness_valid_def first_id_def)
  qed
  then show ?thesis by (auto simp: repair_witness_def witness_valid_def split: option.split)
qed

lemma opt_repair_certificate_ok:
  assumes ord: "is_iteration_order order" and a: "dget (oe_claims e) c = Some a" and rel: "agg_rel a V c"
  shows "\<exists>ct. opt_repair_certificate order c e =
       Inr (e\<lparr>oe_certificates := dset c ct (oe_certificates e)\<rparr>) \<and> cert_for (view_claim_state V c) ct"
proof -
  note s = agg_rel_sides [OF rel]
  let ?ct = "\<lparr>oc_claim_id = c,
      oc_support_observation_id = repair_witness (order e (ag_support_ids a)) (ag_support_ids a)
        (Option.bind (dget (oe_certificates e) c) oc_support_observation_id),
      oc_refute_observation_id = repair_witness (order e (ag_refute_ids a)) (ag_refute_ids a)
        (Option.bind (dget (oe_certificates e) c) oc_refute_observation_id)\<rparr>"
  have "opt_repair_certificate order c e = Inr (e\<lparr>oe_certificates := dset c ?ct (oe_certificates e)\<rparr>)"
    using a by (simp add: opt_repair_certificate_def Let_def)
  moreover have "cert_for (view_claim_state V c) ?ct"
    using repair_witness_valid [OF ord s(5)] repair_witness_valid [OF ord s(6)] s
    by (simp add: cert_for_def view_claim_state_def)
  ultimately show ?thesis by blast
qed

lemma opt_refresh_claim_ok:
  assumes ord: "is_iteration_order order" and sums: "sums_rel e V" and c: "c \<in> dom (dget (oe_claims e))"
  shows "\<exists>ct. opt_refresh_claim order c e = Inr (e\<lparr>
       oe_claim_statuses := dset c (cs_status (view_claim_state V c)) (oe_claim_statuses e),
       oe_certificates := dset c ct (oe_certificates e)\<rparr>) \<and> cert_for (view_claim_state V c) ct"
proof -
  from c obtain a where a: "dget (oe_claims e) c = Some a" by blast
  have rel: "agg_rel a V c" by (rule sums_relD(2) [OF sums a])
  let ?e = "e\<lparr>oe_claim_statuses := dset c (opt_claim_status a) (oe_claim_statuses e)\<rparr>"
  have a': "dget (oe_claims ?e) c = Some a" using a by simp
  from opt_repair_certificate_ok [OF ord a' rel] show ?thesis
    using a by (simp add: opt_refresh_claim_def opt_claim_status_view [OF rel])
qed

section \<open>Rebuilding the counters\<close>

lemma opt_required_count_ok:
  assumes reg: "opt_registry_rel r K J e" and a: "a \<in> J"
  shows "opt_required_count e a = Inr (int (length (required_claim_ids r a)))"
proof -
  note R = opt_registry_relD [OF reg]
  let ?cs = "claim_ids_of_answer r a"
  let ?req = "\<lambda>c. case dget (claims r) c of None \<Rightarrow> False | Some x \<Rightarrow> cl_required x"
  have "traverse (lookup KeyError (oe_claim_required e)) ?cs = Inr (map ?req ?cs)"
  proof (rule traverse_Inr_map)
    fix c assume "c \<in> set ?cs"
    then obtain x where "dget (claims r) c = Some x" "c \<in> K" using R(1) R(3) [OF a] by blast
    then show "lookup KeyError (oe_claim_required e) c = Inr (?req c)" using R(6) by simp
  qed
  then show ?thesis
    using R(8) [of a] a
    by (simp add: opt_required_count_def required_claim_ids_def filter_map comp_def)
qed

lemma opt_count_claims_ok:
  assumes reg: "opt_registry_rel r K J e" and cl: "opt_claims_rel K S e"
    and "set cs \<subseteq> K" and "counter_rel ct sts"
  shows "\<exists>ct'. fold_res (opt_count_claim e) cs ct = Inr ct' \<and>
     counter_rel ct' (sts @ map (\<lambda>c. cs_status (S c))
       (filter (\<lambda>c. case dget (claims r) c of None \<Rightarrow> False | Some cl \<Rightarrow> cl_required cl) cs))"
  using assms(3,4)
proof (induction cs arbitrary: ct sts)
  case (Cons c cs)
  note R = opt_registry_relD [OF reg]
  from Cons.prems R(1) obtain x where x: "dget (claims r) c = Some x" by auto
  have req: "dget (oe_claim_required e) c = Some (cl_required x)" using R(6) x Cons.prems by simp
  have state: "dget (oe_claim_statuses e) c = Some (cs_status (S c))"
    using cl Cons.prems by (simp add: opt_claims_rel_def)
  show ?case
  proof (cases "cl_required x")
    case True
    have "counter_rel (counter_add (cs_status (S c)) 1 ct) (sts @ [cs_status (S c)])"
      using Cons.prems(2) by (auto simp: counter_rel_def)
    from Cons.IH [OF _ this] Cons.prems(1) show ?thesis
      using True x req state by (simp add: opt_count_claim_def)
  next
    case False
    from Cons.IH [OF _ Cons.prems(2)] Cons.prems(1) show ?thesis
      using False x req by (simp add: opt_count_claim_def)
  qed
qed simp

definition opt_rebuild_inv :: "repo \<Rightarrow> (string \<Rightarrow> claim_state) \<Rightarrow> opt_engine \<Rightarrow> string set \<Rightarrow> opt_engine \<Rightarrow> bool" where
  "opt_rebuild_inv r S e0 B e \<longleftrightarrow>
     (\<exists>cs as. e = e0\<lparr>oe_answer_counts := cs, oe_answer_statuses := as\<rparr>) \<and>
     opt_counters_rel r B S e \<and> opt_answers_rel r B S e"

lemma opt_rebuild_answer_ok:
  assumes reg: "opt_registry_rel r K J e0" and cl: "opt_claims_rel K S e0" and a: "a \<in> J"
    and inv: "opt_rebuild_inv r S e0 B e"
  shows "\<exists>e'. opt_rebuild_answer (a, claim_ids_of_answer r a) e = Inr e' \<and>
     opt_rebuild_inv r S e0 (insert a B) e'"
proof -
  from inv obtain cs as where e: "e = e0\<lparr>oe_answer_counts := cs, oe_answer_statuses := as\<rparr>"
    and ct: "opt_counters_rel r B S e" and ans: "opt_answers_rel r B S e"
    by (auto simp: opt_rebuild_inv_def)
  have regE: "opt_registry_rel r K J e" using reg by (simp add: e opt_registry_rel_def)
  have clE: "opt_claims_rel K S e" using cl by (simp add: e opt_claims_rel_def)
  have "counter_rel [] []" by (simp add: counter_rel_def dget_default_def)
  from opt_count_claims_ok [OF regE clE opt_registry_relD(3) [OF regE a] this] obtain counts where
    counts: "fold_res (opt_count_claim e) (claim_ids_of_answer r a) [] = Inr counts"
      "counter_rel counts (map (\<lambda>c. cs_status (S c)) (required_claim_ids r a))"
    by (auto simp: required_claim_ids_def)
  let ?e = "e\<lparr>oe_answer_counts := dset a counts (oe_answer_counts e),
      oe_answer_statuses := dset a (as_status (answer_state_for r S a)) (oe_answer_statuses e)\<rparr>"
  have "opt_rebuild_answer (a, claim_ids_of_answer r a) e = Inr ?e"
    using counts(1) opt_required_count_ok [OF regE a] opt_answer_status_of [OF counts(2)]
    by (simp add: opt_rebuild_answer_def)
  moreover have "opt_counters_rel r (insert a B) S ?e" "opt_answers_rel r (insert a B) S ?e"
    using ct ans counts(2) by (auto simp: opt_counters_rel_def opt_answers_rel_def)
  moreover have "\<exists>cs as. ?e = e0\<lparr>oe_answer_counts := cs, oe_answer_statuses := as\<rparr>"
    unfolding e by (intro exI) simp
  ultimately show ?thesis by (simp only: opt_rebuild_inv_def) blast
qed

lemma opt_rebuild_ok:
  assumes reg: "opt_registry_rel r K J e" and cl: "opt_claims_rel K S e"
  shows "\<exists>cs as. opt_rebuild_answer_counts e =
       Inr (e\<lparr>oe_answer_counts := cs, oe_answer_statuses := as\<rparr>) \<and>
     (\<forall>e'. oe_answer_counts e' = cs \<longrightarrow> oe_answer_statuses e' = as \<longrightarrow>
        opt_counters_rel r J S e' \<and> opt_answers_rel r J S e')"
proof -
  note R = opt_registry_relD [OF reg]
  let ?e0 = "e\<lparr>oe_answer_counts := [], oe_answer_statuses := []\<rparr>" and ?d = "oe_answer_to_claims e"
  have J: "fst ` set ?d = J"
    unfolding set_map [symmetric] set_dkeys by (rule set_eqI) (simp add: domIff R(8))
  have "\<exists>e'. fold_res opt_rebuild_answer ?d ?e0 = Inr e' \<and> opt_rebuild_inv r S e (fst ` set ?d) e'"
  proof (rule fold_res_total_prefix [where P = "\<lambda>ys. opt_rebuild_inv r S e (fst ` set ys)"])
    have "\<exists>cs as. ?e0 = e\<lparr>oe_answer_counts := cs, oe_answer_statuses := as\<rparr>" by (intro exI) simp
    then show "opt_rebuild_inv r S e (fst ` set []) ?e0"
      by (simp add: opt_rebuild_inv_def opt_counters_rel_def opt_answers_rel_def)
  next
    fix ys x zs e1
    assume split: "?d = ys @ x # zs" and inv: "opt_rebuild_inv r S e (fst ` set ys) e1"
    obtain a cids where x: "x = (a, cids)" by (cases x)
    have "dget ?d a = Some cids" using R(7) split x by (subst dget_in_set [symmetric]) simp_all
    then have "a \<in> J" "cids = claim_ids_of_answer r a" using R(8) [of a] by (auto split: if_splits)
    with opt_rebuild_answer_ok [OF reg cl _ inv, of a] x
    show "\<exists>s'. opt_rebuild_answer x e1 = Inr s' \<and> opt_rebuild_inv r S e (fst ` set (ys @ [x])) s'" by simp
  qed
  then obtain e' where e': "fold_res opt_rebuild_answer ?d ?e0 = Inr e'" "opt_rebuild_inv r S e J e'"
    unfolding J by blast
  then obtain cs as where e'': "e' = e\<lparr>oe_answer_counts := cs, oe_answer_statuses := as\<rparr>"
    and rel: "opt_counters_rel r J S e'" "opt_answers_rel r J S e'"
    by (auto simp: opt_rebuild_inv_def)
  have "opt_counters_rel r J S x \<and> opt_answers_rel r J S x"
    if "oe_answer_counts x = cs" "oe_answer_statuses x = as" for x
    using rel that by (simp add: e'' opt_counters_rel_def opt_answers_rel_def)
  then show ?thesis using e'(1) e'' by (auto simp: opt_rebuild_answer_counts_def)
qed

section \<open>The loop over the touched claims\<close>

text \<open>The fields that the refresh loops leave alone.\<close>

definition opt_flush_frame :: "opt_engine \<Rightarrow> opt_engine \<Rightarrow> bool" where
  "opt_flush_frame e0 e \<longleftrightarrow>
     oe_claims e = oe_claims e0 \<and> oe_claim_to_answer e = oe_claim_to_answer e0 \<and>
     oe_claim_required e = oe_claim_required e0 \<and> oe_answer_to_claims e = oe_answer_to_claims e0 \<and>
     oe_active e = oe_active e0 \<and> oe_labels e = oe_labels e0 \<and>
     oe_policy_index e = oe_policy_index e0"

lemma opt_flush_frame_fields:
  assumes "opt_flush_frame e0 e"
  shows "oe_claims e = oe_claims e0" "oe_claim_to_answer e = oe_claim_to_answer e0"
    "oe_claim_required e = oe_claim_required e0" "oe_answer_to_claims e = oe_answer_to_claims e0"
    "oe_active e = oe_active e0" "oe_labels e = oe_labels e0" "oe_policy_index e = oe_policy_index e0"
  using assms by (simp_all only: opt_flush_frame_def)

lemma opt_flush_frame_rel:
  assumes "opt_flush_frame e0 e"
  shows "opt_registry_rel r K J e = opt_registry_rel r K J e0"
    and "base_rel e A L H = base_rel e0 A L H" and "sums_rel e V = sums_rel e0 V"
  by (simp_all only: opt_registry_rel_def base_rel_def sums_rel_def pots_rel_def entries_rel_def
      opt_flush_frame_fields [OF assms])

definition flip_stats :: "opt_mutable_stats \<Rightarrow> nat \<times> nat" where
  "flip_stats st = (om_policy_index_candidates st, om_decision_flips st)"

definition opt_flush_inv ::
    "repo \<Rightarrow> string set \<Rightarrow> string set \<Rightarrow> view \<Rightarrow> (string \<Rightarrow> claim_state) \<Rightarrow> opt_engine \<Rightarrow>
      opt_mutable_stats \<Rightarrow> string set \<Rightarrow> opt_flush_ctx \<Rightarrow> bool" where
  "opt_flush_inv r K J V S e0 m0 C fx \<longleftrightarrow>
     flip_stats (of_stats fx) = flip_stats m0 \<and>
     opt_flush_frame e0 (of_engine fx) \<and>
     opt_claims_rel K (upd S V C) (of_engine fx) \<and> opt_counters_rel r J (upd S V C) (of_engine fx) \<and>
     oe_answer_statuses (of_engine fx) = oe_answer_statuses e0 \<and>
     of_touched_answers fx \<subseteq> J \<and>
     (\<forall>a \<in> J - of_touched_answers fx. answer_state_for r (upd S V C) a = answer_state_for r S a)"

lemma opt_claims_rel_upd:
  assumes "opt_claims_rel K (upd S V C) e" and "c \<in> K" and "cert_for (view_claim_state V c) ct"
  shows "opt_claims_rel K (upd S V (insert c C)) (e\<lparr>
       oe_claim_statuses := dset c (cs_status (view_claim_state V c)) (oe_claim_statuses e),
       oe_certificates := dset c ct (oe_certificates e)\<rparr>)"
  using assms unfolding opt_claims_rel_def upd_insert by auto

text \<open>A claim whose status did not change, or that its answer does not require.\<close>

lemma opt_flush_quiet:
  assumes claims: "claims_inv r" and clm: "dget (claims r) c = Some x" and new: "c \<notin> C"
    and quiet: "cs_status (S c) = cs_status (view_claim_state V c) \<or> \<not> cl_required x"
    and ct: "opt_counters_rel r J (upd S V C) e" and ct': "oe_answer_counts e' = oe_answer_counts e"
  shows "opt_counters_rel r J (upd S V (insert c C)) e'"
    and "answer_state_for r (upd S V (insert c C)) a = answer_state_for r (upd S V C) a"
proof -
  have same: "cs_status (upd S V (insert c C) d) = cs_status (upd S V C d)"
    if "d \<in> set (required_claim_ids r a)" for a d
  proof (cases "d = c")
    case True
    then have "cl_required x" using that required_claim_answer [OF claims clm] by simp
    then show ?thesis using True new quiet by (simp add: upd_def)
  qed (simp add: upd_insert)
  then have maps: "map (\<lambda>d. cs_status (upd S V (insert c C) d)) (required_claim_ids r a) =
      map (\<lambda>d. cs_status (upd S V C d)) (required_claim_ids r a)" for a
    by (intro map_cong) auto
  show "opt_counters_rel r J (upd S V (insert c C)) e'"
    using ct unfolding opt_counters_rel_def maps ct' .
  show "answer_state_for r (upd S V (insert c C)) a = answer_state_for r (upd S V C) a"
    by (rule answer_state_for_cong) (rule same)
qed

text \<open>A required claim whose status changed moves one count of its answer.\<close>

lemma opt_flush_moved:
  assumes claims: "claims_inv r" and clm: "dget (claims r) c = Some x" and new: "c \<notin> C"
    and req: "cl_required x" and ct: "opt_counters_rel r J (upd S V C) e"
    and counts: "dget (oe_answer_counts e) (cl_answer_version_id x) = Some counts"
    and ct': "oe_answer_counts e' = dset (cl_answer_version_id x)
        (counter_add (cs_status (view_claim_state V c)) 1 (counter_add (cs_status (S c)) (-1) counts))
        (oe_answer_counts e)"
  shows "opt_counters_rel r J (upd S V (insert c C)) e'"
    and "a \<noteq> cl_answer_version_id x \<Longrightarrow>
       answer_state_for r (upd S V (insert c C)) a = answer_state_for r (upd S V C) a"
proof -
  let ?a = "cl_answer_version_id x" and ?s = "view_claim_state V c"
  let ?f = "\<lambda>d. cs_status (upd S V C d)"
  let ?counts = "counter_add (cs_status ?s) 1 (counter_add (cs_status (S c)) (-1) counts)"
  have mem: "c \<in> set (required_claim_ids r ?a)" using required_claim_answer [OF claims clm] req by simp
  have f': "(\<lambda>d. cs_status (upd S V (insert c C) d)) = ?f(c := cs_status ?s)" by (auto simp: upd_insert)
  have fc: "?f c = cs_status (S c)" using new by (simp add: upd_def)
  have "counter_rel counts (map ?f (required_claim_ids r ?a))"
    using ct counts by (simp add: opt_counters_rel_def)
  from counter_rel_move [OF this required_claim_ids_distinct [OF claims] mem, of "cs_status ?s"]
  have moved: "counter_rel ?counts (map (\<lambda>d. cs_status (upd S V (insert c C) d)) (required_claim_ids r ?a))"
    unfolding f' fc .
  have other: "cs_status (upd S V (insert c C) d) = cs_status (upd S V C d)"
    if "b \<noteq> ?a" "d \<in> set (required_claim_ids r b)" for b d
    using that required_claim_answer [OF claims clm, of b] by (auto simp: upd_insert)
  show "opt_counters_rel r J (upd S V (insert c C)) e'"
    unfolding opt_counters_rel_def
  proof (intro conjI allI impI)
    show "dom (dget (oe_answer_counts e')) = J"
      using ct counts by (auto simp: opt_counters_rel_def ct')
  next
    fix b ct1 assume b: "dget (oe_answer_counts e') b = Some ct1"
    show "counter_rel ct1 (map (\<lambda>d. cs_status (upd S V (insert c C) d)) (required_claim_ids r b))"
    proof (cases "b = ?a")
      case True
      then show ?thesis using b moved by (simp add: ct')
    next
      case False
      then have "counter_rel ct1 (map ?f (required_claim_ids r b))"
        using b ct by (simp add: opt_counters_rel_def ct')
      moreover have "map (\<lambda>d. cs_status (upd S V (insert c C) d)) (required_claim_ids r b) =
          map ?f (required_claim_ids r b)"
        using other [OF False] by (intro map_cong) auto
      ultimately show ?thesis by (simp only:)
    qed
  qed
  show "answer_state_for r (upd S V (insert c C)) a = answer_state_for r (upd S V C) a" if "a \<noteq> ?a"
    by (rule answer_state_for_cong) (rule other [OF that])
qed

lemma opt_flush_claim_ok:
  assumes ord: "is_iteration_order order" and claims: "claims_inv r"
    and reg: "opt_registry_rel r K J e0" and sums: "sums_rel e0 V"
    and c: "c \<in> K" and new: "c \<notin> C" and closed: "answers_known r K J"
    and inv: "opt_flush_inv r K J V S e0 m0 C fx"
  shows "\<exists>fx'. opt_flush_claim order c fx = Inr fx' \<and> opt_flush_inv r K J V S e0 m0 (insert c C) fx'"
proof -
  let ?e = "of_engine fx" and ?s = "view_claim_state V c" and ?st = "of_stats fx"
  from inv have frame: "opt_flush_frame e0 ?e" and cl: "opt_claims_rel K (upd S V C) ?e"
    and ct: "opt_counters_rel r J (upd S V C) ?e"
    and ans: "oe_answer_statuses ?e = oe_answer_statuses e0" and touched: "of_touched_answers fx \<subseteq> J"
    and clean: "\<forall>a \<in> J - of_touched_answers fx. answer_state_for r (upd S V C) a = answer_state_for r S a"
    and stats: "flip_stats ?st = flip_stats m0"
    by (simp_all add: opt_flush_inv_def)
  have sumsE: "sums_rel ?e V" using sums opt_flush_frame_rel(3) [OF frame] by simp
  have regE: "opt_registry_rel r K J ?e" using reg opt_flush_frame_rel(1) [OF frame] by simp
  note R = opt_registry_relD [OF regE]
  have "c \<in> dom (dget (oe_claims ?e))" using R(4) c by simp
  from opt_refresh_claim_ok [OF ord sumsE this] obtain cert where
    ref: "opt_refresh_claim order c ?e = Inr (?e\<lparr>
       oe_claim_statuses := dset c (cs_status ?s) (oe_claim_statuses ?e),
       oe_certificates := dset c cert (oe_certificates ?e)\<rparr>)" and cert: "cert_for ?s cert" by blast
  let ?e1 = "?e\<lparr>oe_claim_statuses := dset c (cs_status ?s) (oe_claim_statuses ?e),
       oe_certificates := dset c cert (oe_certificates ?e)\<rparr>"
  from R(1) c obtain x where clm: "dget (claims r) c = Some x" by blast
  have old: "dget (oe_claim_statuses ?e) c = Some (cs_status (S c))"
    using cl c new by (simp add: opt_claims_rel_def upd_def)
  have req: "dget (oe_claim_required ?e) c = Some (cl_required x)" using R(6) c clm by simp
  have frame1: "opt_flush_frame e0 ?e1" using frame by (simp add: opt_flush_frame_def)
  have claims1: "opt_claims_rel K (upd S V (insert c C)) ?e1" by (rule opt_claims_rel_upd [OF cl c cert])
  show ?thesis
  proof (cases "cs_status (S c) = cs_status ?s \<or> \<not> cl_required x")
    case True
    note quiet = opt_flush_quiet [OF claims clm new True ct, of ?e1]
    obtain st where "opt_flush_claim order c fx = Inr (fx\<lparr>of_engine := ?e1, of_stats := st\<rparr>)"
      and "flip_stats st = flip_stats m0"
    proof (cases "cs_status (S c) = cs_status ?s")
      case True
      have "opt_flush_claim order c fx = Inr (fx\<lparr>of_engine := ?e1, of_stats := ?st\<rparr>)"
        using True old ref by (simp add: opt_flush_claim_def Let_def)
      then show thesis using stats by (rule that)
    next
      case False
      let ?st1 = "?st\<lparr>om_claim_status_changes := om_claim_status_changes ?st + 1\<rparr>"
      from True False have "\<not> cl_required x" by simp
      with False have "opt_flush_claim order c fx = Inr (fx\<lparr>of_engine := ?e1, of_stats := ?st1\<rparr>)"
        using old ref req by (simp add: opt_flush_claim_def Let_def)
      moreover have "flip_stats ?st1 = flip_stats m0" using stats by (simp add: flip_stats_def)
      ultimately show thesis by (rule that)
    qed
    moreover have "opt_counters_rel r J (upd S V (insert c C)) ?e1" by (rule quiet(1)) simp
    moreover have "answer_state_for r (upd S V (insert c C)) a = answer_state_for r (upd S V C) a" for a
      by (rule quiet(2)) simp
    ultimately show ?thesis
      using frame1 claims1 ans touched clean by (simp add: opt_flush_inv_def)
  next
    case False
    then have ne: "cs_status (S c) \<noteq> cs_status ?s" and rq: "cl_required x" by simp_all
    let ?a = "cl_answer_version_id x"
    have aJ: "?a \<in> J" using closed c clm rq by (simp add: answers_known_def)
    have to: "dget (oe_claim_to_answer ?e) c = Some ?a" using R(5) c clm by simp
    from ct aJ obtain counts where counts: "dget (oe_answer_counts ?e) ?a = Some counts"
      by (auto simp: opt_counters_rel_def)
    let ?e2 = "?e1\<lparr>oe_answer_counts :=
        dset ?a (counter_add (cs_status ?s) 1 (counter_add (cs_status (S c)) (-1) counts)) (oe_answer_counts ?e)\<rparr>"
    let ?fx = "\<lparr>of_engine = ?e2,
        of_stats = ?st\<lparr>om_claim_status_changes := om_claim_status_changes ?st + 1\<rparr>,
        of_touched_answers = insert ?a (of_touched_answers fx)\<rparr>"
    have run: "opt_flush_claim order c fx = Inr ?fx"
      using ne rq old ref req to counts by (simp add: opt_flush_claim_def Let_def)
    note moved = opt_flush_moved [OF claims clm new rq ct counts, of ?e2]
    have "opt_counters_rel r J (upd S V (insert c C)) ?e2" by (rule moved(1)) simp
    moreover have "opt_claims_rel K (upd S V (insert c C)) ?e2"
      using claims1 by (simp add: opt_claims_rel_def)
    moreover have "opt_flush_frame e0 ?e2" using frame1 by (simp add: opt_flush_frame_def)
    moreover have "answer_state_for r (upd S V (insert c C)) a = answer_state_for r S a"
      if "a \<in> J - insert ?a (of_touched_answers fx)" for a
    proof -
      have "answer_state_for r (upd S V (insert c C)) a = answer_state_for r (upd S V C) a"
        by (rule moved(2)) (use that in simp_all)
      then show ?thesis using clean that by simp
    qed
    ultimately have "opt_flush_inv r K J V S e0 m0 (insert c C) ?fx"
      using aJ touched ans stats by (simp add: opt_flush_inv_def flip_stats_def)
    with run show ?thesis by blast
  qed
qed

end
