(* ===== verification/GL_OptProofs.thy ===== *)
theory GL_OptProofs
  imports GL_OptFlush GL_EngineProofs
begin

text \<open>
  The relation between a repository and the optimised engine, its preservation by every public
  operation, and the agreement of the materialised states with the oracle.
\<close>

section \<open>Finishing an update\<close>

definition opt_answers_inv ::
    "repo \<Rightarrow> string set \<Rightarrow> (string \<Rightarrow> claim_state) \<Rightarrow> (string \<Rightarrow> claim_state) \<Rightarrow> opt_engine \<Rightarrow>
      opt_mutable_stats \<Rightarrow> string set \<Rightarrow> opt_engine \<times> opt_mutable_stats \<Rightarrow> bool" where
  "opt_answers_inv r J S T e0 m0 B es \<longleftrightarrow>
     flip_stats (snd es) = flip_stats m0 \<and>
     (\<exists>as. fst es = e0\<lparr>oe_answer_statuses := as\<rparr>) \<and>
     (\<forall>a. dget (oe_answer_statuses (fst es)) a =
        (if a \<in> J then Some (as_status (answer_state_for r (if a \<in> B then T else S) a)) else None))"

lemma opt_flush_answer_ok:
  assumes reg: "opt_registry_rel r K J e0" and ct: "opt_counters_rel r J T e0" and a: "a \<in> J"
    and inv: "opt_answers_inv r J S T e0 m0 B es"
  shows "\<exists>es'. opt_flush_answer a es = Inr es' \<and> opt_answers_inv r J S T e0 m0 (insert a B) es'"
proof -
  obtain e m where es: "es = (e, m)" by (cases es)
  from inv obtain as where e: "e = e0\<lparr>oe_answer_statuses := as\<rparr>"
    and stats: "flip_stats m = flip_stats m0"
    and ans: "\<And>b. dget (oe_answer_statuses e) b =
        (if b \<in> J then Some (as_status (answer_state_for r (if b \<in> B then T else S) b)) else None)"
    by (auto simp: opt_answers_inv_def es)
  have regE: "opt_registry_rel r K J e" using reg by (simp add: e opt_registry_rel_def)
  from ct a obtain counts where counts: "dget (oe_answer_counts e) a = Some counts"
    "counter_rel counts (map (\<lambda>c. cs_status (T c)) (required_claim_ids r a))"
    by (auto simp: e opt_counters_rel_def)
  let ?new = "as_status (answer_state_for r T a)"
  let ?e = "e\<lparr>oe_answer_statuses := dset a ?new (oe_answer_statuses e)\<rparr>"
  obtain m' where m': "opt_flush_answer a es = Inr (?e, m')" "flip_stats m' = flip_stats m"
    using ans [of a] a counts opt_required_count_ok [OF regE a] opt_answer_status_of [OF counts(2)]
    by (auto simp: opt_flush_answer_def es Let_def flip_stats_def split: if_splits)
  have "\<exists>as. ?e = e0\<lparr>oe_answer_statuses := as\<rparr>" unfolding e by (intro exI) simp
  then have "opt_answers_inv r J S T e0 m0 (insert a B) (?e, m')"
    using ans a stats m'(2) by (simp add: opt_answers_inv_def)
  with m'(1) show ?thesis by blast
qed

lemma opt_frame_rel:
  assumes "opt_frame e0 e" and "dict_ok (oe_claims e)"
  shows "opt_registry_rel r K J e = opt_registry_rel r K J e0"
    and "opt_states_rel r K J V e = opt_states_rel r K J V e0"
  by (simp_all only: opt_registry_rel_def opt_states_rel_def opt_claims_rel_def opt_counters_rel_def
      opt_answers_rel_def opt_frame_dom [OF assms(1)] assms(1) [unfolded opt_frame_def])

lemma opt_finish_ok:
  assumes ord: "is_iteration_order order" and claims: "claims_inv r"
    and reg: "opt_registry_rel r K J e0" and closed: "answers_known r K J"
    and st: "opt_states_rel r K J V0 e0" and ctx: "opt_ctx_inv e0 V0 A L H cx"
  shows "\<exists>e'. opt_finish order cx = Inr e' \<and> base_rel e' A L H \<and> opt_registry_rel r K J e' \<and>
     opt_states_rel r K J (view_of A L H) e' \<and>
     os_policy_index_candidates (oe_last_stats e') = om_policy_index_candidates (ox_stats cx) \<and>
     os_decision_flips (oe_last_stats e') = om_decision_flips (ox_stats cx)"
proof -
  let ?V = "view_of A L H" and ?S = "view_claim_state V0" and ?e = "ox_engine cx" and ?D = "ox_touched_claims cx"
  note I = opt_ctx_invD [OF ctx]
  note B = base_relD [OF I(1)]
  have DK: "?D \<subseteq> K" using I(4) opt_registry_relD(4) [OF reg] by simp
  have regE: "opt_registry_rel r K J ?e" and stE: "opt_states_rel r K J V0 ?e"
    using reg st opt_frame_rel [OF I(2) sums_relD(1) [OF B(1)]] by simp_all
  have fin: "finite ?D"
    using DK opt_registry_relD(1) [OF reg] finite_dom_map_of by (metis finite_subset)
  let ?ds = "order ?e ?D"
  have ds: "set ?ds = ?D" "distinct ?ds" using ord fin by (simp_all add: is_iteration_order_def)
  let ?fx = "\<lparr>of_engine = ?e, of_stats = ox_stats cx, of_touched_answers = {}\<rparr>"
  let ?P = "\<lambda>ys. opt_flush_inv r K J ?V ?S ?e (ox_stats cx) (set ys)"
  have upd0: "upd ?S ?V {} = ?S" by (rule ext) (simp add: upd_def)
  have "\<exists>fx. fold_res (opt_flush_claim order) ?ds ?fx = Inr fx \<and> ?P ?ds fx"
  proof (rule fold_res_total_prefix [where P = ?P])
    show "?P [] ?fx"
      using stE by (simp add: opt_flush_inv_def opt_flush_frame_def upd0 opt_states_rel_def)
  next
    fix ys c zs fx
    assume split: "?ds = ys @ c # zs" and inv: "?P ys fx"
    then have "c \<in> K" "c \<notin> set ys" using DK ds by auto
    from opt_flush_claim_ok [OF ord claims regE B(1) this closed inv]
    show "\<exists>s'. opt_flush_claim order c fx = Inr s' \<and> ?P (ys @ [c]) s'" by simp
  qed
  then obtain fx where fx: "fold_res (opt_flush_claim order) ?ds ?fx = Inr fx"
    "opt_flush_inv r K J ?V ?S ?e (ox_stats cx) ?D fx" using ds by auto
  have T: "upd ?S ?V ?D = view_claim_state ?V"
    by (rule ext) (use dirty_rel_claim_state [OF I(3)] in \<open>simp add: upd_def\<close>)
  let ?T = "view_claim_state ?V" and ?B = "of_touched_answers fx" and ?e1 = "of_engine fx"
  from fx(2) have stats1: "flip_stats (of_stats fx) = flip_stats (ox_stats cx)"
    and frame1: "opt_flush_frame ?e ?e1" and cl1: "opt_claims_rel K ?T ?e1"
    and ct1: "opt_counters_rel r J ?T ?e1" and as1: "oe_answer_statuses ?e1 = oe_answer_statuses ?e"
    and BJ: "?B \<subseteq> J" and clean: "\<forall>a \<in> J - ?B. answer_state_for r ?T a = answer_state_for r ?S a"
    by (simp_all add: opt_flush_inv_def T)
  have reg1: "opt_registry_rel r K J ?e1" using regE opt_flush_frame_rel(1) [OF frame1] by simp
  have finB: "finite ?B"
    using BJ opt_registry_relD(2) [OF reg] finite_dom_map_of by (metis finite_subset)
  let ?bs = "order ?e1 ?B"
  have bs: "set ?bs = ?B" "distinct ?bs" using ord finB by (simp_all add: is_iteration_order_def)
  let ?Q = "\<lambda>ys. opt_answers_inv r J ?S ?T ?e1 (of_stats fx) (set ys)"
  have "\<exists>es. fold_res opt_flush_answer ?bs (?e1, of_stats fx) = Inr es \<and> ?Q ?bs es"
  proof (rule fold_res_total_prefix [where P = ?Q])
    have "\<exists>as. ?e1 = ?e1\<lparr>oe_answer_statuses := as\<rparr>" by (intro exI [of _ "oe_answer_statuses ?e1"]) simp
    then show "?Q [] (?e1, of_stats fx)"
      using stE as1 by (simp add: opt_answers_inv_def opt_states_rel_def opt_answers_rel_def)
  next
    fix ys a zs es
    assume split: "?bs = ys @ a # zs" and inv: "?Q ys es"
    then have "a \<in> J" using bs BJ by auto
    from opt_flush_answer_ok [OF reg1 ct1 this inv]
    show "\<exists>s'. opt_flush_answer a es = Inr s' \<and> ?Q (ys @ [a]) s'" by simp
  qed
  then obtain e2 m2 where es: "fold_res opt_flush_answer ?bs (?e1, of_stats fx) = Inr (e2, m2)"
    "opt_answers_inv r J ?S ?T ?e1 (of_stats fx) ?B (e2, m2)" using bs by auto
  from es(2) obtain as where e2: "e2 = ?e1\<lparr>oe_answer_statuses := as\<rparr>"
    and stats2: "flip_stats m2 = flip_stats (of_stats fx)"
    and ans2: "\<And>a. dget (oe_answer_statuses e2) a =
        (if a \<in> J then Some (as_status (answer_state_for r (if a \<in> ?B then ?T else ?S) a)) else None)"
    by (auto simp: opt_answers_inv_def)
  have ans: "opt_answers_rel r J ?T e2"
    unfolding opt_answers_rel_def using ans2 clean by auto
  let ?e' = "e2\<lparr>oe_last_stats := opt_freeze m2 ?D ?B\<rparr>"
  have frame': "opt_flush_frame ?e ?e'" using frame1 by (simp add: e2 opt_flush_frame_def)
  have "opt_finish order cx = Inr ?e'" using fx(1) es(1) by (simp add: opt_finish_def)
  moreover have "base_rel ?e' A L H" using I(1) opt_flush_frame_rel(2) [OF frame'] by simp
  moreover have "opt_registry_rel r K J ?e'" using regE opt_flush_frame_rel(1) [OF frame'] by simp
  moreover have "opt_states_rel r K J ?V ?e'"
    using cl1 ct1 ans by (simp add: e2 opt_states_rel_def opt_claims_rel_def opt_counters_rel_def opt_answers_rel_def)
  moreover have "os_policy_index_candidates (oe_last_stats ?e') = om_policy_index_candidates (ox_stats cx)"
    "os_decision_flips (oe_last_stats ?e') = om_decision_flips (ox_stats cx)"
    using stats1 stats2 by (simp_all add: opt_freeze_def flip_stats_def)
  ultimately show ?thesis by blast
qed

section \<open>Synchronising the registry\<close>

definition opt_engine_at ::
    "repo \<Rightarrow> string set \<Rightarrow> string set \<Rightarrow> (string \<rightharpoonup> semantic_observation) \<Rightarrow> (string \<rightharpoonup> verification_label) \<Rightarrow>
      (string \<Rightarrow> string) \<Rightarrow> opt_engine \<Rightarrow> bool" where
  "opt_engine_at r K J A L H e \<longleftrightarrow>
     base_rel e A L H \<and> opt_registry_rel r K J e \<and> opt_states_rel r K J (view_of A L H) e"

definition opt_sync_inv ::
    "repo \<Rightarrow> string set \<Rightarrow> string set \<Rightarrow> (string \<rightharpoonup> semantic_observation) \<Rightarrow> (string \<rightharpoonup> verification_label) \<Rightarrow>
      (string \<Rightarrow> string) \<Rightarrow> opt_engine \<Rightarrow> opt_engine \<Rightarrow> bool" where
  "opt_sync_inv r K J A L H e0 e \<longleftrightarrow>
     base_rel e A L H \<and> opt_registry_rel r K J e \<and> opt_claims_rel K (view_claim_state (view_of A L H)) e \<and>
     oe_answer_counts e = oe_answer_counts e0 \<and> oe_answer_statuses e = oe_answer_statuses e0"

lemma opt_sync_claim_ok:
  assumes ord: "is_iteration_order order" and c: "c \<in> dom (dget (claims r))"
    and inv: "opt_sync_inv r K J A L H e0 e"
  shows "\<exists>e'. opt_sync_claim order r c (b, e) = Inr (b \<or> c \<notin> K, e') \<and>
     opt_sync_inv r (insert c K) J A L H e0 e'"
proof (cases "c \<in> K")
  case True
  then have "insert c K = K" by auto
  moreover have "dmem c (oe_claims e)"
    using inv True by (auto simp: opt_sync_inv_def opt_registry_rel_def dmem_def)
  ultimately show ?thesis using True inv by (simp add: opt_sync_claim_def)
next
  case False
  let ?V = "view_of A L H"
  from inv have base: "base_rel e A L H" and reg: "opt_registry_rel r K J e"
    and cl: "opt_claims_rel K (view_claim_state ?V) e"
    by (simp_all add: opt_sync_inv_def)
  note B = base_relD [OF base]
  note R = opt_registry_relD [OF reg]
  have fresh: "c \<notin> dom (dget (oe_claims e))" using False R(4) by simp
  then have nomem: "\<not> dmem c (oe_claims e)" by (simp add: dmem_def domIff)
  from c obtain x where x: "dget (claims r) c = Some x" by blast
  have nowit: "witnesses ?V c l = {}" for l
    unfolding witnesses_def using sums_relD(5) [OF B(1)] fresh by fast
  have noact: "claim_part A c = (\<lambda>_. None)"
    using obs_okD(3) [OF B(6)] fresh by (auto simp: claim_part_def fun_eq_iff split: option.split)
  let ?e1 = "e\<lparr>oe_claims := dset c new_aggregate (oe_claims e),
               oe_claim_statuses := dset c UNSUPPORTED (oe_claim_statuses e),
               oe_claim_to_answer := dset c (cl_answer_version_id x) (oe_claim_to_answer e),
               oe_claim_required := dset c (cl_required x) (oe_claim_required e)\<rparr>"
  have new: "agg_rel new_aggregate ?V c" by (rule new_aggregate_rel) (rule nowit)
  have a1: "dget (oe_claims ?e1) c = Some new_aggregate" by simp
  from opt_repair_certificate_ok [OF ord a1 new] obtain ct where
    rep: "opt_repair_certificate order c ?e1 = Inr (?e1\<lparr>oe_certificates := dset c ct (oe_certificates ?e1)\<rparr>)"
    and ct: "cert_for (view_claim_state ?V c) ct" by blast
  let ?e2 = "?e1\<lparr>oe_certificates := dset c ct (oe_certificates ?e1)\<rparr>"
  have "pot_rel new_aggregate A c"
    by (simp add: pot_rel_def noact new_aggregate_def opt_set.stores_new)
  then have "pots_rel ?e2 A" using B(2) by (simp add: pots_rel_def)
  moreover have "sums_rel ?e2 ?V" using sums_relD [OF B(1)] new by (auto simp: sums_rel_def)
  moreover have "entries_rel ?e2 A L H" using B(3-5) by (simp add: entries_rel_def)
  moreover have "obs_ok (dom (dget (oe_claims ?e2))) A" using B(6) by (auto simp: obs_ok_def)
  ultimately have base': "base_rel ?e2 A L H" using B(7) by (simp add: base_rel_def)
  have unsup: "cs_status (view_claim_state ?V c) = UNSUPPORTED"
    by (simp add: view_claim_state_def nowit status_of_flags_def)
  have "opt_claims_rel (insert c K) (view_claim_state ?V) ?e2"
    using cl ct unsup by (auto simp: opt_claims_rel_def)
  moreover have "opt_registry_rel r (insert c K) J ?e2"
    unfolding opt_registry_rel_def
  proof (intro conjI allI)
    show "insert c K \<subseteq> dom (dget (claims r))" using R(1) c by auto
    show "\<forall>a\<in>J. set (claim_ids_of_answer r a) \<subseteq> insert c K" using R(3) by blast
    show "dom (dget (oe_claims ?e2)) = insert c K" using R(4) by auto
  qed (use R x in auto)
  moreover have "opt_sync_claim order r c (b, e) = Inr (True, ?e2)"
    using nomem x rep by (simp add: opt_sync_claim_def claim_of_def)
  ultimately show ?thesis using False inv base' by (simp add: opt_sync_inv_def)
qed

lemma opt_sync_answer_ok:
  assumes a: "a \<in> dom (dget (answers r))" and K: "set (claim_ids_of_answer r a) \<subseteq> K"
    and inv: "opt_sync_inv r K J A L H e0 e"
  shows "\<exists>e'. opt_sync_answer r a (b, e) = Inr (b \<or> a \<notin> J, e') \<and>
     opt_sync_inv r K (insert a J) A L H e0 e'"
proof (cases "a \<in> J")
  case True
  then have "insert a J = J" by auto
  moreover have "dget (oe_answer_to_claims e) a = Some (claim_ids_of_answer r a)"
    using inv True by (simp add: opt_sync_inv_def opt_registry_rel_def)
  ultimately show ?thesis using True inv by (simp add: opt_sync_answer_def)
next
  case False
  from inv have reg: "opt_registry_rel r K J e" by (simp add: opt_sync_inv_def)
  note R = opt_registry_relD [OF reg]
  let ?e = "e\<lparr>oe_answer_to_claims := dset a (claim_ids_of_answer r a) (oe_answer_to_claims e)\<rparr>"
  have "dget (oe_answer_to_claims e) a = None" using R(8) [of a] False by simp
  then have "opt_sync_answer r a (b, e) = Inr (True, ?e)" by (simp add: opt_sync_answer_def)
  moreover have "opt_registry_rel r K (insert a J) ?e"
    unfolding opt_registry_rel_def
  proof (intro conjI allI)
    show "insert a J \<subseteq> dom (dget (answers r))" using R(2) a by auto
    show "\<forall>b \<in> insert a J. set (claim_ids_of_answer r b) \<subseteq> K" using R(3) K by blast
  qed (use R in auto)
  moreover have "base_rel ?e A L H"
    using inv by (simp add: opt_sync_inv_def base_rel_def sums_rel_def pots_rel_def entries_rel_def)
  ultimately show ?thesis using inv False by (simp add: opt_sync_inv_def opt_claims_rel_def)
qed

lemma opt_sync_registry_ok:
  assumes ord: "is_iteration_order order" and claims: "claims_inv r"
    and eng: "opt_engine_at r K J A L H e"
  shows "\<exists>e'. opt_sync_registry order r e = Inr e' \<and>
     opt_engine_at r (dom (dget (claims r))) (dom (dget (answers r))) A L H e'"
proof -
  let ?K = "dom (dget (claims r))" and ?J = "dom (dget (answers r))" and ?V = "view_of A L H"
  from eng have inv0: "opt_sync_inv r K J A L H e e" and st: "opt_states_rel r K J ?V e"
    and sub: "K \<subseteq> ?K" "J \<subseteq> ?J"
    by (auto simp: opt_engine_at_def opt_sync_inv_def opt_states_rel_def opt_registry_rel_def)
  have ids: "set (all_claim_ids r) = ?K" "set (all_answer_ids r) = ?J"
    unfolding all_claim_ids_def all_answer_ids_def by (rule set_dkeys)+
  let ?P = "\<lambda>ys ce. fst ce = (\<not> set ys \<subseteq> K) \<and> opt_sync_inv r (K \<union> set ys) J A L H e (snd ce)"
  have "\<exists>ce. fold_res (opt_sync_claim order r) (all_claim_ids r) (False, e) = Inr ce \<and> ?P (all_claim_ids r) ce"
  proof (rule fold_res_total_prefix [where P = ?P])
    show "?P [] (False, e)" using inv0 by simp
  next
    fix ys c zs ce
    assume split: "all_claim_ids r = ys @ c # zs" and inv: "?P ys ce"
    obtain b e1 where ce: "ce = (b, e1)" by (cases ce)
    have "c \<in> ?K" using split ids by auto
    from opt_sync_claim_ok [OF ord this, of "K \<union> set ys" J A L H e e1 b] inv ce obtain e' where
      "opt_sync_claim order r c (b, e1) = Inr (b \<or> c \<notin> K \<union> set ys, e')"
      "opt_sync_inv r (insert c (K \<union> set ys)) J A L H e e'" by auto
    then show "\<exists>s'. opt_sync_claim order r c ce = Inr s' \<and> ?P (ys @ [c]) s'"
      using inv ce by auto
  qed
  then obtain b1 e1 where claims1: "fold_res (opt_sync_claim order r) (all_claim_ids r) (False, e) = Inr (b1, e1)"
    and b1: "b1 \<longleftrightarrow> \<not> ?K \<subseteq> K" and inv1: "opt_sync_inv r ?K J A L H e e1"
    using ids sub by (auto simp: Un_absorb1)
  let ?Q = "\<lambda>ys ce. fst ce = (b1 \<or> \<not> set ys \<subseteq> J) \<and> opt_sync_inv r ?K (J \<union> set ys) A L H e (snd ce)"
  have "\<exists>ce. fold_res (opt_sync_answer r) (all_answer_ids r) (b1, e1) = Inr ce \<and> ?Q (all_answer_ids r) ce"
  proof (rule fold_res_total_prefix [where P = ?Q])
    show "?Q [] (b1, e1)" using inv1 by simp
  next
    fix ys a zs ce
    assume split: "all_answer_ids r = ys @ a # zs" and inv: "?Q ys ce"
    obtain b e2 where ce: "ce = (b, e2)" by (cases ce)
    have "a \<in> ?J" using split ids by auto
    from opt_sync_answer_ok [OF this claim_answers_registered(2) [OF claims], of "J \<union> set ys" A L H e e2 b] inv ce
    obtain e' where "opt_sync_answer r a (b, e2) = Inr (b \<or> a \<notin> J \<union> set ys, e')"
      "opt_sync_inv r ?K (insert a (J \<union> set ys)) A L H e e'" by auto
    then show "\<exists>s'. opt_sync_answer r a ce = Inr s' \<and> ?Q (ys @ [a]) s'"
      using inv ce by auto
  qed
  then obtain b2 e2 where answers2: "fold_res (opt_sync_answer r) (all_answer_ids r) (b1, e1) = Inr (b2, e2)"
    and b2: "b2 \<longleftrightarrow> b1 \<or> \<not> ?J \<subseteq> J" and inv2: "opt_sync_inv r ?K ?J A L H e e2"
    using ids sub by (auto simp: Un_absorb1)
  from inv2 have base2: "base_rel e2 A L H" and reg2: "opt_registry_rel r ?K ?J e2"
    and cl2: "opt_claims_rel ?K (view_claim_state ?V) e2"
    and same2: "oe_answer_counts e2 = oe_answer_counts e" "oe_answer_statuses e2 = oe_answer_statuses e"
    by (simp_all add: opt_sync_inv_def)
  show ?thesis
  proof (cases b2)
    case True
    from opt_rebuild_ok [OF reg2 cl2] obtain cs as where
      rb: "opt_rebuild_answer_counts e2 = Inr (e2\<lparr>oe_answer_counts := cs, oe_answer_statuses := as\<rparr>)"
      and rel: "\<And>e'. oe_answer_counts e' = cs \<Longrightarrow> oe_answer_statuses e' = as \<Longrightarrow>
        opt_counters_rel r ?J (view_claim_state ?V) e' \<and> opt_answers_rel r ?J (view_claim_state ?V) e'"
      by blast
    let ?e = "e2\<lparr>oe_answer_counts := cs, oe_answer_statuses := as\<rparr>"
    have "opt_sync_registry order r e = Inr ?e"
      using claims1 answers2 True rb by (simp add: opt_sync_registry_def)
    moreover have "opt_engine_at r ?K ?J A L H ?e"
      using base2 reg2 cl2 rel [of ?e]
      by (simp add: opt_engine_at_def base_rel_def sums_rel_def pots_rel_def entries_rel_def
          opt_registry_rel_def opt_states_rel_def opt_claims_rel_def)
    ultimately show ?thesis by blast
  next
    case False
    then have "J = ?J" using b2 sub by auto
    then have "opt_counters_rel r ?J (view_claim_state ?V) e2" "opt_answers_rel r ?J (view_claim_state ?V) e2"
      using st same2 by (simp_all add: opt_states_rel_def opt_counters_rel_def opt_answers_rel_def)
    then have "opt_engine_at r ?K ?J A L H e2"
      using base2 reg2 cl2 by (simp add: opt_engine_at_def opt_states_rel_def)
    moreover have "opt_sync_registry order r e = Inr e2"
      using claims1 answers2 False by (simp add: opt_sync_registry_def)
    ultimately show ?thesis by blast
  qed
qed

section \<open>Committed events\<close>

definition opt_engine_for :: "repo \<Rightarrow> decision_policy \<Rightarrow> string set \<Rightarrow> string set \<Rightarrow> opt_engine \<Rightarrow> bool" where
  "opt_engine_for r p K J e \<longleftrightarrow>
     opt_engine_at r K J (active_observation r) (labels_of p (active_observation r)) (chunk_text_hash r) e"

lemma opt_engine_at_cong:
  assumes "claims r' = claims r" and "answers r' = answers r" and "claims_by_answer r' = claims_by_answer r"
  shows "opt_engine_at r' K J A L H e = opt_engine_at r K J A L H e"
  by (simp add: opt_engine_at_def opt_registry_rel_def opt_states_rel_def opt_counters_rel_def
      opt_answers_rel_def answer_state_for_def required_claim_ids_def claim_ids_of_answer_def assms)

lemma opt_apply_committed_event_ok:
  assumes ord: "is_iteration_order order" and inv: "repo_inv r" and pol: "policy_for r p"
    and eng: "opt_engine_for r p K J e"
    and ok: "apply_event sha dig r ev = Inr (ds, r')" and new: "recorded_event r (event_id ev) = None"
    and first: "is_policy_event ev \<Longrightarrow> current_policy r = Inr p"
    and tie: "dp_tie_rule_version p = ''v1''" "dp_tie_rule_version (next_policy ev p) = ''v1''"
  shows "\<exists>e'. opt_apply_committed_event order ev r r' e = Inr e' \<and>
     policy_for r' (next_policy ev p) \<and>
     opt_engine_for r' (next_policy ev p) (dom (dget (claims r'))) (dom (dget (answers r'))) e' \<and>
     (is_policy_event ev \<longrightarrow>
        os_policy_index_candidates (oe_last_stats e') =
          card (flips_between p (next_policy ev p) (active_observation r)) \<and>
        os_decision_flips (oe_last_stats e') =
          card (flips_between p (next_policy ev p) (active_observation r)))"
proof -
  let ?n = "Suc (current_epoch r)" and ?q = "next_policy ev p"
  let ?K = "dom (dget (claims r))" and ?J = "dom (dget (answers r))"
  from ok new obtain r1 where
    mut: "mutate sha (r\<lparr>current_epoch := ?n\<rparr>) ev ?n = Inr r1"
    and r': "r' = record_event r1 (event_id ev) (dig ev) ds"
    by (rule apply_event_fresh)
  have claims: "claims_inv r" using inv by (simp add: repo_inv_def)
  have inv': "repo_inv r'" by (rule apply_event_inv [OF inv ok])
  then have claims': "claims_inv r'" by (simp add: repo_inv_def)
  have same: "claims r' = claims r" "answers r' = answers r" "claims_by_answer r' = claims_by_answer r"
    using mutate_registry [OF mut] by (simp_all add: r' record_event_def)
  let ?A = "active_observation r" and ?L = "labels_of p (active_observation r)" and ?H = "chunk_text_hash r"
  let ?V0 = "view_of ?A ?L ?H"
  have eng': "opt_engine_at r' K J ?A ?L ?H e"
    using eng unfolding opt_engine_for_def opt_engine_at_cong [OF same] .
  from opt_sync_registry_ok [OF ord claims' eng'] obtain e1 where
    sync: "opt_sync_registry order r' e = Inr e1" and e1: "opt_engine_at r ?K ?J ?A ?L ?H e1"
    unfolding opt_engine_at_cong [OF same] by (auto simp: same)
  let ?cx = "\<lparr>ox_engine = e1, ox_touched_claims = {}, ox_stats = opt_new_stats\<rparr>"
  have ctx: "opt_ctx_inv e1 ?V0 ?A ?L ?H ?cx"
    using e1 by (simp add: opt_ctx_inv_def opt_engine_at_def opt_frame_refl dirty_rel_refl)
  have domK: "dom (dget (oe_claims e1)) = ?K"
    using e1 by (simp add: opt_engine_at_def opt_registry_rel_def)
  have after: "chunk_validity r' = chunk_validity r1" "chunk_versions r' = chunk_versions r1"
    "current_policy r' = current_policy r1"
    by (simp_all add: r') (simp_all add: record_event_def)
  from opt_maintain_ok [OF inv mut after pol first tie domK ctx] obtain cx' where
    base: "opt_maintain ev r r' ?cx = Inr cx'"
    and ctx': "opt_ctx_inv e1 ?V0 (active_observation r1) (labels_of ?q (active_observation r1)) (chunk_text_hash r1) cx'"
    and flips: "is_policy_event ev \<longrightarrow>
        om_decision_flips (ox_stats cx') = card (flips_between p ?q ?A) \<and>
        om_policy_index_candidates (ox_stats cx') = card (flips_between p ?q ?A)"
    by (auto simp: opt_new_stats_def)
  have closed: "answers_known r ?K ?J"
    using claim_answers_registered(1) [OF claims] by (simp add: answers_known_def)
  have regs: "opt_registry_rel r ?K ?J e1" "opt_states_rel r ?K ?J ?V0 e1"
    using e1 by (simp_all add: opt_engine_at_def)
  from opt_finish_ok [OF ord claims regs(1) closed regs(2) ctx'] obtain e' where
    fin: "opt_finish order cx' = Inr e'"
    and e': "opt_engine_at r ?K ?J (active_observation r1) (labels_of ?q (active_observation r1)) (chunk_text_hash r1) e'"
    and stats: "os_policy_index_candidates (oe_last_stats e') = om_policy_index_candidates (ox_stats cx')"
      "os_decision_flips (oe_last_stats e') = om_decision_flips (ox_stats cx')"
    by (auto simp: opt_engine_at_def)
  have act1: "active_observation r' = active_observation r1"
    unfolding r' by (rule active_observation_cong) (simp_all add: record_event_def)
  have hash1: "chunk_text_hash r' = chunk_text_hash r1"
    by (rule ext) (simp add: r' chunk_text_hash_def record_event_def)
  have "opt_engine_for r' ?q (dom (dget (claims r'))) (dom (dget (answers r'))) e'"
    unfolding opt_engine_for_def act1 hash1 opt_engine_at_cong [OF same] using e' by (simp add: same)
  moreover have "policy_for r' ?q"
    using policy_for_next [OF mut pol] by (simp add: policy_for_def r' same) (simp add: record_event_def)
  moreover have "opt_apply_committed_event order ev r r' e = Inr e'"
    using new sync base fin by (simp add: opt_apply_committed_event_def)
  ultimately show ?thesis using flips stats by auto
qed

end
