(* ===== verification/GL_OptAgree.thy ===== *)
theory GL_OptAgree
  imports GL_OptProofs
begin

text \<open>
  The materialised states of the optimised engine are the oracle's, its \<open>validate\<close> succeeds, and
  construction from a repository establishes the engine relation.
\<close>

section \<open>Best scores\<close>

text \<open>
  The engine reports as best score the maximum over all potential supporters, whatever the
  threshold is; when there is a supporter at all, that maximum is reached by one.
\<close>

lemma witnesses_view_of:
  assumes "l \<noteq> NEUTRAL"
  shows "witnesses (view_of A (labels_of p A) H) c l =
     {i. \<exists>ob. A i = Some ob \<and> ob_subject_id ob = c \<and> decide ob p = l}"
proof (rule set_eqI)
  fix i
  show "i \<in> witnesses (view_of A (labels_of p A) H) c l \<longleftrightarrow>
      i \<in> {i. \<exists>ob. A i = Some ob \<and> ob_subject_id ob = c \<and> decide ob p = l}"
    using assms by (cases "A i") (auto simp: witnesses_mem view_of_def labels_of_def)
qed

lemma witness_score_view_of:
  assumes "A i = Some ob" and "decide ob p = l" and "l \<noteq> NEUTRAL"
  shows "witness_score (view_of A (labels_of p A) H) i =
     (if l = SUPPORT then ob_support_score ob else ob_refute_score ob)"
  using assms by (simp add: witness_score_def view_of_def labels_of_def make_contribution_def)

lemma best_score_potential:
  assumes st: "opt_set.stores t (potential_keys part (claim_part A c))"
    and side: "(l = SUPPORT \<and> part = PP_SUPPORT) \<or> (l = REFUTE \<and> part = PP_REFUTE)"
    and some: "witnesses (view_of A (labels_of p A) H) c l \<noteq> {}"
  shows "opt_maximum_score t = best_score (view_of A (labels_of p A) H) c l"
proof -
  let ?V = "view_of A (labels_of p A) H"
  let ?W = "witness_score ?V ` witnesses ?V c l"
  let ?X = "potential_keys part (claim_part A c)"
  have l: "l \<noteq> NEUTRAL" using side by auto
  note W = witness_score_view_of [where A = A and H = H and p = p]
  have inv: "opt_inv t" "opt_elems t = ?X" using st by (simp_all add: opt_set.stores_def)
  have fin: "finite (fst ` ?X)" using opt_set.finite [OF inv(1)] inv(2) by simp
  have score: "potential_score part ob = (if l = SUPPORT then ob_support_score ob else ob_refute_score ob)" for ob
    using side by (auto simp: potential_score_def)
  have part: "potential_partition_of ob = part" if "decide ob p = l" for ob
    using side that decide_partition [of ob p] by auto
  have sub: "?W \<subseteq> fst ` ?X"
  proof
    fix w assume "w \<in> ?W"
    then obtain i ob where i: "w = witness_score ?V i" "A i = Some ob" "ob_subject_id ob = c" "decide ob p = l"
      unfolding witnesses_view_of [OF l] by auto
    then have "w = potential_score part ob" using W [OF i(2,4) l] score by simp
    moreover have "claim_part A c i = Some ob" using i(2,3) by (simp add: claim_part_def)
    ultimately have "(w, i) \<in> ?X" using part [OF i(4)] by (auto simp: potential_keys_mem)
    then show "w \<in> fst ` ?X" by force
  qed
  obtain w0 where w0: "w0 \<in> ?W" using some by auto
  have max: "Max (fst ` ?X) \<in> ?W"
  proof -
    have ne: "fst ` ?X \<noteq> {}" using sub w0 by auto
    from Max_in [OF fin ne] obtain j where "(Max (fst ` ?X), j) \<in> ?X" by auto
    then obtain ob where ob: "claim_part A c j = Some ob" "potential_partition_of ob = part"
      "Max (fst ` ?X) = potential_score part ob" by (auto simp: potential_keys_mem)
    then have A: "A j = Some ob" "ob_subject_id ob = c"
      by (auto simp: claim_part_def split: option.splits if_splits)
    have ge: "w0 \<le> potential_score part ob"
      unfolding ob(3) [symmetric] using sub w0 by (intro Max_ge [OF fin]) auto
    from w0 obtain i ob0 where i: "w0 = witness_score ?V i" "A i = Some ob0" "decide ob0 p = l"
      unfolding witnesses_view_of [OF l] by auto
    have w0s: "w0 = potential_score part ob0" using W [OF i(2,3) l] i(1) score by simp
    have "decide ob p = l"
      using side i(3) part [OF i(3)] ob(2) ge w0s
      by (auto simp: decide_of_partition potential_score_def split: if_splits)
    then have "j \<in> witnesses ?V c l" and "witness_score ?V j = Max (fst ` ?X)"
      using A W [OF A(1) _ l] score ob(3) by (auto simp: witnesses_view_of [OF l])
    then show ?thesis by force
  qed
  have "Max ?W = Max (fst ` ?X)"
  proof (rule Max_eqI [OF finite_subset [OF sub fin] _ max])
    fix y assume "y \<in> ?W"
    then have "y \<in> fst ` ?X" using sub by (rule subsetD [rotated])
    then show "y \<le> Max (fst ` ?X)" by (rule Max_ge [OF fin])
  qed
  moreover have "opt_elems t \<noteq> {}" using sub w0 unfolding inv(2) by auto
  ultimately show ?thesis
    using some opt_maximum_score [OF inv(1)] unfolding inv(2) by (simp add: best_score_def)
qed

section \<open>Materialised states\<close>

lemma opt_materialize_claim_ok:
  assumes eng: "opt_engine_at r K J A (labels_of p A) H e" and c: "c \<in> K"
  shows "opt_materialize_claim e c = Inr (view_claim_state (view_of A (labels_of p A) H) c)"
proof -
  let ?V = "view_of A (labels_of p A) H"
  from eng have base: "base_rel e A (labels_of p A) H" and reg: "opt_registry_rel r K J e"
    and cl: "opt_claims_rel K (view_claim_state ?V) e"
    by (simp_all add: opt_engine_at_def opt_states_rel_def)
  note B = base_relD [OF base]
  from opt_registry_relD(4) [OF reg] c obtain a where a: "dget (oe_claims e) c = Some a" by blast
  have agg: "agg_rel a ?V c" by (rule sums_relD(2) [OF B(1) a])
  note s = agg_rel_sides [OF agg]
  have pot: "opt_set.stores (ag_support_potential_scores a) (potential_keys PP_SUPPORT (claim_part A c))"
    "opt_set.stores (ag_refute_potential_scores a) (potential_keys PP_REFUTE (claim_part A c))"
    using B(2) a by (auto simp: pots_rel_def pot_rel_def)
  have S: "(if witnesses ?V c SUPPORT \<noteq> {} then opt_maximum_score (ag_support_potential_scores a) else None) =
      best_score ?V c SUPPORT"
    using best_score_potential [OF pot(1), of SUPPORT p H] by (auto simp: best_score_def)
  have R: "(if witnesses ?V c REFUTE \<noteq> {} then opt_maximum_score (ag_refute_potential_scores a) else None) =
      best_score ?V c REFUTE"
    using best_score_potential [OF pot(2), of REFUTE p H] by (auto simp: best_score_def)
  have st: "dget (oe_claim_statuses e) c = Some (cs_status (view_claim_state ?V c))"
    using cl c by (simp add: opt_claims_rel_def)
  show ?thesis
    unfolding opt_materialize_claim_def lookup_Some [OF a] lookup_Some [OF st] bind_res_simps s(1-4) S R
    by (simp add: view_claim_state_def)
qed

lemma opt_materialize_answer_ok:
  assumes eng: "opt_engine_at r K J A L H e" and a: "a \<in> J"
  shows "opt_materialize_answer e a = Inr (answer_state_for r (view_claim_state (view_of A L H)) a)"
proof -
  let ?S = "view_claim_state (view_of A L H)"
  from eng have reg: "opt_registry_rel r K J e" and ct: "opt_counters_rel r J ?S e"
    and ans: "opt_answers_rel r J ?S e"
    by (simp_all add: opt_engine_at_def opt_states_rel_def)
  from ct a obtain counts where counts: "dget (oe_answer_counts e) a = Some counts"
    "counter_rel counts (map (\<lambda>c. cs_status (?S c)) (required_claim_ids r a))"
    by (auto simp: opt_counters_rel_def)
  have "dget (oe_answer_statuses e) a = Some (as_status (answer_state_for r ?S a))"
    using ans a by (simp add: opt_answers_rel_def)
  then show ?thesis
    using counts opt_required_count_ok [OF reg a]
    by (simp add: opt_materialize_answer_def answer_state_for_def view_answer_state_def counter_rel_def)
qed

lemma opt_validate_ok:
  assumes eng: "opt_engine_at r K J A L H e"
  shows "opt_engine_validate e = Inr ()"
proof -
  let ?V = "view_of A L H"
  from eng have base: "base_rel e A L H" and reg: "opt_registry_rel r K J e"
    and cl: "opt_claims_rel K (view_claim_state ?V) e"
    by (simp_all add: opt_engine_at_def opt_states_rel_def)
  note B = base_relD [OF base]
  have "opt_check_claim e x u = Inr ()" if x: "x \<in> set (oe_claims e)" for x u
  proof -
    obtain c a where xc: "x = (c, a)" by (cases x)
    have a: "dget (oe_claims e) c = Some a"
      using x xc sums_relD(1) [OF B(1)] by (simp add: dget_in_set)
    then have c: "c \<in> K" using opt_registry_relD(4) [OF reg] by auto
    have agg: "agg_rel a ?V c" by (rule sums_relD(2) [OF B(1) a])
    note s = agg_rel_sides [OF agg]
    have "opt_inv (ag_support_potential_scores a)" "opt_inv (ag_refute_potential_scores a)"
      using B(2) a by (auto simp: pots_rel_def pot_rel_def opt_set.stores_def)
    then have val: "opt_validate (ag_support_potential_scores a) = Inr ()"
      "opt_validate (ag_refute_potential_scores a) = Inr ()"
      by (simp_all only: opt_validate_iff)
    from cl c obtain ct where ct: "dget (oe_certificates e) c = Some ct" "cert_for (view_claim_state ?V c) ct"
      by (auto simp: opt_claims_rel_def)
    have "set (sorted_list_of_set (witnesses ?V c SUPPORT)) = witnesses ?V c SUPPORT"
      "set (sorted_list_of_set (witnesses ?V c REFUTE)) = witnesses ?V c REFUTE"
      using s(5,6) by simp_all
    then have wit: "witness_valid (ag_support_ids a) (oc_support_observation_id ct)"
      "witness_valid (ag_refute_ids a) (oc_refute_observation_id ct)"
      using ct(2) s(1,2) by (simp_all add: cert_for_def view_claim_state_def)
    have st: "dget (oe_claim_statuses e) c = Some (opt_claim_status a)"
      using cl c opt_claim_status_view [OF agg] by (simp add: opt_claims_rel_def)
    show ?thesis using val st ct(1) wit by (simp add: opt_check_claim_def xc)
  qed
  then have "fold_res (opt_check_claim e) xs () = Inr ()" if "set xs \<subseteq> set (oe_claims e)" for xs
    using that by (induction xs) auto
  then show ?thesis
    using flip_validate_ok(1) [OF B(5)] by (simp add: opt_engine_validate_def)
qed

lemma traverse_tabulate:
  assumes "\<And>k. k \<in> set ks \<Longrightarrow> f k = Inr (g k)"
  shows "traverse (\<lambda>k. bind_res (f k) (\<lambda>x. Inr (k, x))) ks = Inr (map (\<lambda>k. (k, g k)) ks)"
  by (rule traverse_Inr_map) (simp add: assms)

lemma opt_engine_agrees:
  assumes inv: "repo_inv r" and pol: "policy_for r p"
    and eng: "opt_engine_for r p (dom (dget (claims r))) (dom (dget (answers r))) e"
  shows "\<exists>ocs oas cs as. opt_claim_states e = Inr ocs \<and> opt_answer_states e = Inr oas \<and>
     compute_all_states r = Inr (cs, as) \<and> dict_eq ocs cs \<and> dict_eq oas as \<and>
     opt_engine_validate e = Inr ()"
proof -
  let ?K = "dom (dget (claims r))" and ?J = "dom (dget (answers r))" and ?A = "active_observation r"
  let ?V = "view_of ?A (labels_of p ?A) (chunk_text_hash r)"
  have obs: "observations_inv r" using inv by (simp add: repo_inv_def)
  have V: "repo_view r p = ?V" by (rule repo_view_view_of [OF obs])
  have at: "opt_engine_at r ?K ?J ?A (labels_of p ?A) (chunk_text_hash r) e"
    using eng by (simp add: opt_engine_for_def)
  then have reg: "opt_registry_rel r ?K ?J e" by (simp add: opt_engine_at_def)
  note R = opt_registry_relD [OF reg]
  have keysC: "set (dkeys (oe_claims e)) = ?K" unfolding set_dkeys by (rule R(4))
  have keysA: "set (dkeys (oe_answer_to_claims e)) = ?J"
    unfolding set_dkeys by (rule set_eqI) (simp add: domIff R(8))
  let ?ocs = "map (\<lambda>c. (c, view_claim_state ?V c)) (dkeys (oe_claims e))"
  let ?oas = "map (\<lambda>a. (a, answer_state_for r (view_claim_state ?V) a)) (dkeys (oe_answer_to_claims e))"
  let ?cs = "map (\<lambda>c. (c, spec_claim_state r p c)) (all_claim_ids r)"
  let ?as = "map (\<lambda>a. (a, spec_answer_state r p a)) (all_answer_ids r)"
  have ids: "set (all_claim_ids r) = ?K" "set (all_answer_ids r) = ?J"
    unfolding all_claim_ids_def all_answer_ids_def by (rule set_dkeys)+
  have "opt_claim_states e = Inr ?ocs"
    unfolding opt_claim_states_def
    by (rule traverse_tabulate) (use opt_materialize_claim_ok [OF at] keysC in blast)
  moreover have "opt_answer_states e = Inr ?oas"
    unfolding opt_answer_states_def
    by (rule traverse_tabulate) (use opt_materialize_answer_ok [OF at] keysA in blast)
  moreover have "dget ?ocs c = dget ?cs c" for c
    unfolding dget_tabulate keysC ids by (simp add: spec_claim_state_def V)
  then have "dict_eq ?ocs ?cs" by (simp add: dict_eq_def)
  moreover have "dget ?oas a = dget ?as a" for a
    unfolding dget_tabulate keysA ids
    by (simp add: answer_state_for_def spec_answer_state_def spec_claim_state_def V)
  then have "dict_eq ?oas ?as" by (simp add: dict_eq_def)
  ultimately show ?thesis
    using opt_validate_ok [OF at] compute_all_states_policy_for [OF inv pol] by blast
qed

section \<open>Construction from a repository\<close>

lemma opt_new_engine_at:
  "opt_engine_at r {} {} (\<lambda>_. None) (\<lambda>_. None) H opt_new_engine"
proof -
  have "view_of (\<lambda>_. None) (\<lambda>_. None) H = (\<lambda>_. None)" by (rule ext) (simp add: view_of_def)
  then show ?thesis
    by (simp add: opt_engine_at_def opt_new_engine_def base_rel_def sums_rel_def pots_rel_def entries_rel_def
        obs_ok_def flip_new_stores opt_registry_rel_def opt_states_rel_def opt_claims_rel_def
        opt_counters_rel_def opt_answers_rel_def)
qed

lemma opt_activate_current_ok:
  assumes obs: "observations_inv r" and pol: "policy_for r p"
    and ob: "dget (observations r) (ob_observation_id ob) = Some ob" "is_current r ob" "ob \<notin> set ys"
    and dom: "dom (dget (oe_claims e0)) = dom (dget (claims r))"
    and inv: "opt_ctx_inv e0 V0 (active_among r ys) (labels_of p (active_among r ys)) (chunk_text_hash r) cx"
  shows "\<exists>cx'. opt_activate_current r ob cx = Inr cx' \<and>
     opt_ctx_inv e0 V0 (active_among r (ys @ [ob])) (labels_of p (active_among r (ys @ [ob])))
       (chunk_text_hash r) cx'"
proof -
  let ?i = "ob_observation_id ob" and ?A = "active_among r ys"
  show ?thesis
  proof (cases "is_chunk_active r (ob_chunk_version_id ob)")
    case False
    have "active_among r (ys @ [ob]) = ?A"
    proof (rule ext, rule option_ext)
      fix j x
      show "active_among r (ys @ [ob]) j = Some x \<longleftrightarrow> ?A j = Some x"
        using False by (auto simp: active_among_Some active_observation_Some)
    qed
    then show ?thesis using False inv by (simp add: opt_activate_current_def)
  next
    case True
    have A': "active_among r (ys @ [ob]) = ?A(?i \<mapsto> ob)"
    proof (rule ext, rule option_ext)
      fix j x
      show "active_among r (ys @ [ob]) j = Some x \<longleftrightarrow> (?A(?i \<mapsto> ob)) j = Some x"
        using True ob observations_invD(1) [OF obs, of j x]
        by (auto simp: active_among_Some active_observation_Some)
    qed
    have fresh: "?A ?i = None"
      using ob by (auto simp: active_among_def active_observation_def)
    have claim: "ob_subject_kind ob = CLAIM" "ob_subject_id ob \<in> dom (dget (claims r))"
      and "ob_chunk_version_id ob \<in> dom (dget (chunk_versions r))"
      using observations_invD(2-4) [OF obs ob(1)] by simp_all
    then obtain cv where cv: "dget (chunk_versions r) (ob_chunk_version_id ob) = Some cv" by blast
    have h: "cv_text_hash cv = chunk_text_hash r (ob_chunk_version_id ob)"
      using cv by (simp add: chunk_text_hash_def)
    have p: "current_policy r = Inr p" using pol claim(2) by (auto simp: policy_for_def)
    from opt_activate_ok [OF inv fresh claim(1) _ cv h p] claim(2) dom show ?thesis
      using True by (auto simp: A' opt_activate_current_def)
  qed
qed

lemma opt_from_repository_ok:
  assumes ord: "is_iteration_order order" and inv: "repo_inv r" and pol: "policy_for r p"
  shows "\<exists>e. opt_from_repository order r = Inr e \<and>
     opt_engine_for r p (dom (dget (claims r))) (dom (dget (answers r))) e"
proof -
  let ?K = "dom (dget (claims r))" and ?J = "dom (dget (answers r))" and ?H = "chunk_text_hash r"
  have obs: "observations_inv r" and claims: "claims_inv r" and dicts: "dicts_inv r"
    using inv by (simp_all add: repo_inv_def)
  then have keys: "dict_ok (current_by_key r)" by (simp add: dicts_inv_def)
  have none: "labels_of p (\<lambda>_. None) = (\<lambda>_. None)" by (rule ext) (simp add: labels_of_def)
  from opt_sync_registry_ok [OF ord claims opt_new_engine_at] obtain e0 where
    sync: "opt_sync_registry order r opt_new_engine = Inr e0"
    and e0: "opt_engine_at r ?K ?J (\<lambda>_. None) (\<lambda>_. None) ?H e0" by blast
  obtain os where os: "current_observations r = Inr os"
    "set os = {ob. dget (observations r) (ob_observation_id ob) = Some ob \<and> is_current r ob}"
    "distinct (map ob_observation_id os)"
    by (rule current_observations_Inr [OF obs keys])
  let ?N = "view_of (\<lambda>_. None) (\<lambda>_. None) ?H"
  let ?P = "\<lambda>ys. opt_ctx_inv e0 ?N (active_among r ys) (labels_of p (active_among r ys)) ?H"
  let ?cx = "\<lparr>ox_engine = e0, ox_touched_claims = {}, ox_stats = opt_new_stats\<rparr>"
  have dom: "dom (dget (oe_claims e0)) = ?K" using e0 by (simp add: opt_engine_at_def opt_registry_rel_def)
  have "\<exists>cx. fold_res (opt_activate_current r) os ?cx = Inr cx \<and> ?P os cx"
  proof (rule fold_res_total_prefix [where P = ?P])
    have "active_among r [] = (\<lambda>_. None)" by (rule ext) (simp add: active_among_def split: option.split)
    then show "?P [] ?cx"
      using e0 by (simp add: none opt_ctx_inv_def opt_engine_at_def opt_frame_refl dirty_rel_refl)
  next
    fix ys ob zs cx
    assume split: "os = ys @ ob # zs" and P: "?P ys cx"
    have "ob \<in> set os" "ob \<notin> set ys" using split os(3) by auto
    then have ob: "dget (observations r) (ob_observation_id ob) = Some ob" "is_current r ob" "ob \<notin> set ys"
      using os(2) by auto
    from opt_activate_current_ok [OF obs pol ob dom P]
    show "\<exists>s'. opt_activate_current r ob cx = Inr s' \<and> ?P (ys @ [ob]) s'" .
  qed
  then obtain cx where cx: "fold_res (opt_activate_current r) os ?cx = Inr cx" "?P os cx" by blast
  have A1: "active_among r os = active_observation r"
  proof (rule ext, rule option_ext)
    fix i x
    show "active_among r os i = Some x \<longleftrightarrow> active_observation r i = Some x"
      using os(2) observations_invD(1) [OF obs, of i x]
      by (auto simp: active_among_Some active_observation_Some)
  qed
  let ?A = "active_observation r" and ?L = "labels_of p (active_observation r)" and ?e1 = "ox_engine cx"
  let ?V = "view_of ?A ?L ?H"
  from cx(2) have base1: "base_rel ?e1 ?A ?L ?H" and frame1: "opt_frame e0 ?e1"
    by (simp_all add: A1 opt_ctx_inv_def)
  note B1 = base_relD [OF base1]
  have reg1: "opt_registry_rel r ?K ?J ?e1" and st1: "opt_states_rel r ?K ?J ?N ?e1"
    using e0 opt_frame_rel [OF frame1 sums_relD(1) [OF B1(1)]] by (simp_all add: opt_engine_at_def)
  let ?S = "view_claim_state ?N"
  let ?Q = "\<lambda>ys e. opt_flush_frame ?e1 e \<and> opt_claims_rel ?K (upd ?S ?V (set ys)) e"
  let ?cs = "dkeys (oe_claims ?e1)"
  have cs: "set ?cs = ?K" unfolding set_dkeys by (rule opt_registry_relD(4) [OF reg1])
  have "\<exists>e. fold_res (opt_refresh_claim order) ?cs ?e1 = Inr e \<and> ?Q ?cs e"
  proof (rule fold_res_total_prefix [where P = ?Q])
    have "upd ?S ?V {} = ?S" by (rule ext) (simp add: upd_def)
    then show "?Q [] ?e1" using st1 by (simp add: opt_flush_frame_def opt_states_rel_def)
  next
    fix ys c zs e
    assume split: "?cs = ys @ c # zs" and Q: "?Q ys e"
    then have frame: "opt_flush_frame ?e1 e" and cl: "opt_claims_rel ?K (upd ?S ?V (set ys)) e"
      by simp_all
    have cK: "c \<in> ?K" using split cs by auto
    have "sums_rel e ?V" using B1(1) opt_flush_frame_rel(3) [OF frame] by simp
    moreover have "c \<in> dom (dget (oe_claims e))"
      using cK opt_registry_relD(4) [OF reg1] opt_flush_frame_fields(1) [OF frame] by simp
    ultimately obtain ct where
      ref: "opt_refresh_claim order c e = Inr (e\<lparr>
         oe_claim_statuses := dset c (cs_status (view_claim_state ?V c)) (oe_claim_statuses e),
         oe_certificates := dset c ct (oe_certificates e)\<rparr>)" and ct: "cert_for (view_claim_state ?V c) ct"
      using opt_refresh_claim_ok [OF ord] by blast
    show "\<exists>s'. opt_refresh_claim order c e = Inr s' \<and> ?Q (ys @ [c]) s'"
      using ref opt_claims_rel_upd [OF cl cK ct] frame by (simp add: opt_flush_frame_def)
  qed
  then obtain e2 where e2: "fold_res (opt_refresh_claim order) ?cs ?e1 = Inr e2" "opt_flush_frame ?e1 e2"
    "opt_claims_rel ?K (upd ?S ?V ?K) e2" using cs by auto
  have cl2: "opt_claims_rel ?K (view_claim_state ?V) e2"
    using e2(3) unfolding opt_claims_rel_def by (simp add: upd_def)
  have reg2: "opt_registry_rel r ?K ?J e2" and base2: "base_rel e2 ?A ?L ?H"
    using reg1 base1 opt_flush_frame_rel(1,2) [OF e2(2)] by simp_all
  from opt_rebuild_ok [OF reg2 cl2] obtain ccs css where
    rb: "opt_rebuild_answer_counts e2 = Inr (e2\<lparr>oe_answer_counts := ccs, oe_answer_statuses := css\<rparr>)"
    and rel: "\<And>e'. oe_answer_counts e' = ccs \<Longrightarrow> oe_answer_statuses e' = css \<Longrightarrow>
        opt_counters_rel r ?J (view_claim_state ?V) e' \<and> opt_answers_rel r ?J (view_claim_state ?V) e'"
    by blast
  let ?e = "e2\<lparr>oe_answer_counts := ccs, oe_answer_statuses := css, oe_last_stats := opt_no_stats\<rparr>"
  have "opt_from_repository order r = Inr ?e"
    using sync os(1) cx(1) e2(1) rb by (simp add: opt_from_repository_def)
  moreover have "opt_engine_for r p ?K ?J ?e"
    using base2 reg2 cl2 rel [of ?e]
    by (simp add: opt_engine_for_def opt_engine_at_def base_rel_def sums_rel_def pots_rel_def entries_rel_def
        opt_registry_rel_def opt_states_rel_def opt_claims_rel_def)
  ultimately show ?thesis by blast
qed

end
