(* ===== verification/GL_Epochs.thy ===== *)
theory GL_Epochs
  imports GL_Domain
begin

text \<open>
  The semantic-epoch coordinator of \<open>groundloop/epochs.py\<close>: a state machine in which a structural
  event opens an epoch, semantic jobs complete it, and sealing publishes it.  An operation returns
  the epoch it returns in the source together with the new coordinator, or the exception it raises.
\<close>

section \<open>State\<close>

datatype semantic_epoch_status = EP_PENDING | EP_COMPLETE | EP_DEGRADED | EP_FAILED | EP_SEALED

datatype publication_mode = STRICT | PROVISIONAL

record semantic_epoch =
  ep_epoch_id :: int
  ep_event_id :: string
  ep_payload_hash :: string
  ep_revision :: int
  ep_semantic_status :: semantic_epoch_status
  ep_evaluation_state :: evaluation_state
  ep_publication_mode :: publication_mode
  ep_required_job_ids :: "string set"
  ep_completed_job_ids :: "string set"

definition pending_job_ids :: "semantic_epoch \<Rightarrow> string set" where
  "pending_job_ids ep = ep_required_job_ids ep - ep_completed_job_ids ep"

record publication_snapshot =
  ps_visible_epoch_id :: "int option"
  ps_evaluation_state :: evaluation_state
  ps_confirmed_as_of_epoch :: "int option"

record epoch_coordinator =
  ec_next_epoch_id :: int
  ec_epochs :: "(int, semantic_epoch) pydict"
  ec_epoch_by_event :: "(string, int) pydict"
  ec_active_epoch_id :: "int option"
  ec_latest_epoch_id :: "int option"
  ec_last_sealed_epoch_id :: "int option"

definition new_coordinator :: epoch_coordinator where
  "new_coordinator =
     \<lparr>ec_next_epoch_id = 1, ec_epochs = [], ec_epoch_by_event = [], ec_active_epoch_id = None,
      ec_latest_epoch_id = None, ec_last_sealed_epoch_id = None\<rparr>"

section \<open>Operations\<close>

definition epoch_of :: "epoch_coordinator \<Rightarrow> int \<Rightarrow> semantic_epoch res" where
  "epoch_of c i = lookup ValidationError (ec_epochs c) i"

definition open_epoch ::
    "epoch_coordinator \<Rightarrow> string \<Rightarrow> string \<Rightarrow> string set \<Rightarrow> publication_mode
      \<Rightarrow> (semantic_epoch \<times> epoch_coordinator) res" where
  "open_epoch c ev payload_hash required_job_ids mode =
     (case dget (ec_epoch_by_event c) ev of
        Some recorded_epoch_id \<Rightarrow>
          bind_res (lookup KeyError (ec_epochs c) recorded_epoch_id) (\<lambda>recorded.
            if ep_payload_hash recorded \<noteq> payload_hash \<or>
               ep_required_job_ids recorded \<noteq> required_job_ids \<or>
               ep_publication_mode recorded \<noteq> mode
            then Inl EventConflictError
            else Inr (recorded, c))
      | None \<Rightarrow>
          if ec_active_epoch_id c \<noteq> None then Inl ValidationError
          else if ev = '''' \<or> payload_hash = '''' then Inl ValidationError
          else
            let i = ec_next_epoch_id c;
                ep = \<lparr>ep_epoch_id = i, ep_event_id = ev, ep_payload_hash = payload_hash,
                      ep_revision = 0,
                      ep_semantic_status = (if required_job_ids \<noteq> {} then EP_PENDING else EP_COMPLETE),
                      ep_evaluation_state = (if required_job_ids \<noteq> {} then EV_PENDING else EV_COMPLETE),
                      ep_publication_mode = mode, ep_required_job_ids = required_job_ids,
                      ep_completed_job_ids = {}\<rparr> in
            Inr (ep, c\<lparr>ec_epochs := dset i ep (ec_epochs c),
                       ec_epoch_by_event := dset ev i (ec_epoch_by_event c),
                       ec_active_epoch_id := Some i, ec_latest_epoch_id := Some i,
                       ec_next_epoch_id := ec_next_epoch_id c + 1\<rparr>))"

definition with_completed :: "semantic_epoch \<Rightarrow> string \<Rightarrow> semantic_epoch" where
  "with_completed ep job =
     (let completed = ep_completed_job_ids ep \<union> {job};
          status = (if completed = ep_required_job_ids ep then EP_COMPLETE else EP_PENDING) in
      ep\<lparr>ep_revision := ep_revision ep + 1, ep_semantic_status := status,
         ep_evaluation_state := (if status = EP_COMPLETE then EV_COMPLETE else EV_PENDING),
         ep_completed_job_ids := completed\<rparr>)"

definition complete_job ::
    "epoch_coordinator \<Rightarrow> int \<Rightarrow> string \<Rightarrow> (semantic_epoch \<times> epoch_coordinator) res" where
  "complete_job c i job =
     bind_res (epoch_of c i) (\<lambda>ep.
       if ep_semantic_status ep \<notin> {EP_PENDING, EP_COMPLETE} then Inl ValidationError
       else if job \<notin> ep_required_job_ids ep then Inl ValidationError
       else if job \<in> ep_completed_job_ids ep then Inr (ep, c)
       else
         let updated = with_completed ep job in
         Inr (updated, c\<lparr>ec_epochs := dset i updated (ec_epochs c)\<rparr>))"

definition mark_degraded :: "epoch_coordinator \<Rightarrow> int \<Rightarrow> (semantic_epoch \<times> epoch_coordinator) res" where
  "mark_degraded c i =
     bind_res (epoch_of c i) (\<lambda>ep.
       if ep_semantic_status ep \<notin> {EP_PENDING, EP_COMPLETE} then Inl ValidationError
       else
         let updated = ep\<lparr>ep_revision := ep_revision ep + 1, ep_semantic_status := EP_DEGRADED,
                          ep_evaluation_state := EV_DEGRADED\<rparr> in
         Inr (updated, c\<lparr>ec_epochs := dset i updated (ec_epochs c)\<rparr>))"

definition mark_failed :: "epoch_coordinator \<Rightarrow> int \<Rightarrow> (semantic_epoch \<times> epoch_coordinator) res" where
  "mark_failed c i =
     bind_res (epoch_of c i) (\<lambda>ep.
       if ep_semantic_status ep = EP_SEALED then Inl ValidationError
       else
         let updated = ep\<lparr>ep_revision := ep_revision ep + 1, ep_semantic_status := EP_FAILED,
                          ep_evaluation_state := EV_FAILED\<rparr> in
         Inr (updated, c\<lparr>ec_epochs := dset i updated (ec_epochs c), ec_active_epoch_id := None\<rparr>))"

definition seal_epoch :: "epoch_coordinator \<Rightarrow> int \<Rightarrow> (semantic_epoch \<times> epoch_coordinator) res" where
  "seal_epoch c i =
     bind_res (epoch_of c i) (\<lambda>ep.
       if ep_semantic_status ep \<notin> {EP_COMPLETE, EP_DEGRADED} then Inl ValidationError
       else
         let updated = ep\<lparr>ep_revision := ep_revision ep + 1, ep_semantic_status := EP_SEALED\<rparr> in
         Inr (updated, c\<lparr>ec_epochs := dset i updated (ec_epochs c), ec_active_epoch_id := None,
                         ec_last_sealed_epoch_id := Some i\<rparr>))"

definition publication_snapshot :: "epoch_coordinator \<Rightarrow> publication_snapshot res" where
  "publication_snapshot c =
     (case ec_latest_epoch_id c of
        None \<Rightarrow>
          Inr \<lparr>ps_visible_epoch_id = None, ps_evaluation_state = EV_PENDING,
               ps_confirmed_as_of_epoch = None\<rparr>
      | Some l \<Rightarrow>
          bind_res (lookup KeyError (ec_epochs c) l) (\<lambda>latest.
            if ep_semantic_status latest = EP_SEALED then
              Inr \<lparr>ps_visible_epoch_id = Some (ep_epoch_id latest),
                   ps_evaluation_state = ep_evaluation_state latest,
                   ps_confirmed_as_of_epoch = Some (ep_epoch_id latest)\<rparr>
            else if ep_publication_mode latest = STRICT then
              Inr \<lparr>ps_visible_epoch_id = ec_last_sealed_epoch_id c,
                   ps_evaluation_state = ep_evaluation_state latest,
                   ps_confirmed_as_of_epoch = ec_last_sealed_epoch_id c\<rparr>
            else
              Inr \<lparr>ps_visible_epoch_id = Some (ep_epoch_id latest),
                   ps_evaluation_state = ep_evaluation_state latest,
                   ps_confirmed_as_of_epoch = ec_last_sealed_epoch_id c\<rparr>))"

section \<open>Reachable coordinators\<close>

definition epoch_open :: "semantic_epoch \<Rightarrow> bool" where
  "epoch_open ep \<longleftrightarrow> ep_semantic_status ep \<in> {EP_PENDING, EP_COMPLETE, EP_DEGRADED}"

text \<open>
  The coordinators that sequences of successful operations reach from \<open>c0\<close> (an operation that raises
  changes nothing); with \<open>once\<close>, a client that marks only open epochs as failed, which the source does
  not check.
\<close>

inductive coordinator_run :: "bool \<Rightarrow> epoch_coordinator \<Rightarrow> epoch_coordinator \<Rightarrow> bool"
  for once :: bool and c0 :: epoch_coordinator where
  run_start: "coordinator_run once c0 c0"
| run_open: "coordinator_run once c0 c \<Longrightarrow> open_epoch c ev h req mode = Inr (ep, c') \<Longrightarrow>
    coordinator_run once c0 c'"
| run_complete: "coordinator_run once c0 c \<Longrightarrow> complete_job c i job = Inr (ep, c') \<Longrightarrow>
    coordinator_run once c0 c'"
| run_degrade: "coordinator_run once c0 c \<Longrightarrow> mark_degraded c i = Inr (ep, c') \<Longrightarrow>
    coordinator_run once c0 c'"
| run_fail: "coordinator_run once c0 c \<Longrightarrow> mark_failed c i = Inr (ep, c') \<Longrightarrow>
    (once \<Longrightarrow> \<exists>x. dget (ec_epochs c) i = Some x \<and> epoch_open x) \<Longrightarrow> coordinator_run once c0 c'"
| run_seal: "coordinator_run once c0 c \<Longrightarrow> seal_epoch c i = Inr (ep, c') \<Longrightarrow>
    coordinator_run once c0 c'"

definition coordinator_reachable :: "bool \<Rightarrow> epoch_coordinator \<Rightarrow> bool" where
  "coordinator_reachable once c \<longleftrightarrow> coordinator_run once new_coordinator c"

section \<open>The invariant\<close>

text \<open>Status, evaluation state and completed jobs of one epoch agree.\<close>

definition epoch_wf :: "semantic_epoch \<Rightarrow> bool" where
  "epoch_wf ep \<longleftrightarrow>
     ep_completed_job_ids ep \<subseteq> ep_required_job_ids ep \<and> 0 \<le> ep_revision ep \<and>
     (case ep_semantic_status ep of
        EP_PENDING \<Rightarrow> ep_evaluation_state ep = EV_PENDING \<and> pending_job_ids ep \<noteq> {}
      | EP_COMPLETE \<Rightarrow> ep_evaluation_state ep = EV_COMPLETE \<and> pending_job_ids ep = {}
      | EP_DEGRADED \<Rightarrow> ep_evaluation_state ep = EV_DEGRADED
      | EP_FAILED \<Rightarrow> ep_evaluation_state ep = EV_FAILED
      | EP_SEALED \<Rightarrow> ep_evaluation_state ep = EV_DEGRADED \<or>
          (ep_evaluation_state ep = EV_COMPLETE \<and> pending_job_ids ep = {}))"

definition epochs_wf :: "epoch_coordinator \<Rightarrow> bool" where
  "epochs_wf c \<longleftrightarrow>
     1 \<le> ec_next_epoch_id c \<and> dom (dget (ec_epochs c)) = {1..<ec_next_epoch_id c} \<and>
     (\<forall>i ep. dget (ec_epochs c) i = Some ep \<longrightarrow>
        ep_epoch_id ep = i \<and> epoch_wf ep \<and> dget (ec_epoch_by_event c) (ep_event_id ep) = Some i) \<and>
     (\<forall>ev i. dget (ec_epoch_by_event c) ev = Some i \<longrightarrow>
        (\<exists>ep. dget (ec_epochs c) i = Some ep \<and> ep_event_id ep = ev)) \<and>
     ec_latest_epoch_id c =
       (if ec_next_epoch_id c = 1 then None else Some (ec_next_epoch_id c - 1)) \<and>
     (\<forall>i. ec_active_epoch_id c = Some i \<longrightarrow>
        (\<exists>ep. dget (ec_epochs c) i = Some ep \<and> epoch_open ep)) \<and>
     (\<forall>i. ec_last_sealed_epoch_id c = Some i \<longrightarrow>
        (\<exists>ep. dget (ec_epochs c) i = Some ep \<and> ep_semantic_status ep = EP_SEALED))"

lemma epochs_wfD:
  assumes "epochs_wf c"
  shows "1 \<le> ec_next_epoch_id c" and "dom (dget (ec_epochs c)) = {1..<ec_next_epoch_id c}"
    and "dget (ec_epochs c) i = Some ep \<Longrightarrow> ep_epoch_id ep = i"
    and "dget (ec_epochs c) i = Some ep \<Longrightarrow> epoch_wf ep"
    and "dget (ec_epochs c) i = Some ep \<Longrightarrow> dget (ec_epoch_by_event c) (ep_event_id ep) = Some i"
    and "dget (ec_epoch_by_event c) ev = Some i \<Longrightarrow>
       \<exists>ep. dget (ec_epochs c) i = Some ep \<and> ep_event_id ep = ev"
    and "ec_latest_epoch_id c =
       (if ec_next_epoch_id c = 1 then None else Some (ec_next_epoch_id c - 1))"
    and "ec_active_epoch_id c = Some i \<Longrightarrow> \<exists>ep. dget (ec_epochs c) i = Some ep \<and> epoch_open ep"
    and "ec_last_sealed_epoch_id c = Some i \<Longrightarrow>
       \<exists>ep. dget (ec_epochs c) i = Some ep \<and> ep_semantic_status ep = EP_SEALED"
  using assms unfolding epochs_wf_def by blast+

lemma new_coordinator_wf: "epochs_wf new_coordinator"
  by (simp add: epochs_wf_def new_coordinator_def)

text \<open>Replacing one epoch by an update that keeps its identity.\<close>

lemma epochs_wf_update:
  assumes wf: "epochs_wf c" and ep: "dget (ec_epochs c) i = Some ep"
    and ep': "ep_epoch_id ep' = ep_epoch_id ep" "ep_event_id ep' = ep_event_id ep" "epoch_wf ep'"
    and sealed: "ep_semantic_status ep = EP_SEALED \<Longrightarrow> ep_semantic_status ep' = EP_SEALED"
    and act: "act = None \<or> (act = ec_active_epoch_id c \<and> (epoch_open ep \<longrightarrow> epoch_open ep'))"
    and lst: "lst = ec_last_sealed_epoch_id c \<or> (lst = Some i \<and> ep_semantic_status ep' = EP_SEALED)"
  shows "epochs_wf (c\<lparr>ec_epochs := dset i ep' (ec_epochs c), ec_active_epoch_id := act,
                     ec_last_sealed_epoch_id := lst\<rparr>)"
proof -
  note W = epochs_wfD [OF wf]
  let ?c = "c\<lparr>ec_epochs := dset i ep' (ec_epochs c), ec_active_epoch_id := act, ec_last_sealed_epoch_id := lst\<rparr>"
  have dom: "dom (dget (ec_epochs ?c)) = {1..<ec_next_epoch_id ?c}" using W(2) ep by auto
  have all: "ep_epoch_id x = j \<and> epoch_wf x \<and> dget (ec_epoch_by_event ?c) (ep_event_id x) = Some j"
    if "dget (ec_epochs ?c) j = Some x" for j x
    using that W(3,4,5) [of j x] W(3,5) [OF ep] ep' by (auto split: if_splits)
  have byev: "\<exists>x. dget (ec_epochs ?c) j = Some x \<and> ep_event_id x = ev"
    if "dget (ec_epoch_by_event ?c) ev = Some j" for ev j
    using W(6) [of ev j] that ep ep'(2) by auto
  have active: "\<exists>x. dget (ec_epochs ?c) j = Some x \<and> epoch_open x" if "ec_active_epoch_id ?c = Some j" for j
    using W(8) [of j] that act ep by auto
  have lasts: "\<exists>x. dget (ec_epochs ?c) j = Some x \<and> ep_semantic_status x = EP_SEALED"
    if "ec_last_sealed_epoch_id ?c = Some j" for j
    using W(9) [of j] that lst ep sealed by auto
  show ?thesis
    unfolding epochs_wf_def using W(1,7) dom all byev active lasts by simp
qed

lemma coordinator_updates [simp]:
  "c\<lparr>ec_epochs := d, ec_active_epoch_id := ec_active_epoch_id c,
     ec_last_sealed_epoch_id := ec_last_sealed_epoch_id c\<rparr> = c\<lparr>ec_epochs := d\<rparr>"
  "c\<lparr>ec_epochs := d, ec_active_epoch_id := None,
     ec_last_sealed_epoch_id := ec_last_sealed_epoch_id c\<rparr> = c\<lparr>ec_epochs := d, ec_active_epoch_id := None\<rparr>"
  by simp_all

lemma open_epoch_cases:
  assumes "epochs_wf c" and "open_epoch c ev h req mode = Inr (ep, c')"
  obtains (replay) i where "c' = c" and "dget (ec_epochs c) i = Some ep" and "ep_event_id ep = ev"
      and "ep_payload_hash ep = h" and "ep_required_job_ids ep = req" and "ep_publication_mode ep = mode"
    | (fresh) i where "i = ec_next_epoch_id c" and "ec_active_epoch_id c = None"
      and "dget (ec_epoch_by_event c) ev = None" and "dget (ec_epochs c) i = None"
      and "ep_epoch_id ep = i" and "ep_event_id ep = ev" and "epoch_wf ep" and "epoch_open ep"
      and "c' = c\<lparr>ec_epochs := dset i ep (ec_epochs c), ec_epoch_by_event := dset ev i (ec_epoch_by_event c),
                 ec_active_epoch_id := Some i, ec_latest_epoch_id := Some i,
                 ec_next_epoch_id := ec_next_epoch_id c + 1\<rparr>"
      and "ep_payload_hash ep = h" and "ep_required_job_ids ep = req" and "ep_publication_mode ep = mode"
proof (cases "dget (ec_epoch_by_event c) ev")
  case (Some i)
  note W = epochs_wfD [OF assms(1)]
  from W(6) [OF Some] obtain x where x: "dget (ec_epochs c) i = Some x" "ep_event_id x = ev" by blast
  then have "ep = x" "c' = c" "ep_payload_hash x = h" "ep_required_job_ids x = req" "ep_publication_mode x = mode"
    using assms(2) Some by (auto simp: open_epoch_def split: if_splits)
  with x replay show thesis by blast
next
  case None
  note W = epochs_wfD [OF assms(1)]
  let ?i = "ec_next_epoch_id c"
  have "?i \<notin> dom (dget (ec_epochs c))" unfolding W(2) by simp
  then have new: "dget (ec_epochs c) ?i = None" by (simp add: domIff)
  from assms(2) None have act: "ec_active_epoch_id c = None"
    and ep: "ep = \<lparr>ep_epoch_id = ?i, ep_event_id = ev, ep_payload_hash = h, ep_revision = 0,
                  ep_semantic_status = (if req \<noteq> {} then EP_PENDING else EP_COMPLETE),
                  ep_evaluation_state = (if req \<noteq> {} then EV_PENDING else EV_COMPLETE),
                  ep_publication_mode = mode, ep_required_job_ids = req, ep_completed_job_ids = {}\<rparr>"
    and c': "c' = c\<lparr>ec_epochs := dset ?i ep (ec_epochs c), ec_epoch_by_event := dset ev ?i (ec_epoch_by_event c),
                 ec_active_epoch_id := Some ?i, ec_latest_epoch_id := Some ?i,
                 ec_next_epoch_id := ec_next_epoch_id c + 1\<rparr>"
    by (auto simp: open_epoch_def Let_def split: if_splits)
  have "epoch_wf ep" "epoch_open ep" by (simp_all add: ep epoch_wf_def epoch_open_def pending_job_ids_def)
  moreover have "ep_epoch_id ep = ?i" "ep_event_id ep = ev" by (simp_all add: ep)
  moreover have "ep_payload_hash ep = h" "ep_required_job_ids ep = req" "ep_publication_mode ep = mode"
    by (simp_all add: ep)
  ultimately show thesis using fresh [OF refl act None new _ _ _ _ c'] by blast
qed

lemma open_epoch_records:
  assumes "epochs_wf c" and "open_epoch c ev h req mode = Inr (ep, c')"
  shows "dget (ec_epochs c') (ep_epoch_id ep) = Some ep \<and> ep_event_id ep = ev \<and> ep_payload_hash ep = h \<and>
     ep_required_job_ids ep = req \<and> ep_publication_mode ep = mode"
  using assms(2)
proof (cases rule: open_epoch_cases [OF assms])
  case (1 i)
  then show ?thesis using epochs_wfD(3) [OF assms(1)] by simp
next
  case (2 i)
  then show ?thesis by simp
qed

lemma open_epoch_wf:
  assumes wf: "epochs_wf c" and run: "open_epoch c ev h req mode = Inr (ep, c')"
  shows "epochs_wf c'"
proof (rule open_epoch_cases [OF wf run])
  fix i assume new: "i = ec_next_epoch_id c" "dget (ec_epoch_by_event c) ev = None" "dget (ec_epochs c) i = None"
    and ep: "ep_epoch_id ep = i" "ep_event_id ep = ev" "epoch_wf ep" "epoch_open ep"
    and c': "c' = c\<lparr>ec_epochs := dset i ep (ec_epochs c), ec_epoch_by_event := dset ev i (ec_epoch_by_event c),
                 ec_active_epoch_id := Some i, ec_latest_epoch_id := Some i,
                 ec_next_epoch_id := ec_next_epoch_id c + 1\<rparr>"
  note W = epochs_wfD [OF wf]
  have other: "ep_event_id x \<noteq> ev" if "dget (ec_epochs c) j = Some x" for j x
    using W(5) [OF that] new(2) by auto
  show "epochs_wf c'"
    unfolding epochs_wf_def
  proof (intro conjI allI impI)
    show "dom (dget (ec_epochs c')) = {1..<ec_next_epoch_id c'}"
      using W(1,2) new(1) by (auto simp: c')
    fix j x assume x: "dget (ec_epochs c') j = Some x"
    show "ep_epoch_id x = j" "epoch_wf x" "dget (ec_epoch_by_event c') (ep_event_id x) = Some j"
      using x W(3,4,5) [of j x] ep other by (auto simp: c' split: if_splits)
  next
    fix ev' j assume "dget (ec_epoch_by_event c') ev' = Some j"
    then show "\<exists>x. dget (ec_epochs c') j = Some x \<and> ep_event_id x = ev'"
      using W(6) [of ev' j] ep new(3) by (auto simp: c' split: if_splits)
  next
    fix j assume "ec_last_sealed_epoch_id c' = Some j"
    then show "\<exists>x. dget (ec_epochs c') j = Some x \<and> ep_semantic_status x = EP_SEALED"
      using W(9) [of j] new(3) by (auto simp: c')
  qed (use W(1) ep new(1) in \<open>auto simp: c'\<close>)
qed (use wf in simp)

lemma with_completed_fields [simp]:
  "ep_epoch_id (with_completed ep job) = ep_epoch_id ep"
  "ep_event_id (with_completed ep job) = ep_event_id ep"
  "ep_required_job_ids (with_completed ep job) = ep_required_job_ids ep"
  "ep_publication_mode (with_completed ep job) = ep_publication_mode ep"
  "ep_payload_hash (with_completed ep job) = ep_payload_hash ep"
  "ep_completed_job_ids (with_completed ep job) = insert job (ep_completed_job_ids ep)"
  "ep_semantic_status (with_completed ep job) =
     (if insert job (ep_completed_job_ids ep) = ep_required_job_ids ep then EP_COMPLETE else EP_PENDING)"
  by (simp_all add: with_completed_def Let_def)

lemma with_completed_wf:
  assumes "epoch_wf ep" and "job \<in> ep_required_job_ids ep"
  shows "epoch_wf (with_completed ep job)" and "epoch_open (with_completed ep job)"
  using assms by (auto simp: epoch_wf_def epoch_open_def pending_job_ids_def with_completed_def Let_def)

lemma complete_job_cases:
  assumes "complete_job c i job = Inr (ep', c')"
  obtains ep where "dget (ec_epochs c) i = Some ep"
    and "ep_semantic_status ep \<in> {EP_PENDING, EP_COMPLETE}" and "job \<in> ep_required_job_ids ep"
    and "(job \<in> ep_completed_job_ids ep \<and> ep' = ep \<and> c' = c) \<or>
      (job \<notin> ep_completed_job_ids ep \<and> ep' = with_completed ep job \<and>
       c' = c\<lparr>ec_epochs := dset i ep' (ec_epochs c)\<rparr>)"
  using assms by (auto simp: complete_job_def epoch_of_def res_simps Let_def split: if_splits)

lemma complete_job_wf:
  assumes wf: "epochs_wf c" and run: "complete_job c i job = Inr (ep', c')"
  shows "epochs_wf c'"
  using run
proof (rule complete_job_cases)
  fix ep assume ep: "dget (ec_epochs c) i = Some ep"
    and st: "ep_semantic_status ep \<in> {EP_PENDING, EP_COMPLETE}" and req: "job \<in> ep_required_job_ids ep"
    and alt: "(job \<in> ep_completed_job_ids ep \<and> ep' = ep \<and> c' = c) \<or>
      (job \<notin> ep_completed_job_ids ep \<and> ep' = with_completed ep job \<and>
       c' = c\<lparr>ec_epochs := dset i ep' (ec_epochs c)\<rparr>)"
  have "epoch_wf ep" by (rule epochs_wfD(4) [OF wf ep])
  show "epochs_wf c'"
  proof (cases "job \<in> ep_completed_job_ids ep")
    case True
    then show ?thesis using alt wf by simp
  next
    case False
    with alt have c': "c' = c\<lparr>ec_epochs := dset i ep' (ec_epochs c)\<rparr>" by simp
    from False alt \<open>epoch_wf ep\<close> req have "epoch_wf ep'" "ep_epoch_id ep' = ep_epoch_id ep"
      "ep_event_id ep' = ep_event_id ep" "epoch_open ep'"
      using with_completed_wf by auto
    from epochs_wf_update [OF wf ep this(2,3,1), of "ec_active_epoch_id c" "ec_last_sealed_epoch_id c"] this(4) st
    show ?thesis by (auto simp: c')
  qed
qed

lemma mark_degraded_wf:
  assumes wf: "epochs_wf c" and run: "mark_degraded c i = Inr (ep', c')"
  shows "epochs_wf c'"
proof -
  from run obtain ep where ep: "dget (ec_epochs c) i = Some ep"
    and st: "ep_semantic_status ep \<in> {EP_PENDING, EP_COMPLETE}"
    and ep': "ep' = ep\<lparr>ep_revision := ep_revision ep + 1, ep_semantic_status := EP_DEGRADED,
        ep_evaluation_state := EV_DEGRADED\<rparr>"
    and c': "c' = c\<lparr>ec_epochs := dset i ep' (ec_epochs c)\<rparr>"
    by (auto simp: mark_degraded_def epoch_of_def res_simps Let_def split: if_splits)
  have "epoch_wf ep" by (rule epochs_wfD(4) [OF wf ep])
  then have "epoch_wf ep'" by (simp add: ep' epoch_wf_def)
  then show ?thesis
    using epochs_wf_update [OF wf ep _ _ \<open>epoch_wf ep'\<close>, of "ec_active_epoch_id c" "ec_last_sealed_epoch_id c"] st
    by (auto simp: c' ep' epoch_open_def)
qed

lemma mark_failed_cases:
  assumes "mark_failed c i = Inr (ep', c')"
  obtains ep where "dget (ec_epochs c) i = Some ep" and "ep_semantic_status ep \<noteq> EP_SEALED"
    and "ep' = ep\<lparr>ep_revision := ep_revision ep + 1, ep_semantic_status := EP_FAILED,
        ep_evaluation_state := EV_FAILED\<rparr>"
    and "c' = c\<lparr>ec_epochs := dset i ep' (ec_epochs c), ec_active_epoch_id := None\<rparr>"
  using assms by (auto simp: mark_failed_def epoch_of_def res_simps Let_def split: if_splits)

lemma mark_failed_wf:
  assumes wf: "epochs_wf c" and run: "mark_failed c i = Inr (ep', c')"
  shows "epochs_wf c'"
  using run
proof (rule mark_failed_cases)
  fix ep assume ep: "dget (ec_epochs c) i = Some ep" and st: "ep_semantic_status ep \<noteq> EP_SEALED"
    and ep': "ep' = ep\<lparr>ep_revision := ep_revision ep + 1, ep_semantic_status := EP_FAILED,
        ep_evaluation_state := EV_FAILED\<rparr>"
    and c': "c' = c\<lparr>ec_epochs := dset i ep' (ec_epochs c), ec_active_epoch_id := None\<rparr>"
  have "epoch_wf ep" by (rule epochs_wfD(4) [OF wf ep])
  then have "epoch_wf ep'" by (simp add: ep' epoch_wf_def)
  then show "epochs_wf c'"
    using epochs_wf_update [OF wf ep _ _ \<open>epoch_wf ep'\<close>, of None "ec_last_sealed_epoch_id c"] st
    by (auto simp: c' ep')
qed

lemma seal_epoch_cases:
  assumes "seal_epoch c i = Inr (ep', c')"
  obtains ep where "dget (ec_epochs c) i = Some ep" and "ep_semantic_status ep \<in> {EP_COMPLETE, EP_DEGRADED}"
    and "ep' = ep\<lparr>ep_revision := ep_revision ep + 1, ep_semantic_status := EP_SEALED\<rparr>"
    and "c' = c\<lparr>ec_epochs := dset i ep' (ec_epochs c), ec_active_epoch_id := None,
               ec_last_sealed_epoch_id := Some i\<rparr>"
  using assms by (auto simp: seal_epoch_def epoch_of_def res_simps Let_def split: if_splits)

lemma seal_epoch_wf:
  assumes wf: "epochs_wf c" and run: "seal_epoch c i = Inr (ep', c')"
  shows "epochs_wf c'"
  using run
proof (rule seal_epoch_cases)
  fix ep assume ep: "dget (ec_epochs c) i = Some ep"
    and st: "ep_semantic_status ep \<in> {EP_COMPLETE, EP_DEGRADED}"
    and ep': "ep' = ep\<lparr>ep_revision := ep_revision ep + 1, ep_semantic_status := EP_SEALED\<rparr>"
    and c': "c' = c\<lparr>ec_epochs := dset i ep' (ec_epochs c), ec_active_epoch_id := None,
               ec_last_sealed_epoch_id := Some i\<rparr>"
  have "epoch_wf ep" by (rule epochs_wfD(4) [OF wf ep])
  then have "epoch_wf ep'" using st by (auto simp: ep' epoch_wf_def pending_job_ids_def)
  then show "epochs_wf c'"
    using epochs_wf_update [OF wf ep _ _ \<open>epoch_wf ep'\<close>, of None "Some i"]
    by (auto simp: c' ep')
qed

lemma coordinator_run_wf:
  assumes "coordinator_run once c0 c" and "epochs_wf c0"
  shows "epochs_wf c"
  using assms
  by (induction rule: coordinator_run.induct)
    (blast intro: open_epoch_wf complete_job_wf mark_degraded_wf mark_failed_wf seal_epoch_wf)+

lemma coordinator_reachable_wf: "coordinator_reachable once c \<Longrightarrow> epochs_wf c"
  unfolding coordinator_reachable_def by (rule coordinator_run_wf [OF _ new_coordinator_wf])

section \<open>A single writer\<close>

text \<open>Only the active epoch is open.\<close>

definition single_writer :: "epoch_coordinator \<Rightarrow> bool" where
  "single_writer c \<longleftrightarrow>
     (\<forall>i ep. dget (ec_epochs c) i = Some ep \<longrightarrow> epoch_open ep \<longrightarrow> ec_active_epoch_id c = Some i)"

text \<open>An epoch that closes was open, so it was the active one.\<close>

lemma single_writer_close:
  assumes "single_writer c" and "dget (ec_epochs c) i = Some ep" and "epoch_open ep" and "\<not> epoch_open ep'"
    and "ec_epochs c' = dset i ep' (ec_epochs c)"
  shows "single_writer c'"
  unfolding single_writer_def assms(5)
proof (intro allI impI)
  fix j x assume x: "dget (dset i ep' (ec_epochs c)) j = Some x" "epoch_open x"
  then have "j \<noteq> i" "dget (ec_epochs c) j = Some x" using assms(4) by (auto split: if_splits)
  then have "ec_active_epoch_id c = Some j" "ec_active_epoch_id c = Some i"
    using assms(1-3) x(2) unfolding single_writer_def by blast+
  then show "ec_active_epoch_id c' = Some j" using \<open>j \<noteq> i\<close> by simp
qed

lemma single_writer_keep:
  assumes "single_writer c" and "dget (ec_epochs c) i = Some ep" and "epoch_open ep"
    and "ec_epochs c' = dset i ep' (ec_epochs c)" and "ec_active_epoch_id c' = ec_active_epoch_id c"
  shows "single_writer c'"
  unfolding single_writer_def assms(4,5)
proof (intro allI impI)
  fix j x assume x: "dget (dset i ep' (ec_epochs c)) j = Some x" "epoch_open x"
  have "ec_active_epoch_id c = Some i" using assms(1-3) unfolding single_writer_def by blast
  moreover have "ec_active_epoch_id c = Some j" if "j \<noteq> i"
    using assms(1) x that unfolding single_writer_def by simp
  ultimately show "ec_active_epoch_id c = Some j" by (cases "j = i") simp_all
qed

lemma coordinator_reachable_single_writer:
  assumes "coordinator_reachable True c" shows "single_writer c"
  using assms unfolding coordinator_reachable_def
proof (induction rule: coordinator_run.induct)
  case run_start
  show ?case by (simp add: single_writer_def new_coordinator_def)
next
  case (run_open c ev h req mode ep c')
  show ?case
  proof (rule open_epoch_cases [OF coordinator_run_wf [OF run_open(1) new_coordinator_wf] run_open(2)])
    fix i assume "ec_active_epoch_id c = None"
      and "c' = c\<lparr>ec_epochs := dset i ep (ec_epochs c), ec_epoch_by_event := dset ev i (ec_epoch_by_event c),
                 ec_active_epoch_id := Some i, ec_latest_epoch_id := Some i,
                 ec_next_epoch_id := ec_next_epoch_id c + 1\<rparr>"
    then show "single_writer c'" using run_open.IH by (auto simp: single_writer_def)
  qed (use run_open.IH in simp)
next
  case (run_complete c i job ep' c')
  from run_complete(2) show ?case
  proof (rule complete_job_cases)
    fix ep assume ep: "dget (ec_epochs c) i = Some ep" "ep_semantic_status ep \<in> {EP_PENDING, EP_COMPLETE}"
      and alt: "(job \<in> ep_completed_job_ids ep \<and> ep' = ep \<and> c' = c) \<or>
        (job \<notin> ep_completed_job_ids ep \<and> ep' = with_completed ep job \<and>
         c' = c\<lparr>ec_epochs := dset i ep' (ec_epochs c)\<rparr>)"
    have "epoch_open ep" using ep(2) by (auto simp: epoch_open_def)
    then have "single_writer (c\<lparr>ec_epochs := dset i ep' (ec_epochs c)\<rparr>)"
      by (intro single_writer_keep [OF run_complete.IH ep(1)]) simp_all
    then show "single_writer c'" using alt run_complete.IH by auto
  qed
next
  case (run_degrade c i ep' c')
  from run_degrade(2) obtain ep where ep: "dget (ec_epochs c) i = Some ep" "epoch_open ep"
    and c': "c' = c\<lparr>ec_epochs := dset i ep' (ec_epochs c)\<rparr>"
    by (auto simp: mark_degraded_def epoch_of_def res_simps Let_def epoch_open_def split: if_splits)
  show ?case by (rule single_writer_keep [OF run_degrade.IH ep]) (simp_all add: c')
next
  case (run_fail c i ep' c')
  from run_fail.hyps(3) obtain x where x: "dget (ec_epochs c) i = Some x" "epoch_open x" by blast
  from run_fail.hyps(2) show ?case
  proof (rule mark_failed_cases)
    fix ep assume ep': "ep' = ep\<lparr>ep_revision := ep_revision ep + 1, ep_semantic_status := EP_FAILED,
        ep_evaluation_state := EV_FAILED\<rparr>"
      and c': "c' = c\<lparr>ec_epochs := dset i ep' (ec_epochs c), ec_active_epoch_id := None\<rparr>"
    show "single_writer c'"
      by (rule single_writer_close [OF run_fail.IH x, of ep']) (simp_all add: ep' c' epoch_open_def)
  qed
next
  case (run_seal c i ep' c')
  from run_seal(2) show ?case
  proof (rule seal_epoch_cases)
    fix ep assume ep: "dget (ec_epochs c) i = Some ep"
      and st: "ep_semantic_status ep \<in> {EP_COMPLETE, EP_DEGRADED}"
      and ep': "ep' = ep\<lparr>ep_revision := ep_revision ep + 1, ep_semantic_status := EP_SEALED\<rparr>"
      and c': "c' = c\<lparr>ec_epochs := dset i ep' (ec_epochs c), ec_active_epoch_id := None,
               ec_last_sealed_epoch_id := Some i\<rparr>"
    have "epoch_open ep" using st by (auto simp: epoch_open_def)
    then show "single_writer c'"
      by (rule single_writer_close [OF run_seal.IH ep, of ep']) (simp_all add: ep' c' epoch_open_def)
  qed
qed

section \<open>Histories\<close>

text \<open>What a later state of an epoch keeps of an earlier one.\<close>

definition epoch_later :: "semantic_epoch \<Rightarrow> semantic_epoch \<Rightarrow> bool" where
  "epoch_later ep ep' \<longleftrightarrow>
     ep_epoch_id ep' = ep_epoch_id ep \<and> ep_event_id ep' = ep_event_id ep \<and>
     ep_payload_hash ep' = ep_payload_hash ep \<and> ep_publication_mode ep' = ep_publication_mode ep \<and>
     ep_required_job_ids ep' = ep_required_job_ids ep \<and> ep_revision ep \<le> ep_revision ep' \<and>
     ep_completed_job_ids ep \<subseteq> ep_completed_job_ids ep' \<and>
     (ep_semantic_status ep = EP_SEALED \<longrightarrow> ep' = ep) \<and>
     (ep_semantic_status ep = EP_FAILED \<longrightarrow> ep_semantic_status ep' = EP_FAILED)"

definition epochs_later :: "epoch_coordinator \<Rightarrow> epoch_coordinator \<Rightarrow> bool" where
  "epochs_later c c' \<longleftrightarrow>
     (\<forall>i ep. dget (ec_epochs c) i = Some ep \<longrightarrow>
        (\<exists>ep'. dget (ec_epochs c') i = Some ep' \<and> epoch_later ep ep'))"

lemma epoch_later_refl [simp]: "epoch_later ep ep"
  by (simp add: epoch_later_def)

lemma epoch_later_trans: "epoch_later a b \<Longrightarrow> epoch_later b c \<Longrightarrow> epoch_later a c"
  by (cases "ep_semantic_status a = EP_SEALED") (auto simp: epoch_later_def)

lemma epochs_later_refl [simp]: "epochs_later c c"
  by (simp add: epochs_later_def)

lemma epochs_later_trans: "epochs_later a b \<Longrightarrow> epochs_later b c \<Longrightarrow> epochs_later a c"
  unfolding epochs_later_def by (meson epoch_later_trans)

lemma epochs_later_dset:
  assumes "dget (ec_epochs c) i = Some ep" and "epoch_later ep ep'"
    and "ec_epochs c' = dset i ep' (ec_epochs c)"
  shows "epochs_later c c'"
  using assms by (auto simp: epochs_later_def)

lemma open_epoch_later:
  assumes "epochs_wf c" and "open_epoch c ev h req mode = Inr (ep, c')"
  shows "epochs_later c c'"
  using assms by (rule open_epoch_cases) (auto simp: epochs_later_def)

lemma complete_job_later:
  assumes "epochs_wf c" and "complete_job c i job = Inr (ep', c')"
  shows "epochs_later c c'"
  using assms(2)
proof (rule complete_job_cases)
  fix ep assume ep: "dget (ec_epochs c) i = Some ep" "ep_semantic_status ep \<in> {EP_PENDING, EP_COMPLETE}"
    and alt: "(job \<in> ep_completed_job_ids ep \<and> ep' = ep \<and> c' = c) \<or>
      (job \<notin> ep_completed_job_ids ep \<and> ep' = with_completed ep job \<and>
       c' = c\<lparr>ec_epochs := dset i ep' (ec_epochs c)\<rparr>)"
  have "epoch_later ep (with_completed ep job)"
    using ep(2) by (auto simp: epoch_later_def) (simp_all add: with_completed_def Let_def)
  then show "epochs_later c c'" using alt epochs_later_dset [OF ep(1)] by auto
qed

lemma mark_degraded_later:
  assumes "mark_degraded c i = Inr (ep', c')"
  shows "epochs_later c c'"
proof -
  from assms obtain ep where ep: "dget (ec_epochs c) i = Some ep"
      "ep_semantic_status ep \<in> {EP_PENDING, EP_COMPLETE}"
      "ep' = ep\<lparr>ep_revision := ep_revision ep + 1, ep_semantic_status := EP_DEGRADED,
        ep_evaluation_state := EV_DEGRADED\<rparr>"
    and c': "ec_epochs c' = dset i ep' (ec_epochs c)"
    by (auto simp: mark_degraded_def epoch_of_def res_simps Let_def split: if_splits)
  from ep(2) have "epoch_later ep ep'" by (auto simp: epoch_later_def ep(3))
  then show ?thesis by (rule epochs_later_dset [OF ep(1) _ c'])
qed

lemma mark_failed_later:
  assumes "mark_failed c i = Inr (ep', c')"
  shows "epochs_later c c'"
  using assms by (rule mark_failed_cases) (rule epochs_later_dset, auto simp: epoch_later_def)

lemma seal_epoch_later:
  assumes "seal_epoch c i = Inr (ep', c')"
  shows "epochs_later c c'"
  using assms by (rule seal_epoch_cases) (rule epochs_later_dset, auto simp: epoch_later_def)

lemma coordinator_run_later:
  assumes "coordinator_run once c0 c" and "epochs_wf c0"
  shows "epochs_later c0 c"
  using assms(1)
proof (induction rule: coordinator_run.induct)
  case (run_open c ev h req mode ep c')
  show ?case
    using epochs_later_trans [OF run_open.IH open_epoch_later [OF _ run_open.hyps(2)]]
      coordinator_run_wf [OF run_open.hyps(1) assms(2)] by simp
next
  case (run_complete c i job ep c')
  show ?case
    using epochs_later_trans [OF run_complete.IH complete_job_later [OF _ run_complete.hyps(2)]]
      coordinator_run_wf [OF run_complete.hyps(1) assms(2)] by simp
qed (auto intro: epochs_later_trans mark_degraded_later mark_failed_later seal_epoch_later)

section \<open>Completing an epoch\<close>

definition complete_jobs :: "int \<Rightarrow> string list \<Rightarrow> epoch_coordinator \<Rightarrow> epoch_coordinator res" where
  "complete_jobs i = fold_res (\<lambda>job c. bind_res (complete_job c i job) (\<lambda>r. Inr (snd r)))"

lemma complete_job_ok:
  assumes "dget (ec_epochs c) i = Some ep" and "epoch_wf ep"
    and "ep_semantic_status ep \<in> {EP_PENDING, EP_COMPLETE}" and "job \<in> ep_required_job_ids ep"
  obtains ep' where "complete_job c i job = Inr (ep', if job \<in> ep_completed_job_ids ep then c
      else c\<lparr>ec_epochs := dset i ep' (ec_epochs c)\<rparr>)"
    and "job \<in> ep_completed_job_ids ep \<Longrightarrow> ep' = ep" and "epoch_wf ep'"
    and "ep_semantic_status ep' \<in> {EP_PENDING, EP_COMPLETE}"
    and "ep_required_job_ids ep' = ep_required_job_ids ep"
    and "ep_completed_job_ids ep' = insert job (ep_completed_job_ids ep)" and "ep_epoch_id ep' = ep_epoch_id ep"
proof (cases "job \<in> ep_completed_job_ids ep")
  case True
  show thesis
    by (rule that [of ep])
      (use True assms in \<open>auto simp: complete_job_def epoch_of_def lookup_def insert_absorb\<close>)
next
  case False
  show thesis
    by (rule that [of "with_completed ep job"])
      (use False assms with_completed_wf in \<open>auto simp: complete_job_def epoch_of_def lookup_def Let_def\<close>)
qed

lemma complete_jobs_ok:
  assumes "dget (ec_epochs c) i = Some ep" and "epoch_wf ep"
    and "ep_semantic_status ep \<in> {EP_PENDING, EP_COMPLETE}" and "set jobs \<subseteq> ep_required_job_ids ep"
  shows "\<exists>ep' d. complete_jobs i jobs c = Inr (c\<lparr>ec_epochs := d\<rparr>) \<and> dget d i = Some ep' \<and> epoch_wf ep' \<and>
     ep_semantic_status ep' \<in> {EP_PENDING, EP_COMPLETE} \<and>
     ep_required_job_ids ep' = ep_required_job_ids ep \<and>
     ep_completed_job_ids ep' = ep_completed_job_ids ep \<union> set jobs \<and> ep_epoch_id ep' = ep_epoch_id ep"
  using assms
proof (induction jobs arbitrary: c ep)
  case Nil
  then show ?case by (intro exI [of _ ep] exI [of _ "ec_epochs c"]) (simp add: complete_jobs_def)
next
  case (Cons job jobs)
  from Cons.prems(4) have job: "job \<in> ep_required_job_ids ep" by simp
  let ?c = "\<lambda>x. if job \<in> ep_completed_job_ids ep then c else c\<lparr>ec_epochs := dset i x (ec_epochs c)\<rparr>"
  from complete_job_ok [OF Cons.prems(1-3) job] obtain x where
    x: "complete_job c i job = Inr (x, ?c x)" "job \<in> ep_completed_job_ids ep \<Longrightarrow> x = ep" "epoch_wf x"
      "ep_semantic_status x \<in> {EP_PENDING, EP_COMPLETE}" "ep_required_job_ids x = ep_required_job_ids ep"
      "ep_completed_job_ids x = insert job (ep_completed_job_ids ep)" "ep_epoch_id x = ep_epoch_id ep" by metis
  have "dget (ec_epochs (?c x)) i = Some x" using x(2) Cons.prems(1) by simp
  from Cons.IH [OF this x(3,4)] Cons.prems(4) x(5,6,7) obtain ep' d where
    e: "complete_jobs i jobs (?c x) = Inr ((?c x)\<lparr>ec_epochs := d\<rparr>)" "dget d i = Some ep'" "epoch_wf ep'"
      "ep_semantic_status ep' \<in> {EP_PENDING, EP_COMPLETE}"
      "ep_required_job_ids ep' = ep_required_job_ids ep"
      "ep_completed_job_ids ep' = ep_completed_job_ids ep \<union> set (job # jobs)"
      "ep_epoch_id ep' = ep_epoch_id ep" by auto
  have "complete_jobs i (job # jobs) c = complete_jobs i jobs (?c x)"
    using x(1) by (simp add: complete_jobs_def)
  then have "complete_jobs i (job # jobs) c = Inr (c\<lparr>ec_epochs := d\<rparr>)" using e(1) by simp
  with e(2-7) show ?case by blast
qed

section \<open>Publication\<close>

text \<open>The snapshot, once the latest epoch is known.\<close>

definition latest_snapshot :: "epoch_coordinator \<Rightarrow> int \<Rightarrow> semantic_epoch \<Rightarrow> publication_snapshot" where
  "latest_snapshot c l ep =
     \<lparr>ps_visible_epoch_id =
        (if ep_semantic_status ep \<noteq> EP_SEALED \<and> ep_publication_mode ep = STRICT
         then ec_last_sealed_epoch_id c else Some l),
      ps_evaluation_state = ep_evaluation_state ep,
      ps_confirmed_as_of_epoch =
        (if ep_semantic_status ep = EP_SEALED then Some l else ec_last_sealed_epoch_id c)\<rparr>"

lemma publication_snapshot_latest:
  assumes "epochs_wf c" and "ec_latest_epoch_id c = Some l" and "dget (ec_epochs c) l = Some ep"
  shows "publication_snapshot c = Inr (latest_snapshot c l ep)"
  using assms(2,3) epochs_wfD(3) [OF assms(1,3)]
  by (simp add: publication_snapshot_def latest_snapshot_def lookup_def)

lemma sealed_epoch_complete:
  assumes "epochs_wf c" and "dget (ec_epochs c) i = Some ep" and "ep_semantic_status ep = EP_SEALED"
    and "ep_evaluation_state ep = EV_COMPLETE"
  shows "pending_job_ids ep = {}"
  using epochs_wfD(4) [OF assms(1,2)] assms(3,4) by (simp add: epoch_wf_def)

section \<open>A concrete history\<close>

definition demo_jobs :: "string set" where
  "demo_jobs = {''j1'', ''j2''}"

text \<open>Epoch 1 is sealed after both jobs, one of them reported twice; epoch 2 is open and strict.\<close>

definition demo_open_1 :: epoch_coordinator where
  "demo_open_1 = snd (projr (open_epoch new_coordinator ''e1'' ''h1'' demo_jobs PROVISIONAL))"

definition demo_epochs :: "semantic_epoch_status \<Rightarrow> evaluation_state \<Rightarrow> int \<Rightarrow> string set \<Rightarrow> semantic_epoch" where
  "demo_epochs st ev revision completed =
     \<lparr>ep_epoch_id = 1, ep_event_id = ''e1'', ep_payload_hash = ''h1'', ep_revision = revision,
      ep_semantic_status = st, ep_evaluation_state = ev, ep_publication_mode = PROVISIONAL,
      ep_required_job_ids = demo_jobs, ep_completed_job_ids = completed\<rparr>"

definition demo_failed_1 :: epoch_coordinator where
  "demo_failed_1 = snd (projr (mark_failed demo_open_1 1))"

definition demo_open_2 :: epoch_coordinator where
  "demo_open_2 = snd (projr (open_epoch demo_failed_1 ''e2'' ''h2'' demo_jobs STRICT))"

lemma demo_epoch_runs:
  "open_epoch new_coordinator ''e1'' ''h1'' demo_jobs PROVISIONAL =
     Inr (demo_epochs EP_PENDING EV_PENDING 0 {}, demo_open_1)"
  "dget (ec_epochs demo_open_1) = [1 \<mapsto> demo_epochs EP_PENDING EV_PENDING 0 {}]"
  "ec_latest_epoch_id demo_open_1 = Some 1"
  "mark_failed demo_open_1 1 = Inr (demo_epochs EP_FAILED EV_FAILED 1 {}, demo_failed_1)"
  "\<exists>ep. open_epoch demo_failed_1 ''e2'' ''h2'' demo_jobs STRICT = Inr (ep, demo_open_2) \<and>
     dget (ec_epochs demo_open_2) = [2 \<mapsto> ep, 1 \<mapsto> demo_epochs EP_FAILED EV_FAILED 1 {}] \<and>
     ep_semantic_status ep = EP_PENDING"
  "ec_active_epoch_id demo_open_2 = Some 2"
  by (simp_all add: demo_open_1_def demo_failed_1_def demo_open_2_def open_epoch_def new_coordinator_def
      demo_jobs_def demo_epochs_def mark_failed_def epoch_of_def lookup_def Let_def)

lemma demo_epochs_reachable:
  "coordinator_reachable once demo_open_1" "coordinator_reachable once demo_failed_1"
  "coordinator_reachable once demo_open_2"
proof -
  note D = demo_epoch_runs
  show o1: "coordinator_reachable once demo_open_1"
    unfolding coordinator_reachable_def by (rule run_open [OF run_start D(1)])
  show f1: "coordinator_reachable once demo_failed_1"
    unfolding coordinator_reachable_def
    by (rule run_fail [OF o1 [unfolded coordinator_reachable_def] D(4)])
      (simp add: D(2) demo_epochs_def epoch_open_def)
  from D(5) obtain ep where "open_epoch demo_failed_1 ''e2'' ''h2'' demo_jobs STRICT = Inr (ep, demo_open_2)"
    by blast
  then show "coordinator_reachable once demo_open_2"
    unfolding coordinator_reachable_def by (rule run_open [OF f1 [unfolded coordinator_reachable_def]])
qed

section \<open>Properties\<close>

text \<open>
  C23.  However the operations are ordered, every reachable coordinator is well formed, and along any
  continuation each epoch keeps its identity, event, payload and declaration, never loses a completed
  job or a revision, stays failed once failed, and is immutable once sealed.
\<close>

theorem coordinator_evolves_soundly:
  assumes "coordinator_reachable once c" and "coordinator_run once c c'"
  shows "epochs_wf c' \<and>
     (\<forall>i ep. dget (ec_epochs c) i = Some ep \<longrightarrow>
        (\<exists>ep'. dget (ec_epochs c') i = Some ep' \<and> epoch_later ep ep'))"
  using coordinator_run_wf [OF assms(2)] coordinator_run_later [OF assms(2)]
    coordinator_reachable_wf [OF assms(1)]
  by (simp add: epochs_later_def)

theorem coordinator_evolves_soundly_witness:
  "epochs_wf demo_open_2 \<and>
     (\<exists>ep'. dget (ec_epochs demo_open_2) 1 = Some ep' \<and>
        epoch_later (demo_epochs EP_PENDING EV_PENDING 0 {}) ep')"
proof -
  from demo_epoch_runs(5) obtain ep where
    op: "open_epoch demo_failed_1 ''e2'' ''h2'' demo_jobs STRICT = Inr (ep, demo_open_2)" by blast
  have "coordinator_run False demo_open_1 demo_failed_1"
    by (rule run_fail [OF run_start demo_epoch_runs(4)]) simp
  then have "coordinator_run False demo_open_1 demo_open_2" by (rule run_open [OF _ op])
  from coordinator_evolves_soundly [OF demo_epochs_reachable(1) this] show ?thesis
    by (simp add: demo_epoch_runs(2))
qed

text \<open>
  C24.  On every reachable coordinator the publication snapshot is defined; the epoch it confirms is
  sealed, with no job left when it is published as complete; and what is visible differs from what is
  confirmed only when the latest epoch is provisional and not sealed.
\<close>

theorem snapshot_confirms_sealed_epochs:
  assumes "coordinator_reachable once c"
  shows "\<exists>s. publication_snapshot c = Inr s \<and>
     (\<forall>i. ps_confirmed_as_of_epoch s = Some i \<longrightarrow>
        (\<exists>ep. dget (ec_epochs c) i = Some ep \<and> ep_semantic_status ep = EP_SEALED \<and>
           (ep_evaluation_state ep = EV_COMPLETE \<longrightarrow> pending_job_ids ep = {}))) \<and>
     (ps_visible_epoch_id s \<noteq> ps_confirmed_as_of_epoch s \<longrightarrow>
        (\<exists>i ep. ec_latest_epoch_id c = Some i \<and> dget (ec_epochs c) i = Some ep \<and>
           ep_publication_mode ep = PROVISIONAL \<and> ep_semantic_status ep \<noteq> EP_SEALED \<and>
           ps_visible_epoch_id s = Some i \<and> ps_evaluation_state s = ep_evaluation_state ep))"
proof (cases "ec_latest_epoch_id c")
  case None
  then show ?thesis by (simp add: publication_snapshot_def)
next
  case (Some l)
  note wf = coordinator_reachable_wf [OF assms]
  have "l \<in> dom (dget (ec_epochs c))"
    using Some epochs_wfD(1,7) [OF wf] unfolding epochs_wfD(2) [OF wf] by (auto split: if_splits)
  then obtain ep where ep: "dget (ec_epochs c) l = Some ep" by blast
  note snap = publication_snapshot_latest [OF wf Some ep]
  show ?thesis
    unfolding snap
  proof (intro exI [of _ "latest_snapshot c l ep"] conjI allI impI)
    fix i assume "ps_confirmed_as_of_epoch (latest_snapshot c l ep) = Some i"
    then show "\<exists>ep. dget (ec_epochs c) i = Some ep \<and> ep_semantic_status ep = EP_SEALED \<and>
        (ep_evaluation_state ep = EV_COMPLETE \<longrightarrow> pending_job_ids ep = {})"
      using sealed_epoch_complete [OF wf] ep epochs_wfD(9) [OF wf, of i]
      by (auto simp: latest_snapshot_def split: if_splits)
  next
    assume "ps_visible_epoch_id (latest_snapshot c l ep) \<noteq> ps_confirmed_as_of_epoch (latest_snapshot c l ep)"
    then show "\<exists>i x. ec_latest_epoch_id c = Some i \<and> dget (ec_epochs c) i = Some x \<and>
        ep_publication_mode x = PROVISIONAL \<and> ep_semantic_status x \<noteq> EP_SEALED \<and>
        ps_visible_epoch_id (latest_snapshot c l ep) = Some i \<and>
        ps_evaluation_state (latest_snapshot c l ep) = ep_evaluation_state x"
      using Some ep by (cases "ep_publication_mode ep") (auto simp: latest_snapshot_def split: if_splits)
  qed simp
qed

theorem snapshot_confirms_sealed_epochs_witness:
  "\<exists>s. publication_snapshot demo_open_1 = Inr s \<and>
     (ps_visible_epoch_id s \<noteq> ps_confirmed_as_of_epoch s \<longrightarrow> ps_visible_epoch_id s = Some 1)"
  using snapshot_confirms_sealed_epochs [OF demo_epochs_reachable(1)] demo_epoch_runs(3) by auto

text \<open>
  C25.  An epoch that is still pending or complete can be published: reporting any list of its required
  jobs that covers the pending ones, in any order and with repetitions, succeeds, and sealing then
  succeeds, releases the writer, and makes it the last sealed epoch with no job left; when it is the
  latest one it is what the snapshot shows and confirms.
\<close>

theorem completed_epoch_is_published:
  assumes "coordinator_reachable once c" and "dget (ec_epochs c) i = Some ep"
    and "ep_semantic_status ep \<in> {EP_PENDING, EP_COMPLETE}"
    and "pending_job_ids ep \<subseteq> set jobs" and "set jobs \<subseteq> ep_required_job_ids ep"
  shows "\<exists>c1 ep' c'. complete_jobs i jobs c = Inr c1 \<and> seal_epoch c1 i = Inr (ep', c') \<and>
     dget (ec_epochs c') i = Some ep' \<and> ep_semantic_status ep' = EP_SEALED \<and>
     ep_evaluation_state ep' = EV_COMPLETE \<and> pending_job_ids ep' = {} \<and>
     ec_active_epoch_id c' = None \<and> ec_last_sealed_epoch_id c' = Some i \<and>
     (ec_latest_epoch_id c = Some i \<longrightarrow>
        publication_snapshot c' = Inr \<lparr>ps_visible_epoch_id = Some i, ps_evaluation_state = EV_COMPLETE,
          ps_confirmed_as_of_epoch = Some i\<rparr>)"
proof -
  note wf = coordinator_reachable_wf [OF assms(1)]
  note ewf = epochs_wfD(4) [OF wf assms(2)]
  from complete_jobs_ok [OF assms(2) ewf assms(3,5)] obtain x d where
    x: "complete_jobs i jobs c = Inr (c\<lparr>ec_epochs := d\<rparr>)" "dget d i = Some x" "epoch_wf x"
      "ep_semantic_status x \<in> {EP_PENDING, EP_COMPLETE}" "ep_required_job_ids x = ep_required_job_ids ep"
      "ep_completed_job_ids x = ep_completed_job_ids ep \<union> set jobs" "ep_epoch_id x = ep_epoch_id ep" by blast
  have pend: "pending_job_ids x = {}"
    using assms(4) x(5,6) by (auto simp: pending_job_ids_def)
  with x(3,4) have st: "ep_semantic_status x = EP_COMPLETE" "ep_evaluation_state x = EV_COMPLETE"
    by (auto simp: epoch_wf_def)
  let ?x = "x\<lparr>ep_revision := ep_revision x + 1, ep_semantic_status := EP_SEALED\<rparr>"
  let ?c = "c\<lparr>ec_epochs := dset i ?x d, ec_active_epoch_id := None, ec_last_sealed_epoch_id := Some i\<rparr>"
  have "seal_epoch (c\<lparr>ec_epochs := d\<rparr>) i = Inr (?x, ?c)"
    using x(2) st(1) by (simp add: seal_epoch_def epoch_of_def lookup_def Let_def)
  moreover have "ec_latest_epoch_id c = Some i \<longrightarrow>
      publication_snapshot ?c = Inr \<lparr>ps_visible_epoch_id = Some i, ps_evaluation_state = EV_COMPLETE,
        ps_confirmed_as_of_epoch = Some i\<rparr>"
    using x(7) st(2) epochs_wfD(3) [OF wf assms(2)] by (simp add: publication_snapshot_def lookup_def)
  ultimately show ?thesis
    using x(1) st(2) pend
    by (intro exI [of _ "c\<lparr>ec_epochs := d\<rparr>"] exI [of _ ?x] exI [of _ ?c] conjI)
      (simp_all add: pending_job_ids_def)
qed

theorem completed_epoch_is_published_witness:
  "\<exists>c1 ep' c'. complete_jobs 1 [''j2'', ''j2'', ''j1''] demo_open_1 = Inr c1 \<and>
     seal_epoch c1 1 = Inr (ep', c') \<and> ec_last_sealed_epoch_id c' = Some 1 \<and>
     publication_snapshot c' = Inr \<lparr>ps_visible_epoch_id = Some 1, ps_evaluation_state = EV_COMPLETE,
       ps_confirmed_as_of_epoch = Some 1\<rparr>"
  using completed_epoch_is_published [OF demo_epochs_reachable(1), of 1 "demo_epochs EP_PENDING EV_PENDING 0 {}"
      "[''j2'', ''j2'', ''j1'']"] demo_epoch_runs(2,3)
  by (auto simp: demo_epochs_def pending_job_ids_def demo_jobs_def)

text \<open>
  C26.  Re-delivered events are idempotent for the whole life of the coordinator: after an event opened
  an epoch, declaring it again returns that epoch's current state and changes nothing, and declaring it
  with another payload, job set or publication mode is the conflict error, whatever happened between.
\<close>

theorem replayed_event_is_idempotent:
  assumes "coordinator_reachable once c" and "open_epoch c ev h req mode = Inr (ep, c1)"
    and "coordinator_run once c1 c'"
  shows "(\<exists>ep'. open_epoch c' ev h req mode = Inr (ep', c') \<and> epoch_later ep ep' \<and>
        dget (ec_epochs c') (ep_epoch_id ep) = Some ep') \<and>
     ((h', req', mode') \<noteq> (h, req, mode) \<longrightarrow> open_epoch c' ev h' req' mode' = Inl EventConflictError)"
proof -
  note wf = coordinator_reachable_wf [OF assms(1)]
  note wf1 = open_epoch_wf [OF wf assms(2)]
  note wf' = coordinator_run_wf [OF assms(3) wf1]
  from open_epoch_records [OF wf assms(2)] have ep: "dget (ec_epochs c1) (ep_epoch_id ep) = Some ep"
    and decl: "ep_event_id ep = ev" "ep_payload_hash ep = h" "ep_required_job_ids ep = req"
      "ep_publication_mode ep = mode" by blast+
  from coordinator_run_later [OF assms(3) wf1] ep obtain ep' where
    ep': "dget (ec_epochs c') (ep_epoch_id ep) = Some ep'" and later: "epoch_later ep ep'"
    unfolding epochs_later_def by blast
  from later decl have decl': "ep_event_id ep' = ev" "ep_payload_hash ep' = h"
    "ep_required_job_ids ep' = req" "ep_publication_mode ep' = mode" by (simp_all add: epoch_later_def)
  have "dget (ec_epoch_by_event c') ev = Some (ep_epoch_id ep)"
    using epochs_wfD(5) [OF wf' ep'] decl'(1) by simp
  then have "open_epoch c' ev h' req' mode' =
      (if (h', req', mode') = (h, req, mode) then Inr (ep', c') else Inl EventConflictError)"
    for h' req' mode'
    using ep' decl' by (auto simp: open_epoch_def lookup_def)
  then show ?thesis using ep' later by simp
qed

theorem replayed_event_is_idempotent_witness:
  "(\<exists>ep'. open_epoch demo_failed_1 ''e1'' ''h1'' demo_jobs PROVISIONAL = Inr (ep', demo_failed_1)) \<and>
     open_epoch demo_failed_1 ''e1'' ''h2'' demo_jobs PROVISIONAL = Inl EventConflictError"
proof -
  have "coordinator_run False demo_open_1 demo_failed_1"
    by (rule run_fail [OF run_start demo_epoch_runs(4)]) simp
  note R = replayed_event_is_idempotent [OF _ demo_epoch_runs(1) this, of "''h2''" demo_jobs PROVISIONAL]
  have "coordinator_reachable False new_coordinator"
    unfolding coordinator_reachable_def by (rule run_start)
  from R [OF this] show ?thesis by auto
qed

text \<open>
  C27.  One writer: as long as clients fail only open epochs, at most one epoch is open at any time, it
  is the active one, and until it is sealed or failed every new event is rejected.
\<close>

theorem open_epoch_excludes_writers:
  assumes "coordinator_reachable True c"
    and "dget (ec_epochs c) i = Some ep" and "epoch_open ep"
  shows "ec_active_epoch_id c = Some i \<and>
     (\<forall>j ep'. dget (ec_epochs c) j = Some ep' \<and> epoch_open ep' \<longrightarrow> j = i) \<and>
     (dget (ec_epoch_by_event c) ev = None \<longrightarrow> open_epoch c ev h req mode = Inl ValidationError)"
proof -
  have "ec_active_epoch_id c = Some i" if "dget (ec_epochs c) i = Some ep" "epoch_open ep" for i ep
    using coordinator_reachable_single_writer [OF assms(1)] that unfolding single_writer_def by blast
  from this [OF assms(2,3)] this show ?thesis by (auto simp: open_epoch_def)
qed

theorem open_epoch_excludes_writers_witness:
  "ec_active_epoch_id demo_open_1 = Some 1 \<and>
     open_epoch demo_open_1 ''e2'' ''h2'' demo_jobs STRICT = Inl ValidationError"
proof -
  have "epoch_open (demo_epochs EP_PENDING EV_PENDING 0 {})"
    by (simp add: demo_epochs_def epoch_open_def)
  moreover have "dget (ec_epoch_by_event demo_open_1) ''e2'' = None"
    by (simp add: demo_open_1_def open_epoch_def new_coordinator_def Let_def)
  ultimately show ?thesis
    using open_epoch_excludes_writers [OF demo_epochs_reachable(1), of 1] demo_epoch_runs(2) by auto
qed

text \<open>
  C28.  Without that discipline the rule is lost: \<open>mark_failed\<close> on an epoch that has already failed is
  accepted and releases the writer although another epoch is open, so a new event then opens a second
  epoch beside it.
\<close>

theorem failing_again_admits_second_writer:
  assumes "coordinator_reachable once c"
    and "dget (ec_epochs c) i = Some failed" and "ep_semantic_status failed = EP_FAILED"
    and "dget (ec_epochs c) j = Some ep" and "epoch_open ep"
    and "dget (ec_epoch_by_event c) ev = None" and "ev \<noteq> ''''" and "h \<noteq> ''''"
  shows "\<exists>f c1 ep' c'. mark_failed c i = Inr (f, c1) \<and> open_epoch c1 ev h req mode = Inr (ep', c') \<and>
     ep_epoch_id ep' \<noteq> j \<and> epoch_open ep' \<and> dget (ec_epochs c') (ep_epoch_id ep') = Some ep' \<and>
     dget (ec_epochs c') j = Some ep"
proof -
  note wf = coordinator_reachable_wf [OF assms(1)]
  from assms(3,5) have ij: "i \<noteq> j" using assms(2,4) by (auto simp: epoch_open_def)
  let ?f = "failed\<lparr>ep_revision := ep_revision failed + 1, ep_semantic_status := EP_FAILED,
      ep_evaluation_state := EV_FAILED\<rparr>"
  let ?c = "c\<lparr>ec_epochs := dset i ?f (ec_epochs c), ec_active_epoch_id := None\<rparr>"
  have fail: "mark_failed c i = Inr (?f, ?c)"
    using assms(2,3) by (simp add: mark_failed_def epoch_of_def lookup_def Let_def)
  have j: "dget (ec_epochs ?c) j = Some ep" using assms(4) ij by simp
  have "j \<noteq> ec_next_epoch_id c"
    using epochs_wfD(2) [OF wf] assms(4) by auto
  moreover obtain ep' c' where "open_epoch ?c ev h req mode = Inr (ep', c')"
      "ep_epoch_id ep' = ec_next_epoch_id c" "epoch_open ep'"
      "ec_epochs c' = dset (ec_next_epoch_id c) ep' (ec_epochs ?c)"
    using assms(6-8) by (simp add: open_epoch_def Let_def epoch_open_def)
  ultimately show ?thesis
    using j by (intro exI [of _ ?f] exI [of _ ?c] exI [of _ ep'] exI [of _ c'] conjI fail) auto
qed

theorem failing_again_admits_second_writer_witness:
  "\<exists>f c1 ep' c'. mark_failed demo_open_2 1 = Inr (f, c1) \<and>
     open_epoch c1 ''e3'' ''h3'' {} STRICT = Inr (ep', c') \<and> ep_epoch_id ep' \<noteq> 2 \<and>
     epoch_open ep' \<and> (\<exists>ep. dget (ec_epochs c') 2 = Some ep \<and> epoch_open ep)"
proof -
  from demo_epoch_runs(5) obtain ep where
    ep: "dget (ec_epochs demo_open_2) 2 = Some ep" "epoch_open ep"
    and f: "dget (ec_epochs demo_open_2) 1 = Some (demo_epochs EP_FAILED EV_FAILED 1 {})"
    by (auto simp: epoch_open_def)
  have ev: "dget (ec_epoch_by_event demo_open_2) ''e3'' = None"
    by (simp add: demo_open_2_def demo_failed_1_def demo_open_1_def open_epoch_def new_coordinator_def
        mark_failed_def epoch_of_def lookup_def Let_def)
  have "ep_semantic_status (demo_epochs EP_FAILED EV_FAILED 1 {}) = EP_FAILED"
    by (simp add: demo_epochs_def)
  from failing_again_admits_second_writer [OF demo_epochs_reachable(3) f this ep ev, of "''h3''" "{}" STRICT]
  obtain g c1 ep' c' where r: "mark_failed demo_open_2 1 = Inr (g, c1)"
    "open_epoch c1 ''e3'' ''h3'' {} STRICT = Inr (ep', c')" "ep_epoch_id ep' \<noteq> 2" "epoch_open ep'"
    "dget (ec_epochs c') 2 = Some ep" by auto
  from r ep(2) show ?thesis by blast
qed

end
