(* ===== verification/GL_StringSet.thy ===== *)
theory GL_StringSet
  imports GL_OptAvl GL_Counters
begin

text \<open>
  \<open>PersistentStringSet\<close> of \<open>groundloop/m5/matching.py\<close>: an immutable AVL set of identifiers whose
  updates copy the path they change.  \<open>_AvlNode\<close> has the fields of the node of \<open>optimized/avl.py\<close>
  and shares its type here.  An addition or removal reports whether it changed the set; the
  iterative traversal stops at a limit; the audit collects issues instead of raising.
\<close>

section \<open>Nodes\<close>

type_synonym string_node = "string opt_node"

definition ps_node :: "string \<Rightarrow> string_node \<Rightarrow> string_node \<Rightarrow> string_node" where
  "ps_node k l r = ONode k l r (1 + max (opt_height l) (opt_height r)) (1 + opt_size l + opt_size r)"

fun ps_rotate_left :: "string_node \<Rightarrow> string_node res" where
  "ps_rotate_left (ONode k l (ONode pk pl pr _ _) _ _) = Inr (ps_node pk (ps_node k l pl) pr)"
| "ps_rotate_left _ = Inl AssertionError"

fun ps_rotate_right :: "string_node \<Rightarrow> string_node res" where
  "ps_rotate_right (ONode k (ONode pk pl pr _ _) r _ _) = Inr (ps_node pk pl (ps_node k pr r))"
| "ps_rotate_right _ = Inl AssertionError"

text \<open>\<open>_avl_balance\<close> of \<open>_avl_node(k, l, r)\<close>.\<close>

definition ps_balance :: "string \<Rightarrow> string_node \<Rightarrow> string_node \<Rightarrow> string_node res" where
  "ps_balance k l r =
     (let balance = opt_height l - opt_height r in
      if 1 < balance then
        (case l of
           ONone \<Rightarrow> Inl AssertionError
         | ONode _ ll lr _ _ \<Rightarrow>
             bind_res (if opt_height ll < opt_height lr then ps_rotate_left l else Inr l) (\<lambda>left.
               ps_rotate_right (ps_node k left r)))
      else if balance < -1 then
        (case r of
           ONone \<Rightarrow> Inl AssertionError
         | ONode _ rl rr _ _ \<Rightarrow>
             bind_res (if opt_height rr < opt_height rl then ps_rotate_right r else Inr r) (\<lambda>right.
               ps_rotate_left (ps_node k l right)))
      else Inr (ps_node k l r))"

fun ps_insert :: "string_node \<Rightarrow> string \<Rightarrow> (string_node \<times> bool) res" where
  "ps_insert ONone x = Inr (ps_node x ONone ONone, True)"
| "ps_insert (ONode k l r h s) x =
     (if x = k then Inr (ONode k l r h s, False)
      else if x < k then
        bind_res (ps_insert l x) (\<lambda>(left, changed).
          if \<not> changed then Inr (ONode k l r h s, False)
          else bind_res (ps_balance k left r) (\<lambda>n. Inr (n, True)))
      else
        bind_res (ps_insert r x) (\<lambda>(right, changed).
          if \<not> changed then Inr (ONode k l r h s, False)
          else bind_res (ps_balance k l right) (\<lambda>n. Inr (n, True))))"

text \<open>The key of \<open>_avl_least_node\<close> of the node with this key and left child.\<close>

fun ps_least_key :: "string \<Rightarrow> string_node \<Rightarrow> string" where
  "ps_least_key k ONone = k"
| "ps_least_key k (ONode k' l r h s) = ps_least_key k' l"

fun ps_delete :: "string_node \<Rightarrow> string \<Rightarrow> (string_node \<times> bool) res" where
  "ps_delete ONone x = Inr (ONone, False)"
| "ps_delete (ONode k l r h s) x =
     (if x < k then
        bind_res (ps_delete l x) (\<lambda>(left, changed).
          if \<not> changed then Inr (ONode k l r h s, False)
          else bind_res (ps_balance k left r) (\<lambda>n. Inr (n, True)))
      else if k < x then
        bind_res (ps_delete r x) (\<lambda>(right, changed).
          if \<not> changed then Inr (ONode k l r h s, False)
          else bind_res (ps_balance k l right) (\<lambda>n. Inr (n, True)))
      else if l = ONone then Inr (r, True)
      else case r of
        ONone \<Rightarrow> Inr (l, True)
      | ONode rk rl _ _ _ \<Rightarrow>
          (let successor = ps_least_key rk rl in
           bind_res (ps_delete r successor) (\<lambda>(right, removed).
             if \<not> removed then Inl AssertionError
             else bind_res (ps_balance successor l right) (\<lambda>n. Inr (n, True)))))"

fun ps_member :: "string_node \<Rightarrow> string \<Rightarrow> bool" where
  "ps_member ONone x = False"
| "ps_member (ONode k l r h s) x = (if x = k then True else ps_member (if x < k then l else r) x)"

section \<open>Traversal\<close>

text \<open>
  \<open>_avl_first\<close>: the inner loop pushes the left spine on the stack, and the outer loop pops a node,
  appends its key and continues at its right child, until \<open>limit\<close> keys are collected.
\<close>

fun ps_descend :: "string_node \<Rightarrow> string_node list \<Rightarrow> string_node list" where
  "ps_descend ONone stack = stack"
| "ps_descend (ONode k l r h s) stack = ps_descend l (ONode k l r h s # stack)"

function ps_walk :: "int \<Rightarrow> string_node \<Rightarrow> string_node list \<Rightarrow> string list \<Rightarrow> string list" where
  "ps_walk limit current stack result =
     (if (current \<noteq> ONone \<or> stack \<noteq> []) \<and> int (length result) < limit then
        (case ps_descend current stack of
           ONode k l r h s # stack' \<Rightarrow> ps_walk limit r stack' (result @ [k])
         | _ \<Rightarrow> result)
      else result)"
  by auto
termination
  by (relation "measure (\<lambda>(limit, current, stack, result). nat (limit - int (length result)))") auto

declare ps_walk.simps [simp del]

definition ps_take :: "string_node \<Rightarrow> int \<Rightarrow> string list" where
  "ps_take t limit = (if t = ONone \<or> limit \<le> 0 then [] else ps_walk limit t [] [])"

section \<open>The set\<close>

definition ps_add :: "string_node \<Rightarrow> string \<Rightarrow> (string_node \<times> bool) res" where
  "ps_add t k = bind_res (require_text k) (\<lambda>_. ps_insert t k)"

definition ps_remove :: "string_node \<Rightarrow> string \<Rightarrow> (string_node \<times> bool) res" where
  "ps_remove t k = bind_res (require_text k) (\<lambda>_. ps_delete t k)"

definition ps_contains :: "string_node \<Rightarrow> string \<Rightarrow> bool res" where
  "ps_contains t k = bind_res (require_text k) (\<lambda>_. Inr (ps_member t k))"

definition ps_least :: "string_node \<Rightarrow> string option" where
  "ps_least t = (case t of ONone \<Rightarrow> None | ONode k l r h s \<Rightarrow> Some (ps_least_key k l))"

definition ps_first :: "string_node \<Rightarrow> int \<Rightarrow> string list res" where
  "ps_first t limit = bind_res (require_integer limit (Some 0) None) (\<lambda>_. Inr (ps_take t limit))"

definition ps_items :: "string_node \<Rightarrow> string list" where
  "ps_items t = ps_take t (opt_size t)"

text \<open>\<open>_avl_audit\<close>: heights and sizes recomputed, with the issues of the node before those below it.\<close>

fun ps_audit :: "string_node \<Rightarrow> string option \<Rightarrow> string option \<Rightarrow> int \<times> int \<times> string list" where
  "ps_audit ONone lower upper = (0, 0, [])"
| "ps_audit (ONode k l r h s) lower upper =
     (let below = (case lower of None \<Rightarrow> False | Some b \<Rightarrow> k \<le> b);
          above = (case upper of None \<Rightarrow> False | Some b \<Rightarrow> b \<le> k);
          (left_height, left_size, left_issues) = ps_audit l lower (Some k);
          (right_height, right_size, right_issues) = ps_audit r (Some k) upper;
          expected_height = 1 + max left_height right_height;
          expected_size = 1 + left_size + right_size in
      (expected_height, expected_size,
       (if below then [''avl_key_not_above_lower_bound''] else []) @
       (if above then [''avl_key_not_below_upper_bound''] else []) @ left_issues @ right_issues @
       (if h \<noteq> expected_height then [''avl_height_mismatch''] else []) @
       (if s \<noteq> expected_size then [''avl_size_mismatch''] else []) @
       (if 1 < \<bar>left_height - right_height\<bar> then [''avl_balance_violation''] else [])))"

definition ps_audit_issues :: "string_node \<Rightarrow> string list" where
  "ps_audit_issues t = snd (snd (ps_audit t None None))"

section \<open>The shared scheme\<close>

lemma ps_node_refresh: "ps_node = opt_refresh"
  by (intro ext) (simp add: ps_node_def opt_refresh_def)

lemma ps_rotate_left_opt: "ps_rotate_left = opt_rotate_left"
proof
  fix t show "ps_rotate_left t = opt_rotate_left t"
    by (induction t rule: opt_rotate_left.induct) (simp_all add: ps_node_refresh)
qed

lemma ps_rotate_right_opt: "ps_rotate_right = opt_rotate_right"
proof
  fix t show "ps_rotate_right t = opt_rotate_right t"
    by (induction t rule: opt_rotate_right.induct) (simp_all add: ps_node_refresh)
qed

lemma ps_balance_opt: "ps_balance = opt_balance"
  unfolding ps_balance_def opt_balance_def ps_rotate_left_opt ps_rotate_right_opt ps_node_refresh ..

lemma ps_insert_absent:
  "x \<notin> set_tree (opt_shape t) \<Longrightarrow> ps_insert t x = bind_res (opt_insert t x) (\<lambda>n. Inr (n, True))"
  by (induction t) (auto simp: ps_balance_opt ps_node_refresh opt_refresh_def bind_res_def split: sum.splits)

lemma ps_insert_present:
  "bst (opt_shape t) \<Longrightarrow> x \<in> set_tree (opt_shape t) \<Longrightarrow> ps_insert t x = Inr (t, False)"
proof (induction t)
  case (ONode k l r h s)
  consider "x = k" | "x < k" "x \<in> set_tree (opt_shape l)" | "k < x" "x \<in> set_tree (opt_shape r)"
    using ONode.prems by fastforce
  then show ?case using ONode by cases auto
qed simp

lemma ps_least_key_opt: "ps_least_key k t = opt_minimum k t"
  by (induction t arbitrary: k) simp_all

lemma ps_delete_present:
  "bst (opt_shape t) \<Longrightarrow> x \<in> set_tree (opt_shape t) \<Longrightarrow>
    ps_delete t x = bind_res (opt_delete t x) (\<lambda>n. Inr (n, True))"
proof (induction t x rule: opt_delete.induct)
  case (2 k l r h s x)
  have bst: "bst (opt_shape l)" "bst (opt_shape r)" using "2.prems" by auto
  consider "x < k" "x \<in> set_tree (opt_shape l)" | "k < x" "x \<in> set_tree (opt_shape r)"
    | "x = k" "l = ONone \<or> r = ONone" | "x = k" "l \<noteq> ONone" "r \<noteq> ONone"
    using "2.prems" by fastforce
  then show ?case
  proof cases
    case 1
    with "2.IH"(1) bst show ?thesis by (cases "opt_delete l x") (simp_all add: ps_balance_opt)
  next
    case 2
    then have "\<not> x < k" by simp
    with 2 "2.IH"(2) bst show ?thesis by (cases "opt_delete r x") (simp_all add: ps_balance_opt)
  next
    case 3
    then show ?thesis by (cases r) auto
  next
    case 4
    then obtain rk rl rr rh rs where r: "r = ONode rk rl rr rh rs" by (cases r) auto
    let ?s = "opt_minimum rk rl"
    have "?s = least (opt_shape r)" unfolding r by (rule opt_minimum_node)
    then have "?s \<in> set_tree (opt_shape r)" using 4 by (simp add: least_in_set)
    with "2.IH"(3) [OF _ _ 4(2) r] 4 bst have
      IH: "ps_delete r ?s = bind_res (opt_delete r ?s) (\<lambda>n. Inr (n, True))" by simp
    have d: "ps_delete (ONode k l r h s) x =
        bind_res (ps_delete r ?s) (\<lambda>(right, removed).
             if \<not> removed then Inl AssertionError
             else bind_res (ps_balance ?s l right) (\<lambda>n. Inr (n, True)))"
      using 4 by (simp add: r Let_def ps_least_key_opt)
    have o: "opt_delete (ONode k l r h s) x = bind_res (opt_delete r ?s) (opt_balance ?s l)"
      using 4 by (simp add: r Let_def)
    show ?thesis unfolding d o IH by (cases "opt_delete r ?s") (simp_all add: ps_balance_opt)
  qed
qed simp

lemma ps_delete_absent:
  "bst (opt_shape t) \<Longrightarrow> x \<notin> set_tree (opt_shape t) \<Longrightarrow> ps_delete t x = Inr (t, False)"
proof (induction t)
  case (ONode k l r h s)
  consider "x < k" | "k < x" using ONode.prems by fastforce
  then show ?case using ONode by cases auto
qed simp

lemma ps_member_iff: "bst (opt_shape t) \<Longrightarrow> ps_member t x \<longleftrightarrow> x \<in> set_tree (opt_shape t)"
proof (induction t)
  case (ONode k l r h s)
  consider "x = k" | "x < k" | "k < x" by fastforce
  then show ?case using ONode by cases auto
qed simp

section \<open>Traversal is in order\<close>

text \<open>What is left to visit: the nodes of the stack, each before its right subtree.\<close>

fun rest_of :: "string_node list \<Rightarrow> string list" where
  "rest_of [] = []"
| "rest_of (ONone # stack) = rest_of stack"
| "rest_of (ONode k l r h s # stack) = k # inorder (opt_shape r) @ rest_of stack"

lemma rest_of_descend: "rest_of (ps_descend t stack) = inorder (opt_shape t) @ rest_of stack"
  by (induction t arbitrary: stack) simp_all

lemma descend_nodes: "ONone \<notin> set stack \<Longrightarrow> ONone \<notin> set (ps_descend t stack)"
  by (induction t arbitrary: stack) simp_all

lemma descend_Nil: "ps_descend t stack = [] \<longleftrightarrow> t = ONone \<and> stack = []"
proof (induction t arbitrary: stack)
  case (ONode k l r h s)
  show ?case using ONode.IH(1) [of "ONode k l r h s # stack"] by simp
qed simp

lemma ps_walk_take:
  assumes "ONone \<notin> set stack" and "int (length result) \<le> limit"
  shows "ps_walk limit t stack result =
    result @ take (nat limit - length result) (inorder (opt_shape t) @ rest_of stack)"
  using assms
proof (induction limit t stack result rule: ps_walk.induct)
  case (1 limit t stack result)
  show ?case
  proof (cases "(t \<noteq> ONone \<or> stack \<noteq> []) \<and> int (length result) < limit")
    case False
    then consider "t = ONone" "stack = []" | "nat limit = length result" using "1.prems"(2) by fastforce
    then show ?thesis
    proof cases
      case 1
      then show ?thesis by (subst ps_walk.simps) simp
    next
      case 2
      then have "ps_walk limit t stack result = result" using False by (subst ps_walk.simps) auto
      then show ?thesis using 2 by simp
    qed
  next
    case True
    then have "ps_descend t stack \<noteq> []" by (simp add: descend_Nil)
    then obtain n stack' where d: "ps_descend t stack = n # stack'" by (cases "ps_descend t stack") auto
    have nodes: "n \<noteq> ONone" "ONone \<notin> set stack'" using descend_nodes [OF "1.prems"(1), of t] by (auto simp: d)
    then obtain k l r h s where n: "n = ONode k l r h s" by (cases n) auto
    have rest: "inorder (opt_shape t) @ rest_of stack = k # inorder (opt_shape r) @ rest_of stack'"
      using rest_of_descend [of t stack] by (simp add: d n)
    have "ps_walk limit t stack result = ps_walk limit r stack' (result @ [k])"
      using True by (subst ps_walk.simps) (simp add: d n)
    also have "\<dots> = (result @ [k]) @ take (nat limit - length (result @ [k])) (inorder (opt_shape r) @ rest_of stack')"
      using "1.IH" [OF True d n nodes(2)] True by simp
    also have "\<dots> = result @ take (nat limit - length result) (k # inorder (opt_shape r) @ rest_of stack')"
    proof -
      obtain d where d: "nat limit - length result = Suc d" using True by (cases "nat limit - length result") auto
      then have "nat limit - length (result @ [k]) = d" by simp
      then show ?thesis unfolding d by simp
    qed
    finally show ?thesis unfolding rest .
  qed
qed

lemma ps_take_inorder: "ps_take t limit = take (nat limit) (inorder (opt_shape t))"
  by (simp add: ps_take_def ps_walk_take)

section \<open>The set implements finite sets of identifiers\<close>

lemma ps_items_sorted:
  assumes "opt_inv t" shows "ps_items t = sorted_list_of_set (opt_elems t)"
proof -
  have "ps_items t = inorder (opt_shape t)"
    using assms by (simp add: ps_items_def ps_take_inorder opt_inv_def opt_meta_values)
  moreover have "sorted_wrt (<) (inorder (opt_shape t))"
    using assms by (simp add: opt_inv_def bst_iff_sorted_wrt_less)
  ultimately show ?thesis
    using sorted_list_of_set.idem_if_sorted_distinct [of "inorder (opt_shape t)"]
    by (simp add: strict_sorted_iff opt_elems_def)
qed

lemma ps_add_ok:
  assumes inv: "opt_inv t" and key: "\<not> blank_text k"
  shows "\<exists>t'. ps_add t k = Inr (t', k \<notin> opt_elems t) \<and> opt_inv t' \<and> opt_elems t' = insert k (opt_elems t) \<and>
    (k \<in> opt_elems t \<longrightarrow> t' = t)"
proof (cases "k \<in> opt_elems t")
  case True
  then have "ps_insert t k = Inr (t, False)"
    using inv by (intro ps_insert_present) (simp_all add: opt_inv_def opt_elems_def)
  then show ?thesis using True inv key by (auto simp: ps_add_def require_text_def)
next
  case False
  from opt_insert_ok [OF inv False] obtain t' where
    t': "opt_insert t k = Inr t'" "opt_inv t'" "opt_elems t' = insert k (opt_elems t)" by blast
  have "ps_insert t k = bind_res (opt_insert t k) (\<lambda>n. Inr (n, True))"
    using False by (intro ps_insert_absent) (simp add: opt_elems_def)
  then show ?thesis using t' False key by (simp add: ps_add_def require_text_def)
qed

lemma ps_remove_ok:
  assumes inv: "opt_inv t" and key: "\<not> blank_text k"
  shows "\<exists>t'. ps_remove t k = Inr (t', k \<in> opt_elems t) \<and> opt_inv t' \<and> opt_elems t' = opt_elems t - {k} \<and>
    (k \<notin> opt_elems t \<longrightarrow> t' = t)"
proof (cases "k \<in> opt_elems t")
  case False
  then have "ps_delete t k = Inr (t, False)"
    using inv by (intro ps_delete_absent) (simp_all add: opt_inv_def opt_elems_def)
  then show ?thesis using False inv key by (auto simp: ps_remove_def require_text_def)
next
  case True
  from opt_delete_ok [OF inv True] obtain t' where
    t': "opt_delete t k = Inr t'" "opt_inv t'" "opt_elems t' = opt_elems t - {k}" by blast
  have "ps_delete t k = bind_res (opt_delete t k) (\<lambda>n. Inr (n, True))"
    using True inv by (intro ps_delete_present) (simp_all add: opt_inv_def opt_elems_def)
  then show ?thesis using t' True key by (simp add: ps_remove_def require_text_def)
qed

lemma ps_contains_ok:
  "opt_inv t \<Longrightarrow> \<not> blank_text k \<Longrightarrow> ps_contains t k = Inr (k \<in> opt_elems t)"
  by (simp add: ps_contains_def require_text_def ps_member_iff opt_inv_def opt_elems_def)

lemma ps_least_ok:
  assumes "opt_inv t"
  shows "ps_least t = (if opt_elems t = {} then None else Some (Min (opt_elems t)))"
proof (cases t)
  case (ONode k l r h s)
  let ?s = "opt_shape t"
  have least: "ps_least t = Some (least ?s)"
    using opt_minimum_node [of k l r h s] by (simp add: ONode ps_least_def ps_least_key_opt)
  have "?s \<noteq> Leaf" by (simp add: ONode)
  then have "least ?s \<in> opt_elems t" "\<And>x. x \<in> opt_elems t \<Longrightarrow> least ?s \<le> x"
    using least_in_set [OF \<open>?s \<noteq> Leaf\<close>] least_le [OF \<open>?s \<noteq> Leaf\<close>] assms
    by (simp_all add: opt_elems_def opt_inv_def)
  then have "Min (opt_elems t) = least ?s" "opt_elems t \<noteq> {}"
    using opt_set.finite [OF assms] by (auto intro: Min_eqI)
  then show ?thesis using least by simp
qed (simp add: ps_least_def opt_elems_def)

section \<open>The audit accepts exactly the well-formed sets\<close>

lemma ps_audit_values:
  "fst (ps_audit t lower upper) = int (height (opt_shape t)) \<and> fst (snd (ps_audit t lower upper)) = int (size (opt_shape t))"
  by (induction t arbitrary: lower upper) (simp_all add: Let_def case_prod_beta of_nat_max)

lemma ps_audit_iff:
  "snd (snd (ps_audit t lower upper)) = [] \<longleftrightarrow> opt_inv t \<and> (\<forall>x \<in> opt_elems t. in_bounds lower upper x)"
proof
  assume "snd (snd (ps_audit t lower upper)) = []"
  then have "opt_check t lower upper = Inr (int (height (opt_shape t)), int (size (opt_shape t)))"
  proof (induction t arbitrary: lower upper)
    case (ONode k l r h s)
    note V = ps_audit_values [of l lower "Some k"] ps_audit_values [of r "Some k" upper]
    have parts: "snd (snd (ps_audit l lower (Some k))) = []" "snd (snd (ps_audit r (Some k) upper)) = []"
      "h = 1 + max (int (height (opt_shape l))) (int (height (opt_shape r)))"
      "s = 1 + int (size (opt_shape l)) + int (size (opt_shape r))"
      "\<bar>int (height (opt_shape l)) - int (height (opt_shape r))\<bar> \<le> 1"
      "in_bounds lower upper k"
      using ONode.prems V by (auto simp: Let_def case_prod_beta in_bounds_def split: if_splits option.splits)
    from ONode.IH(1) [OF parts(1)] ONode.IH(2) [OF parts(2)] parts(3-6) show ?case
      by (simp add: in_bounds_def Let_def of_nat_max split: option.splits)
  qed simp
  from opt_check_sound [OF this] show "opt_inv t \<and> (\<forall>x \<in> opt_elems t. in_bounds lower upper x)" by blast
next
  assume "opt_inv t \<and> (\<forall>x \<in> opt_elems t. in_bounds lower upper x)"
  then have "opt_check t lower upper = Inr (int (height (opt_shape t)), int (size (opt_shape t)))"
    by (intro opt_check_complete) blast+
  then show "snd (snd (ps_audit t lower upper)) = []"
  proof (induction t arbitrary: lower upper)
    case (ONode k l r h s)
    note V = ps_audit_values [of l lower "Some k"] ps_audit_values [of r "Some k" upper]
    from ONode.prems obtain lh ls rh rs where
      k: "in_bounds lower upper k"
      and l: "opt_check l lower (Some k) = Inr (lh, ls)" and r: "opt_check r (Some k) upper = Inr (rh, rs)"
      and meta: "h = 1 + max lh rh" "s = 1 + ls + rs" "\<bar>lh - rh\<bar> \<le> 1"
      by (auto simp: res_simps in_bounds_def Let_def split: if_splits option.splits)
    have "lh = int (height (opt_shape l))" "ls = int (size (opt_shape l))"
      "rh = int (height (opt_shape r))" "rs = int (size (opt_shape r))"
      using opt_check_sound [OF l] opt_check_sound [OF r] by blast+
    with l r have parts: "snd (snd (ps_audit l lower (Some k))) = []" "snd (snd (ps_audit r (Some k) upper)) = []"
      using ONode.IH by simp_all
    with k meta V show ?case
      using \<open>lh = _\<close> \<open>ls = _\<close> \<open>rh = _\<close> \<open>rs = _\<close>
      by (auto simp: Let_def case_prod_beta in_bounds_def split: option.splits)
  qed simp
qed

lemma ps_audit_issues_iff: "ps_audit_issues t = [] \<longleftrightarrow> opt_inv t"
  by (simp add: ps_audit_issues_def ps_audit_iff in_bounds_def)

end
