(* ===== verification/GL_M5Digests.thy ===== *)
theory GL_M5Digests
  imports GL_Domain "HOL-Library.Word"
begin

text \<open>
  The normalization and digest primitives of \<open>m5/digests.py\<close>.  A digest hashes a domain tag and a
  list of typed values, each expanded into text fields, each field encoded in UTF-8 and framed by its
  eight-byte big-endian length.  The hash \<open>hashlib.sha256(bytes).hexdigest()\<close> is the parameter
  \<open>sha256\<close>.  The type checks on arguments (\<open>isinstance\<close>) are what the types here state.
  Two idealisations: a finite float is a rational, so \<open>-0.0\<close> is \<open>0.0\<close>, and \<open>str\<close> of an integer has no
  digit limit.
\<close>

section \<open>Prefix codes\<close>

text \<open>
  The three layers of the encoding share one contract: a decoder that recognises the end of an
  encoded item in any longer input.  \<open>stream\<close> decodes an input made of such items; its fuel is the
  length of the input.
\<close>

fun stream :: "('b list \<Rightarrow> ('a \<times> 'b list) option) \<Rightarrow> nat \<Rightarrow> 'b list \<Rightarrow> 'a list option" where
  "stream dec fuel [] = Some []"
| "stream dec 0 (b # bs) = None"
| "stream dec (Suc fuel) (b # bs) =
     (case dec (b # bs) of
        None \<Rightarrow> None
      | Some (x, rest) \<Rightarrow> map_option ((#) x) (stream dec fuel rest))"

locale prefix_code =
  fixes enc :: "'a \<Rightarrow> 'b list" and dec :: "'b list \<Rightarrow> ('a \<times> 'b list) option" and ok :: "'a \<Rightarrow> bool"
  assumes dec_enc: "ok x \<Longrightarrow> dec (enc x @ rest) = Some (x, rest)"
    and enc_nonempty: "ok x \<Longrightarrow> enc x \<noteq> []"
begin

lemma stream_concat_fuel:
  "\<forall>x \<in> set xs. ok x \<Longrightarrow> length (concat (map enc xs)) \<le> fuel \<Longrightarrow>
   stream dec fuel (concat (map enc xs)) = Some xs"
proof (induction xs arbitrary: fuel)
  case (Cons x xs)
  from Cons.prems(1) have x: "ok x" by simp
  then obtain b bs where enc: "enc x = b # bs" using enc_nonempty by (cases "enc x") auto
  with Cons.prems(2) obtain fuel' where fuel: "fuel = Suc fuel'" by (cases fuel) auto
  have "dec (b # bs @ concat (map enc xs)) = Some (x, concat (map enc xs))"
    using dec_enc [OF x] enc by simp
  then show ?case using Cons enc fuel by simp
qed simp

lemma stream_concat:
  assumes "\<forall>x \<in> set xs. ok x"
  shows "stream dec (length (concat (map enc xs))) (concat (map enc xs)) = Some xs"
  using assms by (rule stream_concat_fuel) simp

end

section \<open>Normalization\<close>

definition whitespace_codepoints :: "int set" where
  "whitespace_codepoints =
     {9..<14} \<union> {28..<33} \<union> {133, 160, 5760} \<union> {8192..<8203} \<union> {8232, 8233, 8239, 8287, 12288}"

definition normalize_step :: "int \<Rightarrow> py_text \<times> bool \<Rightarrow> py_text \<times> bool" where
  "normalize_step c st =
     (let (output, pending_space) = st in
      if c \<in> whitespace_codepoints then (output, pending_space \<or> output \<noteq> [])
      else if pending_space then (output @ [32] @ [c], False)
      else (output @ [c], pending_space))"

definition normalize_text_v1 :: "py_text \<Rightarrow> py_text" where
  "normalize_text_v1 value = fst (fold normalize_step value ([], False))"

section \<open>Fields\<close>

text \<open>Source strings used as field contents, and \<open>str(i)\<close>.\<close>

definition py :: "string \<Rightarrow> py_text" where
  "py s = map of_char s"

function py_digits :: "nat \<Rightarrow> py_text" where
  "py_digits n = (if n < 10 then [48 + int n] else py_digits (n div 10) @ [48 + int (n mod 10)])"
  by pat_completeness auto
termination
  by (relation "measure id") auto

declare py_digits.simps [simp del]

definition py_str_int :: "int \<Rightarrow> py_text" where
  "py_str_int i = (if i < 0 then 45 # py_digits (nat (- i)) else py_digits (nat i))"

type_synonym typed_fields = "py_text list"

definition text_field :: "py_text \<Rightarrow> typed_fields res" where
  "text_field v = (if v = [] then Inl ValidationError else Inr [py ''text'', v])"

definition null_field :: typed_fields where
  "null_field = [py ''null'']"

definition int_field :: "int \<Rightarrow> typed_fields" where
  "int_field i = [py ''int'', py_str_int i]"

definition bool_field :: "bool \<Rightarrow> typed_fields" where
  "bool_field b = [py ''bool'', if b then py ''1'' else py ''0'']"

definition enum_field :: "py_text \<Rightarrow> typed_fields res" where
  "enum_field v = (if v = [] then Inl ValidationError else Inr [py ''enum'', v])"

definition is_hash :: "py_text \<Rightarrow> bool" where
  "is_hash v \<longleftrightarrow> length v = 64 \<and> (\<forall>c \<in> set v. c \<in> set (py ''0123456789abcdef''))"

definition hash_field :: "py_text \<Rightarrow> typed_fields res" where
  "hash_field v = (if is_hash v then Inr [py ''sha256'', v] else Inl ValidationError)"

text \<open>\<open>pack\<close> is \<open>struct.pack(">d", x).hex()\<close>.\<close>

fun f64_field :: "(rat \<Rightarrow> py_text) \<Rightarrow> pyfloat \<Rightarrow> typed_fields res" where
  "f64_field pack (Finite q) = Inr [py ''f64'', pack q]"
| "f64_field pack _ = Inl ValidationError"

definition sequence_field :: "typed_fields list \<Rightarrow> typed_fields" where
  "sequence_field values = [py ''sequence''] @ int_field (int (length values)) @ concat values"

definition option_field :: "typed_fields option \<Rightarrow> typed_fields" where
  "option_field v = (case v of None \<Rightarrow> null_field | Some fs \<Rightarrow> fs)"

section \<open>Bytes\<close>

text \<open>\<open>character.encode("utf-8")\<close>; a surrogate has no encoding.\<close>

definition byte :: "int \<Rightarrow> 8 word" where
  "byte = word_of_int"

definition scalar_value :: "int \<Rightarrow> bool" where
  "scalar_value c \<longleftrightarrow> (0 \<le> c \<and> c < 55296) \<or> (57344 \<le> c \<and> c < 1114112)"

definition utf8_bytes :: "int \<Rightarrow> 8 word list" where
  "utf8_bytes c =
     (if c < 128 then [byte c]
      else if c < 2048 then [byte (192 + c div 64), byte (128 + c mod 64)]
      else if c < 65536 then
        [byte (224 + c div 4096), byte (128 + c div 64 mod 64), byte (128 + c mod 64)]
      else
        [byte (240 + c div 262144), byte (128 + c div 4096 mod 64),
         byte (128 + c div 64 mod 64), byte (128 + c mod 64)])"

definition utf8_encode :: "py_text \<Rightarrow> 8 word list res" where
  "utf8_encode t =
     (if \<forall>c \<in> set t. scalar_value c then Inr (concat (map utf8_bytes t)) else Inl ValueError)"

definition normalized_text_hash_v1 :: "(8 word list \<Rightarrow> string) \<Rightarrow> py_text \<Rightarrow> string res" where
  "normalized_text_hash_v1 sha256 value =
     bind_res (utf8_encode (normalize_text_v1 value)) (\<lambda>bs. Inr (sha256 bs))"

text \<open>\<open>len(encoded).to_bytes(8, "big")\<close> followed by the encoded bytes.\<close>

definition length_bytes :: "nat \<Rightarrow> 8 word list" where
  "length_bytes n = map (\<lambda>k. byte (int n div 256 ^ k)) [7, 6, 5, 4, 3, 2, 1, 0]"

text \<open>The same with the powers written out, for evaluation.\<close>

lemma length_bytes_code [code]:
  "length_bytes n = (let m = int n in map byte
     [m div 72057594037927936, m div 281474976710656, m div 1099511627776, m div 4294967296,
      m div 16777216, m div 65536, m div 256, m])"
  by (simp add: length_bytes_def Let_def)

definition frame :: "8 word list \<Rightarrow> 8 word list" where
  "frame encoded = length_bytes (length encoded) @ encoded"

definition stable_m5_digest :: "(8 word list \<Rightarrow> string) \<Rightarrow> py_text \<Rightarrow> typed_fields list \<Rightarrow> string res" where
  "stable_m5_digest sha256 domain_tag values =
     (if domain_tag = [] then Inl ValidationError
      else bind_res (traverse utf8_encode (domain_tag # concat values)) (\<lambda>encoded.
             Inr (sha256 (concat (map frame encoded)))))"

section \<open>Normalization is the one of the base domain\<close>

lemma whitespace_codepoints_eq: "whitespace_codepoints = set py_whitespace"
proof -
  have r: "{9..<14::int} = {9, 10, 11, 12, 13}" "{28..<33::int} = {28, 29, 30, 31, 32}"
    "{8192..<8203::int} = {8192, 8193, 8194, 8195, 8196, 8197, 8198, 8199, 8200, 8201, 8202}"
    unfolding set_eq_iff by (simp_all, presburger+)
  show ?thesis unfolding whitespace_codepoints_def py_whitespace_def r by auto
qed

lemma normalize_step_iff:
  "normalize_step c (out, pend) =
     (if py_isspace c then (out, pend \<or> out \<noteq> [])
      else if pend then (out @ [32, c], False) else (out @ [c], False))"
  by (auto simp: normalize_step_def py_isspace_def whitespace_codepoints_eq)

definition py_rstrip :: "py_text \<Rightarrow> py_text" where
  "py_rstrip t = rev (dropWhile py_isspace (rev t))"

lemma dropWhile_append_cases:
  "dropWhile P (xs @ ys) = (if \<forall>x \<in> set xs. P x then dropWhile P ys else dropWhile P xs @ ys)"
  by (induction xs) auto

lemma py_rstrip_simps [simp]:
  "py_rstrip [] = []"
  "py_rstrip (c # cs) = (if (\<forall>x \<in> set cs. py_isspace x) \<and> py_isspace c then [] else c # py_rstrip cs)"
  by (auto simp: py_rstrip_def dropWhile_append_cases)

lemma py_rstrip_blank: "\<forall>x \<in> set cs. py_isspace x \<Longrightarrow> py_rstrip cs = []"
  by (induction cs) auto

lemma dropWhile_rstrip:
  "\<not> (\<forall>x \<in> set cs. py_isspace x) \<Longrightarrow> dropWhile py_isspace (py_rstrip cs) = py_rstrip (dropWhile py_isspace cs)"
  by (induction cs) auto

lemma normalize_fold:
  assumes "out \<noteq> []"
  shows "fst (fold normalize_step t (out, pend)) =
     out @ (if pend then if \<forall>x \<in> set t. py_isspace x then []
                         else 32 # sub_whitespace_runs (py_rstrip (dropWhile py_isspace t))
            else sub_whitespace_runs (py_rstrip t))"
  using assms
proof (induction t arbitrary: out pend)
  case (Cons c cs)
  then show ?case
    by (cases pend; cases "py_isspace c") (auto simp: normalize_step_iff py_rstrip_blank dropWhile_rstrip)
qed simp

lemma normalize_text_v1_normalized: "normalize_text_v1 t = normalized_text t"
proof -
  have "fst (fold normalize_step t ([], False)) = sub_whitespace_runs (py_rstrip (dropWhile py_isspace t))"
  proof (induction t)
    case (Cons c cs)
    then show ?case by (auto simp: normalize_step_iff normalize_fold)
  qed simp
  then show ?thesis
    by (simp add: normalize_text_v1_def normalized_text_def py_strip_def py_rstrip_def)
qed

section \<open>Decoding bytes\<close>

lemma uint_byte [simp]: "0 \<le> x \<Longrightarrow> x < 256 \<Longrightarrow> uint (byte x) = x"
  by (simp add: byte_def unsigned_of_int take_bit_int_eq_self_iff)

definition utf8_char :: "8 word list \<Rightarrow> (int \<times> 8 word list) option" where
  "utf8_char bs =
     (case map uint bs of
        [] \<Rightarrow> None
      | b # r \<Rightarrow>
          if b < 128 then Some (b, tl bs)
          else if b < 224 then
            (case r of c # _ \<Rightarrow> Some ((b - 192) * 64 + (c - 128), drop 2 bs) | _ \<Rightarrow> None)
          else if b < 240 then
            (case r of c # d # _ \<Rightarrow>
               Some ((b - 224) * 4096 + (c - 128) * 64 + (d - 128), drop 3 bs) | _ \<Rightarrow> None)
          else
            (case r of c # d # e # _ \<Rightarrow>
               Some ((b - 240) * 262144 + (c - 128) * 4096 + (d - 128) * 64 + (e - 128), drop 4 bs)
             | _ \<Rightarrow> None))"

lemma div_mod_64:
  fixes c :: int
  shows "c div 64 * 64 + c mod 64 = c" and "c div 4096 * 4096 + c div 64 mod 64 * 64 + c mod 64 = c"
    and "c div 262144 * 262144 + c div 4096 mod 64 * 4096 + c div 64 mod 64 * 64 + c mod 64 = c"
proof -
  have a: "c div 4096 = c div 64 div 64" "c div 262144 = c div 64 div 64 div 64"
    by (simp_all add: zdiv_zmult2_eq [symmetric])
  show "c div 64 * 64 + c mod 64 = c" by simp
  show "c div 4096 * 4096 + c div 64 mod 64 * 64 + c mod 64 = c" unfolding a by presburger
  show "c div 262144 * 262144 + c div 4096 mod 64 * 4096 + c div 64 mod 64 * 64 + c mod 64 = c"
    unfolding a by presburger
qed

lemma utf8_char_bytes:
  assumes "scalar_value c"
  shows "utf8_char (utf8_bytes c @ rest) = Some (c, rest)"
proof -
  have c: "0 \<le> c" "c < 1114112" using assms by (auto simp: scalar_value_def)
  have m: "0 \<le> x mod 64" "x mod 64 < 64" for x :: int by simp_all
  consider "c < 128" | "128 \<le> c" "c < 2048" | "2048 \<le> c" "c < 65536" | "65536 \<le> c" by linarith
  then show ?thesis
  proof cases
    case 1
    then show ?thesis using c by (simp add: utf8_char_def utf8_bytes_def)
  next
    case 2
    define q r where "q = c div 64" and "r = c mod 64"
    have "0 \<le> q" "q < 32" "0 \<le> r" "r < 64" "c = q * 64 + r" using 2 by (auto simp: q_def r_def)
    then show ?thesis
      using 2 unfolding utf8_bytes_def q_def [symmetric] r_def [symmetric] by (simp add: utf8_char_def)
  next
    case 3
    define q p r where "q = c div 4096" and "p = c div 64 mod 64" and "r = c mod 64"
    have "0 \<le> q" "q < 16" "0 \<le> p" "p < 64" "0 \<le> r" "r < 64" "c = q * 4096 + p * 64 + r"
      using 3 div_mod_64(2) [of c] by (auto simp: q_def p_def r_def)
    then show ?thesis
      using 3 unfolding utf8_bytes_def q_def [symmetric] p_def [symmetric] r_def [symmetric]
      by (simp add: utf8_char_def)
  next
    case 4
    define q p u r where "q = c div 262144" and "p = c div 4096 mod 64" and "u = c div 64 mod 64"
      and "r = c mod 64"
    have "0 \<le> q" "q < 8" using 4 c by (simp_all add: q_def)
    moreover have "0 \<le> p" "p < 64" "0 \<le> u" "u < 64" "0 \<le> r" "r < 64"
      by (simp_all add: p_def u_def r_def)
    moreover have "c = q * 262144 + p * 4096 + u * 64 + r"
      unfolding q_def p_def u_def r_def by (rule div_mod_64(3) [symmetric])
    ultimately
    show ?thesis
      using 4 unfolding utf8_bytes_def q_def [symmetric] p_def [symmetric] u_def [symmetric] r_def [symmetric]
      by (simp add: utf8_char_def)
  qed
qed

interpretation utf8: prefix_code utf8_bytes utf8_char scalar_value
  by unfold_locales (rule utf8_char_bytes, simp_all add: utf8_bytes_def)

definition utf8_decode :: "8 word list \<Rightarrow> py_text option" where
  "utf8_decode bs = stream utf8_char (length bs) bs"

lemma utf8_encode_Inr: "utf8_encode t = Inr bs \<longleftrightarrow> (\<forall>c \<in> set t. scalar_value c) \<and> bs = concat (map utf8_bytes t)"
  by (auto simp: utf8_encode_def)

lemma utf8_decode_encode: "utf8_encode t = Inr bs \<Longrightarrow> utf8_decode bs = Some t"
  by (auto simp: utf8_encode_Inr utf8_decode_def utf8.stream_concat)

definition bytes_length :: "8 word list \<Rightarrow> nat" where
  "bytes_length bs = nat (foldl (\<lambda>acc b. acc * 256 + uint b) 0 bs)"

definition unframe :: "8 word list \<Rightarrow> (8 word list \<times> 8 word list) option" where
  "unframe bs =
     (let n = bytes_length (take 8 bs); r = drop 8 bs in
      if length bs < 8 \<or> length r < n then None else Some (take n r, drop n r))"

lemma foldl_base_256:
  "foldl (\<lambda>acc b. acc * 256 + uint b) acc (map (\<lambda>k. byte (x div 256 ^ k)) (rev [0..<n])) =
     acc * 256 ^ n + x mod 256 ^ n"
proof (induction n arbitrary: acc)
  case (Suc n)
  have "x mod (256 ^ n * 256) = 256 ^ n * (x div 256 ^ n mod 256) + x mod 256 ^ n"
    by (rule zmod_zmult2_eq) simp
  then show ?case
    using Suc.IH [of "acc * 256 + x div 256 ^ n mod 256"]
    by (simp add: byte_def unsigned_of_int take_bit_eq_mod algebra_simps)
qed simp

lemma bytes_length_bytes:
  assumes "n < 2 ^ 64"
  shows "bytes_length (length_bytes n) = n"
proof -
  have "[7, 6, 5, 4, 3, 2, 1, 0] = rev [0..<8::nat]" by (simp add: upt_rec)
  moreover have "int n < 256 ^ 8" using assms by simp
  ultimately show ?thesis
    using foldl_base_256 [of 0 "int n" 8] by (simp add: bytes_length_def length_bytes_def)
qed

lemma unframe_frame:
  assumes "length bs < 2 ^ 64"
  shows "unframe (frame bs @ rest) = Some (bs, rest)"
proof -
  have "length (length_bytes (length bs)) = 8" by (simp add: length_bytes_def)
  then show ?thesis using bytes_length_bytes [OF assms] by (simp add: unframe_def frame_def)
qed

interpretation frames: prefix_code frame unframe "\<lambda>bs. length bs < 2 ^ 64"
  by unfold_locales (simp_all add: unframe_frame, simp add: frame_def length_bytes_def)

section \<open>Decoding typed values\<close>

text \<open>The values the field functions expand, and a reader of their expansions.\<close>

datatype typed_value =
    VText py_text | VNull | VInt int | VBool bool | VEnum py_text | VHash py_text | VF64 py_text
  | VSequence "typed_value list"

fun fields_of :: "typed_value \<Rightarrow> typed_fields" where
  "fields_of (VText v) = [py ''text'', v]"
| "fields_of VNull = null_field"
| "fields_of (VInt i) = int_field i"
| "fields_of (VBool b) = bool_field b"
| "fields_of (VEnum v) = [py ''enum'', v]"
| "fields_of (VHash v) = [py ''sha256'', v]"
| "fields_of (VF64 v) = [py ''f64'', v]"
| "fields_of (VSequence vs) = sequence_field (map fields_of vs)"

definition digits_value :: "py_text \<Rightarrow> int" where
  "digits_value = foldl (\<lambda>acc c. acc * 10 + (c - 48)) 0"

definition read_int :: "py_text \<Rightarrow> int" where
  "read_int t = (case t of c # cs \<Rightarrow> if c = 45 then - digits_value cs else digits_value t | [] \<Rightarrow> 0)"

text \<open>\<open>read_values fuel n\<close> reads \<open>n\<close> values.\<close>

fun read_values :: "nat \<Rightarrow> nat \<Rightarrow> typed_fields \<Rightarrow> (typed_value list \<times> typed_fields) option" where
  "read_values fuel 0 fs = Some ([], fs)"
| "read_values 0 (Suc n) fs = None"
| "read_values (Suc fuel) (Suc n) fs =
     (let more = (\<lambda>v r. map_option (apfst ((#) v)) (read_values fuel n r)) in
      case fs of
        [] \<Rightarrow> None
      | tag # r \<Rightarrow>
          if tag = py ''null'' then more VNull r
          else (case r of
              [] \<Rightarrow> None
            | x # r' \<Rightarrow>
                if tag = py ''text'' then more (VText x) r'
                else if tag = py ''int'' then more (VInt (read_int x)) r'
                else if tag = py ''bool'' then more (VBool (x = py ''1'')) r'
                else if tag = py ''enum'' then more (VEnum x) r'
                else if tag = py ''sha256'' then more (VHash x) r'
                else if tag = py ''f64'' then more (VF64 x) r'
                else (case r' of
                    [] \<Rightarrow> None
                  | m # r'' \<Rightarrow>
                      (case read_values fuel (nat (read_int m)) r'' of
                         None \<Rightarrow> None
                       | Some (vs, rest) \<Rightarrow> more (VSequence vs) rest))))"

fun value_size :: "typed_value \<Rightarrow> nat" where
  "value_size (VSequence vs) = Suc (sum_list (map value_size vs))"
| "value_size _ = 1"

lemma of_char_int_inject [simp]: "(of_char a :: int) = of_char b \<longleftrightarrow> a = b"
  using inj_of_char by (simp add: inj_eq)

lemma py_inject [simp]: "py a = py b \<longleftrightarrow> a = b"
  unfolding py_def by (simp add: inj_map_eq_map inj_def)

lemma py_digits_range: "\<forall>c \<in> set (py_digits n). 48 \<le> c \<and> c \<le> 57"
  by (induction n rule: py_digits.induct) (subst py_digits.simps, auto)

lemma py_digits_nonempty: "py_digits n \<noteq> []"
  by (subst py_digits.simps) simp

lemma digits_value_append: "digits_value (cs @ [c]) = digits_value cs * 10 + (c - 48)"
  by (simp add: digits_value_def)

lemma digits_value_digits: "digits_value (py_digits n) = int n"
proof (induction n rule: py_digits.induct)
  case (1 n)
  show ?case
  proof (cases "n < 10")
    case True
    then show ?thesis by (subst py_digits.simps) (simp add: digits_value_def)
  next
    case False
    have "digits_value (py_digits n) = int (n div 10) * 10 + int (n mod 10)"
      using False 1 by (subst py_digits.simps) (simp add: digits_value_append)
    also have "\<dots> = int n" by presburger
    finally show ?thesis .
  qed
qed

lemma read_int_str [simp]: "read_int (py_str_int i) = i"
proof (cases "i < 0")
  case True
  then show ?thesis by (simp add: read_int_def py_str_int_def digits_value_digits)
next
  case False
  obtain c cs where d: "py_digits (nat i) = c # cs" using py_digits_nonempty by (cases "py_digits (nat i)") auto
  then have "c \<noteq> 45" using py_digits_range [of "nat i"] by auto
  then show ?thesis
    using False d digits_value_digits [of "nat i"] by (simp add: read_int_def py_str_int_def)
qed

lemma value_size_pos [simp]: "0 < value_size v" "value_size v \<noteq> 0"
  by (cases v; simp)+

lemma read_values_fields:
  "sum_list (map value_size vs) \<le> fuel \<Longrightarrow>
   read_values fuel (length vs) (concat (map fields_of vs) @ rest) = Some (vs, rest)"
proof (induction fuel arbitrary: vs rest)
  case 0
  then show ?case by (cases vs) auto
next
  case (Suc fuel)
  show ?case
  proof (cases vs)
    case (Cons v ws)
    then have "value_size v + sum_list (map value_size ws) \<le> Suc fuel" using Suc.prems by simp
    then have ws: "read_values fuel (length ws) (concat (map fields_of ws) @ rest) = Some (ws, rest)"
      using value_size_pos(1) [of v] by (intro Suc.IH) linarith
    show ?thesis
    proof (cases v)
      case (VSequence us)
      have "read_values fuel (length us) (concat (map fields_of us) @ concat (map fields_of ws) @ rest) =
          Some (us, concat (map fields_of ws) @ rest)"
        using Suc.prems Cons VSequence by (intro Suc.IH) simp
      then show ?thesis
        using ws Cons VSequence by (simp add: sequence_field_def int_field_def)
    qed (use ws Cons in \<open>simp_all add: null_field_def int_field_def bool_field_def\<close>)
  qed simp
qed

lemma value_size_le_fields: "value_size v \<le> length (fields_of v)"
proof (induction v)
  case (VSequence vs)
  then have "sum_list (map value_size vs) \<le> length (concat (map fields_of vs))"
    by (induction vs) (auto simp: add_mono)
  then show ?case by (simp add: sequence_field_def int_field_def)
qed (simp_all add: null_field_def int_field_def bool_field_def)

definition read_value :: "typed_fields \<Rightarrow> (typed_value \<times> typed_fields) option" where
  "read_value fs = map_option (apfst hd) (read_values (length fs) 1 fs)"

lemma read_value_fields: "read_value (fields_of v @ rest) = Some (v, rest)"
  using read_values_fields [of "[v]" "length (fields_of v @ rest)" rest] value_size_le_fields [of v]
  by (simp add: read_value_def)

interpretation typed: prefix_code fields_of read_value "\<lambda>_. True"
  by unfold_locales (rule read_value_fields, metis value_size_le_fields value_size_pos(1) leD list.size(3))

text \<open>The input of the hash function, and its reader.\<close>

definition read_digest_input :: "8 word list \<Rightarrow> (py_text \<times> typed_value list) option" where
  "read_digest_input bs =
     (case stream unframe (length bs) bs of
        None \<Rightarrow> None
      | Some encoded \<Rightarrow>
          (case those (map utf8_decode encoded) of
             Some (tag # fs) \<Rightarrow> map_option (Pair tag) (stream read_value (length fs) fs)
           | _ \<Rightarrow> None))"

definition encodable :: "py_text \<Rightarrow> bool" where
  "encodable t \<longleftrightarrow> (\<forall>c \<in> set t. scalar_value c) \<and> length (concat (map utf8_bytes t)) < 2 ^ 64"

lemma traverse_utf8_encode:
  "\<forall>t \<in> set ts. encodable t \<Longrightarrow> traverse utf8_encode ts = Inr (map (\<lambda>t. concat (map utf8_bytes t)) ts)"
  by (rule traverse_Inr_map) (simp add: utf8_encode_Inr encodable_def)

lemma those_utf8_decode:
  "\<forall>t \<in> set ts. encodable t \<Longrightarrow> those (map utf8_decode (map (\<lambda>t. concat (map utf8_bytes t)) ts)) = Some ts"
proof (induction ts)
  case (Cons t ts)
  have "utf8_decode (concat (map utf8_bytes t)) = Some t"
    using Cons.prems by (intro utf8_decode_encode) (simp add: utf8_encode_Inr encodable_def)
  then show ?case using Cons by simp
qed simp

lemma stable_m5_digest_reads:
  assumes "tag \<noteq> []" and ok: "\<forall>t \<in> set (tag # concat (map fields_of vs)). encodable t"
  obtains bs where "stable_m5_digest sha256 tag (map fields_of vs) = Inr (sha256 bs)"
    and "read_digest_input bs = Some (tag, vs)"
proof -
  let ?enc = "map (\<lambda>t. concat (map utf8_bytes t)) (tag # concat (map fields_of vs))"
  let ?bs = "concat (map frame ?enc)"
  have "stable_m5_digest sha256 tag (map fields_of vs) = Inr (sha256 ?bs)"
    using assms(1) traverse_utf8_encode [OF ok] by (simp add: stable_m5_digest_def)
  moreover have "stream unframe (length ?bs) ?bs = Some ?enc"
    using ok by (intro frames.stream_concat) (auto simp: encodable_def)
  then have "read_digest_input ?bs = Some (tag, vs)"
    unfolding read_digest_input_def those_utf8_decode [OF ok]
    using those_utf8_decode [OF ok] typed.stream_concat [of vs] by simp
  ultimately show thesis by (rule that)
qed

section \<open>Property\<close>

text \<open>C40: a digest determines what was digested.  The bytes that \<open>stable_m5_digest\<close> hashes can be read
  back: for every nonempty tag and every list of typed values (texts, nulls, integers, booleans,
  enums, hashes, floats and nested sequences) whose texts have a UTF-8 encoding, the digest succeeds
  and the reader recovers the tag and the values.  Two different inputs with the same digest are
  therefore a collision of the hash function itself.\<close>

theorem digest_input_round_trip:
  assumes "tag \<noteq> []" and "\<forall>t \<in> set (tag # concat (map fields_of vs)). encodable t"
  shows "\<exists>bs. stable_m5_digest sha256 tag (map fields_of vs) = Inr (sha256 bs) \<and>
    read_digest_input bs = Some (tag, vs)"
  using stable_m5_digest_reads [OF assms] by metis

lemma length_utf8_bytes: "length (utf8_bytes c) \<le> 4"
  by (simp add: utf8_bytes_def)

lemma encodable_short:
  assumes "\<forall>c \<in> set t. scalar_value c" and "length t \<le> 1000"
  shows "encodable t"
proof -
  have "length (concat (map utf8_bytes t)) \<le> 4 * length t"
  proof (induction t)
    case (Cons c t)
    then show ?case using length_utf8_bytes [of c] by simp
  qed simp
  also have "\<dots> < 2 ^ 64" using assms(2) by simp
  finally show ?thesis using assms(1) by (simp add: encodable_def)
qed

definition demo_values :: "typed_value list" where
  "demo_values = [VText (py ''q0''), VSequence [VInt (- 12), VNull], VBool True]"

theorem digest_input_round_trip_witness:
  "\<exists>bs. stable_m5_digest (\<lambda>_. ''h'') (py ''tag'') (map fields_of demo_values) = Inr ''h'' \<and>
    read_digest_input bs = Some (py ''tag'', demo_values)"
proof -
  have "py ''tag'' \<noteq> []" by (simp add: py_def)
  moreover have "\<forall>t \<in> set (py ''tag'' # concat (map fields_of demo_values)). encodable t"
  proof -
    have "\<forall>t \<in> set (py ''tag'' # concat (map fields_of demo_values)).
        (\<forall>c \<in> set t. scalar_value c) \<and> length t \<le> 10" by code_simp
    then show ?thesis using encodable_short by fastforce
  qed
  ultimately show ?thesis using digest_input_round_trip [of "py ''tag''" demo_values "\<lambda>_. ''h''"] by blast
qed

end
