(* ===== verification/GL_M5Domain.thy ===== *)
theory GL_M5Domain
  imports GL_M5Digests GL_Repository
begin

text \<open>
  The immutable records of \<open>m5/domain.py\<close>: evidence groups with their requirements, derived states
  and certificates.  A constructor takes the record of its arguments and returns the validated record
  with its derived fields filled in, or the exception; an empty hash argument is the default.
  A snapshot point is the pair of an epoch and a revision, ordered lexicographically.
\<close>

section \<open>Checks\<close>

text \<open>A sequence of checks raises the first failure.\<close>

fun checks :: "bool list \<Rightarrow> unit res" where
  "checks [] = Inr ()"
| "checks (c # cs) = (if c then checks cs else Inl ValidationError)"

lemma checks_Inr [simp]: "checks cs = Inr u \<longleftrightarrow> (\<forall>c \<in> set cs. c)"
  by (induction cs) auto

lemma checks_error: "checks cs = Inl e \<Longrightarrow> e = ValidationError"
  by (induction cs) (auto split: if_splits)

declare checks.simps [simp del]

definition is_identifier :: "string \<Rightarrow> bool" where
  "is_identifier v \<longleftrightarrow> \<not> blank v"

type_synonym model_triple = "string option \<times> string option \<times> string option"

definition validate_model_triple :: "model_triple \<Rightarrow> bool list" where
  "validate_model_triple t =
     (let (a, b, c) = t; values = [a, b, c]; present = map (\<lambda>v. v \<noteq> None) values in
      ((\<exists>p \<in> set present. p) \<longrightarrow> (\<forall>p \<in> set present. p)) #
      map (\<lambda>v. case v of None \<Rightarrow> True | Some x \<Rightarrow> is_identifier x) values)"

section \<open>Records\<close>

datatype evidence_group_type = SUPPORT_CONJUNCTION

datatype construction_kind = GOLD | CONTROLLED | MODEL_PROPOSED

datatype claim_support_kind = SUPPORT_NONE | SUPPORT_DIRECT | SUPPORT_GROUP

fun group_type_value :: "evidence_group_type \<Rightarrow> string" where
  "group_type_value SUPPORT_CONJUNCTION = ''support_conjunction''"

fun construction_kind_value :: "construction_kind \<Rightarrow> string" where
  "construction_kind_value GOLD = ''gold''"
| "construction_kind_value CONTROLLED = ''controlled''"
| "construction_kind_value MODEL_PROPOSED = ''model_proposed''"

fun claim_support_kind_value :: "claim_support_kind \<Rightarrow> string" where
  "claim_support_kind_value SUPPORT_NONE = ''none''"
| "claim_support_kind_value SUPPORT_DIRECT = ''direct''"
| "claim_support_kind_value SUPPORT_GROUP = ''group''"

type_synonym snapshot_point = "nat \<times> nat"

record evidence_group_family =
  gf_group_family_id :: string
  gf_claim_id :: string
  gf_created_epoch :: nat

record evidence_requirement_version =
  er_requirement_version_id :: string
  er_group_version_id :: string
  er_ordinal :: int
  er_requirement_text :: py_text
  er_requirement_text_hash :: string
  er_constructor_model_id :: "string option"
  er_constructor_model_version :: "string option"
  er_constructor_prompt_version :: "string option"
  er_supersedes_requirement_version_id :: "string option"

record evidence_group_version =
  eg_group_version_id :: string
  eg_group_family_id :: string
  eg_owner_claim_id :: string
  eg_requirements :: "evidence_requirement_version list"
  eg_group_type :: evidence_group_type
  eg_construction_kind :: construction_kind
  eg_construction_source_id :: string
  eg_constructor_model_id :: "string option"
  eg_constructor_model_version :: "string option"
  eg_constructor_prompt_version :: "string option"
  eg_supersedes_group_version_id :: "string option"
  eg_semantic_structure_hash :: string
  eg_record_payload_hash :: string

record evidence_group_validity =
  gv_group_version_id :: string
  gv_valid_from_epoch :: nat
  gv_valid_to_epoch :: "nat option"

record evidence_group_family_retirement =
  rt_group_family_id :: string
  rt_retired_epoch_id :: nat
  rt_event_id :: string

record requirement_observation_record =
  ro_observation :: semantic_observation
  ro_eligible_for_currency :: bool
  ro_produced_at :: snapshot_point

record observation_currency_interval =
  ci_key :: observation_key
  ci_observation_id :: "string option"
  ci_valid_from :: snapshot_point
  ci_valid_to :: "snapshot_point option"

record requirement_witness =
  rw_requirement_version_id :: string
  rw_requirement_ordinal :: int
  rw_text_hash :: string
  rw_active_observation_ids :: "string list"

record requirement_state =
  rs_requirement_version_id :: string
  rs_witness_hashes :: "string list"
  rs_supporting_observation_ids :: "string list"
  rs_witness_count :: nat
  rs_satisfied :: bool

record group_state =
  gs_group_version_id :: string
  gs_requirement_count :: nat
  gs_satisfied_count :: nat
  gs_matching_size :: nat
  gs_complete :: bool

record combined_claim_state =
  cc_claim_id :: string
  cc_support_count :: nat
  cc_refute_count :: nat
  cc_best_support_score :: "rat option"
  cc_best_refute_score :: "rat option"
  cc_supporting_observation_ids :: "string list"
  cc_refuting_observation_ids :: "string list"
  cc_complete_group_count :: nat
  cc_complete_group_ids :: "string list"
  cc_status :: claim_status

record group_certificate_row =
  cr_requirement_ordinal :: int
  cr_requirement_version_id :: string
  cr_text_hash :: string
  cr_selected_observation_id :: string

record group_matching_certificate =
  gc_decision_policy_version :: string
  gc_group_version_id :: string
  gc_rows :: "group_certificate_row list"
  gc_certificate_version :: string
  gc_certificate_digest :: string

definition er_model_triple :: "evidence_requirement_version \<Rightarrow> model_triple" where
  "er_model_triple q =
     (er_constructor_model_id q, er_constructor_model_version q, er_constructor_prompt_version q)"

definition eg_model_triple :: "evidence_group_version \<Rightarrow> model_triple" where
  "eg_model_triple g =
     (eg_constructor_model_id g, eg_constructor_model_version g, eg_constructor_prompt_version g)"

definition validity_contains :: "evidence_group_validity \<Rightarrow> nat \<Rightarrow> bool" where
  "validity_contains v epoch \<longleftrightarrow>
     gv_valid_from_epoch v \<le> epoch \<and>
     (case gv_valid_to_epoch v of None \<Rightarrow> True | Some e \<Rightarrow> epoch < e)"

definition currency_contains :: "observation_currency_interval \<Rightarrow> snapshot_point \<Rightarrow> bool" where
  "currency_contains iv point \<longleftrightarrow>
     ci_valid_from iv \<le> point \<and> (case ci_valid_to iv of None \<Rightarrow> True | Some e \<Rightarrow> point < e)"

section \<open>Validating constructors\<close>

definition make_family :: "evidence_group_family \<Rightarrow> evidence_group_family res" where
  "make_family f =
     bind_res (checks [is_identifier (gf_group_family_id f), is_identifier (gf_claim_id f)]) (\<lambda>_. Inr f)"

definition make_validity :: "evidence_group_validity \<Rightarrow> evidence_group_validity res" where
  "make_validity v =
     bind_res (checks [is_identifier (gv_group_version_id v),
       case gv_valid_to_epoch v of None \<Rightarrow> True | Some e \<Rightarrow> gv_valid_from_epoch v < e]) (\<lambda>_. Inr v)"

definition make_retirement ::
    "evidence_group_family_retirement \<Rightarrow> evidence_group_family_retirement res" where
  "make_retirement t =
     bind_res (checks [is_identifier (rt_group_family_id t), is_identifier (rt_event_id t)]) (\<lambda>_. Inr t)"

definition make_observation_record ::
    "requirement_observation_record \<Rightarrow> requirement_observation_record res" where
  "make_observation_record t =
     bind_res (checks [ob_subject_kind (ro_observation t) = REQUIREMENT]) (\<lambda>_. Inr t)"

definition make_currency_interval ::
    "observation_currency_interval \<Rightarrow> observation_currency_interval res" where
  "make_currency_interval iv =
     bind_res (checks [fst (ci_key iv) = REQUIREMENT,
       case ci_observation_id iv of None \<Rightarrow> True | Some i \<Rightarrow> is_identifier i,
       case ci_valid_to iv of None \<Rightarrow> True | Some e \<Rightarrow> ci_valid_from iv < e]) (\<lambda>_. Inr iv)"

definition make_witness :: "requirement_witness \<Rightarrow> requirement_witness res" where
  "make_witness w =
     bind_res (checks [is_identifier (rw_requirement_version_id w), 0 \<le> rw_requirement_ordinal w,
       is_hash (py (rw_text_hash w)), rw_active_observation_ids w \<noteq> [],
       sort (remdups (rw_active_observation_ids w)) = rw_active_observation_ids w,
       \<forall>i \<in> set (rw_active_observation_ids w). is_identifier i]) (\<lambda>_. Inr w)"

text \<open>\<open>EvidenceRequirementVersion(...)\<close>.\<close>

definition make_requirement ::
    "(8 word list \<Rightarrow> string) \<Rightarrow> evidence_requirement_version \<Rightarrow> evidence_requirement_version res" where
  "make_requirement sha256 q =
     (let normalized = normalize_text_v1 (er_requirement_text q) in
      bind_res (checks [is_identifier (er_requirement_version_id q), is_identifier (er_group_version_id q),
        0 \<le> er_ordinal q, normalized \<noteq> []]) (\<lambda>_.
      bind_res (normalized_text_hash_v1 sha256 normalized) (\<lambda>expected_hash.
      bind_res (checks (
        [er_requirement_text_hash q = '''' \<or> er_requirement_text_hash q = expected_hash] @
        validate_model_triple (er_model_triple q) @
        (case er_supersedes_requirement_version_id q of
           None \<Rightarrow> []
         | Some p \<Rightarrow> [is_identifier p, p \<noteq> er_requirement_version_id q]))) (\<lambda>_.
        Inr (q\<lparr>er_requirement_text := normalized, er_requirement_text_hash := expected_hash\<rparr>)))))"

definition hash_value :: "string \<Rightarrow> typed_fields res" where
  "hash_value h = hash_field (py h)"

definition semantic_structure_digest ::
    "(8 word list \<Rightarrow> string) \<Rightarrow> evidence_group_type \<Rightarrow> evidence_requirement_version list \<Rightarrow> string res" where
  "semantic_structure_digest sha256 gt requirements =
     bind_res (enum_field (py (group_type_value gt))) (\<lambda>t.
     bind_res (traverse hash_value (sort (map er_requirement_text_hash requirements))) (\<lambda>hs.
       stable_m5_digest sha256 (py ''m5-semantic-structure-v1'') [t, sequence_field hs]))"

definition option_text :: "string option \<Rightarrow> typed_fields res" where
  "option_text v =
     (case v of
        None \<Rightarrow> Inr (option_field None)
      | Some x \<Rightarrow> bind_res (text_field (py x)) (\<lambda>f. Inr (option_field (Some f))))"

definition requirement_fields :: "evidence_requirement_version \<Rightarrow> typed_fields res" where
  "requirement_fields q =
     bind_res (text_field (py (er_requirement_version_id q))) (\<lambda>rid.
     bind_res (text_field (er_requirement_text q)) (\<lambda>txt.
     bind_res (hash_value (er_requirement_text_hash q)) (\<lambda>h.
     bind_res (traverse option_text [er_constructor_model_id q, er_constructor_model_version q,
         er_constructor_prompt_version q, er_supersedes_requirement_version_id q]) (\<lambda>opts.
       Inr (sequence_field ([rid, int_field (er_ordinal q), txt, h] @ opts))))))"

definition group_record_digest ::
    "(8 word list \<Rightarrow> string) \<Rightarrow> evidence_group_version \<Rightarrow> string res" where
  "group_record_digest sha256 g =
     bind_res (traverse requirement_fields (eg_requirements g)) (\<lambda>rows.
     bind_res (traverse text_field
       [py (eg_owner_claim_id g), py (eg_group_version_id g), py (eg_group_family_id g)]) (\<lambda>ids.
     bind_res (traverse enum_field
       [py (group_type_value (eg_group_type g)),
        py (construction_kind_value (eg_construction_kind g))]) (\<lambda>kinds.
     bind_res (text_field (py (eg_construction_source_id g))) (\<lambda>source.
     bind_res (traverse option_text [eg_constructor_model_id g, eg_constructor_model_version g,
         eg_constructor_prompt_version g, eg_supersedes_group_version_id g]) (\<lambda>opts.
     bind_res (hash_value (eg_semantic_structure_hash g)) (\<lambda>struct.
       stable_m5_digest sha256 (py ''m5-group-record-v1'')
         (ids @ kinds @ [source] @ opts @ [struct, sequence_field rows])))))))"

text \<open>The checks of \<open>EvidenceGroupVersion.__post_init__\<close> before its digests.\<close>

definition group_checks :: "evidence_group_version \<Rightarrow> bool list" where
  "group_checks g =
     (let qs = eg_requirements g; triple = eg_model_triple g in
      [is_identifier (eg_group_version_id g), is_identifier (eg_group_family_id g),
       is_identifier (eg_owner_claim_id g), is_identifier (eg_construction_source_id g),
       1 \<le> length qs \<and> length qs \<le> 8,
       map er_ordinal qs = map int [0..<length qs],
       distinct (map er_requirement_version_id qs),
       distinct (map er_requirement_text_hash qs),
       \<forall>q \<in> set qs. er_group_version_id q = eg_group_version_id g] @
      validate_model_triple triple @
      [if eg_construction_kind g \<in> {GOLD, CONTROLLED}
       then eg_constructor_model_id g = None \<and> eg_constructor_model_version g = None \<and>
            eg_constructor_prompt_version g = None
       else eg_constructor_model_id g \<noteq> None \<and> eg_constructor_model_version g \<noteq> None \<and>
            eg_constructor_prompt_version g \<noteq> None,
       \<forall>q \<in> set qs. er_model_triple q = triple] @
      (case eg_supersedes_group_version_id g of
         None \<Rightarrow> []
       | Some p \<Rightarrow> [is_identifier p, p \<noteq> eg_group_version_id g]))"

definition make_group ::
    "(8 word list \<Rightarrow> string) \<Rightarrow> evidence_group_version \<Rightarrow> evidence_group_version res" where
  "make_group sha256 g =
     bind_res (checks (group_checks g)) (\<lambda>_.
     bind_res (semantic_structure_digest sha256 (eg_group_type g) (eg_requirements g)) (\<lambda>struct.
     bind_res (checks [eg_semantic_structure_hash g = '''' \<or> eg_semantic_structure_hash g = struct]) (\<lambda>_.
     let g = g\<lparr>eg_semantic_structure_hash := struct\<rparr> in
     bind_res (group_record_digest sha256 g) (\<lambda>payload.
     bind_res (checks [eg_record_payload_hash g = '''' \<or> eg_record_payload_hash g = payload]) (\<lambda>_.
       Inr (g\<lparr>eg_record_payload_hash := payload\<rparr>))))))"

definition certificate_row_fields :: "group_certificate_row \<Rightarrow> typed_fields res" where
  "certificate_row_fields row =
     bind_res (text_field (py (cr_requirement_version_id row))) (\<lambda>rid.
     bind_res (hash_value (cr_text_hash row)) (\<lambda>h.
     bind_res (text_field (py (cr_selected_observation_id row))) (\<lambda>oid.
       Inr (sequence_field [int_field (cr_requirement_ordinal row), rid, h, oid]))))"

definition make_certificate_row :: "group_certificate_row \<Rightarrow> group_certificate_row res" where
  "make_certificate_row row =
     bind_res (checks [0 \<le> cr_requirement_ordinal row, is_identifier (cr_requirement_version_id row),
       is_hash (py (cr_text_hash row)), is_identifier (cr_selected_observation_id row)]) (\<lambda>_. Inr row)"

definition make_group_certificate ::
    "(8 word list \<Rightarrow> string) \<Rightarrow> group_matching_certificate \<Rightarrow> group_matching_certificate res" where
  "make_group_certificate sha256 c =
     (let rows = gc_rows c in
      bind_res (checks [is_identifier (gc_decision_policy_version c), is_identifier (gc_group_version_id c),
        gc_certificate_version c = ''m5-group-certificate-v1'',
        1 \<le> length rows \<and> length rows \<le> 8,
        map cr_requirement_ordinal rows = map int [0..<length rows],
        distinct (map cr_text_hash rows), distinct (map cr_requirement_version_id rows)]) (\<lambda>_.
      bind_res (text_field (py (gc_decision_policy_version c))) (\<lambda>policy.
      bind_res (text_field (py (gc_group_version_id c))) (\<lambda>gid.
      bind_res (traverse certificate_row_fields rows) (\<lambda>rfs.
      bind_res (stable_m5_digest sha256 (py ''m5-group-certificate-v1'')
          [policy, gid, int_field (int (length rows)), sequence_field rfs]) (\<lambda>expected.
      bind_res (checks [gc_certificate_digest c = '''' \<or> gc_certificate_digest c = expected]) (\<lambda>_.
        Inr (c\<lparr>gc_certificate_digest := expected\<rparr>))))))))"

end
