(* ===== verification/GL_CertIndex.thy ===== *)
theory GL_CertIndex
  imports GL_StringSet GL_EdgeCounts GL_M5Domain
begin

text \<open>
  \<open>MaintainedCertificateIndex\<close> of \<open>groundloop/m5/matching.py\<close>: for one evidence group, the active
  observations of every edge (requirement, text hash), the mask of requirements of every hash, the
  hashes of every mask, and the edge of every observation.  An update is prepared as a patch of the
  touched keys, validated and applied later, and rolled back with the token that applying returns.

  A \<open>PersistentStringSet\<close> held by the index is a pair of its object identity and its root, because
  the validation of a patch compares sets with \<open>is\<close>; the sets of a patch take the identities from
  \<open>alloc\<close> upwards.  The index has an identity too, which its patches and tokens name.  A method that
  mutates the index, the patch or the token returns them changed; the token holds the patch, so that
  the patch inside the returned token is the caller's patch object.
\<close>

unbundle bit_operations_syntax

section \<open>State\<close>

type_synonym edge = "int \<times> string"
type_synonym stored_set = "nat \<times> string_node"

record observation_delta =
  od_requirement_ordinal :: int
  od_text_hash :: string
  od_observation_id :: string
  od_delta :: int

definition make_observation_delta :: "int \<Rightarrow> string \<Rightarrow> string \<Rightarrow> int \<Rightarrow> observation_delta res" where
  "make_observation_delta ordinal text_hash observation_id d =
     bind_res (require_integer ordinal (Some 0) None) (\<lambda>_.
     bind_res (require_sha256 text_hash) (\<lambda>_.
     bind_res (require_text observation_id) (\<lambda>_.
       if d = 0 then Inl ValidationError
       else Inr \<lparr>od_requirement_ordinal = ordinal, od_text_hash = text_hash,
                 od_observation_id = observation_id, od_delta = d\<rparr>)))"

record cert_index =
  ci_ref :: nat
  ci_group_version_id :: string
  ci_requirement_version_ids :: "string list"
  ci_edge_observations :: "(edge, stored_set) pydict"
  ci_hash_masks :: "(string, nat) pydict"
  ci_hashes_by_mask :: "(nat, stored_set) pydict"
  ci_observation_edge :: "(string, edge) pydict"
  ci_generation :: int

definition ci_requirement_count :: "cert_index \<Rightarrow> int" where
  "ci_requirement_count ix = int (length (ci_requirement_version_ids ix))"

definition new_cert_index :: "nat \<Rightarrow> string \<Rightarrow> string list \<Rightarrow> cert_index res" where
  "new_cert_index ref group_version_id requirement_ids =
     bind_res (require_text group_version_id) (\<lambda>_.
     bind_res (require_requirement_count (int (length requirement_ids))) (\<lambda>_.
     if card (set requirement_ids) \<noteq> length requirement_ids then Inl ValidationError
     else
       bind_res (traverse require_text requirement_ids) (\<lambda>_.
         Inr \<lparr>ci_ref = ref, ci_group_version_id = group_version_id,
              ci_requirement_version_ids = requirement_ids, ci_edge_observations = [],
              ci_hash_masks = [], ci_hashes_by_mask = [], ci_observation_edge = [],
              ci_generation = 0\<rparr>)))"

section \<open>Patches\<close>

record ('k, 'v) key_change =
  kc_key :: 'k
  kc_before :: "'v option"
  kc_after :: "'v option"

record index_patch =
  ip_expected_generation :: int
  ip_transitions :: "hash_mask_transition list"
  ip_work :: work_counters
  ip_owner :: nat
  ip_edge_changes :: "(edge, stored_set) key_change list"
  ip_observation_changes :: "(string, edge) key_change list"
  ip_mask_changes :: "(string, nat) key_change list"
  ip_bucket_changes :: "(nat, stored_set) key_change list"
  ip_state :: string

definition patch_mutates :: "index_patch \<Rightarrow> bool" where
  "patch_mutates pt \<longleftrightarrow>
     ip_edge_changes pt \<noteq> [] \<or> ip_observation_changes pt \<noteq> [] \<or>
     ip_mask_changes pt \<noteq> [] \<or> ip_bucket_changes pt \<noteq> []"

record rollback_token =
  rt_owner :: nat
  rt_patch :: index_patch
  rt_applied_generation :: int
  rt_active :: bool

section \<open>Preparation\<close>

type_synonym membership = "int \<times> string \<times> string"

text \<open>The loop that coalesces the deltas per membership.\<close>

definition membership_total ::
    "int \<Rightarrow> observation_delta \<Rightarrow> (membership, int) pydict \<Rightarrow> (membership, int) pydict res" where
  "membership_total n item totals =
     bind_res (require_integer (od_requirement_ordinal item) (Some 0) (Some (n - 1))) (\<lambda>_.
       let key = (od_requirement_ordinal item, od_text_hash item, od_observation_id item) in
       Inr (dset key (dget_default totals key 0 + od_delta item) totals))"

text \<open>The loop that checks that an observation moves on one edge only.\<close>

definition target_step ::
    "membership \<times> int \<Rightarrow> (string, edge) pydict \<Rightarrow> (string, edge) pydict res" where
  "target_step entry targets =
     (let ((ordinal, text_hash, observation_id), d) = entry; edge = (ordinal, text_hash) in
      if d = 0 then Inr targets
      else if d \<notin> {-1, 1} then Inl ValidationError
      else if dget targets observation_id \<notin> {None, Some edge} then Inl ValidationError
      else Inr (dset observation_id edge targets))"

definition edge_set :: "cert_index \<Rightarrow> edge \<Rightarrow> string_node" where
  "edge_set ix e = (case dget (ci_edge_observations ix) e of None \<Rightarrow> ONone | Some s \<Rightarrow> snd s)"

definition bucket_set :: "cert_index \<Rightarrow> nat \<Rightarrow> string_node" where
  "bucket_set ix m = (case dget (ci_hashes_by_mask ix) m of None \<Rightarrow> ONone | Some s \<Rightarrow> snd s)"

text \<open>The loop over the memberships: changed edge sets, changed observations, ordered operations.\<close>

record membership_update =
  mu_edges :: "(edge, string_node) pydict"
  mu_observations :: "(string, edge option) pydict"
  mu_operations :: int

definition membership_step ::
    "cert_index \<Rightarrow> membership \<times> int \<Rightarrow> membership_update \<Rightarrow> membership_update res" where
  "membership_step ix entry mu =
     (let ((ordinal, text_hash, observation_id), d) = entry; edge = (ordinal, text_hash) in
      if d = 0 then Inr mu
      else
        let current_set = dget_default (mu_edges mu) edge (edge_set ix edge);
            current_edge = dget (ci_observation_edge ix) observation_id in
        bind_res
          (if 0 < d then
             if current_edge \<noteq> None then Inl ValidationError
             else bind_res (ps_add current_set observation_id) (\<lambda>(next_set, changed).
               if \<not> changed then Inl ValidationError else Inr (next_set, Some edge))
           else
             if current_edge \<noteq> Some edge then Inl ValidationError
             else bind_res (ps_remove current_set observation_id) (\<lambda>(next_set, changed).
               if \<not> changed then Inl AssertionError else Inr (next_set, None)))
          (\<lambda>(next_set, target).
             Inr \<lparr>mu_edges = dset edge next_set (mu_edges mu),
                  mu_observations = dset observation_id target (mu_observations mu),
                  mu_operations = mu_operations mu + 1\<rparr>))"

text \<open>
  The loop over the changed edge sets: new masks and the number of touched edges.  The source tests
  whether the roots are one object; updates copy the path they change, so that a set with the old
  root is an unchanged set.
\<close>

definition mask_step ::
    "cert_index \<Rightarrow> edge \<times> string_node \<Rightarrow> (string, nat) pydict \<times> int
      \<Rightarrow> ((string, nat) pydict \<times> int) res" where
  "mask_step ix entry state =
     (let (edge, next_set) = entry; (next_masks, touched) = state; original = edge_set ix edge in
      if original = next_set then Inr (next_masks, touched)
      else
        let (ordinal, text_hash) = edge;
            old_present = (0 < opt_size original); new_present = (0 < opt_size next_set) in
        if old_present = new_present then Inr (next_masks, touched + 1)
        else
          let mask = dget_default next_masks text_hash (dget_default (ci_hash_masks ix) text_hash 0);
              b = 2 ^ nat ordinal in
          bind_res
            (if new_present then
               if mask AND b \<noteq> 0 then Inl AssertionError else Inr (mask OR b)
             else if mask AND b = 0 then Inl AssertionError
             else Inr (unset_bit (nat ordinal) mask))
            (\<lambda>mask. Inr (dset text_hash mask next_masks, touched + 1)))"

text \<open>The loop over the new masks: transitions, changed buckets, ordered operations.\<close>

record bucket_update =
  bu_transitions :: "hash_mask_transition list"
  bu_buckets :: "(nat, string_node) pydict"
  bu_operations :: int

definition leave_bucket :: "cert_index \<Rightarrow> string \<Rightarrow> nat \<Rightarrow> bucket_update \<Rightarrow> bucket_update res" where
  "leave_bucket ix text_hash old_mask bu =
     (if old_mask = 0 then Inr bu
      else
        bind_res (ps_remove (dget_default (bu_buckets bu) old_mask (bucket_set ix old_mask)) text_hash)
          (\<lambda>(next_bucket, removed).
            if \<not> removed then Inl AssertionError
            else Inr (bu\<lparr>bu_buckets := dset old_mask next_bucket (bu_buckets bu),
                         bu_operations := bu_operations bu + 1\<rparr>)))"

definition enter_bucket :: "cert_index \<Rightarrow> string \<Rightarrow> nat \<Rightarrow> bucket_update \<Rightarrow> bucket_update res" where
  "enter_bucket ix text_hash new_mask bu =
     (if new_mask = 0 then Inr bu
      else
        bind_res (ps_add (dget_default (bu_buckets bu) new_mask (bucket_set ix new_mask)) text_hash)
          (\<lambda>(next_bucket, added).
            if \<not> added then Inl AssertionError
            else Inr (bu\<lparr>bu_buckets := dset new_mask next_bucket (bu_buckets bu),
                         bu_operations := bu_operations bu + 1\<rparr>)))"

definition bucket_step :: "cert_index \<Rightarrow> string \<times> nat \<Rightarrow> bucket_update \<Rightarrow> bucket_update res" where
  "bucket_step ix entry bu =
     (let (text_hash, new_mask) = entry; old_mask = dget_default (ci_hash_masks ix) text_hash 0 in
      if old_mask = new_mask then Inr bu
      else
        bind_res (leave_bucket ix text_hash old_mask bu) (\<lambda>bu.
        bind_res (enter_bucket ix text_hash new_mask bu) (\<lambda>bu.
        bind_res (make_hash_mask_transition text_hash (int old_mask) (int new_mask)) (\<lambda>t.
          Inr (bu\<lparr>bu_transitions := bu_transitions bu @ [t]\<rparr>)))))"

text \<open>The changes of one dictionary of sets; a set with no element is removed.\<close>

fun set_changes ::
    "nat \<Rightarrow> ('k, stored_set) pydict \<Rightarrow> ('k \<times> string_node) list \<Rightarrow> ('k, stored_set) key_change list" where
  "set_changes alloc current [] = []"
| "set_changes alloc current ((k, t) # rest) =
     \<lparr>kc_key = k, kc_before = dget current k, kc_after = (if t = ONone then None else Some (alloc, t))\<rparr> #
     set_changes (Suc alloc) current rest"

definition observation_changes ::
    "cert_index \<Rightarrow> (string, edge option) pydict \<Rightarrow> (string, edge) key_change list" where
  "observation_changes ix changes =
     map (\<lambda>(k, target). \<lparr>kc_key = k, kc_before = dget (ci_observation_edge ix) k, kc_after = target\<rparr>) changes"

definition mask_changes :: "cert_index \<Rightarrow> (string, nat) pydict \<Rightarrow> (string, nat) key_change list" where
  "mask_changes ix masks =
     map (\<lambda>(k, m). \<lparr>kc_key = k, kc_before = dget (ci_hash_masks ix) k,
                     kc_after = (if m = 0 then None else Some m)\<rparr>) masks"

definition prepare_observation_deltas ::
    "nat \<Rightarrow> observation_delta list \<Rightarrow> cert_index \<Rightarrow> index_patch res" where
  "prepare_observation_deltas alloc items ix =
     (let additions = sum_list (map (\<lambda>i. max (od_delta i) 0) items);
          removals = sum_list (map (\<lambda>i. max (- od_delta i) 0) items) in
      bind_res (fold_res (membership_total (ci_requirement_count ix)) items []) (\<lambda>totals.
      bind_res (fold_res target_step totals []) (\<lambda>_.
      bind_res (fold_res (membership_step ix) totals
        \<lparr>mu_edges = [], mu_observations = [], mu_operations = 0\<rparr>) (\<lambda>mu.
      bind_res (fold_res (mask_step ix) (mu_edges mu) ([], 0)) (\<lambda>(next_masks, touched).
      bind_res (fold_res (bucket_step ix) next_masks
        \<lparr>bu_transitions = [], bu_buckets = [], bu_operations = mu_operations mu\<rparr>) (\<lambda>bu.
      let work = no_work\<lparr>wc_contribution_additions := additions,
                         wc_contribution_removals := removals,
                         wc_ordered_index_operations := bu_operations bu,
                         wc_edge_refcount_keys_updated := touched\<rparr> in
      bind_res (assert_nonnegative work) (\<lambda>_.
        Inr \<lparr>ip_expected_generation = ci_generation ix, ip_transitions = bu_transitions bu,
             ip_work = work, ip_owner = ci_ref ix,
             ip_edge_changes = set_changes alloc (ci_edge_observations ix) (mu_edges mu),
             ip_observation_changes = observation_changes ix (mu_observations mu),
             ip_mask_changes = mask_changes ix next_masks,
             ip_bucket_changes =
               set_changes (alloc + length (mu_edges mu)) (ci_hashes_by_mask ix) (bu_buckets bu),
             ip_state = ''prepared''\<rparr>)))))))"

section \<open>Validation, application, rollback\<close>

definition kc_expected :: "bool \<Rightarrow> ('k, 'v) key_change \<Rightarrow> 'v option" where
  "kc_expected use_after c = (if use_after then kc_after c else kc_before c)"

text \<open>\<open>_set_value_matches\<close>: one object, or both absent.\<close>

definition set_value_matches :: "stored_set option \<Rightarrow> stored_set option \<Rightarrow> bool" where
  "set_value_matches current expected \<longleftrightarrow> map_option fst current = map_option fst expected"

definition check_change ::
    "('v option \<Rightarrow> 'v option \<Rightarrow> bool) \<Rightarrow> bool \<Rightarrow> ('k, 'v) pydict \<Rightarrow> ('k, 'v) key_change \<Rightarrow> unit \<Rightarrow> unit res" where
  "check_change matches use_after current c _ =
     (if matches (dget current (kc_key c)) (kc_expected use_after c) then Inr () else Inl ValidationError)"

definition validate_prepared_patch :: "bool \<Rightarrow> int \<Rightarrow> index_patch \<Rightarrow> cert_index \<Rightarrow> unit res" where
  "validate_prepared_patch use_after expected_generation pt ix =
     (if ip_owner pt \<noteq> ci_ref ix then Inl ValidationError
      else if ci_generation ix \<noteq> expected_generation then Inl ValidationError
      else if ip_state pt \<noteq> (if use_after then ''applied'' else ''prepared'') then Inl ValidationError
      else
        bind_res (fold_res (check_change set_value_matches use_after (ci_edge_observations ix))
          (ip_edge_changes pt) ()) (\<lambda>_.
        bind_res (fold_res (check_change (=) use_after (ci_observation_edge ix))
          (ip_observation_changes pt) ()) (\<lambda>_.
        bind_res (fold_res (check_change (=) use_after (ci_hash_masks ix)) (ip_mask_changes pt) ()) (\<lambda>_.
          fold_res (check_change set_value_matches use_after (ci_hashes_by_mask ix))
            (ip_bucket_changes pt) ()))))"

definition assign_or_remove :: "'k \<Rightarrow> 'v option \<Rightarrow> ('k, 'v) pydict \<Rightarrow> ('k, 'v) pydict" where
  "assign_or_remove k v d = (case v of None \<Rightarrow> ddel k d | Some x \<Rightarrow> dset k x d)"

definition assign_changes :: "bool \<Rightarrow> ('k, 'v) key_change list \<Rightarrow> ('k, 'v) pydict \<Rightarrow> ('k, 'v) pydict" where
  "assign_changes use_after cs d = fold (\<lambda>c. assign_or_remove (kc_key c) (kc_expected use_after c)) cs d"

definition apply_prepared_observation_deltas ::
    "index_patch \<Rightarrow> cert_index \<Rightarrow> (rollback_token \<times> cert_index) res" where
  "apply_prepared_observation_deltas pt ix =
     bind_res (validate_prepared_patch False (ip_expected_generation pt) pt ix) (\<lambda>_.
       let generation = ip_expected_generation pt + of_bool (patch_mutates pt) in
       Inr (\<lparr>rt_owner = ci_ref ix, rt_patch = pt\<lparr>ip_state := ''applied''\<rparr>,
             rt_applied_generation = generation, rt_active = True\<rparr>,
            ix\<lparr>ci_edge_observations := assign_changes True (ip_edge_changes pt) (ci_edge_observations ix),
               ci_observation_edge := assign_changes True (ip_observation_changes pt) (ci_observation_edge ix),
               ci_hash_masks := assign_changes True (ip_mask_changes pt) (ci_hash_masks ix),
               ci_hashes_by_mask := assign_changes True (ip_bucket_changes pt) (ci_hashes_by_mask ix),
               ci_generation := generation\<rparr>))"

definition rollback_prepared_observation_deltas ::
    "rollback_token \<Rightarrow> cert_index \<Rightarrow> (rollback_token \<times> cert_index) res" where
  "rollback_prepared_observation_deltas tok ix =
     (if rt_owner tok \<noteq> ci_ref ix then Inl ValidationError
      else if \<not> rt_active tok then Inl ValidationError
      else
        let pt = rt_patch tok in
        bind_res (validate_prepared_patch True (rt_applied_generation tok) pt ix) (\<lambda>_.
          Inr (tok\<lparr>rt_patch := pt\<lparr>ip_state := ''rolled_back''\<rparr>, rt_active := False\<rparr>,
               ix\<lparr>ci_edge_observations := assign_changes False (ip_edge_changes pt) (ci_edge_observations ix),
                  ci_observation_edge := assign_changes False (ip_observation_changes pt) (ci_observation_edge ix),
                  ci_hash_masks := assign_changes False (ip_mask_changes pt) (ci_hash_masks ix),
                  ci_hashes_by_mask := assign_changes False (ip_bucket_changes pt) (ci_hashes_by_mask ix),
                  ci_generation := ip_expected_generation pt\<rparr>)))"

text \<open>\<open>apply_observation_deltas\<close>: transitions and work, with the index.\<close>

definition apply_observation_deltas ::
    "nat \<Rightarrow> observation_delta list \<Rightarrow> cert_index
      \<Rightarrow> ((hash_mask_transition list \<times> work_counters) \<times> cert_index) res" where
  "apply_observation_deltas alloc items ix =
     bind_res (prepare_observation_deltas alloc items ix) (\<lambda>pt.
     bind_res (apply_prepared_observation_deltas pt ix) (\<lambda>(_, ix').
       Inr ((ip_transitions pt, ip_work pt), ix')))"

section \<open>Bootstrap and audit\<close>

definition witness_deltas_step ::
    "cert_index \<Rightarrow> requirement_witness \<Rightarrow> observation_delta list \<times> edge set
      \<Rightarrow> (observation_delta list \<times> edge set) res" where
  "witness_deltas_step ix w state =
     (let (deltas, seen) = state; ordinal = rw_requirement_ordinal w; edge = (ordinal, rw_text_hash w) in
      bind_res (require_integer ordinal (Some 0) (Some (ci_requirement_count ix - 1))) (\<lambda>_.
      if rw_requirement_version_id w \<noteq> ci_requirement_version_ids ix ! nat ordinal then Inl ValidationError
      else if edge \<in> seen then Inl ValidationError
      else
        bind_res (traverse (\<lambda>i. make_observation_delta ordinal (rw_text_hash w) i 1)
          (rw_active_observation_ids w)) (\<lambda>ds. Inr (deltas @ ds, insert edge seen))))"

definition from_requirement_witnesses ::
    "nat \<Rightarrow> nat \<Rightarrow> evidence_group_version \<Rightarrow> requirement_witness list
      \<Rightarrow> (cert_index \<times> work_counters) res" where
  "from_requirement_witnesses ref alloc g ws =
     bind_res (new_cert_index ref (eg_group_version_id g)
       (map er_requirement_version_id (eg_requirements g))) (\<lambda>ix.
     bind_res (fold_res (witness_deltas_step ix) ws ([], {})) (\<lambda>(deltas, _).
     bind_res (apply_observation_deltas alloc deltas ix) (\<lambda>((_, work), ix).
       let work = work_add work (no_work\<lparr>wc_hash_masks_initialized := int (length (ci_hash_masks ix))\<rparr>) in
       bind_res (assert_nonnegative work) (\<lambda>_. Inr (ix, work)))))"

text \<open>\<open>audit_issues\<close>: the three derived dictionaries, and the issues met while deriving them.\<close>

record audit_scan =
  as_issues :: "string list"
  as_masks :: "(string, nat) pydict"
  as_observations :: "(string, edge) pydict"

definition audit_observation :: "edge \<Rightarrow> string \<Rightarrow> audit_scan \<Rightarrow> audit_scan" where
  "audit_observation e i a =
     a\<lparr>as_issues := as_issues a @
         (if dmem i (as_observations a) then [''duplicate_observation_membership''] else []),
       as_observations := dset i e (as_observations a)\<rparr>"

definition audit_edge :: "edge \<times> stored_set \<Rightarrow> audit_scan \<Rightarrow> audit_scan" where
  "audit_edge entry a =
     (let (e, values) = entry; (ordinal, text_hash) = e;
          a = a\<lparr>as_issues := as_issues a @ (if opt_size (snd values) = 0 then [''empty_edge_bucket''] else []),
                as_masks := dset text_hash (dget_default (as_masks a) text_hash 0 OR 2 ^ nat ordinal) (as_masks a)\<rparr> in
      fold (audit_observation e) (ps_items (snd values)) a)"

definition bucket_entries :: "(nat, stored_set) pydict \<Rightarrow> (string \<times> nat) list" where
  "bucket_entries buckets = concat (map (\<lambda>(m, values). map (\<lambda>h. (h, m)) (ps_items (snd values))) buckets)"

definition index_audit_issues :: "cert_index \<Rightarrow> string list" where
  "index_audit_issues ix =
     (let issues = concat (map (ps_audit_issues \<circ> snd) (dvalues (ci_hashes_by_mask ix))) @
                   concat (map (ps_audit_issues \<circ> snd) (dvalues (ci_edge_observations ix)));
          a = fold audit_edge (ci_edge_observations ix)
                \<lparr>as_issues = issues, as_masks = [], as_observations = []\<rparr>;
          bucket_masks = fold (\<lambda>(h, m). dset h m) (bucket_entries (ci_hashes_by_mask ix)) [] in
      rev (remdups (rev (as_issues a @
        (if dict_eq (as_masks a) (ci_hash_masks ix) then [] else [''hash_mask_index_mismatch'']) @
        (if dict_eq (as_observations a) (ci_observation_edge ix) then []
         else [''observation_reverse_index_mismatch'']) @
        (if dict_eq bucket_masks (ci_hash_masks ix) then [] else [''mask_bucket_index_mismatch''])))))"

end
