(* ===== verification/GL_CertIndexBase.thy ===== *)
theory GL_CertIndexBase
  imports GL_CertIndex
begin

text \<open>
  The generic steps of an index update: key changes on dictionaries, the coalescing of deltas, and
  the check that an observation moves on one edge.
\<close>

section \<open>Key changes\<close>

lemma dget_assign_or_remove: "dget (assign_or_remove k v d) = (dget d)(k := v)"
  by (auto simp: assign_or_remove_def split: option.split)

lemma dict_ok_assign_or_remove: "dict_ok d \<Longrightarrow> dict_ok (assign_or_remove k v d)"
  by (simp add: assign_or_remove_def split: option.split)

lemma assign_changes_other:
  "k \<notin> kc_key ` set cs \<Longrightarrow> dget (assign_changes u cs d) k = dget d k"
  unfolding assign_changes_def by (induction cs arbitrary: d) (auto simp: dget_assign_or_remove)

lemma assign_changes_key:
  assumes "distinct (map kc_key cs)" and "c \<in> set cs"
  shows "dget (assign_changes u cs d) (kc_key c) = kc_expected u c"
  using assms
proof (induction cs arbitrary: d)
  case (Cons c' cs)
  let ?d = "assign_or_remove (kc_key c') (kc_expected u c') d"
  have cons: "assign_changes u (c' # cs) d = assign_changes u cs ?d" by (simp add: assign_changes_def)
  show ?case
  proof (cases "c = c'")
    case True
    have "dget (assign_changes u cs ?d) (kc_key c') = dget ?d (kc_key c')"
      by (rule assign_changes_other) (use Cons.prems in simp)
    then show ?thesis by (simp add: cons True dget_assign_or_remove)
  next
    case False
    then show ?thesis using Cons.IH [of ?d] Cons.prems by (simp add: cons)
  qed
qed simp

lemma dict_ok_assign_changes: "dict_ok d \<Longrightarrow> dict_ok (assign_changes u cs d)"
  unfolding assign_changes_def by (induction cs arbitrary: d) (simp_all add: dict_ok_assign_or_remove)

text \<open>Changes that start at the dictionary \<open>d\<close>, and taking them back.\<close>

definition changes_of :: "('k, 'v) pydict \<Rightarrow> ('k, 'v) key_change list \<Rightarrow> bool" where
  "changes_of d cs \<longleftrightarrow> distinct (map kc_key cs) \<and> (\<forall>c \<in> set cs. kc_before c = dget d (kc_key c))"

lemma changes_undone:
  assumes "changes_of d cs"
  shows "dget (assign_changes False cs (assign_changes True cs d)) = dget d"
proof
  fix k
  from assms have dist: "distinct (map kc_key cs)" by (simp add: changes_of_def)
  show "dget (assign_changes False cs (assign_changes True cs d)) k = dget d k"
  proof (cases "k \<in> kc_key ` set cs")
    case True
    then obtain c where c: "c \<in> set cs" "k = kc_key c" by blast
    have "dget (assign_changes False cs (assign_changes True cs d)) (kc_key c) = kc_expected False c"
      by (rule assign_changes_key [OF dist c(1)])
    then show ?thesis using c assms by (simp add: changes_of_def kc_expected_def)
  qed (simp add: assign_changes_other)
qed

lemma fold_res_changes: "(\<And>c. c \<in> set cs \<Longrightarrow> f c () = Inr ()) \<Longrightarrow> fold_res f cs () = Inr ()"
  by (induction cs) simp_all

lemma check_before:
  assumes "changes_of d cs" and "\<And>x. matches x x"
  shows "fold_res (check_change matches False d) cs () = Inr ()"
  by (rule fold_res_changes) (use assms in \<open>simp add: check_change_def changes_of_def kc_expected_def\<close>)

lemma check_after:
  assumes "changes_of d cs" and "\<And>x. matches x x"
  shows "fold_res (check_change matches True (assign_changes True cs d)) cs () = Inr ()"
proof (rule fold_res_changes)
  fix c assume "c \<in> set cs"
  with assms(1) have "dget (assign_changes True cs d) (kc_key c) = kc_expected True c"
    by (intro assign_changes_key) (simp_all add: changes_of_def)
  then show "check_change matches True (assign_changes True cs d) c () = Inr ()"
    by (simp add: check_change_def assms(2))
qed

lemma set_value_matches_refl: "set_value_matches x x"
  by (simp add: set_value_matches_def)

lemma set_changes_keys: "map kc_key (set_changes a d es) = dkeys es"
  by (induction a d es rule: set_changes.induct) simp_all

lemma set_changes_of: "dict_ok es \<Longrightarrow> changes_of d (set_changes a d es)"
proof -
  have "\<forall>c \<in> set (set_changes a d es). kc_before c = dget d (kc_key c)"
    by (induction a d es rule: set_changes.induct) simp_all
  then show "dict_ok es \<Longrightarrow> changes_of d (set_changes a d es)"
    by (simp add: changes_of_def set_changes_keys dict_ok_def)
qed

text \<open>The dictionary of sets after its changes.\<close>

lemma set_changes_mem:
  "(k, t) \<in> set es \<Longrightarrow> \<exists>r. \<lparr>kc_key = k, kc_before = dget d k,
    kc_after = (if t = ONone then None else Some (r, t))\<rparr> \<in> set (set_changes a d es)"
  by (induction a d es rule: set_changes.induct) auto

lemma assign_set_changes:
  assumes "dict_ok es"
  shows "k \<notin> dom (dget es) \<Longrightarrow> dget (assign_changes True (set_changes a d es) d) k = dget d k"
    and "dget es k = Some t \<Longrightarrow>
      \<exists>r. dget (assign_changes True (set_changes a d es) d) k = (if t = ONone then None else Some (r, t))"
proof -
  have keys: "kc_key ` set (set_changes a d es) = dom (dget es)"
    by (metis set_changes_keys set_map set_dkeys)
  show "k \<notin> dom (dget es) \<Longrightarrow> dget (assign_changes True (set_changes a d es) d) k = dget d k"
    by (simp add: assign_changes_other keys)
  assume "dget es k = Some t"
  then have "(k, t) \<in> set es" using dget_in_set [OF assms] by blast
  then obtain r where c: "\<lparr>kc_key = k, kc_before = dget d k,
      kc_after = (if t = ONone then None else Some (r, t))\<rparr> \<in> set (set_changes a d es)"
    using set_changes_mem [where a = a and d = d] by blast
  have "distinct (map kc_key (set_changes a d es))" using assms by (simp add: set_changes_keys dict_ok_def)
  from assign_changes_key [OF this c, of True d] show
    "\<exists>r. dget (assign_changes True (set_changes a d es) d) k = (if t = ONone then None else Some (r, t))"
    by (auto simp: kc_expected_def)
qed

lemma mapped_changes:
  assumes "dict_ok ps" and cs: "cs = map (\<lambda>(k, v). \<lparr>kc_key = k, kc_before = dget d k, kc_after = f v\<rparr>) ps"
  shows "changes_of d cs"
    and "dget (assign_changes True cs d) k = (case dget ps k of None \<Rightarrow> dget d k | Some v \<Rightarrow> f v)"
proof -
  have keys: "map kc_key cs = dkeys ps" by (simp add: cs case_prod_beta)
  have dist: "distinct (map kc_key cs)" unfolding keys using assms(1) by (simp add: dict_ok_def)
  show "changes_of d cs" using dist by (auto simp: changes_of_def cs)
  show "dget (assign_changes True cs d) k = (case dget ps k of None \<Rightarrow> dget d k | Some v \<Rightarrow> f v)"
  proof (cases "dget ps k")
    case None
    then have "k \<notin> kc_key ` set cs" by (metis keys set_map set_dkeys domIff)
    then show ?thesis using None by (simp add: assign_changes_other)
  next
    case (Some v)
    then have "(k, v) \<in> set ps" using dget_in_set [OF assms(1)] by blast
    then have "\<lparr>kc_key = k, kc_before = dget d k, kc_after = f v\<rparr> \<in> set cs" by (force simp: cs)
    from assign_changes_key [OF dist this, of True d] show ?thesis by (simp add: Some kc_expected_def)
  qed
qed

section \<open>Coalesced deltas\<close>

definition delta_key :: "observation_delta \<Rightarrow> membership" where
  "delta_key it = (od_requirement_ordinal it, od_text_hash it, od_observation_id it)"

definition membership_sum :: "observation_delta list \<Rightarrow> membership \<Rightarrow> int" where
  "membership_sum items k = sum_list (map od_delta (filter (\<lambda>it. delta_key it = k) items))"

lemma membership_totals:
  assumes "dict_ok totals"
  shows "(\<forall>it \<in> set items. 0 \<le> od_requirement_ordinal it \<and> od_requirement_ordinal it < n) \<Longrightarrow>
      \<exists>ts. fold_res (membership_total n) items totals = Inr ts \<and> dict_ok ts \<and>
        dom (dget ts) = dom (dget totals) \<union> delta_key ` set items \<and>
        (\<forall>k. dget_default ts k 0 = dget_default totals k 0 + membership_sum items k)"
    and "\<not> (\<forall>it \<in> set items. 0 \<le> od_requirement_ordinal it \<and> od_requirement_ordinal it < n) \<Longrightarrow>
      fold_res (membership_total n) items totals = Inl ValidationError"
  using assms
proof (induction items arbitrary: totals)
  case Nil
  case 1
  then show ?case by (simp add: membership_sum_def)
next
  case Nil
  case 2
  then show ?case by simp
next
  case (Cons it items)
  case 1
  let ?k = "delta_key it"
  let ?t = "dset ?k (dget_default totals ?k 0 + od_delta it) totals"
  from 1 have it: "0 \<le> od_requirement_ordinal it" "od_requirement_ordinal it \<le> n - 1" by simp_all
  then have step: "membership_total n it totals = Inr ?t"
    by (simp add: membership_total_def delta_key_def Let_def)
  have ok: "dict_ok ?t" using 1 by simp
  have rest: "\<forall>it \<in> set items. 0 \<le> od_requirement_ordinal it \<and> od_requirement_ordinal it < n" using 1 by simp
  from Cons.IH(1) [OF rest ok] obtain ts where ts: "fold_res (membership_total n) items ?t = Inr ts" "dict_ok ts"
    "dom (dget ts) = dom (dget ?t) \<union> delta_key ` set items"
    "\<forall>k. dget_default ts k 0 = dget_default ?t k 0 + membership_sum items k" by blast
  have dom: "dom (dget ts) = dom (dget totals) \<union> delta_key ` set (it # items)"
    unfolding ts(3) by auto
  have "dget_default ts k 0 = dget_default totals k 0 + membership_sum (it # items) k" for k
    unfolding ts(4) [rule_format] by (simp add: membership_sum_def dget_default_def)
  then show ?case using ts(1,2) step dom by simp
next
  case (Cons it items)
  case 2
  show ?case
  proof (cases "0 \<le> od_requirement_ordinal it \<and> od_requirement_ordinal it < n")
    case True
    let ?t = "dset (delta_key it) (dget_default totals (delta_key it) 0 + od_delta it) totals"
    have "membership_total n it totals = Inr ?t"
      using True by (simp add: membership_total_def delta_key_def Let_def)
    moreover have "fold_res (membership_total n) items ?t = Inl ValidationError"
      using Cons.IH(2) [of ?t] 2 True by simp
    ultimately show ?thesis by simp
  next
    case False
    then have "membership_total n it totals = Inl ValidationError"
      by (auto simp: membership_total_def require_integer_def)
    then show ?thesis by simp
  qed
qed

section \<open>Moves of observations\<close>

text \<open>An observation moves on one edge, by one step.\<close>

definition one_edge :: "(membership \<times> int) list \<Rightarrow> bool" where
  "one_edge ts \<longleftrightarrow>
     (\<forall>e d. (e, d) \<in> set ts \<longrightarrow> d \<in> {-1, 0, 1}) \<and>
     (\<forall>a h b h' i d d'. ((a, h, i), d) \<in> set ts \<longrightarrow> ((b, h', i), d') \<in> set ts \<longrightarrow> d \<noteq> 0 \<longrightarrow> d' \<noteq> 0 \<longrightarrow>
        (a, h) = (b, h'))"

definition targets_fit :: "(string, edge) pydict \<Rightarrow> (membership \<times> int) list \<Rightarrow> bool" where
  "targets_fit targets ts \<longleftrightarrow>
     one_edge ts \<and> (\<forall>a h i d. ((a, h, i), d) \<in> set ts \<longrightarrow> d \<noteq> 0 \<longrightarrow> dget targets i \<in> {None, Some (a, h)})"

lemma one_edge_step: "one_edge ts \<Longrightarrow> (e, d) \<in> set ts \<Longrightarrow> d \<in> {-1, 0, 1}"
  unfolding one_edge_def by blast

lemma one_edge_move:
  "one_edge ts \<Longrightarrow> ((a, h, i), d) \<in> set ts \<Longrightarrow> ((b, h', i), d') \<in> set ts \<Longrightarrow> d \<noteq> 0 \<Longrightarrow> d' \<noteq> 0 \<Longrightarrow>
    (a, h) = (b, h')"
  unfolding one_edge_def by blast

lemma one_edge_Cons:
  "one_edge (((a, h, i), d) # ts) \<longleftrightarrow> d \<in> {-1, 0, 1} \<and> one_edge ts \<and>
     (d \<noteq> 0 \<longrightarrow> (\<forall>b h' d'. ((b, h', i), d') \<in> set ts \<longrightarrow> d' \<noteq> 0 \<longrightarrow> (b, h') = (a, h)))"
  (is "?L \<longleftrightarrow> ?R")
proof
  assume L: ?L
  have "d \<in> {-1, 0, 1}" using L by (simp add: one_edge_def)
  moreover have "one_edge ts" using L unfolding one_edge_def by (meson list.set_intros(2))
  moreover have "(b, h') = (a, h)" if "d \<noteq> 0" "((b, h', i), d') \<in> set ts" "d' \<noteq> 0" for b h' d'
    using L that unfolding one_edge_def by (meson list.set_intros)
  ultimately show ?R by blast
next
  assume R: ?R
  then have here: "d \<in> {-1, 0, 1}" and tail: "one_edge ts"
    and meet: "d \<noteq> 0 \<Longrightarrow> ((b, h', i), d') \<in> set ts \<Longrightarrow> d' \<noteq> 0 \<Longrightarrow> (b, h') = (a, h)" for b h' d'
    by blast+
  show ?L
    unfolding one_edge_def
  proof (intro conjI allI impI)
    fix e d' assume "(e, d') \<in> set (((a, h, i), d) # ts)"
    then have "e = (a, h, i) \<and> d' = d \<or> (e, d') \<in> set ts" by simp
    then show "d' \<in> {-1, 0, 1}" using here one_edge_step [OF tail] by metis
  next
    fix b g c g' j x y
    assume x: "((b, g, j), x) \<in> set (((a, h, i), d) # ts)" "x \<noteq> 0"
      and y: "((c, g', j), y) \<in> set (((a, h, i), d) # ts)" "y \<noteq> 0"
    have xs: "b = a \<and> g = h \<and> j = i \<and> x = d \<or> ((b, g, j), x) \<in> set ts" using x(1) by simp
    have ys: "c = a \<and> g' = h \<and> j = i \<and> y = d \<or> ((c, g', j), y) \<in> set ts" using y(1) by simp
    have one: "((b, g, j), x) \<in> set ts \<Longrightarrow> ((c, g', j), y) \<in> set ts \<Longrightarrow> (b, g) = (c, g')"
      using one_edge_move [OF tail _ _ x(2) y(2)] .
    from xs show "(b, g) = (c, g')"
    proof
      assume bx: "b = a \<and> g = h \<and> j = i \<and> x = d"
      from ys show ?thesis
      proof
        assume "c = a \<and> g' = h \<and> j = i \<and> y = d" with bx show ?thesis by simp
      next
        assume "((c, g', j), y) \<in> set ts" with bx x(2) y(2) meet [of c g' y] show ?thesis by simp
      qed
    next
      assume bx: "((b, g, j), x) \<in> set ts"
      from ys show ?thesis
      proof
        assume "c = a \<and> g' = h \<and> j = i \<and> y = d" with bx x(2) y(2) meet [of b g x] show ?thesis by simp
      next
        assume "((c, g', j), y) \<in> set ts" with bx one show ?thesis by simp
      qed
    qed
  qed
qed

lemma targets_fit_Cons:
  "targets_fit targets (((a, h, i), d) # ts) \<longleftrightarrow>
     (if d = 0 then targets_fit targets ts
      else d \<in> {-1, 1} \<and> dget targets i \<in> {None, Some (a, h)} \<and> targets_fit (dset i (a, h) targets) ts)"
proof (cases "d = 0")
  case True
  then show ?thesis unfolding targets_fit_def one_edge_Cons by auto
next
  case False
  let ?T = "\<lambda>g. \<forall>b h' j d'. ((b, h', j), d') \<in> set ts \<longrightarrow> d' \<noteq> 0 \<longrightarrow> dget g j \<in> {None, Some (b, h')}"
  let ?C = "\<forall>b h' d'. ((b, h', i), d') \<in> set ts \<longrightarrow> d' \<noteq> 0 \<longrightarrow> (b, h') = (a, h)"
  have "?C \<and> ?T targets \<longleftrightarrow> ?T (dset i (a, h) targets)" if i: "dget targets i \<in> {None, Some (a, h)}"
  proof
    assume C: "?C \<and> ?T targets"
    show "?T (dset i (a, h) targets)"
    proof (intro allI impI)
      fix b h' j d' assume m: "((b, h', j), d') \<in> set ts" "d' \<noteq> 0"
      show "dget (dset i (a, h) targets) j \<in> {None, Some (b, h')}"
      proof (cases "j = i")
        case True
        then have "(b, h') = (a, h)" using C m by blast
        then show ?thesis using True by simp
      next
        case False
        then show ?thesis using C m by simp
      qed
    qed
  next
    assume T: "?T (dset i (a, h) targets)"
    have C: "(b, h') = (a, h)" if "((b, h', i), d') \<in> set ts" "d' \<noteq> 0" for b h' d'
      using T that by fastforce
    have "dget targets j \<in> {None, Some (b, h')}" if m: "((b, h', j), d') \<in> set ts" "d' \<noteq> 0" for b h' j d'
    proof (cases "j = i")
      case True
      then show ?thesis using C m i by auto
    next
      case False
      then show ?thesis using T m by fastforce
    qed
    then show "?C \<and> ?T targets" using C by blast
  qed
  moreover have "targets_fit targets (((a, h, i), d) # ts) \<longleftrightarrow>
      d \<in> {-1, 1} \<and> dget targets i \<in> {None, Some (a, h)} \<and> one_edge ts \<and> ?C \<and> ?T targets"
  proof -
    have "(\<forall>b h' j d'. ((b, h', j), d') \<in> set (((a, h, i), d) # ts) \<longrightarrow> d' \<noteq> 0 \<longrightarrow> dget targets j \<in> {None, Some (b, h')}) \<longleftrightarrow>
        dget targets i \<in> {None, Some (a, h)} \<and> ?T targets"
    proof (intro iffI conjI allI impI)
      assume L: "\<forall>b h' j d'. ((b, h', j), d') \<in> set (((a, h, i), d) # ts) \<longrightarrow> d' \<noteq> 0 \<longrightarrow> dget targets j \<in> {None, Some (b, h')}"
      show "dget targets i \<in> {None, Some (a, h)}" using L [rule_format, of a h i d] False by simp
      show "dget targets j \<in> {None, Some (b, h')}" if "((b, h', j), d') \<in> set ts" "d' \<noteq> 0" for b h' j d'
        using L [rule_format, of b h' j d'] that by simp
    next
      fix b h' j d'
      assume R: "dget targets i \<in> {None, Some (a, h)} \<and> ?T targets"
        and m: "((b, h', j), d') \<in> set (((a, h, i), d) # ts)" "d' \<noteq> 0"
      show "dget targets j \<in> {None, Some (b, h')}"
      proof (cases "((b, h', j), d') \<in> set ts")
        case True
        then show ?thesis using R m(2) by blast
      next
        case new: False
        then have eq: "b = a" "h' = h" "j = i" using m(1) by simp_all
        show ?thesis unfolding eq using R by (rule conjunct1)
      qed
    qed
    then show ?thesis unfolding targets_fit_def one_edge_Cons using False by (simp only:) blast
  qed
  moreover have "targets_fit (dset i (a, h) targets) ts \<longleftrightarrow> one_edge ts \<and> ?T (dset i (a, h) targets)"
    by (simp only: targets_fit_def)
  ultimately show ?thesis using False by (simp only: if_False) blast
qed

lemma target_step_simp:
  "target_step ((a, h, i), d) targets =
     (if d = 0 then Inr targets
      else if d \<in> {-1, 1} \<and> dget targets i \<in> {None, Some (a, h)} then Inr (dset i (a, h) targets)
      else Inl ValidationError)"
  by (simp add: target_step_def Let_def)

lemma target_steps:
  "targets_fit targets ts \<Longrightarrow> \<exists>targets'. fold_res target_step ts targets = Inr targets'"
  "\<not> targets_fit targets ts \<Longrightarrow> fold_res target_step ts targets = Inl ValidationError"
proof (induction ts arbitrary: targets)
  case Nil
  case 2
  then show ?case by (simp add: targets_fit_def one_edge_def)
next
  case (Cons t ts)
  obtain a h i d where t: "t = ((a, h, i), d)" by (metis prod.exhaust)
  case 1
  then show ?case using Cons.IH(1) unfolding t targets_fit_Cons
    by (auto simp: target_step_simp split: if_splits)
next
  case (Cons t ts)
  obtain a h i d where t: "t = ((a, h, i), d)" by (metis prod.exhaust)
  case 2
  then show ?case using Cons.IH(2) unfolding t targets_fit_Cons
    by (auto simp: target_step_simp split: if_splits)
qed simp

end
