(* ===== verification/GL_CertIndexProofs.thy ===== *)
theory GL_CertIndexProofs
  imports GL_CertIndexBase
begin

text \<open>
  The index of certificate evidence represents a map from active observations to their edges: the
  stored sets, masks and buckets are determined by it.  A batch of deltas is either rejected, or
  moves the represented map by the coalesced deltas; its transitions move the hash masks.
\<close>

unbundle bit_operations_syntax

section \<open>Dictionaries of sets\<close>

definition set_at :: "('k, stored_set) pydict \<Rightarrow> 'k \<Rightarrow> string_node" where
  "set_at d k = (case dget d k of None \<Rightarrow> ONone | Some s \<Rightarrow> snd s)"

definition sets_ok :: "('k, stored_set) pydict \<Rightarrow> bool" where
  "sets_ok d \<longleftrightarrow> dict_ok d \<and> (\<forall>k s. dget d k = Some s \<longrightarrow> opt_inv (snd s) \<and> snd s \<noteq> ONone)"

text \<open>The sets with the pending changes \<open>es\<close>.\<close>

definition pending :: "('k, stored_set) pydict \<Rightarrow> ('k, string_node) pydict \<Rightarrow> 'k \<Rightarrow> string_node" where
  "pending d es k = dget_default es k (set_at d k)"

definition pending_ok :: "('k, string_node) pydict \<Rightarrow> bool" where
  "pending_ok es \<longleftrightarrow> dict_ok es \<and> (\<forall>k t. dget es k = Some t \<longrightarrow> opt_inv t)"

lemma edge_set_at: "edge_set ix = set_at (ci_edge_observations ix)"
  by (intro ext) (simp add: edge_set_def set_at_def)

lemma bucket_set_at: "bucket_set ix = set_at (ci_hashes_by_mask ix)"
  by (intro ext) (simp add: bucket_set_def set_at_def)

lemma set_at_inv: "sets_ok d \<Longrightarrow> opt_inv (set_at d k)"
proof (cases "dget d k")
  case (Some s)
  then show "sets_ok d \<Longrightarrow> ?thesis" unfolding sets_ok_def set_at_def by (metis option.simps(5))
qed (simp add: set_at_def opt_inv_def)

lemma pending_inv: "sets_ok d \<Longrightarrow> pending_ok es \<Longrightarrow> opt_inv (pending d es k)"
  by (auto simp: pending_def pending_ok_def dget_default_def set_at_inv split: option.split)

lemma pending_dset: "pending d (dset k t es) = (pending d es)(k := t)"
  by (auto simp: pending_def dget_default_def)

lemma pending_Nil [simp]: "pending d [] = set_at d"
  by (intro ext) (simp add: pending_def dget_default_def)

lemma pending_ok_Nil [simp]: "pending_ok []"
  by (simp add: pending_ok_def)

lemma pending_ok_dset: "pending_ok es \<Longrightarrow> opt_inv t \<Longrightarrow> pending_ok (dset k t es)"
  by (auto simp: pending_ok_def split: if_splits)

lemma pending_assigned:
  assumes d: "sets_ok d" and es: "pending_ok es"
  shows "sets_ok (assign_changes True (set_changes a d es) d)"
    and "set_at (assign_changes True (set_changes a d es) d) = pending d es"
proof -
  let ?d = "assign_changes True (set_changes a d es) d"
  have ok: "dict_ok es" using es by (simp add: pending_ok_def)
  have new: "dget es k = None \<and> dget ?d k = dget d k \<or>
      (\<exists>t r. dget es k = Some t \<and> opt_inv t \<and> dget ?d k = (if t = ONone then None else Some (r, t)))" for k
  proof (cases "dget es k")
    case None
    then have "k \<notin> dom (dget es)" by (simp add: domIff)
    from assign_set_changes(1) [OF ok this, of a d] None show ?thesis by simp
  next
    case (Some t)
    from assign_set_changes(2) [OF ok Some, of a d] obtain r where
      "dget ?d k = (if t = ONone then None else Some (r, t))" by (rule exE)
    then show ?thesis using Some es unfolding pending_ok_def by blast
  qed
  have "dict_ok ?d" using d by (simp add: sets_ok_def dict_ok_assign_changes)
  moreover have "opt_inv (snd s) \<and> snd s \<noteq> ONone" if "dget ?d k = Some s" for k s
  proof -
    have "opt_inv (snd s) \<and> snd s \<noteq> ONone" if "dget d k = Some s" using that d unfolding sets_ok_def by blast
    then show ?thesis using new [of k] that by (auto split: if_splits)
  qed
  ultimately show "sets_ok ?d" by (simp add: sets_ok_def)
  show "set_at ?d = pending d es"
  proof
    fix k show "set_at ?d k = pending d es k"
      using new [of k] by (auto simp: set_at_def pending_def dget_default_def)
  qed
qed

section \<open>The represented map\<close>

type_synonym observation_map = "string \<rightharpoonup> edge"

definition edge_members :: "observation_map \<Rightarrow> edge \<Rightarrow> string set" where
  "edge_members F e = {i. F i = Some e}"

definition edge_ok :: "nat \<Rightarrow> edge \<Rightarrow> bool" where
  "edge_ok n e \<longleftrightarrow> 0 \<le> fst e \<and> fst e < int n \<and> \<not> blank_text (snd e)"

abbreviation index_width :: "cert_index \<Rightarrow> nat" where
  "index_width ix \<equiv> length (ci_requirement_version_ids ix)"

definition index_for :: "cert_index \<Rightarrow> observation_map \<Rightarrow> bool" where
  "index_for ix F \<longleftrightarrow>
     dict_ok (ci_observation_edge ix) \<and> dget (ci_observation_edge ix) = F \<and>
     (\<forall>e \<in> ran F. edge_ok (index_width ix) e) \<and>
     sets_ok (ci_edge_observations ix) \<and> (\<forall>e. opt_elems (edge_set ix e) = edge_members F e) \<and>
     dict_ok (ci_hash_masks ix) \<and> masks_ok (index_width ix) (dget (ci_hash_masks ix)) \<and>
     (\<forall>h k. bit (mask_of (dget (ci_hash_masks ix)) h) k \<longleftrightarrow> edge_members F (int k, h) \<noteq> {}) \<and>
     sets_ok (ci_hashes_by_mask ix) \<and>
     (\<forall>m. opt_elems (bucket_set ix m) = {h. dget (ci_hash_masks ix) h = Some m})"

lemma index_forD:
  assumes "index_for ix F"
  shows "dict_ok (ci_observation_edge ix)" "dget (ci_observation_edge ix) = F"
    "e \<in> ran F \<Longrightarrow> edge_ok (index_width ix) e"
    "sets_ok (ci_edge_observations ix)" "opt_elems (edge_set ix e) = edge_members F e"
    "dict_ok (ci_hash_masks ix)" "masks_ok (index_width ix) (dget (ci_hash_masks ix))"
    "bit (mask_of (dget (ci_hash_masks ix)) h) k \<longleftrightarrow> edge_members F (int k, h) \<noteq> {}"
    "sets_ok (ci_hashes_by_mask ix)"
    "opt_elems (bucket_set ix m) = {h. dget (ci_hash_masks ix) h = Some m}"
  using assms unfolding index_for_def by blast+

section \<open>The loop over the memberships\<close>

text \<open>The represented map with the changed observations of the loop state.\<close>

definition obs_after :: "observation_map \<Rightarrow> (string, edge option) pydict \<Rightarrow> observation_map" where
  "obs_after F changes i = (case dget changes i of None \<Rightarrow> F i | Some v \<Rightarrow> v)"

definition mu_ok :: "cert_index \<Rightarrow> observation_map \<Rightarrow> membership_update \<Rightarrow> bool" where
  "mu_ok ix F mu \<longleftrightarrow>
     pending_ok (mu_edges mu) \<and> dict_ok (mu_observations mu) \<and> 0 \<le> mu_operations mu \<and>
     (\<forall>e \<in> dom (dget (mu_edges mu)). edge_ok (index_width ix) e) \<and>
     (\<forall>e. opt_elems (pending (ci_edge_observations ix) (mu_edges mu) e) =
        edge_members (obs_after F (mu_observations mu)) e)"

lemma obs_after_dset: "obs_after F (dset i v changes) = (obs_after F changes)(i := v)"
  by (auto simp: obs_after_def)

lemma mu_ok_update:
  assumes mu: "mu_ok ix F mu" and e: "edge_ok (index_width ix) e" and t: "opt_inv t"
    and elems: "\<And>e'. (if e' = e then opt_elems t else edge_members (obs_after F (mu_observations mu)) e') =
      edge_members ((obs_after F (mu_observations mu))(i := v)) e'"
  shows "mu_ok ix F \<lparr>mu_edges = dset e t (mu_edges mu), mu_observations = dset i v (mu_observations mu),
    mu_operations = mu_operations mu + 1\<rparr>"
proof -
  have "opt_elems (pending (ci_edge_observations ix) (dset e t (mu_edges mu)) e') =
      edge_members (obs_after F (dset i v (mu_observations mu))) e'" for e'
  proof -
    have "opt_elems (pending (ci_edge_observations ix) (mu_edges mu) e') =
        edge_members (obs_after F (mu_observations mu)) e'"
      using mu unfolding mu_ok_def by blast
    then show ?thesis using elems [of e'] by (cases "e' = e") (simp_all add: pending_dset obs_after_dset)
  qed
  then show ?thesis using mu e t by (simp add: mu_ok_def pending_ok_dset)
qed

lemma membership_step_ok:
  assumes ix: "index_for ix F" and mu: "mu_ok ix F mu" and d: "d \<in> {-1, 0, 1}" and i: "\<not> blank_text i"
    and e: "edge_ok (index_width ix) (a, h)" and fresh: "d \<noteq> 0 \<Longrightarrow> dget (mu_observations mu) i = None"
  shows "(0 < d \<longrightarrow> F i = None) \<and> (d < 0 \<longrightarrow> F i = Some (a, h)) \<Longrightarrow>
      \<exists>mu'. membership_step ix ((a, h, i), d) mu = Inr mu' \<and> mu_ok ix F mu' \<and>
        dget (mu_observations mu') = (if d = 0 then dget (mu_observations mu)
          else (dget (mu_observations mu))(i \<mapsto> if 0 < d then Some (a, h) else None))"
    and "\<not> ((0 < d \<longrightarrow> F i = None) \<and> (d < 0 \<longrightarrow> F i = Some (a, h))) \<Longrightarrow>
      membership_step ix ((a, h, i), d) mu = Inl ValidationError"
proof -
  let ?cur = "dget_default (mu_edges mu) (a, h) (edge_set ix (a, h))"
  let ?G = "obs_after F (mu_observations mu)"
  have cur: "opt_inv ?cur" "opt_elems ?cur = edge_members ?G (a, h)"
    using mu pending_inv [OF index_forD(4) [OF ix], of "mu_edges mu" "(a, h)"]
    unfolding edge_set_at pending_def mu_ok_def by blast+
  have now: "?G i = F i" if "d \<noteq> 0" using fresh [OF that] by (simp add: obs_after_def)
  note obs = index_forD(2) [OF ix]
  assume fit: "(0 < d \<longrightarrow> F i = None) \<and> (d < 0 \<longrightarrow> F i = Some (a, h))"
  consider "d = 0" | "d = 1" | "d = -1" using d by auto
  then show "\<exists>mu'. membership_step ix ((a, h, i), d) mu = Inr mu' \<and> mu_ok ix F mu' \<and>
        dget (mu_observations mu') = (if d = 0 then dget (mu_observations mu)
          else (dget (mu_observations mu))(i \<mapsto> if 0 < d then Some (a, h) else None))"
  proof cases
    case 1
    then show ?thesis using mu by (simp add: membership_step_def)
  next
    case 2
    then have F: "F i = None" "?G i = None" using fit now by simp_all
    then have "i \<notin> opt_elems ?cur" by (simp add: cur(2) edge_members_def)
    with ps_add_ok [OF cur(1) i] obtain t where
      t: "ps_add ?cur i = Inr (t, True)" "opt_inv t" "opt_elems t = insert i (opt_elems ?cur)" by auto
    have step: "membership_step ix ((a, h, i), d) mu =
        Inr \<lparr>mu_edges = dset (a, h) t (mu_edges mu), mu_observations = dset i (Some (a, h)) (mu_observations mu),
             mu_operations = mu_operations mu + 1\<rparr>"
      using 2 F t(1) by (simp add: membership_step_def obs Let_def)
    have "(if e' = (a, h) then opt_elems t else edge_members ?G e') = edge_members (?G(i := Some (a, h))) e'" for e'
      using F(2) by (auto simp: t(3) cur(2) edge_members_def)
    from mu_ok_update [OF mu e t(2) this] step 2 show ?thesis by simp
  next
    case 3
    then have F: "F i = Some (a, h)" "?G i = Some (a, h)" using fit now by simp_all
    then have "i \<in> opt_elems ?cur" by (simp add: cur(2) edge_members_def)
    with ps_remove_ok [OF cur(1) i] obtain t where
      t: "ps_remove ?cur i = Inr (t, True)" "opt_inv t" "opt_elems t = opt_elems ?cur - {i}" by auto
    have step: "membership_step ix ((a, h, i), d) mu =
        Inr \<lparr>mu_edges = dset (a, h) t (mu_edges mu), mu_observations = dset i None (mu_observations mu),
             mu_operations = mu_operations mu + 1\<rparr>"
      using 3 F t(1) by (simp add: membership_step_def obs Let_def)
    have "(if e' = (a, h) then opt_elems t else edge_members ?G e') = edge_members (?G(i := None)) e'" for e'
      using F(2) by (auto simp: t(3) cur(2) edge_members_def)
    from mu_ok_update [OF mu e t(2) this] step 3 show ?thesis by simp
  qed
next
  note obs = index_forD(2) [OF ix]
  assume "\<not> ((0 < d \<longrightarrow> F i = None) \<and> (d < 0 \<longrightarrow> F i = Some (a, h)))"
  then have "0 < d \<and> F i \<noteq> None \<or> d < 0 \<and> F i \<noteq> Some (a, h)" by meson
  then consider "0 < d" "F i \<noteq> None" | "d < 0" "F i \<noteq> Some (a, h)" by meson
  then show "membership_step ix ((a, h, i), d) mu = Inl ValidationError"
    by cases (simp_all add: membership_step_def obs)
qed

text \<open>An entry asks for an absent observation, or one active on its edge.\<close>

definition moves_fit :: "observation_map \<Rightarrow> (membership \<times> int) list \<Rightarrow> bool" where
  "moves_fit F ts \<longleftrightarrow>
     (\<forall>((a, h, i), d) \<in> set ts. (0 < d \<longrightarrow> F i = None) \<and> (d < 0 \<longrightarrow> F i = Some (a, h)))"

lemma moves_fit_Cons:
  "moves_fit F (((a, h, i), d) # ts) \<longleftrightarrow>
     ((0 < d \<longrightarrow> F i = None) \<and> (d < 0 \<longrightarrow> F i = Some (a, h))) \<and> moves_fit F ts"
  by (simp add: moves_fit_def)

definition entries_ok :: "nat \<Rightarrow> (membership \<times> int) list \<Rightarrow> bool" where
  "entries_ok n ts \<longleftrightarrow> (\<forall>((a, h, i), d) \<in> set ts. edge_ok n (a, h) \<and> \<not> blank_text i)"

lemma entries_ok_Cons:
  "entries_ok n (((a, h, i), d) # ts) \<longleftrightarrow> edge_ok n (a, h) \<and> \<not> blank_text i \<and> entries_ok n ts"
  by (simp add: entries_ok_def)

lemma membership_steps:
  assumes ix: "index_for ix F" and mu: "mu_ok ix F mu" and one: "one_edge ts" and dist: "distinct (map fst ts)"
    and ok: "entries_ok (index_width ix) ts"
    and fresh: "\<And>a h i d. ((a, h, i), d) \<in> set ts \<Longrightarrow> d \<noteq> 0 \<Longrightarrow> dget (mu_observations mu) i = None"
  shows "moves_fit F ts \<Longrightarrow> \<exists>mu'. fold_res (membership_step ix) ts mu = Inr mu' \<and> mu_ok ix F mu' \<and>
      (\<forall>a h i d. ((a, h, i), d) \<in> set ts \<longrightarrow> d \<noteq> 0 \<longrightarrow>
        dget (mu_observations mu') i = Some (if 0 < d then Some (a, h) else None)) \<and>
      (\<forall>i. (\<forall>a h d. ((a, h, i), d) \<in> set ts \<longrightarrow> d = 0) \<longrightarrow>
        dget (mu_observations mu') i = dget (mu_observations mu) i)"
    and "\<not> moves_fit F ts \<Longrightarrow> fold_res (membership_step ix) ts mu = Inl ValidationError"
proof -
  let ?obs = "\<lambda>ts mu mu'. (\<forall>a h i d. ((a, h, i), d) \<in> set ts \<longrightarrow> d \<noteq> 0 \<longrightarrow>
        dget (mu_observations mu') i = Some (if 0 < d then Some (a, h) else None)) \<and>
      (\<forall>i. (\<forall>a h d. ((a, h, i), d) \<in> set ts \<longrightarrow> d = 0) \<longrightarrow>
        dget (mu_observations mu') i = dget (mu_observations mu) i)"
  have "(if moves_fit F ts then \<exists>mu'. fold_res (membership_step ix) ts mu = Inr mu' \<and> mu_ok ix F mu' \<and> ?obs ts mu mu'
      else fold_res (membership_step ix) ts mu = Inl ValidationError)"
    using mu one dist ok fresh
  proof (induction ts arbitrary: mu)
    case Nil
    then show ?case by (simp add: moves_fit_def)
  next
    case (Cons t ts)
    obtain a h i d where t: "t = ((a, h, i), d)" by (metis prod.exhaust)
    have d: "d \<in> {-1, 0, 1}" and one': "one_edge ts"
      and meet: "d \<noteq> 0 \<longrightarrow> (\<forall>b h' d'. ((b, h', i), d') \<in> set ts \<longrightarrow> d' \<noteq> 0 \<longrightarrow> (b, h') = (a, h))"
      using Cons.prems(2) unfolding t one_edge_Cons by blast+
    have key: "(a, h, i) \<notin> fst ` set ts" and dist': "distinct (map fst ts)"
      using Cons.prems(3) by (simp_all add: t)
    have eok: "edge_ok (index_width ix) (a, h)" "\<not> blank_text i" "entries_ok (index_width ix) ts"
      using Cons.prems(4) unfolding t entries_ok_Cons by blast+
    have fresh: "d \<noteq> 0 \<Longrightarrow> dget (mu_observations mu) i = None"
      using Cons.prems(5) [of a h i d] by (simp add: t)
    have apart: "d \<noteq> 0 \<Longrightarrow> ((b, h', i), d') \<in> set ts \<Longrightarrow> d' = 0" for b h' d'
      using meet key by (metis fst_conv image_eqI prod.inject)
    note step = membership_step_ok [OF ix Cons.prems(1) d eok(2,1) fresh]
    show ?case
    proof (cases "(0 < d \<longrightarrow> F i = None) \<and> (d < 0 \<longrightarrow> F i = Some (a, h))")
      case False
      then have "\<not> moves_fit F (t # ts)" unfolding t moves_fit_Cons by meson
      then show ?thesis using step(2) [OF _ False] by (simp add: t)
    next
      case True
      let ?D = "if d = 0 then dget (mu_observations mu)
          else (dget (mu_observations mu))(i \<mapsto> if 0 < d then Some (a, h) else None)"
      have "\<exists>mu1. membership_step ix ((a, h, i), d) mu = Inr mu1 \<and> mu_ok ix F mu1 \<and> dget (mu_observations mu1) = ?D"
        by (rule step(1)) (use True in simp_all)
      then obtain mu1 where mu1: "membership_step ix ((a, h, i), d) mu = Inr mu1" "mu_ok ix F mu1"
        "dget (mu_observations mu1) = ?D" by (elim exE conjE)
      have fresh1: "dget (mu_observations mu1) j = None" if m: "((b, h', j), d') \<in> set ts" "d' \<noteq> 0" for b h' j d'
      proof -
        have "dget (mu_observations mu) j = None" using Cons.prems(5) [of b h' j d'] m by simp
        moreover have "j \<noteq> i \<or> d = 0" using apart m by blast
        ultimately show ?thesis by (auto simp: mu1(3))
      qed
      have fit: "moves_fit F (t # ts) \<longleftrightarrow> moves_fit F ts" using True by (simp add: t moves_fit_Cons)
      have fold: "fold_res (membership_step ix) (t # ts) mu = fold_res (membership_step ix) ts mu1"
        by (simp add: t mu1(1))
      show ?thesis
      proof (cases "moves_fit F ts")
        case False
        then show ?thesis
          using Cons.IH [OF mu1(2) one' dist' eok(3) fresh1] fit fold by simp
      next
        case moves: True
        have "\<exists>mu'. fold_res (membership_step ix) ts mu1 = Inr mu' \<and> mu_ok ix F mu' \<and> ?obs ts mu1 mu'"
          using Cons.IH [OF mu1(2) one' dist' eok(3) fresh1] moves by simp
        then obtain mu' where mu': "fold_res (membership_step ix) ts mu1 = Inr mu'" "mu_ok ix F mu'"
          "\<And>a h i d. ((a, h, i), d) \<in> set ts \<Longrightarrow> d \<noteq> 0 \<Longrightarrow>
            dget (mu_observations mu') i = Some (if 0 < d then Some (a, h) else None)"
          "\<And>i. (\<And>a h d. ((a, h, i), d) \<in> set ts \<Longrightarrow> d = 0) \<Longrightarrow>
            dget (mu_observations mu') i = dget (mu_observations mu1) i" by (elim exE conjE) blast
        have here: "d \<noteq> 0 \<Longrightarrow> dget (mu_observations mu') i = Some (if 0 < d then Some (a, h) else None)"
          using mu'(4) [of i] apart by (simp add: mu1(3))
        have "?obs (t # ts) mu mu'"
        proof (intro conjI allI impI)
          fix b h' j d' assume "((b, h', j), d') \<in> set (t # ts)" "d' \<noteq> 0"
          then show "dget (mu_observations mu') j = Some (if 0 < d' then Some (b, h') else None)"
            using here mu'(3) [of b h' j d'] by (auto simp: t)
        next
          fix j assume none: "\<forall>b h' d'. ((b, h', j), d') \<in> set (t # ts) \<longrightarrow> d' = 0"
          have "dget (mu_observations mu') j = dget (mu_observations mu1) j"
            by (rule mu'(4)) (use none in auto)
          moreover have "j \<noteq> i \<or> d = 0" using none by (auto simp: t)
          ultimately show "dget (mu_observations mu') j = dget (mu_observations mu) j" by (auto simp: mu1(3))
        qed
        then show ?thesis using moves fit fold mu'(1,2) by auto
      qed
    qed
  qed
  then show "moves_fit F ts \<Longrightarrow> \<exists>mu'. fold_res (membership_step ix) ts mu = Inr mu' \<and> mu_ok ix F mu' \<and> ?obs ts mu mu'"
    and "\<not> moves_fit F ts \<Longrightarrow> fold_res (membership_step ix) ts mu = Inl ValidationError" by simp_all
qed

section \<open>The loop over the changed edge sets\<close>

abbreviation index_masks :: "cert_index \<Rightarrow> string \<rightharpoonup> nat" where
  "index_masks ix \<equiv> dget (ci_hash_masks ix)"

text \<open>The masks with the new masks of the loop state.\<close>

definition new_mask :: "cert_index \<Rightarrow> (string, nat) pydict \<Rightarrow> string \<Rightarrow> nat" where
  "new_mask ix nm h = dget_default nm h (mask_of (index_masks ix) h)"

lemma opt_size_pos: "opt_inv t \<Longrightarrow> 0 < opt_size t \<longleftrightarrow> opt_elems t \<noteq> {}"
  using opt_set.finite [of t] by (cases t) (auto simp: opt_inv_def opt_elems_def)

lemma mask_step_ok:
  assumes a: "0 \<le> a" and inv: "opt_inv t" "opt_inv (edge_set ix (a, h))"
    and old: "bit (new_mask ix nm h) (nat a) \<longleftrightarrow> opt_elems (edge_set ix (a, h)) \<noteq> {}"
    and nm: "dict_ok nm" and c: "0 \<le> c"
  shows "\<exists>nm' c'. mask_step ix ((a, h), t) (nm, c) = Inr (nm', c') \<and> dict_ok nm' \<and> 0 \<le> c' \<and>
    dom (dget nm') \<subseteq> insert h (dom (dget nm)) \<and>
    (\<forall>g k. bit (new_mask ix nm' g) k \<longleftrightarrow>
       (if g = h \<and> k = nat a then opt_elems t \<noteq> {} else bit (new_mask ix nm g) k))"
proof -
  let ?m = "dget_default nm h (dget_default (ci_hash_masks ix) h 0)"
  have m: "?m = new_mask ix nm h" by (simp add: new_mask_def mask_of_dget)
  consider "edge_set ix (a, h) = t"
    | "edge_set ix (a, h) \<noteq> t" "opt_elems (edge_set ix (a, h)) \<noteq> {} \<longleftrightarrow> opt_elems t \<noteq> {}"
    | "opt_elems (edge_set ix (a, h)) = {}" "opt_elems t \<noteq> {}"
    | "opt_elems (edge_set ix (a, h)) \<noteq> {}" "opt_elems t = {}" by blast
  then show ?thesis
  proof cases
    case 1
    then have "mask_step ix ((a, h), t) (nm, c) = Inr (nm, c)" by (simp add: mask_step_def)
    then show ?thesis using 1 old nm c by auto
  next
    case 2
    then have "mask_step ix ((a, h), t) (nm, c) = Inr (nm, c + 1)"
      using opt_size_pos [OF inv(1)] opt_size_pos [OF inv(2)] by (simp add: mask_step_def Let_def)
    then show ?thesis using 2 old nm c by auto
  next
    case 3
    then have "edge_set ix (a, h) \<noteq> t" by auto
    moreover have "?m AND 2 ^ nat a = 0" using old 3 by (simp add: m and_exp_eq_0_iff_not_bit)
    ultimately have "mask_step ix ((a, h), t) (nm, c) = Inr (dset h (?m OR 2 ^ nat a) nm, c + 1)"
      using opt_size_pos [OF inv(1)] opt_size_pos [OF inv(2)] 3 by (simp add: mask_step_def Let_def)
    moreover have "new_mask ix (dset h (?m OR 2 ^ nat a) nm) g =
        (if g = h then new_mask ix nm h OR 2 ^ nat a else new_mask ix nm g)" for g
      unfolding m by (simp add: new_mask_def dget_default_def)
    ultimately show ?thesis using 3 nm c by (auto simp: bit_simps)
  next
    case 4
    then have "edge_set ix (a, h) \<noteq> t" by auto
    moreover have "?m AND 2 ^ nat a \<noteq> 0" using old 4 by (simp add: m and_exp_eq_0_iff_not_bit)
    ultimately have "mask_step ix ((a, h), t) (nm, c) = Inr (dset h (unset_bit (nat a) ?m) nm, c + 1)"
      using opt_size_pos [OF inv(1)] opt_size_pos [OF inv(2)] 4 by (simp add: mask_step_def Let_def)
    moreover have "new_mask ix (dset h (unset_bit (nat a) ?m) nm) g =
        (if g = h then unset_bit (nat a) (new_mask ix nm h) else new_mask ix nm g)" for g
      unfolding m by (simp add: new_mask_def dget_default_def)
    ultimately show ?thesis using 4 nm c by (auto simp: bit_simps)
  qed
qed

lemma mask_steps:
  assumes ix: "sets_ok (ci_edge_observations ix)" and es: "pending_ok es"
    and keys: "\<forall>e \<in> dom (dget es). 0 \<le> fst e"
    and old: "\<forall>e \<in> dom (dget es).
      bit (new_mask ix nm (snd e)) (nat (fst e)) \<longleftrightarrow> opt_elems (edge_set ix e) \<noteq> {}"
    and nm: "dict_ok nm" and c: "0 \<le> c"
  shows "\<exists>nm' c'. fold_res (mask_step ix) es (nm, c) = Inr (nm', c') \<and> dict_ok nm' \<and> 0 \<le> c' \<and>
    dom (dget nm') \<subseteq> snd ` dom (dget es) \<union> dom (dget nm) \<and>
    (\<forall>g k. bit (new_mask ix nm' g) k \<longleftrightarrow>
       (case dget es (int k, g) of None \<Rightarrow> bit (new_mask ix nm g) k | Some t \<Rightarrow> opt_elems t \<noteq> {}))"
  using es keys old nm c
proof (induction es arbitrary: nm c)
  case (Cons p es)
  obtain a h t where p: "p = ((a, h), t)" by (metis prod.exhaust)
  have fresh: "(a, h) \<notin> dom (dget es)"
    using Cons.prems(1) by (simp add: p pending_ok_def dict_ok_def dom_map_of_conv_image_fst)
  have "dget (p # es) (a, h) = Some t" by (simp add: p)
  then have a: "0 \<le> a" and inv: "opt_inv t"
    using Cons.prems(1,2) unfolding pending_ok_def by (metis domI fst_conv, blast)
  have es: "pending_ok es"
    unfolding pending_ok_def
  proof (intro conjI allI impI)
    show "dict_ok es" using Cons.prems(1) by (simp add: p pending_ok_def dict_ok_def)
    fix e u assume e: "dget es e = Some u"
    then have "e \<noteq> (a, h)" using fresh by blast
    then have "dget (p # es) e = Some u" using e by (simp add: p)
    then show "opt_inv u" using Cons.prems(1) unfolding pending_ok_def by blast
  qed
  have "(a, h) \<in> dom (dget (p # es))" by (simp add: p dom_map_of_conv_image_fst)
  with Cons.prems(3) have "bit (new_mask ix nm (snd (a, h))) (nat (fst (a, h))) \<longleftrightarrow>
      opt_elems (edge_set ix (a, h)) \<noteq> {}" by blast
  then have here: "bit (new_mask ix nm h) (nat a) \<longleftrightarrow> opt_elems (edge_set ix (a, h)) \<noteq> {}" by simp
  have set: "opt_inv (edge_set ix (a, h))" unfolding edge_set_at by (rule set_at_inv [OF ix])
  from mask_step_ok [OF a inv set here Cons.prems(4,5)] obtain nm1 c1 where
    step: "mask_step ix ((a, h), t) (nm, c) = Inr (nm1, c1)" "dict_ok nm1" "0 \<le> c1"
    "dom (dget nm1) \<subseteq> insert h (dom (dget nm))"
    "\<And>g k. bit (new_mask ix nm1 g) k \<longleftrightarrow>
       (if g = h \<and> k = nat a then opt_elems t \<noteq> {} else bit (new_mask ix nm g) k)" by (elim exE conjE) blast
  have keys: "\<forall>e \<in> dom (dget es). 0 \<le> fst e"
  proof
    fix e assume "e \<in> dom (dget es)"
    then have "e \<in> dom (dget (p # es))" by (simp add: p dom_map_of_conv_image_fst)
    then show "0 \<le> fst e" using Cons.prems(2) by blast
  qed
  have old1: "\<forall>e \<in> dom (dget es). bit (new_mask ix nm1 (snd e)) (nat (fst e)) \<longleftrightarrow> opt_elems (edge_set ix e) \<noteq> {}"
  proof
    fix e assume e: "e \<in> dom (dget es)"
    then have "e \<noteq> (a, h)" using fresh by blast
    moreover have "0 \<le> fst e" using keys e by blast
    ultimately have other: "\<not> (snd e = h \<and> nat (fst e) = nat a)" using a by (metis eq_nat_nat_iff prod.collapse)
    have "e \<in> dom (dget (p # es))" using e by (simp add: p dom_map_of_conv_image_fst)
    then have "bit (new_mask ix nm (snd e)) (nat (fst e)) \<longleftrightarrow> opt_elems (edge_set ix e) \<noteq> {}"
      using Cons.prems(3) by blast
    then show "bit (new_mask ix nm1 (snd e)) (nat (fst e)) \<longleftrightarrow> opt_elems (edge_set ix e) \<noteq> {}"
      unfolding step(5) if_not_P [OF other] .
  qed
  from Cons.IH [OF es keys old1 step(2,3)] obtain nm2 c2 where
    rest: "fold_res (mask_step ix) es (nm1, c1) = Inr (nm2, c2)" "dict_ok nm2" "0 \<le> c2"
    "dom (dget nm2) \<subseteq> snd ` dom (dget es) \<union> dom (dget nm1)"
    "\<And>g k. bit (new_mask ix nm2 g) k \<longleftrightarrow>
       (case dget es (int k, g) of None \<Rightarrow> bit (new_mask ix nm1 g) k | Some t \<Rightarrow> opt_elems t \<noteq> {})"
    by (elim exE conjE) blast
  have "bit (new_mask ix nm2 g) k \<longleftrightarrow>
       (case dget (p # es) (int k, g) of None \<Rightarrow> bit (new_mask ix nm g) k | Some t \<Rightarrow> opt_elems t \<noteq> {})" for g k
  proof (cases "(int k, g) = (a, h)")
    case True
    then have "dget es (int k, g) = None" using fresh by (simp add: domIff)
    then show ?thesis using True rest(5) [of g k] step(5) [of g k] by (auto simp: p)
  next
    case False
    then have other: "\<not> (g = h \<and> k = nat a)" using a by auto
    have nm1: "bit (new_mask ix nm1 g) k \<longleftrightarrow> bit (new_mask ix nm g) k"
      unfolding step(5) if_not_P [OF other] by (rule refl)
    have d: "dget (p # es) (int k, g) = dget es (int k, g)" using False by (auto simp: p)
    show ?thesis unfolding d rest(5) nm1 by (rule refl)
  qed
  moreover have "dom (dget nm2) \<subseteq> snd ` dom (dget (p # es)) \<union> dom (dget nm)"
  proof -
    have d: "dom (dget (p # es)) = insert (a, h) (dom (dget es))" by (simp add: p dom_map_of_conv_image_fst)
    show ?thesis unfolding d image_insert snd_conv using step(4) rest(4) by blast
  qed
  moreover have "fold_res (mask_step ix) (p # es) (nm, c) = Inr (nm2, c2)" using step(1) rest(1) by (simp add: p)
  ultimately show ?case using rest(2,3) by blast
qed simp

section \<open>The loop over the new masks\<close>

definition hash_move :: "cert_index \<Rightarrow> string \<Rightarrow> nat \<Rightarrow> hash_mask_transition list" where
  "hash_move ix h v =
     (if mask_of (index_masks ix) h = v then []
      else [\<lparr>ht_text_hash = h, ht_old_mask = int (mask_of (index_masks ix) h), ht_new_mask = int v\<rparr>])"

abbreviation bucket_members :: "cert_index \<Rightarrow> (nat, string_node) pydict \<Rightarrow> nat \<Rightarrow> string set" where
  "bucket_members ix bs m \<equiv> opt_elems (pending (ci_hashes_by_mask ix) bs m)"

lemma leave_bucket_ok:
  assumes ix: "sets_ok (ci_hashes_by_mask ix)" and bu: "pending_ok (bu_buckets bu)" "0 \<le> bu_operations bu"
    and h: "\<not> blank_text h" and old: "m \<noteq> 0 \<longrightarrow> h \<in> bucket_members ix (bu_buckets bu) m"
  shows "\<exists>bu'. leave_bucket ix h m bu = Inr bu' \<and> pending_ok (bu_buckets bu') \<and> 0 \<le> bu_operations bu' \<and>
    bu_transitions bu' = bu_transitions bu \<and>
    (\<forall>x. bucket_members ix (bu_buckets bu') x =
      (if m \<noteq> 0 \<and> x = m then bucket_members ix (bu_buckets bu) x - {h} else bucket_members ix (bu_buckets bu) x))"
proof (cases "m = 0")
  case False
  let ?cur = "dget_default (bu_buckets bu) m (bucket_set ix m)"
  have cur: "?cur = pending (ci_hashes_by_mask ix) (bu_buckets bu) m" by (simp add: pending_def bucket_set_at)
  have inv: "opt_inv ?cur" unfolding cur by (rule pending_inv [OF ix bu(1)])
  have "h \<in> opt_elems ?cur" using old False by (simp add: cur)
  with ps_remove_ok [OF inv h] obtain t where
    t: "ps_remove ?cur h = Inr (t, True)" "opt_inv t" "opt_elems t = opt_elems ?cur - {h}" by auto
  then have "leave_bucket ix h m bu =
      Inr (bu\<lparr>bu_buckets := dset m t (bu_buckets bu), bu_operations := bu_operations bu + 1\<rparr>)"
    using False by (simp add: leave_bucket_def)
  then show ?thesis using False bu t(2,3) by (simp add: pending_ok_dset pending_dset cur)
qed (use bu in \<open>simp add: leave_bucket_def\<close>)

lemma enter_bucket_ok:
  assumes ix: "sets_ok (ci_hashes_by_mask ix)" and bu: "pending_ok (bu_buckets bu)" "0 \<le> bu_operations bu"
    and h: "\<not> blank_text h" and new: "m \<noteq> 0 \<Longrightarrow> h \<notin> bucket_members ix (bu_buckets bu) m"
  shows "\<exists>bu'. enter_bucket ix h m bu = Inr bu' \<and> pending_ok (bu_buckets bu') \<and> 0 \<le> bu_operations bu' \<and>
    bu_transitions bu' = bu_transitions bu \<and>
    (\<forall>x. bucket_members ix (bu_buckets bu') x =
      (if m \<noteq> 0 \<and> x = m then insert h (bucket_members ix (bu_buckets bu) x) else bucket_members ix (bu_buckets bu) x))"
proof (cases "m = 0")
  case False
  let ?cur = "dget_default (bu_buckets bu) m (bucket_set ix m)"
  have cur: "?cur = pending (ci_hashes_by_mask ix) (bu_buckets bu) m" by (simp add: pending_def bucket_set_at)
  have inv: "opt_inv ?cur" unfolding cur by (rule pending_inv [OF ix bu(1)])
  have "h \<notin> opt_elems ?cur" using new False by (simp add: cur)
  with ps_add_ok [OF inv h] obtain t where
    t: "ps_add ?cur h = Inr (t, True)" "opt_inv t" "opt_elems t = insert h (opt_elems ?cur)" by auto
  then have "enter_bucket ix h m bu =
      Inr (bu\<lparr>bu_buckets := dset m t (bu_buckets bu), bu_operations := bu_operations bu + 1\<rparr>)"
    using False by (simp add: enter_bucket_def)
  then show ?thesis using False bu t(2,3) by (simp add: pending_ok_dset pending_dset cur)
qed (use bu in \<open>simp add: enter_bucket_def\<close>)

lemma bucket_step_ok:
  assumes ix: "sets_ok (ci_hashes_by_mask ix)" and bu: "pending_ok (bu_buckets bu)" "0 \<le> bu_operations bu"
    and h: "\<not> blank_text h"
    and old: "\<And>m. h \<in> bucket_members ix (bu_buckets bu) m \<longleftrightarrow> m \<noteq> 0 \<and> mask_of (index_masks ix) h = m"
  shows "\<exists>bu'. bucket_step ix (h, v) bu = Inr bu' \<and> pending_ok (bu_buckets bu') \<and> 0 \<le> bu_operations bu' \<and>
    bu_transitions bu' = bu_transitions bu @ hash_move ix h v \<and>
    (\<forall>m g. g \<in> bucket_members ix (bu_buckets bu') m \<longleftrightarrow>
      (if g = h then m \<noteq> 0 \<and> v = m else g \<in> bucket_members ix (bu_buckets bu) m))"
proof (cases "mask_of (index_masks ix) h = v")
  case True
  then have "bucket_step ix (h, v) bu = Inr bu" by (simp add: bucket_step_def Let_def flip: mask_of_dget)
  then show ?thesis using True bu old by (simp add: hash_move_def)
next
  case False
  let ?m = "mask_of (index_masks ix) h"
  have "?m \<noteq> 0 \<longrightarrow> h \<in> bucket_members ix (bu_buckets bu) ?m" using old by simp
  from leave_bucket_ok [OF ix bu h this] obtain bu1 where
    bu1: "leave_bucket ix h ?m bu = Inr bu1" "pending_ok (bu_buckets bu1)" "0 \<le> bu_operations bu1"
      "bu_transitions bu1 = bu_transitions bu"
      "\<And>x. bucket_members ix (bu_buckets bu1) x =
        (if ?m \<noteq> 0 \<and> x = ?m then bucket_members ix (bu_buckets bu) x - {h} else bucket_members ix (bu_buckets bu) x)"
    by (elim exE conjE) blast
  have none: "h \<notin> bucket_members ix (bu_buckets bu1) x" for x using old [of x] by (cases "x = 0") (auto simp: bu1(5))
  from enter_bucket_ok [OF ix bu1(2,3) h none, of v] obtain bu2 where
    bu2: "enter_bucket ix h v bu1 = Inr bu2" "pending_ok (bu_buckets bu2)" "0 \<le> bu_operations bu2"
      "bu_transitions bu2 = bu_transitions bu1"
      "\<And>x. bucket_members ix (bu_buckets bu2) x =
        (if v \<noteq> 0 \<and> x = v then insert h (bucket_members ix (bu_buckets bu1) x) else bucket_members ix (bu_buckets bu1) x)"
    by (elim exE conjE) blast
  have "g \<in> bucket_members ix (bu_buckets bu2) m \<longleftrightarrow>
      (if g = h then m \<noteq> 0 \<and> v = m else g \<in> bucket_members ix (bu_buckets bu) m)" for m g
    using none [of m] by (auto simp: bu2(5) bu1(5))
  moreover have "bucket_step ix (h, v) bu = Inr (bu2\<lparr>bu_transitions := bu_transitions bu2 @
      [\<lparr>ht_text_hash = h, ht_old_mask = int ?m, ht_new_mask = int v\<rparr>]\<rparr>)"
    using False h bu1(1) bu2(1)
    by (simp add: bucket_step_def make_hash_mask_transition_def require_text_def Let_def flip: mask_of_dget)
  ultimately show ?thesis using False bu2(2,3,4) bu1(4) by (simp add: hash_move_def)
qed

lemma bucket_steps:
  assumes ix: "sets_ok (ci_hashes_by_mask ix)" and nm: "dict_ok nm" and h: "\<forall>h \<in> dom (dget nm). \<not> blank_text h"
    and bu: "pending_ok (bu_buckets bu)" "0 \<le> bu_operations bu"
    and old: "\<forall>h \<in> dom (dget nm). \<forall>m.
      h \<in> bucket_members ix (bu_buckets bu) m \<longleftrightarrow> m \<noteq> 0 \<and> mask_of (index_masks ix) h = m"
  shows "\<exists>bu'. fold_res (bucket_step ix) nm bu = Inr bu' \<and> pending_ok (bu_buckets bu') \<and> 0 \<le> bu_operations bu' \<and>
    bu_transitions bu' = bu_transitions bu @ concat (map (\<lambda>(h, v). hash_move ix h v) nm) \<and>
    (\<forall>m g. g \<in> bucket_members ix (bu_buckets bu') m \<longleftrightarrow>
      (case dget nm g of None \<Rightarrow> g \<in> bucket_members ix (bu_buckets bu) m | Some v \<Rightarrow> m \<noteq> 0 \<and> v = m))"
  using nm h bu old
proof (induction nm arbitrary: bu)
  case (Cons p nm)
  obtain h v where p: "p = (h, v)" by (metis prod.exhaust)
  have fresh: "h \<notin> dom (dget nm)" and nm: "dict_ok nm"
    using Cons.prems(1) by (simp_all add: p dict_ok_def dom_map_of_conv_image_fst)
  have h: "\<not> blank_text h" and hs: "\<forall>h \<in> dom (dget nm). \<not> blank_text h" using Cons.prems(2) by (auto simp: p)
  have "h \<in> dom (dget (p # nm))" by (simp add: p dom_map_of_conv_image_fst)
  then have "h \<in> bucket_members ix (bu_buckets bu) m \<longleftrightarrow> m \<noteq> 0 \<and> mask_of (index_masks ix) h = m" for m
    using Cons.prems(5) by blast
  from bucket_step_ok [OF ix Cons.prems(3,4) h this, of v] obtain bu1 where
    bu1: "bucket_step ix (h, v) bu = Inr bu1" "pending_ok (bu_buckets bu1)" "0 \<le> bu_operations bu1"
      "bu_transitions bu1 = bu_transitions bu @ hash_move ix h v"
      "\<And>m g. g \<in> bucket_members ix (bu_buckets bu1) m \<longleftrightarrow>
        (if g = h then m \<noteq> 0 \<and> v = m else g \<in> bucket_members ix (bu_buckets bu) m)"
    by (elim exE conjE) blast
  have "\<forall>g \<in> dom (dget nm). \<forall>m. g \<in> bucket_members ix (bu_buckets bu1) m \<longleftrightarrow>
      m \<noteq> 0 \<and> mask_of (index_masks ix) g = m"
  proof (intro ballI allI)
    fix g m assume g: "g \<in> dom (dget nm)"
    then have "g \<noteq> h" "g \<in> dom (dget (p # nm))" using fresh by (blast, simp add: p dom_map_of_conv_image_fst)
    moreover from this have "g \<in> bucket_members ix (bu_buckets bu) m \<longleftrightarrow> m \<noteq> 0 \<and> mask_of (index_masks ix) g = m"
      using Cons.prems(5) by blast
    ultimately show "g \<in> bucket_members ix (bu_buckets bu1) m \<longleftrightarrow> m \<noteq> 0 \<and> mask_of (index_masks ix) g = m"
      using bu1(5) [of g m] by simp
  qed
  from Cons.IH [OF nm hs bu1(2,3) this] obtain bu2 where
    bu2: "fold_res (bucket_step ix) nm bu1 = Inr bu2" "pending_ok (bu_buckets bu2)" "0 \<le> bu_operations bu2"
      "bu_transitions bu2 = bu_transitions bu1 @ concat (map (\<lambda>(h, v). hash_move ix h v) nm)"
      "\<And>m g. g \<in> bucket_members ix (bu_buckets bu2) m \<longleftrightarrow>
        (case dget nm g of None \<Rightarrow> g \<in> bucket_members ix (bu_buckets bu1) m | Some v \<Rightarrow> m \<noteq> 0 \<and> v = m)"
    by (elim exE conjE) blast
  have "g \<in> bucket_members ix (bu_buckets bu2) m \<longleftrightarrow>
      (case dget (p # nm) g of None \<Rightarrow> g \<in> bucket_members ix (bu_buckets bu) m | Some v \<Rightarrow> m \<noteq> 0 \<and> v = m)" for m g
  proof (cases "g = h")
    case True
    then have "dget nm g = None" using fresh by (simp add: domIff)
    then show ?thesis using True by (simp add: p bu2(5) bu1(5))
  next
    case False
    then show ?thesis by (cases "dget nm g") (simp_all add: p bu2(5) bu1(5))
  qed
  then show ?case using bu1(1,4) bu2(1-4) by (simp add: p)
qed simp

section \<open>The index after a batch\<close>

abbreviation new_masks :: "cert_index \<Rightarrow> (string, nat) pydict \<Rightarrow> (string, nat) pydict" where
  "new_masks ix nm \<equiv> assign_changes True (mask_changes ix nm) (ci_hash_masks ix)"

lemma dget_new_masks:
  assumes "dict_ok nm"
  shows "dget (new_masks ix nm) h =
    (case dget nm h of None \<Rightarrow> index_masks ix h | Some v \<Rightarrow> if v = 0 then None else Some v)"
    and "mask_of (dget (new_masks ix nm)) h = new_mask ix nm h"
    and "changes_of (ci_hash_masks ix) (mask_changes ix nm)"
proof -
  note M = mapped_changes [OF assms mask_changes_def]
  show *: "dget (new_masks ix nm) h =
      (case dget nm h of None \<Rightarrow> index_masks ix h | Some v \<Rightarrow> if v = 0 then None else Some v)" for h
    by (rule M(2))
  show "mask_of (dget (new_masks ix nm)) h = new_mask ix nm h"
    by (auto simp: * mask_of_def new_mask_def dget_default_def split: option.split)
  show "changes_of (ci_hash_masks ix) (mask_changes ix nm)" by (rule M(1))
qed

text \<open>What the three loops have established.\<close>

definition batch_for ::
    "cert_index \<Rightarrow> observation_map \<Rightarrow> membership_update \<Rightarrow> (string, nat) pydict \<Rightarrow> bucket_update \<Rightarrow> bool" where
  "batch_for ix F mu nm bu \<longleftrightarrow>
     index_for ix F \<and> mu_ok ix F mu \<and> dict_ok nm \<and>
     (\<forall>h k. bit (new_mask ix nm h) k \<longleftrightarrow> (case dget (mu_edges mu) (int k, h) of
        None \<Rightarrow> bit (mask_of (index_masks ix) h) k | Some t \<Rightarrow> opt_elems t \<noteq> {})) \<and>
     pending_ok (bu_buckets bu) \<and>
     (\<forall>h m. h \<in> bucket_members ix (bu_buckets bu) m \<longleftrightarrow> (case dget nm h of
        None \<Rightarrow> h \<in> opt_elems (bucket_set ix m) | Some v \<Rightarrow> m \<noteq> 0 \<and> v = m)) \<and>
     bu_transitions bu = concat (map (\<lambda>(h, v). hash_move ix h v) nm)"

lemma batch_forD:
  assumes "batch_for ix F mu nm bu"
  shows "index_for ix F" "mu_ok ix F mu" "dict_ok nm"
    "bit (new_mask ix nm h) k \<longleftrightarrow> (case dget (mu_edges mu) (int k, h) of
      None \<Rightarrow> bit (mask_of (index_masks ix) h) k | Some t \<Rightarrow> opt_elems t \<noteq> {})"
    "pending_ok (bu_buckets bu)"
    "h \<in> bucket_members ix (bu_buckets bu) m \<longleftrightarrow> (case dget nm h of
      None \<Rightarrow> h \<in> opt_elems (bucket_set ix m) | Some v \<Rightarrow> m \<noteq> 0 \<and> v = m)"
    "bu_transitions bu = concat (map (\<lambda>(h, v). hash_move ix h v) nm)"
    "opt_elems (pending (ci_edge_observations ix) (mu_edges mu) e) = edge_members (obs_after F (mu_observations mu)) e"
  using assms unfolding batch_for_def mu_ok_def by blast+

abbreviation map_after :: "observation_map \<Rightarrow> membership_update \<Rightarrow> observation_map" where
  "map_after F mu \<equiv> obs_after F (mu_observations mu)"

lemma edges_ok_after:
  assumes b: "batch_for ix F mu nm bu" and "e \<in> ran (map_after F mu)"
  shows "edge_ok (index_width ix) e"
proof -
  note ix = batch_forD(1) [OF b]
  from assms(2) obtain i where i: "i \<in> edge_members (map_after F mu) e" by (auto simp: ran_def edge_members_def)
  show "edge_ok (index_width ix) e"
  proof (cases "dget (mu_edges mu) e")
    case None
    then have "edge_members (map_after F mu) e = edge_members F e"
      using batch_forD(8) [OF b, of e] index_forD(5) [OF ix, of e] by (simp add: pending_def edge_set_at)
    then have "e \<in> ran F" using i by (auto simp: ran_def edge_members_def)
    then show ?thesis by (rule index_forD(3) [OF ix])
  next
    case (Some t)
    then show ?thesis using batch_forD(2) [OF b] unfolding mu_ok_def by blast
  qed
qed

lemma bits_after:
  assumes b: "batch_for ix F mu nm bu"
  shows "bit (new_mask ix nm h) k \<longleftrightarrow> edge_members (map_after F mu) (int k, h) \<noteq> {}"
proof (cases "dget (mu_edges mu) (int k, h)")
  case None
  note ix = batch_forD(1) [OF b]
  have "edge_members (map_after F mu) (int k, h) = edge_members F (int k, h)"
    using None batch_forD(8) [OF b, of "(int k, h)"] index_forD(5) [OF ix, of "(int k, h)"]
    by (simp add: pending_def edge_set_at)
  then show ?thesis using None index_forD(8) [OF ix, of h k] by (simp add: batch_forD(4) [OF b])
next
  case (Some t)
  then show ?thesis using batch_forD(8) [OF b, of "(int k, h)"] by (simp add: batch_forD(4) [OF b] pending_def)
qed

lemma masks_after:
  assumes b: "batch_for ix F mu nm bu"
  shows "masks_ok (index_width ix) (dget (new_masks ix nm))"
proof -
  let ?n = "index_width ix" and ?M = "dget (new_masks ix nm)"
  note old = index_forD(7) [OF batch_forD(1) [OF b]] and nm = batch_forD(3) [OF b]
  have bound: "new_mask ix nm h < 2 ^ ?n" for h
  proof -
    have "k < ?n" if "bit (new_mask ix nm h) k" for k
    proof -
      have "(int k, h) \<in> ran (map_after F mu)" using that by (auto simp: bits_after [OF b] ran_def edge_members_def)
      from edges_ok_after [OF b this] show ?thesis by (simp add: edge_ok_def)
    qed
    then have "take_bit ?n (new_mask ix nm h) = new_mask ix nm h"
      by (intro bit_eqI) (auto simp: bit_take_bit_iff)
    then show ?thesis by (metis take_bit_nat_eq_self_iff)
  qed
  have "0 < m \<and> m < 2 ^ ?n" if M: "?M h = Some m" for h m
  proof -
    have m: "m = new_mask ix nm h" using dget_new_masks(2) [OF nm, of ix h] by (simp add: mask_of_def M)
    have "0 < m"
      using M old by (auto simp: dget_new_masks(1) [OF nm] masks_ok_def split: option.splits if_splits)
    then show ?thesis using bound m by simp
  qed
  then show ?thesis using old by (auto simp: masks_ok_def finite_dom_map_of)
qed

lemma moves_after:
  assumes b: "batch_for ix F mu nm bu"
  shows "bu_transitions bu = mask_moves (dkeys nm) (index_masks ix) (dget (new_masks ix nm))"
proof -
  note nm = batch_forD(3) [OF b]
  have new: "mask_of (dget (new_masks ix nm)) h = v" if "(h, v) \<in> set nm" for h v
    using that dget_in_set [OF nm] by (simp add: dget_new_masks(2) [OF nm] new_mask_def)
  have "concat (map (\<lambda>(h, v). hash_move ix h v) es) = mask_moves (dkeys es) (index_masks ix) (dget (new_masks ix nm))"
    if "set es \<subseteq> set nm" for es
    using that
  proof (induction es)
    case (Cons p es)
    obtain h v where p: "p = (h, v)" by (metis prod.exhaust)
    have "mask_of (dget (new_masks ix nm)) h = v" using new Cons.prems by (simp add: p)
    then show ?case using Cons by (simp add: p mask_moves_def hash_move_def)
  qed (simp add: mask_moves_def)
  then show ?thesis by (simp add: batch_forD(7) [OF b])
qed

lemma same_outside:
  assumes nm: "dict_ok nm" and "h \<notin> set (dkeys nm)"
  shows "mask_of (index_masks ix) h = mask_of (dget (new_masks ix nm)) h"
proof -
  have "dget nm h = None" using assms(2) unfolding set_dkeys by blast
  then show ?thesis by (simp add: dget_new_masks(2) [OF nm] new_mask_def)
qed

lemma index_after:
  assumes b: "batch_for ix F mu nm bu"
  shows "index_for (ix\<lparr>ci_edge_observations :=
       assign_changes True (set_changes r (ci_edge_observations ix) (mu_edges mu)) (ci_edge_observations ix),
     ci_observation_edge :=
       assign_changes True (observation_changes ix (mu_observations mu)) (ci_observation_edge ix),
     ci_hash_masks := new_masks ix nm,
     ci_hashes_by_mask :=
       assign_changes True (set_changes s (ci_hashes_by_mask ix) (bu_buckets bu)) (ci_hashes_by_mask ix),
     ci_generation := g\<rparr>) (map_after F mu)"
  (is "index_for ?ix _")
proof -
  note ix = batch_forD(1) [OF b] and nm = batch_forD(3) [OF b]
  have pend: "pending_ok (mu_edges mu)" and obs: "dict_ok (mu_observations mu)"
    using batch_forD(2) [OF b] unfolding mu_ok_def by blast+
  note E = pending_assigned [OF index_forD(4) [OF ix] pend, of r]
  note B = pending_assigned [OF index_forD(9) [OF ix] batch_forD(5) [OF b], of s]
  have O: "dget (ci_observation_edge ?ix) = map_after F mu"
  proof
    fix i
    have "dget (ci_observation_edge ?ix) i =
        (case dget (mu_observations mu) i of None \<Rightarrow> dget (ci_observation_edge ix) i | Some v \<Rightarrow> v)"
      using mapped_changes(2) [OF obs observation_changes_def] by simp
    then show "dget (ci_observation_edge ?ix) i = map_after F mu i"
      unfolding obs_after_def index_forD(2) [OF ix] .
  qed
  have members: "opt_elems (bucket_set ?ix m) = {h. dget (new_masks ix nm) h = Some m}" for m
  proof -
    have "h \<in> opt_elems (bucket_set ?ix m) \<longleftrightarrow> dget (new_masks ix nm) h = Some m" for h
      using batch_forD(6) [OF b, of h m] index_forD(10) [OF ix, of m]
      by (cases "dget nm h") (auto simp: bucket_set_at B(2) dget_new_masks(1) [OF nm])
    then show ?thesis by blast
  qed
  have edges: "opt_elems (edge_set ?ix e) = edge_members (map_after F mu) e" for e
    by (simp add: edge_set_at E(2) batch_forD(8) [OF b])
  show ?thesis
    unfolding index_for_def O
    using E(1) B(1) members edges masks_after [OF b] edges_ok_after [OF b] bits_after [OF b]
      index_forD(1) [OF ix] index_forD(6) [OF ix]
    by (simp add: dict_ok_assign_changes dget_new_masks(2) [OF nm])
qed

end
