(* ===== verification/GL_CertIndexUpdate.thy ===== *)
theory GL_CertIndexUpdate
  imports GL_CertIndexProofs
begin

text \<open>
  The update of the certificate index as a whole: which batches of deltas are accepted, what an
  accepted batch does to the represented map, the transitions it hands to the Hall state, and the
  rollback.
\<close>

section \<open>Batches that fit\<close>

text \<open>A delta built by the constructor.\<close>

definition delta_valid :: "observation_delta \<Rightarrow> bool" where
  "delta_valid it \<longleftrightarrow>
     make_observation_delta (od_requirement_ordinal it) (od_text_hash it) (od_observation_id it) (od_delta it) = Inr it"

text \<open>
  The coalesced deltas activate absent observations and withdraw active ones, each on its edge, and
  no observation moves on two edges.
\<close>

definition batch_fits :: "nat \<Rightarrow> observation_map \<Rightarrow> observation_delta list \<Rightarrow> bool" where
  "batch_fits n F items \<longleftrightarrow>
     (\<forall>it \<in> set items. od_requirement_ordinal it < int n) \<and>
     (\<forall>e i. membership_sum items (fst e, snd e, i) = 0 \<or>
        membership_sum items (fst e, snd e, i) = 1 \<and> F i = None \<or>
        membership_sum items (fst e, snd e, i) = -1 \<and> F i = Some e) \<and>
     (\<forall>e e' i. membership_sum items (fst e, snd e, i) \<noteq> 0 \<longrightarrow>
        membership_sum items (fst e', snd e', i) \<noteq> 0 \<longrightarrow> e = e')"

text \<open>\<open>F'\<close> is \<open>F\<close> moved by the coalesced deltas.\<close>

definition moved_by :: "observation_delta list \<Rightarrow> observation_map \<Rightarrow> observation_map \<Rightarrow> bool" where
  "moved_by items F F' \<longleftrightarrow>
     (\<forall>e i. of_bool (F' i = Some e) = of_bool (F i = Some e) + membership_sum items (fst e, snd e, i))"

lemma hex_not_space: "c \<in> set ''0123456789abcdef'' \<Longrightarrow> \<not> py_isspace (of_char c)"
  by (simp add: py_isspace_def py_whitespace_def) (elim disjE; simp)

lemma sha256_not_blank: "require_sha256 h = Inr () \<Longrightarrow> \<not> blank_text h"
proof
  assume sha: "require_sha256 h = Inr ()" and blank: "blank_text h"
  from sha have len: "length h = 64" and hex: "list_all (\<lambda>c. c \<in> set ''0123456789abcdef'') h"
    unfolding require_sha256_def by (metis sum.distinct(1))+
  from len obtain c cs where "h = c # cs" by (cases h) auto
  with hex have "c \<in> set ''0123456789abcdef''" by (simp only: list.pred_inject)
  from hex_not_space [OF this] blank \<open>h = c # cs\<close> show False by (simp add: blank_text_def)
qed

lemma delta_validD:
  assumes "delta_valid it"
  shows "0 \<le> od_requirement_ordinal it" "\<not> blank_text (od_text_hash it)" "\<not> blank_text (od_observation_id it)"
proof -
  have "require_integer (od_requirement_ordinal it) (Some 0) None = Inr ()"
    and sha: "require_sha256 (od_text_hash it) = Inr ()"
    and "require_text (od_observation_id it) = Inr ()"
    using assms unfolding delta_valid_def make_observation_delta_def
    by (auto simp: bind_res_def split: sum.splits)
  then show "0 \<le> od_requirement_ordinal it" "\<not> blank_text (od_observation_id it)"
    by (simp_all add: require_text_def split: if_splits)
  show "\<not> blank_text (od_text_hash it)" by (rule sha256_not_blank [OF sha])
qed

section \<open>The coalesced entries\<close>

lemma membership_sum_other: "k \<notin> delta_key ` set items \<Longrightarrow> membership_sum items k = 0"
proof -
  assume "k \<notin> delta_key ` set items"
  then have "filter (\<lambda>it. delta_key it = k) items = []" by (auto simp: filter_empty_conv)
  then show ?thesis by (simp add: membership_sum_def)
qed

definition entries_for :: "nat \<Rightarrow> observation_delta list \<Rightarrow> (membership \<times> int) list \<Rightarrow> bool" where
  "entries_for n items ts \<longleftrightarrow>
     fold_res (membership_total (int n)) items [] = Inr ts \<and> dict_ok ts \<and> entries_ok n ts \<and>
     (\<forall>k d. (k, d) \<in> set ts \<longrightarrow> d = membership_sum items k) \<and>
     (\<forall>k. membership_sum items k \<noteq> 0 \<longrightarrow> (k, membership_sum items k) \<in> set ts)"

lemma entries_forD:
  assumes "entries_for n items ts"
  shows "fold_res (membership_total (int n)) items [] = Inr ts" "dict_ok ts" "entries_ok n ts"
    "(k, d) \<in> set ts \<Longrightarrow> d = membership_sum items k"
    "membership_sum items k \<noteq> 0 \<Longrightarrow> (k, membership_sum items k) \<in> set ts"
  using assms unfolding entries_for_def by blast+

lemma entries_exist:
  assumes valid: "\<forall>it \<in> set items. delta_valid it" and range: "\<forall>it \<in> set items. od_requirement_ordinal it < int n"
  shows "\<exists>ts. entries_for n items ts"
proof -
  have "\<forall>it \<in> set items. 0 \<le> od_requirement_ordinal it \<and> od_requirement_ordinal it < int n"
    using valid range delta_validD(1) by blast
  from membership_totals(1) [OF dict_ok_Nil this] obtain ts where
    ts: "fold_res (membership_total (int n)) items [] = Inr ts" "dict_ok ts"
      "dom (dget ts) = dom (dget ([] :: (membership, int) pydict)) \<union> delta_key ` set items"
      "\<forall>k. dget_default ts k 0 = dget_default [] k 0 + membership_sum items k"
    by (elim exE conjE) (rule that)
  have dom: "dom (dget ts) = delta_key ` set items" using ts(3) by simp
  have val: "dget_default ts k 0 = membership_sum items k" for k
    using spec [OF ts(4), of k] by (simp add: dget_default_def)
  have mem: "(k, d) \<in> set ts \<longleftrightarrow> dget ts k = Some d" for k d by (rule dget_in_set [OF ts(2)])
  have "entries_ok n ts"
    unfolding entries_ok_def
  proof (intro ballI, clarify)
    fix a h i d assume "((a, h, i), d) \<in> set ts"
    then have "(a, h, i) \<in> delta_key ` set items" using dom mem by blast
    then obtain it where "it \<in> set items" "(a, h, i) = delta_key it" by blast
    then show "edge_ok n (a, h) \<and> \<not> blank_text i"
      using valid range delta_validD [of it] by (auto simp: delta_key_def edge_ok_def)
  qed
  moreover have "d = membership_sum items k" if "(k, d) \<in> set ts" for k d
    using that val [of k] by (simp add: mem)
  moreover have "(k, membership_sum items k) \<in> set ts" if "membership_sum items k \<noteq> 0" for k
  proof -
    have "k \<in> dom (dget ts)" using that membership_sum_other dom by blast
    then show ?thesis using val [of k] by (auto simp: mem)
  qed
  ultimately show ?thesis using ts(1,2) unfolding entries_for_def by blast
qed

lemma entries_fit:
  assumes ts: "entries_for n items ts" and range: "\<forall>it \<in> set items. od_requirement_ordinal it < int n"
  shows "batch_fits n F items \<longleftrightarrow> one_edge ts \<and> moves_fit F ts"
proof
  assume fit: "batch_fits n F items"
  have cases: "membership_sum items (a, h, i) = 0 \<or> membership_sum items (a, h, i) = 1 \<and> F i = None \<or>
      membership_sum items (a, h, i) = -1 \<and> F i = Some (a, h)" for a h i
    using fit unfolding batch_fits_def by (metis fst_conv snd_conv)
  have same: "membership_sum items (a, h, i) \<noteq> 0 \<Longrightarrow> membership_sum items (b, g, i) \<noteq> 0 \<Longrightarrow> (a, h) = (b, g)" for a h b g i
    using fit unfolding batch_fits_def by (metis fst_conv snd_conv)
  have "one_edge ts"
    unfolding one_edge_def
  proof (intro conjI allI impI)
    fix e d assume "(e, d) \<in> set ts"
    then have "d = membership_sum items e" by (rule entries_forD(4) [OF ts])
    then show "d \<in> {-1, 0, 1}" using cases [of "fst e" "fst (snd e)" "snd (snd e)"] by auto
  next
    fix a h b g i d d' assume "((a, h, i), d) \<in> set ts" "((b, g, i), d') \<in> set ts" "d \<noteq> 0" "d' \<noteq> 0"
    then show "(a, h) = (b, g)" using entries_forD(4) [OF ts] same by blast
  qed
  moreover have "moves_fit F ts"
    unfolding moves_fit_def
  proof (intro ballI, clarify)
    fix a h i d assume "((a, h, i), d) \<in> set ts"
    then have "d = membership_sum items (a, h, i)" by (rule entries_forD(4) [OF ts])
    then show "(0 < d \<longrightarrow> F i = None) \<and> (d < 0 \<longrightarrow> F i = Some (a, h))" using cases [of a h i] by auto
  qed
  ultimately show "one_edge ts \<and> moves_fit F ts" by blast
next
  assume R: "one_edge ts \<and> moves_fit F ts"
  show "batch_fits n F items"
    unfolding batch_fits_def
  proof (intro conjI allI impI)
    show "\<forall>it \<in> set items. od_requirement_ordinal it < int n" by (rule range)
    fix e i
    let ?d = "membership_sum items (fst e, snd e, i)"
    show "?d = 0 \<or> ?d = 1 \<and> F i = None \<or> ?d = -1 \<and> F i = Some e"
    proof (cases "?d = 0")
      case False
      then have m: "((fst e, snd e, i), ?d) \<in> set ts" by (rule entries_forD(5) [OF ts])
      have "?d \<in> {-1, 0, 1}" using R m one_edge_step by blast
      moreover have "(0 < ?d \<longrightarrow> F i = None) \<and> (?d < 0 \<longrightarrow> F i = Some e)"
        using R m unfolding moves_fit_def by fastforce
      ultimately show ?thesis using False by auto
    qed blast
  next
    fix e e' i assume d: "membership_sum items (fst e, snd e, i) \<noteq> 0" "membership_sum items (fst e', snd e', i) \<noteq> 0"
    have "(fst e, snd e) = (fst e', snd e')"
      by (rule one_edge_move [OF conjunct1 [OF R] entries_forD(5) [OF ts d(1)] entries_forD(5) [OF ts d(2)] d])
    then show "e = e'" by (simp add: prod_eq_iff)
  qed
qed

lemma entries_moved:
  assumes ts: "entries_for n items ts" and fit: "batch_fits n F items"
    and F': "\<And>a h i d. ((a, h, i), d) \<in> set ts \<Longrightarrow> d \<noteq> 0 \<Longrightarrow> F' i = (if 0 < d then Some (a, h) else None)"
      "\<And>i. (\<And>a h d. ((a, h, i), d) \<in> set ts \<Longrightarrow> d = 0) \<Longrightarrow> F' i = F i"
  shows "moved_by items F F'"
  unfolding moved_by_def
proof (intro allI)
  fix e i
  let ?s = "\<lambda>e. membership_sum items (fst e, snd e, i)"
  have cases: "?s e = 0 \<or> ?s e = 1 \<and> F i = None \<or> ?s e = -1 \<and> F i = Some e" for e
    using fit unfolding batch_fits_def by blast
  have same: "?s e \<noteq> 0 \<Longrightarrow> ?s e' \<noteq> 0 \<Longrightarrow> e = e'" for e e' using fit unfolding batch_fits_def by blast
  show "of_bool (F' i = Some e) = of_bool (F i = Some e) + ?s e"
  proof (cases "\<exists>e'. ?s e' \<noteq> 0")
    case True
    then obtain e' where e': "?s e' \<noteq> 0" by blast
    have new: "F' i = (if 0 < ?s e' then Some e' else None)"
      using F'(1) [OF entries_forD(5) [OF ts e'] e'] by simp
    show ?thesis
    proof (cases "e = e'")
      case True
      then show ?thesis using cases [of e'] e' new by auto
    next
      case False
      then have "?s e = 0" using same e' by blast
      then show ?thesis using False cases [of e'] e' new by auto
    qed
  next
    case False
    have "F' i = F i"
    proof (rule F'(2))
      fix a h d assume "((a, h, i), d) \<in> set ts"
      then have "d = membership_sum items (a, h, i)" by (rule entries_forD(4) [OF ts])
      then show "d = 0" using False by (metis fst_conv snd_conv)
    qed
    then show ?thesis using False by simp
  qed
qed

section \<open>Prepared patches\<close>

abbreviation applied_index :: "index_patch \<Rightarrow> int \<Rightarrow> cert_index \<Rightarrow> cert_index" where
  "applied_index pt g ix \<equiv>
     ix\<lparr>ci_edge_observations := assign_changes True (ip_edge_changes pt) (ci_edge_observations ix),
        ci_observation_edge := assign_changes True (ip_observation_changes pt) (ci_observation_edge ix),
        ci_hash_masks := assign_changes True (ip_mask_changes pt) (ci_hash_masks ix),
        ci_hashes_by_mask := assign_changes True (ip_bucket_changes pt) (ci_hashes_by_mask ix),
        ci_generation := g\<rparr>"

definition patch_starts :: "cert_index \<Rightarrow> index_patch \<Rightarrow> bool" where
  "patch_starts ix pt \<longleftrightarrow>
     ip_expected_generation pt = ci_generation ix \<and> ip_owner pt = ci_ref ix \<and> ip_state pt = ''prepared'' \<and>
     changes_of (ci_edge_observations ix) (ip_edge_changes pt) \<and>
     changes_of (ci_observation_edge ix) (ip_observation_changes pt) \<and>
     changes_of (ci_hash_masks ix) (ip_mask_changes pt) \<and>
     changes_of (ci_hashes_by_mask ix) (ip_bucket_changes pt)"

definition drives_masks :: "hash_mask_transition list \<Rightarrow> (string \<rightharpoonup> nat) \<Rightarrow> (string \<rightharpoonup> nat) \<Rightarrow> bool" where
  "drives_masks ts M N \<longleftrightarrow> (\<exists>hs. distinct hs \<and> ts = mask_moves hs M N \<and> (\<forall>h. h \<notin> set hs \<longrightarrow> mask_of M h = mask_of N h))"

lemma membership_total_error:
  "\<not> (\<forall>it \<in> set items. od_requirement_ordinal it < int n) \<Longrightarrow>
    fold_res (membership_total (int n)) items [] = Inl ValidationError"
  by (rule membership_totals(2)) auto

lemma delta_sums_nonneg:
  "0 \<le> sum_list (map (\<lambda>i. max (od_delta i) 0) items)" "0 \<le> sum_list (map (\<lambda>i. max (- od_delta i) 0) items)"
  by (induction items) auto

lemma mu_ok_start:
  assumes "index_for ix F"
  shows "mu_ok ix F \<lparr>mu_edges = [], mu_observations = [], mu_operations = 0\<rparr>"
proof -
  have "obs_after F [] = F" by (intro ext) (simp add: obs_after_def)
  then show ?thesis using index_forD(5) [OF assms] by (simp add: mu_ok_def flip: edge_set_at)
qed

text \<open>The two loops after the memberships cannot fail.\<close>

lemma batch_completes:
  assumes ix: "index_for ix F" and mu: "mu_ok ix F mu"
  shows "\<exists>nm c bu. fold_res (mask_step ix) (mu_edges mu) ([], 0) = Inr (nm, c) \<and> 0 \<le> c \<and>
    fold_res (bucket_step ix) nm \<lparr>bu_transitions = [], bu_buckets = [], bu_operations = mu_operations mu\<rparr> = Inr bu \<and>
    0 \<le> bu_operations bu \<and> batch_for ix F mu nm bu"
proof -
  let ?bu = "\<lparr>bu_transitions = [], bu_buckets = [], bu_operations = mu_operations mu\<rparr>"
  have es: "pending_ok (mu_edges mu)" and ok: "\<forall>e \<in> dom (dget (mu_edges mu)). edge_ok (index_width ix) e"
    and ops: "0 \<le> mu_operations mu" using mu unfolding mu_ok_def by blast+
  have start: "new_mask ix [] h = mask_of (index_masks ix) h" for h by (simp add: new_mask_def dget_default_def)
  have keys: "\<forall>e \<in> dom (dget (mu_edges mu)). 0 \<le> fst e" using ok unfolding edge_ok_def by blast
  have old: "\<forall>e \<in> dom (dget (mu_edges mu)).
      bit (new_mask ix [] (snd e)) (nat (fst e)) \<longleftrightarrow> opt_elems (edge_set ix e) \<noteq> {}"
  proof
    fix e assume "e \<in> dom (dget (mu_edges mu))"
    then have "(int (nat (fst e)), snd e) = e" using keys by (simp add: prod_eq_iff)
    then show "bit (new_mask ix [] (snd e)) (nat (fst e)) \<longleftrightarrow> opt_elems (edge_set ix e) \<noteq> {}"
      using index_forD(8) [OF ix, of "snd e" "nat (fst e)"] by (simp add: start index_forD(5) [OF ix])
  qed
  from mask_steps [OF index_forD(4) [OF ix] es keys old dict_ok_Nil order_refl] obtain nm c where
    nm: "fold_res (mask_step ix) (mu_edges mu) ([], 0) = Inr (nm, c)" "dict_ok nm" "0 \<le> c"
      "dom (dget nm) \<subseteq> snd ` dom (dget (mu_edges mu)) \<union> dom (dget ([] :: (string, nat) pydict))"
      "\<And>g k. bit (new_mask ix nm g) k \<longleftrightarrow> (case dget (mu_edges mu) (int k, g) of
         None \<Rightarrow> bit (new_mask ix [] g) k | Some t \<Rightarrow> opt_elems t \<noteq> {})" by (elim exE conjE) simp
  have texts: "\<forall>h \<in> dom (dget nm). \<not> blank_text h"
  proof
    fix h assume "h \<in> dom (dget nm)"
    moreover have "dom (dget nm) \<subseteq> snd ` dom (dget (mu_edges mu))" using nm(4) by simp
    ultimately obtain e where "e \<in> dom (dget (mu_edges mu))" "h = snd e" by blast
    then show "\<not> blank_text h" using ok unfolding edge_ok_def by blast
  qed
  have bucket: "h \<in> bucket_members ix [] m \<longleftrightarrow> m \<noteq> 0 \<and> mask_of (index_masks ix) h = m" for h m
    using index_forD(10) [OF ix, of m] index_forD(7) [OF ix]
    by (auto simp: mask_of_def masks_ok_def simp flip: bucket_set_at split: option.splits)
  then have "\<forall>h \<in> dom (dget nm). \<forall>m. h \<in> bucket_members ix (bu_buckets ?bu) m \<longleftrightarrow>
      m \<noteq> 0 \<and> mask_of (index_masks ix) h = m" by simp
  from bucket_steps [OF index_forD(9) [OF ix] nm(2) texts _ _ this] ops obtain bu where
    bu: "fold_res (bucket_step ix) nm ?bu = Inr bu" "pending_ok (bu_buckets bu)" "0 \<le> bu_operations bu"
      "bu_transitions bu = bu_transitions ?bu @ concat (map (\<lambda>(h, v). hash_move ix h v) nm)"
      "\<And>m g. g \<in> bucket_members ix (bu_buckets bu) m \<longleftrightarrow> (case dget nm g of
         None \<Rightarrow> g \<in> bucket_members ix (bu_buckets ?bu) m | Some v \<Rightarrow> m \<noteq> 0 \<and> v = m)" by auto
  have "batch_for ix F mu nm bu"
    unfolding batch_for_def bucket_set_at
    using ix mu nm(2) nm(5) [unfolded start] bu(2,4) bu(5) [unfolded bucket_update.simps pending_Nil] by simp
  then show ?thesis using nm(1,3) bu(1,3) by blast
qed

lemma prepare_fails:
  assumes ix: "index_for ix F" and valid: "\<forall>it \<in> set items. delta_valid it"
    and unfit: "\<not> batch_fits (index_width ix) F items"
  shows "prepare_observation_deltas alloc items ix = Inl ValidationError"
proof (cases "\<forall>it \<in> set items. od_requirement_ordinal it < int (index_width ix)")
  case False
  from membership_total_error [OF this] show ?thesis
    by (simp add: prepare_observation_deltas_def ci_requirement_count_def Let_def)
next
  case True
  from entries_exist [OF valid True] obtain ts where ts: "entries_for (index_width ix) items ts" by blast
  have unfit: "\<not> (one_edge ts \<and> moves_fit F ts)" using unfit entries_fit [OF ts True] by blast
  have one: "targets_fit [] ts \<longleftrightarrow> one_edge ts" by (auto simp: targets_fit_def)
  show ?thesis
  proof (cases "one_edge ts")
    case False
    then have "fold_res target_step ts [] = Inl ValidationError" using target_steps(2) one by blast
    then show ?thesis using entries_forD(1) [OF ts]
      by (simp add: prepare_observation_deltas_def ci_requirement_count_def Let_def)
  next
    case one': True
    then obtain targets where targets: "fold_res target_step ts [] = Inr targets" using target_steps(1) one by blast
    have "distinct (map fst ts)" using entries_forD(2) [OF ts] by (simp add: dict_ok_def)
    from membership_steps(2) [OF ix mu_ok_start [OF ix] one' this entries_forD(3) [OF ts]] unfit one'
    have "fold_res (membership_step ix) ts \<lparr>mu_edges = [], mu_observations = [], mu_operations = 0\<rparr> =
        Inl ValidationError" by simp
    then show ?thesis using entries_forD(1) [OF ts] targets
      by (simp add: prepare_observation_deltas_def ci_requirement_count_def Let_def)
  qed
qed

lemma prepare_succeeds:
  assumes ix: "index_for ix F" and valid: "\<forall>it \<in> set items. delta_valid it"
    and fit: "batch_fits (index_width ix) F items"
  shows "\<exists>pt F'. prepare_observation_deltas alloc items ix = Inr pt \<and> moved_by items F F' \<and>
    patch_starts ix pt \<and> (\<forall>g. index_for (applied_index pt g ix) F') \<and>
    drives_masks (ip_transitions pt) (index_masks ix)
      (dget (assign_changes True (ip_mask_changes pt) (ci_hash_masks ix)))"
proof -
  let ?n = "index_width ix" and ?mu0 = "\<lparr>mu_edges = [], mu_observations = [], mu_operations = 0\<rparr>"
  have range: "\<forall>it \<in> set items. od_requirement_ordinal it < int ?n" using fit unfolding batch_fits_def by blast
  from entries_exist [OF valid range] obtain ts where ts: "entries_for ?n items ts" by blast
  have moves: "one_edge ts" "moves_fit F ts" using fit entries_fit [OF ts range] by blast+
  then have "targets_fit [] ts" by (auto simp: targets_fit_def)
  from target_steps(1) [OF this] obtain targets where targets: "fold_res target_step ts [] = Inr targets" by blast
  have "distinct (map fst ts)" using entries_forD(2) [OF ts] by (simp add: dict_ok_def)
  from membership_steps(1) [OF ix mu_ok_start [OF ix] moves(1) this entries_forD(3) [OF ts] _ moves(2)]
  obtain mu where mu: "fold_res (membership_step ix) ts ?mu0 = Inr mu" "mu_ok ix F mu"
    "\<And>a h i d. ((a, h, i), d) \<in> set ts \<Longrightarrow> d \<noteq> 0 \<Longrightarrow>
       dget (mu_observations mu) i = Some (if 0 < d then Some (a, h) else None)"
    "\<And>i. (\<And>a h d. ((a, h, i), d) \<in> set ts \<Longrightarrow> d = 0) \<Longrightarrow>
       dget (mu_observations mu) i = dget (mu_observations ?mu0) i" by auto
  have moved: "moved_by items F (map_after F mu)"
    by (rule entries_moved [OF ts fit]) (simp_all add: obs_after_def mu(3,4))
  from batch_completes [OF ix mu(2)] obtain nm c bu where
    rest: "fold_res (mask_step ix) (mu_edges mu) ([], 0) = Inr (nm, c)" "0 \<le> c"
      "fold_res (bucket_step ix) nm \<lparr>bu_transitions = [], bu_buckets = [], bu_operations = mu_operations mu\<rparr> = Inr bu"
      "0 \<le> bu_operations bu" and b: "batch_for ix F mu nm bu" by blast
  let ?w = "no_work\<lparr>wc_contribution_additions := sum_list (map (\<lambda>i. max (od_delta i) 0) items),
      wc_contribution_removals := sum_list (map (\<lambda>i. max (- od_delta i) 0) items),
      wc_ordered_index_operations := bu_operations bu, wc_edge_refcount_keys_updated := c\<rparr>"
  have w: "work_nonneg ?w"
    using rest(2,4) delta_sums_nonneg [of items] by (simp add: work_nonneg_def named_values_def no_work_def)
  let ?pt = "\<lparr>ip_expected_generation = ci_generation ix, ip_transitions = bu_transitions bu, ip_work = ?w,
      ip_owner = ci_ref ix, ip_edge_changes = set_changes alloc (ci_edge_observations ix) (mu_edges mu),
      ip_observation_changes = observation_changes ix (mu_observations mu), ip_mask_changes = mask_changes ix nm,
      ip_bucket_changes = set_changes (alloc + length (mu_edges mu)) (ci_hashes_by_mask ix) (bu_buckets bu),
      ip_state = ''prepared''\<rparr>"
  have prepared: "prepare_observation_deltas alloc items ix = Inr ?pt"
    using entries_forD(1) [OF ts] targets mu(1) rest(1,3) w
    by (simp add: prepare_observation_deltas_def ci_requirement_count_def Let_def)
  have dicts: "dict_ok (mu_edges mu)" "dict_ok (mu_observations mu)" "dict_ok nm" "dict_ok (bu_buckets bu)"
    using batch_forD(2,3,5) [OF b] unfolding mu_ok_def pending_ok_def by blast+
  have starts: "patch_starts ix ?pt"
    using dicts by (simp add: patch_starts_def set_changes_of dget_new_masks(3)
      mapped_changes(1) [OF dicts(2) observation_changes_def])
  have index: "\<forall>g. index_for (applied_index ?pt g ix) (map_after F mu)"
    using index_after [OF b] by simp
  have "distinct (dkeys nm)" using dicts(3) by (simp add: dict_ok_def)
  then have "drives_masks (bu_transitions bu) (index_masks ix) (dget (new_masks ix nm))"
    unfolding drives_masks_def using moves_after [OF b] same_outside [OF dicts(3)] by blast
  then have drives: "drives_masks (ip_transitions ?pt) (index_masks ix)
      (dget (assign_changes True (ip_mask_changes ?pt) (ci_hash_masks ix)))" by simp
  show ?thesis using prepared moved starts index drives by blast
qed

section \<open>Application and rollback\<close>

lemma validate_before:
  assumes "patch_starts ix pt"
  shows "validate_prepared_patch False (ip_expected_generation pt) pt ix = Inr ()"
proof -
  note P = assms [unfolded patch_starts_def]
  have "fold_res (check_change set_value_matches False (ci_edge_observations ix)) (ip_edge_changes pt) () = Inr ()"
    "fold_res (check_change (=) False (ci_observation_edge ix)) (ip_observation_changes pt) () = Inr ()"
    "fold_res (check_change (=) False (ci_hash_masks ix)) (ip_mask_changes pt) () = Inr ()"
    "fold_res (check_change set_value_matches False (ci_hashes_by_mask ix)) (ip_bucket_changes pt) () = Inr ()"
    using P by (simp_all add: check_before set_value_matches_refl)
  then show ?thesis using P by (simp add: validate_prepared_patch_def)
qed

definition applied_token :: "index_patch \<Rightarrow> rollback_token" where
  "applied_token pt = \<lparr>rt_owner = ip_owner pt, rt_patch = pt\<lparr>ip_state := ''applied''\<rparr>,
     rt_applied_generation = ip_expected_generation pt + of_bool (patch_mutates pt), rt_active = True\<rparr>"

lemma apply_prepared_ok:
  assumes "patch_starts ix pt"
  shows "apply_prepared_observation_deltas pt ix =
    Inr (applied_token pt, applied_index pt (ci_generation ix + of_bool (patch_mutates pt)) ix)"
proof -
  have P: "ip_owner pt = ci_ref ix" "ip_expected_generation pt = ci_generation ix"
    using assms by (simp_all add: patch_starts_def)
  show ?thesis
    unfolding apply_prepared_observation_deltas_def validate_before [OF assms]
    by (simp add: P applied_token_def Let_def)
qed

text \<open>Two indexes with the same dictionaries, up to the order of their keys.\<close>

definition same_index :: "cert_index \<Rightarrow> cert_index \<Rightarrow> bool" where
  "same_index a b \<longleftrightarrow>
     ci_ref a = ci_ref b \<and> ci_group_version_id a = ci_group_version_id b \<and>
     ci_requirement_version_ids a = ci_requirement_version_ids b \<and> ci_generation a = ci_generation b \<and>
     dget (ci_edge_observations a) = dget (ci_edge_observations b) \<and>
     dget (ci_observation_edge a) = dget (ci_observation_edge b) \<and>
     dget (ci_hash_masks a) = dget (ci_hash_masks b) \<and>
     dget (ci_hashes_by_mask a) = dget (ci_hashes_by_mask b)"

lemma index_for_same:
  assumes "index_for ix F" and "same_index ix' ix" and "dict_ok (ci_observation_edge ix')"
    "dict_ok (ci_edge_observations ix')" "dict_ok (ci_hash_masks ix')" "dict_ok (ci_hashes_by_mask ix')"
  shows "index_for ix' F"
  using assms unfolding index_for_def same_index_def sets_ok_def edge_set_at bucket_set_at set_at_def
  by simp

lemma rollback_ok:
  assumes pt: "patch_starts ix pt"
  defines "ix' \<equiv> applied_index pt (ci_generation ix + of_bool (patch_mutates pt)) ix"
  shows "\<exists>tok' ix''. rollback_prepared_observation_deltas (applied_token pt) ix' = Inr (tok', ix'') \<and>
    \<not> rt_active tok' \<and> same_index ix'' ix \<and> (index_for ix F \<longrightarrow> index_for ix'' F)"
proof -
  note P = pt [unfolded patch_starts_def]
  let ?pt = "pt\<lparr>ip_state := ''applied''\<rparr>"
  have "fold_res (check_change set_value_matches True (ci_edge_observations ix')) (ip_edge_changes pt) () = Inr ()"
    "fold_res (check_change (=) True (ci_observation_edge ix')) (ip_observation_changes pt) () = Inr ()"
    "fold_res (check_change (=) True (ci_hash_masks ix')) (ip_mask_changes pt) () = Inr ()"
    "fold_res (check_change set_value_matches True (ci_hashes_by_mask ix')) (ip_bucket_changes pt) () = Inr ()"
    using P by (simp_all add: ix'_def check_after set_value_matches_refl)
  then have valid: "validate_prepared_patch True (rt_applied_generation (applied_token pt)) ?pt ix' = Inr ()"
    using P by (simp add: validate_prepared_patch_def applied_token_def ix'_def)
  have "rt_owner (applied_token pt) = ci_ref ix'" "rt_active (applied_token pt)"
    "rt_patch (applied_token pt) = ?pt" using P by (simp_all add: applied_token_def ix'_def)
  then have "rollback_prepared_observation_deltas (applied_token pt) ix' =
      Inr ((applied_token pt)\<lparr>rt_patch := ?pt\<lparr>ip_state := ''rolled_back''\<rparr>, rt_active := False\<rparr>,
        ix'\<lparr>ci_edge_observations := assign_changes False (ip_edge_changes pt) (ci_edge_observations ix'),
            ci_observation_edge := assign_changes False (ip_observation_changes pt) (ci_observation_edge ix'),
            ci_hash_masks := assign_changes False (ip_mask_changes pt) (ci_hash_masks ix'),
            ci_hashes_by_mask := assign_changes False (ip_bucket_changes pt) (ci_hashes_by_mask ix'),
            ci_generation := ip_expected_generation pt\<rparr>)" (is "_ = Inr (_, ?back)")
    using valid by (simp add: rollback_prepared_observation_deltas_def Let_def)
  moreover have same: "same_index ?back ix" using P by (simp add: same_index_def ix'_def changes_undone)
  moreover have "index_for ix F \<Longrightarrow> index_for ?back F"
    by (rule index_for_same [OF _ same])
      (auto simp: ix'_def dict_ok_assign_changes dest: index_forD(1,4,6,9) simp: sets_ok_def)
  ultimately show ?thesis by simp
qed

section \<open>Updates of the index\<close>

lemma drives_hall_state:
  assumes "masks_ok n M" and "masks_ok n N" and "drives_masks ts M N"
  shows "\<exists>w. apply_hash_mask_transitions (hall_state_of n M) ts = Inr (hall_state_of n N, w)"
proof -
  from assms(3) obtain hs where hs: "distinct hs" "ts = mask_moves hs M N"
    "\<And>h. h \<notin> set hs \<Longrightarrow> mask_of M h = mask_of N h" unfolding drives_masks_def by blast
  note moves = mask_moves_ok [OF assms(1,2) hs(1,3)]
  have "batch_ok n ts M" "batch_target ts M = N" using moves by (simp_all add: hs(2))
  then show ?thesis using apply_hash_mask_transitions_ok [OF assms(1)] by metis
qed

text \<open>
  C16: certificate index updates. On an index that represents a map of observations to edges, a
  batch of deltas is prepared exactly when its coalesced deltas fit the map. The prepared patch
  applies; the index then represents the moved map, the transitions of the patch bring the Hall
  state of the old masks to the one of the new masks, and the returned token rolls the index back
  to what it was.
\<close>

theorem observation_deltas_are_exact:
  assumes ix: "index_for ix F" and valid: "\<forall>it \<in> set items. delta_valid it"
  shows "(\<not> batch_fits (index_width ix) F items \<longrightarrow>
      prepare_observation_deltas alloc items ix = Inl ValidationError) \<and>
    (batch_fits (index_width ix) F items \<longrightarrow>
      (\<exists>pt tok ix' F' w tok' ix''. prepare_observation_deltas alloc items ix = Inr pt \<and>
        apply_prepared_observation_deltas pt ix = Inr (tok, ix') \<and>
        moved_by items F F' \<and> index_for ix' F' \<and>
        apply_hash_mask_transitions (hall_state_of (index_width ix) (index_masks ix)) (ip_transitions pt) =
          Inr (hall_state_of (index_width ix) (index_masks ix'), w) \<and>
        rollback_prepared_observation_deltas tok ix' = Inr (tok', ix'') \<and>
        same_index ix'' ix \<and> index_for ix'' F \<and>
        rollback_prepared_observation_deltas tok' ix'' = Inl ValidationError))"
proof (intro conjI impI)
  assume "\<not> batch_fits (index_width ix) F items"
  then show "prepare_observation_deltas alloc items ix = Inl ValidationError"
    by (rule prepare_fails [OF ix valid])
next
  assume fit: "batch_fits (index_width ix) F items"
  from prepare_succeeds [OF ix valid fit] obtain pt F' where
    pt: "prepare_observation_deltas alloc items ix = Inr pt" "moved_by items F F'" "patch_starts ix pt"
    and index: "\<forall>g. index_for (applied_index pt g ix) F'"
    and drives: "drives_masks (ip_transitions pt) (index_masks ix)
      (dget (assign_changes True (ip_mask_changes pt) (ci_hash_masks ix)))" by blast
  let ?ix = "applied_index pt (ci_generation ix + of_bool (patch_mutates pt)) ix"
  have index': "index_for ?ix F'" using index by blast
  have "masks_ok (index_width ix) (index_masks ?ix)" using index_forD(7) [OF index'] by simp
  moreover have "drives_masks (ip_transitions pt) (index_masks ix) (index_masks ?ix)" using drives by simp
  ultimately obtain w where
    w: "apply_hash_mask_transitions (hall_state_of (index_width ix) (index_masks ix)) (ip_transitions pt) =
      Inr (hall_state_of (index_width ix) (index_masks ?ix), w)"
    using drives_hall_state [OF index_forD(7) [OF ix]] by blast
  from rollback_ok [OF pt(3)] obtain tok' ix'' where
    undone: "rollback_prepared_observation_deltas (applied_token pt) ?ix = Inr (tok', ix'')"
      "\<not> rt_active tok'" "same_index ix'' ix" "index_for ix'' F" using ix by blast
  have "rollback_prepared_observation_deltas tok' ix'' = Inl ValidationError"
    using undone(2) by (simp add: rollback_prepared_observation_deltas_def)
  with pt apply_prepared_ok [OF pt(3)] index' w undone show
    "\<exists>pt tok ix' F' w tok' ix''. prepare_observation_deltas alloc items ix = Inr pt \<and>
        apply_prepared_observation_deltas pt ix = Inr (tok, ix') \<and>
        moved_by items F F' \<and> index_for ix' F' \<and>
        apply_hash_mask_transitions (hall_state_of (index_width ix) (index_masks ix)) (ip_transitions pt) =
          Inr (hall_state_of (index_width ix) (index_masks ix'), w) \<and>
        rollback_prepared_observation_deltas tok ix' = Inr (tok', ix'') \<and>
        same_index ix'' ix \<and> index_for ix'' F \<and>
        rollback_prepared_observation_deltas tok' ix'' = Inl ValidationError" by blast
qed

definition demo_hash :: "char \<Rightarrow> string" where
  "demo_hash c = replicate 64 c"

definition demo_cert_index :: cert_index where
  "demo_cert_index = \<lparr>ci_ref = 7, ci_group_version_id = ''g'', ci_requirement_version_ids = [''r0'', ''r1''],
      ci_edge_observations = [], ci_hash_masks = [], ci_hashes_by_mask = [], ci_observation_edge = [],
      ci_generation = 0\<rparr>"

text \<open>Three activations, on two edges of one hash and one edge of another.\<close>

definition demo_deltas :: "observation_delta list" where
  "demo_deltas =
     [\<lparr>od_requirement_ordinal = 0, od_text_hash = demo_hash CHR ''a'', od_observation_id = ''o1'', od_delta = 1\<rparr>,
      \<lparr>od_requirement_ordinal = 1, od_text_hash = demo_hash CHR ''a'', od_observation_id = ''o2'', od_delta = 1\<rparr>,
      \<lparr>od_requirement_ordinal = 1, od_text_hash = demo_hash CHR ''b'', od_observation_id = ''o3'', od_delta = 1\<rparr>]"

lemma demo_deltas_valid: "\<forall>it \<in> set demo_deltas. delta_valid it"
  unfolding delta_valid_def by code_simp

lemma demo_index_empty: "index_for demo_cert_index Map.empty"
  by (simp add: demo_cert_index_def index_for_def sets_ok_def edge_set_def bucket_set_def opt_elems_def
      edge_members_def mask_of_def masks_ok_def)

theorem observation_deltas_are_exact_witness:
  "\<exists>pt tok ix' F' w tok' ix''. prepare_observation_deltas 100 demo_deltas demo_cert_index = Inr pt \<and>
     apply_prepared_observation_deltas pt demo_cert_index = Inr (tok, ix') \<and>
     moved_by demo_deltas Map.empty F' \<and> index_for ix' F' \<and>
     apply_hash_mask_transitions (hall_state_of 2 (index_masks demo_cert_index)) (ip_transitions pt) =
       Inr (hall_state_of 2 (index_masks ix'), w) \<and>
     rollback_prepared_observation_deltas tok ix' = Inr (tok', ix'') \<and> same_index ix'' demo_cert_index"
proof -
  have width: "index_width demo_cert_index = 2" by (simp add: demo_cert_index_def)
  have "prepare_observation_deltas 100 demo_deltas demo_cert_index \<noteq> Inl ValidationError" by code_simp
  then show ?thesis
    using observation_deltas_are_exact [OF demo_index_empty demo_deltas_valid, of 100] unfolding width by blast
qed

end
