(* ===== verification/GL_CertIndexAudit.thy ===== *)
theory GL_CertIndexAudit
  imports GL_CertIndexUpdate
begin

text \<open>
  The audit of the certificate index accepts every index that represents a map, and the bootstrap
  from requirement witnesses builds the index of exactly the observations they list.
\<close>

unbundle bit_operations_syntax

section \<open>The audit\<close>

lemma audit_observations:
  assumes "distinct is" and "set is \<inter> dom (dget (as_observations a)) = {}"
  shows "as_issues (fold (audit_observation e) is a) = as_issues a \<and>
    as_masks (fold (audit_observation e) is a) = as_masks a \<and>
    (\<forall>i. dget (as_observations (fold (audit_observation e) is a)) i =
      (if i \<in> set is then Some e else dget (as_observations a) i))"
  using assms
proof (induction "is" arbitrary: a)
  case (Cons j "is")
  let ?a = "audit_observation e j a"
  have "dget (as_observations a) j = None" using Cons.prems(2) by (auto simp: domIff)
  then have a: "as_issues ?a = as_issues a" "as_masks ?a = as_masks a"
    "dget (as_observations ?a) = (dget (as_observations a))(j \<mapsto> e)"
    by (simp_all add: audit_observation_def dmem_def)
  have rest: "distinct is" "set is \<inter> dom (dget (as_observations ?a)) = {}" "j \<notin> set is"
    using Cons.prems by (auto simp: a(3))
  from Cons.IH [OF rest(1,2)] rest(3) a show ?case by simp
qed simp

definition set_entry :: "edge \<times> stored_set \<Rightarrow> edge \<times> int" where
  "set_entry p = (fst p, 1)"

lemma audit_edge_ok:
  assumes inv: "opt_inv (snd s)" "snd s \<noteq> ONone"
    and fresh: "opt_elems (snd s) \<inter> dom (dget (as_observations a)) = {}"
  shows "as_issues (audit_edge (e, s) a) = as_issues a"
    and "as_masks (audit_edge (e, s) a) = masks_step (set_entry (e, s)) (as_masks a)"
    and "dget (as_observations (audit_edge (e, s) a)) i =
      (if i \<in> opt_elems (snd s) then Some e else dget (as_observations a) i)"
proof -
  obtain o' h where e: "e = (o', h)" by (metis prod.exhaust)
  have size: "opt_size (snd s) \<noteq> 0"
    using opt_size_pos [OF inv(1)] inv(2) by (cases "snd s") (auto simp: opt_elems_def)
  let ?a = "a\<lparr>as_masks := dset h (dget_default (as_masks a) h 0 OR 2 ^ nat o') (as_masks a)\<rparr>"
  have step: "audit_edge (e, s) a = fold (audit_observation e) (ps_items (snd s)) ?a"
    using size by (simp add: audit_edge_def e)
  have items: "distinct (ps_items (snd s))" "set (ps_items (snd s)) = opt_elems (snd s)"
    using opt_set.finite [OF inv(1)] by (simp_all add: ps_items_sorted [OF inv(1)])
  have "set (ps_items (snd s)) \<inter> dom (dget (as_observations ?a)) = {}" using fresh by (simp add: items(2))
  note F = audit_observations [OF items(1) this, of e, THEN conjunct1]
    audit_observations [OF items(1) this, of e, THEN conjunct2, THEN conjunct1]
    audit_observations [OF items(1) this, of e, THEN conjunct2, THEN conjunct2, THEN spec]
  show "as_issues (audit_edge (e, s) a) = as_issues a" unfolding step F(1) by simp
  show "as_masks (audit_edge (e, s) a) = masks_step (set_entry (e, s)) (as_masks a)"
    unfolding step F(2) by (simp add: masks_step_def set_entry_def e)
  show "dget (as_observations (audit_edge (e, s) a)) i =
      (if i \<in> opt_elems (snd s) then Some e else dget (as_observations a) i)"
    unfolding step F(3) by (simp add: items(2))
qed

lemma audit_edges:
  assumes "\<forall>(e, s) \<in> set es. opt_inv (snd s) \<and> snd s \<noteq> ONone \<and> opt_elems (snd s) = edge_members F e"
    and "distinct (map fst es)"
    and "\<forall>i e. i \<in> edge_members F e \<longrightarrow> e \<in> fst ` set es \<longrightarrow> dget (as_observations a) i = None"
  shows "as_issues (fold audit_edge es a) = as_issues a \<and>
    as_masks (fold audit_edge es a) = fold masks_step (map set_entry es) (as_masks a) \<and>
    (\<forall>i. dget (as_observations (fold audit_edge es a)) i =
      (case F i of None \<Rightarrow> dget (as_observations a) i
       | Some e \<Rightarrow> if e \<in> fst ` set es then Some e else dget (as_observations a) i))"
  using assms
proof (induction es arbitrary: a)
  case Nil
  show ?case by (simp split: option.split)
next
  case (Cons p es)
  obtain e s where p: "p = (e, s)" by (metis prod.exhaust)
  have s: "opt_inv (snd s)" "snd s \<noteq> ONone" "opt_elems (snd s) = edge_members F e"
    using Cons.prems(1) by (simp_all add: p)
  have absent: "dget (as_observations a) i = None" if "i \<in> edge_members F e" for i
  proof -
    have "e \<in> fst ` set (p # es)" by (simp add: p)
    then show ?thesis by (rule Cons.prems(3) [rule_format, OF that])
  qed
  have "opt_elems (snd s) \<inter> dom (dget (as_observations a)) = {}"
  proof (rule equals0I)
    fix i assume "i \<in> opt_elems (snd s) \<inter> dom (dget (as_observations a))"
    then show False using absent [of i] by (simp add: s(3) domIff)
  qed
  note step = audit_edge_ok [OF s(1,2) this, of e]
  let ?a = "audit_edge (e, s) a"
  have tail: "\<forall>(e, s) \<in> set es. opt_inv (snd s) \<and> snd s \<noteq> ONone \<and> opt_elems (snd s) = edge_members F e"
    and dist: "distinct (map fst es)" and e: "e \<notin> fst ` set es"
    using Cons.prems(1,2) by (simp_all add: p)
  have fresh: "\<forall>i e. i \<in> edge_members F e \<longrightarrow> e \<in> fst ` set es \<longrightarrow> dget (as_observations ?a) i = None"
  proof (intro allI impI)
    fix i e' assume i: "i \<in> edge_members F e'" "e' \<in> fst ` set es"
    then have "i \<notin> edge_members F e" using e by (auto simp: edge_members_def)
    moreover have "e' \<in> fst ` set (p # es)" using i(2) by simp
    then have "dget (as_observations a) i = None" by (rule Cons.prems(3) [rule_format, OF i(1)])
    ultimately show "dget (as_observations ?a) i = None" unfolding step(3) s(3) by simp
  qed
  have rest: "as_issues (fold audit_edge (p # es) a) = as_issues ?a"
    "as_masks (fold audit_edge (p # es) a) = fold masks_step (map set_entry es) (as_masks ?a)"
    "dget (as_observations (fold audit_edge (p # es) a)) i = (case F i of None \<Rightarrow> dget (as_observations ?a) i
      | Some e \<Rightarrow> if e \<in> fst ` set es then Some e else dget (as_observations ?a) i)" for i
    using Cons.IH [OF tail dist fresh] by (simp_all add: p)
  have "dget (as_observations (fold audit_edge (p # es) a)) i = (case F i of None \<Rightarrow> dget (as_observations a) i
      | Some e \<Rightarrow> if e \<in> fst ` set (p # es) then Some e else dget (as_observations a) i)" for i
    unfolding rest(3) by (cases "F i") (auto simp: p step(3) s(3) edge_members_def)
  then show ?case using rest(1,2) step(1,2) by (simp add: p)
qed

lemma bucket_masks_dget:
  assumes "\<And>h m m'. (h, m) \<in> set ps \<Longrightarrow> (h, m') \<in> set ps \<Longrightarrow> m = m'"
  shows "dget (fold (\<lambda>(h, m). dset h m) ps d) h = Some m \<longleftrightarrow>
    (h, m) \<in> set ps \<or> h \<notin> fst ` set ps \<and> dget d h = Some m"
  using assms
proof (induction ps arbitrary: d)
  case (Cons p ps)
  obtain g v where p: "p = (g, v)" by (metis prod.exhaust)
  have uniq: "m = m'" if "(h, m) \<in> set ps" "(h, m') \<in> set ps" for h m m'
    by (rule Cons.prems [of h]) (use that in simp_all)
  have "(g, m') \<in> set ps \<Longrightarrow> m' = v" for m' using Cons.prems [of g m' v] by (simp add: p)
  then show ?case using Cons.IH [OF uniq, where d = "dset g v d"] by (auto simp: p image_iff)
qed simp

lemma audit_accepts:
  assumes ix: "index_for ix F"
  shows "index_audit_issues ix = []"
proof -
  let ?E = "ci_edge_observations ix" and ?B = "ci_hashes_by_mask ix"
  have E: "dict_ok ?E" "dget ?E e = Some s \<Longrightarrow> opt_inv (snd s) \<and> snd s \<noteq> ONone" for e s
    using index_forD(4) [OF ix] unfolding sets_ok_def by blast+
  have B: "dict_ok ?B" "dget ?B m = Some s \<Longrightarrow> opt_inv (snd s) \<and> snd s \<noteq> ONone" for m s
    using index_forD(9) [OF ix] unfolding sets_ok_def by blast+
  have issues: "concat (map (ps_audit_issues \<circ> snd) (dvalues ?B)) = []"
    "concat (map (ps_audit_issues \<circ> snd) (dvalues ?E)) = []"
    using B(2) E(2) by (auto simp: ps_audit_issues_iff dget_in_set [OF E(1)] dget_in_set [OF B(1)])
  let ?a = "\<lparr>as_issues = [], as_masks = [], as_observations = []\<rparr>"
  have elems: "opt_elems (snd s) = edge_members F e" if "dget ?E e = Some s" for e s
    using index_forD(5) [OF ix, of e] that by (simp add: edge_set_def)
  have mem: "\<forall>(e, s) \<in> set ?E. opt_inv (snd s) \<and> snd s \<noteq> ONone \<and> opt_elems (snd s) = edge_members F e"
  proof (intro ballI)
    fix p assume "p \<in> set ?E"
    then have "dget ?E (fst p) = Some (snd p)" using dget_in_set [OF E(1), of "fst p" "snd p"] by simp
    then show "case p of (e, s) \<Rightarrow> opt_inv (snd s) \<and> snd s \<noteq> ONone \<and> opt_elems (snd s) = edge_members F e"
      using E(2) elems unfolding case_prod_beta by blast
  qed
  have keys: "e \<in> fst ` set ?E \<longleftrightarrow> edge_members F e \<noteq> {}" for e
  proof -
    have "e \<in> fst ` set ?E \<longleftrightarrow> e \<in> dom (dget ?E)" by (simp add: dom_map_of_conv_image_fst)
    also have "\<dots> \<longleftrightarrow> edge_members F e \<noteq> {}"
    proof (cases "dget ?E e")
      case None
      then show ?thesis using index_forD(5) [OF ix, of e] by (simp add: edge_set_def opt_elems_def domIff)
    next
      case (Some s)
      then show ?thesis using E(2) [OF Some] elems [OF Some] by (cases "snd s") (auto simp: opt_elems_def)
    qed
    finally show ?thesis .
  qed
  have "distinct (map fst ?E)" using E(1) by (simp add: dict_ok_def)
  note A = audit_edges [OF mem this, of ?a]
  let ?r = "fold audit_edge ?E ?a"
  have r: "as_issues ?r = []" "as_masks ?r = fold masks_step (map set_entry ?E) []"
    "dget (as_observations ?r) i = (case F i of None \<Rightarrow> None | Some e \<Rightarrow> if e \<in> fst ` set ?E then Some e else None)" for i
    using A [THEN conjunct1] A [THEN conjunct2, THEN conjunct1] A [THEN conjunct2, THEN conjunct2, THEN spec, of i]
    by (simp_all split: option.splits)
  have obs: "dget (as_observations ?r) = dget (ci_observation_edge ix)"
    unfolding index_forD(2) [OF ix]
  proof
    fix i show "dget (as_observations ?r) i = F i"
      unfolding r(3) keys by (cases "F i") (auto simp: edge_members_def)
  qed
  let ?n = "index_width ix"
  have edge: "edge_ok ?n e" if "(e, c) \<in> set (map set_entry ?E)" for e c
  proof -
    have "e \<in> fst ` set ?E" using that by (auto simp: set_entry_def)
    then have "e \<in> ran F" unfolding keys by (auto simp: edge_members_def ran_def)
    then show ?thesis by (rule index_forD(3) [OF ix])
  qed
  have "masks_ok ?n (dget (as_masks ?r))"
  proof -
    have "\<forall>((j, h), c) \<in> set (map set_entry ?E). nat j < ?n"
      using edge by (fastforce simp: edge_ok_def)
    then have "\<forall>h m. dget (as_masks ?r) h = Some m \<longrightarrow> 0 < m \<and> m < 2 ^ ?n"
      unfolding r(2) by (intro masks_steps_range) simp_all
    then show ?thesis using index_forD(7) [OF ix] by (simp add: masks_ok_def finite_dom_map_of)
  qed
  moreover have "mask_of (dget (as_masks ?r)) h = mask_of (index_masks ix) h" for h
  proof (rule bit_eqI)
    fix k
    have "bit (mask_of (dget (as_masks ?r)) h) k \<longleftrightarrow> (\<exists>j c. ((j, h), c) \<in> set (map set_entry ?E) \<and> 0 < c \<and> nat j = k)"
      unfolding r(2) mask_of_dget masks_steps by (simp add: dget_default_def)
    also have "\<dots> \<longleftrightarrow> (int k, h) \<in> fst ` set ?E"
    proof
      assume "\<exists>j c. ((j, h), c) \<in> set (map set_entry ?E) \<and> 0 < c \<and> nat j = k"
      then obtain j c where j: "((j, h), c) \<in> set (map set_entry ?E)" "nat j = k" by blast
      from edge [OF j(1)] have "j = int k" using j(2) by (auto simp: edge_ok_def)
      then show "(int k, h) \<in> fst ` set ?E" using j(1) by (auto simp: set_entry_def)
    next
      assume "(int k, h) \<in> fst ` set ?E"
      then have "((int k, h), 1) \<in> set (map set_entry ?E)" by (force simp: set_entry_def)
      then show "\<exists>j c. ((j, h), c) \<in> set (map set_entry ?E) \<and> 0 < c \<and> nat j = k" by (metis nat_int zero_less_one)
    qed
    finally show "bit (mask_of (dget (as_masks ?r)) h) k \<longleftrightarrow> bit (mask_of (index_masks ix) h) k"
      unfolding keys index_forD(8) [OF ix] .
  qed
  ultimately have masks: "dget (as_masks ?r) = index_masks ix"
    by (rule masks_eqI [OF _ index_forD(7) [OF ix]])
  have entry: "(h, m) \<in> set (bucket_entries ?B) \<longleftrightarrow> index_masks ix h = Some m" for h m
  proof -
    have "(h, m) \<in> set (bucket_entries ?B) \<longleftrightarrow> (\<exists>s. dget ?B m = Some s \<and> h \<in> set (ps_items (snd s)))"
      unfolding dget_in_set [OF B(1), symmetric] by (force simp: bucket_entries_def)
    also have "\<dots> \<longleftrightarrow> (\<exists>s. dget ?B m = Some s \<and> h \<in> opt_elems (snd s))"
      using B(2) opt_set.finite by (metis ps_items_sorted set_sorted_list_of_set)
    also have "\<dots> \<longleftrightarrow> h \<in> opt_elems (bucket_set ix m)"
      by (auto simp: bucket_set_def opt_elems_def split: option.split)
    also have "\<dots> \<longleftrightarrow> index_masks ix h = Some m" by (simp add: index_forD(10) [OF ix])
    finally show ?thesis .
  qed
  have buckets: "dget (fold (\<lambda>(h, m). dset h m) (bucket_entries ?B) []) = index_masks ix"
  proof
    fix h
    have "dget (fold (\<lambda>(h, m). dset h m) (bucket_entries ?B) []) h = Some m \<longleftrightarrow> index_masks ix h = Some m" for m
      by (subst bucket_masks_dget) (auto simp: entry)
    then show "dget (fold (\<lambda>(h, m). dset h m) (bucket_entries ?B) []) h = index_masks ix h"
      by (metis not_None_eq)
  qed
  show ?thesis
    unfolding index_audit_issues_def Let_def dict_eq_iff issues append_Nil masks obs buckets r(1) by simp
qed

section \<open>Bootstrap\<close>

lemma new_cert_index_ok:
  assumes "new_cert_index ref gid ids = Inr ix"
  shows "index_for ix Map.empty" and "ci_requirement_version_ids ix = ids"
proof -
  have n: "1 \<le> length ids" "length ids \<le> 8"
    and ix: "ix = \<lparr>ci_ref = ref, ci_group_version_id = gid, ci_requirement_version_ids = ids,
      ci_edge_observations = [], ci_hash_masks = [], ci_hashes_by_mask = [], ci_observation_edge = [],
      ci_generation = 0\<rparr>"
    using assms by (auto simp: new_cert_index_def res_simps split: if_splits)
  show "ci_requirement_version_ids ix = ids" by (simp add: ix)
  have "masks_ok (length ids) (\<lambda>h. None)" using n by (simp add: masks_ok_def)
  then show "index_for ix Map.empty"
    by (simp add: ix index_for_def sets_ok_def edge_set_def bucket_set_def opt_elems_def edge_members_def mask_of_def)
qed

definition witness_deltas :: "requirement_witness \<Rightarrow> observation_delta list" where
  "witness_deltas w = map (\<lambda>i. \<lparr>od_requirement_ordinal = rw_requirement_ordinal w, od_text_hash = rw_text_hash w,
     od_observation_id = i, od_delta = 1\<rparr>) (rw_active_observation_ids w)"

lemma make_delta_Inr:
  "make_observation_delta a h i d = Inr it \<Longrightarrow>
    it = \<lparr>od_requirement_ordinal = a, od_text_hash = h, od_observation_id = i, od_delta = d\<rparr> \<and> delta_valid it"
  by (auto simp: make_observation_delta_def delta_valid_def bind_res_def split: sum.splits if_splits)

lemma witness_traverse:
  assumes "traverse (\<lambda>i. make_observation_delta (rw_requirement_ordinal w) (rw_text_hash w) i 1)
    (rw_active_observation_ids w) = Inr ds"
  shows "ds = witness_deltas w" and "\<forall>it \<in> set ds. delta_valid it"
proof -
  have "ds = map (\<lambda>i. \<lparr>od_requirement_ordinal = rw_requirement_ordinal w, od_text_hash = rw_text_hash w,
      od_observation_id = i, od_delta = 1\<rparr>) is \<and> (\<forall>it \<in> set ds. delta_valid it)"
    if "traverse (\<lambda>i. make_observation_delta (rw_requirement_ordinal w) (rw_text_hash w) i 1) is = Inr ds" for "is" ds
    using that
  proof (induction "is" arbitrary: ds)
    case (Cons i "is")
    from Cons.prems obtain it ds' where
      it: "make_observation_delta (rw_requirement_ordinal w) (rw_text_hash w) i 1 = Inr it"
      and ds': "traverse (\<lambda>i. make_observation_delta (rw_requirement_ordinal w) (rw_text_hash w) i 1) is = Inr ds'"
      and ds: "ds = it # ds'" by (auto simp: bind_res_def split: sum.splits)
    from make_delta_Inr [OF it] have
      e: "it = \<lparr>od_requirement_ordinal = rw_requirement_ordinal w, od_text_hash = rw_text_hash w,
        od_observation_id = i, od_delta = 1\<rparr>" and v: "delta_valid it" by blast+
    from Cons.IH [OF ds'] v [unfolded e] show ?case by (simp add: ds e)
  qed simp
  from this [OF assms] show "ds = witness_deltas w" and "\<forall>it \<in> set ds. delta_valid it"
    by (simp_all add: witness_deltas_def)
qed

lemma witness_step:
  assumes "witness_deltas_step ix w (deltas, seen) = Inr s"
  shows "\<exists>ds. traverse (\<lambda>i. make_observation_delta (rw_requirement_ordinal w) (rw_text_hash w) i 1)
      (rw_active_observation_ids w) = Inr ds \<and>
    s = (deltas @ ds, insert (rw_requirement_ordinal w, rw_text_hash w) seen)"
  using assms by (auto simp: witness_deltas_step_def Let_def bind_res_def split: sum.splits if_splits)

lemma witness_loop:
  "fold_res (witness_deltas_step ix) ws (deltas, seen) = Inr (out, seen') \<Longrightarrow> \<forall>it \<in> set deltas. delta_valid it \<Longrightarrow>
    out = deltas @ concat (map witness_deltas ws) \<and> (\<forall>it \<in> set out. delta_valid it)"
proof (induction ws arbitrary: deltas seen)
  case (Cons w ws)
  from Cons.prems(1) obtain s where s: "witness_deltas_step ix w (deltas, seen) = Inr s"
    "fold_res (witness_deltas_step ix) ws s = Inr (out, seen')"
    by (cases "witness_deltas_step ix w (deltas, seen)") auto
  from witness_step [OF s(1)] s(2) obtain ds where
    ds: "traverse (\<lambda>i. make_observation_delta (rw_requirement_ordinal w) (rw_text_hash w) i 1)
      (rw_active_observation_ids w) = Inr ds"
    and rest: "fold_res (witness_deltas_step ix) ws
      (deltas @ ds, insert (rw_requirement_ordinal w, rw_text_hash w) seen) = Inr (out, seen')" by auto
  note D = witness_traverse [OF ds]
  have "\<forall>it \<in> set (deltas @ ds). delta_valid it" using Cons.prems(2) D(2) by auto
  from Cons.IH [OF rest this] show ?case by (simp add: D(1))
qed simp

lemma membership_sum_ones:
  "\<forall>it \<in> set items. od_delta it = 1 \<Longrightarrow> membership_sum items k = int (length (filter (\<lambda>it. delta_key it = k) items))"
  unfolding membership_sum_def by (induction items) auto

text \<open>
  The index built from requirement witnesses is the index of exactly the active observations
  that the witnesses list on their edges, and passes its audit.
\<close>

theorem bootstrap_index_is_exact:
  assumes built: "from_requirement_witnesses ref alloc g ws = Inr (ix, work)"
  shows "\<exists>F. index_for ix F \<and> index_audit_issues ix = [] \<and>
    (\<forall>a h i. F i = Some (a, h) \<longleftrightarrow>
      (\<exists>w \<in> set ws. rw_requirement_ordinal w = a \<and> rw_text_hash w = h \<and> i \<in> set (rw_active_observation_ids w)))"
proof -
  from built obtain ix0 deltas seen ts wk where
    ix0: "new_cert_index ref (eg_group_version_id g) (map er_requirement_version_id (eg_requirements g)) = Inr ix0"
    and loop: "fold_res (witness_deltas_step ix0) ws ([], {}) = Inr (deltas, seen)"
    and app: "apply_observation_deltas alloc deltas ix0 = Inr ((ts, wk), ix)"
    unfolding from_requirement_witnesses_def Let_def by (auto simp: bind_res_def split: sum.splits)
  note start = new_cert_index_ok(1) [OF ix0]
  from witness_loop [OF loop] have deltas: "deltas = concat (map witness_deltas ws)"
    and valid: "\<forall>it \<in> set deltas. delta_valid it" by simp_all
  from app obtain pt tok where
    pt: "prepare_observation_deltas alloc deltas ix0 = Inr pt" "apply_prepared_observation_deltas pt ix0 = Inr (tok, ix)"
    unfolding apply_observation_deltas_def by (auto simp: bind_res_def split: sum.splits)
  have "batch_fits (index_width ix0) Map.empty deltas"
    using prepare_fails [OF start valid] pt(1) by (metis sum.distinct(1))
  from prepare_succeeds [OF start valid this, of alloc] pt(1) obtain F where
    F: "moved_by deltas Map.empty F" "patch_starts ix0 pt" "\<forall>g. index_for (applied_index pt g ix0) F" by auto
  from apply_prepared_ok [OF F(2)] pt(2) F(3) have ix: "index_for ix F" by auto
  have ones: "\<forall>it \<in> set deltas. od_delta it = 1" by (auto simp: deltas witness_deltas_def)
  have "F i = Some (a, h) \<longleftrightarrow>
      (\<exists>w \<in> set ws. rw_requirement_ordinal w = a \<and> rw_text_hash w = h \<and> i \<in> set (rw_active_observation_ids w))" for a h i
  proof -
    have "of_bool (F i = Some (a, h)) = membership_sum deltas (a, h, i)"
      using F(1) [unfolded moved_by_def, rule_format, of i "(a, h)"] by simp
    then have "F i = Some (a, h) \<longleftrightarrow> filter (\<lambda>it. delta_key it = (a, h, i)) deltas \<noteq> []"
      unfolding membership_sum_ones [OF ones] by (cases "F i = Some (a, h)") auto
    also have "\<dots> \<longleftrightarrow> (\<exists>w \<in> set ws. rw_requirement_ordinal w = a \<and> rw_text_hash w = h \<and>
        i \<in> set (rw_active_observation_ids w))"
      by (force simp: filter_empty_conv deltas witness_deltas_def delta_key_def)
    finally show ?thesis .
  qed
  then show ?thesis using ix audit_accepts [OF ix] by blast
qed

definition demo_cert_group :: evidence_group_version where
  "demo_cert_group =
     (let requirement = \<lambda>i n. \<lparr>er_requirement_version_id = i, er_group_version_id = ''g'', er_ordinal = n,
        er_requirement_text = [65], er_requirement_text_hash = demo_hash CHR ''c'', er_constructor_model_id = None,
        er_constructor_model_version = None, er_constructor_prompt_version = None,
        er_supersedes_requirement_version_id = None\<rparr> in
      \<lparr>eg_group_version_id = ''g'', eg_group_family_id = ''f'', eg_owner_claim_id = ''c1'',
       eg_requirements = [requirement ''r0'' 0, requirement ''r1'' 1], eg_group_type = SUPPORT_CONJUNCTION,
       eg_construction_kind = GOLD, eg_construction_source_id = ''s'', eg_constructor_model_id = None,
       eg_constructor_model_version = None, eg_constructor_prompt_version = None,
       eg_supersedes_group_version_id = None, eg_semantic_structure_hash = demo_hash CHR ''d'',
       eg_record_payload_hash = demo_hash CHR ''e''\<rparr>)"

definition demo_witnesses :: "requirement_witness list" where
  "demo_witnesses =
     [\<lparr>rw_requirement_version_id = ''r0'', rw_requirement_ordinal = 0, rw_text_hash = demo_hash CHR ''a'',
       rw_active_observation_ids = [''o1'', ''o4'']\<rparr>,
      \<lparr>rw_requirement_version_id = ''r1'', rw_requirement_ordinal = 1, rw_text_hash = demo_hash CHR ''a'',
       rw_active_observation_ids = [''o2'']\<rparr>]"

theorem bootstrap_index_is_exact_witness:
  "\<exists>ix work F. from_requirement_witnesses 7 100 demo_cert_group demo_witnesses = Inr (ix, work) \<and>
     index_for ix F \<and> index_audit_issues ix = [] \<and> F ''o4'' = Some (0, demo_hash CHR ''a'') \<and> F ''o3'' = None"
proof -
  have "case from_requirement_witnesses 7 100 demo_cert_group demo_witnesses of Inl e \<Rightarrow> False | Inr r \<Rightarrow> True"
    by code_simp
  then obtain ix work where built: "from_requirement_witnesses 7 100 demo_cert_group demo_witnesses = Inr (ix, work)"
    by (auto split: sum.splits)
  from bootstrap_index_is_exact [OF built] obtain F where
    F: "index_for ix F" "index_audit_issues ix = []"
      "F i = Some (a, h) \<longleftrightarrow> (\<exists>w \<in> set demo_witnesses. rw_requirement_ordinal w = a \<and> rw_text_hash w = h \<and>
        i \<in> set (rw_active_observation_ids w))" for a h i by blast
  have "F ''o4'' = Some (0, demo_hash CHR ''a'')" unfolding F(3) by (simp add: demo_witnesses_def)
  moreover have "F ''o3'' = None"
  proof (rule ccontr)
    assume "F ''o3'' \<noteq> None"
    then obtain a h where "F ''o3'' = Some (a, h)" by auto
    then show False unfolding F(3) by (auto simp: demo_witnesses_def)
  qed
  ultimately show ?thesis using built F(1,2) by blast
qed

end
