(* ===== verification/GL_Snapshot.thy ===== *)
theory GL_Snapshot
  imports GL_Repository
begin

text \<open>
  \<open>InMemoryRepository.export_snapshot\<close>: the immutable export of the base relations, sorted by
  identifier, that the M5 repository and the persistence adapters read.
\<close>

record repository_snapshot =
  sn_revision :: nat
  sn_questions :: "question list"
  sn_answers :: "answer_version list"
  sn_claims :: "claim list"
  sn_document_versions :: "(document_version \<times> interval) list"
  sn_chunks :: "(chunk_version \<times> interval) list"
  sn_policies :: "(decision_policy \<times> interval) list"
  sn_observations :: "semantic_observation list"
  sn_current_observation_ids :: "string list"
  sn_processed_events :: "(string \<times> string \<times> status_delta list) list"
  sn_status_deltas :: "status_delta list"

text \<open>\<open>tuple(d[key] for key in sorted(d))\<close>, and the same for a relation with its validity.\<close>

definition sorted_rows :: "('k::linorder, 'v) pydict \<Rightarrow> 'v list res" where
  "sorted_rows d = traverse (lookup KeyError d) (sort (dkeys d))"

definition sorted_intervals ::
    "('k::linorder, 'v) pydict \<Rightarrow> ('k, interval) pydict \<Rightarrow> ('v \<times> interval) list res" where
  "sorted_intervals d validity =
     traverse (\<lambda>k. bind_res (lookup KeyError d k) (\<lambda>v.
       bind_res (lookup KeyError validity k) (\<lambda>iv. Inr (v, iv)))) (sort (dkeys d))"

definition export_snapshot :: "repo \<Rightarrow> repository_snapshot res" where
  "export_snapshot r =
     bind_res (sorted_rows (questions r)) (\<lambda>qs.
     bind_res (sorted_rows (answers r)) (\<lambda>as.
     bind_res (sorted_rows (claims r)) (\<lambda>cs.
     bind_res (sorted_intervals (document_versions r) (document_version_validity r)) (\<lambda>dvs.
     bind_res (sorted_intervals (chunk_versions r) (chunk_validity r)) (\<lambda>chs.
     bind_res (sorted_intervals (policies r) (policy_validity r)) (\<lambda>ps.
     bind_res (sorted_rows (observations r)) (\<lambda>obs.
       Inr \<lparr>sn_revision = current_epoch r, sn_questions = qs, sn_answers = as, sn_claims = cs,
            sn_document_versions = dvs, sn_chunks = chs, sn_policies = ps, sn_observations = obs,
            sn_current_observation_ids = sort (dvalues (current_by_key r)),
            sn_processed_events = map (\<lambda>(i, (digest, deltas)). (i, digest, deltas)) (processed_events r),
            sn_status_deltas = status_deltas r\<rparr>)))))))"

lemma traverse_lookup:
  "set ks \<subseteq> dom (dget d) \<Longrightarrow> traverse (lookup e d) ks = Inr (map (\<lambda>k. the (dget d k)) ks)"
  by (rule traverse_Inr_map) (auto simp: lookup_def split: option.split)

lemma sorted_rows_Inr: "sorted_rows d = Inr (map (\<lambda>k. the (dget d k)) (sort (dkeys d)))"
  unfolding sorted_rows_def by (rule traverse_lookup) (simp add: dom_map_of_conv_image_fst)

lemma sorted_intervals_Inr:
  assumes "dom (dget d) \<subseteq> dom (dget v)"
  shows "sorted_intervals d v = Inr (map (\<lambda>k. (the (dget d k), the (dget v k))) (sort (dkeys d)))"
  unfolding sorted_intervals_def
proof (rule traverse_Inr_map)
  fix k assume "k \<in> set (sort (dkeys d))"
  then have "k \<in> dom (dget d)" by (simp add: dom_map_of_conv_image_fst)
  with assms show "bind_res (lookup KeyError d k) (\<lambda>y. bind_res (lookup KeyError v k) (\<lambda>iv. Inr (y, iv))) =
      Inr (the (dget d k), the (dget v k))"
    by (auto simp: lookup_def)
qed

text \<open>The validity at an epoch, as the M5 repository reads it from the export.\<close>

definition interval_contains :: "interval \<Rightarrow> nat \<Rightarrow> bool" where
  "interval_contains iv epoch \<longleftrightarrow>
     fst iv \<le> epoch \<and> (case snd iv of None \<Rightarrow> True | Some e \<Rightarrow> epoch < e)"

lemma interval_active_contains: "interval_active iv \<Longrightarrow> fst iv \<le> e \<Longrightarrow> interval_contains iv e"
  by (simp add: interval_active_def interval_contains_def)

section \<open>Adopting a staged repository\<close>

text \<open>\<open>replace_with\<close> copies the attributes one by one; all of them are covered.\<close>

definition replace_with :: "repo \<Rightarrow> repo \<Rightarrow> repo" where
  "replace_with staged r =
     r\<lparr>current_epoch := current_epoch staged,
        document_versions := document_versions staged,
        document_version_validity := document_version_validity staged,
        versions_by_document := versions_by_document staged,
        chunk_versions := chunk_versions staged,
        chunk_validity := chunk_validity staged,
        chunks_by_document_version := chunks_by_document_version staged,
        questions := questions staged,
        answers := answers staged,
        claims := claims staged,
        claims_by_answer := claims_by_answer staged,
        observations := observations staged,
        reserved_observation_ids := reserved_observation_ids staged,
        current_by_key := current_by_key staged,
        superseded := superseded staged,
        observations_by_chunk := observations_by_chunk staged,
        policies := policies staged,
        policy_validity := policy_validity staged,
        current_policy_version := current_policy_version staged,
        processed_events := processed_events staged,
        status_deltas := status_deltas staged\<rparr>"

lemma replace_with_staged [simp]: "replace_with staged r = staged"
  by (simp add: replace_with_def)

end
