(* ===== verification/GL_M5Repository.thy ===== *)
theory GL_M5Repository
  imports GL_M5Domain GL_Snapshot
begin

text \<open>
  The sidecar repository of \<open>m5/repository.py\<close>: evidence groups, requirement observations and their
  currency history, over an unchanged base repository.  A method that mutates \<open>self\<close> takes the state
  and returns the new one, or the exception; a query that synchronises the head of the base repository
  returns the synchronised state with its answer.
\<close>

section \<open>State\<close>

record m5_repo =
  mr_base :: repo
  mr_semantic_revision :: nat
  mr_max_revision_by_epoch :: "(nat, nat) pydict"
  mr_families :: "(string, evidence_group_family) pydict"
  mr_groups :: "(string, evidence_group_version) pydict"
  mr_group_validity :: "(string, evidence_group_validity) pydict"
  mr_group_versions_by_family :: "(string, string list) pydict"
  mr_groups_by_claim :: "(string, string list) pydict"
  mr_requirements :: "(string, evidence_requirement_version) pydict"
  mr_requirements_by_group :: "(string, string list) pydict"
  mr_retirements :: "(string, evidence_group_family_retirement) pydict"
  mr_requirement_observations :: "(string, requirement_observation_record) pydict"
  mr_currency_history :: "(observation_key, observation_currency_interval list) pydict"
  mr_observations_by_chunk :: "(string, string list) pydict"

text \<open>\<open>M5Repository(base, semantic_revision)\<close>.\<close>

definition new_m5_repo :: "repo \<Rightarrow> nat \<Rightarrow> m5_repo" where
  "new_m5_repo base revision =
     (let e = current_epoch base; revs = map (\<lambda>k. (k, 0)) [0..<Suc e] in
      \<lparr>mr_base = base, mr_semantic_revision = revision,
       mr_max_revision_by_epoch = dset e (max (dget_default revs e 0) revision) revs,
       mr_families = [], mr_groups = [], mr_group_validity = [], mr_group_versions_by_family = [],
       mr_groups_by_claim = [], mr_requirements = [], mr_requirements_by_group = [],
       mr_retirements = [], mr_requirement_observations = [], mr_currency_history = [],
       mr_observations_by_chunk = []\<rparr>)"

section \<open>Snapshot points\<close>

definition m5_epoch :: "m5_repo \<Rightarrow> nat" where
  "m5_epoch r = current_epoch (mr_base r)"

definition synchronize_base_head :: "m5_repo \<Rightarrow> m5_repo" where
  "synchronize_base_head r =
     (if dmem (m5_epoch r) (mr_max_revision_by_epoch r) then r
      else
        let known = dkeys (mr_max_revision_by_epoch r);
            first_new = (if known = [] then 0 else Suc (Max (set known))) in
        r\<lparr>mr_max_revision_by_epoch :=
            fold (\<lambda>e. dset e 0) [first_new..<Suc (m5_epoch r)] (mr_max_revision_by_epoch r),
          mr_semantic_revision := 0\<rparr>)"

definition current_point :: "m5_repo \<Rightarrow> snapshot_point \<times> m5_repo" where
  "current_point r =
     (let r = synchronize_base_head r in ((m5_epoch r, mr_semantic_revision r), r))"

definition begin_event_epoch :: "m5_repo \<Rightarrow> snapshot_point \<times> m5_repo" where
  "begin_event_epoch r =
     (let r = synchronize_base_head r; (base, e) = advance_epoch (mr_base r) in
      ((e, 0), r\<lparr>mr_base := base, mr_semantic_revision := 0,
                 mr_max_revision_by_epoch := dset e 0 (mr_max_revision_by_epoch r)\<rparr>))"

definition advance_semantic_revision :: "m5_repo \<Rightarrow> snapshot_point \<times> m5_repo" where
  "advance_semantic_revision r =
     (let (_, r) = current_point r; revision = mr_semantic_revision r + 1 in
      current_point (r\<lparr>mr_semantic_revision := revision,
        mr_max_revision_by_epoch := dset (m5_epoch r) revision (mr_max_revision_by_epoch r)\<rparr>))"

definition is_known_snapshot_point :: "m5_repo \<Rightarrow> snapshot_point \<Rightarrow> bool \<times> m5_repo" where
  "is_known_snapshot_point r point =
     (let r = synchronize_base_head r in
      (case dget (mr_max_revision_by_epoch r) (fst point) of
         None \<Rightarrow> False | Some maximum \<Rightarrow> snd point \<le> maximum, r))"

definition require_snapshot_point :: "m5_repo \<Rightarrow> snapshot_point \<Rightarrow> m5_repo res" where
  "require_snapshot_point r point =
     (case is_known_snapshot_point r point of
        (known, r) \<Rightarrow> if known then Inr r else Inl ValidationError)"

section \<open>Queries\<close>

definition family_of :: "m5_repo \<Rightarrow> string \<Rightarrow> evidence_group_family res" where
  "family_of r i = lookup DanglingReferenceError (mr_families r) i"

definition group_of :: "m5_repo \<Rightarrow> string \<Rightarrow> evidence_group_version res" where
  "group_of r i = lookup DanglingReferenceError (mr_groups r) i"

definition requirement_of :: "m5_repo \<Rightarrow> string \<Rightarrow> evidence_requirement_version res" where
  "requirement_of r i = lookup DanglingReferenceError (mr_requirements r) i"

definition all_group_ids :: "m5_repo \<Rightarrow> string list" where
  "all_group_ids r = dkeys (mr_groups r)"

definition all_requirement_ids :: "m5_repo \<Rightarrow> string list" where
  "all_requirement_ids r = dkeys (mr_requirements r)"

definition group_ids_for_claim :: "m5_repo \<Rightarrow> string \<Rightarrow> string list" where
  "group_ids_for_claim r c = dget_default (mr_groups_by_claim r) c []"

definition requirement_ids_for_group :: "m5_repo \<Rightarrow> string \<Rightarrow> string list res" where
  "requirement_ids_for_group r g =
     bind_res (group_of r g) (\<lambda>_. lookup KeyError (mr_requirements_by_group r) g)"

definition owner_claim_id :: "m5_repo \<Rightarrow> string \<Rightarrow> string res" where
  "owner_claim_id r q =
     bind_res (requirement_of r q) (\<lambda>req.
     bind_res (group_of r (er_group_version_id req)) (\<lambda>g. Inr (eg_owner_claim_id g)))"

definition is_group_active :: "m5_repo \<Rightarrow> string \<Rightarrow> nat \<Rightarrow> bool" where
  "is_group_active r g epoch =
     (case dget (mr_group_validity r) g of None \<Rightarrow> False | Some v \<Rightarrow> validity_contains v epoch)"

definition is_requirement_active :: "m5_repo \<Rightarrow> string \<Rightarrow> nat \<Rightarrow> bool res" where
  "is_requirement_active r q epoch =
     bind_res (requirement_of r q) (\<lambda>req. Inr (is_group_active r (er_group_version_id req) epoch))"

definition active_group_ids :: "m5_repo \<Rightarrow> nat \<Rightarrow> string list" where
  "active_group_ids r epoch = filter (\<lambda>g. is_group_active r g epoch) (dkeys (mr_groups r))"

fun chunk_active_in :: "(chunk_version \<times> interval) list \<Rightarrow> string \<Rightarrow> nat \<Rightarrow> bool" where
  "chunk_active_in [] c epoch = False"
| "chunk_active_in ((chunk, iv) # rows) c epoch =
     (if cv_chunk_version_id chunk = c then interval_contains iv epoch
      else chunk_active_in rows c epoch)"

definition is_chunk_active_at :: "m5_repo \<Rightarrow> string \<Rightarrow> nat \<Rightarrow> bool res" where
  "is_chunk_active_at r c epoch =
     bind_res (export_snapshot (mr_base r)) (\<lambda>s. Inr (chunk_active_in (sn_chunks s) c epoch))"

fun policy_in :: "(decision_policy \<times> interval) list \<Rightarrow> nat \<Rightarrow> decision_policy res" where
  "policy_in [] epoch = Inl DanglingReferenceError"
| "policy_in ((p, iv) # rows) epoch =
     (if interval_contains iv epoch then Inr p else policy_in rows epoch)"

definition policy_at :: "m5_repo \<Rightarrow> nat \<Rightarrow> decision_policy res" where
  "policy_at r epoch = bind_res (export_snapshot (mr_base r)) (\<lambda>s. policy_in (sn_policies s) epoch)"

definition requirement_observation_of :: "m5_repo \<Rightarrow> string \<Rightarrow> requirement_observation_record res" where
  "requirement_observation_of r i = lookup DanglingReferenceError (mr_requirement_observations r) i"

fun holder_at :: "observation_currency_interval list \<Rightarrow> snapshot_point \<Rightarrow> string option" where
  "holder_at [] point = None"
| "holder_at (iv # ivs) point =
     (if currency_contains iv point then ci_observation_id iv else holder_at ivs point)"

definition currency_observation_id_at ::
    "m5_repo \<Rightarrow> observation_key \<Rightarrow> snapshot_point \<Rightarrow> (string option \<times> m5_repo) res" where
  "currency_observation_id_at r k point =
     bind_res (require_snapshot_point r point) (\<lambda>r.
       Inr (holder_at (rev (dget_default (mr_currency_history r) k [])) point, r))"

fun current_holders ::
    "m5_repo \<Rightarrow> observation_key list \<Rightarrow> snapshot_point \<Rightarrow> (string option list \<times> m5_repo) res" where
  "current_holders r [] point = Inr ([], r)"
| "current_holders r (k # ks) point =
     bind_res (currency_observation_id_at r k point) (\<lambda>(h, r).
     bind_res (current_holders r ks point) (\<lambda>(hs, r). Inr (h # hs, r)))"

definition current_requirement_observation_ids ::
    "m5_repo \<Rightarrow> snapshot_point \<Rightarrow> (string list \<times> m5_repo) res" where
  "current_requirement_observation_ids r point =
     bind_res (current_holders r (dkeys (mr_currency_history r)) point) (\<lambda>(hs, r).
       Inr (sort (List.map_filter id hs), r))"

definition current_requirement_observations ::
    "m5_repo \<Rightarrow> snapshot_point \<Rightarrow> (requirement_observation_record list \<times> m5_repo) res" where
  "current_requirement_observations r point =
     bind_res (current_requirement_observation_ids r point) (\<lambda>(ids, r).
     bind_res (traverse (lookup KeyError (mr_requirement_observations r)) ids) (\<lambda>obs. Inr (obs, r)))"

definition m5_recorded_event :: "m5_repo \<Rightarrow> string \<Rightarrow> (string \<times> status_delta list) option" where
  "m5_recorded_event r i = recorded_event (mr_base r) i"

definition m5_record_event :: "m5_repo \<Rightarrow> string \<Rightarrow> string \<Rightarrow> status_delta list \<Rightarrow> m5_repo" where
  "m5_record_event r i digest deltas = r\<lparr>mr_base := record_event (mr_base r) i digest deltas\<rparr>"

section \<open>Group writes\<close>

definition validate_new_version_identifiers :: "m5_repo \<Rightarrow> evidence_group_version \<Rightarrow> unit res" where
  "validate_new_version_identifiers r g =
     (if dmem (eg_group_version_id g) (mr_groups r) then Inl DuplicateIdentifierError
      else if \<exists>q \<in> set (eg_requirements g). dmem (er_requirement_version_id q) (mr_requirements r)
      then Inl DuplicateIdentifierError
      else Inr ())"

fun no_active_duplicate ::
    "m5_repo \<Rightarrow> evidence_group_version \<Rightarrow> nat \<Rightarrow> string option \<Rightarrow> string list \<Rightarrow> unit res" where
  "no_active_duplicate r g epoch excluding [] = Inr ()"
| "no_active_duplicate r g epoch excluding (i # is) =
     (if excluding = Some i then no_active_duplicate r g epoch excluding is
      else bind_res (lookup KeyError (mr_groups r) i) (\<lambda>existing.
        if eg_semantic_structure_hash existing = eg_semantic_structure_hash g \<and> is_group_active r i epoch
        then Inl ValidationError
        else no_active_duplicate r g epoch excluding is))"

definition validate_no_active_semantic_duplicate ::
    "m5_repo \<Rightarrow> evidence_group_version \<Rightarrow> nat \<Rightarrow> string option \<Rightarrow> unit res" where
  "validate_no_active_semantic_duplicate r g epoch excluding =
     no_active_duplicate r g epoch excluding (dget_default (mr_groups_by_claim r) (eg_owner_claim_id g) [])"

definition append_group_version :: "m5_repo \<Rightarrow> evidence_group_version \<Rightarrow> nat \<Rightarrow> m5_repo res" where
  "append_group_version r g epoch =
     (let gid = eg_group_version_id g in
      bind_res (make_validity \<lparr>gv_group_version_id = gid, gv_valid_from_epoch = epoch,
          gv_valid_to_epoch = None\<rparr>) (\<lambda>validity.
      bind_res (lookup KeyError (mr_group_versions_by_family r) (eg_group_family_id g)) (\<lambda>versions.
      bind_res (lookup KeyError (mr_groups_by_claim r) (eg_owner_claim_id g)) (\<lambda>owned.
        Inr (r\<lparr>mr_groups := dset gid g (mr_groups r),
               mr_group_validity := dset gid validity (mr_group_validity r),
               mr_group_versions_by_family :=
                 dset (eg_group_family_id g) (versions @ [gid]) (mr_group_versions_by_family r),
               mr_groups_by_claim := dset (eg_owner_claim_id g) (owned @ [gid]) (mr_groups_by_claim r),
               mr_requirements_by_group :=
                 dset gid (map er_requirement_version_id (eg_requirements g)) (mr_requirements_by_group r),
               mr_requirements :=
                 fold (\<lambda>q. dset (er_requirement_version_id q) q) (eg_requirements g) (mr_requirements r)\<rparr>)))))"

definition register_group :: "m5_repo \<Rightarrow> evidence_group_version \<Rightarrow> nat \<Rightarrow> m5_repo res" where
  "register_group r g epoch =
     (if eg_supersedes_group_version_id g \<noteq> None then Inl ValidationError
      else if dmem (eg_group_family_id g) (mr_families r) then Inl DuplicateIdentifierError
      else
        bind_res (claim_of (mr_base r) (eg_owner_claim_id g)) (\<lambda>_.
        bind_res (validate_new_version_identifiers r g) (\<lambda>_.
        bind_res (validate_no_active_semantic_duplicate r g epoch None) (\<lambda>_.
        bind_res (make_family \<lparr>gf_group_family_id = eg_group_family_id g,
            gf_claim_id = eg_owner_claim_id g, gf_created_epoch = epoch\<rparr>) (\<lambda>family.
          append_group_version
            (r\<lparr>mr_families := dset (gf_group_family_id family) family (mr_families r),
               mr_group_versions_by_family :=
                 dset (gf_group_family_id family) [] (mr_group_versions_by_family r),
               mr_groups_by_claim :=
                 dset (eg_owner_claim_id g) (dget_default (mr_groups_by_claim r) (eg_owner_claim_id g) [])
                   (mr_groups_by_claim r)\<rparr>) g epoch)))))"

text \<open>The requirement predecessors of a successor: each in the prior version, none twice.\<close>

fun check_predecessors ::
    "string list \<Rightarrow> string list \<Rightarrow> evidence_requirement_version list \<Rightarrow> unit res" where
  "check_predecessors old used [] = Inr ()"
| "check_predecessors old used (q # qs) =
     (case er_supersedes_requirement_version_id q of
        None \<Rightarrow> check_predecessors old used qs
      | Some p \<Rightarrow>
          if p \<notin> set old then Inl ValidationError
          else if p \<in> set used then Inl ValidationError
          else check_predecessors old (p # used) qs)"

definition close_group :: "m5_repo \<Rightarrow> string \<Rightarrow> nat \<Rightarrow> m5_repo res" where
  "close_group r i epoch =
     bind_res (lookup KeyError (mr_group_validity r) i) (\<lambda>prior.
     bind_res (make_validity (prior\<lparr>gv_valid_to_epoch := Some epoch\<rparr>)) (\<lambda>closed.
       Inr (r\<lparr>mr_group_validity := dset i closed (mr_group_validity r)\<rparr>)))"

definition replace_group ::
    "m5_repo \<Rightarrow> string \<Rightarrow> evidence_group_version \<Rightarrow> nat \<Rightarrow> m5_repo res" where
  "replace_group r i successor epoch =
     bind_res (group_of r i) (\<lambda>old.
     if \<not> is_group_active r i epoch then Inl ValidationError
     else
       bind_res (family_of r (eg_group_family_id old)) (\<lambda>family.
       if dmem (gf_group_family_id family) (mr_retirements r) then Inl ValidationError
       else if eg_group_family_id successor \<noteq> gf_group_family_id family then Inl ValidationError
       else if eg_owner_claim_id successor \<noteq> gf_claim_id family then Inl ValidationError
       else if eg_supersedes_group_version_id successor \<noteq> Some i then Inl ValidationError
       else
         bind_res (lookup KeyError (mr_group_versions_by_family r) (gf_group_family_id family)) (\<lambda>versions.
         if versions = [] then Inl IndexError
         else if last versions \<noteq> i then Inl ValidationError
         else
           bind_res (validate_new_version_identifiers r successor) (\<lambda>_.
           bind_res (lookup KeyError (mr_requirements_by_group r) i) (\<lambda>old_requirement_ids.
           bind_res (check_predecessors old_requirement_ids [] (eg_requirements successor)) (\<lambda>_.
           bind_res (validate_no_active_semantic_duplicate r successor epoch (Some i)) (\<lambda>_.
           bind_res (close_group r i epoch) (\<lambda>r.
             append_group_version r successor epoch))))))))"

definition retire_group :: "m5_repo \<Rightarrow> string \<Rightarrow> nat \<Rightarrow> string \<Rightarrow> m5_repo res" where
  "retire_group r i epoch ev =
     bind_res (group_of r i) (\<lambda>g.
     if \<not> is_group_active r i epoch then Inl ValidationError
     else if dmem (eg_group_family_id g) (mr_retirements r) then Inl ValidationError
     else
       bind_res (close_group r i epoch) (\<lambda>r.
       bind_res (make_retirement \<lparr>rt_group_family_id = eg_group_family_id g, rt_retired_epoch_id = epoch,
           rt_event_id = ev\<rparr>) (\<lambda>retirement.
         Inr (r\<lparr>mr_retirements := dset (eg_group_family_id g) retirement (mr_retirements r)\<rparr>))))"

section \<open>Observation writes\<close>

definition validate_typed_requirement_observation :: "semantic_observation \<Rightarrow> unit res" where
  "validate_typed_requirement_observation ob =
     checks [is_identifier (ob_observation_id ob), is_identifier (ob_subject_id ob),
       is_identifier (ob_chunk_version_id ob), is_identifier (ob_task_type ob),
       ob_subject_kind ob = REQUIREMENT,
       is_identifier (ms_model_id (ob_producer ob)), is_identifier (ms_model_version (ob_producer ob)),
       is_identifier (ms_prompt_version (ob_producer ob)),
       0 \<le> ob_support_score ob \<and> ob_support_score ob \<le> 1,
       0 \<le> ob_refute_score ob \<and> ob_refute_score ob \<le> 1,
       0 \<le> ob_neutral_score ob \<and> ob_neutral_score ob \<le> 1,
       is_hash (py (ob_input_hash ob))]"

text \<open>Closing the open interval of a key at \<open>point\<close>, then opening the new one.\<close>

definition extend_history ::
    "observation_currency_interval list \<Rightarrow> semantic_observation \<Rightarrow> snapshot_point
      \<Rightarrow> observation_currency_interval list res" where
  "extend_history history ob point =
     bind_res
       (if history \<noteq> [] \<and> ci_valid_to (last history) = None then
          bind_res (make_currency_interval ((last history)\<lparr>ci_valid_to := Some point\<rparr>)) (\<lambda>closed.
            Inr (butlast history @ [closed]))
        else Inr history) (\<lambda>history.
     bind_res (make_currency_interval \<lparr>ci_key = observation_key ob,
         ci_observation_id = Some (ob_observation_id ob), ci_valid_from = point, ci_valid_to = None\<rparr>)
       (\<lambda>iv. Inr (history @ [iv])))"

text \<open>The writes of an accepted observation; the checks that can reject it come before.\<close>

definition store_requirement_observation ::
    "m5_repo \<Rightarrow> requirement_observation_record \<Rightarrow> m5_repo res" where
  "store_requirement_observation r t =
     (let ob = ro_observation t; i = ob_observation_id ob in
      bind_res (reserve_external_observation_id (mr_base r) i) (\<lambda>base.
      let r = r\<lparr>mr_base := base,
                mr_requirement_observations := dset i t (mr_requirement_observations r),
                mr_observations_by_chunk :=
                  dappend (ob_chunk_version_id ob) i (mr_observations_by_chunk r)\<rparr> in
      if \<not> ro_eligible_for_currency t then Inr r
      else
        bind_res (extend_history (dget_default (mr_currency_history r) (observation_key ob) []) ob
            (ro_produced_at t)) (\<lambda>history.
          Inr (r\<lparr>mr_currency_history :=
                 dset (observation_key ob) history (mr_currency_history r)\<rparr>))))"

definition register_requirement_observation ::
    "m5_repo \<Rightarrow> semantic_observation \<Rightarrow> snapshot_point \<Rightarrow> (requirement_observation_record \<times> m5_repo) res" where
  "register_requirement_observation r ob point =
     bind_res (validate_typed_requirement_observation ob) (\<lambda>_.
     let (current, r) = current_point r; (known, r) = is_known_snapshot_point r point;
         i = ob_observation_id ob in
     if point \<noteq> current \<or> \<not> known then Inl ValidationError
     else if dmem i (mr_requirement_observations r) then Inl DuplicateIdentifierError
     else if has_observation_id (mr_base r) i then Inl DuplicateIdentifierError
     else
       bind_res (requirement_of r (ob_subject_id ob)) (\<lambda>_.
       if \<not> has_chunk_version (mr_base r) (ob_chunk_version_id ob) then Inl DanglingReferenceError
       else
         bind_res (is_requirement_active r (ob_subject_id ob) (fst point)) (\<lambda>requirement_active.
         bind_res (if requirement_active then is_chunk_active_at r (ob_chunk_version_id ob) (fst point)
                   else Inr False) (\<lambda>eligible.
         let history = dget_default (mr_currency_history r) (observation_key ob) [] in
         if eligible \<and> history \<noteq> [] \<and> ci_valid_to (last history) = None \<and>
            point \<le> ci_valid_from (last history)
         then Inl ValidationError
         else
           bind_res (make_observation_record \<lparr>ro_observation = ob, ro_eligible_for_currency = eligible,
               ro_produced_at = point\<rparr>) (\<lambda>t.
           bind_res (store_requirement_observation r t) (\<lambda>r. Inr (t, r)))))))"

end
