(* ===== verification/GL_M5Matcher.thy ===== *)
theory GL_M5Matcher
  imports GL_M5Digests GL_MatchingProofs
begin

text \<open>
  The reference matcher of \<open>m5/reference.py\<close>: backtracking over the requirements in ordinal order,
  with an explicit branch that leaves a requirement unmatched.  It is the independent oracle for the
  augmenting-path and Hall-mask kernels of \<open>m5/matching.py\<close>.
\<close>

section \<open>The backtracking search\<close>

record reference_matching =
  rm_size :: int
  rm_assignment_by_ordinal :: "string option list"

text \<open>\<open>"\uffff" if value is None else value\<close>, componentwise.\<close>

definition assignment_key :: "string option list \<Rightarrow> py_text list" where
  "assignment_key assignment = map (\<lambda>v. case v of None \<Rightarrow> [65535] | Some h \<Rightarrow> py h) assignment"

type_synonym best = "int \<times> string option list option"

definition update_best :: "string option list \<Rightarrow> int \<Rightarrow> best \<Rightarrow> best" where
  "update_best assignment nmatched best =
     (let (best_size, best_assignment) = best in
      if best_size < nmatched \<or>
         (nmatched = best_size \<and>
          (case best_assignment of
             None \<Rightarrow> True
           | Some b \<Rightarrow> assignment_key assignment < assignment_key b))
      then (nmatched, Some assignment) else best)"

primrec visit ::
    "string list list \<Rightarrow> string set \<Rightarrow> string option list \<Rightarrow> int \<Rightarrow> best \<Rightarrow> best" where
  "visit [] used assignment nmatched best = update_best assignment nmatched best"
| "visit (neighbors # rest) used assignment nmatched best =
     fold (\<lambda>h best. if h \<in> used then best
                    else visit rest (insert h used) (assignment @ [Some h]) (nmatched + 1) best)
       (sort neighbors) (visit rest used (assignment @ [None]) nmatched best)"

definition maximum_matching_with_unmatched_branch :: "string list list \<Rightarrow> reference_matching res" where
  "maximum_matching_with_unmatched_branch neighbors_by_ordinal =
     (case visit neighbors_by_ordinal {} [] 0 (-1, None) of
        (best_size, None) \<Rightarrow> Inl AssertionError
      | (best_size, Some a) \<Rightarrow> Inr \<lparr>rm_size = best_size, rm_assignment_by_ordinal = a\<rparr>)"

section \<open>The assignments it tries\<close>

primrec assignments :: "string list list \<Rightarrow> string set \<Rightarrow> string option list list" where
  "assignments [] used = [[]]"
| "assignments (neighbors # rest) used =
     map ((#) None) (assignments rest used) @
     concat (map (\<lambda>h. if h \<in> used then []
                      else map ((#) (Some h)) (assignments rest (insert h used))) (sort neighbors))"

definition matched_count :: "string option list \<Rightarrow> int" where
  "matched_count a = int (length (List.map_filter id a))"

lemma matched_count_simps [simp]:
  "matched_count [] = 0" "matched_count (None # a) = matched_count a"
  "matched_count (Some h # a) = matched_count a + 1"
  by (simp_all add: matched_count_def List.map_filter_def)

lemma fold_concat_fold: "fold f (concat xss) = fold (fold f) xss"
  by (induction xss) auto

lemma visit_fold:
  "visit ns used asg m best =
     fold (\<lambda>a. update_best (asg @ a) (m + matched_count a)) (assignments ns used) best"
proof (induction ns arbitrary: used asg m best)
  case (Cons n ns)
  have "(\<lambda>h best. if h \<in> used then best else visit ns (insert h used) (asg @ [Some h]) (m + 1) best) =
      (\<lambda>h. fold (\<lambda>a. update_best (asg @ a) (m + matched_count a))
        (if h \<in> used then [] else map ((#) (Some h)) (assignments ns (insert h used))))"
    by (intro ext) (simp add: Cons.IH fold_map o_def ac_simps)
  then show ?case
    by (simp add: Cons.IH fold_map o_def fold_concat_fold)
qed simp

definition valid_assignment :: "string list list \<Rightarrow> string set \<Rightarrow> string option list \<Rightarrow> bool" where
  "valid_assignment ns used a \<longleftrightarrow>
     list_all2 (\<lambda>v n. \<forall>h. v = Some h \<longrightarrow> h \<in> set n) a ns \<and>
     distinct (List.map_filter id a) \<and> set (List.map_filter id a) \<inter> used = {}"

lemma map_filter_id_simps [simp]:
  "List.map_filter id [] = []" "List.map_filter id (None # a) = List.map_filter id a"
  "List.map_filter id (Some h # a) = h # List.map_filter id a"
  by (simp_all add: List.map_filter_def)

lemma valid_assignment_simps [simp]:
  "valid_assignment [] used a \<longleftrightarrow> a = []"
  "valid_assignment (n # ns) used a \<longleftrightarrow>
     (\<exists>b. (a = None # b \<and> valid_assignment ns used b) \<or>
          (\<exists>h. a = Some h # b \<and> h \<in> set n \<and> h \<notin> used \<and> valid_assignment ns (insert h used) b))"
proof -
  show "valid_assignment [] used a \<longleftrightarrow> a = []" by (auto simp: valid_assignment_def)
  show "valid_assignment (n # ns) used a \<longleftrightarrow>
     (\<exists>b. (a = None # b \<and> valid_assignment ns used b) \<or>
          (\<exists>h. a = Some h # b \<and> h \<in> set n \<and> h \<notin> used \<and> valid_assignment ns (insert h used) b))"
  proof (cases a)
    case (Cons v b)
    then show ?thesis by (cases v) (auto simp: valid_assignment_def)
  qed (simp add: valid_assignment_def)
qed

lemma set_assignments: "set (assignments ns used) = {a. valid_assignment ns used a}"
proof (induction ns arbitrary: used)
  case (Cons n ns)
  show ?case by (auto simp: Cons.IH split: if_splits)
qed auto

section \<open>The best one\<close>

lemma py_less_iff_inject: "assignment_key a = assignment_key b \<longleftrightarrow> a = b"
proof -
  have "[65535] \<noteq> py h" for h
  proof
    assume "[65535] = py h"
    then obtain c where "(of_char c :: int) = 65535" unfolding py_def by (cases h) auto
    moreover have "(of_char c :: int) < 256" using nat_of_char_less_256 [of c] by (metis of_nat_of_char of_nat_less_iff of_nat_numeral)
    ultimately show False by simp
  qed
  then have "inj (\<lambda>v. case v of None \<Rightarrow> [65535] | Some h \<Rightarrow> py h)"
    by (auto simp: inj_def split: option.splits) (metis)+
  then show ?thesis by (simp add: assignment_key_def inj_map_eq_map)
qed

definition better_or_equal :: "best \<Rightarrow> string option list \<Rightarrow> bool" where
  "better_or_equal best a \<longleftrightarrow>
     (\<exists>s b. best = (s, Some b) \<and>
        (matched_count a < s \<or> (matched_count a = s \<and> assignment_key b \<le> assignment_key a)))"

text \<open>The size of an absent assignment is negative.\<close>

definition best_ok :: "best \<Rightarrow> bool" where
  "best_ok best \<longleftrightarrow> (snd best = None \<longrightarrow> fst best < 0)"

lemma update_best_ok: "best_ok best \<Longrightarrow> best_ok (update_best a m best)"
  by (auto simp: update_best_def best_ok_def split: prod.split)

lemma matched_count_nonneg [simp]: "0 \<le> matched_count a"
  by (simp add: matched_count_def)

lemma update_best_better:
  assumes "best_ok best"
  shows "better_or_equal (update_best a (matched_count a) best) a"
proof (cases best)
  case (Pair s b)
  then show ?thesis
    using assms matched_count_nonneg [of a]
    by (cases b) (auto simp: update_best_def better_or_equal_def best_ok_def simp del: matched_count_nonneg)
qed

lemma update_best_keeps:
  "better_or_equal best x \<Longrightarrow> better_or_equal (update_best a (matched_count a) best) x"
  by (auto simp: update_best_def better_or_equal_def)

lemma fold_update_best_keeps:
  "better_or_equal best x \<Longrightarrow> better_or_equal (fold (\<lambda>a. update_best a (matched_count a)) as best) x"
proof (induction as arbitrary: best)
  case (Cons a as)
  then show ?case using Cons.IH [of "update_best a (matched_count a) best"] update_best_keeps by simp
qed simp

lemma fold_update_best:
  "best_ok best \<Longrightarrow> x \<in> set as \<Longrightarrow>
   better_or_equal (fold (\<lambda>a. update_best a (matched_count a)) as best) x"
proof (induction as arbitrary: best)
  case (Cons a as)
  let ?b = "update_best a (matched_count a) best"
  show ?case
    using Cons.IH [of ?b] Cons.prems update_best_ok [of best a] update_best_better [of best a]
      fold_update_best_keeps [of ?b a as] by auto
qed simp

lemma fold_update_best_member:
  "fold (\<lambda>a. update_best a (matched_count a)) as best = best \<or>
   (\<exists>a \<in> set as. fold (\<lambda>a. update_best a (matched_count a)) as best = (matched_count a, Some a))"
proof (induction as arbitrary: best)
  case (Cons a as)
  have "update_best a (matched_count a) best \<in> {best, (matched_count a, Some a)}"
    by (auto simp: update_best_def split: prod.split)
  then show ?case using Cons.IH [of "update_best a (matched_count a) best"] by auto
qed simp

text \<open>What the search returns: the least assignment among the largest.\<close>

lemma maximum_matching_ok:
  obtains a where "maximum_matching_with_unmatched_branch ns =
       Inr \<lparr>rm_size = matched_count a, rm_assignment_by_ordinal = a\<rparr>"
    and "valid_assignment ns {} a"
    and "\<And>b. valid_assignment ns {} b \<Longrightarrow> matched_count b \<le> matched_count a"
    and "\<And>b. valid_assignment ns {} b \<Longrightarrow> matched_count b = matched_count a \<Longrightarrow>
       assignment_key a \<le> assignment_key b"
proof -
  let ?r = "fold (\<lambda>a. update_best a (matched_count a)) (assignments ns {}) (-1, None)"
  have r: "visit ns {} [] 0 (-1, None) = ?r" by (simp add: visit_fold)
  have all: "better_or_equal ?r x" if "valid_assignment ns {} x" for x
    using fold_update_best [of "(-1, None)" x "assignments ns {}"] that
    by (simp add: set_assignments best_ok_def)
  have "valid_assignment ns {} (replicate (length ns) None)" by (induction ns) auto
  from all [OF this] have "?r \<noteq> (-1, None)" by (auto simp: better_or_equal_def)
  with fold_update_best_member [of "assignments ns {}" "(-1, None)"] obtain a where
    a: "valid_assignment ns {} a" "?r = (matched_count a, Some a)" by (auto simp: set_assignments)
  show thesis
  proof (rule that [of a])
    show "maximum_matching_with_unmatched_branch ns =
        Inr \<lparr>rm_size = matched_count a, rm_assignment_by_ordinal = a\<rparr>"
      by (simp add: maximum_matching_with_unmatched_branch_def r a(2))
  next
    fix b assume b: "valid_assignment ns {} b"
    show "matched_count b \<le> matched_count a" "matched_count b = matched_count a \<Longrightarrow>
        assignment_key a \<le> assignment_key b"
      using all [OF b] unfolding a(2) by (auto simp: better_or_equal_def)
  qed (rule a(1))
qed

section \<open>Assignments are matchings\<close>

definition assignment_pairs :: "string option list \<Rightarrow> (nat \<times> string) set" where
  "assignment_pairs a = {(i, h). i < length a \<and> a ! i = Some h}"

definition assigned_ordinals :: "string option list \<Rightarrow> nat list" where
  "assigned_ordinals a = filter (\<lambda>i. a ! i \<noteq> None) [0..<length a]"

lemma map_filter_assigned: "List.map_filter id a = map (\<lambda>i. the (a ! i)) (assigned_ordinals a)"
proof -
  have "List.map_filter id a = map the (filter (\<lambda>v. v \<noteq> None) (map ((!) a) [0..<length a]))"
    by (simp add: List.map_filter_def map_nth)
  then show ?thesis by (simp add: assigned_ordinals_def filter_map o_def)
qed

lemma assignment_pairs_image: "assignment_pairs a = (\<lambda>i. (i, the (a ! i))) ` set (assigned_ordinals a)"
  by (auto simp: assignment_pairs_def assigned_ordinals_def image_iff)

lemma card_assignment_pairs: "int (card (assignment_pairs a)) = matched_count a"
proof -
  have "card (assignment_pairs a) = card (set (assigned_ordinals a))"
    unfolding assignment_pairs_image by (rule card_image) (simp add: inj_on_def)
  also have "\<dots> = length (assigned_ordinals a)"
    by (rule distinct_card) (simp add: assigned_ordinals_def)
  finally show ?thesis by (simp add: matched_count_def map_filter_assigned)
qed

lemma valid_assignment_matching:
  assumes "valid_assignment ns {} a"
  shows "is_matching ns (assignment_pairs a)"
proof -
  have len: "length a = length ns"
    and edge: "\<And>i h. i < length a \<Longrightarrow> a ! i = Some h \<Longrightarrow> h \<in> set (ns ! i)"
    and d: "distinct (map (\<lambda>i. the (a ! i)) (assigned_ordinals a))"
    using assms by (auto simp: valid_assignment_def map_filter_assigned list_all2_conv_all_nth)
  have "inj_on (\<lambda>i. the (a ! i)) (set (assigned_ordinals a))" using d by (simp add: distinct_map)
  then have "inj_on snd (assignment_pairs a)" unfolding assignment_pairs_image by (auto simp: inj_on_def)
  moreover have "inj_on fst (assignment_pairs a)" unfolding assignment_pairs_image by (auto simp: inj_on_def)
  moreover have "\<forall>(i, h) \<in> assignment_pairs a. i < length ns \<and> h \<in> set (ns ! i)"
    using len edge by (auto simp: assignment_pairs_def)
  ultimately show ?thesis unfolding is_matching_def by blast
qed

lemma matching_assignment:
  assumes m: "is_matching ns P"
  obtains b where "valid_assignment ns {} b" and "matched_count b = int (card P)"
    and "assignment_pairs b = P"
proof -
  define f where "f i = (if i \<in> fst ` P then Some (SOME h. (i, h) \<in> P) else None)" for i
  define b where "b = map f [0..<length ns]"
  have edge: "i < length ns \<and> h \<in> set (ns ! i)" if "(i, h) \<in> P" for i h
    using m that by (auto simp: is_matching_def)
  have fst: "h = h'" if "(i, h) \<in> P" "(i, h') \<in> P" for i h h'
    using m inj_onD [of fst P "(i, h)" "(i, h')"] that by (auto simp: is_matching_def)
  have f: "f i = Some h \<longleftrightarrow> (i, h) \<in> P" for i h
  proof
    assume "f i = Some h"
    then have "i \<in> fst ` P" "h = (SOME h. (i, h) \<in> P)" by (auto simp: f_def split: if_splits)
    then show "(i, h) \<in> P" by (auto intro: someI)
  next
    assume P: "(i, h) \<in> P"
    then have "(i, SOME h. (i, h) \<in> P) \<in> P" by (rule someI)
    from fst [OF this P] P show "f i = Some h" by (force simp: f_def)
  qed
  have pairs: "assignment_pairs b = P"
    using edge by (auto simp: assignment_pairs_def b_def f)
  have "distinct (map (\<lambda>i. the (b ! i)) (assigned_ordinals b))"
    unfolding distinct_map
  proof
    show "inj_on (\<lambda>i. the (b ! i)) (set (assigned_ordinals b))"
    proof (rule inj_onI)
      fix i j assume ij: "i \<in> set (assigned_ordinals b)" "j \<in> set (assigned_ordinals b)"
        and eq: "the (b ! i) = the (b ! j)"
      then obtain h h' where "(i, h) \<in> P" "(j, h') \<in> P" by (auto simp: assigned_ordinals_def b_def f)
      moreover from this have "f i = Some h" "f j = Some h'" by (simp_all add: f)
      moreover have "b ! i = f i" "b ! j = f j" using ij by (auto simp: assigned_ordinals_def b_def)
      ultimately have "(i, h) \<in> P" "(j, h) \<in> P" using eq by simp_all
      then show "i = j" using m inj_onD [of snd P "(i, h)" "(j, h)"] by (auto simp: is_matching_def)
    qed
  qed (simp add: assigned_ordinals_def)
  moreover have "list_all2 (\<lambda>v n. \<forall>h. v = Some h \<longrightarrow> h \<in> set n) b ns"
    using edge by (auto simp: list_all2_conv_all_nth b_def f)
  ultimately have "valid_assignment ns {} b" by (simp add: valid_assignment_def map_filter_assigned)
  moreover have "matched_count b = int (card P)" using card_assignment_pairs [of b] by (simp add: pairs)
  ultimately show thesis using that pairs by blast
qed

text \<open>The reference matcher returns a maximum matching.\<close>

lemma maximum_matching_matching:
  obtains m where "maximum_matching_with_unmatched_branch ns = Inr m"
    and "length (rm_assignment_by_ordinal m) = length ns"
    and "is_matching ns (assignment_pairs (rm_assignment_by_ordinal m))"
    and "int (card (assignment_pairs (rm_assignment_by_ordinal m))) = rm_size m"
    and "\<And>P. is_matching ns P \<Longrightarrow> int (card P) \<le> rm_size m"
    and "\<And>P. is_matching ns P \<Longrightarrow> int (card P) = rm_size m \<Longrightarrow>
      \<exists>b. assignment_pairs b = P \<and> length b = length ns \<and>
        assignment_key (rm_assignment_by_ordinal m) \<le> assignment_key b"
proof -
  obtain a where a: "maximum_matching_with_unmatched_branch ns =
       Inr \<lparr>rm_size = matched_count a, rm_assignment_by_ordinal = a\<rparr>" "valid_assignment ns {} a"
      "\<And>b. valid_assignment ns {} b \<Longrightarrow> matched_count b \<le> matched_count a"
      "\<And>b. valid_assignment ns {} b \<Longrightarrow> matched_count b = matched_count a \<Longrightarrow>
         assignment_key a \<le> assignment_key b"
    using maximum_matching_ok [of ns] by blast
  have len: "length b = length ns" if "valid_assignment ns {} b" for b
    using that by (auto simp: valid_assignment_def dest: list_all2_lengthD)
  show thesis
  proof (rule that [OF a(1)], simp_all add: len [OF a(2)] valid_assignment_matching [OF a(2)]
      card_assignment_pairs)
    fix P assume P: "is_matching ns P"
    from matching_assignment [OF P] obtain b where
      b: "valid_assignment ns {} b" "matched_count b = int (card P)" "assignment_pairs b = P" .
    show "int (card P) \<le> matched_count a" using a(3) [OF b(1)] b(2) by simp
    assume "int (card P) = matched_count a"
    then show "\<exists>b. assignment_pairs b = P \<and> length b = length ns \<and> assignment_key a \<le> assignment_key b"
      using a(4) [OF b(1)] b len by auto
  qed
qed

section \<open>Properties\<close>

text \<open>
  C29.  The reference matcher always returns; its assignment is a maximum matching of the neighbor
  lists, and the least one in ordinal order among all maximum matchings, an unmatched requirement
  counting as larger than every hash.
\<close>

theorem reference_matcher_is_maximum:
  "\<exists>m. maximum_matching_with_unmatched_branch ns = Inr m \<and>
     is_matching ns (assignment_pairs (rm_assignment_by_ordinal m)) \<and>
     int (card (assignment_pairs (rm_assignment_by_ordinal m))) = rm_size m \<and>
     (\<forall>P. is_matching ns P \<longrightarrow> int (card P) \<le> rm_size m) \<and>
     (\<forall>P. is_matching ns P \<and> int (card P) = rm_size m \<longrightarrow>
        (\<exists>b. assignment_pairs b = P \<and> length b = length ns \<and>
           assignment_key (rm_assignment_by_ordinal m) \<le> assignment_key b))"
  using maximum_matching_matching [of ns] by (metis (no_types, lifting))

theorem reference_matcher_is_maximum_witness:
  "\<exists>m. maximum_matching_with_unmatched_branch [[''x''], [''x'', ''y'']] = Inr m \<and>
     int (card {(0 :: nat, ''x''), (1, ''y'')}) \<le> rm_size m"
proof -
  have "is_matching [[''x''], [''x'', ''y'']] {(0, ''x''), (1, ''y'')}"
    by (auto simp: is_matching_def)
  then show ?thesis using reference_matcher_is_maximum [of "[[''x''], [''x'', ''y'']]"] by blast
qed

text \<open>
  C30.  The three matchers agree: on the neighbor lists of any valid masks, the backtracking oracle
  reports the size that the augmenting-path kernel constructs and the Hall kernel derives.
\<close>

theorem reference_matcher_agrees_with_kernels:
  assumes "validated_hash_masks n items = Inr out"
  shows "\<exists>m res st w. maximum_matching_with_unmatched_branch (candidate_lists (nat n) (sort out)) = Inr m \<and>
     affected_group_matching n items = Inr (Some res) \<and>
     initialize_hall_from_mapping n items = Inr (st, w) \<and>
     rm_size m = int (matching_size res) \<and> rm_size m = hs_matching_size st"
proof -
  let ?ns = "candidate_lists (nat n) (sort out)"
  obtain m where m: "maximum_matching_with_unmatched_branch ?ns = Inr m"
      "is_matching ?ns (assignment_pairs (rm_assignment_by_ordinal m))"
      "int (card (assignment_pairs (rm_assignment_by_ordinal m))) = rm_size m"
      "\<And>P. is_matching ?ns P \<Longrightarrow> int (card P) \<le> rm_size m"
    using maximum_matching_matching [of ?ns] by metis
  obtain res0 where res0: "affected_group_matching_from_canonical (nat n) (sort out) = Some res0"
    "affected_group_matching n items = Inr (Some (res0\<lparr>am_work :=
       work_add (am_work res0) (no_work\<lparr>wc_canonical_sort_items := int (length out)\<rparr>)\<rparr>))"
    and canon: "distinct (map fst (sort out))" "map_of (sort out) = map_of out"
    by (rule affected_group_matching_ok [OF assms])
  from affected_matching_total [of "nat n" "sort out"] res0(1) obtain
    k: "is_matching ?ns (pair_set (am_pairs res0))" "card (pair_set (am_pairs res0)) = matching_size res0"
      "\<forall>P. is_matching ?ns P \<longrightarrow> card P \<le> matching_size res0" by auto
  from m(4) [OF k(1)] k(2,3) m(2,3) have size: "rm_size m = int (matching_size res0)" by fastforce
  from initialize_hall_from_mapping_ok [OF assms] obtain w where
    w: "initialize_hall_from_mapping n items = Inr (hall_state_of (nat n) (map_of out), w)" by blast
  have "hs_matching_size (hall_state_of (nat n) (map_of out)) = int (matching_size res0)"
    using hall_size_is_maximum_matching [OF _ canon(1) res0(1)] validated_hash_masks_Inr(5) [OF assms]
    by (simp add: canon(2))
  with size w m(1) res0(2) show ?thesis by (auto simp: matching_size_def)
qed

theorem reference_matcher_agrees_with_kernels_witness:
  "\<exists>m res st w. maximum_matching_with_unmatched_branch
       (candidate_lists (nat 3) (sort [(''x'', 3), (''y'', 1), (''z'', 4)])) = Inr m \<and>
     affected_group_matching 3 demo_masks = Inr (Some res) \<and>
     initialize_hall_from_mapping 3 demo_masks = Inr (st, w) \<and>
     rm_size m = int (matching_size res) \<and> rm_size m = hs_matching_size st"
  by (rule reference_matcher_agrees_with_kernels [OF demo_masks_valid])

end
