(* ===== verification/GL_M5Reference.thy ===== *)
theory GL_M5Reference
  imports GL_M5Repository GL_M5Matcher GL_Reference
begin

text \<open>
  The full recomputation of \<open>m5/reference.py\<close>: requirement, group, claim and answer states of an M5
  repository at a snapshot point, and the validator of group certificates.
\<close>

section \<open>Requirement edges\<close>

definition canonical_requirement_task :: string where
  "canonical_requirement_task = ''verify_requirement_v1''"

type_synonym edges = "(string, (string, string list) pydict) pydict"

text \<open>The loop over the current observations that collects supporting texts per requirement.\<close>

definition add_edge :: "string \<Rightarrow> string \<Rightarrow> string \<Rightarrow> edges \<Rightarrow> edges" where
  "add_edge subject text_hash oid es =
     dset subject (dappend text_hash oid (dget_default es subject [])) es"

definition scan_requirement_observation ::
    "(8 word list \<Rightarrow> string) \<Rightarrow> m5_repo \<Rightarrow> nat \<Rightarrow> decision_policy \<Rightarrow> requirement_observation_record
      \<Rightarrow> edges \<Rightarrow> edges res" where
  "scan_requirement_observation sha256 r epoch policy t es =
     (let ob = ro_observation t in
      if \<not> ro_eligible_for_currency t then Inr es
      else if ob_task_type ob \<noteq> canonical_requirement_task then Inr es
      else
        bind_res (is_requirement_active r (ob_subject_id ob) epoch) (\<lambda>requirement_active.
        if \<not> requirement_active then Inr es
        else
          bind_res (is_chunk_active_at r (ob_chunk_version_id ob) epoch) (\<lambda>chunk_active.
          if \<not> chunk_active then Inr es
          else if decide ob policy \<noteq> SUPPORT then Inr es
          else
            bind_res (chunk_version_of (mr_base r) (ob_chunk_version_id ob)) (\<lambda>chunk.
            bind_res (normalized_text_hash_v1 sha256 (cv_text chunk)) (\<lambda>text_hash.
              Inr (add_edge (ob_subject_id ob) text_hash (ob_observation_id ob) es))))))"

definition requirement_state_of :: "string \<Rightarrow> (string, string list) pydict \<Rightarrow> requirement_state" where
  "requirement_state_of q edges =
     (let witness_hashes = sort (dkeys edges) in
      \<lparr>rs_requirement_version_id = q, rs_witness_hashes = witness_hashes,
       rs_supporting_observation_ids = sort (concat (dvalues edges)),
       rs_witness_count = length witness_hashes, rs_satisfied = (witness_hashes \<noteq> [])\<rparr>)"

definition sorted_edges :: "(string, string list) pydict \<Rightarrow> (string, string list) pydict" where
  "sorted_edges edges = map (\<lambda>(h, ids). (h, sort ids)) (sort_key fst edges)"

definition active_requirement_ids :: "m5_repo \<Rightarrow> nat \<Rightarrow> string list res" where
  "active_requirement_ids r epoch =
     bind_res (traverse (\<lambda>q. is_requirement_active r q epoch) (all_requirement_ids r)) (\<lambda>flags.
       Inr (map fst (filter snd (zip (all_requirement_ids r) flags))))"

definition active_requirement_edges ::
    "(8 word list \<Rightarrow> string) \<Rightarrow> m5_repo \<Rightarrow> snapshot_point
      \<Rightarrow> (edges \<times> (string, requirement_state) pydict \<times> m5_repo) res" where
  "active_requirement_edges sha256 r point =
     bind_res (policy_at r (fst point)) (\<lambda>policy.
     bind_res (current_requirement_observations r point) (\<lambda>(obs, r).
     bind_res (fold_res (scan_requirement_observation sha256 r (fst point) policy) obs []) (\<lambda>found.
     bind_res (active_requirement_ids r (fst point)) (\<lambda>active.
       Inr (map (\<lambda>q. (q, sorted_edges (dget_default found q []))) active,
            map (\<lambda>q. (q, requirement_state_of q (dget_default found q []))) active, r)))))"

definition derive_active_requirement_witnesses ::
    "(8 word list \<Rightarrow> string) \<Rightarrow> m5_repo \<Rightarrow> snapshot_point option
      \<Rightarrow> (requirement_witness list \<times> m5_repo) res" where
  "derive_active_requirement_witnesses sha256 r point =
     (let (snapshot, r) = (case point of None \<Rightarrow> current_point r | Some p \<Rightarrow> (p, r)) in
      bind_res (require_snapshot_point r snapshot) (\<lambda>r.
      bind_res (active_requirement_edges sha256 r snapshot) (\<lambda>(edges, _, r).
      bind_res (traverse (\<lambda>q.
          bind_res (requirement_of r q) (\<lambda>requirement.
            traverse (\<lambda>(h, ids). make_witness
                \<lparr>rw_requirement_version_id = q, rw_requirement_ordinal = er_ordinal requirement,
                 rw_text_hash = h, rw_active_observation_ids = ids\<rparr>)
              (sort_key fst (dget_default edges q []))))
          (sort (dkeys edges))) (\<lambda>ws.
        Inr (concat ws, r)))))"

section \<open>Group and claim states\<close>

record m5_reference_states =
  ms_requirements :: "(string, requirement_state) pydict"
  ms_groups :: "(string, group_state) pydict"
  ms_claims :: "(string, combined_claim_state) pydict"
  ms_answers :: "(string, answer_state) pydict"

definition group_neighbors :: "edges \<Rightarrow> string list \<Rightarrow> string list list" where
  "group_neighbors edges requirement_ids =
     map (\<lambda>q. sort (dkeys (dget_default edges q []))) requirement_ids"

definition compute_group_state :: "m5_repo \<Rightarrow> edges \<Rightarrow> string \<Rightarrow> group_state res" where
  "compute_group_state r edges g =
     bind_res (requirement_ids_for_group r g) (\<lambda>ids.
     bind_res (traverse (requirement_of r) ids) (\<lambda>requirements.
     let neighbors = group_neighbors edges (map er_requirement_version_id requirements) in
     bind_res (maximum_matching_with_unmatched_branch neighbors) (\<lambda>matching.
       Inr \<lparr>gs_group_version_id = g, gs_requirement_count = length requirements,
            gs_satisfied_count = length (filter (\<lambda>ns. ns \<noteq> []) neighbors),
            gs_matching_size = nat (rm_size matching),
            gs_complete = (requirements \<noteq> [] \<and> rm_size matching = int (length requirements))\<rparr>)))"

definition combined_claim_status :: "bool \<Rightarrow> bool \<Rightarrow> claim_status" where
  "combined_claim_status supported refuted =
     (if supported \<and> refuted then CONFLICTED
      else if supported then SUPPORTED
      else if refuted then REFUTED
      else UNSUPPORTED)"

definition combine_claim ::
    "m5_repo \<Rightarrow> (string, group_state) pydict \<Rightarrow> (string, claim_state) pydict \<Rightarrow> string
      \<Rightarrow> combined_claim_state res" where
  "combine_claim r groups direct_claims c =
     bind_res (lookup KeyError direct_claims c) (\<lambda>direct.
     let complete_group_ids =
           sort (filter (\<lambda>g. case dget groups g of None \<Rightarrow> False | Some s \<Rightarrow> gs_complete s)
             (group_ids_for_claim r c));
         supported = (0 < cs_support_count direct \<or> complete_group_ids \<noteq> []);
         refuted = (0 < cs_refute_count direct) in
     Inr \<lparr>cc_claim_id = c, cc_support_count = cs_support_count direct,
          cc_refute_count = cs_refute_count direct,
          cc_best_support_score = cs_best_support_score direct,
          cc_best_refute_score = cs_best_refute_score direct,
          cc_supporting_observation_ids = cs_supporting_observation_ids direct,
          cc_refuting_observation_ids = cs_refuting_observation_ids direct,
          cc_complete_group_count = length complete_group_ids,
          cc_complete_group_ids = complete_group_ids,
          cc_status = combined_claim_status supported refuted\<rparr>)"

text \<open>\<open>CombinedAnswerState\<close> has the fields of the base answer state.\<close>

fun required_claim_states ::
    "m5_repo \<Rightarrow> (string, combined_claim_state) pydict \<Rightarrow> string list
      \<Rightarrow> combined_claim_state list res" where
  "required_claim_states r states [] = Inr []"
| "required_claim_states r states (c # cs) =
     bind_res (claim_of (mr_base r) c) (\<lambda>cl.
       if cl_required cl then
         bind_res (lookup KeyError states c) (\<lambda>s.
         bind_res (required_claim_states r states cs) (\<lambda>ss. Inr (s # ss)))
       else required_claim_states r states cs)"

definition count_combined :: "claim_status \<Rightarrow> combined_claim_state list \<Rightarrow> int" where
  "count_combined s states = int (count_list (map cc_status states) s)"

definition combined_answer_state ::
    "m5_repo \<Rightarrow> string \<Rightarrow> (string, combined_claim_state) pydict \<Rightarrow> answer_state res" where
  "combined_answer_state r a claim_states =
     bind_res (required_claim_states r claim_states (claim_ids_of_answer (mr_base r) a)) (\<lambda>required.
     let n = (\<lambda>s. count_combined s required);
         status =
           (if 0 < n REFUTED then CONTRADICTED
            else if 0 < n CONFLICTED then ANSWER_CONFLICTED
            else if required \<noteq> [] \<and> n SUPPORTED = int (length required) then VALID
            else if 0 < n SUPPORTED then PARTIALLY_SUPPORTED
            else ANSWER_UNSUPPORTED) in
     Inr \<lparr>as_answer_version_id = a, as_required_claim_count = int (length required),
          as_supported_count = n SUPPORTED, as_unsupported_count = n UNSUPPORTED,
          as_refuted_count = n REFUTED, as_conflicted_count = n CONFLICTED, as_status = status\<rparr>)"

text \<open>A dictionary comprehension whose values may raise.\<close>

definition tabulate_res :: "('k \<Rightarrow> 'v res) \<Rightarrow> 'k list \<Rightarrow> ('k, 'v) pydict res" where
  "tabulate_res f ks = bind_res (traverse f ks) (\<lambda>vs. Inr (zip ks vs))"

definition compute_reference_states ::
    "(8 word list \<Rightarrow> string) \<Rightarrow> m5_repo \<Rightarrow> snapshot_point option
      \<Rightarrow> (m5_reference_states \<times> m5_repo) res" where
  "compute_reference_states sha256 r point =
     (let (snapshot, r) = (case point of None \<Rightarrow> current_point r | Some p \<Rightarrow> (p, r)) in
      bind_res (require_snapshot_point r snapshot) (\<lambda>r.
      let (current, r) = current_point r in
      if snapshot \<noteq> current then Inl ValueError
      else
        bind_res (active_requirement_edges sha256 r snapshot) (\<lambda>(edges, requirement_states, r).
        bind_res (tabulate_res (compute_group_state r edges) (active_group_ids r (fst snapshot))) (\<lambda>groups.
        bind_res (compute_all_states (mr_base r)) (\<lambda>(direct_claims, _).
        bind_res (tabulate_res (combine_claim r groups direct_claims) (all_claim_ids (mr_base r))) (\<lambda>claims.
        bind_res (tabulate_res (\<lambda>a. combined_answer_state r a claims) (all_answer_ids (mr_base r)))
          (\<lambda>answers.
          Inr (\<lparr>ms_requirements = requirement_states, ms_groups = groups, ms_claims = claims,
                ms_answers = answers\<rparr>, r))))))))"

section \<open>Certificates\<close>

definition build_reference_group_certificate ::
    "(8 word list \<Rightarrow> string) \<Rightarrow> m5_repo \<Rightarrow> string \<Rightarrow> snapshot_point option
      \<Rightarrow> (group_matching_certificate option \<times> m5_repo) res" where
  "build_reference_group_certificate sha256 r g point =
     (let (snapshot, r) = (case point of None \<Rightarrow> current_point r | Some p \<Rightarrow> (p, r)) in
      bind_res (require_snapshot_point r snapshot) (\<lambda>r.
      if \<not> is_group_active r g (fst snapshot) then Inr (None, r)
      else
        bind_res (active_requirement_edges sha256 r snapshot) (\<lambda>(edges, _, r).
        bind_res (requirement_ids_for_group r g) (\<lambda>ids.
        bind_res (maximum_matching_with_unmatched_branch (group_neighbors edges ids)) (\<lambda>matching.
        if rm_size matching \<noteq> int (length ids) then Inr (None, r)
        else if length (rm_assignment_by_ordinal matching) \<noteq> length ids then Inl ValueError
        else
          bind_res (traverse (\<lambda>(ordinal, q, h).
              bind_res (lookup KeyError edges q) (\<lambda>es.
              bind_res (lookup KeyError es h) (\<lambda>oids.
              if oids = [] then Inl IndexError
              else make_certificate_row
                \<lparr>cr_requirement_ordinal = ordinal, cr_requirement_version_id = q, cr_text_hash = h,
                 cr_selected_observation_id = hd oids\<rparr>)))
            (List.map_filter (\<lambda>(i, q, h). map_option (\<lambda>h. (i, q, h)) h)
              (zip (map int [0..<length ids]) (zip ids (rm_assignment_by_ordinal matching))))) (\<lambda>rows.
          bind_res (policy_at r (fst snapshot)) (\<lambda>policy.
          bind_res (make_group_certificate sha256
              \<lparr>gc_decision_policy_version = dp_policy_version policy, gc_group_version_id = g,
               gc_rows = rows, gc_certificate_version = ''m5-group-certificate-v1'',
               gc_certificate_digest = ''''\<rparr>) (\<lambda>c.
            Inr (Some c, r)))))))))"

text \<open>The checks of one certificate row against the requirement it must name.\<close>

definition validate_certificate_row ::
    "(8 word list \<Rightarrow> string) \<Rightarrow> decision_policy \<Rightarrow> snapshot_point \<Rightarrow> m5_repo
      \<Rightarrow> group_certificate_row \<times> string \<Rightarrow> (bool \<times> m5_repo) res" where
  "validate_certificate_row sha256 policy point r row_expected =
     (let (row, expected) = row_expected in
      if cr_requirement_version_id row \<noteq> expected then Inr (False, r)
      else
        bind_res (requirement_observation_of r (cr_selected_observation_id row)) (\<lambda>t.
        let ob = ro_observation t in
        if \<not> ro_eligible_for_currency t then Inr (False, r)
        else if ob_subject_kind ob \<noteq> REQUIREMENT then Inr (False, r)
        else if ob_subject_id ob \<noteq> cr_requirement_version_id row then Inr (False, r)
        else if ob_task_type ob \<noteq> canonical_requirement_task then Inr (False, r)
        else
          bind_res (currency_observation_id_at r (observation_key ob) point) (\<lambda>(holder, r).
          if holder \<noteq> Some (ob_observation_id ob) then Inr (False, r)
          else
            bind_res (is_chunk_active_at r (ob_chunk_version_id ob) (fst point)) (\<lambda>active.
            if \<not> active then Inr (False, r)
            else if decide ob policy \<noteq> SUPPORT then Inr (False, r)
            else
              bind_res (chunk_version_of (mr_base r) (ob_chunk_version_id ob)) (\<lambda>chunk.
              bind_res (normalized_text_hash_v1 sha256 (cv_text chunk)) (\<lambda>text_hash.
                Inr (text_hash = cr_text_hash row, r)))))))"

fun validate_certificate_rows ::
    "(8 word list \<Rightarrow> string) \<Rightarrow> decision_policy \<Rightarrow> snapshot_point \<Rightarrow> m5_repo
      \<Rightarrow> (group_certificate_row \<times> string) list \<Rightarrow> (bool \<times> m5_repo) res" where
  "validate_certificate_rows sha256 policy point r [] = Inr (True, r)"
| "validate_certificate_rows sha256 policy point r (row # rows) =
     bind_res (validate_certificate_row sha256 policy point r row) (\<lambda>(ok, r).
       if ok then validate_certificate_rows sha256 policy point r rows else Inr (False, r))"

text \<open>
  The body of \<open>validate_group_certificate\<close> and the handler around it; \<open>AssertionError\<close> is not caught.
\<close>

definition check_group_certificate ::
    "(8 word list \<Rightarrow> string) \<Rightarrow> m5_repo \<Rightarrow> group_matching_certificate \<Rightarrow> snapshot_point
      \<Rightarrow> (bool \<times> m5_repo) res" where
  "check_group_certificate sha256 r c snapshot =
     bind_res (require_snapshot_point r snapshot) (\<lambda>r.
     bind_res (policy_at r (fst snapshot)) (\<lambda>policy.
     if dp_policy_version policy \<noteq> gc_decision_policy_version c then Inr (False, r)
     else if \<not> is_group_active r (gc_group_version_id c) (fst snapshot) then Inr (False, r)
     else
       bind_res (requirement_ids_for_group r (gc_group_version_id c)) (\<lambda>ids.
       if length ids \<noteq> length (gc_rows c) then Inr (False, r)
       else validate_certificate_rows sha256 policy snapshot r (zip (gc_rows c) ids))))"

definition validate_group_certificate ::
    "(8 word list \<Rightarrow> string) \<Rightarrow> m5_repo \<Rightarrow> group_matching_certificate \<Rightarrow> snapshot_point option
      \<Rightarrow> bool res" where
  "validate_group_certificate sha256 r c point =
     (let (snapshot, r) = (case point of None \<Rightarrow> current_point r | Some p \<Rightarrow> (p, r)) in
      case check_group_certificate sha256 r c snapshot of
        Inl AssertionError \<Rightarrow> Inl AssertionError
      | Inl IndexError \<Rightarrow> Inl IndexError
      | Inl _ \<Rightarrow> Inr False
      | Inr (b, _) \<Rightarrow> Inr b)"

end
