(* ===== verification/GL_M5Events.thy ===== *)
theory GL_M5Events
  imports GL_M5Reference
begin

text \<open>
  The failure-atomic events of \<open>m5/events.py\<close>.  \<open>apply_m5_event\<close> works on a deep copy and adopts it
  at the end, so it returns its result or exception together with the repository it leaves.
\<close>

section \<open>Events\<close>

datatype m5_event =
    RegisterGroupEvent string evidence_group_version
  | ReplaceGroupEvent string string evidence_group_version
  | RetireGroupEvent string string
  | ObserveRequirementEvent string semantic_observation

fun m5_event_id :: "m5_event \<Rightarrow> string" where
  "m5_event_id (RegisterGroupEvent i _) = i"
| "m5_event_id (ReplaceGroupEvent i _ _) = i"
| "m5_event_id (RetireGroupEvent i _) = i"
| "m5_event_id (ObserveRequirementEvent i _) = i"

record m5_apply_result =
  ar_deltas :: "status_delta list"
  ar_replayed :: bool

text \<open>\<open>pack\<close> is the IEEE encoding of \<open>f64_field\<close>.\<close>

fun subject_kind_value :: "subject_kind \<Rightarrow> string" where
  "subject_kind_value CLAIM = ''claim''"
| "subject_kind_value REQUIREMENT = ''requirement''"

definition id_field :: "string \<Rightarrow> typed_fields res" where
  "id_field s = text_field (py s)"

fun m5_event_payload_digest ::
    "(8 word list \<Rightarrow> string) \<Rightarrow> (rat \<Rightarrow> py_text) \<Rightarrow> m5_event \<Rightarrow> string res" where
  "m5_event_payload_digest sha256 pack (RegisterGroupEvent i g) =
     bind_res (traverse id (
       [id_field (eg_group_family_id g), id_field (eg_owner_claim_id g),
        hash_value (eg_record_payload_hash g)])) (\<lambda>fs.
       stable_m5_digest sha256 (py ''m5-register-group-event-v1'') fs)"
| "m5_event_payload_digest sha256 pack (ReplaceGroupEvent i old successor) =
     bind_res (traverse id (
       [id_field old, hash_value (eg_record_payload_hash successor)])) (\<lambda>fs.
       stable_m5_digest sha256 (py ''m5-replace-group-event-v1'') fs)"
| "m5_event_payload_digest sha256 pack (RetireGroupEvent i g) =
     bind_res (traverse id ([id_field g])) (\<lambda>fs.
       stable_m5_digest sha256 (py ''m5-retire-group-event-v1'') fs)"
| "m5_event_payload_digest sha256 pack (ObserveRequirementEvent i ob) =
     bind_res (traverse id (
       [id_field (ob_observation_id ob), enum_field (py (subject_kind_value (ob_subject_kind ob))),
        id_field (ob_subject_id ob), id_field (ob_chunk_version_id ob), id_field (ob_task_type ob),
        f64_field pack (Finite (ob_support_score ob)), f64_field pack (Finite (ob_refute_score ob)),
        f64_field pack (Finite (ob_neutral_score ob)),
        id_field (ms_model_id (ob_producer ob)), id_field (ms_model_version (ob_producer ob)),
        id_field (ms_prompt_version (ob_producer ob)), hash_value (ob_input_hash ob)])) (\<lambda>fs.
       stable_m5_digest sha256 (py ''m5-observe-requirement-event-v1'') fs)"

section \<open>Application\<close>

fun m5_operation :: "m5_event \<Rightarrow> string" where
  "m5_operation (RegisterGroupEvent _ _) = ''register_group''"
| "m5_operation (ReplaceGroupEvent _ _ _) = ''replace_group''"
| "m5_operation (RetireGroupEvent _ _) = ''retire_group''"
| "m5_operation (ObserveRequirementEvent _ _) = ''observe_requirement''"

fun m5_target :: "m5_event \<Rightarrow> string" where
  "m5_target (RegisterGroupEvent _ g) = ''group_version='' @ eg_group_version_id g"
| "m5_target (ReplaceGroupEvent _ old successor) =
     ''old_group_version='' @ old @ '' new_group_version='' @ eg_group_version_id successor"
| "m5_target (RetireGroupEvent _ g) = ''group_version='' @ g"
| "m5_target (ObserveRequirementEvent _ ob) = ''observation='' @ ob_observation_id ob"

definition m5_reason :: "m5_event \<Rightarrow> string" where
  "m5_reason ev = ''event='' @ m5_event_id ev @ '' op='' @ m5_operation ev @ '' '' @ m5_target ev"

text \<open>The mutation of the staged copy at its new snapshot point.\<close>

fun m5_mutate :: "m5_repo \<Rightarrow> m5_event \<Rightarrow> snapshot_point \<Rightarrow> m5_repo res" where
  "m5_mutate staged (RegisterGroupEvent _ g) point = register_group staged g (fst point)"
| "m5_mutate staged (ReplaceGroupEvent _ old successor) point =
     replace_group staged old successor (fst point)"
| "m5_mutate staged (RetireGroupEvent i g) point = retire_group staged g (fst point) i"
| "m5_mutate staged (ObserveRequirementEvent _ ob) point =
     bind_res (register_requirement_observation staged ob point) (\<lambda>(_, staged). Inr staged)"

text \<open>The loop over the sorted identifiers; \<open>before[id]\<close> raises \<open>KeyError\<close> when it is absent.\<close>

fun m5_status_changes ::
    "string \<Rightarrow> string \<Rightarrow> string \<Rightarrow> ('s \<Rightarrow> string) \<Rightarrow> (string, 's) pydict \<Rightarrow> (string, 's) pydict
      \<Rightarrow> string list \<Rightarrow> status_delta list res" where
  "m5_status_changes ev ty reason status before after [] = Inr []"
| "m5_status_changes ev ty reason status before after (i # is) =
     bind_res (lookup KeyError before i) (\<lambda>old.
     bind_res (lookup KeyError after i) (\<lambda>new.
     bind_res (m5_status_changes ev ty reason status before after is) (\<lambda>rest.
       Inr ((if status old \<noteq> status new then
               [\<lparr>sd_event_id = ev, sd_object_type = ty, sd_object_id = i, sd_old_status = status old,
                 sd_new_status = status new, sd_reason = reason\<rparr>] else []) @ rest))))"

definition m5_deltas ::
    "m5_event \<Rightarrow> m5_reference_states \<Rightarrow> m5_reference_states \<Rightarrow> status_delta list res" where
  "m5_deltas ev before after =
     bind_res (m5_status_changes (m5_event_id ev) ''claim'' (m5_reason ev)
       (\<lambda>s. claim_status_value (cc_status s)) (ms_claims before) (ms_claims after)
       (sort (dkeys (ms_claims after)))) (\<lambda>claim_deltas.
     bind_res (m5_status_changes (m5_event_id ev) ''answer'' (m5_reason ev)
       (\<lambda>s. answer_status_value (as_status s)) (ms_answers before) (ms_answers after)
       (sort (dkeys (ms_answers after)))) (\<lambda>answer_deltas.
       Inr (claim_deltas @ answer_deltas)))"

text \<open>
  The staged work of an accepted event: everything between the deep copy and \<open>replace_with\<close>.  The
  injector is called with the phase and the staged copy; it may raise.
\<close>

definition m5_stage ::
    "(8 word list \<Rightarrow> string) \<Rightarrow> (string \<Rightarrow> m5_repo \<Rightarrow> unit res) \<Rightarrow> m5_repo \<Rightarrow> m5_event \<Rightarrow> string
      \<Rightarrow> m5_reference_states \<Rightarrow> (status_delta list \<times> m5_repo) res" where
  "m5_stage sha256 inject r ev payload_hash before =
     (let (point, staged) = begin_event_epoch r in
      bind_res (inject ''after_epoch_open'' staged) (\<lambda>_.
      bind_res (m5_mutate staged ev point) (\<lambda>staged.
      bind_res (inject ''after_mutation'' staged) (\<lambda>_.
      bind_res (compute_reference_states sha256 staged None) (\<lambda>(after, staged).
      bind_res (inject ''after_recompute'' staged) (\<lambda>_.
      bind_res (m5_deltas ev before after) (\<lambda>deltas.
      let staged = m5_record_event staged (m5_event_id ev) payload_hash deltas in
      bind_res (inject ''after_event_record'' staged) (\<lambda>_.
      bind_res (inject ''before_commit'' staged) (\<lambda>_.
        Inr (deltas, staged))))))))))"

definition apply_m5_event ::
    "(8 word list \<Rightarrow> string) \<Rightarrow> (rat \<Rightarrow> py_text) \<Rightarrow> (string \<Rightarrow> m5_repo \<Rightarrow> unit res) \<Rightarrow> m5_repo
      \<Rightarrow> m5_event \<Rightarrow> m5_apply_result res \<times> m5_repo" where
  "apply_m5_event sha256 pack inject r ev =
     (if blank (m5_event_id ev) then (Inl ValidationError, r)
      else
        case m5_event_payload_digest sha256 pack ev of
          Inl x \<Rightarrow> (Inl x, r)
        | Inr payload_hash \<Rightarrow>
            (case m5_recorded_event r (m5_event_id ev) of
               Some (recorded_hash, recorded_deltas) \<Rightarrow>
                 (if recorded_hash \<noteq> payload_hash then Inl EventConflictError
                  else Inr \<lparr>ar_deltas = recorded_deltas, ar_replayed = True\<rparr>, r)
             | None \<Rightarrow>
                 (case compute_reference_states sha256 r None of
                    Inl x \<Rightarrow> (Inl x, synchronize_base_head r)
                  | Inr (before, r) \<Rightarrow>
                      (case m5_stage sha256 inject r ev payload_hash before of
                         Inl x \<Rightarrow> (Inl x, r)
                       | Inr (deltas, staged) \<Rightarrow>
                           (Inr \<lparr>ar_deltas = deltas, ar_replayed = False\<rparr>, staged)))))"

end
