(* ===== verification/GL_M5Invariant.thy ===== *)
theory GL_M5Invariant
  imports GL_M5Events GL_Events
begin

text \<open>
  The well-formedness invariant of the M5 repository, and that its group writes, observation writes
  and epoch steps keep it.
\<close>

section \<open>The invariant\<close>

text \<open>What \<open>EvidenceGroupVersion.__post_init__\<close> has checked.\<close>

definition group_valid :: "evidence_group_version \<Rightarrow> bool" where
  "group_valid g \<longleftrightarrow> checks (group_checks g) = Inr ()"

definition closed_by :: "evidence_group_validity \<Rightarrow> nat \<Rightarrow> bool" where
  "closed_by v epoch \<longleftrightarrow> (\<exists>e \<le> epoch. gv_valid_to_epoch v = Some e)"

text \<open>Group versions, their validity and their requirements.\<close>

definition groups_inv :: "m5_repo \<Rightarrow> bool" where
  "groups_inv r \<longleftrightarrow>
     dict_ok (mr_groups r) \<and> dict_ok (mr_requirements r) \<and>
     dom (dget (mr_group_validity r)) = dom (dget (mr_groups r)) \<and>
     (\<forall>i g. dget (mr_groups r) i = Some g \<longrightarrow>
        eg_group_version_id g = i \<and> group_valid g \<and>
        dget (mr_requirements_by_group r) i = Some (map er_requirement_version_id (eg_requirements g)) \<and>
        (\<forall>q \<in> set (eg_requirements g). dget (mr_requirements r) (er_requirement_version_id q) = Some q)) \<and>
     (\<forall>i q. dget (mr_requirements r) i = Some q \<longrightarrow>
        er_requirement_version_id q = i \<and>
        (\<exists>g. dget (mr_groups r) (er_group_version_id q) = Some g \<and> q \<in> set (eg_requirements g))) \<and>
     (\<forall>i v. dget (mr_group_validity r) i = Some v \<longrightarrow>
        gv_valid_from_epoch v \<le> m5_epoch r \<and>
        (gv_valid_to_epoch v = None \<or> closed_by v (m5_epoch r)))"

text \<open>
  Versions that must not be active together: those of one family, and those of one claim with one
  semantic structure.  Their validity intervals are disjoint.
\<close>

definition rival :: "evidence_group_version \<Rightarrow> evidence_group_version \<Rightarrow> bool" where
  "rival g h \<longleftrightarrow> eg_group_family_id g = eg_group_family_id h \<or>
     eg_owner_claim_id g = eg_owner_claim_id h \<and> eg_semantic_structure_hash g = eg_semantic_structure_hash h"

definition rivals_apart ::
    "(string, evidence_group_version) pydict \<Rightarrow> (string, evidence_group_validity) pydict \<Rightarrow> bool" where
  "rivals_apart gs vs \<longleftrightarrow>
     (\<forall>i j g h v w epoch. dget gs i = Some g \<longrightarrow> dget gs j = Some h \<longrightarrow> i \<noteq> j \<longrightarrow> rival g h \<longrightarrow>
        dget vs i = Some v \<longrightarrow> dget vs j = Some w \<longrightarrow> validity_contains v epoch \<longrightarrow> \<not> validity_contains w epoch)"

text \<open>Families: one owner claim, a history of versions of which only the last can be open.\<close>

definition families_inv :: "m5_repo \<Rightarrow> bool" where
  "families_inv r \<longleftrightarrow>
     (\<forall>f x. dget (mr_families r) f = Some x \<longrightarrow>
        gf_group_family_id x = f \<and> gf_claim_id x \<in> dom (dget (claims (mr_base r))) \<and>
        f \<in> dom (dget (mr_group_versions_by_family r))) \<and>
     (\<forall>i g. dget (mr_groups r) i = Some g \<longrightarrow>
        (\<exists>x. dget (mr_families r) (eg_group_family_id g) = Some x \<and> gf_claim_id x = eg_owner_claim_id g) \<and>
        i \<in> set (dget_default (mr_group_versions_by_family r) (eg_group_family_id g) []) \<and>
        i \<in> set (dget_default (mr_groups_by_claim r) (eg_owner_claim_id g) [])) \<and>
     (\<forall>f vs. dget (mr_group_versions_by_family r) f = Some vs \<longrightarrow>
        distinct vs \<and> f \<in> dom (dget (mr_families r)) \<and>
        (\<forall>i \<in> set vs. \<exists>g. dget (mr_groups r) i = Some g \<and> eg_group_family_id g = f) \<and>
        (\<forall>i \<in> set (butlast vs). \<exists>v. dget (mr_group_validity r) i = Some v \<and> closed_by v (m5_epoch r))) \<and>
     (\<forall>c is. dget (mr_groups_by_claim r) c = Some is \<longrightarrow>
        distinct is \<and> (\<forall>i \<in> set is. \<exists>g. dget (mr_groups r) i = Some g \<and> eg_owner_claim_id g = c)) \<and>
     (\<forall>f \<in> dom (dget (mr_retirements r)).
        \<forall>i \<in> set (dget_default (mr_group_versions_by_family r) f []).
          \<exists>v. dget (mr_group_validity r) i = Some v \<and> closed_by v (m5_epoch r)) \<and>
     dom (dget (mr_retirements r)) \<subseteq> dom (dget (mr_families r)) \<and>
     rivals_apart (mr_groups r) (mr_group_validity r)"

text \<open>The currency history of a key: contiguous intervals, the last one open.\<close>

fun contiguous :: "observation_currency_interval list \<Rightarrow> bool" where
  "contiguous [] = False"
| "contiguous [iv] = (ci_valid_to iv = None)"
| "contiguous (iv # jv # ivs) =
     (ci_valid_to iv = Some (ci_valid_from jv) \<and> ci_valid_from iv < ci_valid_from jv \<and>
      contiguous (jv # ivs))"

definition history_ok ::
    "m5_repo \<Rightarrow> observation_key \<Rightarrow> observation_currency_interval list \<Rightarrow> bool" where
  "history_ok r k hs \<longleftrightarrow>
     contiguous hs \<and>
     (\<forall>iv \<in> set hs. ci_key iv = k \<and>
        (\<exists>i t. ci_observation_id iv = Some i \<and> dget (mr_requirement_observations r) i = Some t \<and>
           observation_key (ro_observation t) = k \<and> ro_eligible_for_currency t \<and>
           ro_produced_at t = ci_valid_from iv))"

definition m5_observations_inv :: "m5_repo \<Rightarrow> bool" where
  "m5_observations_inv r \<longleftrightarrow>
     dict_ok (mr_currency_history r) \<and>
     (\<forall>i t. dget (mr_requirement_observations r) i = Some t \<longrightarrow>
        ob_observation_id (ro_observation t) = i \<and> ob_subject_kind (ro_observation t) = REQUIREMENT \<and>
        ob_subject_id (ro_observation t) \<in> dom (dget (mr_requirements r)) \<and>
        ob_chunk_version_id (ro_observation t) \<in> dom (dget (chunk_versions (mr_base r))) \<and>
        has_observation_id (mr_base r) i) \<and>
     (\<forall>k hs. dget (mr_currency_history r) k = Some hs \<longrightarrow> history_ok r k hs) \<and>
     (\<forall>i t. dget (mr_requirement_observations r) i = Some t \<longrightarrow> ro_eligible_for_currency t \<longrightarrow>
        (\<exists>iv \<in> set (dget_default (mr_currency_history r) (observation_key (ro_observation t)) []).
           ci_observation_id iv = Some i))"

definition points_inv :: "m5_repo \<Rightarrow> bool" where
  "points_inv r \<longleftrightarrow>
     (\<exists>k \<le> m5_epoch r. dom (dget (mr_max_revision_by_epoch r)) = {..k} \<and>
        (k = m5_epoch r \<longrightarrow> dget (mr_max_revision_by_epoch r) k = Some (mr_semantic_revision r)))"

definition m5_inv :: "m5_repo \<Rightarrow> bool" where
  "m5_inv r \<longleftrightarrow>
     repo_inv (mr_base r) \<and> groups_inv r \<and> families_inv r \<and> m5_observations_inv r \<and> points_inv r"

lemma groups_invD:
  assumes "groups_inv r"
  shows "dict_ok (mr_groups r)" and "dict_ok (mr_requirements r)"
    and "dom (dget (mr_group_validity r)) = dom (dget (mr_groups r))"
    and "dget (mr_groups r) i = Some g \<Longrightarrow> eg_group_version_id g = i"
    and "dget (mr_groups r) i = Some g \<Longrightarrow> group_valid g"
    and "dget (mr_groups r) i = Some g \<Longrightarrow>
       dget (mr_requirements_by_group r) i = Some (map er_requirement_version_id (eg_requirements g))"
    and "dget (mr_groups r) i = Some g \<Longrightarrow> q \<in> set (eg_requirements g) \<Longrightarrow>
       dget (mr_requirements r) (er_requirement_version_id q) = Some q"
    and "dget (mr_requirements r) j = Some q \<Longrightarrow> er_requirement_version_id q = j"
    and "dget (mr_requirements r) j = Some q \<Longrightarrow>
       \<exists>g. dget (mr_groups r) (er_group_version_id q) = Some g \<and> q \<in> set (eg_requirements g)"
    and "dget (mr_group_validity r) i = Some v \<Longrightarrow> gv_valid_from_epoch v \<le> m5_epoch r"
    and "dget (mr_group_validity r) i = Some v \<Longrightarrow>
       gv_valid_to_epoch v = None \<or> closed_by v (m5_epoch r)"
  using assms unfolding groups_inv_def by blast+

lemma families_invD:
  assumes "families_inv r"
  shows "dget (mr_families r) f = Some x \<Longrightarrow> gf_group_family_id x = f"
    and "dget (mr_families r) f = Some x \<Longrightarrow> gf_claim_id x \<in> dom (dget (claims (mr_base r)))"
    and "dget (mr_families r) f = Some x \<Longrightarrow> f \<in> dom (dget (mr_group_versions_by_family r))"
    and "dget (mr_groups r) i = Some g \<Longrightarrow>
       \<exists>x. dget (mr_families r) (eg_group_family_id g) = Some x \<and> gf_claim_id x = eg_owner_claim_id g"
    and "dget (mr_groups r) i = Some g \<Longrightarrow>
       i \<in> set (dget_default (mr_group_versions_by_family r) (eg_group_family_id g) [])"
    and "dget (mr_groups r) i = Some g \<Longrightarrow>
       i \<in> set (dget_default (mr_groups_by_claim r) (eg_owner_claim_id g) [])"
    and "dget (mr_group_versions_by_family r) f = Some vs \<Longrightarrow> distinct vs"
    and "dget (mr_group_versions_by_family r) f = Some vs \<Longrightarrow> f \<in> dom (dget (mr_families r))"
    and "dget (mr_group_versions_by_family r) f = Some vs \<Longrightarrow> i \<in> set vs \<Longrightarrow>
       \<exists>g. dget (mr_groups r) i = Some g \<and> eg_group_family_id g = f"
    and "dget (mr_group_versions_by_family r) f = Some vs \<Longrightarrow> i \<in> set (butlast vs) \<Longrightarrow>
       \<exists>v. dget (mr_group_validity r) i = Some v \<and> closed_by v (m5_epoch r)"
    and "dget (mr_groups_by_claim r) c = Some is \<Longrightarrow> distinct is"
    and "dget (mr_groups_by_claim r) c = Some is \<Longrightarrow> i \<in> set is \<Longrightarrow>
       \<exists>g. dget (mr_groups r) i = Some g \<and> eg_owner_claim_id g = c"
    and "f \<in> dom (dget (mr_retirements r)) \<Longrightarrow>
       i \<in> set (dget_default (mr_group_versions_by_family r) f []) \<Longrightarrow>
       \<exists>v. dget (mr_group_validity r) i = Some v \<and> closed_by v (m5_epoch r)"
    and "dom (dget (mr_retirements r)) \<subseteq> dom (dget (mr_families r))"
    and "rivals_apart (mr_groups r) (mr_group_validity r)"
  using assms unfolding families_inv_def by blast+

lemma rivals_apartD:
  "rivals_apart gs vs \<Longrightarrow> dget gs i = Some g \<Longrightarrow> dget gs j = Some h \<Longrightarrow> i \<noteq> j \<Longrightarrow> rival g h \<Longrightarrow>
    dget vs i = Some v \<Longrightarrow> dget vs j = Some w \<Longrightarrow> validity_contains v epoch \<Longrightarrow> \<not> validity_contains w epoch"
  unfolding rivals_apart_def by blast

lemma rival_sym: "rival g h \<longleftrightarrow> rival h g"
  by (auto simp: rival_def)

lemma closed_not_contains: "closed_by v epoch \<Longrightarrow> epoch \<le> e \<Longrightarrow> \<not> validity_contains v e"
  by (auto simp: closed_by_def validity_contains_def)

text \<open>A new version opens where all its rivals are closed.\<close>

lemma rivals_apart_open:
  assumes apart: "rivals_apart gs vs" and v: "gv_valid_from_epoch v = epoch"
    and closed: "\<And>j h w. dget gs j = Some h \<Longrightarrow> rival g h \<Longrightarrow> dget vs j = Some w \<Longrightarrow> closed_by w epoch"
  shows "rivals_apart (dset i g gs) (dset i v vs)"
proof -
  have new: "\<not> (validity_contains v e \<and> validity_contains w e)"
    if "dget gs j = Some h" "rival g h" "dget vs j = Some w" for j h w e
    using closed_not_contains [OF closed [OF that]] v by (auto simp: validity_contains_def)
  show ?thesis
    unfolding rivals_apart_def
  proof (intro allI impI)
    fix j k x y a b e
    assume A: "dget (dset i g gs) j = Some x" "dget (dset i g gs) k = Some y" "j \<noteq> k" "rival x y"
      "dget (dset i v vs) j = Some a" "dget (dset i v vs) k = Some b" "validity_contains a e"
    consider "j = i" | "k = i" | "j \<noteq> i" "k \<noteq> i" by blast
    then show "\<not> validity_contains b e"
    proof cases
      case 1
      then show ?thesis using A new [of k y b e] by simp
    next
      case 2
      then show ?thesis using A new [of j x a e] rival_sym [of x y] by auto
    next
      case 3
      then show ?thesis using A rivals_apartD [OF apart, of j x k y a b e] by simp
    qed
  qed
qed

text \<open>Closing an open version only shortens its interval.\<close>

lemma rivals_apart_close:
  assumes apart: "rivals_apart gs vs" and v: "dget vs i = Some v" "gv_valid_to_epoch v = None"
  shows "rivals_apart gs (dset i (v\<lparr>gv_valid_to_epoch := Some epoch\<rparr>) vs)"
proof -
  let ?vs = "dset i (v\<lparr>gv_valid_to_epoch := Some epoch\<rparr>) vs"
  have shrink: "\<exists>a'. dget vs j = Some a' \<and> validity_contains a' e"
    if "dget ?vs j = Some a" "validity_contains a e" for j a e
    using that v by (auto simp: validity_contains_def split: if_splits)
  show ?thesis
    unfolding rivals_apart_def
  proof (intro allI impI notI)
    fix j k x y a b e
    assume A: "dget gs j = Some x" "dget gs k = Some y" "j \<noteq> k" "rival x y"
      "dget ?vs j = Some a" "dget ?vs k = Some b" "validity_contains a e" "validity_contains b e"
    from shrink [OF A(5,7)] shrink [OF A(6,8)] rivals_apartD [OF apart A(1-4)] show False by blast
  qed
qed

lemma group_validD:
  assumes "group_valid g"
  shows "1 \<le> length (eg_requirements g)" and "length (eg_requirements g) \<le> 8"
    and "distinct (map er_requirement_version_id (eg_requirements g))"
    and "q \<in> set (eg_requirements g) \<Longrightarrow> er_group_version_id q = eg_group_version_id g"
  using assms unfolding group_valid_def group_checks_def checks_Inr by (auto simp: Let_def)

section \<open>Group writes\<close>

lemma dget_fold_requirements:
  assumes "distinct (map f qs)"
  shows "q \<in> set qs \<Longrightarrow> dget (fold (\<lambda>q. dset (f q) q) qs d) (f q) = Some q"
    and "k \<notin> f ` set qs \<Longrightarrow> dget (fold (\<lambda>q. dset (f q) q) qs d) k = dget d k"
proof -
  show out: "dget (fold (\<lambda>q. dset (f q) q) qs d) k = dget d k" if "k \<notin> f ` set qs" for k d qs
    using that by (induction qs arbitrary: d) auto
  show "q \<in> set qs \<Longrightarrow> dget (fold (\<lambda>q. dset (f q) q) qs d) (f q) = Some q"
    using assms by (induction qs arbitrary: d) (auto simp: out)
qed

lemma dict_ok_fold_requirements: "dict_ok d \<Longrightarrow> dict_ok (fold (\<lambda>q. dset (f q) q) qs d)"
  by (induction qs arbitrary: d) auto

definition appended_group ::
    "m5_repo \<Rightarrow> evidence_group_version \<Rightarrow> string list \<Rightarrow> string list \<Rightarrow> m5_repo" where
  "appended_group r g vs owned =
     r\<lparr>mr_groups := dset (eg_group_version_id g) g (mr_groups r),
       mr_group_validity := dset (eg_group_version_id g) \<lparr>gv_group_version_id = eg_group_version_id g,
         gv_valid_from_epoch = m5_epoch r, gv_valid_to_epoch = None\<rparr> (mr_group_validity r),
       mr_group_versions_by_family := dset (eg_group_family_id g) (vs @ [eg_group_version_id g])
         (mr_group_versions_by_family r),
       mr_groups_by_claim := dset (eg_owner_claim_id g) (owned @ [eg_group_version_id g])
         (mr_groups_by_claim r),
       mr_requirements_by_group := dset (eg_group_version_id g)
         (map er_requirement_version_id (eg_requirements g)) (mr_requirements_by_group r),
       mr_requirements := fold (\<lambda>q. dset (er_requirement_version_id q) q) (eg_requirements g)
         (mr_requirements r)\<rparr>"

lemma appended_group_simps [simp]:
  "mr_base (appended_group r g vs owned) = mr_base r"
  "m5_epoch (appended_group r g vs owned) = m5_epoch r"
  "mr_semantic_revision (appended_group r g vs owned) = mr_semantic_revision r"
  "mr_max_revision_by_epoch (appended_group r g vs owned) = mr_max_revision_by_epoch r"
  "mr_families (appended_group r g vs owned) = mr_families r"
  "mr_retirements (appended_group r g vs owned) = mr_retirements r"
  "mr_requirement_observations (appended_group r g vs owned) = mr_requirement_observations r"
  "mr_currency_history (appended_group r g vs owned) = mr_currency_history r"
  by (simp_all add: appended_group_def m5_epoch_def)

lemma append_group_version_Inr:
  assumes "append_group_version r g (m5_epoch r) = Inr r'"
  obtains vs owned where "dget (mr_group_versions_by_family r) (eg_group_family_id g) = Some vs"
    and "dget (mr_groups_by_claim r) (eg_owner_claim_id g) = Some owned"
    and "r' = appended_group r g vs owned"
proof -
  from assms obtain vs owned where "dget (mr_group_versions_by_family r) (eg_group_family_id g) = Some vs"
    "dget (mr_groups_by_claim r) (eg_owner_claim_id g) = Some owned"
    by (auto simp: append_group_version_def Let_def bind_res_Inr_iff lookup_Inr_iff)
  with assms show thesis
    by (intro that) (simp_all add: append_group_version_def Let_def bind_res_Inr_iff lookup_def
        make_validity_def appended_group_def, elim conjE, erule sym)
qed

lemma append_group_version_groups_inv:
  assumes inv: "groups_inv r" and run: "append_group_version r g (m5_epoch r) = Inr r'"
    and g: "group_valid g" and fresh: "validate_new_version_identifiers r g = Inr ()"
  shows "groups_inv r'"
proof -
  note I = groups_invD [OF inv]
  let ?i = "eg_group_version_id g" and ?qs = "eg_requirements g"
  let ?rs = "fold (\<lambda>q. dset (er_requirement_version_id q) q) ?qs (mr_requirements r)"
  note D = dget_fold_requirements [OF group_validD(3) [OF g], where d = "mr_requirements r"]
  from fresh have newg: "dget (mr_groups r) ?i = None"
    and newq: "\<And>q. q \<in> set ?qs \<Longrightarrow> dget (mr_requirements r) (er_requirement_version_id q) = None"
    by (auto simp: validate_new_version_identifiers_def dmem_def split: if_splits)
  from append_group_version_Inr [OF run] obtain vs owned where r'_def: "r' = appended_group r g vs owned" .
  then have
    r': "mr_groups r' = dset ?i g (mr_groups r)"
      "mr_group_validity r' = dset ?i \<lparr>gv_group_version_id = ?i, gv_valid_from_epoch = m5_epoch r,
         gv_valid_to_epoch = None\<rparr> (mr_group_validity r)"
      "mr_requirements_by_group r' = dset ?i (map er_requirement_version_id ?qs) (mr_requirements_by_group r)"
      "mr_requirements r' = ?rs" "m5_epoch r' = m5_epoch r"
    unfolding r'_def by (simp_all add: appended_group_def m5_epoch_def)
  have old: "dget ?rs j = dget (mr_requirements r) j" if "dget (mr_requirements r) j \<noteq> None" for j
    using that newq by (intro D(2)) auto
  show ?thesis
    unfolding groups_inv_def r'
  proof (intro conjI allI impI ballI)
    show "dict_ok (dset ?i g (mr_groups r))" "dict_ok ?rs"
      using I(1,2) by (simp_all add: dict_ok_fold_requirements)
    show "dom (dget (dset ?i \<lparr>gv_group_version_id = ?i, gv_valid_from_epoch = m5_epoch r,
         gv_valid_to_epoch = None\<rparr> (mr_group_validity r))) = dom (dget (dset ?i g (mr_groups r)))"
      using I(3) by simp
  next
    fix j x assume x: "dget (dset ?i g (mr_groups r)) j = Some x"
    show "eg_group_version_id x = j" "group_valid x"
      "dget (dset ?i (map er_requirement_version_id ?qs) (mr_requirements_by_group r)) j =
         Some (map er_requirement_version_id (eg_requirements x))"
      using x g I(4,5,6) [of j x] by (auto split: if_splits)
    fix q assume q: "q \<in> set (eg_requirements x)"
    show "dget ?rs (er_requirement_version_id q) = Some q"
    proof (cases "j = ?i")
      case True
      then show ?thesis using x q D(1) by simp
    next
      case False
      then have "dget (mr_requirements r) (er_requirement_version_id q) = Some q"
        using x I(7) [of j x q] q by simp
      then show ?thesis using old by simp
    qed
  next
    fix j q assume q: "dget ?rs j = Some q"
    show "er_requirement_version_id q = j"
      "\<exists>x. dget (dset ?i g (mr_groups r)) (er_group_version_id q) = Some x \<and> q \<in> set (eg_requirements x)"
    proof (atomize (full), cases "j \<in> er_requirement_version_id ` set ?qs")
      case True
      then obtain q' where q': "q' \<in> set ?qs" "j = er_requirement_version_id q'" by blast
      then have "q = q'" using q D(1) [OF q'(1)] by simp
      then show "er_requirement_version_id q = j \<and>
          (\<exists>x. dget (dset ?i g (mr_groups r)) (er_group_version_id q) = Some x \<and> q \<in> set (eg_requirements x))"
        using q' group_validD(4) [OF g] by simp
    next
      case False
      then have o: "dget (mr_requirements r) j = Some q" using q D(2) by simp
      from I(9) [OF o] newg I(8) [OF o] show "er_requirement_version_id q = j \<and>
          (\<exists>x. dget (dset ?i g (mr_groups r)) (er_group_version_id q) = Some x \<and> q \<in> set (eg_requirements x))"
        by auto
    qed
  next
    fix j v assume "dget (dset ?i \<lparr>gv_group_version_id = ?i, gv_valid_from_epoch = m5_epoch r,
         gv_valid_to_epoch = None\<rparr> (mr_group_validity r)) j = Some v"
    then show "gv_valid_from_epoch v \<le> m5_epoch r" "gv_valid_to_epoch v = None \<or> closed_by v (m5_epoch r)"
      using I(10,11) [of j v] by (auto split: if_splits)
  qed
qed

lemma append_group_version_families_inv:
  assumes inv: "families_inv r" and groups: "groups_inv r"
    and run: "append_group_version r g (m5_epoch r) = Inr r'"
    and fam: "dget (mr_families r) (eg_group_family_id g) = Some x" "gf_claim_id x = eg_owner_claim_id g"
    and closed: "\<And>j. j \<in> set (dget_default (mr_group_versions_by_family r) (eg_group_family_id g) []) \<Longrightarrow>
      \<exists>v. dget (mr_group_validity r) j = Some v \<and> closed_by v (m5_epoch r)"
    and live: "eg_group_family_id g \<notin> dom (dget (mr_retirements r))"
    and fresh: "validate_new_version_identifiers r g = Inr ()"
    and dup: "\<And>j h v. dget (mr_groups r) j = Some h \<Longrightarrow> eg_owner_claim_id h = eg_owner_claim_id g \<Longrightarrow>
      eg_semantic_structure_hash h = eg_semantic_structure_hash g \<Longrightarrow> dget (mr_group_validity r) j = Some v \<Longrightarrow>
      closed_by v (m5_epoch r)"
  shows "families_inv r'"
proof -
  note I = families_invD [OF inv]
  let ?i = "eg_group_version_id g" and ?f = "eg_group_family_id g" and ?c = "eg_owner_claim_id g"
  from fresh have newg: "dget (mr_groups r) ?i = None"
    by (auto simp: validate_new_version_identifiers_def dmem_def split: if_splits)
  from append_group_version_Inr [OF run] obtain vs owned where
    vs: "dget (mr_group_versions_by_family r) ?f = Some vs"
    and owned: "dget (mr_groups_by_claim r) ?c = Some owned"
    and r'_def: "r' = appended_group r g vs owned" .
  let ?v = "\<lparr>gv_group_version_id = ?i, gv_valid_from_epoch = m5_epoch r, gv_valid_to_epoch = None\<rparr>"
  have r': "mr_groups r' = dset ?i g (mr_groups r)" "mr_group_validity r' = dset ?i ?v (mr_group_validity r)"
    "mr_group_versions_by_family r' = dset ?f (vs @ [?i]) (mr_group_versions_by_family r)"
    "mr_groups_by_claim r' = dset ?c (owned @ [?i]) (mr_groups_by_claim r)"
    "mr_families r' = mr_families r" "mr_retirements r' = mr_retirements r" "m5_epoch r' = m5_epoch r"
    "mr_base r' = mr_base r"
    unfolding r'_def by (simp_all add: appended_group_def m5_epoch_def)
  have newv: "?i \<notin> set vs" using I(9) [OF vs, of ?i] newg by auto
  have newo: "?i \<notin> set owned" using I(12) [OF owned, of ?i] newg by auto
  have valid: "\<exists>v. dget (dset ?i ?v (mr_group_validity r)) j = Some v \<and> closed_by v (m5_epoch r)"
    if "dget (mr_groups r) j \<noteq> None" "\<exists>v. dget (mr_group_validity r) j = Some v \<and> closed_by v (m5_epoch r)" for j
    using that newg by (cases "j = ?i") auto
  have group: "\<exists>g'. dget (dset ?i g (mr_groups r)) j = Some g' \<and> P g'"
    if "\<exists>g'. dget (mr_groups r) j = Some g' \<and> P g'" for j P
    using that newg by (cases "j = ?i") auto
  have rivals: "closed_by w (m5_epoch r)"
    if h: "dget (mr_groups r) j = Some h" "rival g h" "dget (mr_group_validity r) j = Some w" for j h w
  proof (cases "eg_group_family_id g = eg_group_family_id h")
    case True
    then show ?thesis using closed [of j] I(5) [OF h(1)] h(3) by auto
  next
    case False
    then show ?thesis using h dup [of j h w] by (simp add: rival_def)
  qed
  show ?thesis
    unfolding families_inv_def r'
  proof (intro conjI allI impI ballI)
    show "rivals_apart (dset ?i g (mr_groups r)) (dset ?i ?v (mr_group_validity r))"
      by (rule rivals_apart_open [OF I(15) _ rivals]) simp_all
  next
    fix f y assume "dget (mr_families r) f = Some y"
    then show "gf_group_family_id y = f" "gf_claim_id y \<in> dom (dget (claims (mr_base r)))"
      "f \<in> dom (dget (dset ?f (vs @ [?i]) (mr_group_versions_by_family r)))"
      using I(1-3) [of f y] by simp_all
  next
    fix j y assume y: "dget (dset ?i g (mr_groups r)) j = Some y"
    then show "\<exists>x. dget (mr_families r) (eg_group_family_id y) = Some x \<and> gf_claim_id x = eg_owner_claim_id y"
      using fam I(4) [of j y] by (auto split: if_splits)
    show "j \<in> set (dget_default (dset ?f (vs @ [?i]) (mr_group_versions_by_family r)) (eg_group_family_id y) [])"
      using y vs I(5) [of j y] by (auto simp: dget_default_def split: if_splits)
    show "j \<in> set (dget_default (dset ?c (owned @ [?i]) (mr_groups_by_claim r)) (eg_owner_claim_id y) [])"
      using y owned I(6) [of j y] by (auto simp: dget_default_def split: if_splits)
  next
    fix f ws assume ws: "dget (dset ?f (vs @ [?i]) (mr_group_versions_by_family r)) f = Some ws"
    then have old: "(f = ?f \<and> ws = vs @ [?i]) \<or> (f \<noteq> ?f \<and> dget (mr_group_versions_by_family r) f = Some ws)"
      by (auto split: if_splits)
    then show "distinct ws" using I(7) [OF vs] newv I(7) [of f ws] by auto
    show "f \<in> dom (dget (mr_families r))" using old I(8) [OF vs] I(8) [of f ws] by auto
    fix j
    show "\<exists>g'. dget (dset ?i g (mr_groups r)) j = Some g' \<and> eg_group_family_id g' = f" if "j \<in> set ws"
    proof (cases "j = ?i \<and> f = ?f")
      case False
      then have "\<exists>g'. dget (mr_groups r) j = Some g' \<and> eg_group_family_id g' = f"
        using old that I(9) [OF vs, of j] I(9) [of f ws j] by auto
      then show ?thesis by (rule group)
    qed simp
    show "\<exists>v. dget (dset ?i ?v (mr_group_validity r)) j = Some v \<and> closed_by v (m5_epoch r)"
      if j: "j \<in> set (butlast ws)"
    proof -
      from old have "(j \<in> set vs \<and> f = ?f) \<or> (dget (mr_group_versions_by_family r) f = Some ws \<and> j \<in> set ws)"
        using j by (auto dest: in_set_butlastD)
      then have "dget (mr_groups r) j \<noteq> None" using I(9) [OF vs, of j] I(9) [of f ws j] by auto
      moreover have "\<exists>v. dget (mr_group_validity r) j = Some v \<and> closed_by v (m5_epoch r)"
        using old j closed [of j] vs I(10) [of f ws j] by auto
      ultimately show ?thesis by (rule valid)
    qed
  next
    fix c js assume js: "dget (dset ?c (owned @ [?i]) (mr_groups_by_claim r)) c = Some js"
    then have old: "(c = ?c \<and> js = owned @ [?i]) \<or> (c \<noteq> ?c \<and> dget (mr_groups_by_claim r) c = Some js)"
      by (auto split: if_splits)
    then show "distinct js" using I(11) [OF owned] newo I(11) [of c js] by auto
    fix j assume "j \<in> set js"
    show "\<exists>g'. dget (dset ?i g (mr_groups r)) j = Some g' \<and> eg_owner_claim_id g' = c"
    proof (cases "j = ?i \<and> c = ?c")
      case False
      then have "\<exists>g'. dget (mr_groups r) j = Some g' \<and> eg_owner_claim_id g' = c"
        using old \<open>j \<in> set js\<close> I(12) [OF owned, of j] I(12) [of c js j] by auto
      then show ?thesis by (rule group)
    qed simp
  next
    fix f j assume f: "f \<in> dom (dget (mr_retirements r))"
      and j: "j \<in> set (dget_default (dset ?f (vs @ [?i]) (mr_group_versions_by_family r)) f [])"
    with live have "f \<noteq> ?f" by auto
    with j have j': "j \<in> set (dget_default (mr_group_versions_by_family r) f [])"
      by (simp add: dget_default_def)
    then obtain ws where "dget (mr_group_versions_by_family r) f = Some ws" "j \<in> set ws"
      by (cases "dget (mr_group_versions_by_family r) f") auto
    then have "dget (mr_groups r) j \<noteq> None" using I(9) [of f ws j] by auto
    then show "\<exists>v. dget (dset ?i ?v (mr_group_validity r)) j = Some v \<and> closed_by v (m5_epoch r)"
      using I(13) [OF f j'] by (rule valid)
  qed (rule I(14))
qed

text \<open>Closing a version at the current epoch.\<close>

lemma close_group_Inr:
  assumes "close_group r i epoch = Inr r'"
  obtains v where "dget (mr_group_validity r) i = Some v" and "gv_valid_from_epoch v < epoch"
    and "r' = r\<lparr>mr_group_validity := dset i (v\<lparr>gv_valid_to_epoch := Some epoch\<rparr>) (mr_group_validity r)\<rparr>"
  using assms by (auto simp: close_group_def make_validity_def bind_res_Inr_iff lookup_Inr_iff)

lemma active_not_closed:
  assumes "is_group_active r i epoch" and "dget (mr_group_validity r) i = Some v"
  shows "\<not> closed_by v epoch"
  using assms by (auto simp: is_group_active_def validity_contains_def closed_by_def)

lemma active_is_open:
  assumes "groups_inv r" and "is_group_active r i (m5_epoch r)" and "dget (mr_group_validity r) i = Some v"
  shows "gv_valid_to_epoch v = None"
  using groups_invD(11) [OF assms(1,3)] active_not_closed [OF assms(2,3)] by blast

lemma inactive_is_closed:
  assumes "groups_inv r" and "\<not> is_group_active r i (m5_epoch r)" and "dget (mr_group_validity r) i = Some v"
  shows "closed_by v (m5_epoch r)"
  using groups_invD(10,11) [OF assms(1,3)] assms(2,3) by (auto simp: is_group_active_def validity_contains_def)

lemma close_group_inv:
  assumes "close_group r i (m5_epoch r) = Inr r'"
  shows "groups_inv r \<Longrightarrow> groups_inv r'"
    and "families_inv r \<Longrightarrow> groups_inv r \<Longrightarrow> is_group_active r i (m5_epoch r) \<Longrightarrow> families_inv r'"
    and "\<exists>v. dget (mr_group_validity r') i = Some v \<and> closed_by v (m5_epoch r')"
proof -
  from close_group_Inr [OF assms] obtain v where v: "dget (mr_group_validity r) i = Some v"
    "gv_valid_from_epoch v < m5_epoch r"
    and r': "r' = r\<lparr>mr_group_validity := dset i (v\<lparr>gv_valid_to_epoch := Some (m5_epoch r)\<rparr>)
      (mr_group_validity r)\<rparr>" .
  let ?v = "v\<lparr>gv_valid_to_epoch := Some (m5_epoch r)\<rparr>"
  have e: "m5_epoch r' = m5_epoch r" by (simp add: r' m5_epoch_def)
  have c: "closed_by ?v (m5_epoch r)" by (simp add: closed_by_def)
  then show "\<exists>v. dget (mr_group_validity r') i = Some v \<and> closed_by v (m5_epoch r')"
    unfolding e by (simp add: r')
  show "groups_inv r'" if inv: "groups_inv r"
  proof -
    note I = groups_invD [OF inv]
    have "dom (dget (mr_group_validity r')) = dom (dget (mr_groups r'))"
      using I(3) v(1) by (auto simp: r')
    moreover have "gv_valid_from_epoch w \<le> m5_epoch r' \<and> (gv_valid_to_epoch w = None \<or> closed_by w (m5_epoch r'))"
      if "dget (mr_group_validity r') j = Some w" for j w
      using that I(10,11) [of j w] v(2) c unfolding e by (auto simp: r' split: if_splits)
    ultimately show ?thesis using I(1,2,4-9) unfolding groups_inv_def by (simp add: r')
  qed
  show "families_inv r'"
    if inv: "families_inv r" and groups: "groups_inv r" and active: "is_group_active r i (m5_epoch r)"
  proof -
    note I = families_invD [OF inv]
    have valid: "\<exists>w. dget (mr_group_validity r') j = Some w \<and> closed_by w (m5_epoch r')"
      if "\<exists>w. dget (mr_group_validity r) j = Some w \<and> closed_by w (m5_epoch r)" for j
      using that c unfolding e by (auto simp: r')
    have same: "mr_families r' = mr_families r" "mr_groups r' = mr_groups r"
      "mr_group_versions_by_family r' = mr_group_versions_by_family r"
      "mr_groups_by_claim r' = mr_groups_by_claim r" "mr_retirements r' = mr_retirements r"
      "mr_base r' = mr_base r" by (simp_all add: r')
    have apart: "rivals_apart (mr_groups r) (mr_group_validity r')"
      unfolding r' using rivals_apart_close [OF I(15) v(1) active_is_open [OF groups active v(1)]] by simp
    show ?thesis
      unfolding families_inv_def same
      by (intro conjI allI impI ballI)
        (rule I(14) apart | erule I(1-8) I(11) | erule (1) I(9) I(12) valid [OF I(10)] valid [OF I(13)])+
  qed
qed

text \<open>The three group events.\<close>

lemma m5_epoch_updates [simp]:
  "m5_epoch (r\<lparr>mr_families := a\<rparr>) = m5_epoch r"
  "m5_epoch (r\<lparr>mr_families := a, mr_group_versions_by_family := b, mr_groups_by_claim := c\<rparr>) = m5_epoch r"
  "m5_epoch (r\<lparr>mr_retirements := d\<rparr>) = m5_epoch r"
  by (simp_all add: m5_epoch_def)

lemma groups_inv_frame [simp]:
  "groups_inv (r\<lparr>mr_families := a, mr_group_versions_by_family := b, mr_groups_by_claim := c\<rparr>) = groups_inv r"
  "groups_inv (r\<lparr>mr_retirements := d\<rparr>) = groups_inv r"
  by (simp_all add: groups_inv_def)

definition with_family :: "m5_repo \<Rightarrow> evidence_group_version \<Rightarrow> nat \<Rightarrow> m5_repo" where
  "with_family r g epoch =
     r\<lparr>mr_families := dset (eg_group_family_id g) \<lparr>gf_group_family_id = eg_group_family_id g,
         gf_claim_id = eg_owner_claim_id g, gf_created_epoch = epoch\<rparr> (mr_families r),
       mr_group_versions_by_family := dset (eg_group_family_id g) [] (mr_group_versions_by_family r),
       mr_groups_by_claim := dset (eg_owner_claim_id g)
         (dget_default (mr_groups_by_claim r) (eg_owner_claim_id g) []) (mr_groups_by_claim r)\<rparr>"

lemma register_group_Inr:
  assumes "register_group r g epoch = Inr r'"
  shows "\<not> dmem (eg_group_family_id g) (mr_families r)"
    and "eg_owner_claim_id g \<in> dom (dget (claims (mr_base r)))"
    and "validate_new_version_identifiers r g = Inr ()"
    and "validate_no_active_semantic_duplicate r g epoch None = Inr ()"
    and "append_group_version (with_family r g epoch) g epoch = Inr r'"
  using assms
  by (auto simp: register_group_def with_family_def make_family_def claim_of_def lookup_def
      bind_res_Inr_iff split: if_splits option.splits)

lemma with_family_inv:
  assumes inv: "families_inv r" and new: "\<not> dmem (eg_group_family_id g) (mr_families r)"
    and owner: "eg_owner_claim_id g \<in> dom (dget (claims (mr_base r)))"
  shows "families_inv (with_family r g epoch)"
proof -
  note I = families_invD [OF inv]
  let ?r = "with_family r g epoch" and ?f = "eg_group_family_id g"
  have newf: "dget (mr_families r) ?f = None" using new by (simp add: dmem_def)
  then have newv: "dget (mr_group_versions_by_family r) ?f = None"
    using I(8) [of ?f] by (cases "dget (mr_group_versions_by_family r) ?f") auto
  have other: "eg_group_family_id y \<noteq> ?f" if "dget (mr_groups r) j = Some y" for j y
    using I(4) [OF that] newf by auto
  have same: "mr_groups ?r = mr_groups r" "mr_group_validity ?r = mr_group_validity r"
    "mr_retirements ?r = mr_retirements r" "m5_epoch ?r = m5_epoch r" "mr_base ?r = mr_base r"
    by (simp_all add: with_family_def)
  have by_claim: "dget_default (mr_groups_by_claim ?r) c [] = dget_default (mr_groups_by_claim r) c []" for c
    by (simp add: with_family_def dget_default_def)
  show ?thesis
    unfolding families_inv_def same
  proof (intro conjI allI impI ballI)
    fix f x assume "dget (mr_families ?r) f = Some x"
    then show "gf_group_family_id x = f" "gf_claim_id x \<in> dom (dget (claims (mr_base r)))"
      "f \<in> dom (dget (mr_group_versions_by_family ?r))"
      using owner I(1-3) [of f x] by (auto simp: with_family_def split: if_splits)
  next
    fix j y assume y: "dget (mr_groups r) j = Some y"
    show "\<exists>x. dget (mr_families ?r) (eg_group_family_id y) = Some x \<and> gf_claim_id x = eg_owner_claim_id y"
      "j \<in> set (dget_default (mr_group_versions_by_family ?r) (eg_group_family_id y) [])"
      using I(4,5) [OF y] other [OF y] by (auto simp: with_family_def dget_default_def)
    show "j \<in> set (dget_default (mr_groups_by_claim ?r) (eg_owner_claim_id y) [])"
      unfolding by_claim by (rule I(6) [OF y])
  next
    fix f ws assume ws: "dget (mr_group_versions_by_family ?r) f = Some ws"
    then have old: "(f = ?f \<and> ws = []) \<or> (f \<noteq> ?f \<and> dget (mr_group_versions_by_family r) f = Some ws)"
      by (auto simp: with_family_def split: if_splits)
    then show "distinct ws" "f \<in> dom (dget (mr_families ?r))"
      using I(7,8) [of f ws] by (auto simp: with_family_def)
    fix j
    show "\<exists>x. dget (mr_groups r) j = Some x \<and> eg_group_family_id x = f" if "j \<in> set ws"
      using old that I(9) [of f ws j] by auto
    show "\<exists>v. dget (mr_group_validity r) j = Some v \<and> closed_by v (m5_epoch r)" if "j \<in> set (butlast ws)"
      using old that I(10) [of f ws j] by auto
  next
    fix c js assume js: "dget (mr_groups_by_claim ?r) c = Some js"
    then have old: "js = dget_default (mr_groups_by_claim r) c []"
      using by_claim [of c] by simp
    then have "js = [] \<or> dget (mr_groups_by_claim r) c = Some js"
      by (cases "dget (mr_groups_by_claim r) c") auto
    then show "distinct js" using I(11) [of c js] by auto
    fix j assume "j \<in> set js"
    with \<open>js = [] \<or> dget (mr_groups_by_claim r) c = Some js\<close>
    show "\<exists>x. dget (mr_groups r) j = Some x \<and> eg_owner_claim_id x = c" using I(12) [of c js j] by auto
  next
    fix f j assume f: "f \<in> dom (dget (mr_retirements r))"
      and j: "j \<in> set (dget_default (mr_group_versions_by_family ?r) f [])"
    then have "j \<in> set (dget_default (mr_group_versions_by_family r) f [])"
      by (auto simp: with_family_def dget_default_def split: if_splits)
    with f show "\<exists>v. dget (mr_group_validity r) j = Some v \<and> closed_by v (m5_epoch r)" by (rule I(13))
  next
    show "dom (dget (mr_retirements r)) \<subseteq> dom (dget (mr_families ?r))"
      using I(14) by (auto simp: with_family_def)
    show "rivals_apart (mr_groups r) (mr_group_validity r)" by (rule I(15))
  qed
qed

text \<open>An accepted structure is not active under the claim, the excluded version apart.\<close>

lemma no_active_duplicate_Inr:
  "no_active_duplicate r g epoch excluding is = Inr () \<Longrightarrow> j \<in> set is \<Longrightarrow> excluding \<noteq> Some j \<Longrightarrow>
    dget (mr_groups r) j = Some h \<Longrightarrow> eg_semantic_structure_hash h = eg_semantic_structure_hash g \<Longrightarrow>
    \<not> is_group_active r j epoch"
  by (induction r g epoch excluding "is" rule: no_active_duplicate.induct)
    (auto simp: bind_res_Inr_iff lookup_Inr_iff split: if_splits)

lemma no_duplicate_closed:
  assumes groups: "groups_inv r" and families: "families_inv r"
    and valid: "validate_no_active_semantic_duplicate r g (m5_epoch r) excluding = Inr ()"
    and j: "dget (mr_groups r) j = Some h" "excluding \<noteq> Some j" "eg_owner_claim_id h = eg_owner_claim_id g"
      "eg_semantic_structure_hash h = eg_semantic_structure_hash g" "dget (mr_group_validity r) j = Some v"
  shows "closed_by v (m5_epoch r)"
proof (rule inactive_is_closed [OF groups _ j(5)])
  have "j \<in> set (dget_default (mr_groups_by_claim r) (eg_owner_claim_id g) [])"
    using families_invD(6) [OF families j(1)] j(3) by simp
  then show "\<not> is_group_active r j (m5_epoch r)"
    by (rule no_active_duplicate_Inr [OF valid [unfolded validate_no_active_semantic_duplicate_def] _ j(2,1,4)])
qed

lemma validate_identifiers_frame [simp]:
  "validate_new_version_identifiers (with_family r g epoch) h = validate_new_version_identifiers r h"
  "validate_new_version_identifiers (r\<lparr>mr_group_validity := x\<rparr>) h = validate_new_version_identifiers r h"
  by (simp_all add: validate_new_version_identifiers_def with_family_def)

lemma with_family_simps [simp]:
  "m5_epoch (with_family r g epoch) = m5_epoch r"
  "groups_inv (with_family r g epoch) = groups_inv r"
  "mr_retirements (with_family r g epoch) = mr_retirements r"
  by (simp_all add: with_family_def)

lemma register_group_inv:
  assumes groups: "groups_inv r" and families: "families_inv r" and g: "group_valid g"
    and run: "register_group r g (m5_epoch r) = Inr r'"
  shows "groups_inv r'" and "families_inv r'"
proof -
  note R = register_group_Inr [OF run]
  let ?r = "with_family r g (m5_epoch r)"
  have app: "append_group_version ?r g (m5_epoch ?r) = Inr r'" using R(5) by simp
  have fresh: "validate_new_version_identifiers ?r g = Inr ()" using R(3) by simp
  from groups have gr: "groups_inv ?r" by simp
  show "groups_inv r'" by (rule append_group_version_groups_inv [OF gr app g fresh])
  have "eg_group_family_id g \<notin> dom (dget (mr_retirements r))"
    using families_invD(14) [OF families] R(1) by (auto simp: dmem_def)
  then have live: "eg_group_family_id g \<notin> dom (dget (mr_retirements ?r))" by simp
  have fam: "dget (mr_families ?r) (eg_group_family_id g) =
      Some \<lparr>gf_group_family_id = eg_group_family_id g, gf_claim_id = eg_owner_claim_id g,
            gf_created_epoch = m5_epoch r\<rparr>"
    and none: "dget_default (mr_group_versions_by_family ?r) (eg_group_family_id g) [] = []"
    by (simp_all add: with_family_def dget_default_def)
  show "families_inv r'"
  proof (rule append_group_version_families_inv
      [OF with_family_inv [OF families R(1,2)] gr app fam _ _ live fresh])
    fix j h v
    assume "dget (mr_groups ?r) j = Some h" "eg_owner_claim_id h = eg_owner_claim_id g"
      "eg_semantic_structure_hash h = eg_semantic_structure_hash g" "dget (mr_group_validity ?r) j = Some v"
    then show "closed_by v (m5_epoch ?r)"
      using no_duplicate_closed [OF groups families R(4), of j h v] by (simp add: with_family_def)
  qed (simp_all add: none)
qed

lemma set_last_butlast: "xs \<noteq> [] \<Longrightarrow> set xs = insert (last xs) (set (butlast xs))"
  by (subst append_butlast_last_id [symmetric]) (auto simp del: append_butlast_last_id)

text \<open>Once the last version of a family is closed, all its versions are.\<close>

lemma close_last_closes_family:
  assumes inv: "families_inv r" "groups_inv r" "is_group_active r i (m5_epoch r)"
    and run: "close_group r i (m5_epoch r) = Inr r'"
    and vs: "dget (mr_group_versions_by_family r) f = Some vs" and i: "vs \<noteq> []" "last vs = i"
    and j: "j \<in> set (dget_default (mr_group_versions_by_family r') f [])"
  shows "\<exists>v. dget (mr_group_validity r') j = Some v \<and> closed_by v (m5_epoch r')"
proof -
  from close_group_Inr [OF run] obtain v where
    r': "r' = r\<lparr>mr_group_validity := dset i (v\<lparr>gv_valid_to_epoch := Some (m5_epoch r)\<rparr>) (mr_group_validity r)\<rparr>" .
  have vs': "dget (mr_group_versions_by_family r') f = Some vs" using vs by (simp add: r')
  with j have "j \<in> set vs" by simp
  then consider "j = i" | "j \<in> set (butlast vs)" using set_last_butlast [OF i(1)] i(2) by auto
  then show ?thesis
  proof cases
    case 1
    then show ?thesis using close_group_inv(3) [OF run] by simp
  next
    case 2
    from families_invD(10) [OF close_group_inv(2) [OF run inv] vs' 2] show ?thesis .
  qed
qed

lemma active_is_last:
  assumes groups: "groups_inv r" and families: "families_inv r"
    and active: "is_group_active r i (m5_epoch r)" and g: "dget (mr_groups r) i = Some g"
  obtains vs where "dget (mr_group_versions_by_family r) (eg_group_family_id g) = Some vs"
    and "vs \<noteq> []" and "last vs = i"
proof -
  note I = families_invD [OF families]
  from I(5) [OF g] obtain vs where vs: "dget (mr_group_versions_by_family r) (eg_group_family_id g) = Some vs"
    "i \<in> set vs" by (cases "dget (mr_group_versions_by_family r) (eg_group_family_id g)") auto
  have "i \<notin> set (butlast vs)" using I(10) [OF vs(1)] active_not_closed [OF active] by blast
  moreover from vs(2) have "vs \<noteq> []" by auto
  ultimately have "last vs = i" using vs(2) set_last_butlast [of vs] by auto
  then show thesis using that vs(1) \<open>vs \<noteq> []\<close> by blast
qed

lemma if_Inl_Inr_iff: "(if c then Inl e else m) = Inr y \<longleftrightarrow> \<not> c \<and> m = Inr y"
  by simp

lemma replace_group_Inr:
  assumes "replace_group r i s epoch = Inr r'"
  obtains old x vs r1 u w where "dget (mr_groups r) i = Some old" and "is_group_active r i epoch"
    and "dget (mr_families r) (eg_group_family_id old) = Some x"
    and "dget (mr_retirements r) (gf_group_family_id x) = None"
    and "eg_group_family_id s = gf_group_family_id x" and "eg_owner_claim_id s = gf_claim_id x"
    and "eg_supersedes_group_version_id s = Some i"
    and "dget (mr_group_versions_by_family r) (gf_group_family_id x) = Some vs" and "vs \<noteq> []"
    and "last vs = i" and "validate_new_version_identifiers r s = Inr u"
    and "validate_no_active_semantic_duplicate r s epoch (Some i) = Inr w"
    and "close_group r i epoch = Inr r1" and "append_group_version r1 s epoch = Inr r'"
  using assms
  unfolding replace_group_def group_of_def family_of_def bind_res_Inr_iff lookup_Inr_iff if_Inl_Inr_iff
    dmem_def not_not
  by (elim exE conjE) (rule that, assumption+)

lemma close_group_frame:
  assumes "close_group r i epoch = Inr r'"
  shows "m5_epoch r' = m5_epoch r" and "mr_families r' = mr_families r"
    and "mr_retirements r' = mr_retirements r" and "mr_base r' = mr_base r"
    and "validate_new_version_identifiers r' g = validate_new_version_identifiers r g"
    and "mr_groups r' = mr_groups r" and "mr_requirements r' = mr_requirements r"
    and "mr_group_versions_by_family r' = mr_group_versions_by_family r"
    and "mr_requirement_observations r' = mr_requirement_observations r"
    and "mr_currency_history r' = mr_currency_history r"
    and "mr_max_revision_by_epoch r' = mr_max_revision_by_epoch r"
    and "mr_semantic_revision r' = mr_semantic_revision r"
proof -
  from close_group_Inr [OF assms] obtain v where
    r': "r' = r\<lparr>mr_group_validity := dset i (v\<lparr>gv_valid_to_epoch := Some epoch\<rparr>) (mr_group_validity r)\<rparr>" .
  show "m5_epoch r' = m5_epoch r" "mr_families r' = mr_families r" "mr_retirements r' = mr_retirements r"
    "mr_base r' = mr_base r" "mr_groups r' = mr_groups r" "mr_requirements r' = mr_requirements r"
    "validate_new_version_identifiers r' g = validate_new_version_identifiers r g"
    "mr_group_versions_by_family r' = mr_group_versions_by_family r"
    "mr_requirement_observations r' = mr_requirement_observations r"
    "mr_currency_history r' = mr_currency_history r"
    "mr_max_revision_by_epoch r' = mr_max_revision_by_epoch r"
    "mr_semantic_revision r' = mr_semantic_revision r"
    unfolding r' by (simp_all add: m5_epoch_def)
qed

lemma replace_group_inv:
  assumes groups: "groups_inv r" and families: "families_inv r" and s: "group_valid s"
    and run: "replace_group r i s (m5_epoch r) = Inr r'"
  shows "groups_inv r'" and "families_inv r'"
proof -
  from replace_group_Inr [OF run] obtain old x vs r1 u w where
    old: "dget (mr_groups r) i = Some old" and active: "is_group_active r i (m5_epoch r)" and x: "dget (mr_families r) (eg_group_family_id old) = Some x"
    and live: "dget (mr_retirements r) (gf_group_family_id x) = None"
    and same: "eg_group_family_id s = gf_group_family_id x" "eg_owner_claim_id s = gf_claim_id x"
    and vs: "dget (mr_group_versions_by_family r) (gf_group_family_id x) = Some vs" "vs \<noteq> []" "last vs = i"
    and fresh: "validate_new_version_identifiers r s = Inr u"
    and dup: "validate_no_active_semantic_duplicate r s (m5_epoch r) (Some i) = Inr w"
    and close: "close_group r i (m5_epoch r) = Inr r1"
    and app: "append_group_version r1 s (m5_epoch r) = Inr r'" .
  from close_group_Inr [OF close] obtain v0 where
    r1: "r1 = r\<lparr>mr_group_validity := dset i (v0\<lparr>gv_valid_to_epoch := Some (m5_epoch r)\<rparr>) (mr_group_validity r)\<rparr>" .
  note F = close_group_frame [OF close]
  have app1: "append_group_version r1 s (m5_epoch r1) = Inr r'" using app by (simp add: F)
  have fresh1: "validate_new_version_identifiers r1 s = Inr ()" using fresh by (simp add: F)
  note g1 = close_group_inv(1) [OF close groups]
  show "groups_inv r'" by (rule append_group_version_groups_inv [OF g1 app1 s fresh1])
  have xid: "gf_group_family_id x = eg_group_family_id old" by (rule families_invD(1) [OF families x])
  have fam: "dget (mr_families r1) (eg_group_family_id s) = Some x" using x by (simp add: F same xid)
  have owner: "gf_claim_id x = eg_owner_claim_id s" by (simp add: same)
  have live1: "eg_group_family_id s \<notin> dom (dget (mr_retirements r1))" using live by (simp add: F same domIff)
  show "families_inv r'"
  proof (rule append_group_version_families_inv
      [OF close_group_inv(2) [OF close families groups active] g1 app1 fam owner _ live1 fresh1])
    fix j h v
    assume j: "dget (mr_groups r1) j = Some h" "eg_owner_claim_id h = eg_owner_claim_id s"
      "eg_semantic_structure_hash h = eg_semantic_structure_hash s" "dget (mr_group_validity r1) j = Some v"
    show "closed_by v (m5_epoch r1)"
    proof (cases "j = i")
      case True
      then show ?thesis using close_group_inv(3) [OF close] j(4) by simp
    next
      case False
      then have "dget (mr_groups r) j = Some h" "dget (mr_group_validity r) j = Some v"
        using j(1,4) by (simp_all add: r1)
      then show ?thesis
        unfolding F(1) using no_duplicate_closed [OF groups families _ _ _ j(2,3)] dup False by simp
    qed
  qed (simp add: same close_last_closes_family [OF families groups active close vs])
qed

lemma retire_group_Inr:
  assumes "retire_group r i epoch ev = Inr r'"
  obtains g r1 where "dget (mr_groups r) i = Some g" and "is_group_active r i epoch"
    and "eg_group_family_id g \<notin> dom (dget (mr_retirements r))" and "close_group r i epoch = Inr r1"
    and "r' = r1\<lparr>mr_retirements := dset (eg_group_family_id g) \<lparr>rt_group_family_id = eg_group_family_id g,
          rt_retired_epoch_id = epoch, rt_event_id = ev\<rparr> (mr_retirements r1)\<rparr>"
  using assms
  by (auto simp: retire_group_def group_of_def lookup_Inr_iff bind_res_Inr_iff dmem_def make_retirement_def
      split: if_splits)

lemma retire_group_inv:
  assumes groups: "groups_inv r" and families: "families_inv r"
    and run: "retire_group r i (m5_epoch r) ev = Inr r'"
  shows "groups_inv r'" and "families_inv r'"
proof -
  from retire_group_Inr [OF run] obtain g r1 where g: "dget (mr_groups r) i = Some g"
    and active: "is_group_active r i (m5_epoch r)" and close: "close_group r i (m5_epoch r) = Inr r1"
    and r': "r' = r1\<lparr>mr_retirements := dset (eg_group_family_id g) \<lparr>rt_group_family_id = eg_group_family_id g,
          rt_retired_epoch_id = m5_epoch r, rt_event_id = ev\<rparr> (mr_retirements r1)\<rparr>" .
  show "groups_inv r'" using close_group_inv(1) [OF close groups] by (simp add: r')
  have f1: "families_inv r1" by (rule close_group_inv(2) [OF close families groups active])
  note I = families_invD [OF f1]
  have g1: "dget (mr_groups r1) i = Some g" using g by (simp add: close_group_frame [OF close])
  have same: "mr_families r' = mr_families r1" "mr_groups r' = mr_groups r1" "mr_base r' = mr_base r1"
    "mr_group_versions_by_family r' = mr_group_versions_by_family r1" "m5_epoch r' = m5_epoch r1"
    "mr_groups_by_claim r' = mr_groups_by_claim r1" "mr_group_validity r' = mr_group_validity r1"
    by (simp_all add: r')
  obtain vs where vs: "dget (mr_group_versions_by_family r) (eg_group_family_id g) = Some vs"
    "vs \<noteq> []" "last vs = i" by (rule active_is_last [OF groups families active g])
  have retired: "dom (dget (mr_retirements r')) = insert (eg_group_family_id g) (dom (dget (mr_retirements r1)))"
    by (simp add: r')
  show "families_inv r'"
    unfolding families_inv_def same retired
  proof (intro conjI allI impI ballI)
    show "insert (eg_group_family_id g) (dom (dget (mr_retirements r1))) \<subseteq> dom (dget (mr_families r1))"
      using I(14) I(4) [OF g1] by auto
    fix f j assume f: "f \<in> insert (eg_group_family_id g) (dom (dget (mr_retirements r1)))"
      and j: "j \<in> set (dget_default (mr_group_versions_by_family r1) f [])"
    show "\<exists>v. dget (mr_group_validity r1) j = Some v \<and> closed_by v (m5_epoch r1)"
    proof (cases "f = eg_group_family_id g")
      case True
      then show ?thesis using close_last_closes_family [OF families groups active close vs] j by simp
    next
      case False
      with f have "f \<in> dom (dget (mr_retirements r1))" by blast
      then show ?thesis using j by (rule I(13))
    qed
  qed (rule I(15) | erule I(1-8) I(11) | erule (1) I(9) I(10) I(12))+
qed

section \<open>Observation writes\<close>

lemma m5_observations_invD:
  assumes "m5_observations_inv r"
  shows "dict_ok (mr_currency_history r)"
    and "dget (mr_requirement_observations r) i = Some t \<Longrightarrow> ob_observation_id (ro_observation t) = i"
    and "dget (mr_requirement_observations r) i = Some t \<Longrightarrow>
       ob_subject_kind (ro_observation t) = REQUIREMENT"
    and "dget (mr_requirement_observations r) i = Some t \<Longrightarrow>
       ob_subject_id (ro_observation t) \<in> dom (dget (mr_requirements r))"
    and "dget (mr_requirement_observations r) i = Some t \<Longrightarrow>
       ob_chunk_version_id (ro_observation t) \<in> dom (dget (chunk_versions (mr_base r)))"
    and "dget (mr_requirement_observations r) i = Some t \<Longrightarrow> has_observation_id (mr_base r) i"
    and "dget (mr_currency_history r) k = Some hs \<Longrightarrow> history_ok r k hs"
    and "dget (mr_requirement_observations r) i = Some t \<Longrightarrow> ro_eligible_for_currency t \<Longrightarrow>
       \<exists>iv \<in> set (dget_default (mr_currency_history r) (observation_key (ro_observation t)) []).
         ci_observation_id iv = Some i"
  using assms unfolding m5_observations_inv_def by blast+

lemma m5_observations_inv_mono:
  assumes inv: "m5_observations_inv r"
    and same: "mr_currency_history r' = mr_currency_history r"
      "mr_requirement_observations r' = mr_requirement_observations r"
    and grow: "dom (dget (mr_requirements r)) \<subseteq> dom (dget (mr_requirements r'))"
      "dom (dget (chunk_versions (mr_base r))) \<subseteq> dom (dget (chunk_versions (mr_base r')))"
      "\<And>i. has_observation_id (mr_base r) i \<Longrightarrow> has_observation_id (mr_base r') i"
  shows "m5_observations_inv r'"
proof -
  note I = m5_observations_invD [OF inv]
  show ?thesis
    unfolding m5_observations_inv_def same
  proof (intro conjI allI impI)
    fix i t assume t: "dget (mr_requirement_observations r) i = Some t"
    show "ob_subject_id (ro_observation t) \<in> dom (dget (mr_requirements r'))"
      "ob_chunk_version_id (ro_observation t) \<in> dom (dget (chunk_versions (mr_base r')))"
      "has_observation_id (mr_base r') i"
      using I(4-6) [OF t] grow by blast+
  next
    fix k hs assume "dget (mr_currency_history r) k = Some hs"
    from I(7) [OF this] show "history_ok r' k hs" by (simp add: history_ok_def same)
  qed (fact I(1) | erule I(2,3) | erule (1) I(8))+
qed

lemma contiguous_nonempty: "contiguous hs \<Longrightarrow> hs \<noteq> []"
  by auto

lemma contiguous_last_open: "contiguous hs \<Longrightarrow> ci_valid_to (last hs) = None"
  by (induction hs rule: contiguous.induct) auto

lemma contiguous_extend:
  "contiguous (hs @ [l]) \<Longrightarrow> ci_valid_from l < p \<Longrightarrow> ci_valid_from iv = p \<Longrightarrow> ci_valid_to iv = None \<Longrightarrow>
   contiguous (hs @ [l\<lparr>ci_valid_to := Some p\<rparr>, iv])"
  by (induction hs rule: contiguous.induct) auto

definition opened_interval :: "semantic_observation \<Rightarrow> snapshot_point \<Rightarrow> observation_currency_interval" where
  "opened_interval ob point =
     \<lparr>ci_key = observation_key ob, ci_observation_id = Some (ob_observation_id ob),
      ci_valid_from = point, ci_valid_to = None\<rparr>"

lemma extend_history_Inr:
  assumes ext: "extend_history hs ob point = Inr hs'" and hs: "hs = [] \<or> contiguous hs"
  shows "hs' = (if hs = [] then [opened_interval ob point]
     else butlast hs @ [(last hs)\<lparr>ci_valid_to := Some point\<rparr>, opened_interval ob point])"
proof (cases "hs = []")
  case True
  then show ?thesis using ext by (auto simp: extend_history_def make_currency_interval_def res_simps opened_interval_def)
next
  case False
  then have "ci_valid_to (last hs) = None" using hs contiguous_last_open by blast
  then show ?thesis
    using ext False
    by (auto simp: extend_history_def make_currency_interval_def res_simps opened_interval_def)
qed

lemma history_ok_extend:
  assumes ext: "extend_history hs ob point = Inr hs'" and hs: "hs = [] \<or> history_ok r k hs"
    and later: "hs \<noteq> [] \<Longrightarrow> ci_valid_from (last hs) < point" and k: "observation_key ob = k"
    and obs: "mr_requirement_observations r' = dset (ob_observation_id ob) t (mr_requirement_observations r)"
    and t: "ro_observation t = ob" "ro_eligible_for_currency t" "ro_produced_at t = point"
    and new: "dget (mr_requirement_observations r) (ob_observation_id ob) = None"
  shows "history_ok r' k hs'"
    and "set (map ci_observation_id hs') = insert (Some (ob_observation_id ob)) (set (map ci_observation_id hs))"
proof -
  let ?iv = "opened_interval ob point"
  have cont: "hs = [] \<or> contiguous hs" using hs by (auto simp: history_ok_def)
  note hs' = extend_history_Inr [OF ext cont]
  have iv: "ci_key ?iv = k" "ci_observation_id ?iv = Some (ob_observation_id ob)" "ci_valid_from ?iv = point"
    "ci_valid_to ?iv = None" using k by (simp_all add: opened_interval_def)
  have witness: "\<exists>i t. ci_observation_id ?iv = Some i \<and> dget (mr_requirement_observations r') i = Some t \<and>
      observation_key (ro_observation t) = k \<and> ro_eligible_for_currency t \<and> ro_produced_at t = ci_valid_from ?iv"
    using iv t k by (simp add: obs)
  have old: "ci_key jv = k \<and> (\<exists>i t. ci_observation_id jv = Some i \<and>
      dget (mr_requirement_observations r') i = Some t \<and> observation_key (ro_observation t) = k \<and>
      ro_eligible_for_currency t \<and> ro_produced_at t = ci_valid_from jv)" if "jv \<in> set hs" "hs \<noteq> []" for jv
  proof -
    from hs that obtain i u where "ci_key jv = k" "ci_observation_id jv = Some i"
      "dget (mr_requirement_observations r) i = Some u" "observation_key (ro_observation u) = k"
      "ro_eligible_for_currency u" "ro_produced_at u = ci_valid_from jv" by (auto simp: history_ok_def)
    moreover from this new have "i \<noteq> ob_observation_id ob" by auto
    ultimately show ?thesis by (simp add: obs)
  qed
  show "history_ok r' k hs'"
  proof (cases "hs = []")
    case True
    then show ?thesis using hs' witness iv by (simp add: history_ok_def)
  next
    case False
    let ?l = "last hs"
    have split: "hs = butlast hs @ [?l]" using False by simp
    have "contiguous (butlast hs @ [?l])" using cont False by simp
    from contiguous_extend [OF this later [OF False] iv(3,4)]
    have "contiguous hs'" using hs' False by simp
    moreover have "jv \<in> set hs' \<Longrightarrow> jv \<in> set hs \<or> jv = ?l\<lparr>ci_valid_to := Some point\<rparr> \<or> jv = ?iv" for jv
      using hs' False by (auto dest: in_set_butlastD)
    moreover have "?l \<in> set hs" using False by simp
    ultimately show ?thesis
      using old [OF _ False] old [of ?l] witness iv(1) False unfolding history_ok_def by fastforce
  qed
  show "set (map ci_observation_id hs') = insert (Some (ob_observation_id ob)) (set (map ci_observation_id hs))"
  proof (cases "hs = []")
    case False
    then show ?thesis using hs' iv(2) set_last_butlast [OF False] by (auto simp: image_iff)
  qed (use hs' iv(2) in simp)
qed

section \<open>Snapshot points\<close>

definition at_head :: "m5_repo \<Rightarrow> bool" where
  "at_head r \<longleftrightarrow>
     dom (dget (mr_max_revision_by_epoch r)) = {..m5_epoch r} \<and>
     dget (mr_max_revision_by_epoch r) (m5_epoch r) = Some (mr_semantic_revision r)"

lemma at_head_points_inv: "at_head r \<Longrightarrow> points_inv r"
  by (auto simp: at_head_def points_inv_def)

lemma dget_fold_zero: "dget (fold (\<lambda>e. dset e 0) es d) k = (if k \<in> set es then Some 0 else dget d k)"
  by (induction es arbitrary: d) auto

lemma synchronize_base_head_ok:
  assumes "points_inv r"
  obtains m s where "synchronize_base_head r = r\<lparr>mr_max_revision_by_epoch := m, mr_semantic_revision := s\<rparr>"
    and "at_head (synchronize_base_head r)"
proof -
  from assms obtain k where k: "k \<le> m5_epoch r" "dom (dget (mr_max_revision_by_epoch r)) = {..k}"
    "k = m5_epoch r \<Longrightarrow> dget (mr_max_revision_by_epoch r) k = Some (mr_semantic_revision r)"
    by (auto simp: points_inv_def)
  have keys: "set (dkeys (mr_max_revision_by_epoch r)) = {..k}" unfolding set_dkeys by (rule k(2))
  show thesis
  proof (cases "k = m5_epoch r")
    case True
    then have "dmem (m5_epoch r) (mr_max_revision_by_epoch r)" using k(2) by (auto simp: dmem_def)
    then have "synchronize_base_head r = r" by (simp add: synchronize_base_head_def)
    moreover have "r = r\<lparr>mr_max_revision_by_epoch := mr_max_revision_by_epoch r,
        mr_semantic_revision := mr_semantic_revision r\<rparr>" by simp
    moreover have "at_head r" using k True by (simp add: at_head_def)
    ultimately show thesis using that by metis
  next
    case False
    then have "\<not> dmem (m5_epoch r) (mr_max_revision_by_epoch r)"
      using k(1) keys unfolding dmem_iff by simp
    moreover have "Max {..k} = k" by (rule Max_eqI) auto
    moreover have "dkeys (mr_max_revision_by_epoch r) \<noteq> []" using k(2) by auto
    ultimately have sync: "synchronize_base_head r =
        r\<lparr>mr_max_revision_by_epoch := fold (\<lambda>e. dset e 0) [Suc k..<Suc (m5_epoch r)]
          (mr_max_revision_by_epoch r), mr_semantic_revision := 0\<rparr>"
      unfolding synchronize_base_head_def Let_def keys by simp
    have "m5_epoch (synchronize_base_head r) = m5_epoch r" by (simp add: sync m5_epoch_def)
    moreover have "dom (\<lambda>j. if j \<in> set [Suc k..<Suc (m5_epoch r)] then Some 0
        else dget (mr_max_revision_by_epoch r) j) = {..m5_epoch r}"
    proof -
      have some: "(\<exists>y. dget (mr_max_revision_by_epoch r) j = Some y) \<longleftrightarrow> j \<le> k" for j
        using k(2) by (auto simp: dom_def set_eq_iff)
      show ?thesis
      proof (rule set_eqI)
        fix j
        show "j \<in> dom (\<lambda>j. if j \<in> set [Suc k..<Suc (m5_epoch r)] then Some 0
            else dget (mr_max_revision_by_epoch r) j) \<longleftrightarrow> j \<in> {..m5_epoch r}"
          using k(1) by (simp add: domIff some del: upt_Suc) arith
      qed
    qed
    moreover have "dget (mr_max_revision_by_epoch (synchronize_base_head r)) =
        (\<lambda>j. if j \<in> set [Suc k..<Suc (m5_epoch r)] then Some 0 else dget (mr_max_revision_by_epoch r) j)"
      by (rule ext) (simp add: sync dget_fold_zero del: upt_Suc)
    moreover have "mr_semantic_revision (synchronize_base_head r) = 0" by (simp add: sync)
    moreover have "m5_epoch r \<in> set [Suc k..<Suc (m5_epoch r)]" using k(1) False by simp
    ultimately have "at_head (synchronize_base_head r)"
      unfolding at_head_def by (simp del: upt_Suc)
    with sync show thesis by (rule that)
  qed
qed

lemma at_head_sync [simp]: "at_head r \<Longrightarrow> synchronize_base_head r = r"
  by (auto simp: at_head_def synchronize_base_head_def dmem_def)

lemma at_head_points:
  assumes "at_head r"
  shows "current_point r = ((m5_epoch r, mr_semantic_revision r), r)"
    and "is_known_snapshot_point r (m5_epoch r, mr_semantic_revision r) = (True, r)"
    and "require_snapshot_point r (m5_epoch r, mr_semantic_revision r) = Inr r"
  using assms
  by (simp_all add: current_point_def is_known_snapshot_point_def require_snapshot_point_def at_head_def
      at_head_sync)

lemma points_frame [simp]:
  "groups_inv (r\<lparr>mr_max_revision_by_epoch := m, mr_semantic_revision := s\<rparr>) = groups_inv r"
  "families_inv (r\<lparr>mr_max_revision_by_epoch := m, mr_semantic_revision := s\<rparr>) = families_inv r"
  "m5_observations_inv (r\<lparr>mr_max_revision_by_epoch := m, mr_semantic_revision := s\<rparr>) = m5_observations_inv r"
  by (simp_all add: groups_inv_def families_inv_def m5_observations_inv_def history_ok_def m5_epoch_def)

lemma m5_inv_update_points:
  assumes "m5_inv r"
  shows "m5_inv (synchronize_base_head r)" and "at_head (synchronize_base_head r)"
proof -
  from assms have "points_inv r" by (simp add: m5_inv_def)
  then obtain m s where
    s: "synchronize_base_head r = r\<lparr>mr_max_revision_by_epoch := m, mr_semantic_revision := s\<rparr>"
    and h: "at_head (synchronize_base_head r)" by (rule synchronize_base_head_ok)
  show "at_head (synchronize_base_head r)" by (rule h)
  show "m5_inv (synchronize_base_head r)"
    using assms at_head_points_inv [OF h] unfolding s m5_inv_def by simp
qed

lemma synchronize_base_head_frame:
  "mr_base (synchronize_base_head r) = mr_base r"
  "m5_epoch (synchronize_base_head r) = m5_epoch r"
  "mr_groups (synchronize_base_head r) = mr_groups r"
  "mr_requirements (synchronize_base_head r) = mr_requirements r"
  by (simp_all add: synchronize_base_head_def Let_def m5_epoch_def)

lemma advance_epoch_simps:
  "snd (advance_epoch b) = current_epoch b + 1"
  "fst (advance_epoch b) = b\<lparr>current_epoch := current_epoch b + 1\<rparr>"
  by (simp_all add: advance_epoch_def)

text \<open>The base may move on without the sidecar: later epochs, more chunks, more identifiers.\<close>

definition base_grows :: "repo \<Rightarrow> repo \<Rightarrow> bool" where
  "base_grows b b' \<longleftrightarrow>
     current_epoch b \<le> current_epoch b' \<and>
     dom (dget (claims b)) \<subseteq> dom (dget (claims b')) \<and>
     dom (dget (chunk_versions b)) \<subseteq> dom (dget (chunk_versions b')) \<and>
     (\<forall>i. has_observation_id b i \<longrightarrow> has_observation_id b' i)"

lemma base_growsD:
  assumes "base_grows b b'"
  shows "current_epoch b \<le> current_epoch b'" and "c \<in> dom (dget (claims b)) \<Longrightarrow> c \<in> dom (dget (claims b'))"
    and "dom (dget (chunk_versions b)) \<subseteq> dom (dget (chunk_versions b'))"
    and "has_observation_id b i \<Longrightarrow> has_observation_id b' i"
  using assms unfolding base_grows_def by blast+

lemma closed_by_mono: "closed_by v e \<Longrightarrow> e \<le> e' \<Longrightarrow> closed_by v e'"
  by (auto simp: closed_by_def intro: order_trans)

lemma m5_inv_base:
  assumes inv: "m5_inv r" and b: "repo_inv b" and grow: "base_grows (mr_base r) b"
  shows "m5_inv (r\<lparr>mr_base := b\<rparr>)"
proof -
  let ?r = "r\<lparr>mr_base := b\<rparr>"
  from inv have parts: "groups_inv r" "families_inv r" "m5_observations_inv r" "points_inv r"
    by (simp_all add: m5_inv_def)
  note G = groups_invD [OF parts(1)] and F = families_invD [OF parts(2)] and B = base_growsD [OF grow]
  have e: "m5_epoch r \<le> m5_epoch ?r" using B(1) by (simp add: m5_epoch_def)
  have same: "mr_groups ?r = mr_groups r" "mr_requirements ?r = mr_requirements r"
    "mr_group_validity ?r = mr_group_validity r" "mr_requirements_by_group ?r = mr_requirements_by_group r"
    "mr_families ?r = mr_families r" "mr_retirements ?r = mr_retirements r"
    "mr_group_versions_by_family ?r = mr_group_versions_by_family r"
    "mr_groups_by_claim ?r = mr_groups_by_claim r" "mr_base ?r = b" by simp_all
  have "groups_inv ?r"
    unfolding groups_inv_def same
  proof (intro conjI allI impI ballI)
    fix i v assume v: "dget (mr_group_validity r) i = Some v"
    show "gv_valid_from_epoch v \<le> m5_epoch ?r" using G(10) [OF v] e by (rule order_trans)
    show "gv_valid_to_epoch v = None \<or> closed_by v (m5_epoch ?r)"
      using G(11) [OF v] closed_by_mono [OF _ e] by blast
  qed (fact G(1-3) | erule G(4-6) G(8,9) | erule (1) G(7))+
  moreover have valid: "\<exists>v. dget (mr_group_validity r) i = Some v \<and> closed_by v (m5_epoch ?r)"
    if "\<exists>v. dget (mr_group_validity r) i = Some v \<and> closed_by v (m5_epoch r)" for i
    using that closed_by_mono [OF _ e] by blast
  have "families_inv ?r"
    unfolding families_inv_def same
    by (intro conjI allI impI ballI)
      (rule F(14,15) | erule F(1) F(3-8) F(11) | erule B(2) [OF F(2)] | erule (1) F(9) F(12) valid [OF F(10)] valid [OF F(13)])+
  moreover have "m5_observations_inv ?r"
    by (rule m5_observations_inv_mono [OF parts(3)]) (simp_all add: B)
  moreover have "points_inv ?r"
  proof -
    from parts(4) obtain k where k: "k \<le> m5_epoch r" "dom (dget (mr_max_revision_by_epoch r)) = {..k}"
      "k = m5_epoch r \<longrightarrow> dget (mr_max_revision_by_epoch r) k = Some (mr_semantic_revision r)"
      unfolding points_inv_def by blast
    have "k = m5_epoch ?r \<longrightarrow> dget (mr_max_revision_by_epoch r) k = Some (mr_semantic_revision r)"
    proof
      assume "k = m5_epoch ?r"
      with k(1) e have "k = m5_epoch r" by simp
      with k(3) show "dget (mr_max_revision_by_epoch r) k = Some (mr_semantic_revision r)" by blast
    qed
    moreover have "k \<le> m5_epoch ?r" using k(1) e by (rule order_trans)
    ultimately show ?thesis using k(2) unfolding points_inv_def by (intro exI [of _ k]) simp
  qed
  ultimately show ?thesis using b by (simp add: m5_inv_def)
qed

lemma begin_event_epoch_ok:
  assumes inv: "m5_inv r"
  obtains r' where "begin_event_epoch r = ((m5_epoch r + 1, 0), r')" and "m5_inv r'" and "at_head r'"
    and "m5_epoch r' = m5_epoch r + 1" and "mr_semantic_revision r' = 0"
    and "mr_base r' = (mr_base r)\<lparr>current_epoch := m5_epoch r + 1\<rparr>"
    and "mr_groups r' = mr_groups r" and "mr_requirements r' = mr_requirements r"
proof -
  let ?s = "synchronize_base_head r" and ?b = "(mr_base r)\<lparr>current_epoch := m5_epoch r + 1\<rparr>"
  note S = m5_inv_update_points [OF inv] synchronize_base_head_frame [of r]
  let ?m = "dset (m5_epoch r + 1) 0 (mr_max_revision_by_epoch ?s)"
  let ?r = "?s\<lparr>mr_base := ?b, mr_semantic_revision := 0, mr_max_revision_by_epoch := ?m\<rparr>"
  have e: "m5_epoch ?r = m5_epoch r + 1" by (simp add: m5_epoch_def)
  have run: "begin_event_epoch r = ((m5_epoch r + 1, 0), ?r)"
    using S(3) by (simp add: begin_event_epoch_def advance_epoch_def m5_epoch_def Let_def)
  have head: "at_head ?r"
    using S(2,4) unfolding at_head_def e by auto
  have base: "m5_inv (?s\<lparr>mr_base := ?b\<rparr>)"
  proof (rule m5_inv_base [OF S(1)])
    show "repo_inv ?b" using inv by (simp add: m5_inv_def)
    show "base_grows (mr_base ?s) ?b"
      by (simp add: base_grows_def S(3) has_observation_id_def m5_epoch_def)
  qed
  have r: "?r = (?s\<lparr>mr_base := ?b\<rparr>)\<lparr>mr_max_revision_by_epoch := ?m, mr_semantic_revision := 0\<rparr>" by simp
  have "m5_inv ?r"
    using base at_head_points_inv [OF head] unfolding r m5_inv_def by simp
  from that [OF run this head e] show thesis using S by simp
qed

section \<open>Recording an observation\<close>

definition with_observation :: "m5_repo \<Rightarrow> repo \<Rightarrow> requirement_observation_record \<Rightarrow> m5_repo" where
  "with_observation r base t =
     (let ob = ro_observation t in
      r\<lparr>mr_base := base,
        mr_requirement_observations := dset (ob_observation_id ob) t (mr_requirement_observations r),
        mr_observations_by_chunk :=
          dappend (ob_chunk_version_id ob) (ob_observation_id ob) (mr_observations_by_chunk r)\<rparr>)"

lemma with_observation_simps [simp]:
  "mr_base (with_observation r base t) = base"
  "mr_requirement_observations (with_observation r base t) =
     dset (ob_observation_id (ro_observation t)) t (mr_requirement_observations r)"
  "mr_currency_history (with_observation r base t) = mr_currency_history r"
  "mr_requirements (with_observation r base t) = mr_requirements r"
  "mr_groups (with_observation r base t) = mr_groups r"
  "mr_group_validity (with_observation r base t) = mr_group_validity r"
  "mr_requirements_by_group (with_observation r base t) = mr_requirements_by_group r"
  "mr_families (with_observation r base t) = mr_families r"
  "mr_retirements (with_observation r base t) = mr_retirements r"
  "mr_group_versions_by_family (with_observation r base t) = mr_group_versions_by_family r"
  "mr_groups_by_claim (with_observation r base t) = mr_groups_by_claim r"
  "mr_max_revision_by_epoch (with_observation r base t) = mr_max_revision_by_epoch r"
  "mr_semantic_revision (with_observation r base t) = mr_semantic_revision r"
  by (simp_all add: with_observation_def Let_def)

lemma store_requirement_observation_Inr:
  assumes "store_requirement_observation r t = Inr r'"
  obtains base where
    "reserve_external_observation_id (mr_base r) (ob_observation_id (ro_observation t)) = Inr base"
    and "\<not> ro_eligible_for_currency t \<Longrightarrow> r' = with_observation r base t"
    and "ro_eligible_for_currency t \<Longrightarrow>
      \<exists>hs. extend_history (dget_default (mr_currency_history r) (observation_key (ro_observation t)) [])
             (ro_observation t) (ro_produced_at t) = Inr hs \<and>
        r' = (with_observation r base t)\<lparr>mr_currency_history :=
               dset (observation_key (ro_observation t)) hs (mr_currency_history r)\<rparr>"
proof -
  from assms obtain base where
    base: "reserve_external_observation_id (mr_base r) (ob_observation_id (ro_observation t)) = Inr base"
    unfolding store_requirement_observation_def Let_def bind_res_Inr_iff by blast
  note run = assms [unfolded store_requirement_observation_def Let_def base bind_res_simps(1)]
  show thesis
  proof (rule that [OF base])
    show "r' = with_observation r base t" if "\<not> ro_eligible_for_currency t"
      using run that by (simp add: with_observation_def Let_def)
    show "\<exists>hs. extend_history (dget_default (mr_currency_history r) (observation_key (ro_observation t)) [])
             (ro_observation t) (ro_produced_at t) = Inr hs \<and>
        r' = (with_observation r base t)\<lparr>mr_currency_history :=
               dset (observation_key (ro_observation t)) hs (mr_currency_history r)\<rparr>"
      if "ro_eligible_for_currency t"
      using run that by (simp add: with_observation_def Let_def bind_res_Inr_iff) metis
  qed
qed

lemma register_requirement_observation_Inr:
  assumes head: "at_head r" and run: "register_requirement_observation r ob point = Inr (t, r')"
  obtains eligible where
    "t = \<lparr>ro_observation = ob, ro_eligible_for_currency = eligible, ro_produced_at = point\<rparr>"
    and "ob_subject_kind ob = REQUIREMENT" and "point = (m5_epoch r, mr_semantic_revision r)"
    and "dget (mr_requirement_observations r) (ob_observation_id ob) = None"
    and "ob_subject_id ob \<in> dom (dget (mr_requirements r))"
    and "ob_chunk_version_id ob \<in> dom (dget (chunk_versions (mr_base r)))"
    and "eligible \<Longrightarrow> dget_default (mr_currency_history r) (observation_key ob) [] \<noteq> [] \<Longrightarrow>
      ci_valid_to (last (dget_default (mr_currency_history r) (observation_key ob) [])) = None \<Longrightarrow>
      ci_valid_from (last (dget_default (mr_currency_history r) (observation_key ob) [])) < point"
    and "store_requirement_observation r t = Inr r'"
proof -
  obtain known where known: "is_known_snapshot_point r point = (known, r)"
    using head by (simp add: is_known_snapshot_point_def Let_def)
  let ?hs = "dget_default (mr_currency_history r) (observation_key ob) []"
  note facts = run [unfolded register_requirement_observation_def at_head_points(1) [OF head] known
      bind_res_Inr_iff Let_def prod.case if_Inl_Inr_iff de_Morgan_disj not_not requirement_of_def
      lookup_Inr_iff make_observation_record_def checks_Inr dmem_def has_chunk_version_def sum.inject
      prod.inject]
  then obtain eligible t0 r0 q where p: "point = (m5_epoch r, mr_semantic_revision r)"
    and fresh: "dget (mr_requirement_observations r) (ob_observation_id ob) = None"
    and subject: "dget (mr_requirements r) (ob_subject_id ob) = Some q"
    and chunk: "dget (chunk_versions (mr_base r)) (ob_chunk_version_id ob) \<noteq> None"
    and later: "\<not> (eligible \<and> ?hs \<noteq> [] \<and> ci_valid_to (last ?hs) = None \<and> point \<le> ci_valid_from (last ?hs))"
    and kind: "\<forall>c \<in> set [ob_subject_kind (ro_observation \<lparr>ro_observation = ob,
        ro_eligible_for_currency = eligible, ro_produced_at = point\<rparr>) = REQUIREMENT]. c"
    and t0: "\<lparr>ro_observation = ob, ro_eligible_for_currency = eligible, ro_produced_at = point\<rparr> = t0"
    and store: "store_requirement_observation r t0 = Inr r0" and eqs: "t0 = t" "r0 = r'"
    by (elim exE conjE) (rule that, assumption+)
  have t: "t = \<lparr>ro_observation = ob, ro_eligible_for_currency = eligible, ro_produced_at = point\<rparr>"
    using t0 eqs by simp
  have kind: "ob_subject_kind ob = REQUIREMENT" using kind by simp
  show thesis
    by (rule that [OF t kind p fresh]) (use subject chunk later store eqs in auto)
qed

lemma reserve_frame:
  assumes "reserve_external_observation_id b i = Inr b'"
  shows "current_epoch b' = current_epoch b" and "claims b' = claims b"
    and "chunk_versions b' = chunk_versions b" and "has_observation_id b' i"
    and "has_observation_id b j \<Longrightarrow> has_observation_id b' j"
proof -
  define c where "c = b\<lparr>reserved_observation_ids := insert i (reserved_observation_ids b)\<rparr>"
  have c: "current_epoch c = current_epoch b" "claims c = claims b" "chunk_versions c = chunk_versions b"
    "has_observation_id c i" "has_observation_id b j \<Longrightarrow> has_observation_id c j"
    unfolding c_def has_observation_id_def by auto
  from assms have "c = b'"
    unfolding reserve_external_observation_id_def c_def [symmetric] if_Inl_Inr_iff sum.inject by (elim conjE)
  then show "current_epoch b' = current_epoch b" "claims b' = claims b" "chunk_versions b' = chunk_versions b"
    "has_observation_id b' i" "has_observation_id b j \<Longrightarrow> has_observation_id b' j"
    using c by simp_all
qed

lemma with_observation_inv:
  assumes "current_epoch b = current_epoch (mr_base r)" "claims b = claims (mr_base r)"
  shows "groups_inv ((with_observation r b t)\<lparr>mr_currency_history := h\<rparr>) = groups_inv r"
    and "families_inv ((with_observation r b t)\<lparr>mr_currency_history := h\<rparr>) = families_inv r"
    and "groups_inv (with_observation r b t) = groups_inv r"
    and "families_inv (with_observation r b t) = families_inv r"
  unfolding groups_inv_def families_inv_def m5_epoch_def by (simp_all add: assms)

lemma register_requirement_observation_inv:
  assumes inv: "m5_inv r" and head: "at_head r"
    and run: "register_requirement_observation r ob point = Inr (t, r')"
  shows "m5_inv r'" and "at_head r'" and "m5_epoch r' = m5_epoch r" and "claims (mr_base r') = claims (mr_base r)"
proof -
  from inv have parts: "repo_inv (mr_base r)" "groups_inv r" "families_inv r" "m5_observations_inv r"
    by (simp_all add: m5_inv_def)
  note I = m5_observations_invD [OF parts(4)]
  let ?k = "observation_key ob" and ?i = "ob_observation_id ob"
  let ?hs = "dget_default (mr_currency_history r) ?k []"
  obtain eligible where t: "t = \<lparr>ro_observation = ob, ro_eligible_for_currency = eligible, ro_produced_at = point\<rparr>"
    and ob: "ob_subject_kind ob = REQUIREMENT" "dget (mr_requirement_observations r) ?i = None"
      "ob_subject_id ob \<in> dom (dget (mr_requirements r))"
      "ob_chunk_version_id ob \<in> dom (dget (chunk_versions (mr_base r)))"
    and later: "eligible \<Longrightarrow> ?hs \<noteq> [] \<Longrightarrow> ci_valid_to (last ?hs) = None \<Longrightarrow> ci_valid_from (last ?hs) < point"
    and store: "store_requirement_observation r t = Inr r'"
    using register_requirement_observation_Inr [OF head run] by metis
  obtain b where base: "reserve_external_observation_id (mr_base r) ?i = Inr b"
    and no: "\<not> eligible \<Longrightarrow> r' = with_observation r b t"
    and yes: "eligible \<Longrightarrow> \<exists>hs. extend_history ?hs ob point = Inr hs \<and>
        r' = (with_observation r b t)\<lparr>mr_currency_history := dset ?k hs (mr_currency_history r)\<rparr>"
    using store_requirement_observation_Inr [OF store] t by (metis requirement_observation_record.select_convs)
  note B = reserve_frame [OF base]
  note W = with_observation_inv [OF B(1,2)]
  have kt: "ro_observation t = ob" "ro_eligible_for_currency t = eligible" "ro_produced_at t = point"
    by (simp_all add: t)
  have hist: "?hs = [] \<or> history_ok r ?k ?hs"
    using I(7) [of ?k] by (cases "dget (mr_currency_history r) ?k") auto
  have common: "mr_base r' = b \<and> mr_requirements r' = mr_requirements r \<and>
      mr_requirement_observations r' = dset ?i t (mr_requirement_observations r) \<and>
      mr_max_revision_by_epoch r' = mr_max_revision_by_epoch r \<and>
      mr_semantic_revision r' = mr_semantic_revision r \<and> groups_inv r' \<and> families_inv r'"
    using no yes W kt parts(2,3) by (cases eligible) auto
  then have e: "m5_epoch r' = m5_epoch r" using B(1) by (simp add: m5_epoch_def)
  then show "m5_epoch r' = m5_epoch r" .
  show "claims (mr_base r') = claims (mr_base r)" using common B(2) by simp
  show head': "at_head r'" using head common e by (simp add: at_head_def)
  have rec: "ob_observation_id (ro_observation u) = j \<and> ob_subject_kind (ro_observation u) = REQUIREMENT \<and>
        ob_subject_id (ro_observation u) \<in> dom (dget (mr_requirements r')) \<and>
        ob_chunk_version_id (ro_observation u) \<in> dom (dget (chunk_versions (mr_base r'))) \<and>
        has_observation_id (mr_base r') j"
    if u: "dget (mr_requirement_observations r') j = Some u" for j u
  proof (cases "j = ?i")
    case True
    then show ?thesis using u common kt ob B(3,4) by simp
  next
    case False
    then have "dget (mr_requirement_observations r) j = Some u" using u common by simp
    from I(2-6) [OF this] show ?thesis using common B(3) B(5) by simp
  qed
  have old_history: "history_ok r' k hs" if "dget (mr_currency_history r) k = Some hs" for k hs
  proof -
    have "history_ok r k hs" by (rule I(7) [OF that])
    then show ?thesis
      unfolding history_ok_def using common ob(2) by (metis (no_types, lifting) dget_dset fun_upd_other option.distinct(1))
  qed
  have "m5_observations_inv r'"
  proof (cases eligible)
    case False
    note r' = no [OF False]
    show ?thesis
      unfolding m5_observations_inv_def
    proof (intro conjI allI impI)
      show "dict_ok (mr_currency_history r')" using I(1) by (simp add: r')
      show "history_ok r' k hs" if "dget (mr_currency_history r') k = Some hs" for k hs
        using that old_history by (simp add: r')
      show "\<exists>iv \<in> set (dget_default (mr_currency_history r') (observation_key (ro_observation u)) []).
          ci_observation_id iv = Some j"
        if "dget (mr_requirement_observations r') j = Some u" "ro_eligible_for_currency u" for j u
        using that I(8) [of j u] False kt by (auto simp: r' split: if_splits)
    qed (use rec in blast)+
  next
    case True
    then obtain hs where ext: "extend_history ?hs ob point = Inr hs"
      and r': "r' = (with_observation r b t)\<lparr>mr_currency_history := dset ?k hs (mr_currency_history r)\<rparr>"
      using yes by blast
    have "ci_valid_from (last ?hs) < point" if "?hs \<noteq> []"
      using later [OF True that] hist that contiguous_last_open by (auto simp: history_ok_def)
    note H = history_ok_extend [OF ext hist this refl _ kt(1) _ kt(3) ob(2), of r']
    have new: "history_ok r' ?k hs" "set (map ci_observation_id hs) = insert (Some ?i) (set (map ci_observation_id ?hs))"
      using H common kt(2) True by simp_all
    show ?thesis
      unfolding m5_observations_inv_def
    proof (intro conjI allI impI)
      show "dict_ok (mr_currency_history r')" using I(1) by (simp add: r')
      show "history_ok r' k hs'" if "dget (mr_currency_history r') k = Some hs'" for k hs'
        using that old_history [of k hs'] new(1) by (cases "k = ?k") (auto simp: r')
      fix j u assume u: "dget (mr_requirement_observations r') j = Some u" "ro_eligible_for_currency u"
      let ?h = "dget_default (mr_currency_history r') (observation_key (ro_observation u)) []"
      have "Some j \<in> set (map ci_observation_id ?h)"
      proof (cases "j = ?i")
        case True
        then have "u = t" using u common by simp
        then show ?thesis using True new(2) kt by (simp add: r' dget_default_def)
      next
        case False
        then have "dget (mr_requirement_observations r) j = Some u" using u common by simp
        from I(8) [OF this u(2)] have
          "Some j \<in> set (map ci_observation_id (dget_default (mr_currency_history r) (observation_key (ro_observation u)) []))"
          by force
        then show ?thesis using new(2) by (cases "observation_key (ro_observation u) = ?k") (auto simp: r' dget_default_def)
      qed
      then show "\<exists>iv \<in> set ?h. ci_observation_id iv = Some j" by auto
    qed (use rec in blast)+
  qed
  then show "m5_inv r'"
    using common at_head_points_inv [OF head'] repo_inv_reserve [OF parts(1) base] by (simp add: m5_inv_def)
qed

end
