(* ===== verification/GL_M5EventProofs.thy ===== *)
theory GL_M5EventProofs
  imports GL_M5Invariant
begin

text \<open>
  What the events of \<open>m5/events.py\<close> guarantee: the invariant of the sidecar repository is kept by an
  accepted event and by a rejected one, a replayed event changes nothing, and the deltas are exactly
  the changed statuses of the two full recomputations around the mutation.
\<close>

section \<open>What the group writes leave alone\<close>

definition same_sidecar :: "m5_repo \<Rightarrow> m5_repo \<Rightarrow> bool" where
  "same_sidecar r r' \<longleftrightarrow>
     mr_base r' = mr_base r \<and> mr_semantic_revision r' = mr_semantic_revision r \<and>
     mr_max_revision_by_epoch r' = mr_max_revision_by_epoch r \<and>
     mr_requirement_observations r' = mr_requirement_observations r \<and>
     mr_currency_history r' = mr_currency_history r \<and>
     dom (dget (mr_requirements r)) \<subseteq> dom (dget (mr_requirements r'))"

lemma same_sidecar_trans: "same_sidecar r s \<Longrightarrow> same_sidecar s t \<Longrightarrow> same_sidecar r t"
  unfolding same_sidecar_def by (elim conjE) (simp add: subset_trans)

lemma dom_fold_requirements:
  "dom (dget (fold (\<lambda>q. dset (f q) q) qs d)) = dom (dget d) \<union> f ` set qs"
  by (induction qs arbitrary: d) auto

lemma append_group_version_same:
  assumes "append_group_version r g (m5_epoch r) = Inr r'"
  shows "same_sidecar r r'"
proof -
  from append_group_version_Inr [OF assms] obtain vs owned where r': "r' = appended_group r g vs owned" .
  have "dom (dget (mr_requirements r')) = dom (dget (mr_requirements r)) \<union> er_requirement_version_id ` set (eg_requirements g)"
    by (simp add: r' appended_group_def dom_fold_requirements)
  then show ?thesis by (simp add: same_sidecar_def r')
qed

lemma close_group_same: "close_group r i epoch = Inr r' \<Longrightarrow> same_sidecar r r'"
  by (simp add: same_sidecar_def close_group_frame)

lemma register_group_same:
  assumes "register_group r g (m5_epoch r) = Inr r'"
  shows "same_sidecar r r'"
proof -
  have "same_sidecar (with_family r g (m5_epoch r)) r'"
    using append_group_version_same register_group_Inr(5) [OF assms] by simp
  moreover have "same_sidecar r (with_family r g (m5_epoch r))"
    by (simp add: same_sidecar_def with_family_def)
  ultimately show ?thesis by (rule same_sidecar_trans [rotated])
qed

lemma replace_group_same:
  assumes "replace_group r i s (m5_epoch r) = Inr r'"
  shows "same_sidecar r r'"
proof -
  from replace_group_Inr [OF assms] obtain r1 where close: "close_group r i (m5_epoch r) = Inr r1"
    and "append_group_version r1 s (m5_epoch r) = Inr r'" .
  then have "append_group_version r1 s (m5_epoch r1) = Inr r'" by (simp add: close_group_frame [OF close])
  from same_sidecar_trans [OF close_group_same [OF close] append_group_version_same [OF this]]
  show ?thesis .
qed

lemma retire_group_same:
  assumes "retire_group r i (m5_epoch r) ev = Inr r'"
  shows "same_sidecar r r'"
proof -
  from retire_group_Inr [OF assms] obtain g r1 where "dget (mr_groups r) i = Some g"
    and close: "close_group r i (m5_epoch r) = Inr r1"
    and r': "r' = r1\<lparr>mr_retirements := dset (eg_group_family_id g) \<lparr>rt_group_family_id = eg_group_family_id g,
          rt_retired_epoch_id = m5_epoch r, rt_event_id = ev\<rparr> (mr_retirements r1)\<rparr>" .
  have "same_sidecar r1 r'" by (simp add: same_sidecar_def r')
  with close_group_same [OF close] show ?thesis by (rule same_sidecar_trans)
qed

lemma same_sidecar_inv:
  assumes same: "same_sidecar r r'" and inv: "m5_inv r"
    and "groups_inv r'" and "families_inv r'"
  shows "m5_inv r'" and "m5_epoch r' = m5_epoch r" and "at_head r \<Longrightarrow> at_head r'"
    and "claims (mr_base r') = claims (mr_base r)"
proof -
  have S: "mr_base r' = mr_base r" "mr_semantic_revision r' = mr_semantic_revision r"
    "mr_max_revision_by_epoch r' = mr_max_revision_by_epoch r"
    "mr_requirement_observations r' = mr_requirement_observations r"
    "mr_currency_history r' = mr_currency_history r"
    "dom (dget (mr_requirements r)) \<subseteq> dom (dget (mr_requirements r'))"
    using same by (simp_all add: same_sidecar_def)
  show e: "m5_epoch r' = m5_epoch r" by (simp add: m5_epoch_def S(1))
  show "at_head r \<Longrightarrow> at_head r'" by (simp add: at_head_def e S(2,3))
  show "claims (mr_base r') = claims (mr_base r)" by (simp add: S(1))
  from inv have I: "repo_inv (mr_base r)" "m5_observations_inv r" "points_inv r" by (simp_all add: m5_inv_def)
  have "points_inv r' = points_inv r" by (simp add: points_inv_def e S(2,3))
  moreover have "m5_observations_inv r'"
    by (rule m5_observations_inv_mono [OF I(2) S(5,4,6)]) (simp_all add: S(1))
  ultimately show "m5_inv r'" using assms(3,4) I S(1) by (simp add: m5_inv_def)
qed

section \<open>The mutation of an event\<close>

text \<open>An event is well formed when the group it carries passed its constructor.\<close>

fun m5_event_ok :: "m5_event \<Rightarrow> bool" where
  "m5_event_ok (RegisterGroupEvent _ g) = group_valid g"
| "m5_event_ok (ReplaceGroupEvent _ _ g) = group_valid g"
| "m5_event_ok _ = True"

lemma m5_mutate_inv:
  assumes inv: "m5_inv r" and head: "at_head r" and ok: "m5_event_ok ev"
    and point: "fst point = m5_epoch r" and run: "m5_mutate r ev point = Inr r'"
  shows "m5_inv r'" and "at_head r'" and "m5_epoch r' = m5_epoch r"
    and "claims (mr_base r') = claims (mr_base r)"
proof -
  from inv have G: "groups_inv r" and F: "families_inv r" by (simp_all add: m5_inv_def)
  have "m5_inv r' \<and> at_head r' \<and> m5_epoch r' = m5_epoch r \<and> claims (mr_base r') = claims (mr_base r)"
  proof (cases ev)
    case (RegisterGroupEvent i g)
    then have go: "register_group r g (m5_epoch r) = Inr r'" and v: "group_valid g" using run ok point by simp_all
    note S = same_sidecar_inv [OF register_group_same [OF go] inv register_group_inv [OF G F v go]]
    show ?thesis using S head by simp
  next
    case (ReplaceGroupEvent i old g)
    then have go: "replace_group r old g (m5_epoch r) = Inr r'" and v: "group_valid g" using run ok point by simp_all
    note S = same_sidecar_inv [OF replace_group_same [OF go] inv replace_group_inv [OF G F v go]]
    show ?thesis using S head by simp
  next
    case (RetireGroupEvent i g)
    then have go: "retire_group r g (m5_epoch r) i = Inr r'" using run point by simp
    note S = same_sidecar_inv [OF retire_group_same [OF go] inv retire_group_inv [OF G F go]]
    show ?thesis using S head by simp
  next
    case (ObserveRequirementEvent i ob)
    then obtain t where "register_requirement_observation r ob point = Inr (t, r')"
      using run by (auto simp: bind_res_Inr_iff)
    from register_requirement_observation_inv [OF inv head this] show ?thesis by simp
  qed
  then show "m5_inv r'" "at_head r'" "m5_epoch r' = m5_epoch r" "claims (mr_base r') = claims (mr_base r)"
    by simp_all
qed


lemma m5_record_event_inv:
  assumes "m5_inv r"
  shows "m5_inv (m5_record_event r i digest deltas)"
proof -
  have "repo_inv (mr_base r)" using assms by (simp add: m5_inv_def)
  from m5_inv_base [OF assms repo_inv_record_event [OF this]] show ?thesis
    by (simp add: m5_record_event_def base_grows_def record_event_def has_observation_id_def)
qed


section \<open>The queries only synchronise\<close>

lemma require_snapshot_point_Inr: "require_snapshot_point r p = Inr r' \<Longrightarrow> r' = synchronize_base_head r"
  by (auto simp: require_snapshot_point_def is_known_snapshot_point_def Let_def split: if_splits)

lemma currency_observation_id_at_Inr:
  assumes "at_head r" and "currency_observation_id_at r k p = Inr (h, r')"
  shows "r' = r \<and> h = holder_at (rev (dget_default (mr_currency_history r) k [])) p"
  using assms require_snapshot_point_Inr [of r p]
  by (auto simp: currency_observation_id_at_def bind_res_Inr_iff)

lemma current_holders_Inr:
  "at_head r \<Longrightarrow> current_holders r ks p = Inr (hs, r') \<Longrightarrow>
    r' = r \<and> hs = map (\<lambda>k. holder_at (rev (dget_default (mr_currency_history r) k [])) p) ks"
proof (induction ks arbitrary: hs)
  case (Cons k ks)
  then obtain h r1 hs' where h: "currency_observation_id_at r k p = Inr (h, r1)"
    and hs': "current_holders r1 ks p = Inr (hs', r')" and hs: "hs = h # hs'"
    by (auto simp: bind_res_Inr_iff)
  from currency_observation_id_at_Inr [OF Cons.prems(1) h] Cons.IH [OF Cons.prems(1), of hs'] hs' hs
  show ?case by simp
qed simp

lemma current_requirement_observations_Inr:
  assumes "at_head r" and "current_requirement_observations r p = Inr (obs, r')"
  shows "r' = r"
    and "traverse (lookup KeyError (mr_requirement_observations r))
      (sort (List.map_filter (\<lambda>k. holder_at (rev (dget_default (mr_currency_history r) k [])) p)
        (dkeys (mr_currency_history r)))) = Inr obs"
proof -
  from assms(2) obtain hs r1 where hs: "current_holders r (dkeys (mr_currency_history r)) p = Inr (hs, r1)"
    and obs: "traverse (lookup KeyError (mr_requirement_observations r1)) (sort (List.map_filter id hs)) = Inr obs"
    and r1: "r1 = r'"
    by (auto simp: current_requirement_observations_def current_requirement_observation_ids_def bind_res_Inr_iff)
  note H = current_holders_Inr [OF assms(1) hs]
  show "r' = r" using H r1 by simp
  show "traverse (lookup KeyError (mr_requirement_observations r))
      (sort (List.map_filter (\<lambda>k. holder_at (rev (dget_default (mr_currency_history r) k [])) p)
        (dkeys (mr_currency_history r)))) = Inr obs"
    using obs H by (simp add: map_filter_def filter_map comp_def)
qed

lemma active_requirement_edges_Inr:
  assumes "at_head r" and "active_requirement_edges sha256 r p = Inr (edges, states, r')"
  obtains policy obs found active where "r' = r" and "policy_at r (fst p) = Inr policy"
    and "current_requirement_observations r p = Inr (obs, r)"
    and "fold_res (scan_requirement_observation sha256 r (fst p) policy) obs [] = Inr found"
    and "active_requirement_ids r (fst p) = Inr active"
    and "edges = map (\<lambda>q. (q, sorted_edges (dget_default found q []))) active"
    and "states = map (\<lambda>q. (q, requirement_state_of q (dget_default found q []))) active"
proof -
  from assms(2) obtain policy obs r1 where 1: "policy_at r (fst p) = Inr policy"
    "current_requirement_observations r p = Inr (obs, r1)"
    by (auto simp: active_requirement_edges_def bind_res_Inr_iff)
  note r1 = current_requirement_observations_Inr(1) [OF assms(1) 1(2)]
  from assms(2) 1 r1 show thesis
    by (auto simp: active_requirement_edges_def bind_res_Inr_iff intro: that)
qed

text \<open>What a successful recomputation at the head consists of.\<close>

lemma compute_reference_states_Inr:
  assumes inv: "m5_inv r" and ok: "compute_reference_states sha256 r None = Inr (st, r')"
  obtains edges direct answers where "r' = synchronize_base_head r"
    and "active_requirement_edges sha256 r' (m5_epoch r', mr_semantic_revision r') =
      Inr (edges, ms_requirements st, r')"
    and "tabulate_res (compute_group_state r' edges) (active_group_ids r' (m5_epoch r')) = Inr (ms_groups st)"
    and "compute_all_states (mr_base r') = Inr (direct, answers)"
    and "tabulate_res (combine_claim r' (ms_groups st) direct) (all_claim_ids (mr_base r')) = Inr (ms_claims st)"
    and "tabulate_res (\<lambda>a. combined_answer_state r' a (ms_claims st)) (all_answer_ids (mr_base r')) =
      Inr (ms_answers st)"
proof -
  let ?s = "synchronize_base_head r" and ?p = "(m5_epoch r, mr_semantic_revision (synchronize_base_head r))"
  have head: "at_head ?s" by (rule m5_inv_update_points(2) [OF inv])
  have e: "m5_epoch ?s = m5_epoch r" by (rule synchronize_base_head_frame)
  have point: "current_point ?s = (?p, ?s)" "current_point r = (?p, ?s)"
    using head by (simp_all add: current_point_def e Let_def)
  obtain r0 where req: "require_snapshot_point ?s ?p = Inr r0"
    using ok by (auto simp: compute_reference_states_def point bind_res_Inr_iff)
  have r0: "r0 = ?s" using require_snapshot_point_Inr [OF req] head by simp
  from ok obtain edges states r1 where
    edges: "active_requirement_edges sha256 ?s ?p = Inr (edges, states, r1)"
    by (auto simp: compute_reference_states_def point req r0 bind_res_Inr_iff)
  have r1: "r1 = ?s" by (rule active_requirement_edges_Inr [OF head edges])
  from ok obtain groups direct answers0 claims answers where
    parts: "tabulate_res (compute_group_state ?s edges) (active_group_ids ?s (m5_epoch r)) = Inr groups"
      "compute_all_states (mr_base ?s) = Inr (direct, answers0)"
      "tabulate_res (combine_claim ?s groups direct) (all_claim_ids (mr_base ?s)) = Inr claims"
      "tabulate_res (\<lambda>a. combined_answer_state ?s a claims) (all_answer_ids (mr_base ?s)) = Inr answers"
    and st: "st = \<lparr>ms_requirements = states, ms_groups = groups, ms_claims = claims, ms_answers = answers\<rparr>"
    and r': "r' = ?s"
    by (auto simp: compute_reference_states_def point req r0 edges r1 bind_res_Inr_iff)
  show thesis
    by (rule that [OF r']) (use edges parts in \<open>simp_all add: r' st e r1\<close>)
qed

section \<open>Recording an event changes no state\<close>

lemma record_event_base [simp]:
  "current_epoch (record_event b i d ds) = current_epoch b"
  "claims (record_event b i d ds) = claims b" "answers (record_event b i d ds) = answers b"
  "questions (record_event b i d ds) = questions b"
  "chunk_versions (record_event b i d ds) = chunk_versions b"
  "chunk_validity (record_event b i d ds) = chunk_validity b"
  "document_versions (record_event b i d ds) = document_versions b"
  "document_version_validity (record_event b i d ds) = document_version_validity b"
  "policies (record_event b i d ds) = policies b" "policy_validity (record_event b i d ds) = policy_validity b"
  "observations (record_event b i d ds) = observations b"
  "current_by_key (record_event b i d ds) = current_by_key b"
  "chunk_version_of (record_event b i d ds) = chunk_version_of b"
  "claim_of (record_event b i d ds) = claim_of b" "answer_of (record_event b i d ds) = answer_of b"
  "observation_of (record_event b i d ds) = observation_of b"
  "claim_ids_of_answer (record_event b i d ds) = claim_ids_of_answer b"
  "all_claim_ids (record_event b i d ds) = all_claim_ids b"
  "all_answer_ids (record_event b i d ds) = all_answer_ids b"
  "is_chunk_active (record_event b i d ds) = is_chunk_active b"
  "current_observations (record_event b i d ds) = current_observations b"
  by (simp_all add: fun_eq_iff record_event_def query_defs observation_of_def chunk_version_of_def
      claim_of_def answer_of_def claim_ids_of_answer_def all_claim_ids_def all_answer_ids_def
      is_chunk_active_def current_observations_def)

lemma required_states_record [simp]:
  "required_states (record_event b i d ds) states cs = required_states b states cs"
  by (induction cs) (simp_all cong: if_cong)

lemma scan_observation_record [simp]:
  "scan_observation (record_event b i d ds) = scan_observation b"
  by (simp add: scan_observation_def fun_eq_iff cong: verification_label.case_cong)

lemma compute_all_states_record [simp]:
  "compute_all_states (record_event b i d ds) = compute_all_states b"
proof -
  have "compute_claim_state (record_event b i d ds) = compute_claim_state b"
    unfolding fun_eq_iff compute_claim_state_def by simp
  moreover have "compute_answer_state (record_event b i d ds) = compute_answer_state b"
    unfolding fun_eq_iff compute_answer_state_def by simp
  ultimately show ?thesis by (simp add: compute_all_states_def)
qed

lemma m5_record_event_fields [simp]:
  "mr_base (m5_record_event r i d ds) = record_event (mr_base r) i d ds"
  "m5_epoch (m5_record_event r i d ds) = m5_epoch r"
  "mr_semantic_revision (m5_record_event r i d ds) = mr_semantic_revision r"
  "mr_max_revision_by_epoch (m5_record_event r i d ds) = mr_max_revision_by_epoch r"
  "mr_currency_history (m5_record_event r i d ds) = mr_currency_history r"
  "mr_requirement_observations (m5_record_event r i d ds) = mr_requirement_observations r"
  "at_head (m5_record_event r i d ds) = at_head r"
  by (simp_all add: m5_record_event_def m5_epoch_def at_head_def)

lemma bind_res_chain: "bind_res (bind_res m f) g = bind_res m (\<lambda>x. bind_res (f x) g)"
  by (cases m) simp_all

lemma export_record:
  "bind_res (export_snapshot (record_event b i d ds)) (\<lambda>s. Inr (f (sn_chunks s))) =
    bind_res (export_snapshot b) (\<lambda>s. Inr (f (sn_chunks s)))"
  "bind_res (export_snapshot (record_event b i d ds)) (\<lambda>s. g (sn_policies s)) =
    bind_res (export_snapshot b) (\<lambda>s. g (sn_policies s))"
  by (simp_all add: export_snapshot_def bind_res_chain)

lemma queries_record [simp]:
  "is_chunk_active_at (m5_record_event r i d ds) = is_chunk_active_at r"
  "policy_at (m5_record_event r i d ds) = policy_at r"
  "requirement_of (m5_record_event r i d ds) = requirement_of r"
  "group_of (m5_record_event r i d ds) = group_of r"
  "is_group_active (m5_record_event r i d ds) = is_group_active r"
  "is_requirement_active (m5_record_event r i d ds) = is_requirement_active r"
  "requirement_ids_for_group (m5_record_event r i d ds) = requirement_ids_for_group r"
  "active_group_ids (m5_record_event r i d ds) = active_group_ids r"
  "all_requirement_ids (m5_record_event r i d ds) = all_requirement_ids r"
  "group_ids_for_claim (m5_record_event r i d ds) = group_ids_for_claim r"
proof -
  show "is_chunk_active_at (m5_record_event r i d ds) = is_chunk_active_at r"
    "policy_at (m5_record_event r i d ds) = policy_at r"
    using export_record(1) [where f = "\<lambda>cs. chunk_active_in cs c e" for c e]
      export_record(2) [where g = "\<lambda>ps. policy_in ps e" for e]
    by (simp_all add: fun_eq_iff is_chunk_active_at_def policy_at_def)
  show a: "requirement_of (m5_record_event r i d ds) = requirement_of r"
    "group_of (m5_record_event r i d ds) = group_of r"
    "is_group_active (m5_record_event r i d ds) = is_group_active r"
    by (simp_all add: fun_eq_iff m5_record_event_def requirement_of_def group_of_def is_group_active_def)
  show "is_requirement_active (m5_record_event r i d ds) = is_requirement_active r"
    "requirement_ids_for_group (m5_record_event r i d ds) = requirement_ids_for_group r"
    unfolding fun_eq_iff is_requirement_active_def requirement_ids_for_group_def a
    by (simp_all add: m5_record_event_def)
  show "active_group_ids (m5_record_event r i d ds) = active_group_ids r"
    unfolding fun_eq_iff active_group_ids_def a by (simp add: m5_record_event_def)
  show "all_requirement_ids (m5_record_event r i d ds) = all_requirement_ids r"
    "group_ids_for_claim (m5_record_event r i d ds) = group_ids_for_claim r"
    by (simp_all add: fun_eq_iff m5_record_event_def all_requirement_ids_def group_ids_for_claim_def)
qed

lemma states_record [simp]:
  "scan_requirement_observation sha256 (m5_record_event r i d ds) = scan_requirement_observation sha256 r"
  "active_requirement_ids (m5_record_event r i d ds) = active_requirement_ids r"
  "compute_group_state (m5_record_event r i d ds) = compute_group_state r"
  "combine_claim (m5_record_event r i d ds) = combine_claim r"
  by (simp_all add: fun_eq_iff scan_requirement_observation_def active_requirement_ids_def
      compute_group_state_def combine_claim_def cong: if_cong)

lemma combined_answer_state_record [simp]:
  "combined_answer_state (m5_record_event r i d ds) = combined_answer_state r"
proof -
  have "required_claim_states (m5_record_event r i d ds) states cs = required_claim_states r states cs"
    for states cs by (induction cs) (simp_all cong: if_cong)
  then show ?thesis by (simp add: fun_eq_iff combined_answer_state_def)
qed

text \<open>At the head every query of a holder succeeds and leaves the repository as it is.\<close>

lemma current_holders_head:
  assumes "at_head r"
  shows "current_holders r ks (m5_epoch r, mr_semantic_revision r) =
    Inr (map (\<lambda>k. holder_at (rev (dget_default (mr_currency_history r) k [])) (m5_epoch r, mr_semantic_revision r)) ks, r)"
  using at_head_points(3) [OF assms] by (induction ks) (simp_all add: currency_observation_id_at_def)

lemma current_requirement_observations_record:
  assumes head: "at_head r"
    and ok: "current_requirement_observations r (m5_epoch r, mr_semantic_revision r) = Inr (obs, r)"
  shows "current_requirement_observations (m5_record_event r i d ds) (m5_epoch r, mr_semantic_revision r) =
    Inr (obs, m5_record_event r i d ds)"
proof -
  have head': "at_head (m5_record_event r i d ds)" using head by simp
  from ok show ?thesis
    using current_holders_head [OF head] current_holders_head [OF head']
    by (simp add: current_requirement_observations_def current_requirement_observation_ids_def bind_res_Inr_iff)
qed

lemma compute_reference_states_record:
  assumes head: "at_head r" and ok: "compute_reference_states sha256 r None = Inr (st, r')"
  shows "compute_reference_states sha256 (m5_record_event r i d ds) None = Inr (st, m5_record_event r i d ds)"
proof -
  let ?R = "m5_record_event r i d ds" and ?p = "(m5_epoch r, mr_semantic_revision r)"
  have head': "at_head ?R" using head by simp
  note H = at_head_points [OF head] and H' = at_head_points [OF head', simplified]
  from ok obtain edges states r1 where edges: "active_requirement_edges sha256 r ?p = Inr (edges, states, r1)"
    by (auto simp: compute_reference_states_def H bind_res_Inr_iff)
  obtain policy obs found active where parts: "r1 = r" "policy_at r (m5_epoch r) = Inr policy"
    "current_requirement_observations r ?p = Inr (obs, r)"
    "fold_res (scan_requirement_observation sha256 r (m5_epoch r) policy) obs [] = Inr found"
    "active_requirement_ids r (m5_epoch r) = Inr active"
    "edges = map (\<lambda>q. (q, sorted_edges (dget_default found q []))) active"
    "states = map (\<lambda>q. (q, requirement_state_of q (dget_default found q []))) active"
    using active_requirement_edges_Inr [OF head edges] unfolding fst_conv .
  have edges': "active_requirement_edges sha256 ?R ?p = Inr (edges, states, ?R)"
    using current_requirement_observations_record [OF head parts(3)] parts(2,4-7)
    by (simp add: active_requirement_edges_def)
  from ok show ?thesis
    by (auto simp: compute_reference_states_def H H' edges edges' parts(1) bind_res_Inr_iff)
qed

section \<open>Applying an event\<close>

text \<open>What an accepted event went through: the mutated copy, its states and the deltas.\<close>

lemma m5_stage_Inr:
  assumes inv: "m5_inv r" and ok: "m5_event_ok ev"
    and run: "m5_stage sha256 inject r ev h before = Inr (deltas, staged)"
  obtains r1 r2 after where "begin_event_epoch r = ((Suc (m5_epoch r), 0), r1)"
    and "m5_mutate r1 ev (Suc (m5_epoch r), 0) = Inr r2" and "m5_inv r2" and "at_head r2"
    and "m5_epoch r2 = Suc (m5_epoch r)" and "claims (mr_base r2) = claims (mr_base r)"
    and "compute_reference_states sha256 r2 None = Inr (after, r2)"
    and "m5_deltas ev before after = Inr deltas"
    and "staged = m5_record_event r2 (m5_event_id ev) h deltas"
proof -
  obtain r1 where r1: "begin_event_epoch r = ((Suc (m5_epoch r), 0), r1)" "m5_inv r1" "at_head r1"
    "m5_epoch r1 = Suc (m5_epoch r)" "mr_base r1 = (mr_base r)\<lparr>current_epoch := Suc (m5_epoch r)\<rparr>"
    using begin_event_epoch_ok [OF inv, unfolded Suc_eq_plus1 [symmetric]] by metis
  from run obtain r2 where r2: "m5_mutate r1 ev (Suc (m5_epoch r), 0) = Inr r2"
    by (auto simp: m5_stage_def r1(1) bind_res_Inr_iff)
  have "fst (Suc (m5_epoch r), 0 :: nat) = m5_epoch r1" by (simp add: r1(4))
  note M = m5_mutate_inv [OF r1(2,3) ok this r2]
  from run obtain after r3 where c: "compute_reference_states sha256 r2 None = Inr (after, r3)"
    by (auto simp: m5_stage_def r1(1) r2 bind_res_Inr_iff)
  have r3: "r3 = r2" using compute_reference_states_Inr [OF M(1) c] at_head_sync [OF M(2)] by metis
  from run have "m5_deltas ev before after = Inr deltas"
    "staged = m5_record_event r2 (m5_event_id ev) h deltas"
    by (auto simp: m5_stage_def r1(1) r2 c r3 bind_res_Inr_iff Let_def)
  with that [OF r1(1) r2 M(1,2)] c r3 M(3,4) r1(4,5) show thesis by simp
qed

text \<open>The outcomes of \<open>apply_m5_event\<close>.\<close>

lemma apply_m5_event_cases:
  obtains (rejected) x where "apply_m5_event sha256 pack inject r ev = (Inl x, r)"
  | (no_states) x where "apply_m5_event sha256 pack inject r ev = (Inl x, synchronize_base_head r)"
  | (replayed) h ds where "m5_recorded_event r (m5_event_id ev) = Some (h, ds)"
      "m5_event_payload_digest sha256 pack ev = Inr h"
      "apply_m5_event sha256 pack inject r ev = (Inr \<lparr>ar_deltas = ds, ar_replayed = True\<rparr>, r)"
  | (aborted) h before r1 x where "compute_reference_states sha256 r None = Inr (before, r1)"
      "m5_stage sha256 inject r1 ev h before = Inl x"
      "apply_m5_event sha256 pack inject r ev = (Inl x, r1)"
  | (applied) h before r1 deltas staged where "m5_recorded_event r (m5_event_id ev) = None"
      "m5_event_payload_digest sha256 pack ev = Inr h"
      "compute_reference_states sha256 r None = Inr (before, r1)"
      "m5_stage sha256 inject r1 ev h before = Inr (deltas, staged)"
      "apply_m5_event sha256 pack inject r ev = (Inr \<lparr>ar_deltas = deltas, ar_replayed = False\<rparr>, staged)"
proof (cases "blank (m5_event_id ev)")
  case False
  show thesis
  proof (cases "m5_event_payload_digest sha256 pack ev")
    case (Inl x)
    then show thesis using False by (intro rejected [of x]) (simp add: apply_m5_event_def)
  next
    case (Inr h)
    note digest = Inr
    show thesis
    proof (cases "m5_recorded_event r (m5_event_id ev)")
      case None
      note new = None
      show thesis
      proof (cases "compute_reference_states sha256 r None")
        case (Inl x)
        then show thesis using False digest new by (intro no_states [of x]) (simp add: apply_m5_event_def)
      next
        case (Inr b)
        obtain before r1 where b: "compute_reference_states sha256 r None = Inr (before, r1)"
          using Inr by (cases b) simp
        show thesis
        proof (cases "m5_stage sha256 inject r1 ev h before")
          case (Inl x)
          then show thesis using False digest new b
            by (intro aborted [OF b, of h x]) (simp_all add: apply_m5_event_def)
        next
          case (Inr c)
          obtain deltas staged where c: "m5_stage sha256 inject r1 ev h before = Inr (deltas, staged)"
            using Inr by (cases c) simp
          show thesis using False
            by (intro applied [OF new digest b c]) (simp add: apply_m5_event_def digest new b c)
        qed
      qed
    next
      case (Some hd)
      obtain h' ds where hd: "m5_recorded_event r (m5_event_id ev) = Some (h', ds)"
        using Some by (cases hd) simp
      show thesis
      proof (cases "h' = h")
        case True
        then show thesis using False digest hd
          by (intro replayed [OF hd]) (simp_all add: apply_m5_event_def)
      next
        case noteq: False
        then show thesis using False digest hd
          by (intro rejected [of EventConflictError]) (simp add: apply_m5_event_def)
      qed
    qed
  qed
qed (rule rejected [of ValidationError], simp add: apply_m5_event_def)

lemma compute_reference_states_sync:
  assumes "m5_inv r" and "compute_reference_states sha256 r None = Inr (before, r1)"
  shows "r1 = synchronize_base_head r" and "m5_inv r1" and "at_head r1"
  using compute_reference_states_Inr [OF assms] m5_inv_update_points [OF assms(1)] by metis+

lemma apply_m5_event_inv:
  assumes inv: "m5_inv r" and ok: "m5_event_ok ev"
  shows "m5_inv (snd (apply_m5_event sha256 pack inject r ev))"
proof (cases rule: apply_m5_event_cases [of sha256 pack inject r ev])
  case (aborted h before r1 x)
  then show ?thesis using compute_reference_states_sync(2) [OF inv aborted(1)] by simp
next
  case (applied h before r1 deltas staged)
  note S = compute_reference_states_sync [OF inv applied(3)]
  from m5_stage_Inr [OF S(2) ok applied(4)] obtain r2 where "m5_inv r2"
    "staged = m5_record_event r2 (m5_event_id ev) h deltas" by metis
  then show ?thesis using applied(5) m5_record_event_inv by simp
qed (use inv m5_inv_update_points(1) [OF inv] in simp_all)

lemma apply_m5_event_fresh:
  assumes inv: "m5_inv r" and ok: "m5_event_ok ev"
    and run: "apply_m5_event sha256 pack inject r ev = (Inr res, r')" and new: "\<not> ar_replayed res"
  obtains h before after r1 r2 where "m5_event_payload_digest sha256 pack ev = Inr h"
    and "compute_reference_states sha256 r None = Inr (before, synchronize_base_head r)"
    and "begin_event_epoch r = ((Suc (m5_epoch r), 0), r1)"
    and "m5_mutate r1 ev (Suc (m5_epoch r), 0) = Inr r2"
    and "m5_recorded_event r' (m5_event_id ev) = Some (h, ar_deltas res)"
    and "m5_deltas ev before after = Inr (ar_deltas res)"
    and "compute_reference_states sha256 r' None = Inr (after, r')"
    and "m5_epoch r' = Suc (m5_epoch r)" and "claims (mr_base r') = claims (mr_base r)"
proof (cases rule: apply_m5_event_cases [of sha256 pack inject r ev])
  case (applied h before r1 deltas staged)
  note S = compute_reference_states_sync [OF inv applied(3)]
  have res: "ar_deltas res = deltas" "r' = staged" using applied(5) run by auto
  have e: "m5_epoch r1 = m5_epoch r" "mr_base r1 = mr_base r"
    by (simp_all add: S(1) synchronize_base_head_frame)
  from m5_stage_Inr [OF S(2) ok applied(4)] obtain r0 r2 after where
    R: "begin_event_epoch r1 = ((Suc (m5_epoch r1), 0), r0)" "m5_mutate r0 ev (Suc (m5_epoch r1), 0) = Inr r2"
      "m5_inv r2" "at_head r2" "m5_epoch r2 = Suc (m5_epoch r1)" "claims (mr_base r2) = claims (mr_base r1)"
      "compute_reference_states sha256 r2 None = Inr (after, r2)" "m5_deltas ev before after = Inr deltas"
    and staged: "staged = m5_record_event r2 (m5_event_id ev) h deltas" .
  have r': "r' = m5_record_event r2 (m5_event_id ev) h deltas" by (simp add: res staged)
  have same: "begin_event_epoch r = begin_event_epoch r1"
    using S(3) at_head_sync [OF S(3)] by (simp add: begin_event_epoch_def S(1))
  show thesis
  proof (rule that [OF applied(2) applied(3) [unfolded S(1)]])
    show "begin_event_epoch r = ((Suc (m5_epoch r), 0), r0)" using R(1) same e by simp
    show "m5_mutate r0 ev (Suc (m5_epoch r), 0) = Inr r2" using R(2) e by simp
    show "m5_recorded_event r' (m5_event_id ev) = Some (h, ar_deltas res)"
      by (simp add: r' res(1) m5_recorded_event_def recorded_event_def record_event_def)
    show "compute_reference_states sha256 r' None = Inr (after, r')"
      unfolding r' by (rule compute_reference_states_record [OF R(4,7)])
    show "m5_epoch r' = Suc (m5_epoch r)" "claims (mr_base r') = claims (mr_base r)" using R(5,6) e by (simp_all add: r')
  qed (use R(8) res(1) in simp)
qed (use run new in auto)

text \<open>A recorded event is answered from the record, whatever the state.\<close>

lemma apply_m5_event_answered:
  assumes "apply_m5_event sha256 pack inject r ev = (Inr res, r')"
  obtains h where "m5_event_payload_digest sha256 pack ev = Inr h" and "\<not> blank (m5_event_id ev)"
    and "m5_recorded_event r' (m5_event_id ev) = Some (h, ar_deltas res)"
proof -
  have b: "\<not> blank (m5_event_id ev)" using assms by (auto simp: apply_m5_event_def split: if_splits)
  show thesis
  proof (cases rule: apply_m5_event_cases [of sha256 pack inject r ev])
    case (replayed h ds)
    show thesis by (rule that [OF replayed(2) b]) (use assms replayed in auto)
  next
    case (applied h before r1 deltas staged)
    from applied(4) obtain x where "staged = m5_record_event x (m5_event_id ev) h deltas"
      by (auto simp: m5_stage_def bind_res_Inr_iff Let_def split: prod.splits)
    then show thesis using assms applied(5)
      by (intro that [OF applied(2) b]) (auto simp: m5_recorded_event_def)
  qed (use assms in auto)
qed

lemma apply_m5_event_recorded:
  assumes "m5_recorded_event r (m5_event_id ev) = Some (h, ds)" and "\<not> blank (m5_event_id ev)"
  shows "apply_m5_event sha256 pack inject r ev =
    (case m5_event_payload_digest sha256 pack ev of
       Inl x \<Rightarrow> Inl x
     | Inr h' \<Rightarrow> if h' = h then Inr \<lparr>ar_deltas = ds, ar_replayed = True\<rparr> else Inl EventConflictError, r)"
  using assms by (auto simp: apply_m5_event_def split: sum.split)

section \<open>The deltas\<close>

definition m5_delta_of :: "m5_event \<Rightarrow> string \<Rightarrow> string \<Rightarrow> string \<Rightarrow> string \<Rightarrow> status_delta" where
  "m5_delta_of ev kind i old new =
     \<lparr>sd_event_id = m5_event_id ev, sd_object_type = kind, sd_object_id = i, sd_old_status = old,
      sd_new_status = new, sd_reason = m5_reason ev\<rparr>"

text \<open>One entry for every identifier whose status differs, in the order given.\<close>

definition m5_changes ::
    "m5_event \<Rightarrow> string \<Rightarrow> (string \<Rightarrow> string) \<Rightarrow> (string \<Rightarrow> string) \<Rightarrow> string list \<Rightarrow> status_delta list" where
  "m5_changes ev kind old new is =
     map (\<lambda>i. m5_delta_of ev kind i (old i) (new i)) (filter (\<lambda>i. old i \<noteq> new i) is)"

definition claim_status_in :: "m5_reference_states \<Rightarrow> string \<Rightarrow> string" where
  "claim_status_in st c = claim_status_value (cc_status (the (dget (ms_claims st) c)))"

definition answer_status_in :: "m5_reference_states \<Rightarrow> string \<Rightarrow> string" where
  "answer_status_in st a = answer_status_value (as_status (the (dget (ms_answers st) a)))"

lemma m5_status_changes_Inr:
  "m5_status_changes (m5_event_id ev) kind (m5_reason ev) status before after is = Inr ds \<Longrightarrow>
    ds = m5_changes ev kind (\<lambda>i. status (the (dget before i))) (\<lambda>i. status (the (dget after i))) is"
proof (induction "is" arbitrary: ds)
  case (Cons i "is")
  then show ?case
    by (auto simp: bind_res_Inr_iff lookup_Inr_iff m5_changes_def m5_delta_of_def split: if_splits)
qed (simp add: m5_changes_def)

lemma tabulate_res_Inr:
  assumes "tabulate_res f ks = Inr d"
  shows "dkeys d = ks" and "dget d k = Some v \<Longrightarrow> k \<in> set ks \<and> f k = Inr v"
proof -
  from assms obtain vs where vs: "traverse f ks = Inr vs" "d = zip ks vs"
    by (auto simp: tabulate_res_def bind_res_Inr_iff)
  then have l: "list_all2 (\<lambda>k v. f k = Inr v) ks vs" by (simp add: traverse_Inr_conv)
  then have len: "length ks = length vs" by (rule list_all2_lengthD)
  then show "dkeys d = ks" using vs(2) by simp
  assume "dget d k = Some v"
  then have "(k, v) \<in> set (zip ks vs)" using vs(2) by (metis map_of_SomeD)
  then show "k \<in> set ks \<and> f k = Inr v" using l by (auto simp: list_all2_iff dest: set_zip_leftD)
qed

lemma m5_deltas_Inr:
  assumes "m5_deltas ev before after = Inr ds"
  shows "ds = m5_changes ev ''claim'' (claim_status_in before) (claim_status_in after) (sort (dkeys (ms_claims after))) @
     m5_changes ev ''answer'' (answer_status_in before) (answer_status_in after) (sort (dkeys (ms_answers after)))"
  using assms
  by (auto simp: m5_deltas_def bind_res_Inr_iff claim_status_in_def [abs_def] answer_status_in_def [abs_def]
      dest!: m5_status_changes_Inr)

end
