(* ===== verification/GL_M5Reachable.thy ===== *)
theory GL_M5Reachable
  imports GL_M5EventProofs
begin

text \<open>
  The sidecar repositories that can arise: M5 events on the sidecar interleaved with M1 events on the
  base repository below it.  The invariant of the sidecar survives both.
\<close>

section \<open>The base and the sidecar evolve independently\<close>

lemma base_grows_refl: "base_grows b b"
  by (simp add: base_grows_def)

lemma base_grows_trans: "base_grows a b \<Longrightarrow> base_grows b c \<Longrightarrow> base_grows a c"
  unfolding base_grows_def by (meson order_trans)

lemma base_grows_frame:
  assumes "current_epoch b' = current_epoch b" and "claims b' = claims b"
    and "chunk_versions b' = chunk_versions b" and "observations b' = observations b"
    and "reserved_observation_ids b' = reserved_observation_ids b"
  shows "base_grows b b'"
  by (simp add: base_grows_def has_observation_id_def assms)

lemma base_grows_store_chunk: "base_grows b (store_chunk e v c b)"
  by (auto simp: base_grows_def has_observation_id_def store_chunk_def)

lemma base_grows_store_chunks: "base_grows b (fold (store_chunk e v) cs b)"
  by (induction cs arbitrary: b) (auto intro: base_grows_refl base_grows_trans base_grows_store_chunk)

lemma base_grows_register_document_version:
  assumes "register_document_version b v cs e = Inr b'"
  shows "base_grows b b'"
proof -
  have "b' = fold (store_chunk e (dv_document_version_id v)) cs (open_document_version e v b)"
    using assms by (simp add: register_document_version_Inr)
  moreover have "base_grows b (open_document_version e v b)"
    by (rule base_grows_frame) (simp_all add: open_document_version_def)
  ultimately show ?thesis using base_grows_store_chunks base_grows_trans by metis
qed

lemma base_grows_insert_version:
  "insert_version sha b d v h cs e = Inr b' \<Longrightarrow> base_grows b b'"
  by (auto simp: insert_version_def elim!: bind_res_InrE dest: base_grows_register_document_version)

lemma base_grows_close_chunks: "fold_res (close_chunk e) cs b = Inr b' \<Longrightarrow> base_grows b b'"
proof (induction cs arbitrary: b)
  case Nil
  then show ?case by (simp add: base_grows_refl)
next
  case (Cons c cs)
  then obtain b1 where b1: "close_chunk e c b = Inr b1" "fold_res (close_chunk e) cs b1 = Inr b'"
    by (auto elim!: bind_res_InrE)
  have "base_grows b b1" using b1(1)
    by (auto simp: close_chunk_def elim!: bind_res_InrE intro: base_grows_frame base_grows_refl split: if_splits)
  then show ?case using Cons.IH [OF b1(2)] by (rule base_grows_trans)
qed

lemma base_grows_deactivate:
  assumes "deactivate_document_version b v e = Inr b'"
  shows "base_grows b b'"
proof -
  from assms obtain x cs where "fold_res (close_chunk e) cs (b\<lparr>document_version_validity := x\<rparr>) = Inr b'"
    by (auto simp: deactivate_document_version_def split: option.splits if_splits elim!: bind_res_InrE)
  moreover have "base_grows b (b\<lparr>document_version_validity := x\<rparr>)"
    by (rule base_grows_frame) simp_all
  ultimately show ?thesis using base_grows_close_chunks base_grows_trans by blast
qed

lemma base_grows_mutate:
  assumes "mutate sha b ev e = Inr b'"
  shows "base_grows b b'"
proof (cases ev)
  case (ReplaceDocumentVersionEvent i d old new h cs)
  then show ?thesis using assms base_grows_deactivate base_grows_insert_version base_grows_trans
    by (auto elim!: bind_res_InrE) blast
next
  case (PolicyChangeEvent i p)
  then show ?thesis using assms
    by (auto simp: activate_policy_def Let_def split: if_splits option.splits elim!: bind_res_InrE
        intro!: base_grows_frame)
next
  case (ObserveEvent i ob)
  then show ?thesis using assms
    by (auto simp: register_observation_Inr base_grows_def has_observation_id_def dmem_def)
qed (use assms base_grows_deactivate base_grows_insert_version in auto)

lemma base_grows_apply_event:
  assumes "apply_event sha dig b ev = Inr (ds, b')"
  shows "base_grows b b'"
proof (cases "recorded_event b (event_id ev)")
  case None
  let ?b = "b\<lparr>current_epoch := Suc (current_epoch b)\<rparr>"
  from apply_event_fresh [OF assms None] obtain b1 where
    b1: "mutate sha ?b ev (Suc (current_epoch b)) = Inr b1"
    and b': "b' = record_event b1 (event_id ev) (dig ev) ds" .
  have "base_grows b ?b" by (simp add: base_grows_def has_observation_id_def)
  moreover have "base_grows b1 b'" unfolding b' by (rule base_grows_frame) (simp_all add: record_event_def)
  ultimately show ?thesis using base_grows_mutate [OF b1] base_grows_trans by blast
next
  case (Some x)
  then show ?thesis using assms by (cases x) (auto simp: apply_event_def base_grows_refl split: if_splits)
qed

text \<open>
  The sidecar repositories a process can hold: created over a well-formed base, then driven by M5
  events (accepted, replayed or rejected), by M1 events on the base, by new semantic revisions and by
  queries that synchronise.
\<close>

inductive m5_reachable ::
    "(8 word list \<Rightarrow> string) \<Rightarrow> (rat \<Rightarrow> py_text) \<Rightarrow> (py_text \<Rightarrow> string) \<Rightarrow> (event \<Rightarrow> string) \<Rightarrow> m5_repo \<Rightarrow> bool"
  for sha256 :: "8 word list \<Rightarrow> string" and pack :: "rat \<Rightarrow> py_text"
    and sha :: "py_text \<Rightarrow> string" and dig :: "event \<Rightarrow> string" where
  m5_start: "reachable_repo sha dig base \<Longrightarrow> m5_reachable sha256 pack sha dig (new_m5_repo base revision)"
| m5_apply: "m5_reachable sha256 pack sha dig r \<Longrightarrow> m5_event_ok ev \<Longrightarrow>
    m5_reachable sha256 pack sha dig (snd (apply_m5_event sha256 pack inject r ev))"
| m5_base: "m5_reachable sha256 pack sha dig r \<Longrightarrow> apply_event sha dig (mr_base r) e = Inr (ds, b) \<Longrightarrow>
    m5_reachable sha256 pack sha dig (r\<lparr>mr_base := b\<rparr>)"
| m5_revision: "m5_reachable sha256 pack sha dig r \<Longrightarrow>
    m5_reachable sha256 pack sha dig (snd (advance_semantic_revision r))"
| m5_query: "m5_reachable sha256 pack sha dig r \<Longrightarrow>
    m5_reachable sha256 pack sha dig (synchronize_base_head r)"

lemma new_m5_repo_inv:
  assumes "repo_inv base"
  shows "m5_inv (new_m5_repo base revision)"
proof -
  let ?r = "new_m5_repo base revision"
  have keys: "dget (map (\<lambda>k. (k, 0 :: nat)) [0..<Suc e]) k = (if k \<le> e then Some 0 else None)" for e k
    by (simp add: dget_tabulate less_Suc_eq_le del: upt_Suc)
  have fields: "mr_base ?r = base" "mr_semantic_revision ?r = revision" "mr_groups ?r = []" "mr_families ?r = []"
    "mr_group_validity ?r = []" "mr_requirements ?r = []" "mr_retirements ?r = []" "mr_requirement_observations ?r = []"
    "mr_currency_history ?r = []" "mr_group_versions_by_family ?r = []" "mr_groups_by_claim ?r = []"
    "mr_max_revision_by_epoch ?r = dset (current_epoch base) (max (dget_default (map (\<lambda>k. (k, 0)) [0..<Suc (current_epoch base)]) (current_epoch base) 0) revision) (map (\<lambda>k. (k, 0)) [0..<Suc (current_epoch base)])"
    by (simp_all add: new_m5_repo_def Let_def)
  have "at_head ?r"
    by (auto simp: at_head_def m5_epoch_def fields keys dget_default_def dom_def simp del: upt_Suc)
  moreover have "groups_inv ?r" "families_inv ?r" "m5_observations_inv ?r"
    by (simp_all add: groups_inv_def families_inv_def rivals_apart_def m5_observations_inv_def fields)
  ultimately show ?thesis using assms at_head_points_inv by (simp add: m5_inv_def fields(1))
qed

lemma revision_frame [simp]:
  "groups_inv (r\<lparr>mr_semantic_revision := s, mr_max_revision_by_epoch := m\<rparr>) = groups_inv r"
  "families_inv (r\<lparr>mr_semantic_revision := s, mr_max_revision_by_epoch := m\<rparr>) = families_inv r"
  "m5_observations_inv (r\<lparr>mr_semantic_revision := s, mr_max_revision_by_epoch := m\<rparr>) = m5_observations_inv r"
  by (simp_all add: groups_inv_def families_inv_def m5_observations_inv_def history_ok_def m5_epoch_def)

lemma advance_semantic_revision_inv:
  assumes "m5_inv r"
  shows "m5_inv (snd (advance_semantic_revision r))"
proof -
  let ?s = "synchronize_base_head r"
  let ?n = "mr_semantic_revision ?s + 1"
  let ?m = "dset (m5_epoch r) ?n (mr_max_revision_by_epoch ?s)"
  let ?r = "?s\<lparr>mr_semantic_revision := ?n, mr_max_revision_by_epoch := ?m\<rparr>"
  note S = m5_inv_update_points [OF assms] synchronize_base_head_frame [of r]
  have head: "at_head ?r" using S(2,4) by (auto simp: at_head_def m5_epoch_def)
  have point: "current_point r = ((m5_epoch r, mr_semantic_revision ?s), ?s)"
    by (simp add: current_point_def Let_def S(4))
  have "snd (advance_semantic_revision r) = snd (current_point ?r)"
    by (simp add: advance_semantic_revision_def point Let_def S(4))
  then have "snd (advance_semantic_revision r) = ?r" using at_head_points(1) [OF head] by simp
  then show ?thesis using S(1) at_head_points_inv [OF head] unfolding m5_inv_def by simp
qed

lemma m5_reachable_inv: "m5_reachable sha256 pack sha dig r \<Longrightarrow> m5_inv r"
proof (induction rule: m5_reachable.induct)
  case (m5_start base revision)
  then show ?case by (intro new_m5_repo_inv reachable_repo_inv)
next
  case (m5_base r e ds b)
  have "repo_inv (mr_base r)" using m5_base.IH by (simp add: m5_inv_def)
  then show ?case
    using m5_base by (intro m5_inv_base) (auto intro: apply_event_inv base_grows_apply_event)
qed (auto intro: apply_m5_event_inv advance_semantic_revision_inv m5_inv_update_points)

end
