(* ===== verification/GL_M5Demo.thy ===== *)
theory GL_M5Demo
  imports GL_M5Reachable GL_Demo
begin

text \<open>
  The concrete sidecar repository at which the properties of M5 are instantiated: over the demo base
  with one more document, a group of two requirements, registered and observed on two texts.
\<close>

text \<open>A digest that looks at the last byte only; \<open>m5_pack\<close> renders every score alike.\<close>

definition m5_sha :: "8 word list \<Rightarrow> string" where
  "m5_sha bs = replicate 64 (if last bs = 66 then CHR ''b'' else CHR ''a'')"

definition m5_pack :: "rat \<Rightarrow> py_text" where
  "m5_pack x = [48]"

definition m5_base_ops :: "repo_op list" where
  "m5_base_ops =
     [RegisterQuestion \<lparr>qu_question_id = ''q1'', qu_text = [66]\<rparr>,
      ApplyEvent (PolicyChangeEvent ''e1'' (demo_policy ''p1'' (1 / 2))),
      RegisterAnswer
        \<lparr>av_answer_version_id = ''a1'', av_question_id = ''q1'', av_text = [65], av_producer = demo_stamp\<rparr>
        [demo_claim ''c1'' True],
      ApplyEvent (InsertDocumentEvent ''e2'' ''d1'' ''v1'' ''h1'' [demo_chunk ''k1'' [65]]),
      ApplyEvent (InsertDocumentEvent ''e3'' ''d2'' ''v2'' ''h2'' [demo_chunk ''k2'' [66]])]"

definition m5_base_repo :: repo where
  "m5_base_repo =
     \<lparr>current_epoch = 3,
      document_versions =
        [(''v1'', \<lparr>dv_document_version_id = ''v1'', dv_document_id = ''d1'', dv_content_hash = ''h1''\<rparr>),
         (''v2'', \<lparr>dv_document_version_id = ''v2'', dv_document_id = ''d2'', dv_content_hash = ''h2''\<rparr>)],
      document_version_validity = [(''v1'', 2, None), (''v2'', 3, None)],
      versions_by_document = [(''d1'', [''v1'']), (''d2'', [''v2''])],
      chunk_versions =
        [(''k1'', \<lparr>cv_chunk_version_id = ''k1'', cv_document_version_id = ''v1'', cv_chunk_index = 0,
           cv_text = [65], cv_text_hash = ''A''\<rparr>),
         (''k2'', \<lparr>cv_chunk_version_id = ''k2'', cv_document_version_id = ''v2'', cv_chunk_index = 0,
           cv_text = [66], cv_text_hash = ''B''\<rparr>)],
      chunk_validity = [(''k1'', 2, None), (''k2'', 3, None)],
      chunks_by_document_version = [(''v1'', [''k1'']), (''v2'', [''k2''])],
      questions = [(''q1'', \<lparr>qu_question_id = ''q1'', qu_text = [66]\<rparr>)],
      answers = [(''a1'', \<lparr>av_answer_version_id = ''a1'', av_question_id = ''q1'', av_text = [65],
        av_producer = demo_stamp\<rparr>)],
      claims = [(''c1'', demo_claim ''c1'' True)], claims_by_answer = [(''a1'', [''c1''])],
      observations = [], reserved_observation_ids = {}, current_by_key = [], superseded = {},
      observations_by_chunk = [], policies = [(''p1'', demo_policy ''p1'' (1 / 2))],
      policy_validity = [(''p1'', 1, None)], current_policy_version = Some ''p1'',
      processed_events = [(''e1'', ''policy_change:policy=p1'', []),
        (''e2'', ''insert:document_version=v1'', []), (''e3'', ''insert:document_version=v2'', [])],
      status_deltas = []\<rparr>"

lemma m5_base_run: "fold_res (run_op demo_sha demo_dig) m5_base_ops empty_repo = Inr m5_base_repo"
  by code_simp

lemma m5_base_reachable: "reachable_repo demo_sha demo_dig m5_base_repo"
  by (rule run_ops_reachable [OF m5_base_run rr_empty])

definition m5_requirement :: "string \<Rightarrow> int \<Rightarrow> py_text \<Rightarrow> evidence_requirement_version" where
  "m5_requirement q n t =
     \<lparr>er_requirement_version_id = q, er_group_version_id = ''g1'', er_ordinal = n,
      er_requirement_text = t, er_requirement_text_hash = m5_sha (map word_of_int t),
      er_constructor_model_id = None, er_constructor_model_version = None,
      er_constructor_prompt_version = None, er_supersedes_requirement_version_id = None\<rparr>"

definition m5_group :: evidence_group_version where
  "m5_group =
     \<lparr>eg_group_version_id = ''g1'', eg_group_family_id = ''f1'', eg_owner_claim_id = ''c1'',
      eg_requirements = [m5_requirement ''q0'' 0 [65], m5_requirement ''q1'' 1 [66]],
      eg_group_type = SUPPORT_CONJUNCTION, eg_construction_kind = GOLD, eg_construction_source_id = ''s'',
      eg_constructor_model_id = None, eg_constructor_model_version = None,
      eg_constructor_prompt_version = None, eg_supersedes_group_version_id = None,
      eg_semantic_structure_hash = replicate 64 CHR ''c'', eg_record_payload_hash = replicate 64 CHR ''d''\<rparr>"

definition m5_observation :: "string \<Rightarrow> string \<Rightarrow> string \<Rightarrow> semantic_observation" where
  "m5_observation i q c =
     \<lparr>ob_observation_id = i, ob_subject_kind = REQUIREMENT, ob_subject_id = q,
      ob_chunk_version_id = c, ob_task_type = canonical_requirement_task, ob_support_score = 1,
      ob_refute_score = 0, ob_neutral_score = 0, ob_producer = demo_stamp,
      ob_input_hash = replicate 64 CHR ''a''\<rparr>"

definition quiet :: "string \<Rightarrow> m5_repo \<Rightarrow> unit res" where
  "quiet phase staged = Inr ()"

text \<open>An event epoch, the group, and an observation of each requirement.\<close>

definition m5_demo0 :: m5_repo where
  "m5_demo0 = snd (begin_event_epoch (new_m5_repo m5_base_repo 0))"

definition m5_demo1 :: "m5_repo res" where
  "m5_demo1 = register_group m5_demo0 m5_group 4"

definition m5_demo2 :: "m5_repo \<Rightarrow> (requirement_observation_record \<times> m5_repo) res" where
  "m5_demo2 r = register_requirement_observation r (m5_observation ''r1'' ''q0'' ''k1'') (4, 0)"

definition m5_demo3 :: "m5_repo \<Rightarrow> (requirement_observation_record \<times> m5_repo) res" where
  "m5_demo3 r = register_requirement_observation r (m5_observation ''r2'' ''q1'' ''k2'') (4, 0)"

definition m5_demo_run :: "m5_repo res" where
  "m5_demo_run =
     bind_res m5_demo1 (\<lambda>r. bind_res (m5_demo2 r) (\<lambda>(_, r). bind_res (m5_demo3 r) (\<lambda>(_, r). Inr r)))"

definition m5_demo :: m5_repo where
  "m5_demo = projr m5_demo_run"

lemma m5_demo_run: "m5_demo_run = Inr m5_demo"
proof -
  have "isl m5_demo_run = False" by code_simp
  then show ?thesis by (simp add: m5_demo_def)
qed

lemma m5_group_valid: "group_valid m5_group"
  unfolding group_valid_def by code_simp

lemma m5_demo_ok: "m5_inv m5_demo" "at_head m5_demo" "m5_epoch m5_demo = 4"
proof -
  let ?r = "new_m5_repo m5_base_repo 0"
  have inv: "m5_inv ?r" by (rule new_m5_repo_inv [OF reachable_repo_inv [OF m5_base_reachable]])
  have e: "m5_epoch ?r = 3" by (simp add: m5_epoch_def new_m5_repo_def m5_base_repo_def Let_def)
  obtain r' where r': "begin_event_epoch ?r = ((m5_epoch ?r + 1, 0), r')" "m5_inv r'" "at_head r'"
    "m5_epoch r' = m5_epoch ?r + 1" using begin_event_epoch_ok [OF inv] by metis
  have "m5_demo0 = r'" by (simp add: m5_demo0_def r'(1))
  with r' e have 0: "m5_inv m5_demo0" "at_head m5_demo0" "m5_epoch m5_demo0 = 4" by simp_all
  note run = m5_demo_run [unfolded m5_demo_run_def]
  from run obtain r1 where 1: "m5_demo1 = Inr r1" by (auto simp: bind_res_Inr_iff)
  from run [unfolded 1] obtain t2 r2 where 2: "m5_demo2 r1 = Inr (t2, r2)" by (auto simp: bind_res_Inr_iff)
  from run [unfolded 1] 2 obtain t3 where 3: "m5_demo3 r2 = Inr (t3, m5_demo)" by (auto simp: bind_res_Inr_iff)
  have run: "register_group m5_demo0 m5_group (m5_epoch m5_demo0) = Inr r1" using 1 0(3) by (simp add: m5_demo1_def)
  have GF: "groups_inv m5_demo0" "families_inv m5_demo0" using 0(1) by (simp_all add: m5_inv_def)
  note S1 = same_sidecar_inv [OF register_group_same [OF run] 0(1) register_group_inv [OF GF m5_group_valid run]]
  note S2 = register_requirement_observation_inv [OF S1(1) S1(3) [OF 0(2)] 2 [unfolded m5_demo2_def]]
  note S3 = register_requirement_observation_inv [OF S2(1,2) 3 [unfolded m5_demo3_def]]
  show "m5_inv m5_demo" "at_head m5_demo" "m5_epoch m5_demo = 4" using S1 S2 S3 0(3) by simp_all
qed

end
