(* ===== verification/GL_M5Guarantees.thy ===== *)
theory GL_M5Guarantees
  imports GL_M5Demo
begin

text \<open>
  The properties of the sidecar repository and of its events, each instantiated at the demo
  repository \<open>m5_demo\<close>.
\<close>

section \<open>Uniqueness\<close>

lemma contiguous_from:
  "contiguous (iv # ivs) \<Longrightarrow> jv \<in> set ivs \<Longrightarrow>
    \<exists>e. ci_valid_to iv = Some e \<and> e \<le> ci_valid_from jv"
proof (induction ivs arbitrary: iv)
  case (Cons kv ivs)
  then have to: "ci_valid_to iv = Some (ci_valid_from kv)" "contiguous (kv # ivs)" by simp_all
  show ?case
  proof (cases "jv = kv")
    case True
    then show ?thesis using to by simp
  next
    case False
    then have jv: "jv \<in> set ivs" using Cons.prems(2) by simp
    from Cons.IH [OF to(2) jv] obtain e where e: "ci_valid_to kv = Some e" "e \<le> ci_valid_from jv" by auto
    have "ci_valid_from kv < e" using to(2) jv e(1) by (cases ivs) auto
    then have "ci_valid_from kv \<le> ci_valid_from jv" using e(2) by (rule order.strict_implies_order [OF order.strict_trans2])
    then show ?thesis using to(1) by simp
  qed
qed simp

lemma contiguous_tl: "contiguous (iv # ivs) \<Longrightarrow> ivs \<noteq> [] \<Longrightarrow> contiguous ivs"
  by (cases ivs) simp_all

lemma contiguous_holder_unique:
  "contiguous hs \<Longrightarrow> iv \<in> set hs \<Longrightarrow> jv \<in> set hs \<Longrightarrow> currency_contains iv p \<Longrightarrow> currency_contains jv p \<Longrightarrow>
    iv = jv"
proof (induction hs)
  case (Cons kv hs)
  have apart: "\<not> currency_contains x p" if "x \<in> set hs" "currency_contains kv p" for x
  proof -
    from contiguous_from [OF Cons.prems(1) that(1)] obtain e where "ci_valid_to kv = Some e" "e \<le> ci_valid_from x"
      by blast
    then show ?thesis using that(2) by (auto simp: currency_contains_def)
  qed
  show ?case
  proof (cases "iv = kv \<or> jv = kv")
    case True
    then show ?thesis using Cons.prems(2-5) apart by auto
  next
    case False
    then have in_hs: "iv \<in> set hs" "jv \<in> set hs" using Cons.prems(2,3) by auto
    then have "contiguous hs" using contiguous_tl [OF Cons.prems(1)] by force
    then show ?thesis using Cons.IH in_hs Cons.prems(4,5) by blast
  qed
qed simp

lemma rivals_not_active_together:
  assumes inv: "m5_inv r" and i: "dget (mr_groups r) i = Some g" "is_group_active r i e"
    and j: "dget (mr_groups r) j = Some h" "is_group_active r j e" and rival: "rival g h"
  shows "i = j"
proof (rule ccontr)
  assume other: "i \<noteq> j"
  from inv have "families_inv r" by (simp add: m5_inv_def)
  note apart = rivals_apartD [OF families_invD(15) [OF this] i(1) j(1) other rival]
  from i(2) j(2) show False using apart by (auto simp: is_group_active_def split: option.splits)
qed

lemma retired_not_active:
  assumes inv: "m5_inv r" and g: "dget (mr_groups r) i = Some g"
    and retired: "eg_group_family_id g \<in> dom (dget (mr_retirements r))" and e: "m5_epoch r \<le> e"
  shows "\<not> is_group_active r i e"
proof -
  from inv have F: "families_inv r" by (simp add: m5_inv_def)
  from families_invD(13) [OF F retired families_invD(5) [OF F g]] obtain v where
    v: "dget (mr_group_validity r) i = Some v" "closed_by v (m5_epoch r)" by blast
  show ?thesis using closed_not_contains [OF v(2) e] v(1) by (simp add: is_group_active_def)
qed

text \<open>C31: the invariant of the sidecar repository survives every event.  Whatever
  \<open>apply_m5_event\<close> does with a well-formed event (accepts it, answers it from the record, rejects
  it at any check, or aborts because the injector raised at any of the five phases), the repository
  it leaves is again well formed: base repository, groups with their requirements, families with at
  most one open version, currency histories, and snapshot points.\<close>

theorem m5_event_keeps_invariant:
  assumes "m5_inv r" and "m5_event_ok ev"
  shows "m5_inv (snd (apply_m5_event sha256 pack inject r ev))"
  by (rule apply_m5_event_inv [OF assms])

theorem m5_event_keeps_invariant_witness:
  "m5_inv (snd (apply_m5_event m5_sha m5_pack quiet m5_demo (RetireGroupEvent ''m1'' ''g1'')))"
  by (rule m5_event_keeps_invariant [OF m5_demo_ok(1)]) simp

text \<open>C32: what the sidecar promises its readers.  In every repository that arises from a
  well-formed base by M5 events, M1 events on the base, new semantic revisions and synchronising
  queries: at every epoch, past ones included, at most one version of a group family is active, and
  two active versions of one claim have different semantic structures; no version of a retired family
  is active at the current epoch or later; and at every snapshot point at most one interval of an
  observation key is in force, so the holder of a key is unique.\<close>

theorem m5_active_version_and_holder_unique:
  assumes "m5_reachable sha256 pack sha dig r"
  shows "(\<forall>e i j g h. dget (mr_groups r) i = Some g \<and> is_group_active r i e \<and>
       dget (mr_groups r) j = Some h \<and> is_group_active r j e \<and>
       eg_group_family_id g = eg_group_family_id h \<longrightarrow> i = j) \<and>
     (\<forall>e i j g h. dget (mr_groups r) i = Some g \<and> is_group_active r i e \<and>
       dget (mr_groups r) j = Some h \<and> is_group_active r j e \<and> i \<noteq> j \<and>
       eg_owner_claim_id g = eg_owner_claim_id h \<longrightarrow>
       eg_semantic_structure_hash g \<noteq> eg_semantic_structure_hash h) \<and>
     (\<forall>e i g. dget (mr_groups r) i = Some g \<and> eg_group_family_id g \<in> dom (dget (mr_retirements r)) \<and>
       m5_epoch r \<le> e \<longrightarrow> \<not> is_group_active r i e) \<and>
     (\<forall>k hs iv jv p. dget (mr_currency_history r) k = Some hs \<and> iv \<in> set hs \<and> jv \<in> set hs \<and>
       currency_contains iv p \<and> currency_contains jv p \<longrightarrow> iv = jv)"
proof (intro conjI allI impI)
  note inv = m5_reachable_inv [OF assms]
  fix e i j g h
  show "i = j" if "dget (mr_groups r) i = Some g \<and> is_group_active r i e \<and> dget (mr_groups r) j = Some h \<and>
      is_group_active r j e \<and> eg_group_family_id g = eg_group_family_id h"
    using rivals_not_active_together [OF inv, of i g e j h] that by (simp add: rival_def)
  show "eg_semantic_structure_hash g \<noteq> eg_semantic_structure_hash h"
    if "dget (mr_groups r) i = Some g \<and> is_group_active r i e \<and> dget (mr_groups r) j = Some h \<and>
      is_group_active r j e \<and> i \<noteq> j \<and> eg_owner_claim_id g = eg_owner_claim_id h"
    using rivals_not_active_together [OF inv, of i g e j h] that by (auto simp: rival_def)
  show "\<not> is_group_active r i e" if "dget (mr_groups r) i = Some g \<and>
      eg_group_family_id g \<in> dom (dget (mr_retirements r)) \<and> m5_epoch r \<le> e"
    using retired_not_active [OF inv] that by blast
  fix k hs iv jv p
  assume k: "dget (mr_currency_history r) k = Some hs \<and> iv \<in> set hs \<and> jv \<in> set hs \<and>
      currency_contains iv p \<and> currency_contains jv p"
  from inv have "m5_observations_inv r" by (simp add: m5_inv_def)
  then have "history_ok r k hs" using m5_observations_invD(7) k by blast
  then have "contiguous hs" by (simp add: history_ok_def)
  then show "iv = jv" using contiguous_holder_unique k by blast
qed

text \<open>
  Two histories with every case, from the repository \<open>m5_first\<close> with one group.  In \<open>m5_life\<close> the
  version is replaced by one with another structure, a second family takes up the first structure, and
  the first family is retired.  In \<open>m5_twice\<close> the requirement is observed twice under one key.
\<close>

definition m5_version :: "string \<Rightarrow> string \<Rightarrow> char \<Rightarrow> string option \<Rightarrow> evidence_group_version" where
  "m5_version i f c prior =
     m5_group\<lparr>eg_group_version_id := i, eg_group_family_id := f,
       eg_requirements := [(m5_requirement (i @ ''a'') 0 [65])\<lparr>er_group_version_id := i\<rparr>],
       eg_semantic_structure_hash := replicate 64 c, eg_supersedes_group_version_id := prior\<rparr>"

definition m5_replay :: "m5_event list \<Rightarrow> m5_repo \<Rightarrow> m5_repo" where
  "m5_replay evs r = fold (\<lambda>ev r. snd (apply_m5_event m5_sha m5_pack quiet r ev)) evs r"

lemma m5_replay_reachable:
  "m5_reachable m5_sha m5_pack demo_sha demo_dig r \<Longrightarrow> \<forall>ev \<in> set evs. m5_event_ok ev \<Longrightarrow>
    m5_reachable m5_sha m5_pack demo_sha demo_dig (m5_replay evs r)"
  unfolding m5_replay_def by (induction evs arbitrary: r) (auto intro: m5_apply)

definition m5_first :: m5_repo where
  "m5_first = (new_m5_repo m5_base_repo 0)\<lparr>
     mr_base := m5_base_repo\<lparr>current_epoch := 4,
       processed_events := processed_events m5_base_repo @ [(''m1'', replicate 64 CHR ''a'', [])]\<rparr>,
     mr_max_revision_by_epoch := [(0, 0), (1, 0), (2, 0), (3, 0), (4, 0)],
     mr_families := [(''f1'', \<lparr>gf_group_family_id = ''f1'', gf_claim_id = ''c1'', gf_created_epoch = 4\<rparr>)],
     mr_groups := [(''g1'', m5_version ''g1'' ''f1'' CHR ''c'' None)],
     mr_group_validity :=
       [(''g1'', \<lparr>gv_group_version_id = ''g1'', gv_valid_from_epoch = 4, gv_valid_to_epoch = None\<rparr>)],
     mr_group_versions_by_family := [(''f1'', [''g1''])], mr_groups_by_claim := [(''c1'', [''g1''])],
     mr_requirements_by_group := [(''g1'', [''g1a''])],
     mr_requirements := [(''g1a'', (m5_requirement ''g1a'' 0 [65])\<lparr>er_group_version_id := ''g1''\<rparr>)]\<rparr>"

lemma m5_versions_valid:
  "group_valid (m5_version ''g1'' ''f1'' CHR ''c'' None)"
  "group_valid (m5_version ''g2'' ''f1'' CHR ''e'' (Some ''g1''))"
  "group_valid (m5_version ''g3'' ''f2'' CHR ''c'' None)"
  unfolding group_valid_def by code_simp+

lemma m5_first_reachable: "m5_reachable m5_sha m5_pack demo_sha demo_dig m5_first"
proof -
  let ?evs = "[RegisterGroupEvent ''m1'' (m5_version ''g1'' ''f1'' CHR ''c'' None)]"
  have "m5_replay ?evs (new_m5_repo m5_base_repo 0) = m5_first" by code_simp
  moreover have "\<forall>ev \<in> set ?evs. m5_event_ok ev" by (simp add: m5_versions_valid)
  ultimately show ?thesis using m5_replay_reachable [OF m5_start [OF m5_base_reachable]] by metis
qed

definition m5_life :: m5_repo where
  "m5_life = m5_replay
     [ReplaceGroupEvent ''m2'' ''g1'' (m5_version ''g2'' ''f1'' CHR ''e'' (Some ''g1'')),
      RegisterGroupEvent ''m3'' (m5_version ''g3'' ''f2'' CHR ''c'' None),
      RetireGroupEvent ''m4'' ''g2''] m5_first"

lemma m5_life_reachable: "m5_reachable m5_sha m5_pack demo_sha demo_dig m5_life"
  unfolding m5_life_def by (rule m5_replay_reachable [OF m5_first_reachable]) (simp add: m5_versions_valid)

lemma m5_life_groups:
  "mr_group_validity m5_life =
     [(''g1'', \<lparr>gv_group_version_id = ''g1'', gv_valid_from_epoch = 4, gv_valid_to_epoch = Some 5\<rparr>),
      (''g2'', \<lparr>gv_group_version_id = ''g2'', gv_valid_from_epoch = 5, gv_valid_to_epoch = Some 7\<rparr>),
      (''g3'', \<lparr>gv_group_version_id = ''g3'', gv_valid_from_epoch = 6, gv_valid_to_epoch = None\<rparr>)] \<and>
   mr_groups m5_life =
     [(''g1'', m5_version ''g1'' ''f1'' CHR ''c'' None),
      (''g2'', m5_version ''g2'' ''f1'' CHR ''e'' (Some ''g1'')),
      (''g3'', m5_version ''g3'' ''f2'' CHR ''c'' None)] \<and>
   dkeys (mr_retirements m5_life) = [''f1''] \<and> m5_epoch m5_life = 7"
  by code_simp

text \<open>The repository an accepted event leaves, with the injector that never raises.\<close>

lemma apply_m5_event_quiet:
  assumes "\<not> blank (m5_event_id ev)" and "m5_event_payload_digest sha256 pack ev = Inr h"
    and "m5_recorded_event r (m5_event_id ev) = None"
    and "compute_reference_states sha256 r None = Inr (b, r)"
    and "m5_mutate (snd (begin_event_epoch r)) ev (fst (begin_event_epoch r)) = Inr r'"
    and "compute_reference_states sha256 r' None = Inr (a, r')" and "m5_deltas ev b a = Inr ds"
  shows "snd (apply_m5_event sha256 pack quiet r ev) = m5_record_event r' (m5_event_id ev) h ds"
proof -
  obtain p r2 where "begin_event_epoch r = (p, r2)" by (cases "begin_event_epoch r")
  then show ?thesis using assms by (simp add: apply_m5_event_def m5_stage_def quiet_def Let_def)
qed

text \<open>The requirement observed under event \<open>e\<close>, evaluated piece by piece.\<close>

definition m5_seen_event :: "string \<Rightarrow> string \<Rightarrow> m5_event" where
  "m5_seen_event e i = ObserveRequirementEvent e (m5_observation i ''g1a'' ''k1'')"

definition m5_states_of :: "m5_repo \<Rightarrow> m5_reference_states" where
  "m5_states_of r = fst (projr (compute_reference_states m5_sha r None))"

definition m5_observed :: "m5_repo \<Rightarrow> string \<Rightarrow> string \<Rightarrow> m5_repo" where
  "m5_observed r e i =
     (let (point, staged) = begin_event_epoch r in projr (m5_mutate staged (m5_seen_event e i) point))"

definition m5_seen_deltas :: "m5_repo \<Rightarrow> string \<Rightarrow> string \<Rightarrow> status_delta list" where
  "m5_seen_deltas r e i =
     projr (m5_deltas (m5_seen_event e i) (m5_states_of r) (m5_states_of (m5_observed r e i)))"

definition m5_seen :: "m5_repo \<Rightarrow> string \<Rightarrow> string \<Rightarrow> m5_repo" where
  "m5_seen r e i =
     m5_record_event (m5_observed r e i) e (replicate 64 CHR ''a'') (m5_seen_deltas r e i)"

definition m5_seen_runs :: "m5_repo \<Rightarrow> string \<Rightarrow> string \<Rightarrow> bool" where
  "m5_seen_runs r e i \<longleftrightarrow>
     (let ev = m5_seen_event e i; r' = m5_observed r e i; (point, staged) = begin_event_epoch r in
      \<not> blank e \<and> m5_event_ok ev \<and> m5_event_payload_digest m5_sha m5_pack ev = Inr (replicate 64 CHR ''a'') \<and>
      m5_recorded_event r e = None \<and>
      compute_reference_states m5_sha r None = Inr (m5_states_of r, r) \<and>
      m5_mutate staged ev point = Inr r' \<and>
      compute_reference_states m5_sha r' None = Inr (m5_states_of r', r') \<and>
      m5_deltas ev (m5_states_of r) (m5_states_of r') = Inr (m5_seen_deltas r e i))"

lemma m5_seen_reachable:
  assumes "m5_reachable m5_sha m5_pack demo_sha demo_dig r" and "m5_seen_runs r e i"
  shows "m5_reachable m5_sha m5_pack demo_sha demo_dig (m5_seen r e i)"
proof -
  have e: "m5_event_id (m5_seen_event e i) = e" by (simp add: m5_seen_event_def)
  have "snd (apply_m5_event m5_sha m5_pack quiet r (m5_seen_event e i)) =
      m5_record_event (m5_observed r e i) (m5_event_id (m5_seen_event e i)) (replicate 64 CHR ''a'') (m5_seen_deltas r e i)"
    by (rule apply_m5_event_quiet [where b = "m5_states_of r" and a = "m5_states_of (m5_observed r e i)"])
      (use assms(2) in \<open>simp_all add: m5_seen_runs_def e Let_def split: prod.splits\<close>)
  then have "snd (apply_m5_event m5_sha m5_pack quiet r (m5_seen_event e i)) = m5_seen r e i"
    by (simp only: e m5_seen_def)
  moreover have "m5_event_ok (m5_seen_event e i)"
    using assms(2) by (simp add: m5_seen_runs_def Let_def split: prod.splits)
  ultimately show ?thesis using m5_apply [OF assms(1)] by metis
qed

definition m5_once_deltas :: "status_delta list" where
  "m5_once_deltas =
     [\<lparr>sd_event_id = ''m2'', sd_object_type = ''claim'', sd_object_id = ''c1'',
        sd_old_status = ''unsupported'', sd_new_status = ''supported'',
        sd_reason = ''event=m2 op=observe_requirement observation=r1''\<rparr>,
      \<lparr>sd_event_id = ''m2'', sd_object_type = ''answer'', sd_object_id = ''a1'',
        sd_old_status = ''unsupported'', sd_new_status = ''valid'',
        sd_reason = ''event=m2 op=observe_requirement observation=r1''\<rparr>]"

definition m5_once :: m5_repo where
  "m5_once =
     (let k = (REQUIREMENT, ''g1a'', ''k1'', ''verify_requirement_v1'') in
      m5_first\<lparr>
        mr_base := (mr_base m5_first)\<lparr>current_epoch := 5, reserved_observation_ids := {''r1''},
          processed_events := processed_events (mr_base m5_first) @
            [(''m2'', replicate 64 CHR ''a'', m5_once_deltas)],
          status_deltas := m5_once_deltas\<rparr>,
        mr_max_revision_by_epoch := mr_max_revision_by_epoch m5_first @ [(5, 0)],
        mr_requirement_observations :=
          [(''r1'', \<lparr>ro_observation = m5_observation ''r1'' ''g1a'' ''k1'', ro_eligible_for_currency = True,
             ro_produced_at = (5, 0)\<rparr>)],
        mr_currency_history :=
          [(k, [\<lparr>ci_key = k, ci_observation_id = Some ''r1'', ci_valid_from = (5, 0), ci_valid_to = None\<rparr>])],
        mr_observations_by_chunk := [(''k1'', [''r1''])]\<rparr>)"

definition m5_twice :: m5_repo where
  "m5_twice = m5_seen m5_once ''m3'' ''r2''"

lemma m5_twice_reachable: "m5_reachable m5_sha m5_pack demo_sha demo_dig m5_twice"
proof -
  have "m5_seen_runs m5_first ''m2'' ''r1'' \<and> m5_seen m5_first ''m2'' ''r1'' = m5_once" by code_simp
  then have "m5_reachable m5_sha m5_pack demo_sha demo_dig m5_once"
    using m5_seen_reachable [OF m5_first_reachable] by metis
  moreover have "m5_seen_runs m5_once ''m3'' ''r2''" by code_simp
  ultimately show ?thesis unfolding m5_twice_def by (rule m5_seen_reachable)
qed

definition m5_interval :: "string \<Rightarrow> nat \<times> nat \<Rightarrow> (nat \<times> nat) option \<Rightarrow> observation_currency_interval" where
  "m5_interval i v w =
     \<lparr>ci_key = (REQUIREMENT, ''g1a'', ''k1'', ''verify_requirement_v1''), ci_observation_id = Some i,
      ci_valid_from = v, ci_valid_to = w\<rparr>"

lemma m5_twice_history:
  "mr_currency_history m5_twice =
     [((REQUIREMENT, ''g1a'', ''k1'', ''verify_requirement_v1''),
       [m5_interval ''r1'' (5, 0) (Some (6, 0)), m5_interval ''r2'' (6, 0) None])]"
  by code_simp

theorem m5_active_version_and_holder_unique_witness:
  "\<comment> \<open>one version of the family at an epoch: \<open>g1\<close> at 4, its successor \<open>g2\<close> from 5\<close>
   is_group_active m5_life ''g1'' 4 \<and> \<not> is_group_active m5_life ''g2'' 4 \<and>
   is_group_active m5_life ''g2'' 5 \<and> \<not> is_group_active m5_life ''g1'' 5 \<and>
   \<comment> \<open>\<open>g1\<close> and \<open>g3\<close>, of two families, have one structure: not active together\<close>
   is_group_active m5_life ''g3'' 6 \<and> \<not> is_group_active m5_life ''g1'' 6 \<and>
   \<comment> \<open>\<open>g2\<close> and \<open>g3\<close> are, with two structures\<close>
   is_group_active m5_life ''g2'' 6 \<and> eg_semantic_structure_hash (m5_version ''g2'' ''f1'' CHR ''e'' (Some ''g1'')) \<noteq>
     eg_semantic_structure_hash (m5_version ''g3'' ''f2'' CHR ''c'' None) \<and>
   \<comment> \<open>the family of \<open>g1\<close> and \<open>g2\<close> is retired at 7\<close>
   m5_epoch m5_life = 7 \<and> \<not> is_group_active m5_life ''g2'' 7 \<and> \<not> is_group_active m5_life ''g2'' 8 \<and>
   \<comment> \<open>the two intervals of the observed key\<close>
   dget (mr_currency_history m5_twice) (REQUIREMENT, ''g1a'', ''k1'', ''verify_requirement_v1'') =
     Some [m5_interval ''r1'' (5, 0) (Some (6, 0)), m5_interval ''r2'' (6, 0) None] \<and>
   currency_contains (m5_interval ''r1'' (5, 0) (Some (6, 0))) (5, 9) \<and>
   \<not> currency_contains (m5_interval ''r2'' (6, 0) None) (5, 9)"
proof -
  note life = m5_active_version_and_holder_unique [OF m5_life_reachable]
  note family = conjunct1 [OF life, rule_format]
    and apart = conjunct1 [OF conjunct2 [OF life], rule_format]
    and retired = conjunct1 [OF conjunct2 [OF conjunct2 [OF life]], rule_format]
  note twice = m5_active_version_and_holder_unique [OF m5_twice_reachable]
  note holder = conjunct2 [OF conjunct2 [OF conjunct2 [OF twice]], rule_format]
  let ?iv = "m5_interval ''r1'' (5, 0) (Some (6, 0))"
  let ?jv = "m5_interval ''r2'' (6, 0) None"
  let ?g1 = "m5_version ''g1'' ''f1'' CHR ''c'' None"
  let ?g2 = "m5_version ''g2'' ''f1'' CHR ''e'' (Some ''g1'')"
  let ?g3 = "m5_version ''g3'' ''f2'' CHR ''c'' None"
  have g: "dget (mr_groups m5_life) ''g1'' = Some ?g1" "dget (mr_groups m5_life) ''g2'' = Some ?g2"
    "dget (mr_groups m5_life) ''g3'' = Some ?g3"
    by (simp_all add: m5_life_groups)
  have act: "is_group_active m5_life ''g1'' 4" "is_group_active m5_life ''g2'' 5"
    "is_group_active m5_life ''g2'' 6" "is_group_active m5_life ''g3'' 6"
    by (simp_all add: is_group_active_def m5_life_groups validity_contains_def)
  have f: "eg_group_family_id ?g1 = eg_group_family_id ?g2"
    and c: "eg_owner_claim_id ?g1 = eg_owner_claim_id ?g3" "eg_owner_claim_id ?g2 = eg_owner_claim_id ?g3"
    and h: "eg_semantic_structure_hash ?g1 = eg_semantic_structure_hash ?g3"
    and t: "eg_group_family_id ?g2 \<in> dom (dget (mr_retirements m5_life))" "m5_epoch m5_life = 7"
    by (simp_all add: m5_version_def m5_group_def m5_life_groups flip: set_dkeys)
  let ?k = "(REQUIREMENT, ''g1a'', ''k1'', ''verify_requirement_v1'')"
  have k: "dget (mr_currency_history m5_twice) ?k = Some [?iv, ?jv]"
    by (simp add: m5_twice_history)
  have "\<not> is_group_active m5_life ''g2'' 4" "\<not> is_group_active m5_life ''g1'' 5"
    using family [where i = "''g1''" and j = "''g2''"] g act f by auto
  moreover have "\<not> is_group_active m5_life ''g1'' 6"
    using apart [where i = "''g1''" and j = "''g3''"] g act c(1) h by auto
  moreover have "eg_semantic_structure_hash ?g2 \<noteq> eg_semantic_structure_hash ?g3"
    using apart [where i = "''g2''" and j = "''g3''"] g act c(2) by auto
  moreover have "\<not> is_group_active m5_life ''g2'' 7" "\<not> is_group_active m5_life ''g2'' 8"
    using retired [where i = "''g2''"] g(2) t by auto
  moreover have "currency_contains ?iv (5, 9)" by code_simp
  moreover have "\<not> currency_contains ?jv (5, 9)"
    using holder [where k = ?k and hs = "[?iv, ?jv]" and iv = ?iv and jv = ?jv and p = "(5, 9)"] k calculation(7)
    by (auto simp: m5_interval_def)
  ultimately show ?thesis using act t(2) k by blast
qed

text \<open>C33: events are failure atomic.  When \<open>apply_m5_event\<close> raises, whatever the cause, the
  repository is the one before the call up to the synchronisation of its head: the same base
  repository (epoch, recorded events and deltas included), the same groups, the same requirements.\<close>

theorem m5_failed_event_changes_nothing:
  assumes "m5_inv r" and "apply_m5_event sha256 pack inject r ev = (Inl x, r')"
  shows "(r' = r \<or> r' = synchronize_base_head r) \<and> mr_base r' = mr_base r \<and> mr_groups r' = mr_groups r \<and>
    mr_requirements r' = mr_requirements r \<and> m5_recorded_event r' = m5_recorded_event r"
proof -
  have r': "r' = r \<or> r' = synchronize_base_head r"
  proof (cases rule: apply_m5_event_cases [of sha256 pack inject r ev])
    case (aborted h before r1 y)
    then show ?thesis using assms(2) compute_reference_states_sync(1) [OF assms(1) aborted(1)] by simp
  qed (use assms(2) in simp_all)
  with synchronize_base_head_frame [of r] show ?thesis by (auto simp: m5_recorded_event_def fun_eq_iff)
qed

definition crash_before_commit :: "string \<Rightarrow> m5_repo \<Rightarrow> unit res" where
  "crash_before_commit phase staged = (if phase = ''before_commit'' then Inl ValueError else Inr ())"

theorem m5_failed_event_changes_nothing_witness:
  "mr_groups (snd (apply_m5_event m5_sha m5_pack crash_before_commit m5_demo (RetireGroupEvent ''m1'' ''g1''))) =
     mr_groups m5_demo"
proof -
  let ?run = "apply_m5_event m5_sha m5_pack crash_before_commit m5_demo (RetireGroupEvent ''m1'' ''g1'')"
  have "isl (fst ?run) = True" by code_simp
  then obtain x where "?run = (Inl x, snd ?run)" by (metis isl_def prod.collapse)
  from m5_failed_event_changes_nothing [OF m5_demo_ok(1) this] show ?thesis by blast
qed

text \<open>C34: an event is applied once.  After an event was accepted or answered from the record,
  every event with the same identifier leaves the repository as it is: with the same payload it
  returns the deltas of the first application, marked as replayed; with another payload it is an
  \<open>EventConflictError\<close>; when its payload cannot be digested, the digest's own error.\<close>

theorem m5_event_is_applied_once:
  assumes "apply_m5_event sha256 pack inject r ev = (Inr res, r')" and "m5_event_id ev' = m5_event_id ev"
  shows "apply_m5_event sha256 pack inject' r' ev' =
    (case m5_event_payload_digest sha256 pack ev' of
       Inl x \<Rightarrow> Inl x
     | Inr h \<Rightarrow>
         if m5_event_payload_digest sha256 pack ev = Inr h
         then Inr \<lparr>ar_deltas = ar_deltas res, ar_replayed = True\<rparr> else Inl EventConflictError, r')"
proof -
  from apply_m5_event_answered [OF assms(1)] obtain h where h: "m5_event_payload_digest sha256 pack ev = Inr h"
    "\<not> blank (m5_event_id ev)" "m5_recorded_event r' (m5_event_id ev) = Some (h, ar_deltas res)" .
  have "m5_recorded_event r' (m5_event_id ev') = Some (h, ar_deltas res)" "\<not> blank (m5_event_id ev')"
    using h(2,3) assms(2) by simp_all
  from apply_m5_event_recorded [OF this] show ?thesis using h(1) by (auto split: sum.split)
qed

definition m5_retire :: m5_event where
  "m5_retire = RetireGroupEvent ''m1'' ''g1''"

definition m5_retired :: "m5_apply_result res \<times> m5_repo" where
  "m5_retired = apply_m5_event m5_sha m5_pack quiet m5_demo m5_retire"

lemma m5_retired_ok:
  "apply_m5_event m5_sha m5_pack quiet m5_demo m5_retire = (Inr (projr (fst m5_retired)), snd m5_retired)"
  "ar_replayed (projr (fst m5_retired)) = False"
proof -
  have "isl (fst m5_retired) = False \<and> ar_replayed (projr (fst m5_retired)) = False" by code_simp
  then show "apply_m5_event m5_sha m5_pack quiet m5_demo m5_retire = (Inr (projr (fst m5_retired)), snd m5_retired)"
    "ar_replayed (projr (fst m5_retired)) = False" by (simp_all add: m5_retired_def)
qed

theorem m5_event_is_applied_once_witness:
  "apply_m5_event m5_sha m5_pack crash_before_commit (snd m5_retired) m5_retire =
     (Inr \<lparr>ar_deltas = ar_deltas (projr (fst m5_retired)), ar_replayed = True\<rparr>, snd m5_retired)"
proof -
  have "isl (m5_event_payload_digest m5_sha m5_pack m5_retire) = False" by code_simp
  then show ?thesis
    using m5_event_is_applied_once [OF m5_retired_ok(1) refl, of crash_before_commit]
    by (auto split: sum.splits)
qed

text \<open>C35: the deltas are exact.  The deltas of an accepted new event are, claims before answers and
  each in identifier order, one entry for every claim and answer of the repository whose status in
  the full recomputation after the event differs from its status in the one before it; both
  recomputations succeed, the epoch has advanced by one, and the event is on record with its deltas.\<close>

theorem m5_deltas_are_exact:
  assumes "m5_inv r" and "m5_event_ok ev"
    and "apply_m5_event sha256 pack inject r ev = (Inr res, r')" and "\<not> ar_replayed res"
  shows "\<exists>before after.
    compute_reference_states sha256 r None = Inr (before, synchronize_base_head r) \<and>
    compute_reference_states sha256 r' None = Inr (after, r') \<and>
    ar_deltas res =
      m5_changes ev ''claim'' (claim_status_in before) (claim_status_in after) (sort (all_claim_ids (mr_base r))) @
      m5_changes ev ''answer'' (answer_status_in before) (answer_status_in after) (sort (all_answer_ids (mr_base r'))) \<and>
    m5_epoch r' = m5_epoch r + 1 \<and>
    (\<exists>h. m5_recorded_event r' (m5_event_id ev) = Some (h, ar_deltas res))"
proof -
  obtain h before after r1 r2 where
    b: "compute_reference_states sha256 r None = Inr (before, synchronize_base_head r)"
    and rec: "m5_recorded_event r' (m5_event_id ev) = Some (h, ar_deltas res)"
    and d: "m5_deltas ev before after = Inr (ar_deltas res)"
    and a: "compute_reference_states sha256 r' None = Inr (after, r')"
    and e: "m5_epoch r' = Suc (m5_epoch r)" and c: "claims (mr_base r') = claims (mr_base r)"
    using apply_m5_event_fresh [OF assms] by metis
  have inv': "m5_inv r'" using apply_m5_event_inv [OF assms(1,2)] assms(3) by (metis snd_conv)
  from compute_reference_states_Inr [OF inv' a] have
    "dkeys (ms_claims after) = all_claim_ids (mr_base r')" "dkeys (ms_answers after) = all_answer_ids (mr_base r')"
    using tabulate_res_Inr(1) by metis+
  moreover have "all_claim_ids (mr_base r') = all_claim_ids (mr_base r)" by (simp add: all_claim_ids_def c)
  ultimately show ?thesis using m5_deltas_Inr [OF d] b a rec e by auto
qed

theorem m5_deltas_are_exact_witness:
  "\<exists>before after. compute_reference_states m5_sha (snd m5_retired) None = Inr (after, snd m5_retired) \<and>
     ar_deltas (projr (fst m5_retired)) =
      m5_changes m5_retire ''claim'' (claim_status_in before) (claim_status_in after)
        (sort (all_claim_ids (mr_base m5_demo))) @
      m5_changes m5_retire ''answer'' (answer_status_in before) (answer_status_in after)
        (sort (all_answer_ids (mr_base (snd m5_retired))))"
proof -
  have "m5_event_ok m5_retire" by (simp add: m5_retire_def)
  moreover have "\<not> ar_replayed (projr (fst m5_retired))" by (simp add: m5_retired_ok(2))
  ultimately show ?thesis using m5_deltas_are_exact [OF m5_demo_ok(1) _ m5_retired_ok(1)] by blast
qed

end
