(* ===== verification/GL_M5States.thy ===== *)
theory GL_M5States
  imports GL_M5Guarantees
begin

text \<open>
  The full recomputation of \<open>m5/reference.py\<close> computes what it should: the witness texts of a
  requirement are the texts that a current observation supports it with, a group is complete exactly
  when its requirements have pairwise distinct witness texts, and a claim is supported by a direct
  observation or by a complete group.
\<close>

section \<open>Edges\<close>

text \<open>
  \<open>t\<close> supports the active requirement \<open>q\<close> with the text of hash \<open>h\<close>; \<open>edge_ids\<close> are the observation
  identifiers collected for \<open>q\<close> and \<open>h\<close>.
\<close>

definition supports_by ::
    "(8 word list \<Rightarrow> string) \<Rightarrow> m5_repo \<Rightarrow> nat \<Rightarrow> decision_policy \<Rightarrow> requirement_observation_record
      \<Rightarrow> string \<Rightarrow> string \<Rightarrow> bool" where
  "supports_by sha256 r epoch policy t q h \<longleftrightarrow>
     ro_eligible_for_currency t \<and> ob_task_type (ro_observation t) = canonical_requirement_task \<and>
     ob_subject_id (ro_observation t) = q \<and> is_requirement_active r q epoch = Inr True \<and>
     is_chunk_active_at r (ob_chunk_version_id (ro_observation t)) epoch = Inr True \<and>
     decide (ro_observation t) policy = SUPPORT \<and>
     bind_res (chunk_version_of (mr_base r) (ob_chunk_version_id (ro_observation t)))
       (\<lambda>chunk. normalized_text_hash_v1 sha256 (cv_text chunk)) = Inr h"

definition edge_ids :: "edges \<Rightarrow> string \<Rightarrow> string \<Rightarrow> string list" where
  "edge_ids es q h = dget_default (dget_default es q []) h []"

definition edges_ok :: "edges \<Rightarrow> bool" where
  "edges_ok es \<longleftrightarrow> (\<forall>q. dict_ok (dget_default es q []) \<and>
     (\<forall>h ids. dget (dget_default es q []) h = Some ids \<longrightarrow> ids \<noteq> []))"

lemma edge_ids_add_edge:
  "edge_ids (add_edge s t i es) q h = edge_ids es q h @ (if q = s \<and> h = t then [i] else [])"
  by (simp add: edge_ids_def add_edge_def dappend_def dget_default_def)

lemma edges_ok_add_edge: "edges_ok es \<Longrightarrow> edges_ok (add_edge s t i es)"
  by (auto simp: edges_ok_def add_edge_def dappend_def dget_default_def split: if_splits option.splits)

lemma scan_requirement_observation_cases:
  assumes "scan_requirement_observation sha256 r e policy t es = Inr es'"
  obtains (skip) "es' = es" and "\<And>q h. \<not> supports_by sha256 r e policy t q h"
  | (edge) h where "supports_by sha256 r e policy t (ob_subject_id (ro_observation t)) h"
      and "es' = add_edge (ob_subject_id (ro_observation t)) h (ob_observation_id (ro_observation t)) es"
proof (cases "ro_eligible_for_currency t \<and> ob_task_type (ro_observation t) = canonical_requirement_task \<and>
    is_requirement_active r (ob_subject_id (ro_observation t)) e = Inr True \<and>
    is_chunk_active_at r (ob_chunk_version_id (ro_observation t)) e = Inr True \<and>
    decide (ro_observation t) policy = SUPPORT")
  case True
  then obtain ch h where "chunk_version_of (mr_base r) (ob_chunk_version_id (ro_observation t)) = Inr ch"
    "normalized_text_hash_v1 sha256 (cv_text ch) = Inr h"
    "es' = add_edge (ob_subject_id (ro_observation t)) h (ob_observation_id (ro_observation t)) es"
    using assms by (auto simp: scan_requirement_observation_def Let_def bind_res_Inr_iff)
  then show thesis using True by (intro edge) (simp_all add: supports_by_def)
next
  case False
  then have no: "\<not> supports_by sha256 r e policy t q h" for q h by (auto simp: supports_by_def)
  have "es' = es"
    using assms False
    by (auto simp: scan_requirement_observation_def Let_def bind_res_Inr_iff split: if_split_asm)
  then show thesis using no by (rule skip)
qed

lemma supports_by_unique:
  "supports_by sha256 r e policy t q h \<Longrightarrow> supports_by sha256 r e policy t p k \<Longrightarrow> p = q \<and> k = h"
  by (auto simp: supports_by_def)

lemma scan_requirement_observation_Inr:
  assumes "scan_requirement_observation sha256 r e policy t es = Inr es'"
  shows "edge_ids es' q h = edge_ids es q h @
      (if supports_by sha256 r e policy t q h then [ob_observation_id (ro_observation t)] else [])"
    and "edges_ok es \<Longrightarrow> edges_ok es'"
proof -
  have "edge_ids es' q h = edge_ids es q h @
      (if supports_by sha256 r e policy t q h then [ob_observation_id (ro_observation t)] else []) \<and>
    (edges_ok es \<longrightarrow> edges_ok es')"
    using assms
  proof (cases rule: scan_requirement_observation_cases)
    case (edge k)
    have "supports_by sha256 r e policy t q h \<longleftrightarrow> q = ob_subject_id (ro_observation t) \<and> h = k"
      using edge(1) supports_by_unique [OF edge(1)] by metis
    then show ?thesis unfolding edge(2) by (simp add: edge_ids_add_edge edges_ok_add_edge)
  qed simp
  then show "edge_ids es' q h = edge_ids es q h @
      (if supports_by sha256 r e policy t q h then [ob_observation_id (ro_observation t)] else [])"
    and "edges_ok es \<Longrightarrow> edges_ok es'" by simp_all
qed

lemma scan_requirement_observations_Inr:
  "fold_res (scan_requirement_observation sha256 r e policy) obs es = Inr es' \<Longrightarrow>
    edge_ids es' q h = edge_ids es q h @
      map (\<lambda>t. ob_observation_id (ro_observation t)) (filter (\<lambda>t. supports_by sha256 r e policy t q h) obs) \<and>
    (edges_ok es \<longrightarrow> edges_ok es')"
proof (induction obs arbitrary: es)
  case (Cons t obs)
  then obtain es1 where s: "scan_requirement_observation sha256 r e policy t es = Inr es1"
    and f: "fold_res (scan_requirement_observation sha256 r e policy) obs es1 = Inr es'"
    by (auto simp: bind_res_Inr_iff)
  from scan_requirement_observation_Inr(1) [OF s, of q h] scan_requirement_observation_Inr(2) [OF s] Cons.IH [OF f] show ?case by auto
qed simp

lemma edges_ok_Nil [simp]: "edges_ok []" "edge_ids [] q h = []"
  by (simp_all add: edges_ok_def edge_ids_def dget_default_def)

section \<open>The observations in force\<close>

text \<open>\<open>t\<close> is registered, and an interval of its key that contains \<open>p\<close> names it.\<close>

definition current_record :: "m5_repo \<Rightarrow> snapshot_point \<Rightarrow> requirement_observation_record \<Rightarrow> bool" where
  "current_record r p t \<longleftrightarrow>
     (\<exists>k hs iv i. dget (mr_currency_history r) k = Some hs \<and> iv \<in> set hs \<and> currency_contains iv p \<and>
        ci_observation_id iv = Some i \<and> dget (mr_requirement_observations r) i = Some t)"

lemma holder_at_Some:
  "holder_at hs p = Some i \<Longrightarrow> \<exists>iv \<in> set hs. currency_contains iv p \<and> ci_observation_id iv = Some i"
  by (induction hs) (auto split: if_splits)

lemma holder_at_contains:
  "iv \<in> set hs \<Longrightarrow> currency_contains iv p \<Longrightarrow> \<exists>jv \<in> set hs. currency_contains jv p \<and> holder_at hs p = ci_observation_id jv"
  by (induction hs) auto

lemma holder_at_iff:
  assumes "contiguous hs"
  shows "holder_at (rev hs) p = Some i \<longleftrightarrow>
    (\<exists>iv \<in> set hs. currency_contains iv p \<and> ci_observation_id iv = Some i)"
proof
  show "\<exists>iv \<in> set hs. currency_contains iv p \<and> ci_observation_id iv = Some i" if "holder_at (rev hs) p = Some i"
    using holder_at_Some [OF that] by simp
  assume "\<exists>iv \<in> set hs. currency_contains iv p \<and> ci_observation_id iv = Some i"
  then obtain iv where iv: "iv \<in> set hs" "currency_contains iv p" "ci_observation_id iv = Some i" by blast
  have "\<exists>jv \<in> set (rev hs). currency_contains jv p \<and> holder_at (rev hs) p = ci_observation_id jv"
    by (rule holder_at_contains) (use iv in simp_all)
  then obtain jv where jv: "jv \<in> set hs" "currency_contains jv p" "holder_at (rev hs) p = ci_observation_id jv"
    by (metis set_rev)
  have "iv = jv" by (rule contiguous_holder_unique [OF assms iv(1) jv(1) iv(2) jv(2)])
  then show "holder_at (rev hs) p = Some i" using iv(3) jv(3) by simp
qed

lemma set_map_filter_iff: "y \<in> set (List.map_filter f xs) \<longleftrightarrow> (\<exists>x \<in> set xs. f x = Some y)"
  by (induction xs) (auto simp: List.map_filter_def)

lemma current_requirement_observations_set:
  assumes inv: "m5_inv r" and head: "at_head r" and ok: "current_requirement_observations r p = Inr (obs, r')"
  shows "set obs = {t. current_record r p t}"
proof -
  let ?holder = "\<lambda>k. holder_at (rev (dget_default (mr_currency_history r) k [])) p"
  let ?ids = "sort (List.map_filter ?holder (dkeys (mr_currency_history r)))"
  from inv have obsinv: "m5_observations_inv r" by (simp add: m5_inv_def)
  have "list_all2 (\<lambda>i t. lookup KeyError (mr_requirement_observations r) i = Inr t) ?ids obs"
    using current_requirement_observations_Inr(2) [OF head ok] by (simp add: traverse_Inr_conv)
  then have "set obs = {t. \<exists>i \<in> set ?ids. dget (mr_requirement_observations r) i = Some t}"
    by (induction rule: list_all2_induct) (auto simp: lookup_Inr_iff)
  also have "\<dots> = {t. current_record r p t}"
  proof (intro Collect_cong)
    fix t
    have "i \<in> set ?ids \<longleftrightarrow> (\<exists>k hs iv. dget (mr_currency_history r) k = Some hs \<and> iv \<in> set hs \<and>
        currency_contains iv p \<and> ci_observation_id iv = Some i)" for i
    proof -
      have "i \<in> set ?ids \<longleftrightarrow> (\<exists>k \<in> dom (dget (mr_currency_history r)). ?holder k = Some i)"
        unfolding set_sort set_map_filter_iff set_dkeys ..
      also have "\<dots> \<longleftrightarrow> (\<exists>k hs. dget (mr_currency_history r) k = Some hs \<and> holder_at (rev hs) p = Some i)"
        by force
      also have "\<dots> \<longleftrightarrow> (\<exists>k hs iv. dget (mr_currency_history r) k = Some hs \<and> iv \<in> set hs \<and>
          currency_contains iv p \<and> ci_observation_id iv = Some i)"
        using m5_observations_invD(7) [OF obsinv] holder_at_iff unfolding history_ok_def by meson
      finally show ?thesis .
    qed
    then show "(\<exists>i \<in> set ?ids. dget (mr_requirement_observations r) i = Some t) = current_record r p t"
      unfolding current_record_def by blast
  qed
  finally show ?thesis .
qed


section \<open>Requirement states\<close>

lemma set_sort_dkeys_edges:
  "edges_ok es \<Longrightarrow> set (sort (dkeys (dget_default es q []))) = {h. edge_ids es q h \<noteq> []}"
  unfolding set_sort set_dkeys edges_ok_def edge_ids_def
  by (auto simp: dget_default_def split: option.splits)

lemma set_concat_dvalues:
  assumes "dict_ok d"
  shows "set (concat (dvalues d)) = {i. \<exists>h. i \<in> set (dget_default d h [])}"
proof -
  have "i \<in> set (concat (dvalues d)) \<longleftrightarrow> (\<exists>h is. (h, is) \<in> set d \<and> i \<in> set is)" for i by force
  also have "\<dots> i \<longleftrightarrow> (\<exists>h is. dget d h = Some is \<and> i \<in> set is)" for i
    by (simp add: dget_in_set [OF assms])
  also have "\<dots> i \<longleftrightarrow> (\<exists>h. i \<in> set (dget_default d h []))" for i
    unfolding dget_default_def by (metis (no_types, lifting) list.set_cases list.distinct(1) option.case_eq_if option.collapse option.distinct(1) option.sel)
  finally show ?thesis by blast
qed

lemma map_insort_key: "map f (insort_key f x xs) = insort (f x) (map f xs)"
  by (induction xs) simp_all

lemma map_sort_key: "map f (sort_key f xs) = sort (map f xs)"
  by (induction xs) (simp_all add: map_insort_key)

lemma sort_dkeys_sorted_edges: "sort (dkeys (sorted_edges d)) = sort (dkeys d)"
  by (simp add: sorted_edges_def case_prod_beta comp_def map_sort_key sorted_sort_id)

lemma active_requirement_ids_Inr:
  assumes "active_requirement_ids r e = Inr active"
  shows "set active = {q \<in> dom (dget (mr_requirements r)). is_requirement_active r q e = Inr True}"
proof -
  from assms obtain flags where f: "traverse (\<lambda>q. is_requirement_active r q e) (all_requirement_ids r) = Inr flags"
    and active: "active = map fst (filter snd (zip (all_requirement_ids r) flags))"
    by (auto simp: active_requirement_ids_def bind_res_Inr_iff)
  from f have l: "list_all2 (\<lambda>q b. is_requirement_active r q e = Inr b) (all_requirement_ids r) flags"
    by (simp add: traverse_Inr_conv)
  then have "set (map fst (filter snd (zip (all_requirement_ids r) flags))) =
      {q \<in> set (all_requirement_ids r). is_requirement_active r q e = Inr True}"
    by (induction rule: list_all2_induct) (auto split: if_splits)
  then show ?thesis unfolding active all_requirement_ids_def set_dkeys .
qed

lemma is_requirement_active_dom: "is_requirement_active r q e = Inr b \<Longrightarrow> q \<in> dom (dget (mr_requirements r))"
  by (auto simp: is_requirement_active_def requirement_of_def bind_res_Inr_iff lookup_Inr_iff)

lemma dget_tabulate_iff: "dget (map (\<lambda>k. (k, f k)) ks) k = (if k \<in> set ks then Some (f k) else None)"
  by (induction ks) auto

text \<open>The requirement states and the edges of a recomputation at the head.\<close>

lemma active_requirement_edges_spec:
  assumes inv: "m5_inv r" and head: "at_head r"
    and ok: "active_requirement_edges sha256 r p = Inr (edges, states, r')"
  obtains policy where "policy_at r (fst p) = Inr policy"
    and "\<And>q. q \<in> dom (dget states) \<longleftrightarrow> is_requirement_active r q (fst p) = Inr True"
    and "\<And>q s. dget states q = Some s \<Longrightarrow>
      rs_requirement_version_id s = q \<and> sorted (rs_witness_hashes s) \<and>
      set (rs_witness_hashes s) = {h. \<exists>t. current_record r p t \<and> supports_by sha256 r (fst p) policy t q h} \<and>
      set (rs_supporting_observation_ids s) = {ob_observation_id (ro_observation t) | t h.
        current_record r p t \<and> supports_by sha256 r (fst p) policy t q h} \<and>
      rs_witness_count s = card (set (rs_witness_hashes s)) \<and>
      (rs_satisfied s \<longleftrightarrow> set (rs_witness_hashes s) \<noteq> {})"
    and "\<And>q. q \<in> dom (dget states) \<Longrightarrow> sort (dkeys (dget_default edges q [])) = rs_witness_hashes (the (dget states q))"
proof -
  obtain policy obs found active where "r' = r" and pol: "policy_at r (fst p) = Inr policy"
    and obs: "current_requirement_observations r p = Inr (obs, r)"
    and found: "fold_res (scan_requirement_observation sha256 r (fst p) policy) obs [] = Inr found"
    and active: "active_requirement_ids r (fst p) = Inr active"
    and edges: "edges = map (\<lambda>q. (q, sorted_edges (dget_default found q []))) active"
    and states: "states = map (\<lambda>q. (q, requirement_state_of q (dget_default found q []))) active"
    by (rule active_requirement_edges_Inr [OF head ok])
  note F = scan_requirement_observations_Inr [OF found]
  have ok: "edges_ok found" using F by simp
  have ids: "set (edge_ids found q h) = {ob_observation_id (ro_observation t) | t.
      current_record r p t \<and> supports_by sha256 r (fst p) policy t q h}" for q h
    using F [of q h] current_requirement_observations_set [OF inv head obs] by auto
  have dom: "q \<in> dom (dget states) \<longleftrightarrow> is_requirement_active r q (fst p) = Inr True" for q
    using active_requirement_ids_Inr [OF active] is_requirement_active_dom [of r q "fst p"]
    by (auto simp: states dget_tabulate_iff dom_def)
  show thesis
  proof (rule that [OF pol dom])
    fix q s assume "dget states q = Some s"
    then have s: "s = requirement_state_of q (dget_default found q [])"
      by (simp add: states dget_tabulate_iff split: if_splits)
    let ?d = "dget_default found q []"
    have d: "dict_ok ?d" using ok by (simp add: edges_ok_def)
    have hashes: "set (sort (dkeys ?d)) = {h. \<exists>t. current_record r p t \<and> supports_by sha256 r (fst p) policy t q h}"
    proof -
      have "edge_ids found q h \<noteq> [] \<longleftrightarrow> (\<exists>t. current_record r p t \<and> supports_by sha256 r (fst p) policy t q h)" for h
        using ids [of q h] by (auto simp flip: set_empty)
      then show ?thesis unfolding set_sort_dkeys_edges [OF ok] by simp
    qed
    have "set (rs_supporting_observation_ids s) = {i. \<exists>h. i \<in> set (edge_ids found q h)}"
      using set_concat_dvalues [OF d] by (simp add: s requirement_state_of_def Let_def edge_ids_def)
    then have supporting: "set (rs_supporting_observation_ids s) = {ob_observation_id (ro_observation t) | t h.
        current_record r p t \<and> supports_by sha256 r (fst p) policy t q h}" unfolding ids by blast
    have fields: "rs_requirement_version_id s = q" "rs_witness_hashes s = sort (dkeys ?d)"
      "rs_witness_count s = length (sort (dkeys ?d))" "rs_satisfied s = (sort (dkeys ?d) \<noteq> [])"
      by (simp_all add: s requirement_state_of_def Let_def)
    have "rs_witness_count s = card (set (rs_witness_hashes s))"
      using distinct_card [of "sort (dkeys ?d)"] d unfolding fields dict_ok_def by simp
    moreover have "rs_satisfied s \<longleftrightarrow> set (rs_witness_hashes s) \<noteq> {}" unfolding fields set_empty ..
    ultimately show "rs_requirement_version_id s = q \<and> sorted (rs_witness_hashes s) \<and>
      set (rs_witness_hashes s) = {h. \<exists>t. current_record r p t \<and> supports_by sha256 r (fst p) policy t q h} \<and>
      set (rs_supporting_observation_ids s) = {ob_observation_id (ro_observation t) | t h.
        current_record r p t \<and> supports_by sha256 r (fst p) policy t q h} \<and>
      rs_witness_count s = card (set (rs_witness_hashes s)) \<and>
      (rs_satisfied s \<longleftrightarrow> set (rs_witness_hashes s) \<noteq> {})"
      using supporting hashes unfolding fields(1,2) by (intro conjI) (rule refl sorted_sort | assumption)+
  next
    fix q assume "q \<in> dom (dget states)"
    then have "q \<in> set active" by (auto simp: states dget_tabulate_iff dom_def split: if_splits)
    then show "sort (dkeys (dget_default edges q [])) = rs_witness_hashes (the (dget states q))"
      using sort_dkeys_sorted_edges [of "dget_default found q []"]
      by (simp add: edges states dget_tabulate_iff requirement_state_of_def Let_def)
  qed
qed


section \<open>Group states\<close>

text \<open>A choice of pairwise distinct witness texts, one for each requirement.\<close>

definition distinct_choice :: "string set list \<Rightarrow> bool" where
  "distinct_choice ws \<longleftrightarrow> (\<exists>f. inj_on f {..<length ws} \<and> (\<forall>i < length ws. f i \<in> ws ! i))"

lemma full_matching_iff:
  "(\<exists>P. is_matching ns P \<and> card P = length ns) \<longleftrightarrow> distinct_choice (map set ns)"
proof
  assume "\<exists>P. is_matching ns P \<and> card P = length ns"
  then obtain P where P: "is_matching ns P" "card P = length ns" by blast
  have sub: "fst ` P \<subseteq> {..<length ns}" using P(1) by (auto simp: is_matching_def)
  have "card (fst ` P) = length ns" using P by (simp add: is_matching_def card_image)
  then have all: "fst ` P = {..<length ns}" using sub card_subset_eq [of "{..<length ns}" "fst ` P"] by simp
  have "\<exists>h. (i, h) \<in> P" if "i < length ns" for i
  proof -
    have "i \<in> fst ` P" unfolding all using that by simp
    then show ?thesis by force
  qed
  then obtain f where f: "\<And>i. i < length ns \<Longrightarrow> (i, f i) \<in> P" by metis
  have "inj_on f {..<length ns}"
  proof (rule inj_onI)
    fix i j assume "i \<in> {..<length ns}" "j \<in> {..<length ns}" "f i = f j"
    then have "(i, f i) \<in> P" "(j, f i) \<in> P" using f [of i] f [of j] by simp_all
    then show "i = j" using P(1) unfolding is_matching_def inj_on_def by (metis fst_conv snd_conv)
  qed
  moreover have "\<forall>i < length ns. f i \<in> set (ns ! i)" using f P(1) unfolding is_matching_def by blast
  ultimately show "distinct_choice (map set ns)" by (auto simp: distinct_choice_def)
next
  assume "distinct_choice (map set ns)"
  then obtain f where f: "inj_on f {..<length ns}" "\<forall>i < length ns. f i \<in> set (ns ! i)"
    by (auto simp: distinct_choice_def)
  let ?P = "(\<lambda>i. (i, f i)) ` {..<length ns}"
  have "inj_on (\<lambda>i. (i, f i)) {..<length ns}" by (rule inj_onI) simp
  then have "card ?P = length ns" by (simp add: card_image)
  moreover have "is_matching ns ?P" using f by (auto simp: is_matching_def inj_on_def)
  ultimately show "\<exists>P. is_matching ns P \<and> card P = length ns" by blast
qed

lemma maximum_matching_complete:
  assumes "maximum_matching_with_unmatched_branch ns = Inr m"
  shows "rm_size m = int (length ns) \<longleftrightarrow> distinct_choice (map set ns)"
proof -
  obtain m' where m': "maximum_matching_with_unmatched_branch ns = Inr m'"
    "is_matching ns (assignment_pairs (rm_assignment_by_ordinal m'))"
    "int (card (assignment_pairs (rm_assignment_by_ordinal m'))) = rm_size m'"
    "\<And>P. is_matching ns P \<Longrightarrow> int (card P) \<le> rm_size m'"
    by (rule maximum_matching_matching [of ns], rule that)
  have m: "m' = m" using assms m'(1) by simp
  have "card P \<le> length ns" if "is_matching ns P" for P
    using matching_deficiency [OF that, of "{}"] by (simp add: adjacent_def)
  with m' [unfolded m] have "rm_size m = int (length ns) \<longleftrightarrow> (\<exists>P. is_matching ns P \<and> card P = length ns)"
    by (metis le_antisym nat_int of_nat_le_iff)
  then show ?thesis by (simp add: full_matching_iff)
qed

lemma traverse_map: "traverse f (map h xs) = traverse (f \<circ> h) xs"
  by (induction xs) simp_all

lemma requirements_of_group:
  assumes inv: "m5_inv r" and g: "dget (mr_groups r) i = Some g"
  shows "requirement_ids_for_group r i = Inr (map er_requirement_version_id (eg_requirements g))"
    and "traverse (requirement_of r) (map er_requirement_version_id (eg_requirements g)) = Inr (eg_requirements g)"
    and "q \<in> set (eg_requirements g) \<Longrightarrow>
      is_requirement_active r (er_requirement_version_id q) e = Inr (is_group_active r i e)"
    and "eg_requirements g \<noteq> []"
proof -
  from inv have G: "groups_inv r" by (simp add: m5_inv_def)
  note I = groups_invD [OF G]
  show "requirement_ids_for_group r i = Inr (map er_requirement_version_id (eg_requirements g))"
    using I(6) [OF g] g by (simp add: requirement_ids_for_group_def group_of_def)
  have req: "requirement_of r (er_requirement_version_id q) = Inr q" if "q \<in> set (eg_requirements g)" for q
    using I(7) [OF g that] by (simp add: requirement_of_def)
  then have "traverse (requirement_of r \<circ> er_requirement_version_id) (eg_requirements g) = Inr (eg_requirements g)"
    using traverse_Inr_map [of "eg_requirements g" "requirement_of r \<circ> er_requirement_version_id" id] by simp
  then show "traverse (requirement_of r) (map er_requirement_version_id (eg_requirements g)) = Inr (eg_requirements g)"
    by (simp add: traverse_map)
  show "is_requirement_active r (er_requirement_version_id q) e = Inr (is_group_active r i e)"
    if q: "q \<in> set (eg_requirements g)"
    using req [OF q] group_validD(4) [OF I(5) [OF g] q] I(4) [OF g] by (simp add: is_requirement_active_def)
  show "eg_requirements g \<noteq> []" using group_validD(1) [OF I(5) [OF g]] by auto
qed

definition witness_texts :: "m5_reference_states \<Rightarrow> string \<Rightarrow> string set" where
  "witness_texts st q = (case dget (ms_requirements st) q of None \<Rightarrow> {} | Some s \<Rightarrow> set (rs_witness_hashes s))"

lemma group_states_spec:
  assumes inv: "m5_inv r" and ok: "compute_reference_states sha256 r None = Inr (st, r')"
  shows "g \<in> dom (dget (ms_groups st)) \<longleftrightarrow> g \<in> dom (dget (mr_groups r)) \<and> is_group_active r g (m5_epoch r)"
    and "dget (ms_groups st) g = Some s \<Longrightarrow> dget (mr_groups r) g = Some v \<Longrightarrow>
      gs_requirement_count s = length (eg_requirements v) \<and>
      gs_satisfied_count s = length (filter (\<lambda>q. witness_texts st (er_requirement_version_id q) \<noteq> {}) (eg_requirements v)) \<and>
      gs_matching_size s \<le> gs_requirement_count s \<and>
      (gs_complete s \<longleftrightarrow> distinct_choice (map (\<lambda>q. witness_texts st (er_requirement_version_id q)) (eg_requirements v)))"
proof -
  note inv' = compute_reference_states_sync [OF inv ok]
  have same: "m5_epoch r' = m5_epoch r" "mr_groups r' = mr_groups r" "mr_group_validity r' = mr_group_validity r"
    unfolding inv'(1) by (rule synchronize_base_head_frame)+ (simp add: synchronize_base_head_def Let_def)
  have active: "is_group_active r' = is_group_active r" by (simp add: fun_eq_iff is_group_active_def same)
  let ?e = "m5_epoch r'"
  obtain edges direct answers where
    edges: "active_requirement_edges sha256 r' (?e, mr_semantic_revision r') = Inr (edges, ms_requirements st, r')"
    and groups: "tabulate_res (compute_group_state r' edges) (active_group_ids r' ?e) = Inr (ms_groups st)"
    by (rule compute_reference_states_Inr [OF inv ok], rule that)
  obtain policy where dom: "\<And>q. q \<in> dom (dget (ms_requirements st)) \<longleftrightarrow> is_requirement_active r' q ?e = Inr True"
    and rows: "\<And>q. q \<in> dom (dget (ms_requirements st)) \<Longrightarrow>
      sort (dkeys (dget_default edges q [])) = rs_witness_hashes (the (dget (ms_requirements st) q))"
    by (rule active_requirement_edges_spec [OF inv'(2,3) edges, unfolded fst_conv], rule that)
  have "dom (dget (ms_groups st)) = set (active_group_ids r' ?e)"
    using tabulate_res_Inr(1) [OF groups] set_dkeys by metis
  then show "g \<in> dom (dget (ms_groups st)) \<longleftrightarrow> g \<in> dom (dget (mr_groups r)) \<and> is_group_active r g (m5_epoch r)"
    unfolding active_group_ids_def set_filter set_dkeys same active by blast
  assume s: "dget (ms_groups st) g = Some s" and v: "dget (mr_groups r) g = Some v"
  have g: "dget (mr_groups r') g = Some v" using v by (simp add: same)
  note R = requirements_of_group [OF inv'(2) g]
  have t: "g \<in> set (active_group_ids r' ?e)" "compute_group_state r' edges g = Inr s"
    using tabulate_res_Inr(2) [OF groups s] by blast+
  have act: "is_group_active r' g ?e" using t(1) by (simp add: active_group_ids_def)
  let ?ns = "group_neighbors edges (map er_requirement_version_id (eg_requirements v))"
  obtain m where m: "maximum_matching_with_unmatched_branch ?ns = Inr m"
    and s': "s = \<lparr>gs_group_version_id = g, gs_requirement_count = length (eg_requirements v),
      gs_satisfied_count = length (filter (\<lambda>ns. ns \<noteq> []) ?ns), gs_matching_size = nat (rm_size m),
      gs_complete = (eg_requirements v \<noteq> [] \<and> rm_size m = int (length (eg_requirements v)))\<rparr>"
    using t(2) by (auto simp: compute_group_state_def R(1,2) Let_def bind_res_Inr_iff)
  have w: "witness_texts st (er_requirement_version_id q) = set (sort (dkeys (dget_default edges (er_requirement_version_id q) [])))"
    if "q \<in> set (eg_requirements v)" for q
  proof -
    have "er_requirement_version_id q \<in> dom (dget (ms_requirements st))"
      unfolding dom using R(3) [OF that] act by simp
    from rows [OF this] this show ?thesis by (auto simp: witness_texts_def)
  qed
  have texts: "map set ?ns = map (\<lambda>q. witness_texts st (er_requirement_version_id q)) (eg_requirements v)"
    unfolding group_neighbors_def map_map comp_def by (rule map_cong [OF refl], rule w [symmetric])
  have "map (\<lambda>ns. ns \<noteq> []) ?ns = map (\<lambda>x. x \<noteq> {}) (map set ?ns)" by (simp add: comp_def)
  also have "\<dots> = map (\<lambda>q. witness_texts st (er_requirement_version_id q) \<noteq> {}) (eg_requirements v)"
    unfolding texts by (simp add: comp_def)
  finally have flags: "map (\<lambda>ns. ns \<noteq> []) ?ns = map (\<lambda>q. witness_texts st (er_requirement_version_id q) \<noteq> {}) (eg_requirements v)" .
  have count: "length (filter P xs) = length (filter id (map P xs))" for P xs by (simp add: filter_map comp_def)
  have len: "length ?ns = length (eg_requirements v)" by (simp add: group_neighbors_def)
  have le: "nat (rm_size m) \<le> length (eg_requirements v)"
  proof -
    obtain m' where m': "maximum_matching_with_unmatched_branch ?ns = Inr m'"
      "is_matching ?ns (assignment_pairs (rm_assignment_by_ordinal m'))"
      "int (card (assignment_pairs (rm_assignment_by_ordinal m'))) = rm_size m'"
      by (rule maximum_matching_matching [of ?ns], rule that)
    have "m' = m" using m m'(1) by simp
    then show ?thesis using matching_deficiency [OF m'(2), of "{}"] m'(3) len by (simp add: adjacent_def)
  qed
  show "gs_requirement_count s = length (eg_requirements v) \<and>
      gs_satisfied_count s = length (filter (\<lambda>q. witness_texts st (er_requirement_version_id q) \<noteq> {}) (eg_requirements v)) \<and>
      gs_matching_size s \<le> gs_requirement_count s \<and>
      (gs_complete s \<longleftrightarrow> distinct_choice (map (\<lambda>q. witness_texts st (er_requirement_version_id q)) (eg_requirements v)))"
    using maximum_matching_complete [OF m] count [of "\<lambda>ns. ns \<noteq> []" ?ns] R(4) le
    unfolding texts len flags by (simp add: s' count [symmetric])
qed


section \<open>Claim states\<close>

definition complete_groups :: "m5_repo \<Rightarrow> m5_reference_states \<Rightarrow> string \<Rightarrow> string set" where
  "complete_groups r st c = {g. \<exists>v. dget (mr_groups r) g = Some v \<and> eg_owner_claim_id v = c \<and>
     is_group_active r g (m5_epoch r) \<and>
     distinct_choice (map (\<lambda>q. witness_texts st (er_requirement_version_id q)) (eg_requirements v))}"

lemma group_ids_for_claim_set:
  assumes "m5_inv r"
  shows "set (group_ids_for_claim r c) = {i. \<exists>g. dget (mr_groups r) i = Some g \<and> eg_owner_claim_id g = c}"
proof -
  from assms have F: "families_inv r" by (simp add: m5_inv_def)
  have "\<exists>g. dget (mr_groups r) i = Some g \<and> eg_owner_claim_id g = c" if "i \<in> set (group_ids_for_claim r c)" for i
  proof -
    have "\<exists>is. dget (mr_groups_by_claim r) c = Some is \<and> i \<in> set is"
      using that by (cases "dget (mr_groups_by_claim r) c") (auto simp: group_ids_for_claim_def)
    then obtain "is" where "dget (mr_groups_by_claim r) c = Some is" "i \<in> set is" by blast
    then show ?thesis by (rule families_invD(12) [OF F])
  qed
  then show ?thesis using families_invD(6) [OF F] by (auto simp: group_ids_for_claim_def)
qed

lemma claim_states_spec:
  assumes inv: "m5_inv r" and ok: "compute_reference_states sha256 r None = Inr (st, r')"
    and pol: "current_policy (mr_base r) = Inr p"
  shows "dkeys (ms_claims st) = all_claim_ids (mr_base r)"
    and "dget (ms_claims st) c = Some cc \<Longrightarrow>
      set (cc_complete_group_ids cc) = complete_groups r st c \<and> sorted (cc_complete_group_ids cc) \<and>
      cc_support_count cc = cs_support_count (spec_claim_state (mr_base r) p c) \<and>
      cc_refute_count cc = cs_refute_count (spec_claim_state (mr_base r) p c) \<and>
      cc_supporting_observation_ids cc = cs_supporting_observation_ids (spec_claim_state (mr_base r) p c) \<and>
      cc_refuting_observation_ids cc = cs_refuting_observation_ids (spec_claim_state (mr_base r) p c) \<and>
      cc_status cc = combined_claim_status
        (0 < cs_support_count (spec_claim_state (mr_base r) p c) \<or> complete_groups r st c \<noteq> {})
        (0 < cs_refute_count (spec_claim_state (mr_base r) p c))"
proof -
  note inv' = compute_reference_states_sync [OF inv ok]
  have base: "mr_base r' = mr_base r" unfolding inv'(1) by (rule synchronize_base_head_frame)
  have grp: "mr_groups r' = mr_groups r" unfolding inv'(1) by (rule synchronize_base_head_frame)
  have b: "repo_inv (mr_base r)" using inv by (simp add: m5_inv_def)
  obtain direct answers where
    d: "compute_all_states (mr_base r) = Inr (direct, answers)"
    and claims: "tabulate_res (combine_claim r' (ms_groups st) direct) (all_claim_ids (mr_base r)) = Inr (ms_claims st)"
    by (rule compute_reference_states_Inr [OF inv ok, unfolded base], rule that)
  show "dkeys (ms_claims st) = all_claim_ids (mr_base r)" by (rule tabulate_res_Inr(1) [OF claims])
  have direct: "direct = map (\<lambda>c. (c, spec_claim_state (mr_base r) p c)) (all_claim_ids (mr_base r))"
    using d compute_all_states_spec [OF b pol] by simp
  assume "dget (ms_claims st) c = Some cc"
  from tabulate_res_Inr(2) [OF claims this] have c: "c \<in> set (all_claim_ids (mr_base r))"
    and cc: "combine_claim r' (ms_groups st) direct c = Inr cc" by blast+
  let ?d = "spec_claim_state (mr_base r) p c"
  let ?complete = "\<lambda>g. case dget (ms_groups st) g of None \<Rightarrow> False | Some s \<Rightarrow> gs_complete s"
  let ?ids = "sort (filter ?complete (group_ids_for_claim r' c))"
  have "dget direct c = Some ?d" using c by (simp add: direct dget_tabulate_iff)
  then have fields: "cc_complete_group_ids cc = ?ids" "cc_support_count cc = cs_support_count ?d"
    "cc_refute_count cc = cs_refute_count ?d"
    "cc_supporting_observation_ids cc = cs_supporting_observation_ids ?d"
    "cc_refuting_observation_ids cc = cs_refuting_observation_ids ?d"
    "cc_status cc = combined_claim_status (0 < cs_support_count ?d \<or> ?ids \<noteq> []) (0 < cs_refute_count ?d)"
    using cc by (auto simp: combine_claim_def Let_def)
  note G = group_states_spec [OF inv ok]
  have "?complete g \<longleftrightarrow> g \<in> dom (dget (mr_groups r)) \<and> is_group_active r g (m5_epoch r) \<and>
      distinct_choice (map (\<lambda>q. witness_texts st (er_requirement_version_id q)) (eg_requirements (the (dget (mr_groups r) g))))" for g
  proof (cases "dget (ms_groups st) g")
    case None
    then have "g \<notin> dom (dget (ms_groups st))" by (simp add: domIff)
    then show ?thesis using G(1) [of g] None by auto
  next
    case (Some s)
    then have "g \<in> dom (dget (ms_groups st))" by blast
    with G(1) [of g] obtain v where v: "dget (mr_groups r) g = Some v" "is_group_active r g (m5_epoch r)" by blast
    then show ?thesis using G(2) [OF Some v(1)] Some by auto
  qed
  then have "set ?ids = complete_groups r st c"
    unfolding set_sort set_filter group_ids_for_claim_set [OF inv'(2)] grp complete_groups_def by auto
  moreover from this have "?ids \<noteq> [] \<longleftrightarrow> complete_groups r st c \<noteq> {}" unfolding set_empty [symmetric] by simp
  ultimately show "set (cc_complete_group_ids cc) = complete_groups r st c \<and> sorted (cc_complete_group_ids cc) \<and>
      cc_support_count cc = cs_support_count ?d \<and> cc_refute_count cc = cs_refute_count ?d \<and>
      cc_supporting_observation_ids cc = cs_supporting_observation_ids ?d \<and>
      cc_refuting_observation_ids cc = cs_refuting_observation_ids ?d \<and>
      cc_status cc = combined_claim_status (0 < cs_support_count ?d \<or> complete_groups r st c \<noteq> {})
        (0 < cs_refute_count ?d)"
    unfolding fields by (simp only: sorted_sort simp_thms)
qed

section \<open>Properties\<close>

text \<open>C36: the requirement states are the current support.  A recomputation that returns has a
  state for exactly the active requirements; its witness hashes are sorted and are the hashes of the
  chunk texts with which an observation in force at the head supports the requirement under the
  policy of the epoch, its observation identifiers are those of these observations, and the count
  and the satisfied flag agree with the hashes.\<close>

theorem requirement_states_are_current_support:
  assumes "m5_inv r" and "compute_reference_states sha256 r None = Inr (st, r')"
  shows "\<exists>policy. policy_at r' (m5_epoch r') = Inr policy \<and>
    (\<forall>q. q \<in> dom (dget (ms_requirements st)) \<longleftrightarrow> is_requirement_active r' q (m5_epoch r') = Inr True) \<and>
    (\<forall>q s. dget (ms_requirements st) q = Some s \<longrightarrow>
      sorted (rs_witness_hashes s) \<and>
      set (rs_witness_hashes s) = {h. \<exists>t. current_record r' (m5_epoch r', mr_semantic_revision r') t \<and>
        supports_by sha256 r' (m5_epoch r') policy t q h} \<and>
      set (rs_supporting_observation_ids s) = {ob_observation_id (ro_observation t) | t h.
        current_record r' (m5_epoch r', mr_semantic_revision r') t \<and> supports_by sha256 r' (m5_epoch r') policy t q h} \<and>
      rs_witness_count s = card (set (rs_witness_hashes s)) \<and>
      (rs_satisfied s \<longleftrightarrow> set (rs_witness_hashes s) \<noteq> {}))"
proof -
  note S = compute_reference_states_sync [OF assms]
  obtain edges where edges: "active_requirement_edges sha256 r' (m5_epoch r', mr_semantic_revision r') =
      Inr (edges, ms_requirements st, r')"
    by (rule compute_reference_states_Inr [OF assms], rule that)
  obtain policy where
    pol: "policy_at r' (m5_epoch r') = Inr policy"
    and dom: "\<And>q. q \<in> dom (dget (ms_requirements st)) \<longleftrightarrow> is_requirement_active r' q (m5_epoch r') = Inr True"
    and states: "\<And>q s. dget (ms_requirements st) q = Some s \<Longrightarrow>
      rs_requirement_version_id s = q \<and> sorted (rs_witness_hashes s) \<and>
      set (rs_witness_hashes s) = {h. \<exists>t. current_record r' (m5_epoch r', mr_semantic_revision r') t \<and>
        supports_by sha256 r' (m5_epoch r') policy t q h} \<and>
      set (rs_supporting_observation_ids s) = {ob_observation_id (ro_observation t) | t h.
        current_record r' (m5_epoch r', mr_semantic_revision r') t \<and> supports_by sha256 r' (m5_epoch r') policy t q h} \<and>
      rs_witness_count s = card (set (rs_witness_hashes s)) \<and>
      (rs_satisfied s \<longleftrightarrow> set (rs_witness_hashes s) \<noteq> {})"
    by (rule active_requirement_edges_spec [OF S(2,3) edges, unfolded fst_conv], rule that)
  show ?thesis
    by (rule exI [of _ policy], rule conjI, rule pol, rule conjI, rule allI, rule dom, intro allI impI,
        drule states, elim conjE, intro conjI, assumption+)
qed

definition m5_demo_states :: "m5_reference_states \<times> m5_repo" where
  "m5_demo_states = projr (compute_reference_states m5_sha m5_demo None)"

lemma m5_demo_states:
  "compute_reference_states m5_sha m5_demo None = Inr (fst m5_demo_states, snd m5_demo_states)"
proof -
  have "isl (compute_reference_states m5_sha m5_demo None) = False" by code_simp
  then show ?thesis by (simp add: m5_demo_states_def)
qed

theorem requirement_states_are_current_support_witness:
  "\<exists>policy. policy_at (snd m5_demo_states) (m5_epoch (snd m5_demo_states)) = Inr policy \<and>
    (\<forall>q. q \<in> dom (dget (ms_requirements (fst m5_demo_states))) \<longleftrightarrow>
       is_requirement_active (snd m5_demo_states) q (m5_epoch (snd m5_demo_states)) = Inr True)"
  using requirement_states_are_current_support [OF m5_demo_ok(1) m5_demo_states] by blast

text \<open>C37: a claim is supported directly or by a complete group.  A group is complete exactly when
  one can choose pairwise distinct texts, one for each of its requirements, among their witness
  texts; the combined state of a claim lists exactly its active complete groups, and its status is
  conflicted, supported, refuted or unsupported according to whether some distinct text supports it
  directly or some of its active groups is complete, and whether some text refutes it directly.\<close>

theorem claim_status_is_direct_or_group_support:
  assumes "m5_inv r" and "compute_reference_states sha256 r None = Inr (st, r')"
    and "current_policy (mr_base r) = Inr p"
  shows "(\<forall>g s v. dget (ms_groups st) g = Some s \<and> dget (mr_groups r) g = Some v \<longrightarrow>
      (gs_complete s \<longleftrightarrow>
        distinct_choice (map (\<lambda>q. witness_texts st (er_requirement_version_id q)) (eg_requirements v)))) \<and>
    (\<forall>c cc. dget (ms_claims st) c = Some cc \<longrightarrow>
      set (cc_complete_group_ids cc) = complete_groups r st c \<and>
      cc_status cc = combined_claim_status
        (0 < cs_support_count (spec_claim_state (mr_base r) p c) \<or> complete_groups r st c \<noteq> {})
        (0 < cs_refute_count (spec_claim_state (mr_base r) p c)))"
  using group_states_spec(2) [OF assms(1,2)] claim_states_spec(2) [OF assms] by blast

theorem claim_status_is_direct_or_group_support_witness:
  "\<exists>cc. dget (ms_claims (fst m5_demo_states)) ''c1'' = Some cc \<and>
     set (cc_complete_group_ids cc) = complete_groups m5_demo (fst m5_demo_states) ''c1'' \<and>
     complete_groups m5_demo (fst m5_demo_states) ''c1'' \<noteq> {} \<and> cc_status cc = SUPPORTED"
proof -
  have pol: "current_policy (mr_base m5_demo) = Inr (demo_policy ''p1'' (1 / 2))" by code_simp
  have "(case dget (ms_claims (fst m5_demo_states)) ''c1'' of None \<Rightarrow> False
      | Some cc \<Rightarrow> cc_complete_group_ids cc = [''g1''] \<and> cc_status cc = SUPPORTED) = True" by code_simp
  then obtain cc where "dget (ms_claims (fst m5_demo_states)) ''c1'' = Some cc"
    "cc_complete_group_ids cc = [''g1'']" "cc_status cc = SUPPORTED" by (auto split: option.splits)
  with claim_status_is_direct_or_group_support [OF m5_demo_ok(1) m5_demo_states pol] show ?thesis by force
qed

end
