(* ===== verification/GL_M5Certificates.thy ===== *)
theory GL_M5Certificates
  imports GL_M5States
begin

text \<open>
  Certificates of groups and claims: \<open>ClaimCertificateArtifact\<close> of \<open>m5/domain.py\<close> and the builder and
  validators of \<open>m5/reference.py\<close>, and what an accepted certificate proves.
\<close>

section \<open>Group certificates\<close>

text \<open>What one accepted row witnesses.\<close>

lemma validate_certificate_row_True:
  assumes inv: "m5_inv r" and head: "at_head r"
    and ok: "validate_certificate_row sha256 policy p r (row, q) = Inr (True, r')"
    and active: "is_requirement_active r q (fst p) = Inr True"
  shows "r' = r" and "cr_requirement_version_id row = q"
    and "\<exists>t. current_record r p t \<and> supports_by sha256 r (fst p) policy t q (cr_text_hash row)"
proof -
  from inv have O: "m5_observations_inv r" by (simp add: m5_inv_def)
  show q: "cr_requirement_version_id row = q"
    using ok by (auto simp: validate_certificate_row_def split: if_splits)
  obtain t where t: "requirement_observation_of r (cr_selected_observation_id row) = Inr t"
    using ok q by (auto simp: validate_certificate_row_def bind_res_Inr_iff)
  let ?ob = "ro_observation t"
  have t': "dget (mr_requirement_observations r) (cr_selected_observation_id row) = Some t"
    using t by (simp add: requirement_observation_of_def lookup_Inr_iff)
  have flags: "ro_eligible_for_currency t" "ob_subject_id ?ob = q" "ob_task_type ?ob = canonical_requirement_task"
    using ok q t by (auto simp: validate_certificate_row_def Let_def split: if_splits)
  have kind: "ob_subject_kind ?ob = REQUIREMENT" by (rule m5_observations_invD(3) [OF O t'])
  obtain holder r1 where h: "currency_observation_id_at r (observation_key ?ob) p = Inr (holder, r1)"
    using ok q t flags kind by (auto simp: validate_certificate_row_def Let_def bind_res_Inr_iff)
  have r1: "r1 = r" and holder: "holder = holder_at (rev (dget_default (mr_currency_history r) (observation_key ?ob) [])) p"
    using currency_observation_id_at_Inr [OF head h] by simp_all
  have held: "holder = Some (ob_observation_id ?ob)"
    using ok q t flags kind h by (auto simp: validate_certificate_row_def Let_def split: if_splits)
  have chunk: "is_chunk_active_at r (ob_chunk_version_id ?ob) (fst p) = Inr True"
    using ok q t flags kind h held r1
    by (auto simp: validate_certificate_row_def Let_def bind_res_Inr_iff split: if_splits)
  have sup: "decide ?ob policy = SUPPORT"
    using ok q t flags kind h held r1 chunk by (auto simp: validate_certificate_row_def Let_def split: if_splits)
  obtain ch where ch: "chunk_version_of (mr_base r) (ob_chunk_version_id ?ob) = Inr ch"
    using ok q t flags kind h held r1 chunk sup
    by (auto simp: validate_certificate_row_def Let_def bind_res_Inr_iff)
  have hash: "normalized_text_hash_v1 sha256 (cv_text ch) = Inr (cr_text_hash row)" and r': "r' = r"
    using ok q t flags kind h held r1 chunk sup ch
    by (auto simp: validate_certificate_row_def Let_def bind_res_Inr_iff)
  show "r' = r" by (rule r')
  have "current_record r p t"
  proof -
    have i: "ob_observation_id ?ob = cr_selected_observation_id row" by (rule m5_observations_invD(2) [OF O t'])
    obtain hs where hs: "dget (mr_currency_history r) (observation_key ?ob) = Some hs"
      using held holder by (cases "dget (mr_currency_history r) (observation_key ?ob)") auto
    have "contiguous hs" using m5_observations_invD(7) [OF O hs] by (simp add: history_ok_def)
    moreover have "holder_at (rev hs) p = Some (cr_selected_observation_id row)" using held holder hs i by simp
    ultimately show ?thesis using holder_at_iff hs t' unfolding current_record_def by blast
  qed
  moreover have "supports_by sha256 r (fst p) policy t q (cr_text_hash row)"
    by (simp add: supports_by_def flags active chunk sup ch hash)
  ultimately show "\<exists>t. current_record r p t \<and> supports_by sha256 r (fst p) policy t q (cr_text_hash row)" by blast
qed

lemma validate_certificate_rows_True:
  assumes inv: "m5_inv r" and head: "at_head r"
    and active: "\<And>row q. (row, q) \<in> set rows \<Longrightarrow> is_requirement_active r q (fst p) = Inr True"
    and ok: "validate_certificate_rows sha256 policy p r rows = Inr (True, r')"
  shows "(row, q) \<in> set rows \<Longrightarrow> cr_requirement_version_id row = q \<and>
    (\<exists>t. current_record r p t \<and> supports_by sha256 r (fst p) policy t q (cr_text_hash row))"
  using active ok
proof (induction rows)
  case (Cons x rows)
  obtain row' q' where x: "x = (row', q')" by (cases x)
  from Cons.prems(3) obtain r1 where r1: "validate_certificate_row sha256 policy p r (row', q') = Inr (True, r1)"
    and rest: "validate_certificate_rows sha256 policy p r1 rows = Inr (True, r')"
    by (auto simp: x bind_res_Inr_iff split: if_splits)
  have act: "is_requirement_active r q' (fst p) = Inr True" using Cons.prems(2) [of row' q'] x by simp
  note V = validate_certificate_row_True [OF inv head r1 act]
  show ?case
  proof (cases "(row, q) = (row', q')")
    case True
    then show ?thesis using V(2,3) by simp
  next
    case False
    then have "(row, q) \<in> set rows" using Cons.prems(1) x by auto
    moreover have "\<And>row q. (row, q) \<in> set rows \<Longrightarrow> is_requirement_active r q (fst p) = Inr True"
      using Cons.prems(2) by (metis list.set_intros(2))
    moreover have "validate_certificate_rows sha256 policy p r rows = Inr (True, r')" using rest V(1) by simp
    ultimately show ?thesis by (rule Cons.IH)
  qed
qed simp

text \<open>The constructor of a certificate leaves its rows alone, and their texts are distinct.\<close>

lemma make_group_certificate_Inr:
  assumes "make_group_certificate sha256 c0 = Inr c"
  shows "distinct (map cr_text_hash (gc_rows c))"
  using assms by (auto simp: make_group_certificate_def Let_def bind_res_Inr_iff checks_Inr)

lemma validate_group_certificate_complete:
  assumes inv: "m5_inv r" and valid: "validate_group_certificate sha256 r c None = Inr True"
    and distinct: "distinct (map cr_text_hash (gc_rows c))"
    and ok: "compute_reference_states sha256 r None = Inr (st, r')"
  shows "\<exists>s v. dget (ms_groups st) (gc_group_version_id c) = Some s \<and> gs_complete s \<and>
    dget (mr_groups r) (gc_group_version_id c) = Some v \<and>
    map cr_requirement_version_id (gc_rows c) = map er_requirement_version_id (eg_requirements v) \<and>
    (\<forall>row \<in> set (gc_rows c). cr_text_hash row \<in> witness_texts st (cr_requirement_version_id row))"
proof -
  let ?s = "synchronize_base_head r" and ?g = "gc_group_version_id c"
  note S = compute_reference_states_sync [OF inv ok]
  let ?p = "(m5_epoch r', mr_semantic_revision r')"
  have point: "current_point r = (?p, r')"
    unfolding S(1) by (simp add: current_point_def Let_def synchronize_base_head_frame)
  have e: "m5_epoch r' = m5_epoch r" "mr_groups r' = mr_groups r"
    unfolding S(1) by (rule synchronize_base_head_frame)+
  obtain x where run: "check_group_certificate sha256 r' c ?p = Inr (True, x)"
    using valid by (auto simp: validate_group_certificate_def point split: sum.splits gl_error.splits)
  note R = at_head_points(3) [OF S(3)]
  obtain policy where pol: "policy_at r' (m5_epoch r') = Inr policy"
    using run by (auto simp: check_group_certificate_def R bind_res_Inr_iff)
  have active: "is_group_active r' ?g (m5_epoch r')"
    using run by (auto simp: check_group_certificate_def R pol split: if_splits)
  obtain ids where ids: "requirement_ids_for_group r' ?g = Inr ids" "length ids = length (gc_rows c)"
    and rows: "validate_certificate_rows sha256 policy ?p r' (zip (gc_rows c) ids) = Inr (True, x)"
    using run by (auto simp: check_group_certificate_def R pol active bind_res_Inr_iff split: if_splits)
  obtain v where v: "dget (mr_groups r') ?g = Some v"
    using ids(1) by (auto simp: requirement_ids_for_group_def group_of_def bind_res_Inr_iff lookup_Inr_iff)
  note G = requirements_of_group [OF S(2) v]
  have ids': "ids = map er_requirement_version_id (eg_requirements v)" using ids(1) G(1) by simp
  have len: "length (gc_rows c) = length (eg_requirements v)" using ids(2) by (simp add: ids')
  have act: "is_requirement_active r' q (m5_epoch r') = Inr True" if "(row, q) \<in> set (zip (gc_rows c) ids)" for row q
    using set_zip_rightD [OF that] G(3) active unfolding ids' by auto
  obtain edges where edges: "active_requirement_edges sha256 r' ?p = Inr (edges, ms_requirements st, r')"
    by (rule compute_reference_states_Inr [OF inv ok], rule that)
  obtain policy' where "policy_at r' (m5_epoch r') = Inr policy'"
    and dom: "\<And>q. q \<in> dom (dget (ms_requirements st)) \<longleftrightarrow> is_requirement_active r' q (m5_epoch r') = Inr True"
    and texts: "\<And>q s. dget (ms_requirements st) q = Some s \<Longrightarrow> set (rs_witness_hashes s) =
      {h. \<exists>t. current_record r' ?p t \<and> supports_by sha256 r' (m5_epoch r') policy' t q h}"
    by (rule active_requirement_edges_spec [OF S(2,3) edges, unfolded fst_conv], rule that) blast+
  then have same: "policy' = policy" using pol by simp
  have witness: "cr_requirement_version_id row = q \<and> cr_text_hash row \<in> witness_texts st q"
    if z: "(row, q) \<in> set (zip (gc_rows c) ids)" for row q
  proof -
    obtain s where s: "dget (ms_requirements st) q = Some s" using dom [of q] act [OF z] by blast
    have "cr_requirement_version_id row = q \<and> (\<exists>t. current_record r' ?p t \<and>
        supports_by sha256 r' (fst ?p) policy t q (cr_text_hash row))"
      by (rule validate_certificate_rows_True [OF S(2,3) _ rows z]) (simp add: act)
    then show ?thesis using texts [OF s] s by (simp add: witness_texts_def same)
  qed
  have pair: "(gc_rows c ! i, ids ! i) \<in> set (zip (gc_rows c) ids)" if "i < length (gc_rows c)" for i
    using that ids(2) by (auto simp: set_zip)
  have ids_rows: "map cr_requirement_version_id (gc_rows c) = ids"
  proof (rule nth_equalityI)
    fix i assume "i < length (map cr_requirement_version_id (gc_rows c))"
    then show "map cr_requirement_version_id (gc_rows c) ! i = ids ! i" using witness [OF pair] by simp
  qed (simp add: ids(2))
  have all: "cr_text_hash (gc_rows c ! i) \<in> witness_texts st (er_requirement_version_id (eg_requirements v ! i))"
    if "i < length (eg_requirements v)" for i
    using witness [OF pair, of i] that len by (simp add: ids')
  have "inj_on (\<lambda>i. cr_text_hash (gc_rows c ! i)) {..<length (eg_requirements v)}"
    using distinct len by (auto simp: inj_on_def distinct_conv_nth)
  then have choice: "distinct_choice (map (\<lambda>q. witness_texts st (er_requirement_version_id q)) (eg_requirements v))"
    unfolding distinct_choice_def using all by (intro exI [of _ "\<lambda>i. cr_text_hash (gc_rows c ! i)"]) simp
  have v': "dget (mr_groups r) ?g = Some v" using v e by simp
  have "is_group_active r ?g (m5_epoch r)"
  proof -
    have "mr_group_validity r' = mr_group_validity r"
      unfolding S(1) by (simp add: synchronize_base_head_def Let_def)
    then show ?thesis using active e by (simp add: is_group_active_def)
  qed
  with group_states_spec(1) [OF inv ok, of ?g] v' obtain s where s: "dget (ms_groups st) ?g = Some s" by blast
  have "gs_complete s" using group_states_spec(2) [OF inv ok s v'] choice by blast
  moreover have "\<forall>row \<in> set (gc_rows c). cr_text_hash row \<in> witness_texts st (cr_requirement_version_id row)"
  proof
    fix row assume "row \<in> set (gc_rows c)"
    then obtain i where "i < length (gc_rows c)" "row = gc_rows c ! i" by (metis in_set_conv_nth)
    then show "cr_text_hash row \<in> witness_texts st (cr_requirement_version_id row)" using witness [OF pair, of i] by simp
  qed
  ultimately show ?thesis using s v' ids_rows ids' by blast
qed

section \<open>Claim certificates\<close>

record m5_claim_certificate =
  kc_claim_id :: string
  kc_decision_policy_version :: string
  kc_support_kind :: claim_support_kind
  kc_direct_support_observation_id :: "string option"
  kc_group_version_id :: "string option"
  kc_group_certificate_digest :: "string option"
  kc_direct_refute_observation_id :: "string option"
  kc_certificate_version :: string
  kc_certificate_digest :: string

text \<open>The field shape that each support kind demands.\<close>

definition support_shape :: "m5_claim_certificate \<Rightarrow> bool" where
  "support_shape k =
     (let direct = kc_direct_support_observation_id k; gid = kc_group_version_id k;
          digest = kc_group_certificate_digest k in
      case kc_support_kind k of
        SUPPORT_NONE \<Rightarrow> \<not> (direct \<noteq> None \<or> gid \<noteq> None \<or> digest \<noteq> None)
      | SUPPORT_DIRECT \<Rightarrow> \<not> (direct = None \<or> gid \<noteq> None \<or> digest \<noteq> None)
      | SUPPORT_GROUP \<Rightarrow> \<not> (direct \<noteq> None \<or> gid = None \<or> digest = None))"

definition option_hash :: "string option \<Rightarrow> typed_fields res" where
  "option_hash v =
     (case v of
        None \<Rightarrow> Inr (option_field None)
      | Some h \<Rightarrow> bind_res (hash_value h) (\<lambda>f. Inr (option_field (Some f))))"

definition make_claim_certificate ::
    "(8 word list \<Rightarrow> string) \<Rightarrow> m5_claim_certificate \<Rightarrow> m5_claim_certificate res" where
  "make_claim_certificate sha256 k =
     bind_res (checks ([is_identifier (kc_claim_id k), is_identifier (kc_decision_policy_version k),
       kc_certificate_version k = ''m5-claim-certificate-v2'', support_shape k] @
       map (\<lambda>v. case v of None \<Rightarrow> True | Some i \<Rightarrow> is_identifier i)
         [kc_direct_support_observation_id k, kc_group_version_id k, kc_direct_refute_observation_id k])) (\<lambda>_.
     bind_res (option_hash (kc_group_certificate_digest k)) (\<lambda>digest.
     bind_res (traverse text_field [py (kc_claim_id k), py (kc_decision_policy_version k)]) (\<lambda>ids.
     bind_res (enum_field (py (claim_support_kind_value (kc_support_kind k)))) (\<lambda>kind.
     bind_res (option_text (kc_direct_support_observation_id k)) (\<lambda>direct.
     bind_res (option_text (kc_group_version_id k)) (\<lambda>gid.
     bind_res (option_text (kc_direct_refute_observation_id k)) (\<lambda>refute.
     bind_res (stable_m5_digest sha256 (py ''m5-claim-certificate-v2'')
         (ids @ [kind, direct, gid, digest, refute])) (\<lambda>expected.
     bind_res (checks [kc_certificate_digest k = '''' \<or> kc_certificate_digest k = expected]) (\<lambda>_.
       Inr (k\<lparr>kc_certificate_digest := expected\<rparr>))))))))))"

text \<open>The kind of support of a combined claim state, with the three fields that depend on it.\<close>

definition support_of_state ::
    "combined_claim_state \<Rightarrow> (string, group_matching_certificate) pydict
      \<Rightarrow> (claim_support_kind \<times> string option \<times> string option \<times> string option) res" where
  "support_of_state s certificates =
     (if cc_supporting_observation_ids s \<noteq> [] then
        Inr (SUPPORT_DIRECT, Some (min_list (cc_supporting_observation_ids s)), None, None)
      else if cc_complete_group_ids s \<noteq> [] then
        let g = min_list (cc_complete_group_ids s) in
        bind_res (lookup KeyError certificates g) (\<lambda>c.
          Inr (SUPPORT_GROUP, None, Some g, Some (gc_certificate_digest c)))
      else Inr (SUPPORT_NONE, None, None, None))"

definition build_reference_claim_certificate ::
    "(8 word list \<Rightarrow> string) \<Rightarrow> m5_repo \<Rightarrow> string \<Rightarrow> (string, group_matching_certificate) pydict
      \<Rightarrow> (m5_claim_certificate \<times> m5_repo) res" where
  "build_reference_claim_certificate sha256 r c certificates =
     bind_res (compute_reference_states sha256 r None) (\<lambda>(states, r).
     bind_res (lookup KeyError (ms_claims states) c) (\<lambda>s.
     bind_res (support_of_state s certificates) (\<lambda>(kind, direct, gid, digest).
     bind_res (current_policy (mr_base r)) (\<lambda>policy.
     bind_res (make_claim_certificate sha256
         \<lparr>kc_claim_id = c, kc_decision_policy_version = dp_policy_version policy, kc_support_kind = kind,
          kc_direct_support_observation_id = direct, kc_group_version_id = gid,
          kc_group_certificate_digest = digest,
          kc_direct_refute_observation_id =
            (if cc_refuting_observation_ids s \<noteq> [] then Some (min_list (cc_refuting_observation_ids s)) else None),
          kc_certificate_version = ''m5-claim-certificate-v2'', kc_certificate_digest = ''''\<rparr>) (\<lambda>k.
       Inr (k, r))))))"

definition validate_claim_certificate ::
    "(8 word list \<Rightarrow> string) \<Rightarrow> m5_repo \<Rightarrow> m5_claim_certificate
      \<Rightarrow> (string, group_matching_certificate) pydict \<Rightarrow> bool res" where
  "validate_claim_certificate sha256 r k certificates =
     (case build_reference_claim_certificate sha256 r (kc_claim_id k) certificates of
        Inl AssertionError \<Rightarrow> Inl AssertionError
      | Inl IndexError \<Rightarrow> Inl IndexError
      | Inl _ \<Rightarrow> Inr False
      | Inr (expected, r) \<Rightarrow>
          if expected \<noteq> k then Inr False
          else if kc_support_kind k = SUPPORT_GROUP then
            (case (kc_group_version_id k, kc_group_certificate_digest k) of
               (Some g, Some digest) \<Rightarrow>
                 (case dget certificates g of
                    None \<Rightarrow> Inr False
                  | Some c \<Rightarrow>
                      if gc_group_version_id c = g \<and> gc_certificate_digest c = digest
                      then validate_group_certificate sha256 r c None else Inr False)
             | _ \<Rightarrow> Inl AssertionError)
          else Inr True)"

lemma make_claim_certificate_Inr:
  assumes "make_claim_certificate sha256 k0 = Inr k"
  obtains digest where "k = k0\<lparr>kc_certificate_digest := digest\<rparr>"
  using assms unfolding make_claim_certificate_def bind_res_Inr_iff sum.inject
  by (elim exE conjE) (rule that, erule sym)

lemma support_of_state_Inr:
  assumes "support_of_state s certificates = Inr (kind, direct, gid, digest)"
  shows "kind = SUPPORT_DIRECT \<longleftrightarrow> cc_supporting_observation_ids s \<noteq> []"
    and "kind = SUPPORT_NONE \<longleftrightarrow> cc_supporting_observation_ids s = [] \<and> cc_complete_group_ids s = []"
    and "kind = SUPPORT_DIRECT \<Longrightarrow> direct = Some (min_list (cc_supporting_observation_ids s))"
    and "kind = SUPPORT_GROUP \<Longrightarrow> gid = Some (min_list (cc_complete_group_ids s))"
  using assms by (auto simp: support_of_state_def Let_def bind_res_Inr_iff split: if_splits)

text \<open>What an accepted certificate was compared with.\<close>

lemma validate_claim_certificate_True:
  assumes "validate_claim_certificate sha256 r k certificates = Inr True"
    and "compute_reference_states sha256 r None = Inr (st, r')"
  obtains s direct gid digest where "dget (ms_claims st) (kc_claim_id k) = Some s"
    and "support_of_state s certificates = Inr (kc_support_kind k, direct, gid, digest)"
    and "kc_direct_support_observation_id k = direct" and "kc_group_version_id k = gid"
    and "kc_direct_refute_observation_id k =
      (if cc_refuting_observation_ids s \<noteq> [] then Some (min_list (cc_refuting_observation_ids s)) else None)"
    and "kc_support_kind k = SUPPORT_GROUP \<Longrightarrow> \<exists>g c. gid = Some g \<and> dget certificates g = Some c \<and>
      gc_group_version_id c = g \<and> validate_group_certificate sha256 r' c None = Inr True"
proof -
  obtain x where b: "build_reference_claim_certificate sha256 r (kc_claim_id k) certificates = Inr (k, x)"
    using assms(1) by (auto simp: validate_claim_certificate_def split: sum.splits gl_error.splits if_splits)
  obtain s t where s: "dget (ms_claims st) (kc_claim_id k) = Some s"
    and t: "support_of_state s certificates = Inr t"
    using b by (auto simp: build_reference_claim_certificate_def assms(2) bind_res_Inr_iff lookup_Inr_iff)
  obtain kind direct gid digest where sup: "support_of_state s certificates = Inr (kind, direct, gid, digest)"
    using t by (cases t) auto
  obtain policy :: decision_policy where make: "make_claim_certificate sha256
         \<lparr>kc_claim_id = kc_claim_id k, kc_decision_policy_version = dp_policy_version policy,
          kc_support_kind = kind, kc_direct_support_observation_id = direct, kc_group_version_id = gid,
          kc_group_certificate_digest = digest,
          kc_direct_refute_observation_id =
            (if cc_refuting_observation_ids s \<noteq> [] then Some (min_list (cc_refuting_observation_ids s)) else None),
          kc_certificate_version = ''m5-claim-certificate-v2'', kc_certificate_digest = []\<rparr> = Inr k"
      (is "make_claim_certificate sha256 ?k0 = _") and x: "x = r'"
    using b by (auto simp: build_reference_claim_certificate_def assms(2) s sup bind_res_Inr_iff)
  obtain d where k: "k = ?k0\<lparr>kc_certificate_digest := d\<rparr>" by (rule make_claim_certificate_Inr [OF make])
  show thesis
  proof (rule that [OF s])
    show "support_of_state s certificates = Inr (kc_support_kind k, direct, gid, digest)"
      using sup arg_cong [OF k, of kc_support_kind] by simp
    show "kc_direct_support_observation_id k = direct" "kc_group_version_id k = gid"
      "kc_direct_refute_observation_id k =
        (if cc_refuting_observation_ids s \<noteq> [] then Some (min_list (cc_refuting_observation_ids s)) else None)"
      using arg_cong [OF k, of kc_direct_support_observation_id] arg_cong [OF k, of kc_group_version_id]
        arg_cong [OF k, of kc_direct_refute_observation_id] by simp_all
    show "\<exists>g c. gid = Some g \<and> dget certificates g = Some c \<and>
      gc_group_version_id c = g \<and> validate_group_certificate sha256 r' c None = Inr True"
      if "kc_support_kind k = SUPPORT_GROUP"
      using assms(1) that b x arg_cong [OF k, of kc_group_version_id]
      by (auto simp: validate_claim_certificate_def split: option.splits if_splits)
  qed
qed

section \<open>Properties\<close>

text \<open>C38: an accepted group certificate proves the group complete.  When
  \<open>validate_group_certificate\<close> accepts a constructed certificate at the head, the full recomputation
  reports its group complete; the rows name exactly the requirements of the group, in order, and the
  text of each row is a witness text of its requirement.\<close>

theorem group_certificate_is_sound:
  assumes "m5_inv r" and "make_group_certificate sha256 c0 = Inr c"
    and "validate_group_certificate sha256 r c None = Inr True"
    and "compute_reference_states sha256 r None = Inr (st, r')"
  shows "\<exists>s v. dget (ms_groups st) (gc_group_version_id c) = Some s \<and> gs_complete s \<and>
    dget (mr_groups r) (gc_group_version_id c) = Some v \<and>
    map cr_requirement_version_id (gc_rows c) = map er_requirement_version_id (eg_requirements v) \<and>
    (\<forall>row \<in> set (gc_rows c). cr_text_hash row \<in> witness_texts st (cr_requirement_version_id row))"
  by (rule validate_group_certificate_complete
      [OF assms(1,3) make_group_certificate_Inr [OF assms(2)] assms(4)])

definition m5_demo_row :: "int \<Rightarrow> string \<Rightarrow> char \<Rightarrow> string \<Rightarrow> group_certificate_row" where
  "m5_demo_row n q h i =
     \<lparr>cr_requirement_ordinal = n, cr_requirement_version_id = q, cr_text_hash = replicate 64 h,
      cr_selected_observation_id = i\<rparr>"

definition m5_demo_certificate_input :: group_matching_certificate where
  "m5_demo_certificate_input =
     \<lparr>gc_decision_policy_version = ''p1'', gc_group_version_id = ''g1'',
      gc_rows = [m5_demo_row 0 ''q0'' CHR ''a'' ''r1'', m5_demo_row 1 ''q1'' CHR ''b'' ''r2''],
      gc_certificate_version = ''m5-group-certificate-v1'', gc_certificate_digest = ''''\<rparr>"

definition m5_demo_certificate :: group_matching_certificate where
  "m5_demo_certificate = projr (make_group_certificate m5_sha m5_demo_certificate_input)"

lemma m5_demo_certificate:
  "make_group_certificate m5_sha m5_demo_certificate_input = Inr m5_demo_certificate"
proof -
  have "isl (make_group_certificate m5_sha m5_demo_certificate_input) = False" by code_simp
  then show ?thesis by (simp add: m5_demo_certificate_def)
qed

theorem group_certificate_is_sound_witness:
  "\<exists>s. dget (ms_groups (fst m5_demo_states)) (gc_group_version_id m5_demo_certificate) = Some s \<and> gs_complete s"
proof -
  have "validate_group_certificate m5_sha m5_demo m5_demo_certificate None = Inr True" by code_simp
  from group_certificate_is_sound [OF m5_demo_ok(1) m5_demo_certificate this m5_demo_states]
  show ?thesis by blast
qed

lemma spec_witnesses_nonempty:
  "0 < cs_support_count (spec_claim_state r p c) \<longleftrightarrow> cs_supporting_observation_ids (spec_claim_state r p c) \<noteq> []"
  "0 < cs_refute_count (spec_claim_state r p c) \<longleftrightarrow> cs_refuting_observation_ids (spec_claim_state r p c) \<noteq> []"
  using finite_witnesses [OF finite_dom_repo_view [of r p], of c SUPPORT]
    finite_witnesses [OF finite_dom_repo_view [of r p], of c REFUTE]
  by (simp_all add: spec_claim_state_def view_claim_state_def card_gt_0_iff)

lemma min_list_in: "xs \<noteq> [] \<Longrightarrow> min_list (xs :: string list) \<in> set xs"
  by (simp add: min_list_Min)

text \<open>C39: an accepted claim certificate fixes the status of its claim.  When
  \<open>validate_claim_certificate\<close> accepts, the claim has a combined state; the certificate names some
  support exactly when the claim is supported or conflicted, and a refuting observation exactly when
  it is refuted or conflicted.  A direct certificate names one of the supporting observations, a
  group certificate a complete group of the claim whose own certificate was accepted.\<close>

theorem claim_certificate_fixes_status:
  assumes inv: "m5_inv r" and ok: "compute_reference_states sha256 r None = Inr (st, r')"
    and pol: "current_policy (mr_base r) = Inr p"
    and valid: "validate_claim_certificate sha256 r k certificates = Inr True"
  shows "\<exists>cc. dget (ms_claims st) (kc_claim_id k) = Some cc \<and>
    (kc_support_kind k \<noteq> SUPPORT_NONE \<longleftrightarrow> cc_status cc \<in> {SUPPORTED, CONFLICTED}) \<and>
    (kc_direct_refute_observation_id k \<noteq> None \<longleftrightarrow> cc_status cc \<in> {REFUTED, CONFLICTED}) \<and>
    (kc_support_kind k = SUPPORT_DIRECT \<longrightarrow> (\<exists>i. kc_direct_support_observation_id k = Some i \<and>
       i \<in> set (cc_supporting_observation_ids cc))) \<and>
    (kc_support_kind k = SUPPORT_GROUP \<longrightarrow> (\<exists>g c. kc_group_version_id k = Some g \<and>
       g \<in> complete_groups r st (kc_claim_id k) \<and> dget certificates g = Some c \<and>
       validate_group_certificate sha256 r' c None = Inr True))"
proof -
  obtain s direct gid digest where s: "dget (ms_claims st) (kc_claim_id k) = Some s"
    and sup: "support_of_state s certificates = Inr (kc_support_kind k, direct, gid, digest)"
    and direct: "kc_direct_support_observation_id k = direct" and gid: "kc_group_version_id k = gid"
    and refute: "kc_direct_refute_observation_id k =
      (if cc_refuting_observation_ids s \<noteq> [] then Some (min_list (cc_refuting_observation_ids s)) else None)"
    and group: "kc_support_kind k = SUPPORT_GROUP \<Longrightarrow> \<exists>g c. gid = Some g \<and> dget certificates g = Some c \<and>
      gc_group_version_id c = g \<and> validate_group_certificate sha256 r' c None = Inr True"
    by (rule validate_claim_certificate_True [OF valid ok], rule that)
  let ?d = "spec_claim_state (mr_base r) p (kc_claim_id k)"
  let ?G = "complete_groups r st (kc_claim_id k)"
  from claim_states_spec(2) [OF inv ok pol s] have
    groups: "set (cc_complete_group_ids s) = ?G"
    and ids: "cc_supporting_observation_ids s = cs_supporting_observation_ids ?d"
      "cc_refuting_observation_ids s = cs_refuting_observation_ids ?d"
    and status: "cc_status s = combined_claim_status (0 < cs_support_count ?d \<or> ?G \<noteq> {}) (0 < cs_refute_count ?d)"
    by blast+
  have empty: "cc_complete_group_ids s = [] \<longleftrightarrow> ?G = {}" using groups set_empty by metis
  note U = support_of_state_Inr [OF sup]
  have "kc_support_kind k \<noteq> SUPPORT_NONE \<longleftrightarrow> cc_status s \<in> {SUPPORTED, CONFLICTED}"
    unfolding U(2) status spec_witnesses_nonempty ids empty by (simp add: combined_claim_status_def)
  moreover have "kc_direct_refute_observation_id k \<noteq> None \<longleftrightarrow> cc_status s \<in> {REFUTED, CONFLICTED}"
    unfolding refute status spec_witnesses_nonempty ids by (simp add: combined_claim_status_def)
  moreover have "\<exists>i. kc_direct_support_observation_id k = Some i \<and> i \<in> set (cc_supporting_observation_ids s)"
    if d: "kc_support_kind k = SUPPORT_DIRECT"
  proof -
    have "cc_supporting_observation_ids s \<noteq> []" using d U(1) by simp
    then show ?thesis using U(3) [OF d] direct min_list_in by blast
  qed
  moreover have "\<exists>g c. kc_group_version_id k = Some g \<and> g \<in> ?G \<and> dget certificates g = Some c \<and>
      validate_group_certificate sha256 r' c None = Inr True" if g: "kc_support_kind k = SUPPORT_GROUP"
  proof -
    have "cc_complete_group_ids s \<noteq> []" using g U(1,2) by simp
    then have "min_list (cc_complete_group_ids s) \<in> ?G" using min_list_in groups by metis
    then show ?thesis using group [OF g] U(4) [OF g] gid by auto
  qed
  ultimately show ?thesis using s by blast
qed

definition m5_demo_certificates :: "(string, group_matching_certificate) pydict" where
  "m5_demo_certificates = [(''g1'', m5_demo_certificate)]"

definition m5_demo_claim_certificate :: m5_claim_certificate where
  "m5_demo_claim_certificate =
     fst (projr (build_reference_claim_certificate m5_sha m5_demo ''c1'' m5_demo_certificates))"

theorem claim_certificate_fixes_status_witness:
  "kc_support_kind m5_demo_claim_certificate = SUPPORT_GROUP \<and>
   (\<exists>cc. dget (ms_claims (fst m5_demo_states)) (kc_claim_id m5_demo_claim_certificate) = Some cc \<and>
     cc_status cc \<in> {SUPPORTED, CONFLICTED})"
proof -
  have pol: "current_policy (mr_base m5_demo) = Inr (demo_policy ''p1'' (1 / 2))" by code_simp
  have kind: "kc_support_kind m5_demo_claim_certificate = SUPPORT_GROUP" by code_simp
  have "validate_claim_certificate m5_sha m5_demo m5_demo_claim_certificate m5_demo_certificates = Inr True"
    by code_simp
  from claim_certificate_fixes_status [OF m5_demo_ok(1) m5_demo_states pol this] kind show ?thesis by auto
qed

end
