(* ===== verification/Spec2Isabelle.thy ===== *)
theory Spec2Isabelle
  imports GL_Demo GL_Differential GL_PatchPaths GL_EdgeCounts GL_OptAgree GL_Epochs GL_CertIndexAudit
  GL_M5Certificates
begin

text \<open>
  GroundLoop maintains, for every claim of every registered answer, whether the current document
  corpus supports or refutes it.  Documents are split into chunks; a verifier produces semantic
  observations that link a chunk to a claim (or to a requirement of an evidence group) with scores;
  a versioned decision policy turns scores into labels; claim states are aggregated over distinct
  witness texts and answer states over required claims.  Events (documents, observations, policy
  changes, group changes) are applied one at a time and report the statuses they change.  This
  development models that core under \<open>src/groundloop\<close>.

  Parts of the program and the theories that model them.

  \<^item> \<open>GL_Prelude\<close>: Python dictionaries as association lists in insertion order, exceptions as the left
    summand of \<open>gl_error + 'a\<close>, loops that may raise.
  \<^item> \<open>GL_Domain\<close>: \<open>domain.py\<close>, \<open>errors.py\<close> and \<open>policy.py\<close>.  Scores are rationals: the code only
    compares and copies them, and every finite float is one.
  \<^item> \<open>GL_Repository\<close>, \<open>GL_Snapshot\<close>: the historical repository of \<open>repository.py\<close>, its invariant
    \<open>repo_inv\<close>, its export.
  \<^item> \<open>GL_Reference\<close>: \<open>reference.py\<close>, and the abstract direct-witness view (\<open>spec_claim_state\<close>,
    \<open>spec_answer_state\<close>) that says what a grounding state is.
  \<^item> \<open>GL_Events\<close>: \<open>events.py\<close>; \<open>GL_Demo\<close>: a concrete history for the witnesses.
  \<^item> \<open>GL_Heapq\<close>, \<open>GL_Avl\<close>, \<open>GL_ScoreIndex\<close>, \<open>GL_Engine\<close>: the signed-delta engine of
    \<open>incremental.py\<close> with its lazy-deletion heaps and its score index.  \<open>GL_EngineBase\<close>,
    \<open>GL_EngineSteps\<close>, \<open>GL_EngineEvents\<close>, \<open>GL_EngineFlush\<close> and \<open>GL_EngineProofs\<close> prove that it
    represents the direct-witness view after every event.
  \<^item> \<open>GL_Patch\<close>: the transactional path of \<open>incremental.py\<close>: a patch is prepared without touching the
    engine and applied step by step with closures that undo each step.  \<open>GL_PatchBase\<close>: snapshots and
    equality up to the order of keys; \<open>GL_PatchSim\<close>, \<open>GL_PatchFlush\<close>: the preparation simulates the
    in-place update; \<open>GL_PatchApply\<close>, \<open>GL_PatchAtomic\<close>: every step can be taken back;
    \<open>GL_PatchPaths\<close>: both paths meet.
  \<^item> \<open>GL_Differential\<close>: the runner of \<open>differential.py\<close>, which stages repository and engine, compares
    the engine with the oracle and publishes both or neither.
  \<^item> \<open>GL_OptAvl\<close>, \<open>GL_ExactFlip\<close>, \<open>GL_OptEngine\<close>: the lane of \<open>optimized/\<close>, proved in \<open>GL_OptSteps\<close>,
    \<open>GL_OptEvents\<close>, \<open>GL_OptMaintain\<close>, \<open>GL_OptFlush\<close>, \<open>GL_OptProofs\<close> and \<open>GL_OptAgree\<close>.
  \<^item> \<open>GL_Epochs\<close>: the semantic-epoch coordinator of \<open>epochs.py\<close>.
  \<^item> \<open>GL_Counters\<close>, \<open>GL_Hall\<close>, \<open>GL_Matching\<close>, \<open>GL_EdgeCounts\<close>: the kernels of \<open>m5/matching.py\<close>,
    proved in \<open>GL_HallProofs\<close> and \<open>GL_MatchingProofs\<close>.
  \<^item> \<open>GL_StringSet\<close>, \<open>GL_CertIndex\<close>: the persistent string sets and the certificate index of the same
    file, whose updates are prepared as patches, applied and rolled back.  \<open>GL_CertIndexBase\<close>,
    \<open>GL_CertIndexProofs\<close> and \<open>GL_CertIndexUpdate\<close> prove that the index represents a map of
    observations to edges and follows its changes; \<open>GL_CertIndexAudit\<close> does so for bootstrap and audit.
  \<^item> \<open>GL_M5Digests\<close>, \<open>GL_M5Domain\<close>: text normalization, typed digests, and the records of evidence
    groups (\<open>m5/digests.py\<close>, \<open>m5/domain.py\<close>).
  \<^item> \<open>GL_M5Repository\<close>: the sidecar of \<open>m5/repository.py\<close>, which keeps versioned groups and the
    currency history of requirement observations beside a base repository.  \<open>GL_M5Invariant\<close> states
    its invariant \<open>m5_inv\<close>; \<open>GL_M5Reachable\<close> interleaves its events with those of the base.
  \<^item> \<open>GL_M5Matcher\<close>, \<open>GL_M5Reference\<close>, \<open>GL_M5Certificates\<close>: the group semantics of
    \<open>m5/reference.py\<close>, with its certificates; \<open>GL_M5States\<close> says what it computes.
  \<^item> \<open>GL_M5Events\<close>: the failure-atomic events of \<open>m5/events.py\<close>, proved in \<open>GL_M5EventProofs\<close> and
    \<open>GL_M5Guarantees\<close>, instantiated at \<open>GL_M5Demo\<close>.

  How the state corresponds.  A class with mutable attributes is a record with one field per
  attribute; a method that mutates \<open>self\<close> takes the record and returns the new one, or the
  exception it raises.  Where the code assigns on a deep copy and installs it at the end
  (\<open>apply_event\<close>, \<open>apply_m5_event\<close>, the runner), the exception comes with the state that stays.  An
  attribute that is a dictionary is an association list, so that iteration order is the code's.

  What the properties show. C1 to C4: the oracle computes the direct-witness specification, the
  engine maintains exactly the oracle's states, the runner returns what the reference returns and
  fails atomically. C5 to C9: events are idempotent, their deltas exact, reachable repositories
  well formed, a freshly built engine agrees, reported index work is bounded. C10 to C13: the score
  index, the AVL set and the heap multiset implement their contracts; a first policy event is
  rejected by the runner although the reference accepts it. C20: applying a prepared patch gives
  the in-place result or rolls back. C14, C15, C17 and C30: the Hall kernel is exact under
  transitions, the augmenting kernel returns and is maximum, and the three matchers agree. C16: an
  update of the certificate index is exact and can be rolled back. C18, C19, C21 and C22: the
  optimised lane maintains the oracle's states and pays only for real label changes. C23 to C28:
  the epoch coordinator. C29, C36 and C37: the group semantics is the declared one. C31 to C35: the
  sidecar repository keeps its invariant, at every epoch the active versions of a family are unique
  and those of a claim differ in structure, holders are unique, events are atomic, applied once,
  and report exact deltas. C38 and C39: accepted certificates are sound. C40: the digest input
  determines what was digested.

  Interfaces.  \<open>ordered_set\<close> is interpreted by both AVL sets, \<open>min_queue\<close> by the \<open>heapq\<close>
  functions, \<open>prefix_code\<close> by the UTF-8 encoder, the length framing and the typed values,
  \<open>engine_field\<close> and \<open>plain_field\<close> by the seven dictionaries of the engine that a patch writes.

  Bounds and fuel.  \<open>augment\<close> takes the fuel \<open>1 + number of hashes\<close>, enough because every nested
  call has marked one more hash (C15 proves the result exists).  The readers of \<open>GL_M5Digests\<close> take
  the length of their input, which every item shortens.  Masks of at most eight requirements are
  natural numbers below \<open>2 ^ 8\<close>; the eight-byte field lengths bound a field by \<open>2 ^ 64\<close> bytes.

  Parameters.  \<open>sha\<close>, \<open>sha256\<close>: SHA-256 of a text and of bytes.  \<open>dig\<close>: the digest of an event's Python
  \<open>repr\<close>.  \<open>pack\<close>: the IEEE encoding of a float.  \<open>inject\<close>: a callback that may raise.  \<open>order\<close>: the
  iteration order of Python sets, under the hypothesis that it enumerates each element once.  No
  property assumes that a hash is injective.

  Idealised.  \<open>0.0\<close> and \<open>-0.0\<close> are one rational, so a digest of a float does not tell them apart
  although the IEEE bytes do; \<open>str\<close> of an integer has no digit limit, where CPython's raises above
  some thousands of digits.

  Not modelled. In \<open>m5/matching.py\<close>, the views over the certificate index and the repair of
  certificates through them; \<open>m5/incremental_overlay.py\<close> and
  \<open>m5/claim_certificates.py\<close>, which use these. \<open>m4\<close>, \<open>m5/runtime\<close>
  and \<open>postgres\<close> run against a PostgreSQL server whose SQL carries their behaviour;
  \<open>ai\<close> calls external models; \<open>baselines\<close>, \<open>m5/evaluation\<close> and
  \<open>cli.py\<close> measure and demonstrate.
\<close>

section \<open>A concrete runner\<close>

definition demo_engine :: engine where
  "demo_engine = projr (from_repository demo_repo)"

definition demo_runner :: runner where
  "demo_runner = \<lparr>rn_repository = demo_repo, rn_engine = demo_engine\<rparr>"

definition demo_after :: "status_delta list \<times> repo" where
  "demo_after = projr (apply_event demo_sha demo_dig demo_repo demo_delete)"

lemma demo_policy_for: "policy_for demo_repo (demo_policy ''p1'' (1 / 2))"
  by (simp add: policy_for_def demo_current_policy)

lemma demo_engine_for:
  "from_repository demo_repo = Inr demo_engine"
  "engine_for demo_repo (demo_policy ''p1'' (1 / 2)) (dom (dget (claims demo_repo)))
     (dom (dget (answers demo_repo))) demo_engine"
  using from_repository_ok [OF demo_inv demo_policy_for] by (auto simp: demo_engine_def)

lemma demo_tie: "dp_tie_rule_version (demo_policy v t) = ''v1''"
  by (simp add: demo_policy_def)

lemma demo_reachable_runner: "reachable_runner demo_sha demo_dig demo_runner"
proof (rule run_init [OF demo_reachable demo_current_policy demo_tie])
  show "runner_from_repository demo_repo = Inr demo_runner"
    using runner_from_repository_ok [OF demo_inv demo_current_policy demo_tie] demo_engine_for(1)
    by (auto simp: runner_from_repository_def demo_runner_def bind_res_Inr_iff)
qed

lemma demo_runner_ok: "runner_ok demo_runner"
  by (rule reachable_runner_ok [OF demo_reachable_runner])

lemma demo_delete_new: "recorded_event demo_repo (event_id demo_delete) = None"
  by code_simp

lemma demo_apply: "apply_event demo_sha demo_dig demo_repo demo_delete = Inr demo_after"
proof -
  have "isl (apply_event demo_sha demo_dig demo_repo demo_delete) = False" by code_simp
  then show ?thesis by (simp add: demo_after_def)
qed

lemma demo_apply_pair:
  "apply_event demo_sha demo_dig demo_repo demo_delete = Inr (fst demo_after, snd demo_after)"
  by (simp add: demo_apply)

lemma demo_after_policy: "current_policy (snd demo_after) = Inr (demo_policy ''p1'' (1 / 2))"
  by code_simp

lemma demo_index_stores: "index_stores (en_score_index demo_engine) (active_observation demo_repo)"
  using demo_engine_for(2) by (simp add: engine_for_def engine_at_def active_rel_def)

lemma demo_no_x: "active_observation demo_repo ''x'' = None"
  by code_simp

section \<open>The reference semantics\<close>

text \<open>C1: the full-recomputation oracle computes the direct-witness specification.  On every
  well-formed repository with a current policy, \<open>compute_all_states\<close> raises nothing and returns for
  each claim the number of distinct witness texts, the best scores, the sorted witnesses and the
  status of its view, and for each answer the counters and the status over its required claims.\<close>

theorem oracle_computes_specification:
  assumes "repo_inv r" and "current_policy r = Inr p"
  shows "compute_all_states r =
     Inr (map (\<lambda>c. (c, spec_claim_state r p c)) (all_claim_ids r),
          map (\<lambda>a. (a, spec_answer_state r p a)) (all_answer_ids r))"
  by (rule compute_all_states_spec [OF assms])

theorem oracle_computes_specification_witness:
  "compute_all_states demo_repo =
     Inr (map (\<lambda>c. (c, spec_claim_state demo_repo (demo_policy ''p1'' (1 / 2)) c)) (all_claim_ids demo_repo),
          map (\<lambda>a. (a, spec_answer_state demo_repo (demo_policy ''p1'' (1 / 2)) a)) (all_answer_ids demo_repo))"
  by (rule oracle_computes_specification [OF demo_inv demo_current_policy])

text \<open>C2: the incremental engine agrees with the oracle.  If an engine represents a repository
  (possibly without the claims and answers registered since it was last synchronised), then after
  any accepted new event \<open>apply_committed_event\<close> raises nothing, every claim and answer state it
  holds equals the oracle's full recomputation on the repository after the event, its certificates
  are valid, and it represents that repository, so that the next event can be maintained.\<close>

theorem engine_maintains_oracle_states:
  assumes "repo_inv r" and "current_policy r = Inr p" and "engine_for r p K J e"
    and "apply_event sha dig r ev = Inr (ds, r')" and "recorded_event r (event_id ev) = None"
    and "dp_tie_rule_version (next_policy ev p) = dp_tie_rule_version p"
  shows "\<exists>e' cs as. apply_committed_event ev r r' e = Inr e' \<and>
     compute_all_states r' = Inr (cs, as) \<and>
     dict_eq (en_claim_states e') cs \<and> dict_eq (en_answer_states e') as \<and>
     validate_certificates e' = Inr () \<and>
     engine_for r' (next_policy ev p) (dom (dget (claims r'))) (dom (dget (answers r'))) e'"
proof -
  have "policy_for r p" using assms(2) by (simp add: policy_for_def)
  from apply_committed_event_ok [OF assms(1) this assms(3,4,5,2,6)] obtain e' where
    "apply_committed_event ev r r' e = Inr e'" "policy_for r' (next_policy ev p)"
    "engine_for r' (next_policy ev p) (dom (dget (claims r'))) (dom (dget (answers r'))) e'" by blast
  with engine_agrees [OF apply_event_inv [OF assms(1,4)]] show ?thesis by blast
qed

theorem engine_maintains_oracle_states_witness:
  "\<exists>e' cs as. apply_committed_event demo_delete demo_repo (snd demo_after) demo_engine = Inr e' \<and>
     compute_all_states (snd demo_after) = Inr (cs, as) \<and>
     dict_eq (en_claim_states e') cs \<and> dict_eq (en_answer_states e') as \<and>
     validate_certificates e' = Inr () \<and>
     engine_for (snd demo_after) (next_policy demo_delete (demo_policy ''p1'' (1 / 2)))
       (dom (dget (claims (snd demo_after)))) (dom (dget (answers (snd demo_after)))) e'"
  by (rule engine_maintains_oracle_states [OF demo_inv demo_current_policy demo_engine_for(2)
      demo_apply_pair demo_delete_new]) (simp add: demo_delete_def)

text \<open>C3: on every reachable runner, \<open>DifferentialRunner.apply\<close> returns or raises exactly what the
  reference \<open>apply_event\<close> returns or raises: the comparison with the oracle never finds a mismatch,
  no internal assertion fails, and the repository it publishes is the one of the reference.\<close>

theorem runner_returns_reference_result:
  assumes "reachable_runner sha dig rn" and "event_tie_ok ev"
  shows "fst (runner_apply sha dig no_injector rn ev) =
       bind_res (apply_event sha dig (rn_repository rn) ev) (\<lambda>(ds, r'). Inr ds) \<and>
     rn_repository (snd (runner_apply sha dig no_injector rn ev)) =
       (case apply_event sha dig (rn_repository rn) ev of
          Inl _ \<Rightarrow> rn_repository rn | Inr (ds, r') \<Rightarrow> r')"
  using runner_apply_reference [OF reachable_runner_ok [OF assms(1)] assms(2), of sha dig] by auto

theorem runner_returns_reference_result_witness:
  "fst (runner_apply demo_sha demo_dig no_injector demo_runner demo_delete) = Inr (fst demo_after) \<and>
     rn_repository (snd (runner_apply demo_sha demo_dig no_injector demo_runner demo_delete)) = snd demo_after"
proof -
  have tie: "event_tie_ok demo_delete" by (simp add: event_tie_ok_def demo_delete_def)
  from runner_returns_reference_result [OF demo_reachable_runner tie] show ?thesis
    by (simp add: demo_runner_def demo_apply case_prod_beta)
qed

text \<open>C4: whatever the failure injector raises, and whenever the event itself is rejected, the
  runner keeps its repository unchanged and stays well formed: its engine still represents that
  repository.\<close>

theorem runner_failure_is_atomic:
  assumes "runner_ok rn" and "runner_apply sha dig inject rn ev = (Inl x, rn')"
  shows "rn_repository rn' = rn_repository rn \<and> runner_ok rn'"
  by (rule runner_apply_failure [OF assms])

theorem runner_failure_is_atomic_witness:
  "\<exists>rn'. runner_apply demo_sha demo_dig (\<lambda>_. Inl ValueError) demo_runner demo_delete = (Inl ValueError, rn') \<and>
     rn_repository rn' = demo_repo \<and> runner_ok rn'"
proof -
  obtain b e p where sync: "sync_registry demo_repo demo_engine = Inr (b, e)"
    and cmp: "compare_states demo_repo e = Inr ()"
    using runner_sync_ok [OF demo_runner_ok] by (metis demo_runner_def runner.select_convs)
  have "runner_stage demo_sha demo_dig (\<lambda>_. Inl ValueError) demo_repo e demo_delete = Inl ValueError"
    by (simp add: runner_stage_def demo_apply case_prod_beta)
  then have "\<exists>rn'. runner_apply demo_sha demo_dig (\<lambda>_. Inl ValueError) demo_runner demo_delete = (Inl ValueError, rn')"
    using sync cmp by (simp add: runner_apply_def demo_runner_def assert_equivalent_def Let_def)
  then obtain rn' where rn': "runner_apply demo_sha demo_dig (\<lambda>_. Inl ValueError) demo_runner demo_delete =
      (Inl ValueError, rn')" by blast
  from runner_failure_is_atomic [OF demo_runner_ok rn'] rn' show ?thesis
    by (auto simp: demo_runner_def)
qed

section \<open>Events on the repository\<close>

text \<open>C5: applying an event is idempotent.  Once an event has been accepted, applying it again returns
  the recorded deltas and changes nothing, and any event that reuses its identifier with another
  digest is rejected with an event conflict.\<close>

theorem apply_event_is_idempotent:
  assumes "apply_event sha dig r ev = Inr (ds, r')"
  shows "apply_event sha dig r' ev = Inr (ds, r') \<and>
     (\<forall>ev'. event_id ev' = event_id ev \<longrightarrow> dig ev' \<noteq> dig ev \<longrightarrow>
        apply_event sha dig r' ev' = Inl EventConflictError)"
  using apply_event_recorded [OF assms] by (auto intro: apply_event_replay apply_event_conflict)

theorem apply_event_is_idempotent_witness:
  "apply_event demo_sha demo_dig (snd demo_after) demo_delete = Inr (fst demo_after, snd demo_after) \<and>
     apply_event demo_sha demo_dig (snd demo_after) (DeleteDocumentVersionEvent ''e7'' ''v1'') =
       Inl EventConflictError"
proof -
  let ?ev = "DeleteDocumentVersionEvent ''e7'' ''v1''"
  have "event_id ?ev = event_id demo_delete" "demo_dig ?ev \<noteq> demo_dig demo_delete" by code_simp+
  with apply_event_is_idempotent [OF demo_apply_pair] show ?thesis by blast
qed

text \<open>C6: the deltas of a new event are exact: one delta for every claim, then for every answer, whose
  specified status before the event differs from the one after it, in identifier order, with the
  two statuses and the reason.\<close>

theorem apply_event_reports_exact_deltas:
  assumes "repo_inv r" and "apply_event sha dig r ev = Inr (ds, r')"
    and "recorded_event r (event_id ev) = None"
    and "current_policy r = Inr p" and "current_policy r' = Inr q"
  shows "ds = spec_deltas r p r' q ev"
  by (rule apply_event_deltas [OF assms])

theorem apply_event_reports_exact_deltas_witness:
  "fst demo_after =
     spec_deltas demo_repo (demo_policy ''p1'' (1 / 2)) (snd demo_after) (demo_policy ''p1'' (1 / 2)) demo_delete"
  by (rule apply_event_reports_exact_deltas [OF demo_inv demo_apply_pair demo_delete_new
      demo_current_policy demo_after_policy])

definition version_active :: "repo \<Rightarrow> string \<Rightarrow> bool" where
  "version_active r v =
     (case dget (document_version_validity r) v of None \<Rightarrow> False | Some iv \<Rightarrow> interval_active iv)"

text \<open>C7: every repository reached from the empty one by registrations and events is well formed: in
  particular a document has at most one active version, a chunk is active exactly when its document
  version is, and every answer has a required claim.\<close>

theorem reachable_repositories_are_well_formed:
  assumes "reachable_repo sha dig r"
  shows "repo_inv r \<and>
     (\<forall>d v w. v \<in> set (document_versions_of r d) \<longrightarrow> w \<in> set (document_versions_of r d) \<longrightarrow>
        version_active r v \<longrightarrow> version_active r w \<longrightarrow> v = w) \<and>
     (\<forall>c cv. dget (chunk_versions r) c = Some cv \<longrightarrow>
        is_chunk_active r c = version_active r (cv_document_version_id cv)) \<and>
     (\<forall>a. a \<in> set (all_answer_ids r) \<longrightarrow> required_claim_ids r a \<noteq> [])"
proof -
  have inv: "repo_inv r" by (rule reachable_repo_inv [OF assms])
  then have docs: "documents_inv r" and chunks: "chunks_inv r" and claims: "claims_inv r"
    by (simp_all add: repo_inv_def)
  have "v = w" if "v \<in> set (document_versions_of r d)" "w \<in> set (document_versions_of r d)"
    "version_active r v" "version_active r w" for d v w
    using docs that unfolding documents_inv_def version_active_def by (auto split: option.splits)
  moreover have "is_chunk_active r c = version_active r (cv_document_version_id cv)"
    if "dget (chunk_versions r) c = Some cv" for c cv
    using chunks that unfolding chunks_inv_def version_active_def is_chunk_active_def by auto
  moreover have "required_claim_ids r a \<noteq> []" if "a \<in> set (all_answer_ids r)" for a
  proof -
    from that obtain av where "dget (answers r) a = Some av"
      by (metis all_answer_ids_def domD set_dkeys)
    then obtain c cl where "c \<in> set (claim_ids_of_answer r a)" "dget (claims r) c = Some cl" "cl_required cl"
      using claims unfolding claims_inv_def by meson
    then show ?thesis unfolding required_claim_ids_def filter_empty_conv by force
  qed
  ultimately show ?thesis using inv by blast
qed

theorem reachable_repositories_are_well_formed_witness:
  "repo_inv demo_repo \<and> version_active demo_repo ''v1'' \<and> required_claim_ids demo_repo ''a1'' \<noteq> []"
proof -
  have "version_active demo_repo ''v1''" "''a1'' \<in> set (all_answer_ids demo_repo)" by code_simp+
  with reachable_repositories_are_well_formed [OF demo_reachable] show ?thesis by blast
qed

section \<open>The engine and its containers\<close>

text \<open>C8: an engine built from any well-formed repository with a current policy holds exactly the
  oracle's states, and its certificates are valid.\<close>

theorem engine_built_from_repository_agrees:
  assumes "repo_inv r" and "current_policy r = Inr p"
  shows "\<exists>e cs as. from_repository r = Inr e \<and> compute_all_states r = Inr (cs, as) \<and>
     dict_eq (en_claim_states e) cs \<and> dict_eq (en_answer_states e) as \<and>
     validate_certificates e = Inr ()"
proof -
  have pol: "policy_for r p" using assms(2) by (simp add: policy_for_def)
  from from_repository_ok [OF assms(1) pol] engine_agrees [OF assms(1) pol] show ?thesis by blast
qed

theorem engine_built_from_repository_agrees_witness:
  "\<exists>e cs as. from_repository demo_repo = Inr e \<and> compute_all_states demo_repo = Inr (cs, as) \<and>
     dict_eq (en_claim_states e) cs \<and> dict_eq (en_answer_states e) as \<and>
     validate_certificates e = Inr ()"
  by (rule engine_built_from_repository_agrees [OF demo_inv demo_current_policy])

text \<open>C9: the score-index work that an event reports never exceeds the bound it reports, which is
  logarithmic in the number of active observations per point update.\<close>

theorem reported_index_work_is_bounded:
  assumes "repo_inv r" and "current_policy r = Inr p" and "engine_for r p K J e"
    and "apply_event sha dig r ev = Inr (ds, r')" and "recorded_event r (event_id ev) = None"
    and "dp_tie_rule_version (next_policy ev p) = dp_tie_rule_version p"
    and "apply_committed_event ev r r' e = Inr e'"
  shows "st_score_index_shift_work (en_last_stats e') \<le> st_score_index_shift_upper_bound (en_last_stats e')"
proof -
  have "policy_for r p" using assms(2) by (simp add: policy_for_def)
  from apply_committed_event_ok [OF assms(1) this assms(3,4,5,2,6)] assms(7) show ?thesis by auto
qed

theorem reported_index_work_is_bounded_witness:
  "\<exists>e'. apply_committed_event demo_delete demo_repo (snd demo_after) demo_engine = Inr e' \<and>
     st_score_index_shift_work (en_last_stats e') \<le> st_score_index_shift_upper_bound (en_last_stats e')"
proof -
  have tie: "dp_tie_rule_version (next_policy demo_delete (demo_policy ''p1'' (1 / 2))) =
      dp_tie_rule_version (demo_policy ''p1'' (1 / 2))" by (simp add: demo_delete_def)
  obtain e' where e': "apply_committed_event demo_delete demo_repo (snd demo_after) demo_engine = Inr e'"
    using apply_committed_event_ok [OF demo_inv demo_policy_for demo_engine_for(2) demo_apply_pair
        demo_delete_new demo_current_policy tie] by blast
  from reported_index_work_is_bounded [OF demo_inv demo_current_policy demo_engine_for(2)
      demo_apply_pair demo_delete_new tie e'] e' show ?thesis by blast
qed

text \<open>C10: the threshold index is complete and exact.  An index that stores the active observations
  returns, for a change of policy under the same tie rule, exactly the active observations with a
  score in one of the two gaps between the thresholds; every other observation keeps its label.\<close>

theorem policy_candidates_are_exact:
  assumes "index_stores ix A" and "dp_tie_rule_version p = dp_tie_rule_version q"
  shows "\<exists>cands. policy_candidates ix p q = Inr cands \<and>
     cands = {i. \<exists>ob. A i = Some ob \<and>
       (in_threshold_gap (dp_support_threshold p) (dp_support_threshold q) (ob_support_score ob) \<or>
        in_threshold_gap (dp_refute_threshold p) (dp_refute_threshold q) (ob_refute_score ob))} \<and>
     (\<forall>i ob. A i = Some ob \<longrightarrow> decide ob p \<noteq> decide ob q \<longrightarrow> i \<in> cands)"
  using policy_candidates_index [OF assms] decide_stable_outside_gaps by (intro exI conjI) auto

theorem policy_candidates_are_exact_witness:
  "\<exists>cands. policy_candidates (en_score_index demo_engine) (demo_policy ''p1'' (1 / 2)) (demo_policy ''p2'' (95 / 100)) =
     Inr cands \<and> (\<forall>i ob. active_observation demo_repo i = Some ob \<longrightarrow>
       decide ob (demo_policy ''p1'' (1 / 2)) \<noteq> decide ob (demo_policy ''p2'' (95 / 100)) \<longrightarrow> i \<in> cands)"
proof -
  have "dp_tie_rule_version (demo_policy ''p1'' (1 / 2)) = dp_tie_rule_version (demo_policy ''p2'' (95 / 100))"
    by (simp add: demo_tie)
  from policy_candidates_are_exact [OF demo_index_stores this] show ?thesis by blast
qed

text \<open>C11: on every well-formed \<open>_AVLSet\<close> of scores, \<open>add\<close> and \<open>remove\<close> act as insertion and removal
  of a set, keep the tree balanced with exact cached heights, raise an assertion error exactly on a
  duplicate or a missing entry, and do work within the published bound.\<close>

theorem avl_point_updates_are_exact:
  assumes "avl_inv (t :: score_key avl_set)"
  shows "(case avl_add t k of
       Inl x \<Rightarrow> x = AssertionError \<and> k \<in> avl_elems t
     | Inr (t', w) \<Rightarrow> avl_inv t' \<and> k \<notin> avl_elems t \<and> avl_elems t' = insert k (avl_elems t) \<and>
         w \<le> update_work_bound (card (avl_elems t))) \<and>
     (case avl_remove t k of
       Inl x \<Rightarrow> x = AssertionError \<and> k \<notin> avl_elems t
     | Inr (t', w) \<Rightarrow> avl_inv t' \<and> k \<in> avl_elems t \<and> avl_elems t' = avl_elems t - {k} \<and>
         w \<le> update_work_bound (card (avl_elems t))) \<and>
     avl_contains (avl_root t) k = (k \<in> avl_elems t) \<and> avl_size t = int (card (avl_elems t))"
proof -
  have bst: "bst (shape (avl_root t))" using assms by (simp add: avl_inv_def)
  have dup: "avl_add t k = Inl AssertionError" if "k \<in> avl_elems t"
    using that bst avl_insert_present [of "avl_root t" k] by (simp add: avl_add_def avl_elems_def)
  have missing: "avl_remove t k = Inl AssertionError" if "k \<notin> avl_elems t"
    using that avl_delete_absent [of k "avl_root t"] by (simp add: avl_remove_def avl_elems_def)
  have add: "case avl_add t k of
       Inl x \<Rightarrow> x = AssertionError \<and> k \<in> avl_elems t
     | Inr (t', w) \<Rightarrow> avl_inv t' \<and> k \<notin> avl_elems t \<and> avl_elems t' = insert k (avl_elems t) \<and>
         w \<le> update_work_bound (card (avl_elems t))"
  proof (cases "k \<in> avl_elems t")
    case False
    from avl_add_ok [OF assms False] obtain t' w where "avl_add t k = Inr (t', w)" "avl_inv t'"
      "avl_elems t' = insert k (avl_elems t)" by blast
    with avl_add_work [OF assms] False show ?thesis by simp
  qed (simp add: dup)
  have remove: "case avl_remove t k of
       Inl x \<Rightarrow> x = AssertionError \<and> k \<notin> avl_elems t
     | Inr (t', w) \<Rightarrow> avl_inv t' \<and> k \<in> avl_elems t \<and> avl_elems t' = avl_elems t - {k} \<and>
         w \<le> update_work_bound (card (avl_elems t))"
  proof (cases "k \<in> avl_elems t")
    case True
    from avl_remove_ok [OF assms True] obtain t' w where "avl_remove t k = Inr (t', w)" "avl_inv t'"
      "avl_elems t' = avl_elems t - {k}" by blast
    with avl_remove_work [OF assms] True show ?thesis by simp
  qed (simp add: missing)
  have "avl_contains (avl_root t) k = (k \<in> avl_elems t)" "avl_size t = int (card (avl_elems t))"
    using avl_contains [OF bst, of k] assms by (simp_all add: avl_elems_def avl_inv_def)
  with add remove show ?thesis by blast
qed

theorem avl_point_updates_are_exact_witness:
  "\<exists>t w. avl_add (support_entries (en_score_index demo_engine)) (0, ''x'') = Inr (t, w) \<and>
     avl_elems t = insert (0, ''x'') (avl_elems (support_entries (en_score_index demo_engine)))"
proof -
  let ?t = "support_entries (en_score_index demo_engine)"
  have inv: "avl_inv ?t"
    using demo_index_stores by (simp add: index_stores_def m2_set.stores_def)
  have "(0, ''x'') \<notin> avl_elems ?t"
    using demo_index_stores demo_no_x by (auto simp: index_stores_def m2_set.stores_def index_of_mem)
  with avl_point_updates_are_exact [OF inv, of "(0, ''x'')"] show ?thesis
    by (auto split: sum.splits)
qed

text \<open>C12: the lazily pruned score multiset refines a multiset: adding and removing a score act on
  the multiset, removing an absent score is an assertion error, and the maximum is exact after any
  history.\<close>

theorem score_multiset_refines_multiset:
  assumes "sm_rel m M"
  shows "sm_rel (sm_add v m) (add_mset v M) \<and>
     (case sm_remove v m of
        Inl x \<Rightarrow> x = AssertionError \<and> v \<notin># M
      | Inr m' \<Rightarrow> v \<in># M \<and> sm_rel m' (M - {#v#})) \<and>
     fst (sm_maximum m) = (if M = {#} then None else Some (Max (set_mset M))) \<and>
     sm_rel (snd (sm_maximum m)) M"
proof -
  have "sm_remove v m = Inl AssertionError" if "v \<notin># M"
    using sm_relD(3) [OF assms, of v] that by (simp add: sm_remove_def not_in_iff)
  moreover have "\<exists>m'. sm_remove v m = Inr m' \<and> sm_rel m' (M - {#v#})" if "v \<in># M"
    by (rule sm_remove_rel [OF assms that])
  moreover have "fst (sm_maximum m) = (if M = {#} then None else Some (Max (set_mset M))) \<and>
     sm_rel (snd (sm_maximum m)) M"
    using sm_maximum_rel [OF assms] by auto
  moreover have "sm_rel (sm_add v m) (add_mset v M)" by (rule sm_add_rel [OF assms])
  ultimately show ?thesis by (cases "v \<in># M") auto
qed

theorem score_multiset_refines_multiset_witness:
  "fst (sm_maximum (sm_add (1 / 3) (sm_add (2 / 3) sm_new))) = Some (2 / 3)"
proof -
  have "sm_rel (sm_add (2 / 3) sm_new) {#2 / 3#}" using sm_add_rel [OF sm_new_rel] .
  then have "sm_rel (sm_add (1 / 3) (sm_add (2 / 3) sm_new)) {#1 / 3, 2 / 3#}"
    using score_multiset_refines_multiset [of _ _ "1 / 3"] by blast
  from score_multiset_refines_multiset [OF this] show ?thesis by simp
qed

text \<open>C13: the runner rejects the first policy event of a fresh repository, which the reference
  accepts.  \<open>_apply_policy_change\<close> reads the current policy of the repository before the event, and
  that read raises when no policy was ever activated, so that a repository whose first policy
  arrives as an event can never be advanced by the runner.\<close>

theorem first_policy_event_is_rejected_by_runner:
  "runner_from_repository empty_repo = Inr \<lparr>rn_repository = empty_repo, rn_engine = new_engine\<rparr> \<and>
     (\<exists>ds r'. apply_event sha dig empty_repo (PolicyChangeEvent eid q) = Inr (ds, r') \<and>
        current_policy r' = Inr q) \<and>
     fst (runner_apply sha dig no_injector \<lparr>rn_repository = empty_repo, rn_engine = new_engine\<rparr>
       (PolicyChangeEvent eid q)) = Inl ValidationError"
proof -
  let ?e = "new_engine" and ?ev = "PolicyChangeEvent eid q"
  let ?rn = "\<lparr>rn_repository = empty_repo, rn_engine = new_engine\<rparr>"
  have build: "from_repository empty_repo = Inr ?e" by code_simp
  have eq: "assert_equivalent ?rn = Inr ()" by code_simp
  have sync: "sync_registry empty_repo ?e = Inr (False, ?e)" by code_simp
  have pol: "current_policy empty_repo = Inl ValidationError" by code_simp
  let ?r1 = "empty_repo\<lparr>current_epoch := 1, policies := [(dp_policy_version q, q)],
    policy_validity := [(dp_policy_version q, (1, None))],
    current_policy_version := Some (dp_policy_version q)\<rparr>"
  have mut: "mutate sha (empty_repo\<lparr>current_epoch := 1\<rparr>) ?ev 1 = Inr ?r1"
    by (simp add: activate_policy_def empty_repo_def dmem_def Let_def)
  have states: "compute_all_states ?r1 = Inr ([], [])" "compute_all_states empty_repo = Inr ([], [])"
    by (simp_all add: compute_all_states_def all_claim_ids_def all_answer_ids_def empty_repo_def)
  have app: "apply_event sha dig empty_repo ?ev = Inr ([], record_event ?r1 eid (dig ?ev) [])"
    using mut states by (simp add: apply_event_def recorded_event_def advance_epoch_def
        status_changes_def empty_repo_def)
  have pol': "current_policy (record_event ?r1 eid (dig ?ev) []) = Inr q"
    by (simp add: current_policy_def record_event_def lookup_def)
  have maint: "apply_committed_event ?ev empty_repo r' ?e = Inl ValidationError" for r'
    by (simp add: apply_committed_event_def sync apply_policy_change_def pol)
  have epochs: "current_epoch (record_event ?r1 eid (dig ?ev) []) \<noteq> current_epoch empty_repo"
    by (simp add: record_event_def empty_repo_def)
  have "runner_stage sha dig no_injector empty_repo ?e ?ev = Inl ValidationError"
    using epochs by (simp add: runner_stage_def app no_injector_def maint)
  then have "fst (runner_apply sha dig no_injector ?rn ?ev) = Inl ValidationError"
    by (simp add: runner_apply_def sync)
  then show ?thesis using build eq app pol' by (simp add: runner_from_repository_def)
qed

section \<open>The optimised lane\<close>

definition demo_order :: "opt_engine iteration_order" where
  "demo_order e S = sorted_list_of_set S"

lemma demo_order: "is_iteration_order demo_order"
  by (simp add: is_iteration_order_def demo_order_def)

definition demo_opt_engine :: opt_engine where
  "demo_opt_engine = projr (opt_from_repository demo_order demo_repo)"

lemma demo_opt_engine_for:
  "opt_from_repository demo_order demo_repo = Inr demo_opt_engine"
  "opt_engine_for demo_repo (demo_policy ''p1'' (1 / 2)) (dom (dget (claims demo_repo)))
     (dom (dget (answers demo_repo))) demo_opt_engine"
  using opt_from_repository_ok [OF demo_order demo_inv demo_policy_for] by (auto simp: demo_opt_engine_def)

definition demo_flipped :: "status_delta list \<times> repo" where
  "demo_flipped = projr (apply_event demo_sha demo_dig demo_repo demo_policy_change)"

lemma demo_flip_apply:
  "apply_event demo_sha demo_dig demo_repo demo_policy_change = Inr (fst demo_flipped, snd demo_flipped)"
proof -
  have "isl (apply_event demo_sha demo_dig demo_repo demo_policy_change) = False" by code_simp
  then show ?thesis by (simp add: demo_flipped_def)
qed

lemma demo_flip_new: "recorded_event demo_repo (event_id demo_policy_change) = None"
  by code_simp

text \<open>C19: the optimised engine agrees with the oracle.  If it represents a repository (possibly
  without the claims and answers registered since its last event), then after any accepted new
  event under tie rule v1 \<open>apply_committed_event\<close> raises nothing, the states it materialises equal
  the oracle's full recomputation on the repository after the event, \<open>validate\<close> succeeds, and it
  represents that repository.  The order in which Python visits its sets does not matter.\<close>

theorem optimized_engine_maintains_oracle_states:
  assumes "is_iteration_order order" and "repo_inv r" and "current_policy r = Inr p"
    and "opt_engine_for r p K J e"
    and "apply_event sha dig r ev = Inr (ds, r')" and "recorded_event r (event_id ev) = None"
    and "dp_tie_rule_version p = ''v1''" and "dp_tie_rule_version (next_policy ev p) = ''v1''"
  shows "\<exists>e' ocs oas cs as. opt_apply_committed_event order ev r r' e = Inr e' \<and>
     opt_claim_states e' = Inr ocs \<and> opt_answer_states e' = Inr oas \<and>
     compute_all_states r' = Inr (cs, as) \<and> dict_eq ocs cs \<and> dict_eq oas as \<and>
     opt_engine_validate e' = Inr () \<and>
     opt_engine_for r' (next_policy ev p) (dom (dget (claims r'))) (dom (dget (answers r'))) e'"
proof -
  have "policy_for r p" using assms(3) by (simp add: policy_for_def)
  from opt_apply_committed_event_ok [OF assms(1,2) this assms(4,5,6,3,7,8)] obtain e' where
    "opt_apply_committed_event order ev r r' e = Inr e'" "policy_for r' (next_policy ev p)"
    "opt_engine_for r' (next_policy ev p) (dom (dget (claims r'))) (dom (dget (answers r'))) e'" by blast
  with opt_engine_agrees [OF apply_event_inv [OF assms(2,5)]] show ?thesis by blast
qed

theorem optimized_engine_maintains_oracle_states_witness:
  "\<exists>e' ocs oas cs as. opt_apply_committed_event demo_order demo_delete demo_repo (snd demo_after) demo_opt_engine = Inr e' \<and>
     opt_claim_states e' = Inr ocs \<and> opt_answer_states e' = Inr oas \<and>
     compute_all_states (snd demo_after) = Inr (cs, as) \<and> dict_eq ocs cs \<and> dict_eq oas as \<and>
     opt_engine_validate e' = Inr ()"
proof -
  have tie: "dp_tie_rule_version (next_policy demo_delete (demo_policy ''p1'' (1 / 2))) = ''v1''"
    by (simp add: demo_delete_def demo_tie)
  from optimized_engine_maintains_oracle_states [OF demo_order demo_inv demo_current_policy
      demo_opt_engine_for(2) demo_apply_pair demo_delete_new demo_tie tie]
  show ?thesis by blast
qed

text \<open>C20: the transactional path is exact and atomic.  On a synchronised engine every accepted event
  can be prepared as a patch without touching the engine.  Applying the patch runs to the end unless
  the injector raises, and then the engine has the contents that the in-place update gives it, which
  are the oracle's states for the new repository; the same patch is refused from then on.  If the
  injector raises at any checkpoint, the engine is rolled back to the contents it had.  A preview of
  claims shows the states of the new repository before the patch is applied.\<close>

theorem state_patch_is_exact_and_atomic:
  assumes "repo_inv r" and "current_policy r = Inr p"
    and "engine_for r p (dom (dget (claims r))) (dom (dget (answers r))) e"
    and "apply_event sha dig r ev = Inr (ds, r')" and "recorded_event r (event_id ev) = None"
    and "dp_tie_rule_version (next_policy ev p) = dp_tie_rule_version p"
  shows "\<exists>pt e1 cs as. prepare_committed_event_patch ev r r' e = Inr pt \<and>
     apply_committed_event ev r r' e = Inr e1 \<and> compute_all_states r' = Inr (cs, as) \<and>
     (\<forall>cids. set cids \<subseteq> dom (dget cs) \<longrightarrow>
        (\<exists>d. preview_claim_states_after_patch pt cids e = Inr d \<and> dom (dget d) = set cids \<and>
           (\<forall>c \<in> set cids. dget d c = dget cs c))) \<and>
     (\<forall>inject. case apply_state_patch inject pt e of
        (Inl x, e2) \<Rightarrow> contents e2 = contents e \<and> \<not> quiet_injector inject
      | (Inr _, e2) \<Rightarrow> contents e2 = contents e1 \<and>
          dict_eq (en_claim_states e2) cs \<and> dict_eq (en_answer_states e2) as \<and>
          (\<forall>inject2. apply_state_patch inject2 pt e2 = (Inl AssertionError, e2)))"
proof -
  let ?A = "active_observation r"
  have pol: "policy_for r p" using assms(2) by (simp add: policy_for_def)
  have ix: "index_stores (en_score_index e) ?A"
    using assms(3) by (simp add: engine_for_def engine_at_def active_rel_def)
  from patch_of_event [OF assms(1) pol assms(3,4,5,2,6)] obtain pt e1 where
    run: "prepare_committed_event_patch ev r r' e = Inr pt" "apply_committed_event ev r r' e = Inr e1"
    and pt: "patch_to e ?A pt e1" and pol': "policy_for r' (next_policy ev p)"
    and eng: "engine_for r' (next_policy ev p) (dom (dget (claims r'))) (dom (dget (answers r'))) e1" by blast
  from engine_agrees [OF apply_event_inv [OF assms(1,4)] pol' eng] obtain cs as where
    states: "compute_all_states r' = Inr (cs, as)" "dict_eq (en_claim_states e1) cs" "dict_eq (en_answer_states e1) as"
    by blast
  have preview: "\<exists>d. preview_claim_states_after_patch pt cids e = Inr d \<and> dom (dget d) = set cids \<and>
      (\<forall>c \<in> set cids. dget d c = dget cs c)" if "set cids \<subseteq> dom (dget cs)" for cids
    using preview_ok [OF pt ix, of cids] that states(2) unfolding dict_eq_iff by simp
  have applied: "case apply_state_patch inject pt e of
        (Inl x, e2) \<Rightarrow> contents e2 = contents e \<and> \<not> quiet_injector inject
      | (Inr _, e2) \<Rightarrow> contents e2 = contents e1 \<and>
          dict_eq (en_claim_states e2) cs \<and> dict_eq (en_answer_states e2) as \<and>
          (\<forall>inject2. apply_state_patch inject2 pt e2 = (Inl AssertionError, e2))" for inject
  proof -
    obtain res e2 where ap: "apply_state_patch inject pt e = (res, e2)" by fastforce
    note atomic = apply_patch_atomic [OF pt ix ap]
    show ?thesis
    proof (cases res)
      case (Inl x)
      then show ?thesis using atomic(2) [OF Inl] atomic(3) by (auto simp: ap)
    next
      case (Inr u)
      then have c: "contents e2 = contents e1" using atomic(1) by simp
      have "pt_expected_state_revision pt \<noteq> en_state_revision e2"
        using patch_toD(1,13) [OF pt] arg_cong [OF c, of ct_state_revision] by (simp add: contents_def)
      note stale = stale_patch [OF this]
      have "dget (en_claim_states e2) = dget (en_claim_states e1)" "dget (en_answer_states e2) = dget (en_answer_states e1)"
        unfolding contents_selectors [symmetric] c by (rule refl)+
      then show ?thesis using Inr c states(2,3) stale by (simp add: ap dict_eq_iff)
    qed
  qed
  from run states(1) preview applied show ?thesis by blast
qed

theorem state_patch_is_exact_and_atomic_witness:
  "\<exists>pt e1 cs as. prepare_committed_event_patch demo_delete demo_repo (snd demo_after) demo_engine = Inr pt \<and>
     apply_committed_event demo_delete demo_repo (snd demo_after) demo_engine = Inr e1 \<and>
     compute_all_states (snd demo_after) = Inr (cs, as) \<and>
     (\<forall>cids. set cids \<subseteq> dom (dget cs) \<longrightarrow>
        (\<exists>d. preview_claim_states_after_patch pt cids demo_engine = Inr d \<and> dom (dget d) = set cids \<and>
           (\<forall>c \<in> set cids. dget d c = dget cs c))) \<and>
     (\<forall>inject. case apply_state_patch inject pt demo_engine of
        (Inl x, e2) \<Rightarrow> contents e2 = contents demo_engine \<and> \<not> quiet_injector inject
      | (Inr _, e2) \<Rightarrow> contents e2 = contents e1 \<and>
          dict_eq (en_claim_states e2) cs \<and> dict_eq (en_answer_states e2) as \<and>
          (\<forall>inject2. apply_state_patch inject2 pt e2 = (Inl AssertionError, e2)))"
  by (rule state_patch_is_exact_and_atomic [OF demo_inv demo_current_policy demo_engine_for(2)
      demo_apply_pair demo_delete_new]) (simp add: demo_delete_def)

text \<open>An optimised engine built from any well-formed repository with a current policy raises
  nothing, materialises exactly the oracle's states, and passes its own validation.\<close>

theorem optimized_engine_built_from_repository_agrees:
  assumes "is_iteration_order order" and "repo_inv r" and "current_policy r = Inr p"
  shows "\<exists>e ocs oas cs as. opt_from_repository order r = Inr e \<and>
     opt_claim_states e = Inr ocs \<and> opt_answer_states e = Inr oas \<and>
     compute_all_states r = Inr (cs, as) \<and> dict_eq ocs cs \<and> dict_eq oas as \<and>
     opt_engine_validate e = Inr ()"
proof -
  have pol: "policy_for r p" using assms(3) by (simp add: policy_for_def)
  from opt_from_repository_ok [OF assms(1,2) pol] opt_engine_agrees [OF assms(2) pol] show ?thesis by blast
qed

theorem optimized_engine_built_from_repository_agrees_witness:
  "\<exists>e ocs oas cs as. opt_from_repository demo_order demo_repo = Inr e \<and>
     opt_claim_states e = Inr ocs \<and> opt_answer_states e = Inr oas \<and>
     compute_all_states demo_repo = Inr (cs, as) \<and> dict_eq ocs cs \<and> dict_eq oas as \<and>
     opt_engine_validate e = Inr ()"
  by (rule optimized_engine_built_from_repository_agrees [OF demo_order demo_inv demo_current_policy])

text \<open>C21: a threshold change is output-sensitive in the optimised engine.  The number of candidates
  its index emits and the number of decision flips it reports both equal the number of active
  observations whose label differs between the two policies: no emitted row is wasted.\<close>

theorem optimized_policy_change_work_is_exact:
  assumes "is_iteration_order order" and "repo_inv r" and "current_policy r = Inr p"
    and "opt_engine_for r p K J e"
    and "apply_event sha dig r (PolicyChangeEvent eid q) = Inr (ds, r')"
    and "recorded_event r eid = None"
    and "dp_tie_rule_version p = ''v1''" and "dp_tie_rule_version q = ''v1''"
  shows "\<exists>e'. opt_apply_committed_event order (PolicyChangeEvent eid q) r r' e = Inr e' \<and>
     os_policy_index_candidates (oe_last_stats e') = os_decision_flips (oe_last_stats e') \<and>
     os_decision_flips (oe_last_stats e') =
       card {i. \<exists>ob. active_observation r i = Some ob \<and> decide ob p \<noteq> decide ob q}"
proof -
  have pol: "policy_for r p" using assms(3) by (simp add: policy_for_def)
  let ?ev = "PolicyChangeEvent eid q"
  have new: "recorded_event r (event_id ?ev) = None" using assms(6) by simp
  have tie: "dp_tie_rule_version (next_policy ?ev p) = ''v1''" using assms(8) by simp
  from opt_apply_committed_event_ok [OF assms(1,2) pol assms(4,5) new assms(3,7) tie] show ?thesis
    by (auto simp: flips_between_def flipped_def)
qed

theorem optimized_policy_change_work_is_exact_witness:
  "\<exists>e'. opt_apply_committed_event demo_order demo_policy_change demo_repo (snd demo_flipped) demo_opt_engine = Inr e' \<and>
     os_decision_flips (oe_last_stats e') =
       card {i. \<exists>ob. active_observation demo_repo i = Some ob \<and>
         decide ob (demo_policy ''p1'' (1 / 2)) \<noteq> decide ob (demo_policy ''p2'' (95 / 100))}"
proof -
  have new: "recorded_event demo_repo ''e8'' = None" by code_simp
  from optimized_policy_change_work_is_exact [OF demo_order demo_inv demo_current_policy
      demo_opt_engine_for(2) demo_flip_apply [unfolded demo_policy_change_def] new demo_tie demo_tie]
  show ?thesis unfolding demo_policy_change_def by blast
qed

text \<open>C22: the ordered set of the optimised lane implements a finite set, and its \<open>validate\<close> accepts
  exactly the well-formed trees (search order, cached heights and sizes, AVL balance).  On an accepted
  tree, insertion and deletion keep it accepted and change the stored set by that key, a duplicate
  insertion and a missing deletion raise \<open>KeyError\<close>, the size and the maximum score are exact.\<close>

theorem validated_ordered_set_implements_set:
  assumes "opt_validate (t :: score_ordered_set) = Inr ()"
  shows "(case opt_insert t k of
       Inl x \<Rightarrow> x = KeyError \<and> k \<in> opt_elems t
     | Inr t' \<Rightarrow> k \<notin> opt_elems t \<and> opt_elems t' = insert k (opt_elems t) \<and> opt_validate t' = Inr ()) \<and>
     (case opt_delete t k of
       Inl x \<Rightarrow> x = KeyError \<and> k \<notin> opt_elems t
     | Inr t' \<Rightarrow> k \<in> opt_elems t \<and> opt_elems t' = opt_elems t - {k} \<and> opt_validate t' = Inr ()) \<and>
     opt_size t = int (card (opt_elems t)) \<and>
     opt_maximum_score t = (if opt_elems t = {} then None else Some (Max (fst ` opt_elems t))) \<and>
     set (opt_ids_between t lower upper) = {i. \<exists>x. (x, i) \<in> opt_elems t \<and> lower \<le> x \<and> x < upper}"
proof -
  have inv: "opt_inv t" using assms by (simp only: opt_validate_iff)
  then have bst: "bst (opt_shape t)" by (simp add: opt_inv_def)
  have "case opt_insert t k of
       Inl x \<Rightarrow> x = KeyError \<and> k \<in> opt_elems t
     | Inr t' \<Rightarrow> k \<notin> opt_elems t \<and> opt_elems t' = insert k (opt_elems t) \<and> opt_validate t' = Inr ()"
  proof (cases "k \<in> opt_elems t")
    case True
    then show ?thesis using opt_insert_present [OF bst, of k] by (simp add: opt_elems_def)
  next
    case False
    from opt_insert_ok [OF inv False] obtain t' where
      "opt_insert t k = Inr t'" "opt_inv t'" "opt_elems t' = insert k (opt_elems t)" by blast
    with False opt_validate_iff [of t'] show ?thesis by auto
  qed
  moreover have "case opt_delete t k of
       Inl x \<Rightarrow> x = KeyError \<and> k \<notin> opt_elems t
     | Inr t' \<Rightarrow> k \<in> opt_elems t \<and> opt_elems t' = opt_elems t - {k} \<and> opt_validate t' = Inr ()"
  proof (cases "k \<in> opt_elems t")
    case False
    then show ?thesis using opt_delete_absent [of k t] by (simp add: opt_elems_def)
  next
    case True
    from opt_delete_ok [OF inv True] obtain t' where
      "opt_delete t k = Inr t'" "opt_inv t'" "opt_elems t' = opt_elems t - {k}" by blast
    with True opt_validate_iff [of t'] show ?thesis by auto
  qed
  moreover have "opt_size t = int (card (opt_elems t))"
    using inv by (simp add: opt_inv_def opt_elems_def opt_meta_values bst_size_card)
  moreover have "set (opt_ids_between t lower upper) = {i. \<exists>x. (x, i) \<in> opt_elems t \<and> lower \<le> x \<and> x < upper}"
    unfolding opt_ids_between [OF bst] by (force simp: opt_elems_def)
  ultimately show ?thesis using opt_maximum_score [OF inv] by blast
qed

theorem validated_ordered_set_implements_set_witness:
  "\<exists>t. opt_insert ONone (1 / 2 :: rat, ''x'') = Inr t \<and> opt_validate t = Inr () \<and>
     opt_insert t (1 / 2, ''x'') = Inl KeyError"
proof -
  let ?k = "(1 / 2 :: rat, ''x'')" and ?t = "ONode (1 / 2 :: rat, ''x'') ONone ONone 1 1"
  have new: "opt_insert ONone ?k = Inr ?t" by simp
  have val: "opt_validate ?t = Inr ()" by (simp add: opt_validate_def)
  have mem: "?k \<in> opt_elems ?t" by (simp add: opt_elems_def)
  from validated_ordered_set_implements_set [OF val, of ?k] mem have "opt_insert ?t ?k = Inl KeyError"
    by (auto split: sum.splits)
  with new val show ?thesis by blast
qed

end
